(* ===== verification/Croton_Prelude.thy ===== *)
theory Croton_Prelude
  imports Main "HOL-Library.Word" "HOL-Library.Sublist" "HOL-Library.Code_Target_Nat"
begin

text \<open>
  Shared ground of the development: Go's byte strings and the functions of the Go standard
  library on them that the modelled sources call (\<^verbatim>\<open>strings\<close>, \<^verbatim>\<open>bytes\<close>,
  \<^verbatim>\<open>strconv\<close>), fallible state transformers, and the lemmas on them that several
  components use.

  A Go \<^verbatim>\<open>string\<close> or \<^verbatim>\<open>[]byte\<close> is a list of 8 bit characters, so \<open>length\<close> counts
  bytes as Go's \<^verbatim>\<open>len\<close> does. A Go \<^verbatim>\<open>uint32\<close> is a 32 bit word.
\<close>

type_synonym bytes = "char list"
type_synonym uint32 = "32 word"

definition byte_val :: "char \<Rightarrow> nat" where
  "byte_val c = (of_char c :: nat)"

abbreviation CR :: char where "CR \<equiv> CHR 0x0D"
abbreviation LF :: char where "LF \<equiv> CHR 0x0A"
abbreviation TAB :: char where "TAB \<equiv> CHR 0x09"
abbreviation SP :: char where "SP \<equiv> CHR 0x20"
abbreviation DQUOTE :: char where "DQUOTE \<equiv> CHR 0x22"
abbreviation BACKSLASH :: char where "BACKSLASH \<equiv> CHR 0x5C"
abbreviation CRLF :: bytes where "CRLF \<equiv> [CR, LF]"

section \<open>Go's string functions\<close>

text \<open>\<^verbatim>\<open>strings.HasPrefix\<close>, \<^verbatim>\<open>strings.HasSuffix\<close>.\<close>

definition has_prefix :: "bytes \<Rightarrow> bytes \<Rightarrow> bool" where
  "has_prefix s p \<longleftrightarrow> take (length p) s = p"

definition has_suffix :: "bytes \<Rightarrow> bytes \<Rightarrow> bool" where
  "has_suffix s p \<longleftrightarrow> length p \<le> length s \<and> drop (length s - length p) s = p"

text \<open>\<^verbatim>\<open>strings.CutPrefix\<close>, \<^verbatim>\<open>strings.CutSuffix\<close>, \<^verbatim>\<open>strings.TrimPrefix\<close>, \<^verbatim>\<open>strings.TrimSuffix\<close>.\<close>

definition cut_prefix :: "bytes \<Rightarrow> bytes \<Rightarrow> bytes \<times> bool" where
  "cut_prefix s p = (if has_prefix s p then (drop (length p) s, True) else (s, False))"

definition cut_suffix :: "bytes \<Rightarrow> bytes \<Rightarrow> bytes \<times> bool" where
  "cut_suffix s p = (if has_suffix s p then (take (length s - length p) s, True) else (s, False))"

definition trim_prefix :: "bytes \<Rightarrow> bytes \<Rightarrow> bytes" where
  "trim_prefix s p = fst (cut_prefix s p)"

definition trim_suffix :: "bytes \<Rightarrow> bytes \<Rightarrow> bytes" where
  "trim_suffix s p = fst (cut_suffix s p)"

text \<open>\<^verbatim>\<open>strings.Cut\<close> with a separator of one byte: what stands before and after the first one,
  and whether there was one.\<close>

fun cut_byte :: "char \<Rightarrow> bytes \<Rightarrow> bytes \<times> bytes \<times> bool" where
  "cut_byte c [] = ([], [], False)"
| "cut_byte c (x # xs) =
     (if x = c then ([], xs, True)
      else case cut_byte c xs of (l, r, found) \<Rightarrow> (x # l, r, found))"

text \<open>\<^verbatim>\<open>strings.IndexByte\<close>: \<open>None\<close> is Go's -1.\<close>

fun index_byte :: "char \<Rightarrow> bytes \<Rightarrow> nat option" where
  "index_byte c [] = None"
| "index_byte c (x # xs) = (if x = c then Some 0 else map_option Suc (index_byte c xs))"

text \<open>\<^verbatim>\<open>strings.Split\<close> with a separator of one byte. It always has at least one element.\<close>

fun split_byte :: "char \<Rightarrow> bytes \<Rightarrow> bytes list" where
  "split_byte c [] = [[]]"
| "split_byte c (x # xs) =
     (if x = c then [] # split_byte c xs
      else case split_byte c xs of [] \<Rightarrow> [[x]] | p # ps \<Rightarrow> (x # p) # ps)"

text \<open>\<^verbatim>\<open>strings.ContainsAny\<close> over ASCII cut sets.\<close>

definition contains_any :: "bytes \<Rightarrow> bytes \<Rightarrow> bool" where
  "contains_any s cs \<longleftrightarrow> list_ex (\<lambda>c. c \<in> set cs) s"

subsection \<open>Decimal numbers\<close>

definition is_digit :: "char \<Rightarrow> bool" where
  "is_digit c \<longleftrightarrow> 48 \<le> byte_val c \<and> byte_val c \<le> 57"

definition digit_val :: "char \<Rightarrow> nat" where
  "digit_val c = byte_val c - 48"

definition decimal_val :: "bytes \<Rightarrow> nat" where
  "decimal_val s = foldl (\<lambda>n c. 10 * n + digit_val c) 0 s"

text \<open>\<^verbatim>\<open>strconv.ParseUint(s, 10, bits)\<close>: a sign, an underscore, the empty string and a value that
  does not fit are errors.\<close>

definition parse_uint :: "nat \<Rightarrow> bytes \<Rightarrow> nat option" where
  "parse_uint bits s =
     (if s = [] \<or> \<not> list_all is_digit s then None
      else if decimal_val s < 2 ^ bits then Some (decimal_val s) else None)"

text \<open>\<^verbatim>\<open>strconv.FormatUint(n, 10)\<close>.\<close>

definition digit_char :: "nat \<Rightarrow> char" where
  "digit_char d = char_of (48 + d)"

fun format_uint :: "nat \<Rightarrow> bytes" where
  "format_uint n = (if n < 10 then [digit_char n] else format_uint (n div 10) @ [digit_char (n mod 10)])"

declare format_uint.simps [simp del]

subsection \<open>Case mapping\<close>

definition ascii_lower :: "char \<Rightarrow> char" where
  "ascii_lower c = (if 65 \<le> byte_val c \<and> byte_val c \<le> 90 then char_of (byte_val c + 32) else c)"

definition ascii_upper :: "char \<Rightarrow> char" where
  "ascii_upper c = (if 97 \<le> byte_val c \<and> byte_val c \<le> 122 then char_of (byte_val c - 32) else c)"

text \<open>
  \<^verbatim>\<open>strings.ToUpper\<close>, as far as a comparison of its result with an ASCII constant can see it.
  Two runes outside ASCII have an ASCII upper case: U+017F (bytes C5 BF, long s) maps to S
  and U+0131 (bytes C4 B1, dotless i) maps to I. Every other rune outside ASCII stays
  outside ASCII, so its bytes are kept here: the result differs from every ASCII constant
  exactly when Go's does.
\<close>

fun to_upper :: "bytes \<Rightarrow> bytes" where
  "to_upper (a # b # s) =
     (if a = CHR 0xC5 \<and> b = CHR 0xBF then CHR ''S'' # to_upper s
      else if a = CHR 0xC4 \<and> b = CHR 0xB1 then CHR ''I'' # to_upper s
      else ascii_upper a # to_upper (b # s))"
| "to_upper [a] = [ascii_upper a]"
| "to_upper [] = []"

text \<open>
  \<^verbatim>\<open>strings.EqualFold(s, t)\<close> for a constant \<open>t\<close> of ASCII bytes. Under Go's simple folding two
  runes outside ASCII are equal to an ASCII letter: U+017F (C5 BF) to s and U+212A
  (E2 84 AA, the Kelvin sign) to k.
\<close>

fun fold_runes :: "bytes \<Rightarrow> bytes" where
  "fold_runes (a # b # c # s) =
     (if a = CHR 0xC5 \<and> b = CHR 0xBF then CHR ''s'' # fold_runes (c # s)
      else if a = CHR 0xE2 \<and> b = CHR 0x84 \<and> c = CHR 0xAA then CHR ''k'' # fold_runes s
      else ascii_lower a # fold_runes (b # c # s))"
| "fold_runes [a, b] =
     (if a = CHR 0xC5 \<and> b = CHR 0xBF then [CHR ''s''] else [ascii_lower a, ascii_lower b])"
| "fold_runes [a] = [ascii_lower a]"
| "fold_runes [] = []"

definition equal_fold :: "bytes \<Rightarrow> bytes \<Rightarrow> bool" where
  "equal_fold s t \<longleftrightarrow> fold_runes s = map ascii_lower t"

section \<open>Lemmas on the string functions\<close>

lemma has_prefixE: "has_prefix s p \<Longrightarrow> (\<And>r. s = p @ r \<Longrightarrow> Q) \<Longrightarrow> Q"
  unfolding has_prefix_def by (metis append_take_drop_id)

lemma has_prefix_append [simp]: "has_prefix (p @ r) p"
  by (simp add: has_prefix_def)

lemma has_suffix_append [simp]: "has_suffix (r @ p) p"
  by (simp add: has_suffix_def)

lemma has_suffixE: "has_suffix s p \<Longrightarrow> (\<And>r. s = r @ p \<Longrightarrow> Q) \<Longrightarrow> Q"
  unfolding has_suffix_def by (metis append_take_drop_id)

lemma has_suffix_single: "has_suffix s [c] \<longleftrightarrow> s \<noteq> [] \<and> last s = c"
  by (cases s rule: rev_cases) (auto simp: has_suffix_def)

lemma cut_prefix_SomeD: "cut_prefix s p = (r, True) \<Longrightarrow> s = p @ r"
  by (auto simp: cut_prefix_def split: if_splits elim: has_prefixE)

lemma cut_suffix_SomeD: "cut_suffix s p = (r, True) \<Longrightarrow> s = r @ p"
  by (auto simp: cut_suffix_def split: if_splits elim!: has_suffixE)

lemma cut_byte_append: "c \<notin> set l \<Longrightarrow> cut_byte c (l @ c # r) = (l, r, True)"
  by (induction l) auto

lemma cut_byte_absent: "c \<notin> set s \<Longrightarrow> cut_byte c s = (s, [], False)"
  by (induction s) auto

lemma cut_byte_found: "cut_byte c s = (l, r, True) \<longleftrightarrow> s = l @ c # r \<and> c \<notin> set l"
proof (cases "c \<in> set s")
  case True
  then obtain l' r' where s: "s = l' @ c # r'" "c \<notin> set l'"
    by (metis split_list_first)
  then have "cut_byte c s = (l', r', True)" by (simp add: cut_byte_append)
  moreover have "s = l @ c # r \<and> c \<notin> set l \<longleftrightarrow> l = l' \<and> r = r'"
    using s cut_byte_append [of c l r] cut_byte_append [of c l' r'] by auto
  ultimately show ?thesis by auto
next
  case False
  then show ?thesis by (auto simp: cut_byte_absent)
qed

lemma cut_byte_missing: "cut_byte c s = (l, r, False) \<longleftrightarrow> c \<notin> set s \<and> l = s \<and> r = []"
proof (cases "c \<in> set s")
  case True
  then obtain l' r' where "s = l' @ c # r'" "c \<notin> set l'"
    by (metis split_list_first)
  then show ?thesis by (simp add: cut_byte_append)
next
  case False
  then show ?thesis by (auto simp: cut_byte_absent)
qed

lemma index_byte_None: "index_byte c s = None \<longleftrightarrow> c \<notin> set s"
  by (induction s) auto

lemma index_byte_Some:
  "index_byte c s = Some i \<longleftrightarrow> i < length s \<and> s ! i = c \<and> c \<notin> set (take i s)"
proof (induction s arbitrary: i)
  case Nil
  then show ?case by simp
next
  case (Cons x xs)
  then show ?case by (cases i) auto
qed

lemma split_byte_not_Nil [simp]: "split_byte c s \<noteq> []"
  by (induction s) (auto split: list.splits)

lemma decimal_val_snoc [simp]: "decimal_val (s @ [c]) = 10 * decimal_val s + digit_val c"
  by (simp add: decimal_val_def)

lemma decimal_val_Nil [simp]: "decimal_val [] = 0"
  by (simp add: decimal_val_def)

lemma parse_uint_bound: "parse_uint bits s = Some n \<Longrightarrow> n < 2 ^ bits"
  by (auto simp: parse_uint_def split: if_splits)

lemma parse_uint_digits: "parse_uint bits s = Some n \<Longrightarrow> s \<noteq> [] \<and> list_all is_digit s \<and> n = decimal_val s"
  by (auto simp: parse_uint_def split: if_splits)

lemma byte_val_digit_char [simp]: "d < 10 \<Longrightarrow> byte_val (digit_char d) = 48 + d"
  by (simp add: byte_val_def digit_char_def)

lemma digit_val_digit_char [simp]: "d < 10 \<Longrightarrow> digit_val (digit_char d) = d"
  by (simp add: digit_val_def)

lemma is_digit_digit_char [simp]: "d < 10 \<Longrightarrow> is_digit (digit_char d)"
  by (simp add: is_digit_def)

text \<open>\<^verbatim>\<open>ParseUint\<close> reads back what \<^verbatim>\<open>FormatUint\<close> writes.\<close>

lemma format_uint_digits:
  "format_uint n \<noteq> [] \<and> list_all is_digit (format_uint n) \<and> decimal_val (format_uint n) = n"
proof (induction n rule: format_uint.induct)
  case (1 n)
  show ?case
  proof (cases "n < 10")
    case True
    then show ?thesis
      by (simp add: format_uint.simps [of n] decimal_val_def)
  next
    case False
    with 1 show ?thesis by (simp add: format_uint.simps [of n])
  qed
qed

lemma parse_format_uint: "n < 2 ^ bits \<Longrightarrow> parse_uint bits (format_uint n) = Some n"
  using format_uint_digits [of n] by (simp add: parse_uint_def)

section \<open>Fallible state transformers\<close>

text \<open>
  A Go method that changes its receiver and returns an error is a function from the state to
  the new state and the error, if any. \<open>and_then\<close> is \<^verbatim>\<open>if err := m(); err != nil { return err }\<close>
  followed by the rest: the state keeps what the failing call had already changed.
\<close>

definition and_then :: "'s \<times> 'e option \<Rightarrow> ('s \<Rightarrow> 's \<times> 'e option) \<Rightarrow> 's \<times> 'e option" where
  "and_then r f = (case r of (s, None) \<Rightarrow> f s | (s, Some e) \<Rightarrow> (s, Some e))"

lemma and_then_simps [simp]:
  "and_then (s, None) f = f s"
  "and_then (s, Some e) f = (s, Some e)"
  by (simp_all add: and_then_def)

lemma and_then_None: "and_then r f = (t, None) \<longleftrightarrow> (\<exists>s. r = (s, None) \<and> f s = (t, None))"
  by (cases r; cases "snd r") (auto simp: and_then_def split: option.splits)

end
