(* ===== verification/Bridge_Errors.thy ===== *)
theory Bridge_Errors
  imports Croton_Prelude
begin

text \<open>
  The stable error vocabulary of the Mail bridge (\<^verbatim>\<open>bridge/errors.go\<close>), the classification of
  raw failures into it (\<^verbatim>\<open>mapIMAPError\<close> of \<^verbatim>\<open>bridge/imapclient.go\<close>), and its reduction to the
  tool error codes of the MCP server (\<^verbatim>\<open>internal/mcpserver/errors.go\<close>).
\<close>

section \<open>Bridge codes\<close>

datatype code =
    CodeInvalidConfig | CodeInvalidEndpoint | CodeTLSRequired | CodeTLSMismatch
  | CodeTLSNegotiation | CodeCredentialCommand | CodeCredentialTimeout | CodeCredentialOutput
  | CodeCredentialOverflow | CodeBridgeUnreachable | CodeBoundsExceeded | CodeOperationCanceled
  | CodeCommandTimedOut | CodeAuthentication | CodeMailboxNotFound | CodeStaleMessageID
  | CodeMessageNotFound | CodeInvalidRequest | CodeUnsupported | CodeIMAPCommand
  | CodeIMAPProtocol | CodeAdapterClosed

text \<open>
  The Go errors that reach the bridge's own functions. \<open>AuthenticationFailure\<close> wraps the error
  of a refused LOGIN and unwraps to it; \<open>IMAPError\<close> is go-imap's tagged NO or BAD;
  \<open>OtherError\<close> is any error none of the tests below recognises.
\<close>

datatype go_error =
    BridgeError code
  | AuthenticationFailure go_error
  | EOF_Error | UnexpectedEOF_Error | NetClosed_Error | ConnReset_Error | BrokenPipe_Error
  | NetOp_Error
  | IMAPError
  | ContextCanceled | ContextDeadlineExceeded
  | InputLimit_Error
  | DispatchRefused_Error
  | NormalizeError_Malformed_Header
  | OtherError

text \<open>\<^verbatim>\<open>CodeOf\<close>: \<open>None\<close> is Go's empty string for an unknown error.\<close>

fun CodeOf :: "go_error \<Rightarrow> code option" where
  "CodeOf (BridgeError c) = Some c"
| "CodeOf (AuthenticationFailure e) = CodeOf e"
| "CodeOf _ = None"

text \<open>\<^verbatim>\<open>errors.Is\<close> and \<^verbatim>\<open>errors.As\<close> follow the wrapping chain.\<close>

fun err_root :: "go_error \<Rightarrow> go_error" where
  "err_root (AuthenticationFailure e) = err_root e"
| "err_root e = e"

text \<open>
  What a function can see of its context: \<^verbatim>\<open>ctx.Err()\<close>, and whether the context carries a
  deadline that has passed although \<^verbatim>\<open>Err\<close> is still nil.
\<close>

datatype ctx_error = Canceled | DeadlineExceeded

record ctx_view =
  ctx_Err :: "ctx_error option"
  ctx_deadline_passed :: bool

definition live_ctx :: ctx_view where
  "live_ctx = \<lparr>ctx_Err = None, ctx_deadline_passed = False\<rparr>"

definition connection_lost :: "go_error \<Rightarrow> bool" where
  "connection_lost e \<longleftrightarrow> err_root e \<in>
     {EOF_Error, UnexpectedEOF_Error, NetClosed_Error, ConnReset_Error, BrokenPipe_Error}"

definition is_auth_failure :: "go_error \<Rightarrow> bool" where
  "is_auth_failure e \<longleftrightarrow> (case e of AuthenticationFailure _ \<Rightarrow> True | _ \<Rightarrow> False)"

text \<open>\<^verbatim>\<open>mapIMAPError(ctx, err)\<close>. \<open>None\<close> is the nil error.\<close>

definition mapIMAPError :: "ctx_view option \<Rightarrow> go_error option \<Rightarrow> code option" where
  "mapIMAPError ctx err =
     (case err of None \<Rightarrow> None
      | Some e \<Rightarrow> Some (
        case Option.bind ctx ctx_Err of
          Some Canceled \<Rightarrow> CodeOperationCanceled
        | Some DeadlineExceeded \<Rightarrow> CodeCommandTimedOut
        | None \<Rightarrow>
            if (case ctx of None \<Rightarrow> False | Some c \<Rightarrow> ctx_deadline_passed c) then CodeCommandTimedOut
            else (case CodeOf e of
              Some c \<Rightarrow> c
            | None \<Rightarrow>
                if is_auth_failure e then CodeAuthentication
                else if connection_lost e then CodeBridgeUnreachable
                else if err_root e = NetOp_Error then CodeBridgeUnreachable
                else if err_root e = IMAPError then CodeIMAPCommand
                else CodeIMAPProtocol)))"

lemma mapIMAPError_None [simp]: "mapIMAPError ctx None = None"
  by (simp add: mapIMAPError_def)

lemma mapIMAPError_is_error: "mapIMAPError ctx (Some e) \<noteq> None"
  by (simp add: mapIMAPError_def)

lemma mapIMAPError_live_code [simp]: "mapIMAPError (Some live_ctx) (Some (BridgeError c)) = Some c"
  by (simp add: mapIMAPError_def live_ctx_def)

text \<open>Mapping an error twice under the same context changes nothing.\<close>

lemma mapIMAPError_idem:
  "mapIMAPError ctx (map_option BridgeError (mapIMAPError ctx e)) = mapIMAPError ctx e"
proof (cases e)
  case None
  then show ?thesis by simp
next
  case (Some x)
  then show ?thesis
    by (cases "Option.bind ctx ctx_Err") (simp_all add: mapIMAPError_def split: ctx_error.split)
qed

section \<open>Tool error codes\<close>

datatype tool_code =
    errInvalidArgument | errNotFound | errStaleID | errBoundsExceeded | errTimedOut
  | errCanceled | errUnavailable | errUnsupported | errInternal

fun tool_code_of :: "code \<Rightarrow> tool_code" where
  "tool_code_of CodeMailboxNotFound = errNotFound"
| "tool_code_of CodeMessageNotFound = errNotFound"
| "tool_code_of CodeInvalidRequest = errInvalidArgument"
| "tool_code_of CodeUnsupported = errUnsupported"
| "tool_code_of CodeStaleMessageID = errStaleID"
| "tool_code_of CodeBoundsExceeded = errBoundsExceeded"
| "tool_code_of CodeCommandTimedOut = errTimedOut"
| "tool_code_of CodeCredentialTimeout = errTimedOut"
| "tool_code_of CodeOperationCanceled = errCanceled"
| "tool_code_of _ = errUnavailable"

definition mapAdapterError :: "go_error \<Rightarrow> tool_code" where
  "mapAdapterError e = (case CodeOf e of None \<Rightarrow> errInternal | Some c \<Rightarrow> tool_code_of c)"

lemma tool_code_of_not_internal: "tool_code_of c \<noteq> errInternal"
  by (cases c) simp_all

text \<open>Only an error outside the bridge's vocabulary is reported as internal.\<close>

lemma mapAdapterError_internal: "mapAdapterError e = errInternal \<longleftrightarrow> CodeOf e = None"
  by (auto simp: mapAdapterError_def tool_code_of_not_internal split: option.splits)

end
