(* ===== verification/Structure_Quarantine.thy ===== *)
theory Structure_Quarantine
  imports Bridge_Errors
begin

text \<open>
  The structure quarantine of \<^verbatim>\<open>bridge/structure_quarantine.go\<close>: the pre-decoder reader that
  stands between the decrypted transport of one dedicated session and the IMAP client. It
  frames every server response before it releases a byte of it, releases approved controls
  and at most one structure FETCH, swallows FLAGS-only FETCH responses, and refuses
  everything else for good.

  The record below is the Go struct without its source, scratch buffer and mutexes: every
  definition is one section the Go code runs under \<^verbatim>\<open>mu\<close>, so an interleaving of callers is a
  sequence of these definitions (see \<open>reach\<close> in \<open>Quarantine_Safety\<close>). A method that returns
  an error returns the state it leaves behind and the error.
\<close>

section \<open>State\<close>

datatype quarantineDispatch = quarantineIdle | quarantineActive | quarantineDelivered

datatype quarantineMode = quarantineBetween | quarantineLine | quarantineFetch

datatype fetchState =
    fetchOpen | fetchItems | fetchAtom | fetchQuoted | fetchEscape | fetchLiteralSize
  | fetchLiteralCR | fetchLiteralLF | fetchLiteral | fetchEndCR | fetchEndLF

datatype fetchPrevious = previousOpen | previousSpace | previousToken | previousClose

datatype fetchItemPhase = itemName | itemNamed | itemValue | itemDone

datatype fetchItem = itemUID | itemFlags | itemStructure

abbreviation quarantineFrameBytes :: nat where "quarantineFrameBytes \<equiv> 65536"
abbreviation quarantineDepth :: nat where "quarantineDepth \<equiv> 64"
abbreviation quarantineFetchTokens :: nat where "quarantineFetchTokens \<equiv> 4096"
abbreviation quarantineAtomBytes :: nat where "quarantineAtomBytes \<equiv> 4096"
abbreviation quarantineControlBytes :: nat where "quarantineControlBytes \<equiv> 4096"
abbreviation quarantineSessionBytes :: nat where "quarantineSessionBytes \<equiv> 131072"
abbreviation quarantineResponses :: nat where "quarantineResponses \<equiv> 64"
abbreviation quarantineWorkUnits :: nat where "quarantineWorkUnits \<equiv> 8192"
abbreviation quarantineReadBytes :: nat where "quarantineReadBytes \<equiv> 4096"

text \<open>
  \<open>qframe\<close> and \<open>qcap\<close> are the contents and the capacity of the slice \<^verbatim>\<open>frame\<close>; \<open>qliteral\<close> is
  a \<^verbatim>\<open>uint64\<close> that never exceeds 2^32 - 1 after a step (lemma \<open>reach_literal\<close>), so it is kept
  as a natural number.
\<close>

record structureQuarantine =
  qselectedUID :: uint32
  qdispatch :: quarantineDispatch
  qpending :: bytes
  qterminal :: "code option"
  qsessionBytes :: nat
  qresponses :: nat
  qwork :: nat
  qmode :: quarantineMode
  qframe :: bytes
  qcap :: nat
  qlineSpaces :: nat
  qlineCR :: bool
  qstate :: fetchState
  qdepth :: nat
  qtokens :: nat
  qprevious :: fetchPrevious
  qphase :: fetchItemPhase
  qitem :: fetchItem
  qflagsList :: bool
  qatomStart :: nat
  qliteral :: nat
  qdigits :: nat
  quidCount :: nat
  quid :: uint32
  qflags :: nat
  qstructure :: nat

type_synonym qstep = "structureQuarantine \<times> code option"

text \<open>\<^verbatim>\<open>newStructureQuarantine(source, selectedUID)\<close>; the first argument says whether the source
  is non-nil.\<close>

definition newStructureQuarantine :: "bool \<Rightarrow> uint32 \<Rightarrow> code + structureQuarantine" where
  "newStructureQuarantine source selectedUID =
     (if \<not> source \<or> selectedUID = 0 then Inl CodeInvalidRequest
      else Inr \<lparr>qselectedUID = selectedUID, qdispatch = quarantineIdle, qpending = [],
        qterminal = None, qsessionBytes = 0, qresponses = 0, qwork = 0,
        qmode = quarantineBetween, qframe = [], qcap = 0, qlineSpaces = 0, qlineCR = False,
        qstate = fetchOpen, qdepth = 0, qtokens = 0, qprevious = previousOpen, qphase = itemName,
        qitem = itemUID, qflagsList = False, qatomStart = 0, qliteral = 0, qdigits = 0,
        quidCount = 0, quid = 0, qflags = 0, qstructure = 0\<rparr>)"

definition refuseLocked :: "code \<Rightarrow> structureQuarantine \<Rightarrow> structureQuarantine" where
  "refuseLocked e q = q\<lparr>qterminal := Some e, qframe := [], qcap := 0\<rparr>"

definition beginDispatch :: "structureQuarantine \<Rightarrow> qstep" where
  "beginDispatch q =
     (if qterminal q \<noteq> None then (q, qterminal q)
      else if qdispatch q \<noteq> quarantineIdle then
        (refuseLocked CodeIMAPProtocol q, Some CodeIMAPProtocol)
      else (q\<lparr>qdispatch := quarantineActive\<rparr>, None))"

definition abort_code :: "go_error option \<Rightarrow> code" where
  "abort_code cause = (case cause of
      None \<Rightarrow> CodeCommandTimedOut
    | Some e \<Rightarrow> if err_root e = ContextCanceled \<or> CodeOf e = Some CodeOperationCanceled
              then CodeOperationCanceled else CodeCommandTimedOut)"

definition abortLocked :: "go_error option \<Rightarrow> structureQuarantine \<Rightarrow> structureQuarantine" where
  "abortLocked cause q = refuseLocked (abort_code cause) q"

definition abort :: "go_error option \<Rightarrow> structureQuarantine \<Rightarrow> qstep" where
  "abort cause q =
     (if qterminal q \<noteq> None then (q, qterminal q)
      else (let q' = abortLocked cause q in (q', qterminal q')))"

definition sourceFailedLocked :: "go_error \<Rightarrow> structureQuarantine \<Rightarrow> structureQuarantine" where
  "sourceFailedLocked e q =
     (if err_root e \<in> {ContextCanceled, ContextDeadlineExceeded} then abortLocked (Some e) q
      else if qmode q \<noteq> quarantineBetween then refuseLocked CodeIMAPProtocol q
      else refuseLocked CodeBridgeUnreachable q)"

section \<open>Lexical predicates\<close>

definition quarantineAtomChar :: "char \<Rightarrow> bool" where
  "quarantineAtomChar c \<longleftrightarrow> \<not> (byte_val c \<le> 32 \<or> byte_val c \<ge> 127) \<and>
     c \<notin> set [CHR ''('', CHR '')'', CHR ''{'', DQUOTE, CHR ''%'', CHR ''*'', BACKSLASH, CHR '']'']"

definition quarantineAtom :: "bytes \<Rightarrow> bool" where
  "quarantineAtom s \<longleftrightarrow> s \<noteq> [] \<and> list_all quarantineAtomChar s"

definition quarantineFlag :: "bytes \<Rightarrow> bool" where
  "quarantineFlag s \<longleftrightarrow> quarantineAtom (trim_prefix s [BACKSLASH])"

definition quarantineNumber :: "bytes \<Rightarrow> bool \<Rightarrow> uint32 option" where
  "quarantineNumber s zero =
     (if s = [] \<or> (hd s = CHR ''0'' \<and> (length s > 1 \<or> \<not> zero)) then None
      else map_option of_nat (parse_uint 32 s))"

definition quarantineText :: "bytes \<Rightarrow> bool" where
  "quarantineText s \<longleftrightarrow> (has_prefix s ''['' \<longrightarrow> CHR '']'' \<in> set s)"

fun quarantineFlat_from :: "bool \<Rightarrow> bool \<Rightarrow> bytes \<Rightarrow> bool" where
  "quarantineFlat_from quoted escaped [] \<longleftrightarrow> \<not> quoted \<and> \<not> escaped"
| "quarantineFlat_from quoted escaped (c # s) \<longleftrightarrow>
     (if byte_val c < 32 \<or> byte_val c \<ge> 127 then False
      else if escaped then
        (if c \<noteq> DQUOTE \<and> c \<noteq> BACKSLASH then False else quarantineFlat_from quoted False s)
      else if quoted \<and> c = BACKSLASH then quarantineFlat_from quoted True s
      else if c = DQUOTE then quarantineFlat_from (\<not> quoted) escaped s
      else if c = CHR ''{'' \<or> c = CHR ''}'' then False
      else quarantineFlat_from quoted escaped s)"

definition quarantineFlat :: "bytes \<Rightarrow> bool" where
  "quarantineFlat s \<longleftrightarrow> quarantineFlat_from False False s"

text \<open>The admitted flat control responses: continuation, tagged status, untagged.\<close>

definition quarantineControl_plus :: "bytes \<Rightarrow> bool" where
  "quarantineControl_plus rest \<longleftrightarrow>
     rest = [] \<or> (let (text, spaced) = cut_prefix rest '' '' in spaced \<and> quarantineText text)"

definition quarantineControl_tagged :: "bytes \<Rightarrow> bool" where
  "quarantineControl_tagged line \<longleftrightarrow>
     (let (tag, status, _) = cut_byte SP line in
      if \<not> quarantineAtom tag \<or> CHR ''+'' \<in> set tag then False
      else (let (name, text, hasText) = cut_byte SP status in
        if to_upper name \<in> {''OK'', ''NO'', ''BAD''} then \<not> hasText \<or> quarantineText text
        else False))"

definition quarantineControl_numbered :: "bytes \<Rightarrow> bytes \<Rightarrow> bool \<Rightarrow> bool" where
  "quarantineControl_numbered name arguments hasArguments \<longleftrightarrow>
     (let number = quarantineNumber name True; (kind, _, extra) = cut_byte SP arguments in
      if number = None \<or> \<not> hasArguments \<or> extra then False
      else if to_upper kind \<in> {''EXISTS'', ''RECENT''} then True
      else if to_upper kind = ''EXPUNGE'' then the number > 0
      else False)"

definition quarantineControl_flags :: "bytes \<Rightarrow> bool \<Rightarrow> bool" where
  "quarantineControl_flags arguments hasArguments \<longleftrightarrow>
     (let (list1, closed) = cut_suffix arguments '')'';
          (list, opened) = cut_prefix list1 ''('' in
      if \<not> hasArguments \<or> \<not> closed \<or> \<not> opened \<or> contains_any list ''{}'' then False
      else if list = [] then True
      else list_all quarantineFlag (split_byte SP list))"

definition quarantineControl_untagged :: "bytes \<Rightarrow> bool" where
  "quarantineControl_untagged rest \<longleftrightarrow>
     (let (name, arguments, hasArguments) = cut_byte SP rest in
      if name \<noteq> [] \<and> is_digit (hd name) then quarantineControl_numbered name arguments hasArguments
      else if to_upper name \<in> {''OK'', ''NO'', ''BAD'', ''BYE'', ''PREAUTH''} then
        \<not> hasArguments \<or> quarantineText arguments
      else if to_upper name = ''CAPABILITY'' then
        hasArguments \<and> \<not> contains_any arguments ''{}'' \<and>
        list_all quarantineAtom (split_byte SP arguments)
      else if to_upper name = ''FLAGS'' then quarantineControl_flags arguments hasArguments
      else if to_upper name \<in> {''SEARCH'', ''ESEARCH''} then
        \<not> hasArguments \<or> quarantineFlat arguments
      else False)"

definition quarantineControl :: "bytes \<Rightarrow> bool" where
  "quarantineControl line \<longleftrightarrow>
     (let (rest, plus) = cut_prefix line ''+'' in
      if plus then quarantineControl_plus rest
      else (let (rest, untagged) = cut_prefix line ''* '' in
        if \<not> untagged then quarantineControl_tagged line
        else quarantineControl_untagged rest))"

text \<open>\<^verbatim>\<open>fetchPrefix(prefix)\<close>: \<open>Inr True\<close> when the prefix starts a FETCH.\<close>

definition fetchPrefix :: "bytes \<Rightarrow> code + bool" where
  "fetchPrefix pfx =
     (let (number, name, _) = cut_byte SP (drop 2 (butlast pfx)) in
      if number = [] \<or> \<not> is_digit (hd number) \<or> \<not> equal_fold name ''FETCH'' then Inr False
      else if quarantineNumber number False = None then Inl CodeIMAPProtocol
      else Inr True)"

section \<open>Framing one byte\<close>

definition growFrameLocked :: "structureQuarantine \<Rightarrow> structureQuarantine" where
  "growFrameLocked q =
     (if length (qframe q) < qcap q then q
      else q\<lparr>qcap := min (max (2 * qcap q) 256) quarantineFrameBytes\<rparr>)"

text \<open>\<^verbatim>\<open>append(quarantine.frame, value)\<close>: a full slice would be reallocated with a larger capacity.\<close>

definition appendFrame :: "char \<Rightarrow> structureQuarantine \<Rightarrow> structureQuarantine" where
  "appendFrame v q = q\<lparr>qframe := qframe q @ [v], qcap := max (qcap q) (length (qframe q) + 1)\<rparr>"

definition startResponseLocked :: "structureQuarantine \<Rightarrow> structureQuarantine" where
  "startResponseLocked q = q\<lparr>qresponses := qresponses q + 1, qmode := quarantineLine, qframe := [],
     qlineSpaces := 0, qlineCR := False\<rparr>"

definition releaseLocked :: "structureQuarantine \<Rightarrow> structureQuarantine" where
  "releaseLocked q = q\<lparr>qpending := qpending q @ qframe q, qmode := quarantineBetween\<rparr>"

definition completeLineLocked :: "structureQuarantine \<Rightarrow> qstep" where
  "completeLineLocked q =
     (if \<not> quarantineControl (take (length (qframe q) - 2) (qframe q)) then (q, Some CodeIMAPProtocol)
      else (releaseLocked (q\<lparr>qwork := qwork q + 1\<rparr>), None))"

definition startFetchLocked :: "structureQuarantine \<Rightarrow> structureQuarantine" where
  "startFetchLocked q = q\<lparr>qmode := quarantineFetch, qstate := fetchOpen, qdepth := 0, qtokens := 0,
     qphase := itemName, qflagsList := False, quidCount := 0, quid := 0, qflags := 0,
     qstructure := 0\<rparr>"

text \<open>The least number of bytes and closing tokens that can still complete the FETCH.\<close>

definition fetch_closing :: "structureQuarantine \<Rightarrow> nat" where
  "fetch_closing q = (if qstate q = fetchOpen then 2 else qdepth q)"

definition fetch_bytesNeeded :: "structureQuarantine \<Rightarrow> nat" where
  "fetch_bytesNeeded q = (case qstate q of
      fetchOpen \<Rightarrow> 4
    | fetchQuoted \<Rightarrow> qdepth q + 2 + 1
    | fetchEscape \<Rightarrow> qdepth q + 2 + 2
    | fetchLiteralSize \<Rightarrow> qdepth q + 2 + 3 + qliteral q + (if qdigits q = 0 then 1 else 0)
    | fetchLiteralCR \<Rightarrow> qdepth q + 2 + 2 + qliteral q
    | fetchLiteralLF \<Rightarrow> qdepth q + 2 + 1 + qliteral q
    | fetchLiteral \<Rightarrow> qdepth q + 2 + qliteral q
    | fetchEndLF \<Rightarrow> 1
    | _ \<Rightarrow> qdepth q + 2)"

definition fetchFeasibleLocked :: "structureQuarantine \<Rightarrow> code option" where
  "fetchFeasibleLocked q =
     (if length (qframe q) + fetch_bytesNeeded q > quarantineFrameBytes \<or>
         qsessionBytes q + fetch_bytesNeeded q > quarantineSessionBytes \<or>
         qtokens q + fetch_closing q > quarantineFetchTokens \<or>
         qwork q + fetch_closing q > quarantineWorkUnits
      then Some CodeBoundsExceeded else None)"

text \<open>The bound every byte of an unfinished line must leave room for.\<close>

definition lineBound :: "structureQuarantine \<Rightarrow> code option" where
  "lineBound q =
     (let need = if qlineCR q then 1 else 2 in
      if length (qframe q) + need > quarantineControlBytes \<or>
         qsessionBytes q + need > quarantineSessionBytes
      then Some CodeBoundsExceeded else None)"

definition lineByteLocked :: "char \<Rightarrow> structureQuarantine \<Rightarrow> qstep" where
  "lineByteLocked v q =
     (if qlineCR q then
        (if v \<noteq> LF then (q, Some CodeIMAPProtocol) else completeLineLocked q)
      else if v = CR then
        (let q' = q\<lparr>qlineCR := True\<rparr> in (q', lineBound q'))
      else if v = LF then (q, Some CodeIMAPProtocol)
      else if v = SP \<and> qframe q ! 0 = CHR ''*'' then
        (let q' = q\<lparr>qlineSpaces := qlineSpaces q + 1\<rparr> in
         if qlineSpaces q' = 3 then
           (case fetchPrefix (qframe q') of
              Inl e \<Rightarrow> (q', Some e)
            | Inr True \<Rightarrow> (let q'' = startFetchLocked q' in (q'', fetchFeasibleLocked q''))
            | Inr False \<Rightarrow> (q', lineBound q'))
         else (q', lineBound q'))
      else (q, lineBound q))"

definition tokenLocked :: "structureQuarantine \<Rightarrow> qstep" where
  "tokenLocked q =
     (if qtokens q = quarantineFetchTokens \<or> qwork q = quarantineWorkUnits
      then (q, Some CodeBoundsExceeded)
      else (q\<lparr>qtokens := qtokens q + 1, qwork := qwork q + 1\<rparr>, None))"

definition openLocked :: "structureQuarantine \<Rightarrow> qstep" where
  "openLocked q =
     (if qdepth q = quarantineDepth then (q, Some CodeBoundsExceeded)
      else and_then (tokenLocked q)
        (\<lambda>q. (q\<lparr>qdepth := qdepth q + 1, qprevious := previousOpen\<rparr>, None)))"

definition closeLocked :: "structureQuarantine \<Rightarrow> qstep" where
  "closeLocked q =
     and_then (tokenLocked q) (\<lambda>q.
       let q' = q\<lparr>qdepth := qdepth q - 1, qprevious := previousClose\<rparr> in
       if qdepth q' = 1 then (q'\<lparr>qphase := itemDone, qflagsList := False\<rparr>, None)
       else if qdepth q' = 0 then (q'\<lparr>qstate := fetchEndCR\<rparr>, None)
       else (q', None))"

text \<open>\<^verbatim>\<open>nameLocked\<close> takes the address of one of three counters; the model names it by its item.\<close>

definition item_count :: "structureQuarantine \<Rightarrow> nat" where
  "item_count q = (case qitem q of
      itemUID \<Rightarrow> quidCount q | itemFlags \<Rightarrow> qflags q | itemStructure \<Rightarrow> qstructure q)"

definition set_item_count :: "structureQuarantine \<Rightarrow> structureQuarantine" where
  "set_item_count q = (case qitem q of
      itemUID \<Rightarrow> q\<lparr>quidCount := 1\<rparr> | itemFlags \<Rightarrow> q\<lparr>qflags := 1\<rparr>
    | itemStructure \<Rightarrow> q\<lparr>qstructure := 1\<rparr>)"

definition item_of_name :: "bytes \<Rightarrow> fetchItem option" where
  "item_of_name name =
     (if to_upper name = ''UID'' then Some itemUID
      else if to_upper name = ''FLAGS'' then Some itemFlags
      else if to_upper name = ''BODYSTRUCTURE'' then Some itemStructure
      else None)"

definition nameLocked :: "bytes \<Rightarrow> structureQuarantine \<Rightarrow> qstep" where
  "nameLocked name q =
     (case item_of_name name of
        None \<Rightarrow> (q, Some CodeIMAPProtocol)
      | Some item \<Rightarrow>
          (let q' = q\<lparr>qitem := item\<rparr> in
           if item_count q' > 0 then (q', Some CodeIMAPProtocol)
           else ((set_item_count q')\<lparr>qphase := itemNamed\<rparr>, None)))"

definition endAtomLocked :: "nat \<Rightarrow> structureQuarantine \<Rightarrow> qstep" where
  "endAtomLocked stop q =
     (let atom = drop (qatomStart q) (take stop (qframe q));
          q' = q\<lparr>qprevious := previousToken\<rparr> in
      if qdepth q' = 1 \<and> qphase q' = itemName then nameLocked atom q'
      else if qdepth q' = 1 then
        (case quarantineNumber atom False of
           None \<Rightarrow> (q', Some CodeIMAPProtocol)
         | Some uid \<Rightarrow> (q'\<lparr>quid := uid, qphase := itemDone\<rparr>, None))
      else if qflagsList q' \<and> \<not> quarantineFlag atom then (q', Some CodeIMAPProtocol)
      else (q', None))"

definition literalSizeByteLocked :: "char \<Rightarrow> structureQuarantine \<Rightarrow> qstep" where
  "literalSizeByteLocked v q =
     (if v = CHR ''}'' \<and> qdigits q > 0 then (q\<lparr>qstate := fetchLiteralCR\<rparr>, None)
      else if \<not> is_digit v \<or> qdigits q = 10 then (q, Some CodeIMAPProtocol)
      else
        (let q' = q\<lparr>qdigits := qdigits q + 1, qliteral := qliteral q * 10 + digit_val v\<rparr> in
         if qliteral q' > 4294967295 then (q', Some CodeIMAPProtocol) else (q', None)))"

text \<open>\<^verbatim>\<open>itemsByteLocked\<close>, one definition per branch of its first switch.\<close>

definition items_space :: "structureQuarantine \<Rightarrow> qstep" where
  "items_space q =
     (if qprevious q \<noteq> previousToken \<and> qprevious q \<noteq> previousClose then (q, Some CodeIMAPProtocol)
      else if qdepth q = 1 then
        (case qphase q of
           itemNamed \<Rightarrow> (q\<lparr>qphase := itemValue, qprevious := previousSpace\<rparr>, None)
         | itemDone \<Rightarrow> (q\<lparr>qphase := itemName, qprevious := previousSpace\<rparr>, None)
         | _ \<Rightarrow> (q, Some CodeIMAPProtocol))
      else (q\<lparr>qprevious := previousSpace\<rparr>, None))"

definition items_open :: "structureQuarantine \<Rightarrow> qstep" where
  "items_open q =
     (let nested = qprevious q = previousClose \<and> qdepth q \<ge> 2 \<and> \<not> qflagsList q in
      if qprevious q \<noteq> previousOpen \<and> qprevious q \<noteq> previousSpace \<and> \<not> nested
      then (q, Some CodeIMAPProtocol)
      else if qdepth q = 1 then
        (if qphase q \<noteq> itemValue \<or> qitem q = itemUID then (q, Some CodeIMAPProtocol)
         else openLocked (q\<lparr>qflagsList := (qitem q = itemFlags)\<rparr>))
      else if qflagsList q then (q, Some CodeIMAPProtocol)
      else openLocked q)"

definition items_close :: "structureQuarantine \<Rightarrow> qstep" where
  "items_close q =
     (if qprevious q = previousSpace \<or> (qdepth q = 1 \<and> qphase q \<noteq> itemDone)
      then (q, Some CodeIMAPProtocol) else closeLocked q)"

definition items_token :: "char \<Rightarrow> structureQuarantine \<Rightarrow> qstep" where
  "items_token v q =
     (let atom = quarantineAtomChar v \<or> v = BACKSLASH in
      if qprevious q \<noteq> previousOpen \<and> qprevious q \<noteq> previousSpace then (q, Some CodeIMAPProtocol)
      else if qdepth q = 1 \<and> (\<not> atom \<or> (qphase q = itemValue \<and> qitem q \<noteq> itemUID))
      then (q, Some CodeIMAPProtocol)
      else if qflagsList q \<and> \<not> atom then (q, Some CodeIMAPProtocol)
      else if v = DQUOTE then tokenLocked (q\<lparr>qstate := fetchQuoted\<rparr>)
      else if v = CHR ''{'' then
        tokenLocked (q\<lparr>qstate := fetchLiteralSize, qliteral := 0, qdigits := 0\<rparr>)
      else if atom then
        tokenLocked (q\<lparr>qstate := fetchAtom, qatomStart := length (qframe q) - 1\<rparr>)
      else (q, Some CodeIMAPProtocol))"

definition itemsByteLocked :: "char \<Rightarrow> structureQuarantine \<Rightarrow> qstep" where
  "itemsByteLocked v q =
     (if v = SP then items_space q
      else if v = CHR ''('' then items_open q
      else if v = CHR '')'' then items_close q
      else items_token v q)"

definition completeFetchLocked :: "structureQuarantine \<Rightarrow> qstep" where
  "completeFetchLocked q =
     (if qstructure q = 1 then
        (if quidCount q = 0 \<or> quid q \<noteq> qselectedUID q \<or> qdispatch q \<noteq> quarantineActive
         then (q, Some CodeIMAPProtocol)
         else (releaseLocked (q\<lparr>qdispatch := quarantineDelivered\<rparr>), None))
      else if qflags q = 1 then (q\<lparr>qmode := quarantineBetween\<rparr>, None)
      else (q, Some CodeIMAPProtocol))"

definition expectByte :: "char \<Rightarrow> char \<Rightarrow> structureQuarantine \<Rightarrow> qstep \<Rightarrow> qstep" where
  "expectByte v wanted q k = (if v \<noteq> wanted then (q, Some CodeIMAPProtocol) else k)"

definition fetchByteLocked :: "char \<Rightarrow> structureQuarantine \<Rightarrow> qstep" where
  "fetchByteLocked v q = (case qstate q of
      fetchOpen \<Rightarrow> expectByte v (CHR ''('') q (openLocked (q\<lparr>qstate := fetchItems\<rparr>))
    | fetchItems \<Rightarrow> itemsByteLocked v q
    | fetchAtom \<Rightarrow>
        (if quarantineAtomChar v then
           (if length (qframe q) - qatomStart q > quarantineAtomBytes
            then (q, Some CodeBoundsExceeded) else (q, None))
         else and_then (endAtomLocked (length (qframe q) - 1) q)
           (\<lambda>q. itemsByteLocked v (q\<lparr>qstate := fetchItems\<rparr>)))
    | fetchQuoted \<Rightarrow>
        (if v = DQUOTE then (q\<lparr>qstate := fetchItems, qprevious := previousToken\<rparr>, None)
         else if v = BACKSLASH then (q\<lparr>qstate := fetchEscape\<rparr>, None)
         else if v = CR \<or> v = LF \<or> v = CHR 0x00 then (q, Some CodeIMAPProtocol)
         else (q, None))
    | fetchEscape \<Rightarrow>
        (if v \<noteq> DQUOTE \<and> v \<noteq> BACKSLASH then (q, Some CodeIMAPProtocol)
         else (q\<lparr>qstate := fetchQuoted\<rparr>, None))
    | fetchLiteralSize \<Rightarrow> literalSizeByteLocked v q
    | fetchLiteralCR \<Rightarrow> expectByte v CR q (q\<lparr>qstate := fetchLiteralLF\<rparr>, None)
    | fetchLiteralLF \<Rightarrow> expectByte v LF q
        (if qliteral q = 0 then (q\<lparr>qstate := fetchItems, qprevious := previousToken\<rparr>, None)
         else (q\<lparr>qstate := fetchLiteral\<rparr>, None))
    | fetchLiteral \<Rightarrow>
        (let q' = q\<lparr>qliteral := qliteral q - 1\<rparr> in
         if qliteral q' = 0 then (q'\<lparr>qstate := fetchItems, qprevious := previousToken\<rparr>, None)
         else (q', None))
    | fetchEndCR \<Rightarrow> expectByte v CR q (q\<lparr>qstate := fetchEndLF\<rparr>, None)
    | fetchEndLF \<Rightarrow> expectByte v LF q (completeFetchLocked q))"

text \<open>The state in which \<^verbatim>\<open>feedLocked\<close> has admitted the byte: counted and appended to the frame.\<close>

definition admitByte :: "char \<Rightarrow> structureQuarantine \<Rightarrow> structureQuarantine" where
  "admitByte v q =
     (let q1 = (if qmode q = quarantineBetween then startResponseLocked q else q) in
      appendFrame v (growFrameLocked (q1\<lparr>qsessionBytes := qsessionBytes q1 + 1\<rparr>)))"

definition feedLocked :: "char \<Rightarrow> structureQuarantine \<Rightarrow> qstep" where
  "feedLocked v q =
     (if qsessionBytes q = quarantineSessionBytes then (q, Some CodeBoundsExceeded)
      else if qmode q = quarantineBetween \<and>
              (qresponses q = quarantineResponses \<or> qwork q = quarantineWorkUnits)
      then (q, Some CodeBoundsExceeded)
      else (let q1 = admitByte v q in
        if qmode q1 = quarantineLine then lineByteLocked v q1
        else and_then (fetchByteLocked v q1)
          (\<lambda>q. if qmode q = quarantineFetch then (q, fetchFeasibleLocked q) else (q, None))))"

section \<open>Reading\<close>

text \<open>The loop of \<^verbatim>\<open>Read\<close> over the bytes one source read returned: it stops at the first refusal.\<close>

fun feedAll :: "bytes \<Rightarrow> structureQuarantine \<Rightarrow> structureQuarantine" where
  "feedAll [] q = q"
| "feedAll (v # vs) q =
     (case feedLocked v q of
        (q', None) \<Rightarrow> feedAll vs q'
      | (q', Some e) \<Rightarrow> refuseLocked e q')"

text \<open>What \<^verbatim>\<open>Read\<close> does with the result of a source read once it holds the lock again.\<close>

definition readFill :: "bytes \<Rightarrow> go_error option \<Rightarrow> structureQuarantine \<Rightarrow> structureQuarantine" where
  "readFill bs err q =
     (if qterminal q \<noteq> None then q
      else (let q' = feedAll bs q in
        case err of
          None \<Rightarrow> q'
        | Some e \<Rightarrow> if qterminal q' = None then sourceFailedLocked e q' else q'))"

definition readLimit :: "structureQuarantine \<Rightarrow> nat" where
  "readLimit q = min quarantineReadBytes (quarantineSessionBytes - qsessionBytes q + 1)"

datatype read_outcome = ReadBytes bytes | ReadError code | ReadSource nat

text \<open>One pass of \<^verbatim>\<open>Read\<close>'s loop up to the point where it returns or goes to the source.\<close>

definition readPoll :: "nat \<Rightarrow> structureQuarantine \<Rightarrow> read_outcome \<times> structureQuarantine" where
  "readPoll len q =
     (if qpending q \<noteq> [] then
        (ReadBytes (take len (qpending q)), q\<lparr>qpending := drop len (qpending q)\<rparr>)
      else (case qterminal q of
          Some e \<Rightarrow> (ReadError e, q)
        | None \<Rightarrow> if len = 0 then (ReadBytes [], q) else (ReadSource (readLimit q), q)))"

text \<open>
  The source as a script of what its \<^verbatim>\<open>Read\<close> calls return; a call returns at most the bytes
  asked for, and what a longer chunk has left is returned by the next call. A script that has
  run out is a source that blocks: \<^verbatim>\<open>Read\<close> does not return, which is \<open>None\<close>.
\<close>

type_synonym source = "(bytes \<times> go_error option) list"

fun sourceRead :: "nat \<Rightarrow> source \<Rightarrow> (bytes \<times> go_error option \<times> source) option" where
  "sourceRead n [] = None"
| "sourceRead n ((bs, e) # rest) =
     (if length bs \<le> n then Some (bs, e, rest)
      else Some (take n bs, None, (drop n bs, e) # rest))"

definition source_weight :: "source \<Rightarrow> nat" where
  "source_weight s = sum_list (map (\<lambda>(bs, e). length bs + 1) s)"

lemma sourceRead_smaller:
  "sourceRead n s = Some (bs, e, rest) \<Longrightarrow> 0 < n \<Longrightarrow> source_weight rest < source_weight s"
  by (cases s) (auto simp: source_weight_def split: if_splits)

lemma readPoll_limit: "readPoll n q = (ReadSource limit, q') \<Longrightarrow> 0 < limit"
  by (auto simp: readPoll_def readLimit_def split: if_splits option.splits)

function Read :: "nat \<Rightarrow> structureQuarantine \<Rightarrow> source \<Rightarrow>
    ((code + bytes) \<times> structureQuarantine \<times> source) option" where
  "Read len q src =
     (case readPoll len q of
        (ReadBytes bs, q') \<Rightarrow> Some (Inr bs, q', src)
      | (ReadError e, q') \<Rightarrow> Some (Inl e, q', src)
      | (ReadSource limit, q') \<Rightarrow>
          (case sourceRead limit src of
             None \<Rightarrow> None
           | Some (bs, e, rest) \<Rightarrow> Read len (readFill bs e q') rest))"
  by pat_completeness auto
termination
  by (relation "measure (\<lambda>(n, q, s). source_weight s)")
     (auto dest!: readPoll_limit [OF sym] dest: sourceRead_smaller)

declare Read.simps [simp del]

end
