(* ===== verification/Quarantine_Safety.thy ===== *)
theory Quarantine_Safety
  imports Structure_Quarantine
begin

text \<open>
  The invariant of the structure quarantine and what it gives: the resource bounds of every
  reachable state, stickiness of a refusal, and the framing theorem that everything released
  is a sequence of whole approved responses with at most one structure FETCH among them.
\<close>

section \<open>What a step may touch\<close>

text \<open>The part of the state that the FETCH lexer leaves alone.\<close>

definition same_io :: "structureQuarantine \<Rightarrow> structureQuarantine \<Rightarrow> bool" where
  "same_io q q' \<longleftrightarrow>
     qselectedUID q' = qselectedUID q \<and> qdispatch q' = qdispatch q \<and> qpending q' = qpending q \<and>
     qterminal q' = qterminal q \<and> qsessionBytes q' = qsessionBytes q \<and>
     qresponses q' = qresponses q \<and> qmode q' = qmode q \<and> qframe q' = qframe q \<and> qcap q' = qcap q"

definition counters_ok :: "structureQuarantine \<Rightarrow> bool" where
  "counters_ok q \<longleftrightarrow> qtokens q \<le> quarantineFetchTokens \<and> qwork q \<le> quarantineWorkUnits \<and>
     qdepth q \<le> quarantineDepth"

text \<open>A lexer function keeps the outer state and the counters within their limits.\<close>

definition lexes :: "(structureQuarantine \<Rightarrow> qstep) \<Rightarrow> bool" where
  "lexes f \<longleftrightarrow> (\<forall>q. same_io q (fst (f q)) \<and> (counters_ok q \<longrightarrow> counters_ok (fst (f q))))"

lemma same_io_refl [simp]: "same_io q q"
  by (simp add: same_io_def)

lemma same_io_trans: "same_io a b \<Longrightarrow> same_io b c \<Longrightarrow> same_io a c"
  by (simp add: same_io_def)

lemma lexes_fail [simp]: "lexes (\<lambda>q. (q, Some e))" "lexes (\<lambda>q. (q, None))"
  by (simp_all add: lexes_def)

lemma lexes_if: "lexes f \<Longrightarrow> lexes g \<Longrightarrow> lexes (\<lambda>q. if P q then f q else g q)"
  by (simp add: lexes_def)

lemma lexes_and_then: "lexes f \<Longrightarrow> lexes g \<Longrightarrow> lexes (\<lambda>q. and_then (f q) g)"
  unfolding lexes_def and_then_def
  by (auto split: prod.splits option.splits) (metis fst_conv same_io_trans, metis fst_conv)

lemma lexes_after:
  assumes "lexes f" and "\<And>q. same_io q (u q)" and "\<And>q. counters_ok q \<Longrightarrow> counters_ok (u q)"
  shows "lexes (\<lambda>q. f (u q))"
  using assms unfolding lexes_def by (blast intro: same_io_trans)

lemma lexes_tokenLocked: "lexes tokenLocked"
  by (auto simp: lexes_def tokenLocked_def same_io_def counters_ok_def)

lemma lexes_openLocked: "lexes openLocked"
  by (auto simp: lexes_def openLocked_def tokenLocked_def same_io_def counters_ok_def)

lemma lexes_closeLocked: "lexes closeLocked"
  by (auto simp: lexes_def closeLocked_def tokenLocked_def same_io_def counters_ok_def Let_def)

lemma lexes_nameLocked: "lexes (nameLocked name)"
  by (auto simp: lexes_def nameLocked_def set_item_count_def same_io_def counters_ok_def Let_def
      split: option.splits fetchItem.splits)

lemma lexes_endAtomLocked: "lexes (endAtomLocked n)"
proof -
  have "same_io q (fst (endAtomLocked n q)) \<and>
      (counters_ok q \<longrightarrow> counters_ok (fst (endAtomLocked n q)))" for q
    using lexes_nameLocked [of "drop (qatomStart q) (take n (qframe q))"]
    by (auto simp: lexes_def endAtomLocked_def Let_def same_io_def counters_ok_def
        split: option.splits)
  then show ?thesis by (simp add: lexes_def)
qed

lemma lexes_literalSize: "lexes (literalSizeByteLocked v)"
  by (auto simp: lexes_def literalSizeByteLocked_def same_io_def counters_ok_def Let_def)

lemma lexes_items_space: "lexes items_space"
  by (auto simp: lexes_def items_space_def same_io_def counters_ok_def split: fetchItemPhase.splits)

lemma lexes_items_open: "lexes items_open"
  unfolding items_open_def Let_def
  by (intro lexes_if lexes_fail lexes_openLocked lexes_after [OF lexes_openLocked])
     (auto simp: same_io_def counters_ok_def)

lemma lexes_items_close: "lexes items_close"
  unfolding items_close_def by (intro lexes_if lexes_fail lexes_closeLocked)

lemma lexes_items_token: "lexes (items_token v)"
  unfolding items_token_def Let_def
  by (intro lexes_if lexes_fail lexes_after [OF lexes_tokenLocked])
     (auto simp: same_io_def counters_ok_def)

lemma lexes_itemsByteLocked: "lexes (itemsByteLocked v)"
  unfolding itemsByteLocked_def
  by (intro lexes_if lexes_items_space lexes_items_open lexes_items_close lexes_items_token)

lemmas lexer_functions =
  lexes_tokenLocked lexes_openLocked lexes_closeLocked lexes_endAtomLocked lexes_literalSize
  lexes_itemsByteLocked

section \<open>The invariant\<close>

text \<open>Resource bounds, which hold in every state, refused ones included.\<close>

definition qbudget :: "structureQuarantine \<Rightarrow> bool" where
  "qbudget q \<longleftrightarrow>
     qsessionBytes q \<le> quarantineSessionBytes \<and> qresponses q \<le> quarantineResponses \<and>
     counters_ok q \<and> length (qframe q) \<le> qcap q \<and> qcap q \<le> quarantineFrameBytes"

text \<open>How the lexer's state agrees with the list depth and the other FETCH fields.\<close>

definition fetch_shape :: "structureQuarantine \<Rightarrow> bool" where
  "fetch_shape q \<longleftrightarrow>
     (if qstate q \<in> {fetchOpen, fetchEndCR, fetchEndLF} then qdepth q = 0 else 1 \<le> qdepth q) \<and>
     (qstate q = fetchLiteral \<longrightarrow> 0 < qliteral q) \<and>
     (qstate q \<in> {fetchLiteralSize, fetchLiteralCR, fetchLiteralLF, fetchLiteral} \<longrightarrow>
        qliteral q \<le> 4294967295 \<and> qdigits q \<le> 10) \<and>
     (qstate q = fetchAtom \<longrightarrow> qatomStart q < length (qframe q)) \<and>
     quidCount q \<le> 1 \<and> qflags q \<le> 1 \<and> qstructure q \<le> 1"

text \<open>
  What holds of a live quarantine between two bytes: an unfinished line leaves room for its end
  and its unit of work, an unfinished FETCH has a consistent lexer and can still be completed.
\<close>

definition qlive :: "structureQuarantine \<Rightarrow> bool" where
  "qlive q \<longleftrightarrow> (case qmode q of
      quarantineBetween \<Rightarrow> True
    | quarantineLine \<Rightarrow> qframe q \<noteq> [] \<and> qwork q < quarantineWorkUnits \<and> lineBound q = None
    | quarantineFetch \<Rightarrow> fetch_shape q \<and> fetchFeasibleLocked q = None)"

definition qinv :: "structureQuarantine \<Rightarrow> bool" where
  "qinv q \<longleftrightarrow> qbudget q \<and> (qterminal q = None \<longrightarrow> qlive q)"

lemma bytesNeeded_positive: "0 < fetch_bytesNeeded q"
  by (simp add: fetch_bytesNeeded_def split: fetchState.split)

lemma fetchFeasible_None:
  "fetchFeasibleLocked q = None \<longleftrightarrow>
     length (qframe q) + fetch_bytesNeeded q \<le> quarantineFrameBytes \<and>
     qsessionBytes q + fetch_bytesNeeded q \<le> quarantineSessionBytes \<and>
     qtokens q + fetch_closing q \<le> quarantineFetchTokens \<and>
     qwork q + fetch_closing q \<le> quarantineWorkUnits"
  by (auto simp: fetchFeasibleLocked_def)

lemma lineBound_None:
  "lineBound q = None \<longleftrightarrow>
     length (qframe q) + (if qlineCR q then 1 else 2) \<le> quarantineControlBytes \<and>
     qsessionBytes q + (if qlineCR q then 1 else 2) \<le> quarantineSessionBytes"
  by (auto simp: lineBound_def)

subsection \<open>Admitting a byte\<close>

lemma admitByte_fields [simp]:
  "qframe (admitByte v q) = (if qmode q = quarantineBetween then [] else qframe q) @ [v]"
  "qsessionBytes (admitByte v q) = qsessionBytes q + 1"
  "qresponses (admitByte v q) = qresponses q + (if qmode q = quarantineBetween then 1 else 0)"
  "qmode (admitByte v q) = (if qmode q = quarantineBetween then quarantineLine else qmode q)"
  "qlineSpaces (admitByte v q) = (if qmode q = quarantineBetween then 0 else qlineSpaces q)"
  "qlineCR (admitByte v q) = (qmode q \<noteq> quarantineBetween \<and> qlineCR q)"
  "qselectedUID (admitByte v q) = qselectedUID q" "qdispatch (admitByte v q) = qdispatch q"
  "qpending (admitByte v q) = qpending q" "qterminal (admitByte v q) = qterminal q"
  "qwork (admitByte v q) = qwork q" "qstate (admitByte v q) = qstate q"
  "qdepth (admitByte v q) = qdepth q" "qtokens (admitByte v q) = qtokens q"
  "qprevious (admitByte v q) = qprevious q" "qphase (admitByte v q) = qphase q"
  "qitem (admitByte v q) = qitem q" "qflagsList (admitByte v q) = qflagsList q"
  "qatomStart (admitByte v q) = qatomStart q" "qliteral (admitByte v q) = qliteral q"
  "qdigits (admitByte v q) = qdigits q" "quidCount (admitByte v q) = quidCount q"
  "quid (admitByte v q) = quid q" "qflags (admitByte v q) = qflags q"
  "qstructure (admitByte v q) = qstructure q"
  by (simp_all add: admitByte_def startResponseLocked_def growFrameLocked_def appendFrame_def Let_def)

lemma admitByte_cap:
  "length (qframe q1) < quarantineFrameBytes \<Longrightarrow> length (qframe q1) \<le> qcap q1 \<Longrightarrow>
   qcap q1 \<le> quarantineFrameBytes \<Longrightarrow>
   length (qframe q1) < qcap (growFrameLocked q1) \<and> qcap (growFrameLocked q1) \<le> quarantineFrameBytes"
  by (auto simp: growFrameLocked_def min_def max_def)

text \<open>
  Under the invariant there is room for the next byte: the slice never outgrows one frame, and
  \<^verbatim>\<open>append\<close> never reallocates.
\<close>

lemma admitByte_budget:
  assumes inv: "qinv q" and live: "qterminal q = None"
    and bytes: "qsessionBytes q \<noteq> quarantineSessionBytes"
    and start: "qmode q = quarantineBetween \<Longrightarrow> qresponses q \<noteq> quarantineResponses"
  shows "qbudget (admitByte v q)"
proof -
  from inv live have b: "qbudget q" and l: "qlive q" by (simp_all add: qinv_def)
  let ?f = "if qmode q = quarantineBetween then [] else qframe q"
  have room: "length ?f < quarantineFrameBytes"
    using l bytesNeeded_positive [of q]
    by (cases "qmode q") (auto simp: qlive_def fetchFeasible_None lineBound_None split: if_splits)
  have "length (qframe (admitByte v q)) \<le> qcap (admitByte v q) \<and>
      qcap (admitByte v q) \<le> quarantineFrameBytes"
    using room b admitByte_cap
      [of "(if qmode q = quarantineBetween then startResponseLocked q else q)\<lparr>qsessionBytes :=
        qsessionBytes (if qmode q = quarantineBetween then startResponseLocked q else q) + 1\<rparr>"]
    by (auto simp: admitByte_def appendFrame_def Let_def startResponseLocked_def qbudget_def
        growFrameLocked_def split: if_splits)
  with b bytes start show ?thesis
    by (auto simp: qbudget_def counters_ok_def split: if_splits)
qed

subsection \<open>Steps keep the invariant\<close>

lemma lexesD:
  "lexes f \<Longrightarrow> f q = (q', r) \<Longrightarrow> same_io q q' \<and> (counters_ok q \<longrightarrow> counters_ok q')"
  unfolding lexes_def by (metis fst_conv)

text \<open>
  The FETCH lexer outside its last state is a lexer function; in its last state it may
  complete the frame.
\<close>

definition fetch_lex :: "char \<Rightarrow> structureQuarantine \<Rightarrow> qstep" where
  "fetch_lex v q = (if qstate q = fetchEndLF then (q, None) else fetchByteLocked v q)"

lemma lexes_fetch_lex: "lexes (fetch_lex v)"
proof -
  have "same_io q (fst (fetch_lex v q)) \<and> (counters_ok q \<longrightarrow> counters_ok (fst (fetch_lex v q)))" for q
  proof (cases "qstate q")
    case fetchOpen
    have "lexes (\<lambda>q. openLocked (q\<lparr>qstate := fetchItems\<rparr>))"
      by (rule lexes_after [OF lexes_openLocked]) (simp_all add: same_io_def counters_ok_def)
    with fetchOpen show ?thesis by (simp add: fetch_lex_def fetchByteLocked_def expectByte_def lexes_def)
  next
    case fetchItems
    then show ?thesis
      using lexes_itemsByteLocked [of v] by (simp add: fetch_lex_def fetchByteLocked_def lexes_def)
  next
    case fetchAtom
    have "lexes (\<lambda>q. itemsByteLocked v (q\<lparr>qstate := fetchItems\<rparr>))"
      by (rule lexes_after [OF lexes_itemsByteLocked]) (simp_all add: same_io_def counters_ok_def)
    from lexes_and_then [OF lexes_endAtomLocked [of "length (qframe q) - 1"] this] fetchAtom
    show ?thesis by (simp add: fetch_lex_def fetchByteLocked_def lexes_def)
  next
    case fetchLiteralSize
    then show ?thesis
      using lexes_literalSize [of v] by (simp add: fetch_lex_def fetchByteLocked_def lexes_def)
  qed (simp_all add: fetch_lex_def fetchByteLocked_def expectByte_def same_io_def counters_ok_def Let_def)
  then show ?thesis by (simp add: lexes_def)
qed

lemma fetchByteLocked_lex:
  "qstate q \<noteq> fetchEndLF \<Longrightarrow> fetchByteLocked v q = (q', r) \<Longrightarrow>
     same_io q q' \<and> (counters_ok q \<longrightarrow> counters_ok q')"
  using lexesD [OF lexes_fetch_lex [of v], of q q' r] by (simp add: fetch_lex_def)

lemma tokenLocked_None:
  "tokenLocked q = (q', None) \<longleftrightarrow> qtokens q \<noteq> quarantineFetchTokens \<and> qwork q \<noteq> quarantineWorkUnits \<and>
     q' = q\<lparr>qtokens := qtokens q + 1, qwork := qwork q + 1\<rparr>"
  by (simp add: tokenLocked_def eq_commute)

lemma tokenLocked_shape: "tokenLocked q = (q', None) \<Longrightarrow> fetch_shape q' = fetch_shape q"
  by (simp add: tokenLocked_None fetch_shape_def)

lemma openLocked_None:
  "openLocked q = (q', None) \<longleftrightarrow> qdepth q \<noteq> quarantineDepth \<and> (\<exists>q1. tokenLocked q = (q1, None) \<and>
     q' = q1\<lparr>qdepth := qdepth q1 + 1, qprevious := previousOpen\<rparr>)"
  unfolding openLocked_def
  by (simp add: and_then_None) (metis (no_types, lifting))

lemma closeLocked_None:
  "closeLocked q = (q', None) \<longleftrightarrow> (\<exists>q1. tokenLocked q = (q1, None) \<and>
     q' = (if qdepth q1 - 1 = 1 then q1\<lparr>qdepth := qdepth q1 - 1, qprevious := previousClose, qphase := itemDone, qflagsList := False\<rparr>
           else if qdepth q1 - 1 = 0 then q1\<lparr>qdepth := qdepth q1 - 1, qprevious := previousClose, qstate := fetchEndCR\<rparr>
           else q1\<lparr>qdepth := qdepth q1 - 1, qprevious := previousClose\<rparr>))"
  unfolding closeLocked_def and_then_None Let_def
  by (rule arg_cong [where f = Ex], rule ext) (simp add: eq_commute [of q'])

lemma openLocked_shape:
  "openLocked q = (q', None) \<Longrightarrow> fetch_shape (q\<lparr>qdepth := qdepth q + 1\<rparr>) \<Longrightarrow> fetch_shape q'"
  unfolding openLocked_None tokenLocked_None
  by (elim conjE exE) (simp add: fetch_shape_def split: if_splits)

lemma closeLocked_shape:
  "closeLocked q = (q', None) \<Longrightarrow> qstate q = fetchItems \<Longrightarrow> fetch_shape q \<Longrightarrow> fetch_shape q'"
  unfolding closeLocked_None tokenLocked_None
  by (elim conjE exE) (simp add: fetch_shape_def split: if_splits)

lemma items_space_None:
  "items_space q = (q', None) \<Longrightarrow>
     q' = q\<lparr>qprevious := previousSpace\<rparr> \<or> q' = q\<lparr>qphase := itemValue, qprevious := previousSpace\<rparr> \<or>
     q' = q\<lparr>qphase := itemName, qprevious := previousSpace\<rparr>"
  unfolding items_space_def by (simp split: if_splits fetchItemPhase.splits)

lemma items_open_None:
  "items_open q = (q', None) \<Longrightarrow>
     openLocked q = (q', None) \<or> openLocked (q\<lparr>qflagsList := (qitem q = itemFlags)\<rparr>) = (q', None)"
  unfolding items_open_def Let_def by (simp split: if_splits)

lemma items_close_None:
  "items_close q = (q', None) \<longleftrightarrow> qprevious q \<noteq> previousSpace \<and> (qdepth q = 1 \<longrightarrow> qphase q = itemDone) \<and>
     closeLocked q = (q', None)"
  unfolding items_close_def by (simp split: if_splits)

lemma items_token_None:
  "items_token v q = (q', None) \<Longrightarrow>
     tokenLocked (q\<lparr>qstate := fetchQuoted\<rparr>) = (q', None) \<or>
     tokenLocked (q\<lparr>qstate := fetchLiteralSize, qliteral := 0, qdigits := 0\<rparr>) = (q', None) \<or>
     tokenLocked (q\<lparr>qstate := fetchAtom, qatomStart := length (qframe q) - 1\<rparr>) = (q', None)"
  unfolding items_token_def Let_def by (simp split: if_splits)

lemma itemsByteLocked_None:
  assumes "itemsByteLocked v q = (q', None)"
  obtains (space) "v = SP" "items_space q = (q', None)"
    | (opn) "v = CHR ''(''" "items_open q = (q', None)"
    | (close) "v = CHR '')''" "items_close q = (q', None)"
    | (token) "items_token v q = (q', None)"
  using assms by (simp add: itemsByteLocked_def split: if_splits)

lemma itemsByteLocked_shape:
  assumes "itemsByteLocked v q = (q', None)" and q: "qstate q = fetchItems" "fetch_shape q" "qframe q \<noteq> []"
  shows "fetch_shape q'"
  using assms(1)
proof (cases rule: itemsByteLocked_None)
  case space
  from items_space_None [OF this(2)] q show ?thesis by (elim disjE) (simp_all add: fetch_shape_def)
next
  case opn
  from items_open_None [OF this(2)] q show ?thesis
    by (elim disjE; elim openLocked_shape) (simp_all add: fetch_shape_def)
next
  case close
  from close(2) have "closeLocked q = (q', None)" by (simp add: items_close_None)
  from closeLocked_shape [OF this q(1,2)] show ?thesis .
next
  case token
  from items_token_None [OF this] q show ?thesis
    by (elim disjE) (simp_all add: tokenLocked_shape, simp_all add: fetch_shape_def)
qed

lemma endAtomLocked_shape:
  assumes "endAtomLocked n q = (q', None)" "fetch_shape q" "qstate q = fetchAtom"
  shows "fetch_shape (q'\<lparr>qstate := fetchItems\<rparr>) \<and> qframe q' = qframe q"
proof -
  have "snd (endAtomLocked n q) = None \<Longrightarrow> fetch_shape ((fst (endAtomLocked n q))\<lparr>qstate := fetchItems\<rparr>) \<and>
      qframe (fst (endAtomLocked n q)) = qframe q"
    using assms(2,3)
    by (simp add: endAtomLocked_def nameLocked_def set_item_count_def fetch_shape_def Let_def
        split: option.splits fetchItem.splits)
  with assms(1) show ?thesis by simp
qed

lemma fetchByteLocked_plain_shape:
  assumes "fetch_shape q"
    "qstate q \<in> {fetchQuoted, fetchEscape, fetchLiteralCR, fetchLiteralLF, fetchLiteral, fetchEndCR}"
  shows "snd (fetchByteLocked v q) = None \<longrightarrow> fetch_shape (fst (fetchByteLocked v q))"
proof (cases "qstate q")
qed (use assms in \<open>simp_all add: fetchByteLocked_def expectByte_def fetch_shape_def Let_def\<close>, linarith?)

text \<open>A successful byte of the lexer keeps the shape.\<close>

lemma fetchByteLocked_shape:
  assumes f: "fetchByteLocked v q = (q', None)" and s: "fetch_shape q" "qframe q \<noteq> []"
    and e: "qstate q \<noteq> fetchEndLF"
  shows "fetch_shape q'"
proof (cases "qstate q")
  case fetchOpen
  with f have "openLocked (q\<lparr>qstate := fetchItems\<rparr>) = (q', None)"
    by (simp add: fetchByteLocked_def expectByte_def split: if_splits)
  then show ?thesis
    by (rule openLocked_shape) (use s fetchOpen in \<open>simp add: fetch_shape_def\<close>)
next
  case fetchItems
  with f have "itemsByteLocked v q = (q', None)" by (simp add: fetchByteLocked_def)
  then show ?thesis using fetchItems s by (rule itemsByteLocked_shape)
next
  case fetchAtom
  show ?thesis
  proof (cases "quarantineAtomChar v")
    case True
    with f fetchAtom have "q' = q" by (simp add: fetchByteLocked_def split: if_splits)
    with s show ?thesis by simp
  next
    case False
    with f fetchAtom obtain q1 where q1: "endAtomLocked (length (qframe q) - 1) q = (q1, None)"
      "itemsByteLocked v (q1\<lparr>qstate := fetchItems\<rparr>) = (q', None)"
      by (simp add: fetchByteLocked_def and_then_None) (elim exE conjE, rule that, simp_all)
    from endAtomLocked_shape [OF q1(1) s(1) fetchAtom] s(2)
    show ?thesis by (intro itemsByteLocked_shape [OF q1(2)]) simp_all
  qed
next
  case fetchLiteralSize
  have "snd (literalSizeByteLocked v q) = None \<longrightarrow> fetch_shape (fst (literalSizeByteLocked v q))"
    using s fetchLiteralSize by (simp add: literalSizeByteLocked_def Let_def fetch_shape_def)
  with f fetchLiteralSize show ?thesis by (simp add: fetchByteLocked_def)
next
  case fetchEndLF
  with e show ?thesis by simp
qed (use fetchByteLocked_plain_shape [OF s(1), of v] f in \<open>simp_all\<close>)

subsection \<open>Feeding a byte\<close>

lemma lineByteLocked_fields:
  assumes "lineByteLocked v q = (q', r)"
  shows "qsessionBytes q' = qsessionBytes q \<and> qresponses q' = qresponses q \<and> qframe q' = qframe q \<and>
    qcap q' = qcap q \<and> qterminal q' = qterminal q \<and> qselectedUID q' = qselectedUID q \<and>
    qdispatch q' = qdispatch q \<and>
    (qwork q' = qwork q \<or> r = None \<and> qwork q' = qwork q + 1 \<and> qmode q' = quarantineBetween) \<and>
    (counters_ok q \<and> qwork q < quarantineWorkUnits \<longrightarrow> counters_ok q')"
proof -
  have "let q' = fst (lineByteLocked v q); r = snd (lineByteLocked v q) in
    qsessionBytes q' = qsessionBytes q \<and> qresponses q' = qresponses q \<and> qframe q' = qframe q \<and>
    qcap q' = qcap q \<and> qterminal q' = qterminal q \<and> qselectedUID q' = qselectedUID q \<and>
    qdispatch q' = qdispatch q \<and>
    (qwork q' = qwork q \<or> r = None \<and> qwork q' = qwork q + 1 \<and> qmode q' = quarantineBetween) \<and>
    (counters_ok q \<and> qwork q < quarantineWorkUnits \<longrightarrow> counters_ok q')"
    by (simp add: lineByteLocked_def completeLineLocked_def releaseLocked_def startFetchLocked_def
        counters_ok_def Let_def split: sum.split bool.split)
  with assms show ?thesis by simp
qed

lemma lineByteLocked_live:
  assumes "lineByteLocked v q = (q', None)" "qframe q \<noteq> []" "qwork q < quarantineWorkUnits"
    "qmode q = quarantineLine"
  shows "qlive q'"
proof -
  have "snd (lineByteLocked v q) = None \<longrightarrow> qlive (fst (lineByteLocked v q))"
    using assms(2-) unfolding lineByteLocked_def
    by (simp add: completeLineLocked_def releaseLocked_def startFetchLocked_def qlive_def
        fetch_shape_def Let_def split: sum.split bool.split)
  with assms(1) show ?thesis by simp
qed

lemma completeFetchLocked_fields:
  assumes "completeFetchLocked q = (q', r)"
  shows "qsessionBytes q' = qsessionBytes q \<and> qresponses q' = qresponses q \<and> qframe q' = qframe q \<and>
    qcap q' = qcap q \<and> qterminal q' = qterminal q \<and> qselectedUID q' = qselectedUID q \<and>
    (counters_ok q' = counters_ok q) \<and> (r = None \<longrightarrow> qmode q' = quarantineBetween)"
proof -
  have "let q' = fst (completeFetchLocked q); r = snd (completeFetchLocked q) in
    qsessionBytes q' = qsessionBytes q \<and> qresponses q' = qresponses q \<and> qframe q' = qframe q \<and>
    qcap q' = qcap q \<and> qterminal q' = qterminal q \<and> qselectedUID q' = qselectedUID q \<and>
    (counters_ok q' = counters_ok q) \<and> (r = None \<longrightarrow> qmode q' = quarantineBetween)"
    by (simp add: completeFetchLocked_def releaseLocked_def counters_ok_def)
  with assms show ?thesis by simp
qed

text \<open>The FETCH lexer as a whole: in its last state it completes the frame or refuses it.\<close>

lemma fetchByteLocked_end:
  "qstate q = fetchEndLF \<Longrightarrow>
     fetchByteLocked v q = (if v = LF then completeFetchLocked q else (q, Some CodeIMAPProtocol))"
  by (simp add: fetchByteLocked_def expectByte_def)

lemma fetchByteLocked_budget:
  assumes f: "fetchByteLocked v q = (q', r)" and b: "qbudget q"
  shows "qbudget q' \<and> qterminal q' = qterminal q \<and> qframe q' = qframe q"
proof (cases "qstate q = fetchEndLF")
  case True
  then show ?thesis
    using f b completeFetchLocked_fields [of q q' r]
    by (simp add: fetchByteLocked_end qbudget_def split: if_splits)
next
  case False
  from fetchByteLocked_lex [OF False f] b show ?thesis
    by (simp add: qbudget_def same_io_def)
qed

text \<open>Admitting and judging one byte keeps the invariant, whether or not the byte is refused.\<close>

lemma feedLocked_budget:
  assumes inv: "qinv q" and live: "qterminal q = None" and f: "feedLocked v q = (q', r)"
  shows "qbudget q' \<and> qterminal q' = None"
proof -
  consider (refused) "q' = q"
    | (line) "qmode (admitByte v q) = quarantineLine" "lineByteLocked v (admitByte v q) = (q', r)"
        "qbudget (admitByte v q)" "qwork q < quarantineWorkUnits"
    | (fetch) r1 where "fetchByteLocked v (admitByte v q) = (q', r1)" "qbudget (admitByte v q)"
  proof -
    have b: "qbudget (admitByte v q)" if "qsessionBytes q \<noteq> quarantineSessionBytes"
      "qmode q = quarantineBetween \<Longrightarrow> qresponses q \<noteq> quarantineResponses"
      using admitByte_budget [OF inv live that] by simp
    have w: "qwork q < quarantineWorkUnits" if "qmode q = quarantineLine \<or>
        qmode q = quarantineBetween \<and> qwork q \<noteq> quarantineWorkUnits"
      using that inv live by (auto simp: qinv_def qlive_def qbudget_def counters_ok_def)
    show ?thesis
    proof (cases "qsessionBytes q = quarantineSessionBytes \<or> qmode q = quarantineBetween \<and>
        (qresponses q = quarantineResponses \<or> qwork q = quarantineWorkUnits)")
      case True
      with f have "q' = q" by (simp add: feedLocked_def split: if_splits)
      then show ?thesis by (rule refused)
    next
      case False
      then have b': "qbudget (admitByte v q)" by (intro b) simp_all
      show ?thesis
      proof (cases "qmode (admitByte v q) = quarantineLine")
        case True
        with f False have "lineByteLocked v (admitByte v q) = (q', r)"
          by (simp add: feedLocked_def Let_def split: if_splits)
        moreover from True False have "qwork q < quarantineWorkUnits"
          by (intro w) (simp split: if_splits)
        ultimately show ?thesis using True b' by (intro line)
      next
        case n: False
        obtain q1 r1 where q1: "fetchByteLocked v (admitByte v q) = (q1, r1)" by fastforce
        with f False n have "q' = q1"
          by (cases r1) (simp_all add: feedLocked_def Let_def split: if_splits)
        with q1 b' show ?thesis by (intro fetch [of r1]) simp_all
      qed
    qed
  qed
  then show ?thesis
  proof cases
    case refused
    with inv live show ?thesis by (simp add: qinv_def)
  next
    case line
    from lineByteLocked_fields [OF line(2)] line(3,4) live show ?thesis
      by (simp add: qbudget_def)
  next
    case fetch
    from fetchByteLocked_budget [OF this] live show ?thesis by simp
  qed
qed

text \<open>What a byte that is not refused leads to.\<close>

lemma feedLocked_None:
  assumes "feedLocked v q = (q', None)"
  obtains (line) "qmode (admitByte v q) = quarantineLine" "lineByteLocked v (admitByte v q) = (q', None)"
    | (fetch) "qmode q = quarantineFetch" "fetchByteLocked v (admitByte v q) = (q', None)"
        "qmode q' = quarantineFetch \<longrightarrow> fetchFeasibleLocked q' = None"
proof (cases "qmode (admitByte v q) = quarantineLine")
  case True
  with assms show ?thesis by (intro line) (simp_all add: feedLocked_def Let_def split: if_splits)
next
  case False
  then have m: "qmode q = quarantineFetch" by (cases "qmode q") simp_all
  from assms False have "and_then (fetchByteLocked v (admitByte v q))
      (\<lambda>q. if qmode q = quarantineFetch then (q, fetchFeasibleLocked q) else (q, None)) = (q', None)"
    by (simp add: feedLocked_def Let_def split: if_splits)
  then obtain q1 where q1: "fetchByteLocked v (admitByte v q) = (q1, None)"
    and k: "(if qmode q1 = quarantineFetch then (q1, fetchFeasibleLocked q1) else (q1, None)) = (q', None)"
    unfolding and_then_None by blast
  from k have q': "q' = q1" by (simp split: if_splits)
  from k have "qmode q1 = quarantineFetch \<longrightarrow> fetchFeasibleLocked q1 = None"
    by (metis snd_conv)
  with q1 m show ?thesis by (intro fetch) (simp_all add: q')
qed

lemma feedLocked_live:
  assumes inv: "qinv q" and live: "qterminal q = None" and f: "feedLocked v q = (q', None)"
  shows "qlive q'"
  using f
proof (cases rule: feedLocked_None)
  case line
  have "qwork q < quarantineWorkUnits"
  proof (cases "qmode q")
    case quarantineBetween
    with f have "qwork q \<noteq> quarantineWorkUnits" by (simp add: feedLocked_def split: if_splits)
    with inv show ?thesis by (simp add: qinv_def qbudget_def counters_ok_def)
  next
    case quarantineLine
    with inv live show ?thesis by (simp add: qinv_def qlive_def)
  next
    case quarantineFetch
    with line(1) show ?thesis by simp
  qed
  with line show ?thesis by (intro lineByteLocked_live [OF line(2)]) simp_all
next
  case fetch
  show ?thesis
  proof (cases "qstate q = fetchEndLF")
    case True
    with fetch(2) have "completeFetchLocked (admitByte v q) = (q', None)"
      by (simp add: fetchByteLocked_end split: if_splits)
    from completeFetchLocked_fields [OF this] show ?thesis by (simp add: qlive_def)
  next
    case False
    have "fetch_shape q" using inv live fetch(1) by (simp add: qinv_def qlive_def)
    then have "fetch_shape (admitByte v q)"
      using fetch(1) by (cases "qstate q") (simp_all add: fetch_shape_def)
    then have "fetch_shape q'" using fetch(2) False by (intro fetchByteLocked_shape [OF fetch(2)]) simp_all
    moreover have "qmode q' = quarantineFetch"
      using fetchByteLocked_lex [OF _ fetch(2)] False fetch(1) by (simp add: same_io_def)
    ultimately show ?thesis using fetch(3) by (simp add: qlive_def)
  qed
qed

lemma refuseLocked_fields [simp]:
  "qterminal (refuseLocked e q) = Some e" "qframe (refuseLocked e q) = []"
  "qpending (refuseLocked e q) = qpending q" "qsessionBytes (refuseLocked e q) = qsessionBytes q"
  "qdispatch (refuseLocked e q) = qdispatch q" "qselectedUID (refuseLocked e q) = qselectedUID q"
  by (simp_all add: refuseLocked_def)

lemma refuseLocked_inv: "qbudget q \<Longrightarrow> qinv (refuseLocked e q)"
  by (simp add: refuseLocked_def qinv_def qbudget_def counters_ok_def)

lemma feedLocked_inv:
  assumes "qinv q" "qterminal q = None" "feedLocked v q = (q', None)"
  shows "qinv q' \<and> qterminal q' = None"
  using feedLocked_budget [OF assms] feedLocked_live [OF assms] by (simp add: qinv_def)

lemma feedAll_inv: "qinv q \<Longrightarrow> qterminal q = None \<Longrightarrow> qinv (feedAll vs q)"
proof (induction vs arbitrary: q)
  case (Cons v vs)
  obtain q' r where f: "feedLocked v q = (q', r)" by fastforce
  show ?case
  proof (cases r)
    case None
    with f feedLocked_inv [OF Cons.prems, of v q'] Cons.IH [of q'] show ?thesis by simp
  next
    case (Some e)
    with f feedLocked_budget [OF Cons.prems f] show ?thesis by (simp add: refuseLocked_inv)
  qed
qed simp

text \<open>The invariant does not depend on the dispatch state or on what waits to be delivered.\<close>

lemma lexer_view_update [simp]:
  "fetch_shape (q\<lparr>qdispatch := x\<rparr>) = fetch_shape q" "fetch_shape (q\<lparr>qpending := p\<rparr>) = fetch_shape q"
  "fetchFeasibleLocked (q\<lparr>qdispatch := x\<rparr>) = fetchFeasibleLocked q"
  "fetchFeasibleLocked (q\<lparr>qpending := p\<rparr>) = fetchFeasibleLocked q"
  "lineBound (q\<lparr>qdispatch := x\<rparr>) = lineBound q" "lineBound (q\<lparr>qpending := p\<rparr>) = lineBound q"
  by (simp_all add: fetch_shape_def fetchFeasibleLocked_def fetch_closing_def fetch_bytesNeeded_def
      lineBound_def Let_def cong: fetchState.case_cong)

lemma qinv_update [simp]:
  "qinv (q\<lparr>qdispatch := x\<rparr>) = qinv q" "qinv (q\<lparr>qpending := p\<rparr>) = qinv q"
  by (simp_all add: qinv_def qbudget_def counters_ok_def qlive_def cong: quarantineMode.case_cong)

lemma qinv_budget: "qinv q \<Longrightarrow> qbudget q"
  by (simp add: qinv_def)

lemma sourceFailedLocked_refuses: "\<exists>c. sourceFailedLocked e q = refuseLocked c q"
  by (simp add: sourceFailedLocked_def abortLocked_def) blast

lemma readFill_cases:
  assumes "qterminal q = None"
  obtains "readFill bs e q = feedAll bs q"
    | c where "qterminal (feedAll bs q) = None" "readFill bs e q = refuseLocked c (feedAll bs q)"
proof (cases "e = None \<or> qterminal (feedAll bs q) \<noteq> None")
  case True
  with assms have "readFill bs e q = feedAll bs q"
    by (cases e) (simp_all add: readFill_def Let_def del: not_None_eq)
  then show ?thesis by (rule that(1))
next
  case False
  then obtain x where e: "e = Some x" and t: "qterminal (feedAll bs q) = None" by (cases e) simp_all
  obtain c where "sourceFailedLocked x (feedAll bs q) = refuseLocked c (feedAll bs q)"
    using sourceFailedLocked_refuses by blast
  with e t assms have "readFill bs e q = refuseLocked c (feedAll bs q)"
    by (simp add: readFill_def Let_def)
  with t show ?thesis by (rule that(2))
qed

lemma readFill_inv: "qinv q \<Longrightarrow> qinv (readFill bs e q)"
proof (cases "qterminal q")
  case None
  assume "qinv q"
  then have "qinv (feedAll bs q)" using None by (rule feedAll_inv)
  with None show ?thesis
    by (cases rule: readFill_cases [of q bs e]) (simp_all add: qinv_budget refuseLocked_inv)
qed (simp add: readFill_def)

lemma beginDispatch_inv: "qinv q \<Longrightarrow> qinv (fst (beginDispatch q))"
  by (simp add: beginDispatch_def refuseLocked_inv qinv_budget)

lemma abort_inv: "qinv q \<Longrightarrow> qinv (fst (abort cause q))"
  by (simp add: abort_def abortLocked_def refuseLocked_inv Let_def qinv_budget)

lemma readPoll_inv: "qinv q \<Longrightarrow> qinv (snd (readPoll len q))"
  by (simp add: readPoll_def split: option.split)

lemma new_inv: "newStructureQuarantine source uid = Inr q \<Longrightarrow> qinv q \<and> qterminal q = None"
  by (simp add: newStructureQuarantine_def split: if_splits)
     (auto simp: qinv_def qbudget_def counters_ok_def qlive_def)

section \<open>Reachable states\<close>

text \<open>
  The histories of one quarantine. \<open>reach uid i d q\<close>: built for \<open>uid\<close>, the quarantine has
  consumed the source bytes \<open>i\<close>, handed \<open>d\<close> to the decoder and is in state \<open>q\<close>. Every rule is
  one section under the mutex; \<^verbatim>\<open>readMu\<close> keeps the fill of a read behind its poll, so a fill
  never carries more bytes than the limit the poll computed.
\<close>

inductive reach :: "uint32 \<Rightarrow> bytes \<Rightarrow> bytes \<Rightarrow> structureQuarantine \<Rightarrow> bool" where
  start: "newStructureQuarantine True uid = Inr q \<Longrightarrow> reach uid [] [] q"
| dispatch: "reach uid i d q \<Longrightarrow> reach uid i d (fst (beginDispatch q))"
| abort: "reach uid i d q \<Longrightarrow> reach uid i d (fst (abort cause q))"
| deliver: "reach uid i d q \<Longrightarrow> readPoll len q = (ReadBytes bs, q') \<Longrightarrow> reach uid i (d @ bs) q'"
| fill: "reach uid i d q \<Longrightarrow> length bs \<le> readLimit q \<Longrightarrow> reach uid (i @ bs) d (readFill bs e q)"

inductive_cases reachE: "reach uid i d q"

lemma reach_inv: "reach uid i d q \<Longrightarrow> qinv q"
proof (induction rule: reach.induct)
  case (deliver uid i d q len bs q')
  then show ?case using readPoll_inv [of q len] by simp
qed (simp_all add: new_inv beginDispatch_inv abort_inv readFill_inv)

lemma reach_literal:
  "reach uid i d q \<Longrightarrow> qterminal q = None \<Longrightarrow> qmode q = quarantineFetch \<Longrightarrow>
   qstate q \<in> {fetchLiteralSize, fetchLiteralCR, fetchLiteralLF, fetchLiteral} \<Longrightarrow> qliteral q < 2 ^ 32"
  using reach_inv [of uid i d q] by (auto simp: qinv_def qlive_def fetch_shape_def)

text \<open>A refusal is final: no event changes it, and no byte is released after it.\<close>

lemma feedLocked_None_fields:
  assumes "feedLocked v q = (q', None)"
  shows "qsessionBytes q' = qsessionBytes q + 1 \<and> qterminal q' = qterminal q \<and>
    qselectedUID q' = qselectedUID q"
  using assms
proof (cases rule: feedLocked_None)
  case line
  from lineByteLocked_fields [OF line(2)] show ?thesis by simp
next
  case fetch
  then show ?thesis
    using completeFetchLocked_fields [of "admitByte v q" q' None] fetchByteLocked_lex [OF _ fetch(2)]
    by (cases "qstate q = fetchEndLF") (simp_all add: fetchByteLocked_end same_io_def split: if_splits)
qed

lemma feedAll_session:
  "qterminal q = None \<Longrightarrow> qterminal (feedAll vs q) = None \<Longrightarrow>
   qsessionBytes (feedAll vs q) = qsessionBytes q + length vs"
proof (induction vs arbitrary: q)
  case (Cons v vs)
  obtain q' r where f: "feedLocked v q = (q', r)" by fastforce
  with Cons.prems have "r = None" by (cases r) simp_all
  with f feedLocked_None_fields [of v q q'] Cons.IH [of q'] Cons.prems show ?case by simp
qed simp

lemma feedAll_append:
  "qterminal q = None \<Longrightarrow>
   feedAll (a @ b) q = (if qterminal (feedAll a q) = None then feedAll b (feedAll a q) else feedAll a q)"
proof (induction a arbitrary: q)
  case (Cons v vs)
  obtain q' r where f: "feedLocked v q = (q', r)" by fastforce
  then show ?case
    using Cons.IH [of q'] feedLocked_None_fields [of v q q'] Cons.prems by (cases r) simp_all
qed simp

section \<open>Framing\<close>

text \<open>
  The specification of what may pass. \<open>fetch_frame f\<close>: a whole FETCH response, from a prefix
  that \<^verbatim>\<open>fetchPrefix\<close> accepts to the end of its line. \<open>framed inp out n\<close>: the input is a
  sequence of whole responses, the output holds the approved controls and \<open>n\<close> FETCH responses
  of it in order, and nothing else; the other FETCH responses are swallowed.
\<close>

definition fetch_frame :: "bytes \<Rightarrow> bool" where
  "fetch_frame f \<longleftrightarrow> (\<exists>pfx body. f = pfx @ body @ [CHR '')'', CR, LF] \<and> fetchPrefix pfx = Inr True) \<and>
     length f \<le> quarantineFrameBytes"

definition control_frame :: "bytes \<Rightarrow> bool" where
  "control_frame f \<longleftrightarrow> (\<exists>l. f = l @ [CR, LF] \<and> CR \<notin> set l \<and> LF \<notin> set l \<and> quarantineControl l)"

inductive framed :: "bytes \<Rightarrow> bytes \<Rightarrow> nat \<Rightarrow> bool" where
  none: "framed [] [] 0"
| control: "framed inp out n \<Longrightarrow> control_frame f \<Longrightarrow> framed (inp @ f) (out @ f) n"
| swallow: "framed inp out n \<Longrightarrow> fetch_frame f \<Longrightarrow> framed (inp @ f) out n"
| release: "framed inp out n \<Longrightarrow> fetch_frame f \<Longrightarrow> framed (inp @ f) (out @ f) (Suc n)"

text \<open>The text of an unfinished response.\<close>

definition partial_frame :: "structureQuarantine \<Rightarrow> bool" where
  "partial_frame q \<longleftrightarrow> (case qmode q of
      quarantineBetween \<Rightarrow> True
    | quarantineLine \<Rightarrow> (\<exists>l. qframe q = l @ (if qlineCR q then [CR] else []) \<and> CR \<notin> set l \<and> LF \<notin> set l)
    | quarantineFetch \<Rightarrow> (\<exists>pfx body. fetchPrefix pfx = Inr True \<and>
        qframe q = pfx @ body @ (if qstate q = fetchEndCR then [CHR '')'']
          else if qstate q = fetchEndLF then [CHR '')'', CR] else [])))"

definition open_frame :: "structureQuarantine \<Rightarrow> bytes" where
  "open_frame q = (if qmode q = quarantineBetween then [] else qframe q)"

text \<open>The effect of one byte on what is released.\<close>

definition frame_step :: "structureQuarantine \<Rightarrow> char \<Rightarrow> structureQuarantine \<Rightarrow> bool" where
  "frame_step q v q' \<longleftrightarrow>
     (open_frame q' = open_frame q @ [v] \<and> qpending q' = qpending q \<and> qdispatch q' = qdispatch q) \<or>
     (open_frame q' = [] \<and> control_frame (open_frame q @ [v]) \<and>
        qpending q' = qpending q @ open_frame q @ [v] \<and> qdispatch q' = qdispatch q) \<or>
     (open_frame q' = [] \<and> fetch_frame (open_frame q @ [v]) \<and> qpending q' = qpending q \<and>
        qdispatch q' = qdispatch q) \<or>
     (open_frame q' = [] \<and> fetch_frame (open_frame q @ [v]) \<and>
        qpending q' = qpending q @ open_frame q @ [v] \<and>
        qdispatch q = quarantineActive \<and> qdispatch q' = quarantineDelivered)"

lemma lineByteLocked_None:
  assumes "lineByteLocked v q = (q', None)" "qmode q = quarantineLine"
  obtains (complete) "qlineCR q" "v = LF" "quarantineControl (take (length (qframe q) - 2) (qframe q))"
      "q' = releaseLocked (q\<lparr>qwork := qwork q + 1\<rparr>)"
    | (cr) "\<not> qlineCR q" "v = CR" "q' = q\<lparr>qlineCR := True\<rparr>"
    | (plain) n where "\<not> qlineCR q" "v \<noteq> CR" "v \<noteq> LF" "q' = q\<lparr>qlineSpaces := n\<rparr>"
    | (fetch) n where "fetchPrefix (qframe q) = Inr True" "\<not> qlineCR q" "v \<noteq> CR" "v \<noteq> LF"
        "q' = startFetchLocked (q\<lparr>qlineSpaces := n\<rparr>)"
proof -
  let ?s = "q\<lparr>qlineSpaces := qlineSpaces q + 1\<rparr>"
  consider (a) "qlineCR q" | (b) "\<not> qlineCR q" "v = CR" | (c) "\<not> qlineCR q" "v = LF"
    | (d) "\<not> qlineCR q" "v \<noteq> CR" "v \<noteq> LF" "\<not> (v = SP \<and> qframe q ! 0 = CHR ''*'')"
    | (e) "\<not> qlineCR q" "v \<noteq> CR" "v \<noteq> LF" "v = SP \<and> qframe q ! 0 = CHR ''*''" "qlineSpaces ?s \<noteq> 3"
    | (f) "\<not> qlineCR q" "v \<noteq> CR" "v \<noteq> LF" "v = SP \<and> qframe q ! 0 = CHR ''*''" "qlineSpaces ?s = 3"
    by blast
  then show ?thesis
  proof cases
    case a
    with assms(1) have "v = LF" "completeLineLocked q = (q', None)"
      by (simp_all add: lineByteLocked_def split: if_splits)
    with a show ?thesis by (intro complete) (simp_all add: completeLineLocked_def split: if_splits)
  next
    case b
    with assms(1) show ?thesis by (intro cr) (simp_all add: lineByteLocked_def Let_def)
  next
    case c
    with assms(1) show ?thesis by (simp add: lineByteLocked_def)
  next
    case d
    with assms(1) have "q' = q" by (simp add: lineByteLocked_def split: if_splits)
    with d show ?thesis by (intro plain [of "qlineSpaces q"]) simp_all
  next
    case e
    with assms(1) have "q' = ?s" by (simp add: lineByteLocked_def Let_def)
    with e show ?thesis by (intro plain [of "qlineSpaces q + 1"]) simp_all
  next
    case f
    then have l: "lineByteLocked v q = (case fetchPrefix (qframe q) of Inl e \<Rightarrow> (?s, Some e)
        | Inr True \<Rightarrow> (startFetchLocked ?s, fetchFeasibleLocked (startFetchLocked ?s))
        | Inr False \<Rightarrow> (?s, lineBound ?s))"
      by (simp add: lineByteLocked_def Let_def split: sum.split bool.split)
    show ?thesis
    proof (cases "fetchPrefix (qframe q) = Inr True")
      case True
      with l assms(1) have "q' = startFetchLocked ?s" by simp
      with True f show ?thesis by (intro fetch [of "qlineSpaces q + 1"]) simp_all
    next
      case False
      with l assms(1) have "q' = ?s" by (simp split: sum.splits bool.splits)
      with f show ?thesis by (intro plain [of "qlineSpaces q + 1"]) simp_all
    qed
  qed
qed

lemma line_frame_step:
  assumes l: "lineByteLocked v (admitByte v q) = (q', None)" and m: "qmode (admitByte v q) = quarantineLine"
    and p: "partial_frame q"
  shows "frame_step q v q' \<and> partial_frame q'"
proof -
  have fr: "qframe (admitByte v q) = open_frame q @ [v]" by (simp add: open_frame_def)
  obtain l0 where l0: "open_frame q = l0 @ (if qlineCR (admitByte v q) then [CR] else [])"
    "CR \<notin> set l0" "LF \<notin> set l0"
    using p m by (simp add: partial_frame_def open_frame_def split: if_splits) blast+
  from l m show ?thesis
  proof (cases rule: lineByteLocked_None)
    case complete
    with l0 fr have "control_frame (open_frame q @ [v])"
      by (auto simp: control_frame_def)
    with complete fr show ?thesis
      by (simp add: frame_step_def partial_frame_def releaseLocked_def open_frame_def)
  next
    case cr
    with fr m l0 show ?thesis
      by (simp add: frame_step_def partial_frame_def open_frame_def split: if_splits)
  next
    case (plain n)
    with fr m l0 show ?thesis
      by (simp add: frame_step_def partial_frame_def open_frame_def split: if_splits)
  next
    case (fetch n)
    then have q': "qmode q' = quarantineFetch" "qstate q' = fetchOpen" "qframe q' = open_frame q @ [v]"
      "qpending q' = qpending q" "qdispatch q' = qdispatch q"
      using fr by (simp_all add: startFetchLocked_def)
    with fetch(1) fr have "partial_frame q'"
      by (simp add: partial_frame_def) (metis append_Nil2)
    with q' show ?thesis by (simp add: frame_step_def open_frame_def [of q'])
  qed
qed

text \<open>The lexer enters its closing states only over a closing parenthesis and its CR.\<close>

lemma itemsByteLocked_end:
  assumes "itemsByteLocked v q = (q', None)" "qstate q = fetchItems"
  shows "qstate q' \<noteq> fetchEndLF \<and> (qstate q' = fetchEndCR \<longrightarrow> v = CHR '')'')"
  using assms(1)
proof (cases rule: itemsByteLocked_None)
  case space
  from items_space_None [OF this(2)] assms(2) show ?thesis by (elim disjE) simp_all
next
  case opn
  from items_open_None [OF this(2)] assms(2) show ?thesis
    unfolding openLocked_None tokenLocked_None by (elim disjE exE conjE) simp_all
next
  case close
  from close(2) have "closeLocked q = (q', None)" by (simp add: items_close_None)
  with close(1) assms(2) show ?thesis
    by (simp add: closeLocked_None tokenLocked_None)
next
  case token
  from items_token_None [OF this] show ?thesis by (elim disjE) (simp_all add: tokenLocked_None)
qed

lemma fetchByteLocked_plain_closing:
  assumes "qstate q \<in> {fetchQuoted, fetchEscape, fetchLiteralCR, fetchLiteralLF, fetchLiteral, fetchEndCR}"
  shows "snd (fetchByteLocked v q) = None \<longrightarrow>
    (qstate (fst (fetchByteLocked v q)) = fetchEndLF \<longrightarrow> qstate q = fetchEndCR \<and> v = CR) \<and>
    qstate (fst (fetchByteLocked v q)) \<noteq> fetchEndCR"
proof (cases "qstate q")
qed (use assms in \<open>simp_all add: fetchByteLocked_def expectByte_def Let_def\<close>)

lemma fetchByteLocked_closing:
  assumes f: "fetchByteLocked v q = (q', None)" and s: "qstate q \<noteq> fetchEndLF"
  shows "(qstate q' = fetchEndLF \<longrightarrow> qstate q = fetchEndCR \<and> v = CR) \<and>
    (qstate q' = fetchEndCR \<longrightarrow> v = CHR '')'')"
proof (cases "qstate q")
  case fetchOpen
  with f have "openLocked (q\<lparr>qstate := fetchItems\<rparr>) = (q', None)"
    by (simp add: fetchByteLocked_def expectByte_def split: if_splits)
  then show ?thesis unfolding openLocked_None tokenLocked_None by (elim exE conjE) simp
next
  case fetchItems
  with f have "itemsByteLocked v q = (q', None)" by (simp add: fetchByteLocked_def)
  from itemsByteLocked_end [OF this fetchItems] show ?thesis by simp
next
  case fetchAtom
  show ?thesis
  proof (cases "quarantineAtomChar v")
    case True
    with f fetchAtom have "q' = q" by (simp add: fetchByteLocked_def split: if_splits)
    with fetchAtom show ?thesis by simp
  next
    case False
    with f fetchAtom obtain q1 where "itemsByteLocked v (q1\<lparr>qstate := fetchItems\<rparr>) = (q', None)"
      by (simp add: fetchByteLocked_def and_then_None) (elim exE conjE, rule that, simp_all)
    from itemsByteLocked_end [OF this] show ?thesis by simp
  qed
next
  case fetchEndLF
  with s show ?thesis by simp
next
  case fetchLiteralSize
  have "snd (literalSizeByteLocked v q) = None \<longrightarrow>
      qstate (fst (literalSizeByteLocked v q)) \<in> {fetchLiteralSize, fetchLiteralCR}"
    using fetchLiteralSize by (simp add: literalSizeByteLocked_def Let_def)
  with f fetchLiteralSize show ?thesis by (auto simp: fetchByteLocked_def)
qed (use fetchByteLocked_plain_closing [of q v] f in \<open>simp_all\<close>)

lemma fetch_frame_step:
  assumes f: "fetchByteLocked v (admitByte v q) = (q', None)" and m: "qmode q = quarantineFetch"
    and p: "partial_frame q" and len: "length (qframe q) < quarantineFrameBytes"
  shows "frame_step q v q' \<and> partial_frame q'"
proof (cases "qstate q = fetchEndLF")
  case True
  with f have v: "v = LF" and c: "completeFetchLocked (admitByte v q) = (q', None)"
    by (simp_all add: fetchByteLocked_end split: if_splits)
  from p m True len v have ff: "fetch_frame (open_frame q @ [v])"
    by (auto simp: partial_frame_def fetch_frame_def open_frame_def)
  have "snd (completeFetchLocked (admitByte v q)) = None \<longrightarrow>
      frame_step q v (fst (completeFetchLocked (admitByte v q))) \<and>
      partial_frame (fst (completeFetchLocked (admitByte v q)))"
    using ff m by (simp add: completeFetchLocked_def frame_step_def partial_frame_def releaseLocked_def
        open_frame_def)
  with c show ?thesis by simp
next
  case False
  with fetchByteLocked_lex [OF _ f] have io: "same_io (admitByte v q) q'" by simp
  from False fetchByteLocked_closing [OF f] have cl:
    "(qstate q' = fetchEndLF \<longrightarrow> qstate q = fetchEndCR \<and> v = CR) \<and> (qstate q' = fetchEndCR \<longrightarrow> v = CHR '')'')"
    by simp
  obtain pfx body where pb: "fetchPrefix pfx = Inr True" "qframe q = pfx @ body @
      (if qstate q = fetchEndCR then [CHR '')''] else [])"
    using p m False by (auto simp: partial_frame_def)
  have "frame_step q v q'" using io m by (simp add: frame_step_def same_io_def open_frame_def)
  moreover have "qframe q' = qframe q @ [v]" "qmode q' = quarantineFetch"
    using io m by (simp_all add: same_io_def)
  with pb cl have "partial_frame q'"
    by (cases "qstate q' = fetchEndLF"; cases "qstate q' = fetchEndCR")
       (simp_all add: partial_frame_def, (blast | metis append_assoc)+)
  ultimately show ?thesis by simp
qed

lemma feedLocked_frame_step:
  assumes inv: "qinv q" and live: "qterminal q = None" and p: "partial_frame q"
    and f: "feedLocked v q = (q', None)"
  shows "frame_step q v q' \<and> partial_frame q'"
  using f
proof (cases rule: feedLocked_None)
  case line
  from line_frame_step [OF line(2,1) p] show ?thesis .
next
  case fetch
  have "length (qframe q) < quarantineFrameBytes"
    using inv live fetch(1) bytesNeeded_positive [of q]
    by (simp add: qinv_def qlive_def fetchFeasible_None)
  from fetch_frame_step [OF fetch(2,1) p this] show ?thesis .
qed

lemma lineByteLocked_Some:
  "snd (lineByteLocked v q) \<noteq> None \<longrightarrow>
     qpending (fst (lineByteLocked v q)) = qpending q \<and> qdispatch (fst (lineByteLocked v q)) = qdispatch q"
  by (simp add: lineByteLocked_def completeLineLocked_def startFetchLocked_def Let_def
      split: sum.split bool.split)

lemma completeFetchLocked_Some:
  "snd (completeFetchLocked q) \<noteq> None \<longrightarrow> fst (completeFetchLocked q) = q"
  by (simp add: completeFetchLocked_def)

lemma feedLocked_Some:
  assumes "feedLocked v q = (q', Some e)"
  shows "qpending q' = qpending q \<and> qdispatch q' = qdispatch q"
proof (cases "qsessionBytes q = quarantineSessionBytes \<or> qmode q = quarantineBetween \<and>
    (qresponses q = quarantineResponses \<or> qwork q = quarantineWorkUnits)")
  case True
  with assms show ?thesis by (simp add: feedLocked_def split: if_splits)
next
  case False
  show ?thesis
  proof (cases "qmode (admitByte v q) = quarantineLine")
    case True
    with assms False have "lineByteLocked v (admitByte v q) = (q', Some e)"
      by (simp add: feedLocked_def Let_def split: if_splits)
    with lineByteLocked_Some [of v "admitByte v q"] show ?thesis by simp
  next
    case line: False
    obtain q1 r1 where f: "fetchByteLocked v (admitByte v q) = (q1, r1)" by fastforce
    have feed: "feedLocked v q = and_then (q1, r1)
        (\<lambda>q. if qmode q = quarantineFetch then (q, fetchFeasibleLocked q) else (q, None))"
      using False line f by (simp add: feedLocked_def Let_def del: admitByte_fields) blast
    with assms have q1: "q' = q1" by (cases r1) (simp_all split: if_splits)
    show ?thesis
    proof (cases "qstate q = fetchEndLF")
      case True
      with f have c: "v = LF \<and> completeFetchLocked (admitByte v q) = (q1, r1) \<or> q1 = admitByte v q"
        by (simp add: fetchByteLocked_end split: if_splits)
      then have "q1 = admitByte v q"
      proof
        assume c: "v = LF \<and> completeFetchLocked (admitByte v q) = (q1, r1)"
        then have "r1 = None \<longrightarrow> qmode q1 = quarantineBetween"
          using completeFetchLocked_fields [of "admitByte v q" q1 r1] by blast
        with feed assms have "r1 \<noteq> None" by (cases r1) simp_all
        with c completeFetchLocked_Some [of "admitByte v q"] show ?thesis by (elim conjE) simp
      qed
      with q1 show ?thesis by simp
    next
      case e: False
      then have "same_io (admitByte v q) q1" using fetchByteLocked_lex [OF _ f] by simp
      with q1 show ?thesis by (simp add: same_io_def)
    qed
  qed
qed

text \<open>
  The ledger: of the input consumed so far, a prefix is a sequence of whole responses whose
  approved part is exactly what has been handed out or waits to be; while the quarantine is
  live the rest is the open frame.
\<close>

definition accounted :: "bytes \<Rightarrow> bytes \<Rightarrow> structureQuarantine \<Rightarrow> bool" where
  "accounted i d q \<longleftrightarrow> (\<exists>i0.
     framed i0 (d @ qpending q) (if qdispatch q = quarantineDelivered then 1 else 0) \<and> prefix i0 i \<and>
     (qterminal q = None \<longrightarrow> i = i0 @ open_frame q \<and> partial_frame q))"

lemma accounted_step:
  assumes a: "accounted i d q" and live: "qterminal q = None" "qterminal q' = None"
    and s: "frame_step q v q'" and p: "partial_frame q'"
  shows "accounted (i @ [v]) d q'"
proof -
  from a live obtain i0 where
    i0: "framed i0 (d @ qpending q) (if qdispatch q = quarantineDelivered then 1 else 0)"
    "i = i0 @ open_frame q" by (auto simp: accounted_def)
  let ?f = "open_frame q @ [v]"
  from s consider
    (grow) "open_frame q' = ?f" "qpending q' = qpending q" "qdispatch q' = qdispatch q"
  | (control) "open_frame q' = []" "control_frame ?f" "qpending q' = qpending q @ ?f" "qdispatch q' = qdispatch q"
  | (swallow) "open_frame q' = []" "fetch_frame ?f" "qpending q' = qpending q" "qdispatch q' = qdispatch q"
  | (release) "open_frame q' = []" "fetch_frame ?f" "qpending q' = qpending q @ ?f"
      "qdispatch q = quarantineActive" "qdispatch q' = quarantineDelivered"
    unfolding frame_step_def by blast
  then show ?thesis
  proof cases
    case grow
    with i0 p show ?thesis by (auto simp: accounted_def)
  next
    case control
    from framed.control [OF i0(1) control(2)] control i0(2) p show ?thesis
      by (auto simp: accounted_def)
  next
    case swallow
    from framed.swallow [OF i0(1) swallow(2)] swallow i0(2) p show ?thesis
      by (auto simp: accounted_def)
  next
    case release
    from framed.release [OF i0(1) release(2)] release i0(2) p show ?thesis
      by (auto simp: accounted_def)
  qed
qed

lemma accounted_extend: "accounted i d q \<Longrightarrow> qterminal q \<noteq> None \<Longrightarrow> accounted (i @ bs) d q"
  by (auto simp: accounted_def simp del: not_None_eq intro: prefix_prefix)

lemma accounted_refuse:
  "accounted i d q \<Longrightarrow> qpending q' = qpending q \<Longrightarrow> qdispatch q' = qdispatch q \<Longrightarrow>
   accounted i d (refuseLocked e q')"
  by (auto simp: accounted_def)

lemma feedAll_accounted:
  "qinv q \<Longrightarrow> qterminal q = None \<Longrightarrow> accounted i d q \<Longrightarrow> accounted (i @ vs) d (feedAll vs q)"
proof (induction vs arbitrary: i q)
  case (Cons v vs)
  from Cons.prems have p: "partial_frame q" by (auto simp: accounted_def)
  obtain q' r where f: "feedLocked v q = (q', r)" by fastforce
  show ?case
  proof (cases r)
    case None
    with f have f': "feedLocked v q = (q', None)" by simp
    from feedLocked_inv [OF Cons.prems(1,2) f'] have q': "qinv q'" "qterminal q' = None" by simp_all
    from feedLocked_frame_step [OF Cons.prems(1,2) p f']
    have "accounted (i @ [v]) d q'" using q'(2) by (intro accounted_step [OF Cons.prems(3,2)]) simp_all
    from Cons.IH [OF q' this] f' show ?thesis by simp
  next
    case (Some e)
    with f have "feedLocked v q = (q', Some e)" by simp
    from feedLocked_Some [OF this] Cons.prems(3) have "accounted i d (refuseLocked e q')"
      by (intro accounted_refuse) simp_all
    from accounted_extend [OF this, of "v # vs"] f Some show ?thesis by simp
  qed
qed simp

lemma reach_accounted: "reach uid i d q \<Longrightarrow> accounted i d q"
proof (induction rule: reach.induct)
  case (start uid q)
  then show ?case
    by (auto simp: newStructureQuarantine_def accounted_def open_frame_def partial_frame_def
        intro: framed.none split: if_splits)
next
  case (dispatch uid i d q)
  then show ?case
    by (simp add: beginDispatch_def accounted_refuse)
       (auto simp: accounted_def open_frame_def partial_frame_def cong: quarantineMode.case_cong)
next
  case (abort uid i d q cause)
  then show ?case by (simp add: abort_def abortLocked_def Let_def accounted_refuse)
next
  case (deliver uid i d q len bs q')
  then have "qpending q \<noteq> [] \<and> bs @ qpending q' = qpending q \<and> (\<exists>p. q' = q\<lparr>qpending := p\<rparr>) \<or> bs = [] \<and> q' = q"
    by (auto simp: readPoll_def split: if_splits option.splits)
  with deliver.IH show ?case
    by (auto simp: accounted_def open_frame_def partial_frame_def cong: quarantineMode.case_cong)
next
  case (fill uid i d q bs e)
  show ?case
  proof (cases "qterminal q")
    case None
    from feedAll_accounted [OF reach_inv [OF fill(1)] None fill.IH]
    have a: "accounted (i @ bs) d (feedAll bs q)" .
    from None show ?thesis
      by (cases rule: readFill_cases [of q bs e]) (simp_all add: a accounted_refuse [OF a])
  next
    case (Some c)
    then show ?thesis using accounted_extend [OF fill.IH] by (simp add: readFill_def)
  qed
qed

end
