(* ===== verification/Quarantine_Properties.thy ===== *)
theory Quarantine_Properties
  imports Quarantine_Safety
begin

text \<open>
  What the structure quarantine promises its session, over every history of \<open>reach\<close>: budgets,
  framing, finality of a refusal, the session's byte allowance, independence of how the
  transport splits the bytes, and the results of \<^verbatim>\<open>Read\<close>.
\<close>

section \<open>Sample sessions\<close>

text \<open>
  One session for message 7 whose structure FETCH is released, and one that is refused at its
  first byte; the witnesses below evaluate them.
\<close>

definition sample_new :: "structureQuarantine" where
  "sample_new = projr (newStructureQuarantine True 7)"

definition sample_input :: bytes where
  "sample_input = ''* 3 EXISTS'' @ CRLF @ ''* 1 FETCH (UID 7 BODYSTRUCTURE (a b))'' @ CRLF"

lemma sample_reach:
  "reach 7 sample_input [] (readFill sample_input None (fst (beginDispatch sample_new)))"
proof -
  have "newStructureQuarantine True 7 = Inr sample_new"
    by (simp add: sample_new_def newStructureQuarantine_def)
  from reach.fill [OF reach.dispatch [OF reach.start [OF this]], of sample_input None]
  show ?thesis
    by (simp add: sample_input_def readLimit_def sample_new_def newStructureQuarantine_def
        beginDispatch_def)
qed

definition sample_end :: structureQuarantine where
  "sample_end = readFill sample_input None (fst (beginDispatch sample_new))"

lemma sample_end_reach: "reach 7 sample_input [] sample_end"
  using sample_reach by (simp add: sample_end_def)

definition sample_refused :: structureQuarantine where
  "sample_refused = readFill [LF] None sample_new"

lemma sample_refused_terminal: "qterminal sample_refused = Some CodeIMAPProtocol"
  by code_simp

lemma reach_refused_fills:
  "reach uid i d q \<Longrightarrow> qterminal q = Some c \<Longrightarrow> qsessionBytes q < 120000 \<Longrightarrow>
   reach uid (i @ concat (replicate n (replicate 4096 LF))) d q"
proof (induction n)
  case (Suc n)
  then have "reach uid (i @ concat (replicate n (replicate 4096 LF))) d q" by blast
  from reach.fill [OF this, of "replicate 4096 LF" None] Suc.prems
  have "reach uid ((i @ concat (replicate n (replicate 4096 LF))) @ replicate 4096 LF) d q"
    by (simp add: readLimit_def readFill_def)
  moreover have "concat (replicate n xs) @ xs = concat (replicate (Suc n) xs)" for xs :: bytes
    by (induction n) simp_all
  ultimately show ?case by (metis append_assoc)
qed simp


section \<open>Supporting lemmas\<close>

lemma reach_consumed: "reach uid i d q \<Longrightarrow> qterminal q = None \<Longrightarrow> qsessionBytes q = length i"
proof (induction rule: reach.induct)
  case (start uid q)
  then show ?case by (auto simp: newStructureQuarantine_def split: if_splits)
next
  case (dispatch uid i d q)
  then show ?case by (simp add: beginDispatch_def split: if_splits)
next
  case (abort uid i d q cause)
  then show ?case by (simp add: abort_def abortLocked_def Let_def split: if_splits)
next
  case (deliver uid i d q len bs q')
  then show ?case by (auto simp: readPoll_def split: if_splits option.splits)
next
  case (fill uid i d q bs e)
  then have live: "qterminal q = None" by (simp add: readFill_def split: if_splits)
  from live show ?case
    using fill live by (cases rule: readFill_cases [of q bs e]) (simp_all add: feedAll_session)
qed

lemma readPoll_cases:
  assumes "readPoll len q = (r, q')"
  shows "case r of
      ReadBytes bs \<Rightarrow> length bs \<le> len \<and> (0 < len \<longrightarrow> bs \<noteq> [])
    | ReadError c \<Rightarrow> qpending q' = [] \<and> qterminal q' = Some c
    | ReadSource n \<Rightarrow> q' = q \<and> qpending q = [] \<and> qterminal q = None \<and> 0 < n"
  using assms by (auto simp: readPoll_def readLimit_def split: if_splits option.splits)

lemma Read_result:
  "Read len q src = Some (r, q', rest) \<Longrightarrow>
     (case r of Inl c \<Rightarrow> qpending q' = [] \<and> qterminal q' = Some c
      | Inr bs \<Rightarrow> length bs \<le> len \<and> (0 < len \<longrightarrow> bs \<noteq> []))"
proof (induction len q src rule: Read.induct)
  case (1 len q src)
  obtain o1 q1 where p: "readPoll len q = (o1, q1)" by fastforce
  show ?case
  proof (cases o1)
    case (ReadBytes bs)
    with p 1(2) readPoll_cases [OF p] show ?thesis by (subst (asm) Read.simps) auto
  next
    case (ReadError c)
    with p 1(2) readPoll_cases [OF p] show ?thesis by (subst (asm) Read.simps) auto
  next
    case (ReadSource n)
    with 1(2) p obtain bs e rest1 where s: "sourceRead n src = Some (bs, e, rest1)"
      and r: "Read len (readFill bs e q1) rest1 = Some (r, q', rest)"
      by (subst (asm) Read.simps) (auto split: option.splits)
    from 1(1) [OF p [symmetric] ReadSource s _ _ r] show ?thesis by simp
  qed
qed

lemma readPoll_error_stable:
  "qpending q = [] \<Longrightarrow> qterminal q = Some c \<Longrightarrow> Read len q src = Some (Inl c, q, src)"
  by (subst Read.simps) (simp add: readPoll_def)


section \<open>Properties\<close>

text \<open>
  C2. In every reachable state, refused ones included, the quarantine is within its budgets:
  at most 131072 bytes, 64 responses and 8192 units of work per session, at most 4096 tokens
  and 64 levels per FETCH, and a frame buffer whose contents and capacity never exceed 65536
  bytes; and a live quarantine has counted exactly the bytes it consumed.
\<close>

theorem quarantine_budgets:
  assumes "reach uid i d q"
  shows "qsessionBytes q \<le> 131072 \<and> qresponses q \<le> 64 \<and> qwork q \<le> 8192 \<and> qtokens q \<le> 4096 \<and>
    qdepth q \<le> 64 \<and> length (qframe q) \<le> qcap q \<and> qcap q \<le> 65536 \<and>
    (qterminal q = None \<longrightarrow> qsessionBytes q = length i)"
  using reach_inv [OF assms] reach_consumed [OF assms]
  by (simp add: qinv_def qbudget_def counters_ok_def)

theorem quarantine_budgets_witness:
  "qsessionBytes sample_end \<le> 131072 \<and> qcap sample_end \<le> 65536 \<and> qtokens sample_end = 9 \<and>
   qsessionBytes sample_end = 51 \<and> qterminal sample_end = None"
proof -
  have "qtokens sample_end = 9" "qsessionBytes sample_end = 51" "qterminal sample_end = None" by code_simp+
  with quarantine_budgets [OF sample_end_reach] show ?thesis by simp
qed



text \<open>
  A refusal is final and has one code: filling, beginning a dispatch and aborting leave a
  refused quarantine exactly as it is and report that code, and polling it only hands out
  bytes approved before the refusal.
\<close>

theorem quarantine_refusal_final:
  assumes "qterminal q = Some c"
  shows "readFill bs e q = q \<and> beginDispatch q = (q, Some c) \<and> abort cause q = (q, Some c) \<and>
    (if qpending q = [] then readPoll len q = (ReadError c, q)
     else readPoll len q = (ReadBytes (take len (qpending q)), q\<lparr>qpending := drop len (qpending q)\<rparr>))"
  using assms by (simp add: readFill_def beginDispatch_def abort_def readPoll_def)

theorem quarantine_refusal_final_witness:
  "qterminal sample_refused = Some CodeIMAPProtocol \<and>
   readFill (''* OK'' @ CRLF) None sample_refused = sample_refused \<and>
   readPoll 10 sample_refused = (ReadError CodeIMAPProtocol, sample_refused)"
proof -
  have "qpending sample_refused = []" by code_simp
  with quarantine_refusal_final [OF sample_refused_terminal, of "''* OK'' @ CRLF" None _ 10]
  show ?thesis using sample_refused_terminal by simp
qed

text \<open>
  A session cannot outlive its byte allowance: once more than 131072 bytes have been
  consumed the quarantine has been refused.
\<close>

theorem quarantine_session_cap:
  assumes "reach uid i d q" "131072 < length i"
  shows "qterminal q \<noteq> None"
proof
  assume "qterminal q = None"
  with reach_consumed [OF assms(1)] reach_inv [OF assms(1)] assms(2) show False
    by (simp add: qinv_def qbudget_def)
qed

theorem quarantine_session_cap_witness:
  "\<exists>i d. reach 7 i d sample_refused \<and> 131072 < length i \<and> qterminal sample_refused \<noteq> None"
proof -
  have new: "newStructureQuarantine True 7 = Inr sample_new"
    by (simp add: sample_new_def newStructureQuarantine_def)
  have "reach 7 ([] @ [LF]) [] sample_refused"
    unfolding sample_refused_def
    by (rule reach.fill [OF reach.start [OF new]])
       (simp add: readLimit_def sample_new_def newStructureQuarantine_def)
  moreover have "qsessionBytes sample_refused = 1" by code_simp
  ultimately have r: "reach 7 ([LF] @ concat (replicate 32 (replicate 4096 LF))) [] sample_refused"
    using reach_refused_fills [OF _ sample_refused_terminal, of 7 "[LF]" "[]" 32] by simp
  have len: "131072 < length ([LF] @ concat (replicate 32 (replicate 4096 LF)))"
    by (simp add: length_concat sum_list_replicate)
  from quarantine_session_cap [OF r len] r len show ?thesis by blast
qed

text \<open>
  C3. How the transport splits the bytes does not matter: filling with \<open>a\<close> and then with \<open>b\<close>
  leaves the same state as filling with both at once, for every state and every split.
\<close>

theorem quarantine_chunking:
  "readFill b e (readFill a None q) = readFill (a @ b) e q"
proof (cases "qterminal q")
  case None
  then have a: "readFill a None q = feedAll a q" by (simp add: readFill_def)
  show ?thesis
  proof (cases "qterminal (feedAll a q)")
    case (Some c)
    with None a show ?thesis by (simp add: readFill_def feedAll_append Let_def split: option.split)
  next
    case live: None
    with None a show ?thesis by (simp add: readFill_def feedAll_append Let_def)
  qed
qed (simp add: readFill_def)

text \<open>
  \<^verbatim>\<open>Read\<close> never returns bytes together with an error: it returns its error only when
  nothing approved is left, the error is the recorded refusal, and every later \<^verbatim>\<open>Read\<close>
  returns the same error without touching the source; and when it returns bytes into a
  non-empty buffer they are a non-empty prefix of what was approved.
\<close>

theorem quarantine_Read_result:
  assumes "Read len q src = Some (r, q', rest)"
  shows "case r of
      Inl c \<Rightarrow> qpending q' = [] \<and> qterminal q' = Some c \<and>
        (\<forall>len' src'. Read len' q' src' = Some (Inl c, q', src'))
    | Inr bs \<Rightarrow> length bs \<le> len \<and> (0 < len \<longrightarrow> bs \<noteq> [])"
  using Read_result [OF assms] by (cases r) (simp_all add: readPoll_error_stable)

theorem quarantine_Read_result_witness:
  "\<exists>q' rest. Read 8 sample_new [(''* 3 EXISTS'' @ CRLF, None)] = Some (Inr ''* 3 EXIS'', q', rest) \<and>
   length ''* 3 EXIS'' \<le> (8 :: nat)"
proof -
  have "map_option fst (Read 8 sample_new [(''* 3 EXISTS'' @ CRLF, None)]) = Some (Inr ''* 3 EXIS'')"
    by code_simp
  then obtain q' rest where
    r: "Read 8 sample_new [(''* 3 EXISTS'' @ CRLF, None)] = Some (Inr ''* 3 EXIS'', q', rest)"
    by auto
  from quarantine_Read_result [OF this] r show ?thesis by auto
qed


end
