(* ===== verification/Wire_Guards.thy ===== *)
theory Wire_Guards
  imports Bridge_Errors
begin

text \<open>
  The connection wrappers of \<^verbatim>\<open>bridge/imapclient.go\<close> that sit around the authenticated IMAP
  connection: \<^verbatim>\<open>dispatchGuardConn\<close>, which while armed lets exactly one native MOVE line out,
  \<^verbatim>\<open>deadlineConn\<close>, which never lets a deadline exceed the command's limit, and
  \<^verbatim>\<open>syntheticGreetingConn\<close>, which replays one local greeting.

  The wrapped \<^verbatim>\<open>net.Conn\<close> is not this program's code. The guard's state records the calls it
  makes on it, oldest first, so that what reaches the wire is part of the state.
\<close>

section \<open>The native MOVE guard\<close>

datatype conn_call = ConnWrite bytes | ConnClose

record dispatchGuardConn =
  armed :: bool
  used :: bool
  tripped :: bool
  guard_prefix :: bytes
  guard_calls :: "conn_call list"

text \<open>\<^verbatim>\<open>nativeMoveLine(buffer, prefix)\<close>.\<close>

definition nativeMoveLine :: "bytes \<Rightarrow> bytes \<Rightarrow> bool" where
  "nativeMoveLine buffer pfx \<longleftrightarrow>
     (let (body, complete) = cut_suffix buffer CRLF in
      if \<not> complete \<or> contains_any body [CR, LF] then False
      else (let (tag, command, found) = cut_byte SP body in
        if \<not> found \<or> tag = [] then False
        else (let (mailbox, native) = cut_prefix command pfx in
          native \<and> mailbox \<noteq> [] \<and> \<not> has_suffix mailbox ''}'')))"

definition move_prefix :: "uint32 \<Rightarrow> bytes" where
  "move_prefix uid = ''UID MOVE '' @ format_uint (unat uid) @ '' ''"

definition arm :: "uint32 \<Rightarrow> dispatchGuardConn \<Rightarrow> dispatchGuardConn" where
  "arm uid g = g\<lparr>armed := True, used := False, tripped := False, guard_prefix := move_prefix uid\<rparr>"

definition disarm :: "dispatchGuardConn \<Rightarrow> bool \<times> dispatchGuardConn" where
  "disarm g = (tripped g, g\<lparr>armed := False\<rparr>)"

text \<open>
  \<^verbatim>\<open>Write(buffer)\<close>: \<open>True\<close> when the buffer was handed to the wrapped connection, \<open>False\<close> when
  it was refused with \<^verbatim>\<open>errDispatchRefused\<close>.
\<close>

definition Write :: "bytes \<Rightarrow> dispatchGuardConn \<Rightarrow> bool \<times> dispatchGuardConn" where
  "Write buffer g =
     (if armed g \<and> (tripped g \<or> used g \<or> \<not> nativeMoveLine buffer (guard_prefix g))
      then (False, g\<lparr>tripped := True, guard_calls := guard_calls g @ [ConnClose]\<rparr>)
      else (True, g\<lparr>used := (used g \<or> armed g), guard_calls := guard_calls g @ [ConnWrite buffer]\<rparr>))"

text \<open>The writes a client attempts, in the order the guard's mutex admits them.\<close>

fun write_all :: "bytes list \<Rightarrow> dispatchGuardConn \<Rightarrow> dispatchGuardConn" where
  "write_all [] g = g"
| "write_all (b # bs) g = write_all bs (snd (Write b g))"

fun conn_writes :: "conn_call list \<Rightarrow> bytes list" where
  "conn_writes [] = []"
| "conn_writes (ConnWrite b # cs) = b # conn_writes cs"
| "conn_writes (ConnClose # cs) = conn_writes cs"

subsection \<open>What a native MOVE line is\<close>

lemma nativeMoveLine_iff:
  "nativeMoveLine buffer pfx \<longleftrightarrow> (\<exists>tag mailbox.
     buffer = tag @ '' '' @ pfx @ mailbox @ CRLF \<and> tag \<noteq> [] \<and> SP \<notin> set tag \<and> mailbox \<noteq> [] \<and>
     last mailbox \<noteq> CHR ''}'' \<and> set (tag @ pfx @ mailbox) \<inter> {CR, LF} = {})"
proof
  assume "nativeMoveLine buffer pfx"
  then obtain body tag command mailbox where
    b: "cut_suffix buffer CRLF = (body, True)" and c: "\<not> contains_any body CRLF"
    and t: "cut_byte SP body = (tag, command, True)" "tag \<noteq> []"
    and m: "cut_prefix command pfx = (mailbox, True)" "mailbox \<noteq> []" "\<not> has_suffix mailbox ''}''"
    by (auto simp: nativeMoveLine_def Let_def split: prod.splits if_splits)
  have body: "body = tag @ SP # pfx @ mailbox" and sp: "SP \<notin> set tag"
    using cut_prefix_SomeD [OF m(1)] t(1) by (simp_all add: cut_byte_found)
  have buf: "buffer = tag @ '' '' @ pfx @ mailbox @ CRLF"
    using cut_suffix_SomeD [OF b] body by simp
  have lst: "last mailbox \<noteq> CHR ''}''"
    using m(2,3) by (simp add: has_suffix_single)
  have clean: "set (tag @ pfx @ mailbox) \<inter> {CR, LF} = {}"
    using c by (auto simp: body contains_any_def list_ex_iff)
  show "\<exists>tag mailbox. buffer = tag @ '' '' @ pfx @ mailbox @ CRLF \<and> tag \<noteq> [] \<and> SP \<notin> set tag \<and>
      mailbox \<noteq> [] \<and> last mailbox \<noteq> CHR ''}'' \<and> set (tag @ pfx @ mailbox) \<inter> {CR, LF} = {}"
    by (intro exI conjI) (rule buf t(2) sp m(2) lst clean)+
next
  assume "\<exists>tag mailbox. buffer = tag @ '' '' @ pfx @ mailbox @ CRLF \<and> tag \<noteq> [] \<and> SP \<notin> set tag \<and>
      mailbox \<noteq> [] \<and> last mailbox \<noteq> CHR ''}'' \<and> set (tag @ pfx @ mailbox) \<inter> {CR, LF} = {}"
  then obtain tag mailbox where m: "buffer = (tag @ SP # pfx @ mailbox) @ CRLF" "tag \<noteq> []" "SP \<notin> set tag"
    "mailbox \<noteq> []" "last mailbox \<noteq> CHR ''}''" "set (tag @ pfx @ mailbox) \<inter> {CR, LF} = {}" by auto
  have "cut_suffix buffer CRLF = (tag @ SP # pfx @ mailbox, True)"
    using m(1) has_suffix_append [of "tag @ SP # pfx @ mailbox" CRLF] by (simp add: cut_suffix_def)
  moreover have "\<not> contains_any (tag @ SP # pfx @ mailbox) CRLF"
    using m(6) by (auto simp: contains_any_def list_ex_iff)
  moreover have "cut_byte SP (tag @ SP # pfx @ mailbox) = (tag, pfx @ mailbox, True)"
    using m(3) by (rule cut_byte_append)
  moreover have "\<not> has_suffix mailbox ''}''"
    using m(5) by (simp add: has_suffix_single)
  ultimately show "nativeMoveLine buffer pfx"
    using m(2,4) by (simp add: nativeMoveLine_def cut_prefix_def)
qed

subsection \<open>The armed guard\<close>

text \<open>
  What an armed guard keeps: nothing was written since it was armed until \<open>used\<close> is set, and
  then exactly one native MOVE line was.
\<close>

definition guard_inv :: "bytes \<Rightarrow> bytes list \<Rightarrow> dispatchGuardConn \<Rightarrow> bool" where
  "guard_inv pfx before g \<longleftrightarrow> armed g \<and> guard_prefix g = pfx \<and>
     (if used g then \<exists>line. nativeMoveLine line pfx \<and> conn_writes (guard_calls g) = before @ [line]
      else conn_writes (guard_calls g) = before)"

lemma conn_writes_append [simp]: "conn_writes (a @ b) = conn_writes a @ conn_writes b"
  by (induction a rule: conn_writes.induct) simp_all

lemma guard_inv_arm: "guard_inv (move_prefix uid) (conn_writes (guard_calls g)) (arm uid g)"
  by (simp add: guard_inv_def arm_def)

lemma guard_inv_Write: "guard_inv pfx before g \<Longrightarrow> guard_inv pfx before (snd (Write b g))"
  by (auto simp: guard_inv_def Write_def split: if_splits)

lemma guard_inv_write_all: "guard_inv pfx before g \<Longrightarrow> guard_inv pfx before (write_all bs g)"
  by (induction bs arbitrary: g) (simp_all add: guard_inv_Write)

lemma write_all_tripped: "armed g \<Longrightarrow> tripped g \<Longrightarrow> tripped (write_all bs g) \<and>
    conn_writes (guard_calls (write_all bs g)) = conn_writes (guard_calls g)"
  by (induction bs arbitrary: g) (simp_all add: Write_def)

lemma Write_refused: "armed g \<Longrightarrow> \<not> fst (Write b g) \<Longrightarrow>
    tripped (snd (Write b g)) \<and> last (guard_calls (snd (Write b g))) = ConnClose"
  by (simp add: Write_def split: if_splits)

lemma write_all_used: "armed g \<Longrightarrow> used g \<Longrightarrow> bs \<noteq> [] \<Longrightarrow> tripped (write_all bs g)"
  by (cases bs) (simp_all add: Write_def write_all_tripped)

text \<open>
  While the guard is armed for a UID, whatever sequence of writes the IMAP client attempts,
  at most one reaches the connection, and it is one complete line
  \<^verbatim>\<open><tag> UID MOVE <uid> <mailbox>\<close> for that UID, with no other line break and no literal.
\<close>

theorem armed_guard_one_move:
  "\<exists>sent. conn_writes (guard_calls (write_all bs (arm uid g))) = conn_writes (guard_calls g) @ sent \<and>
     length sent \<le> 1 \<and>
     (\<forall>line \<in> set sent. \<exists>tag mailbox.
        line = tag @ '' UID MOVE '' @ format_uint (unat uid) @ '' '' @ mailbox @ CRLF \<and>
        tag \<noteq> [] \<and> SP \<notin> set tag \<and> mailbox \<noteq> [] \<and> last mailbox \<noteq> CHR ''}'' \<and>
        set (tag @ mailbox) \<inter> {CR, LF} = {})"
proof -
  from guard_inv_write_all [OF guard_inv_arm]
  have inv: "guard_inv (move_prefix uid) (conn_writes (guard_calls g)) (write_all bs (arm uid g))" .
  show ?thesis
  proof (cases "used (write_all bs (arm uid g))")
    case True
    with inv obtain line where l: "nativeMoveLine line (move_prefix uid)"
      "conn_writes (guard_calls (write_all bs (arm uid g))) = conn_writes (guard_calls g) @ [line]"
      by (auto simp: guard_inv_def)
    from l(1) show ?thesis
      by (intro exI [of _ "[line]"]) (auto simp: l(2) nativeMoveLine_iff move_prefix_def)
  next
    case False
    with inv show ?thesis by (intro exI [of _ "[]"]) (simp add: guard_inv_def)
  qed
qed

definition sample_guard :: dispatchGuardConn where
  "sample_guard = \<lparr>armed = False, used = False, tripped = False, guard_prefix = [],
     guard_calls = [ConnWrite (''T0 NOOP'' @ CRLF)]\<rparr>"

theorem armed_guard_one_move_witness:
  "\<exists>sent. conn_writes (guard_calls (write_all [''T1 UID MOVE 7 Archive'' @ CRLF, ''T2 UID COPY 7 Archive'' @ CRLF]
       (arm 7 sample_guard))) = conn_writes (guard_calls sample_guard) @ sent \<and>
     sent = [''T1 UID MOVE 7 Archive'' @ CRLF] \<and> length sent \<le> 1"
proof -
  have "conn_writes (guard_calls (write_all [''T1 UID MOVE 7 Archive'' @ CRLF, ''T2 UID COPY 7 Archive'' @ CRLF]
       (arm 7 sample_guard))) = conn_writes (guard_calls sample_guard) @ [''T1 UID MOVE 7 Archive'' @ CRLF]"
    by code_simp
  with armed_guard_one_move [of "[''T1 UID MOVE 7 Archive'' @ CRLF, ''T2 UID COPY 7 Archive'' @ CRLF]" 7
      sample_guard] show ?thesis by auto
qed

lemma write_all_outcome:
  "tripped (write_all bs (arm uid g)) \<longleftrightarrow> \<not> (bs = [] \<or> (\<exists>b. bs = [b] \<and> nativeMoveLine b (move_prefix uid)))"
proof (cases bs)
  case Nil
  then show ?thesis by (simp add: arm_def)
next
  case (Cons b bs')
  show ?thesis
  proof (cases "nativeMoveLine b (move_prefix uid)")
    case True
    then have w: "Write b (arm uid g) = (True, (arm uid g)\<lparr>used := True, guard_calls := guard_calls g @ [ConnWrite b]\<rparr>)"
      by (simp add: Write_def arm_def)
    then show ?thesis using Cons True write_all_used [of "snd (Write b (arm uid g))" bs']
      by (cases "bs' = []") (simp_all add: arm_def)
  next
    case False
    then have "tripped (snd (Write b (arm uid g)))" "armed (snd (Write b (arm uid g)))"
      by (simp_all add: Write_def arm_def)
    with write_all_tripped [of "snd (Write b (arm uid g))" bs'] Cons False show ?thesis by simp
  qed
qed

text \<open>
  Disarming after a batch of writes tells whether any of them was refused: it reports
  false exactly when nothing was written, or one write was attempted and it was the native
  MOVE line of the armed UID.
\<close>

theorem disarm_reports:
  "fst (disarm (write_all bs (arm uid g))) = False \<longleftrightarrow>
     bs = [] \<or> (\<exists>b. bs = [b] \<and> nativeMoveLine b (move_prefix uid))"
  by (simp add: disarm_def write_all_outcome)

section \<open>The deadline limit\<close>

text \<open>
  \<^verbatim>\<open>deadlineConn\<close>. An instant is an integer and \<open>None\<close> is Go's zero \<^verbatim>\<open>time.Time\<close>, which a
  connection reads as no deadline. \<open>conn_read\<close> and \<open>conn_write\<close> are the deadlines last set on
  the wrapped connection.
\<close>

record deadlineConn =
  deadline :: "int option"
  conn_read :: "int option"
  conn_write :: "int option"

definition setLimit :: "int option \<Rightarrow> deadlineConn \<Rightarrow> deadlineConn" where
  "setLimit d c = c\<lparr>deadline := d, conn_read := d, conn_write := d\<rparr>"

definition clearLimit :: "deadlineConn \<Rightarrow> deadlineConn" where
  "clearLimit c = c\<lparr>deadline := None, conn_read := None, conn_write := None\<rparr>"

definition effectiveDeadline :: "int option \<Rightarrow> deadlineConn \<Rightarrow> int option" where
  "effectiveDeadline d c = (case deadline c of
      None \<Rightarrow> d
    | Some l \<Rightarrow> (case d of None \<Rightarrow> Some l | Some t \<Rightarrow> if l < t then Some l else Some t))"

definition SetReadDeadline :: "int option \<Rightarrow> deadlineConn \<Rightarrow> deadlineConn" where
  "SetReadDeadline d c = c\<lparr>conn_read := effectiveDeadline d c\<rparr>"

definition SetWriteDeadline :: "int option \<Rightarrow> deadlineConn \<Rightarrow> deadlineConn" where
  "SetWriteDeadline d c = c\<lparr>conn_write := effectiveDeadline d c\<rparr>"

datatype deadline_call = SetRead "int option" | SetWrite "int option"

fun deadline_step :: "deadline_call \<Rightarrow> deadlineConn \<Rightarrow> deadlineConn" where
  "deadline_step (SetRead d) c = SetReadDeadline d c"
| "deadline_step (SetWrite d) c = SetWriteDeadline d c"

definition no_later :: "int option \<Rightarrow> int \<Rightarrow> bool" where
  "no_later d l \<longleftrightarrow> (case d of None \<Rightarrow> False | Some t \<Rightarrow> t \<le> l)"

lemma effectiveDeadline_limit: "deadline c = Some l \<Longrightarrow> no_later (effectiveDeadline d c) l"
  by (simp add: effectiveDeadline_def no_later_def split: option.split)

lemma effectiveDeadline_earlier:
  "deadline c = Some l \<Longrightarrow> d = Some t \<Longrightarrow> t \<le> l \<Longrightarrow> effectiveDeadline d c = Some t"
  by (simp add: effectiveDeadline_def)

lemma deadline_steps_limit:
  assumes "deadline c = Some l" "no_later (conn_read c) l" "no_later (conn_write c) l"
  shows "let c' = fold deadline_step calls c in
    deadline c' = Some l \<and> no_later (conn_read c') l \<and> no_later (conn_write c') l"
  using assms
proof (induction calls arbitrary: c)
  case (Cons k calls)
  have "deadline (deadline_step k c) = Some l \<and> no_later (conn_read (deadline_step k c)) l \<and>
      no_later (conn_write (deadline_step k c)) l"
    using Cons.prems effectiveDeadline_limit [of c l]
    by (cases k) (simp_all add: SetReadDeadline_def SetWriteDeadline_def)
  with Cons.IH [of "deadline_step k c"] show ?case by simp
qed simp

text \<open>
  Once a command's limit is set, no sequence of read and write deadlines set by the IMAP
  client moves a deadline of the connection past it or removes it.
\<close>

theorem deadline_never_past_limit:
  "let c' = fold deadline_step calls (setLimit (Some l) c) in
     (\<exists>r. conn_read c' = Some r \<and> r \<le> l) \<and> (\<exists>w. conn_write c' = Some w \<and> w \<le> l)"
  using deadline_steps_limit [of "setLimit (Some l) c" l calls]
  by (simp add: setLimit_def no_later_def Let_def split: option.splits)

section \<open>The synthetic greeting\<close>

text \<open>\<^verbatim>\<open>syntheticGreetingConn.Read\<close>: \<open>Inl\<close> bytes of the local greeting, or \<open>Inr\<close> a read that
  goes to the connection with the whole buffer.\<close>

definition greetingRead :: "nat \<Rightarrow> bytes \<Rightarrow> (bytes + nat) \<times> bytes" where
  "greetingRead len greeting =
     (if greeting \<noteq> [] then (Inl (take len greeting), drop len greeting) else (Inr len, greeting))"

fun greetingReads :: "nat list \<Rightarrow> bytes \<Rightarrow> bytes" where
  "greetingReads [] g = []"
| "greetingReads (n # ns) g =
     (case greetingRead n g of (Inl bs, g') \<Rightarrow> bs @ greetingReads ns g' | (Inr k, g') \<Rightarrow> [])"

lemma greetingReads_prefix: "prefix (greetingReads ns g) g"
proof (induction ns arbitrary: g)
  case (Cons n ns)
  have "prefix (take n g @ greetingReads ns (drop n g)) (take n g @ drop n g)"
    unfolding same_prefix_prefix by (rule Cons.IH)
  then show ?case by (simp add: greetingRead_def)
qed simp

end
