(* ===== verification/Search_Wire.thy ===== *)
theory Search_Wire
  imports Bridge_Errors "HOL-Library.Multiset"
begin

text \<open>
  How the SEARCH observer of \<^verbatim>\<open>bridge/imapclient.go\<close> reads one response line: the lexical
  functions (atoms, ESEARCH values, correlators, trailing literals), the classification of a
  line, the walk over an ESEARCH line and the overlap test on a sequence set. Each is a
  function of the line alone; \<open>Search_Observer\<close> holds the state they feed.
\<close>

section \<open>White space\<close>

text \<open>
  \<^verbatim>\<open>strings.Fields\<close> and \<^verbatim>\<open>strings.TrimSpace\<close> treat the white space of Unicode as separators:
  the encodings below. No lead byte of them occurs inside another rune, so scanning bytes
  finds exactly the runes Go decodes.
\<close>

definition space_runes :: "bytes list" where
  "space_runes = [[TAB], [LF], [CHR 0x0B], [CHR 0x0C], [CR], [SP], [CHR 0xC2, CHR 0x85],
     [CHR 0xC2, CHR 0xA0], [CHR 0xE1, CHR 0x9A, CHR 0x80]] @
     map (\<lambda>n. [CHR 0xE2, CHR 0x80, char_of n]) ([128::nat, 129, 130, 131, 132, 133, 134, 135, 136, 137, 138] @
       [168, 169, 175]) @
     [[CHR 0xE2, CHR 0x81, CHR 0x9F], [CHR 0xE3, CHR 0x80, CHR 0x80]]"

definition space_width :: "bytes \<Rightarrow> nat" where
  "space_width s = (case find (has_prefix s) space_runes of None \<Rightarrow> 0 | Some p \<Rightarrow> length p)"

lemma space_width_le: "space_width s \<le> length s"
proof (cases "find (has_prefix s) space_runes")
  case (Some p)
  then have "has_prefix s p" by (auto simp: find_Some_iff)
  with Some show ?thesis by (auto simp: space_width_def elim: has_prefixE)
qed (simp add: space_width_def)

text \<open>\<^verbatim>\<open>strings.Fields\<close>: the word being read is kept reversed.\<close>

function fields_from :: "bytes \<Rightarrow> bytes \<Rightarrow> bytes list" where
  "fields_from word s =
     (if s = [] then (if word = [] then [] else [rev word])
      else if space_width s = 0 then fields_from (hd s # word) (tl s)
      else (if word = [] then [] else [rev word]) @ fields_from [] (drop (space_width s) s))"
  by pat_completeness auto
termination
proof (relation "measure (\<lambda>(w, s). length s)")
  fix s :: bytes
  assume "s \<noteq> []" "space_width s \<noteq> 0"
  then show "(([], drop (space_width s) s), (w, s)) \<in> measure (\<lambda>(w, s). length s)" for w :: bytes
    by simp
qed auto

declare fields_from.simps [simp del]

definition go_fields :: "bytes \<Rightarrow> bytes list" where
  "go_fields s = fields_from [] s"

function trim_left :: "bytes \<Rightarrow> bytes" where
  "trim_left s = (if s = [] \<or> space_width s = 0 then s else trim_left (drop (space_width s) s))"
  by pat_completeness auto
termination by (relation "measure length") auto

declare trim_left.simps [simp del]

definition space_suffix :: "bytes \<Rightarrow> nat" where
  "space_suffix s = (case find (has_suffix s) space_runes of None \<Rightarrow> 0 | Some p \<Rightarrow> length p)"

function trim_right :: "bytes \<Rightarrow> bytes" where
  "trim_right s = (if s = [] \<or> space_suffix s = 0 then s else trim_right (take (length s - space_suffix s) s))"
  by pat_completeness auto
termination by (relation "measure length") auto

declare trim_right.simps [simp del]

text \<open>\<^verbatim>\<open>strings.TrimSpace\<close>.\<close>

definition trim_space :: "bytes \<Rightarrow> bytes" where
  "trim_space s = trim_right (trim_left s)"

section \<open>Lexical functions\<close>

definition isIMAPAtomChar :: "char \<Rightarrow> bool" where
  "isIMAPAtomChar c \<longleftrightarrow>
     c \<notin> set [CHR ''('', CHR '')'', CHR ''{'', SP, CHR ''%'', CHR ''*'', DQUOTE, BACKSLASH, CHR '']''] \<and>
     \<not> (byte_val c < 32 \<or> 127 \<le> byte_val c \<and> byte_val c < 160)"

definition eSearchAtom :: "bytes \<Rightarrow> bytes \<times> bytes" where
  "eSearchAtom input = (takeWhile isIMAPAtomChar input, dropWhile isIMAPAtomChar input)"

text \<open>The scan of \<^verbatim>\<open>eSearchValue\<close>: the index after the end of the value, if it ends.\<close>

fun value_scan :: "int \<Rightarrow> bool \<Rightarrow> nat \<Rightarrow> bytes \<Rightarrow> nat option" where
  "value_scan depth quoted i [] = None"
| "value_scan depth quoted i (c # s) =
     (if quoted \<and> c = BACKSLASH then
        (case s of [] \<Rightarrow> None | x # s' \<Rightarrow> value_scan depth quoted (i + 2) s')
      else if c = DQUOTE then
        (if quoted \<and> depth = 0 then Some (i + 1) else value_scan depth (\<not> quoted) (i + 1) s)
      else if quoted then value_scan depth quoted (i + 1) s
      else if c = CHR ''('' then value_scan (depth + 1) quoted (i + 1) s
      else if c = CHR '')'' then
        (if depth - 1 = 0 then Some (i + 1) else value_scan (depth - 1) quoted (i + 1) s)
      else value_scan depth quoted (i + 1) s)"

definition eSearchValue :: "bytes \<Rightarrow> bytes \<times> bytes" where
  "eSearchValue input =
     (if input = [] then ([], input)
      else if hd input \<noteq> DQUOTE \<and> hd input \<noteq> CHR ''('' then eSearchAtom input
      else (case value_scan 0 False 0 input of
              None \<Rightarrow> ([], input)
            | Some n \<Rightarrow> (take n input, drop n input)))"

text \<open>\<^verbatim>\<open>correlatorEnd\<close>: the scan starts behind the opening parenthesis.\<close>

fun correlator_scan :: "bool \<Rightarrow> nat \<Rightarrow> bytes \<Rightarrow> nat option" where
  "correlator_scan quoted i [] = None"
| "correlator_scan quoted i (c # s) =
     (if quoted \<and> c = BACKSLASH then
        (case s of [] \<Rightarrow> None | x # s' \<Rightarrow> correlator_scan quoted (i + 2) s')
      else if c = DQUOTE then correlator_scan (\<not> quoted) (i + 1) s
      else if \<not> quoted \<and> c = CHR '')'' then Some i
      else correlator_scan quoted (i + 1) s)"

definition correlatorEnd :: "bytes \<Rightarrow> nat option" where
  "correlatorEnd rest = correlator_scan False 1 (drop 1 rest)"

fun literal_scan :: "bool \<Rightarrow> nat option \<Rightarrow> nat \<Rightarrow> bytes \<Rightarrow> bool \<times> nat option" where
  "literal_scan quoted opening i [] = (quoted, opening)"
| "literal_scan quoted opening i (c # s) =
     (if quoted \<and> c = BACKSLASH then
        (case s of [] \<Rightarrow> (quoted, opening) | x # s' \<Rightarrow> literal_scan quoted opening (i + 2) s')
      else if c = DQUOTE then literal_scan (\<not> quoted) opening (i + 1) s
      else if \<not> quoted \<and> c = CHR ''{'' then literal_scan quoted (Some i) (i + 1) s
      else literal_scan quoted opening (i + 1) s)"

text \<open>\<^verbatim>\<open>trailingIMAPLiteral\<close>: the size and opening index of the literal, if there is one, and
  whether the line ends inside a quoted string.\<close>

definition trailingIMAPLiteral :: "bytes \<Rightarrow> (nat \<times> nat) option \<times> bool" where
  "trailingIMAPLiteral line =
     (let (quoted, opening) = literal_scan False None 0 line; l = trim_suffix line '' '' in
      if quoted then (None, True)
      else (case opening of
          None \<Rightarrow> (None, False)
        | Some start \<Rightarrow>
            if \<not> has_suffix l ''}'' then (None, False)
            else (let digits = trim_suffix (drop (start + 1) (take (length l - 1) l)) ''+'' in
              if digits = [] \<or> \<not> list_all is_digit digits then (None, False)
              else (case parse_uint 64 digits of
                  None \<Rightarrow> (Some (2 ^ 64 - 1, start), False)
                | Some n \<Rightarrow> (Some (n, start), False)))))"

section \<open>Classification\<close>

datatype imapLineKind = imapLineUnclassified | imapLineText | imapLineData | imapLineSearch | imapLineESearch

definition imapStatusText :: "bytes \<Rightarrow> imapLineKind" where
  "imapStatusText rest =
     (if has_prefix rest '' ['' \<and> CHR '']'' \<notin> set rest then imapLineUnclassified else imapLineText)"

definition imap_data_names :: "bytes list" where
  "imap_data_names = [''ID'', ''CAPABILITY'', ''ENABLED'', ''NAMESPACE'', ''FLAGS'', ''EXISTS'', ''RECENT'',
     ''LIST'', ''STATUS'', ''FETCH'', ''EXPUNGE'', ''SORT'', ''THREAD'', ''METADATA'', ''QUOTA'',
     ''QUOTAROOT'', ''MYRIGHTS'', ''ACL'']"

text \<open>The final switches of \<^verbatim>\<open>classifyIMAPResponse\<close>, once the type atom is known.\<close>

definition classify_name :: "bool \<Rightarrow> bytes \<Rightarrow> bytes \<Rightarrow> imapLineKind \<times> bytes" where
  "classify_name untagged name0 rest =
     (let name = to_upper name0 in
      if name0 = [] then (imapLineUnclassified, [])
      else if \<not> untagged \<or> name \<in> set [''OK'', ''PREAUTH'', ''NO'', ''BAD'', ''BYE''] then (imapStatusText rest, [])
      else if name = ''SEARCH'' then (imapLineSearch, rest)
      else if name = ''ESEARCH'' then (imapLineESearch, rest)
      else if name \<in> set imap_data_names then (imapLineData, [])
      else (imapLineUnclassified, []))"

definition classifyIMAPResponse :: "bytes \<Rightarrow> imapLineKind \<times> bytes" where
  "classifyIMAPResponse line =
     (if has_prefix line ''+'' then (imapLineText, [])
      else (let (rest0, untagged) = cut_prefix line ''*'';
                (tag, rest1) = (if untagged then ([], rest0) else eSearchAtom line) in
        if \<not> untagged \<and> tag = [] then (imapLineUnclassified, [])
        else (let (rest2, spaced) = cut_prefix rest1 '' '' in
          if \<not> spaced then (imapLineUnclassified, [])
          else (let (name, rest3) = eSearchAtom rest2 in
            if untagged \<and> name \<noteq> [] \<and> is_digit (hd name) then
              (if parse_uint 32 name = None then (imapLineUnclassified, [])
               else (let (rest4, spaced2) = cut_prefix rest3 '' '' in
                 if \<not> spaced2 then (imapLineUnclassified, [])
                 else (let (name2, rest5) = eSearchAtom rest4 in classify_name untagged name2 rest5)))
            else classify_name untagged name rest3))))"

text \<open>\<^verbatim>\<open>searchModSeqGroup\<close>.\<close>

definition searchModSeqGroup :: "bytes \<Rightarrow> bool" where
  "searchModSeqGroup group0 =
     (let group = trim_suffix group0 '' '';
          (name, value, ok) = cut_byte SP (trim_suffix (trim_prefix group ''('') '')'') in
      ok \<and> has_prefix group ''('' \<and> has_suffix group '')'' \<and> equal_fold name ''MODSEQ'' \<and>
      parse_uint 64 value \<noteq> None)"

section \<open>Sequence sets\<close>

text \<open>One item of the set, as an interval with its ends in order.\<close>

definition set_item :: "bytes \<Rightarrow> (nat \<times> nat) option" where
  "set_item item =
     (let (low, high, isRange) = cut_byte (CHR '':'') item in
      case parse_uint 32 low of
        None \<Rightarrow> None
      | Some start \<Rightarrow>
          if \<not> isRange then Some (start, start)
          else (case parse_uint 32 high of
              None \<Rightarrow> None
            | Some stop \<Rightarrow> Some (min start stop, max start stop)))"

fun set_items :: "bytes list \<Rightarrow> (nat \<times> nat) list option" where
  "set_items [] = Some []"
| "set_items (i # is) =
     (case set_item i of None \<Rightarrow> None | Some x \<Rightarrow> map_option ((#) x) (set_items is))"

text \<open>The comparison of neighbours after the sort.\<close>

fun neighbours_overlap :: "(nat \<times> nat) list \<Rightarrow> bool" where
  "neighbours_overlap (a # b # rest) \<longleftrightarrow> fst b \<le> snd a \<or> neighbours_overlap (b # rest)"
| "neighbours_overlap _ \<longleftrightarrow> False"

text \<open>
  \<^verbatim>\<open>sequenceSetOverlaps\<close>. The calls of its callback are the list of intervals it returns
  besides the two results. \<^verbatim>\<open>sort.Slice\<close> need not be stable; \<open>neighbours_sorted\<close> below shows
  that every sort by the start gives the same answer.
\<close>

definition sequenceSetOverlaps :: "bytes \<Rightarrow> (nat \<times> nat) list \<times> bool \<times> bool" where
  "sequenceSetOverlaps s =
     (case set_items (split_byte (CHR '','') s) of
        None \<Rightarrow> ([], False, False)
      | Some xs \<Rightarrow> (xs, neighbours_overlap (sort_key fst xs), True))"

section \<open>The ESEARCH walk\<close>

lemma eSearchAtom_length: "length (snd (eSearchAtom s)) \<le> length s"
  by (simp add: eSearchAtom_def length_dropWhile_le)

lemma eSearchValue_length: "length (snd (eSearchValue s)) \<le> length s"
  using eSearchAtom_length [of s] by (simp add: eSearchValue_def split: option.split)

lemma eSearch_smaller:
  assumes "eSearchValue (drop 1 rest) = (value, after)" "eSearchAtom (drop 1 after) = (name, rest2)"
    "has_prefix rest '' ''"
  shows "length rest2 < length rest"
proof -
  have "length after \<le> length (drop 1 rest)" using eSearchValue_length [of "drop 1 rest"] assms(1) by simp
  moreover have "length rest2 \<le> length (drop 1 after)" using eSearchAtom_length [of "drop 1 after"] assms(2) by simp
  moreover have "rest \<noteq> []" using assms(3) by (auto simp: has_prefix_def)
  ultimately show ?thesis by (cases rest) auto
qed

text \<open>
  The loop of \<^verbatim>\<open>eSearchAllOverlaps\<close> over name and value pairs. Besides its two results it
  returns the intervals passed to the callback, oldest first.
\<close>

function eSearch_walk :: "bytes \<Rightarrow> bytes \<Rightarrow> (nat \<times> nat) list \<times> bool \<times> bool" where
  "eSearch_walk name rest =
     (if name = [] then ([], False, rest = [])
      else if \<not> has_prefix rest '' '' then ([], False, False)
      else (let (value, after) = eSearchValue (drop 1 rest);
                (obs, overlap, parsed) =
                  (if equal_fold name ''ALL'' then sequenceSetOverlaps value else ([], False, True)) in
        if value = [] then ([], False, False)
        else if overlap then (obs, True, True)
        else if \<not> parsed then (obs, False, False)
        else if after = [] then (obs, False, True)
        else if \<not> has_prefix after '' '' then (obs, False, False)
        else (let (name2, rest2) = eSearchAtom (drop 1 after);
                  (obs2, o2, c2) = eSearch_walk name2 rest2 in (obs @ obs2, o2, c2))))"
  by pat_completeness auto
termination
  by (relation "measure (\<lambda>(n, r). length r)")
     (auto split: prod.split, metis eSearch_smaller One_nat_def)

declare eSearch_walk.simps [simp del]

definition eSearchAllOverlaps :: "bytes \<Rightarrow> (nat \<times> nat) list \<times> bool \<times> bool" where
  "eSearchAllOverlaps rest0 =
     (let rest1 = trim_space rest0;
          rest2 = (if has_prefix rest1 ''('' then
                     (case correlatorEnd rest1 of None \<Rightarrow> None
                      | Some closing \<Rightarrow> Some (trim_prefix (drop (closing + 1) rest1) '' ''))
                   else Some rest1) in
      case rest2 of
        None \<Rightarrow> ([], False, False)
      | Some rest \<Rightarrow>
          (let (name, rest') = eSearchAtom rest in
           if name = ''UID'' then
             (let (name2, rest2) = eSearchAtom (trim_prefix rest' '' '') in eSearch_walk name2 rest2)
           else eSearch_walk name rest'))"

section \<open>Correctness of the overlap test\<close>

definition covers :: "nat \<Rightarrow> nat \<times> nat \<Rightarrow> bool" where
  "covers n i \<longleftrightarrow> fst i \<le> n \<and> n \<le> snd i"

text \<open>The specification: some number lies in two items of the set.\<close>

definition named_twice :: "(nat \<times> nat) list \<Rightarrow> bool" where
  "named_twice xs \<longleftrightarrow> (\<exists>n. 2 \<le> length (filter (covers n) xs))"

lemma apart_later:
  "\<not> neighbours_overlap (a # xs) \<Longrightarrow> \<forall>i \<in> set xs. fst i \<le> snd i \<Longrightarrow> \<forall>i \<in> set xs. snd a < fst i"
proof (induction xs arbitrary: a)
  case (Cons b xs)
  then have "snd a < fst b" "\<forall>i \<in> set xs. snd b < fst i" by auto
  moreover have "fst b \<le> snd b" using Cons.prems by simp
  ultimately show ?case by auto
qed simp

lemma neighbours_named_twice:
  "sorted (map fst xs) \<Longrightarrow> \<forall>i \<in> set xs. fst i \<le> snd i \<Longrightarrow> neighbours_overlap xs \<longleftrightarrow> named_twice xs"
proof (induction xs rule: neighbours_overlap.induct)
  case (1 a b rest)
  have sub: "named_twice (b # rest) \<Longrightarrow> named_twice (a # b # rest)"
    unfolding named_twice_def by (metis filter.simps(2) le_SucI length_Cons)
  show ?case
  proof (cases "fst b \<le> snd a")
    case True
    then have "covers (fst b) a" "covers (fst b) b" using 1 by (auto simp: covers_def)
    then have "2 \<le> length (filter (covers (fst b)) (a # b # rest))" by simp
    then have "named_twice (a # b # rest)" unfolding named_twice_def by blast
    with True show ?thesis by simp
  next
    case False
    have "named_twice (a # b # rest) \<Longrightarrow> named_twice (b # rest)"
    proof (rule ccontr)
      assume t: "named_twice (a # b # rest)" and n: "\<not> named_twice (b # rest)"
      with 1 have no: "\<not> neighbours_overlap (b # rest)" by simp
      with False have later: "\<forall>i \<in> set (b # rest). snd a < fst i"
        using apart_later [of a "b # rest"] 1(3) by simp
      from t obtain k where k: "2 \<le> length (filter (covers k) (a # b # rest))"
        by (auto simp: named_twice_def)
      show False
      proof (cases "covers k a")
        case True
        then have "filter (covers k) (b # rest) = []"
          using later by (auto simp: filter_empty_conv covers_def)
        with True k show False by simp
      next
        case False
        with k n show False by (simp add: named_twice_def)
      qed
    qed
    with sub 1 False show ?thesis by auto
  qed
qed (auto simp: named_twice_def)

text \<open>The answer does not depend on which sort by the start is used.\<close>

lemma neighbours_sorted:
  assumes "sorted (map fst ys)" "mset ys = mset xs" "\<forall>i \<in> set xs. fst i \<le> snd i"
  shows "neighbours_overlap ys \<longleftrightarrow> named_twice xs"
proof -
  have "set ys = set xs" using assms(2) by (metis set_mset_mset)
  moreover have "length (filter P ys) = length (filter P xs)" for P
    using assms(2) by (metis mset_filter size_mset)
  ultimately show ?thesis
    using assms by (simp add: neighbours_named_twice named_twice_def)
qed

lemma set_item_ordered: "set_item s = Some i \<Longrightarrow> fst i \<le> snd i \<and> snd i < 2 ^ 32"
  by (auto simp: set_item_def max_def dest!: parse_uint_bound split: prod.splits option.splits if_splits)

lemma set_items_ordered: "set_items ss = Some xs \<Longrightarrow> \<forall>i \<in> set xs. fst i \<le> snd i \<and> snd i < 2 ^ 32"
proof (induction ss arbitrary: xs)
  case (Cons s ss)
  then obtain i ys where "set_item s = Some i" "set_items ss = Some ys" "xs = i # ys"
    by (auto split: option.splits)
  with Cons.IH [of ys] set_item_ordered [of s i] show ?case by simp
qed simp

lemma sequenceSetOverlaps_spec:
  assumes "set_items (split_byte (CHR '','') s) = Some xs"
  shows "sequenceSetOverlaps s = (xs, named_twice xs, True)"
  using assms neighbours_sorted [of "sort_key fst xs" xs] set_items_ordered [OF assms]
  by (simp add: sequenceSetOverlaps_def)

text \<open>How a client or server writes a set.\<close>

definition format_item :: "nat \<times> nat \<Rightarrow> bytes" where
  "format_item i = (if fst i = snd i then format_uint (fst i)
     else format_uint (fst i) @ '':'' @ format_uint (snd i))"

fun join_byte :: "char \<Rightarrow> bytes list \<Rightarrow> bytes" where
  "join_byte c [] = []"
| "join_byte c [s] = s"
| "join_byte c (s # t # ss) = s @ c # join_byte c (t # ss)"

lemma split_byte_append: "c \<notin> set s \<Longrightarrow> split_byte c (s @ c # t) = s # split_byte c t"
  by (induction s) auto

lemma split_byte_absent: "c \<notin> set s \<Longrightarrow> split_byte c s = [s]"
  by (induction s) auto

lemma split_join_byte: "ss \<noteq> [] \<Longrightarrow> \<forall>s \<in> set ss. c \<notin> set s \<Longrightarrow> split_byte c (join_byte c ss) = ss"
  by (induction c ss rule: join_byte.induct) (auto simp: split_byte_append split_byte_absent)

lemma format_uint_no: "\<not> is_digit c \<Longrightarrow> c \<notin> set (format_uint n)"
  using format_uint_digits [of n] by (auto simp: list_all_iff)

lemma set_item_format: "a \<le> b \<Longrightarrow> b < 2 ^ 32 \<Longrightarrow> set_item (format_item (a, b)) = Some (a, b)"
proof -
  assume i: "a \<le> b" "b < 2 ^ 32"
  have c: "CHR '':'' \<notin> set (format_uint n)" for n
    by (rule format_uint_no) (simp add: is_digit_def byte_val_def)
  have p: "parse_uint 32 (format_uint a) = Some a" "parse_uint 32 (format_uint b) = Some b"
    using i by (simp_all add: parse_format_uint)
  show ?thesis
  proof (cases "a = b")
    case True
    then show ?thesis by (simp add: set_item_def format_item_def cut_byte_absent [OF c] p)
  next
    case False
    with i show ?thesis by (simp add: set_item_def format_item_def cut_byte_append [OF c] p)
  qed
qed

lemma set_items_format:
  "\<forall>i \<in> set xs. fst i \<le> snd i \<and> snd i < 2 ^ 32 \<Longrightarrow> set_items (map format_item xs) = Some xs"
  by (induction xs) (auto simp: set_item_format)

text \<open>
  The overlap test is exact on what it can parse: for every set of ordered 32 bit
  intervals written as IMAP writes it, it parses the set, observes exactly its intervals, and
  reports an overlap exactly when some UID lies in two of them.
\<close>

theorem sequenceSetOverlaps_exact:
  assumes "xs \<noteq> []" "\<forall>i \<in> set xs. fst i \<le> snd i \<and> snd i < 2 ^ 32"
  shows "sequenceSetOverlaps (join_byte (CHR '','') (map format_item xs)) =
    (xs, \<exists>n. 2 \<le> length (filter (covers n) xs), True)"
proof -
  have "CHR '','' \<notin> set (format_item i)" for i
    using format_uint_no [of "CHR '',''"] by (auto simp: format_item_def is_digit_def byte_val_def)
  then have "split_byte (CHR '','') (join_byte (CHR '','') (map format_item xs)) = map format_item xs"
    using assms(1) by (intro split_join_byte) auto
  with set_items_format [OF assms(2)] show ?thesis
    by (simp add: sequenceSetOverlaps_spec named_twice_def)
qed

theorem sequenceSetOverlaps_exact_witness:
  "sequenceSetOverlaps ''7:9,2,5:7'' = ([(7, 9), (2, 2), (5, 7)],
     \<exists>n. 2 \<le> length (filter (covers n) [(7, 9), (2, 2), (5, 7)]), True) \<and>
   fst (snd (sequenceSetOverlaps ''7:9,2,5:7'')) = True"
proof -
  have "join_byte (CHR '','') (map format_item [(7, 9), (2, 2), (5, 7)]) = ''7:9,2,5:7''" by code_simp
  moreover have "fst (snd (sequenceSetOverlaps ''7:9,2,5:7'')) = True" by code_simp
  ultimately show ?thesis
    using sequenceSetOverlaps_exact [of "[(7, 9), (2, 2), (5, 7)]"] by simp
qed

end
