(* ===== verification/Search_Observer.thy ===== *)
theory Search_Observer
  imports Search_Wire
begin

text \<open>
  The read budget of the IMAP connection and the SEARCH observer that rides on it
  (\<^verbatim>\<open>readBudgetConn\<close> of \<^verbatim>\<open>bridge/imapclient.go\<close>), and what \<^verbatim>\<open>UIDSearchWindow\<close> makes of the
  observation and of the result go-imap decoded.
\<close>

section \<open>State\<close>

record uidWindow =
  Start :: uint32
  End :: uint32

definition width :: "uidWindow \<Rightarrow> nat" where
  "width w = (if Start w = 0 \<or> End w < Start w then 0 else unat (End w) - unat (Start w) + 1)"

definition noWindow :: uidWindow where
  "noWindow = \<lparr>Start = 0, End = 0\<rparr>"

record searchObservation =
  obs_exceeded :: bool
  obs_searchSeen :: bool
  obs_eSearchSeen :: bool
  obs_duplicate :: bool
  obs_incomplete :: bool
  obs_outOfWindow :: bool

text \<open>\<open>remaining\<close> is a Go \<^verbatim>\<open>int\<close> that the code decrements without a check, so it is an integer.\<close>

record readBudgetConn =
  active :: bool
  idleLimit :: int
  remaining :: int
  exceeded :: bool
  searchActive :: bool
  searchResponseSeen :: bool
  eSearchResponseSeen :: bool
  searchBuffer :: bytes
  searchLiteralBytes :: nat
  searchContinues :: bool
  searchPending :: bytes
  searchUIDs :: "nat set"
  searchDuplicate :: bool
  searchIncomplete :: bool
  searchWindow :: uidWindow
  searchOutOfWindow :: bool

definition newReadBudgetConn :: "int \<Rightarrow> readBudgetConn" where
  "newReadBudgetConn limit = \<lparr>active = True, idleLimit = limit, remaining = limit, exceeded = False,
     searchActive = False, searchResponseSeen = False, eSearchResponseSeen = False,
     searchBuffer = [], searchLiteralBytes = 0, searchContinues = False, searchPending = [],
     searchUIDs = {}, searchDuplicate = False, searchIncomplete = False,
     searchWindow = noWindow, searchOutOfWindow = False\<rparr>"

definition begin_budget :: "int \<Rightarrow> readBudgetConn \<Rightarrow> readBudgetConn" where
  "begin_budget limit c = c\<lparr>active := True, remaining := limit, exceeded := False\<rparr>"

text \<open>The assignments \<^verbatim>\<open>beginSearch\<close> and \<^verbatim>\<open>endSearch\<close> share.\<close>

definition resetSearch :: "readBudgetConn \<Rightarrow> readBudgetConn" where
  "resetSearch c = c\<lparr>searchResponseSeen := False, eSearchResponseSeen := False, searchBuffer := [],
     searchLiteralBytes := 0, searchContinues := False, searchPending := [], searchUIDs := {},
     searchDuplicate := False, searchIncomplete := False, searchWindow := noWindow,
     searchOutOfWindow := False\<rparr>"

definition beginSearch :: "int \<Rightarrow> readBudgetConn \<Rightarrow> readBudgetConn" where
  "beginSearch limit c = resetSearch ((begin_budget limit c)\<lparr>searchActive := True\<rparr>)"

definition checkSearchWindow :: "uidWindow \<Rightarrow> readBudgetConn \<Rightarrow> readBudgetConn" where
  "checkSearchWindow w c = c\<lparr>searchWindow := w\<rparr>"

definition observation :: "readBudgetConn \<Rightarrow> searchObservation" where
  "observation c = \<lparr>obs_exceeded = exceeded c, obs_searchSeen = searchResponseSeen c,
     obs_eSearchSeen = eSearchResponseSeen c, obs_duplicate = searchDuplicate c,
     obs_incomplete = searchIncomplete c, obs_outOfWindow = searchOutOfWindow c\<rparr>"

definition end_budget :: "readBudgetConn \<Rightarrow> bool \<times> readBudgetConn" where
  "end_budget c = (exceeded c, c\<lparr>active := True, remaining := idleLimit c, exceeded := False\<rparr>)"

definition endSearch :: "readBudgetConn \<Rightarrow> searchObservation \<times> readBudgetConn" where
  "endSearch c = (observation c, resetSearch ((snd (end_budget c))\<lparr>searchActive := False\<rparr>))"

section \<open>Observing a line\<close>

definition searchRangeLocked :: "nat \<Rightarrow> nat \<Rightarrow> readBudgetConn \<Rightarrow> readBudgetConn" where
  "searchRangeLocked start stop c =
     (if start = 0 \<or> stop = 0 then c\<lparr>searchIncomplete := True\<rparr>
      else if width (searchWindow c) = 0 then c
      else if start < unat (Start (searchWindow c)) \<or> unat (End (searchWindow c)) < stop
      then c\<lparr>searchOutOfWindow := True\<rparr> else c)"

definition observe_uid :: "nat \<Rightarrow> readBudgetConn \<Rightarrow> readBudgetConn" where
  "observe_uid uid c =
     (let c1 = searchRangeLocked uid uid c in
      c1\<lparr>searchDuplicate := (searchDuplicate c1 \<or> uid \<in> searchUIDs c1),
         searchUIDs := insert uid (searchUIDs c1)\<rparr>)"

fun observe_fields :: "bytes list \<Rightarrow> readBudgetConn \<Rightarrow> readBudgetConn" where
  "observe_fields [] c = c"
| "observe_fields (f # fs) c =
     (case parse_uint 32 f of
        None \<Rightarrow> c\<lparr>searchIncomplete := True\<rparr>
      | Some uid \<Rightarrow> observe_fields fs (observe_uid uid c))"

definition observeSearchUIDsLocked :: "bytes \<Rightarrow> readBudgetConn \<Rightarrow> readBudgetConn" where
  "observeSearchUIDsLocked numbers c =
     (case index_byte (CHR ''('') numbers of
        None \<Rightarrow> observe_fields (go_fields numbers) c
      | Some opening \<Rightarrow> observe_fields (go_fields (take opening numbers))
          (if searchModSeqGroup (drop opening numbers) then c else c\<lparr>searchIncomplete := True\<rparr>))"

definition observe_ranges :: "(nat \<times> nat) list \<Rightarrow> readBudgetConn \<Rightarrow> readBudgetConn" where
  "observe_ranges = fold (\<lambda>(start, stop). searchRangeLocked start stop)"

definition observe_esearch :: "bytes \<Rightarrow> readBudgetConn \<Rightarrow> readBudgetConn" where
  "observe_esearch rest c =
     (let (ranges, overlaps, complete) = eSearchAllOverlaps rest; c1 = observe_ranges ranges c in
      c1\<lparr>searchDuplicate := (searchDuplicate c1 \<or> overlaps),
         searchIncomplete := (searchIncomplete c1 \<or> \<not> complete)\<rparr>)"

text \<open>The final switch of the loop; \<open>literal\<close> is the size and opening of a trailing literal.\<close>

definition settleLine :: "imapLineKind \<Rightarrow> bytes \<Rightarrow> (nat \<times> nat) option \<Rightarrow> bytes \<Rightarrow> readBudgetConn \<Rightarrow> readBudgetConn" where
  "settleLine kind rest literal line c1 = (case kind of
        imapLineUnclassified \<Rightarrow> c1\<lparr>searchIncomplete := True\<rparr>
      | imapLineSearch \<Rightarrow> observeSearchUIDsLocked rest (c1\<lparr>searchResponseSeen := True\<rparr>)
      | imapLineESearch \<Rightarrow>
          (let c2 = c1\<lparr>eSearchResponseSeen := True\<rparr> in
           case literal of
             Some (_, opening) \<Rightarrow> c2\<lparr>searchPending := take opening line @ [DQUOTE, DQUOTE]\<rparr>
           | None \<Rightarrow> observe_esearch rest c2)
      | _ \<Rightarrow> c1)"

text \<open>
  The part of the loop that judges one line, once it is cut from the buffer. \<open>resumed\<close> says
  that the line continues a response after its literal and is not an ESEARCH rejoined with
  its leading text.
\<close>

definition setLiteral :: "(nat \<times> nat) option \<Rightarrow> readBudgetConn \<Rightarrow> readBudgetConn" where
  "setLiteral literal c = (case literal of None \<Rightarrow> c | Some (n, _) \<Rightarrow> c\<lparr>searchLiteralBytes := n\<rparr>)"

definition judgeLine :: "bytes \<Rightarrow> bool \<Rightarrow> readBudgetConn \<Rightarrow> readBudgetConn" where
  "judgeLine line resumed c =
     (let (kind, rest) = (if resumed then (imapLineData, []) else classifyIMAPResponse line);
          (literal, unterminated) = (if kind = imapLineText then (None, False) else trailingIMAPLiteral line);
          c1 = c\<lparr>searchIncomplete := (searchIncomplete c \<or> CR \<in> set line \<or> unterminated),
                 searchContinues := (literal \<noteq> None)\<rparr> in
      settleLine kind rest literal line (setLiteral literal c1))"

text \<open>One pass of the loop: \<open>stop\<close> is the index of the LF.\<close>

definition observeLine :: "nat \<Rightarrow> readBudgetConn \<Rightarrow> readBudgetConn" where
  "observeLine stop c =
     (let pending = searchPending c;
          line = pending @ trim_suffix (take stop (searchBuffer c)) [CR] in
      judgeLine line (searchContinues c \<and> pending = [])
        (c\<lparr>searchBuffer := drop (stop + 1) (searchBuffer c), searchPending := []\<rparr>))"

text \<open>The literal skip at the head of the loop; \<open>True\<close> means that the input ran out.\<close>

definition skipLiteral :: "readBudgetConn \<Rightarrow> bool \<times> readBudgetConn" where
  "skipLiteral c =
     (if searchLiteralBytes c > 0 then
        (if length (searchBuffer c) \<le> searchLiteralBytes c
         then (True, c\<lparr>searchLiteralBytes := searchLiteralBytes c - length (searchBuffer c), searchBuffer := []\<rparr>)
         else (False, c\<lparr>searchBuffer := drop (searchLiteralBytes c) (searchBuffer c), searchLiteralBytes := 0\<rparr>))
      else (False, c))"

text \<open>Judging a line does not look at the buffer: an update of it can be moved outward.\<close>

lemma buffer_outward:
  "c\<lparr>searchBuffer := x, searchIncomplete := a\<rparr> = c\<lparr>searchIncomplete := a, searchBuffer := x\<rparr>"
  "c\<lparr>searchBuffer := x, searchResponseSeen := a\<rparr> = c\<lparr>searchResponseSeen := a, searchBuffer := x\<rparr>"
  "c\<lparr>searchBuffer := x, eSearchResponseSeen := a\<rparr> = c\<lparr>eSearchResponseSeen := a, searchBuffer := x\<rparr>"
  "c\<lparr>searchBuffer := x, searchContinues := a\<rparr> = c\<lparr>searchContinues := a, searchBuffer := x\<rparr>"
  "c\<lparr>searchBuffer := x, searchLiteralBytes := n\<rparr> = c\<lparr>searchLiteralBytes := n, searchBuffer := x\<rparr>"
  "c\<lparr>searchBuffer := x, searchPending := p\<rparr> = c\<lparr>searchPending := p, searchBuffer := x\<rparr>"
  "c\<lparr>searchBuffer := x, searchDuplicate := a\<rparr> = c\<lparr>searchDuplicate := a, searchBuffer := x\<rparr>"
  "c\<lparr>searchBuffer := x, searchUIDs := u\<rparr> = c\<lparr>searchUIDs := u, searchBuffer := x\<rparr>"
  "c\<lparr>searchBuffer := x, searchOutOfWindow := a\<rparr> = c\<lparr>searchOutOfWindow := a, searchBuffer := x\<rparr>"
  by simp_all

definition ignores_buffer :: "(readBudgetConn \<Rightarrow> readBudgetConn) \<Rightarrow> bool" where
  "ignores_buffer f \<longleftrightarrow> (\<forall>c x. searchBuffer (f c) = searchBuffer c \<and>
     f (c\<lparr>searchBuffer := x\<rparr>) = (f c)\<lparr>searchBuffer := x\<rparr>)"

named_theorems unbuffered

lemma ignores_bufferD:
  "ignores_buffer f \<Longrightarrow> searchBuffer (f c) = searchBuffer c"
  "ignores_buffer f \<Longrightarrow> f (c\<lparr>searchBuffer := x\<rparr>) = (f c)\<lparr>searchBuffer := x\<rparr>"
  by (simp_all add: ignores_buffer_def)

lemma ignores_buffer_o: "ignores_buffer f \<Longrightarrow> ignores_buffer g \<Longrightarrow> ignores_buffer (\<lambda>c. f (g c))"
  by (simp add: ignores_buffer_def)

lemma ignores_range [unbuffered]: "ignores_buffer (searchRangeLocked a b)"
  by (simp add: ignores_buffer_def searchRangeLocked_def buffer_outward)

lemma ignores_uid [unbuffered]: "ignores_buffer (observe_uid u)"
  using ignores_range [of u u]
  by (simp add: ignores_buffer_def observe_uid_def Let_def buffer_outward)

lemma ignores_fields [unbuffered]: "ignores_buffer (observe_fields fs)"
proof (induction fs)
  case (Cons f fs)
  with ignores_uid show ?case
    by (simp add: ignores_buffer_def buffer_outward split: option.split)
qed (simp add: ignores_buffer_def)

lemma ignores_ranges [unbuffered]: "ignores_buffer (observe_ranges rs)"
proof (induction rs)
  case (Cons r rs)
  with ignores_range show ?case
    by (simp add: ignores_buffer_def observe_ranges_def split: prod.split)
qed (simp add: ignores_buffer_def observe_ranges_def)

lemma ignores_uids [unbuffered]: "ignores_buffer (observeSearchUIDsLocked n)"
  using ignores_fields
  by (simp add: ignores_buffer_def observeSearchUIDsLocked_def buffer_outward split: option.split)

lemma ignores_esearch [unbuffered]: "ignores_buffer (observe_esearch rest)"
  using ignores_ranges
  by (simp add: ignores_buffer_def observe_esearch_def buffer_outward Let_def split: prod.split)

lemma ignores_settle [unbuffered]: "ignores_buffer (settleLine kind rest literal line)"
  using ignores_uids ignores_esearch
  by (cases kind; cases literal)
     (simp_all add: ignores_buffer_def settleLine_def buffer_outward Let_def split: prod.split)

lemma ignores_literal [unbuffered]: "ignores_buffer (setLiteral literal)"
  by (cases literal) (auto simp: ignores_buffer_def setLiteral_def)

lemma ignores_judge [unbuffered]: "ignores_buffer (judgeLine line resumed)"
proof -
  obtain kind rest where k: "(if resumed then (imapLineData, []) else classifyIMAPResponse line) = (kind, rest)"
    by fastforce
  obtain literal unterminated where
    l: "(if kind = imapLineText then (None, False) else trailingIMAPLiteral line) = (literal, unterminated)"
    by fastforce
  let ?u = "\<lambda>c. c\<lparr>searchIncomplete := (searchIncomplete c \<or> CR \<in> set line \<or> unterminated),
                 searchContinues := (literal \<noteq> None)\<rparr>"
  have j: "judgeLine line resumed = (\<lambda>c. settleLine kind rest literal line (setLiteral literal (?u c)))"
    by (rule ext) (simp add: judgeLine_def k l Let_def)
  have u1: "ignores_buffer (\<lambda>c. c\<lparr>searchIncomplete := (searchIncomplete c \<or> b)\<rparr>)" for b
    by (simp add: ignores_buffer_def buffer_outward)
  have u2: "ignores_buffer (\<lambda>c. c\<lparr>searchContinues := b\<rparr>)" for b
    by (simp add: ignores_buffer_def buffer_outward)
  from ignores_buffer_o [OF u2 [of "literal \<noteq> None"] u1 [of "CR \<in> set line \<or> unterminated"]]
  have u: "ignores_buffer ?u" by simp
  from ignores_buffer_o [OF ignores_settle ignores_buffer_o [OF ignores_literal u]]
  show ?thesis by (simp add: j)
qed

lemma observeLine_buffer: "searchBuffer (observeLine stop c) = drop (stop + 1) (searchBuffer c)"
  by (simp add: observeLine_def ignores_bufferD [OF ignores_judge] Let_def)

lemma skipLiteral_buffer: "length (searchBuffer (snd (skipLiteral c))) \<le> length (searchBuffer c)"
  by (simp add: skipLiteral_def)

lemma observe_smaller:
  assumes "skipLiteral c = (p, c')" "index_byte LF (searchBuffer c') = Some stop"
  shows "length (searchBuffer (observeLine stop c')) < length (searchBuffer c)"
proof -
  have "length (searchBuffer c') \<le> length (searchBuffer c)" using skipLiteral_buffer [of c] assms(1) by simp
  moreover have "stop < length (searchBuffer c')" using assms(2) by (simp add: index_byte_Some)
  ultimately show ?thesis by (simp add: observeLine_buffer)
qed

section \<open>The observer\<close>

text \<open>\<^verbatim>\<open>observeSearchResponseLocked\<close>, from the point where the input is in the buffer.\<close>

function observeLoop :: "readBudgetConn \<Rightarrow> readBudgetConn" where
  "observeLoop c =
     (case skipLiteral c of
        (True, c') \<Rightarrow> c'
      | (False, c') \<Rightarrow>
          (case index_byte LF (searchBuffer c') of
             None \<Rightarrow> c'
           | Some stop \<Rightarrow> observeLoop (observeLine stop c')))"
  by pat_completeness auto
termination
  by (relation "measure (\<lambda>c. length (searchBuffer c))") (auto intro: observe_smaller [OF sym])

declare observeLoop.simps [simp del]

definition observeSearchResponseLocked :: "bytes \<Rightarrow> readBudgetConn \<Rightarrow> readBudgetConn" where
  "observeSearchResponseLocked input c = observeLoop (c\<lparr>searchBuffer := searchBuffer c @ input\<rparr>)"

subsection \<open>Reads may be split anywhere\<close>

definition feed :: "bytes \<Rightarrow> readBudgetConn \<Rightarrow> readBudgetConn" where
  "feed input c = c\<lparr>searchBuffer := searchBuffer c @ input\<rparr>"

lemma index_byte_append: "index_byte c s = Some i \<Longrightarrow> index_byte c (s @ t) = Some i"
  by (induction s arbitrary: i) auto

lemma index_byte_bound: "index_byte c s = Some i \<Longrightarrow> i < length s"
  by (simp add: index_byte_Some)

lemma observeLine_outward:
  "observeLine stop c = (judgeLine (searchPending c @ trim_suffix (take stop (searchBuffer c)) [CR])
     (searchContinues c \<and> searchPending c = []) (c\<lparr>searchPending := []\<rparr>))
     \<lparr>searchBuffer := drop (stop + 1) (searchBuffer c)\<rparr>"
  by (simp add: observeLine_def Let_def buffer_outward ignores_bufferD [OF ignores_judge])

lemma observeLine_feed:
  assumes "stop < length (searchBuffer c)"
  shows "observeLine stop (feed b c) = feed b (observeLine stop c)"
  using assms
  by (simp add: observeLine_outward feed_def buffer_outward ignores_bufferD [OF ignores_judge])

lemma skipLiteral_feed: "skipLiteral c = (False, c') \<Longrightarrow> skipLiteral (feed b c) = (False, feed b c')"
  by (auto simp: skipLiteral_def feed_def split: if_splits)

lemma skipLiteral_stop:
  "skipLiteral c = (True, c') \<Longrightarrow> observeLoop (feed b c') = observeLoop (feed b c)"
proof -
  assume s: "skipLiteral c = (True, c')"
  then have lit: "0 < searchLiteralBytes c" "length (searchBuffer c) \<le> searchLiteralBytes c"
    and c': "c' = c\<lparr>searchLiteralBytes := searchLiteralBytes c - length (searchBuffer c), searchBuffer := []\<rparr>"
    by (auto simp: skipLiteral_def split: if_splits)
  show ?thesis
  proof (cases "searchLiteralBytes c = length (searchBuffer c)")
    case False
    with lit have "skipLiteral (feed b c') = skipLiteral (feed b c)"
      by (auto simp: c' skipLiteral_def feed_def)
    then show ?thesis by (simp add: observeLoop.simps)
  next
    case True
    show ?thesis
    proof (cases b)
      case Nil
      with True lit show ?thesis
        by (simp add: c' feed_def observeLoop.simps skipLiteral_def)
    next
      case (Cons x xs)
      with True lit have "skipLiteral (feed b c) = (False, feed b c')" "skipLiteral (feed b c') = (False, feed b c')"
        by (simp_all add: c' feed_def skipLiteral_def)
      then show ?thesis by (simp add: observeLoop.simps)
    qed
  qed
qed

lemma observeLoop_feed: "observeLoop (feed b (observeLoop c)) = observeLoop (feed b c)"
proof (induction c rule: observeLoop.induct)
  case (1 c)
  obtain stopped c' where s: "skipLiteral c = (stopped, c')" by fastforce
  show ?case
  proof (cases stopped)
    case True
    with s have "observeLoop c = c'" by (simp add: observeLoop.simps)
    with skipLiteral_stop [of c c' b] s True show ?thesis by simp
  next
    case False
    note fed = skipLiteral_feed [of c c' b]
    show ?thesis
    proof (cases "index_byte LF (searchBuffer c')")
      case None
      with s False have loop: "observeLoop c = c'" by (simp add: observeLoop.simps)
      have "skipLiteral c' = (False, c')"
        using s False by (auto simp: skipLiteral_def split: if_splits)
      from skipLiteral_feed [OF this, of b] fed s False loop show ?thesis
        by (simp add: observeLoop.simps)
    next
      case (Some stop)
      note len = index_byte_bound [OF Some]
      have loop: "observeLoop c = observeLoop (observeLine stop c')"
        using s False Some by (subst observeLoop.simps) simp
      have "index_byte LF (searchBuffer (feed b c')) = Some stop"
        using Some by (simp add: feed_def index_byte_append)
      then have "observeLoop (feed b c) = observeLoop (feed b (observeLine stop c'))"
        using fed s False by (subst observeLoop.simps) (simp add: observeLine_feed [OF len])
      with 1 [OF s [symmetric] _ Some] False loop show ?thesis by simp
    qed
  qed
qed

lemma observe_feed: "observeSearchResponseLocked input c = observeLoop (feed input c)"
  by (simp add: observeSearchResponseLocked_def feed_def)

lemma observe_chunks:
  "observeSearchResponseLocked b (observeSearchResponseLocked a c) = observeSearchResponseLocked (a @ b) c"
proof -
  have "feed b (feed a c) = feed (a @ b) c" by (simp add: feed_def)
  then show ?thesis by (simp add: observe_feed observeLoop_feed)
qed

lemma observe_all_chunks:
  "fold observeSearchResponseLocked (a # chunks) c = observeSearchResponseLocked (concat (a # chunks)) c"
proof (induction chunks arbitrary: a)
  case (Cons b chunks)
  from Cons.IH [of "a @ b"] show ?case by (simp add: observe_chunks)
qed simp

text \<open>
  What the observer concludes does not depend on how the transport splits the response:
  observing the pieces one after the other leaves exactly the state that observing them at
  once leaves, in every state and for every split, inside lines, literals and CRLF pairs too.
\<close>

theorem observe_split:
  "fold observeSearchResponseLocked (a # chunks) c = observeSearchResponseLocked (concat (a # chunks)) c"
  by (rule observe_all_chunks)

section \<open>A SEARCH response seen whole\<close>

text \<open>The line a server sends for the numbers \<open>ns\<close>.\<close>

definition search_words :: "nat list \<Rightarrow> bytes" where
  "search_words ns = concat (map (\<lambda>n. SP # format_uint n) ns)"

definition search_line :: "nat list \<Rightarrow> bytes" where
  "search_line ns = ''* SEARCH'' @ search_words ns"

lemma space_width_digit: "is_digit c \<Longrightarrow> space_width (c # s) = 0"
proof -
  assume c: "is_digit c"
  have "list_all (\<lambda>p. p \<noteq> [] \<and> \<not> is_digit (hd p)) space_runes" by code_simp
  then have "\<forall>p \<in> set space_runes. \<not> has_prefix (c # s) p"
    using c by (auto simp: list_all_iff has_prefix_def neq_Nil_conv)
  then show ?thesis by (auto simp: space_width_def find_None_iff split: option.split dest: find_Some_iff [THEN iffD1])
qed

lemma space_width_SP: "space_width (SP # s) = 1"
  by (simp add: space_width_def space_runes_def has_prefix_def)

lemma fields_from_digits: "list_all is_digit ds \<Longrightarrow> fields_from w (ds @ t) = fields_from (rev ds @ w) t"
proof (induction ds arbitrary: w)
  case (Cons d ds)
  then have "fields_from w ((d # ds) @ t) = fields_from (d # w) (ds @ t)"
    by (subst fields_from.simps) (simp add: space_width_digit)
  with Cons show ?case by simp
qed simp

lemma fields_from_space: "fields_from w (SP # t) = (if w = [] then [] else [rev w]) @ fields_from [] t"
  by (subst fields_from.simps) (simp add: space_width_SP)

lemma fields_from_end: "fields_from w [] = (if w = [] then [] else [rev w])"
  by (subst fields_from.simps) simp

lemma fields_words: "fields_from w (search_words ns) = (if w = [] then [] else [rev w]) @ map format_uint ns"
proof (induction ns arbitrary: w)
  case (Cons n ns)
  have "fields_from w (search_words (n # ns)) =
      (if w = [] then [] else [rev w]) @ fields_from [] (format_uint n @ search_words ns)"
    by (simp add: search_words_def fields_from_space)
  also have "fields_from [] (format_uint n @ search_words ns) = fields_from (rev (format_uint n)) (search_words ns)"
    using format_uint_digits [of n] by (simp add: fields_from_digits)
  finally show ?case using Cons.IH format_uint_digits [of n] by simp
qed (simp add: search_words_def fields_from_end)

lemma search_words_chars: "c \<in> set (search_words ns) \<Longrightarrow> c = SP \<or> is_digit c"
proof (induction ns)
  case (Cons n ns)
  then consider "c = SP" | "c \<in> set (format_uint n)" | "c \<in> set (search_words ns)"
    by (auto simp: search_words_def)
  then show ?case
    using Cons.IH format_uint_digits [of n] by cases (auto simp: list_all_iff)
qed (simp add: search_words_def)

lemma literal_scan_plain:
  "DQUOTE \<notin> set s \<Longrightarrow> CHR ''{'' \<notin> set s \<Longrightarrow> literal_scan False opening i s = (False, opening)"
  by (induction s arbitrary: i) auto

lemma search_line_no: "\<not> is_digit c \<Longrightarrow> c \<notin> set ''* SEARCH'' \<Longrightarrow> c \<notin> set (search_line ns)"
  using search_words_chars [of c ns] by (auto simp: search_line_def)

lemma search_line_literal: "trailingIMAPLiteral (search_line ns) = (None, False)"
proof -
  have "DQUOTE \<notin> set (search_line ns)" "CHR ''{'' \<notin> set (search_line ns)"
    by (rule search_line_no; simp add: is_digit_def byte_val_def)+
  then show ?thesis by (simp add: trailingIMAPLiteral_def literal_scan_plain)
qed

lemma search_words_head: "search_words ns = [] \<or> (\<exists>t. search_words ns = SP # t)"
  by (cases ns) (simp_all add: search_words_def)

lemma atom_stops:
  assumes "list_all isIMAPAtomChar a" "w = [] \<or> (\<exists>t. w = SP # t)"
  shows "eSearchAtom (a @ w) = (a, w)"
proof -
  have "\<not> isIMAPAtomChar SP" by (simp add: isIMAPAtomChar_def)
  with assms(2) have "takeWhile isIMAPAtomChar w = []" "dropWhile isIMAPAtomChar w = w" by auto
  with assms(1) show ?thesis
    by (simp add: eSearchAtom_def list_all_iff takeWhile_append2 dropWhile_append2)
qed

lemma search_line_class: "classifyIMAPResponse (search_line ns) = (imapLineSearch, search_words ns)"
proof -
  have "list_all isIMAPAtomChar ''SEARCH''" by code_simp
  from atom_stops [OF this search_words_head] have a: "eSearchAtom (''SEARCH'' @ search_words ns) = (''SEARCH'', search_words ns)" .
  have "to_upper ''SEARCH'' = ''SEARCH''" by code_simp
  moreover have "\<not> is_digit (CHR ''S'')" by (simp add: is_digit_def byte_val_def)
  ultimately show ?thesis
    using a by (simp add: classifyIMAPResponse_def search_line_def has_prefix_def cut_prefix_def
        classify_name_def Let_def)
qed

lemma observe_fields_spec:
  assumes "\<forall>n \<in> set ns. 0 < n \<and> n < 2 ^ 32"
  shows "let c' = observe_fields (map format_uint ns) c in
    (searchDuplicate c' \<longleftrightarrow> searchDuplicate c \<or> \<not> distinct ns \<or> set ns \<inter> searchUIDs c \<noteq> {}) \<and>
    (searchOutOfWindow c' \<longleftrightarrow> searchOutOfWindow c \<or> width (searchWindow c) \<noteq> 0 \<and>
       (\<exists>n \<in> set ns. n < unat (Start (searchWindow c)) \<or> unat (End (searchWindow c)) < n)) \<and>
    searchIncomplete c' = searchIncomplete c \<and> searchResponseSeen c' = searchResponseSeen c \<and>
    searchUIDs c' = searchUIDs c \<union> set ns \<and> searchBuffer c' = searchBuffer c \<and>
    searchLiteralBytes c' = searchLiteralBytes c \<and> exceeded c' = exceeded c"
  using assms
proof (induction ns arbitrary: c)
  case (Cons n ns)
  let ?c1 = "observe_uid n c"
  have p: "parse_uint 32 (format_uint n) = Some n" using Cons.prems by (simp add: parse_format_uint)
  have one: "searchUIDs ?c1 = insert n (searchUIDs c)" "searchWindow ?c1 = searchWindow c"
    "searchIncomplete ?c1 = searchIncomplete c" "searchResponseSeen ?c1 = searchResponseSeen c"
    "searchDuplicate ?c1 \<longleftrightarrow> searchDuplicate c \<or> n \<in> searchUIDs c" "searchBuffer ?c1 = searchBuffer c"
    "searchLiteralBytes ?c1 = searchLiteralBytes c" "exceeded ?c1 = exceeded c"
    "searchOutOfWindow ?c1 \<longleftrightarrow> searchOutOfWindow c \<or> width (searchWindow c) \<noteq> 0 \<and>
       (n < unat (Start (searchWindow c)) \<or> unat (End (searchWindow c)) < n)"
    using Cons.prems by (simp_all add: observe_uid_def searchRangeLocked_def Let_def)
  have "observe_fields (map format_uint (n # ns)) c = observe_fields (map format_uint ns) ?c1"
    using p by simp
  moreover have prems: "\<forall>n \<in> set ns. 0 < n \<and> n < 2 ^ 32" using Cons.prems by simp
  note ih = Cons.IH [of ?c1, OF prems, unfolded Let_def one]
  ultimately show ?case
    unfolding Let_def by (simp only: ih) (simp, blast)
qed simp

lemma judge_search_line:
  assumes "\<forall>n \<in> set ns. 0 < n \<and> n < 2 ^ 32"
  shows "judgeLine (search_line ns) False c =
    observe_fields (map format_uint ns) (c\<lparr>searchContinues := False, searchResponseSeen := True\<rparr>)"
proof -
  have cr: "CR \<notin> set (search_line ns)" by (rule search_line_no) (simp_all add: is_digit_def byte_val_def)
  have "CHR ''('' \<notin> set (search_words ns)"
    using search_words_chars [of "CHR ''(''" ns] by (auto simp: is_digit_def byte_val_def)
  then have "index_byte (CHR ''('') (search_words ns) = None" by (simp add: index_byte_None)
  moreover have "go_fields (search_words ns) = map format_uint ns"
    by (simp add: go_fields_def fields_words)
  ultimately show ?thesis
    by (simp add: judgeLine_def search_line_class search_line_literal cr setLiteral_def settleLine_def
        observeSearchUIDsLocked_def Let_def)
qed

lemma observe_search_whole:
  assumes "\<forall>n \<in> set ns. 0 < n \<and> n < 2 ^ 32"
  shows "observeSearchResponseLocked (search_line ns @ CRLF) (checkSearchWindow w (beginSearch limit c)) =
    observe_fields (map format_uint ns)
      ((checkSearchWindow w (beginSearch limit c))\<lparr>searchContinues := False, searchResponseSeen := True\<rparr>)"
proof -
  let ?c = "checkSearchWindow w (beginSearch limit c)"
  let ?f = "?c\<lparr>searchBuffer := search_line ns @ CRLF\<rparr>"
  let ?r = "observe_fields (map format_uint ns) (?c\<lparr>searchContinues := False, searchResponseSeen := True\<rparr>)"
  have c: "searchBuffer ?c = []" "searchLiteralBytes ?c = 0" "searchPending ?c = []" "searchContinues ?c = False"
    by (simp_all add: checkSearchWindow_def beginSearch_def resetSearch_def)
  have lf: "LF \<notin> set (search_line ns)" by (rule search_line_no) (simp_all add: is_digit_def byte_val_def)
  have idx: "index_byte LF (search_line ns @ CRLF) = Some (length (search_line ns) + 1)"
    using lf by (simp add: index_byte_Some nth_append)
  have skip: "skipLiteral ?f = (False, ?f)" using c by (simp add: skipLiteral_def)
  have trim: "trim_suffix (take (length (search_line ns) + 1) (search_line ns @ CRLF)) [CR] = search_line ns"
    by (simp add: trim_suffix_def cut_suffix_def)
  have rest: "?c\<lparr>searchBuffer := [], searchPending := []\<rparr> = ?c"
    by (simp add: checkSearchWindow_def beginSearch_def resetSearch_def)
  have f: "searchPending ?f = []" "searchContinues ?f = False" "searchBuffer ?f = search_line ns @ CRLF"
    using c by simp_all
  have "observeLine (length (search_line ns) + 1) ?f = judgeLine (search_line ns) False ?c"
    unfolding observeLine_def Let_def f trim by (simp add: rest)
  also have "\<dots> = ?r" by (rule judge_search_line [OF assms])
  finally have line: "observeLine (length (search_line ns) + 1) ?f = ?r" .
  have spec: "searchBuffer ?r = [] \<and> searchLiteralBytes ?r = 0"
    using observe_fields_spec [OF assms, of "?c\<lparr>searchContinues := False, searchResponseSeen := True\<rparr>"] c
    by (simp add: Let_def)
  then have "observeLoop ?r = ?r" by (subst observeLoop.simps) (simp add: skipLiteral_def)
  with skip idx line c show ?thesis
    by (simp add: observeSearchResponseLocked_def) (subst observeLoop.simps, simp)
qed

text \<open>
  Observed end to end, whatever the window: for a SEARCH response that lists the non-zero
  UIDs \<open>ns\<close>, arriving in any chunks, the observation is complete, it reports a duplicate
  exactly when a UID is listed twice, and it reports a UID outside the checked window exactly
  when one is listed.
\<close>

theorem observe_search_response:
  assumes "\<forall>n \<in> set ns. 0 < n \<and> n < 2 ^ 32" "concat chunks = search_line ns @ CRLF"
  shows "let obs = observation (fold observeSearchResponseLocked chunks (checkSearchWindow w (beginSearch limit c))) in
    obs_searchSeen obs \<and> \<not> obs_incomplete obs \<and> (obs_duplicate obs \<longleftrightarrow> \<not> distinct ns) \<and>
    (obs_outOfWindow obs \<longleftrightarrow> width w \<noteq> 0 \<and> (\<exists>n \<in> set ns. n < unat (Start w) \<or> unat (End w) < n))"
proof -
  let ?c = "checkSearchWindow w (beginSearch limit c)"
  have fold: "fold observeSearchResponseLocked chunks c0 = observeSearchResponseLocked (concat chunks) c0"
    if "chunks \<noteq> []" for c0
    using that observe_all_chunks by (cases chunks) simp_all
  have "chunks \<noteq> []" using assms(2) by auto
  then have "fold observeSearchResponseLocked chunks ?c =
      observe_fields (map format_uint ns) (?c\<lparr>searchContinues := False, searchResponseSeen := True\<rparr>)"
    using observe_search_whole [OF assms(1)] by (simp add: fold assms(2))
  then show ?thesis
    using observe_fields_spec [OF assms(1), of "?c\<lparr>searchContinues := False, searchResponseSeen := True\<rparr>"]
    by (simp add: Let_def observation_def) (simp add: checkSearchWindow_def beginSearch_def resetSearch_def)
qed

theorem observe_search_response_witness:
  "let obs = observation (fold observeSearchResponseLocked [''* SEAR'', ''CH 7 9 7'' @ [CR], [LF]]
       (checkSearchWindow \<lparr>Start = 8, End = 20\<rparr> (beginSearch 4096 (newReadBudgetConn 65536)))) in
     obs_searchSeen obs \<and> \<not> obs_incomplete obs \<and> obs_duplicate obs \<and> obs_outOfWindow obs"
proof -
  have f: "concat [''* SEAR'', ''CH 7 9 7'' @ [CR], [LF]] = search_line [7, 9, 7] @ CRLF" by code_simp
  have w: "width \<lparr>Start = 8, End = 20\<rparr> = 13" by (simp add: width_def)
  from observe_search_response [of "[7, 9, 7]", OF _ f, of "\<lparr>Start = 8, End = 20\<rparr>" 4096 "newReadBudgetConn 65536"] w
  show ?thesis by (simp add: Let_def)
qed

end
