(* ===== verification/Search_Session.thy ===== *)
theory Search_Session
  imports Search_Observer
begin

text \<open>
  The budget of \<^verbatim>\<open>readBudgetConn.Read\<close> and its interleavings with the operations that set it,
  and \<^verbatim>\<open>UIDSearchWindow\<close>, which accepts go-imap's decoded result only when the raw
  observation agrees.
\<close>

section \<open>The read budget\<close>

text \<open>
  \<^verbatim>\<open>Read\<close> up to its call of the wrapped connection: pass the buffer through, refuse with
  \<^verbatim>\<open>errIMAPInputLimit\<close>, or read at most that many bytes. \<open>SlicePanic\<close> is the run-time panic of
  \<^verbatim>\<open>buffer[:connection.remaining]\<close> with a negative bound.
\<close>

datatype budget_poll = PassThrough nat | LimitExceeded | ReadUpTo nat | SlicePanic

definition budgetPoll :: "nat \<Rightarrow> readBudgetConn \<Rightarrow> budget_poll \<times> readBudgetConn" where
  "budgetPoll len c =
     (if \<not> active c then (PassThrough len, c)
      else if remaining c = 0 then (LimitExceeded, c\<lparr>exceeded := True\<rparr>)
      else if int len > remaining c then
        (if remaining c < 0 then (SlicePanic, c) else (ReadUpTo (nat (remaining c)), c))
      else (ReadUpTo len, c))"

text \<open>\<^verbatim>\<open>Read\<close> after the call returned \<open>bs\<close>.\<close>

definition budgetFill :: "bytes \<Rightarrow> readBudgetConn \<Rightarrow> readBudgetConn" where
  "budgetFill bs c =
     (let c1 = (if active c then c\<lparr>remaining := remaining c - int (length bs)\<rparr> else c) in
      if searchActive c1 \<and> bs \<noteq> [] then observeSearchResponseLocked bs c1 else c1)"

text \<open>Observing does not touch the budget.\<close>

definition budget_view :: "readBudgetConn \<Rightarrow> bool \<times> int \<times> int \<times> bool \<times> bool" where
  "budget_view c = (active c, idleLimit c, remaining c, exceeded c, searchActive c)"

lemma view_range: "budget_view (searchRangeLocked a b c) = budget_view c"
  by (simp add: searchRangeLocked_def budget_view_def)

lemma view_uid: "budget_view (observe_uid u c) = budget_view c"
  using view_range [of u u c] by (simp add: observe_uid_def budget_view_def Let_def)

lemma view_fields: "budget_view (observe_fields fs c) = budget_view c"
proof (induction fs arbitrary: c)
  case (Cons f fs)
  have "budget_view (c\<lparr>searchIncomplete := True\<rparr>) = budget_view c" by (simp add: budget_view_def)
  with Cons.IH show ?case by (simp add: view_uid split: option.split)
qed simp

lemma view_ranges: "budget_view (observe_ranges rs c) = budget_view c"
  by (induction rs arbitrary: c) (simp_all add: observe_ranges_def view_range split: prod.split)

lemma view_uids: "budget_view (observeSearchUIDsLocked n c) = budget_view c"
proof -
  have "budget_view (c\<lparr>searchIncomplete := True\<rparr>) = budget_view c" by (simp add: budget_view_def)
  then show ?thesis by (simp add: observeSearchUIDsLocked_def view_fields split: option.split)
qed

lemma view_esearch: "budget_view (observe_esearch rest c) = budget_view c"
proof -
  have "budget_view (d\<lparr>searchDuplicate := a, searchIncomplete := b\<rparr>) = budget_view d" for d a b
    by (simp add: budget_view_def)
  then show ?thesis by (simp add: observe_esearch_def view_ranges Let_def split: prod.split)
qed

lemma view_settle: "budget_view (settleLine kind rest literal line c) = budget_view c"
proof -
  have "budget_view (c\<lparr>searchResponseSeen := True\<rparr>) = budget_view c"
    "budget_view (c\<lparr>eSearchResponseSeen := True\<rparr>) = budget_view c"
    "budget_view (c\<lparr>searchIncomplete := True\<rparr>) = budget_view c"
    "budget_view (c\<lparr>eSearchResponseSeen := True, searchPending := p\<rparr>) = budget_view c" for p
    by (simp_all add: budget_view_def)
  then show ?thesis
    by (cases kind) (simp_all add: settleLine_def view_uids view_esearch Let_def split: option.split)
qed

lemma view_judge: "budget_view (judgeLine line resumed c) = budget_view c"
proof -
  have "budget_view (setLiteral literal (c\<lparr>searchIncomplete := a, searchContinues := b\<rparr>)) = budget_view c"
    for literal a b
    by (simp add: setLiteral_def budget_view_def split: option.split)
  then show ?thesis by (simp add: judgeLine_def view_settle Let_def split: prod.split)
qed

lemma view_line: "budget_view (observeLine stop c) = budget_view c"
proof -
  have "budget_view (c\<lparr>searchBuffer := b, searchPending := []\<rparr>) = budget_view c" for b
    by (simp add: budget_view_def)
  then show ?thesis by (simp add: observeLine_def view_judge Let_def)
qed

lemma view_loop: "budget_view (observeLoop c) = budget_view c"
proof (induction c rule: observeLoop.induct)
  case (1 c)
  obtain p c' where s: "skipLiteral c = (p, c')" by fastforce
  then have c': "budget_view c' = budget_view c"
    by (auto simp: skipLiteral_def budget_view_def split: if_splits)
  show ?case
    using 1 [OF s [symmetric]] c' s
    by (subst observeLoop.simps) (simp add: view_line split: bool.split option.split)
qed

lemma view_observe: "budget_view (observeSearchResponseLocked bs c) = budget_view c"
proof -
  have "budget_view (c\<lparr>searchBuffer := b\<rparr>) = budget_view c" for b by (simp add: budget_view_def)
  then show ?thesis by (simp add: observeSearchResponseLocked_def view_loop)
qed

text \<open>
  The interleavings of the reader goroutine with the operations. \<open>budget_run lim k f c\<close>: in
  state \<open>c\<close>, under the limit \<open>lim\<close> of the current operation, \<open>k\<close> bytes have arrived since it was
  set, and \<open>f\<close> is the bound of a read that is blocked in the connection. go-imap reads
  through a \<^verbatim>\<open>bufio.Reader\<close> of 4096 bytes between commands; every limit the program sets is at
  least 4096.
\<close>

inductive budget_run :: "int \<Rightarrow> nat \<Rightarrow> nat option \<Rightarrow> readBudgetConn \<Rightarrow> bool" where
  start: "4096 \<le> lim \<Longrightarrow> budget_run lim 0 None (newReadBudgetConn lim)"
| poll: "budget_run lim k None c \<Longrightarrow> len \<le> 4096 \<Longrightarrow> budgetPoll len c = (ReadUpTo n, c') \<Longrightarrow>
    budget_run lim k (Some n) c'"
| refuse: "budget_run lim k None c \<Longrightarrow> budgetPoll len c = (LimitExceeded, c') \<Longrightarrow> budget_run lim k None c'"
| fill: "budget_run lim k (Some n) c \<Longrightarrow> length bs \<le> n \<Longrightarrow>
    budget_run lim (k + length bs) None (budgetFill bs c)"
| begins: "budget_run lim k f c \<Longrightarrow> 4096 \<le> l \<Longrightarrow> budget_run l 0 f (begin_budget l c)"
| begin_search: "budget_run lim k f c \<Longrightarrow> 4096 \<le> l \<Longrightarrow>
    budget_run l 0 f (checkSearchWindow w (beginSearch l c))"
| ends: "budget_run lim k f c \<Longrightarrow> budget_run (idleLimit c) 0 f (snd (end_budget c))"
| end_search: "budget_run lim k f c \<Longrightarrow> budget_run (idleLimit c) 0 f (snd (endSearch c))"

definition budget_ok :: "int \<Rightarrow> nat \<Rightarrow> nat option \<Rightarrow> readBudgetConn \<Rightarrow> bool" where
  "budget_ok lim k f c \<longleftrightarrow> active c \<and> 4096 \<le> idleLimit c \<and> remaining c = lim - int k \<and> int k \<le> lim \<and>
     (case f of None \<Rightarrow> True | Some n \<Rightarrow> n \<le> 4096 \<and> int n \<le> remaining c)"

lemma budget_ok_view: "budget_view c = budget_view c' \<Longrightarrow> budget_ok lim k f c = budget_ok lim k f c'"
  by (simp add: budget_view_def budget_ok_def split: option.split)

lemma budgetFill_view:
  "budget_view (budgetFill bs c) = budget_view (if active c then c\<lparr>remaining := remaining c - int (length bs)\<rparr> else c)"
  by (simp add: budgetFill_def view_observe Let_def)

lemma budget_fields:
  "active (begin_budget l c) = True" "remaining (begin_budget l c) = l"
  "idleLimit (begin_budget l c) = idleLimit c"
  "active (checkSearchWindow w (beginSearch l c)) = True"
  "remaining (checkSearchWindow w (beginSearch l c)) = l"
  "idleLimit (checkSearchWindow w (beginSearch l c)) = idleLimit c"
  "active (snd (end_budget c)) = True" "remaining (snd (end_budget c)) = idleLimit c"
  "idleLimit (snd (end_budget c)) = idleLimit c"
  "active (snd (endSearch c)) = True" "remaining (snd (endSearch c)) = idleLimit c"
  "idleLimit (snd (endSearch c)) = idleLimit c"
  by (simp_all add: begin_budget_def checkSearchWindow_def beginSearch_def resetSearch_def
      end_budget_def endSearch_def)

lemma budget_run_ok: "budget_run lim k f c \<Longrightarrow> budget_ok lim k f c"
proof (induction rule: budget_run.induct)
  case (poll lim k c len n c')
  then show ?case by (auto simp: budgetPoll_def budget_ok_def split: if_splits)
next
  case (refuse lim k c len c')
  then show ?case by (auto simp: budgetPoll_def budget_ok_def split: if_splits)
next
  case (fill lim k n c bs)
  then have "budget_ok lim (k + length bs) None (c\<lparr>remaining := remaining c - int (length bs)\<rparr>)"
    by (auto simp: budget_ok_def)
  moreover have "active c" using fill.IH by (simp add: budget_ok_def)
  then have "budget_view (budgetFill bs c) = budget_view (c\<lparr>remaining := remaining c - int (length bs)\<rparr>)"
    by (simp add: budgetFill_view)
  then have "budget_ok lim (k + length bs) None (budgetFill bs c) =
      budget_ok lim (k + length bs) None (c\<lparr>remaining := remaining c - int (length bs)\<rparr>)"
    by (rule budget_ok_view)
  ultimately show ?case by simp
next
  case (start lim)
  then show ?case by (simp add: budget_ok_def newReadBudgetConn_def)
qed (simp_all only: budget_ok_def budget_fields, (simp split: option.splits)+)

inductive_cases budget_runE: "budget_run lim k f c"

text \<open>
  However the reader's reads interleave with operations beginning and ending, no operation
  receives more bytes than its limit, and \<^verbatim>\<open>Read\<close> never slices its buffer with a negative
  bound; once the limit is used up the next read is refused.
\<close>

theorem read_budget_respected:
  assumes "budget_run lim k f c"
  shows "int k \<le> lim \<and> remaining c = lim - int k \<and> fst (budgetPoll len c) \<noteq> SlicePanic \<and>
    (int k = lim \<longrightarrow> fst (budgetPoll len c) = LimitExceeded)"
  using budget_run_ok [OF assms] by (simp add: budget_ok_def budgetPoll_def)

theorem read_budget_respected_witness:
  "\<exists>c. budget_run 4096 10 None c \<and> remaining c = 4086 \<and> fst (budgetPoll 8192 c) \<noteq> SlicePanic"
proof -
  let ?c0 = "newReadBudgetConn 65536"
  let ?c1 = "begin_budget 4096 ?c0"
  let ?c2 = "budgetFill ''* 1 EXISTS'' ?c1"
  have "budget_run 65536 0 None ?c0" by (rule budget_run.start) simp
  then have "budget_run 65536 0 (Some 4096) ?c0"
    by (rule budget_run.poll [of _ _ _ 4096]) (simp_all add: budgetPoll_def newReadBudgetConn_def)
  then have "budget_run 4096 0 (Some 4096) ?c1" by (rule budget_run.begins) simp
  then have "budget_run 4096 (0 + length ''* 1 EXISTS'') None ?c2" by (rule budget_run.fill) simp
  then have run: "budget_run 4096 10 None ?c2" by (simp add: eval_nat_numeral)
  from read_budget_respected [OF run, of 8192] run show ?thesis by (intro exI [of _ ?c2]) simp
qed

section \<open>Decoded results\<close>

text \<open>
  go-imap's decoded result: \<^verbatim>\<open>imap.SearchData\<close>. \<open>All\<close> is an interface value: nil, a
  \<^verbatim>\<open>UIDSet\<close>, or another kind of set. go-imap keeps the start of a range at or below its end.
\<close>

datatype num_set = UIDSet "(uint32 \<times> uint32) list" | OtherSet

record SearchData =
  All :: "num_set option"
  Min :: uint32
  Max :: uint32
  Count :: uint32

definition eSearchAppliedToUIDSearch :: "SearchData option \<Rightarrow> bool" where
  "eSearchAppliedToUIDSearch data = (case data of
      None \<Rightarrow> False
    | Some d \<Rightarrow> (case All d of
        None \<Rightarrow> True
      | Some (UIDSet uids) \<Rightarrow> uids \<noteq> []
      | Some OtherSet \<Rightarrow> True))"

text \<open>The inner loop: \<^verbatim>\<open>for uid := start; ; uid++\<close>, left when \<^verbatim>\<open>uid == stop\<close>; the addition wraps.\<close>

function uid_loop :: "uint32 \<Rightarrow> uint32 \<Rightarrow> uint32 set \<Rightarrow> uint32 list \<Rightarrow> (uint32 set \<times> uint32 list) option" where
  "uid_loop uid stop seen results =
     (if uid \<in> seen then None
      else if uid = stop then Some (insert uid seen, results @ [uid])
      else uid_loop (uid + 1) stop (insert uid seen) (results @ [uid]))"
  by pat_completeness auto
termination
proof (relation "measure (\<lambda>(uid, stop, s, r). unat (stop - uid))")
  fix uid stop :: uint32 and seen :: "uint32 set" and results :: "uint32 list"
  assume "uid \<noteq> stop"
  then have "stop - uid \<noteq> 0" by simp
  then have "unat (stop - uid - 1) < unat (stop - uid)" by (rule measure_unat)
  then show "((uid + 1, stop, insert uid seen, results @ [uid]), (uid, stop, seen, results)) \<in>
      measure (\<lambda>(uid, stop, s, r). unat (stop - uid))"
    by (simp add: diff_diff_add)
qed simp

declare uid_loop.simps [simp del]

fun bounded_items :: "uidWindow \<Rightarrow> nat \<Rightarrow> (uint32 \<times> uint32) list \<Rightarrow> uint32 set \<Rightarrow> uint32 list \<Rightarrow> code + uint32 list" where
  "bounded_items w limit [] seen results = Inr results"
| "bounded_items w limit ((start, stop) # items) seen results =
     (if start = 0 \<or> stop = 0 then Inl CodeIMAPProtocol
      else if start < Start w \<or> End w < stop then Inl CodeBoundsExceeded
      else if ucast stop - ucast start + (1 :: 64 word) > of_nat (limit - length results)
      then Inl CodeBoundsExceeded
      else (case uid_loop start stop seen results of
          None \<Rightarrow> Inl CodeIMAPProtocol
        | Some (seen', results') \<Rightarrow> bounded_items w limit items seen' results'))"

definition boundedSearchUIDs :: "SearchData \<Rightarrow> uidWindow \<Rightarrow> nat \<Rightarrow> code + uint32 list" where
  "boundedSearchUIDs data w limit = (case All data of
      Some (UIDSet items) \<Rightarrow> bounded_items w limit items {} []
    | _ \<Rightarrow> Inl CodeIMAPProtocol)"

text \<open>What \<^verbatim>\<open>UIDSearchWindow\<close> decides once the command has finished.\<close>

definition judgeSearch ::
    "searchObservation \<Rightarrow> go_error option \<Rightarrow> SearchData option \<Rightarrow> uidWindow \<Rightarrow> nat \<Rightarrow> go_error + uint32 list" where
  "judgeSearch obs err data w limit =
     (if obs_exceeded obs then Inl (BridgeError CodeBoundsExceeded)
      else (case err of
        Some e \<Rightarrow> Inl e
      | None \<Rightarrow>
        if obs_duplicate obs \<or> obs_incomplete obs then Inl (BridgeError CodeIMAPProtocol)
        else if obs_outOfWindow obs then Inl (BridgeError CodeBoundsExceeded)
        else if \<not> obs_searchSeen obs \<and> (\<not> obs_eSearchSeen obs \<or> \<not> eSearchAppliedToUIDSearch data)
        then Inl (BridgeError CodeIMAPProtocol)
        else (case data of
          None \<Rightarrow> Inl OtherError
        | Some d \<Rightarrow>
            if \<not> obs_searchSeen obs \<and> All d = None \<and> (Min d \<noteq> 0 \<or> Max d \<noteq> 0 \<or> Count d \<noteq> 0)
            then Inl (BridgeError CodeIMAPProtocol)
            else (let d' = (if \<not> obs_searchSeen obs \<and> All d = None then d\<lparr>All := Some (UIDSet [])\<rparr> else d) in
              (case boundedSearchUIDs d' w limit of
                 Inl c \<Rightarrow> Inl (BridgeError c)
               | Inr uids \<Rightarrow> Inr uids)))))"

text \<open>
  \<^verbatim>\<open>UIDSearchWindow\<close>. \<open>ctx\<close> is the context as \<^verbatim>\<open>mapIMAPError\<close> sees it, \<open>wire\<close> the sections of
  \<^verbatim>\<open>Read\<close> that ran during the command, \<open>err\<close> and \<open>data\<close> what go-imap's \<^verbatim>\<open>Wait\<close> returned.
  Without an error \<open>Wait\<close> never returns a nil result; the branch for it stands for a nil
  dereference.
\<close>

datatype read_section = Polled nat | Filled bytes

fun read_step :: "read_section \<Rightarrow> readBudgetConn \<Rightarrow> readBudgetConn" where
  "read_step (Polled len) c = snd (budgetPoll len c)"
| "read_step (Filled bs) c = budgetFill bs c"

definition UIDSearchWindow ::
    "ctx_view \<Rightarrow> uidWindow \<Rightarrow> int \<Rightarrow> readBudgetConn \<Rightarrow> read_section list \<Rightarrow> go_error option \<Rightarrow> SearchData option \<Rightarrow>
     (code + uint32 list) \<times> readBudgetConn" where
  "UIDSearchWindow ctx w limit c wire err data =
     (if limit < 1 \<or> int (width w) < limit then (Inl CodeBoundsExceeded, c)
      else (let c1 = checkSearchWindow w (beginSearch 4096 c);
                c2 = fold read_step wire c1;
                (obs, c3) = endSearch c2 in
        (case judgeSearch obs err data w (nat limit) of
           Inl e \<Rightarrow> (Inl (the (mapIMAPError (Some ctx) (Some e))), c3)
         | Inr uids \<Rightarrow> (Inr uids, c3))))"

subsection \<open>What is accepted\<close>

definition ordered_set :: "(uint32 \<times> uint32) list \<Rightarrow> bool" where
  "ordered_set items \<longleftrightarrow> (\<forall>i \<in> set items. fst i \<le> snd i)"

definition data_ordered :: "SearchData option \<Rightarrow> bool" where
  "data_ordered data = (case data of
      None \<Rightarrow> True
    | Some d \<Rightarrow> (case All d of Some (UIDSet items) \<Rightarrow> ordered_set items | _ \<Rightarrow> True))"

lemma word_range_step: "uid < (stop :: uint32) \<Longrightarrow> {uid..stop} = insert uid {uid + 1..stop}"
proof -
  assume lt: "uid < stop"
  have un: "unat (uid + 1) = unat uid + 1" using lt by unat_arith
  have "uid \<le> x \<longleftrightarrow> x = uid \<or> uid + 1 \<le> x" for x
    using un by (auto simp: word_le_nat_alt word_unat_eq_iff)
  then show ?thesis using lt inc_le [OF lt] by auto
qed

lemma uid_loop_range:
  "uid \<le> stop \<Longrightarrow> uid_loop uid stop seen results = Some (seen', results') \<Longrightarrow>
     (\<exists>xs. results' = results @ xs \<and> distinct xs \<and> set xs = {uid..stop} \<and> seen \<inter> {uid..stop} = {} \<and>
       seen' = seen \<union> {uid..stop} \<and> length xs = unat stop - unat uid + 1)"
proof (induction uid stop seen results rule: uid_loop.induct)
  case (1 uid stop seen results)
  then have n: "uid \<notin> seen" by (simp add: uid_loop.simps split: if_splits)
  show ?case
  proof (cases "uid = stop")
    case True
    with 1 n show ?thesis by (intro exI [of _ "[uid]"]) (simp add: uid_loop.simps)
  next
    case False
    with 1(2) have lt: "uid < stop" by simp
    then have step: "uid + 1 \<le> stop" by (rule inc_le)
    have un: "unat (uid + 1) = unat uid + 1" using lt by unat_arith
    note range = word_range_step [OF lt]
    from 1(3) False n have "uid_loop (uid + 1) stop (insert uid seen) (results @ [uid]) = Some (seen', results')"
      by (simp add: uid_loop.simps [of uid])
    from 1(1) [OF n False step this] obtain xs where xs: "results' = (results @ [uid]) @ xs" "distinct xs"
      "set xs = {uid + 1..stop}" "insert uid seen \<inter> {uid + 1..stop} = {}"
      "seen' = insert uid seen \<union> {uid + 1..stop}" "length xs = unat stop - unat (uid + 1) + 1" by blast
    then show ?thesis
      using n range un lt by (intro exI [of _ "uid # xs"]) (auto simp: word_less_nat_alt)
  qed
qed

lemma count_64:
  assumes "start \<le> (stop :: uint32)"
  shows "unat (ucast stop - ucast start + (1 :: 64 word)) = unat stop - unat start + 1"
proof -
  have b: "unat x < 2 ^ 32" for x :: uint32
    using unsigned_less [of x] by simp
  have "unat start \<le> unat stop" using assms by (simp add: word_le_nat_alt)
  then have "ucast stop - ucast start + (1 :: 64 word) = of_nat (unat stop - unat start + 1)"
    by (simp add: of_nat_diff)
  then have "unat (ucast stop - ucast start + (1 :: 64 word)) =
      unat (of_nat (unat stop - unat start + 1) :: 64 word)" by (rule arg_cong)
  also have "\<dots> = unat stop - unat start + 1"
    unfolding unat_of_nat using b [of stop] by (simp add: mod_less)
  finally show ?thesis .
qed

lemma count_fits:
  assumes "start \<le> (stop :: uint32)" "\<not> of_nat n < ucast stop - ucast start + (1 :: 64 word)"
  shows "unat stop - unat start + 1 \<le> n"
proof -
  have "unat stop - unat start + 1 \<le> unat (of_nat n :: 64 word)"
    using assms count_64 [OF assms(1)] by (simp add: word_less_nat_alt)
  also have "\<dots> \<le> n" by (simp add: unat_of_nat)
  finally show ?thesis .
qed

lemma bounded_items_spec:
  assumes "ordered_set items" "bounded_items w limit items seen results = Inr uids"
    "set results = seen" "distinct results" "length results \<le> limit"
    "\<forall>u \<in> set results. Start w \<le> u \<and> u \<le> End w"
  shows "distinct uids \<and> length uids \<le> limit \<and> (\<forall>u \<in> set uids. Start w \<le> u \<and> u \<le> End w) \<and>
    set uids = set results \<union> (\<Union>i \<in> set items. {fst i..snd i})"
  using assms
proof (induction items arbitrary: seen results)
  case (Cons i items)
  obtain start stop where i: "i = (start, stop)" by fastforce
  from Cons.prems(1) i have le: "start \<le> stop" by (simp add: ordered_set_def)
  from Cons.prems(2) i obtain seen' results' where
    inw: "Start w \<le> start" "stop \<le> End w"
    and cnt: "\<not> ucast stop - ucast start + (1 :: 64 word) > of_nat (limit - length results)"
    and l: "uid_loop start stop seen results = Some (seen', results')"
    and rest: "bounded_items w limit items seen' results' = Inr uids"
    by (simp add: not_less split: if_splits option.splits prod.splits)
  from uid_loop_range [OF le l] obtain xs where xs: "results' = results @ xs" "distinct xs"
    "set xs = {start..stop}" "seen \<inter> {start..stop} = {}" "seen' = seen \<union> {start..stop}"
    "length xs = unat stop - unat start + 1" by blast
  have "length xs \<le> limit - length results"
    unfolding xs(6) using cnt by (intro count_fits [OF le])
  then have len: "length results' \<le> limit" using xs(1) Cons.prems(5) by simp
  have inside: "\<forall>u \<in> set xs. Start w \<le> u \<and> u \<le> End w"
    unfolding xs(3) using inw by (meson atLeastAtMost_iff order_trans)
  have "ordered_set items" using Cons.prems(1) by (simp add: ordered_set_def)
  moreover have "set results' = seen'" using xs(1,3,5) Cons.prems(3) by simp
  moreover have "distinct results'" using xs(1-4) Cons.prems(3,4) by auto
  moreover have "\<forall>u \<in> set results'. Start w \<le> u \<and> u \<le> End w"
    using inside Cons.prems(6) xs(1) by simp blast
  ultimately have "distinct uids \<and> length uids \<le> limit \<and> (\<forall>u \<in> set uids. Start w \<le> u \<and> u \<le> End w) \<and>
      set uids = set results' \<union> (\<Union>i \<in> set items. {fst i..snd i})"
    using len by (intro Cons.IH [OF _ rest])
  then show ?case unfolding xs(1) i by (simp add: xs(3) Un_assoc)
qed simp

lemma judgeSearch_Inr:
  assumes "judgeSearch obs err data w limit = Inr uids"
  shows "\<not> obs_exceeded obs \<and> err = None \<and> \<not> obs_duplicate obs \<and> \<not> obs_incomplete obs \<and>
    \<not> obs_outOfWindow obs \<and> (obs_searchSeen obs \<or> obs_eSearchSeen obs) \<and>
    (\<exists>d items. data = Some d \<and> (All d = Some (UIDSet items) \<or> All d = None \<and> items = []) \<and>
      bounded_items w limit items {} [] = Inr uids)"
proof -
  have f: "\<not> obs_exceeded obs" "err = None" "\<not> obs_duplicate obs" "\<not> obs_incomplete obs"
    "\<not> obs_outOfWindow obs" "obs_searchSeen obs \<or> obs_eSearchSeen obs" "data \<noteq> None"
    using assms unfolding judgeSearch_def by (auto split: if_splits option.splits)
  then obtain d where d: "data = Some d" by blast
  show ?thesis
  proof (cases "\<not> obs_searchSeen obs \<and> All d = None")
    case True
    with assms f d have "bounded_items w limit [] {} [] = Inr uids"
      by (simp add: judgeSearch_def boundedSearchUIDs_def split: if_splits)
    with True f d show ?thesis by blast
  next
    case False
    with assms f d obtain items where "All d = Some (UIDSet items)" "bounded_items w limit items {} [] = Inr uids"
      by (simp add: judgeSearch_def boundedSearchUIDs_def Let_def split: if_splits option.splits num_set.splits sum.splits)
    with f d show ?thesis by blast
  qed
qed

lemma UIDSearchWindow_accepts:
  assumes "UIDSearchWindow ctx w limit c wire err data = (Inr uids, c')"
    and "data_ordered data"
  shows "distinct uids \<and> int (length uids) \<le> limit \<and> limit \<le> int (width w) \<and>
    (\<forall>u \<in> set uids. Start w \<le> u \<and> u \<le> End w) \<and>
    (\<exists>d items. data = Some d \<and> (All d = Some (UIDSet items) \<or> All d = None \<and> items = []) \<and>
      set uids = (\<Union>i \<in> set items. {fst i..snd i})) \<and>
    (let obs = fst (endSearch (fold read_step wire (checkSearchWindow w (beginSearch 4096 c)))) in
      (obs_searchSeen obs \<or> obs_eSearchSeen obs) \<and> \<not> obs_exceeded obs \<and> \<not> obs_incomplete obs \<and>
      \<not> obs_duplicate obs \<and> \<not> obs_outOfWindow obs)"
proof -
  let ?obs = "fst (endSearch (fold read_step wire (checkSearchWindow w (beginSearch 4096 c))))"
  have lim: "1 \<le> limit" "limit \<le> int (width w)" and j: "judgeSearch ?obs err data w (nat limit) = Inr uids"
    using assms(1) by (auto simp: UIDSearchWindow_def Let_def split: if_splits sum.splits prod.splits)
  from judgeSearch_Inr [OF j] obtain d items where d: "data = Some d"
    "All d = Some (UIDSet items) \<or> All d = None \<and> items = []"
    "bounded_items w (nat limit) items {} [] = Inr uids" by blast
  have "ordered_set items" using d(1,2) assms(2)
    by (elim disjE) (simp_all add: data_ordered_def ordered_set_def)
  from bounded_items_spec [OF this d(3)] have "distinct uids \<and> length uids \<le> nat limit \<and>
    (\<forall>u \<in> set uids. Start w \<le> u \<and> u \<le> End w) \<and> set uids = (\<Union>i \<in> set items. {fst i..snd i})" by simp
  with lim d(1,2) judgeSearch_Inr [OF j] show ?thesis by (auto simp: Let_def)
qed

text \<open>
  C6. \<^verbatim>\<open>UIDSearchWindow\<close> accepts a result only when it is sound: at most \<open>limit\<close> UIDs, which is at
  most the width of the window, all of them different and inside the window; they are
  exactly the UIDs of the decoded set; and the raw response was seen, within its byte
  budget, unambiguous, free of duplicates and of UIDs outside the window.
\<close>

theorem UIDSearchWindow_sound:
  assumes "UIDSearchWindow ctx w limit c wire err data = (Inr uids, c')"
    and "data_ordered data"
  shows "distinct uids \<and> int (length uids) \<le> limit \<and> limit \<le> int (width w) \<and>
    (\<forall>u \<in> set uids. Start w \<le> u \<and> u \<le> End w) \<and>
    (\<exists>d items. data = Some d \<and> (All d = Some (UIDSet items) \<or> All d = None \<and> items = []) \<and>
      set uids = (\<Union>i \<in> set items. {fst i..snd i})) \<and>
    (let obs = fst (endSearch (fold read_step wire (checkSearchWindow w (beginSearch 4096 c)))) in
      (obs_searchSeen obs \<or> obs_eSearchSeen obs) \<and> \<not> obs_exceeded obs \<and> \<not> obs_incomplete obs \<and>
      \<not> obs_duplicate obs \<and> \<not> obs_outOfWindow obs)"
  using UIDSearchWindow_accepts [OF assms] .

definition sample_search_data :: SearchData where
  "sample_search_data = \<lparr>All = Some (UIDSet [(8, 9), (12, 12)]), Min = 0, Max = 0, Count = 0\<rparr>"

theorem UIDSearchWindow_sound_witness:
  "\<exists>c'. UIDSearchWindow live_ctx \<lparr>Start = 8, End = 20\<rparr> 13 (newReadBudgetConn 65536)
       [Filled ''* SEARCH 8 9 '', Filled (''12'' @ CRLF)] None (Some sample_search_data) = (Inr [8, 9, 12], c') \<and>
     distinct [8, 9, 12 :: uint32]"
proof -
  let ?r = "UIDSearchWindow live_ctx \<lparr>Start = 8, End = 20\<rparr> 13 (newReadBudgetConn 65536)
       [Filled ''* SEARCH 8 9 '', Filled (''12'' @ CRLF)] None (Some sample_search_data)"
  have "fst ?r = Inr [8, 9, 12]" by code_simp
  then have r: "?r = (Inr [8, 9, 12], snd ?r)" by (simp add: prod_eq_iff)
  have "data_ordered (Some sample_search_data)"
    by (simp add: data_ordered_def sample_search_data_def ordered_set_def)
  from UIDSearchWindow_sound [OF r this] have "distinct [8, 9, 12 :: uint32]" by (elim conjE)
  with r show ?thesis by (intro exI conjI)
qed

end
