(* ===== verification/Bridge_Limits.thy ===== *)
theory Bridge_Limits
  imports Bridge_Errors
begin

text \<open>
  The finite limits every bridge operation runs under: the caller-selectable \<^verbatim>\<open>Bounds\<close>
  (\<^verbatim>\<open>bridge/bounds.go\<close>) and the MIME and thread limits (\<^verbatim>\<open>bridge/types.go\<close>). Go's
  \<^verbatim>\<open>int\<close> values are HOL integers; every value the functions return lies between 0 and 2^20.
\<close>

section \<open>Bounds\<close>

record Bounds =
  MaxSearchResults :: int
  MaxFolderResults :: int
  MaxBodyBytes :: int
  MaxHeaderBytes :: int
  MaxMimeParts :: int
  MaxAttachmentCount :: int
  MaxThreadMessages :: int
  MaxThreadFetches :: int
  MaxPreviewChars :: int
  MaxOutputBytes :: int

text \<open>A nil pointer of the patch is \<open>None\<close>.\<close>

record BoundsPatch =
  pMaxSearchResults :: "int option"
  pMaxFolderResults :: "int option"
  pMaxBodyBytes :: "int option"
  pMaxHeaderBytes :: "int option"
  pMaxMimeParts :: "int option"
  pMaxAttachmentCount :: "int option"
  pMaxThreadMessages :: "int option"
  pMaxThreadFetches :: "int option"
  pMaxPreviewChars :: "int option"
  pMaxOutputBytes :: "int option"

definition defaultBounds :: Bounds where
  "defaultBounds = \<lparr>
     MaxSearchResults = 50, MaxFolderResults = 200, MaxBodyBytes = 256 * 1024,
     MaxHeaderBytes = 16 * 1024, MaxMimeParts = 50, MaxAttachmentCount = 20,
     MaxThreadMessages = 20, MaxThreadFetches = 30, MaxPreviewChars = 200,
     MaxOutputBytes = 100000\<rparr>"

text \<open>The hard ceilings \<^verbatim>\<open>mergeBounds\<close> passes to \<^verbatim>\<open>clampBound\<close>.\<close>

definition hardBounds :: Bounds where
  "hardBounds = \<lparr>
     MaxSearchResults = 250, MaxFolderResults = 1000, MaxBodyBytes = 1024 * 1024,
     MaxHeaderBytes = 64 * 1024, MaxMimeParts = 200, MaxAttachmentCount = 100,
     MaxThreadMessages = 100, MaxThreadFetches = 100, MaxPreviewChars = 1000,
     MaxOutputBytes = 400000\<rparr>"

definition clampBound :: "int option \<Rightarrow> int \<Rightarrow> int \<Rightarrow> code + int" where
  "clampBound value fallback ceiling =
     (case value of None \<Rightarrow> Inr fallback
      | Some v \<Rightarrow> if v < 0 then Inl CodeBoundsExceeded
                else if v > ceiling then Inr ceiling else Inr v)"

text \<open>One assignment \<^verbatim>\<open>if bounds.F, err = clampBound(...); err != nil\<close> of \<^verbatim>\<open>mergeBounds\<close>.\<close>

definition bind_sum :: "'e + 'a \<Rightarrow> ('a \<Rightarrow> 'e + 'b) \<Rightarrow> 'e + 'b" where
  "bind_sum m f = (case m of Inl e \<Rightarrow> Inl e | Inr v \<Rightarrow> f v)"

definition mergeBounds :: "BoundsPatch \<Rightarrow> code + Bounds" where
  "mergeBounds patch =
    (let d = defaultBounds; h = hardBounds in
     bind_sum (clampBound (pMaxSearchResults patch) (MaxSearchResults d) (MaxSearchResults h)) (\<lambda>v1.
     bind_sum (clampBound (pMaxFolderResults patch) (MaxFolderResults d) (MaxFolderResults h)) (\<lambda>v2.
     bind_sum (clampBound (pMaxBodyBytes patch) (MaxBodyBytes d) (MaxBodyBytes h)) (\<lambda>v3.
     if pMaxHeaderBytes patch = Some 0 then Inl CodeBoundsExceeded else
     bind_sum (clampBound (pMaxHeaderBytes patch) (MaxHeaderBytes d) (MaxHeaderBytes h)) (\<lambda>v4.
     bind_sum (clampBound (pMaxMimeParts patch) (MaxMimeParts d) (MaxMimeParts h)) (\<lambda>v5.
     bind_sum (clampBound (pMaxAttachmentCount patch) (MaxAttachmentCount d) (MaxAttachmentCount h)) (\<lambda>v6.
     bind_sum (clampBound (pMaxThreadMessages patch) (MaxThreadMessages d) (MaxThreadMessages h)) (\<lambda>v7.
     bind_sum (clampBound (pMaxThreadFetches patch) (MaxThreadFetches d) (MaxThreadFetches h)) (\<lambda>v8.
     bind_sum (clampBound (pMaxPreviewChars patch) (MaxPreviewChars d) (MaxPreviewChars h)) (\<lambda>v9.
     bind_sum (clampBound (pMaxOutputBytes patch) (MaxOutputBytes d) (MaxOutputBytes h)) (\<lambda>v10.
       Inr \<lparr>MaxSearchResults = v1, MaxFolderResults = v2, MaxBodyBytes = v3, MaxHeaderBytes = v4,
            MaxMimeParts = v5, MaxAttachmentCount = v6, MaxThreadMessages = v7,
            MaxThreadFetches = v8, MaxPreviewChars = v9, MaxOutputBytes = v10\<rparr>)))))))))))"

text \<open>\<^verbatim>\<open>boundsPatch\<close> of \<^verbatim>\<open>bridge/bridge.go\<close>, which every reconnect sends through \<^verbatim>\<open>Dial\<close> again.\<close>

definition boundsPatch :: "Bounds \<Rightarrow> BoundsPatch" where
  "boundsPatch b = \<lparr>
     pMaxSearchResults = Some (MaxSearchResults b), pMaxFolderResults = Some (MaxFolderResults b),
     pMaxBodyBytes = Some (MaxBodyBytes b), pMaxHeaderBytes = Some (MaxHeaderBytes b),
     pMaxMimeParts = Some (MaxMimeParts b), pMaxAttachmentCount = Some (MaxAttachmentCount b),
     pMaxThreadMessages = Some (MaxThreadMessages b), pMaxThreadFetches = Some (MaxThreadFetches b),
     pMaxPreviewChars = Some (MaxPreviewChars b), pMaxOutputBytes = Some (MaxOutputBytes b)\<rparr>"

text \<open>The range of a merged bounds value, field by field.\<close>

definition within_bounds :: "Bounds \<Rightarrow> bool" where
  "within_bounds b \<longleftrightarrow>
     0 \<le> MaxSearchResults b \<and> MaxSearchResults b \<le> MaxSearchResults hardBounds \<and>
     0 \<le> MaxFolderResults b \<and> MaxFolderResults b \<le> MaxFolderResults hardBounds \<and>
     0 \<le> MaxBodyBytes b \<and> MaxBodyBytes b \<le> MaxBodyBytes hardBounds \<and>
     0 < MaxHeaderBytes b \<and> MaxHeaderBytes b \<le> MaxHeaderBytes hardBounds \<and>
     0 \<le> MaxMimeParts b \<and> MaxMimeParts b \<le> MaxMimeParts hardBounds \<and>
     0 \<le> MaxAttachmentCount b \<and> MaxAttachmentCount b \<le> MaxAttachmentCount hardBounds \<and>
     0 \<le> MaxThreadMessages b \<and> MaxThreadMessages b \<le> MaxThreadMessages hardBounds \<and>
     0 \<le> MaxThreadFetches b \<and> MaxThreadFetches b \<le> MaxThreadFetches hardBounds \<and>
     0 \<le> MaxPreviewChars b \<and> MaxPreviewChars b \<le> MaxPreviewChars hardBounds \<and>
     0 \<le> MaxOutputBytes b \<and> MaxOutputBytes b \<le> MaxOutputBytes hardBounds"

lemma bind_sum_Inr [simp]: "bind_sum m f = Inr r \<longleftrightarrow> (\<exists>v. m = Inr v \<and> f v = Inr r)"
  by (auto simp: bind_sum_def split: sum.splits)

lemma clampBound_range:
  "clampBound v fallback ceiling = Inr r \<Longrightarrow> 0 \<le> fallback \<Longrightarrow> fallback \<le> ceiling \<Longrightarrow>
    0 \<le> r \<and> r \<le> ceiling \<and> (v \<noteq> Some 0 \<longrightarrow> 0 < fallback \<longrightarrow> 0 < r)"
  by (auto simp: clampBound_def split: option.splits if_splits)

lemma clampBound_fix [simp]: "0 \<le> v \<Longrightarrow> v \<le> ceiling \<Longrightarrow> clampBound (Some v) d ceiling = Inr v"
  by (simp add: clampBound_def)

text \<open>The merge succeeds when every field does, and then each field is the clamped one.\<close>

lemma mergeBounds_Inr:
  "mergeBounds p = Inr b \<longleftrightarrow> pMaxHeaderBytes p \<noteq> Some 0 \<and>
     clampBound (pMaxSearchResults p) (MaxSearchResults defaultBounds) (MaxSearchResults hardBounds) = Inr (MaxSearchResults b) \<and>
     clampBound (pMaxFolderResults p) (MaxFolderResults defaultBounds) (MaxFolderResults hardBounds) = Inr (MaxFolderResults b) \<and>
     clampBound (pMaxBodyBytes p) (MaxBodyBytes defaultBounds) (MaxBodyBytes hardBounds) = Inr (MaxBodyBytes b) \<and>
     clampBound (pMaxHeaderBytes p) (MaxHeaderBytes defaultBounds) (MaxHeaderBytes hardBounds) = Inr (MaxHeaderBytes b) \<and>
     clampBound (pMaxMimeParts p) (MaxMimeParts defaultBounds) (MaxMimeParts hardBounds) = Inr (MaxMimeParts b) \<and>
     clampBound (pMaxAttachmentCount p) (MaxAttachmentCount defaultBounds) (MaxAttachmentCount hardBounds) = Inr (MaxAttachmentCount b) \<and>
     clampBound (pMaxThreadMessages p) (MaxThreadMessages defaultBounds) (MaxThreadMessages hardBounds) = Inr (MaxThreadMessages b) \<and>
     clampBound (pMaxThreadFetches p) (MaxThreadFetches defaultBounds) (MaxThreadFetches hardBounds) = Inr (MaxThreadFetches b) \<and>
     clampBound (pMaxPreviewChars p) (MaxPreviewChars defaultBounds) (MaxPreviewChars hardBounds) = Inr (MaxPreviewChars b) \<and>
     clampBound (pMaxOutputBytes p) (MaxOutputBytes defaultBounds) (MaxOutputBytes hardBounds) = Inr (MaxOutputBytes b)"
  by (cases b) (auto simp: mergeBounds_def Let_def)

lemma mergeBounds_within:
  assumes "mergeBounds p = Inr b"
  shows "within_bounds b"
proof -
  note fields = assms [unfolded mergeBounds_Inr]
  have d: "within_bounds defaultBounds"
    by (simp add: within_bounds_def defaultBounds_def hardBounds_def)
  with fields show ?thesis
    unfolding within_bounds_def
    by (elim conjE) (drule clampBound_range; simp)+
qed

lemma mergeBounds_fix: "within_bounds b \<Longrightarrow> mergeBounds (boundsPatch b) = Inr b"
  by (simp add: mergeBounds_Inr within_bounds_def boundsPatch_def)

section \<open>MIME and thread limits\<close>

definition boundedLimit :: "int \<Rightarrow> int \<Rightarrow> int \<Rightarrow> int" where
  "boundedLimit value defaultValue maximum =
     (if value \<le> 0 then defaultValue else if value > maximum then maximum else value)"

record NormalizeLimits =
  lMaxRawBytes :: int
  lMaxHeaderBytes :: int
  lMaxHeaderCount :: int
  lMaxMIMEParts :: int
  lMaxMIMEDepth :: int
  lMaxDecodedTextBytes :: int
  lMaxAttachmentCount :: int
  lMaxFilenameBytes :: int
  lMaxContentTypeBytes :: int
  lMaxDispositionBytes :: int
  lMaxReferenceCount :: int
  lMaxThreadDepth :: int
  lMaxThreadMessages :: int

definition zeroLimits :: NormalizeLimits where
  "zeroLimits = \<lparr>
     lMaxRawBytes = 0, lMaxHeaderBytes = 0, lMaxHeaderCount = 0, lMaxMIMEParts = 0,
     lMaxMIMEDepth = 0, lMaxDecodedTextBytes = 0, lMaxAttachmentCount = 0, lMaxFilenameBytes = 0,
     lMaxContentTypeBytes = 0, lMaxDispositionBytes = 0, lMaxReferenceCount = 0,
     lMaxThreadDepth = 0, lMaxThreadMessages = 0\<rparr>"

definition normalizedLimits :: "NormalizeLimits \<Rightarrow> NormalizeLimits" where
  "normalizedLimits l = \<lparr>
     lMaxRawBytes = boundedLimit (lMaxRawBytes l) (256 * 1024) (1024 * 1024),
     lMaxHeaderBytes = boundedLimit (lMaxHeaderBytes l) (16 * 1024) (64 * 1024),
     lMaxHeaderCount = boundedLimit (lMaxHeaderCount l) 100 500,
     lMaxMIMEParts = boundedLimit (lMaxMIMEParts l) 50 200,
     lMaxMIMEDepth = boundedLimit (lMaxMIMEDepth l) 10 20,
     lMaxDecodedTextBytes = boundedLimit (lMaxDecodedTextBytes l) (256 * 1024) (1024 * 1024),
     lMaxAttachmentCount = boundedLimit (lMaxAttachmentCount l) 20 100,
     lMaxFilenameBytes = boundedLimit (lMaxFilenameBytes l) 255 1024,
     lMaxContentTypeBytes = boundedLimit (lMaxContentTypeBytes l) 255 1024,
     lMaxDispositionBytes = boundedLimit (lMaxDispositionBytes l) 127 512,
     lMaxReferenceCount = boundedLimit (lMaxReferenceCount l) 50 200,
     lMaxThreadDepth = boundedLimit (lMaxThreadDepth l) 20 100,
     lMaxThreadMessages = boundedLimit (lMaxThreadMessages l) 20 100\<rparr>"

lemma boundedLimit_range: "0 < d \<Longrightarrow> d \<le> m \<Longrightarrow> 0 < boundedLimit v d m \<and> boundedLimit v d m \<le> m"
  by (simp add: boundedLimit_def)

lemma boundedLimit_fix [simp]: "0 < v \<Longrightarrow> v \<le> m \<Longrightarrow> boundedLimit v d m = v"
  by (simp add: boundedLimit_def)

lemma normalizedLimits_thread:
  "0 < lMaxThreadMessages (normalizedLimits l) \<and> lMaxThreadMessages (normalizedLimits l) \<le> 100"
  "0 < lMaxThreadDepth (normalizedLimits l) \<and> lMaxThreadDepth (normalizedLimits l) \<le> 100"
  "0 < lMaxReferenceCount (normalizedLimits l) \<and> lMaxReferenceCount (normalizedLimits l) \<le> 200"
  by (simp_all add: normalizedLimits_def boundedLimit_range)

lemma normalizedLimits_mime:
  "0 < lMaxMIMEParts (normalizedLimits l) \<and> lMaxMIMEParts (normalizedLimits l) \<le> 200"
  "0 < lMaxMIMEDepth (normalizedLimits l) \<and> lMaxMIMEDepth (normalizedLimits l) \<le> 20"
  "0 < lMaxAttachmentCount (normalizedLimits l) \<and> lMaxAttachmentCount (normalizedLimits l) \<le> 100"
  by (simp_all add: normalizedLimits_def boundedLimit_range)

lemma boundedLimit_idem:
  "0 < d \<Longrightarrow> d \<le> m \<Longrightarrow> boundedLimit (boundedLimit v d m) d m = boundedLimit v d m"
  by (simp add: boundedLimit_def)

lemma normalizedLimits_idem: "normalizedLimits (normalizedLimits l) = normalizedLimits l"
  by (simp add: normalizedLimits_def boundedLimit_idem)

end
