(* ===== verification/Go_Text.thy ===== *)
theory Go_Text
  imports Croton_Prelude
begin

text \<open>
  Text encodings of the Go standard library that the sources rely on: the UTF-8 decoder of
  \<^verbatim>\<open>unicode/utf8\<close>, the JSON string encoder of \<^verbatim>\<open>encoding/json\<close> (with its HTML escapes), and
  the unpadded URL alphabet of \<^verbatim>\<open>encoding/base64\<close>.
\<close>

section \<open>UTF-8\<close>

definition continuation :: "char \<Rightarrow> bool" where
  "continuation c \<longleftrightarrow> 128 \<le> byte_val c \<and> byte_val c < 192"

text \<open>
  The width of the rune at the head, or \<open>None\<close> where \<^verbatim>\<open>utf8.DecodeRune\<close> returns
  \<^verbatim>\<open>RuneError\<close> with width 1 (or width 0 on the empty string): overlong forms, surrogates and
  values above U+10FFFF are invalid.
\<close>

fun rune_width :: "bytes \<Rightarrow> nat option" where
  "rune_width [] = None"
| "rune_width (a # s) =
     (let n = byte_val a in
      if n < 128 then Some 1
      else if 194 \<le> n \<and> n < 224 then
        (case s of b # _ \<Rightarrow> if continuation b then Some 2 else None | _ \<Rightarrow> None)
      else if 224 \<le> n \<and> n < 240 then
        (case s of b # c # _ \<Rightarrow>
           if continuation b \<and> continuation c \<and> (n = 224 \<longrightarrow> 160 \<le> byte_val b) \<and> (n = 237 \<longrightarrow> byte_val b < 160)
           then Some 3 else None | _ \<Rightarrow> None)
      else if 240 \<le> n \<and> n < 245 then
        (case s of b # c # d # _ \<Rightarrow>
           if continuation b \<and> continuation c \<and> continuation d \<and>
              (n = 240 \<longrightarrow> 144 \<le> byte_val b) \<and> (n = 244 \<longrightarrow> byte_val b < 144)
           then Some 4 else None | _ \<Rightarrow> None)
      else None)"

lemma rune_width_bounds: "rune_width s = Some n \<Longrightarrow> 1 \<le> n \<and> n \<le> length s"
  by (cases s) (auto simp: Let_def split: if_splits list.splits)

lemma rune_width_four: "rune_width s = Some n \<Longrightarrow> n \<le> 4"
  by (cases s) (auto simp: Let_def split: if_splits list.splits)

text \<open>\<^verbatim>\<open>utf8.ValidString\<close>.\<close>

function valid_utf8 :: "bytes \<Rightarrow> bool" where
  "valid_utf8 s = (if s = [] then True
     else (case rune_width s of None \<Rightarrow> False | Some n \<Rightarrow> valid_utf8 (drop n s)))"
  by pat_completeness auto
termination by (relation "measure length") (auto dest: rune_width_bounds)

declare valid_utf8.simps [simp del]

lemma valid_utf8_Nil [simp]: "valid_utf8 []"
  by (simp add: valid_utf8.simps)

lemma valid_utf8_step: "rune_width s = Some n \<Longrightarrow> valid_utf8 s = valid_utf8 (drop n s)"
  by (subst valid_utf8.simps) (auto dest: rune_width_bounds)

text \<open>Whether the encoding at the head of \<open>s\<close> is complete depends on the rune's own bytes only.\<close>

lemma rune_width_append: "rune_width s = Some n \<Longrightarrow> rune_width (s @ t) = Some n"
  by (cases s) (auto simp: Let_def split: if_splits list.splits)

lemma rune_width_take: "rune_width s = Some n \<Longrightarrow> rune_width (take n s) = Some n"
  by (cases s) (auto simp: Let_def take_Cons split: if_splits list.splits nat.splits)

lemma valid_utf8_append: "valid_utf8 s \<Longrightarrow> valid_utf8 t \<Longrightarrow> valid_utf8 (s @ t)"
proof (induction s rule: valid_utf8.induct)
  case (1 s)
  show ?case
  proof (cases "s = []")
    case False
    with 1 obtain n where n: "rune_width s = Some n" by (auto simp: valid_utf8.simps [of s] split: option.splits)
    with 1 False have "valid_utf8 (drop n s @ t)" using valid_utf8_step [OF n] by simp
    moreover have "drop n (s @ t) = drop n s @ t" using rune_width_bounds [OF n] by simp
    ultimately show ?thesis using valid_utf8_step [OF rune_width_append [OF n]] by simp
  qed (use 1 in simp)
qed

section \<open>JSON strings\<close>

definition hex_digit :: "nat \<Rightarrow> char" where
  "hex_digit d = (if d < 10 then char_of (48 + d) else char_of (87 + d))"

text \<open>The escape of one ASCII byte: \<^verbatim>\<open>appendString\<close> with \<^verbatim>\<open>escapeHTML\<close> set.\<close>

definition json_escape :: "char \<Rightarrow> bytes" where
  "json_escape c =
     (if c = DQUOTE then [BACKSLASH, DQUOTE]
      else if c = BACKSLASH then [BACKSLASH, BACKSLASH]
      else if c = CHR 0x08 then [BACKSLASH, CHR ''b'']
      else if c = CHR 0x0C then [BACKSLASH, CHR ''f'']
      else if c = LF then [BACKSLASH, CHR ''n'']
      else if c = CR then [BACKSLASH, CHR ''r'']
      else if c = TAB then [BACKSLASH, CHR ''t'']
      else if byte_val c < 32 \<or> c \<in> set ''<>&'' then
        BACKSLASH # ''u00'' @ [hex_digit (byte_val c div 16), hex_digit (byte_val c mod 16)]
      else [c])"

definition json_rune :: "bytes \<Rightarrow> nat option \<Rightarrow> bytes" where
  "json_rune s w = (case w of
      None \<Rightarrow> BACKSLASH # ''ufffd''
    | Some n \<Rightarrow>
        if n = 1 then json_escape (hd s)
        else if take n s = [CHR 0xE2, CHR 0x80, CHR 0xA8] then BACKSLASH # ''u2028''
        else if take n s = [CHR 0xE2, CHR 0x80, CHR 0xA9] then BACKSLASH # ''u2029''
        else take n s)"

function json_chars :: "bytes \<Rightarrow> bytes" where
  "json_chars s = (if s = [] then []
     else json_rune s (rune_width s) @ json_chars (drop (case rune_width s of None \<Rightarrow> 1 | Some n \<Rightarrow> n) s))"
  by pat_completeness auto
termination
  by (relation "measure length") (auto dest: rune_width_bounds split: option.splits)

declare json_chars.simps [simp del]

definition json_string :: "bytes \<Rightarrow> bytes" where
  "json_string s = DQUOTE # json_chars s @ [DQUOTE]"

definition json_bool :: "bool \<Rightarrow> bytes" where
  "json_bool b = (if b then ''true'' else ''false'')"

definition json_int :: "int \<Rightarrow> bytes" where
  "json_int n = (if n < 0 then CHR ''-'' # format_uint (nat (- n)) else format_uint (nat n))"

text \<open>Every input byte costs at most six bytes of output.\<close>

lemma json_escape_length: "length (json_escape c) \<le> 6"
  by (simp add: json_escape_def)

lemma json_rune_length:
  assumes "s \<noteq> []"
  shows "length (json_rune s (rune_width s)) \<le> 6 * (case rune_width s of None \<Rightarrow> 1 | Some n \<Rightarrow> n)"
proof (cases "rune_width s")
  case (Some n)
  have "length (json_rune s (Some n)) \<le> 6 * n"
    using rune_width_bounds [OF Some] json_escape_length [of "hd s"] by (simp add: json_rune_def)
  with Some show ?thesis by simp
qed (simp add: json_rune_def)

lemma json_chars_length: "length (json_chars s) \<le> 6 * length s"
proof (induction s rule: json_chars.induct)
  case (1 s)
  show ?case
  proof (cases "s = []")
    case False
    let ?n = "case rune_width s of None \<Rightarrow> 1 | Some n \<Rightarrow> n"
    have "?n \<le> length s" using False rune_width_bounds [of s] by (cases s) (auto split: option.split)
    with 1 [OF False] json_rune_length [OF False] False show ?thesis
      by (subst json_chars.simps) simp
  qed (simp add: json_chars.simps)
qed

lemma json_string_length: "length (json_string s) \<le> 6 * length s + 2"
  using json_chars_length [of s] by (simp add: json_string_def)

section \<open>Unpadded URL base64\<close>

definition base64_char :: "nat \<Rightarrow> char" where
  "base64_char n = (if n < 26 then char_of (65 + n) else if n < 52 then char_of (71 + n)
     else if n < 62 then char_of (n - 4) else if n = 62 then CHR ''-'' else CHR ''_'')"

definition base64_val :: "char \<Rightarrow> nat option" where
  "base64_val c = (let v = byte_val c in
     if 65 \<le> v \<and> v \<le> 90 then Some (v - 65) else if 97 \<le> v \<and> v \<le> 122 then Some (v - 71)
     else if is_digit c then Some (v + 4) else if c = CHR ''-'' then Some 62
     else if c = CHR ''_'' then Some 63 else None)"

fun base64_encode :: "bytes \<Rightarrow> bytes" where
  "base64_encode [] = []"
| "base64_encode [a] = (let x = byte_val a in [base64_char (x div 4), base64_char (x mod 4 * 16)])"
| "base64_encode [a, b] = (let x = byte_val a; y = byte_val b in
     [base64_char (x div 4), base64_char (x mod 4 * 16 + y div 16), base64_char (y mod 16 * 4)])"
| "base64_encode (a # b # c # s) = (let x = byte_val a; y = byte_val b; z = byte_val c in
     [base64_char (x div 4), base64_char (x mod 4 * 16 + y div 16),
      base64_char (y mod 16 * 4 + z div 64), base64_char (z mod 64)] @ base64_encode s)"

text \<open>\<^verbatim>\<open>RawURLEncoding.DecodeString\<close>: it skips CR and LF, and it does not require the unused
  bits of the last character to be zero.\<close>

fun base64_groups :: "nat list \<Rightarrow> bytes option" where
  "base64_groups [] = Some []"
| "base64_groups [p] = None"
| "base64_groups [p, q] = Some [char_of (p * 4 + q div 16)]"
| "base64_groups [p, q, r] = Some [char_of (p * 4 + q div 16), char_of (q mod 16 * 16 + r div 4)]"
| "base64_groups (p # q # r # t # s) =
     map_option ((@) [char_of (p * 4 + q div 16), char_of (q mod 16 * 16 + r div 4), char_of (r mod 4 * 64 + t)])
       (base64_groups s)"

definition base64_decode :: "bytes \<Rightarrow> bytes option" where
  "base64_decode s =
     (let t = filter (\<lambda>c. c \<noteq> CR \<and> c \<noteq> LF) s; vs = map base64_val t in
      if None \<in> set vs then None else base64_groups (map the vs))"

lemma byte_val_less: "byte_val c < 256"
  by (simp add: byte_val_def)

lemma char_of_byte_val [simp]: "char_of (byte_val c) = c"
  by (simp add: byte_val_def)

lemma base64_val_char: "n < 64 \<Longrightarrow> base64_val (base64_char n) = Some n"
  by (auto simp: base64_val_def base64_char_def byte_val_def is_digit_def Let_def)

lemma base64_char_plain: "base64_char n \<noteq> CR \<and> base64_char n \<noteq> LF" if "n < 64"
proof -
  have "base64_val CR = None" "base64_val LF = None"
    by (simp_all add: base64_val_def byte_val_def is_digit_def Let_def)
  with base64_val_char [OF that] show ?thesis by auto
qed

fun base64_values :: "bytes \<Rightarrow> nat list" where
  "base64_values [] = []"
| "base64_values [a] = [byte_val a div 4, byte_val a mod 4 * 16]"
| "base64_values [a, b] = [byte_val a div 4, byte_val a mod 4 * 16 + byte_val b div 16, byte_val b mod 16 * 4]"
| "base64_values (a # b # c # s) = [byte_val a div 4, byte_val a mod 4 * 16 + byte_val b div 16,
     byte_val b mod 16 * 4 + byte_val c div 64, byte_val c mod 64] @ base64_values s"

lemma base64_encode_values: "base64_encode s = map base64_char (base64_values s)"
  by (induction s rule: base64_encode.induct) (simp_all add: Let_def)

lemma base64_values_small: "v \<in> set (base64_values s) \<Longrightarrow> v < 64"
proof (induction s rule: base64_values.induct)
  case (2 a)
  then show ?case using byte_val_less [of a] by auto
next
  case (3 a b)
  then show ?case using byte_val_less [of a] byte_val_less [of b] by auto
next
  case (4 a b c s)
  then show ?case using byte_val_less [of a] byte_val_less [of b] byte_val_less [of c] by auto
qed simp

lemma digits_div_mod: "b < n \<Longrightarrow> (a * n + b) div n = a" "b < n \<Longrightarrow> (a * n + b) mod n = b" for a b n :: nat
  by simp_all

lemma base64_groups_values: "base64_groups (base64_values s) = Some s"
proof (induction s rule: base64_values.induct)
  case (2 a)
  have "byte_val a div 4 * 4 + byte_val a mod 4 * 16 div 16 = byte_val a" by simp
  then show ?case by (simp add: mult.commute)
next
  case (3 a b)
  have "byte_val b div 16 < 16" using byte_val_less [of b] by (simp add: less_mult_imp_div_less)
  from digits_div_mod [OF this, of "byte_val a mod 4"] show ?case by simp
next
  case (4 a b c s)
  have y: "byte_val b div 16 < 16" and z: "byte_val c div 64 < 4"
    using byte_val_less [of b] byte_val_less [of c] by (simp_all add: less_mult_imp_div_less)
  from digits_div_mod [OF y, of "byte_val a mod 4"] digits_div_mod [OF z, of "byte_val b mod 16"] 4
  show ?case by simp
qed simp

text \<open>Decoding gives back what was encoded.\<close>

lemma base64_roundtrip: "base64_decode (base64_encode s) = Some s"
proof -
  have f: "filter (\<lambda>c. c \<noteq> CR \<and> c \<noteq> LF) (base64_encode s) = base64_encode s"
    using base64_values_small base64_char_plain
    by (auto simp: base64_encode_values filter_id_conv)
  have m: "map base64_val (base64_encode s) = map Some (base64_values s)"
    using base64_values_small base64_val_char by (auto simp: base64_encode_values)
  have "None \<notin> set (map Some (base64_values s))" "map the (map Some (base64_values s)) = base64_values s"
    by (auto simp: comp_def)
  then show ?thesis unfolding base64_decode_def Let_def f m by (simp add: base64_groups_values)
qed

lemma base64_encode_length: "length (base64_encode s) = (length s * 8 + 5) div 6"
  by (induction s rule: base64_encode.induct) (simp_all add: Let_def)

section \<open>Runes\<close>

text \<open>\<^verbatim>\<open>strings.Contains\<close>.\<close>

fun contains_bytes :: "bytes \<Rightarrow> bytes \<Rightarrow> bool" where
  "contains_bytes [] sub = (sub = [])"
| "contains_bytes (c # s) sub = (has_prefix (c # s) sub \<or> contains_bytes s sub)"

text \<open>\<^verbatim>\<open>utf8.AppendRune\<close> of a valid rune.\<close>

definition utf8_encode :: "nat \<Rightarrow> bytes" where
  "utf8_encode r =
     (if r < 128 then [char_of r]
      else if r < 2048 then [char_of (192 + r div 64), char_of (128 + r mod 64)]
      else if r < 65536 then
        [char_of (224 + r div 4096), char_of (128 + r div 64 mod 64), char_of (128 + r mod 64)]
      else [char_of (240 + r div 262144), char_of (128 + r div 4096 mod 64), char_of (128 + r div 64 mod 64),
        char_of (128 + r mod 64)])"

definition valid_rune :: "nat \<Rightarrow> bool" where
  "valid_rune r \<longleftrightarrow> r < 55296 \<or> (57344 \<le> r \<and> r \<le> 1114111)"

text \<open>
  \<^verbatim>\<open>strings.ContainsRune(s, r)\<close>. U+FFFD is also what an invalid byte of \<open>s\<close> decodes to; a rune that
  is not valid is never contained.
\<close>

definition contains_rune :: "bytes \<Rightarrow> nat \<Rightarrow> bool" where
  "contains_rune s r =
     (if r = 65533 then \<not> valid_utf8 s \<or> contains_bytes s (utf8_encode r)
      else valid_rune r \<and> contains_bytes s (utf8_encode r))"

text \<open>\<^verbatim>\<open>unicode.IsControl\<close> of the rune at the head: U+0000 to U+001F and U+007F to U+009F.\<close>

definition control_head :: "bytes \<Rightarrow> bool" where
  "control_head s = (case rune_width s of
      Some (Suc 0) \<Rightarrow> byte_val (hd s) < 32 \<or> byte_val (hd s) = 127
    | Some (Suc (Suc 0)) \<Rightarrow> byte_val (hd s) = 194 \<and> byte_val (s ! 1) < 160
    | _ \<Rightarrow> False)"

text \<open>\<open>runes_all P s\<close>: \<open>P\<close> holds of the rest of \<open>s\<close> at every rune, an invalid byte being one rune.\<close>

function runes_all :: "(bytes \<Rightarrow> bool) \<Rightarrow> bytes \<Rightarrow> bool" where
  "runes_all P s = (if s = [] then True
     else P s \<and> runes_all P (drop (case rune_width s of None \<Rightarrow> 1 | Some n \<Rightarrow> n) s))"
  by pat_completeness auto
termination by (relation "measure (\<lambda>(P, s). length s)") (auto dest: rune_width_bounds split: option.splits)

declare runes_all.simps [simp del]

lemma runes_all_Nil [simp]: "runes_all P []"
  by (simp add: runes_all.simps)

lemma runes_all_step: "s \<noteq> [] \<Longrightarrow> runes_all P s \<longleftrightarrow>
    P s \<and> runes_all P (drop (case rune_width s of None \<Rightarrow> 1 | Some n \<Rightarrow> n) s)"
  by (subst runes_all.simps) simp

end
