(* ===== verification/Mail_Types.thy ===== *)
theory Mail_Types
  imports Bridge_Limits Go_Text
begin

text \<open>
  The values of \<^verbatim>\<open>bridge/types.go\<close>, \<^verbatim>\<open>bridge/folders.go\<close> and \<^verbatim>\<open>bridge/search.go\<close> that the adapter and
  its sessions exchange. Strings are byte strings, times and lengths integers, UIDs 32-bit words.
\<close>

record mailboxSnapshot =
  UIDNext :: uint32
  UIDValidity :: uint32

record SearchQuery =
  sq_Mailbox :: bytes
  sq_Since :: int
  sq_Before :: int
  sq_Sender :: bytes
  sq_Subject :: bytes
  sq_Unread :: bool

datatype DateSource = DateSourceUnknown | DateSourceHeader

datatype ReadState = ReadStateUnknown | ReadStateUnread | ReadStateRead

definition DateSource_text :: "DateSource \<Rightarrow> bytes" where
  "DateSource_text s = (if s = DateSourceHeader then ''header'' else ''unknown'')"

definition ReadState_text :: "ReadState \<Rightarrow> bytes" where
  "ReadState_text s = (case s of ReadStateUnread \<Rightarrow> ''unread'' | ReadStateRead \<Rightarrow> ''read'' | _ \<Rightarrow> ''unknown'')"

text \<open>Constants of \<^verbatim>\<open>bridge/bounds.go\<close>.\<close>

abbreviation maxMailboxNameBytes :: nat where "maxMailboxNameBytes \<equiv> 512"
abbreviation maxSearchTermBytes :: nat where "maxSearchTermBytes \<equiv> 1024"

text \<open>\<open>m_uid\<close> is the unexported field the FETCH filled in.\<close>

record MessageMetadata =
  m_ID :: bytes
  m_Mailbox :: bytes
  m_UIDValidity :: uint32
  m_UID :: uint32
  m_Subject :: bytes
  m_Size :: int
  m_From :: bytes
  m_Date :: bytes
  m_DateSource :: DateSource
  m_ReadState :: ReadState
  m_MetadataTruncated :: bool
  m_uid :: uint32

section \<open>Normalized messages\<close>

text \<open>The limits that affected a result.\<close>

record Truncation =
  t_Headers :: bool
  t_HeaderCount :: bool
  t_Text :: bool
  t_MIMEParts :: bool
  t_MIMEDepth :: bool
  t_Attachments :: bool
  t_References :: bool
  t_ThreadCycle :: bool
  t_ThreadDepth :: bool
  t_ThreadMessages :: bool

definition noTruncation :: Truncation where
  "noTruncation = \<lparr>t_Headers = False, t_HeaderCount = False, t_Text = False, t_MIMEParts = False,
     t_MIMEDepth = False, t_Attachments = False, t_References = False, t_ThreadCycle = False,
     t_ThreadDepth = False, t_ThreadMessages = False\<rparr>"

definition truncation_Any :: "Truncation \<Rightarrow> bool" where
  "truncation_Any t \<longleftrightarrow> t_Headers t \<or> t_HeaderCount t \<or> t_Text t \<or> t_MIMEParts t \<or> t_MIMEDepth t \<or>
     t_Attachments t \<or> t_References t \<or> t_ThreadCycle t \<or> t_ThreadDepth t \<or> t_ThreadMessages t"

record CanonicalHeaders =
  h_Date :: bytes
  h_From :: bytes
  h_To :: bytes
  h_Subject :: bytes
  h_MessageID :: bytes
  h_InReplyTo :: bytes
  h_References :: "bytes list"

definition noHeaders :: CanonicalHeaders where
  "noHeaders = \<lparr>h_Date = [], h_From = [], h_To = [], h_Subject = [], h_MessageID = [],
     h_InReplyTo = [], h_References = []\<rparr>"

record MessageHeaders =
  mh_Metadata :: MessageMetadata
  mh_Headers :: CanonicalHeaders
  mh_Truncation :: Truncation

record AttachmentMetadata =
  a_Filename :: bytes
  a_ContentType :: bytes
  a_Disposition :: bytes
  a_DeclaredSize :: int
  a_HasDeclaredSize :: bool

datatype TextSource = TextSourceNone | TextSourcePlain | TextSourceHTML

record NormalizedMessage =
  n_Headers :: CanonicalHeaders
  n_Text :: bytes
  n_TextSource :: TextSource
  n_Attachments :: "AttachmentMetadata list"
  n_Truncation :: Truncation

section \<open>Mailboxes\<close>

record listedMailbox =
  mb_Name :: bytes
  mb_Delimiter :: nat
  mb_Attributes :: "bytes list"

record Folder =
  f_Name :: bytes
  f_Delimiter :: bytes

record MailboxStatus =
  st_Messages :: int
  st_UIDNext :: uint32
  st_UIDValidity :: uint32
  st_Unseen :: int

end
