(* ===== verification/Bridge_Session.thy ===== *)
theory Bridge_Session
  imports Search_Session Mail_Types
begin

text \<open>
  The Mail adapter (\<^verbatim>\<open>bridge/bridge.go\<close>): one retained IMAP session, opened on demand,
  dropped after an error that makes it untrustworthy, and one replay of a read operation on
  a dead session. Also the interface of a session: \<^verbatim>\<open>readSession\<close>, \<^verbatim>\<open>headerSession\<close>,
  \<^verbatim>\<open>seenSession\<close> and \<^verbatim>\<open>moveSession\<close> of \<^verbatim>\<open>bridge/imapclient.go\<close>.

  Everything outside the adapter (server, network, clock) is one world of type \<open>'w\<close> that each
  call passes on. A session is a handle; \<open>op_view\<close> is what the operation's context shows.
\<close>

section \<open>Sessions\<close>

record 'w session_env =
  op_view :: "'w \<Rightarrow> ctx_view"
  open_session :: "'w \<Rightarrow> (go_error + nat) \<times> 'w"
  abort_session :: "nat \<Rightarrow> 'w \<Rightarrow> 'w"
  logout_session :: "nat \<Rightarrow> 'w \<Rightarrow> go_error option \<times> 'w"
  examine :: "nat \<Rightarrow> bytes \<Rightarrow> 'w \<Rightarrow> (go_error + mailboxSnapshot) \<times> 'w"
  search_window :: "nat \<Rightarrow> SearchQuery \<Rightarrow> uidWindow \<Rightarrow> int \<Rightarrow> 'w \<Rightarrow> (go_error + uint32 list) \<times> 'w"
  fetch_metadata :: "nat \<Rightarrow> bytes \<Rightarrow> uint32 list \<Rightarrow> int \<Rightarrow> 'w \<Rightarrow> (go_error + MessageMetadata list) \<times> 'w"
  fetch_body :: "nat \<Rightarrow> uint32 \<Rightarrow> int \<Rightarrow> 'w \<Rightarrow> (go_error + bytes) \<times> 'w"
  list_folders :: "nat \<Rightarrow> int \<Rightarrow> 'w \<Rightarrow> (go_error + Folder list) \<times> 'w"
  status_mailbox :: "nat \<Rightarrow> bytes \<Rightarrow> 'w \<Rightarrow> (go_error + MailboxStatus) \<times> 'w"
  is_header_session :: "nat \<Rightarrow> bool"
  fetch_headers :: "nat \<Rightarrow> uint32 \<Rightarrow> int \<Rightarrow> 'w \<Rightarrow> (go_error + MessageHeaders) \<times> 'w"
  is_seen_session :: "nat \<Rightarrow> bool"
  is_move_session :: "nat \<Rightarrow> bool"
  select_source :: "nat \<Rightarrow> bytes \<Rightarrow> 'w \<Rightarrow> (go_error + mailboxSnapshot) \<times> 'w"
  store_seen :: "nat \<Rightarrow> uint32 \<Rightarrow> bool \<Rightarrow> 'w \<Rightarrow> go_error option \<times> 'w"
  supports_move :: "nat \<Rightarrow> 'w \<Rightarrow> bool"
  list_mailboxes :: "nat \<Rightarrow> bytes \<Rightarrow> int \<Rightarrow> 'w \<Rightarrow> (go_error + listedMailbox list) \<times> 'w"
  move_uid :: "nat \<Rightarrow> uint32 \<Rightarrow> bytes \<Rightarrow> 'w \<Rightarrow> go_error option \<times> 'w"

section \<open>Operations on a session\<close>

type_synonym ('w, 'a) op = "'w \<Rightarrow> (go_error + 'a) \<times> 'w"

definition return_op :: "'a \<Rightarrow> ('w, 'a) op" where
  "return_op x w = (Inr x, w)"

definition fail_op :: "code \<Rightarrow> ('w, 'a) op" where
  "fail_op c w = (Inl (BridgeError c), w)"

definition bind_op :: "('w, 'a) op \<Rightarrow> ('a \<Rightarrow> ('w, 'b) op) \<Rightarrow> ('w, 'b) op" where
  "bind_op m f w = (case m w of (Inl e, w') \<Rightarrow> (Inl e, w') | (Inr x, w') \<Rightarrow> f x w')"

text \<open>A check that needs no call on the session.\<close>

definition check_op :: "code + 'a \<Rightarrow> ('w, 'a) op" where
  "check_op r w = (case r of Inl c \<Rightarrow> (Inl (BridgeError c), w) | Inr x \<Rightarrow> (Inr x, w))"

named_theorems op_simps

lemma op_simps_basic [op_simps]:
  "return_op x w = (Inr x, w)" "fail_op c w = (Inl (BridgeError c), w)"
  "check_op (Inl c) w = (Inl (BridgeError c), w)" "check_op (Inr x) w = (Inr x, w)"
  by (simp_all add: return_op_def fail_op_def check_op_def)

lemma bind_op_Inr [op_simps]:
  "bind_op m f w = (Inr y, w') \<longleftrightarrow> (\<exists>x w1. m w = (Inr x, w1) \<and> f x w1 = (Inr y, w'))"
  by (auto simp: bind_op_def split: prod.splits sum.splits)

lemma bind_op_return: "bind_op (return_op x) f = f x"
  by (rule ext) (simp add: bind_op_def return_op_def)

lemma bind_op_assoc: "bind_op (bind_op m f) g = bind_op m (\<lambda>x. bind_op (f x) g)"
  by (rule ext) (simp add: bind_op_def split: prod.split sum.split)

section \<open>The adapter\<close>

record adapter =
  session :: "nat option"
  closed :: bool

type_synonym 'w adapter_state = "adapter \<times> 'w"

definition newAdapter :: adapter where
  "newAdapter = \<lparr>session = None, closed = False\<rparr>"

definition sessionForOperation :: "'w session_env \<Rightarrow> 'w adapter_state \<Rightarrow> (go_error + nat) \<times> 'w adapter_state" where
  "sessionForOperation env st = (case st of (a, w) \<Rightarrow>
     if closed a then (Inl (BridgeError CodeAdapterClosed), (a, w))
     else (case session a of
         Some s \<Rightarrow> (Inr s, (a, w))
       | None \<Rightarrow> (case open_session env w of
           (Inl e, w') \<Rightarrow> (Inl e, (a, w'))
         | (Inr s, w') \<Rightarrow> (Inr s, (a\<lparr>session := Some s\<rparr>, w')))))"

definition canReplay :: "'w session_env \<Rightarrow> 'w \<Rightarrow> go_error \<Rightarrow> bool" where
  "canReplay env w e \<longleftrightarrow> ctx_Err (op_view env w) = None \<and> CodeOf e = Some CodeBridgeUnreachable"

definition invalidatesSession :: "go_error \<Rightarrow> bool" where
  "invalidatesSession e \<longleftrightarrow> CodeOf e \<in> Some ` {CodeBridgeUnreachable, CodeCommandTimedOut,
     CodeOperationCanceled, CodeBoundsExceeded, CodeIMAPProtocol}"

definition invalidate :: "'w session_env \<Rightarrow> nat \<Rightarrow> 'w adapter_state \<Rightarrow> 'w adapter_state" where
  "invalidate env s st = (case st of (a, w) \<Rightarrow>
     if session a = Some s then (a\<lparr>session := None\<rparr>, abort_session env s w) else (a, w))"

text \<open>\<^verbatim>\<open>mapIMAPError(operationContext, err)\<close> for an error that is not nil.\<close>

definition mapped :: "'w session_env \<Rightarrow> 'w \<Rightarrow> go_error \<Rightarrow> go_error" where
  "mapped env w e = BridgeError (the (mapIMAPError (Some (op_view env w)) (Some e)))"

text \<open>
  The loop of \<^verbatim>\<open>execute\<close>: \<open>left\<close> is the number of attempts left, two at the start, so that
  \<^verbatim>\<open>attempt == 0\<close> is \<open>left = 2\<close>.
\<close>

fun attempts :: "'w session_env \<Rightarrow> (nat \<Rightarrow> ('w, 'r) op) \<Rightarrow> nat \<Rightarrow> 'w adapter_state \<Rightarrow>
    (go_error + 'r) \<times> 'w adapter_state" where
  "attempts env operation 0 st = (Inl (BridgeError CodeBridgeUnreachable), st)"
| "attempts env operation (Suc left) st =
     (case sessionForOperation env st of
        (Inl e, (a, w)) \<Rightarrow>
          (let e' = mapped env w e in
           if left = 1 \<and> canReplay env w e' then attempts env operation left (a, w)
           else (Inl e', (a, w)))
      | (Inr s, (a, w)) \<Rightarrow>
          (case operation s w of
             (Inr r, w') \<Rightarrow> (Inr r, (a, w'))
           | (Inl e, w') \<Rightarrow>
               if left = 1 \<and> canReplay env w' e
               then attempts env operation left (invalidate env s (a, w'))
               else (Inl e, if invalidatesSession e then invalidate env s (a, w') else (a, w'))))"

text \<open>\<^verbatim>\<open>execute\<close>; \<open>acquired\<close> is the outcome of \<^verbatim>\<open>acquire\<close>: the gate, or the error of a context that
  was done first.\<close>

definition execute :: "'w session_env \<Rightarrow> go_error option \<Rightarrow> (nat \<Rightarrow> ('w, 'r) op) \<Rightarrow> 'w adapter_state \<Rightarrow>
    (go_error + 'r) \<times> 'w adapter_state" where
  "execute env acquired operation st = (case acquired of
      Some e \<Rightarrow> (Inl e, st)
    | None \<Rightarrow> attempts env operation 2 st)"

definition Close :: "'w session_env \<Rightarrow> go_error option \<Rightarrow> 'w adapter_state \<Rightarrow> go_error option \<times> 'w adapter_state" where
  "Close env acquired st = (case acquired of
      Some e \<Rightarrow> (Some e, st)
    | None \<Rightarrow> (case st of (a, w) \<Rightarrow>
        if closed a then (None, st)
        else (case session a of
            None \<Rightarrow> (None, (a\<lparr>closed := True\<rparr>, w))
          | Some s \<Rightarrow> (case logout_session env s w of
              (e, w') \<Rightarrow> (e, (a\<lparr>closed := True, session := None\<rparr>, w'))))))"

section \<open>Properties of the adapter\<close>

lemma two_attempts:
  "attempts env operation 2 st =
     (case sessionForOperation env st of
        (Inl e, (a, w)) \<Rightarrow>
          (let e' = mapped env w e in
           if canReplay env w e' then attempts env operation (Suc 0) (a, w) else (Inl e', (a, w)))
      | (Inr s, (a, w)) \<Rightarrow>
          (case operation s w of
             (Inr r, w') \<Rightarrow> (Inr r, (a, w'))
           | (Inl e, w') \<Rightarrow>
               if canReplay env w' e then attempts env operation (Suc 0) (invalidate env s (a, w'))
               else (Inl e, if invalidatesSession e then invalidate env s (a, w') else (a, w'))))"
  by (simp only: numeral_2_eq_2 attempts.simps One_nat_def simp_thms)

text \<open>
  What is ever done to the world: \<open>I j k w\<close> says that \<open>j\<close> sessions have been opened and \<open>k\<close>
  operations started.
\<close>

definition counts_calls :: "'w session_env \<Rightarrow> (nat \<Rightarrow> ('w, 'r) op) \<Rightarrow> (nat \<Rightarrow> nat \<Rightarrow> 'w \<Rightarrow> bool) \<Rightarrow> bool" where
  "counts_calls env operation I \<longleftrightarrow>
     (\<forall>j k w. I j k w \<longrightarrow> I (j + 1) k (snd (open_session env w))) \<and>
     (\<forall>j k w s. I j k w \<longrightarrow> I j (k + 1) (snd (operation s w))) \<and>
     (\<forall>j k w s. I j k w \<longrightarrow> I j k (abort_session env s w))"

text \<open>At most \<open>j\<close> sessions opened and at most \<open>k\<close> operations started.\<close>

definition at_most :: "(nat \<Rightarrow> nat \<Rightarrow> 'w \<Rightarrow> bool) \<Rightarrow> nat \<Rightarrow> nat \<Rightarrow> 'w \<Rightarrow> bool" where
  "at_most I j k w \<longleftrightarrow> (\<exists>j' \<le> j. \<exists>k' \<le> k. I j' k' w)"

lemma at_most_open: "counts_calls env operation I \<Longrightarrow> at_most I j k w \<Longrightarrow> at_most I (j + 1) k (snd (open_session env w))"
  unfolding at_most_def counts_calls_def by (metis add_le_mono1)

lemma at_most_operation: "counts_calls env operation I \<Longrightarrow> at_most I j k w \<Longrightarrow> at_most I j (k + 1) (snd (operation s w))"
  unfolding at_most_def counts_calls_def by (metis add_le_mono1)

lemma at_most_invalidate:
  "counts_calls env operation I \<Longrightarrow> at_most I j k w \<Longrightarrow> at_most I j k (snd (invalidate env s (a, w)))"
  by (simp add: at_most_def counts_calls_def invalidate_def) blast

lemma at_most_mono: "at_most I j k w \<Longrightarrow> j \<le> j' \<Longrightarrow> k \<le> k' \<Longrightarrow> at_most I j' k' w"
  unfolding at_most_def by (meson order_trans)

lemma at_most_session:
  assumes c: "counts_calls env operation I" and i: "at_most I j k w"
    and s: "sessionForOperation env (a, w) = (r, (a', w'))"
  shows "at_most I (j + 1) k w'"
proof (cases "closed a \<or> session a \<noteq> None")
  case True
  with s have "w' = w" by (auto simp: sessionForOperation_def split: option.splits if_splits)
  with i show ?thesis by (auto intro: at_most_mono)
next
  case False
  obtain r0 w0 where o: "open_session env w = (r0, w0)" by (cases "open_session env w")
  with False s have "w' = w0" by (simp add: sessionForOperation_def split: sum.splits)
  with at_most_open [OF c i] o show ?thesis by simp
qed

lemma last_attempt_at_most:
  assumes c: "counts_calls env operation I" and i: "at_most I j k w"
  shows "at_most I (j + 1) (k + 1) (snd (snd (attempts env operation (Suc 0) (a, w))))"
proof -
  obtain r a1 w1 where s: "sessionForOperation env (a, w) = (r, (a1, w1))" by (metis surj_pair)
  note i1 = at_most_session [OF c i s]
  show ?thesis
  proof (cases r)
    case (Inl e)
    with s at_most_mono [OF i1, of "j + 1" "k + 1"] show ?thesis by (simp add: Let_def)
  next
    case (Inr x)
    obtain r2 w2 where o: "operation x w1 = (r2, w2)" by (cases "operation x w1")
    from at_most_operation [OF c i1, of x] o have i2: "at_most I (j + 1) (k + 1) w2" by simp
    from i2 at_most_invalidate [OF c i2, of x a1] s Inr o show ?thesis by (cases r2) simp_all
  qed
qed

lemma attempts_at_most:
  assumes c: "counts_calls env operation I" and i: "at_most I j k w"
  shows "at_most I (j + 2) (k + 2) (snd (snd (attempts env operation 2 (a, w))))"
proof -
  obtain r a1 w1 where s: "sessionForOperation env (a, w) = (r, (a1, w1))" by (metis surj_pair)
  note i1 = at_most_session [OF c i s]
  show ?thesis
  proof (cases r)
    case (Inl e)
    have "at_most I (j + 1 + 1) (k + 1) (snd (snd (attempts env operation (Suc 0) (a1, w1))))"
      by (rule last_attempt_at_most [OF c i1])
    then have "at_most I (j + 2) (k + 2) (snd (snd (attempts env operation (Suc 0) (a1, w1))))"
      by (rule at_most_mono) simp_all
    with at_most_mono [OF i1, of "j + 2" "k + 2"] s Inl show ?thesis
      unfolding two_attempts by (simp del: attempts.simps add: Let_def)
  next
    case (Inr x)
    obtain r2 w2 where o: "operation x w1 = (r2, w2)" by (cases "operation x w1")
    from at_most_operation [OF c i1, of x] o have i2: "at_most I (j + 1) (k + 1) w2" by simp
    obtain a3 w3 where inv: "invalidate env x (a1, w2) = (a3, w3)" by (cases "invalidate env x (a1, w2)")
    from at_most_invalidate [OF c i2, of x a1] inv have i3: "at_most I (j + 1) (k + 1) w3" by simp
    have "at_most I (j + 1 + 1) (k + 1 + 1) (snd (snd (attempts env operation (Suc 0) (a3, w3))))"
      by (rule last_attempt_at_most [OF c i3])
    then have "at_most I (j + 2) (k + 2) (snd (snd (attempts env operation (Suc 0) (a3, w3))))"
      by (rule at_most_mono) simp_all
    with at_most_mono [OF i2, of "j + 2" "k + 2"] at_most_mono [OF i3, of "j + 2" "k + 2"] s Inr o inv
    show ?thesis unfolding two_attempts by (cases r2) (simp_all del: attempts.simps)
  qed
qed

subsection \<open>The retained session\<close>

lemma invalidate_session:
  "session (fst (invalidate env s (a, w))) = (if session a = Some s then None else session a)"
  "closed (fst (invalidate env s (a, w))) = closed a"
  by (simp_all add: invalidate_def)

lemma sessionForOperation_Inl:
  "sessionForOperation env (a, w) = (Inl e, (a', w')) \<Longrightarrow> a' = a \<and> (closed a \<or> session a = None)"
  by (auto simp: sessionForOperation_def split: if_splits option.splits prod.splits sum.splits)

lemma sessionForOperation_Inr:
  "sessionForOperation env (a, w) = (Inr s, (a', w')) \<Longrightarrow> session a' = Some s \<and> \<not> closed a \<and> closed a' = closed a"
  by (auto simp: sessionForOperation_def split: if_splits option.splits prod.splits sum.splits)

definition retained_ok :: "(go_error + 'r) \<times> 'w adapter_state \<Rightarrow> bool" where
  "retained_ok res \<longleftrightarrow> (case res of (r, (a, w)) \<Rightarrow> \<not> closed a \<longrightarrow> (case r of
      Inl e \<Rightarrow> invalidatesSession e \<longrightarrow> session a = None
    | Inr x \<Rightarrow> session a \<noteq> None))"

lemma retained_step:
  assumes "sessionForOperation env (a, w) = (Inr s, (a1, w1))" "operation s w1 = (r, w2)"
  shows "retained_ok (case r of Inr x \<Rightarrow> (Inr x, (a1, w2))
    | Inl e \<Rightarrow> (Inl e, if invalidatesSession e then invalidate env s (a1, w2) else (a1, w2)))"
proof (cases r)
  case (Inl e)
  obtain a3 w3 where inv: "invalidate env s (a1, w2) = (a3, w3)" by (cases "invalidate env s (a1, w2)")
  with invalidate_session [of env s a1 w2] sessionForOperation_Inr [OF assms(1)] Inl
  show ?thesis by (simp add: retained_ok_def)
qed (use sessionForOperation_Inr [OF assms(1)] in \<open>simp add: retained_ok_def\<close>)

lemma retained_open_failed:
  "sessionForOperation env (a, w) = (Inl e, (a1, w1)) \<Longrightarrow> retained_ok (Inl e', (a1, w1))"
  using sessionForOperation_Inl [of env a w e a1 w1] by (auto simp: retained_ok_def)

lemma retained_last: "retained_ok (attempts env operation (Suc 0) (a, w))"
proof -
  obtain r a1 w1 where s: "sessionForOperation env (a, w) = (r, (a1, w1))" by (metis surj_pair)
  show ?thesis
  proof (cases r)
    case (Inl e)
    with s show ?thesis by (simp add: Let_def retained_open_failed [OF s [unfolded Inl]])
  next
    case (Inr x)
    obtain r2 w2 where o: "operation x w1 = (r2, w2)" by (cases "operation x w1")
    from retained_step [OF s [unfolded Inr], where operation = operation, OF o] s Inr o show ?thesis by (cases r2) simp_all
  qed
qed

lemma retained_two: "retained_ok (attempts env operation 2 (a, w))"
proof -
  obtain r a1 w1 where s: "sessionForOperation env (a, w) = (r, (a1, w1))" by (metis surj_pair)
  show ?thesis
  proof (cases r)
    case (Inl e)
    with s retained_last [of env operation a1 w1] show ?thesis
      unfolding two_attempts
      by (simp del: attempts.simps add: Let_def retained_open_failed [OF s [unfolded Inl]])
  next
    case (Inr x)
    obtain r2 w2 where o: "operation x w1 = (r2, w2)" by (cases "operation x w1")
    obtain a3 w3 where inv: "invalidate env x (a1, w2) = (a3, w3)" by (cases "invalidate env x (a1, w2)")
    from retained_step [OF s [unfolded Inr], where operation = operation, OF o] s Inr o inv retained_last [of env operation a3 w3] show ?thesis
      unfolding two_attempts by (cases r2) (simp_all del: attempts.simps)
  qed
qed

text \<open>
  An operation is attempted at most twice and at most two sessions are opened for it,
  whatever fails: every count \<open>I j k\<close> of opened sessions and started operations that opening
  and starting raise by one, and aborting leaves alone, ends at most two higher.
\<close>

theorem execute_at_most_twice:
  assumes "counts_calls env operation I" "I j k w"
  shows "\<exists>j' \<le> j + 2. \<exists>k' \<le> k + 2. I j' k' (snd (snd (execute env acquired operation (a, w))))"
proof (cases acquired)
  case None
  have "at_most I j k w" using assms(2) by (auto simp: at_most_def)
  from attempts_at_most [OF assms(1) this, of a] None show ?thesis
    by (simp del: attempts.simps add: execute_def at_most_def)
next
  case (Some e)
  have "at_most I (j + 2) (k + 2) w"
    by (rule at_most_mono [of I j k]) (use assms(2) in \<open>auto simp: at_most_def\<close>)
  with Some show ?thesis by (simp add: execute_def at_most_def)
qed

text \<open>
  C7. The retained session is trustworthy: after an operation that succeeded one is retained,
  and after one that ended in an error of the invalidating class (unreachable, timed out,
  canceled, bounds exceeded, protocol) none is.
\<close>

theorem execute_retains_trusted:
  assumes "execute env None operation (a, w) = (r, (a', w'))" "\<not> closed a'"
  shows "case r of Inl e \<Rightarrow> invalidatesSession e \<longrightarrow> session a' = None | Inr x \<Rightarrow> session a' \<noteq> None"
  using retained_two [of env operation a w] assms
  by (simp del: attempts.simps add: execute_def retained_ok_def)

text \<open>
  A closed adapter stays closed and does nothing: \<^verbatim>\<open>execute\<close> fails with the closed code,
  opens no session and starts no operation, and \<^verbatim>\<open>Close\<close> changes nothing.
\<close>

theorem closed_adapter_inert:
  assumes "closed a" "op_view env w = live_ctx"
  shows "execute env None operation (a, w) = (Inl (BridgeError CodeAdapterClosed), (a, w)) \<and>
    Close env None (a, w) = (None, (a, w))"
  using assms
  by (simp del: attempts.simps add: execute_def two_attempts sessionForOperation_def Close_def mapped_def
      canReplay_def Let_def)

section \<open>A sample world\<close>

text \<open>
  A world of two counters, of sessions opened and of operations started, whose sessions answer
  every command with a dead connection.
\<close>

definition counting_env :: "(nat \<times> nat) session_env" where
  "counting_env = \<lparr>op_view = (\<lambda>w. live_ctx), open_session = (\<lambda>(j, k). (Inr j, (j + 1, k))),
     abort_session = (\<lambda>s w. w), logout_session = (\<lambda>s w. (None, w)),
     examine = (\<lambda>s m w. (Inl EOF_Error, w)), search_window = (\<lambda>s q u n w. (Inl EOF_Error, w)),
     fetch_metadata = (\<lambda>s m u n w. (Inl EOF_Error, w)), fetch_body = (\<lambda>s u n w. (Inl EOF_Error, w)),
     list_folders = (\<lambda>s n w. (Inl EOF_Error, w)), status_mailbox = (\<lambda>s m w. (Inl EOF_Error, w)),
     is_header_session = (\<lambda>s. True), fetch_headers = (\<lambda>s u n w. (Inl EOF_Error, w)),
     is_seen_session = (\<lambda>s. True), is_move_session = (\<lambda>s. True),
     select_source = (\<lambda>s m w. (Inl EOF_Error, w)), store_seen = (\<lambda>s u b w. (Some EOF_Error, w)),
     supports_move = (\<lambda>s w. True), list_mailboxes = (\<lambda>s p n w. (Inl EOF_Error, w)),
     move_uid = (\<lambda>s u d w. (Some EOF_Error, w))\<rparr>"

definition dead_operation :: "nat \<Rightarrow> (nat \<times> nat, nat) op" where
  "dead_operation s w = (Inl (BridgeError CodeBridgeUnreachable), (fst w, snd w + 1))"

theorem execute_at_most_twice_witness:
  "snd (snd (execute counting_env None dead_operation (newAdapter, (0, 0)))) = (2, 2) \<and>
   (\<exists>j' \<le> 2. \<exists>k' \<le> 2. (j', k') = snd (snd (execute counting_env None dead_operation (newAdapter, (0, 0)))))"
proof -
  have "counts_calls counting_env dead_operation (\<lambda>j k w. (j, k) = w)"
    by (auto simp: counts_calls_def counting_env_def dead_operation_def)
  note bound = execute_at_most_twice [OF this, of 0 0 "(0, 0)" None newAdapter]
  have "snd (snd (execute counting_env None dead_operation (newAdapter, (0, 0)))) = (2, 2)" by code_simp
  with bound show ?thesis by simp
qed

theorem execute_retains_trusted_witness:
  "\<exists>a' w'. execute counting_env None dead_operation (newAdapter, (0, 0)) =
       (Inl (BridgeError CodeBridgeUnreachable), (a', w')) \<and> session a' = None"
proof -
  have e: "execute counting_env None dead_operation (newAdapter, (0, 0)) =
      (Inl (BridgeError CodeBridgeUnreachable), (\<lparr>session = None, closed = False\<rparr>, (2, 2)))" by code_simp
  from execute_retains_trusted [OF e] e show ?thesis by (simp add: invalidatesSession_def)
qed

theorem closed_adapter_inert_witness:
  "execute counting_env None dead_operation (newAdapter\<lparr>closed := True\<rparr>, (0, 0)) =
     (Inl (BridgeError CodeAdapterClosed), (newAdapter\<lparr>closed := True\<rparr>, (0, 0)))"
  using closed_adapter_inert [of "newAdapter\<lparr>closed := True\<rparr>" counting_env "(0, 0)" dead_operation]
  by (simp add: counting_env_def)

end
