(* ===== verification/Message_IDs.thy ===== *)
theory Message_IDs
  imports Bridge_Session
begin

text \<open>
  The opaque message identifiers of \<^verbatim>\<open>bridge/search.go\<close>: a JSON payload that binds mailbox,
  UIDVALIDITY and UID, followed by its HMAC-SHA-256 under the adapter's random key, in
  unpadded URL base64. The MAC is a parameter of 32 bytes output; so is the JSON decoder,
  which is only ever applied to a payload whose MAC was verified.
\<close>

record messageIDPayload =
  p_Mailbox :: bytes
  p_UIDValidity :: uint32
  p_UID :: uint32

definition marshal_payload :: "messageIDPayload \<Rightarrow> bytes" where
  "marshal_payload p = ''{'' @ json_string ''m'' @ '':'' @ json_string (p_Mailbox p) @ '','' @
     json_string ''v'' @ '':'' @ format_uint (unat (p_UIDValidity p)) @ '','' @
     json_string ''u'' @ '':'' @ format_uint (unat (p_UID p)) @ ''}''"

definition complete_payload :: "messageIDPayload \<Rightarrow> bool" where
  "complete_payload p \<longleftrightarrow> p_Mailbox p \<noteq> [] \<and> p_UIDValidity p \<noteq> 0 \<and> p_UID p \<noteq> 0"

definition encodeMessageID :: "(bytes \<Rightarrow> bytes) \<Rightarrow> messageIDPayload \<Rightarrow> code + bytes" where
  "encodeMessageID mac p =
     (if \<not> complete_payload p then Inl CodeIMAPProtocol
      else (let encoded = marshal_payload p in
        if length encoded + 32 > 1024 then Inl CodeBoundsExceeded
        else (let v = base64_encode (encoded @ mac encoded) in
          if length v > 1366 then Inl CodeBoundsExceeded else Inr v)))"

definition decodeMessageID ::
    "(bytes \<Rightarrow> bytes) \<Rightarrow> (bytes \<Rightarrow> messageIDPayload option) \<Rightarrow> bytes \<Rightarrow> code + messageIDPayload" where
  "decodeMessageID mac unmarshal v =
     (if length v > 1366 then Inl CodeStaleMessageID
      else (case base64_decode v of
          None \<Rightarrow> Inl CodeStaleMessageID
        | Some decoded \<Rightarrow>
            if length decoded \<le> 32 \<or> length decoded > 1024 then Inl CodeStaleMessageID
            else (let payload = take (length decoded - 32) decoded in
              if drop (length payload) decoded \<noteq> mac payload then Inl CodeStaleMessageID
              else (case unmarshal payload of
                  None \<Rightarrow> Inl CodeStaleMessageID
                | Some p \<Rightarrow> if complete_payload p then Inr p else Inl CodeStaleMessageID))))"

text \<open>The size checks of the two directions agree: an identifier is never too long to be read.\<close>

lemma encodeMessageID_Inr:
  assumes "encodeMessageID mac p = Inr v"
  shows "complete_payload p \<and> length (marshal_payload p) + 32 \<le> 1024 \<and>
    v = base64_encode (marshal_payload p @ mac (marshal_payload p)) \<and> length v \<le> 1366"
  using assms by (simp add: encodeMessageID_def Let_def split: if_splits)

lemma encodeMessageID_bounds:
  assumes "\<And>m. length (mac m) = 32" "complete_payload p"
  shows "encodeMessageID mac p = (if length (marshal_payload p) \<le> 992
    then Inr (base64_encode (marshal_payload p @ mac (marshal_payload p))) else Inl CodeBoundsExceeded)"
proof -
  have "\<not> 1366 < (261 + length (marshal_payload p) * 8) div 6" if "length (marshal_payload p) \<le> 992"
    using that by linarith
  with assms show ?thesis by (auto simp add: encodeMessageID_def Let_def base64_encode_length)
qed

lemma decode_encodeMessageID:
  assumes "encodeMessageID mac p = Inr v" "\<And>m. length (mac m) = 32" "unmarshal (marshal_payload p) = Some p"
  shows "decodeMessageID mac unmarshal v = Inr p"
proof -
  have "marshal_payload p \<noteq> []" by (simp add: marshal_payload_def)
  with encodeMessageID_Inr [OF assms(1)] assms(2,3) show ?thesis
    by (auto simp: decodeMessageID_def base64_roundtrip base64_encode_length Let_def)
qed

text \<open>
  C11. An identifier resolves to exactly what was bound into it: decoding what the adapter
  encoded gives back the mailbox, UIDVALIDITY and UID, for every name the JSON decoder reads
  back; and the second size check of the encoder never fails.
\<close>

theorem messageID_roundtrip:
  assumes "\<And>m. length (mac m) = 32" "unmarshal (marshal_payload p) = Some p"
    "complete_payload p" "length (marshal_payload p) \<le> 992"
  shows "\<exists>v. encodeMessageID mac p = Inr v \<and> decodeMessageID mac unmarshal v = Inr p"
proof -
  let ?v = "base64_encode (marshal_payload p @ mac (marshal_payload p))"
  have e: "encodeMessageID mac p = Inr ?v" using assms by (simp add: encodeMessageID_bounds)
  from e decode_encodeMessageID [of mac p ?v unmarshal, OF e assms(1,2)] show ?thesis by blast
qed

text \<open>
  C12. Only authenticated payloads resolve: whatever string is presented, if it decodes to a
  payload then its last 32 bytes are the MAC of the bytes before them, the payload was
  parsed from those bytes and is complete; every refusal is the stale identifier code.
\<close>

theorem messageID_authenticated:
  "case decodeMessageID mac unmarshal v of
     Inl c \<Rightarrow> c = CodeStaleMessageID
   | Inr p \<Rightarrow> complete_payload p \<and> (\<exists>m t. base64_decode v = Some (m @ t) \<and> length t = 32 \<and> t = mac m \<and>
       unmarshal m = Some p)"
proof (cases "decodeMessageID mac unmarshal v")
  case (Inl c)
  then show ?thesis
    by (auto simp: decodeMessageID_def Let_def split: if_splits option.splits)
next
  case (Inr p)
  then obtain d where d: "base64_decode v = Some d" "32 < length d"
    "drop (length d - 32) d = mac (take (length d - 32) d)"
    "unmarshal (take (length d - 32) d) = Some p" "complete_payload p"
    by (auto simp: decodeMessageID_def Let_def split: if_splits option.splits)
  have "length (drop (length d - 32) d) = 32" using d(2) by simp
  with d Inr show ?thesis
    by simp (metis append_take_drop_id)
qed

subsection \<open>Witnesses\<close>

definition sample_mac :: "bytes \<Rightarrow> bytes" where
  "sample_mac m = take 32 (m @ replicate 32 (CHR ''k''))"

definition sample_payload :: messageIDPayload where
  "sample_payload = \<lparr>p_Mailbox = ''INBOX'', p_UIDValidity = 9, p_UID = 42\<rparr>"

definition sample_unmarshal :: "bytes \<Rightarrow> messageIDPayload option" where
  "sample_unmarshal m = (if m = marshal_payload sample_payload then Some sample_payload else None)"

theorem messageID_roundtrip_witness:
  "\<exists>v. encodeMessageID sample_mac sample_payload = Inr v \<and>
     decodeMessageID sample_mac sample_unmarshal v = Inr sample_payload"
proof (rule messageID_roundtrip)
  show "length (sample_mac m) = 32" for m by (simp add: sample_mac_def)
  show "length (marshal_payload sample_payload) \<le> 992" by code_simp
qed (simp_all add: sample_unmarshal_def complete_payload_def sample_payload_def)

end
