(* ===== verification/Mail_Search.thy ===== *)
theory Mail_Search
  imports Message_IDs
begin

text \<open>
  \<^verbatim>\<open>SearchMailPage\<close> of \<^verbatim>\<open>bridge/search.go\<close>: at most eight descending UID windows, from each the
  highest UIDs that still fit the page, their metadata bound to identifiers and charged to the
  output budget. The lemmas carry an invariant of the page through the windows, and relate
  the page to the set of matching UIDs.
\<close>

section \<open>Definitions\<close>

abbreviation maxSearchWindows :: nat where "maxSearchWindows \<equiv> 8"
abbreviation searchWindowWidth :: uint32 where "searchWindowWidth \<equiv> 100"

text \<open>\<^verbatim>\<open>json.Marshal(item)\<close> of a \<^verbatim>\<open>MessageMetadata\<close>; the unexported field is not encoded.\<close>

definition json_field :: "bytes \<Rightarrow> bytes \<Rightarrow> bytes" where
  "json_field name value = json_string name @ '':'' @ value"

definition marshal_metadata :: "MessageMetadata \<Rightarrow> bytes" where
  "marshal_metadata m = ''{'' @ json_field ''ID'' (json_string (m_ID m)) @ '','' @
     json_field ''Mailbox'' (json_string (m_Mailbox m)) @ '','' @
     json_field ''UIDValidity'' (format_uint (unat (m_UIDValidity m))) @ '','' @
     json_field ''UID'' (format_uint (unat (m_UID m))) @ '','' @
     json_field ''Subject'' (json_string (m_Subject m)) @ '','' @
     json_field ''Size'' (json_int (m_Size m)) @ '','' @
     json_field ''From'' (json_string (m_From m)) @ '','' @
     json_field ''Date'' (json_string (m_Date m)) @ '','' @
     json_field ''DateSource'' (json_string (DateSource_text (m_DateSource m))) @ '','' @
     json_field ''ReadState'' (json_string (ReadState_text (m_ReadState m))) @ '','' @
     json_field ''MetadataTruncated'' (json_bool (m_MetadataTruncated m)) @ ''}''"

text \<open>\<^verbatim>\<open>json.Marshal\<close> of the page: the items between brackets.\<close>

fun json_elements :: "bytes list \<Rightarrow> bytes" where
  "json_elements [] = []"
| "json_elements [x] = x"
| "json_elements (x # y # xs) = x @ '','' @ json_elements (y # xs)"

definition json_array :: "bytes list \<Rightarrow> bytes" where
  "json_array xs = ''['' @ json_elements xs @ '']''"

definition sort_descending :: "uint32 list \<Rightarrow> uint32 list" where
  "sort_descending uids = rev (sort uids)"

text \<open>The loop of \<^verbatim>\<open>selectHighestUIDs\<close> over the sorted UIDs; \<open>previous\<close> is the one before.\<close>

fun check_sorted_uids :: "uidWindow \<Rightarrow> uint32 option \<Rightarrow> uint32 list \<Rightarrow> code option" where
  "check_sorted_uids w previous [] = None"
| "check_sorted_uids w previous (uid # uids) =
     (if uid = 0 then Some CodeIMAPProtocol
      else if uid < Start w \<or> End w < uid then Some CodeBoundsExceeded
      else if previous = Some uid then Some CodeIMAPProtocol
      else check_sorted_uids w (Some uid) uids)"

definition selectHighestUIDs :: "uint32 list \<Rightarrow> uidWindow \<Rightarrow> nat \<Rightarrow> code + uint32 list" where
  "selectHighestUIDs uids w budget =
     (if length uids > width w then Inl CodeBoundsExceeded
      else (let sorted = sort_descending uids in
        (case check_sorted_uids w None sorted of
           Some c \<Rightarrow> Inl c
         | None \<Rightarrow> Inr (take budget sorted))))"

text \<open>\<^verbatim>\<open>validateFetchedMetadataUIDs\<close> of \<^verbatim>\<open>bridge/imapclient.go\<close>.\<close>

fun requested_uids :: "uint32 list \<Rightarrow> uint32 set \<Rightarrow> uint32 set option" where
  "requested_uids [] left = Some left"
| "requested_uids (uid # uids) left =
     (if uid = 0 \<or> uid \<in> left then None else requested_uids uids (insert uid left))"

fun take_results :: "uint32 list \<Rightarrow> uint32 set \<Rightarrow> uint32 set option" where
  "take_results [] left = Some left"
| "take_results (uid # uids) left =
     (if uid \<notin> left then None else take_results uids (left - {uid}))"

definition validateFetchedMetadataUIDs :: "uint32 list \<Rightarrow> MessageMetadata list \<Rightarrow> code option" where
  "validateFetchedMetadataUIDs requested results =
     (if length results \<noteq> length requested then Some CodeIMAPProtocol
      else (case requested_uids requested {} of
          None \<Rightarrow> Some CodeIMAPProtocol
        | Some wanted \<Rightarrow> (case take_results (map m_uid results) wanted of
            None \<Rightarrow> Some CodeIMAPProtocol
          | Some left \<Rightarrow> if left \<noteq> {} then Some CodeIMAPProtocol else None)))"

text \<open>\<^verbatim>\<open>sort.Slice\<close> by descending \<^verbatim>\<open>uid\<close>. The UIDs are distinct by then, so there is one such order.\<close>

definition sort_metadata :: "MessageMetadata list \<Rightarrow> MessageMetadata list" where
  "sort_metadata ms = rev (sort_key m_uid ms)"

text \<open>The variables of one attempt.\<close>

record searchAttempt =
  attemptResults :: "MessageMetadata list"
  attemptOutputBytes :: int
  omitted :: bool
  remaining_uids :: uint32

record SearchPage =
  Messages :: "MessageMetadata list"
  Truncated :: bool

text \<open>The inner loop: each item is bound to its identifier and charged to the output budget.\<close>

fun add_items :: "(bytes \<Rightarrow> bytes) \<Rightarrow> bytes \<Rightarrow> uint32 \<Rightarrow> int \<Rightarrow> MessageMetadata list \<Rightarrow> searchAttempt \<Rightarrow>
    code + searchAttempt" where
  "add_items mac mailbox validity maxOutput [] st = Inr st"
| "add_items mac mailbox validity maxOutput (item # items) st =
     (case encodeMessageID mac \<lparr>p_Mailbox = mailbox, p_UIDValidity = validity, p_UID = m_uid item\<rparr> of
        Inl c \<Rightarrow> Inl c
      | Inr ident \<Rightarrow>
          (let item' = item\<lparr>m_ID := ident, m_Mailbox := mailbox, m_UIDValidity := validity, m_UID := m_uid item\<rparr>;
               encoded = int (length (marshal_metadata item'));
               separator = (if attemptResults st \<noteq> [] then 1 else 0) in
           if maxOutput < attemptOutputBytes st \<or> maxOutput - attemptOutputBytes st < encoded + separator
           then Inl CodeBoundsExceeded
           else add_items mac mailbox validity maxOutput items
             (st\<lparr>attemptOutputBytes := attemptOutputBytes st + encoded + separator,
                attemptResults := attemptResults st @ [item']\<rparr>)))"

definition next_window :: "uint32 \<Rightarrow> uidWindow" where
  "next_window left = \<lparr>Start = (if searchWindowWidth < left then left - searchWindowWidth else 1),
     End = left - 1\<rparr>"

text \<open>One window.\<close>

definition search_one :: "'w session_env \<Rightarrow> (bytes \<Rightarrow> bytes) \<Rightarrow> Bounds \<Rightarrow> nat \<Rightarrow> SearchQuery \<Rightarrow> uint32 \<Rightarrow>
    searchAttempt \<Rightarrow> ('w, searchAttempt) op" where
  "search_one env mac b s query validity st =
     (let w = next_window (remaining_uids st) in
      bind_op (search_window env s query w (int (width w))) (\<lambda>uids.
      bind_op (check_op (selectHighestUIDs uids w (nat (MaxSearchResults b - int (length (attemptResults st)))))) (\<lambda>selected.
      bind_op (fetch_metadata env s (sq_Mailbox query) selected (MaxHeaderBytes b)) (\<lambda>metadata.
      bind_op (check_op (case validateFetchedMetadataUIDs selected metadata of Some c \<Rightarrow> Inl c | None \<Rightarrow> Inr ())) (\<lambda>_.
      bind_op (check_op (add_items mac (sq_Mailbox query) validity (MaxOutputBytes b) (sort_metadata metadata)
        (st\<lparr>omitted := (omitted st \<or> length selected < length uids)\<rparr>))) (\<lambda>st'.
      return_op (st'\<lparr>remaining_uids := Start w\<rparr>)))))))"

text \<open>The loop over the windows, \<open>left\<close> of which may still be searched.\<close>

fun search_windows :: "'w session_env \<Rightarrow> (bytes \<Rightarrow> bytes) \<Rightarrow> Bounds \<Rightarrow> nat \<Rightarrow> SearchQuery \<Rightarrow> uint32 \<Rightarrow> nat \<Rightarrow>
    searchAttempt \<Rightarrow> ('w, searchAttempt) op" where
  "search_windows env mac b s query validity 0 st = return_op st"
| "search_windows env mac b s query validity (Suc left) st =
     (if 1 < remaining_uids st \<and> int (length (attemptResults st)) < MaxSearchResults b
      then bind_op (search_one env mac b s query validity st)
        (search_windows env mac b s query validity left)
      else return_op st)"

definition search_operation :: "'w session_env \<Rightarrow> (bytes \<Rightarrow> bytes) \<Rightarrow> Bounds \<Rightarrow> SearchQuery \<Rightarrow> nat \<Rightarrow>
    ('w, SearchPage) op" where
  "search_operation env mac b query s =
     bind_op (examine env s (sq_Mailbox query)) (\<lambda>snapshot.
     bind_op (search_windows env mac b s query (UIDValidity snapshot) maxSearchWindows
       \<lparr>attemptResults = [], attemptOutputBytes = 2, omitted = False, remaining_uids = UIDNext snapshot\<rparr>) (\<lambda>st.
     return_op \<lparr>Messages = attemptResults st, Truncated = (omitted st \<or> 1 < remaining_uids st)\<rparr>))"

definition SearchMailPage :: "'w session_env \<Rightarrow> (bytes \<Rightarrow> bytes) \<Rightarrow> Bounds \<Rightarrow> go_error option \<Rightarrow> SearchQuery \<Rightarrow>
    'w adapter_state \<Rightarrow> (go_error + SearchPage) \<times> 'w adapter_state" where
  "SearchMailPage env mac b acquired query st =
     (if sq_Mailbox query = [] then (Inl (BridgeError CodeMailboxNotFound), st)
      else if length (sq_Mailbox query) > maxMailboxNameBytes \<or> length (sq_Sender query) > maxSearchTermBytes \<or>
              length (sq_Subject query) > maxSearchTermBytes \<or> MaxOutputBytes b < 2
      then (Inl (BridgeError CodeBoundsExceeded), st)
      else execute env acquired (search_operation env mac b query) st)"

section \<open>Supporting lemmas\<close>

lemma execute_Inr:
  assumes "execute env acquired operation (a, w) = (Inr r, st')"
  shows "\<exists>s w1 w2. operation s w1 = (Inr r, w2)"
proof -
  have last: "\<exists>s w1 w2. operation s w1 = (Inr r, w2)"
    if "attempts env operation (Suc 0) st = (Inr r, st')" for st
  proof -
    obtain r1 a1 w1 where s: "sessionForOperation env st = (r1, (a1, w1))" by (metis surj_pair)
    show ?thesis
    proof (cases r1)
      case (Inl e)
      with s that show ?thesis by (simp add: Let_def)
    next
      case (Inr x)
      obtain r2 w2 where o: "operation x w1 = (r2, w2)" by (cases "operation x w1")
      with s Inr that show ?thesis by (cases r2) (auto split: if_splits)
    qed
  qed
  have acq: "attempts env operation 2 (a, w) = (Inr r, st')"
    using assms by (simp del: attempts.simps add: execute_def split: option.splits)
  obtain r1 a1 w1 where s: "sessionForOperation env (a, w) = (r1, (a1, w1))" by (metis surj_pair)
  show ?thesis
  proof (cases r1)
    case (Inl e)
    with s acq last show ?thesis
      unfolding two_attempts by (simp del: attempts.simps add: Let_def split: if_splits)
  next
    case (Inr x)
    obtain r2 w2 where o: "operation x w1 = (r2, w2)" by (cases "operation x w1")
    with s Inr acq last show ?thesis
      unfolding two_attempts by (cases r2) (auto simp del: attempts.simps split: if_splits)
  qed
qed

lemma sort_descending_props:
  "set (sort_descending uids) = set uids" "length (sort_descending uids) = length uids"
  "sorted_wrt (\<ge>) (sort_descending uids)"
  by (simp_all add: sort_descending_def sorted_wrt_rev)

lemma check_sorted_None:
  "check_sorted_uids w previous uids = None \<Longrightarrow> sorted_wrt (\<ge>) uids \<Longrightarrow> (\<forall>p u. previous = Some p \<longrightarrow> u \<in> set uids \<longrightarrow> u \<le> p) \<Longrightarrow>
     sorted_wrt (>) uids \<and> (\<forall>u \<in> set uids. Start w \<le> u \<and> u \<le> End w \<and> 0 < u \<and> previous \<noteq> Some u)"
proof (induction w previous uids rule: check_sorted_uids.induct)
  case (2 w previous uid uids)
  then have c: "uid \<noteq> 0" "Start w \<le> uid" "uid \<le> End w" "previous \<noteq> Some uid"
    "check_sorted_uids w (Some uid) uids = None" by (auto split: if_splits)
  have ih: "sorted_wrt (>) uids \<and> (\<forall>u \<in> set uids. Start w \<le> u \<and> u \<le> End w \<and> 0 < u \<and> Some uid \<noteq> Some u)"
    using 2(1) c 2(3) by (auto simp: not_less)
  then have "\<forall>u \<in> set uids. u < uid" using 2(3) by (auto simp: less_le)
  moreover have "\<forall>u \<in> set uids. previous \<noteq> Some u" using \<open>\<forall>u \<in> set uids. u < uid\<close> 2(4) by fastforce
  ultimately show ?case using ih c by (auto simp: word_greater_zero_iff)
qed simp

lemma selectHighestUIDs_Inr:
  assumes "selectHighestUIDs uids w budget = Inr selected"
  shows "selected = take budget (sort_descending uids) \<and> sorted_wrt (>) (sort_descending uids) \<and>
    (\<forall>u \<in> set uids. Start w \<le> u \<and> u \<le> End w \<and> 0 < u)"
  using assms check_sorted_None [of w None "sort_descending uids"] sort_descending_props [of uids]
  by (auto simp: selectHighestUIDs_def Let_def split: if_splits option.splits)

lemma requested_uids_Some:
  "requested_uids us S = Some T \<Longrightarrow> distinct us \<and> set us \<inter> S = {} \<and> T = S \<union> set us"
  by (induction us arbitrary: S) (auto split: if_splits)

lemma take_results_Some: "take_results us T = Some L \<Longrightarrow> distinct us \<and> set us \<subseteq> T \<and> L = T - set us"
proof (induction us arbitrary: T)
  case (Cons u us)
  then have "u \<in> T" "take_results us (T - {u}) = Some L" by (auto split: if_splits)
  with Cons.IH [of "T - {u}"] show ?case by auto
qed simp

lemma validate_None:
  assumes "validateFetchedMetadataUIDs requested results = None"
  shows "distinct requested \<and> distinct (map m_uid results) \<and> set (map m_uid results) = set requested"
proof -
  from assms obtain T where r: "requested_uids requested {} = Some T" "take_results (map m_uid results) T = Some {}"
    by (auto simp: validateFetchedMetadataUIDs_def split: if_splits option.splits)
  from requested_uids_Some [OF r(1)] take_results_Some [OF r(2)] show ?thesis by auto
qed

lemma sorted_greater_unique:
  "sorted_wrt (>) xs \<Longrightarrow> sorted_wrt (>) ys \<Longrightarrow> set xs = set ys \<Longrightarrow> xs = (ys :: uint32 list)"
proof -
  assume a: "sorted_wrt (>) xs" "sorted_wrt (>) ys" "set xs = set ys"
  then have "sorted_wrt (<) (rev xs)" "sorted_wrt (<) (rev ys)" by (simp_all add: sorted_wrt_rev)
  then have "rev xs = rev ys"
    using a(3) by (intro sorted_distinct_set_unique) (auto simp: strict_sorted_iff)
  then show ?thesis by simp
qed

text \<open>Once the FETCH result is validated, the sorted metadata follow the selected UIDs exactly.\<close>

lemma sort_metadata_uids:
  assumes "validateFetchedMetadataUIDs selected metadata = None" "sorted_wrt (>) selected"
  shows "map m_uid (sort_metadata metadata) = selected"
proof (rule sorted_greater_unique)
  have d: "distinct (map m_uid metadata)" "set (map m_uid metadata) = set selected"
    using validate_None [OF assms(1)] by auto
  have "sorted (map m_uid (sort_key m_uid metadata))" by simp
  moreover have "mset (map m_uid (sort_key m_uid metadata)) = mset (map m_uid metadata)"
    by (simp add: mset_map)
  then have "distinct (map m_uid (sort_key m_uid metadata))" using d(1) by (metis mset_eq_imp_distinct_iff)
  ultimately have "sorted_wrt (<) (map m_uid (sort_key m_uid metadata))" by (simp add: strict_sorted_iff)
  then show "sorted_wrt (>) (map m_uid (sort_metadata metadata))"
    by (simp add: sort_metadata_def sorted_wrt_rev flip: rev_map)
  show "set (map m_uid (sort_metadata metadata)) = set selected"
    using d(2) by (simp add: sort_metadata_def)
qed (rule assms(2))

subsection \<open>The output budget\<close>

lemma json_elements_snoc: "json_elements (xs @ [x]) = (if xs = [] then x else json_elements xs @ '','' @ x)"
  by (induction xs rule: json_elements.induct) auto

text \<open>What one item becomes.\<close>

definition bound_item :: "(bytes \<Rightarrow> bytes) \<Rightarrow> bytes \<Rightarrow> uint32 \<Rightarrow> MessageMetadata \<Rightarrow> MessageMetadata \<Rightarrow> bool" where
  "bound_item mac mailbox validity item item' \<longleftrightarrow> (\<exists>ident.
     encodeMessageID mac \<lparr>p_Mailbox = mailbox, p_UIDValidity = validity, p_UID = m_uid item\<rparr> = Inr ident \<and>
     item' = item\<lparr>m_ID := ident, m_Mailbox := mailbox, m_UIDValidity := validity, m_UID := m_uid item\<rparr>)"

definition output_ok :: "int \<Rightarrow> searchAttempt \<Rightarrow> bool" where
  "output_ok maxOutput st \<longleftrightarrow> attemptOutputBytes st = int (length (json_array (map marshal_metadata (attemptResults st)))) \<and>
     attemptOutputBytes st \<le> maxOutput"

lemma add_items_Inr:
  "add_items mac mailbox validity maxOutput items st = Inr st' \<Longrightarrow> output_ok maxOutput st \<Longrightarrow>
     output_ok maxOutput st' \<and> omitted st' = omitted st \<and> remaining_uids st' = remaining_uids st \<and>
     (\<exists>items'. attemptResults st' = attemptResults st @ items' \<and> list_all2 (bound_item mac mailbox validity) items items')"
proof (induction items arbitrary: st)
  case (Cons item items)
  let ?p = "\<lparr>p_Mailbox = mailbox, p_UIDValidity = validity, p_UID = m_uid item\<rparr>"
  from Cons.prems(1) obtain ident where i: "encodeMessageID mac ?p = Inr ident" by (auto split: sum.splits)
  let ?i = "item\<lparr>m_ID := ident, m_Mailbox := mailbox, m_UIDValidity := validity, m_UID := m_uid item\<rparr>"
  let ?n = "int (length (marshal_metadata ?i)) + (if attemptResults st \<noteq> [] then 1 else 0)"
  let ?st = "st\<lparr>attemptOutputBytes := attemptOutputBytes st + ?n, attemptResults := attemptResults st @ [?i]\<rparr>"
  from Cons.prems(1) i have fit: "?n \<le> maxOutput - attemptOutputBytes st"
    and rest: "add_items mac mailbox validity maxOutput items ?st = Inr st'"
    by (auto simp: Let_def add.assoc split: if_splits)
  have ok: "output_ok maxOutput ?st"
    using Cons.prems(2) fit by (auto simp: output_ok_def json_array_def json_elements_snoc)
  from Cons.IH [OF rest ok] obtain items' where it: "attemptResults st' = attemptResults st @ [?i] @ items'"
    "list_all2 (bound_item mac mailbox validity) items items'"
    and st': "output_ok maxOutput st'" "omitted st' = omitted st" "remaining_uids st' = remaining_uids st" by auto
  have "bound_item mac mailbox validity item ?i" using i by (auto simp: bound_item_def)
  with it st' show ?case by (intro conjI exI [of _ "?i # items'"]) simp_all
qed simp

lemma bound_items_uids:
  "list_all2 (bound_item mac mailbox validity) items items' \<Longrightarrow> map m_UID items' = map m_uid items \<and> length items' = length items"
  by (induction rule: list_all2_induct) (auto simp: bound_item_def)

text \<open>What is true of every message of a page.\<close>

definition page_item :: "(bytes \<Rightarrow> bytes) \<Rightarrow> bytes \<Rightarrow> uint32 \<Rightarrow> MessageMetadata \<Rightarrow> bool" where
  "page_item mac mailbox validity m \<longleftrightarrow> m_Mailbox m = mailbox \<and> m_UIDValidity m = validity \<and> m_UID m = m_uid m \<and>
     encodeMessageID mac \<lparr>p_Mailbox = mailbox, p_UIDValidity = validity, p_UID = m_UID m\<rparr> = Inr (m_ID m)"

lemma bound_items_page:
  "list_all2 (bound_item mac mailbox validity) items items' \<Longrightarrow> list_all (page_item mac mailbox validity) items'"
  by (induction rule: list_all2_induct) (auto simp: bound_item_def page_item_def)

subsection \<open>One window\<close>

lemma next_window_props:
  assumes "1 < left"
  shows "0 < Start (next_window left)" "Start (next_window left) < left"
    "u \<le> End (next_window left) \<longleftrightarrow> u < left"
proof -
  have lt: "left - 1 < left" using assms by unat_arith
  show "u \<le> End (next_window left) \<longleftrightarrow> u < left"
  proof
    assume "u < left"
    then have "u + 1 \<le> left" by (rule inc_le)
    moreover have "unat (u + 1) = unat u + 1" using \<open>u < left\<close> by unat_arith
    moreover have "unat (left - 1) = unat left - 1" using assms by unat_arith
    ultimately show "u \<le> End (next_window left)" by (simp add: next_window_def word_le_nat_alt)
  qed (use lt in \<open>simp add: next_window_def\<close>)
  show "0 < Start (next_window left)"
  proof (cases "searchWindowWidth < left")
    case True
    then have "left - searchWindowWidth \<noteq> 0" by auto
    with True show ?thesis by (simp add: next_window_def word_greater_zero_iff)
  qed (simp add: next_window_def)
  show "Start (next_window left) < left"
  proof (cases "searchWindowWidth < left")
    case True
    then have "left - searchWindowWidth < left" by unat_arith
    with True show ?thesis by (simp add: next_window_def)
  qed (use assms in \<open>simp add: next_window_def\<close>)
qed

text \<open>
  The invariant of the loop: the page so far, and how it relates to the set \<open>hits\<close> of matching
  UIDs below \<open>ceil\<close>, the mailbox's UIDNEXT.
\<close>

definition attempt_uids :: "searchAttempt \<Rightarrow> uint32 list" where
  "attempt_uids st = map m_UID (attemptResults st)"

definition page_inv :: "(bytes \<Rightarrow> bytes) \<Rightarrow> bytes \<Rightarrow> uint32 \<Rightarrow> Bounds \<Rightarrow> uint32 \<Rightarrow> searchAttempt \<Rightarrow> bool" where
  "page_inv mac mailbox validity b ceil st \<longleftrightarrow>
     output_ok (MaxOutputBytes b) st \<and> list_all (page_item mac mailbox validity) (attemptResults st) \<and>
     sorted_wrt (>) (attempt_uids st) \<and> remaining_uids st \<le> ceil \<and>
     (attemptResults st \<noteq> [] \<longrightarrow> 0 < remaining_uids st) \<and>
     (\<forall>u \<in> set (attempt_uids st). remaining_uids st \<le> u \<and> u < ceil) \<and>
     int (length (attemptResults st)) \<le> max 0 (MaxSearchResults b)"

definition hits_inv :: "Bounds \<Rightarrow> uint32 \<Rightarrow> uint32 set \<Rightarrow> searchAttempt \<Rightarrow> bool" where
  "hits_inv b ceil hits st \<longleftrightarrow> set (attempt_uids st) \<subseteq> hits \<and>
     (omitted st \<longrightarrow> MaxSearchResults b \<le> int (length (attemptResults st))) \<and>
     (\<forall>u \<in> hits. remaining_uids st \<le> u \<and> u < ceil \<and> u \<notin> set (attempt_uids st) \<longrightarrow>
        omitted st \<and> (\<forall>p \<in> set (attempt_uids st). u < p))"

text \<open>A session whose answers are those of a mailbox in which exactly \<open>hits\<close> match the query.\<close>

definition answers_from :: "'w session_env \<Rightarrow> SearchQuery \<Rightarrow> uint32 set \<Rightarrow> bool" where
  "answers_from env query hits \<longleftrightarrow> (\<forall>s w lim x uids x'.
     search_window env s query w lim x = (Inr uids, x') \<longrightarrow> set uids = {u \<in> hits. Start w \<le> u \<and> u \<le> End w})"

lemma check_op_Inr: "check_op r w = (Inr x, w') \<longleftrightarrow> r = Inr x \<and> w' = w"
  by (auto simp: check_op_def split: sum.split)

lemma search_one_Inr:
  assumes "search_one env mac b s query validity st x = (Inr st', x')"
  obtains uids selected metadata x1 items' where
    "search_window env s query (next_window (remaining_uids st)) (int (width (next_window (remaining_uids st)))) x = (Inr uids, x1)"
    "selectHighestUIDs uids (next_window (remaining_uids st))
       (nat (MaxSearchResults b - int (length (attemptResults st)))) = Inr selected"
    "validateFetchedMetadataUIDs selected metadata = None"
    "add_items mac (sq_Mailbox query) validity (MaxOutputBytes b) (sort_metadata metadata)
       (st\<lparr>omitted := (omitted st \<or> length selected < length uids)\<rparr>) = Inr items'"
    "st' = items'\<lparr>remaining_uids := Start (next_window (remaining_uids st))\<rparr>"
proof -
  let ?w = "next_window (remaining_uids st)"
  let ?n = "nat (MaxSearchResults b - int (length (attemptResults st)))"
  from assms obtain uids x1 selected x2 metadata x3 u x4 st2 where
    s: "search_window env s query ?w (int (width ?w)) x = (Inr uids, x1)"
    and sel: "check_op (selectHighestUIDs uids ?w ?n) x1 = (Inr selected, x2)"
    and v: "check_op (case validateFetchedMetadataUIDs selected metadata of Some c \<Rightarrow> Inl c | None \<Rightarrow> Inr ()) x3 = (Inr u, x4)"
    and a: "check_op (add_items mac (sq_Mailbox query) validity (MaxOutputBytes b) (sort_metadata metadata)
        (st\<lparr>omitted := (omitted st \<or> length selected < length uids)\<rparr>)) x4 = (Inr st2, x')"
    and st': "st' = st2\<lparr>remaining_uids := Start ?w\<rparr>"
    unfolding search_one_def Let_def bind_op_Inr return_op_def by (elim exE conjE) simp
  have v': "validateFetchedMetadataUIDs selected metadata = None"
    using v by (simp add: check_op_Inr split: option.splits)
  show ?thesis
    by (rule that [of uids x1 selected metadata st2])
      (use s sel v' a st' in \<open>simp_all add: check_op_Inr\<close>)
qed

lemma window_step:
  assumes one: "search_one env mac b s query validity st x = (Inr st', x')"
    and inv: "page_inv mac (sq_Mailbox query) validity b ceil st"
    and guard: "1 < remaining_uids st" "int (length (attemptResults st)) < MaxSearchResults b"
  shows "\<exists>new (uids :: uint32 list) x1. attempt_uids st' = attempt_uids st @ new \<and>
    search_window env s query (next_window (remaining_uids st)) (int (width (next_window (remaining_uids st)))) x = (Inr uids, x1) \<and>
    new = take (nat (MaxSearchResults b - int (length (attemptResults st)))) (sort_descending uids) \<and>
    sorted_wrt (>) (sort_descending uids) \<and>
    (\<forall>u \<in> set uids. Start (next_window (remaining_uids st)) \<le> u \<and> u < remaining_uids st) \<and>
    omitted st' = (omitted st \<or> length new < length uids) \<and>
    remaining_uids st' = Start (next_window (remaining_uids st)) \<and>
    output_ok (MaxOutputBytes b) st' \<and> list_all (page_item mac (sq_Mailbox query) validity) (attemptResults st')"
  using one
proof (rule search_one_Inr)
  fix uids selected :: "uint32 list" and metadata x1 st2
  let ?w = "next_window (remaining_uids st)"
  let ?st = "st\<lparr>omitted := (omitted st \<or> length selected < length uids)\<rparr>"
  assume s: "search_window env s query ?w (int (width ?w)) x = (Inr uids, x1)"
    and sel: "selectHighestUIDs uids ?w (nat (MaxSearchResults b - int (length (attemptResults st)))) = Inr selected"
    and v: "validateFetchedMetadataUIDs selected metadata = None"
    and a: "add_items mac (sq_Mailbox query) validity (MaxOutputBytes b) (sort_metadata metadata) ?st = Inr st2"
    and st': "st' = st2\<lparr>remaining_uids := Start ?w\<rparr>"
  note sel' = selectHighestUIDs_Inr [OF sel]
  have "sorted_wrt (>) selected" using sel' by (metis sorted_wrt_take)
  note uids = sort_metadata_uids [OF v this]
  have "output_ok (MaxOutputBytes b) ?st" using inv by (simp add: page_inv_def output_ok_def)
  from add_items_Inr [OF a this] obtain items' where
    it: "attemptResults st2 = attemptResults st @ items'"
      "list_all2 (bound_item mac (sq_Mailbox query) validity) (sort_metadata metadata) items'"
    and ok: "output_ok (MaxOutputBytes b) st2" "omitted st2 = (omitted st \<or> length selected < length uids)"
    by auto
  have "map m_UID items' = selected" using bound_items_uids [OF it(2)] uids by simp
  then have new: "attempt_uids st' = attempt_uids st @ selected" using it(1) st' by (simp add: attempt_uids_def)
  have range: "\<forall>u \<in> set uids. Start ?w \<le> u \<and> u < remaining_uids st"
    using sel' next_window_props(3) [OF guard(1)] by blast
  have items: "list_all (page_item mac (sq_Mailbox query) validity) (attemptResults st')"
    using it(1) bound_items_page [OF it(2)] inv st' by (simp add: page_inv_def)
  have "output_ok (MaxOutputBytes b) st'" using ok(1) st' by (simp add: output_ok_def)
  with new s sel' range ok(2) items st' show ?thesis by (intro exI [of _ selected] exI [of _ uids] exI [of _ x1]) simp
qed

lemma page_inv_step:
  assumes one: "search_one env mac b s query validity st x = (Inr st', x')"
    and inv: "page_inv mac (sq_Mailbox query) validity b ceil st"
    and guard: "1 < remaining_uids st" "int (length (attemptResults st)) < MaxSearchResults b"
  shows "page_inv mac (sq_Mailbox query) validity b ceil st'"
proof -
  from window_step [OF one inv guard] obtain new uids where
    n: "attempt_uids st' = attempt_uids st @ new"
      "new = take (nat (MaxSearchResults b - int (length (attemptResults st)))) (sort_descending uids)"
      "sorted_wrt (>) (sort_descending uids)"
      "\<forall>u \<in> set uids. Start (next_window (remaining_uids st)) \<le> u \<and> u < remaining_uids st"
      "remaining_uids st' = Start (next_window (remaining_uids st))"
      "output_ok (MaxOutputBytes b) st'" "list_all (page_item mac (sq_Mailbox query) validity) (attemptResults st')"
    by blast
  have old: "sorted_wrt (>) (attempt_uids st)" "remaining_uids st \<le> ceil"
    "\<forall>u \<in> set (attempt_uids st). remaining_uids st \<le> u \<and> u < ceil"
    using inv by (simp_all add: page_inv_def)
  have new: "\<forall>u \<in> set new. Start (next_window (remaining_uids st)) \<le> u \<and> u < remaining_uids st"
    using n(2,4) sort_descending_props(1) [of uids] by (auto dest: in_set_takeD)
  have "sorted_wrt (>) new" unfolding n(2) using n(3) by (rule sorted_wrt_take)
  then have sorted: "sorted_wrt (>) (attempt_uids st')"
    unfolding n(1) sorted_wrt_append using old(1,3) new by (auto intro: less_le_trans)
  have lower: "Start (next_window (remaining_uids st)) < remaining_uids st"
    by (rule next_window_props(2) [OF guard(1)])
  have "\<forall>u \<in> set (attempt_uids st'). remaining_uids st' \<le> u \<and> u < ceil"
    unfolding n(1,5) using old(2,3) new lower by (auto intro: less_le_trans order_trans less_imp_le)
  moreover have "int (length (attemptResults st')) \<le> max 0 (MaxSearchResults b)"
  proof -
    have "length (attemptResults st') = length (attemptResults st) + length new"
      using arg_cong [OF n(1), of length] by (simp add: attempt_uids_def)
    then show ?thesis using guard(2) n(2) by simp
  qed
  moreover have "remaining_uids st' \<le> ceil" unfolding n(5) using lower old(2) by simp
  moreover have "0 < remaining_uids st'" unfolding n(5) by (rule next_window_props(1) [OF guard(1)])
  ultimately show ?thesis using sorted n(6,7) by (simp add: page_inv_def)
qed

lemma hits_inv_step:
  assumes one: "search_one env mac b s query validity st x = (Inr st', x')"
    and inv: "page_inv mac (sq_Mailbox query) validity b ceil st" and h: "hits_inv b ceil hits st"
    and guard: "1 < remaining_uids st" "int (length (attemptResults st)) < MaxSearchResults b"
    and ans: "answers_from env query hits"
  shows "hits_inv b ceil hits st'"
proof -
  let ?w = "next_window (remaining_uids st)"
  from window_step [OF one inv guard] obtain new uids x1 where
    n: "attempt_uids st' = attempt_uids st @ new"
      "search_window env s query ?w (int (width ?w)) x = (Inr uids, x1)"
      "new = take (nat (MaxSearchResults b - int (length (attemptResults st)))) (sort_descending uids)"
      "sorted_wrt (>) (sort_descending uids)"
      "\<forall>u \<in> set uids. Start ?w \<le> u \<and> u < remaining_uids st"
      "omitted st' = (omitted st \<or> length new < length uids)" "remaining_uids st' = Start ?w"
    by blast
  have hits: "set uids = {u \<in> hits. Start ?w \<le> u \<and> u < remaining_uids st}"
    using ans n(2) next_window_props(3) [OF guard(1)] unfolding answers_from_def by blast
  have live: "\<not> omitted st" using h guard(2) by (auto simp: hits_inv_def)
  have len: "length (attemptResults st') = length (attemptResults st) + length new"
    using arg_cong [OF n(1), of length] by (simp add: attempt_uids_def)
  have cut: "MaxSearchResults b \<le> int (length (attemptResults st'))" if "length new < length uids"
  proof -
    have "length new = nat (MaxSearchResults b - int (length (attemptResults st)))"
      using that n(3) sort_descending_props(2) [of uids] by simp
    with len guard(2) show ?thesis by simp
  qed
  have split: "sort_descending uids = new @ drop (length new) (sort_descending uids)"
    using n(3) by (metis append_take_drop_id length_take min_def take_all_iff nat_le_linear)
  have missed: "omitted st' \<and> (\<forall>p \<in> set (attempt_uids st'). u < p)"
    if u: "u \<in> hits" "Start ?w \<le> u" "u < ceil" "u \<notin> set (attempt_uids st')" for u
  proof (cases "u < remaining_uids st")
    case False
    with u n(1) h live show ?thesis by (auto simp: hits_inv_def)
  next
    case True
    with u(1,2) hits have "u \<in> set (sort_descending uids)" by (simp add: sort_descending_props)
    moreover have "u \<notin> set new" using u(4) n(1) by simp
    ultimately have d: "u \<in> set (drop (length new) (sort_descending uids))" using split by (metis Un_iff set_append)
    then have "length new < length uids"
      using sort_descending_props(2) [of uids] by (cases "length new < length uids") simp_all
    moreover have "\<forall>p \<in> set new. u < p"
    proof -
      have "sorted_wrt (>) (new @ drop (length new) (sort_descending uids))" using n(4) split by simp
      with d show ?thesis by (auto simp: sorted_wrt_append)
    qed
    moreover have "\<forall>p \<in> set (attempt_uids st). u < p"
      using True inv by (auto simp: page_inv_def intro: less_le_trans)
    ultimately show ?thesis using n(1,6) by auto
  qed
  have "set (attempt_uids st') \<subseteq> hits"
  proof -
    have "set new \<subseteq> set uids" using n(3) sort_descending_props(1) [of uids] by (auto dest: in_set_takeD)
    with hits h n(1) show ?thesis by (auto simp: hits_inv_def)
  qed
  with missed cut live n(6,7) show ?thesis by (auto simp: hits_inv_def)
qed

lemma search_windows_inv:
  assumes "search_windows env mac b s query validity left st x = (Inr st', x')"
    and "page_inv mac (sq_Mailbox query) validity b ceil st"
  shows "page_inv mac (sq_Mailbox query) validity b ceil st' \<and>
    (answers_from env query hits \<and> hits_inv b ceil hits st \<longrightarrow> hits_inv b ceil hits st')"
  using assms
proof (induction left arbitrary: st x)
  case 0
  then show ?case by (simp add: op_simps)
next
  case (Suc left)
  show ?case
  proof (cases "1 < remaining_uids st \<and> int (length (attemptResults st)) < MaxSearchResults b")
    case True
    with Suc.prems(1) obtain st1 x1 where one: "search_one env mac b s query validity st x = (Inr st1, x1)"
      and rest: "search_windows env mac b s query validity left st1 x1 = (Inr st', x')"
      by (auto simp: bind_op_Inr)
    note inv1 = page_inv_step [OF one Suc.prems(2)]
    from True Suc.IH [OF rest] inv1 hits_inv_step [OF one Suc.prems(2)] show ?thesis by blast
  next
    case False
    with Suc.prems show ?thesis by (auto simp: op_simps)
  qed
qed

section \<open>A page is the newest part of the matches\<close>

lemma SearchMailPage_Inr:
  assumes "SearchMailPage env mac b acquired query (a, w) = (Inr page, st')"
  obtains s x snapshot x1 st x2 where "2 \<le> MaxOutputBytes b"
    "examine env s (sq_Mailbox query) x = (Inr snapshot, x1)"
    "search_windows env mac b s query (UIDValidity snapshot) maxSearchWindows
       \<lparr>attemptResults = [], attemptOutputBytes = 2, omitted = False, remaining_uids = UIDNext snapshot\<rparr> x1 = (Inr st, x2)"
    "page = \<lparr>Messages = attemptResults st, Truncated = (omitted st \<or> 1 < remaining_uids st)\<rparr>"
proof -
  from assms have b: "2 \<le> MaxOutputBytes b"
    and e: "execute env acquired (search_operation env mac b query) (a, w) = (Inr page, st')"
    by (auto simp: SearchMailPage_def split: if_splits)
  from execute_Inr [OF e] obtain s x x' where o: "search_operation env mac b query s x = (Inr page, x')" by blast
  from o obtain snapshot x1 st x2 where
    "examine env s (sq_Mailbox query) x = (Inr snapshot, x1)"
    "search_windows env mac b s query (UIDValidity snapshot) maxSearchWindows
       \<lparr>attemptResults = [], attemptOutputBytes = 2, omitted = False, remaining_uids = UIDNext snapshot\<rparr> x1 = (Inr st, x2)"
    "page = \<lparr>Messages = attemptResults st, Truncated = (omitted st \<or> 1 < remaining_uids st)\<rparr>"
    unfolding search_operation_def bind_op_Inr return_op_def by (elim exE conjE) simp
  then show ?thesis by (rule that [OF b])
qed

lemma page_inv_init:
  assumes "2 \<le> MaxOutputBytes b"
  shows "page_inv mac mailbox validity b ceil
    \<lparr>attemptResults = [], attemptOutputBytes = 2, omitted = False, remaining_uids = ceil\<rparr>"
  using assms by (simp add: page_inv_def output_ok_def attempt_uids_def json_array_def)

lemma hits_inv_init:
  "hits_inv b ceil hits \<lparr>attemptResults = [], attemptOutputBytes = 2, omitted = False, remaining_uids = ceil\<rparr>"
  by (auto simp: hits_inv_def attempt_uids_def)

text \<open>
  C5. Whatever a session answers, a page that \<^verbatim>\<open>SearchMailPage\<close> returns has its messages in strictly
  descending UID order, at most \<^verbatim>\<open>MaxSearchResults\<close> of them, encodes to a JSON array of at most
  \<^verbatim>\<open>MaxOutputBytes\<close> bytes, and every message carries the mailbox asked for, one UIDVALIDITY that an
  EXAMINE of it returned, and an identifier that encodes exactly that mailbox, UIDVALIDITY and its UID.
\<close>

theorem SearchMailPage_sound:
  assumes "SearchMailPage env mac b acquired query (a, w) = (Inr page, st')"
  shows "sorted_wrt (>) (map m_UID (Messages page)) \<and>
    int (length (Messages page)) \<le> max 0 (MaxSearchResults b) \<and>
    int (length (json_array (map marshal_metadata (Messages page)))) \<le> MaxOutputBytes b \<and>
    (\<exists>s x snapshot x1. examine env s (sq_Mailbox query) x = (Inr snapshot, x1) \<and>
       (\<forall>m \<in> set (Messages page). page_item mac (sq_Mailbox query) (UIDValidity snapshot) m \<and> m_UID m < UIDNext snapshot))"
  using assms
proof (rule SearchMailPage_Inr)
  fix s x snapshot x1 st x2
  assume b: "2 \<le> MaxOutputBytes b" and ex: "examine env s (sq_Mailbox query) x = (Inr snapshot, x1)"
    and sw: "search_windows env mac b s query (UIDValidity snapshot) maxSearchWindows
       \<lparr>attemptResults = [], attemptOutputBytes = 2, omitted = False, remaining_uids = UIDNext snapshot\<rparr> x1 = (Inr st, x2)"
    and page: "page = \<lparr>Messages = attemptResults st, Truncated = (omitted st \<or> 1 < remaining_uids st)\<rparr>"
  have inv: "page_inv mac (sq_Mailbox query) (UIDValidity snapshot) b (UIDNext snapshot) st"
    using search_windows_inv [OF sw page_inv_init [OF b]] by blast
  have items: "\<forall>m \<in> set (Messages page). page_item mac (sq_Mailbox query) (UIDValidity snapshot) m \<and> m_UID m < UIDNext snapshot"
    using inv page by (auto simp: page_inv_def list_all_iff attempt_uids_def)
  have "sorted_wrt (>) (map m_UID (Messages page)) \<and> int (length (Messages page)) \<le> max 0 (MaxSearchResults b) \<and>
      int (length (json_array (map marshal_metadata (Messages page)))) \<le> MaxOutputBytes b"
    using inv page by (simp add: page_inv_def output_ok_def attempt_uids_def)
  with items ex show ?thesis by blast
qed


section \<open>A sample mailbox\<close>

text \<open>A mailbox with UIDNEXT 200 in which three messages match; the world is the number of commands.\<close>

definition sample_metadata :: "uint32 \<Rightarrow> MessageMetadata" where
  "sample_metadata u = \<lparr>m_ID = [], m_Mailbox = [], m_UIDValidity = 0, m_UID = 0, m_Subject = ''hi'', m_Size = 10,
     m_From = [], m_Date = [], m_DateSource = DateSourceUnknown, m_ReadState = ReadStateUnread,
     m_MetadataTruncated = False, m_uid = u\<rparr>"

definition sample_env :: "nat session_env" where
  "sample_env = \<lparr>op_view = (\<lambda>w. live_ctx), open_session = (\<lambda>w. (Inr w, w + 1)),
     abort_session = (\<lambda>s w. w), logout_session = (\<lambda>s w. (None, w)),
     examine = (\<lambda>s m w. (Inr \<lparr>UIDNext = 200, UIDValidity = 9\<rparr>, w + 1)),
     search_window = (\<lambda>s q u n w. (Inr (filter (\<lambda>i. Start u \<le> i \<and> i \<le> End u) [7, 120, 150]), w + 1)),
     fetch_metadata = (\<lambda>s m u n w. (Inr (map sample_metadata u), w + 1)), fetch_body = (\<lambda>s u n w. (Inr ''body'', w + 1)),
     list_folders = (\<lambda>s n w. (Inr [], w + 1)), status_mailbox = (\<lambda>s m w. (Inl EOF_Error, w + 1)),
     is_header_session = (\<lambda>s. False), fetch_headers = (\<lambda>s u n w. (Inl EOF_Error, w)),
     is_seen_session = (\<lambda>s. True),
     is_move_session = (\<lambda>s. True),
     select_source = (\<lambda>s m w. (Inr \<lparr>UIDNext = 200, UIDValidity = 9\<rparr>, w + 1)), store_seen = (\<lambda>s u b w. (None, w + 1)),
     supports_move = (\<lambda>s w. True), list_mailboxes = (\<lambda>s p n w. (Inr [], w + 1)),
     move_uid = (\<lambda>s u d w. (None, w + 1))\<rparr>"

definition sample_query :: SearchQuery where
  "sample_query = \<lparr>sq_Mailbox = ''INBOX'', sq_Since = 0, sq_Before = 0, sq_Sender = [], sq_Subject = [], sq_Unread = False\<rparr>"

definition sample_page :: SearchPage where
  "sample_page = projr (fst (SearchMailPage sample_env sample_mac (defaultBounds\<lparr>MaxSearchResults := 2\<rparr>) None sample_query (newAdapter, 0)))"

lemma sample_page_run:
  "SearchMailPage sample_env sample_mac (defaultBounds\<lparr>MaxSearchResults := 2\<rparr>) None sample_query (newAdapter, 0) =
     (Inr sample_page, snd (SearchMailPage sample_env sample_mac (defaultBounds\<lparr>MaxSearchResults := 2\<rparr>) None sample_query (newAdapter, 0)))"
proof -
  have "isl (fst (SearchMailPage sample_env sample_mac (defaultBounds\<lparr>MaxSearchResults := 2\<rparr>) None sample_query (newAdapter, 0))) = False"
    by code_simp
  then show ?thesis unfolding sample_page_def by (simp add: prod_eq_iff)
qed

theorem SearchMailPage_sound_witness:
  "map m_UID (Messages sample_page) = [150, 120] \<and> sorted_wrt (>) (map m_UID (Messages sample_page)) \<and>
   int (length (Messages sample_page)) \<le> max 0 2"
proof -
  have "map m_UID (Messages sample_page) = [150, 120]" by code_simp
  with SearchMailPage_sound [OF sample_page_run] show ?thesis by (simp add: defaultBounds_def)
qed


end
