(* ===== verification/Mail_Reads.thy ===== *)
theory Mail_Reads
  imports Mail_Search
begin

text \<open>
  The reads of one message and of the folder list: \<^verbatim>\<open>bridge/messages.go\<close> and \<^verbatim>\<open>bridge/folders.go\<close>.
  The locale \<open>window_search\<close> states what the adapter relies on in a session's window search; it is
  interpreted on \<^verbatim>\<open>UIDSearchWindow\<close> of the IMAP session.
\<close>

section \<open>Definitions\<close>

text \<open>\<^verbatim>\<open>requireMessageUID\<close>.\<close>

definition emptyQuery :: SearchQuery where
  "emptyQuery = \<lparr>sq_Mailbox = [], sq_Since = 0, sq_Before = 0, sq_Sender = [], sq_Subject = [], sq_Unread = False\<rparr>"

definition requireMessageUID :: "'w session_env \<Rightarrow> nat \<Rightarrow> uint32 \<Rightarrow> ('w, unit) op" where
  "requireMessageUID env s uid w =
     (case search_window env s emptyQuery \<lparr>Start = uid, End = uid\<rparr> 1 w of
        (Inl e, w') \<Rightarrow>
          if CodeOf e = Some CodeBoundsExceeded then (Inl (BridgeError CodeIMAPProtocol), w') else (Inl e, w')
      | (Inr uids, w') \<Rightarrow>
          if uids = [] then (Inl (BridgeError CodeStaleMessageID), w')
          else if length uids \<noteq> 1 \<or> hd uids \<noteq> uid then (Inl (BridgeError CodeIMAPProtocol), w')
          else (Inr (), w'))"

text \<open>The common head of the message reads: the mailbox generation and the UID are confirmed.\<close>

definition confirm_message :: "'w session_env \<Rightarrow> messageIDPayload \<Rightarrow> nat \<Rightarrow> ('w, unit) op" where
  "confirm_message env p s =
     bind_op (examine env s (p_Mailbox p)) (\<lambda>snapshot.
     if UIDValidity snapshot \<noteq> p_UIDValidity p then fail_op CodeStaleMessageID
     else requireMessageUID env s (p_UID p))"

definition metadata_operation :: "'w session_env \<Rightarrow> Bounds \<Rightarrow> bytes \<Rightarrow> messageIDPayload \<Rightarrow> nat \<Rightarrow>
    ('w, MessageMetadata) op" where
  "metadata_operation env b identifier p s =
     bind_op (confirm_message env p s) (\<lambda>_.
     bind_op (fetch_metadata env s (p_Mailbox p) [p_UID p] (MaxHeaderBytes b)) (\<lambda>metadata.
     if length metadata \<noteq> 1 \<or> m_uid (hd metadata) \<noteq> p_UID p then fail_op CodeStaleMessageID
     else return_op ((hd metadata)\<lparr>m_ID := identifier, m_Mailbox := p_Mailbox p,
       m_UIDValidity := p_UIDValidity p, m_UID := p_UID p\<rparr>)))"

definition GetMessageMetadata :: "'w session_env \<Rightarrow> (bytes \<Rightarrow> bytes) \<Rightarrow> (bytes \<Rightarrow> messageIDPayload option) \<Rightarrow>
    Bounds \<Rightarrow> go_error option \<Rightarrow> bytes \<Rightarrow> 'w adapter_state \<Rightarrow> (go_error + MessageMetadata) \<times> 'w adapter_state" where
  "GetMessageMetadata env mac unmarshal b acquired identifier st =
     (case decodeMessageID mac unmarshal identifier of
        Inl c \<Rightarrow> (Inl (BridgeError c), st)
      | Inr p \<Rightarrow> execute env acquired (metadata_operation env b identifier p) st)"

definition GetMessageBody :: "'w session_env \<Rightarrow> (bytes \<Rightarrow> bytes) \<Rightarrow> (bytes \<Rightarrow> messageIDPayload option) \<Rightarrow>
    Bounds \<Rightarrow> go_error option \<Rightarrow> bytes \<Rightarrow> 'w adapter_state \<Rightarrow> (go_error + bytes) \<times> 'w adapter_state" where
  "GetMessageBody env mac unmarshal b acquired identifier st =
     (case decodeMessageID mac unmarshal identifier of
        Inl c \<Rightarrow> (Inl (BridgeError c), st)
      | Inr p \<Rightarrow> execute env acquired (\<lambda>s. bind_op (confirm_message env p s) (\<lambda>_.
          fetch_body env s (p_UID p) (MaxBodyBytes b))) st)"

definition headers_operation :: "'w session_env \<Rightarrow> Bounds \<Rightarrow> bytes \<Rightarrow> messageIDPayload \<Rightarrow> nat \<Rightarrow>
    ('w, MessageHeaders) op" where
  "headers_operation env b identifier p s =
     (if \<not> is_header_session env s then fail_op CodeUnsupported
      else bind_op (confirm_message env p s) (\<lambda>_.
        bind_op (fetch_headers env s (p_UID p) (MaxHeaderBytes b)) (\<lambda>record.
        return_op (record\<lparr>mh_Metadata := (mh_Metadata record)\<lparr>m_ID := identifier, m_Mailbox := p_Mailbox p,
          m_UIDValidity := p_UIDValidity p, m_UID := p_UID p\<rparr>\<rparr>))))"

definition GetMessageHeaders :: "'w session_env \<Rightarrow> (bytes \<Rightarrow> bytes) \<Rightarrow> (bytes \<Rightarrow> messageIDPayload option) \<Rightarrow>
    Bounds \<Rightarrow> go_error option \<Rightarrow> bytes \<Rightarrow> 'w adapter_state \<Rightarrow> (go_error + MessageHeaders) \<times> 'w adapter_state" where
  "GetMessageHeaders env mac unmarshal b acquired identifier st =
     (case decodeMessageID mac unmarshal identifier of
        Inl c \<Rightarrow> (Inl (BridgeError c), st)
      | Inr p \<Rightarrow> execute env acquired (headers_operation env b identifier p) st)"

definition ListFolders :: "'w session_env \<Rightarrow> Bounds \<Rightarrow> go_error option \<Rightarrow> 'w adapter_state \<Rightarrow>
    (go_error + Folder list) \<times> 'w adapter_state" where
  "ListFolders env b acquired = execute env acquired (\<lambda>s. bind_op (list_folders env s (MaxFolderResults b)) (\<lambda>folders.
     if MaxFolderResults b < int (length folders) then fail_op CodeBoundsExceeded else return_op folders))"

definition MailStatus :: "'w session_env \<Rightarrow> go_error option \<Rightarrow> bytes \<Rightarrow> 'w adapter_state \<Rightarrow>
    (go_error + MailboxStatus) \<times> 'w adapter_state" where
  "MailStatus env acquired mailbox st =
     (if mailbox = [] then (Inl (BridgeError CodeMailboxNotFound), st)
      else if length mailbox > maxMailboxNameBytes then (Inl (BridgeError CodeBoundsExceeded), st)
      else execute env acquired (\<lambda>s. status_mailbox env s mailbox) st)"

section \<open>What the adapter relies on in a window search\<close>

lemma check_sorted_distinct:
  "distinct uids \<Longrightarrow> (\<forall>u \<in> set uids. 0 < u \<and> Start w \<le> u \<and> u \<le> End w \<and> previous \<noteq> Some u) \<Longrightarrow>
     check_sorted_uids w previous uids = None"
proof (induction w previous uids rule: check_sorted_uids.induct)
  case (2 w previous uid uids)
  then have "check_sorted_uids w (Some uid) uids = None" by (intro 2(1)) (auto simp: not_less)
  with 2(3) show ?case by (auto simp: not_less word_greater_zero_iff)
qed simp

text \<open>
  The contract of a session's window search. \<open>trusted\<close> delimits the answers the contract speaks of:
  an accepted result is a set of different UIDs inside a window that does not start at zero, within
  the limit the caller passed.
\<close>

locale window_search =
  fixes search :: "SearchQuery \<Rightarrow> uidWindow \<Rightarrow> int \<Rightarrow> ('w, uint32 list) op"
    and trusted :: "SearchQuery \<Rightarrow> uidWindow \<Rightarrow> 'w \<Rightarrow> bool"
  assumes accepted: "trusted q w x \<Longrightarrow> search q w lim x = (Inr uids, x') \<Longrightarrow>
      distinct uids \<and> int (length uids) \<le> lim \<and> lim \<le> int (width w) \<and>
      (\<forall>u \<in> set uids. 0 < u \<and> Start w \<le> u \<and> u \<le> End w)"
begin

lemma singleton_window:
  assumes "trusted q \<lparr>Start = u, End = u\<rparr> x" "search q \<lparr>Start = u, End = u\<rparr> 1 x = (Inr uids, x')"
  shows "uids = [] \<or> uids = [u]"
proof (cases uids)
  case (Cons v vs)
  with accepted [OF assms] show ?thesis by auto
qed simp

lemma require_decides:
  assumes env: "search_window env s = search"
    and t: "trusted emptyQuery \<lparr>Start = u, End = u\<rparr> x"
  shows "case search emptyQuery \<lparr>Start = u, End = u\<rparr> 1 x of
      (Inl e, x') \<Rightarrow> requireMessageUID env s u x =
        (Inl (if CodeOf e = Some CodeBoundsExceeded then BridgeError CodeIMAPProtocol else e), x')
    | (Inr uids, x') \<Rightarrow> requireMessageUID env s u x =
        (if uids = [u] then Inr () else Inl (BridgeError CodeStaleMessageID), x') \<and> set uids \<subseteq> {u}"
proof (cases "search emptyQuery \<lparr>Start = u, End = u\<rparr> 1 x")
  case (Pair r x')
  show ?thesis
  proof (cases r)
    case (Inl e)
    with Pair env show ?thesis by (simp add: requireMessageUID_def)
  next
    case (Inr uids)
    with singleton_window [OF t, of uids x'] Pair env show ?thesis
      by (auto simp: requireMessageUID_def)
  qed
qed

lemma selection_never_refuses:
  assumes "trusted q w x" "search q w (int (width w)) x = (Inr uids, x')"
  shows "selectHighestUIDs uids w budget = Inr (take budget (sort_descending uids))"
proof -
  from accepted [OF assms] have a: "distinct uids" "length uids \<le> width w"
    "\<forall>u \<in> set uids. 0 < u \<and> Start w \<le> u \<and> u \<le> End w" by auto
  have "distinct (sort_descending uids)" using a(1) by (simp add: sort_descending_def)
  then have "check_sorted_uids w None (sort_descending uids) = None"
    using a(3) by (intro check_sorted_distinct) (simp_all add: sort_descending_props)
  with a(2) show ?thesis by (simp add: selectHighestUIDs_def Let_def)
qed

end

text \<open>
  The IMAP session's window search as such an operation. The world holds the connection's budget and
  the state \<open>'n\<close> of the network; \<open>client\<close> stands for go-imap: it runs the command and yields the
  context, the reads made, the error and the decoded data.
\<close>

type_synonym 'n imap_client =
  "SearchQuery \<Rightarrow> uidWindow \<Rightarrow> 'n \<Rightarrow> (ctx_view \<times> read_section list \<times> go_error option \<times> SearchData option) \<times> 'n"

definition imap_search :: "'n imap_client \<Rightarrow> SearchQuery \<Rightarrow> uidWindow \<Rightarrow> int \<Rightarrow> (readBudgetConn \<times> 'n, uint32 list) op" where
  "imap_search client q w lim x = (case x of (c, n) \<Rightarrow>
     (case client q w n of ((ctx, wire, err, data), n') \<Rightarrow>
       (case UIDSearchWindow ctx w lim c wire err data of
          (Inl code, c') \<Rightarrow> (Inl (BridgeError code), (c', n'))
        | (Inr uids, c') \<Rightarrow> (Inr uids, (c', n')))))"

definition ordered_answer :: "'n imap_client \<Rightarrow> SearchQuery \<Rightarrow> uidWindow \<Rightarrow> readBudgetConn \<times> 'n \<Rightarrow> bool" where
  "ordered_answer client q w x = (case client q w (snd x) of ((ctx, wire, err, data), n') \<Rightarrow> data_ordered data)"

interpretation iw: window_search "imap_search client" "ordered_answer client" for client
proof
  fix q w x lim uids x'
  assume t: "ordered_answer client q w x" and s: "imap_search client q w lim x = (Inr uids, x')"
  obtain ctx wire err data n' where c: "client q w (snd x) = ((ctx, wire, err, data), n')" by (metis prod.exhaust)
  from s c obtain c' where u: "UIDSearchWindow ctx w lim (fst x) wire err data = (Inr uids, c')"
    by (auto simp: imap_search_def split: prod.splits sum.splits)
  have d: "data_ordered data" using t c by (simp add: ordered_answer_def)
  note U = UIDSearchWindow_accepts [OF u d]
  have "1 \<le> lim" using u by (simp add: UIDSearchWindow_def split: if_splits)
  with U have "0 < width w" by linarith
  then have "Start w \<noteq> 0" by (auto simp: width_def split: if_splits)
  then have "0 < u" if "Start w \<le> u" for u using that by (metis word_greater_zero_iff le_less_trans not_less)
  with U show "distinct uids \<and> int (length uids) \<le> lim \<and> lim \<le> int (width w) \<and>
      (\<forall>u \<in> set uids. 0 < u \<and> Start w \<le> u \<and> u \<le> End w)" by blast
qed

section \<open>Properties\<close>

text \<open>
  On an IMAP session whose decoded sets are ordered, \<^verbatim>\<open>requireMessageUID\<close> is decided by the
  answer alone: it succeeds exactly when the search for that single UID answers it, the identifier is
  stale exactly when the answer is empty, and nothing else can be answered; an exhausted budget is
  reported as a protocol error and every other error as it is.
\<close>

theorem requireMessageUID_decided:
  assumes "search_window env s = imap_search client" "ordered_answer client emptyQuery \<lparr>Start = u, End = u\<rparr> x"
  shows "case imap_search client emptyQuery \<lparr>Start = u, End = u\<rparr> 1 x of
      (Inl e, x') \<Rightarrow> requireMessageUID env s u x =
        (Inl (if CodeOf e = Some CodeBoundsExceeded then BridgeError CodeIMAPProtocol else e), x')
    | (Inr uids, x') \<Rightarrow> requireMessageUID env s u x =
        (if uids = [u] then Inr () else Inl (BridgeError CodeStaleMessageID), x') \<and> set uids \<subseteq> {u}"
  by (rule iw.require_decides [OF assms])

text \<open>
  On such a session the selection of the newest UIDs never refuses an accepted window: it yields
  the highest \<open>budget\<close> UIDs of the answer in descending order.
\<close>

theorem accepted_window_selected:
  assumes "ordered_answer client q w x" "imap_search client q w (int (width w)) x = (Inr uids, x')"
  shows "selectHighestUIDs uids w budget = Inr (take budget (sort_descending uids))"
  by (rule iw.selection_never_refuses [OF assms])

lemma confirm_message_Inr:
  assumes "confirm_message env p s x = (Inr u, x')"
  shows "\<exists>snapshot x1 x2. examine env s (p_Mailbox p) x = (Inr snapshot, x1) \<and> UIDValidity snapshot = p_UIDValidity p \<and>
    search_window env s emptyQuery \<lparr>Start = p_UID p, End = p_UID p\<rparr> 1 x1 = (Inr [p_UID p], x2)"
proof -
  from assms obtain snapshot x1 where e: "examine env s (p_Mailbox p) x = (Inr snapshot, x1)"
    "UIDValidity snapshot = p_UIDValidity p" and r: "requireMessageUID env s (p_UID p) x1 = (Inr u, x')"
    unfolding confirm_message_def bind_op_Inr by (auto simp: fail_op_def split: if_splits)
  from r have "\<exists>x2. search_window env s emptyQuery \<lparr>Start = p_UID p, End = p_UID p\<rparr> 1 x1 = (Inr [p_UID p], x2)"
    by (auto simp: requireMessageUID_def length_Suc_conv split: prod.splits sum.splits if_splits)
  with e show ?thesis by blast
qed

text \<open>
  \<^verbatim>\<open>GetMessageMetadata\<close> returns only what it confirmed in the same attempt on one session: the
  identifier decodes, a fresh EXAMINE of its mailbox returned its UIDVALIDITY, a search for its UID
  answered exactly that UID, and one FETCH of it returned one message with that UID; the result is
  that message under the identifier presented.
\<close>

theorem GetMessageMetadata_confirmed:
  assumes "GetMessageMetadata env mac unmarshal b acquired identifier (a, w) = (Inr m, st')"
  shows "\<exists>p. decodeMessageID mac unmarshal identifier = Inr p \<and> m_ID m = identifier \<and> m_Mailbox m = p_Mailbox p \<and>
    m_UIDValidity m = p_UIDValidity p \<and> m_UID m = p_UID p \<and> m_uid m = p_UID p \<and>
    (\<exists>s x0 x1 x2 x3 x4 snapshot. examine env s (p_Mailbox p) x0 = (Inr snapshot, x1) \<and>
       UIDValidity snapshot = p_UIDValidity p \<and>
       search_window env s emptyQuery \<lparr>Start = p_UID p, End = p_UID p\<rparr> 1 x1 = (Inr [p_UID p], x2) \<and>
       (\<exists>m'. fetch_metadata env s (p_Mailbox p) [p_UID p] (MaxHeaderBytes b) x3 = (Inr [m'], x4) \<and>
          m = m'\<lparr>m_ID := identifier, m_Mailbox := p_Mailbox p, m_UIDValidity := p_UIDValidity p, m_UID := p_UID p\<rparr>))"
proof -
  from assms obtain p where p: "decodeMessageID mac unmarshal identifier = Inr p"
    and e: "execute env acquired (metadata_operation env b identifier p) (a, w) = (Inr m, st')"
    by (auto simp: GetMessageMetadata_def split: sum.splits)
  from execute_Inr [OF e] obtain s x x' where o: "metadata_operation env b identifier p s x = (Inr m, x')" by blast
  from o obtain u x1 metadata x2 where c: "confirm_message env p s x = (Inr u, x1)"
    and f: "fetch_metadata env s (p_Mailbox p) [p_UID p] (MaxHeaderBytes b) x1 = (Inr metadata, x2)"
    and r: "length metadata = 1" "m_uid (hd metadata) = p_UID p"
      "m = (hd metadata)\<lparr>m_ID := identifier, m_Mailbox := p_Mailbox p,
       m_UIDValidity := p_UIDValidity p, m_UID := p_UID p\<rparr>"
    unfolding metadata_operation_def bind_op_Inr
    by (elim exE conjE) (simp add: fail_op_def return_op_def split: if_splits)
  from r(1) have "metadata = [hd metadata]" by (cases metadata) simp_all
  with f have f': "fetch_metadata env s (p_Mailbox p) [p_UID p] (MaxHeaderBytes b) x1 = (Inr [hd metadata], x2)" by simp
  from confirm_message_Inr [OF c] f' p r show ?thesis by (intro exI [of _ p]) (simp, blast)
qed

lemma SearchMailPage_items:
  assumes "SearchMailPage env mac b acquired query (a, w) = (Inr page, st')" "m \<in> set (Messages page)"
  shows "page_item mac (sq_Mailbox query) (m_UIDValidity m) m"
  using assms(1)
proof (rule SearchMailPage_Inr)
  fix s x snapshot x1 st x2
  assume b: "2 \<le> MaxOutputBytes b"
    and sw: "search_windows env mac b s query (UIDValidity snapshot) maxSearchWindows
       \<lparr>attemptResults = [], attemptOutputBytes = 2, omitted = False, remaining_uids = UIDNext snapshot\<rparr> x1 = (Inr st, x2)"
    and page: "page = \<lparr>Messages = attemptResults st, Truncated = (omitted st \<or> 1 < remaining_uids st)\<rparr>"
  have "page_inv mac (sq_Mailbox query) (UIDValidity snapshot) b (UIDNext snapshot) st"
    using search_windows_inv [OF sw page_inv_init [OF b]] by blast
  then have "page_item mac (sq_Mailbox query) (UIDValidity snapshot) m"
    using assms(2) page by (auto simp: page_inv_def list_all_iff)
  then show ?thesis unfolding page_item_def by metis
qed

text \<open>
  Identifiers of a page resolve: when the JSON decoder reads back what was encoded, the identifier
  of every message on a page decodes to the mailbox searched and to that message's UIDVALIDITY and UID.
\<close>

theorem page_identifiers_resolve:
  assumes "SearchMailPage env mac b acquired query (a, w) = (Inr page, st')" "m \<in> set (Messages page)"
    and "\<And>t. length (mac t) = 32"
    and "unmarshal (marshal_payload \<lparr>p_Mailbox = sq_Mailbox query, p_UIDValidity = m_UIDValidity m, p_UID = m_UID m\<rparr>) =
      Some \<lparr>p_Mailbox = sq_Mailbox query, p_UIDValidity = m_UIDValidity m, p_UID = m_UID m\<rparr>"
  shows "decodeMessageID mac unmarshal (m_ID m) =
    Inr \<lparr>p_Mailbox = sq_Mailbox query, p_UIDValidity = m_UIDValidity m, p_UID = m_UID m\<rparr>"
proof (rule decode_encodeMessageID)
  show "encodeMessageID mac \<lparr>p_Mailbox = sq_Mailbox query, p_UIDValidity = m_UIDValidity m, p_UID = m_UID m\<rparr> = Inr (m_ID m)"
    using SearchMailPage_items [OF assms(1,2)] unfolding page_item_def by blast
qed (simp_all add: assms(3,4))

text \<open>
  A folder list that is returned has at most \<^verbatim>\<open>MaxFolderResults\<close> entries, whatever the session
  answers.
\<close>

theorem ListFolders_bounded:
  assumes "ListFolders env b acquired (a, w) = (Inr folders, st')"
  shows "int (length folders) \<le> MaxFolderResults b \<and> (\<exists>s x x'. list_folders env s (MaxFolderResults b) x = (Inr folders, x'))"
proof -
  from execute_Inr [OF assms [unfolded ListFolders_def]] show ?thesis
    by (auto simp: bind_op_Inr fail_op_def return_op_def split: if_splits)
qed

section \<open>Witnesses\<close>

definition sample_client :: "nat imap_client" where
  "sample_client q w n = ((live_ctx, [Filled ''* SEARCH '', Filled (''9'' @ CRLF)], None,
     Some \<lparr>All = Some (UIDSet [(9, 9)]), Min = 0, Max = 0, Count = 0\<rparr>), n + 1)"

definition sample_world :: "readBudgetConn \<times> nat" where
  "sample_world = (newReadBudgetConn 65536, 0)"

definition imap_env :: "(readBudgetConn \<times> nat) session_env" where
  "imap_env = \<lparr>op_view = (\<lambda>w. live_ctx), open_session = (\<lambda>w. (Inr 0, w)),
     abort_session = (\<lambda>s w. w), logout_session = (\<lambda>s w. (None, w)),
     examine = (\<lambda>s m w. (Inr \<lparr>UIDNext = 200, UIDValidity = 9\<rparr>, w)), search_window = (\<lambda>s. imap_search sample_client),
     fetch_metadata = (\<lambda>s m u n w. (Inr (map sample_metadata u), w)), fetch_body = (\<lambda>s u n w. (Inr ''body'', w)),
     list_folders = (\<lambda>s n w. (Inr [\<lparr>f_Name = ''INBOX'', f_Delimiter = ''/''\<rparr>], w)),
     status_mailbox = (\<lambda>s m w. (Inl EOF_Error, w)),
     is_header_session = (\<lambda>s. False), fetch_headers = (\<lambda>s u n w. (Inl EOF_Error, w)),
     is_seen_session = (\<lambda>s. True), is_move_session = (\<lambda>s. True),
     select_source = (\<lambda>s m w. (Inr \<lparr>UIDNext = 200, UIDValidity = 9\<rparr>, w)), store_seen = (\<lambda>s u b w. (None, w)),
     supports_move = (\<lambda>s w. True), list_mailboxes = (\<lambda>s p n w. (Inr [], w)),
     move_uid = (\<lambda>s u d w. (None, w))\<rparr>"

lemma sample_client_ordered: "ordered_answer sample_client q w x"
  by (simp add: ordered_answer_def sample_client_def data_ordered_def ordered_set_def)

theorem requireMessageUID_decided_witness:
  "fst (requireMessageUID imap_env 0 9 sample_world) = Inr ()"
proof -
  have env: "search_window imap_env 0 = imap_search sample_client" by (simp add: imap_env_def)
  have r: "fst (imap_search sample_client emptyQuery \<lparr>Start = 9, End = 9\<rparr> 1 sample_world) = Inr [9]" by code_simp
  obtain x' where x: "imap_search sample_client emptyQuery \<lparr>Start = 9, End = 9\<rparr> 1 sample_world = (Inr [9], x')"
    using r by (metis prod.collapse)
  from requireMessageUID_decided [OF env sample_client_ordered, of 9 sample_world] show ?thesis
    unfolding x by simp
qed

theorem accepted_window_selected_witness:
  "selectHighestUIDs [9] \<lparr>Start = 9, End = 9\<rparr> 1 = Inr [9]"
proof -
  have r: "fst (imap_search sample_client emptyQuery \<lparr>Start = 9, End = 9\<rparr> 1 sample_world) = Inr [9]" by code_simp
  have w: "width \<lparr>Start = 9, End = 9\<rparr> = 1" by code_simp
  obtain x' where x: "imap_search sample_client emptyQuery \<lparr>Start = 9, End = 9\<rparr> (int (width \<lparr>Start = 9, End = 9\<rparr>)) sample_world = (Inr [9], x')"
    using r w by (metis prod.collapse of_nat_1)
  from accepted_window_selected [OF sample_client_ordered x, of 1] show ?thesis
    by (simp add: sort_descending_def)
qed

definition sample_id :: bytes where
  "sample_id = projr (encodeMessageID sample_mac sample_payload)"

lemma sample_metadata_run:
  "\<exists>m st'. GetMessageMetadata imap_env sample_mac (\<lambda>m. Some (sample_payload\<lparr>p_UID := 9\<rparr>)) defaultBounds None sample_id
     (newAdapter, sample_world) = (Inr m, st')"
proof -
  let ?r = "GetMessageMetadata imap_env sample_mac (\<lambda>m. Some (sample_payload\<lparr>p_UID := 9\<rparr>)) defaultBounds None sample_id
     (newAdapter, sample_world)"
  have "isl (fst ?r) = False" by code_simp
  then show ?thesis by (metis prod.collapse sum.collapse(2))
qed

theorem GetMessageMetadata_confirmed_witness:
  "\<exists>m st'. GetMessageMetadata imap_env sample_mac (\<lambda>m. Some (sample_payload\<lparr>p_UID := 9\<rparr>)) defaultBounds None sample_id
     (newAdapter, sample_world) = (Inr m, st') \<and> m_ID m = sample_id"
proof -
  from sample_metadata_run obtain m st' where r: "GetMessageMetadata imap_env sample_mac (\<lambda>m. Some (sample_payload\<lparr>p_UID := 9\<rparr>))
     defaultBounds None sample_id (newAdapter, sample_world) = (Inr m, st')" by blast
  from GetMessageMetadata_confirmed [OF this] have "m_ID m = sample_id" by blast
  with r show ?thesis by blast
qed

text \<open>A decoder that reads back every payload of the sample mailbox.\<close>

definition payload_inverse :: "bytes \<Rightarrow> messageIDPayload option" where
  "payload_inverse m = (if m = marshal_payload \<lparr>p_Mailbox = ''INBOX'', p_UIDValidity = 9, p_UID = 150\<rparr>
     then Some \<lparr>p_Mailbox = ''INBOX'', p_UIDValidity = 9, p_UID = 150\<rparr> else None)"

theorem page_identifiers_resolve_witness:
  "decodeMessageID sample_mac payload_inverse (m_ID (hd (Messages sample_page))) =
     Inr \<lparr>p_Mailbox = ''INBOX'', p_UIDValidity = 9, p_UID = 150\<rparr>"
proof -
  let ?m = "hd (Messages sample_page)"
  have m: "?m \<in> set (Messages sample_page) \<and> m_UIDValidity ?m = 9 \<and> m_UID ?m = 150"
    unfolding list.set_sel(1) by code_simp
  have q: "sq_Mailbox sample_query = ''INBOX''" by (simp add: sample_query_def)
  have mac: "length (sample_mac t) = 32" for t by (simp add: sample_mac_def)
  have u: "payload_inverse (marshal_payload \<lparr>p_Mailbox = sq_Mailbox sample_query, p_UIDValidity = m_UIDValidity ?m, p_UID = m_UID ?m\<rparr>) =
      Some \<lparr>p_Mailbox = sq_Mailbox sample_query, p_UIDValidity = m_UIDValidity ?m, p_UID = m_UID ?m\<rparr>"
    using m q by (simp add: payload_inverse_def)
  from page_identifiers_resolve [where unmarshal = payload_inverse, OF sample_page_run conjunct1 [OF m] mac u] show ?thesis using m q by simp
qed

theorem ListFolders_bounded_witness:
  "int (length [\<lparr>f_Name = ''INBOX'', f_Delimiter = ''/''\<rparr>]) \<le> MaxFolderResults defaultBounds"
proof -
  have r: "fst (ListFolders imap_env defaultBounds None (newAdapter, sample_world)) = Inr [\<lparr>f_Name = ''INBOX'', f_Delimiter = ''/''\<rparr>]"
    by code_simp
  obtain st' where "ListFolders imap_env defaultBounds None (newAdapter, sample_world) = (Inr [\<lparr>f_Name = ''INBOX'', f_Delimiter = ''/''\<rparr>], st')"
    using r by (metis prod.collapse)
  from ListFolders_bounded [OF this] show ?thesis by blast
qed

end
