(* ===== verification/Structure_Session.thy ===== *)
theory Structure_Session
  imports Structure_Quarantine Mail_Reads
begin

text \<open>
  The dedicated structure session of \<^verbatim>\<open>bridge/structure_session.go\<close>: a state machine around the
  quarantine that logs in, examines a mailbox, confirms one UID and dispatches one FETCH, and
  \<^verbatim>\<open>readStructure\<close>, which runs it once. The IMAP client and the credential helper are the fields
  of an environment; they share the world, the quarantine and a network of type \<open>'n\<close>.
\<close>

section \<open>Deadlines of the operation\<close>

text \<open>\<^verbatim>\<open>operationConn.bound\<close>: \<open>None\<close> is the zero time, which means no deadline.\<close>

definition operation_bound :: "int \<Rightarrow> int option \<Rightarrow> int" where
  "operation_bound limit d = (case d of None \<Rightarrow> limit | Some t \<Rightarrow> if limit < t then limit else t)"

text \<open>\<^verbatim>\<open>operationConn.Read\<close>: the error a failed read reports, given the context and the clock then.\<close>

definition operation_read_error :: "ctx_error option \<Rightarrow> int \<Rightarrow> int \<Rightarrow> go_error \<Rightarrow> go_error" where
  "operation_read_error ended now limit e = (case ended of
      Some Canceled \<Rightarrow> ContextCanceled
    | Some DeadlineExceeded \<Rightarrow> ContextDeadlineExceeded
    | None \<Rightarrow> if \<not> now < limit then ContextDeadlineExceeded else e)"

section \<open>The session\<close>

datatype structureSessionState =
  structureConnected | structureAuthenticated | structureSelected | structureDispatched | structureClosed

record structureSession =
  ss_uid :: uint32
  ss_state :: structureSessionState

type_synonym 'n qworld = "structureQuarantine \<times> 'n"

type_synonym 'n ss_world = "structureSession \<times> 'n qworld"

text \<open>The calls that leave the session's own code.\<close>

record ('n, 's) structure_env =
  se_session :: "'n qworld session_env"
  se_credentials :: "'n qworld \<Rightarrow> go_error option \<times> 'n qworld"
  se_authenticate :: "'n qworld \<Rightarrow> go_error option \<times> 'n qworld"
  se_fetch :: "uint32 \<Rightarrow> 'n qworld \<Rightarrow> (go_error + 's) \<times> 'n qworld"
  se_close :: "'n qworld \<Rightarrow> 'n qworld"

record structureRequest =
  rq_Mailbox :: bytes
  rq_UID :: uint32
  rq_UIDValidity :: uint32

record 's selectedStructure =
  sel_Snapshot :: mailboxSnapshot
  sel_Structure :: 's

text \<open>\<^verbatim>\<open>advance(from, to)\<close>: whether it was refused, and the session it leaves.\<close>

definition advance :: "structureSessionState \<Rightarrow> structureSessionState \<Rightarrow> structureSession \<Rightarrow> code option \<times> structureSession" where
  "advance before after s =
     (if ss_state s \<noteq> before then (Some CodeIMAPProtocol, s) else (None, s\<lparr>ss_state := after\<rparr>))"

definition finish :: "structureSession \<Rightarrow> bool \<times> structureSession" where
  "finish s = (if ss_state s = structureClosed then (False, s) else (True, s\<lparr>ss_state := structureClosed\<rparr>))"

definition terminalError :: "structureQuarantine \<Rightarrow> code option" where
  "terminalError q = qterminal q"

text \<open>\<^verbatim>\<open>refusal(ctx, err)\<close> for an error that is not nil.\<close>

definition refusal :: "('n, 's) structure_env \<Rightarrow> 'n qworld \<Rightarrow> go_error \<Rightarrow> go_error" where
  "refusal env x e = (case terminalError (fst x) of
      Some c \<Rightarrow> BridgeError c
    | None \<Rightarrow> mapped (se_session env) x e)"

definition ss_Authenticate :: "('n, 's) structure_env \<Rightarrow> 'n ss_world \<Rightarrow> go_error option \<times> 'n ss_world" where
  "ss_Authenticate env w = (case w of (s, x) \<Rightarrow>
     (case advance structureConnected structureAuthenticated s of
        (Some c, s') \<Rightarrow> (Some (BridgeError c), (s', x))
      | (None, s') \<Rightarrow> (case se_authenticate env x of
          (None, x') \<Rightarrow> (None, (s', x'))
        | (Some e, x') \<Rightarrow> (Some (refusal env x' e), (s', x')))))"

definition ss_Examine :: "('n, 's) structure_env \<Rightarrow> bytes \<Rightarrow> 'n ss_world \<Rightarrow>
    (go_error + mailboxSnapshot) \<times> 'n ss_world" where
  "ss_Examine env mailbox w = (case w of (s, x) \<Rightarrow>
     (case advance structureAuthenticated structureSelected s of
        (Some c, s') \<Rightarrow> (Inl (BridgeError c), (s', x))
      | (None, s') \<Rightarrow> (case examine (se_session env) 0 mailbox x of
          (Inl e, x1) \<Rightarrow> (Inl (refusal env x1 e), (s', x1))
        | (Inr snapshot, x1) \<Rightarrow> (case requireMessageUID (se_session env) 0 (ss_uid s) x1 of
            (Inl e, x2) \<Rightarrow> (Inl (refusal env x2 e), (s', x2))
          | (Inr u, x2) \<Rightarrow> (Inr snapshot, (s', x2))))))"

definition ss_FetchStructure :: "('n, 's) structure_env \<Rightarrow> 'n ss_world \<Rightarrow> (go_error + 's) \<times> 'n ss_world" where
  "ss_FetchStructure env w = (case w of (s, (q, n)) \<Rightarrow>
     (case advance structureSelected structureDispatched s of
        (Some c, s') \<Rightarrow> (Inl (BridgeError c), (s', (q, n)))
      | (None, s') \<Rightarrow> (case beginDispatch q of
          (q', Some c) \<Rightarrow> (Inl (BridgeError c), (s', (q', n)))
        | (q', None) \<Rightarrow> (case se_fetch env (ss_uid s) (q', n) of
            (Inl e, x') \<Rightarrow> (Inl (refusal env x' e), (s', x'))
          | (Inr r, x') \<Rightarrow> (Inr r, (s', x'))))))"

definition ss_Close :: "('n, 's) structure_env \<Rightarrow> 'n ss_world \<Rightarrow> go_error option \<times> 'n ss_world" where
  "ss_Close env w = (case w of (s, x) \<Rightarrow>
     (case finish s of
        (False, s') \<Rightarrow> (None, (s', x))
      | (True, s') \<Rightarrow> (case logout_session (se_session env) 0 x of
          (None, x') \<Rightarrow> (None, (s', x'))
        | (Some e, x') \<Rightarrow> (Some (refusal env x' e), (s', x')))))"

definition ss_Abort :: "('n, 's) structure_env \<Rightarrow> go_error option \<Rightarrow> 'n ss_world \<Rightarrow> 'n ss_world" where
  "ss_Abort env cause w = (case w of (s, (q, n)) \<Rightarrow>
     (case finish s of
        (False, s') \<Rightarrow> (s', (q, n))
      | (True, s') \<Rightarrow> (s', se_close env (fst (abort cause q), n))))"

section \<open>One read\<close>

definition run_session :: "('n, 's) structure_env \<Rightarrow> structureRequest \<Rightarrow> 'n ss_world \<Rightarrow>
    (go_error + 's selectedStructure) \<times> 'n ss_world" where
  "run_session env request w = (case w of (s, x) \<Rightarrow>
     (case se_credentials env x of
        (Some e, x1) \<Rightarrow> (Inl e, (s, x1))
      | (None, x1) \<Rightarrow> (case ss_Authenticate env (s, x1) of
          (Some e, w2) \<Rightarrow> (Inl e, w2)
        | (None, w2) \<Rightarrow> (case ss_Examine env (rq_Mailbox request) w2 of
            (Inl e, w3) \<Rightarrow> (Inl e, w3)
          | (Inr snapshot, w3) \<Rightarrow>
              if rq_UIDValidity request \<noteq> 0 \<and> UIDValidity snapshot \<noteq> rq_UIDValidity request
              then (Inl (BridgeError CodeStaleMessageID), w3)
              else (case ss_FetchStructure env w3 of
                  (Inl e, w4) \<Rightarrow> (Inl e, w4)
                | (Inr r, w4) \<Rightarrow> (Inr \<lparr>sel_Snapshot = snapshot, sel_Structure = r\<rparr>, w4))))))"

text \<open>
  \<^verbatim>\<open>newStructureSessionOver\<close> on an established transport under an operation with a deadline; \<open>start\<close>
  is \<^verbatim>\<open>startClient\<close>. A failed start leaves no session.
\<close>

definition newStructureSessionOver :: "('n, 's) structure_env \<Rightarrow> ('n qworld \<Rightarrow> go_error option \<times> 'n qworld) \<Rightarrow>
    uint32 \<Rightarrow> 'n \<Rightarrow> go_error + 'n ss_world" where
  "newStructureSessionOver env start uid n =
     (case newStructureQuarantine True uid of
        Inl c \<Rightarrow> Inl (BridgeError c)
      | Inr q \<Rightarrow> (case start (q, n) of
          (Some e, x) \<Rightarrow> Inl (refusal env x e)
        | (None, x) \<Rightarrow> Inr (\<lparr>ss_uid = uid, ss_state = structureConnected\<rparr>, x)))"

text \<open>
  \<^verbatim>\<open>readStructure\<close>; \<open>dial\<close> is \<^verbatim>\<open>Dial\<close> with \<^verbatim>\<open>takeConn\<close>. The last component is the session at the end,
  if there was one.
\<close>

definition readStructure :: "('n, 's) structure_env \<Rightarrow> ('n \<Rightarrow> go_error option \<times> 'n) \<Rightarrow>
    ('n qworld \<Rightarrow> go_error option \<times> 'n qworld) \<Rightarrow> structureRequest \<Rightarrow> 'n \<Rightarrow>
    (go_error + 's selectedStructure) \<times> 'n ss_world option" where
  "readStructure env dial start request n =
     (if rq_UID request = 0 then (Inl (BridgeError CodeInvalidRequest), None)
      else (case dial n of
        (Some e, n1) \<Rightarrow> (Inl e, None)
      | (None, n1) \<Rightarrow> (case newStructureSessionOver env start (rq_UID request) n1 of
          Inl e \<Rightarrow> (Inl e, None)
        | Inr w \<Rightarrow> (case run_session env request w of
            (Inl e, w1) \<Rightarrow>
              (let e' = refusal env (snd w1) e in (Inl e', Some (ss_Abort env (Some e') w1)))
          | (Inr r, w1) \<Rightarrow> (case ss_Close env w1 of
              (Some e, w2) \<Rightarrow> (Inl e, Some w2)
            | (None, w2) \<Rightarrow> (Inr r, Some w2))))))"

section \<open>Callers in any order\<close>

text \<open>The exported calls, and a session that any sequence of them has led to.\<close>

datatype session_call = CallAuthenticate | CallExamine bytes | CallFetch | CallClose | CallAbort "go_error option"

fun session_step :: "('n, 's) structure_env \<Rightarrow> session_call \<Rightarrow> 'n ss_world \<Rightarrow> 'n ss_world" where
  "session_step env CallAuthenticate w = snd (ss_Authenticate env w)"
| "session_step env (CallExamine m) w = snd (ss_Examine env m w)"
| "session_step env CallFetch w = snd (ss_FetchStructure env w)"
| "session_step env CallClose w = snd (ss_Close env w)"
| "session_step env (CallAbort cause) w = ss_Abort env cause w"

inductive session_run :: "('n, 's) structure_env \<Rightarrow> uint32 \<Rightarrow> 'n qworld \<Rightarrow> 'n ss_world \<Rightarrow> bool"
  for env uid x where
  connected: "session_run env uid x (\<lparr>ss_uid = uid, ss_state = structureConnected\<rparr>, x)"
| called: "session_run env uid x w \<Longrightarrow> session_run env uid x (session_step env call w)"

end
