(* ===== verification/Structure_Dialogue.thy ===== *)
theory Structure_Dialogue
  imports Structure_Session
begin

text \<open>
  What a structure session says to the server, whatever order its methods are called in, and what a
  read that succeeds has confirmed.
\<close>

section \<open>Making the client's calls visible\<close>

datatype client_call = LoginCall | ExamineCall bytes | SearchCall uint32 uint32 | FetchCall uint32 | LogoutCall | CloseCall

definition quiet :: "('n qworld \<Rightarrow> 'r \<times> 'n qworld) \<Rightarrow> ('n \<times> 'l) qworld \<Rightarrow> 'r \<times> ('n \<times> 'l) qworld" where
  "quiet f x = (case x of (q, (n, l)) \<Rightarrow> (case f (q, n) of (r, (q', n')) \<Rightarrow> (r, (q', (n', l)))))"

definition said :: "'d \<Rightarrow> ('n qworld \<Rightarrow> 'r \<times> 'n qworld) \<Rightarrow> ('n \<times> 'd list) qworld \<Rightarrow> 'r \<times> ('n \<times> 'd list) qworld" where
  "said d f x = (case x of (q, (n, l)) \<Rightarrow> (case f (q, n) of (r, (q', n')) \<Rightarrow> (r, (q', (n', l @ [d])))))"

definition unlogged :: "('n \<times> 'l) qworld \<Rightarrow> 'n qworld" where
  "unlogged x = (fst x, fst (snd x))"

definition traced_session :: "'n qworld session_env \<Rightarrow> ('n \<times> client_call list) qworld session_env" where
  "traced_session env = \<lparr>op_view = (\<lambda>x. op_view env (unlogged x)), open_session = quiet (open_session env),
     abort_session = (\<lambda>s x. snd (quiet (\<lambda>y. ((), abort_session env s y)) x)),
     logout_session = (\<lambda>s. said LogoutCall (logout_session env s)),
     examine = (\<lambda>s m. said (ExamineCall m) (examine env s m)),
     search_window = (\<lambda>s q u n. said (SearchCall (Start u) (End u)) (search_window env s q u n)),
     fetch_metadata = (\<lambda>s m u n. quiet (fetch_metadata env s m u n)),
     fetch_body = (\<lambda>s u n. quiet (fetch_body env s u n)),
     list_folders = (\<lambda>s n. quiet (list_folders env s n)),
     status_mailbox = (\<lambda>s m. quiet (status_mailbox env s m)),
     is_header_session = is_header_session env,
     fetch_headers = (\<lambda>s u n. quiet (fetch_headers env s u n)),
     is_seen_session = is_seen_session env, is_move_session = is_move_session env,
     select_source = (\<lambda>s m. quiet (select_source env s m)),
     store_seen = (\<lambda>s u b. quiet (store_seen env s u b)),
     supports_move = (\<lambda>s x. supports_move env s (unlogged x)),
     list_mailboxes = (\<lambda>s p n. quiet (list_mailboxes env s p n)),
     move_uid = (\<lambda>s u d. quiet (move_uid env s u d))\<rparr>"

definition traced_structure :: "('n, 's) structure_env \<Rightarrow> ('n \<times> client_call list, 's) structure_env" where
  "traced_structure env = \<lparr>se_session = traced_session (se_session env),
     se_credentials = quiet (se_credentials env), se_authenticate = said LoginCall (se_authenticate env),
     se_fetch = (\<lambda>uid. said (FetchCall uid) (se_fetch env uid)),
     se_close = (\<lambda>x. snd (said CloseCall (\<lambda>y. ((), se_close env y)) x))\<rparr>"

definition spoken :: "('n \<times> 'd list) qworld \<Rightarrow> 'd list" where
  "spoken x = snd (snd x)"

lemma spoken_simp [simp]: "spoken (q, (n, l)) = l"
  by (simp add: spoken_def)

lemma said_spoken: "said d f x = (r, x') \<Longrightarrow> spoken x' = spoken x @ [d]"
  by (auto simp: said_def split: prod.splits)

lemma quiet_spoken: "quiet f x = (r, x') \<Longrightarrow> spoken x' = spoken x"
  by (auto simp: quiet_def split: prod.splits)

lemma spoken_update: "spoken (q', snd x) = spoken x"
  by (simp add: spoken_def)

lemma traced_calls:
  "se_authenticate (traced_structure env) x = (e, x') \<Longrightarrow> spoken x' = spoken x @ [LoginCall]"
  "examine (se_session (traced_structure env)) s m x = (e1, x') \<Longrightarrow> spoken x' = spoken x @ [ExamineCall m]"
  "se_fetch (traced_structure env) uid x = (e2, x') \<Longrightarrow> spoken x' = spoken x @ [FetchCall uid]"
  "logout_session (se_session (traced_structure env)) s x = (e3, x') \<Longrightarrow> spoken x' = spoken x @ [LogoutCall]"
  by (simp_all add: traced_structure_def traced_session_def said_spoken)

lemma traced_close: "spoken (se_close (traced_structure env) x) = spoken x @ [CloseCall]"
  by (auto simp: traced_structure_def said_def split: prod.split)

lemma traced_require:
  "requireMessageUID (se_session (traced_structure env)) s uid x = (r, x') \<Longrightarrow> spoken x' = spoken x @ [SearchCall uid uid]"
  by (auto simp: requireMessageUID_def traced_structure_def traced_session_def dest: said_spoken
      split: prod.splits sum.splits if_splits)

section \<open>The dialogue\<close>

text \<open>What may have been said in each state of a session for \<open>uid\<close>.\<close>

definition selected_dialogue :: "uint32 \<Rightarrow> client_call list \<Rightarrow> bool" where
  "selected_dialogue uid l \<longleftrightarrow> (\<exists>m. l = [LoginCall, ExamineCall m] \<or> l = [LoginCall, ExamineCall m, SearchCall uid uid])"

definition open_dialogue :: "uint32 \<Rightarrow> structureSessionState \<Rightarrow> client_call list \<Rightarrow> bool" where
  "open_dialogue uid st l = (case st of
      structureConnected \<Rightarrow> l = []
    | structureAuthenticated \<Rightarrow> l = [LoginCall]
    | structureSelected \<Rightarrow> selected_dialogue uid l
    | structureDispatched \<Rightarrow> (\<exists>k. selected_dialogue uid k \<and> (l = k \<or> l = k @ [FetchCall uid]))
    | structureClosed \<Rightarrow> False)"

definition dialogue :: "uint32 \<Rightarrow> structureSessionState \<Rightarrow> client_call list \<Rightarrow> bool" where
  "dialogue uid st l \<longleftrightarrow>
     (if st = structureClosed
      then (\<exists>k before. open_dialogue uid before k \<and> (l = k @ [LogoutCall] \<or> l = k @ [CloseCall]))
      else open_dialogue uid st l)"

definition session_ok :: "uint32 \<Rightarrow> ('n \<times> client_call list) ss_world \<Rightarrow> bool" where
  "session_ok uid w \<longleftrightarrow> ss_uid (fst w) = uid \<and> dialogue uid (ss_state (fst w)) (spoken (snd w))"

lemma advance_cases:
  "advance before after s = (r, s') \<Longrightarrow>
     r = Some CodeIMAPProtocol \<and> s' = s \<or> r = None \<and> ss_state s = before \<and> s' = s\<lparr>ss_state := after\<rparr>"
  by (auto simp: advance_def split: if_splits)

lemma authenticate_ok:
  assumes "session_ok uid w"
  shows "session_ok uid (snd (ss_Authenticate (traced_structure env) w))"
proof -
  obtain s x where w: "w = (s, x)" by (cases w)
  obtain r s' where ad: "advance structureConnected structureAuthenticated s = (r, s')" by (metis prod.exhaust)
  show ?thesis
  proof (cases r)
    case (Some c)
    with advance_cases [OF ad] ad w assms show ?thesis by (simp add: ss_Authenticate_def)
  next
    case None
    obtain e x' where c: "se_authenticate (traced_structure env) x = (e, x')" by (metis prod.exhaust)
    from advance_cases [OF ad] None have st: "ss_state s = structureConnected" "s' = s\<lparr>ss_state := structureAuthenticated\<rparr>" by auto
    have "snd (ss_Authenticate (traced_structure env) w) = (s', x')"
      using w ad None c by (simp add: ss_Authenticate_def split: option.split)
    then show ?thesis using assms w st traced_calls(1) [OF c]
      by (simp add: session_ok_def dialogue_def open_dialogue_def)
  qed
qed

lemma examine_ok:
  assumes "session_ok uid w"
  shows "session_ok uid (snd (ss_Examine (traced_structure env) m w))"
proof -
  obtain s x where w: "w = (s, x)" by (cases w)
  obtain r s' where ad: "advance structureAuthenticated structureSelected s = (r, s')" by (metis prod.exhaust)
  show ?thesis
  proof (cases r)
    case (Some c)
    with advance_cases [OF ad] ad w assms show ?thesis by (simp add: ss_Examine_def)
  next
    case None
    from advance_cases [OF ad] None have st: "ss_state s = structureAuthenticated" "s' = s\<lparr>ss_state := structureSelected\<rparr>" by auto
    have l: "spoken x = [LoginCall]" "ss_uid s = uid" using assms w st
      by (simp_all add: session_ok_def dialogue_def open_dialogue_def)
    obtain e x1 where c: "examine (se_session (traced_structure env)) 0 m x = (e, x1)" by (metis prod.exhaust)
    have x1: "spoken x1 = [LoginCall, ExamineCall m]" using traced_calls(2) [OF c] l by simp
    obtain v x2 where d: "requireMessageUID (se_session (traced_structure env)) 0 (ss_uid s) x1 = (v, x2)" by (metis prod.exhaust)
    have x2: "spoken x2 = [LoginCall, ExamineCall m, SearchCall uid uid]" using traced_require [OF d] x1 l by simp
    have "snd (ss_Examine (traced_structure env) m w) = (s', x1) \<or> snd (ss_Examine (traced_structure env) m w) = (s', x2)"
      using w ad None c d by (cases e; cases v) (simp_all add: ss_Examine_def)
    then show ?thesis using st l x1 x2
      by (auto simp: session_ok_def dialogue_def open_dialogue_def selected_dialogue_def)
  qed
qed

lemma fetch_ok:
  assumes "session_ok uid w"
  shows "session_ok uid (snd (ss_FetchStructure (traced_structure env) w))"
proof -
  obtain s q n where w: "w = (s, (q, n))" by (metis prod.exhaust)
  obtain r s' where ad: "advance structureSelected structureDispatched s = (r, s')" by (metis prod.exhaust)
  show ?thesis
  proof (cases r)
    case (Some c)
    with advance_cases [OF ad] ad w assms show ?thesis by (simp add: ss_FetchStructure_def)
  next
    case None
    from advance_cases [OF ad] None have st: "ss_state s = structureSelected" "s' = s\<lparr>ss_state := structureDispatched\<rparr>" by auto
    have l: "selected_dialogue uid (spoken (q, n))" "ss_uid s = uid" using assms w st
      by (simp_all add: session_ok_def dialogue_def open_dialogue_def)
    obtain q' t where b: "beginDispatch q = (q', t)" by (metis prod.exhaust)
    have sq: "spoken (q', n) = spoken (q, n)" by (simp add: spoken_def)
    show ?thesis
    proof (cases t)
      case (Some c)
      with w ad None b have "snd (ss_FetchStructure (traced_structure env) w) = (s', (q', n))"
        by (simp add: ss_FetchStructure_def)
      then show ?thesis using st l sq by (auto simp: session_ok_def dialogue_def open_dialogue_def)
    next
      case none: None
      obtain e x' where c: "se_fetch (traced_structure env) (ss_uid s) (q', n) = (e, x')" by (metis prod.exhaust)
      have "snd (ss_FetchStructure (traced_structure env) w) = (s', x')"
        using w ad None b none c by (cases e) (simp_all add: ss_FetchStructure_def)
      then show ?thesis using st l sq traced_calls(3) [OF c]
        by (auto simp: session_ok_def dialogue_def open_dialogue_def)
    qed
  qed
qed

lemma finish_cases:
  "finish s = (b, s') \<Longrightarrow> b = (ss_state s \<noteq> structureClosed) \<and> s' = s\<lparr>ss_state := structureClosed\<rparr>"
  by (auto simp: finish_def split: if_splits)

lemma end_dialogue:
  "session_ok uid (s, x) \<Longrightarrow> ss_state s \<noteq> structureClosed \<Longrightarrow> spoken x' = spoken x @ [c] \<Longrightarrow>
     c = LogoutCall \<or> c = CloseCall \<Longrightarrow> session_ok uid (s\<lparr>ss_state := structureClosed\<rparr>, x')"
  unfolding session_ok_def dialogue_def by auto

lemma close_ok:
  assumes "session_ok uid w"
  shows "session_ok uid (snd (ss_Close (traced_structure env) w))"
proof -
  obtain s x where w: "w = (s, x)" by (cases w)
  obtain b s' where fi: "finish s = (b, s')" by (metis prod.exhaust)
  note f = finish_cases [OF fi]
  obtain e x' where c: "logout_session (se_session (traced_structure env)) 0 x = (e, x')" by (metis prod.exhaust)
  show ?thesis
  proof (cases b)
    case False
    with f have "s' = s" by simp
    with False fi w assms show ?thesis by (simp add: ss_Close_def)
  next
    case True
    then have "snd (ss_Close (traced_structure env) w) = (s', x')"
      using w fi c by (cases e) (simp_all add: ss_Close_def)
    with f True w assms end_dialogue [OF _ _ traced_calls(4) [OF c]] show ?thesis by auto
  qed
qed

lemma abort_ok:
  assumes "session_ok uid w"
  shows "session_ok uid (ss_Abort (traced_structure env) cause w)"
proof -
  obtain s q n where w: "w = (s, (q, n))" by (metis prod.exhaust)
  obtain b s' where fi: "finish s = (b, s')" by (metis prod.exhaust)
  note f = finish_cases [OF fi]
  show ?thesis
  proof (cases b)
    case False
    with f have "s' = s" by simp
    with False fi w assms show ?thesis by (simp add: ss_Abort_def)
  next
    case True
    let ?x = "se_close (traced_structure env) (fst (abort cause q), n)"
    have "spoken ?x = spoken (q, n) @ [CloseCall]" unfolding traced_close by (simp add: spoken_def)
    with f True w assms have "session_ok uid (s', ?x)" by (auto intro: end_dialogue)
    with True fi w show ?thesis by (simp add: ss_Abort_def)
  qed
qed

lemma session_run_ok: "session_run (traced_structure env) uid (q, (n, [])) w \<Longrightarrow> session_ok uid w"
proof (induction rule: session_run.induct)
  case connected
  then show ?case by (simp add: session_ok_def dialogue_def open_dialogue_def)
next
  case (called w call)
  then show ?case by (cases call) (simp_all add: authenticate_ok examine_ok fetch_ok close_ok abort_ok)
qed

text \<open>
  C32. Whatever order the methods of a structure session are called in, and however often, it says to
  the server at most one LOGIN, then at most one EXAMINE, then at most one UID SEARCH, for exactly
  its UID, then at most one FETCH, of its UID, and it ends with one LOGOUT or one close of the
  connection, after which it says nothing.
\<close>

theorem session_dialogue:
  assumes "session_run (traced_structure env) uid (q, (n, [])) (s, (q', (n', l)))"
  shows "dialogue uid (ss_state s) l"
  using session_run_ok [OF assms] by (simp add: session_ok_def)

section \<open>A whole read\<close>

lemma require_Inr:
  assumes "requireMessageUID env s uid x = (Inr u, x')"
  shows "search_window env s emptyQuery \<lparr>Start = uid, End = uid\<rparr> 1 x = (Inr [uid], x')"
  using assms by (auto simp: requireMessageUID_def length_Suc_conv split: prod.splits sum.splits if_splits)

lemma run_session_Inr:
  assumes "run_session env request (s, x) = (Inr r, (s', x'))" "ss_state s = structureConnected"
  shows "\<exists>x1 x2 x3 x4 q. se_authenticate env x1 = (None, x2) \<and>
    examine (se_session env) 0 (rq_Mailbox request) x2 = (Inr (sel_Snapshot r), x3) \<and>
    (rq_UIDValidity request = 0 \<or> UIDValidity (sel_Snapshot r) = rq_UIDValidity request) \<and>
    search_window (se_session env) 0 emptyQuery \<lparr>Start = ss_uid s, End = ss_uid s\<rparr> 1 x3 = (Inr [ss_uid s], x4) \<and>
    beginDispatch (fst x4) = (q, None) \<and> se_fetch env (ss_uid s) (q, snd x4) = (Inr (sel_Structure r), x')"
proof -
  obtain e1 x1 where cr: "se_credentials env x = (e1, x1)" by (metis prod.exhaust)
  have e1: "e1 = None" using assms(1) cr by (cases e1) (simp_all add: run_session_def)
  obtain e2 x2 where au: "se_authenticate env x1 = (e2, x2)" by (metis prod.exhaust)
  let ?s1 = "s\<lparr>ss_state := structureAuthenticated\<rparr>"
  have au': "ss_Authenticate env (s, x1) = (map_option (refusal env x2) e2, (?s1, x2))"
    using au assms(2) by (simp add: ss_Authenticate_def advance_def split: option.split)
  have e2: "e2 = None" using assms(1) cr e1 au' by (cases e2) (simp_all add: run_session_def)
  obtain r3 x3 where ex: "examine (se_session env) 0 (rq_Mailbox request) x2 = (r3, x3)" by (metis prod.exhaust)
  let ?s2 = "s\<lparr>ss_state := structureSelected\<rparr>"
  obtain r4 x4 where re: "requireMessageUID (se_session env) 0 (ss_uid s) x3 = (r4, x4)" by (metis prod.exhaust)
  have run1: "run_session env request (s, x) = (case ss_Examine env (rq_Mailbox request) (?s1, x2) of
            (Inl e, w3) \<Rightarrow> (Inl e, w3)
          | (Inr snapshot, w3) \<Rightarrow>
              if rq_UIDValidity request \<noteq> 0 \<and> UIDValidity snapshot \<noteq> rq_UIDValidity request
              then (Inl (BridgeError CodeStaleMessageID), w3)
              else (case ss_FetchStructure env w3 of
                  (Inl e, w4) \<Rightarrow> (Inl e, w4)
                | (Inr r, w4) \<Rightarrow> (Inr \<lparr>sel_Snapshot = snapshot, sel_Structure = r\<rparr>, w4)))"
    using cr e1 e2 au' by (simp add: run_session_def)
  obtain snapshot where r3: "r3 = Inr snapshot"
    using assms(1) run1 ex by (cases r3) (simp_all add: ss_Examine_def advance_def)
  obtain u where r4: "r4 = Inr u"
    using assms(1) run1 ex r3 re by (cases r4) (simp_all add: ss_Examine_def advance_def)
  have ex': "ss_Examine env (rq_Mailbox request) (?s1, x2) = (Inr snapshot, (?s2, x4))"
    using ex r3 re r4 by (simp add: ss_Examine_def advance_def)
  have gen: "rq_UIDValidity request = 0 \<or> UIDValidity snapshot = rq_UIDValidity request"
    using assms(1) run1 ex' by (auto split: if_splits)
  have run2: "(case ss_FetchStructure env (?s2, x4) of (Inl e, w4) \<Rightarrow> (Inl e, w4)
        | (Inr r, w4) \<Rightarrow> (Inr \<lparr>sel_Snapshot = snapshot, sel_Structure = r\<rparr>, w4)) = (Inr r, (s', x'))"
    using assms(1) run1 ex' gen by (auto split: if_splits)
  obtain q4 n4 where x4: "x4 = (q4, n4)" by (cases x4)
  obtain q t where b: "beginDispatch (fst x4) = (q, t)" by (metis prod.exhaust)
  obtain r5 x5 where fe: "se_fetch env (ss_uid s) (q, snd x4) = (r5, x5)" by (metis prod.exhaust)
  have t: "t = None" using run2 b x4 by (cases t) (simp_all add: ss_FetchStructure_def advance_def)
  obtain st where r5: "r5 = Inr st"
    using run2 b t fe x4 by (cases r5) (simp_all add: ss_FetchStructure_def advance_def)
  have "r = \<lparr>sel_Snapshot = snapshot, sel_Structure = st\<rparr>" "x' = x5"
    using run2 b t fe r5 x4 by (simp_all add: ss_FetchStructure_def advance_def)
  with au e2 ex r3 require_Inr [of _ _ "ss_uid s"] re r4 gen b t fe r5 show ?thesis by (metis selectedStructure.select_convs)
qed

lemma readStructure_confirms:
  assumes "readStructure env dial start request n = (Inr r, fin)"
  shows "\<exists>x1 x2 x3 x4 x5 q. se_authenticate env x1 = (None, x2) \<and>
    examine (se_session env) 0 (rq_Mailbox request) x2 = (Inr (sel_Snapshot r), x3) \<and>
    (rq_UIDValidity request = 0 \<or> UIDValidity (sel_Snapshot r) = rq_UIDValidity request) \<and>
    search_window (se_session env) 0 emptyQuery \<lparr>Start = rq_UID request, End = rq_UID request\<rparr> 1 x3 = (Inr [rq_UID request], x4) \<and>
    beginDispatch (fst x4) = (q, None) \<and> se_fetch env (rq_UID request) (q, snd x4) = (Inr (sel_Structure r), x5)"
proof -
  obtain e1 n1 where d: "dial n = (e1, n1)" by (metis prod.exhaust)
  have u: "rq_UID request \<noteq> 0" and e1: "e1 = None"
    using assms d by (auto simp: readStructure_def split: if_splits option.splits)
  obtain w where nw: "newStructureSessionOver env start (rq_UID request) n1 = Inr w"
    using assms d u e1 by (cases "newStructureSessionOver env start (rq_UID request) n1") (simp_all add: readStructure_def)
  then obtain x where w: "w = (\<lparr>ss_uid = rq_UID request, ss_state = structureConnected\<rparr>, x)"
    by (auto simp: newStructureSessionOver_def split: sum.splits prod.splits option.splits)
  obtain q1 s1 x1 where run: "run_session env request w = (q1, (s1, x1))" by (metis prod.exhaust)
  obtain r1 where q1: "q1 = Inr r1" using assms d u e1 nw run by (cases q1) (simp_all add: readStructure_def Let_def)
  have "r1 = r" using assms d u e1 nw run q1 by (auto simp: readStructure_def split: prod.splits option.splits)
  then have run': "run_session env request (\<lparr>ss_uid = rq_UID request, ss_state = structureConnected\<rparr>, x) = (Inr r, (s1, x1))"
    using run w q1 by simp
  from run_session_Inr [OF run'] show ?thesis unfolding structureSession.select_convs by blast
qed

text \<open>
  C33. A structure that \<^verbatim>\<open>readStructure\<close> returns belongs to the UID and the mailbox generation asked
  for: on one session, after a login, the EXAMINE of the mailbox returned the snapshot reported, of
  the requested generation if one was given; a search for exactly this UID answered it; the
  quarantine let the dispatch begin; and the FETCH of this UID returned the structure.
\<close>

theorem readStructure_confirmed:
  assumes "readStructure env dial start request n = (Inr r, fin)"
  shows "\<exists>x1 x2 x3 x4 x5 q. se_authenticate env x1 = (None, x2) \<and>
    examine (se_session env) 0 (rq_Mailbox request) x2 = (Inr (sel_Snapshot r), x3) \<and>
    (rq_UIDValidity request = 0 \<or> UIDValidity (sel_Snapshot r) = rq_UIDValidity request) \<and>
    search_window (se_session env) 0 emptyQuery \<lparr>Start = rq_UID request, End = rq_UID request\<rparr> 1 x3 = (Inr [rq_UID request], x4) \<and>
    beginDispatch (fst x4) = (q, None) \<and> se_fetch env (rq_UID request) (q, snd x4) = (Inr (sel_Structure r), x5)"
  using assms by (rule readStructure_confirms)

lemma finish_closes: "finish s = (b, s') \<Longrightarrow> ss_state s' = structureClosed"
  by (auto simp: finish_def split: if_splits)

lemma close_closes: "ss_state (fst (snd (ss_Close env w))) = structureClosed"
proof -
  obtain s x where w: "w = (s, x)" by (cases w)
  obtain b s' where f: "finish s = (b, s')" by (metis prod.exhaust)
  have "fst (snd (ss_Close env w)) = s'"
    using w f by (cases b) (simp_all add: ss_Close_def split: prod.split option.split)
  with finish_closes [OF f] show ?thesis by simp
qed

lemma abort_closes: "ss_state (fst (ss_Abort env cause w)) = structureClosed"
proof -
  obtain s q n where w: "w = (s, (q, n))" by (metis prod.exhaust)
  obtain b s' where f: "finish s = (b, s')" by (metis prod.exhaust)
  have "fst (ss_Abort env cause w) = s'" using w f by (cases b) (simp_all add: ss_Abort_def)
  with finish_closes [OF f] show ?thesis by simp
qed


section \<open>Samples\<close>

text \<open>A server that has every UID, in generation 9, and whose structure is a number.\<close>

definition structure_sample :: "(nat, nat) structure_env" where
  "structure_sample = \<lparr>se_session = \<lparr>op_view = (\<lambda>w. live_ctx), open_session = (\<lambda>w. (Inr 0, w)),
       abort_session = (\<lambda>s w. w), logout_session = (\<lambda>s w. (None, w)),
       examine = (\<lambda>s m w. (Inr \<lparr>UIDNext = 200, UIDValidity = 9\<rparr>, w)),
       search_window = (\<lambda>s q u n w. (Inr [Start u], w)),
       fetch_metadata = (\<lambda>s m u n w. (Inr [], w)), fetch_body = (\<lambda>s u n w. (Inr [], w)),
       list_folders = (\<lambda>s n w. (Inr [], w)), status_mailbox = (\<lambda>s m w. (Inl EOF_Error, w)),
       is_header_session = (\<lambda>s. False), fetch_headers = (\<lambda>s u n w. (Inl EOF_Error, w)),
       is_seen_session = (\<lambda>s. False), is_move_session = (\<lambda>s. False),
       select_source = (\<lambda>s m w. (Inl EOF_Error, w)), store_seen = (\<lambda>s u b w. (None, w)),
       supports_move = (\<lambda>s w. False), list_mailboxes = (\<lambda>s p n w. (Inr [], w)),
       move_uid = (\<lambda>s u d w. (None, w))\<rparr>,
     se_credentials = (\<lambda>w. (None, w)), se_authenticate = (\<lambda>w. (None, w)),
     se_fetch = (\<lambda>uid w. (Inr 42, w)), se_close = (\<lambda>w. w)\<rparr>"

definition sample_request :: structureRequest where
  "sample_request = \<lparr>rq_Mailbox = ''INBOX'', rq_UID = 7, rq_UIDValidity = 9\<rparr>"

theorem readStructure_confirmed_witness:
  "\<exists>r fin. readStructure structure_sample (\<lambda>n. (None, n)) (\<lambda>x. (None, x)) sample_request 0 = (Inr r, fin) \<and>
     sel_Structure r = 42 \<and> UIDValidity (sel_Snapshot r) = 9"
proof -
  let ?r = "readStructure structure_sample (\<lambda>n. (None, n)) (\<lambda>x. (None, x)) sample_request 0"
  have f: "fst ?r = Inr \<lparr>sel_Snapshot = \<lparr>UIDNext = 200, UIDValidity = 9\<rparr>, sel_Structure = 42\<rparr>" by code_simp
  obtain fin where r: "?r = (Inr \<lparr>sel_Snapshot = \<lparr>UIDNext = 200, UIDValidity = 9\<rparr>, sel_Structure = 42\<rparr>, fin)"
    using f by (metis prod.collapse)
  from readStructure_confirmed [OF r] have "rq_UIDValidity sample_request = 0 \<or> (9 :: uint32) = rq_UIDValidity sample_request" by auto
  with r show ?thesis by (auto intro: exI [of _ fin])
qed

definition sample_quarantine :: structureQuarantine where
  "sample_quarantine = projr (newStructureQuarantine True 7)"

theorem session_dialogue_witness:
  "\<exists>w. session_run (traced_structure structure_sample) 7 (sample_quarantine, (0, [])) w \<and>
     spoken (snd w) = [LoginCall, ExamineCall ''INBOX'', SearchCall 7 7, FetchCall 7, LogoutCall] \<and>
     dialogue 7 structureClosed (spoken (snd w))"
proof -
  let ?env = "traced_structure structure_sample"
  let ?w0 = "(\<lparr>ss_uid = 7, ss_state = structureConnected\<rparr>, (sample_quarantine, (0, [])))"
  let ?w = "fold (session_step ?env) [CallFetch, CallAuthenticate, CallExamine ''INBOX'', CallAuthenticate, CallFetch, CallFetch, CallClose, CallFetch] ?w0"
  have run: "session_run ?env 7 (sample_quarantine, (0, [])) ?w"
    by (simp only: fold.simps id_apply comp_apply) (intro session_run.called session_run.connected)
  have l: "spoken (snd ?w) = [LoginCall, ExamineCall ''INBOX'', SearchCall 7 7, FetchCall 7, LogoutCall]" by code_simp
  have st: "ss_state (fst ?w) = structureClosed" by code_simp
  obtain s q' n' l where w: "?w = (s, (q', (n', l)))" by (metis prod.exhaust)
  have "session_run ?env 7 (sample_quarantine, (0, [])) (s, (q', (n', l)))" using run w by (rule back_subst)
  then have d: "dialogue 7 (ss_state s) l" by (rule session_dialogue)
  have "ss_state s = structureClosed" using st unfolding w by simp
  moreover have "spoken (snd ?w) = l" unfolding w by simp
  ultimately show ?thesis using d run l by metis
qed

text \<open>
  \<^verbatim>\<open>Examine\<close> moves the session on before it asks for the UID, and leaves it there when the UID does
  not exist, so a caller that goes on after its error dispatches the FETCH all the same. \<open>run_session\<close>,
  the only caller, does not.
\<close>

definition absent_sample :: "(nat, nat) structure_env" where
  "absent_sample = structure_sample\<lparr>se_session := (se_session structure_sample)\<lparr>search_window := (\<lambda>s q u n w. (Inr [], w))\<rparr>\<rparr>"

theorem examine_error_still_dispatches:
  "let env = traced_structure absent_sample;
       w0 = (\<lparr>ss_uid = 7, ss_state = structureConnected\<rparr>, (sample_quarantine, (0, [])));
       w1 = snd (ss_Authenticate env w0); (r, w2) = ss_Examine env ''INBOX'' w1; (f, w3) = ss_FetchStructure env w2 in
   r = Inl (BridgeError CodeStaleMessageID) \<and> f = Inr 42 \<and>
   spoken (snd w3) = [LoginCall, ExamineCall ''INBOX'', SearchCall 7 7, FetchCall 7]"
  by code_simp

end
