(* ===== verification/Move_Destination.thy ===== *)
theory Move_Destination
  imports Mail_Types "HOL-Library.Multiset"
begin

text \<open>
  Which mailbox a move may go to (\<^verbatim>\<open>bridge/move.go\<close>, and the mailbox identity of
  \<^verbatim>\<open>bridge/imapclient.go\<close>): the check of a requested name, the resolution of a name or of a
  protocol attribute in one fresh LIST, and the rules a resolved mailbox must pass.
\<close>

section \<open>Definitions\<close>

definition mailboxIdentityMatches :: "bytes \<Rightarrow> bytes \<Rightarrow> bool" where
  "mailboxIdentityMatches requested actual =
     (if equal_fold requested ''INBOX'' then equal_fold actual ''INBOX'' else requested = actual)"

definition canonicalMailbox :: "bytes \<Rightarrow> bytes" where
  "canonicalMailbox mailbox = (if equal_fold mailbox ''INBOX'' then ''INBOX'' else mailbox)"

definition foldersPrefix :: bytes where "foldersPrefix = ''Folders/''"

definition attribute_named :: "bytes \<Rightarrow> bytes" where
  "attribute_named name = BACKSLASH # name"

definition rootSystemAttributes :: "bytes list" where
  "rootSystemAttributes = map attribute_named [''Sent'', ''Drafts'', ''Junk'', ''Archive'', ''Trash'']"

definition refusedDestinationAttributes :: "bytes list" where
  "refusedDestinationAttributes = map attribute_named [''Noselect'', ''NonExistent'', ''All'', ''Flagged'']"

definition aggregateViews :: "bytes list" where
  "aggregateViews = [''All Mail'', ''Starred'']"

definition hasAttribute :: "bytes list \<Rightarrow> bytes list \<Rightarrow> bool" where
  "hasAttribute attributes wanted = list_ex (\<lambda>a. list_ex (equal_fold a) wanted) attributes"

definition isAggregateView :: "bytes \<Rightarrow> bool" where
  "isAggregateView name = list_ex (equal_fold name) aggregateViews"

definition isHierarchyRoot :: "listedMailbox \<Rightarrow> bool" where
  "isHierarchyRoot mb =
     (if contains_bytes (mb_Name mb) ''/'' then False
      else mb_Delimiter mb = 0 \<or> \<not> contains_rune (mb_Name mb) (mb_Delimiter mb))"

text \<open>
  The scan both resolvers make: \<open>Inr\<close> the entry found so far, \<open>Inl ()\<close> the early return on a second
  one.
\<close>

fun only_match :: "(listedMailbox \<Rightarrow> bool) \<Rightarrow> listedMailbox option \<Rightarrow> listedMailbox list \<Rightarrow> unit + listedMailbox option" where
  "only_match matches found [] = Inr found"
| "only_match matches found (mb # mbs) =
     (if \<not> matches mb then only_match matches found mbs
      else if found \<noteq> None then Inl ()
      else only_match matches (Some mb) mbs)"

definition resolveMoveDestination :: "listedMailbox list \<Rightarrow> bytes \<Rightarrow> bytes option" where
  "resolveMoveDestination listing destination =
     (case only_match (\<lambda>mb. mailboxIdentityMatches destination (mb_Name mb)) None listing of
        Inl u \<Rightarrow> None
      | Inr None \<Rightarrow> None
      | Inr (Some match) \<Rightarrow>
          if hasAttribute (mb_Attributes match) refusedDestinationAttributes then None
          else if equal_fold (mb_Name match) ''INBOX'' then Some ''INBOX''
          else if mb_Delimiter match = 47 \<and> has_prefix (mb_Name match) foldersPrefix \<and>
                  length (mb_Name match) > length foldersPrefix
          then Some (mb_Name match)
          else if isHierarchyRoot match \<and> hasAttribute (mb_Attributes match) rootSystemAttributes
          then Some (mb_Name match)
          else None)"

definition resolveAttributeDestination :: "listedMailbox list \<Rightarrow> bytes \<Rightarrow> bytes option" where
  "resolveAttributeDestination listing attribute =
     (case only_match (\<lambda>mb. hasAttribute (mb_Attributes mb) [attribute]) None listing of
        Inl u \<Rightarrow> None
      | Inr None \<Rightarrow> None
      | Inr (Some holder) \<Rightarrow>
          if isAggregateView (mb_Name holder) then None
          else resolveMoveDestination listing (mb_Name holder))"

text \<open>\<^verbatim>\<open>validateMoveDestination\<close>: \<open>None\<close> accepts.\<close>

definition validateMoveDestination :: "bytes \<Rightarrow> code option" where
  "validateMoveDestination destination =
     (if destination = [] \<or> \<not> valid_utf8 destination then Some CodeInvalidRequest
      else if length destination > maxMailboxNameBytes then Some CodeBoundsExceeded
      else if runes_all (\<lambda>s. \<not> control_head s \<and> hd s \<noteq> CHR ''*'' \<and> hd s \<noteq> CHR ''%'') destination then None
      else Some CodeInvalidRequest)"

section \<open>Properties\<close>

lemma only_match_spec:
  "only_match matches found mbs = Inr r \<longleftrightarrow>
     (case found of
        None \<Rightarrow> (case filter matches mbs of [] \<Rightarrow> r = None | [mb] \<Rightarrow> r = Some mb | _ \<Rightarrow> False)
      | Some mb \<Rightarrow> filter matches mbs = [] \<and> r = Some mb)"
proof (induction matches found mbs rule: only_match.induct)
  case (1 matches found)
  then show ?case by (cases found) auto
next
  case (2 matches found mb mbs)
  then show ?case by (cases found) (auto split: list.splits)
qed

lemma only_match_Some:
  "only_match matches None mbs = Inr (Some mb) \<longleftrightarrow> filter matches mbs = [mb]"
  by (auto simp: only_match_spec split: list.splits)

lemma only_match_case:
  "(case only_match matches None mbs of Inl u \<Rightarrow> None | Inr None \<Rightarrow> None | Inr (Some mb) \<Rightarrow> f mb) = Some t \<longleftrightarrow>
     (\<exists>mb. filter matches mbs = [mb] \<and> f mb = Some t)"
  by (auto simp flip: only_match_Some split: sum.split option.split)

text \<open>The rules of a mailbox that may be a destination.\<close>

definition allowed_destination :: "listedMailbox \<Rightarrow> bool" where
  "allowed_destination mb \<longleftrightarrow> \<not> hasAttribute (mb_Attributes mb) refusedDestinationAttributes \<and>
     (equal_fold (mb_Name mb) ''INBOX'' \<or>
      mb_Delimiter mb = 47 \<and> (\<exists>rest. rest \<noteq> [] \<and> mb_Name mb = foldersPrefix @ rest) \<or>
      isHierarchyRoot mb \<and> hasAttribute (mb_Attributes mb) rootSystemAttributes)"

lemma folders_entry:
  "has_prefix name foldersPrefix \<and> length foldersPrefix < length name \<longleftrightarrow>
     (\<exists>rest. rest \<noteq> [] \<and> name = foldersPrefix @ rest)"
  by (auto elim!: has_prefixE)

lemma rule_cascade:
  "(if r then None else if i then Some a else if f then Some n else if s then Some n else None) = Some t \<longleftrightarrow>
     (\<not> r \<and> (i \<or> f \<or> s)) \<and> t = (if i then a else n)"
  by auto

text \<open>The exact contract: one listed mailbox of that identity, and it is allowed.\<close>

lemma resolveMoveDestination_iff:
  "resolveMoveDestination listing destination = Some target \<longleftrightarrow>
     (\<exists>mb. filter (\<lambda>m. mailboxIdentityMatches destination (mb_Name m)) listing = [mb] \<and>
        allowed_destination mb \<and> target = canonicalMailbox (mb_Name mb))"
  unfolding resolveMoveDestination_def only_match_case
  unfolding rule_cascade folders_entry allowed_destination_def canonicalMailbox_def by (rule refl)

lemma if_None_Some_iff: "(if c then None else x) = Some t \<longleftrightarrow> \<not> c \<and> x = Some t"
  by simp

lemma resolveAttributeDestination_iff:
  "resolveAttributeDestination listing attribute = Some target \<longleftrightarrow>
     (\<exists>mb. filter (\<lambda>m. hasAttribute (mb_Attributes m) [attribute]) listing = [mb] \<and>
        \<not> isAggregateView (mb_Name mb) \<and> resolveMoveDestination listing (mb_Name mb) = Some target)"
  unfolding resolveAttributeDestination_def only_match_case by (simp only: if_None_Some_iff)


text \<open>
  C30. A name is resolved to a destination exactly when one listed mailbox has that identity and this
  mailbox is selectable, no virtual view, and INBOX, an entry below \<^verbatim>\<open>Folders/\<close> or a hierarchy root
  that carries a system attribute; the destination is that mailbox's own name.
\<close>

theorem resolveMoveDestination_exact:
  "resolveMoveDestination listing destination = Some target \<longleftrightarrow>
     (\<exists>mb. filter (\<lambda>m. mailboxIdentityMatches destination (mb_Name m)) listing = [mb] \<and>
        allowed_destination mb \<and> target = canonicalMailbox (mb_Name mb))"
  by (rule resolveMoveDestination_iff)

lemma filter_single_mset: "filter P xs = [x] \<longleftrightarrow> filter_mset P (mset xs) = {#x#}"
  by (metis mset_filter mset_single_iff)

lemma filter_single_member: "filter P xs = [x] \<Longrightarrow> x \<in> set xs"
  by (metis filter_is_subset list.set_intros(1) subsetD)

text \<open>
  What \<^verbatim>\<open>Archive\<close> and \<^verbatim>\<open>Trash\<close> resolve to does not depend on the order of the listing, and a mailbox
  they resolve to is the only one listed with the attribute, the only one of its identity, no
  aggregate view by its name, and passes every rule of an explicit destination.
\<close>

theorem resolveAttributeDestination_sound:
  "(mset listing = mset listing' \<longrightarrow>
     resolveAttributeDestination listing attribute = resolveAttributeDestination listing' attribute) \<and>
   (resolveAttributeDestination listing attribute = Some target \<longrightarrow>
     (\<exists>mb \<in> set listing. filter (\<lambda>m. hasAttribute (mb_Attributes m) [attribute]) listing = [mb] \<and>
        filter (\<lambda>m. mailboxIdentityMatches (mb_Name mb) (mb_Name m)) listing = [mb] \<and>
        \<not> isAggregateView (mb_Name mb) \<and> allowed_destination mb \<and> target = canonicalMailbox (mb_Name mb)))"
proof (intro conjI impI)
  assume "mset listing = mset listing'"
  then have "resolveAttributeDestination listing attribute = Some t \<longleftrightarrow> resolveAttributeDestination listing' attribute = Some t" for t
    by (simp add: resolveAttributeDestination_iff resolveMoveDestination_iff filter_single_mset)
  then show "resolveAttributeDestination listing attribute = resolveAttributeDestination listing' attribute"
    by (metis not_None_eq)
next
  assume "resolveAttributeDestination listing attribute = Some target"
  then obtain mb m' where mb: "filter (\<lambda>m. hasAttribute (mb_Attributes m) [attribute]) listing = [mb]"
    "\<not> isAggregateView (mb_Name mb)"
    and m': "filter (\<lambda>m. mailboxIdentityMatches (mb_Name mb) (mb_Name m)) listing = [m']"
    "allowed_destination m'" "target = canonicalMailbox (mb_Name m')"
    unfolding resolveAttributeDestination_iff resolveMoveDestination_iff by blast
  have mem: "mb \<in> set listing" by (rule filter_single_member [OF mb(1)])
  have "mailboxIdentityMatches (mb_Name mb) (mb_Name mb)" by (simp add: mailboxIdentityMatches_def)
  with mem have "mb \<in> set (filter (\<lambda>m. mailboxIdentityMatches (mb_Name mb) (mb_Name m)) listing)" by simp
  then have "m' = mb" unfolding m'(1) by simp
  with mb m' mem show "\<exists>mb \<in> set listing. filter (\<lambda>m. hasAttribute (mb_Attributes m) [attribute]) listing = [mb] \<and>
        filter (\<lambda>m. mailboxIdentityMatches (mb_Name mb) (mb_Name m)) listing = [mb] \<and>
        \<not> isAggregateView (mb_Name mb) \<and> allowed_destination mb \<and> target = canonicalMailbox (mb_Name mb)"
    by (intro bexI [of _ mb]) simp_all
qed

definition sample_listing :: "listedMailbox list" where
  "sample_listing = [\<lparr>mb_Name = ''INBOX'', mb_Delimiter = 47, mb_Attributes = []\<rparr>,
     \<lparr>mb_Name = ''Old'', mb_Delimiter = 47, mb_Attributes = [attribute_named ''Archive'']\<rparr>,
     \<lparr>mb_Name = ''Folders/Work'', mb_Delimiter = 47, mb_Attributes = []\<rparr>]"

theorem resolveAttributeDestination_sound_witness:
  "resolveAttributeDestination sample_listing (attribute_named ''Archive'') = Some ''Old'' \<and>
   resolveAttributeDestination (rev sample_listing) (attribute_named ''Archive'') = Some ''Old''"
proof -
  have r: "resolveAttributeDestination sample_listing (attribute_named ''Archive'') = Some ''Old''" by code_simp
  have "mset sample_listing = mset (rev sample_listing)" by simp
  with r resolveAttributeDestination_sound [of sample_listing "rev sample_listing" "attribute_named ''Archive''" "''Old''"]
  show ?thesis by metis
qed

end
