(* ===== verification/Mime_Text.thy ===== *)
theory Mime_Text
  imports Search_Wire Mail_Types
begin

text \<open>
  The text functions of \<^verbatim>\<open>bridge/mime.go\<close>: the UTF-8 cut that every bounded string goes through,
  the encoded words that are refused, and the message identifiers of a threading header.
\<close>

section \<open>Standard library\<close>

text \<open>\<^verbatim>\<open>io.Reader\<close>: the bytes it yields and the error it ends with, \<open>None\<close> being the end of file.\<close>

type_synonym reader = "bytes \<times> go_error option"

text \<open>
  \<^verbatim>\<open>strings.ToLower\<close>, as far as a comparison of its result with an ASCII constant can see it: two
  runes outside ASCII have an ASCII lower case, U+0130 (C4 B0) is i and U+212A (E2 84 AA) is k.
\<close>

fun to_lower :: "bytes \<Rightarrow> bytes" where
  "to_lower (a # b # c # s) =
     (if a = CHR 0xC4 \<and> b = CHR 0xB0 then CHR ''i'' # to_lower (c # s)
      else if a = CHR 0xE2 \<and> b = CHR 0x84 \<and> c = CHR 0xAA then CHR ''k'' # to_lower s
      else ascii_lower a # to_lower (b # c # s))"
| "to_lower [a, b] =
     (if a = CHR 0xC4 \<and> b = CHR 0xB0 then [CHR ''i''] else [ascii_lower a, ascii_lower b])"
| "to_lower [a] = [ascii_lower a]"
| "to_lower [] = []"

text \<open>\<^verbatim>\<open>strings.Index\<close>.\<close>

fun index_sub :: "bytes \<Rightarrow> bytes \<Rightarrow> nat option" where
  "index_sub sub [] = (if sub = [] then Some 0 else None)"
| "index_sub sub (c # s) = (if has_prefix (c # s) sub then Some 0 else map_option Suc (index_sub sub s))"

lemma index_sub_bound: "index_sub sub s = Some i \<Longrightarrow> i + length sub \<le> length s \<and> has_prefix (drop i s) sub"
proof (induction sub s arbitrary: i rule: index_sub.induct)
  case (2 sub c s)
  show ?case
  proof (cases "has_prefix (c # s) sub")
    case True
    then have "length sub \<le> length (c # s)" by (metis has_prefixE le_add1 length_append)
    with True 2 show ?thesis by simp
  next
    case False
    with 2 show ?thesis by auto
  qed
qed (auto simp: has_prefix_def split: if_splits)

text \<open>U+FFFD, and \<^verbatim>\<open>strings.ToValidUTF8\<close> with it: a run of invalid bytes is replaced once.\<close>

definition replacement :: bytes where
  "replacement = [CHR 0xEF, CHR 0xBF, CHR 0xBD]"

function to_valid_from :: "bool \<Rightarrow> bytes \<Rightarrow> bytes" where
  "to_valid_from invalid s =
     (if s = [] then []
      else (case rune_width s of
          None \<Rightarrow> (if invalid then [] else replacement) @ to_valid_from True (tl s)
        | Some n \<Rightarrow> take n s @ to_valid_from False (drop n s)))"
  by pat_completeness auto
termination by (relation "measure (\<lambda>(i, s). length s)") (auto dest: rune_width_bounds)

declare to_valid_from.simps [simp del]

definition to_valid_utf8 :: "bytes \<Rightarrow> bytes" where
  "to_valid_utf8 s = to_valid_from False s"

text \<open>\<^verbatim>\<open>strconv.ParseInt(s, 10, 64)\<close>.\<close>

definition parse_int64 :: "bytes \<Rightarrow> int option" where
  "parse_int64 s = (case s of
      [] \<Rightarrow> None
    | c # t \<Rightarrow>
        (if c = CHR ''-'' then (case parse_uint 64 t of
            Some n \<Rightarrow> if n \<le> 2 ^ 63 then Some (- int n) else None | None \<Rightarrow> None)
         else (case parse_uint 64 (if c = CHR ''+'' then t else s) of
            Some n \<Rightarrow> if n < 2 ^ 63 then Some (int n) else None | None \<Rightarrow> None)))"

section \<open>The bounded cut\<close>

function strip_invalid :: "bytes \<Rightarrow> bytes" where
  "strip_invalid s = (if 0 < length s \<and> \<not> valid_utf8 s then strip_invalid (butlast s) else s)"
  by pat_completeness auto
termination by (relation "measure length") auto

declare strip_invalid.simps [simp del]

definition truncateUTF8 :: "bytes \<Rightarrow> int \<Rightarrow> bytes \<times> bool" where
  "truncateUTF8 v limit =
     (if int (length v) \<le> limit then (to_valid_utf8 v, False)
      else (to_valid_utf8 (strip_invalid (take (nat limit) v)), True))"

lemma to_valid_from_valid: "valid_utf8 s \<Longrightarrow> to_valid_from i s = s"
proof (induction i s rule: to_valid_from.induct)
  case (1 i s)
  show ?case
  proof (cases "s = []")
    case True
    then show ?thesis by (simp add: to_valid_from.simps)
  next
    case False
    with 1(3) obtain n where n: "rune_width s = Some n" "valid_utf8 (drop n s)"
      by (subst (asm) valid_utf8.simps) (auto split: option.splits)
    with 1(2) [OF False n(1) n(2)] False show ?thesis
      by (subst to_valid_from.simps) simp
  qed
qed

lemma to_valid_valid [simp]: "valid_utf8 s \<Longrightarrow> to_valid_utf8 s = s"
  by (simp add: to_valid_utf8_def to_valid_from_valid)

lemma rune_valid: "rune_width s = Some n \<Longrightarrow> valid_utf8 (take n s)"
  using valid_utf8_step [OF rune_width_take] by auto

lemma to_valid_from_ok: "valid_utf8 (to_valid_from i s) \<and> length (to_valid_from i s) \<le> 3 * length s"
proof (induction i s rule: to_valid_from.induct)
  case (1 i s)
  show ?case
  proof (cases "s = []")
    case True
    then show ?thesis by (simp add: to_valid_from.simps)
  next
    case ne: False
    have r: "valid_utf8 replacement" "length replacement = 3" by code_simp+
    show ?thesis
    proof (cases "rune_width s")
      case None
      let ?r = "to_valid_from True (tl s)" and ?p = "if i then [] else replacement"
      have ih: "valid_utf8 ?r" "length ?r \<le> 3 * length (tl s)" using 1(1) [OF ne None] by blast+
      have "valid_utf8 ?p" "length ?p \<le> 3" using r by simp_all
      moreover have "length s = Suc (length (tl s))" using ne by (cases s) auto
      ultimately have "length (?p @ ?r) \<le> 3 * length s" "valid_utf8 (?p @ ?r)"
        using ih valid_utf8_append unfolding length_append by (linarith, blast)
      moreover have e: "to_valid_from i s = ?p @ ?r" using ne None by (subst to_valid_from.simps) simp
      ultimately show ?thesis unfolding e by blast
    next
      case (Some n)
      let ?r = "to_valid_from False (drop n s)"
      have ih: "valid_utf8 ?r" "length ?r \<le> 3 * length (drop n s)" using 1(2) [OF ne Some] by blast+
      have e: "to_valid_from i s = take n s @ ?r" using ne Some by (subst to_valid_from.simps) simp
      have "valid_utf8 (take n s @ ?r)" using ih(1) rune_valid [OF Some] by (rule valid_utf8_append [rotated])
      moreover have "length (take n s @ ?r) \<le> 3 * length s"
        using ih(2) rune_width_bounds [OF Some] unfolding length_append length_take length_drop by linarith
      ultimately show ?thesis unfolding e by blast
    qed
  qed
qed

lemma strip_invalid_take:
  "\<exists>m \<le> length s. strip_invalid s = take m s \<and> valid_utf8 (take m s) \<and> (\<forall>j. m < j \<and> j \<le> length s \<longrightarrow> \<not> valid_utf8 (take j s))"
proof (induction s rule: strip_invalid.induct)
  case (1 s)
  show ?case
  proof (cases "0 < length s \<and> \<not> valid_utf8 s")
    case False
    then have "strip_invalid s = take (length s) s" "valid_utf8 (take (length s) s)"
      by (auto simp: strip_invalid.simps [of s])
    then show ?thesis by (intro exI [of _ "length s"]) auto
  next
    case True
    with 1 obtain m where m: "m \<le> length (butlast s)" "strip_invalid (butlast s) = take m (butlast s)"
      "valid_utf8 (take m (butlast s))" "\<forall>j. m < j \<and> j \<le> length (butlast s) \<longrightarrow> \<not> valid_utf8 (take j (butlast s))" by blast
    have t: "take j (butlast s) = take j s" if "j \<le> length (butlast s)" for j
      using that by (simp add: butlast_conv_take min_absorb1)
    have "\<not> valid_utf8 (take j s)" if "m < j" "j \<le> length s" for j
      using that m(4) True t [of j] by (cases "j = length s") auto
    moreover have "strip_invalid s = strip_invalid (butlast s)" using True by (simp add: strip_invalid.simps [of s])
    ultimately show ?thesis using m t [of m] by (intro exI [of _ m]) auto
  qed
qed

lemma valid_cut: "valid_utf8 s \<Longrightarrow> l \<le> length s \<Longrightarrow> \<exists>m \<le> l. l \<le> m + 3 \<and> valid_utf8 (take m s)"
proof (induction s arbitrary: l rule: valid_utf8.induct)
  case (1 s)
  show ?case
  proof (cases "l \<le> 3")
    case True
    then show ?thesis by (intro exI [of _ 0]) simp
  next
    case False
    with 1 have ne: "s \<noteq> []" by auto
    with 1(2) obtain n where n: "rune_width s = Some n" "valid_utf8 (drop n s)"
      by (subst (asm) valid_utf8.simps) (auto split: option.splits)
    have n4: "n \<le> 4" "n \<le> length s" using rune_width_four [OF n(1)] rune_width_bounds [OF n(1)] by auto
    have "l - n \<le> length (drop n s)" using 1(3) by simp
    with 1(1) [OF ne n(1) n(2)] obtain m where m: "m \<le> l - n" "l - n \<le> m + 3" "valid_utf8 (take m (drop n s))" by blast
    have "take (n + m) s = take n s @ take m (drop n s)" by (simp add: take_add)
    with m(3) rune_valid [OF n(1)] have "valid_utf8 (take (n + m) s)" by (simp add: valid_utf8_append)
    with m n4 False show ?thesis by (intro exI [of _ "n + m"]) auto
  qed
qed

lemma truncateUTF8_facts:
  assumes "valid_utf8 v" and "0 \<le> limit"
  shows "case truncateUTF8 v limit of (t, truncated) \<Rightarrow>
    valid_utf8 t \<and> t = take (length t) v \<and> truncated = (limit < int (length v)) \<and>
    (if truncated then limit - 3 \<le> int (length t) \<and> int (length t) \<le> limit else t = v)"
proof (cases "int (length v) \<le> limit")
  case True
  with assms show ?thesis by (simp add: truncateUTF8_def)
next
  case False
  define l where "l = nat limit"
  define u where "u = take l v"
  have l: "int l = limit" "l \<le> length v" "length u = l" using assms(2) False by (auto simp: l_def u_def)
  obtain m where m: "m \<le> length u" "strip_invalid u = take m u" "valid_utf8 (take m u)"
    "\<forall>j. m < j \<and> j \<le> length u \<longrightarrow> \<not> valid_utf8 (take j u)" using strip_invalid_take by blast
  obtain k where k: "k \<le> l" "l \<le> k + 3" "valid_utf8 (take k v)" using valid_cut [OF assms(1) l(2)] by blast
  have "take k u = take k v" using k(1) by (simp add: u_def min_absorb1)
  with k m(4) l(3) have "k \<le> m" by (metis not_le_imp_less)
  have r: "truncateUTF8 v limit = (take m v, True)"
    using False m l(3) by (simp add: truncateUTF8_def l_def [symmetric] u_def [symmetric]) (simp add: u_def min_absorb1)
  have "valid_utf8 (take m v)" using m(1,3) l(3) by (simp add: u_def min_absorb1)
  moreover have "length (take m v) = m" using m(1) l by simp
  ultimately show ?thesis using r False \<open>k \<le> m\<close> k m(1) l by auto
qed

text \<open>
  Cutting valid UTF-8 to a limit keeps a prefix that is valid UTF-8, within the limit, and at most
  three bytes short of it; a text within the limit is kept as it is, and only a cut one is flagged.
\<close>

theorem truncateUTF8_prefix:
  assumes "valid_utf8 v" and "0 \<le> limit"
  shows "case truncateUTF8 v limit of (t, truncated) \<Rightarrow>
    valid_utf8 t \<and> t = take (length t) v \<and> truncated = (limit < int (length v)) \<and>
    (if truncated then limit - 3 \<le> int (length t) \<and> int (length t) \<le> limit else t = v)"
  using truncateUTF8_facts [OF assms] .

theorem truncateUTF8_prefix_witness:
  "truncateUTF8 [CHR ''a'', CHR 0xE2, CHR 0x82, CHR 0xAC] 3 = (''a'', True) \<and>
   (0 :: int) \<le> int (length (fst (truncateUTF8 [CHR ''a'', CHR 0xE2, CHR 0x82, CHR 0xAC] 3)))"
proof -
  have "valid_utf8 [CHR ''a'', CHR 0xE2, CHR 0x82, CHR 0xAC]" by code_simp
  from truncateUTF8_prefix [OF this, of 3]
  have "(0 :: int) \<le> int (length (fst (truncateUTF8 [CHR ''a'', CHR 0xE2, CHR 0x82, CHR 0xAC] 3)))"
    by (auto split: prod.splits if_splits)
  moreover have "truncateUTF8 [CHR ''a'', CHR 0xE2, CHR 0x82, CHR 0xAC] 3 = (''a'', True)" by code_simp
  ultimately show ?thesis by blast
qed

lemma truncateUTF8_valid: "valid_utf8 (fst (truncateUTF8 v limit))"
  by (simp add: truncateUTF8_def to_valid_utf8_def to_valid_from_ok)

lemma truncateUTF8_length: "0 \<le> limit \<Longrightarrow> int (length (fst (truncateUTF8 v limit))) \<le> 3 * limit"
proof (cases "int (length v) \<le> limit")
  case True
  with to_valid_from_ok [of False v] show ?thesis by (simp add: truncateUTF8_def to_valid_utf8_def)
next
  case False
  assume 0: "0 \<le> limit"
  define u where "u = strip_invalid (take (nat limit) v)"
  obtain m where "u = take m (take (nat limit) v)" using strip_invalid_take unfolding u_def by blast
  then have "length u \<le> nat limit" by simp
  moreover have "length (to_valid_utf8 u) \<le> 3 * length u" using to_valid_from_ok by (simp add: to_valid_utf8_def)
  ultimately have "int (length (to_valid_utf8 u)) \<le> 3 * limit" using 0 by linarith
  then show ?thesis using False by (simp add: truncateUTF8_def u_def)
qed

text \<open>
  A text that is not valid UTF-8 fares differently. Within the limit its invalid bytes are replaced
  after the limit was checked, so the result can be up to three times as long as the limit and is not
  flagged; over the limit everything from the first invalid byte on is dropped.
\<close>

theorem truncateUTF8_exceeds:
  "truncateUTF8 [CHR 0xFF, CHR ''a'', CHR 0xFF] 3 = (replacement @ ''a'' @ replacement, False)"
  by code_simp

theorem truncateUTF8_drops:
  "truncateUTF8 (CHR 0xFF # ''invoice'') 7 = ([], True)"
  by code_simp

end
