(* ===== verification/Header_Blocks.thy ===== *)
theory Header_Blocks
  imports Go_Text
begin

text \<open>
  The scans of raw header blocks that run before anything is parsed: where a block ends
  (\<^verbatim>\<open>headerTerminatorEnd\<close> of \<^verbatim>\<open>bridge/imapclient.go\<close>), how many fields are kept (\<^verbatim>\<open>boundedHeaderCount\<close>
  of \<^verbatim>\<open>bridge/mime.go\<close>) and the block of the four threading fields (\<^verbatim>\<open>bridge/thread_fields.go\<close>).
  Each of these loops visits the slices \<^verbatim>\<open>header[lineStart:nextLineStart]\<close> in order, which are the
  \<open>raw_lines\<close> of the block.
\<close>

section \<open>Lines\<close>

fun raw_lines :: "bytes \<Rightarrow> bytes list" where
  "raw_lines [] = []"
| "raw_lines (c # s) =
     (if c = LF then [c] # raw_lines s
      else (case raw_lines s of [] \<Rightarrow> [[c]] | l # ls \<Rightarrow> (c # l) # ls))"

text \<open>\<^verbatim>\<open>TrimSuffix(TrimSuffix(raw, "\n"), "\r")\<close>\<close>

definition line_text :: "bytes \<Rightarrow> bytes" where
  "line_text raw = trim_suffix (trim_suffix raw [LF]) [CR]"

definition starts_field :: "bytes \<Rightarrow> bool" where
  "starts_field line \<longleftrightarrow> hd line \<noteq> SP \<and> hd line \<noteq> TAB"

section \<open>The end of a block\<close>

fun terminator_from :: "nat \<Rightarrow> bytes list \<Rightarrow> nat option" where
  "terminator_from lineStart [] = None"
| "terminator_from lineStart (raw # ls) =
     (if LF \<notin> set raw then None
      else if line_text raw = [] then Some (lineStart + length raw)
      else terminator_from (lineStart + length raw) ls)"

definition headerTerminatorEnd :: "bytes \<Rightarrow> nat option" where
  "headerTerminatorEnd header = terminator_from 0 (raw_lines header)"

section \<open>The number of fields\<close>

fun bounded_scan :: "bytes \<Rightarrow> int \<Rightarrow> int \<Rightarrow> bytes \<Rightarrow> bytes list \<Rightarrow> bytes \<times> bool" where
  "bounded_scan header limit fieldCount before [] = (header, False)"
| "bounded_scan header limit fieldCount before (raw # ls) =
     (if line_text raw = [] then (header, False)
      else if starts_field (line_text raw)
      then (if limit < fieldCount + 1
            then (before @ (if has_suffix before CRLF then CRLF else [LF]), True)
            else bounded_scan header limit (fieldCount + 1) (before @ raw) ls)
      else bounded_scan header limit fieldCount (before @ raw) ls)"

definition boundedHeaderCount :: "bytes \<Rightarrow> int \<Rightarrow> bytes \<times> bool" where
  "boundedHeaderCount header limit = bounded_scan header limit 0 [] (raw_lines header)"

section \<open>The threading fields\<close>

definition asciiLower :: "char \<Rightarrow> char" where
  "asciiLower v = (if 65 \<le> byte_val v \<and> byte_val v \<le> 90 then char_of (byte_val v + 97 - 65) else v)"

definition asciiEqualFold :: "bytes \<Rightarrow> bytes \<Rightarrow> bool" where
  "asciiEqualFold left right \<longleftrightarrow> length left = length right \<and>
     list_all (\<lambda>(a, b). asciiLower a = asciiLower b) (zip left right)"

definition threadFieldNames :: "bytes list" where
  "threadFieldNames = [''Subject'', ''Message-ID'', ''In-Reply-To'', ''References'']"

fun slot_of_name :: "bytes \<Rightarrow> nat \<Rightarrow> bytes list \<Rightarrow> nat option" where
  "slot_of_name name slot [] = None"
| "slot_of_name name slot (candidate # cs) =
     (if asciiEqualFold name candidate then Some slot else slot_of_name name (slot + 1) cs)"

definition threadFieldSlot :: "bytes \<Rightarrow> nat option" where
  "threadFieldSlot line = (case cut_byte (CHR '':'') line of (name, _, found) \<Rightarrow>
     if \<not> found then None else slot_of_name name 0 threadFieldNames)"

text \<open>An empty slot stands for the nil slice; the slot that is being copied is \<open>current\<close>.\<close>

fun thread_scan :: "nat option \<Rightarrow> bytes list \<Rightarrow> bytes list \<Rightarrow> bytes list \<times> bytes" where
  "thread_scan current slots [] = (slots, CRLF)"
| "thread_scan current slots (raw # ls) =
     (let line = line_text raw in
      if line = [] then (slots, raw)
      else (let current' = (if starts_field line
                then (case threadFieldSlot line of
                    None \<Rightarrow> None
                  | Some i \<Rightarrow> if slots ! i \<noteq> [] then None else Some i)
                else current);
              slots' = (case current' of None \<Rightarrow> slots | Some i \<Rightarrow> slots[i := slots ! i @ raw]) in
            thread_scan current' slots' ls))"

definition threadFieldBlock :: "bytes \<Rightarrow> bytes" where
  "threadFieldBlock header =
     (case thread_scan None (replicate (length threadFieldNames) []) (raw_lines header) of
        (slots, terminator) \<Rightarrow> concat slots @ terminator)"

section \<open>Facts about lines\<close>

definition terminated :: "bytes \<Rightarrow> bool" where
  "terminated l \<longleftrightarrow> (\<exists>t. l = t @ [LF] \<and> LF \<notin> set t)"

lemma concat_raw_lines [simp]: "concat (raw_lines s) = s"
  by (induction s rule: raw_lines.induct) (auto split: list.splits)

lemma raw_lines_Nil [simp]: "raw_lines s = [] \<longleftrightarrow> s = []"
  by (cases s) (auto split: list.splits)

lemma raw_lines_nonempty: "l \<in> set (raw_lines s) \<Longrightarrow> l \<noteq> []"
  by (induction s arbitrary: l rule: raw_lines.induct) (auto split: list.splits if_splits)

lemma raw_lines_first: "LF \<notin> set t \<Longrightarrow> raw_lines (t @ LF # s) = (t @ [LF]) # raw_lines s"
  by (induction t) auto

lemma raw_lines_terminated: "\<forall>l \<in> set ls. terminated l \<Longrightarrow> raw_lines (concat ls @ s) = ls @ raw_lines s"
proof (induction ls)
  case (Cons l ls)
  then obtain t where "l = t @ [LF]" "LF \<notin> set t" by (auto simp: terminated_def)
  with Cons raw_lines_first [of t "concat ls @ s"] show ?case by simp
qed simp

lemma raw_lines_cases:
  "l \<in> set (raw_lines s) \<Longrightarrow> terminated l \<or> LF \<notin> set l"
proof (induction s arbitrary: l rule: raw_lines.induct)
  case (2 c s)
  show ?case
  proof (cases "c = LF")
    case True
    with 2 show ?thesis by (auto simp: terminated_def)
  next
    case False
    show ?thesis
    proof (cases "raw_lines s")
      case Nil
      with 2 False show ?thesis by auto
    next
      case (Cons l' ls)
      have *: "terminated (c # l') \<or> LF \<notin> set (c # l')" if "terminated l' \<or> LF \<notin> set l'"
        using that False unfolding terminated_def by (metis append_Cons set_ConsD)
      from 2(3) False Cons have "l = c # l' \<or> l \<in> set ls" by simp
      with 2(2) [OF False] Cons * show ?thesis by auto
    qed
  qed
qed simp

lemma trim_suffix_snoc [simp]: "trim_suffix (t @ [c]) [c] = t"
  by (simp add: trim_suffix_def cut_suffix_def)

lemma trim_suffix_other: "s = [] \<or> last s \<noteq> c \<Longrightarrow> trim_suffix s [c] = s"
  by (auto simp: trim_suffix_def cut_suffix_def has_suffix_single)

lemma line_text_blank: "terminated l \<Longrightarrow> line_text l = [] \<longleftrightarrow> l = [LF] \<or> l = CRLF"
proof -
  assume "terminated l"
  then obtain t where l: "l = t @ [LF]" by (auto simp: terminated_def)
  have "trim_suffix t [CR] = [] \<longleftrightarrow> t = [] \<or> t = [CR]"
  proof (cases "t \<noteq> [] \<and> last t = CR")
    case True
    then obtain u where "t = u @ [CR]" by (metis append_butlast_last_id)
    then show ?thesis by simp
  next
    case False
    then have "trim_suffix t [CR] = t" using trim_suffix_other by blast
    with False show ?thesis by auto
  qed
  then show ?thesis by (simp add: l line_text_def)
qed

section \<open>Fields of a block\<close>

text \<open>
  The reading of a block the scans are compared with: its lines up to the first blank one, each
  field a line that does not begin with white space together with the folded lines after it.
\<close>

definition body_lines :: "bytes list \<Rightarrow> bytes list" where
  "body_lines ls = takeWhile (\<lambda>raw. line_text raw \<noteq> []) ls"

fun group_fields :: "bytes list \<Rightarrow> bytes list list" where
  "group_fields [] = []"
| "group_fields (raw # ls) =
     (if starts_field (line_text raw)
      then (raw # takeWhile (\<lambda>l. \<not> starts_field (line_text l)) ls) # group_fields ls
      else group_fields ls)"

definition header_fields :: "bytes \<Rightarrow> bytes list list" where
  "header_fields header = group_fields (body_lines (raw_lines header))"

definition block_end :: "bytes \<Rightarrow> bytes" where
  "block_end header = (case dropWhile (\<lambda>raw. line_text raw \<noteq> []) (raw_lines header) of [] \<Rightarrow> CRLF | raw # ls \<Rightarrow> raw)"

definition field_slot :: "bytes list \<Rightarrow> nat option" where
  "field_slot f = threadFieldSlot (line_text (hd f))"

definition first_in :: "nat \<Rightarrow> bytes list list \<Rightarrow> bytes" where
  "first_in k fs = (case find (\<lambda>f. field_slot f = Some k) fs of None \<Rightarrow> [] | Some f \<Rightarrow> concat f)"

lemma body_lines_simps [simp]:
  "body_lines [] = []"
  "body_lines (raw # ls) = (if line_text raw = [] then [] else raw # body_lines ls)"
  by (simp_all add: body_lines_def)

lemma first_in_Cons [simp]: "first_in k (f # fs) = (if field_slot f = Some k then concat f else first_in k fs)"
  by (simp add: first_in_def)

lemma first_in_Nil [simp]: "first_in k [] = []"
  by (simp add: first_in_def)

lemma slot_of_name_bound: "slot_of_name name n cs = Some i \<Longrightarrow> i < n + length cs"
  by (induction cs arbitrary: n) (force split: if_splits)+

lemma threadFieldSlot_bound: "threadFieldSlot line = Some i \<Longrightarrow> i < 4"
  by (auto simp: threadFieldSlot_def threadFieldNames_def dest!: slot_of_name_bound split: prod.splits if_splits)

definition copied :: "nat option \<Rightarrow> bytes list \<Rightarrow> bytes list \<Rightarrow> nat \<Rightarrow> bytes" where
  "copied current slots ls k = slots ! k @
     (if current = Some k then concat (takeWhile (\<lambda>l. \<not> starts_field (line_text l)) (body_lines ls))
      else if slots ! k = [] then first_in k (group_fields (body_lines ls)) else [])"

lemma copied_blank: "body_lines ls = [] \<Longrightarrow> length slots = 4 \<Longrightarrow> map (copied current slots ls) [0..<4] = slots"
  by (rule nth_equalityI) (simp_all add: copied_def)

lemma thread_scan_copied:
  assumes "\<forall>l \<in> set ls. l \<noteq> []" and "length slots = 4" and "\<forall>i. current = Some i \<longrightarrow> i < 4 \<and> slots ! i \<noteq> []"
  shows "thread_scan current slots ls = (map (copied current slots ls) [0..<4],
    case dropWhile (\<lambda>raw. line_text raw \<noteq> []) ls of [] \<Rightarrow> CRLF | raw # _ \<Rightarrow> raw)"
  using assms
proof (induction ls arbitrary: current slots)
  case Nil
  then show ?case by (simp add: copied_blank)
next
  case (Cons raw ls)
  show ?case
  proof (cases "line_text raw = []")
    case True
    with Cons.prems show ?thesis by (simp add: copied_blank)
  next
    case nb: False
    define current' where "current' = (if starts_field (line_text raw)
      then (case threadFieldSlot (line_text raw) of None \<Rightarrow> None | Some i \<Rightarrow> if slots ! i \<noteq> [] then None else Some i)
      else current)"
    define slots' where "slots' = (case current' of None \<Rightarrow> slots | Some i \<Rightarrow> slots[i := slots ! i @ raw])"
    have step: "thread_scan current slots (raw # ls) = thread_scan current' slots' ls"
      using nb by (simp add: current'_def slots'_def Let_def)
    have inv: "length slots' = 4" "\<forall>i. current' = Some i \<longrightarrow> i < 4 \<and> slots' ! i \<noteq> []"
      using Cons.prems threadFieldSlot_bound
      by (auto simp: current'_def slots'_def split: option.splits if_splits)
    have "copied current' slots' ls k = copied current slots (raw # ls) k" if "k < 4" for k
    proof (cases "starts_field (line_text raw)")
      case False
      then show ?thesis using nb that Cons.prems
        by (cases current) (auto simp: copied_def current'_def slots'_def nth_list_update)
    next
      case True
      show ?thesis
      proof (cases "threadFieldSlot (line_text raw)")
        case None
        with True nb that Cons.prems show ?thesis
          by (auto simp: copied_def current'_def slots'_def field_slot_def)
      next
        case (Some i)
        with threadFieldSlot_bound have "i < 4" by blast
        with Some True nb that Cons.prems show ?thesis
          by (auto simp: copied_def current'_def slots'_def field_slot_def nth_list_update)
      qed
    qed
    then have "map (copied current' slots' ls) [0..<4] = map (copied current slots (raw # ls)) [0..<4]" by simp
    with Cons.IH [OF _ inv] Cons.prems(1) step nb show ?thesis by simp
  qed
qed

text \<open>
  The threading block is exactly the first field of each of the four names, whole with its
  folded lines, in the order of the slots, ended by the input's own blank line; fields of other
  names and repeated fields leave no trace in it.
\<close>

theorem threadFieldBlock_exact:
  "threadFieldBlock header = concat (map (\<lambda>k. first_in k (header_fields header)) [0..<4]) @ block_end header"
proof -
  have "copied None [[], [], [], []] (raw_lines header) k = first_in k (header_fields header)" if "k < 4" for k
  proof -
    from that consider "k = 0" | "k = 1" | "k = 2" | "k = 3" by linarith
    then show ?thesis by cases (simp_all add: copied_def header_fields_def)
  qed
  then have m: "map (copied None [[], [], [], []] (raw_lines header)) [0..<4] = map (\<lambda>k. first_in k (header_fields header)) [0..<4]" by simp
  have r: "replicate (length threadFieldNames) [] = [[], [], [], []]"
    by (simp add: threadFieldNames_def)
  have "thread_scan None [[], [], [], []] (raw_lines header) =
    (map (\<lambda>k. first_in k (header_fields header)) [0..<4], block_end header)"
    using thread_scan_copied [of "raw_lines header" "[[], [], [], []]" None] raw_lines_nonempty [of _ header]
    unfolding m block_end_def by auto
  then show ?thesis unfolding threadFieldBlock_def r by simp
qed

section \<open>Whole blocks\<close>

definition block_lines :: "bytes list \<Rightarrow> bytes \<Rightarrow> bool" where
  "block_lines ls t \<longleftrightarrow> (\<forall>l \<in> set ls. terminated l \<and> line_text l \<noteq> []) \<and> terminated t \<and> line_text t = []"

lemma terminated_LF: "terminated l \<Longrightarrow> LF \<in> set l"
  by (auto simp: terminated_def)

lemma terminator_from_lines: "block_lines ls t \<Longrightarrow> terminator_from n (ls @ t # us) = Some (n + length (concat ls) + length t)"
  by (induction ls arbitrary: n) (auto simp: block_lines_def terminated_LF)

lemma terminator_from_Some:
  "terminator_from n ls = Some m \<Longrightarrow> \<forall>l \<in> set ls. terminated l \<or> LF \<notin> set l \<Longrightarrow>
     \<exists>us t vs. ls = us @ t # vs \<and> block_lines us t \<and> m = n + length (concat us) + length t"
proof (induction ls arbitrary: n)
  case (Cons raw ls)
  then have t: "terminated raw" by (auto split: if_splits)
  show ?case
  proof (cases "line_text raw = []")
    case True
    with Cons.prems t have "raw # ls = [] @ raw # ls \<and> block_lines [] raw \<and> m = n + length (concat []) + length raw"
      by (simp add: block_lines_def terminated_LF)
    then show ?thesis by blast
  next
    case False
    with Cons.prems t have "terminator_from (n + length raw) ls = Some m" by (simp add: terminated_LF)
    moreover have "\<forall>l \<in> set ls. terminated l \<or> LF \<notin> set l" using Cons.prems(2) by simp
    ultimately have "\<exists>us u vs. ls = us @ u # vs \<and> block_lines us u \<and> m = n + length raw + length (concat us) + length u"
      by (rule Cons.IH)
    then obtain us u vs where
      u: "ls = us @ u # vs" "block_lines us u" "m = n + length raw + length (concat us) + length u" by blast
    with False t have "raw # ls = (raw # us) @ u # vs \<and> block_lines (raw # us) u \<and>
      m = n + length (concat (raw # us)) + length u" by (simp add: block_lines_def)
    then show ?thesis by blast
  qed
qed simp

lemma complete_block:
  "headerTerminatorEnd header = Some (length header) \<longleftrightarrow> (\<exists>ls t. raw_lines header = ls @ [t] \<and> block_lines ls t)"
proof
  assume "headerTerminatorEnd header = Some (length header)"
  with terminator_from_Some [of 0 "raw_lines header" "length header"] raw_lines_cases
  obtain us t vs where u: "raw_lines header = us @ t # vs" "block_lines us t"
    "length header = length (concat us) + length t" by (auto simp: headerTerminatorEnd_def)
  have "header = concat (us @ t # vs)" using u(1) by (metis concat_raw_lines)
  with u(3) have "concat vs = []" by simp
  moreover have "\<forall>l \<in> set vs. l \<noteq> []" using u(1) raw_lines_nonempty [of _ header] by auto
  ultimately have "vs = []" by (cases vs) auto
  with u show "\<exists>ls t. raw_lines header = ls @ [t] \<and> block_lines ls t" by blast
next
  assume "\<exists>ls t. raw_lines header = ls @ [t] \<and> block_lines ls t"
  then obtain ls t where l: "raw_lines header = ls @ [t]" "block_lines ls t" by blast
  have "length header = length (concat (ls @ [t]))" using l(1) by (metis concat_raw_lines)
  with l terminator_from_lines [OF l(2), of 0 "[]"] show "headerTerminatorEnd header = Some (length header)"
    by (simp add: headerTerminatorEnd_def)
qed

lemma block_lines_raw: "block_lines ls t \<Longrightarrow> raw_lines (concat ls @ t) = ls @ [t]"
  using raw_lines_terminated [of "ls @ [t]" "[]"] by (auto simp: block_lines_def)

lemma block_complete: "block_lines ls t \<Longrightarrow> headerTerminatorEnd (concat ls @ t) = Some (length (concat ls @ t))"
  using complete_block block_lines_raw by blast

lemma takeWhile_block: "block_lines ls t \<Longrightarrow> body_lines (ls @ [t]) = ls"
  by (induction ls) (auto simp: block_lines_def)

lemma dropWhile_block: "block_lines ls t \<Longrightarrow> dropWhile (\<lambda>raw. line_text raw \<noteq> []) (ls @ [t]) = [t]"
  by (induction ls) (auto simp: block_lines_def)

lemma block_fields: "block_lines ls t \<Longrightarrow> header_fields (concat ls @ t) = group_fields ls \<and> block_end (concat ls @ t) = t"
  by (simp add: header_fields_def block_end_def block_lines_raw takeWhile_block dropWhile_block)

section \<open>Fields and their lines\<close>

definition whole_field :: "bytes list \<Rightarrow> bool" where
  "whole_field f \<longleftrightarrow> f \<noteq> [] \<and> starts_field (line_text (hd f)) \<and> (\<forall>l \<in> set (tl f). \<not> starts_field (line_text l))"

lemma concat_group_fields: "concat (group_fields ls) = dropWhile (\<lambda>l. \<not> starts_field (line_text l)) ls"
  by (induction ls) simp_all

lemma group_fields_whole: "f \<in> set (group_fields ls) \<Longrightarrow> whole_field f"
  by (induction ls) (auto simp: whole_field_def dest: set_takeWhileD split: if_splits)

lemma group_fields_skip: "\<forall>l \<in> set us. \<not> starts_field (line_text l) \<Longrightarrow> group_fields (us @ ls) = group_fields ls"
  by (induction us) auto

lemma takeWhile_all_app: "\<forall>l \<in> set us. P l \<Longrightarrow> ls = [] \<or> \<not> P (hd ls) \<Longrightarrow> takeWhile P (us @ ls) = us"
  by (cases ls) (simp_all add: takeWhile_tail)

lemma hd_concat_fields: "\<forall>f \<in> set fs. whole_field f \<Longrightarrow> concat fs = [] \<or> starts_field (line_text (hd (concat fs)))"
  by (cases fs) (auto simp: whole_field_def)

lemma group_fields_concat: "\<forall>f \<in> set fs. whole_field f \<Longrightarrow> group_fields (concat fs) = fs"
proof (induction fs)
  case (Cons f fs)
  then obtain raw us where f: "f = raw # us" "starts_field (line_text raw)" "\<forall>l \<in> set us. \<not> starts_field (line_text l)"
    by (cases f) (auto simp: whole_field_def)
  have "takeWhile (\<lambda>l. \<not> starts_field (line_text l)) (us @ concat fs) = us"
    using f hd_concat_fields [of fs] Cons.prems by (intro takeWhile_all_app) auto
  with f Cons show ?case by (simp add: group_fields_skip)
qed simp

definition picked :: "nat \<Rightarrow> bytes list list \<Rightarrow> bytes list" where
  "picked k fs = (case find (\<lambda>f. field_slot f = Some k) fs of None \<Rightarrow> [] | Some f \<Rightarrow> f)"

lemma first_in_picked: "first_in k fs = concat (picked k fs)"
  by (simp add: first_in_def picked_def split: option.split)

lemma picked_cases: "picked k fs = [] \<or> picked k fs \<in> set fs \<and> field_slot (picked k fs) = Some k"
  by (auto simp: picked_def find_Some_iff split: option.split)

lemma picked_Nil [simp]: "picked k [] = []"
  by (simp add: picked_def)

lemma picked_Cons: "picked k (f # fs) = (if field_slot f = Some k then f else picked k fs)"
  by (simp add: picked_def)

lemma picked_length:
  "length (concat (picked 0 fs)) + length (concat (picked 1 fs)) + length (concat (picked 2 fs)) + length (concat (picked 3 fs))
     \<le> length (concat (concat fs))"
proof (induction fs)
  case (Cons f fs)
  consider "field_slot f = Some 0" | "field_slot f = Some 1" | "field_slot f = Some 2" | "field_slot f = Some 3"
    | "field_slot f \<notin> Some ` {0, 1, 2, 3}" by auto
  then show ?case using Cons by cases (auto simp: picked_Cons)
qed simp

lemma dropWhile_length: "length (concat (dropWhile P ls)) \<le> length (concat ls)"
  by (induction ls) auto

lemma picked_four:
  assumes "a = [] \<or> field_slot a = Some 0" "b = [] \<or> field_slot b = Some 1"
    "c = [] \<or> field_slot c = Some 2" "d = [] \<or> field_slot d = Some 3"
  defines "fs \<equiv> filter (\<lambda>f. f \<noteq> []) [a, b, c, d]"
  shows "picked 0 fs = a" "picked 1 fs = b" "picked 2 fs = c" "picked 3 fs = d"
  using assms(1-4) unfolding fs_def
  by (cases "a = []"; cases "b = []"; cases "c = []"; cases "d = []"; simp add: picked_Cons)+

lemma four_upt: "map g [0..<4] = [g 0, g 1, g 2, g 3]" for g :: "nat \<Rightarrow> 'a"
  by (simp add: upt_rec numeral_eq_Suc)

lemma picked_again: "k < 4 \<Longrightarrow> picked k (filter (\<lambda>f. f \<noteq> []) (map (\<lambda>k. picked k fs) [0..<4])) = picked k fs"
proof -
  assume k: "k < 4"
  have c: "picked j fs = [] \<or> field_slot (picked j fs) = Some j" for j using picked_cases [of j fs] by blast
  from k consider "k = 0" | "k = 1" | "k = 2" | "k = 3" by linarith
  then show ?thesis
    unfolding four_upt by cases (simp_all only: picked_four [OF c c c c])
qed

lemma filter_concat: "concat (filter (\<lambda>f. f \<noteq> []) fs) = concat fs"
  by (induction fs) auto

text \<open>
  The threading block of a whole header block is itself a whole header block, never longer than
  the input, and has no other content: building it again changes nothing.
\<close>

theorem threadFieldBlock_stable:
  assumes "headerTerminatorEnd header = Some (length header)"
  shows "headerTerminatorEnd (threadFieldBlock header) = Some (length (threadFieldBlock header)) \<and>
    length (threadFieldBlock header) \<le> length header \<and>
    threadFieldBlock (threadFieldBlock header) = threadFieldBlock header"
proof -
  from assms complete_block obtain ls t where l: "raw_lines header = ls @ [t]" and b: "block_lines ls t" by blast
  have h: "header = concat ls @ t" using concat_raw_lines [of header] unfolding l by simp
  have hf: "header_fields header = group_fields ls" "block_end header = t" using block_fields [OF b] h by auto
  define fs where "fs = group_fields ls"
  define P where "P = filter (\<lambda>f. f \<noteq> []) (map (\<lambda>k. picked k fs) [0..<4])"
  have block: "threadFieldBlock header = concat (concat P) @ t"
    by (simp add: threadFieldBlock_exact hf P_def filter_concat first_in_picked fs_def four_upt)
  have P: "f \<in> set fs" if "f \<in> set P" for f
    using that picked_cases [of _ fs] unfolding P_def by auto
  have sub: "set (concat P) \<subseteq> set ls"
  proof
    fix r assume "r \<in> set (concat P)"
    then obtain f where "f \<in> set P" "r \<in> set f" by auto
    with P have "r \<in> set (concat fs)" by auto
    then show "r \<in> set ls" unfolding fs_def concat_group_fields by (rule set_dropWhileD)
  qed
  then have pb: "block_lines (concat P) t" using b by (auto simp: block_lines_def)
  have whole: "\<forall>f \<in> set P. whole_field f" using P group_fields_whole unfolding fs_def by blast
  have again: "header_fields (threadFieldBlock header) = P" "block_end (threadFieldBlock header) = t"
    using block_fields [OF pb] group_fields_concat [OF whole] unfolding block by auto
  have "map (\<lambda>k. first_in k P) [0..<4] = map (\<lambda>k. first_in k fs) [0..<4]"
    using picked_again [of _ fs] unfolding P_def [symmetric] by (simp add: first_in_picked)
  then have "threadFieldBlock (threadFieldBlock header) = threadFieldBlock header"
    unfolding threadFieldBlock_exact [of "threadFieldBlock header"] again
    by (simp only: threadFieldBlock_exact [of header] hf fs_def)
  moreover have "length (concat (concat P)) \<le> length (concat ls)"
  proof -
    have "concat (concat P) = concat (map (\<lambda>k. concat (picked k fs)) [0..<4])"
      unfolding P_def filter_concat by (simp add: four_upt)
    then have "length (concat (concat P)) \<le> length (concat (concat fs))"
      using picked_length [of fs] by (simp add: four_upt)
    also have "\<dots> \<le> length (concat ls)" unfolding fs_def concat_group_fields by (rule dropWhile_length)
    finally show ?thesis .
  qed
  moreover have "headerTerminatorEnd (threadFieldBlock header) = Some (length (threadFieldBlock header))"
    unfolding block by (rule block_complete [OF pb])
  moreover have "length (threadFieldBlock header) = length (concat (concat P)) + length t" unfolding block by simp
  moreover have "length header = length (concat ls) + length t" using h by simp
  ultimately show ?thesis by linarith
qed

definition sample_header :: bytes where
  "sample_header = ''Date: x'' @ CRLF @ ''subject: a'' @ CRLF @ '' b'' @ CRLF @ ''Subject: c'' @ CRLF @ CRLF"

theorem threadFieldBlock_stable_witness:
  "threadFieldBlock sample_header = ''subject: a'' @ CRLF @ '' b'' @ CRLF @ CRLF \<and>
   threadFieldBlock (threadFieldBlock sample_header) = threadFieldBlock sample_header"
proof -
  have "headerTerminatorEnd sample_header = Some (length sample_header)" by code_simp
  with threadFieldBlock_stable [of sample_header]
  have "threadFieldBlock (threadFieldBlock sample_header) = threadFieldBlock sample_header" by blast
  moreover have "threadFieldBlock sample_header = ''subject: a'' @ CRLF @ '' b'' @ CRLF @ CRLF" by code_simp
  ultimately show ?thesis by blast
qed

section \<open>The bounded block\<close>

text \<open>The lines before the field after the first \<open>m\<close>.\<close>

fun kept :: "nat \<Rightarrow> bytes list \<Rightarrow> bytes list" where
  "kept m [] = []"
| "kept m (raw # ls) =
     (if starts_field (line_text raw) then (case m of 0 \<Rightarrow> [] | Suc m' \<Rightarrow> raw # kept m' ls)
      else raw # kept m ls)"

lemma kept_takeWhile:
  "takeWhile (\<lambda>l. \<not> starts_field (line_text l)) (kept m ls) = takeWhile (\<lambda>l. \<not> starts_field (line_text l)) ls"
  by (induction m ls rule: kept.induct) (auto split: nat.splits)

lemma kept_fields: "group_fields (kept m ls) = take m (group_fields ls)"
  by (induction m ls rule: kept.induct) (auto simp: kept_takeWhile take_Cons split: nat.splits)

lemma kept_prefix: "\<exists>vs. ls = kept m ls @ vs \<and> (m < length (group_fields ls) \<longrightarrow> vs \<noteq> [])"
proof (induction m ls rule: kept.induct)
  case (2 m raw ls)
  then show ?case by (cases "starts_field (line_text raw)"; cases m) auto
qed simp

lemma bounded_scan_kept:
  assumes "n \<le> limit"
  shows "bounded_scan header limit n before ls =
    (if int (length (group_fields (body_lines ls))) \<le> limit - n then (header, False)
     else (let b = before @ concat (kept (nat (limit - n)) (body_lines ls)) in
       (b @ (if has_suffix b CRLF then CRLF else [LF]), True)))"
  using assms
proof (induction header limit n before ls rule: bounded_scan.induct)
  case (2 header limit n before raw ls)
  show ?case
  proof (cases "line_text raw = []")
    case True
    with 2 show ?thesis by simp
  next
    case nb: False
    show ?thesis
    proof (cases "starts_field (line_text raw)")
      case False
      with nb 2 show ?thesis by (simp add: Let_def)
    next
      case starts: True
      show ?thesis
      proof (cases "limit < n + 1")
        case True
        with 2(3) have "limit = n" by simp
        with starts nb show ?thesis by simp
      next
        case False
        then have m: "nat (limit - n) = Suc (nat (limit - (n + 1)))" by simp
        have "bounded_scan header limit (n + 1) (before @ raw) ls =
          (if int (length (group_fields (body_lines ls))) \<le> limit - (n + 1) then (header, False)
           else (let b = (before @ raw) @ concat (kept (nat (limit - (n + 1))) (body_lines ls)) in
             (b @ (if has_suffix b CRLF then CRLF else [LF]), True)))"
          using False 2(1) [OF nb starts False] by simp
        moreover have "bounded_scan header limit n before (raw # ls) = bounded_scan header limit (n + 1) (before @ raw) ls"
          using False starts nb by simp
        ultimately show ?thesis using starts nb m by (simp add: Let_def)
      qed
    qed
  qed
qed simp

lemma separator_block:
  "\<forall>l \<in> set ls. terminated l \<and> line_text l \<noteq> [] \<Longrightarrow> block_lines ls (if b then CRLF else [LF])"
  by (auto simp: block_lines_def terminated_def line_text_blank intro: exI [of _ "[CR]"])

lemma terminated_nonblank_length: "terminated l \<Longrightarrow> line_text l \<noteq> [] \<Longrightarrow> 2 \<le> length l"
  by (cases l rule: rev_cases) (auto simp: terminated_def line_text_def trim_suffix_def cut_suffix_def Suc_le_eq)

text \<open>
  Bounding the number of fields of a whole header block keeps exactly its first \<open>limit\<close> fields,
  whole, says so exactly when it dropped one, and always leaves a whole header block that is no
  longer than the input.
\<close>

theorem boundedHeaderCount_exact:
  assumes "headerTerminatorEnd header = Some (length header)" and "0 \<le> limit"
  shows "case boundedHeaderCount header limit of (bounded, truncated) \<Rightarrow>
    header_fields bounded = take (nat limit) (header_fields header) \<and>
    truncated = (limit < int (length (header_fields header))) \<and>
    headerTerminatorEnd bounded = Some (length bounded) \<and> length bounded \<le> length header"
proof -
  from assms(1) complete_block obtain ls t where l: "raw_lines header = ls @ [t]" and b: "block_lines ls t" by blast
  have h: "header = concat ls @ t" using concat_raw_lines [of header] unfolding l by simp
  have hf: "header_fields header = group_fields ls" using block_fields [OF b] h by simp
  have body: "body_lines (raw_lines header) = ls" unfolding l by (rule takeWhile_block [OF b])
  let ?m = "nat limit" let ?k = "kept ?m ls"
  show ?thesis
  proof (cases "int (length (group_fields ls)) \<le> limit")
    case True
    then have "boundedHeaderCount header limit = (header, False)"
      using bounded_scan_kept [OF assms(2), of header "[]" "raw_lines header"] body by (simp add: boundedHeaderCount_def)
    moreover from True have "length (group_fields ls) \<le> ?m" by linarith
    ultimately show ?thesis using True assms(1) hf by simp
  next
    case False
    define sep where "sep = (if has_suffix (concat ?k) CRLF then CRLF else [LF])"
    have r: "boundedHeaderCount header limit = (concat ?k @ sep, True)"
      using False bounded_scan_kept [OF assms(2), of header "[]" "raw_lines header"] body
      by (simp add: boundedHeaderCount_def Let_def sep_def)
    obtain vs where vs: "ls = ?k @ vs" "?m < length (group_fields ls) \<longrightarrow> vs \<noteq> []" using kept_prefix by blast
    have "?m < length (group_fields ls)" using False assms(2) by linarith
    with vs have ne: "vs \<noteq> []" by blast
    have "\<forall>l \<in> set ?k. terminated l \<and> line_text l \<noteq> []" using b vs(1) unfolding block_lines_def by (metis UnCI set_append)
    then have kb: "block_lines ?k sep" unfolding sep_def by (rule separator_block)
    obtain v vs' where v: "vs = v # vs'" using ne by (cases vs) auto
    have "v \<in> set ls" using vs(1) v by (metis in_set_conv_decomp)
    then have "2 \<le> length v" using b terminated_nonblank_length by (auto simp: block_lines_def)
    moreover have "length header = length (concat ?k) + length (concat vs) + length t"
      using h vs(1) by (metis concat_append length_append)
    moreover have "length sep \<le> 2" by (simp add: sep_def)
    ultimately have "length (concat ?k @ sep) \<le> length header" using v by simp
    with False block_complete [OF kb] block_fields [OF kb] show ?thesis by (simp add: r hf kept_fields)
  qed
qed

theorem boundedHeaderCount_exact_witness:
  "boundedHeaderCount sample_header 1 = (''Date: x'' @ CRLF @ CRLF, True) \<and>
   length (fst (boundedHeaderCount sample_header 1)) \<le> length sample_header"
proof -
  have "headerTerminatorEnd sample_header = Some (length sample_header)" by code_simp
  from boundedHeaderCount_exact [OF this, of 1]
  have "length (fst (boundedHeaderCount sample_header 1)) \<le> length sample_header" by (auto split: prod.splits)
  moreover have "boundedHeaderCount sample_header 1 = (''Date: x'' @ CRLF @ CRLF, True)" by code_simp
  ultimately show ?thesis by blast
qed

end
