(* ===== verification/Mime_Message.thy ===== *)
theory Mime_Message
  imports Mime_Text Header_Blocks
begin

text \<open>
  Message normalization (\<^verbatim>\<open>bridge/mime.go\<close>): the bounded header block, the canonical headers, and the
  walk over the MIME entities that picks the text and lists the attachments. The parsers and decoders
  of the Go library and of \<^verbatim>\<open>golang.org/x/net\<close> are the fields of an environment.
\<close>

text \<open>\<^verbatim>\<open>mail.Header\<close> and \<^verbatim>\<open>textproto.MIMEHeader\<close>: the values of a field, by canonical name.\<close>

type_synonym header_map = "bytes \<Rightarrow> bytes list"

datatype html_node = Element bytes "html_node list" | TextNode bytes | OtherNode "html_node list"

record mime_env =
  me_ReadMessage :: "bytes \<Rightarrow> (header_map \<times> reader) option"
  me_ParseMediaType :: "bytes \<Rightarrow> (bytes \<times> (bytes \<Rightarrow> bytes)) option"
  me_Parts :: "bytes \<Rightarrow> reader \<Rightarrow> (header_map \<times> reader) list \<times> bool"
  me_base64_string :: "bytes \<Rightarrow> bool"
  me_base64 :: "reader \<Rightarrow> reader"
  me_quotedprintable :: "reader \<Rightarrow> reader"
  me_charset :: "bytes \<Rightarrow> (reader \<Rightarrow> reader) option"
  me_DecodeHeader :: "bytes \<Rightarrow> bytes option"
  me_html_Parse :: "bytes \<Rightarrow> html_node option"

datatype mime_error = PartsLimit | NormalizeError bytes

abbreviation "errorCodeInputTooLarge \<equiv> ''input_too_large''"
abbreviation "errorCodeMalformedHeader \<equiv> ''malformed_header''"
abbreviation "errorCodeMalformedMIME \<equiv> ''malformed_mime''"
abbreviation "errorCodeUnsupportedCharset \<equiv> ''unsupported_charset''"
abbreviation "errorCodeMalformedEncoding \<equiv> ''malformed_encoding''"

definition header_Get :: "header_map \<Rightarrow> bytes \<Rightarrow> bytes" where
  "header_Get h name = (case h name of [] \<Rightarrow> [] | v # vs \<Rightarrow> v)"

text \<open>\<^verbatim>\<open>io.ReadAll(io.LimitReader(reader, limit + 1))\<close>: an error past the limit is never seen.\<close>

definition read_limited :: "int \<Rightarrow> reader \<Rightarrow> go_error + bytes" where
  "read_limited limit r = (case r of (content, e) \<Rightarrow>
     if limit < int (length content) then Inr (take (nat (limit + 1)) content)
     else (case e of None \<Rightarrow> Inr content | Some x \<Rightarrow> Inl x))"

section \<open>Headers\<close>

definition boundedHeaderBlock :: "bytes \<Rightarrow> NormalizeLimits \<Rightarrow> mime_error + bytes" where
  "boundedHeaderBlock raw limits =
     (let limit = min (lMaxHeaderBytes limits) (int (length raw));
          start = take (nat limit) raw;
          found = (case index_sub (CRLF @ CRLF) start of
              Some i \<Rightarrow> Some (i + 4)
            | None \<Rightarrow> (case index_sub [LF, LF] start of Some i \<Rightarrow> Some (i + 2) | None \<Rightarrow> None)) in
      case found of
        None \<Rightarrow> if lMaxHeaderBytes limits < int (length raw) then Inl (NormalizeError errorCodeMalformedHeader) else Inr raw
      | Some headerEnd \<Rightarrow> if lMaxHeaderBytes limits < int headerEnd then Inl (NormalizeError errorCodeMalformedHeader)
          else Inr (take headerEnd raw))"

function validEncodedWords :: "mime_env \<Rightarrow> bytes \<Rightarrow> bool" where
  "validEncodedWords env v =
     (case index_sub ''=?'' v of
        None \<Rightarrow> True
      | Some start \<Rightarrow> (let v1 = drop (start + 2) v in
          case index_sub ''?='' v1 of
            None \<Rightarrow> True
          | Some stop \<Rightarrow> (let parts = split_byte (CHR ''?'') (take stop v1) in
              if length parts \<noteq> 3 \<or> parts ! 0 = [] \<or> (\<not> equal_fold (parts ! 1) ''b'' \<and> \<not> equal_fold (parts ! 1) ''q'')
              then validEncodedWords env (drop (stop + 2) v1)
              else if parts ! 2 = [] then False
              else if equal_fold (parts ! 1) ''b'' \<and> \<not> me_base64_string env (parts ! 2) then False
              else validEncodedWords env (drop (stop + 2) v1))))"
  by pat_completeness auto
termination
  by (relation "measure (\<lambda>(env, v). length v)") (auto dest!: index_sub_bound)

declare validEncodedWords.simps [simp del]
declare validEncodedWords.simps [code]

text \<open>\<^verbatim>\<open>messageIDs\<close>: every \<open><...>\<close> without white space inside, in order.\<close>

function messageIDs :: "bytes \<Rightarrow> bytes list" where
  "messageIDs v =
     (case index_byte (CHR ''<'') v of
        None \<Rightarrow> []
      | Some start \<Rightarrow> (let v1 = drop start v in
          case index_byte (CHR ''>'') v1 of
            None \<Rightarrow> []
          | Some stop \<Rightarrow> (let identifier = take (stop + 1) v1 in
              (if 2 < length identifier \<and> \<not> contains_any identifier [SP, TAB, CR, LF] then [identifier] else [])
              @ messageIDs (drop (stop + 1) v1))))"
  by pat_completeness auto
termination
  by (relation "measure length") (auto simp: index_byte_Some)

declare messageIDs.simps [simp del]
declare messageIDs.simps [code]

definition firstMessageID :: "bytes \<Rightarrow> bytes" where
  "firstMessageID v = (case messageIDs v of [] \<Rightarrow> [] | i # is \<Rightarrow> i)"

definition canonicalHeaderValue :: "mime_env \<Rightarrow> header_map \<Rightarrow> bytes \<Rightarrow> int \<Rightarrow> mime_error + bytes \<times> bool" where
  "canonicalHeaderValue env header name limit =
     (let v = header_Get header name in
      if v = [] then Inr ([], False)
      else (let truncated = limit < int (length v); v1 = (if truncated then take (nat limit) v else v) in
        if \<not> validEncodedWords env v1 then Inl (NormalizeError errorCodeMalformedHeader)
        else (case me_DecodeHeader env v1 of
            None \<Rightarrow> Inl (NormalizeError errorCodeMalformedHeader)
          | Some decoded \<Rightarrow> (case truncateUTF8 decoded limit of
              (d, wasTruncated) \<Rightarrow> Inr (trim_space d, truncated \<or> wasTruncated)))))"

definition bind_e :: "'e + 'a \<Rightarrow> ('a \<Rightarrow> 'e + 'b) \<Rightarrow> 'e + 'b" where
  "bind_e r f = (case r of Inl e \<Rightarrow> Inl e | Inr a \<Rightarrow> f a)"

definition canonicalHeaders :: "mime_env \<Rightarrow> header_map \<Rightarrow> bytes \<Rightarrow> NormalizeLimits \<Rightarrow> mime_error + CanonicalHeaders \<times> Truncation" where
  "canonicalHeaders env header headerBytes limits =
     (let val = (\<lambda>name. canonicalHeaderValue env header name (lMaxHeaderBytes limits)) in
      bind_e (val ''Date'') (\<lambda>(date, t1).
      bind_e (val ''From'') (\<lambda>(sender, t2).
      bind_e (val ''To'') (\<lambda>(to, t3).
      bind_e (val ''Subject'') (\<lambda>(subject, t4).
      bind_e (val ''Message-ID'') (\<lambda>(messageID, t5).
      bind_e (val ''In-Reply-To'') (\<lambda>(inReplyTo, t6).
      bind_e (val ''References'') (\<lambda>(referenceValues, t7).
        (let all = messageIDs referenceValues;
             cut = lMaxReferenceCount limits < int (length all);
             references = (if cut then drop (length all - nat (lMaxReferenceCount limits)) all else all) in
         Inr (\<lparr>h_Date = date, h_From = sender, h_To = to, h_Subject = subject, h_MessageID = firstMessageID messageID,
                h_InReplyTo = firstMessageID inReplyTo, h_References = references\<rparr>,
              noTruncation\<lparr>t_Headers := (lMaxHeaderBytes limits < int (length headerBytes) \<or>
                  t1 \<or> t2 \<or> t3 \<or> t4 \<or> t5 \<or> t6 \<or> t7),
                t_References := cut\<rparr>))))))))))"

section \<open>Text bodies\<close>

definition trim_right_crlf :: "bytes \<Rightarrow> bytes" where
  "trim_right_crlf s = rev (dropWhile (\<lambda>c. c = CR \<or> c = LF) (rev s))"

definition decodeTransfer :: "mime_env \<Rightarrow> reader \<Rightarrow> bytes \<Rightarrow> int \<Rightarrow> mime_error + bytes \<times> bool" where
  "decodeTransfer env r encoding limit =
     (let e = to_lower (trim_space encoding);
          decoded = (if e \<in> {[], ''7bit'', ''8bit'', ''binary''} then Some r
            else if e = ''base64'' then Some (me_base64 env r)
            else if e = ''quoted-printable'' then Some (me_quotedprintable env r)
            else None) in
      case decoded of
        None \<Rightarrow> Inl (NormalizeError errorCodeMalformedEncoding)
      | Some d \<Rightarrow> (case read_limited limit d of
          Inl x \<Rightarrow> Inl (NormalizeError errorCodeMalformedEncoding)
        | Inr content \<Rightarrow> if limit < int (length content) then Inr (take (nat limit) content, True)
            else Inr (content, False)))"

definition decodeCharset :: "mime_env \<Rightarrow> bytes \<Rightarrow> bytes \<Rightarrow> int \<Rightarrow> mime_error + bytes \<times> bool" where
  "decodeCharset env content label limit =
     (if label = [] \<or> equal_fold label ''utf-8'' \<or> equal_fold label ''us-ascii''
      then (case truncateUTF8 content limit of (t, truncated) \<Rightarrow> Inr (trim_right_crlf t, truncated))
      else (case me_charset env label of
          None \<Rightarrow> Inl (NormalizeError errorCodeUnsupportedCharset)
        | Some f \<Rightarrow> (case read_limited limit (f (content, None)) of
            Inl x \<Rightarrow> Inl (NormalizeError errorCodeUnsupportedCharset)
          | Inr content' \<Rightarrow> (case truncateUTF8 content' limit of (t, truncated) \<Rightarrow> Inr (trim_right_crlf t, truncated)))))"

definition blocking :: "bytes \<Rightarrow> bool" where
  "blocking tag \<longleftrightarrow> to_lower tag \<in> {''script'', ''style'', ''head'', ''template'', ''noscript''}"

fun collect_text :: "bool \<Rightarrow> html_node \<Rightarrow> bytes list" where
  "collect_text blocked (Element tag children) = concat (map (collect_text (blocked \<or> blocking tag)) children)"
| "collect_text blocked (TextNode t) = (if blocked then [] else [t])"
| "collect_text blocked (OtherNode children) = concat (map (collect_text blocked) children)"

text \<open>\<^verbatim>\<open>strings.Join\<close> with a space.\<close>

fun join_space :: "bytes list \<Rightarrow> bytes" where
  "join_space [] = []"
| "join_space [s] = s"
| "join_space (s # t # ss) = s @ SP # join_space (t # ss)"

definition htmlText :: "mime_env \<Rightarrow> bytes \<Rightarrow> int \<Rightarrow> bytes \<times> bool" where
  "htmlText env source limit = (case me_html_Parse env source of
      None \<Rightarrow> ([], False)
    | Some document \<Rightarrow> truncateUTF8 (join_space (go_fields (join_space (collect_text False document)))) limit)"

section \<open>The walk over the entities\<close>

record mimeCollector =
  mc_result :: NormalizedMessage
  mc_parts :: int
  mc_plain :: bytes
  mc_plainSet :: bool
  mc_html :: bytes
  mc_htmlSet :: bool

definition update_truncation :: "(Truncation \<Rightarrow> Truncation) \<Rightarrow> mimeCollector \<Rightarrow> mimeCollector" where
  "update_truncation f c = c\<lparr>mc_result := (mc_result c)\<lparr>n_Truncation := f (n_Truncation (mc_result c))\<rparr>\<rparr>"

definition appendAttachment :: "NormalizeLimits \<Rightarrow> bytes \<Rightarrow> bytes \<Rightarrow> bytes \<Rightarrow> (bytes \<Rightarrow> bytes) \<Rightarrow> mimeCollector \<Rightarrow> mimeCollector" where
  "appendAttachment limits filename contentType disposition parameters c =
     (if lMaxAttachmentCount limits \<le> int (length (n_Attachments (mc_result c)))
      then update_truncation (t_Attachments_update (\<lambda>_. True)) c
      else (case (truncateUTF8 filename (lMaxFilenameBytes limits), truncateUTF8 contentType (lMaxContentTypeBytes limits),
                  truncateUTF8 disposition (lMaxDispositionBytes limits)) of
          ((f, ft), (ct, ctt), (d, dt)) \<Rightarrow>
            (let c1 = (if ft \<or> ctt \<or> dt then update_truncation (t_Attachments_update (\<lambda>_. True)) c else c);
                 size = parse_int64 (parameters ''size'');
                 declared = (case size of Some n \<Rightarrow> 0 \<le> n | None \<Rightarrow> False);
                 metadata = \<lparr>a_Filename = f, a_ContentType = ct, a_Disposition = d,
                   a_DeclaredSize = (if declared then the size else 0), a_HasDeclaredSize = declared\<rparr> in
             c1\<lparr>mc_result := (mc_result c1)\<lparr>n_Attachments := n_Attachments (mc_result c1) @ [metadata]\<rparr>\<rparr>)))"

text \<open>The loop over the parts of a multipart body; \<open>ended\<close> is false if the reader ends with an error.\<close>

fun parse_parts :: "NormalizeLimits \<Rightarrow> (header_map \<Rightarrow> reader \<Rightarrow> mimeCollector \<Rightarrow> mime_error option \<times> mimeCollector) \<Rightarrow>
    (header_map \<times> reader) list \<Rightarrow> bool \<Rightarrow> mimeCollector \<Rightarrow> mime_error option \<times> mimeCollector" where
  "parse_parts limits entity parts ended c =
     (if lMaxMIMEParts limits \<le> mc_parts c
      then (Some PartsLimit, update_truncation (t_MIMEParts_update (\<lambda>_. True)) c)
      else (case parts of
          [] \<Rightarrow> (if ended then None else Some (NormalizeError errorCodeMalformedMIME), c)
        | (h, b) # ps \<Rightarrow> (case entity h b c of
            (Some e, c') \<Rightarrow> (Some e, c')
          | (None, c') \<Rightarrow> parse_parts limits entity ps ended c')))"

declare parse_parts.simps [simp del]

definition media_type :: "mime_env \<Rightarrow> bytes \<Rightarrow> bytes \<Rightarrow> (bytes \<times> (bytes \<Rightarrow> bytes)) option" where
  "media_type env missing v = (if v = [] then Some (missing, (\<lambda>p. [])) else me_ParseMediaType env v)"

text \<open>A text leaf: the first plain and the first HTML text are kept.\<close>

definition text_entity :: "mime_env \<Rightarrow> NormalizeLimits \<Rightarrow> header_map \<Rightarrow> reader \<Rightarrow> bytes \<Rightarrow> (bytes \<Rightarrow> bytes) \<Rightarrow>
    mimeCollector \<Rightarrow> mime_error option \<times> mimeCollector" where
  "text_entity env limits header body contentType parameters c =
     (case decodeTransfer env body (header_Get header ''Content-Transfer-Encoding'') (lMaxDecodedTextBytes limits) of
        Inl e \<Rightarrow> (Some e, c)
      | Inr (decoded, transferTruncated) \<Rightarrow>
          (case decodeCharset env decoded (parameters ''charset'') (lMaxDecodedTextBytes limits) of
             Inl e \<Rightarrow> (Some e, c)
           | Inr (txt, charsetTruncated) \<Rightarrow>
               (let c1 = update_truncation (\<lambda>t. t\<lparr>t_Text := (t_Text t \<or> transferTruncated \<or> charsetTruncated)\<rparr>) c;
                    c2 = (if equal_fold contentType ''text/plain'' \<and> \<not> mc_plainSet c1
                          then c1\<lparr>mc_plain := txt, mc_plainSet := True\<rparr> else c1);
                    c3 = (if equal_fold contentType ''text/html'' \<and> \<not> mc_htmlSet c2
                          then c2\<lparr>mc_html := txt, mc_htmlSet := True\<rparr> else c2) in
                (None, c3))))"

function parseEntity :: "mime_env \<Rightarrow> NormalizeLimits \<Rightarrow> int \<Rightarrow> header_map \<Rightarrow> reader \<Rightarrow> mimeCollector \<Rightarrow>
    mime_error option \<times> mimeCollector" where
  "parseEntity env limits depth header body c0 =
     (if lMaxMIMEDepth limits < depth then (None, update_truncation (t_MIMEDepth_update (\<lambda>_. True)) c0)
      else if lMaxMIMEParts limits \<le> mc_parts c0
      then (Some PartsLimit, update_truncation (t_MIMEParts_update (\<lambda>_. True)) c0)
      else (let c = c0\<lparr>mc_parts := mc_parts c0 + 1\<rparr> in
        case media_type env ''text/plain'' (header_Get header ''Content-Type'') of
          None \<Rightarrow> (Some (NormalizeError errorCodeMalformedMIME), c)
        | Some (contentType, parameters) \<Rightarrow>
            (case media_type env [] (header_Get header ''Content-Disposition'') of
               None \<Rightarrow> (Some (NormalizeError errorCodeMalformedMIME), c)
             | Some (disposition, dispositionParameters) \<Rightarrow>
                 (let filename = (if dispositionParameters ''filename'' = [] then parameters ''name''
                                  else dispositionParameters ''filename'') in
                  if equal_fold disposition ''attachment'' \<or> filename \<noteq> []
                  then (None, appendAttachment limits filename contentType disposition dispositionParameters c)
                  else if has_prefix (to_lower contentType) ''multipart/''
                  then (let boundary = parameters ''boundary'' in
                    if boundary = [] \<or> 200 < length boundary then (Some (NormalizeError errorCodeMalformedMIME), c)
                    else (case me_Parts env boundary body of (parts, ended) \<Rightarrow>
                      parse_parts limits (\<lambda>h b c'. parseEntity env limits (depth + 1) h b c') parts ended c))
                  else if equal_fold contentType ''message/rfc822''
                  then (None, update_truncation (t_MIMEDepth_update (\<lambda>_. True)) c)
                  else if \<not> equal_fold contentType ''text/plain'' \<and> \<not> equal_fold contentType ''text/html''
                  then (None, c)
                  else text_entity env limits header body contentType parameters c))))"
  by pat_completeness auto
termination
  by (relation "measure (\<lambda>(env, limits, depth, header, body, c). nat (lMaxMIMEDepth limits + 1 - depth))") auto

declare parseEntity.simps [simp del]

definition applyText :: "mime_env \<Rightarrow> NormalizeLimits \<Rightarrow> mimeCollector \<Rightarrow> NormalizedMessage" where
  "applyText env limits c =
     (if mc_plainSet c then (mc_result c)\<lparr>n_Text := mc_plain c, n_TextSource := TextSourcePlain\<rparr>
      else if \<not> mc_htmlSet c then mc_result c
      else (case htmlText env (mc_html c) (lMaxDecodedTextBytes limits) of (t, truncated) \<Rightarrow>
        (mc_result c)\<lparr>n_Text := t, n_TextSource := TextSourceHTML,
          n_Truncation := (n_Truncation (mc_result c))\<lparr>t_Text := (t_Text (n_Truncation (mc_result c)) \<or> truncated)\<rparr>\<rparr>))"

definition emptyMessage :: NormalizedMessage where
  "emptyMessage = \<lparr>n_Headers = noHeaders, n_Text = [], n_TextSource = TextSourceNone, n_Attachments = [],
     n_Truncation = noTruncation\<rparr>"

definition normalizeMessage :: "mime_env \<Rightarrow> reader option \<Rightarrow> NormalizeLimits \<Rightarrow> mime_error + NormalizedMessage" where
  "normalizeMessage env r limits0 = (case r of
      None \<Rightarrow> Inl (NormalizeError errorCodeMalformedMIME)
    | Some rd \<Rightarrow> (let limits = normalizedLimits limits0 in
        case read_limited (lMaxRawBytes limits) rd of
          Inl x \<Rightarrow> Inl (NormalizeError errorCodeMalformedMIME)
        | Inr raw \<Rightarrow>
            if lMaxRawBytes limits < int (length raw) then Inl (NormalizeError errorCodeInputTooLarge)
            else bind_e (boundedHeaderBlock raw limits) (\<lambda>block.
              (case boundedHeaderCount block (lMaxHeaderCount limits) of (headerBytes, headerCountTruncated) \<Rightarrow>
                (case me_ReadMessage env (headerBytes @ drop (length block) raw) of
                   None \<Rightarrow> Inl (NormalizeError errorCodeMalformedHeader)
                 | Some (header, body) \<Rightarrow>
                     bind_e (canonicalHeaders env header headerBytes limits) (\<lambda>(headers, truncation).
                       (let normalized = emptyMessage\<lparr>n_Headers := headers,
                              n_Truncation := truncation\<lparr>t_HeaderCount := headerCountTruncated\<rparr>\<rparr>;
                            c0 = \<lparr>mc_result = normalized, mc_parts = 0, mc_plain = [], mc_plainSet = False,
                              mc_html = [], mc_htmlSet = False\<rparr> in
                        (case parseEntity env limits 0 header body c0 of
                           (e, c) \<Rightarrow> if e = None \<or> e = Some PartsLimit then Inr (applyText env limits c)
                             else Inl (the e)))))))))"

section \<open>Bounds of a normalized message\<close>

definition positive_limits :: "NormalizeLimits \<Rightarrow> bool" where
  "positive_limits l \<longleftrightarrow> 0 < lMaxRawBytes l \<and> 0 < lMaxHeaderBytes l \<and> 0 < lMaxHeaderCount l \<and> 0 < lMaxMIMEParts l \<and>
     0 < lMaxMIMEDepth l \<and> 0 < lMaxDecodedTextBytes l \<and> 0 < lMaxAttachmentCount l \<and> 0 < lMaxFilenameBytes l \<and>
     0 < lMaxContentTypeBytes l \<and> 0 < lMaxDispositionBytes l \<and> 0 < lMaxReferenceCount l"

lemma normalized_positive: "positive_limits (normalizedLimits l)"
  by (simp add: positive_limits_def normalizedLimits_def boundedLimit_def)

definition attachment_ok :: "NormalizeLimits \<Rightarrow> AttachmentMetadata \<Rightarrow> bool" where
  "attachment_ok l a \<longleftrightarrow> int (length (a_Filename a)) \<le> 3 * lMaxFilenameBytes l \<and>
     int (length (a_ContentType a)) \<le> 3 * lMaxContentTypeBytes l \<and>
     int (length (a_Disposition a)) \<le> 3 * lMaxDispositionBytes l \<and> 0 \<le> a_DeclaredSize a \<and>
     valid_utf8 (a_Filename a) \<and> valid_utf8 (a_ContentType a) \<and> valid_utf8 (a_Disposition a)"

definition message_ok :: "NormalizeLimits \<Rightarrow> NormalizedMessage \<Rightarrow> bool" where
  "message_ok l n \<longleftrightarrow> int (length (n_Attachments n)) \<le> lMaxAttachmentCount l \<and>
     list_all (attachment_ok l) (n_Attachments n) \<and>
     int (length (n_Text n)) \<le> 3 * lMaxDecodedTextBytes l \<and>
     int (length (h_References (n_Headers n))) \<le> lMaxReferenceCount l"

definition collector_ok :: "NormalizeLimits \<Rightarrow> mimeCollector \<Rightarrow> bool" where
  "collector_ok l c \<longleftrightarrow> message_ok l (mc_result c) \<and> 0 \<le> mc_parts c \<and> mc_parts c \<le> lMaxMIMEParts l \<and>
     int (length (mc_plain c)) \<le> 3 * lMaxDecodedTextBytes l"

lemma collector_truncation [simp]: "collector_ok l (update_truncation f c) = collector_ok l c"
  by (simp add: collector_ok_def message_ok_def update_truncation_def)

lemma trim_crlf_length: "length (trim_right_crlf s) \<le> length s"
  using length_dropWhile_le [of _ "rev s"] by (simp add: trim_right_crlf_def)

lemma decodeCharset_length:
  "decodeCharset env content label limit = Inr (t, b) \<Longrightarrow> 0 \<le> limit \<Longrightarrow> int (length t) \<le> 3 * limit"
proof -
  assume d: "decodeCharset env content label limit = Inr (t, b)" and l: "0 \<le> limit"
  have "\<exists>u. t = trim_right_crlf (fst (truncateUTF8 u limit))"
    using d by (auto simp: decodeCharset_def split: if_splits prod.splits option.splits sum.splits) (metis fst_conv)+
  then obtain u where u: "t = trim_right_crlf (fst (truncateUTF8 u limit))" by blast
  have "length t \<le> length (fst (truncateUTF8 u limit))" unfolding u by (rule trim_crlf_length)
  with truncateUTF8_length [OF l, of u] show ?thesis by linarith
qed

lemma appendAttachment_ok:
  assumes "positive_limits l" and "collector_ok l c"
  shows "collector_ok l (appendAttachment l filename contentType disposition parameters c)"
proof (cases "lMaxAttachmentCount l \<le> int (length (n_Attachments (mc_result c)))")
  case True
  with assms show ?thesis by (simp add: appendAttachment_def)
next
  case False
  obtain f ft where f: "truncateUTF8 filename (lMaxFilenameBytes l) = (f, ft)" by (metis prod.exhaust)
  obtain ct ctt where ct: "truncateUTF8 contentType (lMaxContentTypeBytes l) = (ct, ctt)" by (metis prod.exhaust)
  obtain d dt where d: "truncateUTF8 disposition (lMaxDispositionBytes l) = (d, dt)" by (metis prod.exhaust)
  have p: "0 \<le> lMaxFilenameBytes l" "0 \<le> lMaxContentTypeBytes l" "0 \<le> lMaxDispositionBytes l"
    using assms(1) by (simp_all add: positive_limits_def)
  define c1 where "c1 = (if ft \<or> ctt \<or> dt then update_truncation (t_Attachments_update (\<lambda>_. True)) c else c)"
  have c1: "collector_ok l c1" "n_Attachments (mc_result c1) = n_Attachments (mc_result c)"
    using assms(2) by (simp_all add: c1_def update_truncation_def [of "t_Attachments_update (\<lambda>_. True)" c] collector_ok_def message_ok_def)
  obtain m where m: "appendAttachment l filename contentType disposition parameters c =
      c1\<lparr>mc_result := (mc_result c1)\<lparr>n_Attachments := n_Attachments (mc_result c1) @ [m]\<rparr>\<rparr>"
    "a_Filename m = f" "a_ContentType m = ct" "a_Disposition m = d" "0 \<le> a_DeclaredSize m"
    using False f ct d by (auto simp: appendAttachment_def Let_def c1_def split: option.splits)
  have "attachment_ok l m"
    using m(2-5) truncateUTF8_length [OF p(1), of filename] truncateUTF8_length [OF p(2), of contentType]
      truncateUTF8_length [OF p(3), of disposition] truncateUTF8_valid [of filename] truncateUTF8_valid [of contentType]
      truncateUTF8_valid [of disposition] f ct d
    unfolding attachment_ok_def by (metis fst_conv)
  with c1 False show ?thesis unfolding m(1) by (simp add: collector_ok_def message_ok_def)
qed

lemma collector_plain: "collector_ok l c \<Longrightarrow> int (length t) \<le> 3 * lMaxDecodedTextBytes l \<Longrightarrow>
    collector_ok l (c\<lparr>mc_plain := t, mc_plainSet := True\<rparr>)"
  by (simp add: collector_ok_def)

lemma collector_html: "collector_ok l c \<Longrightarrow> collector_ok l (c\<lparr>mc_html := t, mc_htmlSet := True\<rparr>)"
  by (simp add: collector_ok_def)

lemma text_entity_ok:
  assumes "positive_limits l" and "collector_ok l c"
  shows "collector_ok l (snd (text_entity env l header body contentType parameters c))"
proof (cases "decodeTransfer env body (header_Get header ''Content-Transfer-Encoding'') (lMaxDecodedTextBytes l)")
  case (Inl e)
  with assms show ?thesis by (simp add: text_entity_def)
next
  case (Inr x)
  then obtain d b where dt: "decodeTransfer env body (header_Get header ''Content-Transfer-Encoding'') (lMaxDecodedTextBytes l) = Inr (d, b)"
    by (cases x) auto
  show ?thesis
  proof (cases "decodeCharset env d (parameters ''charset'') (lMaxDecodedTextBytes l)")
    case (Inl e)
    with assms dt show ?thesis by (simp add: text_entity_def)
  next
    case (Inr y)
    then obtain t b' where dc: "decodeCharset env d (parameters ''charset'') (lMaxDecodedTextBytes l) = Inr (t, b')" by (cases y) auto
    have len: "int (length t) \<le> 3 * lMaxDecodedTextBytes l"
      using decodeCharset_length [OF dc] assms(1) by (simp add: positive_limits_def)
    define c1 where "c1 = update_truncation (\<lambda>u. u\<lparr>t_Text := (t_Text u \<or> b \<or> b')\<rparr>) c"
    have "collector_ok l c1" using assms(2) by (simp add: c1_def)
    then show ?thesis using collector_plain len collector_html
      by (simp add: text_entity_def dt dc Let_def c1_def [symmetric])
  qed
qed

lemma parse_parts_ok:
  assumes "collector_ok l c"
    and "\<And>h b c. (h, b) \<in> set parts \<Longrightarrow> collector_ok l c \<Longrightarrow> collector_ok l (snd (entity h b c))"
  shows "collector_ok l (snd (parse_parts l entity parts ended c))"
  using assms
proof (induction parts arbitrary: c)
  case Nil
  then show ?case by (simp add: parse_parts.simps)
next
  case (Cons p ps)
  obtain h b where p: "p = (h, b)" by (cases p)
  show ?case
  proof (cases "lMaxMIMEParts l \<le> mc_parts c")
    case True
    with Cons.prems show ?thesis by (simp add: parse_parts.simps)
  next
    case False
    obtain e c' where e: "entity h b c = (e, c')" by (metis prod.exhaust)
    have "collector_ok l c'" using Cons.prems(2) [of h b c] Cons.prems(1) e p by simp
    have "collector_ok l (snd (parse_parts l entity ps ended c'))"
      using Cons.IH [OF \<open>collector_ok l c'\<close>] Cons.prems(2) by simp
    moreover have "parse_parts l entity (p # ps) ended c = (case e of Some x \<Rightarrow> (Some x, c') | None \<Rightarrow> parse_parts l entity ps ended c')"
      using False e p by (subst parse_parts.simps) simp
    ultimately show ?thesis using \<open>collector_ok l c'\<close> by (cases e) simp_all
  qed
qed

lemma parseEntity_ok:
  assumes "positive_limits l" and "collector_ok l c"
  shows "collector_ok l (snd (parseEntity env l depth header body c))"
  using assms
proof (induction "nat (lMaxMIMEDepth l + 1 - depth)" arbitrary: depth header body c rule: less_induct)
  case (less depth header body c0)
  show ?case
  proof (cases "lMaxMIMEDepth l < depth \<or> lMaxMIMEParts l \<le> mc_parts c0")
    case True
    with less.prems(2) show ?thesis by (subst parseEntity.simps) auto
  next
    case ok: False
    define c where "c = c0\<lparr>mc_parts := mc_parts c0 + 1\<rparr>"
    have c: "collector_ok l c" using less.prems(2) ok by (simp add: c_def collector_ok_def)
    show ?thesis
    proof (cases "media_type env ''text/plain'' (header_Get header ''Content-Type'')")
      case None
      with ok c show ?thesis by (subst parseEntity.simps) (simp add: c_def)
    next
      case ct: (Some x)
      obtain contentType parameters where x: "x = (contentType, parameters)" by (cases x)
      show ?thesis
      proof (cases "media_type env [] (header_Get header ''Content-Disposition'')")
        case None
        with ok c ct x show ?thesis by (subst parseEntity.simps) (simp add: c_def)
      next
        case d: (Some y)
        obtain disposition dp where y: "y = (disposition, dp)" by (cases y)
        define filename where "filename = (if dp ''filename'' = [] then parameters ''name'' else dp ''filename'')"
        define attach where "attach = (equal_fold disposition ''attachment'' \<or> filename \<noteq> [])"
        define boundary where "boundary = parameters ''boundary''"
        obtain parts ended where pe: "me_Parts env boundary body = (parts, ended)" by (metis prod.exhaust)
        have r: "parseEntity env l depth header body c0 =
          (if attach then (None, appendAttachment l filename contentType disposition dp c)
           else if has_prefix (to_lower contentType) ''multipart/''
           then (if boundary = [] \<or> 200 < length boundary then (Some (NormalizeError errorCodeMalformedMIME), c)
             else parse_parts l (\<lambda>h b c'. parseEntity env l (depth + 1) h b c') parts ended c)
           else if equal_fold contentType ''message/rfc822''
           then (None, update_truncation (t_MIMEDepth_update (\<lambda>_. True)) c)
           else if \<not> equal_fold contentType ''text/plain'' \<and> \<not> equal_fold contentType ''text/html'' then (None, c)
           else text_entity env l header body contentType parameters c)"
          using ok ct x d y pe
          by (subst parseEntity.simps) (simp add: c_def filename_def attach_def boundary_def)
        have nested: "collector_ok l (snd (parseEntity env l (depth + 1) h b c'))" if "collector_ok l c'" for h b c'
        proof -
          have "nat (lMaxMIMEDepth l + 1 - (depth + 1)) < nat (lMaxMIMEDepth l + 1 - depth)" using ok by auto
          from less.hyps [OF this less.prems(1) that] show ?thesis .
        qed
        show ?thesis
          unfolding r using c less.prems(1) parse_parts_ok [OF c nested] appendAttachment_ok [OF less.prems(1) c] text_entity_ok [OF less.prems(1) c] by simp
      qed
    qed
  qed
qed

lemma canonicalHeaders_references:
  assumes "canonicalHeaders env header block l = Inr (hs, tr)" and "0 \<le> lMaxReferenceCount l"
  shows "int (length (h_References hs)) \<le> lMaxReferenceCount l"
proof -
  have "\<exists>all. h_References hs = (if lMaxReferenceCount l < int (length all)
      then drop (length all - nat (lMaxReferenceCount l)) all else all)"
    using assms(1) unfolding canonicalHeaders_def Let_def bind_e_def
    by (auto split: sum.splits prod.splits)
  then show ?thesis using assms(2) by auto
qed

lemma applyText_ok:
  assumes "positive_limits l" and "collector_ok l c"
  shows "message_ok l (applyText env l c)"
proof -
  obtain t b where t: "htmlText env (mc_html c) (lMaxDecodedTextBytes l) = (t, b)" by (metis prod.exhaust)
  have p: "0 \<le> lMaxDecodedTextBytes l" using assms(1) by (simp add: positive_limits_def)
  have "int (length t) \<le> 3 * lMaxDecodedTextBytes l"
    using t truncateUTF8_length [OF p] p unfolding htmlText_def
    by (auto split: option.splits) (metis fst_conv)
  with assms(2) t show ?thesis
    by (simp add: applyText_def collector_ok_def message_ok_def)
qed

lemma header_block_error: "boundedHeaderBlock raw l = Inl e \<Longrightarrow> e = NormalizeError errorCodeMalformedHeader"
  by (auto simp: boundedHeaderBlock_def Let_def split: option.splits if_splits)

lemma canonical_value_error: "canonicalHeaderValue env h n l = Inl e \<Longrightarrow> e = NormalizeError errorCodeMalformedHeader"
  by (auto simp: canonicalHeaderValue_def Let_def split: option.splits if_splits prod.splits)

lemma canonicalHeaders_error: "canonicalHeaders env h b l = Inl e \<Longrightarrow> e = NormalizeError errorCodeMalformedHeader"
  unfolding canonicalHeaders_def Let_def bind_e_def
  by (auto split: sum.splits prod.splits dest: canonical_value_error)

definition stable_codes :: "mime_error set" where
  "stable_codes = NormalizeError ` {errorCodeInputTooLarge, errorCodeMalformedHeader, errorCodeMalformedMIME,
     errorCodeUnsupportedCharset, errorCodeMalformedEncoding}"

lemma text_entity_error: "fst (text_entity env l h b ct ps c) = Some e \<Longrightarrow> e \<in> stable_codes"
  by (auto simp: text_entity_def decodeTransfer_def decodeCharset_def stable_codes_def Let_def
      split: sum.splits prod.splits if_splits option.splits)

lemma parse_parts_error:
  "fst (parse_parts l entity parts ended c) = Some e \<Longrightarrow>
    (\<And>h b c e. fst (entity h b c) = Some e \<Longrightarrow> e \<in> insert PartsLimit stable_codes) \<Longrightarrow> e \<in> insert PartsLimit stable_codes"
proof (induction parts arbitrary: c)
  case Nil
  then show ?case by (auto simp: parse_parts.simps stable_codes_def split: if_splits)
next
  case (Cons p ps)
  obtain h b where p: "p = (h, b)" by (cases p)
  obtain e' c' where r: "entity h b c = (e', c')" by (metis prod.exhaust)
  show ?case
  proof (cases "lMaxMIMEParts l \<le> mc_parts c")
    case True
    with Cons.prems(1) show ?thesis by (simp add: parse_parts.simps)
  next
    case False
    then have "parse_parts l entity (p # ps) ended c = (case e' of Some x \<Rightarrow> (Some x, c') | None \<Rightarrow> parse_parts l entity ps ended c')"
      using r p by (subst parse_parts.simps) simp
    with Cons.prems(1) have "fst (entity h b c) = Some e \<or> fst (parse_parts l entity ps ended c') = Some e"
      using r by (cases e') simp_all
    with Cons.prems(2) Cons.IH show ?thesis by blast
  qed
qed

lemma parseEntity_error:
  "fst (parseEntity env l depth header body c) = Some e \<Longrightarrow> e \<in> insert PartsLimit stable_codes"
proof (induction "nat (lMaxMIMEDepth l + 1 - depth)" arbitrary: depth header body c e rule: less_induct)
  case (less depth header body c0)
  show ?case
  proof (cases "lMaxMIMEDepth l < depth \<or> lMaxMIMEParts l \<le> mc_parts c0")
    case True
    with less.prems show ?thesis by (subst (asm) parseEntity.simps) (auto split: if_splits)
  next
    case ok: False
    have nested: "e \<in> insert PartsLimit stable_codes" if "fst (parseEntity env l (depth + 1) h b c) = Some e" for h b c e
    proof -
      have "nat (lMaxMIMEDepth l + 1 - (depth + 1)) < nat (lMaxMIMEDepth l + 1 - depth)" using ok by auto
      from less.hyps [OF this that] show ?thesis .
    qed
    have parts: "e \<in> insert PartsLimit stable_codes"
      if "fst (parse_parts l (\<lambda>h b c'. parseEntity env l (depth + 1) h b c') parts ended c) = Some e" for parts ended c
      using parse_parts_error [OF that] nested by blast
    have malformed: "NormalizeError errorCodeMalformedMIME \<in> stable_codes" by (simp add: stable_codes_def)
    from less.prems ok show ?thesis
      by (subst (asm) parseEntity.simps)
        (auto simp: Let_def malformed simp del: insert_iff dest: parts intro: insertI2 text_entity_error
          split: if_splits option.splits prod.splits)
  qed
qed

text \<open>
  Whatever the parsers and decoders do, a message that is normalized was within the raw limit and
  has at most the permitted attachments, references and text, counting three bytes for every byte of
  the text and string limits; and every failure is one of the five stable codes, so the stop at the
  part limit never escapes as an error.
\<close>

theorem normalizeMessage_bounded:
  "case normalizeMessage env r limits of
     Inl e \<Rightarrow> e \<in> NormalizeError ` {errorCodeInputTooLarge, errorCodeMalformedHeader, errorCodeMalformedMIME,
       errorCodeUnsupportedCharset, errorCodeMalformedEncoding}
   | Inr n \<Rightarrow> (\<exists>content e. r = Some (content, e) \<and> int (length content) \<le> lMaxRawBytes (normalizedLimits limits)) \<and>
       message_ok (normalizedLimits limits) n"
proof -
  define l where "l = normalizedLimits limits"
  have pos: "positive_limits l" unfolding l_def by (rule normalized_positive)
  then have p: "0 \<le> lMaxRawBytes l" "0 \<le> lMaxReferenceCount l" by (simp_all add: positive_limits_def)
  show ?thesis
  proof (cases r)
    case None
    then show ?thesis by (simp add: normalizeMessage_def)
  next
    case r: (Some rd)
    obtain content err where rd: "rd = (content, err)" by (cases rd)
    show ?thesis
    proof (cases "read_limited (lMaxRawBytes l) rd")
      case (Inl x)
      with r show ?thesis by (simp add: normalizeMessage_def l_def [symmetric])
    next
      case raw: (Inr raw)
      show ?thesis
      proof (cases "lMaxRawBytes l < int (length raw)")
        case True
        with raw r show ?thesis by (simp add: normalizeMessage_def l_def [symmetric])
      next
        case small: False
        have content: "int (length content) \<le> lMaxRawBytes l"
          using raw small p(1) rd by (auto simp: read_limited_def split: if_splits option.splits)
        show ?thesis
        proof (cases "boundedHeaderBlock raw l")
          case (Inl e)
          with header_block_error [OF Inl] raw r small show ?thesis
            by (simp add: normalizeMessage_def l_def [symmetric] bind_e_def)
        next
          case block: (Inr block)
          obtain hb hct where hb: "boundedHeaderCount block (lMaxHeaderCount l) = (hb, hct)" by (metis prod.exhaust)
          show ?thesis
          proof (cases "me_ReadMessage env (hb @ drop (length block) raw)")
            case None
            with block hb raw r small show ?thesis by (simp add: normalizeMessage_def l_def [symmetric] bind_e_def)
          next
            case (Some x)
            then obtain header body where rm: "me_ReadMessage env (hb @ drop (length block) raw) = Some (header, body)" by (cases x) auto
            show ?thesis
            proof (cases "canonicalHeaders env header hb l")
              case (Inl e)
              with canonicalHeaders_error [OF Inl] rm block hb raw r small show ?thesis
                by (simp add: normalizeMessage_def l_def [symmetric] bind_e_def)
            next
              case (Inr y)
              then obtain hs tr where ch: "canonicalHeaders env header hb l = Inr (hs, tr)" by (cases y) auto
              define c0 where "c0 = \<lparr>mc_result = emptyMessage\<lparr>n_Headers := hs, n_Truncation := tr\<lparr>t_HeaderCount := hct\<rparr>\<rparr>,
                mc_parts = 0, mc_plain = [], mc_plainSet = False, mc_html = [], mc_htmlSet = False\<rparr>"
              obtain e c where pe: "parseEntity env l 0 header body c0 = (e, c)" by (metis prod.exhaust)
              have n: "normalizeMessage env r limits =
                  (if e = None \<or> e = Some PartsLimit then Inr (applyText env l c) else Inl (the e))"
                using ch rm block hb raw r small pe
                by (simp add: normalizeMessage_def l_def [symmetric] bind_e_def c0_def [symmetric] Let_def)
              have "collector_ok l c0"
                using canonicalHeaders_references [OF ch p(2)] pos
                by (simp add: c0_def collector_ok_def message_ok_def emptyMessage_def positive_limits_def)
              then have "message_ok l (applyText env l c)"
                using parseEntity_ok [OF pos, of c0 env 0 header body] applyText_ok [OF pos, of c env] pe by simp
              moreover have "the e \<in> stable_codes" if "e \<noteq> None" "e \<noteq> Some PartsLimit"
                using parseEntity_error [of env l 0 header body c0] pe that by auto
              ultimately show ?thesis using n r rd content by (auto simp: l_def [symmetric] stable_codes_def)
            qed
          qed
        qed
      qed
    qed
  qed
qed

section \<open>Message identifiers\<close>

definition message_id :: "bytes \<Rightarrow> bool" where
  "message_id i \<longleftrightarrow> 2 < length i \<and> hd i = CHR ''<'' \<and> last i = CHR ''>'' \<and> CHR ''>'' \<notin> set (butlast i) \<and>
     \<not> contains_any i [SP, TAB, CR, LF]"

lemma messageIDs_Nil: "CHR ''<'' \<notin> set v \<Longrightarrow> messageIDs v = []"
  using index_byte_None [of "CHR ''<''" v] by (simp add: messageIDs.simps [of v])

lemma messageIDs_step:
  assumes "CHR ''<'' \<notin> set s" and "message_id i"
  shows "messageIDs (s @ i @ v) = i # messageIDs v"
proof -
  obtain t where i: "i = t @ [CHR ''>'']" "CHR ''>'' \<notin> set t" "t \<noteq> []" "hd t = CHR ''<''"
    using assms(2) by (cases i rule: rev_cases) (auto simp: message_id_def hd_append split: if_splits)
  then obtain u where u: "t = CHR ''<'' # u" by (cases t) auto
  have st: "index_byte (CHR ''<'') (s @ i @ v) = Some (length s)"
    using assms(1) i u by (simp add: index_byte_Some)
  have en: "index_byte (CHR ''>'') (i @ v) = Some (length t)"
    using i by (simp add: index_byte_Some nth_append)
  have d: "drop (length s) (s @ i @ v) = i @ v" "take (length t + 1) (i @ v) = i" "drop (length t + 1) (i @ v) = v"
    using i(1) by simp_all
  have "2 < length i \<and> \<not> contains_any i [SP, TAB, CR, LF]" using assms(2) by (simp add: message_id_def)
  then show ?thesis
    by (subst messageIDs.simps, simp only: st d(1) option.case Let_def en d(2,3)) simp
qed

text \<open>
  From a list of well-formed identifiers, whatever stands between and after them as long as it has no
  opening bracket, \<^verbatim>\<open>messageIDs\<close> reads back exactly the identifiers, in order.
\<close>

theorem messageIDs_list:
  assumes "list_all (\<lambda>(s, i). CHR ''<'' \<notin> set s \<and> message_id i) xs" and "CHR ''<'' \<notin> set rest"
  shows "messageIDs (concat (map (\<lambda>(s, i). s @ i) xs) @ rest) = map snd xs"
  using assms
proof (induction xs)
  case Nil
  then show ?case by (simp add: messageIDs_Nil)
next
  case (Cons x xs)
  obtain s i where x: "x = (s, i)" by (cases x)
  with Cons.prems have "CHR ''<'' \<notin> set s" "message_id i" by auto
  from messageIDs_step [OF this, of "concat (map (\<lambda>(s, i). s @ i) xs) @ rest"] Cons x show ?case by simp
qed

theorem messageIDs_list_witness:
  "messageIDs ('' <a@x>, <b@y> '') = [''<a@x>'', ''<b@y>'']"
proof -
  have "list_all (\<lambda>(s, i). CHR ''<'' \<notin> set s \<and> message_id i) [('' '', ''<a@x>''), ('', '', ''<b@y>'')]" by code_simp
  moreover have "CHR ''<'' \<notin> set '' ''" by simp
  ultimately show ?thesis using messageIDs_list [of "[('' '', ''<a@x>''), ('', '', ''<b@y>'')]" "'' ''"] by simp
qed

end
