(* ===== verification/Header_Metadata.thy ===== *)
theory Header_Metadata
  imports Mime_Message
begin

text \<open>
  What \<^verbatim>\<open>bridge/imapclient.go\<close> reads out of the parsed headers of a FETCH: the bounded sender, the date
  in UTC and the read state, and the record of one selected message.
\<close>

section \<open>The sender\<close>

definition hex_valid :: "char \<Rightarrow> bool" where
  "hex_valid c \<longleftrightarrow> is_digit c \<or> (97 \<le> byte_val c \<and> byte_val c \<le> 102) \<or> (65 \<le> byte_val c \<and> byte_val c \<le> 70)"

fun validQEscapes :: "bytes \<Rightarrow> bool" where
  "validQEscapes [] = True"
| "validQEscapes (c # s) =
     (if c \<noteq> CHR ''='' then validQEscapes s
      else (case s of a # b # t \<Rightarrow> hex_valid a \<and> hex_valid b \<and> validQEscapes t | _ \<Rightarrow> False))"

text \<open>\<^verbatim>\<open>strings.ContainsFunc(s, unicode.IsSpace)\<close> and \<^verbatim>\<open>strings.ContainsFunc(s, unicode.IsControl)\<close>.\<close>

definition contains_space :: "bytes \<Rightarrow> bool" where
  "contains_space s \<longleftrightarrow> \<not> runes_all (\<lambda>t. space_width t = 0) s"

definition contains_control :: "bytes \<Rightarrow> bool" where
  "contains_control s \<longleftrightarrow> \<not> runes_all (\<lambda>t. \<not> control_head t) s"

function validSenderEncodedWords :: "mime_env \<Rightarrow> bytes \<Rightarrow> bool" where
  "validSenderEncodedWords env v =
     (case index_sub ''=?'' v of
        None \<Rightarrow> True
      | Some start \<Rightarrow> (let v1 = drop (start + 2) v in
          case index_byte (CHR ''?'') v1 of
            None \<Rightarrow> False
          | Some charsetEnd \<Rightarrow>
              if charsetEnd < 1 \<or> length v1 < charsetEnd + 3 \<or> v1 ! (charsetEnd + 2) \<noteq> CHR ''?'' then False
              else (let encoding = [v1 ! (charsetEnd + 1)]; v2 = drop (charsetEnd + 3) v1 in
                case index_sub ''?='' v2 of
                  None \<Rightarrow> False
                | Some stop \<Rightarrow>
                    if stop < 1 then False
                    else (let payload = take stop v2 in
                      if CHR ''?'' \<in> set payload \<or> contains_space payload then False
                      else if equal_fold encoding ''b''
                      then me_base64_string env payload \<and> validSenderEncodedWords env (drop (stop + 2) v2)
                      else if equal_fold encoding ''q''
                      then validQEscapes payload \<and> validSenderEncodedWords env (drop (stop + 2) v2)
                      else False))))"
  by pat_completeness auto
termination
  by (relation "measure (\<lambda>(env, v). length v)") (auto dest!: index_sub_bound)

declare validSenderEncodedWords.simps [simp del]
declare validSenderEncodedWords.simps [code]

abbreviation maxSenderBytes :: int where "maxSenderBytes \<equiv> 512"

definition boundedSender :: "mime_env \<Rightarrow> header_map \<Rightarrow> bytes \<times> bool" where
  "boundedSender env header = (case header ''From'' of
      [raw] \<Rightarrow>
        if \<not> valid_utf8 raw \<or> \<not> validSenderEncodedWords env raw then ([], False)
        else (case me_DecodeHeader env raw of
            None \<Rightarrow> ([], False)
          | Some decoded \<Rightarrow>
              if \<not> valid_utf8 decoded \<or> contains_control decoded \<or> contains_bytes decoded ''=?'' \<or>
                 contains_rune decoded 65533
              then ([], False)
              else truncateUTF8 (trim_space decoded) maxSenderBytes)
    | _ \<Rightarrow> ([], False))"

section \<open>The date\<close>

text \<open>White space and comments, by the rules of the scan.\<close>

function cfws_scan :: "nat \<Rightarrow> bytes \<Rightarrow> bool" where
  "cfws_scan depth [] = (depth = 0)"
| "cfws_scan depth (c # s) =
     (if 0 < depth \<and> c = BACKSLASH then cfws_scan depth (drop 1 s)
      else if c = CHR ''('' then cfws_scan (depth + 1) s
      else if c = CHR '')'' then (if depth = 0 then False else cfws_scan (depth - 1) s)
      else if 0 < depth \<or> c = SP \<or> c = TAB \<or> c = CR \<or> c = LF then cfws_scan depth s
      else False)"
  by pat_completeness auto
termination by (relation "measure (\<lambda>(d, s). length s)") auto

definition onlyCFWS :: "bytes \<Rightarrow> bool" where
  "onlyCFWS s = cfws_scan 0 s"

definition rfc5322NamedZones :: "(bytes \<times> int) list" where
  "rfc5322NamedZones = [(''UT'', 0), (''UTC'', 0), (''GMT'', 0), (''EST'', - 5 * 3600), (''EDT'', - 4 * 3600),
     (''CST'', - 6 * 3600), (''CDT'', - 5 * 3600), (''MST'', - 7 * 3600), (''MDT'', - 6 * 3600),
     (''PST'', - 8 * 3600), (''PDT'', - 7 * 3600)]"

text \<open>\<^verbatim>\<open>strings.IndexAny\<close> and \<^verbatim>\<open>strings.LastIndexAny\<close> for ASCII sets.\<close>

fun index_any :: "bytes \<Rightarrow> bytes \<Rightarrow> nat option" where
  "index_any cs [] = None"
| "index_any cs (c # s) = (if c \<in> set cs then Some 0 else map_option Suc (index_any cs s))"

definition last_index_any :: "bytes \<Rightarrow> bytes \<Rightarrow> nat option" where
  "last_index_any cs s = map_option (\<lambda>i. length s - 1 - i) (index_any cs (rev s))"

definition two_digits :: "nat \<Rightarrow> bytes" where
  "two_digits n = (if n < 10 then CHR ''0'' # format_uint n else format_uint n)"

definition trim_right_set :: "bytes \<Rightarrow> bytes \<Rightarrow> bytes" where
  "trim_right_set cs s = rev (dropWhile (\<lambda>c. c \<in> set cs) (rev s))"

definition numericDateZone :: "bytes \<Rightarrow> bytes \<times> bool" where
  "numericDateZone v =
     (let uncommented = (case index_byte (CHR ''('') v of None \<Rightarrow> v | Some i \<Rightarrow> take i v);
          numeric = (case index_any ''+-'' uncommented of
              Some i \<Rightarrow> if i + 5 \<le> length uncommented then Some i else None
            | None \<Rightarrow> None) in
      case numeric of
        Some i \<Rightarrow> (v, onlyCFWS (drop (i + 5) v))
      | None \<Rightarrow>
          (let ws = [SP, TAB, CR, LF]; zoneEnd = length (trim_right_set ws uncommented) in
           case last_index_any ws (take zoneEnd uncommented) of
             None \<Rightarrow> ([], False)
           | Some i \<Rightarrow> (let zoneStart = i + 1 in
               case map_of rfc5322NamedZones (to_upper (take (zoneEnd - zoneStart) (drop zoneStart uncommented))) of
                 None \<Rightarrow> ([], False)
               | Some offset \<Rightarrow>
                   if \<not> onlyCFWS (drop zoneEnd v) then ([], False)
                   else (let sign = (if offset < 0 then ''-'' else ''+''); o' = nat \<bar>offset\<bar> in
                     (take zoneStart v @ sign @ two_digits (o' div 3600) @ two_digits (o' mod 3600 div 60) @ drop zoneEnd v, True)))))"

text \<open>
  \<open>parse_date\<close> is \<^verbatim>\<open>mail.ParseDate\<close> followed by \<^verbatim>\<open>UTC\<close>: the year and the RFC 3339 text of the instant.
\<close>

definition headerDate :: "(bytes \<Rightarrow> (int \<times> bytes) option) \<Rightarrow> header_map \<Rightarrow> bytes \<times> DateSource" where
  "headerDate parse_date header = (case header ''Date'' of
      [v] \<Rightarrow> (case numericDateZone v of
          (_, False) \<Rightarrow> ([], DateSourceUnknown)
        | (d, True) \<Rightarrow> (case parse_date d of
            None \<Rightarrow> ([], DateSourceUnknown)
          | Some (year, formatted) \<Rightarrow>
              if year < 1 \<or> 9999 < year then ([], DateSourceUnknown) else (formatted, DateSourceHeader)))
    | _ \<Rightarrow> ([], DateSourceUnknown))"

section \<open>Metadata\<close>

definition metadataReadState :: "bytes list \<Rightarrow> ReadState" where
  "metadataReadState flags =
     (if list_ex (\<lambda>f. equal_fold f (BACKSLASH # ''Seen'')) flags then ReadStateRead else ReadStateUnread)"

definition zeroMetadata :: MessageMetadata where
  "zeroMetadata = \<lparr>m_ID = [], m_Mailbox = [], m_UIDValidity = 0, m_UID = 0, m_Subject = [], m_Size = 0,
     m_From = [], m_Date = [], m_DateSource = DateSourceUnknown, m_ReadState = ReadStateUnknown,
     m_MetadataTruncated = False, m_uid = 0\<rparr>"

definition applyHeaderMetadata :: "mime_env \<Rightarrow> (bytes \<Rightarrow> (int \<times> bytes) option) \<Rightarrow> header_map \<Rightarrow> MessageMetadata \<Rightarrow> MessageMetadata" where
  "applyHeaderMetadata env parse_date header item =
     (case (boundedSender env header, headerDate parse_date header) of
        ((sender, truncated), (date, source)) \<Rightarrow>
          item\<lparr>m_Subject := header_Get header ''Subject'', m_From := sender, m_MetadataTruncated := truncated,
            m_Date := date, m_DateSource := source\<rparr>)"

text \<open>
  The record of one selected message. An error of the header parser is the code \<^verbatim>\<open>CodeIMAPProtocol\<close>,
  one of the canonical headers a normalization error.
\<close>

datatype header_error = HeaderProtocol | HeaderNormalize mime_error

definition selectedHeaderRecord :: "mime_env \<Rightarrow> (bytes \<Rightarrow> (int \<times> bytes) option) \<Rightarrow> MessageMetadata \<Rightarrow> bytes \<Rightarrow> int \<Rightarrow>
    header_error + MessageHeaders" where
  "selectedHeaderRecord env parse_date item header headerLimit =
     (if headerTerminatorEnd header \<noteq> Some (length header) then Inl HeaderProtocol
      else (let limits = normalizedLimits (zeroLimits\<lparr>lMaxHeaderBytes := headerLimit\<rparr>) in
        case boundedHeaderCount header (lMaxHeaderCount limits) of (bounded, countTruncated) \<Rightarrow>
          (case me_ReadMessage env bounded of
             None \<Rightarrow> Inl HeaderProtocol
           | Some (parsed, _) \<Rightarrow> (let threadBlock = threadFieldBlock header in
               case me_ReadMessage env threadBlock of
                 None \<Rightarrow> Inl HeaderProtocol
               | Some (threadParsed, _) \<Rightarrow>
                   (let item' = (applyHeaderMetadata env parse_date parsed item)\<lparr>m_Subject := header_Get threadParsed ''Subject''\<rparr> in
                    case canonicalHeaders env parsed bounded limits of
                      Inl e \<Rightarrow> Inl (HeaderNormalize e)
                    | Inr (headers, truncation) \<Rightarrow>
                        (case canonicalHeaders env threadParsed threadBlock limits of
                           Inl e \<Rightarrow> Inl (HeaderNormalize e)
                         | Inr (threadHeaders, threadTruncation) \<Rightarrow>
                             Inr \<lparr>mh_Metadata = item',
                               mh_Headers = headers\<lparr>h_Subject := h_Subject threadHeaders, h_MessageID := h_MessageID threadHeaders,
                                 h_InReplyTo := h_InReplyTo threadHeaders, h_References := h_References threadHeaders\<rparr>,
                               mh_Truncation = truncation\<lparr>t_Headers := (t_Headers truncation \<or> t_Headers threadTruncation),
                                 t_References := (t_References truncation \<or> t_References threadTruncation),
                                 t_HeaderCount := countTruncated\<rparr>\<rparr>))))))"

section \<open>Comments and folding white space\<close>

text \<open>The grammar of RFC 5322: white space and nested comments with quoted pairs.\<close>

inductive ccontent :: "bytes \<Rightarrow> bool" where
  content_end: "ccontent []"
| content_char: "c \<noteq> CHR ''('' \<Longrightarrow> c \<noteq> CHR '')'' \<Longrightarrow> c \<noteq> BACKSLASH \<Longrightarrow> ccontent t \<Longrightarrow> ccontent (c # t)"
| content_quoted: "ccontent t \<Longrightarrow> ccontent (BACKSLASH # c # t)"
| content_comment: "ccontent u \<Longrightarrow> ccontent t \<Longrightarrow> ccontent (CHR ''('' # u @ CHR '')'' # t)"

inductive cfws :: "bytes \<Rightarrow> bool" where
  cfws_end: "cfws []"
| cfws_space: "c \<in> {SP, TAB, CR, LF} \<Longrightarrow> cfws s \<Longrightarrow> cfws (c # s)"
| cfws_comment: "ccontent t \<Longrightarrow> cfws s \<Longrightarrow> cfws (CHR ''('' # t @ CHR '')'' # s)"

inductive_cases ccontent_ConsE: "ccontent (c # t)"

text \<open>What is left to read inside \<open>n\<close> open comments.\<close>

fun open_comments :: "nat \<Rightarrow> bytes \<Rightarrow> bool" where
  "open_comments 0 s = cfws s"
| "open_comments (Suc n) s = (\<exists>t u. s = t @ CHR '')'' # u \<and> ccontent t \<and> open_comments n u)"

lemma scan_content: "ccontent t \<Longrightarrow> cfws_scan (Suc n) (t @ s) = cfws_scan (Suc n) s"
  by (induction t arbitrary: n s rule: ccontent.induct) auto

lemma scan_cfws: "cfws s \<Longrightarrow> cfws_scan 0 s"
  by (induction rule: cfws.induct) (auto simp: scan_content)

lemma scan_open: "cfws_scan n s \<Longrightarrow> open_comments n s"
proof (induction n s rule: cfws_scan.induct)
  case (1 n)
  then show ?case by (auto intro: cfws_end)
next
  case (2 n c s)
  consider (quoted) "0 < n" "c = BACKSLASH" | (opens) "c = CHR ''(''" | (closes) "c = CHR '')''"
    | (other) "\<not> (0 < n \<and> c = BACKSLASH)" "c \<noteq> CHR ''(''" "c \<noteq> CHR '')''" by blast
  then show ?case
  proof cases
    case quoted
    with 2(1,5) have s: "open_comments n (drop 1 s)" by simp
    obtain m where m: "n = Suc m" using quoted by (cases n) auto
    show ?thesis
    proof (cases s)
      case Nil
      with 2(5) quoted have "n = 0" by simp
      with quoted show ?thesis by simp
    next
      case (Cons d s')
      with s m obtain t u where "s' = t @ CHR '')'' # u" "ccontent t" "open_comments m u" by auto
      with quoted Cons content_quoted [of t d]
      have "c # s = (BACKSLASH # d # t) @ CHR '')'' # u \<and> ccontent (BACKSLASH # d # t) \<and> open_comments m u" by simp
      then show ?thesis unfolding m open_comments.simps by blast
    qed
  next
    case opens
    with 2(2,5) have "open_comments (Suc n) s" by simp
    then obtain t u where t: "s = t @ CHR '')'' # u" "ccontent t" "open_comments n u" by auto
    show ?thesis
    proof (cases n)
      case 0
      with t opens show ?thesis by (auto intro: cfws_comment)
    next
      case (Suc m)
      with t(3) obtain t' u' where "u = t' @ CHR '')'' # u'" "ccontent t'" "open_comments m u'" by auto
      with t opens content_comment [of t t']
      have "c # s = (CHR ''('' # t @ CHR '')'' # t') @ CHR '')'' # u' \<and> ccontent (CHR ''('' # t @ CHR '')'' # t') \<and>
        open_comments m u'" by simp
      then show ?thesis unfolding Suc open_comments.simps by blast
    qed
  next
    case closes
    with 2(3,5) obtain m where "n = Suc m" "open_comments m s" by (cases n) auto
    moreover from closes have "c # s = [] @ CHR '')'' # s \<and> ccontent []" by (simp add: content_end)
    ultimately show ?thesis unfolding open_comments.simps by (metis open_comments.simps(2))
  next
    case other
    with 2(5) have d: "0 < n \<or> c = SP \<or> c = TAB \<or> c = CR \<or> c = LF" "cfws_scan n s" by (auto split: if_splits)
    with 2(4) other have s: "open_comments n s" by auto
    show ?thesis
    proof (cases n)
      case 0
      with s d show ?thesis by (auto intro: cfws_space)
    next
      case (Suc m)
      with s obtain t u where "s = t @ CHR '')'' # u" "ccontent t" "open_comments m u" by auto
      with other Suc content_char [of c t]
      have "c # s = (c # t) @ CHR '')'' # u \<and> ccontent (c # t) \<and> open_comments m u" by simp
      then show ?thesis unfolding Suc open_comments.simps by blast
    qed
  qed
qed

text \<open>
  The scan that decides what may follow the zone of a date accepts exactly the strings of the
  RFC 5322 grammar of folding white space and nested comments with quoted pairs.
\<close>

theorem onlyCFWS_grammar: "onlyCFWS s \<longleftrightarrow> cfws s"
  using scan_open [of 0 s] scan_cfws [of s] by (auto simp: onlyCFWS_def)

section \<open>The bounded sender\<close>

lemma rune_lead: "rune_width p = Some n \<Longrightarrow> \<not> continuation (hd p)"
  by (cases p) (auto simp: continuation_def Let_def split: if_splits)

lemma rune_cases:
  "rune_width (a # s) = Some n \<Longrightarrow> n = 1 \<or> (\<exists>b r. n = 2 \<and> s = b # r \<and> continuation b) \<or>
     (\<exists>b c r. n = 3 \<and> s = b # c # r \<and> continuation b \<and> continuation c) \<or>
     (\<exists>b c d r. n = 4 \<and> s = b # c # d # r \<and> continuation b \<and> continuation c \<and> continuation d)"
  by (auto simp: Let_def split: if_splits list.splits)

lemma rune_tail: "rune_width s = Some n \<Longrightarrow> 0 < i \<Longrightarrow> i < n \<Longrightarrow> continuation (s ! i)"
proof -
  assume r: "rune_width s = Some n" and i: "0 < i" "i < n"
  obtain a s' where s: "s = a # s'" using r by (cases s) auto
  have "n \<le> 4" by (rule rune_width_four [OF r])
  then consider "i = 1" | "i = 2" | "i = 3" using i by linarith
  then show ?thesis using rune_cases [of a s' n] r i unfolding s by cases auto
qed

lemma rune_shorter: "rune_width (t @ p) = Some n \<Longrightarrow> n \<le> length t \<Longrightarrow> rune_width t = Some n"
proof -
  assume r: "rune_width (t @ p) = Some n" and n: "n \<le> length t"
  have "rune_width (take n (t @ p)) = Some n" by (rule rune_width_take [OF r])
  then have "rune_width (take n t) = Some n" using n by simp
  from rune_width_append [OF this, of "drop n t"] show ?thesis by simp
qed

lemma valid_without_suffix: "valid_utf8 (t @ p) \<Longrightarrow> rune_width p = Some m \<Longrightarrow> valid_utf8 t"
proof (induction t rule: valid_utf8.induct)
  case (1 t)
  show ?case
  proof (cases "t = []")
    case False
    with 1(2) obtain n where n: "rune_width (t @ p) = Some n" "valid_utf8 (drop n (t @ p))"
      by (subst (asm) valid_utf8.simps) (auto split: option.splits)
    have "n \<le> length t"
    proof (rule ccontr)
      assume "\<not> n \<le> length t"
      with False rune_tail [OF n(1), of "length t"] have "continuation ((t @ p) ! length t)" by simp
      moreover have "p \<noteq> []" using 1(3) by auto
      ultimately have "continuation (hd p)" by (simp add: nth_append hd_conv_nth)
      with rune_lead [OF 1(3)] show False ..
    qed
    then have t: "rune_width t = Some n" and d: "drop n (t @ p) = drop n t @ p" using rune_shorter [OF n(1)] by simp_all
    have "valid_utf8 (drop n t)" using n(2) unfolding d by (rule 1(1) [OF False t _ 1(3)])
    with valid_utf8_step [OF t] show ?thesis by (rule iffD2)
  qed simp
qed

lemma space_runes_valid: "list_all (\<lambda>p. rune_width p = Some (length p)) space_runes"
  by code_simp

lemma space_rune: "p \<in> set space_runes \<Longrightarrow> rune_width p = Some (length p)"
  using space_runes_valid by (simp add: list_all_iff)

lemma trim_left_valid: "valid_utf8 s \<Longrightarrow> valid_utf8 (trim_left s)"
proof (induction s rule: trim_left.induct)
  case (1 s)
  show ?case
  proof (cases "s = [] \<or> space_width s = 0")
    case True
    with 1 show ?thesis by (subst trim_left.simps) simp
  next
    case False
    then obtain p where p: "find (has_prefix s) space_runes = Some p" "space_width s = length p"
      by (auto simp: space_width_def split: option.splits)
    then have m: "p \<in> set space_runes" "has_prefix s p" by (auto simp: find_Some_iff)
    then obtain r where "s = p @ r" by (auto elim: has_prefixE)
    then have "rune_width s = Some (length p)" using space_rune [OF m(1)] rune_width_append by blast
    with 1(2) p(2) have "valid_utf8 (drop (space_width s) s)" using valid_utf8_step by simp
    with 1(1) [OF False] False show ?thesis by (subst trim_left.simps) simp
  qed
qed

lemma trim_right_valid: "valid_utf8 s \<Longrightarrow> valid_utf8 (trim_right s)"
proof (induction s rule: trim_right.induct)
  case (1 s)
  show ?case
  proof (cases "s = [] \<or> space_suffix s = 0")
    case True
    with 1 show ?thesis by (subst trim_right.simps) simp
  next
    case False
    then obtain p where p: "find (has_suffix s) space_runes = Some p" "space_suffix s = length p"
      by (auto simp: space_suffix_def split: option.splits)
    then have m: "p \<in> set space_runes" "has_suffix s p" by (auto simp: find_Some_iff)
    then obtain r where r: "s = r @ p" by (auto elim: has_suffixE)
    have "valid_utf8 r" using valid_without_suffix [OF _ space_rune [OF m(1)]] 1(2) r by blast
    with 1(1) [OF False] False p(2) r show ?thesis by (subst trim_right.simps) simp
  qed
qed

text \<open>
  The sender of a message is at most 512 bytes of valid UTF-8, whatever the header holds; when it is
  flagged as truncated it fills that bound up to the last three bytes.
\<close>

theorem boundedSender_bounded:
  "case boundedSender env header of (sender, truncated) \<Rightarrow>
     valid_utf8 sender \<and> length sender \<le> 512 \<and> (if truncated then 509 \<le> length sender else True)"
proof -
  define P where "P r = (case r of (sender :: bytes, truncated) \<Rightarrow>
     valid_utf8 sender \<and> length sender \<le> 512 \<and> (if truncated then 509 \<le> length sender else True))" for r
  have cut: "P (truncateUTF8 (trim_space d) maxSenderBytes)" if "valid_utf8 d" for d
  proof -
    have "valid_utf8 (trim_space d)" using that by (simp add: trim_space_def trim_left_valid trim_right_valid)
    from truncateUTF8_facts [OF this, of maxSenderBytes] show ?thesis
      unfolding P_def by (auto split: prod.splits if_splits)
  qed
  have "P ([], False)" by (simp add: P_def)
  with cut have "P (boundedSender env header)"
    by (auto simp: boundedSender_def split: list.split option.split)
  then show ?thesis unfolding P_def .
qed

end
