(* ===== verification/IMAP_Commands.thy ===== *)
theory IMAP_Commands
  imports Search_Session Wire_Guards Move_Destination Header_Metadata
begin

text \<open>
  The commands of \<^verbatim>\<open>imapSession\<close> (\<^verbatim>\<open>bridge/imapclient.go\<close>) other than the FETCHes, over the session's
  own layers: the deadline limit, the read budget and the dispatch guard.

  go-imap is the environment \<open>imap_client\<close>: a call on it returns a result and the reads and writes it
  performed on the connection, in order, whatever they are. The reads pass through the read budget, the
  writes through the guard. What a refused write or an exhausted budget makes go-imap return is part of
  what the environment may return.
\<close>

section \<open>The session\<close>

datatype io = IORead read_section | IOWrite bytes

text \<open>\<open>is_conn_closed\<close> records that the session closed its own connection.\<close>

record 'n imap_state =
  is_conn :: deadlineConn
  is_budget :: readBudgetConn
  is_guard :: dispatchGuardConn
  is_conn_closed :: bool
  is_net :: 'n

type_synonym ('n, 'a) client_call = "'n \<Rightarrow> (go_error + 'a) \<times> io list \<times> 'n"

type_synonym ('n, 'a) imap_op = "'n imap_state \<Rightarrow> (go_error + 'a) \<times> 'n imap_state"

text \<open>The items of one FETCH message: a literal is its announced size and the reader of it.\<close>

datatype 's fetch_item =
    FetchUID uint32
  | FetchFlags "bytes list"
  | FetchRFC822Size int
  | FetchBodySection "(int \<times> reader) option" (section_matches: bool)
  | FetchBodyStructure (is_extended: bool) "'s option"
  | FetchOther

record 's fetch_response =
  fr_messages :: "'s fetch_item list list"
  fr_close :: "go_error option"

datatype fetch_request = RequestHeaders "uint32 list" | RequestBody uint32 int | RequestStructure uint32

record status_data =
  sd_Mailbox :: bytes
  sd_NumMessages :: "uint32 option"
  sd_NumUnseen :: "uint32 option"
  sd_UIDNext :: uint32
  sd_UIDValidity :: uint32

text \<open>\<open>ic_List\<close> yields the entries of the LIST and the error of its \<^verbatim>\<open>Close\<close>.\<close>

record ('n, 's) imap_commands =
  ic_view :: "'n \<Rightarrow> ctx_view"
  ic_deadline :: "int option"
  ic_WaitGreeting :: "('n, unit) client_call"
  ic_Login :: "bytes \<Rightarrow> bytes \<Rightarrow> ('n, unit) client_call"
  ic_Noop :: "('n, unit) client_call"
  ic_caps_known :: "'n \<Rightarrow> bool"
  ic_caps_move :: "'n \<Rightarrow> bool"
  ic_Select :: "bytes \<Rightarrow> bool \<Rightarrow> ('n, mailboxSnapshot) client_call"
  ic_Store :: "uint32 \<Rightarrow> bool \<Rightarrow> ('n, unit) client_call"
  ic_Move :: "uint32 \<Rightarrow> bytes \<Rightarrow> ('n, unit) client_call"
  ic_Status :: "bytes \<Rightarrow> ('n, status_data) client_call"
  ic_List :: "bytes \<Rightarrow> ('n, listedMailbox list \<times> go_error option) client_call"
  ic_Search :: "SearchQuery \<Rightarrow> uidWindow \<Rightarrow> 'n \<Rightarrow> (go_error option \<times> SearchData option) \<times> io list \<times> 'n"
  ic_Fetch :: "fetch_request \<Rightarrow> 'n \<Rightarrow> 's fetch_response \<times> io list \<times> 'n"
  ic_Logout :: "('n, unit) client_call"

fun run_io :: "io list \<Rightarrow> 'n imap_state \<Rightarrow> 'n imap_state" where
  "run_io [] st = st"
| "run_io (IORead r # ios) st = run_io ios (st\<lparr>is_budget := read_step r (is_budget st)\<rparr>)"
| "run_io (IOWrite b # ios) st = run_io ios (st\<lparr>is_guard := snd (Write b (is_guard st))\<rparr>)"

definition client_call :: "('n, 'a) client_call \<Rightarrow> ('n, 'a) imap_op" where
  "client_call f st = (case f (is_net st) of (r, ios, n) \<Rightarrow> (r, (run_io ios st)\<lparr>is_net := n\<rparr>))"

text \<open>\<^verbatim>\<open>session.conn.Close()\<close>.\<close>

definition close_conn :: "'n imap_state \<Rightarrow> 'n imap_state" where
  "close_conn st = st\<lparr>is_conn_closed := True\<rparr>"

section \<open>Bounding an operation\<close>

text \<open>\<^verbatim>\<open>withContext\<close>: a context without a deadline sets no limit.\<close>

definition withContext :: "('n, 's) imap_commands \<Rightarrow> ('n, 'a) imap_op \<Rightarrow> ('n, 'a) imap_op" where
  "withContext env operation st =
     (let st1 = (case ic_deadline env of None \<Rightarrow> st | Some d \<Rightarrow> st\<lparr>is_conn := setLimit (Some d) (is_conn st)\<rparr>) in
      case operation st1 of (r, st2) \<Rightarrow>
        (let st3 = st2\<lparr>is_conn := clearLimit (is_conn st2)\<rparr> in
         case r of
           Inr x \<Rightarrow> (Inr x, st3)
         | Inl e \<Rightarrow> (Inl (BridgeError (the (mapIMAPError (Some (ic_view env (is_net st2))) (Some e)))), st3)))"

definition withInputBudget :: "int \<Rightarrow> ('n, 'a) imap_op \<Rightarrow> 'n imap_state \<Rightarrow> (bool \<times> (go_error + 'a)) \<times> 'n imap_state" where
  "withInputBudget limit operation st =
     (case operation (st\<lparr>is_budget := begin_budget limit (is_budget st)\<rparr>) of (r, st2) \<Rightarrow>
        (case end_budget (is_budget st2) of (over, b) \<Rightarrow> ((over, r), st2\<lparr>is_budget := b\<rparr>)))"

definition withBoundedInput :: "('n, 's) imap_commands \<Rightarrow> int \<Rightarrow> ('n, 'a) imap_op \<Rightarrow> ('n, 'a) imap_op" where
  "withBoundedInput env limit operation = withContext env (\<lambda>st.
     (case withInputBudget limit operation st of
        ((over, r), st') \<Rightarrow> (if over then Inl (BridgeError CodeBoundsExceeded) else r, st')))"

definition and_check :: "('n, 'a) imap_op \<Rightarrow> ('a \<Rightarrow> go_error + 'b) \<Rightarrow> ('n, 'b) imap_op" where
  "and_check f check st = (case f st of (Inl e, st') \<Rightarrow> (Inl e, st') | (Inr x, st') \<Rightarrow> (check x, st'))"

abbreviation maxControlResponseBytes :: int where "maxControlResponseBytes \<equiv> 65536"

section \<open>Commands\<close>

definition waitForCapabilities :: "('n, 's) imap_commands \<Rightarrow> ('n, unit) imap_op" where
  "waitForCapabilities env st = (if ic_caps_known env (is_net st) then Inr () else Inl EOF_Error, st)"

definition startClient :: "('n, 's) imap_commands \<Rightarrow> ('n, unit) imap_op" where
  "startClient env st =
     (case withBoundedInput env maxControlResponseBytes (\<lambda>st.
        (case client_call (ic_WaitGreeting env) st of
           (Inl e, st') \<Rightarrow> (Inl e, st')
         | (Inr u, st') \<Rightarrow> waitForCapabilities env st')) st of
        (Inl e, st') \<Rightarrow> (Inl e, close_conn st')
      | (Inr u, st') \<Rightarrow> (Inr (), st'))"

text \<open>A tagged NO to LOGIN is an authentication failure; \<open>is_no e\<close> tells it from a BAD.\<close>

definition session_Authenticate :: "('n, 's) imap_commands \<Rightarrow> (go_error \<Rightarrow> bool) \<Rightarrow> bytes \<Rightarrow> bytes \<Rightarrow> ('n, unit) imap_op" where
  "session_Authenticate env is_no username password = withBoundedInput env maxControlResponseBytes (\<lambda>st.
     (case client_call (ic_Login env username password) st of
        (Inl e, st1) \<Rightarrow> (Inl (if err_root e = IMAPError \<and> is_no e then AuthenticationFailure e else e), st1)
      | (Inr u, st1) \<Rightarrow> (case client_call (ic_Noop env) st1 of
          (Inl e, st2) \<Rightarrow> (Inl (if err_root e = IMAPError then e else EOF_Error), st2)
        | (Inr u', st2) \<Rightarrow> waitForCapabilities env st2)))"

definition selected_snapshot :: "mailboxSnapshot \<Rightarrow> go_error + mailboxSnapshot" where
  "selected_snapshot s = (if UIDNext s = 0 \<or> UIDValidity s = 0 then Inl (BridgeError CodeIMAPProtocol) else Inr s)"

definition session_Examine :: "('n, 's) imap_commands \<Rightarrow> bytes \<Rightarrow> ('n, mailboxSnapshot) imap_op" where
  "session_Examine env mailbox =
     withBoundedInput env maxControlResponseBytes (and_check (client_call (ic_Select env mailbox True)) selected_snapshot)"

definition session_SelectSource :: "('n, 's) imap_commands \<Rightarrow> bytes \<Rightarrow> ('n, mailboxSnapshot) imap_op" where
  "session_SelectSource env mailbox =
     withBoundedInput env maxControlResponseBytes (and_check (client_call (ic_Select env mailbox False)) selected_snapshot)"

definition session_StoreSeen :: "('n, 's) imap_commands \<Rightarrow> uint32 \<Rightarrow> bool \<Rightarrow> ('n, unit) imap_op" where
  "session_StoreSeen env uid seen st =
     (if uid = 0 then (Inl (BridgeError CodeIMAPProtocol), st)
      else withBoundedInput env maxControlResponseBytes (client_call (ic_Store env uid seen)) st)"

definition session_SupportsMove :: "('n, 's) imap_commands \<Rightarrow> 'n imap_state \<Rightarrow> bool" where
  "session_SupportsMove env st = ic_caps_move env (is_net st)"

definition dispatchMove :: "('n, 's) imap_commands \<Rightarrow> uint32 \<Rightarrow> bytes \<Rightarrow> ('n, unit) imap_op" where
  "dispatchMove env uid destination st =
     (case withBoundedInput env maxControlResponseBytes (client_call (ic_Move env uid destination))
             (st\<lparr>is_guard := arm uid (is_guard st)\<rparr>) of
        (r, st1) \<Rightarrow> (case disarm (is_guard st1) of
          (refused, g) \<Rightarrow> (if refused then Inl (BridgeError CodeUnsupported) else r, st1\<lparr>is_guard := g\<rparr>)))"

definition session_MoveUID :: "('n, 's) imap_commands \<Rightarrow> uint32 \<Rightarrow> bytes \<Rightarrow> ('n, unit) imap_op" where
  "session_MoveUID env uid destination st =
     (if uid = 0 \<or> destination = [] then (Inl (BridgeError CodeIMAPProtocol), st)
      else if \<not> session_SupportsMove env st then (Inl (BridgeError CodeUnsupported), st)
      else dispatchMove env uid destination st)"

text \<open>\<^verbatim>\<open>maxInt\<close> is that of a 64-bit platform.\<close>

definition status_result :: "bytes \<Rightarrow> status_data \<Rightarrow> go_error + MailboxStatus" where
  "status_result wireMailbox d = (case (sd_NumMessages d, sd_NumUnseen d) of
      (Some m, Some u) \<Rightarrow>
        if \<not> mailboxIdentityMatches wireMailbox (sd_Mailbox d) \<or> sd_UIDNext d = 0 \<or> sd_UIDValidity d = 0
        then Inl (BridgeError CodeIMAPProtocol)
        else if 2 ^ 63 \<le> unat m \<or> 2 ^ 63 \<le> unat u then Inl (BridgeError CodeIMAPProtocol)
        else Inr \<lparr>st_Messages = int (unat m), st_UIDNext = sd_UIDNext d, st_UIDValidity = sd_UIDValidity d,
          st_Unseen = int (unat u)\<rparr>
    | _ \<Rightarrow> Inl (BridgeError CodeIMAPProtocol))"

definition session_Status :: "('n, 's) imap_commands \<Rightarrow> bytes \<Rightarrow> ('n, MailboxStatus) imap_op" where
  "session_Status env mailbox = withBoundedInput env maxControlResponseBytes
     (and_check (client_call (ic_Status env (canonicalMailbox mailbox))) (status_result (canonicalMailbox mailbox)))"

text \<open>The loop over the LIST entries; it closes the connection at the entry past the limit.\<close>

fun list_entries :: "int \<Rightarrow> listedMailbox list \<Rightarrow> go_error option \<Rightarrow> listedMailbox list \<Rightarrow>
    (go_error + listedMailbox list) \<times> bool" where
  "list_entries limit [] e mailboxes = ((case e of None \<Rightarrow> Inr mailboxes | Some x \<Rightarrow> Inl x), False)"
| "list_entries limit (d # ds) e mailboxes =
     (if int (length mailboxes) = limit then (Inl (BridgeError CodeBoundsExceeded), True)
      else list_entries limit ds e (mailboxes @ [d]))"

definition session_ListMailboxes :: "('n, 's) imap_commands \<Rightarrow> bytes \<Rightarrow> int \<Rightarrow> ('n, listedMailbox list) imap_op" where
  "session_ListMailboxes env pattern limit = withBoundedInput env maxControlResponseBytes (\<lambda>st.
     (case client_call (ic_List env pattern) st of
        (Inl e, st') \<Rightarrow> (Inl e, st')
      | (Inr (ds, e), st') \<Rightarrow> (case list_entries limit ds e [] of
          (r, closes) \<Rightarrow> (r, if closes then close_conn st' else st'))))"

text \<open>\<^verbatim>\<open>string(rune)\<close>.\<close>

definition rune_string :: "nat \<Rightarrow> bytes" where
  "rune_string r = utf8_encode (if valid_rune r then r else 65533)"

definition session_List :: "('n, 's) imap_commands \<Rightarrow> int \<Rightarrow> ('n, Folder list) imap_op" where
  "session_List env limit st = (case session_ListMailboxes env ''*'' limit st of
      (Inl e, st') \<Rightarrow> (Inl e, st')
    | (Inr ms, st') \<Rightarrow> (Inr (map (\<lambda>m. \<lparr>f_Name = mb_Name m, f_Delimiter = rune_string (mb_Delimiter m)\<rparr>) ms), st'))"

text \<open>
  \<^verbatim>\<open>UIDSearchWindow\<close> on the session: what the command read goes through the observer of
  \<open>Search_Session\<close>, what it wrote through the guard.
\<close>

fun io_reads :: "io list \<Rightarrow> read_section list" where
  "io_reads [] = []"
| "io_reads (IORead r # ios) = r # io_reads ios"
| "io_reads (IOWrite b # ios) = io_reads ios"

fun io_writes :: "io list \<Rightarrow> bytes list" where
  "io_writes [] = []"
| "io_writes (IORead r # ios) = io_writes ios"
| "io_writes (IOWrite b # ios) = b # io_writes ios"

definition session_UIDSearchWindow :: "('n, 's) imap_commands \<Rightarrow> SearchQuery \<Rightarrow> uidWindow \<Rightarrow> int \<Rightarrow> ('n, uint32 list) imap_op" where
  "session_UIDSearchWindow env q w limit st =
     (if limit < 1 \<or> int (width w) < limit then (Inl (BridgeError CodeBoundsExceeded), st)
      else (case ic_Search env q w (is_net st) of ((err, data), ios, n) \<Rightarrow>
        (case UIDSearchWindow (ic_view env n) w limit (is_budget st) (io_reads ios) err data of
           (r, b) \<Rightarrow> ((case r of Inl c \<Rightarrow> Inl (BridgeError c) | Inr uids \<Rightarrow> Inr uids),
             st\<lparr>is_conn := clearLimit (is_conn st), is_budget := b, is_guard := write_all (io_writes ios) (is_guard st), is_net := n\<rparr>))))"

text \<open>Both \<^verbatim>\<open>Logout\<close> and \<^verbatim>\<open>Abort\<close> leave the connection closed.\<close>

definition session_Logout :: "('n, 's) imap_commands \<Rightarrow> ('n, unit) imap_op" where
  "session_Logout env st = (case withContext env (client_call (ic_Logout env)) st of (r, st') \<Rightarrow> (r, close_conn st'))"

definition session_Abort :: "'n imap_state \<Rightarrow> 'n imap_state" where
  "session_Abort st = close_conn st"

text \<open>
  \<^verbatim>\<open>newIMAPSessionOver\<close>: a fresh session over an established transport; every client write passes
  through the guard and every read through the budget.
\<close>

definition new_imap_state :: "'n \<Rightarrow> 'n imap_state" where
  "new_imap_state n = \<lparr>is_conn = \<lparr>deadline = None, conn_read = None, conn_write = None\<rparr>,
     is_budget = newReadBudgetConn maxControlResponseBytes,
     is_guard = \<lparr>armed = False, used = False, tripped = False, guard_prefix = [], guard_calls = []\<rparr>,
     is_conn_closed = False, is_net = n\<rparr>"

definition newIMAPSessionOver :: "('n, 's) imap_commands \<Rightarrow> 'n \<Rightarrow> (go_error + 'n imap_state) \<times> 'n imap_state" where
  "newIMAPSessionOver env n = (case startClient env (new_imap_state n) of
      (Inl e, st) \<Rightarrow> (Inl e, st)
    | (Inr u, st) \<Rightarrow> (Inr st, st))"

section \<open>What a command leaves behind\<close>

lemma run_io_split:
  "run_io ios st = st\<lparr>is_budget := fold read_step (io_reads ios) (is_budget st),
     is_guard := write_all (io_writes ios) (is_guard st)\<rparr>"
  by (induction ios st rule: run_io.induct) simp_all

lemma client_call_eq:
  "client_call f st = (fst (f (is_net st)), st\<lparr>
     is_budget := fold read_step (io_reads (fst (snd (f (is_net st))))) (is_budget st),
     is_guard := write_all (io_writes (fst (snd (f (is_net st))))) (is_guard st), is_net := snd (snd (f (is_net st)))\<rparr>)"
  by (simp add: client_call_def run_io_split split: prod.split)

text \<open>
  The rules of this section go through a command wrapper by wrapper. \<open>op_ok\<close>: the read budget stays in
  force with its idle limit, and the guard is armed afterwards exactly if it was before.
\<close>

named_theorems op_intros

definition budget_shape :: "readBudgetConn \<Rightarrow> bool" where
  "budget_shape b \<longleftrightarrow> active b \<and> idleLimit b = maxControlResponseBytes \<and> \<not> searchActive b"

definition op_ok :: "('n, 'a) imap_op \<Rightarrow> bool" where
  "op_ok f \<longleftrightarrow> (\<forall>st. budget_shape (is_budget st) \<longrightarrow>
     budget_shape (is_budget (snd (f st))) \<and> armed (is_guard (snd (f st))) = armed (is_guard st))"

lemma op_okI [intro?]:
  "(\<And>st. budget_shape (is_budget st) \<Longrightarrow>
     budget_shape (is_budget (snd (f st))) \<and> armed (is_guard (snd (f st))) = armed (is_guard st)) \<Longrightarrow> op_ok f"
  by (simp add: op_ok_def)

lemma op_okD: "op_ok f \<Longrightarrow> budget_shape (is_budget st) \<Longrightarrow> f st = (r, st') \<Longrightarrow>
    budget_shape (is_budget st') \<and> armed (is_guard st') = armed (is_guard st)"
  unfolding op_ok_def by (metis snd_conv)

lemma read_step_shape: "budget_shape b \<Longrightarrow> budget_shape (read_step r b)"
proof (cases r)
  case (Filled bs)
  assume "budget_shape b"
  with budgetFill_view [of bs b] Filled show ?thesis
    by (simp add: budget_shape_def budget_view_def)
next
  case (Polled n)
  assume "budget_shape b"
  with Polled show ?thesis by (simp add: budget_shape_def budgetPoll_def)
qed

lemma read_steps_shape: "budget_shape b \<Longrightarrow> budget_shape (fold read_step rs b)"
  by (induction rs arbitrary: b) (simp_all add: read_step_shape)

lemma write_all_armed [simp]: "armed (write_all bs g) = armed g"
  by (induction bs arbitrary: g) (simp_all add: Write_def)

lemma op_ok_client [op_intros]: "op_ok (client_call f)"
  by (rule op_okI) (simp add: client_call_eq read_steps_shape)

lemma op_ok_check [op_intros]: "op_ok f \<Longrightarrow> op_ok (and_check f check)"
proof (rule op_okI)
  fix st :: "'a imap_state"
  assume f: "op_ok f" and b: "budget_shape (is_budget st)"
  obtain r st' where r: "f st = (r, st')" by (metis prod.exhaust)
  from op_okD [OF f b r] show "budget_shape (is_budget (snd (and_check f check st))) \<and>
      armed (is_guard (snd (and_check f check st))) = armed (is_guard st)"
    by (cases r) (simp_all add: and_check_def r)
qed

lemma op_ok_context [op_intros]:
  assumes "op_ok f"
  shows "op_ok (withContext env f)"
proof
  fix st :: "'a imap_state"
  assume b: "budget_shape (is_budget st)"
  define st1 where "st1 = (case ic_deadline env of None \<Rightarrow> st | Some d \<Rightarrow> st\<lparr>is_conn := setLimit (Some d) (is_conn st)\<rparr>)"
  have st1: "is_budget st1 = is_budget st" "is_guard st1 = is_guard st" by (simp_all add: st1_def split: option.split)
  obtain r st2 where r: "f st1 = (r, st2)" by (metis prod.exhaust)
  have "budget_shape (is_budget st2) \<and> armed (is_guard st2) = armed (is_guard st1)"
    using op_okD [OF assms _ r] b st1 by simp
  then show "budget_shape (is_budget (snd (withContext env f st))) \<and>
      armed (is_guard (snd (withContext env f st))) = armed (is_guard st)"
    using st1 by (cases r) (simp_all add: withContext_def st1_def [symmetric] r)
qed

lemma op_ok_bounded [op_intros]:
  assumes "op_ok f"
  shows "op_ok (withBoundedInput env limit f)"
  unfolding withBoundedInput_def
proof (rule op_ok_context, rule op_okI)
  fix st :: "'a imap_state"
  assume b: "budget_shape (is_budget st)"
  define st1 where "st1 = st\<lparr>is_budget := begin_budget limit (is_budget st)\<rparr>"
  have "budget_shape (is_budget st1)" using b by (simp add: st1_def budget_shape_def begin_budget_def)
  moreover obtain r st2 where r: "f st1 = (r, st2)" by (metis prod.exhaust)
  ultimately have "budget_shape (is_budget st2) \<and> armed (is_guard st2) = armed (is_guard st1)"
    using op_okD [OF assms _ r] by blast
  then show "budget_shape (is_budget (snd (case withInputBudget limit f st of
        ((over, r), st') \<Rightarrow> (if over then Inl (BridgeError CodeBoundsExceeded) else r, st')))) \<and>
      armed (is_guard (snd (case withInputBudget limit f st of
        ((over, r), st') \<Rightarrow> (if over then Inl (BridgeError CodeBoundsExceeded) else r, st')))) = armed (is_guard st)"
    by (simp add: withInputBudget_def st1_def [symmetric] r end_budget_def budget_shape_def) (simp add: st1_def)
qed

lemma op_ok_then [op_intros]:
  assumes "op_ok f" and "\<And>e. op_ok (g e)" and "\<And>x. op_ok (h x)"
  shows "op_ok (\<lambda>st. case f st of (Inl e, st') \<Rightarrow> g e st' | (Inr x, st') \<Rightarrow> h x st')"
proof
  fix st :: "'a imap_state"
  assume b: "budget_shape (is_budget st)"
  obtain r st' where r: "f st = (r, st')" by (metis prod.exhaust)
  note f = op_okD [OF assms(1) b r]
  show "budget_shape (is_budget (snd (case f st of (Inl e, st') \<Rightarrow> g e st' | (Inr x, st') \<Rightarrow> h x st'))) \<and>
      armed (is_guard (snd (case f st of (Inl e, st') \<Rightarrow> g e st' | (Inr x, st') \<Rightarrow> h x st'))) = armed (is_guard st)"
    using f assms(2,3) unfolding op_ok_def r by (cases r) simp_all
qed

lemma op_ok_return [op_intros]: "op_ok (\<lambda>st. (r st, st))"
  by (simp add: op_ok_def)

lemma op_ok_close [op_intros]: "op_ok (\<lambda>st. (r st, if c st then close_conn st else st))" "op_ok (\<lambda>st. (r' st, close_conn st))"
  by (simp_all add: op_ok_def close_conn_def)

lemma op_ok_if [op_intros]: "op_ok f \<Longrightarrow> op_ok g \<Longrightarrow> op_ok (\<lambda>st. if c st then f st else g st)"
  by (simp add: op_ok_def)

text \<open>\<open>layers_idle\<close>: between commands no deadline is left, the guard is disarmed and the budget in force.\<close>

definition layers_idle :: "'n imap_state \<Rightarrow> bool" where
  "layers_idle st \<longleftrightarrow> deadline (is_conn st) = None \<and> conn_read (is_conn st) = None \<and> conn_write (is_conn st) = None \<and>
     \<not> armed (is_guard st) \<and> budget_shape (is_budget st)"

definition keeps_idle :: "('n, 'a) imap_op \<Rightarrow> bool" where
  "keeps_idle f \<longleftrightarrow> (\<forall>st. layers_idle st \<longrightarrow> layers_idle (snd (f st)))"

named_theorems idle_intros

lemma withContext_clears: "deadline (is_conn (snd (withContext env f st))) = None \<and>
    conn_read (is_conn (snd (withContext env f st))) = None \<and> conn_write (is_conn (snd (withContext env f st))) = None"
  by (simp add: withContext_def Let_def clearLimit_def split: prod.split sum.split)

lemma idle_context [idle_intros]: "op_ok f \<Longrightarrow> keeps_idle (withContext env f)"
  using op_ok_context [of f env] withContext_clears [of env f]
  by (auto simp: keeps_idle_def layers_idle_def op_ok_def)

lemma idle_bounded [idle_intros]:
  assumes "op_ok f"
  shows "keeps_idle (withBoundedInput env limit f)"
  unfolding keeps_idle_def
proof (intro allI impI)
  fix st :: "'a imap_state"
  assume "layers_idle st"
  moreover obtain r st' where r: "withBoundedInput env limit f st = (r, st')" by (metis prod.exhaust)
  moreover have "deadline (is_conn st') = None \<and> conn_read (is_conn st') = None \<and> conn_write (is_conn st') = None"
    using withContext_clears r unfolding withBoundedInput_def by (metis snd_conv)
  ultimately show "layers_idle (snd (withBoundedInput env limit f st))"
    using op_okD [OF op_ok_bounded [OF assms] _ r] by (simp add: layers_idle_def)
qed

lemma idle_return [idle_intros]: "keeps_idle (\<lambda>st. (r st, st))"
  by (simp add: keeps_idle_def)

lemma idle_if [idle_intros]: "keeps_idle f \<Longrightarrow> keeps_idle g \<Longrightarrow> keeps_idle (\<lambda>st. if c st then f st else g st)"
  by (simp add: keeps_idle_def)

lemma keeps_idleD: "keeps_idle f \<Longrightarrow> layers_idle st \<Longrightarrow> f st = (r, st') \<Longrightarrow> layers_idle st'"
  unfolding keeps_idle_def by (metis snd_conv)

lemma idle_then [idle_intros]:
  assumes "keeps_idle f" and "\<And>e. keeps_idle (g e)" and "\<And>x. keeps_idle (h x)"
  shows "keeps_idle (\<lambda>st. case f st of (Inl e, st') \<Rightarrow> g e st' | (Inr x, st') \<Rightarrow> h x st')"
  unfolding keeps_idle_def
proof (intro allI impI)
  fix st :: "'a imap_state"
  assume i: "layers_idle st"
  obtain r st' where r: "f st = (r, st')" by (metis prod.exhaust)
  from keeps_idleD [OF assms(1) i r] assms(2,3)
  show "layers_idle (snd (case f st of (Inl e, st') \<Rightarrow> g e st' | (Inr x, st') \<Rightarrow> h x st'))"
    unfolding keeps_idle_def r by (cases r) simp_all
qed

lemma idle_close [idle_intros]: "keeps_idle (\<lambda>st. (r st, close_conn st))"
  by (simp add: keeps_idle_def layers_idle_def close_conn_def)

lemma idle_close_after [idle_intros]:
  assumes "keeps_idle f"
  shows "keeps_idle (\<lambda>st. case f st of (r, st') \<Rightarrow> (r, close_conn st'))"
  unfolding keeps_idle_def
proof (intro allI impI)
  fix st :: "'a imap_state"
  assume i: "layers_idle st"
  obtain r st' where r: "f st = (r, st')" by (metis prod.exhaust)
  from keeps_idleD [OF assms i r] show "layers_idle (snd (case f st of (r, st') \<Rightarrow> (r, close_conn st')))"
    by (simp add: r layers_idle_def close_conn_def)
qed

lemma op_ok_capabilities [op_intros]: "op_ok (waitForCapabilities env)"
  by (simp add: waitForCapabilities_def op_ok_def)

lemma idle_start [idle_intros]: "keeps_idle (startClient env)"
  unfolding startClient_def by (intro idle_intros op_intros)

lemma idle_authenticate [idle_intros]: "keeps_idle (session_Authenticate env is_no u p)"
  unfolding session_Authenticate_def by (intro idle_intros op_intros)

lemma idle_select [idle_intros]:
  "keeps_idle (session_Examine env m)" "keeps_idle (session_SelectSource env m)"
  unfolding session_Examine_def session_SelectSource_def by (intro idle_intros op_intros)+

lemma idle_store [idle_intros]: "keeps_idle (session_StoreSeen env uid seen)"
  unfolding session_StoreSeen_def by (intro idle_intros op_intros)

lemma idle_status [idle_intros]: "keeps_idle (session_Status env m)"
  unfolding session_Status_def by (intro idle_intros op_intros)

lemma idle_list_mailboxes [idle_intros]: "keeps_idle (session_ListMailboxes env pattern limit)"
proof -
  have "op_ok (\<lambda>st. case client_call (ic_List env pattern) st of
        (Inl e, st') \<Rightarrow> (Inl e, st')
      | (Inr x, st') \<Rightarrow> (fst (list_entries limit (fst x) (snd x) []),
          if snd (list_entries limit (fst x) (snd x) []) then close_conn st' else st'))"
    by (intro op_intros)
  moreover have "(\<lambda>st. case client_call (ic_List env pattern) st of
        (Inl e, st') \<Rightarrow> (Inl e, st')
      | (Inr x, st') \<Rightarrow> (fst (list_entries limit (fst x) (snd x) []),
          if snd (list_entries limit (fst x) (snd x) []) then close_conn st' else st')) =
    (\<lambda>st. case client_call (ic_List env pattern) st of
        (Inl e, st') \<Rightarrow> (Inl e, st')
      | (Inr (ds, e), st') \<Rightarrow> (case list_entries limit ds e [] of
          (r, closes) \<Rightarrow> (r, if closes then close_conn st' else st')))"
    by (rule ext) (simp split: prod.split sum.split)
  ultimately show ?thesis unfolding session_ListMailboxes_def by (simp add: idle_bounded)
qed

lemma idle_list [idle_intros]: "keeps_idle (session_List env limit)"
  unfolding session_List_def by (intro idle_intros)

lemma idle_logout [idle_intros]: "keeps_idle (session_Logout env)"
  unfolding session_Logout_def by (intro idle_intros op_intros)

lemma endSearch_shape: "idleLimit b = maxControlResponseBytes \<Longrightarrow> budget_shape (snd (endSearch b))"
  by (simp add: budget_shape_def endSearch_def end_budget_def resetSearch_def)

lemma fold_read_idle: "idleLimit (fold read_step rs b) = idleLimit b"
proof (induction rs arbitrary: b)
  case (Cons r rs)
  have "idleLimit (read_step r b) = idleLimit b"
  proof (cases r)
    case (Filled bs)
    with budgetFill_view [of bs b] show ?thesis by (simp add: budget_view_def split: if_splits)
  qed (simp add: budgetPoll_def)
  with Cons show ?case by simp
qed simp

lemma UIDSearchWindow_shape:
  "budget_shape c \<Longrightarrow> budget_shape (snd (UIDSearchWindow ctx w limit c wire err data))"
proof -
  assume c: "budget_shape c"
  define b where "b = fold read_step wire (checkSearchWindow w (beginSearch 4096 c))"
  have "idleLimit b = maxControlResponseBytes"
    using c by (simp add: b_def fold_read_idle budget_fields(6) budget_shape_def)
  then have "budget_shape (snd (endSearch b))" by (rule endSearch_shape)
  moreover obtain obs c' where "endSearch b = (obs, c')" by (metis prod.exhaust)
  ultimately show ?thesis using c
    by (simp add: UIDSearchWindow_def b_def [symmetric] Let_def split: sum.split)
qed

lemma idle_search [idle_intros]: "keeps_idle (session_UIDSearchWindow env q w limit)"
  unfolding keeps_idle_def
proof (intro allI impI)
  fix st :: "'a imap_state"
  assume i: "layers_idle st"
  obtain err data ios n where s: "ic_Search env q w (is_net st) = ((err, data), ios, n)" by (metis prod.exhaust)
  obtain r b where u: "UIDSearchWindow (ic_view env n) w limit (is_budget st) (io_reads ios) err data = (r, b)" by (metis prod.exhaust)
  have "budget_shape b"
    using UIDSearchWindow_shape [of "is_budget st" "ic_view env n" w limit "io_reads ios" err data] i u
    by (simp add: layers_idle_def)
  with i s u show "layers_idle (snd (session_UIDSearchWindow env q w limit st))"
    by (simp add: session_UIDSearchWindow_def layers_idle_def clearLimit_def)
qed

lemma idle_move [idle_intros]: "keeps_idle (session_MoveUID env uid d)"
  unfolding keeps_idle_def
proof (intro allI impI)
  fix st :: "'a imap_state"
  assume i: "layers_idle st"
  define st0 where "st0 = st\<lparr>is_guard := arm uid (is_guard st)\<rparr>"
  obtain r st1 where m: "withBoundedInput env maxControlResponseBytes (client_call (ic_Move env uid d)) st0 = (r, st1)"
    by (metis prod.exhaust)
  have "budget_shape (is_budget st0)" using i by (simp add: st0_def layers_idle_def)
  with op_okD [OF op_ok_bounded [OF op_ok_client] _ m] have "budget_shape (is_budget st1)" by blast
  moreover have "deadline (is_conn st1) = None \<and> conn_read (is_conn st1) = None \<and> conn_write (is_conn st1) = None"
    using withContext_clears m unfolding withBoundedInput_def by (metis snd_conv)
  ultimately have "layers_idle (snd (dispatchMove env uid d st))"
    by (simp add: dispatchMove_def st0_def [symmetric] m disarm_def layers_idle_def)
  with i show "layers_idle (snd (session_MoveUID env uid d st))" by (simp add: session_MoveUID_def)
qed

section \<open>Native moves\<close>

lemma context_layers:
  assumes "\<And>c. is_guard (snd (f (st\<lparr>is_conn := c\<rparr>))) = g \<and> is_net (snd (f (st\<lparr>is_conn := c\<rparr>))) = n"
    and "is_guard (snd (f st)) = g \<and> is_net (snd (f st)) = n"
  shows "is_guard (snd (withContext env f st)) = g \<and> is_net (snd (withContext env f st)) = n"
proof -
  define st1 where "st1 = (case ic_deadline env of None \<Rightarrow> st | Some d \<Rightarrow> st\<lparr>is_conn := setLimit (Some d) (is_conn st)\<rparr>)"
  obtain r st2 where r: "f st1 = (r, st2)" by (metis prod.exhaust)
  have "is_guard (snd (f st1)) = g \<and> is_net (snd (f st1)) = n" using assms by (simp add: st1_def split: option.split)
  with r have "is_guard st2 = g \<and> is_net st2 = n" by simp
  then show ?thesis by (cases r) (simp_all add: withContext_def st1_def [symmetric] r)
qed

lemma bounded_layers: "is_guard (snd (withBoundedInput env limit (client_call f) st)) =
    write_all (io_writes (fst (snd (f (is_net st))))) (is_guard st) \<and>
    is_net (snd (withBoundedInput env limit (client_call f) st)) = snd (snd (f (is_net st)))"
  unfolding withBoundedInput_def
  by (rule context_layers) (simp_all add: withInputBudget_def client_call_eq case_prod_beta)

definition native_move :: "uint32 \<Rightarrow> bytes \<Rightarrow> bool" where
  "native_move uid line \<longleftrightarrow> (\<exists>tag mailbox.
     line = tag @ '' UID MOVE '' @ format_uint (unat uid) @ '' '' @ mailbox @ CRLF \<and>
     tag \<noteq> [] \<and> SP \<notin> set tag \<and> mailbox \<noteq> [] \<and> last mailbox \<noteq> CHR ''}'' \<and> set (tag @ mailbox) \<inter> {CR, LF} = {})"

lemma native_move_line: "nativeMoveLine line (move_prefix uid) \<Longrightarrow> native_move uid line"
  by (auto simp: nativeMoveLine_iff move_prefix_def native_move_def)

lemma guard_sent:
  "\<exists>sent. conn_writes (guard_calls (write_all bs (arm uid g))) = conn_writes (guard_calls g) @ sent \<and>
     (sent = [] \<or> (\<exists>line. sent = [line] \<and> native_move uid line)) \<and> (\<not> tripped (write_all bs (arm uid g)) \<longrightarrow> bs = sent)"
proof (cases "tripped (write_all bs (arm uid g))")
  case True
  have inv: "guard_inv (move_prefix uid) (conn_writes (guard_calls g)) (write_all bs (arm uid g))"
    by (rule guard_inv_write_all [OF guard_inv_arm])
  show ?thesis
  proof (cases "used (write_all bs (arm uid g))")
    case used: True
    with inv obtain line where "nativeMoveLine line (move_prefix uid)"
      "conn_writes (guard_calls (write_all bs (arm uid g))) = conn_writes (guard_calls g) @ [line]"
      by (auto simp: guard_inv_def)
    with True native_move_line show ?thesis by blast
  next
    case False
    with inv True show ?thesis by (auto simp: guard_inv_def)
  qed
next
  case False
  then consider "bs = []" | b where "bs = [b]" "nativeMoveLine b (move_prefix uid)"
    using write_all_outcome by blast
  then show ?thesis
  proof cases
    case 1
    then show ?thesis by (simp add: arm_def)
  next
    case 2
    then have "conn_writes (guard_calls (write_all bs (arm uid g))) = conn_writes (guard_calls g) @ [b]"
      by (simp add: Write_def arm_def)
    with 2 native_move_line show ?thesis by blast
  qed
qed

text \<open>
  C35. Whatever go-imap does while it runs a MOVE, of all it writes at most one write reaches the
  connection, and it is one complete native \<^verbatim>\<open>UID MOVE\<close> line for that UID; the command succeeds only if
  that line is all it tried to write, and it leaves the guard disarmed.
\<close>

theorem MoveUID_writes:
  "case session_MoveUID env uid destination st of (r, st') \<Rightarrow>
     \<exists>sent. conn_writes (guard_calls (is_guard st')) = conn_writes (guard_calls (is_guard st)) @ sent \<and>
       (sent = [] \<or> (\<exists>line. sent = [line] \<and> native_move uid line)) \<and>
       (case r of Inl e \<Rightarrow> True
        | Inr u \<Rightarrow> io_writes (fst (snd (ic_Move env uid destination (is_net st)))) = sent \<and> \<not> armed (is_guard st'))"
proof -
  let ?bs = "io_writes (fst (snd (ic_Move env uid destination (is_net st))))"
  let ?g = "write_all ?bs (arm uid (is_guard st))"
  obtain r st' where r: "session_MoveUID env uid destination st = (r, st')" by (metis prod.exhaust)
  show ?thesis
  proof (cases "uid = 0 \<or> destination = [] \<or> \<not> session_SupportsMove env st")
    case True
    with r show ?thesis by (auto simp: session_MoveUID_def split: if_splits)
  next
    case False
    then have d: "dispatchMove env uid destination st = (r, st')" using r by (simp add: session_MoveUID_def)
    have g: "guard_calls (is_guard st') = guard_calls ?g \<and> \<not> armed (is_guard st') \<and> (r = Inr () \<longrightarrow> \<not> tripped ?g)"
      using d bounded_layers [of env maxControlResponseBytes "ic_Move env uid destination" "st\<lparr>is_guard := arm uid (is_guard st)\<rparr>"]
      by (auto simp: dispatchMove_def disarm_def split: prod.splits if_splits)
    obtain sent where s: "conn_writes (guard_calls ?g) = conn_writes (guard_calls (is_guard st)) @ sent"
      "sent = [] \<or> (\<exists>line. sent = [line] \<and> native_move uid line)"
      and out: "\<not> tripped ?g \<longrightarrow> ?bs = sent" using guard_sent [of ?bs uid "is_guard st"] by blast
    show ?thesis using g s out r by (cases r) auto
  qed
qed

text \<open>
  A refused write does not mean that nothing was sent: when the client writes the MOVE line and then
  anything else, the line has left and the command still reports \<^verbatim>\<open>CodeUnsupported\<close>, which the batch
  takes for a definite refusal.
\<close>

definition chatty_client :: "(unit, unit) imap_commands" where
  "chatty_client = \<lparr>ic_view = (\<lambda>n. live_ctx), ic_deadline = None, ic_WaitGreeting = (\<lambda>n. (Inr (), [], n)),
     ic_Login = (\<lambda>u p n. (Inr (), [], n)), ic_Noop = (\<lambda>n. (Inr (), [], n)), ic_caps_known = (\<lambda>n. True),
     ic_caps_move = (\<lambda>n. True), ic_Select = (\<lambda>m b n. (Inl OtherError, [], n)), ic_Store = (\<lambda>u b n. (Inl OtherError, [], n)),
     ic_Move = (\<lambda>u d n. (Inr (), [IOWrite (''T1 UID MOVE 7 Archive'' @ CRLF), IOWrite (''T2 CAPABILITY'' @ CRLF)], n)),
     ic_Status = (\<lambda>m n. (Inl OtherError, [], n)), ic_List = (\<lambda>p n. (Inl OtherError, [], n)),
     ic_Search = (\<lambda>q w n. ((None, None), [], n)), ic_Fetch = (\<lambda>q n. (\<lparr>fr_messages = [], fr_close = None\<rparr>, [], n)),
     ic_Logout = (\<lambda>n. (Inr (), [], n))\<rparr>"

theorem refused_after_sent:
  "case session_MoveUID chatty_client 7 ''Archive'' (new_imap_state ()) of (r, st') \<Rightarrow>
     r = Inl (BridgeError CodeUnsupported) \<and>
     conn_writes (guard_calls (is_guard st')) = [''T1 UID MOVE 7 Archive'' @ CRLF]"
  by code_simp

end
