(* ===== verification/IMAP_Fetch.thy ===== *)
theory IMAP_Fetch
  imports IMAP_Commands Mail_Search Structure_Quarantine
begin

text \<open>
  The FETCH commands of \<^verbatim>\<open>imapSession\<close> (\<^verbatim>\<open>bridge/imapclient.go\<close>): each reads a stream of messages and
  their items, refuses any shape it did not ask for, and closes the connection when it gives up.
\<close>

section \<open>Reading a response\<close>

text \<open>\<^verbatim>\<open>io.ReadFull\<close> into a buffer of the announced size.\<close>

definition readBoundedLiteral :: "int \<times> reader \<Rightarrow> int \<Rightarrow> go_error + bytes" where
  "readBoundedLiteral literal limit = (case literal of (announced, (content, e)) \<Rightarrow>
     if limit < announced then Inl (BridgeError CodeBoundsExceeded)
     else if announced \<le> int (length content) then Inr (take (nat announced) content)
     else Inl (case e of Some x \<Rightarrow> x | None \<Rightarrow> if content = [] then EOF_Error else UnexpectedEOF_Error))"

abbreviation fetchResponseOverheadBytes :: int where "fetchResponseOverheadBytes \<equiv> 4096"

definition fetchInputBudget :: "int \<Rightarrow> int \<Rightarrow> int" where
  "fetchInputBudget literalLimit messageCount = messageCount * (literalLimit + fetchResponseOverheadBytes)"

fun fold_items :: "('i \<Rightarrow> 'a \<Rightarrow> go_error + 'a) \<Rightarrow> 'i list \<Rightarrow> 'a \<Rightarrow> go_error + 'a" where
  "fold_items f [] a = Inr a"
| "fold_items f (i # is) a = (case f i a of Inl e \<Rightarrow> Inl e | Inr a' \<Rightarrow> fold_items f is a')"

abbreviation protocol :: go_error where "protocol \<equiv> BridgeError CodeIMAPProtocol"

definition close_result :: "'s fetch_response \<Rightarrow> 'a \<Rightarrow> go_error + 'a" where
  "close_result resp x = (case fr_close resp of None \<Rightarrow> Inr x | Some e \<Rightarrow> Inl e)"

text \<open>
  A FETCH under its own input budget: a refused response aborts the command by closing the connection,
  before the budget is judged.
\<close>

definition fetch_call :: "('n, 's) imap_commands \<Rightarrow> fetch_request \<Rightarrow> ('s fetch_response \<Rightarrow> go_error + 'a) \<Rightarrow> ('n, 'a) imap_op" where
  "fetch_call env request judge st =
     (case client_call (\<lambda>n. case ic_Fetch env request n of (resp, ios, n') \<Rightarrow> (judge resp, ios, n')) st of
        (Inl e, st') \<Rightarrow> (Inl e, close_conn st')
      | (Inr x, st') \<Rightarrow> (Inr x, st'))"

definition budgeted_fetch :: "('n, 's) imap_commands \<Rightarrow> int \<Rightarrow> fetch_request \<Rightarrow> ('s fetch_response \<Rightarrow> go_error + 'a) \<Rightarrow> ('n, 'a) imap_op" where
  "budgeted_fetch env limit request judge = withBoundedInput env limit (fetch_call env request judge)"

section \<open>Metadata of many messages\<close>

definition metadata_item :: "mime_env \<Rightarrow> (bytes \<Rightarrow> (int \<times> bytes) option) \<Rightarrow> int \<Rightarrow> 's fetch_item \<Rightarrow>
    MessageMetadata \<times> nat \<times> nat \<times> nat \<Rightarrow> go_error + MessageMetadata \<times> nat \<times> nat \<times> nat" where
  "metadata_item env parse_date limit it x = (case x of (item, uidItems, flagsItems, bodySections) \<Rightarrow>
     (case it of
        FetchUID uid \<Rightarrow> if uidItems \<noteq> 0 \<or> uid = 0 then Inl protocol
          else Inr (item\<lparr>m_uid := uid\<rparr>, uidItems + 1, flagsItems, bodySections)
      | FetchFlags flags \<Rightarrow> if flagsItems \<noteq> 0 then Inl protocol
          else Inr (item\<lparr>m_ReadState := metadataReadState flags\<rparr>, uidItems, flagsItems + 1, bodySections)
      | FetchRFC822Size n \<Rightarrow> Inr (item\<lparr>m_Size := n\<rparr>, uidItems, flagsItems, bodySections)
      | FetchBodySection literal match \<Rightarrow>
          (case literal of
             None \<Rightarrow> Inl protocol
           | Some l \<Rightarrow> if \<not> match \<or> bodySections \<noteq> 0 then Inl protocol
               else (case readBoundedLiteral l limit of
                   Inl e \<Rightarrow> Inl e
                 | Inr header \<Rightarrow> (case me_ReadMessage env header of
                     None \<Rightarrow> Inl protocol
                   | Some (parsed, _) \<Rightarrow> Inr (applyHeaderMetadata env parse_date parsed item, uidItems, flagsItems, bodySections + 1))))
      | _ \<Rightarrow> Inr (item, uidItems, flagsItems, bodySections)))"

definition metadata_message :: "mime_env \<Rightarrow> (bytes \<Rightarrow> (int \<times> bytes) option) \<Rightarrow> int \<Rightarrow> 's fetch_item list \<Rightarrow>
    MessageMetadata list \<Rightarrow> go_error + MessageMetadata list" where
  "metadata_message env parse_date limit items results =
     (case fold_items (metadata_item env parse_date limit) items (zeroMetadata, 0, 0, 0) of
        Inl e \<Rightarrow> Inl e
      | Inr (item, uidItems, flagsItems, bodySections) \<Rightarrow>
          if uidItems \<noteq> 1 \<or> m_uid item = 0 \<or> bodySections \<noteq> 1 then Inl protocol else Inr (results @ [item]))"

definition judge_metadata :: "mime_env \<Rightarrow> (bytes \<Rightarrow> (int \<times> bytes) option) \<Rightarrow> int \<Rightarrow> uint32 list \<Rightarrow> 's fetch_response \<Rightarrow>
    go_error + MessageMetadata list" where
  "judge_metadata env parse_date limit uids resp =
     (case fold_items (metadata_message env parse_date limit) (fr_messages resp) [] of
        Inl e \<Rightarrow> Inl e
      | Inr results \<Rightarrow> (case fr_close resp of
          Some e \<Rightarrow> Inl e
        | None \<Rightarrow> (case validateFetchedMetadataUIDs uids results of
            Some c \<Rightarrow> Inl (BridgeError c)
          | None \<Rightarrow> Inr results)))"

definition session_UIDFetchMetadata :: "('n, 's) imap_commands \<Rightarrow> mime_env \<Rightarrow> (bytes \<Rightarrow> (int \<times> bytes) option) \<Rightarrow>
    uint32 list \<Rightarrow> int \<Rightarrow> ('n, MessageMetadata list) imap_op" where
  "session_UIDFetchMetadata env mime parse_date uids headerLimit st =
     (if uids = [] then (Inr [], st)
      else if headerLimit < 1 then (Inl (BridgeError CodeBoundsExceeded), st)
      else if 0 \<in> set uids then (Inl protocol, st)
      else budgeted_fetch env (fetchInputBudget headerLimit (int (length uids))) (RequestHeaders uids)
        (judge_metadata mime parse_date headerLimit uids) st)"

section \<open>One message\<close>

text \<open>The frame the three single-message reads share: one message, its items folded, then a check.\<close>

definition judge_single :: "('s fetch_item \<Rightarrow> 'a \<Rightarrow> go_error + 'a) \<Rightarrow> 'a \<Rightarrow> ('a \<Rightarrow> 'b option) \<Rightarrow> 's fetch_response \<Rightarrow> go_error + 'b" where
  "judge_single f a accept resp = (case fr_messages resp of
      [] \<Rightarrow> (case fr_close resp of Some e \<Rightarrow> Inl e | None \<Rightarrow> Inl protocol)
    | m # ms \<Rightarrow> (case fold_items f m a of
        Inl e \<Rightarrow> Inl e
      | Inr a' \<Rightarrow> if ms \<noteq> [] then Inl protocol
          else (case accept a' of None \<Rightarrow> Inl protocol | Some x \<Rightarrow> close_result resp x)))"

definition body_item :: "uint32 \<Rightarrow> int \<Rightarrow> 's fetch_item \<Rightarrow> bytes option \<times> nat \<times> nat \<Rightarrow> go_error + bytes option \<times> nat \<times> nat" where
  "body_item uid limit it x = (case x of (body, uidItems, bodySections) \<Rightarrow>
     (case it of
        FetchUID u \<Rightarrow> if uidItems \<noteq> 0 \<or> u \<noteq> uid then Inl protocol else Inr (body, uidItems + 1, bodySections)
      | FetchBodySection literal match \<Rightarrow>
          (case literal of
             None \<Rightarrow> Inl protocol
           | Some l \<Rightarrow> if \<not> match \<or> bodySections \<noteq> 0 then Inl protocol
               else (case readBoundedLiteral l limit of
                   Inl e \<Rightarrow> Inl e
                 | Inr b \<Rightarrow> Inr (Some b, uidItems, bodySections + 1)))
      | _ \<Rightarrow> Inr (body, uidItems, bodySections)))"

definition session_UIDFetchBody :: "('n, 's) imap_commands \<Rightarrow> uint32 \<Rightarrow> int \<Rightarrow> ('n, bytes) imap_op" where
  "session_UIDFetchBody env uid limit st =
     (if uid = 0 \<or> limit < 1 then (Inl (BridgeError CodeBoundsExceeded), st)
      else budgeted_fetch env (fetchInputBudget limit 1) (RequestBody uid (limit + 1))
        (judge_single (body_item uid limit) (None, 0, 0)
          (\<lambda>(body, uidItems, bodySections). if bodySections \<noteq> 1 \<or> uidItems \<noteq> 1 then None else body)) st)"

definition header_item :: "uint32 \<Rightarrow> int \<Rightarrow> 's fetch_item \<Rightarrow> MessageMetadata \<times> bytes \<times> nat \<times> nat \<times> nat \<Rightarrow>
    go_error + MessageMetadata \<times> bytes \<times> nat \<times> nat \<times> nat" where
  "header_item uid limit it x = (case x of (item, header, uidItems, flagsItems, bodySections) \<Rightarrow>
     (case it of
        FetchUID u \<Rightarrow> if uidItems \<noteq> 0 \<or> u \<noteq> uid then Inl protocol
          else Inr (item, header, uidItems + 1, flagsItems, bodySections)
      | FetchFlags flags \<Rightarrow> if flagsItems \<noteq> 0 then Inl protocol
          else Inr (item\<lparr>m_ReadState := metadataReadState flags\<rparr>, header, uidItems, flagsItems + 1, bodySections)
      | FetchRFC822Size n \<Rightarrow> Inr (item\<lparr>m_Size := n\<rparr>, header, uidItems, flagsItems, bodySections)
      | FetchBodySection literal match \<Rightarrow>
          (case literal of
             None \<Rightarrow> Inl protocol
           | Some l \<Rightarrow> if \<not> match \<or> bodySections \<noteq> 0 then Inl protocol
               else (case readBoundedLiteral l limit of
                   Inl e \<Rightarrow> Inl e
                 | Inr h \<Rightarrow> Inr (item, h, uidItems, flagsItems, bodySections + 1)))
      | _ \<Rightarrow> Inr (item, header, uidItems, flagsItems, bodySections)))"

definition header_failure :: "header_error \<Rightarrow> go_error" where
  "header_failure e = (case e of HeaderProtocol \<Rightarrow> protocol | HeaderNormalize _ \<Rightarrow> NormalizeError_Malformed_Header)"

definition session_UIDFetchHeaders :: "('n, 's) imap_commands \<Rightarrow> mime_env \<Rightarrow> (bytes \<Rightarrow> (int \<times> bytes) option) \<Rightarrow>
    uint32 \<Rightarrow> int \<Rightarrow> ('n, MessageHeaders) imap_op" where
  "session_UIDFetchHeaders env mime parse_date uid headerLimit st =
     (if uid = 0 \<or> headerLimit < 1 then (Inl (BridgeError CodeBoundsExceeded), st)
      else and_check
        (budgeted_fetch env (fetchInputBudget headerLimit 1) (RequestHeaders [uid])
          (judge_single (header_item uid headerLimit) (zeroMetadata, [], 0, 0, 0)
            (\<lambda>(item, header, uidItems, flagsItems, bodySections).
               if uidItems \<noteq> 1 \<or> bodySections \<noteq> 1 then None else Some (item, header))))
        (\<lambda>(item, header). case selectedHeaderRecord mime parse_date (item\<lparr>m_uid := uid\<rparr>) header headerLimit of
            Inl e \<Rightarrow> Inl (header_failure e)
          | Inr r \<Rightarrow> Inr r) st)"

definition structure_item :: "uint32 \<Rightarrow> 's fetch_item \<Rightarrow> 's option \<times> nat \<times> nat \<Rightarrow> go_error + 's option \<times> nat \<times> nat" where
  "structure_item uid it x = (case x of (structure, uidItems, flagsItems) \<Rightarrow>
     (case it of
        FetchUID u \<Rightarrow> if uidItems \<noteq> 0 \<or> u \<noteq> uid then Inl protocol else Inr (structure, uidItems + 1, flagsItems)
      | FetchFlags flags \<Rightarrow> if flagsItems \<noteq> 0 then Inl protocol else Inr (structure, uidItems, flagsItems + 1)
      | FetchBodyStructure extended s \<Rightarrow> if structure \<noteq> None \<or> \<not> extended \<or> s = None then Inl protocol
          else Inr (s, uidItems, flagsItems)
      | _ \<Rightarrow> Inl protocol))"

definition fetchUIDStructure :: "('n, 's) imap_commands \<Rightarrow> uint32 \<Rightarrow> ('n, 's) imap_op" where
  "fetchUIDStructure env uid = budgeted_fetch env (int quarantineSessionBytes) (RequestStructure uid)
     (judge_single (structure_item uid) (None, 0, 0)
       (\<lambda>(structure, uidItems, flagsItems). if uidItems \<noteq> 1 then None else structure))"

section \<open>What an accepted response was\<close>

lemma budgeted_fetch_Inr:
  assumes "budgeted_fetch env limit request judge st = (Inr x, st')"
  shows "judge (fst (ic_Fetch env request (is_net st))) = Inr x"
proof -
  define st1 where "st1 = (case ic_deadline env of None \<Rightarrow> st | Some d \<Rightarrow> st\<lparr>is_conn := setLimit (Some d) (is_conn st)\<rparr>)"
  define st2 where "st2 = st1\<lparr>is_budget := begin_budget limit (is_budget st1)\<rparr>"
  have n: "is_net st2 = is_net st" by (simp add: st2_def st1_def split: option.split)
  obtain r st3 where r: "fetch_call env request judge st2 = (r, st3)" by (metis prod.exhaust)
  have "r = Inr x"
    using assms
    by (cases r) (auto simp: budgeted_fetch_def withBoundedInput_def withContext_def st1_def [symmetric] withInputBudget_def
      st2_def [symmetric] r Let_def split: prod.splits sum.splits if_splits)
  with r n show ?thesis
    by (auto simp: fetch_call_def client_call_def split: prod.splits sum.splits)
qed

lemma judge_single_Inr:
  "judge_single f a accept resp = Inr x \<Longrightarrow>
     \<exists>m a'. fr_messages resp = [m] \<and> fold_items f m a = Inr a' \<and> accept a' = Some x \<and> fr_close resp = None"
  by (auto simp: judge_single_def close_result_def split: list.splits option.splits sum.splits if_splits)

lemma readBoundedLiteral_Inr:
  "readBoundedLiteral l limit = Inr b \<longleftrightarrow>
     fst l \<le> limit \<and> fst l \<le> int (length (fst (snd l))) \<and> b = take (nat (fst l)) (fst (snd l))"
  by (auto simp: readBoundedLiteral_def split: prod.splits option.splits)

lemma fold_items_Cons:
  "fold_items f (i # is) a = Inr x \<longleftrightarrow> (\<exists>a'. f i a = Inr a' \<and> fold_items f is a' = Inr x)"
  by (auto split: sum.split)

declare fold_items.simps(2) [simp del]
declare fold_items_Cons [simp]

lemma body_items:
  "fold_items (body_item uid limit) m (b0, u0, s0) = Inr (b, u, s) \<Longrightarrow>
     u = u0 + length (filter is_FetchUID m) \<and> s = s0 + length (filter is_FetchBodySection m) \<and>
     (\<forall>i \<in> set (filter is_FetchUID m). i = FetchUID uid) \<and> (u0 \<noteq> 0 \<longrightarrow> filter is_FetchUID m = []) \<and>
     (s0 \<noteq> 0 \<longrightarrow> filter is_FetchBodySection m = []) \<and>
     (filter is_FetchBodySection m = [] \<longrightarrow> b = b0) \<and>
     (\<forall>i. filter is_FetchBodySection m = [i] \<longrightarrow> (\<exists>l b'. i = FetchBodySection (Some l) True \<and>
        readBoundedLiteral l limit = Inr b' \<and> b = Some b'))"
proof (induction m arbitrary: b0 u0 s0)
  case (Cons i m)
  then obtain b1 u1 s1 where i: "body_item uid limit i (b0, u0, s0) = Inr (b1, u1, s1)"
    and m: "fold_items (body_item uid limit) m (b1, u1, s1) = Inr (b, u, s)" by auto
  note ih = Cons.IH [OF m]
  show ?case
  proof (cases i)
    case (FetchUID u')
    with i have "u0 = 0" "u' = uid" "b1 = b0" "u1 = 1" "s1 = s0" by (auto simp: body_item_def split: if_splits)
    with ih FetchUID show ?thesis by simp
  next
    case (FetchBodySection literal match)
    with i obtain l b' where l: "literal = Some l" "match" "s0 = 0" "readBoundedLiteral l limit = Inr b'"
      "b1 = Some b'" "u1 = u0" "s1 = 1" by (auto simp: body_item_def split: option.splits sum.splits if_splits)
    with ih FetchBodySection show ?thesis by (cases l) simp
  next
    case (FetchFlags f)
    with i ih show ?thesis by (simp add: body_item_def)
  next
    case (FetchRFC822Size n)
    with i ih show ?thesis by (simp add: body_item_def)
  next
    case (FetchBodyStructure e s')
    with i ih show ?thesis by (simp add: body_item_def)
  next
    case FetchOther
    with i ih show ?thesis by (simp add: body_item_def)
  qed
qed simp

lemma single_of_length: "length xs = 1 \<Longrightarrow> \<exists>x. xs = [x]"
  by (simp add: length_Suc_conv)

text \<open>
  C36. A body is only returned for a response of one message that names the UID asked for, exactly once,
  and carries exactly one literal of the section asked for, no longer than the limit and read in full,
  with the command completed without an error.
\<close>

theorem UIDFetchBody_exact:
  assumes "session_UIDFetchBody env uid limit st = (Inr body, st')"
  shows "let resp = fst (ic_Fetch env (RequestBody uid (limit + 1)) (is_net st)) in
    \<exists>m announced content e. fr_messages resp = [m] \<and> fr_close resp = None \<and> filter is_FetchUID m = [FetchUID uid] \<and>
      filter is_FetchBodySection m = [FetchBodySection (Some (announced, (content, e))) True] \<and>
      announced \<le> limit \<and> announced \<le> int (length content) \<and> body = take (nat announced) content"
proof -
  define resp where "resp = fst (ic_Fetch env (RequestBody uid (limit + 1)) (is_net st))"
  have "budgeted_fetch env (fetchInputBudget limit 1) (RequestBody uid (limit + 1))
        (judge_single (body_item uid limit) (None, 0, 0)
          (\<lambda>(body, uidItems, bodySections). if bodySections \<noteq> 1 \<or> uidItems \<noteq> 1 then None else body)) st = (Inr body, st')"
    using assms by (simp add: session_UIDFetchBody_def split: if_splits)
  from judge_single_Inr [OF budgeted_fetch_Inr [OF this], folded resp_def]
  obtain m b u s where m: "fr_messages resp = [m]" "fr_close resp = None"
    "fold_items (body_item uid limit) m (None, 0, 0) = Inr (b, u, s)" "s = 1" "u = 1" "b = Some body"
    by (auto split: if_splits)
  note items = body_items [OF m(3)]
  from items m(4,5) obtain i j where ij: "filter is_FetchUID m = [i]" "filter is_FetchBodySection m = [j]"
    using single_of_length [of "filter is_FetchUID m"] single_of_length [of "filter is_FetchBodySection m"] by auto
  with items m(6) obtain l where "i = FetchUID uid" "j = FetchBodySection (Some l) True" "readBoundedLiteral l limit = Inr body"
    by auto
  with m(1,2) ij show ?thesis unfolding Let_def resp_def [symmetric]
    by (cases l) (auto simp: readBoundedLiteral_Inr)
qed

section \<open>Metadata\<close>

lemma metadata_items:
  "fold_items (metadata_item env pd limit) m (it0, u0, f0, s0) = Inr (it, u, f, s) \<Longrightarrow>
     u = u0 + length (filter is_FetchUID m) \<and> (u0 \<noteq> 0 \<longrightarrow> filter is_FetchUID m = []) \<and>
     (filter is_FetchUID m = [] \<longrightarrow> m_uid it = m_uid it0) \<and>
     (\<forall>i. filter is_FetchUID m = [i] \<longrightarrow> i = FetchUID (m_uid it))"
proof (induction m arbitrary: it0 u0 f0 s0)
  case (Cons i m)
  then obtain it1 u1 f1 s1 where i: "metadata_item env pd limit i (it0, u0, f0, s0) = Inr (it1, u1, f1, s1)"
    and m: "fold_items (metadata_item env pd limit) m (it1, u1, f1, s1) = Inr (it, u, f, s)" by auto
  note ih = Cons.IH [OF m]
  have header: "m_uid (applyHeaderMetadata env pd h x) = m_uid x" for h x
    by (simp add: applyHeaderMetadata_def split: prod.split)
  show ?case
  proof (cases i)
    case (FetchUID u')
    with i have "u0 = 0" "it1 = it0\<lparr>m_uid := u'\<rparr>" "u1 = 1" by (auto simp: metadata_item_def split: if_splits)
    with ih FetchUID show ?thesis by simp
  next
    case (FetchBodySection literal match)
    with i obtain h where "it1 = applyHeaderMetadata env pd h it0" "u1 = u0"
      by (auto simp: metadata_item_def split: option.splits sum.splits if_splits)
    with ih FetchBodySection header show ?thesis by simp
  next
    case (FetchFlags f)
    with i have "it1 = it0\<lparr>m_ReadState := metadataReadState f\<rparr>" "u1 = u0" by (auto simp: metadata_item_def split: if_splits)
    with ih FetchFlags show ?thesis by simp
  next
    case (FetchRFC822Size n)
    with i ih show ?thesis by (auto simp: metadata_item_def)
  next
    case (FetchBodyStructure e s')
    with i ih show ?thesis by (simp add: metadata_item_def)
  next
    case FetchOther
    with i ih show ?thesis by (simp add: metadata_item_def)
  qed
qed simp

definition from_message :: "'s fetch_item list \<Rightarrow> MessageMetadata \<Rightarrow> bool" where
  "from_message m r \<longleftrightarrow> filter is_FetchUID m = [FetchUID (m_uid r)]"

lemma metadata_messages:
  "fold_items (metadata_message env pd limit) ms rs0 = Inr rs \<Longrightarrow>
     \<exists>new. rs = rs0 @ new \<and> list_all2 from_message ms new"
proof (induction ms arbitrary: rs0)
  case (Cons m ms)
  then obtain rs1 where one: "metadata_message env pd limit m rs0 = Inr rs1"
    and "fold_items (metadata_message env pd limit) ms rs1 = Inr rs" by auto
  moreover from one obtain it u f s where
    i: "fold_items (metadata_item env pd limit) m (zeroMetadata, 0, 0, 0) = Inr (it, u, f, s)" and u: "u = 1" "rs1 = rs0 @ [it]"
    by (auto simp: metadata_message_def split: sum.splits if_splits)
  ultimately have rest: "fold_items (metadata_message env pd limit) ms (rs0 @ [it]) = Inr rs" by simp
  have "from_message m it"
    using metadata_items [OF i] u single_of_length [of "filter is_FetchUID m"] by (auto simp: from_message_def)
  with Cons.IH [OF rest] show ?case by auto
qed simp

text \<open>
  The metadata of a batch is only returned when the response answered for every UID asked for exactly
  once and for no other: every message named one UID, the records carry these UIDs in the order of the
  response, and as a collection they are the UIDs of the request.
\<close>

theorem UIDFetchMetadata_exact:
  assumes "session_UIDFetchMetadata env mime parse_date uids limit st = (Inr results, st')" and "uids \<noteq> []"
  shows "distinct uids \<and> mset (map m_uid results) = mset uids \<and>
    list_all2 from_message (fr_messages (fst (ic_Fetch env (RequestHeaders uids) (is_net st)))) results"
proof -
  define resp where "resp = fst (ic_Fetch env (RequestHeaders uids) (is_net st))"
  have "budgeted_fetch env (fetchInputBudget limit (int (length uids))) (RequestHeaders uids)
        (judge_metadata mime parse_date limit uids) st = (Inr results, st')"
    using assms by (simp add: session_UIDFetchMetadata_def split: if_splits)
  from budgeted_fetch_Inr [OF this, folded resp_def]
  have r: "fold_items (metadata_message mime parse_date limit) (fr_messages resp) [] = Inr results"
    "validateFetchedMetadataUIDs uids results = None"
    by (auto simp: judge_metadata_def split: sum.splits option.splits)
  have v: "distinct uids" "distinct (map m_uid results)" "set (map m_uid results) = set uids"
    using validate_None [OF r(2)] by blast+
  have "mset (map m_uid results) = mset uids"
    using set_eq_iff_mset_eq_distinct [OF v(2,1)] v(3) by blast
  with v(1) metadata_messages [OF r(1)] show ?thesis
    unfolding resp_def [symmetric] by simp
qed

section \<open>A session between its commands\<close>

lemma op_ok_fetch [op_intros]: "op_ok (fetch_call env request judge)"
  unfolding fetch_call_def by (intro op_intros)

lemma idle_fetch [idle_intros]: "keeps_idle (budgeted_fetch env limit request judge)"
  unfolding budgeted_fetch_def by (intro idle_intros op_intros)

lemma idle_check [idle_intros]: "keeps_idle f \<Longrightarrow> keeps_idle (and_check f check)"
proof -
  assume f: "keeps_idle f"
  have "keeps_idle (\<lambda>st. case f st of (Inl e, st') \<Rightarrow> (Inl e, st') | (Inr x, st') \<Rightarrow> (check x, st'))"
    by (intro idle_intros f)
  then show ?thesis by (simp add: and_check_def [abs_def])
qed

lemma idle_fetches [idle_intros]:
  "keeps_idle (session_UIDFetchMetadata env mime pd uids limit)" "keeps_idle (session_UIDFetchBody env uid limit)"
  "keeps_idle (session_UIDFetchHeaders env mime pd uid limit)" "keeps_idle (fetchUIDStructure env uid)"
  unfolding session_UIDFetchMetadata_def session_UIDFetchBody_def session_UIDFetchHeaders_def fetchUIDStructure_def
  by (intro idle_intros)+

datatype session_cmd =
    CmdAuthenticate bytes bytes
  | CmdList int
  | CmdListMailboxes bytes int
  | CmdStatus bytes
  | CmdExamine bytes
  | CmdSelectSource bytes
  | CmdSearchWindow SearchQuery uidWindow int
  | CmdFetchMetadata "uint32 list" int
  | CmdFetchBody uint32 int
  | CmdFetchHeaders uint32 int
  | CmdFetchStructure uint32
  | CmdStoreSeen uint32 bool
  | CmdMove uint32 bytes
  | CmdLogout
  | CmdAbort
  | Background "io list"

text \<open>
  \<open>Background\<close> is what the client's own goroutine reads and writes between commands. The environments are
  those of the command: its context and go-imap's answers differ from one to the next.
\<close>

fun run_cmd :: "('n, 's) imap_commands \<Rightarrow> mime_env \<Rightarrow> (bytes \<Rightarrow> (int \<times> bytes) option) \<Rightarrow> (go_error \<Rightarrow> bool) \<Rightarrow>
    session_cmd \<Rightarrow> 'n imap_state \<Rightarrow> 'n imap_state" where
  "run_cmd env mime pd is_no (CmdAuthenticate u p) st = snd (session_Authenticate env is_no u p st)"
| "run_cmd env mime pd is_no (CmdList limit) st = snd (session_List env limit st)"
| "run_cmd env mime pd is_no (CmdListMailboxes pattern limit) st = snd (session_ListMailboxes env pattern limit st)"
| "run_cmd env mime pd is_no (CmdStatus m) st = snd (session_Status env m st)"
| "run_cmd env mime pd is_no (CmdExamine m) st = snd (session_Examine env m st)"
| "run_cmd env mime pd is_no (CmdSelectSource m) st = snd (session_SelectSource env m st)"
| "run_cmd env mime pd is_no (CmdSearchWindow q w limit) st = snd (session_UIDSearchWindow env q w limit st)"
| "run_cmd env mime pd is_no (CmdFetchMetadata uids limit) st = snd (session_UIDFetchMetadata env mime pd uids limit st)"
| "run_cmd env mime pd is_no (CmdFetchBody uid limit) st = snd (session_UIDFetchBody env uid limit st)"
| "run_cmd env mime pd is_no (CmdFetchHeaders uid limit) st = snd (session_UIDFetchHeaders env mime pd uid limit st)"
| "run_cmd env mime pd is_no (CmdFetchStructure uid) st = snd (fetchUIDStructure env uid st)"
| "run_cmd env mime pd is_no (CmdStoreSeen uid seen) st = snd (session_StoreSeen env uid seen st)"
| "run_cmd env mime pd is_no (CmdMove uid d) st = snd (session_MoveUID env uid d st)"
| "run_cmd env mime pd is_no CmdLogout st = snd (session_Logout env st)"
| "run_cmd env mime pd is_no CmdAbort st = session_Abort st"
| "run_cmd env mime pd is_no (Background ios) st = run_io ios st"

text \<open>\<open>E\<close> says which environments a command may meet.\<close>

inductive imap_history :: "(('n, 's) imap_commands \<Rightarrow> bool) \<Rightarrow> 'n imap_state \<Rightarrow> bool" for E where
  opened: "E env \<Longrightarrow> newIMAPSessionOver env n = (Inr st, st') \<Longrightarrow> imap_history E st"
| command: "imap_history E st \<Longrightarrow> E env \<Longrightarrow> imap_history E (run_cmd env mime pd is_no cmd st)"

lemma idle_new: "layers_idle (new_imap_state n)"
  by (simp add: new_imap_state_def layers_idle_def newReadBudgetConn_def budget_shape_def)

lemma idle_background: "layers_idle st \<Longrightarrow> layers_idle (run_io ios st)"
  by (simp add: run_io_split layers_idle_def read_steps_shape)

lemma idle_cmd: "layers_idle st \<Longrightarrow> layers_idle (run_cmd env mime pd is_no cmd st)"
proof -
  assume i: "layers_idle st"
  have k: "keeps_idle f \<Longrightarrow> layers_idle (snd (f st))" for f :: "('a, 'x) imap_op"
    using i by (simp add: keeps_idle_def)
  have abort: "layers_idle (close_conn st)" using i by (simp add: layers_idle_def close_conn_def)
  show ?thesis
    by (cases cmd) (auto intro!: k abort idle_intros idle_background i simp del: One_nat_def simp: session_Abort_def)
qed

text \<open>
  Between its commands a session never keeps a deadline of an earlier context, an armed dispatch guard,
  an open search or an unbudgeted read: whatever the commands, their contexts and the server's answers, and
  whatever the client does in the background, the read budget stays in force with its idle limit.
\<close>

theorem session_idle_between_commands:
  assumes "imap_history E st"
  shows "deadline (is_conn st) = None \<and> conn_read (is_conn st) = None \<and> conn_write (is_conn st) = None \<and>
    \<not> armed (is_guard st) \<and> active (is_budget st) \<and> \<not> searchActive (is_budget st) \<and>
    idleLimit (is_budget st) = maxControlResponseBytes"
proof -
  from assms have "layers_idle st"
  proof (induction rule: imap_history.induct)
    case (opened env n st st')
    then show ?case
      using keeps_idleD [OF idle_start idle_new] by (auto simp: newIMAPSessionOver_def split: prod.splits sum.splits)
  next
    case (command st env mime pd is_no cmd)
    then show ?case using idle_cmd by blast
  qed
  then show ?thesis by (auto simp: layers_idle_def budget_shape_def)
qed

text \<open>A mail parser that finds no header in anything.\<close>

definition plain_mime :: mime_env where
  "plain_mime = \<lparr>me_ReadMessage = (\<lambda>b. Some (\<lambda>k. [], (b, None))), me_ParseMediaType = (\<lambda>v. None), me_Parts = (\<lambda>b r. ([], False)),
     me_base64_string = (\<lambda>b. False), me_base64 = (\<lambda>r. r), me_quotedprintable = (\<lambda>r. r), me_charset = (\<lambda>c. None),
     me_DecodeHeader = Some, me_html_Parse = (\<lambda>b. None)\<rparr>"

lemma session_idle_between_commands_witness:
  "\<exists>st. newIMAPSessionOver chatty_client () = (Inr st, st) \<and>
     \<not> armed (is_guard (run_cmd chatty_client plain_mime (\<lambda>b. None) (\<lambda>e. False) (CmdMove 7 ''Archive'') st))"
proof -
  obtain st where st: "newIMAPSessionOver chatty_client () = (Inr st, st)"
    by (simp add: newIMAPSessionOver_def startClient_def withBoundedInput_def withContext_def withInputBudget_def
      client_call_def chatty_client_def waitForCapabilities_def end_budget_def begin_budget_def new_imap_state_def
      newReadBudgetConn_def clearLimit_def)
  have "imap_history (\<lambda>env. env = chatty_client)
      (run_cmd chatty_client plain_mime (\<lambda>b. None) (\<lambda>e. False) (CmdMove 7 ''Archive'') st)"
    by (rule imap_history.command [OF imap_history.opened [OF refl st] refl])
  from session_idle_between_commands [OF this] st show ?thesis by blast
qed

section \<open>An exchange\<close>

definition fetching_client :: "fetch_request \<Rightarrow> unit fetch_response \<Rightarrow> (unit, unit) imap_commands" where
  "fetching_client request resp = chatty_client\<lparr>ic_Fetch := (\<lambda>q n. (if q = request then resp else \<lparr>fr_messages = [], fr_close = None\<rparr>,
     [IORead (Polled 512)], n))\<rparr>"

lemma UIDFetchBody_exact_witness:
  "session_UIDFetchBody (fetching_client (RequestBody 7 9)
       \<lparr>fr_messages = [[FetchUID 7, FetchBodySection (Some (5, (''hello'', None))) True]], fr_close = None\<rparr>) 7 8 (new_imap_state ()) =
     (Inr ''hello'', snd (session_UIDFetchBody (fetching_client (RequestBody 7 9)
       \<lparr>fr_messages = [[FetchUID 7, FetchBodySection (Some (5, (''hello'', None))) True]], fr_close = None\<rparr>) 7 8 (new_imap_state ())))
   \<and> (\<exists>announced content. announced \<le> (8 :: int) \<and> ''hello'' = take (nat announced) content)"
  (is "?run \<and> ?rest")
proof
  show run: ?run by code_simp
  from UIDFetchBody_exact [OF run] show ?rest by (metis (no_types, lifting))
qed

definition two_headers :: "unit fetch_response" where
  "two_headers = \<lparr>fr_messages = [[FetchUID 9, FetchBodySection (Some (0, ([], None))) True],
     [FetchFlags [''Seen''], FetchBodySection (Some (0, ([], None))) True, FetchUID 7]], fr_close = None\<rparr>"

lemma UIDFetchMetadata_exact_witness:
  "\<exists>results. fst (session_UIDFetchMetadata (fetching_client (RequestHeaders [7, 9]) two_headers) plain_mime (\<lambda>b. None) [7, 9] 100
       (new_imap_state ())) = Inr results \<and> mset (map m_uid results) = {#7, 9#}"
proof -
  let ?run = "session_UIDFetchMetadata (fetching_client (RequestHeaders [7, 9]) two_headers) plain_mime (\<lambda>b. None) [7, 9] 100
       (new_imap_state ())"
  have "(case fst ?run of Inl e \<Rightarrow> False | Inr rs \<Rightarrow> True)" by code_simp
  then obtain results st where run: "?run = (Inr results, st)"
    by (cases ?run) (auto split: sum.splits)
  from UIDFetchMetadata_exact [OF run] run show ?thesis by simp
qed

end
