(* ===== verification/Strict_JSON.thy ===== *)
theory Strict_JSON
  imports Mime_Text
begin

text \<open>
  The bounded, unambiguous JSON of \<^verbatim>\<open>internal/strictjson\<close>. Go's \<^verbatim>\<open>json.Decoder\<close> is the environment: a
  decoder over some bytes is the list of tokens \<^verbatim>\<open>Token\<close> returns, and whether they end at the end of the
  input or at a syntax error. \<^verbatim>\<open>strings.EqualFold\<close> is the argument \<open>fold_eq\<close>.
\<close>

section \<open>Tokens\<close>

datatype json_token =
    OpenObject | CloseObject | OpenArray | CloseArray
  | StringTok bytes | NumberTok bytes | BoolTok bool | NullTok

type_synonym decoder = "json_token list \<times> bool"

abbreviation maxNestingDepth :: nat where "maxNestingDepth \<equiv> 32"

text \<open>\<^verbatim>\<open>decoder.More()\<close>: some byte follows that closes nothing; \<open>clean\<close> tells the end from an error.\<close>

definition more_tokens :: "bool \<Rightarrow> json_token list \<Rightarrow> bool" where
  "more_tokens clean ts = (case ts of [] \<Rightarrow> \<not> clean | t # _ \<Rightarrow> t \<noteq> CloseObject \<and> t \<noteq> CloseArray)"

record strictness =
  rejectNull :: bool
  foldAliases :: bool

section \<open>The three consumers\<close>

text \<open>
  Each returns the tokens it leaves, or \<open>None\<close> for false. \<open>seen\<close> holds the keys of the object in order;
  it stands for both \<^verbatim>\<open>seen\<close> and \<^verbatim>\<open>foldedKeys\<close>. The first argument is fuel: every call consumes a token,
  so one more than the tokens is enough (\<open>validateObject_exact\<close>).
\<close>

fun consumeValue :: "(bytes \<Rightarrow> bytes \<Rightarrow> bool) \<Rightarrow> strictness \<Rightarrow> bool \<Rightarrow> nat \<Rightarrow> nat \<Rightarrow> json_token list \<Rightarrow> json_token list option"
  and consumeObject :: "(bytes \<Rightarrow> bytes \<Rightarrow> bool) \<Rightarrow> strictness \<Rightarrow> bool \<Rightarrow> nat \<Rightarrow> nat \<Rightarrow> bytes list \<Rightarrow> json_token list \<Rightarrow> json_token list option"
  and consumeArray :: "(bytes \<Rightarrow> bytes \<Rightarrow> bool) \<Rightarrow> strictness \<Rightarrow> bool \<Rightarrow> nat \<Rightarrow> nat \<Rightarrow> json_token list \<Rightarrow> json_token list option" where
  "consumeValue fold_eq s clean 0 depth ts = None"
| "consumeValue fold_eq s clean (Suc n) depth ts = (case ts of
      [] \<Rightarrow> None
    | t # rest \<Rightarrow>
        if rejectNull s \<and> t = NullTok then None
        else (case t of
            OpenObject \<Rightarrow> if maxNestingDepth < depth + 1 then None else consumeObject fold_eq s clean n (depth + 1) [] rest
          | OpenArray \<Rightarrow> if maxNestingDepth < depth + 1 then None else consumeArray fold_eq s clean n (depth + 1) rest
          | CloseObject \<Rightarrow> None
          | CloseArray \<Rightarrow> None
          | _ \<Rightarrow> Some rest))"
| "consumeObject fold_eq s clean 0 depth seen ts = None"
| "consumeObject fold_eq s clean (Suc n) depth seen ts =
     (if more_tokens clean ts then (case ts of
          StringTok key # rest \<Rightarrow>
            if key \<in> set seen then None
            else if foldAliases s \<and> list_ex (\<lambda>existing. fold_eq existing key) seen then None
            else (case consumeValue fold_eq s clean n depth rest of
                None \<Rightarrow> None
              | Some rest' \<Rightarrow> consumeObject fold_eq s clean n depth (seen @ [key]) rest')
        | _ \<Rightarrow> None)
      else (case ts of CloseObject # rest \<Rightarrow> Some rest | _ \<Rightarrow> None))"
| "consumeArray fold_eq s clean 0 depth ts = None"
| "consumeArray fold_eq s clean (Suc n) depth ts =
     (if more_tokens clean ts then (case consumeValue fold_eq s clean n depth ts of
          None \<Rightarrow> None
        | Some rest \<Rightarrow> consumeArray fold_eq s clean n depth rest)
      else (case ts of CloseArray # rest \<Rightarrow> Some rest | _ \<Rightarrow> None))"

section \<open>The validators and decoders\<close>

definition validateObject :: "(bytes \<Rightarrow> bytes \<Rightarrow> bool) \<Rightarrow> (bytes \<Rightarrow> decoder) \<Rightarrow> bytes \<Rightarrow> int \<Rightarrow> strictness \<Rightarrow> bool" where
  "validateObject fold_eq decoder data maximumBytes s =
     (if data = [] \<or> maximumBytes \<le> 0 \<or> maximumBytes < int (length data) then False
      else (case decoder data of (ts, clean) \<Rightarrow> (case ts of
          OpenObject # rest \<Rightarrow> consumeObject fold_eq s clean (length ts + 1) 1 [] rest = Some [] \<and> clean
        | _ \<Rightarrow> False)))"

definition validateArray :: "(bytes \<Rightarrow> bytes \<Rightarrow> bool) \<Rightarrow> (bytes \<Rightarrow> decoder) \<Rightarrow> bytes \<Rightarrow> int \<Rightarrow> bool" where
  "validateArray fold_eq decoder data maximumBytes =
     (if data = [] \<or> maximumBytes \<le> 0 \<or> maximumBytes < int (length data) then False
      else (case decoder data of (ts, clean) \<Rightarrow> (case ts of
          OpenArray # rest \<Rightarrow> consumeArray fold_eq \<lparr>rejectNull = False, foldAliases = True\<rparr> clean (length ts + 1) 1 rest = Some [] \<and> clean
        | _ \<Rightarrow> False)))"

definition ValidateObject :: "(bytes \<Rightarrow> bytes \<Rightarrow> bool) \<Rightarrow> (bytes \<Rightarrow> decoder) \<Rightarrow> bytes \<Rightarrow> int \<Rightarrow> bool" where
  "ValidateObject fold_eq decoder data maximumBytes =
     validateObject fold_eq decoder data maximumBytes \<lparr>rejectNull = False, foldAliases = False\<rparr>"

text \<open>
  \<^verbatim>\<open>decoder.Decode(target)\<close> with \<^verbatim>\<open>DisallowUnknownFields\<close> is the argument \<open>decode\<close>: the value and whether
  only the end of the input follows it.
\<close>

definition decodeExact :: "(bytes \<Rightarrow> ('a \<times> bool) option) \<Rightarrow> bytes \<Rightarrow> 'a option" where
  "decodeExact decode data = (case decode data of None \<Rightarrow> None | Some (v, at_end) \<Rightarrow> if at_end then Some v else None)"

definition DecodeObject :: "(bytes \<Rightarrow> bytes \<Rightarrow> bool) \<Rightarrow> (bytes \<Rightarrow> decoder) \<Rightarrow> (bytes \<Rightarrow> ('a \<times> bool) option) \<Rightarrow> bytes \<Rightarrow> int \<Rightarrow> 'a option" where
  "DecodeObject fold_eq decoder decode data0 maximumBytes =
     (let data = (if data0 = [] then ''{}'' else data0) in
      if \<not> validateObject fold_eq decoder data maximumBytes \<lparr>rejectNull = True, foldAliases = True\<rparr> then None
      else decodeExact decode data)"

definition DecodeArray :: "(bytes \<Rightarrow> bytes \<Rightarrow> bool) \<Rightarrow> (bytes \<Rightarrow> decoder) \<Rightarrow> (bytes \<Rightarrow> ('a \<times> bool) option) \<Rightarrow> bytes \<Rightarrow> int \<Rightarrow> 'a option" where
  "DecodeArray fold_eq decoder decode data maximumBytes =
     (if \<not> validateArray fold_eq decoder data maximumBytes then None else decodeExact decode data)"

definition DecodeValue :: "(bytes \<Rightarrow> bytes \<Rightarrow> bool) \<Rightarrow> (bytes \<Rightarrow> decoder) \<Rightarrow> (bytes \<Rightarrow> ('a \<times> bool) option) \<Rightarrow> bytes \<Rightarrow> int \<Rightarrow> 'a option" where
  "DecodeValue fold_eq decoder decode data maximumBytes = (case trim_space data of
      [] \<Rightarrow> None
    | c # _ \<Rightarrow>
        if c = CHR ''{''
        then (if validateObject fold_eq decoder data maximumBytes \<lparr>rejectNull = False, foldAliases = True\<rparr>
              then decodeExact decode data else None)
        else if c = CHR ''[''
        then (if validateArray fold_eq decoder data maximumBytes then decodeExact decode data else None)
        else None)"

section \<open>What is accepted\<close>

text \<open>The values, their tokens, and the rules a value has to keep at a depth.\<close>

datatype json = JNull | JBool bool | JNumber bytes | JString bytes | JArray "json list" | JObject "(bytes \<times> json) list"

fun render :: "json \<Rightarrow> json_token list" where
  "render JNull = [NullTok]"
| "render (JBool b) = [BoolTok b]"
| "render (JNumber n) = [NumberTok n]"
| "render (JString v) = [StringTok v]"
| "render (JArray vs) = OpenArray # concat (map render vs) @ [CloseArray]"
| "render (JObject ms) = OpenObject # concat (map (\<lambda>(k, v). StringTok k # render v) ms) @ [CloseObject]"

fun keys_ok :: "(bytes \<Rightarrow> bytes \<Rightarrow> bool) \<Rightarrow> strictness \<Rightarrow> bytes list \<Rightarrow> bytes list \<Rightarrow> bool" where
  "keys_ok fold_eq s seen [] = True"
| "keys_ok fold_eq s seen (k # ks) = (k \<notin> set seen \<and> \<not> (foldAliases s \<and> list_ex (\<lambda>existing. fold_eq existing k) seen) \<and>
     keys_ok fold_eq s (seen @ [k]) ks)"

fun strict :: "(bytes \<Rightarrow> bytes \<Rightarrow> bool) \<Rightarrow> strictness \<Rightarrow> nat \<Rightarrow> json \<Rightarrow> bool" where
  "strict fold_eq s d JNull = (\<not> rejectNull s)"
| "strict fold_eq s d (JArray vs) = (d < maxNestingDepth \<and> (\<forall>v \<in> set vs. strict fold_eq s (d + 1) v))"
| "strict fold_eq s d (JObject ms) = (d < maxNestingDepth \<and> keys_ok fold_eq s [] (map fst ms) \<and>
     (\<forall>m \<in> set ms. strict fold_eq s (d + 1) (snd m)))"
| "strict fold_eq s d _ = True"

lemma render_pos: "0 < length (render t)"
  by (cases t) simp_all

lemma render_head: "\<exists>h rest. render t = h # rest \<and> h \<noteq> CloseObject \<and> h \<noteq> CloseArray"
  by (cases t) simp_all

lemma more_render [simp]: "more_tokens clean (render t @ rest)"
  using render_head [of t] by (auto simp: more_tokens_def)

abbreviation members :: "(bytes \<times> json) list \<Rightarrow> json_token list" where
  "members ms \<equiv> concat (map (\<lambda>(k, v). StringTok k # render v) ms)"

lemma consume_members:
  assumes "\<And>m n rest. m \<in> set ms \<Longrightarrow> length (render (snd m)) \<le> n \<Longrightarrow>
      consumeValue fold_eq s clean n d (render (snd m) @ rest) = Some rest"
    and "keys_ok fold_eq s seen (map fst ms)" and "length (members ms) + 1 \<le> n"
  shows "consumeObject fold_eq s clean n d seen (members ms @ CloseObject # rest) = Some rest"
  using assms
proof (induction ms arbitrary: seen n)
  case Nil
  then obtain k where "n = Suc k" by (cases n) auto
  then show ?case by (simp add: more_tokens_def)
next
  case (Cons m ms)
  obtain key v where m: "m = (key, v)" by (cases m)
  obtain k where n: "n = Suc k" using Cons.prems(3) by (cases n) auto
  have "consumeValue fold_eq s clean k d (render v @ members ms @ CloseObject # rest) = Some (members ms @ CloseObject # rest)"
    using Cons.prems(1) [of m k "members ms @ CloseObject # rest"] Cons.prems(3) m n by simp
  moreover have "consumeObject fold_eq s clean k d (seen @ [key]) (members ms @ CloseObject # rest) = Some rest"
    using Cons.IH [of "seen @ [key]" k] Cons.prems m n by auto
  ultimately show ?case using Cons.prems(2) m n by (simp add: more_tokens_def)
qed

lemma consume_elements:
  assumes "\<And>v n rest. v \<in> set vs \<Longrightarrow> length (render v) \<le> n \<Longrightarrow>
      consumeValue fold_eq s clean n d (render v @ rest) = Some rest"
    and "length (concat (map render vs)) + 1 \<le> n"
  shows "consumeArray fold_eq s clean n d (concat (map render vs) @ CloseArray # rest) = Some rest"
  using assms
proof (induction vs arbitrary: n)
  case Nil
  then obtain k where "n = Suc k" by (cases n) auto
  then show ?case by (simp add: more_tokens_def)
next
  case (Cons v vs)
  obtain k where n: "n = Suc k" using Cons.prems(2) by (cases n) auto
  have k: "length (render v) \<le> k" "length (concat (map render vs)) + 1 \<le> k"
    using Cons.prems(2) render_pos [of v] n by (simp_all del: length_greater_0_conv)
  then show ?case
    using Cons.IH [of k] Cons.prems(1) n by simp
qed

lemma consume_render:
  "strict fold_eq s d t \<Longrightarrow> length (render t) \<le> n \<Longrightarrow> consumeValue fold_eq s clean n d (render t @ rest) = Some rest"
proof (induction fold_eq s d t arbitrary: n rest rule: strict.induct)
  case (2 fold_eq s d vs)
  then obtain k where n: "n = Suc k" by (cases n) auto
  have "consumeArray fold_eq s clean k (d + 1) (concat (map render vs) @ CloseArray # rest) = Some rest"
    using 2 n by (intro consume_elements) auto
  with 2(2) n show ?case by simp
next
  case (3 fold_eq s d ms)
  then obtain k where n: "n = Suc k" by (cases n) auto
  have "consumeObject fold_eq s clean k (d + 1) [] (members ms @ CloseObject # rest) = Some rest"
    using 3 n by (intro consume_members) auto
  with 3(2) n show ?case by simp
qed (case_tac [!] n, auto)

lemma consumed_render:
  "consumeValue fold_eq s clean n d ts = Some rest \<Longrightarrow> \<exists>t. ts = render t @ rest \<and> strict fold_eq s d t"
  "consumeObject fold_eq s clean n d seen ts = Some rest \<Longrightarrow> \<exists>ms. ts = members ms @ CloseObject # rest \<and>
     keys_ok fold_eq s seen (map fst ms) \<and> (\<forall>m \<in> set ms. strict fold_eq s d (snd m))"
  "consumeArray fold_eq s clean n d ts = Some rest \<Longrightarrow> \<exists>vs. ts = concat (map render vs) @ CloseArray # rest \<and>
     (\<forall>v \<in> set vs. strict fold_eq s d v)"
proof (induction fold_eq s clean n d ts and fold_eq s clean n d seen ts and fold_eq s clean n d ts
    arbitrary: rest and rest and rest rule: consumeValue_consumeObject_consumeArray.induct)
  case (2 fold_eq s clean n depth ts)
  then obtain t r where ts: "ts = t # r" and nn: "\<not> (rejectNull s \<and> t = NullTok)" by (auto split: list.splits if_splits)
  show ?case
  proof (cases t)
    case OpenObject
    then have d: "\<not> maxNestingDepth < depth + 1" and c: "consumeObject fold_eq s clean n (depth + 1) [] r = Some rest"
      using 2(3) ts by (auto split: if_splits)
    from 2(1) [OF ts nn OpenObject d c] obtain ms where "r = members ms @ CloseObject # rest"
      "keys_ok fold_eq s [] (map fst ms)" "\<forall>m \<in> set ms. strict fold_eq s (depth + 1) (snd m)" by blast
    with ts OpenObject d show ?thesis by (intro exI [of _ "JObject ms"]) simp
  next
    case OpenArray
    then have d: "\<not> maxNestingDepth < depth + 1" and c: "consumeArray fold_eq s clean n (depth + 1) r = Some rest"
      using 2(3) ts by (auto split: if_splits)
    from 2(2) [OF ts nn OpenArray d c] obtain vs where "r = concat (map render vs) @ CloseArray # rest"
      "\<forall>v \<in> set vs. strict fold_eq s (depth + 1) v" by blast
    with ts OpenArray d show ?thesis by (intro exI [of _ "JArray vs"]) simp
  next
    case (StringTok v)
    with 2(3) ts show ?thesis by (intro exI [of _ "JString v"]) simp
  next
    case (NumberTok v)
    with 2(3) ts show ?thesis by (intro exI [of _ "JNumber v"]) simp
  next
    case (BoolTok v)
    with 2(3) ts show ?thesis by (intro exI [of _ "JBool v"]) simp
  next
    case NullTok
    with 2(3) ts nn show ?thesis by (intro exI [of _ "JNull"]) simp
  qed (use 2(3) ts in auto)
next
  case (4 fold_eq s clean n depth seen ts)
  show ?case
  proof (cases "more_tokens clean ts")
    case True
    then obtain key r r' where ts: "ts = StringTok key # r" and k: "key \<notin> set seen"
      "\<not> (foldAliases s \<and> list_ex (\<lambda>existing. fold_eq existing key) seen)"
      and v: "consumeValue fold_eq s clean n depth r = Some r'" and o: "consumeObject fold_eq s clean n depth (seen @ [key]) r' = Some rest"
      using 4(3) by (auto split: list.splits json_token.splits if_splits option.splits)
    from 4(1) [OF True ts refl k v] obtain t where t: "r = render t @ r'" "strict fold_eq s depth t" by blast
    from 4(2) [OF True ts refl k v o] obtain ms where "r' = members ms @ CloseObject # rest"
      "keys_ok fold_eq s (seen @ [key]) (map fst ms)" "\<forall>m \<in> set ms. strict fold_eq s depth (snd m)" by blast
    with ts k t show ?thesis by (intro exI [of _ "(key, t) # ms"]) simp
  next
    case False
    then have "ts = CloseObject # rest" using 4(3) by (auto split: list.splits json_token.splits)
    then show ?thesis by (intro exI [of _ "[]"]) simp
  qed
next
  case (6 fold_eq s clean n depth ts)
  show ?case
  proof (cases "more_tokens clean ts")
    case True
    then obtain r where v: "consumeValue fold_eq s clean n depth ts = Some r" and a: "consumeArray fold_eq s clean n depth r = Some rest"
      using 6(3) by (auto split: option.splits)
    from 6(1) [OF True v] obtain t where t: "ts = render t @ r" "strict fold_eq s depth t" by blast
    from 6(2) [OF True v a] obtain vs where "r = concat (map render vs) @ CloseArray # rest" "\<forall>v \<in> set vs. strict fold_eq s depth v" by blast
    with t show ?thesis by (intro exI [of _ "t # vs"]) simp
  next
    case False
    then have "ts = CloseArray # rest" using 6(3) by (auto split: list.splits json_token.splits)
    then show ?thesis by (intro exI [of _ "[]"]) simp
  qed
qed simp_all

lemma keys_ok_iff:
  "keys_ok fold_eq s seen ks \<longleftrightarrow> distinct ks \<and> set seen \<inter> set ks = {} \<and>
     (foldAliases s \<longrightarrow> sorted_wrt (\<lambda>a b. \<not> fold_eq a b) ks \<and> (\<forall>a \<in> set seen. \<forall>b \<in> set ks. \<not> fold_eq a b))"
  by (induction fold_eq s seen ks rule: keys_ok.induct) (auto simp: list_ex_iff)

lemma opened:
  "(case ts of OpenObject # rest \<Rightarrow> P rest | _ \<Rightarrow> False) \<longleftrightarrow> (\<exists>rest. ts = OpenObject # rest \<and> P rest)"
  "(case ts of OpenArray # rest \<Rightarrow> P rest | _ \<Rightarrow> False) \<longleftrightarrow> (\<exists>rest. ts = OpenArray # rest \<and> P rest)"
  by (cases ts; simp split: json_token.split)+

text \<open>
  C14. The validator accepts exactly the bounded input that is one JSON object and nothing else, with no key
  twice in an object (nor two that fold to each other, where that is asked for), no null where nulls are
  refused, and at most 32 levels; its fuel is always enough.
\<close>

theorem validateObject_exact:
  "validateObject fold_eq decoder data maximumBytes s \<longleftrightarrow>
     data \<noteq> [] \<and> 0 < maximumBytes \<and> int (length data) \<le> maximumBytes \<and>
     (\<exists>ms. decoder data = (render (JObject ms), True) \<and> strict fold_eq s 0 (JObject ms))"
proof (cases "data = [] \<or> maximumBytes \<le> 0 \<or> maximumBytes < int (length data)")
  case True
  then show ?thesis by (auto simp: validateObject_def)
next
  case False
  obtain ts clean where d: "decoder data = (ts, clean)" by (metis prod.exhaust)
  have "(case ts of OpenObject # rest \<Rightarrow> consumeObject fold_eq s clean (length ts + 1) 1 [] rest = Some [] \<and> clean | _ \<Rightarrow> False) \<longleftrightarrow>
      clean \<and> (\<exists>ms. ts = render (JObject ms) \<and> strict fold_eq s 0 (JObject ms))" (is "?run \<longleftrightarrow> ?spec")
  proof
    assume ?run
    then obtain rest where ts: "ts = OpenObject # rest" and c: "consumeObject fold_eq s clean (length ts + 1) 1 [] rest = Some []" and clean
      unfolding opened by blast
    from consumed_render(2) [OF c] obtain ms where "rest = members ms @ [CloseObject]" "keys_ok fold_eq s [] (map fst ms)"
      "\<forall>m \<in> set ms. strict fold_eq s 1 (snd m)" by blast
    with ts \<open>clean\<close> show ?spec by (intro conjI exI [of _ ms]) simp_all
  next
    assume ?spec
    then obtain ms where ts: "ts = render (JObject ms)" and st: "strict fold_eq s 0 (JObject ms)" and clean by blast
    have "consumeObject fold_eq s clean (length ts + 1) 1 [] (members ms @ [CloseObject]) = Some []"
      using st ts by (intro consume_members) (auto intro: consume_render)
    with ts \<open>clean\<close> show ?run unfolding opened by simp
  qed
  moreover have "validateObject fold_eq decoder data maximumBytes s \<longleftrightarrow> ?run"
    using False unfolding validateObject_def d by (simp only: if_False prod.case)
  moreover have "(\<exists>ms. decoder data = (render (JObject ms), True) \<and> strict fold_eq s 0 (JObject ms)) \<longleftrightarrow> ?spec"
    unfolding d prod.inject by blast
  ultimately show ?thesis using False by (simp only: not_le not_less de_Morgan_disj simp_thms)
qed

lemma validateArray_exact:
  "validateArray fold_eq decoder data maximumBytes \<longleftrightarrow>
     data \<noteq> [] \<and> 0 < maximumBytes \<and> int (length data) \<le> maximumBytes \<and>
     (\<exists>vs. decoder data = (render (JArray vs), True) \<and> strict fold_eq \<lparr>rejectNull = False, foldAliases = True\<rparr> 0 (JArray vs))"
proof (cases "data = [] \<or> maximumBytes \<le> 0 \<or> maximumBytes < int (length data)")
  case True
  then show ?thesis by (auto simp: validateArray_def)
next
  case False
  let ?s = "\<lparr>rejectNull = False, foldAliases = True\<rparr>"
  obtain ts clean where d: "decoder data = (ts, clean)" by (metis prod.exhaust)
  have "(case ts of OpenArray # rest \<Rightarrow> consumeArray fold_eq ?s clean (length ts + 1) 1 rest = Some [] \<and> clean | _ \<Rightarrow> False) \<longleftrightarrow>
      clean \<and> (\<exists>vs. ts = render (JArray vs) \<and> strict fold_eq ?s 0 (JArray vs))" (is "?run \<longleftrightarrow> ?spec")
  proof
    assume ?run
    then obtain rest where ts: "ts = OpenArray # rest" and c: "consumeArray fold_eq ?s clean (length ts + 1) 1 rest = Some []" and clean
      unfolding opened by blast
    from consumed_render(3) [OF c] obtain vs where "rest = concat (map render vs) @ [CloseArray]"
      "\<forall>v \<in> set vs. strict fold_eq ?s 1 v" by blast
    with ts \<open>clean\<close> show ?spec by (intro conjI exI [of _ vs]) simp_all
  next
    assume ?spec
    then obtain vs where ts: "ts = render (JArray vs)" and st: "strict fold_eq ?s 0 (JArray vs)" and clean by blast
    have "consumeArray fold_eq ?s clean (length ts + 1) 1 (concat (map render vs) @ [CloseArray]) = Some []"
      using st ts by (intro consume_elements) (auto intro: consume_render)
    with ts \<open>clean\<close> show ?run unfolding opened by simp
  qed
  moreover have "validateArray fold_eq decoder data maximumBytes \<longleftrightarrow> ?run"
    using False unfolding validateArray_def d by (simp only: if_False prod.case)
  moreover have "(\<exists>vs. decoder data = (render (JArray vs), True) \<and> strict fold_eq ?s 0 (JArray vs)) \<longleftrightarrow> ?spec"
    unfolding d prod.inject by blast
  ultimately show ?thesis using False by (simp only: not_le not_less de_Morgan_disj simp_thms)
qed

end
