(* ===== verification/Stdio_Frames.thy ===== *)
theory Stdio_Frames
  imports Strict_JSON "HOL-Library.Sublist"
begin

text \<open>
  The newline-delimited standard input of both servers (\<^verbatim>\<open>internal/stdioframe\<close>): a reader that hands
  on only whole frames, each one unambiguous JSON object within the limit.

  The input is what \<^verbatim>\<open>bufio.Reader\<close> reads from the underlying reader: its bytes and the error they end in
  (\<open>None\<close> is \<^verbatim>\<open>io.EOF\<close>). \<^verbatim>\<open>json.Unmarshal\<close> into \<^verbatim>\<open>any\<close> is the argument \<open>unmarshal\<close>.
\<close>

abbreviation MaxFrameBytes :: int where "MaxFrameBytes \<equiv> 65536"

datatype frame_error = FrameTooLarge | FrameInvalid | FrameEOF | FrameIO go_error

section \<open>Case-folded aliases in the envelope\<close>

definition openProtocolMap :: "(bytes \<Rightarrow> bytes \<Rightarrow> bool) \<Rightarrow> bytes list \<Rightarrow> bool" where
  "openProtocolMap fold_eq path =
     (if path = [] then False
      else (let l = last path in
        if fold_eq l ''_meta'' \<or> fold_eq l ''arguments'' then True
        else 2 \<le> length path \<and> fold_eq (path ! (length path - 2)) ''capabilities'' \<and>
          (fold_eq l ''experimental'' \<or> fold_eq l ''extensions'')))"

lemma element_size: "(x :: json) \<in> set xs \<Longrightarrow> 2 * size x < Suc (Suc (2 * size_list size xs))"
  using size_list_estimation' [OF _ order_refl, of x xs size] by simp

text \<open>\<open>keys\<close> is the list the loop over the map has collected.\<close>

function validAliasesAt :: "(bytes \<Rightarrow> bytes \<Rightarrow> bool) \<Rightarrow> json \<Rightarrow> bytes list \<Rightarrow> bool"
  and alias_members :: "(bytes \<Rightarrow> bytes \<Rightarrow> bool) \<Rightarrow> (bytes \<times> json) list \<Rightarrow> bytes list \<Rightarrow> bytes list \<Rightarrow> bool" where
  "validAliasesAt fold_eq v path = (case v of
      JObject ms \<Rightarrow> if openProtocolMap fold_eq path then True else alias_members fold_eq ms [] path
    | JArray vs \<Rightarrow> list_all (\<lambda>nested. validAliasesAt fold_eq nested path) vs
    | _ \<Rightarrow> True)"
| "alias_members fold_eq ms keys path = (case ms of
      [] \<Rightarrow> True
    | (key, nested) # rest \<Rightarrow>
        if list_ex (\<lambda>existing. fold_eq existing key) keys then False
        else if \<not> validAliasesAt fold_eq nested (path @ [key]) then False
        else alias_members fold_eq rest (keys @ [key]) path)"
  by pat_completeness auto
termination
  by (relation "measure (case_sum (\<lambda>(f, v, p). 2 * size v) (\<lambda>(f, ms, k, p). 2 * size_list (size_prod (\<lambda>_. 0) size) ms + 1))")
    (auto simp: element_size)

declare validAliasesAt.simps [simp del] alias_members.simps [simp del]
declare validAliasesAt.simps [code] alias_members.simps [code]

definition validProtocolAliases :: "(bytes \<Rightarrow> bytes \<Rightarrow> bool) \<Rightarrow> (bytes \<Rightarrow> json option) \<Rightarrow> bytes \<Rightarrow> bool" where
  "validProtocolAliases fold_eq unmarshal frame = (case unmarshal frame of
      None \<Rightarrow> False | Some value \<Rightarrow> validAliasesAt fold_eq value [])"

section \<open>The reader\<close>

record frame_env =
  fe_fold_eq :: "bytes \<Rightarrow> bytes \<Rightarrow> bool"
  fe_decoder :: "bytes \<Rightarrow> decoder"
  fe_unmarshal :: "bytes \<Rightarrow> json option"

record boundedFrameReader =
  fr_source :: reader
  fr_maximum :: int
  fr_pending :: bytes
  fr_terminal :: "frame_error option"

datatype slice_end = SliceLine | SliceFull | SliceEnd "go_error option"

text \<open>\<^verbatim>\<open>ReadSlice('\n')\<close> of a buffer of \<open>n\<close> bytes: the slice, how it ended, and the rest.\<close>

definition readSlice :: "nat \<Rightarrow> reader \<Rightarrow> bytes \<times> slice_end \<times> reader" where
  "readSlice n r = (case r of (content, e) \<Rightarrow>
     (let line = takeWhile (\<lambda>c. c \<noteq> LF) content in
      if length line < length content \<and> length line < n
      then (line @ [LF], SliceLine, (drop (length line + 1) content, e))
      else if n \<le> length content then (take n content, SliceFull, (drop n content, e))
      else (content, SliceEnd e, ([], e))))"

definition newBoundedFrameReader :: "reader \<Rightarrow> int \<Rightarrow> boundedFrameReader" where
  "newBoundedFrameReader r maximum =
     (if maximum \<le> 0 then \<lparr>fr_source = ([], None), fr_maximum = maximum, fr_pending = [], fr_terminal = Some FrameTooLarge\<rparr>
      else \<lparr>fr_source = r, fr_maximum = maximum, fr_pending = [], fr_terminal = None\<rparr>)"

definition admissible :: "frame_env \<Rightarrow> int \<Rightarrow> bytes \<Rightarrow> bool" where
  "admissible env maximum frame \<longleftrightarrow> ValidateObject (fe_fold_eq env) (fe_decoder env) frame maximum \<and>
     validProtocolAliases (fe_fold_eq env) (fe_unmarshal env) frame"

text \<open>The refill of \<^verbatim>\<open>Read\<close>: the next frame becomes pending, or an error is terminal.\<close>

definition frame_fill :: "frame_env \<Rightarrow> boundedFrameReader \<Rightarrow> frame_error option \<times> boundedFrameReader" where
  "frame_fill env st = (case readSlice (nat (fr_maximum st + 1)) (fr_source st) of (frame, e, rest) \<Rightarrow>
     (let st1 = st\<lparr>fr_source := rest\<rparr>; stop = (\<lambda>x. (Some x, st1\<lparr>fr_terminal := Some x\<rparr>)) in
      if e = SliceFull \<or> fr_maximum st < int (length frame) then stop FrameTooLarge
      else (case e of
          SliceEnd (Some x) \<Rightarrow> stop (FrameIO x)
        | _ \<Rightarrow>
            if frame = [] then stop FrameEOF
            else if \<not> admissible env (fr_maximum st) frame then stop FrameInvalid
            else (None, st1\<lparr>fr_pending := frame, fr_terminal := (if e = SliceEnd None then Some FrameEOF else fr_terminal st1)\<rparr>))))"

text \<open>One \<^verbatim>\<open>Read\<close> into a destination of \<open>n\<close> bytes.\<close>

definition frame_Read :: "frame_env \<Rightarrow> nat \<Rightarrow> boundedFrameReader \<Rightarrow> (bytes \<times> frame_error option) \<times> boundedFrameReader" where
  "frame_Read env n st =
     (if n = 0 then (([], None), st)
      else (let serve = (\<lambda>st. ((take n (fr_pending st), None), st\<lparr>fr_pending := drop n (fr_pending st)\<rparr>)) in
        if fr_pending st = [] then (case fr_terminal st of
            Some e \<Rightarrow> (([], Some e), st)
          | None \<Rightarrow> (case frame_fill env st of
              (Some e, st') \<Rightarrow> (([], Some e), st')
            | (None, st') \<Rightarrow> serve st'))
        else serve st))"

section \<open>What the SDK receives\<close>

text \<open>The lines of an input with their newlines; the frames that are handed on are the good ones at its start.\<close>

function split_lines :: "bytes \<Rightarrow> bytes list" where
  "split_lines s = (if s = [] then []
     else if LF \<in> set s
     then (takeWhile (\<lambda>c. c \<noteq> LF) s @ [LF]) # split_lines (drop (length (takeWhile (\<lambda>c. c \<noteq> LF) s) + 1) s)
     else [s])"
  by pat_completeness auto
termination by (relation "measure length") auto

declare split_lines.simps [simp del]
declare split_lines.simps [code]

definition good_frame :: "frame_env \<Rightarrow> int \<Rightarrow> go_error option \<Rightarrow> bytes \<Rightarrow> bool" where
  "good_frame env maximum e f \<longleftrightarrow> int (length f) \<le> maximum \<and> admissible env maximum f \<and> (last f = LF \<or> e = None)"

definition good_frames :: "frame_env \<Rightarrow> int \<Rightarrow> reader \<Rightarrow> bytes" where
  "good_frames env maximum r = concat (takeWhile (good_frame env maximum (snd r)) (split_lines (fst r)))"

fun frame_reads :: "frame_env \<Rightarrow> nat list \<Rightarrow> boundedFrameReader \<Rightarrow> (bytes \<times> frame_error option) list \<times> boundedFrameReader" where
  "frame_reads env [] st = ([], st)"
| "frame_reads env (n # ns) st = (case frame_Read env n st of (out, st1) \<Rightarrow>
     (case frame_reads env ns st1 of (outs, st2) \<Rightarrow> (out # outs, st2)))"

lemma line_length: "length (takeWhile (\<lambda>c. c \<noteq> LF) s) < length s \<longleftrightarrow> LF \<in> set s"
proof (induction s)
  case (Cons c s)
  then show ?case by auto
qed simp

lemma concat_split_lines: "concat (split_lines t) = t"
proof (induction t rule: split_lines.induct)
  case (1 t)
  show ?case
  proof (cases "t = [] \<or> LF \<notin> set t")
    case True
    then show ?thesis by (subst split_lines.simps) auto
  next
    case False
    let ?l = "takeWhile (\<lambda>c. c \<noteq> LF) t"
    have "t = ?l @ LF # drop (length ?l + 1) t"
    proof -
      have "length ?l < length t" using False line_length by blast
      moreover have "t ! length ?l = LF" using nth_length_takeWhile [OF calculation] by simp
      ultimately show ?thesis
        by (metis Cons_nth_drop_Suc Suc_eq_plus1 append_take_drop_id takeWhile_eq_take)
    qed
    with 1 False show ?thesis by (subst split_lines.simps) simp
  qed
qed

lemma readSlice_line:
  assumes "LF \<in> set content" and "length (takeWhile (\<lambda>c. c \<noteq> LF) content) < n"
  shows "readSlice n (content, e) = (hd (split_lines content), SliceLine, (concat (tl (split_lines content)), e)) \<and>
    split_lines (concat (tl (split_lines content))) = tl (split_lines content)"
proof -
  let ?rest = "drop (length (takeWhile (\<lambda>c. c \<noteq> LF) content) + 1) content"
  have s: "split_lines content = (takeWhile (\<lambda>c. c \<noteq> LF) content @ [LF]) # split_lines ?rest"
    using assms(1) by (subst split_lines.simps) auto
  show ?thesis
    using assms line_length [of content] by (simp add: readSlice_def s concat_split_lines Let_def)
qed

lemma split_lines_line: "LF \<in> set s \<Longrightarrow> \<exists>fs. split_lines s = (takeWhile (\<lambda>c. c \<noteq> LF) s @ [LF]) # fs"
  by (subst split_lines.simps) auto

lemma split_lines_end: "LF \<notin> set s \<Longrightarrow> split_lines s = (if s = [] then [] else [s])"
  by (subst split_lines.simps) simp

definition unread :: "frame_env \<Rightarrow> boundedFrameReader \<Rightarrow> bytes" where
  "unread env st = fr_pending st @ (if fr_terminal st = None then good_frames env (fr_maximum st) (fr_source st) else [])"

lemma good_frames_first:
  "split_lines content = f # fs \<Longrightarrow> good_frames env maximum (content, e) =
     (if good_frame env maximum e f then f @ concat (takeWhile (good_frame env maximum e) fs) else [])"
  by (simp add: good_frames_def)

lemma fill_line:
  assumes "LF \<in> set (fst (fr_source st))" and "int (length (takeWhile (\<lambda>c. c \<noteq> LF) (fst (fr_source st)))) \<le> fr_maximum st"
    and "fr_pending st = []" and "fr_terminal st = None"
  shows "case frame_fill env st of (r, st') \<Rightarrow> fr_maximum st' = fr_maximum st \<and>
    (case r of Some x \<Rightarrow> unread env st = [] \<and> fr_pending st' = [] \<and> fr_terminal st' = Some x
     | None \<Rightarrow> unread env st' = unread env st \<and> fr_pending st' \<noteq> [])"
proof -
  obtain content e where src: "fr_source st = (content, e)" by (cases "fr_source st")
  have n: "length (takeWhile (\<lambda>c. c \<noteq> LF) content) < nat (fr_maximum st + 1)" using assms(2) src by simp
  have lf: "LF \<in> set content" using assms(1) src by simp
  then obtain f fs where s: "split_lines content = f # fs" and f: "f = takeWhile (\<lambda>c. c \<noteq> LF) content @ [LF]"
    using split_lines_line by blast
  have rs: "readSlice (nat (fr_maximum st + 1)) (content, e) = (f, SliceLine, (concat fs, e))" and fs: "split_lines (concat fs) = fs"
    using readSlice_line [OF lf n] s by simp_all
  have g: "good_frame env (fr_maximum st) e f \<longleftrightarrow> int (length f) \<le> fr_maximum st \<and> admissible env (fr_maximum st) f"
    by (simp add: good_frame_def f)
  have u: "unread env st = (if good_frame env (fr_maximum st) e f then f @ concat (takeWhile (good_frame env (fr_maximum st) e) fs) else [])"
    using assms(3,4) by (simp add: unread_def src good_frames_first [OF s])
  show ?thesis
    using assms(3,4) u g f
    by (simp add: frame_fill_def src rs Let_def not_less unread_def good_frames_def fs)
qed

lemma fill_end:
  assumes "\<not> (LF \<in> set (fst (fr_source st)) \<and> int (length (takeWhile (\<lambda>c. c \<noteq> LF) (fst (fr_source st)))) \<le> fr_maximum st)"
    and "fr_pending st = []" and "fr_terminal st = None" and "0 < fr_maximum st"
  shows "case frame_fill env st of (r, st') \<Rightarrow> fr_maximum st' = fr_maximum st \<and>
    (case r of Some x \<Rightarrow> unread env st = [] \<and> fr_pending st' = [] \<and> fr_terminal st' = Some x
     | None \<Rightarrow> unread env st' = unread env st \<and> fr_pending st' \<noteq> [])"
proof -
  obtain content e where src: "fr_source st = (content, e)" by (cases "fr_source st")
  let ?n = "nat (fr_maximum st + 1)" and ?l = "takeWhile (\<lambda>c. c \<noteq> LF) content"
  show ?thesis
  proof (cases "?n \<le> length content")
    case True
    have "\<not> (length ?l < length content \<and> length ?l < ?n)"
      using assms(1) line_length [of content] src by auto
    then have rs: "readSlice ?n (content, e) = (take ?n content, SliceFull, (drop ?n content, e))"
      using True by (simp add: readSlice_def Let_def)
    have "unread env st = []"
    proof -
      obtain f fs where s: "split_lines content = f # fs" and f: "fr_maximum st < int (length f)"
      proof (cases "LF \<in> set content")
        case lf: True
        then show ?thesis using assms(1) src that split_lines_line by fastforce
      next
        case False
        moreover have "content \<noteq> []" using True assms(4) by auto
        ultimately show ?thesis using True that [of content "[]"] split_lines_end by simp
      qed
      then have "\<not> good_frame env (fr_maximum st) e f" by (simp add: good_frame_def)
      then show ?thesis using assms(2,3) by (simp add: unread_def src good_frames_first [OF s])
    qed
    then show ?thesis using assms(2) by (simp add: frame_fill_def src rs Let_def)
  next
    case False
    have nolf: "LF \<notin> set content"
    proof
      assume "LF \<in> set content"
      with line_length [of content] False have "int (length ?l) \<le> fr_maximum st" by simp
      with assms(1) src \<open>LF \<in> set content\<close> show False by simp
    qed
    then have "\<not> (length ?l < length content \<and> length ?l < ?n)" using line_length [of content] by auto
    then have rs: "readSlice ?n (content, e) = (content, SliceEnd e, ([], e))"
      using False by (simp add: readSlice_def Let_def)
    have s: "split_lines content = (if content = [] then [] else [content])" using nolf by (rule split_lines_end)
    have len: "int (length content) \<le> fr_maximum st" using False assms(4) by simp
    have last: "last content \<noteq> LF" if "content \<noteq> []" using nolf last_in_set [OF that] by metis
    have u: "unread env st = (if content \<noteq> [] \<and> admissible env (fr_maximum st) content \<and> e = None then content else [])"
      using assms(2,3) len last by (auto simp: unread_def src good_frames_def s good_frame_def)
    show ?thesis
    proof (cases e)
      case None
      with assms(2,3) len u show ?thesis
        by (simp add: frame_fill_def src [unfolded None] rs [unfolded None] Let_def) (simp add: unread_def)
    next
      case (Some x)
      with assms(2,3) len u show ?thesis by (simp add: frame_fill_def src [unfolded Some] rs [unfolded Some] Let_def)
    qed
  qed
qed

lemma frame_fill_view:
  assumes "fr_pending st = []" and "fr_terminal st = None" and "0 < fr_maximum st" and "frame_fill env st = (r, st')"
  shows "fr_maximum st' = fr_maximum st \<and>
    (case r of Some x \<Rightarrow> unread env st = [] \<and> fr_pending st' = [] \<and> fr_terminal st' = Some x
     | None \<Rightarrow> unread env st' = unread env st \<and> fr_pending st' \<noteq> [])"
  using fill_line [of st env] fill_end [of st env] assms by (cases "LF \<in> set (fst (fr_source st)) \<and>
    int (length (takeWhile (\<lambda>c. c \<noteq> LF) (fst (fr_source st)))) \<le> fr_maximum st") auto

definition readable :: "boundedFrameReader \<Rightarrow> bool" where
  "readable st \<longleftrightarrow> 0 < fr_maximum st \<or> fr_terminal st \<noteq> None"

lemma frame_Read_view:
  assumes "readable st" and "frame_Read env n st = ((out, err), st')"
  shows "readable st' \<and> unread env st = out @ unread env st' \<and>
    (case err of Some e \<Rightarrow> 0 < n \<and> unread env st = [] \<and> out = [] | None \<Rightarrow> n = 0 \<or> out \<noteq> [])"
proof (cases "n = 0")
  case True
  with assms show ?thesis by (auto simp: frame_Read_def)
next
  case n: False
  show ?thesis
  proof (cases "fr_pending st = []")
    case False
    with assms n show ?thesis by (auto simp: frame_Read_def Let_def unread_def readable_def)
  next
    case p: True
    show ?thesis
    proof (cases "fr_terminal st")
      case (Some x)
      then have "out = []" "err = Some x" "st' = st" using assms(2) n p by (simp_all add: frame_Read_def Let_def)
      with Some assms(1) n p show ?thesis by (simp add: unread_def)
    next
      case None
      with assms(1) have m: "0 < fr_maximum st" by (simp add: readable_def)
      obtain r st1 where f: "frame_fill env st = (r, st1)" by (metis prod.exhaust)
      note v = frame_fill_view [OF p None m f]
      show ?thesis
      proof (cases r)
        case (Some x)
        with assms n p None f v show ?thesis by (auto simp: frame_Read_def Let_def unread_def readable_def)
      next
        case r: None
        have "out = take n (fr_pending st1)" "err = None" "st' = st1\<lparr>fr_pending := drop n (fr_pending st1)\<rparr>"
          using assms(2) n p None f r by (auto simp: frame_Read_def Let_def)
        moreover define rest where "rest = (if fr_terminal st1 = None then good_frames env (fr_maximum st1) (fr_source st1) else [])"
        moreover have "unread env st = fr_pending st1 @ rest" "fr_pending st1 \<noteq> []" "fr_maximum st1 = fr_maximum st"
          using v r by (simp_all add: rest_def unread_def [of env st1])
        moreover have "unread env (st1\<lparr>fr_pending := drop n (fr_pending st1)\<rparr>) = drop n (fr_pending st1) @ rest"
          by (simp add: unread_def rest_def)
        moreover have "fr_pending st1 = take n (fr_pending st1) @ drop n (fr_pending st1)" by simp
        ultimately show ?thesis using n m by (simp add: readable_def)
      qed
    qed
  qed
qed

lemma frame_reads_view:
  assumes "readable st" and "frame_reads env ns st = (outs, st')"
  shows "readable st' \<and> unread env st = concat (map fst outs) @ unread env st' \<and> length outs = length ns \<and>
    (list_ex (\<lambda>o1. snd o1 \<noteq> None) outs \<longrightarrow> unread env st' = []) \<and>
    (\<not> list_ex (\<lambda>o1. snd o1 \<noteq> None) outs \<longrightarrow> length (filter (\<lambda>n. 0 < n) ns) \<le> length (concat (map fst outs)))"
  using assms
proof (induction ns arbitrary: st outs)
  case (Cons n ns)
  obtain out err st1 where r: "frame_Read env n st = ((out, err), st1)" by (metis prod.exhaust)
  obtain outs1 where rs: "frame_reads env ns st1 = (outs1, st')" and outs: "outs = (out, err) # outs1"
    using Cons.prems(2) r by (auto split: prod.splits)
  note v = frame_Read_view [OF Cons.prems(1) r]
  note w = Cons.IH [OF conjunct1 [OF v] rs]
  show ?case
  proof (cases err)
    case None
    with v have "n = 0 \<or> out \<noteq> []" by simp
    then have "(if 0 < n then 1 else 0) \<le> length out" by (cases out) auto
    with None v w show ?thesis by (auto simp: outs)
  next
    case (Some e)
    with v w show ?thesis by (auto simp: outs)
  qed
qed auto

lemma unread_new: "unread env (newBoundedFrameReader r maximum) = good_frames env maximum r \<and> readable (newBoundedFrameReader r maximum)"
proof (cases "maximum \<le> 0")
  case True
  have "\<not> good_frame env maximum (snd r) f" if "f \<noteq> []" for f
  proof -
    have "0 < length f" using that by simp
    with True have "\<not> int (length f) \<le> maximum" by linarith
    then show ?thesis by (simp add: good_frame_def)
  qed
  moreover have "[] \<notin> set (split_lines t)" for t
    by (induction t rule: split_lines.induct) (subst split_lines.simps, auto)
  ultimately have "good_frames env maximum r = []"
    unfolding good_frames_def by (cases "split_lines (fst r)") (metis list.set_intros(1) takeWhile.simps concat.simps(1))+
  with True show ?thesis by (simp add: newBoundedFrameReader_def unread_def readable_def)
qed (simp add: newBoundedFrameReader_def unread_def readable_def)

text \<open>
  C15. However the SDK sizes its reads, the bytes it receives are a prefix of the good frames at the start of
  the input: the whole lines, each within the limit, one unambiguous JSON object without a folded alias in
  its envelope. When a read fails it has received all of them, and nothing of the frame that failed or of
  what follows it.
\<close>

theorem frame_reads_exact:
  "case frame_reads env ns (newBoundedFrameReader r maximum) of (outs, st) \<Rightarrow>
     if list_ex (\<lambda>out. snd out \<noteq> None) outs then concat (map fst outs) = good_frames env maximum r
     else prefix (concat (map fst outs)) (good_frames env maximum r)"
proof -
  obtain outs st where r: "frame_reads env ns (newBoundedFrameReader r maximum) = (outs, st)" by (metis prod.exhaust)
  show ?thesis
    using frame_reads_view [OF conjunct2 [OF unread_new] r] conjunct1 [OF unread_new [of env r maximum]] r
    by (simp add: prefix_def)
qed

text \<open>
  The reader never stalls: after more reads with room for a byte than the input has bytes, every good
  frame has been handed on and the end or the refusal has been reported.
\<close>

theorem frame_reads_finish:
  assumes "length (fst r) < length (filter (\<lambda>n. 0 < n) ns)"
  shows "case frame_reads env ns (newBoundedFrameReader r maximum) of (outs, st) \<Rightarrow>
    list_ex (\<lambda>out. snd out \<noteq> None) outs \<and> concat (map fst outs) = good_frames env maximum r"
proof -
  obtain outs st where run: "frame_reads env ns (newBoundedFrameReader r maximum) = (outs, st)" by (metis prod.exhaust)
  note v = frame_reads_view [OF conjunct2 [OF unread_new] run]
  have "concat (takeWhile P (split_lines t)) = take (length (concat (takeWhile P (split_lines t)))) t" for P t
  proof -
    have "concat (split_lines t) = t" by (rule concat_split_lines)
    moreover have "split_lines t = takeWhile P (split_lines t) @ dropWhile P (split_lines t)" by simp
    ultimately show ?thesis by (metis append_eq_conv_conj concat_append)
  qed
  then have "length (good_frames env maximum r) \<le> length (fst r)"
    unfolding good_frames_def by (metis length_take min.cobounded1 min.commute)
  moreover have "length (concat (map fst outs)) \<le> length (good_frames env maximum r)"
    using v conjunct1 [OF unread_new [of env r maximum]] by (metis le_add1 length_append)
  ultimately have "list_ex (\<lambda>out. snd out \<noteq> None) outs" using v assms by linarith
  with v conjunct1 [OF unread_new [of env r maximum]] run show ?thesis by simp
qed

text \<open>An input of one frame and a fragment.\<close>

definition frame_sample :: frame_env where
  "frame_sample = \<lparr>fe_fold_eq = (=), fe_decoder = (\<lambda>b. if b = ''{}'' @ [LF] then ([OpenObject, CloseObject], True) else ([], False)),
     fe_unmarshal = (\<lambda>b. Some (JObject []))\<rparr>"

lemma frame_reads_finish_witness:
  "concat (map fst (fst (frame_reads frame_sample (replicate 7 2) (newBoundedFrameReader (''{}'' @ [LF] @ ''{a'', None) 65536)))) =
     ''{}'' @ [LF]"
proof -
  have "length (fst (''{}'' @ [LF] @ ''{a'', None :: go_error option)) < length (filter (\<lambda>n. 0 < n) (replicate 7 (2 :: nat)))" by simp
  from frame_reads_finish [OF this, of frame_sample 65536]
  have "concat (map fst (fst (frame_reads frame_sample (replicate 7 2) (newBoundedFrameReader (''{}'' @ [LF] @ ''{a'', None) 65536)))) =
      good_frames frame_sample 65536 (''{}'' @ [LF] @ ''{a'', None)" by (simp add: case_prod_beta)
  also have "\<dots> = ''{}'' @ [LF]" by code_simp
  finally show ?thesis .
qed

end
