(* ===== verification/Tool_Results.thy ===== *)
theory Tool_Results
  imports Mail_Search "HOL-Library.Sublist"
begin

text \<open>
  The results of the Mail tools and their bounded encoding (\<^verbatim>\<open>internal/mcpserver/output.go\<close>, the result
  types of \<^verbatim>\<open>handlers.go\<close> and \<^verbatim>\<open>triage.go\<close>). A Go \<^verbatim>\<open>any\<close> that holds one of the result structs is a value
  of \<open>tool_result\<close>; \<^verbatim>\<open>json.Marshal\<close> of these structs is written out.
\<close>

section \<open>JSON of the standard library\<close>

text \<open>A struct is the list of its present fields; \<open>omitempty\<close> leaves a field out.\<close>

definition json_struct :: "(bytes \<times> bytes) list \<Rightarrow> bytes" where
  "json_struct fs = ''{'' @ json_elements (map (\<lambda>(k, v). json_field k v) fs) @ ''}''"

definition omitempty :: "bool \<Rightarrow> bytes \<Rightarrow> bytes \<Rightarrow> (bytes \<times> bytes) list" where
  "omitempty absent k v = (if absent then [] else [(k, v)])"

definition string_omit :: "bytes \<Rightarrow> bytes \<Rightarrow> (bytes \<times> bytes) list" where
  "string_omit k v = omitempty (v = []) k (json_string v)"

definition flag_omit :: "bytes \<Rightarrow> bool \<Rightarrow> (bytes \<times> bytes) list" where
  "flag_omit k b = omitempty (\<not> b) k (json_bool b)"

definition uint_omit :: "bytes \<Rightarrow> uint32 \<Rightarrow> (bytes \<times> bytes) list" where
  "uint_omit k n = omitempty (n = 0) k (format_uint (unat n))"

section \<open>Results\<close>

record folderResult =
  fo_Name :: bytes
  fo_Delimiter :: bytes

record listFoldersResult =
  lf_Folders :: "folderResult list"
  lf_Truncated :: bool

record messageResult =
  mr_ID :: bytes
  mr_Mailbox :: bytes
  mr_UIDValidity :: uint32
  mr_UID :: uint32
  mr_Subject :: bytes
  mr_Size :: int
  mr_From :: bytes
  mr_Date :: bytes
  mr_DateSource :: DateSource
  mr_ReadState :: ReadState
  mr_MetadataTruncated :: bool

record searchMailResult =
  sr_Results :: "messageResult list"
  sr_Truncated :: bool

text \<open>\<open>ar_DeclaredSize\<close> is a pointer, absent when nil.\<close>

record attachmentResult =
  ar_Filename :: bytes
  ar_ContentType :: bytes
  ar_Disposition :: bytes
  ar_HasDeclaredSize :: bool
  ar_DeclaredSize :: "int option"

record messageTruncation =
  mt_Headers :: bool
  mt_HeaderCount :: bool
  mt_Text :: bool
  mt_MIMEParts :: bool
  mt_MIMEDepth :: bool
  mt_Attachments :: bool
  mt_References :: bool
  mt_Output :: bool

record attachmentListTruncation =
  at_MIMEParts :: bool
  at_MIMEDepth :: bool
  at_Attachments :: bool
  at_Output :: bool

definition attachment_truncation_any :: "attachmentListTruncation \<Rightarrow> bool" where
  "attachment_truncation_any t \<longleftrightarrow> at_MIMEParts t \<or> at_MIMEDepth t \<or> at_Attachments t \<or> at_Output t"

record getMessageResult =
  gm_ID :: bytes
  gm_Mailbox :: bytes
  gm_UIDValidity :: uint32
  gm_UID :: uint32
  gm_Size :: int
  gm_Headers :: CanonicalHeaders
  gm_Text :: bytes
  gm_TextSource :: bytes
  gm_Attachments :: "attachmentResult list"
  gm_Truncation :: messageTruncation
  gm_Truncated :: bool

record threadNodeTruncation =
  nt_Headers :: bool
  nt_HeaderCount :: bool
  nt_References :: bool

record threadNodeResult =
  nr_Key :: bytes
  nr_Mailbox :: bytes
  nr_UIDValidity :: uint32
  nr_UID :: uint32
  nr_MessageID :: bytes
  nr_ParentKey :: bytes
  nr_Depth :: int
  nr_Subject :: bytes
  nr_From :: bytes
  nr_Date :: bytes
  nr_Truncation :: threadNodeTruncation

datatype threadUnavailable = UnavailableStaleID | UnavailableInvalidIdentity | UnavailableMalformedHeader

record getThreadResult =
  gt_ID :: bytes
  gt_Mailbox :: bytes
  gt_Nodes :: "threadNodeResult list"
  gt_Truncated :: bool
  gt_UnavailableMembers :: "threadUnavailable list"

record listAttachmentsResult =
  la_ID :: bytes
  la_Mailbox :: bytes
  la_UIDValidity :: uint32
  la_UID :: uint32
  la_Attachments :: "attachmentResult list"
  la_Truncation :: attachmentListTruncation
  la_Truncated :: bool

record selectDigestResult =
  dg_Mailbox :: bytes
  dg_Candidates :: "messageResult list"
  dg_TotalMessages :: int
  dg_UnseenCount :: int
  dg_Truncated :: bool

record triageResultRow =
  tr_UID :: uint32
  tr_Outcome :: bytes
  tr_Code :: bytes

datatype tool_result =
    FoldersResult listFoldersResult
  | SearchResult searchMailResult
  | MessageResult getMessageResult
  | ThreadResult getThreadResult
  | AttachmentsResult listAttachmentsResult
  | DigestResult selectDigestResult
  | TriageResults "triageResultRow list"

section \<open>Marshalling\<close>

definition marshal_folder :: "folderResult \<Rightarrow> bytes" where
  "marshal_folder f = json_struct ([(''name'', json_string (fo_Name f))] @ string_omit ''delimiter'' (fo_Delimiter f))"

definition marshal_folders :: "listFoldersResult \<Rightarrow> bytes" where
  "marshal_folders r = json_struct ([(''folders'', json_array (map marshal_folder (lf_Folders r)))] @ flag_omit ''truncated'' (lf_Truncated r))"

definition marshal_message :: "messageResult \<Rightarrow> bytes" where
  "marshal_message m = json_struct (
     [(''id'', json_string (mr_ID m)), (''mailbox'', json_string (mr_Mailbox m))] @
     uint_omit ''uidvalidity'' (mr_UIDValidity m) @ uint_omit ''uid'' (mr_UID m) @ string_omit ''subject'' (mr_Subject m) @
     omitempty (mr_Size m = 0) ''size'' (json_int (mr_Size m)) @ string_omit ''from'' (mr_From m) @ string_omit ''date'' (mr_Date m) @
     [(''dateSource'', json_string (DateSource_text (mr_DateSource m))), (''readState'', json_string (ReadState_text (mr_ReadState m)))] @
     flag_omit ''metadataTruncated'' (mr_MetadataTruncated m))"

definition marshal_search :: "searchMailResult \<Rightarrow> bytes" where
  "marshal_search r = json_struct ([(''results'', json_array (map marshal_message (sr_Results r)))] @ flag_omit ''truncated'' (sr_Truncated r))"

definition marshal_attachment :: "attachmentResult \<Rightarrow> bytes" where
  "marshal_attachment a = json_struct (string_omit ''filename'' (ar_Filename a) @ string_omit ''contentType'' (ar_ContentType a) @
     string_omit ''disposition'' (ar_Disposition a) @ [(''hasDeclaredSize'', json_bool (ar_HasDeclaredSize a))] @
     (case ar_DeclaredSize a of None \<Rightarrow> [] | Some n \<Rightarrow> [(''declaredSize'', json_int n)]))"

definition marshal_headers :: "CanonicalHeaders \<Rightarrow> bytes" where
  "marshal_headers h = json_struct (string_omit ''date'' (h_Date h) @ string_omit ''from'' (h_From h) @ string_omit ''to'' (h_To h) @
     string_omit ''subject'' (h_Subject h) @ string_omit ''messageId'' (h_MessageID h) @ string_omit ''inReplyTo'' (h_InReplyTo h) @
     omitempty (h_References h = []) ''references'' (json_array (map json_string (h_References h))))"

definition marshal_message_truncation :: "messageTruncation \<Rightarrow> bytes" where
  "marshal_message_truncation t = json_struct (flag_omit ''headers'' (mt_Headers t) @ flag_omit ''headerCount'' (mt_HeaderCount t) @
     flag_omit ''text'' (mt_Text t) @ flag_omit ''mimeParts'' (mt_MIMEParts t) @ flag_omit ''mimeDepth'' (mt_MIMEDepth t) @
     flag_omit ''attachments'' (mt_Attachments t) @ flag_omit ''references'' (mt_References t) @ flag_omit ''output'' (mt_Output t))"

definition marshal_get_message :: "getMessageResult \<Rightarrow> bytes" where
  "marshal_get_message m = json_struct (
     [(''id'', json_string (gm_ID m)), (''mailbox'', json_string (gm_Mailbox m))] @
     uint_omit ''uidvalidity'' (gm_UIDValidity m) @ uint_omit ''uid'' (gm_UID m) @ omitempty (gm_Size m = 0) ''size'' (json_int (gm_Size m)) @
     [(''headers'', marshal_headers (gm_Headers m))] @ string_omit ''text'' (gm_Text m) @ [(''textSource'', json_string (gm_TextSource m))] @
     omitempty (gm_Attachments m = []) ''attachments'' (json_array (map marshal_attachment (gm_Attachments m))) @
     [(''truncation'', marshal_message_truncation (gm_Truncation m))] @ flag_omit ''truncated'' (gm_Truncated m))"

definition marshal_node_truncation :: "threadNodeTruncation \<Rightarrow> bytes" where
  "marshal_node_truncation t = json_struct (flag_omit ''headers'' (nt_Headers t) @ flag_omit ''headerCount'' (nt_HeaderCount t) @
     flag_omit ''references'' (nt_References t))"

definition marshal_node :: "threadNodeResult \<Rightarrow> bytes" where
  "marshal_node n = json_struct ([(''key'', json_string (nr_Key n)), (''mailbox'', json_string (nr_Mailbox n))] @
     uint_omit ''uidvalidity'' (nr_UIDValidity n) @ uint_omit ''uid'' (nr_UID n) @ string_omit ''messageId'' (nr_MessageID n) @
     string_omit ''parentKey'' (nr_ParentKey n) @ [(''depth'', json_int (nr_Depth n))] @ string_omit ''subject'' (nr_Subject n) @
     string_omit ''from'' (nr_From n) @ string_omit ''date'' (nr_Date n) @ [(''truncation'', marshal_node_truncation (nr_Truncation n))])"

fun unavailable_text :: "threadUnavailable \<Rightarrow> bytes" where
  "unavailable_text UnavailableStaleID = ''stale_id''"
| "unavailable_text UnavailableInvalidIdentity = ''invalid_identity''"
| "unavailable_text UnavailableMalformedHeader = ''malformed_header''"

definition marshal_unavailable :: "threadUnavailable \<Rightarrow> bytes" where
  "marshal_unavailable u = json_struct [(''reason'', json_string (unavailable_text u))]"

definition marshal_thread :: "getThreadResult \<Rightarrow> bytes" where
  "marshal_thread r = json_struct ([(''id'', json_string (gt_ID r)), (''mailbox'', json_string (gt_Mailbox r)),
     (''nodes'', json_array (map marshal_node (gt_Nodes r)))] @ flag_omit ''truncated'' (gt_Truncated r) @
     omitempty (gt_UnavailableMembers r = []) ''unavailableMembers'' (json_array (map marshal_unavailable (gt_UnavailableMembers r))))"

definition marshal_list_truncation :: "attachmentListTruncation \<Rightarrow> bytes" where
  "marshal_list_truncation t = json_struct (flag_omit ''mimeParts'' (at_MIMEParts t) @ flag_omit ''mimeDepth'' (at_MIMEDepth t) @
     flag_omit ''attachments'' (at_Attachments t) @ flag_omit ''output'' (at_Output t))"

definition marshal_attachments :: "listAttachmentsResult \<Rightarrow> bytes" where
  "marshal_attachments r = json_struct ([(''id'', json_string (la_ID r)), (''mailbox'', json_string (la_Mailbox r))] @
     uint_omit ''uidvalidity'' (la_UIDValidity r) @ uint_omit ''uid'' (la_UID r) @
     [(''attachments'', json_array (map marshal_attachment (la_Attachments r))), (''truncation'', marshal_list_truncation (la_Truncation r))] @
     flag_omit ''truncated'' (la_Truncated r))"

definition marshal_digest :: "selectDigestResult \<Rightarrow> bytes" where
  "marshal_digest r = json_struct ([(''mailbox'', json_string (dg_Mailbox r)),
     (''candidates'', json_array (map marshal_message (dg_Candidates r))), (''totalMessages'', json_int (dg_TotalMessages r)),
     (''unseenCount'', json_int (dg_UnseenCount r))] @ flag_omit ''truncated'' (dg_Truncated r))"

definition marshal_row :: "triageResultRow \<Rightarrow> bytes" where
  "marshal_row r = json_struct ([(''uid'', format_uint (unat (tr_UID r))), (''outcome'', json_string (tr_Outcome r))] @
     string_omit ''code'' (tr_Code r))"

fun marshal :: "tool_result \<Rightarrow> bytes" where
  "marshal (FoldersResult r) = marshal_folders r"
| "marshal (SearchResult r) = marshal_search r"
| "marshal (MessageResult r) = marshal_get_message r"
| "marshal (ThreadResult r) = marshal_thread r"
| "marshal (AttachmentsResult r) = marshal_attachments r"
| "marshal (DigestResult r) = marshal_digest r"
| "marshal (TriageResults rows) = json_struct [(''results'', json_array (map marshal_row rows))]"

section \<open>Shrinking\<close>

definition RuneStart :: "char \<Rightarrow> bool" where
  "RuneStart c \<longleftrightarrow> byte_val c div 64 \<noteq> 2"

text \<open>The loop that steps back to the start of a rune.\<close>

fun rune_boundary :: "bytes \<Rightarrow> nat \<Rightarrow> nat" where
  "rune_boundary s 0 = 0"
| "rune_boundary s (Suc n) = (if RuneStart (s ! Suc n) then Suc n else rune_boundary s n)"

definition halveRunes :: "bytes \<Rightarrow> bytes" where
  "halveRunes v = (if v = [] then [] else take (rune_boundary v (length v div 2)) v)"

definition fallbackString :: "bytes \<Rightarrow> bytes" where
  "fallbackString v = (if length v \<le> 1024 then v else take (rune_boundary v 1024) v)"

definition halve :: "'a list \<Rightarrow> 'a list" where
  "halve xs = take (length xs div 2) xs"

text \<open>\<open>None\<close> is the return value false.\<close>

fun shrinkForOutput :: "tool_result \<Rightarrow> tool_result option" where
  "shrinkForOutput (FoldersResult r) =
     (if lf_Folders r = [] then None else Some (FoldersResult (r\<lparr>lf_Folders := halve (lf_Folders r), lf_Truncated := True\<rparr>)))"
| "shrinkForOutput (SearchResult r) =
     (if sr_Results r = [] then None else Some (SearchResult (r\<lparr>sr_Results := halve (sr_Results r), sr_Truncated := True\<rparr>)))"
| "shrinkForOutput (MessageResult r) =
     (let flagged = (\<lambda>r. Some (MessageResult (r\<lparr>gm_Truncation := (gm_Truncation r)\<lparr>mt_Output := True\<rparr>, gm_Truncated := True\<rparr>))) in
      if gm_Text r \<noteq> [] then flagged (r\<lparr>gm_Text := halveRunes (gm_Text r)\<rparr>)
      else if gm_Attachments r \<noteq> [] then flagged (r\<lparr>gm_Attachments := halve (gm_Attachments r)\<rparr>)
      else None)"
| "shrinkForOutput (ThreadResult r) =
     (if gt_UnavailableMembers r \<noteq> []
      then Some (ThreadResult (r\<lparr>gt_UnavailableMembers := halve (gt_UnavailableMembers r), gt_Truncated := True\<rparr>))
      else if 1 < length (gt_Nodes r)
      then Some (ThreadResult (r\<lparr>gt_Nodes := take ((length (gt_Nodes r) + 1) div 2) (gt_Nodes r), gt_Truncated := True\<rparr>))
      else None)"
| "shrinkForOutput (AttachmentsResult r) =
     (if la_Attachments r = [] then None
      else Some (AttachmentsResult (r\<lparr>la_Attachments := halve (la_Attachments r),
        la_Truncation := (la_Truncation r)\<lparr>at_Output := True\<rparr>, la_Truncated := True\<rparr>)))"
| "shrinkForOutput (DigestResult r) =
     (if dg_Candidates r = [] then None
      else Some (DigestResult (r\<lparr>dg_Candidates := halve (dg_Candidates r), dg_Truncated := True\<rparr>)))"
| "shrinkForOutput (TriageResults rows) = None"

fun fallbackForOutput :: "tool_result \<Rightarrow> tool_result option" where
  "fallbackForOutput (FoldersResult r) = Some (FoldersResult \<lparr>lf_Folders = [], lf_Truncated = True\<rparr>)"
| "fallbackForOutput (SearchResult r) = Some (SearchResult \<lparr>sr_Results = [], sr_Truncated = True\<rparr>)"
| "fallbackForOutput (MessageResult r) = Some (MessageResult \<lparr>gm_ID = gm_ID r, gm_Mailbox = gm_Mailbox r,
     gm_UIDValidity = gm_UIDValidity r, gm_UID = gm_UID r, gm_Size = 0, gm_Headers = noHeaders, gm_Text = [],
     gm_TextSource = fallbackString (gm_TextSource r), gm_Attachments = [],
     gm_Truncation = (gm_Truncation r)\<lparr>mt_Output := True\<rparr>, gm_Truncated = True\<rparr>)"
| "fallbackForOutput (ThreadResult r) = Some (ThreadResult \<lparr>gt_ID = fallbackString (gt_ID r), gt_Mailbox = fallbackString (gt_Mailbox r),
     gt_Nodes = [], gt_Truncated = True, gt_UnavailableMembers = []\<rparr>)"
| "fallbackForOutput (AttachmentsResult r) = Some (AttachmentsResult \<lparr>la_ID = la_ID r, la_Mailbox = la_Mailbox r,
     la_UIDValidity = la_UIDValidity r, la_UID = la_UID r, la_Attachments = [],
     la_Truncation = (la_Truncation r)\<lparr>at_Output := True\<rparr>, la_Truncated = True\<rparr>)"
| "fallbackForOutput (DigestResult r) = Some (DigestResult \<lparr>dg_Mailbox = fallbackString (dg_Mailbox r), dg_Candidates = [],
     dg_TotalMessages = dg_TotalMessages r, dg_UnseenCount = dg_UnseenCount r, dg_Truncated = True\<rparr>)"
| "fallbackForOutput (TriageResults rows) = None"

fun selectableIdentity :: "tool_result \<Rightarrow> bool" where
  "selectableIdentity (MessageResult r) = True"
| "selectableIdentity (AttachmentsResult r) = True"
| "selectableIdentity _ = False"

section \<open>The bounded encoding\<close>

abbreviation maxToolResultBytes :: nat where "maxToolResultBytes \<equiv> 100000"

datatype encode_error = UnretainableIdentity

definition bare_result :: bytes where
  "bare_result = ''{'' @ json_string ''truncated'' @ '':true}''"

text \<open>What a loop that cannot shrink any more returns.\<close>

definition encode_fallback :: "tool_result \<Rightarrow> encode_error + bytes \<times> bool" where
  "encode_fallback r = (case fallbackForOutput r of
      Some f \<Rightarrow> if length (marshal f) \<le> maxToolResultBytes then Inr (marshal f, True)
        else if selectableIdentity r then Inl UnretainableIdentity else Inr (bare_result, True)
    | None \<Rightarrow> if selectableIdentity r then Inl UnretainableIdentity else Inr (bare_result, True))"

text \<open>What a shrink step makes smaller.\<close>

fun shrink_weight :: "tool_result \<Rightarrow> nat" where
  "shrink_weight (FoldersResult r) = length (lf_Folders r)"
| "shrink_weight (SearchResult r) = length (sr_Results r)"
| "shrink_weight (MessageResult r) = length (gm_Text r) + length (gm_Attachments r)"
| "shrink_weight (ThreadResult r) = length (gt_Nodes r) + length (gt_UnavailableMembers r)"
| "shrink_weight (AttachmentsResult r) = length (la_Attachments r)"
| "shrink_weight (DigestResult r) = length (dg_Candidates r)"
| "shrink_weight (TriageResults rows) = 0"

lemma rune_boundary_le: "rune_boundary s n \<le> n"
  by (induction s n rule: rune_boundary.induct) auto

lemma halve_length [simp]: "length (halve xs) = length xs div 2"
  by (simp add: halve_def)

lemma halveRunes_shorter: "v \<noteq> [] \<Longrightarrow> length (halveRunes v) < length v"
proof -
  assume v: "v \<noteq> []"
  then have "length v div 2 < length v" by simp
  with rune_boundary_le [of v "length v div 2"] have "rune_boundary v (length v div 2) < length v" by linarith
  with v show ?thesis by (simp add: halveRunes_def)
qed

lemma shrink_decreases: "shrinkForOutput r = Some r' \<Longrightarrow> shrink_weight r' < shrink_weight r"
  using halveRunes_shorter by (cases r) (auto simp: Let_def split: if_splits)

function encode_loop :: "tool_result \<Rightarrow> bool \<Rightarrow> encode_error + bytes \<times> bool" where
  "encode_loop r truncated =
     (if length (marshal r) \<le> maxToolResultBytes then Inr (marshal r, truncated)
      else (case shrinkForOutput r of
          None \<Rightarrow> encode_fallback r
        | Some r' \<Rightarrow> encode_loop r' True))"
  by pat_completeness auto
termination by (relation "measure (\<lambda>(r, t). shrink_weight r)") (auto simp: shrink_decreases)

declare encode_loop.simps [simp del]
declare encode_loop.simps [code]

definition encodeBounded :: "tool_result \<Rightarrow> encode_error + bytes \<times> bool" where
  "encodeBounded r = encode_loop r False"

section \<open>What the encoding keeps\<close>

text \<open>
  \<open>trimmed r r'\<close>: a result that was cut to fit. Lists and text are prefixes, the identity of a message is the
  same, a result that differs says so, and every earlier truncation reason is still there.
\<close>

fun trimmed :: "tool_result \<Rightarrow> tool_result \<Rightarrow> bool" where
  "trimmed (FoldersResult a) (FoldersResult b) = (prefix (lf_Folders b) (lf_Folders a) \<and> (b = a \<or> lf_Truncated b))"
| "trimmed (SearchResult a) (SearchResult b) = (prefix (sr_Results b) (sr_Results a) \<and> (b = a \<or> sr_Truncated b))"
| "trimmed (MessageResult a) (MessageResult b) =
     (gm_ID b = gm_ID a \<and> gm_Mailbox b = gm_Mailbox a \<and> gm_UIDValidity b = gm_UIDValidity a \<and> gm_UID b = gm_UID a \<and>
      prefix (gm_Text b) (gm_Text a) \<and> prefix (gm_Attachments b) (gm_Attachments a) \<and>
      (b = a \<or> gm_Truncated b \<and> gm_Truncation b = (gm_Truncation a)\<lparr>mt_Output := True\<rparr>))"
| "trimmed (ThreadResult a) (ThreadResult b) =
     (prefix (gt_ID b) (gt_ID a) \<and> prefix (gt_Mailbox b) (gt_Mailbox a) \<and> prefix (gt_Nodes b) (gt_Nodes a) \<and>
      prefix (gt_UnavailableMembers b) (gt_UnavailableMembers a) \<and> (b = a \<or> gt_Truncated b))"
| "trimmed (AttachmentsResult a) (AttachmentsResult b) =
     (la_ID b = la_ID a \<and> la_Mailbox b = la_Mailbox a \<and> la_UIDValidity b = la_UIDValidity a \<and> la_UID b = la_UID a \<and>
      prefix (la_Attachments b) (la_Attachments a) \<and>
      (b = a \<or> la_Truncated b \<and> la_Truncation b = (la_Truncation a)\<lparr>at_Output := True\<rparr>))"
| "trimmed (DigestResult a) (DigestResult b) =
     (prefix (dg_Mailbox b) (dg_Mailbox a) \<and> dg_TotalMessages b = dg_TotalMessages a \<and> dg_UnseenCount b = dg_UnseenCount a \<and>
      prefix (dg_Candidates b) (dg_Candidates a) \<and> (b = a \<or> dg_Truncated b))"
| "trimmed (TriageResults a) (TriageResults b) = (b = a)"
| "trimmed _ _ = False"

lemma trimmed_refl: "trimmed r r"
  by (cases r) simp_all

lemma take_prefix: "prefix (take n xs) xs"
  by (rule take_is_prefix)

lemma halve_prefix: "prefix (halve xs) xs"
  by (simp add: halve_def take_is_prefix)

lemma halveRunes_prefix: "prefix (halveRunes v) v"
  by (simp add: halveRunes_def take_is_prefix)

lemma fallbackString_prefix: "prefix (fallbackString v) v"
  by (simp add: fallbackString_def take_is_prefix)

lemma fallbackString_length: "length (fallbackString v) \<le> 1024"
  using rune_boundary_le [of v 1024] by (simp add: fallbackString_def)

lemma output_twice: "(t\<lparr>mt_Output := True\<rparr>)\<lparr>mt_Output := True\<rparr> = t\<lparr>mt_Output := True\<rparr>"
    "(u\<lparr>at_Output := True\<rparr>)\<lparr>at_Output := True\<rparr> = u\<lparr>at_Output := True\<rparr>"
  by simp_all

lemma trimmed_message_via:
  assumes "trimmed (MessageResult a') (MessageResult b)"
    and "gm_ID a' = gm_ID a" "gm_Mailbox a' = gm_Mailbox a" "gm_UIDValidity a' = gm_UIDValidity a" "gm_UID a' = gm_UID a"
    and "prefix (gm_Text a') (gm_Text a)" "prefix (gm_Attachments a') (gm_Attachments a)"
    and "gm_Truncated a'" "gm_Truncation a' = (gm_Truncation a)\<lparr>mt_Output := True\<rparr>"
  shows "trimmed (MessageResult a) (MessageResult b)"
proof -
  have "gm_Truncated b \<and> gm_Truncation b = (gm_Truncation a)\<lparr>mt_Output := True\<rparr>"
    using assms(1,8,9) by (auto simp: output_twice)
  moreover have "prefix (gm_Text b) (gm_Text a)" "prefix (gm_Attachments b) (gm_Attachments a)"
    using assms(1,6,7) prefix_order.trans by auto
  ultimately show ?thesis using assms(1-5) by simp
qed

lemma trimmed_shrink:
  assumes "shrinkForOutput r = Some r'" and "trimmed r' s"
  shows "trimmed r s"
proof (cases r)
  case (FoldersResult a)
  with assms obtain b where "s = FoldersResult b" by (cases s) (auto split: if_splits)
  with assms FoldersResult show ?thesis
    by (auto split: if_splits intro: prefix_order.trans [OF _ halve_prefix])
next
  case (SearchResult a)
  with assms obtain b where "s = SearchResult b" by (cases s) (auto split: if_splits)
  with assms SearchResult show ?thesis
    by (auto split: if_splits intro: prefix_order.trans [OF _ halve_prefix])
next
  case (MessageResult a)
  with assms obtain b where b: "s = MessageResult b" by (cases s) (auto simp: Let_def split: if_splits)
  show ?thesis
  proof (cases "gm_Text a = []")
    case True
    with assms(1) MessageResult have r': "r' = MessageResult (a\<lparr>gm_Attachments := halve (gm_Attachments a),
        gm_Truncation := (gm_Truncation a)\<lparr>mt_Output := True\<rparr>, gm_Truncated := True\<rparr>)"
      by (auto simp: Let_def split: if_splits)
    have "trimmed (MessageResult a) (MessageResult b)"
      by (rule trimmed_message_via [OF assms(2) [unfolded r' b]]) (simp_all add: True halve_prefix)
    then show ?thesis by (simp only: MessageResult b)
  next
    case False
    with assms(1) MessageResult have r': "r' = MessageResult (a\<lparr>gm_Text := halveRunes (gm_Text a),
        gm_Truncation := (gm_Truncation a)\<lparr>mt_Output := True\<rparr>, gm_Truncated := True\<rparr>)"
      by (auto simp: Let_def split: if_splits)
    have "trimmed (MessageResult a) (MessageResult b)"
      by (rule trimmed_message_via [OF assms(2) [unfolded r' b]]) (simp_all add: halveRunes_prefix)
    then show ?thesis by (simp only: MessageResult b)
  qed
next
  case (ThreadResult a)
  with assms obtain b where "s = ThreadResult b" by (cases s) (auto split: if_splits)
  with assms ThreadResult show ?thesis
    by (auto split: if_splits intro: prefix_order.trans [OF _ halve_prefix] prefix_order.trans [OF _ take_prefix])
next
  case (AttachmentsResult a)
  with assms obtain b where "s = AttachmentsResult b" by (cases s) (auto split: if_splits)
  with assms AttachmentsResult show ?thesis
    by (auto split: if_splits intro: prefix_order.trans [OF _ halve_prefix])
next
  case (DigestResult a)
  with assms obtain b where "s = DigestResult b" by (cases s) (auto split: if_splits)
  with assms DigestResult show ?thesis
    by (auto split: if_splits intro: prefix_order.trans [OF _ halve_prefix])
next
  case (TriageResults rows)
  with assms show ?thesis by simp
qed

lemma trimmed_fallback: "fallbackForOutput r = Some f \<Longrightarrow> trimmed r f"
  by (cases r) (auto simp: fallbackString_prefix)

lemma fallback_shrink: "shrinkForOutput r = Some r' \<Longrightarrow> fallbackForOutput r' = fallbackForOutput r"
  by (cases r) (auto simp: Let_def split: if_splits)

lemma selectable_shrink: "shrinkForOutput r = Some r' \<Longrightarrow> selectableIdentity r' = selectableIdentity r"
  by (cases r) (auto simp: Let_def split: if_splits)

section \<open>Sizes\<close>

lemma format_uint_length: "n < 10 ^ Suc k \<Longrightarrow> length (format_uint n) \<le> Suc k"
proof (induction k arbitrary: n)
  case 0
  then show ?case by (simp add: format_uint.simps)
next
  case (Suc k)
  show ?case
  proof (cases "n < 10")
    case True
    then show ?thesis by (simp add: format_uint.simps)
  next
    case False
    have "n div 10 < 10 ^ Suc k" using Suc.prems by (simp add: less_mult_imp_div_less mult.commute)
    from Suc.IH [OF this] False show ?thesis by (simp add: format_uint.simps [of n])
  qed
qed

definition int64_count :: "int \<Rightarrow> bool" where
  "int64_count n \<longleftrightarrow> 0 \<le> n \<and> n < 2 ^ 63"

lemma json_int_length: "int64_count n \<Longrightarrow> length (json_int n) \<le> 19"
proof -
  assume n: "int64_count n"
  then have "nat n < 10 ^ Suc 18" by (simp add: int64_count_def nat_less_iff)
  from format_uint_length [OF this] n show ?thesis by (simp add: json_int_def int64_count_def)
qed

lemma fallback_small_thread: "length (marshal (ThreadResult \<lparr>gt_ID = fallbackString a, gt_Mailbox = fallbackString b,
     gt_Nodes = [], gt_Truncated = True, gt_UnavailableMembers = []\<rparr>)) \<le> maxToolResultBytes"
  using json_string_length [of "fallbackString a"] json_string_length [of "fallbackString b"]
    fallbackString_length [of a] fallbackString_length [of b] json_string_length [of "''id''"] json_string_length [of "''mailbox''"]
    json_string_length [of "''nodes''"] json_string_length [of "''truncated''"]
  by (simp add: marshal_thread_def json_struct_def json_field_def json_array_def flag_omit_def omitempty_def json_bool_def)

lemma fallback_small_digest: "int64_count m \<Longrightarrow> int64_count n \<Longrightarrow> length (marshal (DigestResult \<lparr>dg_Mailbox = fallbackString a,
     dg_Candidates = [], dg_TotalMessages = m, dg_UnseenCount = n, dg_Truncated = True\<rparr>)) \<le> maxToolResultBytes"
  using json_string_length [of "fallbackString a"] fallbackString_length [of a] json_int_length [of m] json_int_length [of n]
    json_string_length [of "''mailbox''"] json_string_length [of "''candidates''"] json_string_length [of "''totalMessages''"]
    json_string_length [of "''unseenCount''"] json_string_length [of "''truncated''"]
  by (simp add: marshal_digest_def json_struct_def json_field_def json_array_def flag_omit_def omitempty_def json_bool_def)

lemma fallback_small_lists:
  "length (marshal (FoldersResult \<lparr>lf_Folders = [], lf_Truncated = True\<rparr>)) \<le> maxToolResultBytes"
  "length (marshal (SearchResult \<lparr>sr_Results = [], sr_Truncated = True\<rparr>)) \<le> maxToolResultBytes"
  by code_simp+

text \<open>The results that may have to be replaced by the bare object.\<close>

fun without_fallback :: "tool_result \<Rightarrow> bool" where
  "without_fallback (TriageResults rows) = True"
| "without_fallback (DigestResult d) = (\<not> int64_count (dg_TotalMessages d) \<or> \<not> int64_count (dg_UnseenCount d))"
| "without_fallback _ = False"

lemma fallback_fits:
  assumes "\<not> selectableIdentity r" and "\<not> without_fallback r"
  shows "\<exists>f. fallbackForOutput r = Some f \<and> length (marshal f) \<le> maxToolResultBytes"
  using assms fallback_small_lists fallback_small_thread fallback_small_digest
  by (cases r) (simp_all del: marshal.simps)

lemma without_fallback_shrink: "shrinkForOutput r = Some r' \<Longrightarrow> without_fallback r' = without_fallback r"
  by (cases r) (auto simp: Let_def split: if_splits)

definition encoded_ok :: "tool_result \<Rightarrow> encode_error + bytes \<times> bool \<Rightarrow> bool" where
  "encoded_ok r x = (case x of
      Inl e \<Rightarrow> selectableIdentity r \<and> (\<exists>f. fallbackForOutput r = Some f \<and> maxToolResultBytes < length (marshal f))
    | Inr (encoded, clipped) \<Rightarrow> length encoded \<le> maxToolResultBytes \<and>
        ((\<exists>r'. encoded = marshal r' \<and> trimmed r r' \<and> (clipped \<or> r' = r)) \<or> clipped \<and> encoded = bare_result \<and> without_fallback r))"

lemma encode_fallback_ok: "encoded_ok r (encode_fallback r)"
proof (cases "fallbackForOutput r")
  case None
  then have "without_fallback r \<and> \<not> selectableIdentity r" by (cases r) simp_all
  moreover have "length bare_result \<le> maxToolResultBytes" by code_simp
  ultimately show ?thesis by (simp add: encode_fallback_def encoded_ok_def None)
next
  case (Some f)
  show ?thesis
  proof (cases "length (marshal f) \<le> maxToolResultBytes")
    case True
    then show ?thesis using trimmed_fallback [OF Some] by (auto simp: encode_fallback_def encoded_ok_def Some)
  next
    case False
    have "length bare_result \<le> maxToolResultBytes" by code_simp
    moreover have "selectableIdentity r \<or> without_fallback r" using fallback_fits [of r] Some False by auto
    ultimately show ?thesis using False by (auto simp: encode_fallback_def encoded_ok_def Some)
  qed
qed

lemma encode_loop_flag: "encode_loop r True = Inr (encoded, clipped) \<Longrightarrow> clipped"
proof (induction r "True" rule: encode_loop.induct)
  case (1 r)
  then show ?case
    by (subst (asm) (2) encode_loop.simps) (auto simp: encode_fallback_def split: if_splits option.splits)
qed

lemma encoded_ok_shrink:
  assumes "shrinkForOutput r = Some r'" and "encoded_ok r' x" and "\<And>encoded clipped. x = Inr (encoded, clipped) \<Longrightarrow> clipped"
  shows "encoded_ok r x"
proof (cases x)
  case (Inl e)
  with assms(2) selectable_shrink [OF assms(1)] fallback_shrink [OF assms(1)] show ?thesis by (simp add: encoded_ok_def)
next
  case (Inr y)
  obtain encoded clipped where y: "y = (encoded, clipped)" by (cases y)
  with assms(3) Inr have clipped by simp
  with assms(2) Inr y trimmed_shrink [OF assms(1)] without_fallback_shrink [OF assms(1)] show ?thesis
    by (auto simp: encoded_ok_def)
qed

lemma encode_loop_ok: "encoded_ok r (encode_loop r clipped)"
proof (induction r clipped rule: encode_loop.induct)
  case (1 r clipped)
  show ?case
  proof (cases "length (marshal r) \<le> maxToolResultBytes")
    case True
    then show ?thesis using trimmed_refl [of r] by (subst encode_loop.simps) (auto simp: encoded_ok_def)
  next
    case False
    show ?thesis
    proof (cases "shrinkForOutput r")
      case None
      with False encode_fallback_ok [of r] show ?thesis by (subst encode_loop.simps) simp
    next
      case (Some r')
      have "encode_loop r clipped = encode_loop r' True" using False Some by (subst encode_loop.simps) simp
      moreover have "encoded_ok r (encode_loop r' True)"
        using encoded_ok_shrink [OF Some 1 [OF False Some]] encode_loop_flag by blast
      ultimately show ?thesis by simp
    qed
  qed
qed

text \<open>
  C16. A tool result is always encoded within 100000 bytes, as the complete JSON of a trimmed result: prefixes of
  the original lists, the identity of a message unchanged, every earlier truncation reason kept and the
  cut flagged. A message result is refused only when even its identity does not fit, and only a triage
  result (or counters no server can send) could become the bare object without content.
\<close>

theorem encodeBounded_trimmed:
  "case encodeBounded r of
      Inl e \<Rightarrow> selectableIdentity r \<and> (\<exists>f. fallbackForOutput r = Some f \<and> maxToolResultBytes < length (marshal f))
    | Inr (encoded, clipped) \<Rightarrow> length encoded \<le> maxToolResultBytes \<and>
        ((\<exists>r'. encoded = marshal r' \<and> trimmed r r' \<and> (clipped \<or> r' = r)) \<or> clipped \<and> encoded = bare_result \<and> without_fallback r)"
  using encode_loop_ok [of r False] by (simp add: encodeBounded_def encoded_ok_def)

end
