(* ===== verification/Attachment_Structure.thy ===== *)
theory Attachment_Structure
  imports Mime_Message Structure_Dialogue Mail_Reads "HOL-Library.Char_ord" "HOL-Library.List_Lexorder"
begin

text \<open>
  Attachment metadata from a BODYSTRUCTURE (\<^verbatim>\<open>bridge/attachment_projection.go\<close>,
  \<^verbatim>\<open>bridge/attachment_structure.go\<close>): the projection of a decoded structure under the limits of the body
  path, and the adapter operation around it. \<^verbatim>\<open>mime.ParseMediaType\<close> is the one of \<open>mime_env\<close>.
\<close>

section \<open>Decoded structures\<close>

text \<open>
  A Go map from strings to strings, as an association list; go-imap's \<^verbatim>\<open>BodyStructure\<close>, with the nil
  pointers and foreign types its interface admits. The last component of a part is what its
  \<^verbatim>\<open>Disposition()\<close> returns.
\<close>

type_synonym params = "(bytes \<times> bytes) list"

datatype bodyStructure =
    UnknownStructure
  | NilSinglePart
  | NilMultiPart
  | SinglePart bytes bytes params uint32 "(bytes \<times> params) option"
  | MultiPart "bodyStructure list" bytes "params option" "(bytes \<times> params) option"

fun structure_disposition :: "bodyStructure \<Rightarrow> (bytes \<times> params) option" where
  "structure_disposition (SinglePart t s ps n d) = d"
| "structure_disposition (MultiPart cs s ps d) = d"
| "structure_disposition _ = None"

abbreviation malformed_mime :: mime_error where "malformed_mime \<equiv> NormalizeError errorCodeMalformedMIME"

definition structureParameterToken :: "bytes \<Rightarrow> bool" where
  "structureParameterToken key \<longleftrightarrow> key \<noteq> [] \<and>
     list_all (\<lambda>c. 32 < (of_char c :: nat) \<and> (of_char c :: nat) < 127 \<and> c \<notin> set ([CHR 0x5C, CHR 0x22] @ ''()<>@,;:/[]?='')) key"

fun quote_value :: "bytes \<Rightarrow> bytes" where
  "quote_value [] = []"
| "quote_value (c # cs) = (if c = CHR 0x5C then [CHR 0x5C, CHR 0x5C] else if c = CHR 0x22 then [CHR 0x5C, CHR 0x22] else [c]) @ quote_value cs"

definition structure_parameter :: "params \<Rightarrow> bytes \<Rightarrow> bytes" where
  "structure_parameter ps key = (case map_of ps key of None \<Rightarrow> [] | Some v \<Rightarrow> v)"

fun write_parameters :: "params \<Rightarrow> bytes list \<Rightarrow> bytes \<Rightarrow> bytes option" where
  "write_parameters ps [] header = Some header"
| "write_parameters ps (key # keys) header =
     (if \<not> structureParameterToken key then None
      else write_parameters ps keys (header @ ''; '' @ key @ ''='' @ [CHR 0x22] @ quote_value (structure_parameter ps key) @ [CHR 0x22]))"

definition parseStructureMediaType :: "mime_env \<Rightarrow> bytes \<Rightarrow> params \<Rightarrow> mime_error + bytes \<times> (bytes \<Rightarrow> bytes)" where
  "parseStructureMediaType env base ps =
     (if CHR '';'' \<in> set base then Inl malformed_mime
      else (case write_parameters ps (sort (remdups (map fst ps))) base of
          None \<Rightarrow> Inl malformed_mime
        | Some header \<Rightarrow> (case me_ParseMediaType env header of
            None \<Rightarrow> Inl malformed_mime
          | Some r \<Rightarrow> Inr r)))"

record projectedEntity =
  pe_mediaType :: bytes
  pe_parameters :: "bytes \<Rightarrow> bytes"
  pe_disposition :: bytes
  pe_dispositionParameters :: "bytes \<Rightarrow> bytes"
  pe_children :: "bodyStructure list"
  pe_hasTransferOctets :: bool
  pe_transferOctets :: uint32

fun structure_children :: "bodyStructure \<Rightarrow> bodyStructure list" where
  "structure_children (MultiPart cs s ps d) = cs"
| "structure_children _ = []"

text \<open>The type switch: media type, parameters, and whether the part has octets of its own.\<close>

fun structure_media :: "bodyStructure \<Rightarrow> (bytes \<times> params \<times> uint32 option) option" where
  "structure_media (SinglePart t s ps n d) = Some (t @ ''/'' @ s, ps, Some n)"
| "structure_media (MultiPart cs s ps d) = Some (''multipart/'' @ s, (case ps of None \<Rightarrow> [] | Some p \<Rightarrow> p), None)"
| "structure_media _ = None"

definition structureEntity :: "mime_env \<Rightarrow> bodyStructure \<Rightarrow> mime_error + projectedEntity" where
  "structureEntity env s = (case structure_media s of
      None \<Rightarrow> Inl malformed_mime
    | Some (mediaType, parameters, octets) \<Rightarrow> (case parseStructureMediaType env mediaType parameters of
        Inl e \<Rightarrow> Inl e
      | Inr (m, ps) \<Rightarrow>
          (let entity = \<lparr>pe_mediaType = m, pe_parameters = ps, pe_disposition = [], pe_dispositionParameters = (\<lambda>k. []),
             pe_children = structure_children s, pe_hasTransferOctets = (octets \<noteq> None),
             pe_transferOctets = (case octets of None \<Rightarrow> 0 | Some n \<Rightarrow> n)\<rparr> in
           case structure_disposition s of
             None \<Rightarrow> Inr entity
           | Some (v, dps) \<Rightarrow> (case parseStructureMediaType env v dps of
               Inl e \<Rightarrow> Inl e
             | Inr (d, ds) \<Rightarrow> Inr (entity\<lparr>pe_disposition := d, pe_dispositionParameters := ds\<rparr>)))))"

section \<open>The projection\<close>

record AttachmentStructureEntry =
  ae_Metadata :: AttachmentMetadata
  ae_HasTransferOctets :: bool
  ae_TransferOctets :: uint32

record attachmentProjector =
  ap_parts :: int
  ap_attachments :: "AttachmentStructureEntry list"
  ap_truncation :: Truncation

definition entity_filename :: "projectedEntity \<Rightarrow> bytes" where
  "entity_filename e = (if pe_dispositionParameters e ''filename'' = [] then pe_parameters e ''name''
     else pe_dispositionParameters e ''filename'')"

text \<open>One entry, and whether a field of it was cut.\<close>

definition projected_entry :: "NormalizeLimits \<Rightarrow> projectedEntity \<Rightarrow> bytes \<Rightarrow> AttachmentStructureEntry \<times> bool" where
  "projected_entry limits e filename =
     (case (truncateUTF8 filename (lMaxFilenameBytes limits), truncateUTF8 (pe_mediaType e) (lMaxContentTypeBytes limits),
            truncateUTF8 (pe_disposition e) (lMaxDispositionBytes limits)) of
        ((f, ft), (ct, ctt), (d, dt)) \<Rightarrow>
          (let size = parse_int64 (pe_dispositionParameters e ''size'');
               declared = (case size of Some n \<Rightarrow> 0 \<le> n | None \<Rightarrow> False) in
           (\<lparr>ae_Metadata = \<lparr>a_Filename = f, a_ContentType = ct, a_Disposition = d,
               a_DeclaredSize = (if declared then the size else 0), a_HasDeclaredSize = declared\<rparr>,
             ae_HasTransferOctets = pe_hasTransferOctets e, ae_TransferOctets = pe_transferOctets e\<rparr>, ft \<or> ctt \<or> dt)))"

definition mark :: "(Truncation \<Rightarrow> Truncation) \<Rightarrow> attachmentProjector \<Rightarrow> attachmentProjector" where
  "mark f p = p\<lparr>ap_truncation := f (ap_truncation p)\<rparr>"

definition project_append :: "NormalizeLimits \<Rightarrow> projectedEntity \<Rightarrow> bytes \<Rightarrow> attachmentProjector \<Rightarrow> attachmentProjector" where
  "project_append limits e filename p =
     (if lMaxAttachmentCount limits \<le> int (length (ap_attachments p)) then mark (t_Attachments_update (\<lambda>_. True)) p
      else (case projected_entry limits e filename of (entry, clipped) \<Rightarrow>
        (if clipped then mark (t_Attachments_update (\<lambda>_. True)) p else p)\<lparr>ap_attachments := ap_attachments p @ [entry]\<rparr>))"

lemma structureEntity_children: "structureEntity env s = Inr e \<Longrightarrow> pe_children e = structure_children s"
  by (auto simp: structureEntity_def Let_def split: option.splits sum.splits prod.splits)

lemma structure_children_size: "c \<in> set (structure_children s) \<Longrightarrow> size c < size s"
  by (cases s) (auto simp: less_Suc_eq_le dest!: size_list_estimation' [OF _ order_refl, of _ _ size])

lemma structure_children_list: "structure_children s \<noteq> [] \<Longrightarrow> size_list size (structure_children s) < size s"
  by (cases s) auto

text \<open>\<open>visit_children\<close> is the loop over the children; an error ends it.\<close>

function visit :: "mime_env \<Rightarrow> NormalizeLimits \<Rightarrow> bodyStructure \<Rightarrow> int \<Rightarrow> attachmentProjector \<Rightarrow>
    mime_error option \<times> attachmentProjector"
  and visit_children :: "mime_env \<Rightarrow> NormalizeLimits \<Rightarrow> bodyStructure list \<Rightarrow> int \<Rightarrow> attachmentProjector \<Rightarrow>
    mime_error option \<times> attachmentProjector" where
  "visit env limits s depth p =
     (if lMaxMIMEDepth limits < depth then (None, mark (t_MIMEDepth_update (\<lambda>_. True)) p)
      else (case structureEntity env s of
          Inl e \<Rightarrow> (Some e, p)
        | Inr entity \<Rightarrow>
            if pe_disposition entity = ''attachment'' \<or> entity_filename entity \<noteq> []
            then (None, project_append limits entity (entity_filename entity) p)
            else (case visit_children env limits (pe_children entity) depth p of
                (Some e, p') \<Rightarrow> (Some e, p')
              | (None, p') \<Rightarrow>
                  (None, if pe_mediaType entity = ''message/rfc822'' \<or> pe_mediaType entity = ''message/global''
                   then mark (t_MIMEDepth_update (\<lambda>_. True)) p' else p'))))"
| "visit_children env limits [] depth p = (None, p)"
| "visit_children env limits (c # cs) depth p =
     (if lMaxMIMEParts limits \<le> ap_parts p then (Some PartsLimit, mark (t_MIMEParts_update (\<lambda>_. True)) p)
      else (case visit env limits c (depth + 1) (p\<lparr>ap_parts := ap_parts p + 1\<rparr>) of
          (Some e, p') \<Rightarrow> (Some e, p')
        | (None, p') \<Rightarrow> visit_children env limits cs depth p'))"
  by pat_completeness auto
termination
proof (relation "measure (\<lambda>x. case x of Inl (env, limits, s, depth, p) \<Rightarrow> 2 * size s + 1
    | Inr (env, limits, cs, depth, p) \<Rightarrow> 2 * size_list size cs)", goal_cases)
  case (2 env limits s depth p e)
  then show ?case
    using structure_children_list [of s] structureEntity_children [of env s e] by (cases "structure_children s") auto
qed auto

declare visit.simps [simp del]
declare visit.simps [code] visit_children.simps [code]

definition projectAttachmentStructure :: "mime_env \<Rightarrow> bodyStructure \<Rightarrow> Bounds \<Rightarrow>
    mime_error + AttachmentStructureEntry list \<times> Truncation" where
  "projectAttachmentStructure env s b =
     (let limits = normalizedLimits (zeroLimits\<lparr>lMaxMIMEParts := MaxMimeParts b, lMaxAttachmentCount := MaxAttachmentCount b\<rparr>) in
      case visit env limits s 0 \<lparr>ap_parts = 1, ap_attachments = [], ap_truncation = noTruncation\<rparr> of
        (e, p) \<Rightarrow> (case e of
            Some x \<Rightarrow> if x \<noteq> PartsLimit then Inl x else Inr (ap_attachments p, ap_truncation p)
          | None \<Rightarrow> Inr (ap_attachments p, ap_truncation p)))"

section \<open>What a projection lists\<close>

text \<open>The attachments of a structure without any limit, in server order: nothing inside one is listed.\<close>

definition qualifies :: "projectedEntity \<Rightarrow> bool" where
  "qualifies e \<longleftrightarrow> pe_disposition e = ''attachment'' \<or> entity_filename e \<noteq> []"

function listed :: "mime_env \<Rightarrow> bodyStructure \<Rightarrow> projectedEntity list" where
  "listed env s = (case structureEntity env s of
      Inl e \<Rightarrow> []
    | Inr e \<Rightarrow> if qualifies e then [e] else concat (map (listed env) (pe_children e)))"
  by pat_completeness auto
termination
  by (relation "measure (\<lambda>(env, s). size s)") (auto simp: structureEntity_children structure_children_size)

declare listed.simps [simp del]
declare listed.simps [code]

definition full_entry :: "NormalizeLimits \<Rightarrow> projectedEntity \<Rightarrow> AttachmentStructureEntry" where
  "full_entry limits e = fst (projected_entry limits e (entity_filename e))"

definition fits :: "NormalizeLimits \<Rightarrow> projectedEntity \<Rightarrow> bool" where
  "fits limits e \<longleftrightarrow> int (length (entity_filename e)) \<le> lMaxFilenameBytes limits \<and>
     int (length (pe_mediaType e)) \<le> lMaxContentTypeBytes limits \<and> int (length (pe_disposition e)) \<le> lMaxDispositionBytes limits"

lemma projected_entry_fits: "snd (projected_entry limits e (entity_filename e)) \<longleftrightarrow> \<not> fits limits e"
  by (simp add: projected_entry_def truncateUTF8_def fits_def Let_def not_le split: prod.split)

text \<open>What a part of the walk adds, \<open>es\<close> being all it could list.\<close>

definition visited :: "NormalizeLimits \<Rightarrow> projectedEntity list \<Rightarrow> attachmentProjector \<Rightarrow> mime_error option \<times> attachmentProjector \<Rightarrow> bool" where
  "visited limits es p r \<longleftrightarrow> (\<exists>new. ap_attachments (snd r) = ap_attachments p @ new \<and> subseq new (map (full_entry limits) es) \<and>
     (truncation_Any (ap_truncation p) \<longrightarrow> truncation_Any (ap_truncation (snd r))) \<and>
     (\<not> truncation_Any (ap_truncation (snd r)) \<longrightarrow> fst r = None \<longrightarrow>
        new = map (full_entry limits) es \<and> list_all (fits limits) es) \<and>
     (fst r \<noteq> None \<longrightarrow> fst r = Some malformed_mime \<or> (fst r = Some PartsLimit \<and> truncation_Any (ap_truncation (snd r)))) \<and>
     (int (length (ap_attachments p)) \<le> lMaxAttachmentCount limits \<longrightarrow>
        int (length (ap_attachments (snd r))) \<le> lMaxAttachmentCount limits))"

lemma mark_simps [simp]:
  "ap_attachments (mark f p) = ap_attachments p" "ap_parts (mark f p) = ap_parts p"
  "ap_truncation (mark f p) = f (ap_truncation p)"
  by (simp_all add: mark_def)

lemma marked_any: "truncation_Any (t_Attachments_update (\<lambda>_. True) t)" "truncation_Any (t_MIMEDepth_update (\<lambda>_. True) t)"
    "truncation_Any (t_MIMEParts_update (\<lambda>_. True) t)"
  by (simp_all add: truncation_Any_def)

lemma visited_nothing:
  "truncation_Any (ap_truncation q) \<Longrightarrow> ap_attachments q = ap_attachments p \<Longrightarrow>
     e = None \<or> e = Some PartsLimit \<or> e = Some malformed_mime \<Longrightarrow> visited limits es p (e, q)"
  by (auto simp: visited_def intro!: exI [of _ "[]"])

lemma visited_entry: "visited limits [e] p (None, project_append limits e (entity_filename e) p)"
proof (cases "lMaxAttachmentCount limits \<le> int (length (ap_attachments p))")
  case True
  then show ?thesis
    by (simp add: project_append_def) (rule visited_nothing, simp_all add: marked_any)
next
  case False
  obtain entry clipped where pe: "projected_entry limits e (entity_filename e) = (entry, clipped)" by (metis prod.exhaust)
  then have "clipped \<longleftrightarrow> \<not> fits limits e" "full_entry limits e = entry"
    using projected_entry_fits [of limits e] by (simp_all add: full_entry_def)
  with False pe show ?thesis
    by (simp add: visited_def project_append_def) (auto simp: truncation_Any_def)
qed

lemma visited_then:
  assumes "visited limits es p (None, q)" and "visited limits fs q r"
  shows "visited limits (es @ fs) p r"
proof -
  obtain n1 where n1: "ap_attachments q = ap_attachments p @ n1" "subseq n1 (map (full_entry limits) es)"
    "truncation_Any (ap_truncation p) \<longrightarrow> truncation_Any (ap_truncation q)"
    "\<not> truncation_Any (ap_truncation q) \<longrightarrow> n1 = map (full_entry limits) es \<and> list_all (fits limits) es"
    "int (length (ap_attachments p)) \<le> lMaxAttachmentCount limits \<longrightarrow> int (length (ap_attachments q)) \<le> lMaxAttachmentCount limits"
    using assms(1) by (auto simp: visited_def)
  obtain n2 where n2: "ap_attachments (snd r) = ap_attachments q @ n2" "subseq n2 (map (full_entry limits) fs)"
    "truncation_Any (ap_truncation q) \<longrightarrow> truncation_Any (ap_truncation (snd r))"
    "\<not> truncation_Any (ap_truncation (snd r)) \<longrightarrow> fst r = None \<longrightarrow> n2 = map (full_entry limits) fs \<and> list_all (fits limits) fs"
    "fst r \<noteq> None \<longrightarrow> fst r = Some malformed_mime \<or> (fst r = Some PartsLimit \<and> truncation_Any (ap_truncation (snd r)))"
    "int (length (ap_attachments q)) \<le> lMaxAttachmentCount limits \<longrightarrow> int (length (ap_attachments (snd r))) \<le> lMaxAttachmentCount limits"
    using assms(2) by (auto simp: visited_def)
  have "subseq (n1 @ n2) (map (full_entry limits) (es @ fs))"
    using n1(2) n2(2) by (simp add: list_emb_append_mono)
  then show ?thesis
    unfolding visited_def using n1 n2 by (intro exI [of _ "n1 @ n2"]) auto
qed

lemma visited_error:
  "visited limits es p (Some e, q) \<Longrightarrow> visited limits (es @ fs) p (Some e, q)"
  unfolding visited_def by (elim exE conjE, intro exI conjI) (assumption | simp add: list_emb_prefix)+

lemma visited_start: "visited limits es (p\<lparr>ap_parts := n\<rparr>) r = visited limits es p r"
  by (simp add: visited_def)

lemma visited_refl: "visited limits [] p (None, p)"
  by (simp add: visited_def)

lemma visited_mark: "visited limits es p (None, q) \<Longrightarrow> visited limits es p (None, mark (t_MIMEDepth_update (\<lambda>_. True)) q)"
  unfolding visited_def by (elim exE conjE, intro exI conjI) (assumption | simp add: marked_any)+

lemma structureEntity_error: "structureEntity env s = Inl e \<Longrightarrow> e = malformed_mime"
  by (auto simp: structureEntity_def parseStructureMediaType_def Let_def split: option.splits sum.splits prod.splits if_splits)

lemma visit_visited:
  "visited limits (listed env s) p (visit env limits s depth p)"
  "visited limits (concat (map (listed env) cs)) p (visit_children env limits cs depth p)"
proof (induction env limits s depth p and env limits cs depth p rule: visit_visit_children.induct)
  case (1 env limits s depth p)
  show ?case
  proof (cases "lMaxMIMEDepth limits < depth")
    case True
    then show ?thesis
      by (subst visit.simps) (simp, rule visited_nothing, simp_all add: marked_any)
  next
    case False
    show ?thesis
    proof (cases "structureEntity env s")
      case (Inl e)
      with False structureEntity_error [OF Inl] show ?thesis
        by (subst visit.simps) (simp add: visited_def)
    next
      case (Inr entity)
      show ?thesis
      proof (cases "qualifies entity")
        case True
        then have "listed env s = [entity]" using Inr by (subst listed.simps) simp
        with True False Inr visited_entry [of limits entity p] show ?thesis
          by (subst visit.simps) (simp add: qualifies_def)
      next
        case q: False
        then have l: "listed env s = concat (map (listed env) (pe_children entity))" using Inr by (subst listed.simps) simp
        have v: "visit env limits s depth p = (case visit_children env limits (pe_children entity) depth p of
                (Some e, p') \<Rightarrow> (Some e, p')
              | (None, p') \<Rightarrow>
                  (None, if pe_mediaType entity = ''message/rfc822'' \<or> pe_mediaType entity = ''message/global''
                   then mark (t_MIMEDepth_update (\<lambda>_. True)) p' else p'))"
          using False Inr q by (subst visit.simps) (simp add: qualifies_def)
        obtain r p' where r: "visit_children env limits (pe_children entity) depth p = (r, p')" by (metis prod.exhaust)
        have "visited limits (concat (map (listed env) (pe_children entity))) p (r, p')"
          using 1 [OF False Inr] q r by (simp add: qualifies_def)
        then show ?thesis unfolding v l r by (cases r) (auto intro: visited_mark)
      qed
    qed
  qed
next
  case (2 env limits depth p)
  then show ?case by (simp add: visited_refl)
next
  case (3 env limits c cs depth p)
  show ?case
  proof (cases "lMaxMIMEParts limits \<le> ap_parts p")
    case True
    then show ?thesis
      by simp (rule visited_nothing, simp_all add: marked_any)
  next
    case False
    obtain r p' where r: "visit env limits c (depth + 1) (p\<lparr>ap_parts := ap_parts p + 1\<rparr>) = (r, p')" by (metis prod.exhaust)
    have c: "visited limits (listed env c) p (r, p')" using 3(1) [OF False] r by (simp add: visited_start)
    show ?thesis
    proof (cases r)
      case None
      with 3(2) [OF False r [symmetric] None] c r False visited_then show ?thesis by simp
    next
      case (Some e)
      with c r False visited_error show ?thesis by simp
    qed
  qed
qed

text \<open>
  A projected list never holds more entries than the bound allows; what it holds are the attachments of
  the structure in server order; and a list that comes without any truncation flag is complete: it is
  exactly what a walk without limits lists, every field whole.
\<close>

theorem projectAttachmentStructure_complete:
  assumes "projectAttachmentStructure env s b = Inr (entries, truncation)"
  shows "\<exists>limits. limits = normalizedLimits (zeroLimits\<lparr>lMaxMIMEParts := MaxMimeParts b, lMaxAttachmentCount := MaxAttachmentCount b\<rparr>) \<and>
    int (length entries) \<le> lMaxAttachmentCount limits \<and> subseq entries (map (full_entry limits) (listed env s)) \<and>
    (truncation_Any truncation \<or> entries = map (full_entry limits) (listed env s) \<and> list_all (fits limits) (listed env s))"
proof -
  define limits where "limits = normalizedLimits (zeroLimits\<lparr>lMaxMIMEParts := MaxMimeParts b, lMaxAttachmentCount := MaxAttachmentCount b\<rparr>)"
  define p where "p = \<lparr>ap_parts = 1, ap_attachments = [], ap_truncation = noTruncation\<rparr>"
  obtain e q where v: "visit env limits s 0 p = (e, q)" by (metis prod.exhaust)
  have r: "entries = ap_attachments q" "truncation = ap_truncation q" "e = None \<or> e = Some PartsLimit"
    using assms v by (auto simp: projectAttachmentStructure_def limits_def [symmetric] p_def [symmetric] split: option.splits if_splits)
  have "0 < lMaxAttachmentCount limits" by (simp add: limits_def normalizedLimits_mime)
  moreover have "visited limits (listed env s) p (e, q)" using visit_visited(1) [of limits env s p 0] v by simp
  ultimately show ?thesis
    unfolding limits_def [symmetric] using r by (auto simp: visited_def p_def)
qed

section \<open>The same list from the body\<close>

text \<open>
  When a structure describes a body, both paths list the same. \<open>corresponds\<close> is that description: the
  same parsed media types in lower case, the children of a multipart are its parts, a text leaf decodes,
  and there is no \<^verbatim>\<open>message/global\<close>, which only the projection flags.
\<close>

definition heads :: "mime_env \<Rightarrow> projectedEntity \<Rightarrow> header_map \<Rightarrow> bool" where
  "heads env e h \<longleftrightarrow>
     media_type env ''text/plain'' (header_Get h ''Content-Type'') = Some (pe_mediaType e, pe_parameters e) \<and>
     media_type env [] (header_Get h ''Content-Disposition'') = Some (pe_disposition e, pe_dispositionParameters e) \<and>
     fold_runes (pe_mediaType e) = pe_mediaType e \<and> fold_runes (pe_disposition e) = pe_disposition e"

definition decodes :: "mime_env \<Rightarrow> NormalizeLimits \<Rightarrow> projectedEntity \<Rightarrow> header_map \<Rightarrow> reader \<Rightarrow> bool" where
  "decodes env limits e h b \<longleftrightarrow>
     (case decodeTransfer env b (header_Get h ''Content-Transfer-Encoding'') (lMaxDecodedTextBytes limits) of
        Inl x \<Rightarrow> False
      | Inr (decoded, t) \<Rightarrow> (case decodeCharset env decoded (pe_parameters e ''charset'') (lMaxDecodedTextBytes limits) of
          Inl x \<Rightarrow> False | Inr r \<Rightarrow> True))"

inductive corresponds :: "mime_env \<Rightarrow> NormalizeLimits \<Rightarrow> bodyStructure \<Rightarrow> header_map \<times> reader \<Rightarrow> bool" for env limits where
  attachment: "structureEntity env s = Inr e \<Longrightarrow> heads env e h \<Longrightarrow> qualifies e \<Longrightarrow> corresponds env limits s (h, b)"
| leaf: "structureEntity env s = Inr e \<Longrightarrow> heads env e h \<Longrightarrow> \<not> qualifies e \<Longrightarrow> pe_children e = [] \<Longrightarrow>
    \<not> has_prefix (to_lower (pe_mediaType e)) ''multipart/'' \<Longrightarrow> pe_mediaType e \<noteq> ''message/global'' \<Longrightarrow>
    decodes env limits e h b \<Longrightarrow> corresponds env limits s (h, b)"
| container: "structureEntity env s = Inr e \<Longrightarrow> heads env e h \<Longrightarrow> \<not> qualifies e \<Longrightarrow>
    has_prefix (to_lower (pe_mediaType e)) ''multipart/'' \<Longrightarrow> pe_parameters e ''boundary'' \<noteq> [] \<Longrightarrow>
    length (pe_parameters e ''boundary'') \<le> 200 \<Longrightarrow> pe_mediaType e \<noteq> ''message/rfc822'' \<Longrightarrow>
    pe_mediaType e \<noteq> ''message/global'' \<Longrightarrow>
    me_Parts env (pe_parameters e ''boundary'') b = (parts, True) \<Longrightarrow>
    list_all2 (corresponds env limits) (pe_children e) parts \<Longrightarrow> corresponds env limits s (h, b)"

text \<open>The entities a walk visits at most.\<close>

function entities :: "mime_env \<Rightarrow> bodyStructure \<Rightarrow> nat" where
  "entities env s = Suc (case structureEntity env s of
      Inl e \<Rightarrow> 0
    | Inr e \<Rightarrow> if qualifies e then 0 else sum_list (map (entities env) (pe_children e)))"
  by pat_completeness auto
termination
  by (relation "measure (\<lambda>(env, s). size s)") (auto simp: structureEntity_children structure_children_size)

declare entities.simps [simp del]
declare entities.simps [code]

definition agree :: "mimeCollector \<Rightarrow> attachmentProjector \<Rightarrow> bool" where
  "agree c p \<longleftrightarrow> n_Attachments (mc_result c) = map ae_Metadata (ap_attachments p) \<and>
     t_Attachments (n_Truncation (mc_result c)) = t_Attachments (ap_truncation p) \<and>
     t_MIMEDepth (n_Truncation (mc_result c)) = t_MIMEDepth (ap_truncation p)"

lemma agree_append:
  "agree c p \<Longrightarrow> agree (appendAttachment limits filename (pe_mediaType e) (pe_disposition e) (pe_dispositionParameters e) c)
     (project_append limits e filename p)"
  by (auto simp: agree_def appendAttachment_def project_append_def projected_entry_def update_truncation_def mark_def Let_def
      split: prod.split)

lemma append_parts [simp]:
  "mc_parts (appendAttachment limits f m d ps c) = mc_parts c" "ap_parts (project_append limits e f p) = ap_parts p"
  by (simp_all add: appendAttachment_def project_append_def update_truncation_def Let_def split: prod.split)

lemma agree_fields: "agree c p \<Longrightarrow> agree (c\<lparr>mc_parts := n\<rparr>) (p\<lparr>ap_parts := k\<rparr>)"
    "agree c p \<Longrightarrow> agree (c\<lparr>mc_parts := n\<rparr>) p" "agree c p \<Longrightarrow> agree c (p\<lparr>ap_parts := k\<rparr>)"
    "agree c p \<Longrightarrow> agree (update_truncation (t_MIMEDepth_update (\<lambda>_. True)) c) (mark (t_MIMEDepth_update (\<lambda>_. True)) p)"
  by (simp_all add: agree_def update_truncation_def)

definition walk_together :: "mime_env \<Rightarrow> NormalizeLimits \<Rightarrow> int \<Rightarrow> bodyStructure \<Rightarrow> header_map \<times> reader \<Rightarrow> bool" where
  "walk_together env limits depth s x \<longleftrightarrow> (\<forall>c p. agree c p \<longrightarrow>
     mc_parts c + int (entities env s) < lMaxMIMEParts limits \<longrightarrow>
     ap_parts p + int (entities env s) \<le> lMaxMIMEParts limits + 1 \<longrightarrow>
     (\<exists>c' p'. parseEntity env limits depth (fst x) (snd x) c = (None, c') \<and> visit env limits s depth p = (None, p') \<and> agree c' p' \<and>
        mc_parts c' \<le> mc_parts c + int (entities env s) \<and> ap_parts p' \<le> ap_parts p + int (entities env s) - 1))"

lemma walk_togetherD:
  "walk_together env limits depth s (h, b) \<Longrightarrow> agree c p \<Longrightarrow> mc_parts c + int (entities env s) < lMaxMIMEParts limits \<Longrightarrow>
     ap_parts p + int (entities env s) \<le> lMaxMIMEParts limits + 1 \<Longrightarrow>
     \<exists>c' p'. parseEntity env limits depth h b c = (None, c') \<and> visit env limits s depth p = (None, p') \<and> agree c' p' \<and>
        mc_parts c' \<le> mc_parts c + int (entities env s) \<and> ap_parts p' \<le> ap_parts p + int (entities env s) - 1"
  unfolding walk_together_def fst_conv snd_conv by blast

lemma entities_pos: "0 < entities env s"
  by (subst entities.simps) simp

lemma children_together:
  assumes "list_all2 (walk_together env limits (depth + 1)) cs parts" and "agree c p"
    and "mc_parts c + int (sum_list (map (entities env) cs)) < lMaxMIMEParts limits"
    and "ap_parts p + int (sum_list (map (entities env) cs)) \<le> lMaxMIMEParts limits"
  shows "\<exists>c' p'. parse_parts limits (\<lambda>h b c'. parseEntity env limits (depth + 1) h b c') parts True c = (None, c') \<and>
    visit_children env limits cs depth p = (None, p') \<and> agree c' p' \<and>
    mc_parts c' \<le> mc_parts c + int (sum_list (map (entities env) cs)) \<and>
    ap_parts p' \<le> ap_parts p + int (sum_list (map (entities env) cs))"
  using assms
proof (induction cs parts arbitrary: c p rule: list_all2_induct)
  case Nil
  then show ?case by (subst parse_parts.simps) auto
next
  case (Cons s cs x parts)
  obtain h b where x: "x = (h, b)" by (cases x)
  have bounds: "mc_parts c + int (entities env s) < lMaxMIMEParts limits"
    "ap_parts (p\<lparr>ap_parts := ap_parts p + 1\<rparr>) + int (entities env s) \<le> lMaxMIMEParts limits + 1"
    using Cons.prems(2,3) by auto
  have a: "agree c (p\<lparr>ap_parts := ap_parts p + 1\<rparr>)" by (rule agree_fields(3) [OF Cons.prems(1)])
  obtain c1 p1 where one: "parseEntity env limits (depth + 1) h b c = (None, c1)"
    "visit env limits s (depth + 1) (p\<lparr>ap_parts := ap_parts p + 1\<rparr>) = (None, p1)" "agree c1 p1"
    "mc_parts c1 \<le> mc_parts c + int (entities env s)" "ap_parts p1 \<le> ap_parts p + 1 + int (entities env s) - 1"
    using walk_togetherD [OF Cons.hyps(1) [unfolded x] a bounds] by auto
  have "mc_parts c1 + int (sum_list (map (entities env) cs)) < lMaxMIMEParts limits"
    "ap_parts p1 + int (sum_list (map (entities env) cs)) \<le> lMaxMIMEParts limits"
    using one(4,5) Cons.prems(2,3) by auto
  from Cons.IH [OF one(3) this] obtain c2 p2 where two:
    "parse_parts limits (\<lambda>h b c'. parseEntity env limits (depth + 1) h b c') parts True c1 = (None, c2)"
    "visit_children env limits cs depth p1 = (None, p2)" "agree c2 p2"
    "mc_parts c2 \<le> mc_parts c1 + int (sum_list (map (entities env) cs))"
    "ap_parts p2 \<le> ap_parts p1 + int (sum_list (map (entities env) cs))" by blast
  have "parse_parts limits (\<lambda>h b c'. parseEntity env limits (depth + 1) h b c') (x # parts) True c = (None, c2)"
    using bounds(1) one(1) two(1) by (subst parse_parts.simps) (simp add: x)
  moreover have "visit_children env limits (s # cs) depth p = (None, p2)"
    using entities_pos [of env s] Cons.prems(3) one(2) two(2) by simp
  ultimately show ?case using one(4,5) two(3-5) by (intro exI [of _ c2] exI [of _ p2]) auto
qed

lemma folded_equal:
  assumes "fold_runes v = v"
  shows "equal_fold v ''attachment'' \<longleftrightarrow> v = ''attachment''" "equal_fold v ''message/rfc822'' \<longleftrightarrow> v = ''message/rfc822''"
    "equal_fold v ''text/plain'' \<longleftrightarrow> v = ''text/plain''" "equal_fold v ''text/html'' \<longleftrightarrow> v = ''text/html''"
proof -
  have "map ascii_lower ''attachment'' = ''attachment''" "map ascii_lower ''message/rfc822'' = ''message/rfc822''"
    "map ascii_lower ''text/plain'' = ''text/plain''" "map ascii_lower ''text/html'' = ''text/html''" by code_simp+
  then show "equal_fold v ''attachment'' \<longleftrightarrow> v = ''attachment''" "equal_fold v ''message/rfc822'' \<longleftrightarrow> v = ''message/rfc822''"
    "equal_fold v ''text/plain'' \<longleftrightarrow> v = ''text/plain''" "equal_fold v ''text/html'' \<longleftrightarrow> v = ''text/html''"
    unfolding equal_fold_def assms by metis+
qed

lemma text_entity_agree:
  assumes "decodes env limits e h b" and "agree c p"
  shows "\<exists>c'. text_entity env limits h b (pe_mediaType e) (pe_parameters e) c = (None, c') \<and> agree c' p \<and> mc_parts c' = mc_parts c"
proof -
  obtain decoded t u where d: "decodeTransfer env b (header_Get h ''Content-Transfer-Encoding'') (lMaxDecodedTextBytes limits) = Inr (decoded, t)"
    "decodeCharset env decoded (pe_parameters e ''charset'') (lMaxDecodedTextBytes limits) = Inr u"
    using assms(1) unfolding decodes_def by (auto split: sum.splits prod.splits)
  obtain content clipped where u: "u = (content, clipped)" by (cases u)
  show ?thesis
    using assms(2) d(2) [unfolded u]
    by (simp add: text_entity_def d(1) Let_def agree_def update_truncation_def)
qed

lemma parse_head:
  assumes "heads env e h" and "depth \<le> lMaxMIMEDepth limits" and "mc_parts c < lMaxMIMEParts limits"
  shows "parseEntity env limits depth h b c =
    (let c1 = c\<lparr>mc_parts := mc_parts c + 1\<rparr> in
     if qualifies e then (None, appendAttachment limits (entity_filename e) (pe_mediaType e) (pe_disposition e) (pe_dispositionParameters e) c1)
     else if has_prefix (to_lower (pe_mediaType e)) ''multipart/''
     then (if pe_parameters e ''boundary'' = [] \<or> 200 < length (pe_parameters e ''boundary'') then (Some malformed_mime, c1)
       else (case me_Parts env (pe_parameters e ''boundary'') b of (parts, ended) \<Rightarrow>
         parse_parts limits (\<lambda>h b c'. parseEntity env limits (depth + 1) h b c') parts ended c1))
     else if pe_mediaType e = ''message/rfc822'' then (None, update_truncation (t_MIMEDepth_update (\<lambda>_. True)) c1)
     else if pe_mediaType e \<noteq> ''text/plain'' \<and> pe_mediaType e \<noteq> ''text/html'' then (None, c1)
     else text_entity env limits h b (pe_mediaType e) (pe_parameters e) c1)"
proof -
  have m: "media_type env ''text/plain'' (header_Get h ''Content-Type'') = Some (pe_mediaType e, pe_parameters e)"
    "media_type env [] (header_Get h ''Content-Disposition'') = Some (pe_disposition e, pe_dispositionParameters e)"
    and f: "fold_runes (pe_mediaType e) = pe_mediaType e" "fold_runes (pe_disposition e) = pe_disposition e"
    using assms(1) by (simp_all add: heads_def)
  have n: "\<not> lMaxMIMEDepth limits < depth" "\<not> lMaxMIMEParts limits \<le> mc_parts c" using assms(2,3) by simp_all
  show ?thesis
    unfolding parseEntity.simps [of env limits depth h b c] m option.case prod.case Let_def
      folded_equal [OF f(1)] folded_equal(1) [OF f(2)] qualifies_def entity_filename_def
    by (simp only: n if_False simp_thms)
qed

lemma visit_head:
  assumes "structureEntity env s = Inr e" and "depth \<le> lMaxMIMEDepth limits"
  shows "visit env limits s depth p =
    (if qualifies e then (None, project_append limits e (entity_filename e) p)
     else (case visit_children env limits (pe_children e) depth p of
        (Some x, p') \<Rightarrow> (Some x, p')
      | (None, p') \<Rightarrow> (None, if pe_mediaType e = ''message/rfc822'' \<or> pe_mediaType e = ''message/global''
           then mark (t_MIMEDepth_update (\<lambda>_. True)) p' else p')))"
  using assms by (subst visit.simps) (simp add: qualifies_def)

lemma corresponds_walk: "corresponds env limits s x \<Longrightarrow> walk_together env limits depth s x"
proof (induction arbitrary: depth rule: corresponds.induct)
  case (attachment s e h b)
  then have n: "entities env s = 1" by (subst entities.simps) simp
  show ?case
    unfolding walk_together_def fst_conv snd_conv n
  proof (intro allI impI)
    fix c p
    assume a: "agree c p" "mc_parts c + int 1 < lMaxMIMEParts limits" "ap_parts p + int 1 \<le> lMaxMIMEParts limits + 1"
    show "\<exists>c' p'. parseEntity env limits depth h b c = (None, c') \<and> visit env limits s depth p = (None, p') \<and> agree c' p' \<and>
        mc_parts c' \<le> mc_parts c + int 1 \<and> ap_parts p' \<le> ap_parts p + int 1 - 1"
    proof (cases "lMaxMIMEDepth limits < depth")
      case True
      with a show ?thesis
        by (subst parseEntity.simps, subst visit.simps) (simp add: agree_fields(4), simp add: update_truncation_def)
    next
      case False
      with attachment a agree_append [OF agree_fields(2) [OF a(1)]] show ?thesis
        by (simp add: parse_head visit_head Let_def)
    qed
  qed
next
  case (leaf s e h b)
  then have n: "entities env s = 1" by (subst entities.simps) simp
  show ?case
    unfolding walk_together_def fst_conv snd_conv n
  proof (intro allI impI)
    fix c p
    assume a: "agree c p" "mc_parts c + int 1 < lMaxMIMEParts limits" "ap_parts p + int 1 \<le> lMaxMIMEParts limits + 1"
    show "\<exists>c' p'. parseEntity env limits depth h b c = (None, c') \<and> visit env limits s depth p = (None, p') \<and> agree c' p' \<and>
        mc_parts c' \<le> mc_parts c + int 1 \<and> ap_parts p' \<le> ap_parts p + int 1 - 1"
    proof (cases "lMaxMIMEDepth limits < depth")
      case True
      with a show ?thesis
        by (subst parseEntity.simps, subst visit.simps) (simp add: agree_fields(4), simp add: update_truncation_def)
    next
      case False
      define c1 where "c1 = c\<lparr>mc_parts := mc_parts c + 1\<rparr>"
      have c1: "agree c1 p" "mc_parts c1 = mc_parts c + 1" using agree_fields(2) [OF a(1)] by (simp_all add: c1_def)
      obtain c2 where c2: "text_entity env limits h b (pe_mediaType e) (pe_parameters e) c1 = (None, c2)" "agree c2 p" "mc_parts c2 = mc_parts c1"
        using text_entity_agree [OF leaf(7) c1(1)] by blast
      have "visit_children env limits (pe_children e) depth p = (None, p)" using leaf(4) by simp
      moreover have "mc_parts (update_truncation f c1) = mc_parts c1" for f by (simp add: update_truncation_def)
      ultimately show ?thesis
        using False leaf(1-6) a c1 c2 agree_fields(4) [OF c1(1)]
        by (simp add: parse_head visit_head Let_def c1_def [symmetric])
    qed
  qed
next
  case (container s e h b parts)
  then have n: "entities env s = Suc (sum_list (map (entities env) (pe_children e)))" by (subst entities.simps) simp
  have parts: "list_all2 (walk_together env limits (d + 1)) (pe_children e) parts" for d
    using container.IH by (rule list_all2_mono) simp
  show ?case
    unfolding walk_together_def fst_conv snd_conv n
  proof (intro allI impI)
    let ?N = "sum_list (map (entities env) (pe_children e))"
    fix c p
    assume a: "agree c p" "mc_parts c + int (Suc ?N) < lMaxMIMEParts limits" "ap_parts p + int (Suc ?N) \<le> lMaxMIMEParts limits + 1"
    show "\<exists>c' p'. parseEntity env limits depth h b c = (None, c') \<and> visit env limits s depth p = (None, p') \<and> agree c' p' \<and>
        mc_parts c' \<le> mc_parts c + int (Suc ?N) \<and> ap_parts p' \<le> ap_parts p + int (Suc ?N) - 1"
    proof (cases "lMaxMIMEDepth limits < depth")
      case True
      with a show ?thesis
        by (subst parseEntity.simps, subst visit.simps) (simp add: agree_fields(4), simp add: update_truncation_def)
    next
      case False
      define c1 where "c1 = c\<lparr>mc_parts := mc_parts c + 1\<rparr>"
      have c1: "agree c1 p" "mc_parts c1 = mc_parts c + 1" using agree_fields(2) [OF a(1)] by (simp_all add: c1_def)
      have "mc_parts c1 + int ?N < lMaxMIMEParts limits" "ap_parts p + int ?N \<le> lMaxMIMEParts limits" using a c1 by auto
      from children_together [OF parts c1(1) this] obtain c2 p2 where two:
        "parse_parts limits (\<lambda>h b c'. parseEntity env limits (depth + 1) h b c') parts True c1 = (None, c2)"
        "visit_children env limits (pe_children e) depth p = (None, p2)" "agree c2 p2"
        "mc_parts c2 \<le> mc_parts c1 + int ?N" "ap_parts p2 \<le> ap_parts p + int ?N" by blast
      have "parseEntity env limits depth h b c = (None, c2)"
        using False container(1-9) a(2) two(1) by (simp add: parse_head Let_def c1_def [symmetric])
      moreover have "visit env limits s depth p = (None, p2)"
        using False container(1-9) two(2) by (simp add: visit_head)
      ultimately show ?thesis using two(3-5) c1(2) by auto
    qed
  qed
qed


section \<open>An example\<close>

definition sample_media :: "bytes \<Rightarrow> bytes \<times> (bytes \<Rightarrow> bytes)" where
  "sample_media v = (takeWhile (\<lambda>c. c \<noteq> CHR '';'') v,
     (\<lambda>k. if k = ''filename'' \<and> has_prefix v ''attachment;'' \<or> k = ''boundary'' \<and> has_prefix v ''multipart/mixed;'' then ''x'' else []))"

definition part_header :: "bytes \<Rightarrow> bytes \<Rightarrow> header_map" where
  "part_header t d k = (if k = ''Content-Type'' then [t] else if k = ''Content-Disposition'' then [d] else [])"

definition pdf_disposition :: bytes where
  "pdf_disposition = ''attachment; filename='' @ [CHR 0x22, CHR ''x'', CHR 0x22]"

definition mixed_type :: bytes where
  "mixed_type = ''multipart/mixed; boundary='' @ [CHR 0x22, CHR ''x'', CHR 0x22]"

definition sample_parts :: "(header_map \<times> reader) list" where
  "sample_parts = [(part_header ''text/plain'' [], (''hello'', None)), (part_header ''application/pdf'' pdf_disposition, (''%PDF'', None))]"

definition attachment_mime :: mime_env where
  "attachment_mime = \<lparr>me_ReadMessage = (\<lambda>b. None), me_ParseMediaType = (\<lambda>v. Some (sample_media v)),
     me_Parts = (\<lambda>b r. (sample_parts, True)), me_base64_string = (\<lambda>b. False), me_base64 = (\<lambda>r. r),
     me_quotedprintable = (\<lambda>r. r), me_charset = (\<lambda>c. None), me_DecodeHeader = Some, me_html_Parse = (\<lambda>b. None)\<rparr>"

definition text_part :: bodyStructure where
  "text_part = SinglePart ''text'' ''plain'' [] 5 None"

definition pdf_part :: bodyStructure where
  "pdf_part = SinglePart ''application'' ''pdf'' [] 900 (Some (''attachment'', [(''filename'', ''x'')]))"

definition mixed_structure :: bodyStructure where
  "mixed_structure = MultiPart [text_part, pdf_part] ''mixed'' (Some [(''boundary'', ''x'')]) None"

lemma sample_tokens: "structureParameterToken ''filename''" "structureParameterToken ''boundary''"
  by code_simp+

lemma sample_rebuilt:
  "parseStructureMediaType attachment_mime ''text/plain'' [] = Inr (sample_media ''text/plain'')"
  "parseStructureMediaType attachment_mime ''application/pdf'' [] = Inr (sample_media ''application/pdf'')"
  "parseStructureMediaType attachment_mime ''attachment'' [(''filename'', ''x'')] = Inr (sample_media pdf_disposition)"
  "parseStructureMediaType attachment_mime ''multipart/mixed'' [(''boundary'', ''x'')] = Inr (sample_media mixed_type)"
  by (simp_all add: parseStructureMediaType_def attachment_mime_def sample_tokens structure_parameter_def pdf_disposition_def mixed_type_def)

definition sample_entity :: "bytes \<Rightarrow> bytes \<Rightarrow> bodyStructure list \<Rightarrow> uint32 option \<Rightarrow> projectedEntity" where
  "sample_entity t d cs octets = \<lparr>pe_mediaType = fst (sample_media t), pe_parameters = snd (sample_media t),
     pe_disposition = (if d = [] then [] else fst (sample_media d)),
     pe_dispositionParameters = (if d = [] then (\<lambda>k. []) else snd (sample_media d)), pe_children = cs,
     pe_hasTransferOctets = (octets \<noteq> None), pe_transferOctets = (case octets of None \<Rightarrow> 0 | Some n \<Rightarrow> n)\<rparr>"

lemma sample_entities:
  "structureEntity attachment_mime text_part = Inr (sample_entity ''text/plain'' [] [] (Some 5))"
  "structureEntity attachment_mime pdf_part = Inr (sample_entity ''application/pdf'' pdf_disposition [] (Some 900))"
  "structureEntity attachment_mime mixed_structure = Inr (sample_entity mixed_type [] [text_part, pdf_part] None)"
  using sample_rebuilt
  by (auto simp: structureEntity_def sample_entity_def text_part_def pdf_part_def mixed_structure_def Let_def pdf_disposition_def
      split: prod.split)

lemma sample_heads:
  "fold_runes (fst (sample_media t)) = fst (sample_media t) \<Longrightarrow> fold_runes (fst (sample_media d)) = fst (sample_media d) \<Longrightarrow> t \<noteq> [] \<Longrightarrow>
     heads attachment_mime (sample_entity t d cs octets) (part_header t d)"
  by (cases "sample_media t"; cases "sample_media d")
    (auto simp: heads_def sample_entity_def media_type_def part_header_def attachment_mime_def header_Get_def fold_runes.simps)

lemma sample_qualifies:
  "\<not> qualifies (sample_entity ''text/plain'' [] cs n)" "qualifies (sample_entity ''application/pdf'' pdf_disposition cs n)"
  "\<not> qualifies (sample_entity mixed_type [] cs n)"
  by (simp_all add: qualifies_def entity_filename_def sample_entity_def sample_media_def pdf_disposition_def mixed_type_def has_prefix_def)

lemma sample_corresponds:
  "corresponds attachment_mime limits mixed_structure (part_header mixed_type [], (''--x'', None))"
proof (rule corresponds.container [OF sample_entities(3)])
  have f: "fold_runes (fst (sample_media mixed_type)) = fst (sample_media mixed_type)"
    "fold_runes (fst (sample_media ''text/plain'')) = fst (sample_media ''text/plain'')"
    "fold_runes (fst (sample_media ''application/pdf'')) = fst (sample_media ''application/pdf'')"
    "fold_runes (fst (sample_media pdf_disposition)) = fst (sample_media pdf_disposition)"
    "fold_runes (fst (sample_media [])) = fst (sample_media [])" by code_simp+
  have n: "mixed_type \<noteq> []" by (simp add: mixed_type_def)
  show "heads attachment_mime (sample_entity mixed_type [] [text_part, pdf_part] None) (part_header mixed_type [])"
    using f n by (intro sample_heads)
  show "\<not> qualifies (sample_entity mixed_type [] [text_part, pdf_part] None)" by (rule sample_qualifies)
  show "has_prefix (to_lower (pe_mediaType (sample_entity mixed_type [] [text_part, pdf_part] None))) ''multipart/''" by code_simp
  show "pe_parameters (sample_entity mixed_type [] [text_part, pdf_part] None) ''boundary'' \<noteq> []"
    "length (pe_parameters (sample_entity mixed_type [] [text_part, pdf_part] None) ''boundary'') \<le> 200"
    "pe_mediaType (sample_entity mixed_type [] [text_part, pdf_part] None) \<noteq> ''message/rfc822''"
    "pe_mediaType (sample_entity mixed_type [] [text_part, pdf_part] None) \<noteq> ''message/global''"
    by (simp_all add: sample_entity_def sample_media_def mixed_type_def has_prefix_def)
  show "me_Parts attachment_mime (pe_parameters (sample_entity mixed_type [] [text_part, pdf_part] None) ''boundary'') (''--x'', None) =
      (sample_parts, True)" by (simp add: attachment_mime_def)
  have "corresponds attachment_mime limits text_part (part_header ''text/plain'' [], (''hello'', None))"
  proof (rule corresponds.leaf [OF sample_entities(1)])
    show "heads attachment_mime (sample_entity ''text/plain'' [] [] (Some 5)) (part_header ''text/plain'' [])"
      using f by (intro sample_heads) simp_all
    show "\<not> qualifies (sample_entity ''text/plain'' [] [] (Some 5))" by (rule sample_qualifies)
    show "\<not> has_prefix (to_lower (pe_mediaType (sample_entity ''text/plain'' [] [] (Some 5)))) ''multipart/''" by code_simp
    show "decodes attachment_mime limits (sample_entity ''text/plain'' [] [] (Some 5)) (part_header ''text/plain'' []) (''hello'', None)"
    proof -
      have "to_lower (trim_space []) = []" by code_simp
      then show ?thesis
        by (auto simp: decodes_def decodeTransfer_def decodeCharset_def part_header_def header_Get_def sample_entity_def sample_media_def
          read_limited_def split: prod.split)
    qed
  qed (simp_all add: sample_entity_def sample_media_def)
  moreover have "corresponds attachment_mime limits pdf_part (part_header ''application/pdf'' pdf_disposition, (''%PDF'', None))"
    using f by (intro corresponds.attachment [OF sample_entities(2)] sample_heads sample_qualifies) simp_all
  ultimately show "list_all2 (corresponds attachment_mime limits) (pe_children (sample_entity mixed_type [] [text_part, pdf_part] None)) sample_parts"
    by (simp add: sample_entity_def sample_parts_def)
qed

definition empty_collector :: mimeCollector where
  "empty_collector = \<lparr>mc_result = emptyMessage, mc_parts = 0, mc_plain = [], mc_plainSet = False, mc_html = [], mc_htmlSet = False\<rparr>"


lemma projectAttachmentStructure_complete_witness:
  "\<exists>entries truncation. projectAttachmentStructure attachment_mime mixed_structure defaultBounds = Inr (entries, truncation) \<and>
     int (length entries) \<le> 20"
proof -
  have "(case projectAttachmentStructure attachment_mime mixed_structure defaultBounds of
      Inl e \<Rightarrow> False | Inr (entries, truncation) \<Rightarrow> True)" by code_simp
  then obtain entries truncation where r: "projectAttachmentStructure attachment_mime mixed_structure defaultBounds = Inr (entries, truncation)"
    by (auto split: sum.splits prod.splits)
  have "lMaxAttachmentCount (normalizedLimits
      (zeroLimits\<lparr>lMaxMIMEParts := MaxMimeParts defaultBounds, lMaxAttachmentCount := MaxAttachmentCount defaultBounds\<rparr>)) = 20" by code_simp
  with projectAttachmentStructure_complete [OF r] r show ?thesis by auto
qed

section \<open>The adapter operation\<close>

record MessageAttachmentStructure =
  as_ID :: bytes
  as_Mailbox :: bytes
  as_UIDValidity :: uint32
  as_UID :: uint32
  as_Attachments :: "AttachmentStructureEntry list"
  as_Truncation :: Truncation

text \<open>An error of the read carries a stable code, one of the projection is a normalization error.\<close>

datatype structure_failure = ReadFailure go_error | ProjectFailure mime_error

type_synonym ('w, 's) structure_reader = "structureRequest \<Rightarrow> 'w \<Rightarrow> (go_error + 's selectedStructure) \<times> 'w"

text \<open>The loop of \<^verbatim>\<open>readStructureAttempts\<close>, with the attempts left as in \<open>attempts\<close>.\<close>

fun structure_attempts :: "'w session_env \<Rightarrow> ('w, 's) structure_reader \<Rightarrow> structureRequest \<Rightarrow> nat \<Rightarrow> 'w \<Rightarrow>
    (go_error + 's selectedStructure) \<times> 'w" where
  "structure_attempts env reader request 0 w = (Inl (BridgeError CodeBridgeUnreachable), w)"
| "structure_attempts env reader request (Suc left) w =
     (case reader request w of
        (Inr selected, w') \<Rightarrow> (Inr selected, w')
      | (Inl e, w') \<Rightarrow>
          (let e' = mapped env w' e in
           if left = 1 \<and> canReplay env w' e' then structure_attempts env reader request left w' else (Inl e', w')))"

definition readStructureAttempts :: "'w session_env \<Rightarrow> ('w, 's) structure_reader \<Rightarrow> structureRequest \<Rightarrow> 'w \<Rightarrow>
    (go_error + 's selectedStructure) \<times> 'w" where
  "readStructureAttempts env reader request w = structure_attempts env reader request 2 w"

definition GetMessageAttachmentStructure :: "'w session_env \<Rightarrow> (bytes \<Rightarrow> bytes) \<Rightarrow> (bytes \<Rightarrow> messageIDPayload option) \<Rightarrow>
    mime_env \<Rightarrow> Bounds \<Rightarrow> ('w, bodyStructure) structure_reader \<Rightarrow> go_error option \<Rightarrow> bytes \<Rightarrow> 'w adapter_state \<Rightarrow>
    (structure_failure + MessageAttachmentStructure) \<times> 'w adapter_state" where
  "GetMessageAttachmentStructure env mac unmarshal mime b reader acquired identifier st =
     (case decodeMessageID mac unmarshal identifier of
        Inl c \<Rightarrow> (Inl (ReadFailure (BridgeError c)), st)
      | Inr p \<Rightarrow> (case acquired of
          Some e \<Rightarrow> (Inl (ReadFailure e), st)
        | None \<Rightarrow> (case st of (a, w) \<Rightarrow>
            if closed a then (Inl (ReadFailure (BridgeError CodeAdapterClosed)), st)
            else (case readStructureAttempts env reader
                \<lparr>rq_Mailbox = p_Mailbox p, rq_UID = p_UID p, rq_UIDValidity = p_UIDValidity p\<rparr> w of
                (Inl e, w') \<Rightarrow> (Inl (ReadFailure e), (a, w'))
              | (Inr selected, w') \<Rightarrow> (case projectAttachmentStructure mime (sel_Structure selected) b of
                  Inl e \<Rightarrow> (Inl (ProjectFailure e), (a, w'))
                | Inr (attachments, truncation) \<Rightarrow>
                    (Inr \<lparr>as_ID = identifier, as_Mailbox = p_Mailbox p, as_UIDValidity = p_UIDValidity p, as_UID = p_UID p,
                       as_Attachments = attachments, as_Truncation = truncation\<rparr>, (a, w')))))))"

lemma structure_attempts_Inr:
  "structure_attempts env reader request left w = (Inr selected, w') \<Longrightarrow> \<exists>w1. reader request w1 = (Inr selected, w')"
  by (induction env reader request left w rule: structure_attempts.induct) (auto simp: Let_def split: prod.splits sum.splits if_splits)

lemma decode_complete: "decodeMessageID mac unmarshal identifier = Inr p \<Longrightarrow> complete_payload p"
  by (auto simp: decodeMessageID_def Let_def split: if_splits option.splits)

text \<open>
  The attachments reported for an identifier are the projection of a structure that was fetched for the
  message the identifier names: on one dedicated session, after a login, the EXAMINE of its mailbox answered
  with its generation, a search for its UID answered with that UID, and the FETCH of it returned the structure.
\<close>

theorem GetMessageAttachmentStructure_confirmed:
  assumes "GetMessageAttachmentStructure env mac unmarshal mime b reader acquired identifier (a, w) = (Inr m, st')"
    and "\<And>request n. fst (reader request n) = fst (readStructure senv dial start request n)"
  shows "\<exists>p structure snapshot x1 x2 x3 x4 x5 q. decodeMessageID mac unmarshal identifier = Inr p \<and> \<not> closed a \<and>
    as_ID m = identifier \<and> as_Mailbox m = p_Mailbox p \<and> as_UIDValidity m = p_UIDValidity p \<and> as_UID m = p_UID p \<and>
    projectAttachmentStructure mime structure b = Inr (as_Attachments m, as_Truncation m) \<and>
    se_authenticate senv x1 = (None, x2) \<and>
    examine (se_session senv) 0 (p_Mailbox p) x2 = (Inr snapshot, x3) \<and> UIDValidity snapshot = p_UIDValidity p \<and>
    search_window (se_session senv) 0 emptyQuery \<lparr>Start = p_UID p, End = p_UID p\<rparr> 1 x3 = (Inr [p_UID p], x4) \<and>
    beginDispatch (fst x4) = (q, None) \<and> se_fetch senv (p_UID p) (q, snd x4) = (Inr structure, x5)"
proof -
  obtain p where p: "decodeMessageID mac unmarshal identifier = Inr p"
    using assms(1) by (auto simp: GetMessageAttachmentStructure_def split: sum.splits)
  define request where "request = \<lparr>rq_Mailbox = p_Mailbox p, rq_UID = p_UID p, rq_UIDValidity = p_UIDValidity p\<rparr>"
  obtain r w' where r: "readStructureAttempts env reader request w = (r, w')" by (metis prod.exhaust)
  have open_adapter: "\<not> closed a" and ac: "acquired = None"
    using assms(1) p by (auto simp: GetMessageAttachmentStructure_def split: option.splits if_splits)
  obtain selected where sel: "r = Inr selected"
    using assms(1) p open_adapter ac r by (cases r) (simp_all add: GetMessageAttachmentStructure_def request_def)
  have m: "projectAttachmentStructure mime (sel_Structure selected) b = Inr (as_Attachments m, as_Truncation m)"
    "as_ID m = identifier" "as_Mailbox m = p_Mailbox p" "as_UIDValidity m = p_UIDValidity p" "as_UID m = p_UID p"
    using assms(1) p open_adapter ac r sel
    by (auto simp: GetMessageAttachmentStructure_def request_def split: sum.splits)
  obtain w1 where w1: "reader request w1 = (Inr selected, w')"
    using structure_attempts_Inr [OF r [unfolded readStructureAttempts_def sel]] by blast
  then have "fst (readStructure senv dial start request w1) = Inr selected" using assms(2) [of request w1] by simp
  then obtain fin where f: "readStructure senv dial start request w1 = (Inr selected, fin)" by (metis prod.collapse)
  have rq: "rq_Mailbox request = p_Mailbox p" "rq_UID request = p_UID p" "rq_UIDValidity request = p_UIDValidity p"
    by (simp_all add: request_def)
  have "p_UIDValidity p \<noteq> 0" using decode_complete [OF p] by (simp add: complete_payload_def)
  with readStructure_confirms [OF f, unfolded rq] p open_adapter m show ?thesis by blast
qed

text \<open>The sample session with the structure of the sample message.\<close>

definition attachment_session :: "(nat, bodyStructure) structure_env" where
  "attachment_session = \<lparr>se_session = se_session structure_sample, se_credentials = (\<lambda>w. (None, w)),
     se_authenticate = (\<lambda>w. (None, w)), se_fetch = (\<lambda>uid w. (Inr mixed_structure, w)), se_close = (\<lambda>w. w)\<rparr>"

definition attachment_reader :: "(nat, bodyStructure) structure_reader" where
  "attachment_reader request n = (fst (readStructure attachment_session (\<lambda>n. (None, n)) (\<lambda>x. (None, x)) request n), n)"

lemma GetMessageAttachmentStructure_confirmed_witness:
  "\<exists>m st'. GetMessageAttachmentStructure sample_env sample_mac sample_unmarshal attachment_mime defaultBounds attachment_reader None
       sample_id (newAdapter, 0) = (Inr m, st') \<and> as_ID m = sample_id"
proof -
  let ?r = "GetMessageAttachmentStructure sample_env sample_mac sample_unmarshal attachment_mime defaultBounds attachment_reader None
       sample_id (newAdapter, 0)"
  have "isl (fst ?r) = False" by code_simp
  then obtain m st' where r: "?r = (Inr m, st')" by (metis prod.collapse sum.collapse(2))
  moreover have "fst (attachment_reader request n) =
      fst (readStructure attachment_session (\<lambda>n. (None, n)) (\<lambda>x. (None, x)) request n)" for request n
    by (simp add: attachment_reader_def)
  ultimately have "as_ID m = sample_id"
    using GetMessageAttachmentStructure_confirmed [where senv = attachment_session] by blast
  with r show ?thesis by blast
qed

text \<open>The two paths differ on an embedded \<^verbatim>\<open>message/global\<close>: only the projection says that it left it out.\<close>

lemma global_message_flags:
  "t_MIMEDepth (ap_truncation (snd (visit attachment_mime (normalizedLimits zeroLimits) (SinglePart ''message'' ''global'' [] 81 None) 0
     \<lparr>ap_parts = 1, ap_attachments = [], ap_truncation = noTruncation\<rparr>))) \<and>
   \<not> t_MIMEDepth (n_Truncation (mc_result (snd (parseEntity attachment_mime (normalizedLimits zeroLimits) 0
     (part_header ''message/global'' []) (''From: a'', None) empty_collector))))"
  by code_simp

end
