(* ===== verification/Go_Heap.thy ===== *)
theory Go_Heap
  imports Main "HOL-Library.Multiset"
begin

text \<open>
  The binary heap of Go's \<^verbatim>\<open>container/heap\<close>, as the sources use it: a slice with \<^verbatim>\<open>Push\<close> and \<^verbatim>\<open>Fix\<close>
  under an order \<open>before\<close>. The locale \<open>extremum_queue\<close> is what a client relies on, with the head as
  the extreme element; it is interpreted on the heap for every linear key.
\<close>

section \<open>Definitions\<close>

definition swap :: "nat \<Rightarrow> nat \<Rightarrow> 'a list \<Rightarrow> 'a list" where
  "swap i j xs = xs[i := xs ! j, j := xs ! i]"

function heap_up :: "('a \<Rightarrow> 'a \<Rightarrow> bool) \<Rightarrow> nat \<Rightarrow> 'a list \<Rightarrow> 'a list" where
  "heap_up before j xs =
     (if j = 0 then xs
      else (let i = (j - 1) div 2 in
        if \<not> before (xs ! j) (xs ! i) then xs else heap_up before i (swap i j xs)))"
  by pat_completeness auto
termination by (relation "measure (\<lambda>(l, j, xs). j)") auto

declare heap_up.simps [simp del]

text \<open>The child of \<open>i\<close> that \<^verbatim>\<open>down\<close> compares with it.\<close>

definition heap_child :: "('a \<Rightarrow> 'a \<Rightarrow> bool) \<Rightarrow> nat \<Rightarrow> 'a list \<Rightarrow> nat" where
  "heap_child before i xs =
     (if 2 * i + 2 < length xs \<and> before (xs ! (2 * i + 2)) (xs ! (2 * i + 1)) then 2 * i + 2 else 2 * i + 1)"

text \<open>\<^verbatim>\<open>down(h, i, n)\<close> with the whole slice: the slice, and where the element went.\<close>

function heap_down :: "('a \<Rightarrow> 'a \<Rightarrow> bool) \<Rightarrow> nat \<Rightarrow> 'a list \<Rightarrow> 'a list \<times> nat" where
  "heap_down before i xs =
     (if length xs \<le> 2 * i + 1 then (xs, i)
      else (let j = heap_child before i xs in
        if \<not> before (xs ! j) (xs ! i) then (xs, i) else heap_down before j (swap i j xs)))"
  by pat_completeness auto
termination
  by (relation "measure (\<lambda>(l, i, xs). length xs - i)") (auto simp: heap_child_def swap_def)

declare heap_down.simps [simp del]

definition heap_Push :: "('a \<Rightarrow> 'a \<Rightarrow> bool) \<Rightarrow> 'a \<Rightarrow> 'a list \<Rightarrow> 'a list" where
  "heap_Push before x xs = heap_up before (length xs) (xs @ [x])"

text \<open>\<^verbatim>\<open>heap.Fix(h, i)\<close>: \<^verbatim>\<open>down\<close>, and \<^verbatim>\<open>up\<close> if it did not move the element.\<close>

definition heap_Fix :: "('a \<Rightarrow> 'a \<Rightarrow> bool) \<Rightarrow> nat \<Rightarrow> 'a list \<Rightarrow> 'a list" where
  "heap_Fix before i xs = (case heap_down before i xs of (ys, j) \<Rightarrow> if i < j then ys else heap_up before i ys)"

section \<open>The heap order\<close>

abbreviation parent :: "nat \<Rightarrow> nat" where "parent k \<equiv> (k - 1) div 2"

definition is_heap :: "('a \<Rightarrow> 'k::linorder) \<Rightarrow> 'a list \<Rightarrow> bool" where
  "is_heap f xs \<longleftrightarrow> (\<forall>k < length xs. 0 < k \<longrightarrow> f (xs ! k) \<le> f (xs ! parent k))"

lemma swap_length [simp]: "length (swap i j xs) = length xs"
  by (simp add: swap_def)

lemma swap_mset [simp]: "i < length xs \<Longrightarrow> j < length xs \<Longrightarrow> mset (swap i j xs) = mset xs"
  by (simp add: swap_def mset_swap)

lemma swap_nth:
  "i < length xs \<Longrightarrow> j < length xs \<Longrightarrow> k < length xs \<Longrightarrow>
     swap i j xs ! k = (if k = i then xs ! j else if k = j then xs ! i else xs ! k)"
  by (simp add: swap_def nth_list_update)

lemma parent_less [simp]: "0 < k \<Longrightarrow> parent k < k"
  by auto

lemma is_heap_head:
  assumes "is_heap f xs" "k < length xs"
  shows "f (xs ! k) \<le> f (xs ! 0)"
  using assms(2)
proof (induction k rule: less_induct)
  case (less k)
  show ?case
  proof (cases "k = 0")
    case False
    then have "f (xs ! k) \<le> f (xs ! parent k)" using assms(1) less.prems by (simp add: is_heap_def)
    also have "\<dots> \<le> f (xs ! 0)" using False less.prems by (intro less.IH) auto
    finally show ?thesis .
  qed simp
qed

text \<open>A heap but for the element at \<open>j\<close>, which may be too large for its place.\<close>

definition heap_but_up :: "('a \<Rightarrow> 'k::linorder) \<Rightarrow> nat \<Rightarrow> 'a list \<Rightarrow> bool" where
  "heap_but_up f j xs \<longleftrightarrow> j < length xs \<and>
     (\<forall>k < length xs. 0 < k \<and> k \<noteq> j \<longrightarrow> f (xs ! k) \<le> f (xs ! parent k)) \<and>
     (\<forall>k < length xs. 0 < k \<and> 0 < j \<and> parent k = j \<longrightarrow> f (xs ! k) \<le> f (xs ! parent j))"

lemma heap_up_correct:
  assumes "heap_but_up f j xs"
  shows "is_heap f (heap_up (\<lambda>a b. f b < f a) j xs) \<and> mset (heap_up (\<lambda>a b. f b < f a) j xs) = mset xs"
  using assms
proof (induction "\<lambda>a b. f b < f a" j xs rule: heap_up.induct)
  case (1 j xs)
  have jl: "j < length xs" and up: "\<And>k. k < length xs \<Longrightarrow> 0 < k \<Longrightarrow> k \<noteq> j \<Longrightarrow> f (xs ! k) \<le> f (xs ! parent k)"
    and ch: "\<And>k. k < length xs \<Longrightarrow> 0 < k \<Longrightarrow> 0 < j \<Longrightarrow> parent k = j \<Longrightarrow> f (xs ! k) \<le> f (xs ! parent j)"
    using 1(2) by (auto simp: heap_but_up_def)
  show ?case
  proof (cases "j = 0 \<or> f (xs ! j) \<le> f (xs ! parent j)")
    case True
    have "is_heap f xs" unfolding is_heap_def
    proof (intro allI impI)
      fix k assume "k < length xs" "0 < k"
      with True up show "f (xs ! k) \<le> f (xs ! parent k)" by (cases "k = j") auto
    qed
    moreover have "heap_up (\<lambda>a b. f b < f a) j xs = xs"
      using True by (subst heap_up.simps) (auto simp: Let_def)
    ultimately show ?thesis by simp
  next
    case False
    let ?i = "parent j"
    let ?ys = "swap ?i j xs"
    from False have j: "0 < j" "f (xs ! ?i) < f (xs ! j)" by auto
    have il: "?i < j" using j(1) by simp
    then have ix: "?i < length xs" using jl by simp
    have nth: "?ys ! k = (if k = ?i then xs ! j else if k = j then xs ! ?i else xs ! k)" if "k < length xs" for k
      using swap_nth [OF ix jl that] .
    have "heap_but_up f ?i ?ys" unfolding heap_but_up_def
    proof (intro conjI allI impI)
      show "?i < length ?ys" using ix by simp
    next
      fix k assume k: "k < length ?ys" "0 < k \<and> k \<noteq> ?i"
      then have kl: "k < length xs" and pl: "parent k < length xs" by auto
      show "f (?ys ! k) \<le> f (?ys ! parent k)"
      proof (cases "k = j")
        case True
        with nth [OF kl] nth [OF pl] j(2) k(2) show ?thesis by auto
      next
        case nj: False
        show ?thesis
        proof (cases "parent k = j")
          case True
          with nth [OF kl] nth [OF pl] nj k il ch [OF kl _ j(1)] show ?thesis by auto
        next
          case np: False
          show ?thesis
          proof (cases "parent k = ?i")
            case True
            then have "f (xs ! k) \<le> f (xs ! ?i)" using up [OF kl _ nj] k(2) by simp
            with True nth [OF kl] nth [OF pl] nj k(2) j(2) show ?thesis by auto
          next
            case False
            with nth [OF kl] nth [OF pl] nj np k(2) up [OF kl _ nj] show ?thesis by auto
          qed
        qed
      qed
    next
      fix k assume k: "k < length ?ys" "0 < k \<and> 0 < ?i \<and> parent k = ?i"
      then have kl: "k < length xs" by simp
      have pl: "parent ?i < length xs" using ix k(2) by auto
      have "parent ?i < ?i" using k(2) by (intro parent_less) simp
      then have pi: "parent ?i \<noteq> ?i" "parent ?i \<noteq> j" using il by simp_all
      have i_le: "f (xs ! ?i) \<le> f (xs ! parent ?i)" using up [OF ix] k(2) il by auto
      have ki: "k \<noteq> ?i" using k(2) by auto
      have "f (?ys ! k) \<le> f (xs ! parent ?i)"
      proof (cases "k = j")
        case True
        with nth [OF kl] ki i_le show ?thesis by auto
      next
        case False
        have "f (xs ! k) \<le> f (xs ! ?i)" using up [OF kl _ False] k(2) by simp
        with False nth [OF kl] ki i_le show ?thesis by auto
      qed
      then show "f (?ys ! k) \<le> f (?ys ! parent ?i)" using nth [OF pl] pi by simp
    qed
    then have "is_heap f (heap_up (\<lambda>a b. f b < f a) ?i ?ys) \<and> mset (heap_up (\<lambda>a b. f b < f a) ?i ?ys) = mset ?ys"
      using 1(1) [of ?i] j by simp
    moreover have "heap_up (\<lambda>a b. f b < f a) j xs = heap_up (\<lambda>a b. f b < f a) ?i ?ys"
      using j by (subst heap_up.simps) (simp add: Let_def)
    ultimately show ?thesis using ix jl by simp
  qed
qed

text \<open>A heap but for the element at \<open>i\<close>, which may be too small for its place.\<close>

definition heap_but_down :: "('a \<Rightarrow> 'k::linorder) \<Rightarrow> nat \<Rightarrow> 'a list \<Rightarrow> bool" where
  "heap_but_down f i xs \<longleftrightarrow> i < length xs \<and>
     (\<forall>k < length xs. 0 < k \<and> parent k \<noteq> i \<longrightarrow> f (xs ! k) \<le> f (xs ! parent k)) \<and>
     (\<forall>k < length xs. 0 < k \<and> 0 < i \<and> parent k = i \<longrightarrow> f (xs ! k) \<le> f (xs ! parent i))"

lemma child_cases: "0 < k \<and> parent k = i \<longleftrightarrow> k = 2 * i + 1 \<or> k = 2 * i + 2"
  by auto

lemma heap_child_max:
  fixes f :: "'a \<Rightarrow> 'k::linorder"
  assumes "2 * i + 1 < length xs"
  shows "heap_child (\<lambda>a b. f b < f a) i xs < length xs" "parent (heap_child (\<lambda>a b. f b < f a) i xs) = i"
    "0 < heap_child (\<lambda>a b. f b < f a) i xs"
    "\<lbrakk>k < length xs; 0 < k; parent k = i\<rbrakk> \<Longrightarrow> f (xs ! k) \<le> f (xs ! heap_child (\<lambda>a b. f b < f a) i xs)"
proof -
  show "heap_child (\<lambda>a b. f b < f a) i xs < length xs" "parent (heap_child (\<lambda>a b. f b < f a) i xs) = i"
    "0 < heap_child (\<lambda>a b. f b < f a) i xs"
    using assms by (auto simp: heap_child_def)
  assume k: "k < length xs" "0 < k" "parent k = i"
  then have "k = 2 * i + 1 \<or> k = 2 * i + 2" using child_cases by blast
  then show "f (xs ! k) \<le> f (xs ! heap_child (\<lambda>a b. f b < f a) i xs)"
    using k(1) by (auto simp: heap_child_def)
qed

lemma heap_down_correct:
  assumes "heap_but_down f i xs"
  shows "is_heap f (fst (heap_down (\<lambda>a b. f b < f a) i xs)) \<and>
    mset (fst (heap_down (\<lambda>a b. f b < f a) i xs)) = mset xs"
  using assms
proof (induction "\<lambda>a b. f b < f a" i xs rule: heap_down.induct)
  case (1 i xs)
  let ?b = "\<lambda>a b. f b < f a"
  let ?j = "heap_child ?b i xs"
  have il: "i < length xs" and up: "\<And>k. k < length xs \<Longrightarrow> 0 < k \<Longrightarrow> parent k \<noteq> i \<Longrightarrow> f (xs ! k) \<le> f (xs ! parent k)"
    and ch: "\<And>k. k < length xs \<Longrightarrow> 0 < k \<Longrightarrow> 0 < i \<Longrightarrow> parent k = i \<Longrightarrow> f (xs ! k) \<le> f (xs ! parent i)"
    using 1(2) by (auto simp: heap_but_down_def)
  show ?case
  proof (cases "length xs \<le> 2 * i + 1 \<or> f (xs ! ?j) \<le> f (xs ! i)")
    case True
    have "is_heap f xs" unfolding is_heap_def
    proof (intro allI impI)
      fix k assume k: "k < length xs" "0 < k"
      show "f (xs ! k) \<le> f (xs ! parent k)"
      proof (cases "parent k = i")
        case True
        then have "k = 2 * i + 1 \<or> k = 2 * i + 2" using k(2) child_cases by blast
        then have l: "2 * i + 1 < length xs" using k(1) by auto
        with \<open>length xs \<le> 2 * i + 1 \<or> f (xs ! ?j) \<le> f (xs ! i)\<close> have "f (xs ! ?j) \<le> f (xs ! i)" by simp
        moreover have "f (xs ! k) \<le> f (xs ! ?j)" by (rule heap_child_max(4) [OF l k True])
        ultimately show ?thesis using True by simp
      qed (rule up [OF k])
    qed
    moreover have "heap_down ?b i xs = (xs, i)"
      using True by (subst heap_down.simps) (auto simp: Let_def)
    ultimately show ?thesis by simp
  next
    case False
    then have l: "2 * i + 1 < length xs" and lt: "f (xs ! i) < f (xs ! ?j)" by auto
    note jl = heap_child_max(1) [OF l, of f] and jp = heap_child_max(2) [OF l, of f] and j0 = heap_child_max(3) [OF l, of f]
    let ?ys = "swap i ?j xs"
    have nth: "?ys ! k = (if k = i then xs ! ?j else if k = ?j then xs ! i else xs ! k)" if "k < length xs" for k
      using swap_nth [OF il jl that] .
    have ij: "i < ?j" using jp j0 parent_less by metis
    have "heap_but_down f ?j ?ys" unfolding heap_but_down_def
    proof (intro conjI allI impI)
      show "?j < length ?ys" using jl by simp
    next
      fix k assume k: "k < length ?ys" "0 < k \<and> parent k \<noteq> ?j"
      then have kl: "k < length xs" and pl: "parent k < length xs" by auto
      show "f (?ys ! k) \<le> f (?ys ! parent k)"
      proof (cases "parent k = i")
        case True
        have "f (xs ! k) \<le> f (xs ! ?j)" using heap_child_max(4) [OF l kl _ True] k(2) by blast
        then have "f (?ys ! k) \<le> f (xs ! ?j)" using nth [OF kl] lt by auto
        moreover have "?ys ! parent k = xs ! ?j" using nth [OF pl] True by simp
        ultimately show ?thesis by simp
      next
        case pi: False
        show ?thesis
        proof (cases "k = i")
          case True
          have "f (xs ! ?j) \<le> f (xs ! parent i)" using ch [OF jl j0 _ jp] True k(2) by simp
          with True nth [OF kl] nth [OF pl] pi k(2) show ?thesis by auto
        next
          case False
          have "k \<noteq> ?j" using jp pi by metis
          with False nth [OF kl] nth [OF pl] pi k(2) up [OF kl _ pi] show ?thesis by simp
        qed
      qed
    next
      fix k assume k: "k < length ?ys" "0 < k \<and> 0 < ?j \<and> parent k = ?j"
      then have kl: "k < length xs" by simp
      have "?j < k" using k(2) parent_less by metis
      then have ki: "k \<noteq> i" "k \<noteq> ?j" using ij by auto
      have "parent k \<noteq> i" using k(2) ij by simp
      then have "f (xs ! k) \<le> f (xs ! ?j)" using up [OF kl] k(2) by auto
      then show "f (?ys ! k) \<le> f (?ys ! parent ?j)" using nth [OF kl] nth [OF il] ki jp by simp
    qed
    then have "is_heap f (fst (heap_down ?b ?j ?ys)) \<and> mset (fst (heap_down ?b ?j ?ys)) = mset ?ys"
      using 1(1) [of ?j] l lt by simp
    moreover have "heap_down ?b i xs = heap_down ?b ?j ?ys"
      using l lt by (subst heap_down.simps) (simp add: Let_def)
    ultimately show ?thesis using il jl by simp
  qed
qed

section \<open>The queue a client sees\<close>

text \<open>
  The contract: \<open>valid\<close> queues, whose head no element exceeds; adding an element and putting a smaller
  one in the place of the head keep this, and change the elements by just that.
\<close>

locale extremum_queue =
  fixes f :: "'a \<Rightarrow> 'k::linorder"
    and valid :: "'a list \<Rightarrow> bool"
    and push :: "'a \<Rightarrow> 'a list \<Rightarrow> 'a list"
    and replace_head :: "'a \<Rightarrow> 'a list \<Rightarrow> 'a list"
  assumes empty_valid: "valid []"
    and head_extreme: "valid q \<Longrightarrow> x \<in> set q \<Longrightarrow> f x \<le> f (q ! 0)"
    and push_valid: "valid q \<Longrightarrow> valid (push x q) \<and> mset (push x q) = add_mset x (mset q)"
    and replace_valid: "valid q \<Longrightarrow> q \<noteq> [] \<Longrightarrow>
      valid (replace_head x q) \<and> mset (replace_head x q) = add_mset x (mset q - {#q ! 0#})"
begin

text \<open>Keeping the \<open>limit\<close> least of a sequence: the loop of the client.\<close>

definition offer :: "nat \<Rightarrow> 'a \<Rightarrow> 'a list \<Rightarrow> 'a list" where
  "offer limit x q = (if length q < limit then push x q else if f x < f (q ! 0) then replace_head x q else q)"

text \<open>\<open>q\<close> holds the \<open>limit\<close> least of the elements \<open>M\<close> seen so far.\<close>

definition least_of :: "nat \<Rightarrow> 'a multiset \<Rightarrow> 'a list \<Rightarrow> bool" where
  "least_of limit M q \<longleftrightarrow> valid q \<and> length q = min limit (size M) \<and>
     (\<exists>R. M = mset q + R \<and> (\<forall>z \<in># R. \<forall>y \<in># mset q. f y \<le> f z))"

lemma least_of_empty: "least_of limit {#} []"
  by (simp add: least_of_def empty_valid)

lemma offer_least:
  assumes "least_of limit M q" "0 < limit"
  shows "least_of limit (add_mset x M) (offer limit x q)"
proof -
  from assms(1) obtain R where v: "valid q" and len: "length q = min limit (size M)" and M: "M = mset q + R"
    and rest: "\<And>z y. z \<in># R \<Longrightarrow> y \<in># mset q \<Longrightarrow> f y \<le> f z"
    unfolding least_of_def by blast
  show ?thesis
  proof (cases "length q < limit")
    case True
    have "size M = length q + size R" unfolding M by simp
    then have "size R = 0" using len True by linarith
    then have full: "M = mset q" using M by simp
    note p = push_valid [OF v, of x]
    have "size (mset (push x q)) = size (add_mset x M)" using p full by simp
    then have "length (push x q) = min limit (size (add_mset x M))" using full True by simp
    with True p full show ?thesis by (simp add: offer_def least_of_def)
  next
    case False
    then have n: "length q = limit" "limit \<le> size M" using len by linarith+
    with assms(2) have ne: "q \<noteq> []" by auto
    have h: "q ! 0 \<in> set q" using ne by simp
    show ?thesis
    proof (cases "f x < f (q ! 0)")
      case True
      obtain Q where Q: "mset q = add_mset (q ! 0) Q" using h by (metis insert_DiffM set_mset_mset)
      have r: "valid (replace_head x q)" "mset (replace_head x q) = add_mset x Q"
        using replace_valid [OF v ne, of x] Q by simp_all
      have "size (mset (replace_head x q)) = size (mset q)" unfolding r(2) Q by simp
      then have "length (replace_head x q) = min limit (size (add_mset x M))" using n by simp
      moreover have "add_mset x M = mset (replace_head x q) + add_mset (q ! 0) R" unfolding r(2) M Q by simp
      moreover have "f y \<le> f z" if z: "z \<in># add_mset (q ! 0) R" and y: "y \<in># mset (replace_head x q)" for z y
      proof -
        have "f (q ! 0) \<le> f z" using z rest h by auto
        moreover have "y = x \<or> y \<in># mset q" using y unfolding r(2) Q by auto
        then have "f y \<le> f (q ! 0)" using True head_extreme [OF v] by auto
        ultimately show ?thesis by simp
      qed
      ultimately have "least_of limit (add_mset x M) (replace_head x q)" unfolding least_of_def using r(1) by blast
      then show ?thesis using False True by (simp add: offer_def)
    next
      case ge: False
      have "f y \<le> f z" if z: "z \<in># add_mset x R" and y: "y \<in># mset q" for z y
      proof (cases "z = x")
        case True
        have "f y \<le> f (q ! 0)" using y head_extreme [OF v] by simp
        with True ge show ?thesis by simp
      next
        case False
        with z y rest show ?thesis by simp
      qed
      moreover have "add_mset x M = mset q + add_mset x R" using M by simp
      moreover have "length q = min limit (size (add_mset x M))" using n by simp
      ultimately have "least_of limit (add_mset x M) q" unfolding least_of_def using v by blast
      then show ?thesis using False ge by (simp add: offer_def)
    qed
  qed
qed

text \<open>All that is offered, in any order, leaves the least ones of the sorted whole.\<close>

lemma offers_least: "0 < limit \<Longrightarrow> least_of limit (mset xs) (fold (offer limit) xs [])"
proof (induction xs rule: rev_induct)
  case (snoc x xs)
  then show ?case using offer_least [of limit "mset xs"] by simp
qed (simp add: least_of_empty)

end

lemma sort_key_eq_of_mset:
  fixes f :: "'a \<Rightarrow> 'k::linorder"
  assumes "mset xs = mset ys" "inj_on f (set xs)" "sorted (map f ys)"
  shows "sort_key f xs = ys"
proof -
  have "map f (sort_key f xs) = map f ys"
  proof -
    have "mset (map f (sort_key f xs)) = mset (map f ys)" using assms(1) by (simp add: mset_map)
    moreover have "sorted (map f (sort_key f xs))" by simp
    ultimately show ?thesis using assms(3) by (metis properties_for_sort)
  qed
  moreover have "set (sort_key f xs) = set ys" "set xs = set ys" using assms(1) mset_eq_setD by auto
  ultimately show ?thesis using assms(2) by (metis inj_on_map_eq_map sup.idem)
qed

text \<open>When the keys differ, the selection sorted is a prefix of the whole sorted.\<close>

lemma selection_sorted:
  fixes f :: "'a \<Rightarrow> 'k::linorder"
  assumes "mset xs = mset q + R" "\<forall>z \<in># R. \<forall>y \<in># mset q. f y \<le> f z" "inj_on f (set xs)"
  shows "sort_key f q = take (length q) (sort_key f xs)"
proof -
  obtain rs where rs: "mset rs = R" using ex_mset by blast
  have sorted: "sorted (map f (sort_key f q @ sort_key f rs))"
    using assms(2) rs by (auto simp: sorted_append)
  have m: "mset (sort_key f q @ sort_key f rs) = mset xs" using assms(1) rs by simp
  have "sort_key f xs = sort_key f q @ sort_key f rs"
    by (rule sort_key_eq_of_mset [OF m [symmetric] assms(3) sorted])
  then show ?thesis by simp
qed

section \<open>The heap is such a queue\<close>

lemma push_heap:
  assumes "is_heap f q"
  shows "is_heap f (heap_Push (\<lambda>a b. f b < f a) x q) \<and> mset (heap_Push (\<lambda>a b. f b < f a) x q) = add_mset x (mset q)"
proof -
  have "heap_but_up f (length q) (q @ [x])" unfolding heap_but_up_def
  proof (intro conjI allI impI)
    fix k assume k: "k < length (q @ [x])" "0 < k \<and> k \<noteq> length q"
    then have kl: "k < length q" "parent k < length q" by auto
    with k(2) assms show "f ((q @ [x]) ! k) \<le> f ((q @ [x]) ! parent k)" by (simp add: nth_append is_heap_def)
  next
    fix k assume k: "k < length (q @ [x])" "0 < k \<and> 0 < length q \<and> parent k = length q"
    then have "parent k < k" using parent_less by blast
    with k show "f ((q @ [x]) ! k) \<le> f ((q @ [x]) ! parent (length q))" by simp
  qed simp
  from heap_up_correct [OF this] show ?thesis by (simp add: heap_Push_def)
qed

lemma fix_heap:
  assumes "is_heap f q" "q \<noteq> []"
  shows "is_heap f (heap_Fix (\<lambda>a b. f b < f a) 0 (q[0 := x])) \<and>
    mset (heap_Fix (\<lambda>a b. f b < f a) 0 (q[0 := x])) = add_mset x (mset q - {#q ! 0#})"
proof -
  have "heap_but_down f 0 (q[0 := x])" unfolding heap_but_down_def
  proof (intro conjI allI impI)
    show "0 < length (q[0 := x])" using assms(2) by simp
  next
    fix k assume k: "k < length (q[0 := x])" "0 < k \<and> parent k \<noteq> 0"
    then have "k < length q" by simp
    with k(2) assms(1) show "f (q[0 := x] ! k) \<le> f (q[0 := x] ! parent k)" by (simp add: is_heap_def)
  qed simp
  from heap_down_correct [OF this] have d: "is_heap f (fst (heap_down (\<lambda>a b. f b < f a) 0 (q[0 := x])))"
    "mset (fst (heap_down (\<lambda>a b. f b < f a) 0 (q[0 := x]))) = mset (q[0 := x])" by simp_all
  have "heap_Fix (\<lambda>a b. f b < f a) 0 (q[0 := x]) = fst (heap_down (\<lambda>a b. f b < f a) 0 (q[0 := x]))"
    by (simp add: heap_Fix_def heap_up.simps split: prod.split)
  with d assms(2) show ?thesis by (simp add: mset_update)
qed

interpretation heap: extremum_queue f "is_heap f" "heap_Push (\<lambda>a b. f b < f a)"
    "\<lambda>x q. heap_Fix (\<lambda>a b. f b < f a) 0 (q[0 := x])" for f :: "'a \<Rightarrow> 'k::linorder"
proof
  show "is_heap f []" by (simp add: is_heap_def)
  show "f x \<le> f (q ! 0)" if "is_heap f q" "x \<in> set q" for q x
    using is_heap_head [OF that(1)] that(2) by (auto simp: in_set_conv_nth)
qed (fact push_heap fix_heap)+

end
