(* ===== verification/Thread_Properties.thy ===== *)
theory Thread_Properties
  imports Mail_Threads
begin

text \<open>
  \<^verbatim>\<open>BuildThread\<close> is correct: the bounded heap selects what sorting everything would, the keys it
  gives are different, no walk along parents runs forever, and the result is a forest whose depths
  are consistent and bounded and whose links are those the references name.
\<close>

section \<open>The earliest messages\<close>

lemma before_order: "threadMessageBefore l r \<longleftrightarrow> message_order l < message_order r"
  by (auto simp: threadMessageBefore_def message_order_def less_prod_def')

lemma latestFirst_order: "latestFirst = (\<lambda>a b. message_order b < message_order a)"
  by (simp add: latestFirst_def before_order fun_eq_iff)

interpretation earliest: extremum_queue message_order "is_heap message_order" "heap_Push latestFirst"
    "\<lambda>x q. heap_Fix latestFirst 0 (q[0 := x])"
  unfolding latestFirst_order by (rule heap.extremum_queue_axioms)

lemma keep_earliest_offer: "keep_earliest = earliest.offer"
  by (simp add: keep_earliest_def earliest.offer_def before_order fun_eq_iff)

lemma order_inj: "inj_on message_order (set (zip messages [0..<length messages]))"
  by (rule inj_onI) (auto simp: message_order_def set_zip)

lemma earliest_is_sorted_prefix:
  assumes "0 < limit"
  shows "earliestThreadMessages messages limit =
    map fst (take limit (sort_key message_order (zip messages [0..<length messages])))"
proof -
  let ?xs = "zip messages [0..<length messages]"
  let ?q = "fold (keep_earliest limit) ?xs []"
  have l: "earliest.least_of limit (mset ?xs) ?q"
    unfolding keep_earliest_offer by (rule earliest.offers_least [OF assms])
  then obtain R where "mset ?xs = mset ?q + R" "\<forall>z \<in># R. \<forall>y \<in># mset ?q. message_order y \<le> message_order z"
    unfolding earliest.least_of_def by blast
  from selection_sorted [OF this order_inj] have "sort_key message_order ?q = take (length ?q) (sort_key message_order ?xs)" .
  moreover have "length ?q = min limit (length ?xs)" using l by (simp add: earliest.least_of_def)
  ultimately have "sort_key message_order ?q = take limit (sort_key message_order ?xs)"
    by (simp add: min_def split: if_splits)
  then show ?thesis by (simp add: earliestThreadMessages_def)
qed

text \<open>
  The bounded heap is an optimisation: the messages selected are the first \<open>limit\<close> of all messages
  sorted by receipt time, key, message identifier and input position, in that order.
\<close>

theorem earliestThreadMessages_sorted_prefix:
  assumes "0 < limit"
  shows "earliestThreadMessages messages limit =
    map fst (take limit (sort_key message_order (zip messages [0..<length messages])))"
  by (rule earliest_is_sorted_prefix [OF assms])

lemma earliest_length: "0 < limit \<Longrightarrow> length (earliestThreadMessages messages limit) = min limit (length messages)"
  by (simp add: earliest_is_sorted_prefix min_def)

section \<open>Keys\<close>

lemma numbered_key_inj: "numbered_key base m = numbered_key base n \<Longrightarrow> m = n"
proof -
  assume "numbered_key base m = numbered_key base n"
  then have e: "format_uint m = format_uint n" by (simp add: numbered_key_def)
  have b: "m < 2 ^ (m + n)" "n < 2 ^ (m + n)"
    using less_exp [of "m + n"] by linarith+
  have "parse_uint (m + n) (format_uint m) = Some m" using b(1) by (rule parse_format_uint)
  moreover have "parse_uint (m + n) (format_uint n) = Some n" using b(2) by (rule parse_format_uint)
  ultimately show "m = n" using e by (metis option.inject)
qed

definition taken :: "bytes \<Rightarrow> bytes list \<Rightarrow> nat \<Rightarrow> bytes set" where
  "taken base keys num = {k \<in> set keys. \<exists>t \<ge> num. k = numbered_key base t}"

lemma taken_step: "numbered_key base num \<in> set keys \<Longrightarrow> card (taken base keys (num + 1)) < card (taken base keys num)"
proof (rule psubset_card_mono)
  assume n: "numbered_key base num \<in> set keys"
  show "finite (taken base keys num)" by (simp add: taken_def)
  have "numbered_key base num \<in> taken base keys num" using n by (auto simp: taken_def)
  moreover have "numbered_key base num \<notin> taken base keys (num + 1)"
    by (auto simp: taken_def dest: numbered_key_inj)
  moreover have "taken base keys (num + 1) \<subseteq> taken base keys num"
    by (auto simp: taken_def dest: Suc_leD)
  ultimately show "taken base keys (num + 1) \<subset> taken base keys num" by blast
qed

lemma free_key_returns:
  "key \<noteq> [] \<Longrightarrow> \<exists>r. free_key base keys key num = Some r \<and> r \<notin> set keys \<and> r \<noteq> []"
proof (induction "card (taken base keys num)" arbitrary: key num rule: less_induct)
  case less
  show ?case
  proof (cases "key \<in> set keys")
    case False
    with less.prems show ?thesis by (subst free_key.simps) simp
  next
    case True
    have ne: "numbered_key base num \<noteq> []" by (simp add: numbered_key_def)
    have step: "free_key base keys key num = free_key base keys (numbered_key base num) (num + 1)"
      using True by (subst free_key.simps) simp
    show ?thesis
    proof (cases "numbered_key base num \<in> set keys")
      case in_keys: True
      from less.hyps [OF taken_step [OF in_keys] ne] show ?thesis unfolding step .
    next
      case False
      with ne show ?thesis unfolding step by (subst free_key.simps) simp
    qed
  qed
qed

lemma base_key_not_Nil: "base_key m \<noteq> []"
  by (simp add: base_key_def Let_def)

lemma assign_keys_returns:
  "\<exists>ms'. assign_keys ms keys = Some ms' \<and> length ms' = length ms \<and> map tm_Headers ms' = map tm_Headers ms \<and>
     map tm_ReceivedAt ms' = map tm_ReceivedAt ms \<and> distinct (map tm_Key ms') \<and> [] \<notin> set (map tm_Key ms') \<and>
     set (map tm_Key ms') \<inter> set keys = {}"
proof (induction ms arbitrary: keys)
  case (Cons m ms)
  from free_key_returns [OF base_key_not_Nil, of "base_key m" keys m 2]
  obtain key where k: "stableThreadKey m keys = Some key" "key \<notin> set keys" "key \<noteq> []"
    unfolding stableThreadKey_def by blast
  from Cons.IH [of "keys @ [key]"] obtain ms' where ms': "assign_keys ms (keys @ [key]) = Some ms'"
    "length ms' = length ms" "map tm_Headers ms' = map tm_Headers ms" "map tm_ReceivedAt ms' = map tm_ReceivedAt ms"
    "distinct (map tm_Key ms')" "[] \<notin> set (map tm_Key ms')" "set (map tm_Key ms') \<inter> set (keys @ [key]) = {}" by blast
  from k ms' show ?case
    by (intro exI [of _ "m\<lparr>tm_Key := key\<rparr> # ms'"]) auto
qed simp

section \<open>Forests\<close>

text \<open>\<open>depth_of p i d\<close>: from \<open>i\<close> there are \<open>d\<close> links to a root.\<close>

inductive depth_of :: "nat option list \<Rightarrow> nat \<Rightarrow> nat \<Rightarrow> bool" for p where
  root: "p ! i = None \<Longrightarrow> depth_of p i 0"
| step: "p ! i = Some j \<Longrightarrow> depth_of p j d \<Longrightarrow> depth_of p i (Suc d)"

inductive_cases depth_of_SomeE: "depth_of p i (Suc d)"

lemma depth_of_root: "p ! i = None \<Longrightarrow> depth_of p i d \<longleftrightarrow> d = 0"
  by (auto elim: depth_of.cases intro: depth_of.root)

lemma depth_of_link: "p ! i = Some j \<Longrightarrow> depth_of p i d \<longleftrightarrow> (\<exists>e. d = Suc e \<and> depth_of p j e)"
  by (auto elim: depth_of.cases intro: depth_of.step)

lemma depth_of_unique: "depth_of p i d \<Longrightarrow> depth_of p i e \<Longrightarrow> d = e"
proof (induction arbitrary: e rule: depth_of.induct)
  case (step i j d)
  then obtain e' where "e = Suc e'" "depth_of p j e'" using depth_of_link by blast
  with step.IH show ?case by simp
qed (simp add: depth_of_root)

definition forest :: "nat option list \<Rightarrow> bool" where
  "forest p \<longleftrightarrow> (\<forall>i < length p. \<exists>d. depth_of p i d) \<and> (\<forall>i < length p. \<forall>j. p ! i = Some j \<longrightarrow> j < length p)"

lemma nth_update_other: "i \<noteq> k \<Longrightarrow> (xs[k := x]) ! i = xs ! i"
  by simp

text \<open>Cutting a link leaves a forest, and the depth of everything less deep.\<close>

lemma depth_cut:
  assumes "depth_of p i d" "k < length p"
  shows "\<exists>e. depth_of (p[k := None]) i e"
  using assms(1)
proof (induction rule: depth_of.induct)
  case (root i)
  then have "p[k := None] ! i = None" using assms(2) by (cases "i = k") simp_all
  then show ?case using depth_of.root by blast
next
  case (step i j d)
  show ?case
  proof (cases "i = k")
    case True
    then have "p[k := None] ! i = None" using assms(2) by simp
    then show ?thesis using depth_of.root by blast
  next
    case False
    with step show ?thesis by (metis depth_of.step nth_update_other)
  qed
qed

lemma forest_cut: "forest p \<Longrightarrow> k < length p \<Longrightarrow> forest (p[k := None])"
  unfolding forest_def using depth_cut by (auto simp: nth_list_update split: if_splits)

lemma depth_keep:
  assumes "depth_of p i e" "depth_of p k d" "e < d"
  shows "depth_of (p[k := None]) i e"
  using assms(1,3)
proof (induction rule: depth_of.induct)
  case (root i)
  then have "i \<noteq> k" using assms(2) by (auto simp: depth_of_root)
  with root show ?case by (intro depth_of.root) simp
next
  case (step i j e)
  have "i \<noteq> k" using depth_of_unique [OF assms(2)] depth_of.step [OF step.hyps] step.prems by blast
  with step show ?case by (intro depth_of.step [of _ _ j]) simp_all
qed

text \<open>The walk of \<^verbatim>\<open>wouldCycle\<close>: it returns, and when it does not meet the child the new link is safe.\<close>

lemma wouldCycle_returns:
  assumes "depth_of p j d" "k < length p" "p ! k = None"
  shows "\<exists>b. wouldCycle k (Some j) (p[k := up]) = Some b \<and> (\<not> b \<longrightarrow> depth_of (p[k := up]) j d)"
  using assms(1)
proof (induction rule: depth_of.induct)
  case (root j)
  show ?case
  proof (cases "j = k")
    case True
    then show ?thesis by (subst wouldCycle.simps) auto
  next
    case False
    have n: "p[k := up] ! j = None" using root False by simp
    have "wouldCycle k None (p[k := up]) = Some False" by (subst wouldCycle.simps) simp
    then have "wouldCycle k (Some j) (p[k := up]) = Some False" using n False by (subst wouldCycle.simps) simp
    with n show ?thesis by (auto intro: depth_of.root)
  qed
next
  case (step j l d)
  then have jk: "j \<noteq> k" using assms(3) by auto
  then have n: "p[k := up] ! j = Some l" using step by simp
  have "wouldCycle k (Some j) (p[k := up]) = wouldCycle k (Some l) (p[k := up])"
    using n jk by (subst wouldCycle.simps) simp
  with step.IH n show ?case by (auto intro: depth_of.step)
qed

lemma depth_link:
  assumes "depth_of p i e" "p ! k = None" "k < length p" "depth_of (p[k := Some j]) j d"
  shows "\<exists>e'. depth_of (p[k := Some j]) i e'"
  using assms(1)
proof (induction rule: depth_of.induct)
  case (root i)
  show ?case
  proof (cases "i = k")
    case True
    with assms(3,4) show ?thesis by (intro exI [of _ "Suc d"] depth_of.step [of _ _ j]) simp_all
  next
    case False
    with root show ?thesis by (intro exI [of _ 0] depth_of.root) simp
  qed
next
  case (step i l e)
  then have "i \<noteq> k" using assms(2) by auto
  with step show ?case by (metis depth_of.step nth_update_other)
qed

lemma forest_link:
  assumes "forest p" "p ! k = None" "k < length p" "j < length p" "depth_of (p[k := Some j]) j d"
  shows "forest (p[k := Some j])"
  unfolding forest_def
proof (intro conjI allI impI)
  fix i assume "i < length (p[k := Some j])"
  then show "\<exists>d. depth_of (p[k := Some j]) i d"
    using assms(1) depth_link [OF _ assms(2,3,5)] by (auto simp: forest_def)
next
  fix i l assume "i < length (p[k := Some j])" "p[k := Some j] ! i = Some l"
  then show "l < length (p[k := Some j])" using assms(1,3,4) by (auto simp: forest_def nth_list_update split: if_splits)
qed

section \<open>Linking\<close>

lemma identifier_index_Some:
  "identifier_index ms ident = Some i \<Longrightarrow> i < length ms \<and> h_MessageID (tm_Headers (ms ! i)) = ident \<and> ident \<noteq> [] \<and>
     (\<forall>j < i. h_MessageID (tm_Headers (ms ! j)) \<noteq> ident)"
proof (induction ms arbitrary: i)
  case (Cons m ms)
  show ?case
  proof (cases "h_MessageID (tm_Headers m) = ident \<and> ident \<noteq> []")
    case True
    with Cons.prems show ?thesis by auto
  next
    case False
    with Cons.prems obtain k where k: "identifier_index ms ident = Some k" "i = Suc k"
      by (metis (no_types, lifting) identifier_index.simps(2) map_option_eq_Some)
    from Cons.IH [OF k(1)] False k(2) show ?thesis
      by (auto simp: less_Suc_eq_0_disj)
  qed
qed simp

lemma first_known_Some: "first_known ids rs = Some p \<Longrightarrow> \<exists>r \<in> set rs. ids r = Some p"
  by (induction rs) (auto split: option.splits)

text \<open>The parent a message names.\<close>

definition named_parent :: "ThreadMessage list \<Rightarrow> nat \<Rightarrow> nat \<Rightarrow> nat option" where
  "named_parent ordered maxReferences i = fst (parentFor (ordered ! i) (identifier_index ordered) maxReferences False)"

lemma parentFor_fst: "fst (parentFor m ids k t) = fst (parentFor m ids k False)"
  by (simp add: parentFor_def Let_def split: option.split)

lemma parentFor_range:
  assumes "fst (parentFor m (identifier_index ms) k t) = Some p"
  shows "p < length ms"
proof -
  from assms have "\<exists>r. identifier_index ms r = Some p"
    by (auto simp: parentFor_def Let_def split: option.splits if_splits dest: first_known_Some)
  then show ?thesis using identifier_index_Some by blast
qed

definition link_inv :: "ThreadMessage list \<Rightarrow> nat \<Rightarrow> nat \<Rightarrow> linking \<Rightarrow> bool" where
  "link_inv ordered maxReferences i st \<longleftrightarrow>
     length (l_parents st) = length ordered \<and> forest (l_parents st) \<and>
     (\<forall>k < length ordered. i \<le> k \<longrightarrow> l_parents st ! k = None) \<and>
     (\<forall>k < i. l_parents st ! k \<noteq> None \<longrightarrow> l_parents st ! k = named_parent ordered maxReferences k) \<and>
     (\<not> l_ThreadCycle st \<longrightarrow> (\<forall>k < i. l_parents st ! k = named_parent ordered maxReferences k))"

lemma link_one_inv:
  assumes "link_inv ordered maxReferences i st" "i < length ordered"
  shows "\<exists>st'. link_one (identifier_index ordered) maxReferences (ordered ! i, i) st = Some st' \<and>
    link_inv ordered maxReferences (Suc i) st'"
proof -
  let ?p = "l_parents st"
  have len: "length ?p = length ordered" and f: "forest ?p" and none: "?p ! i = None"
    and later: "\<And>k. k < length ordered \<Longrightarrow> i \<le> k \<Longrightarrow> ?p ! k = None"
    and named: "\<And>k. k < i \<Longrightarrow> ?p ! k \<noteq> None \<Longrightarrow> ?p ! k = named_parent ordered maxReferences k"
    and exact: "\<And>k. \<not> l_ThreadCycle st \<Longrightarrow> k < i \<Longrightarrow> ?p ! k = named_parent ordered maxReferences k"
    using assms by (simp_all add: link_inv_def)
  obtain up missing truncated where pf: "parentFor (ordered ! i) (identifier_index ordered) maxReferences (l_References st) =
      (up, missing, truncated)" by (metis prod.exhaust)
  have up: "up = named_parent ordered maxReferences i"
    using arg_cong [OF pf, of fst] parentFor_fst [of _ _ _ "l_References st"] by (simp add: named_parent_def)
  have same: "?p[i := None] = ?p" using none by (metis list_update_id)
  show ?thesis
  proof (cases up)
    case None
    let ?st = "st\<lparr>l_parents := ?p[i := up], l_missing := (l_missing st)[i := missing], l_References := truncated\<rparr>"
    have "link_one (identifier_index ordered) maxReferences (ordered ! i, i) st = Some ?st"
      using pf None by (simp add: link_one_def Let_def)
    moreover have "link_inv ordered maxReferences (Suc i) ?st"
      using None same len f later named exact up none
      by (auto simp: link_inv_def less_Suc_eq)
    ultimately show ?thesis by blast
  next
    case (Some j)
    have j: "j < length ?p" using parentFor_range [of "ordered ! i"] pf Some len by (metis fst_conv)
    with f obtain d where d: "depth_of ?p j d" by (auto simp: forest_def)
    from wouldCycle_returns [OF d _ none, of up] assms(2) len Some obtain b where
      b: "wouldCycle i up (?p[i := up]) = Some b" "\<not> b \<longrightarrow> depth_of (?p[i := up]) j d" by auto
    let ?st = "st\<lparr>l_parents := ?p[i := up], l_missing := (l_missing st)[i := missing], l_References := truncated\<rparr>"
    let ?st' = "if b then ?st\<lparr>l_parents := ?p[i := up, i := None], l_ThreadCycle := True\<rparr> else ?st"
    have run: "link_one (identifier_index ordered) maxReferences (ordered ! i, i) st = Some ?st'"
      using pf Some b(1) by (simp add: link_one_def Let_def)
    have "link_inv ordered maxReferences (Suc i) ?st'"
    proof (cases b)
      case True
      then show ?thesis
        using same len f later named none by (auto simp: link_inv_def less_Suc_eq)
    next
      case False
      have "forest (?p[i := up])"
        using forest_link [OF f none _ j] b(2) False Some assms(2) len by auto
      with False show ?thesis
        using len later named exact up Some assms(2)
        by (auto simp: link_inv_def less_Suc_eq)
    qed
    with run show ?thesis by blast
  qed
qed

lemma link_all_inv:
  "link_inv ordered maxReferences i st \<Longrightarrow> i + k = length ordered \<Longrightarrow>
     \<exists>st'. link_all (identifier_index ordered) maxReferences (zip (drop i ordered) [i..<length ordered]) st = Some st' \<and>
       link_inv ordered maxReferences (length ordered) st'"
proof (induction k arbitrary: i st)
  case (Suc k)
  then have i: "i < length ordered" by simp
  have z: "zip (drop i ordered) [i..<length ordered] = (ordered ! i, i) # zip (drop (Suc i) ordered) [Suc i..<length ordered]"
    using i by (simp add: Cons_nth_drop_Suc [symmetric] upt_conv_Cons)
  from link_one_inv [OF Suc.prems(1) i] obtain st1 where
    "link_one (identifier_index ordered) maxReferences (ordered ! i, i) st = Some st1"
    "link_inv ordered maxReferences (Suc i) st1" by blast
  with Suc.IH [of "Suc i" st1] Suc.prems(2) z show ?case by simp
qed simp

lemma link_inv_init:
  "link_inv ordered maxReferences 0 \<lparr>l_parents = replicate (length ordered) None, l_missing = ms, l_References = r, l_ThreadCycle = c\<rparr>"
proof -
  have "depth_of (replicate n None) i 0" if "i < n" for i n
    by (rule depth_of.root) (simp add: that)
  then have "forest (replicate n None)" for n
    unfolding forest_def by auto
  then show ?thesis by (simp add: link_inv_def)
qed

section \<open>Depths\<close>

lemma resolve_returns:
  assumes "depth_of p i d" "\<And>j. depths ! j \<noteq> 0 \<Longrightarrow> depth_of p j (depths ! j)"
  shows "resolveThreadDepth i p depths = Some d"
  using assms(1)
proof (induction rule: depth_of.induct)
  case (root i)
  then show ?case by (subst resolveThreadDepth.simps) simp
next
  case (step i j d)
  show ?case
  proof (cases "depths ! j = 0")
    case True
    with step show ?thesis by (subst resolveThreadDepth.simps) simp
  next
    case False
    have "depths ! j = d" using depth_of_unique [OF assms(2) [OF False] step.hyps(2)] .
    with step False show ?thesis by (subst resolveThreadDepth.simps) simp
  qed
qed

definition depth_inv :: "nat \<Rightarrow> nat option list \<Rightarrow> nat \<Rightarrow> depth_state \<Rightarrow> bool" where
  "depth_inv maxDepth links i st \<longleftrightarrow>
     length (d_parents st) = length links \<and> length (d_depths st) = length links \<and> forest (d_parents st) \<and>
     (\<forall>k < length links. k < i \<longrightarrow> depth_of (d_parents st) k (d_depths st ! k) \<and> d_depths st ! k \<le> maxDepth) \<and>
     (\<forall>k < length links. i \<le> k \<longrightarrow> d_depths st ! k = 0) \<and>
     (\<forall>k < length links. d_parents st ! k = links ! k \<or> d_parents st ! k = None \<and> d_ThreadDepth st)"

text \<open>Entries outside the array are never read; inside, a memo that is not zero is a depth.\<close>

lemma resolve_memo:
  assumes "depth_inv maxDepth links i st" "i < length links"
  shows "\<exists>d. depth_of (d_parents st) i d \<and> resolveThreadDepth i (d_parents st) (d_depths st) = Some d"
proof -
  let ?p = "d_parents st" and ?ds = "d_depths st"
  have f: "forest ?p" and len: "length ?p = length links" "length ?ds = length links"
    and early: "\<And>k. k < length links \<Longrightarrow> k < i \<Longrightarrow> depth_of ?p k (?ds ! k)"
    and late: "\<And>k. k < length links \<Longrightarrow> i \<le> k \<Longrightarrow> ?ds ! k = 0"
    using assms(1) by (simp_all add: depth_inv_def)
  from f assms(2) len obtain d where d: "depth_of ?p i d" by (auto simp: forest_def)
  have "resolveThreadDepth k ?p ?ds = Some e" if "depth_of ?p k e" "k < length links" for k e
    using that
  proof (induction rule: depth_of.induct)
    case (root k)
    then show ?case by (subst resolveThreadDepth.simps) simp
  next
    case (step k j e)
    have j: "j < length links" using f step.hyps(1) step.prems len by (auto simp: forest_def)
    show ?case
    proof (cases "?ds ! j = 0")
      case True
      with step j show ?thesis by (subst resolveThreadDepth.simps) simp
    next
      case False
      then have "depth_of ?p j (?ds ! j)" using early late j by (metis not_less)
      with step.hyps(2) have "?ds ! j = e" using depth_of_unique by blast
      with step False show ?thesis by (subst resolveThreadDepth.simps) simp
    qed
  qed
  with d assms(2) show ?thesis by blast
qed

lemma depth_one_inv:
  assumes inv: "depth_inv maxDepth links i st" and i: "i < length links"
  shows "\<exists>st'. depth_one maxDepth i st = Some st' \<and> depth_inv maxDepth links (Suc i) st'"
proof -
  let ?p = "d_parents st" and ?ds = "d_depths st"
  have f: "forest ?p" and len: "length ?p = length links" "length ?ds = length links"
    and early: "\<And>k. k < length links \<Longrightarrow> k < i \<Longrightarrow> depth_of ?p k (?ds ! k) \<and> ?ds ! k \<le> maxDepth"
    and late: "\<And>k. k < length links \<Longrightarrow> i \<le> k \<Longrightarrow> ?ds ! k = 0"
    and orig: "\<And>k. k < length links \<Longrightarrow> ?p ! k = links ! k \<or> ?p ! k = None \<and> d_ThreadDepth st"
    using inv by (simp_all add: depth_inv_def)
  from resolve_memo [OF inv i] obtain d where d: "depth_of ?p i d" "resolveThreadDepth i ?p ?ds = Some d" by blast
  show ?thesis
  proof (cases "maxDepth < d")
    case True
    let ?st = "st\<lparr>d_parents := ?p[i := None], d_depths := ?ds[i := 0], d_ThreadDepth := True\<rparr>"
    have "depth_one maxDepth i st = Some ?st" using d(2) True by (simp add: depth_one_def)
    moreover have "depth_inv maxDepth links (Suc i) ?st" unfolding depth_inv_def
    proof (intro conjI allI impI)
      show "forest (d_parents ?st)" using forest_cut [OF f] i len by simp
    next
      fix k assume k: "k < length links" "k < Suc i"
      show "depth_of (d_parents ?st) k (d_depths ?st ! k)"
      proof (cases "k = i")
        case True
        with i len show ?thesis by (auto intro: depth_of.root)
      next
        case False
        with k early have e: "depth_of ?p k (?ds ! k)" "?ds ! k \<le> maxDepth" by auto
        have "?ds ! k < d" using e(2) \<open>maxDepth < d\<close> by simp
        from depth_keep [OF e(1) d(1) this] False show ?thesis by simp
      qed
      show "d_depths ?st ! k \<le> maxDepth" using k early i len by (cases "k = i") auto
    next
      fix k assume k: "k < length links"
      show "d_parents ?st ! k = links ! k \<or> d_parents ?st ! k = None \<and> d_ThreadDepth ?st"
        using orig [OF k] i len by (cases "k = i") auto
    qed (use len late in auto)
    ultimately show ?thesis by blast
  next
    case False
    let ?st = "st\<lparr>d_depths := ?ds[i := d]\<rparr>"
    have "depth_one maxDepth i st = Some ?st" using d(2) False by (simp add: depth_one_def)
    moreover have "depth_inv maxDepth links (Suc i) ?st"
      using f len early late orig d(1) False i by (auto simp: depth_inv_def less_Suc_eq nth_list_update)
    ultimately show ?thesis by blast
  qed
qed

lemma depth_all_inv:
  "depth_inv maxDepth links i st \<Longrightarrow> i + k = length links \<Longrightarrow>
     \<exists>st'. depth_all maxDepth [i..<length links] st = Some st' \<and> depth_inv maxDepth links (length links) st'"
proof (induction k arbitrary: i st)
  case (Suc k)
  then have i: "i < length links" by simp
  from depth_one_inv [OF Suc.prems(1) i] obtain st1 where
    "depth_one maxDepth i st = Some st1" "depth_inv maxDepth links (Suc i) st1" by blast
  with Suc.IH [of "Suc i" st1] Suc.prems(2) i show ?case by (simp add: upt_conv_Cons)
qed simp

lemma depth_inv_init:
  "forest links \<Longrightarrow> depth_inv maxDepth links 0 \<lparr>d_parents = links, d_depths = replicate (length links) 0, d_ThreadDepth = False\<rparr>"
  by (simp add: depth_inv_def)

section \<open>The thread\<close>

text \<open>\<^verbatim>\<open>BuildThread\<close> returns, and what it returns in terms of its phases.\<close>

lemma BuildThread_returns:
  fixes messages options
  defines "limits \<equiv> normalizedLimits options"
  shows "\<exists>ordered links ds th. BuildThread messages options = Some th \<and>
    assign_keys (earliestThreadMessages messages (nat (lMaxThreadMessages limits))) [] = Some ordered \<and>
    link_inv ordered (nat (lMaxReferenceCount limits)) (length ordered) links \<and>
    depth_inv (nat (lMaxThreadDepth limits)) (l_parents links) (length ordered) ds \<and>
    th = \<lparr>th_Nodes = map (thread_node ordered (l_missing links) (d_parents ds) (d_depths ds)) [0..<length ordered],
        th_Truncation = noTruncation\<lparr>t_ThreadMessages := nat (lMaxThreadMessages limits) < length messages,
          t_References := l_References links, t_ThreadCycle := l_ThreadCycle links,
          t_ThreadDepth := d_ThreadDepth ds\<rparr>\<rparr>"
proof -
  from assign_keys_returns obtain ordered where a:
    "assign_keys (earliestThreadMessages messages (nat (lMaxThreadMessages limits))) [] = Some ordered" by blast
  let ?n = "length ordered" and ?m = "nat (lMaxReferenceCount limits)" and ?d = "nat (lMaxThreadDepth limits)"
  from link_all_inv [OF link_inv_init [of ordered ?m "replicate ?n []" False False], of ?n]
  obtain links where l: "link_all (identifier_index ordered) ?m (zip ordered [0..<?n])
        \<lparr>l_parents = replicate ?n None, l_missing = replicate ?n [], l_References = False, l_ThreadCycle = False\<rparr> = Some links"
    "link_inv ordered ?m ?n links" by auto
  have f: "forest (l_parents links)" "length (l_parents links) = ?n" using l(2) by (simp_all add: link_inv_def)
  from depth_all_inv [OF depth_inv_init [OF f(1), of ?d], of ?n] f(2)
  obtain ds where d: "depth_all ?d [0..<?n] \<lparr>d_parents = l_parents links, d_depths = replicate ?n 0, d_ThreadDepth = False\<rparr> = Some ds"
    "depth_inv ?d (l_parents links) ?n ds" by auto
  have "BuildThread messages options = Some \<lparr>th_Nodes = map (thread_node ordered (l_missing links) (d_parents ds) (d_depths ds)) [0..<?n],
        th_Truncation = noTruncation\<lparr>t_ThreadMessages := nat (lMaxThreadMessages limits) < length messages,
          t_References := l_References links, t_ThreadCycle := l_ThreadCycle links,
          t_ThreadDepth := d_ThreadDepth ds\<rparr>\<rparr>"
    unfolding BuildThread_def Let_def limits_def [symmetric] by (simp add: a l(1) d(1))
  with a l(2) d(2) show ?thesis by blast
qed

text \<open>
  C31. \<^verbatim>\<open>BuildThread\<close> returns on every input, and its nodes form a forest: at most \<^verbatim>\<open>MaxThreadMessages\<close>
  nodes with different, non-empty keys; a node without a parent key has depth 0, and every other
  node names by its parent key the one node that lies exactly one level above it; no depth exceeds
  \<^verbatim>\<open>MaxThreadDepth\<close>.
\<close>

theorem BuildThread_forest:
  "\<exists>th. BuildThread messages options = Some th \<and>
     int (length (th_Nodes th)) = min (lMaxThreadMessages (normalizedLimits options)) (int (length messages)) \<and>
     distinct (map tn_Key (th_Nodes th)) \<and> [] \<notin> set (map tn_Key (th_Nodes th)) \<and>
     list_all (\<lambda>node. int (tn_Depth node) \<le> lMaxThreadDepth (normalizedLimits options) \<and>
       (if tn_ParentKey node = [] then tn_Depth node = 0
        else list_ex (\<lambda>up. tn_Key up = tn_ParentKey node \<and> tn_Depth node = tn_Depth up + 1) (th_Nodes th))) (th_Nodes th)"
proof -
  let ?l = "normalizedLimits options"
  have pos: "0 < lMaxThreadMessages ?l" "0 < lMaxThreadDepth ?l"
    using boundedLimit_range [of 20 100] by (simp_all add: normalizedLimits_def)
  from BuildThread_returns [of messages options] obtain ordered links ds th where
    run: "BuildThread messages options = Some th"
    and a: "assign_keys (earliestThreadMessages messages (nat (lMaxThreadMessages ?l))) [] = Some ordered"
    and l: "link_inv ordered (nat (lMaxReferenceCount ?l)) (length ordered) links"
    and d: "depth_inv (nat (lMaxThreadDepth ?l)) (l_parents links) (length ordered) ds"
    and nodes: "th_Nodes th = map (thread_node ordered (l_missing links) (d_parents ds) (d_depths ds)) [0..<length ordered]"
    by auto
  let ?n = "length ordered" and ?p = "d_parents ds" and ?ds = "d_depths ds"
  let ?node = "thread_node ordered (l_missing links) ?p ?ds"
  from assign_keys_returns [of "earliestThreadMessages messages (nat (lMaxThreadMessages ?l))" "[]"] a
  have o: "length ordered = length (earliestThreadMessages messages (nat (lMaxThreadMessages ?l)))"
    "distinct (map tm_Key ordered)" "[] \<notin> set (map tm_Key ordered)" by auto
  have n: "int (length (th_Nodes th)) = min (lMaxThreadMessages ?l) (int (length messages))"
    using nodes o(1) earliest_length [of "nat (lMaxThreadMessages ?l)" messages] pos by simp
  have keys: "map tn_Key (th_Nodes th) = map tm_Key ordered"
    unfolding nodes by (rule nth_equalityI) (simp_all add: thread_node_def)
  have len: "length (l_parents links) = ?n" "length ?p = ?n" using l d by (simp_all add: link_inv_def depth_inv_def)
  have dep: "\<And>k. k < ?n \<Longrightarrow> depth_of ?p k (?ds ! k)" "\<And>k. k < ?n \<Longrightarrow> ?ds ! k \<le> nat (lMaxThreadDepth ?l)"
    and f: "forest ?p" using d len by (simp_all add: depth_inv_def)
  have good: "int (tn_Depth (?node i)) \<le> lMaxThreadDepth ?l \<and>
       (if tn_ParentKey (?node i) = [] then tn_Depth (?node i) = 0
        else list_ex (\<lambda>up. tn_Key up = tn_ParentKey (?node i) \<and> tn_Depth (?node i) = tn_Depth up + 1) (th_Nodes th))"
    if i: "i < ?n" for i
  proof -
    have "int (tn_Depth (?node i)) \<le> lMaxThreadDepth ?l" using dep(2) [OF i] pos by (simp add: thread_node_def)
    moreover have "if tn_ParentKey (?node i) = [] then tn_Depth (?node i) = 0
        else list_ex (\<lambda>up. tn_Key up = tn_ParentKey (?node i) \<and> tn_Depth (?node i) = tn_Depth up + 1) (th_Nodes th)"
    proof (cases "?p ! i")
      case None
      then have "?ds ! i = 0" using dep(1) [OF i] by (simp add: depth_of_root)
      with None show ?thesis by (simp add: thread_node_def)
    next
      case (Some j)
      have j: "j < ?n" using f i len Some by (auto simp: forest_def)
      then have ne: "tm_Key (ordered ! j) \<noteq> []" using o(3) by (metis length_map nth_map nth_mem)
      from dep(1) [OF i] Some obtain e where e: "?ds ! i = Suc e" "depth_of ?p j e" using depth_of_link by blast
      then have "?ds ! i = ?ds ! j + 1" using depth_of_unique [OF e(2) dep(1) [OF j]] by simp
      then have "tn_Key (?node j) = tn_ParentKey (?node i) \<and> tn_Depth (?node i) = tn_Depth (?node j) + 1"
        using Some by (simp add: thread_node_def)
      moreover have "?node j \<in> set (th_Nodes th)" unfolding nodes using j by simp
      ultimately have "list_ex (\<lambda>up. tn_Key up = tn_ParentKey (?node i) \<and> tn_Depth (?node i) = tn_Depth up + 1) (th_Nodes th)"
        unfolding list_ex_iff by blast
      moreover have "tn_ParentKey (?node i) \<noteq> []" using Some ne by (simp add: thread_node_def)
      ultimately show ?thesis by simp
    qed
    ultimately show ?thesis ..
  qed
  have "list_all (\<lambda>node. int (tn_Depth node) \<le> lMaxThreadDepth ?l \<and>
       (if tn_ParentKey node = [] then tn_Depth node = 0
        else list_ex (\<lambda>up. tn_Key up = tn_ParentKey node \<and> tn_Depth node = tn_Depth up + 1) (th_Nodes th))) (th_Nodes th)"
    unfolding list_all_iff
  proof (rule ballI)
    fix node assume "node \<in> set (th_Nodes th)"
    then obtain i where i: "i < ?n" "node = ?node i" unfolding nodes by auto
    show "int (tn_Depth node) \<le> lMaxThreadDepth ?l \<and>
       (if tn_ParentKey node = [] then tn_Depth node = 0
        else list_ex (\<lambda>up. tn_Key up = tn_ParentKey node \<and> tn_Depth node = tn_Depth up + 1) (th_Nodes th))"
      unfolding i(2) by (rule good [OF i(1)])
  qed
  with run n o(2,3) show ?thesis unfolding keys [symmetric] by blast
qed

text \<open>
  Every link of a thread is one that the headers name: the parent of a node is the message the last
  known reference, or else the in-reply-to header, resolves to, and a link that was named is missing
  only when the result reports a cycle or a truncated depth.
\<close>

theorem BuildThread_links:
  assumes "BuildThread messages options = Some th"
  shows "\<exists>ordered. assign_keys (earliestThreadMessages messages (nat (lMaxThreadMessages (normalizedLimits options)))) [] = Some ordered \<and>
    map tn_Message (th_Nodes th) = ordered \<and>
    (\<forall>i < length ordered. (case named_parent ordered (nat (lMaxReferenceCount (normalizedLimits options))) i of
        None \<Rightarrow> tn_ParentKey (th_Nodes th ! i) = []
      | Some j \<Rightarrow> tn_ParentKey (th_Nodes th ! i) = tm_Key (ordered ! j) \<or>
          tn_ParentKey (th_Nodes th ! i) = [] \<and> (t_ThreadCycle (th_Truncation th) \<or> t_ThreadDepth (th_Truncation th))))"
proof -
  let ?l = "normalizedLimits options"
  from BuildThread_returns [of messages options] assms obtain ordered links ds where
    a: "assign_keys (earliestThreadMessages messages (nat (lMaxThreadMessages ?l))) [] = Some ordered"
    and l: "link_inv ordered (nat (lMaxReferenceCount ?l)) (length ordered) links"
    and d: "depth_inv (nat (lMaxThreadDepth ?l)) (l_parents links) (length ordered) ds"
    and nodes: "th_Nodes th = map (thread_node ordered (l_missing links) (d_parents ds) (d_depths ds)) [0..<length ordered]"
    and tr: "t_ThreadCycle (th_Truncation th) = l_ThreadCycle links" "t_ThreadDepth (th_Truncation th) = d_ThreadDepth ds"
    by auto
  have msgs: "map tn_Message (th_Nodes th) = ordered"
    unfolding nodes by (rule nth_equalityI) (simp_all add: thread_node_def)
  have len: "length (l_parents links) = length ordered" using l by (simp add: link_inv_def)
  have "case named_parent ordered (nat (lMaxReferenceCount ?l)) i of
        None \<Rightarrow> tn_ParentKey (th_Nodes th ! i) = []
      | Some j \<Rightarrow> tn_ParentKey (th_Nodes th ! i) = tm_Key (ordered ! j) \<or>
          tn_ParentKey (th_Nodes th ! i) = [] \<and> (t_ThreadCycle (th_Truncation th) \<or> t_ThreadDepth (th_Truncation th))"
    if i: "i < length ordered" for i
  proof -
    have key: "tn_ParentKey (th_Nodes th ! i) = (case d_parents ds ! i of None \<Rightarrow> [] | Some p \<Rightarrow> tm_Key (ordered ! p))"
      using i unfolding nodes by (simp add: thread_node_def)
    have "l_parents links ! i = named_parent ordered (nat (lMaxReferenceCount ?l)) i \<or>
        l_parents links ! i = None \<and> l_ThreadCycle links" using l i by (auto simp: link_inv_def)
    moreover have "d_parents ds ! i = l_parents links ! i \<or> d_parents ds ! i = None \<and> d_ThreadDepth ds"
      using d i len by (simp add: depth_inv_def)
    ultimately show ?thesis unfolding key tr by (auto split: option.splits)
  qed
  with a msgs show ?thesis by blast
qed

subsection \<open>Witnesses\<close>

definition sample_message :: "bytes \<Rightarrow> bytes \<Rightarrow> bytes list \<Rightarrow> int \<Rightarrow> ThreadMessage" where
  "sample_message key ident refs received = \<lparr>tm_Key = key,
     tm_Headers = noHeaders\<lparr>h_MessageID := ident, h_References := refs\<rparr>, tm_ReceivedAt = received\<rparr>"

definition sample_messages :: "ThreadMessage list" where
  "sample_messages = [sample_message ''b'' ''<2>'' [''<1>''] 20, sample_message ''a'' ''<1>'' [] 10,
     sample_message ''b'' ''<3>'' [''<1>'', ''<2>''] 30]"

theorem earliestThreadMessages_sorted_prefix_witness:
  "map (h_MessageID \<circ> tm_Headers) (earliestThreadMessages sample_messages 2) = [''<1>'', ''<2>''] \<and>
   earliestThreadMessages sample_messages 2 =
     map fst (take 2 (sort_key message_order (zip sample_messages [0..<length sample_messages])))"
proof -
  have "map (h_MessageID \<circ> tm_Headers) (earliestThreadMessages sample_messages 2) = [''<1>'', ''<2>'']" by code_simp
  with earliestThreadMessages_sorted_prefix [of 2 sample_messages] show ?thesis by simp
qed

lemma sample_thread_keys: "assign_keys (earliestThreadMessages sample_messages 20) [] =
    Some [sample_message ''a'' ''<1>'' [] 10, sample_message ''b'' ''<2>'' [''<1>''] 20,
      sample_message ''b#2'' ''<3>'' [''<1>'', ''<2>''] 30]"
  by code_simp

theorem BuildThread_links_witness:
  "\<exists>th. BuildThread sample_messages zeroLimits = Some th \<and> map tn_ParentKey (th_Nodes th) = [[], ''a'', ''b''] \<and>
     map tn_Message (th_Nodes th) = [sample_message ''a'' ''<1>'' [] 10, sample_message ''b'' ''<2>'' [''<1>''] 20,
       sample_message ''b#2'' ''<3>'' [''<1>'', ''<2>''] 30]"
proof -
  have "map_option (\<lambda>th. map tn_ParentKey (th_Nodes th)) (BuildThread sample_messages zeroLimits) = Some [[], ''a'', ''b'']"
    by code_simp
  then obtain th where th: "BuildThread sample_messages zeroLimits = Some th"
    "map tn_ParentKey (th_Nodes th) = [[], ''a'', ''b'']" unfolding map_option_eq_Some by (elim exE conjE)
  have "nat (lMaxThreadMessages (normalizedLimits zeroLimits)) = 20" by code_simp
  then have keys: "assign_keys (earliestThreadMessages sample_messages (nat (lMaxThreadMessages (normalizedLimits zeroLimits)))) [] =
    Some [sample_message ''a'' ''<1>'' [] 10, sample_message ''b'' ''<2>'' [''<1>''] 20,
      sample_message ''b#2'' ''<3>'' [''<1>'', ''<2>''] 30]" by (simp only: sample_thread_keys)
  from BuildThread_links [OF th(1), unfolded keys option.inject] th show ?thesis by metis
qed

end
