(* ===== verification/Mail_Triage.thy ===== *)
theory Mail_Triage
  imports Mail_Reads Move_Destination
begin

text \<open>
  The writes of the adapter: \<^verbatim>\<open>SetSeen\<close> (\<^verbatim>\<open>bridge/seen.go\<close>) and \<^verbatim>\<open>Move\<close>, \<^verbatim>\<open>Archive\<close> and \<^verbatim>\<open>Trash\<close>
  (\<^verbatim>\<open>bridge/move.go\<close>). A batch handles its UIDs one at a time in input order; the step of one UID
  reports whether the batch must stop. What a session is told to write is made visible by \<open>traced\<close>,
  which lets any environment keep a list of its dispatches.
\<close>

section \<open>Definitions\<close>

abbreviation MaxTriageUIDs :: nat where "MaxTriageUIDs \<equiv> 50"

abbreviation OutcomeApplied :: bytes where "OutcomeApplied \<equiv> ''applied''"
abbreviation OutcomeRefused :: bytes where "OutcomeRefused \<equiv> ''refused''"
abbreviation OutcomeNotAttempted :: bytes where "OutcomeNotAttempted \<equiv> ''not_attempted''"
abbreviation OutcomeUnknown :: bytes where "OutcomeUnknown \<equiv> ''unknown''"

text \<open>\<open>None\<close> is the empty \<^verbatim>\<open>Code\<close>.\<close>

record TriageResult =
  r_UID :: uint32
  r_Outcome :: bytes
  r_Code :: "code option"

definition triage_result :: "uint32 \<Rightarrow> bytes \<Rightarrow> code option \<Rightarrow> TriageResult" where
  "triage_result uid out c = \<lparr>r_UID = uid, r_Outcome = out, r_Code = c\<rparr>"

lemma triage_result_simps [simp]:
  "r_UID (triage_result uid out c) = uid" "r_Outcome (triage_result uid out c) = out"
  "r_Code (triage_result uid out c) = c"
  by (simp_all add: triage_result_def)

fun repeated_uid :: "uint32 list \<Rightarrow> uint32 set \<Rightarrow> bool" where
  "repeated_uid [] seen = False"
| "repeated_uid (uid # uids) seen =
     (if uid = 0 then True else if uid \<in> seen then True else repeated_uid uids (insert uid seen))"

definition validateTriageRequest :: "bytes \<Rightarrow> uint32 \<Rightarrow> uint32 list \<Rightarrow> code option" where
  "validateTriageRequest mailbox validity uids =
     (if mailbox = [] \<or> validity = 0 \<or> uids = [] then Some CodeInvalidRequest
      else if length mailbox > maxMailboxNameBytes \<or> length uids > MaxTriageUIDs then Some CodeBoundsExceeded
      else if repeated_uid uids {} then Some CodeInvalidRequest
      else None)"

definition pendingResults :: "uint32 list \<Rightarrow> TriageResult list" where
  "pendingResults uids = map (\<lambda>uid. triage_result uid OutcomeNotAttempted None) uids"

text \<open>\<^verbatim>\<open>refuseRemaining(results, 0)\<close>.\<close>

definition refuseRemaining :: "TriageResult list \<Rightarrow> TriageResult list" where
  "refuseRemaining results = map (\<lambda>r. triage_result (r_UID r) OutcomeRefused (Some CodeUnsupported)) results"

subsection \<open>Selecting the source\<close>

definition selectTriageSource :: "'w session_env \<Rightarrow> bytes \<Rightarrow> 'w adapter_state \<Rightarrow>
    nat option \<times> (go_error + mailboxSnapshot) \<times> 'w adapter_state" where
  "selectTriageSource env mailbox st =
     (case sessionForOperation env st of
        (Inl e, st1) \<Rightarrow> (None, Inl e, st1)
      | (Inr s, (a, w)) \<Rightarrow>
          if \<not> is_seen_session env s then (Some s, Inl (BridgeError CodeIMAPProtocol), (a, w))
          else (case select_source env s mailbox w of (r, w') \<Rightarrow> (Some s, r, (a, w'))))"

definition drop_session :: "'w session_env \<Rightarrow> nat option \<Rightarrow> 'w adapter_state \<Rightarrow> 'w adapter_state" where
  "drop_session env s st = (case s of None \<Rightarrow> st | Some h \<Rightarrow> invalidate env h st)"

text \<open>The loop of \<^verbatim>\<open>openTriageSource\<close>, \<open>left\<close> attempts of two left.\<close>

fun source_attempts :: "'w session_env \<Rightarrow> bytes \<Rightarrow> uint32 \<Rightarrow> nat \<Rightarrow> 'w adapter_state \<Rightarrow>
    (go_error + nat) \<times> 'w adapter_state" where
  "source_attempts env mailbox validity 0 st = (Inl (BridgeError CodeBridgeUnreachable), st)"
| "source_attempts env mailbox validity (Suc left) st =
     (case selectTriageSource env mailbox st of
        (s, Inl e, (a, w)) \<Rightarrow>
          (let e' = mapped env w e;
               retry = (left = 1 \<and> canReplay env w e');
               st' = (if retry \<or> invalidatesSession e' then drop_session env s (a, w) else (a, w)) in
           if retry then source_attempts env mailbox validity left st' else (Inl e', st'))
      | (s, Inr snapshot, st') \<Rightarrow>
          if UIDValidity snapshot \<noteq> validity then (Inl (BridgeError CodeStaleMessageID), st')
          else (Inr (the s), st'))"

definition openTriageSource :: "'w session_env \<Rightarrow> bytes \<Rightarrow> uint32 \<Rightarrow> 'w adapter_state \<Rightarrow>
    (go_error + nat) \<times> 'w adapter_state" where
  "openTriageSource env mailbox validity = source_attempts env mailbox validity 2"

subsection \<open>One UID\<close>

text \<open>A UID for which nothing was dispatched, on a session that is no longer trusted.\<close>

definition abandonUID :: "'w session_env \<Rightarrow> nat \<Rightarrow> uint32 \<Rightarrow> go_error \<Rightarrow> 'w adapter_state \<Rightarrow>
    TriageResult \<times> 'w adapter_state" where
  "abandonUID env s uid e st =
     (let st' = invalidate env s st in
      (triage_result uid OutcomeNotAttempted (CodeOf (mapped env (snd st') e)), st'))"

definition storeSeen :: "'w session_env \<Rightarrow> nat \<Rightarrow> bool \<Rightarrow> uint32 \<Rightarrow> 'w adapter_state \<Rightarrow>
    (TriageResult \<times> bool) \<times> 'w adapter_state" where
  "storeSeen env s seen uid st = (case st of (a, w) \<Rightarrow>
     (case requireMessageUID env s uid w of
        (Inl e, w1) \<Rightarrow>
          if CodeOf e = Some CodeStaleMessageID
          then ((triage_result uid OutcomeRefused (Some CodeMessageNotFound), False), (a, w1))
          else (case abandonUID env s uid e (a, w1) of (r, st') \<Rightarrow> ((r, True), st'))
      | (Inr u, w1) \<Rightarrow>
          (case store_seen env s uid seen w1 of
             (None, w2) \<Rightarrow> ((triage_result uid OutcomeApplied None, False), (a, w2))
           | (Some e, w2) \<Rightarrow>
               (let e' = mapped env w2 e in
                if CodeOf e' = Some CodeIMAPCommand
                then ((triage_result uid OutcomeRefused (Some CodeIMAPCommand), False), (a, w2))
                else ((triage_result uid OutcomeUnknown (CodeOf e'), True), invalidate env s (a, w2))))))"

text \<open>
  \<^verbatim>\<open>prepareMove\<close>: \<open>Inr\<close> the target, which may be the empty name, or \<open>Inl\<close> the UID's result and
  whether to stop. An empty name takes the caller's branch for no target, with the zero
  \<^verbatim>\<open>TriageResult\<close>.
\<close>

definition zeroResult :: TriageResult where
  "zeroResult = triage_result 0 [] None"

definition prepareMove :: "'w session_env \<Rightarrow> Bounds \<Rightarrow> nat \<Rightarrow> (listedMailbox list \<Rightarrow> bytes option) \<Rightarrow> uint32 \<Rightarrow>
    'w adapter_state \<Rightarrow> (bytes \<times> TriageResult \<times> bool) \<times> 'w adapter_state" where
  "prepareMove env b s resolve uid st = (case st of (a, w) \<Rightarrow>
     (case requireMessageUID env s uid w of
        (Inl e, w1) \<Rightarrow>
          if CodeOf e = Some CodeStaleMessageID
          then (([], triage_result uid OutcomeRefused (Some CodeMessageNotFound), False), (a, w1))
          else (case abandonUID env s uid e (a, w1) of (r, st') \<Rightarrow> (([], r, True), st'))
      | (Inr u, w1) \<Rightarrow>
          (case list_mailboxes env s ''*'' (MaxFolderResults b) w1 of
             (Inl e, w2) \<Rightarrow> (case abandonUID env s uid e (a, w2) of (r, st') \<Rightarrow> (([], r, True), st'))
           | (Inr listing, w2) \<Rightarrow>
               (case resolve listing of
                  None \<Rightarrow> (([], triage_result uid OutcomeRefused (Some CodeUnsupported), False), (a, w2))
                | Some target \<Rightarrow> ((target, zeroResult, False), (a, w2))))))"

definition moveUID :: "'w session_env \<Rightarrow> Bounds \<Rightarrow> nat \<Rightarrow> (listedMailbox list \<Rightarrow> bytes option) \<Rightarrow> uint32 \<Rightarrow>
    'w adapter_state \<Rightarrow> (TriageResult \<times> bool) \<times> 'w adapter_state" where
  "moveUID env b s resolve uid st =
     (case prepareMove env b s resolve uid st of
        ((target, refusal, stop), (a, w)) \<Rightarrow>
          if target = [] then ((refusal, stop), (a, w))
          else (case move_uid env s uid target w of
              (None, w1) \<Rightarrow> ((triage_result uid OutcomeApplied None, False), (a, w1))
            | (Some e, w1) \<Rightarrow>
                (let e' = mapped env w1 e in
                 if CodeOf e' = Some CodeUnsupported
                 then ((triage_result uid OutcomeRefused (Some CodeUnsupported), False), invalidate env s (a, w1))
                 else if CodeOf e' = Some CodeIMAPCommand
                 then ((triage_result uid OutcomeRefused (Some CodeIMAPCommand), False), (a, w1))
                 else ((triage_result uid OutcomeUnknown (CodeOf e'), True), invalidate env s (a, w1)))))"

subsection \<open>The batches\<close>

text \<open>
  The loops, over the step of one UID. The code overwrites the entries of a list of pending results
  in place; here the entries not reached are those of the remaining UIDs.
\<close>

fun seen_loop :: "(uint32 \<Rightarrow> 's \<Rightarrow> (TriageResult \<times> bool) \<times> 's) \<Rightarrow> uint32 list \<Rightarrow> 's \<Rightarrow> TriageResult list \<times> 's" where
  "seen_loop step [] st = ([], st)"
| "seen_loop step (uid # uids) st =
     (case step uid st of ((r, stop), st') \<Rightarrow>
        if stop then (r # pendingResults uids, st')
        else (case seen_loop step uids st' of (rs, st'') \<Rightarrow> (r # rs, st'')))"

fun move_loop :: "(uint32 \<Rightarrow> 's \<Rightarrow> (TriageResult \<times> bool) \<times> 's) \<Rightarrow> bool \<Rightarrow> uint32 list \<Rightarrow> 's \<Rightarrow>
    (go_error + TriageResult list) \<times> 's" where
  "move_loop step written [] st = (Inr [], st)"
| "move_loop step written (uid # uids) st =
     (case step uid st of ((r, stop), st') \<Rightarrow>
        if r_Code r = Some CodeUnsupported then (Inr (r # refuseRemaining (pendingResults uids)), st')
        else if stop \<and> \<not> written \<and> r_Outcome r = OutcomeNotAttempted
        then (Inl (BridgeError (the (r_Code r))), st')
        else if stop then (Inr (r # pendingResults uids), st')
        else (case move_loop step (written \<or> r_Outcome r = OutcomeApplied) uids st' of
            (Inl e, st'') \<Rightarrow> (Inl e, st'')
          | (Inr rs, st'') \<Rightarrow> (Inr (r # rs), st'')))"

definition SetSeen :: "'w session_env \<Rightarrow> go_error option \<Rightarrow> bytes \<Rightarrow> uint32 \<Rightarrow> uint32 list \<Rightarrow> bool \<Rightarrow>
    'w adapter_state \<Rightarrow> (go_error + TriageResult list) \<times> 'w adapter_state" where
  "SetSeen env acquired mailbox validity uids seen st =
     (case validateTriageRequest mailbox validity uids of
        Some c \<Rightarrow> (Inl (BridgeError c), st)
      | None \<Rightarrow> (case acquired of
          Some e \<Rightarrow> (Inl e, st)
        | None \<Rightarrow> (case openTriageSource env mailbox validity st of
            (Inl e, st1) \<Rightarrow> (Inl e, st1)
          | (Inr s, st1) \<Rightarrow> (case seen_loop (storeSeen env s seen) uids st1 of (rs, st2) \<Rightarrow> (Inr rs, st2)))))"

text \<open>The batch \<^verbatim>\<open>move\<close> that the three moves share.\<close>

definition move_batch :: "'w session_env \<Rightarrow> Bounds \<Rightarrow> go_error option \<Rightarrow> bytes \<Rightarrow> uint32 \<Rightarrow> uint32 list \<Rightarrow>
    (listedMailbox list \<Rightarrow> bytes option) \<Rightarrow> 'w adapter_state \<Rightarrow> (go_error + TriageResult list) \<times> 'w adapter_state" where
  "move_batch env b acquired mailbox validity uids resolve st = (case acquired of
       Some e \<Rightarrow> (Inl e, st)
     | None \<Rightarrow> (case openTriageSource env mailbox validity st of
         (Inl e, st1) \<Rightarrow> (Inl e, st1)
       | (Inr s, (a, w)) \<Rightarrow>
           if \<not> is_move_session env s then (Inl (BridgeError CodeIMAPProtocol), (a, w))
           else if \<not> supports_move env s w then (Inr (refuseRemaining (pendingResults uids)), (a, w))
           else move_loop (moveUID env b s resolve) False uids (a, w)))"

definition Move :: "'w session_env \<Rightarrow> Bounds \<Rightarrow> go_error option \<Rightarrow> bytes \<Rightarrow> uint32 \<Rightarrow> uint32 list \<Rightarrow> bytes \<Rightarrow>
    'w adapter_state \<Rightarrow> (go_error + TriageResult list) \<times> 'w adapter_state" where
  "Move env b acquired mailbox validity uids destination st =
     (case validateTriageRequest mailbox validity uids of
        Some c \<Rightarrow> (Inl (BridgeError c), st)
      | None \<Rightarrow> (case validateMoveDestination destination of
          Some c \<Rightarrow> (Inl (BridgeError c), st)
        | None \<Rightarrow>
            if mailboxIdentityMatches mailbox destination
            then (Inr (refuseRemaining (pendingResults uids)), st)
            else move_batch env b acquired mailbox validity uids
              (\<lambda>listing. resolveMoveDestination listing destination) st))"

definition attribute_resolver :: "bytes \<Rightarrow> bytes \<Rightarrow> listedMailbox list \<Rightarrow> bytes option" where
  "attribute_resolver mailbox attribute listing =
     (case resolveAttributeDestination listing attribute of
        None \<Rightarrow> None
      | Some target \<Rightarrow> if mailboxIdentityMatches mailbox target then None else Some target)"

definition moveToAttribute :: "'w session_env \<Rightarrow> Bounds \<Rightarrow> go_error option \<Rightarrow> bytes \<Rightarrow> bytes \<Rightarrow> uint32 \<Rightarrow>
    uint32 list \<Rightarrow> 'w adapter_state \<Rightarrow> (go_error + TriageResult list) \<times> 'w adapter_state" where
  "moveToAttribute env b acquired attribute mailbox validity uids st =
     (case validateTriageRequest mailbox validity uids of
        Some c \<Rightarrow> (Inl (BridgeError c), st)
      | None \<Rightarrow> move_batch env b acquired mailbox validity uids (attribute_resolver mailbox attribute) st)"

definition Archive :: "'w session_env \<Rightarrow> Bounds \<Rightarrow> go_error option \<Rightarrow> bytes \<Rightarrow> uint32 \<Rightarrow>
    uint32 list \<Rightarrow> 'w adapter_state \<Rightarrow> (go_error + TriageResult list) \<times> 'w adapter_state" where
  "Archive env b acquired = moveToAttribute env b acquired (attribute_named ''Archive'')"

definition Trash :: "'w session_env \<Rightarrow> Bounds \<Rightarrow> go_error option \<Rightarrow> bytes \<Rightarrow> uint32 \<Rightarrow>
    uint32 list \<Rightarrow> 'w adapter_state \<Rightarrow> (go_error + TriageResult list) \<times> 'w adapter_state" where
  "Trash env b acquired = moveToAttribute env b acquired (attribute_named ''Trash'')"

end
