(* ===== verification/Tool_Handlers.thy ===== *)
theory Tool_Handlers
  imports Tool_Results Strict_JSON Attachment_Structure Header_Metadata Thread_Properties Mail_Triage
begin

text \<open>
  The handlers of the Mail tools (\<^verbatim>\<open>internal/mcpserver/handlers.go\<close>, \<^verbatim>\<open>triage.go\<close>, \<^verbatim>\<open>tools.go\<close>,
  \<^verbatim>\<open>audit.go\<close>): validated arguments, calls on the Mail and Triage interfaces, results.

  The interfaces are the record \<open>mail_api\<close>, over a world \<open>'w\<close>; the optional ones are \<open>None\<close> when the type
  assertion fails or the option is nil. \<^verbatim>\<open>json\<close>, \<^verbatim>\<open>time.Parse\<close> and \<^verbatim>\<open>strings.EqualFold\<close> of the standard
  library, the clock and the decoding of arguments into their struct are fields of \<open>tool_env\<close>. A panic of a
  Mail implementation, which \<^verbatim>\<open>runTool\<close> reports as internal, does not occur in the model.
\<close>

section \<open>Interfaces\<close>

type_synonym ('w, 'a) api_call = "'w \<Rightarrow> (go_error + 'a) \<times> 'w"

record 'w triage_api =
  ta_SetSeen :: "bytes \<Rightarrow> uint32 \<Rightarrow> uint32 list \<Rightarrow> bool \<Rightarrow> ('w, TriageResult list) api_call"
  ta_Move :: "bytes \<Rightarrow> uint32 \<Rightarrow> uint32 list \<Rightarrow> bytes \<Rightarrow> ('w, TriageResult list) api_call"
  ta_Archive :: "bytes \<Rightarrow> uint32 \<Rightarrow> uint32 list \<Rightarrow> ('w, TriageResult list) api_call"
  ta_Trash :: "bytes \<Rightarrow> uint32 \<Rightarrow> uint32 list \<Rightarrow> ('w, TriageResult list) api_call"

record 'w mail_api =
  ma_ListFolders :: "('w, Folder list) api_call"
  ma_Status :: "bytes \<Rightarrow> ('w, MailboxStatus) api_call"
  ma_SearchMailPage :: "SearchQuery \<Rightarrow> ('w, SearchPage) api_call"
  ma_GetMessageMetadata :: "bytes \<Rightarrow> ('w, MessageMetadata) api_call"
  ma_GetMessageBody :: "bytes \<Rightarrow> ('w, bytes) api_call"
  ma_GetMessageHeaders :: "(bytes \<Rightarrow> ('w, MessageHeaders) api_call) option"
  ma_GetMessageAttachmentStructure :: "(bytes \<Rightarrow> 'w \<Rightarrow> (structure_failure + MessageAttachmentStructure) \<times> 'w) option"
  ma_Triage :: "'w triage_api option"

record searchMailInput =
  si_mailbox :: bytes
  si_since :: bytes
  si_before :: bytes
  si_sender :: bytes
  si_subject :: bytes
  si_unreadOnly :: bool
  si_limit :: "int option"

record threadInput =
  ti_messageId :: bytes
  ti_maxMessages :: "int option"

record digestInput =
  di_mailbox :: bytes
  di_sinceHours :: "int option"
  di_limit :: "int option"
  di_unreadOnly :: "bool option"

record triageInput =
  gi_mailbox :: bytes
  gi_uidvalidity :: uint32
  gi_uids :: "uint32 list"

text \<open>The fields \<open>te_decode_*\<close> are \<^verbatim>\<open>decoder.Decode\<close> into the struct of one tool.\<close>

record tool_env =
  te_fold_eq :: "bytes \<Rightarrow> bytes \<Rightarrow> bool"
  te_decoder :: "bytes \<Rightarrow> decoder"
  te_parse_time :: "bytes \<Rightarrow> (int \<times> bool) option"
  te_format_time :: "int \<Rightarrow> bytes"
  te_now :: int
  te_mime :: mime_env
  te_decode_empty :: "bytes \<Rightarrow> (unit \<times> bool) option"
  te_decode_search :: "bytes \<Rightarrow> (searchMailInput \<times> bool) option"
  te_decode_identifier :: "bytes \<Rightarrow> (bytes \<times> bool) option"
  te_decode_thread :: "bytes \<Rightarrow> (threadInput \<times> bool) option"
  te_decode_digest :: "bytes \<Rightarrow> (digestInput \<times> bool) option"
  te_decode_triage :: "bytes \<Rightarrow> (triageInput \<times> bool) option"
  te_decode_move :: "bytes \<Rightarrow> ((triageInput \<times> bytes) \<times> bool) option"

type_synonym 'w tool_run = "'w \<Rightarrow> (tool_code + tool_result) \<times> 'w"

abbreviation maxToolArgumentsBytes :: int where "maxToolArgumentsBytes \<equiv> 24576"
abbreviation maxMailboxArgumentBytes :: nat where "maxMailboxArgumentBytes \<equiv> 512"
abbreviation maxMessageIDArgumentBytes :: nat where "maxMessageIDArgumentBytes \<equiv> 1366"
abbreviation maxTimestampArgumentBytes :: nat where "maxTimestampArgumentBytes \<equiv> 64"
abbreviation maxSenderResultBytes :: nat where "maxSenderResultBytes \<equiv> 512"

definition decodeArguments :: "tool_env \<Rightarrow> (bytes \<Rightarrow> ('a \<times> bool) option) \<Rightarrow> bytes \<Rightarrow> 'a option" where
  "decodeArguments env decode arguments = DecodeObject (te_fold_eq env) (te_decoder env) decode arguments maxToolArgumentsBytes"

text \<open>The error branch that every handler takes after a failed call.\<close>

definition on_success :: "(go_error + 'a) \<times> 'w \<Rightarrow> ('a \<Rightarrow> 'w tool_run) \<Rightarrow> (tool_code + tool_result) \<times> 'w" where
  "on_success r k = (case r of (Inl e, w) \<Rightarrow> (Inl (mapAdapterError e), w) | (Inr x, w) \<Rightarrow> k x w)"

section \<open>Arguments\<close>

definition validMailboxArgument :: "bytes \<Rightarrow> bool" where
  "validMailboxArgument mailbox \<longleftrightarrow> mailbox \<noteq> [] \<and> length mailbox \<le> maxMailboxArgumentBytes"

definition validMessageIdentifier :: "bytes \<Rightarrow> bool" where
  "validMessageIdentifier identifier \<longleftrightarrow> identifier \<noteq> [] \<and> length identifier \<le> maxMessageIDArgumentBytes"

text \<open>\<open>Some 0\<close> is the zero time.\<close>

definition parseTimestamp :: "tool_env \<Rightarrow> bytes \<Rightarrow> int option" where
  "parseTimestamp env v = (if v = [] then Some 0 else if maxTimestampArgumentBytes < length v then None
     else (case te_parse_time env v of None \<Rightarrow> None | Some (t, utc) \<Rightarrow> Some t))"

definition clampLimit :: "int option \<Rightarrow> int \<Rightarrow> int \<Rightarrow> int option" where
  "clampLimit v fallback ceiling' = (case v of
      None \<Rightarrow> Some fallback
    | Some n \<Rightarrow> if n \<le> 0 then None else if ceiling' < n then Some ceiling' else Some n)"

section \<open>Flat results\<close>

definition boundedSenderResult :: "bytes \<Rightarrow> bytes \<times> bool" where
  "boundedSenderResult sender =
     (if \<not> valid_utf8 sender then ([], False)
      else if length sender \<le> maxSenderResultBytes then (sender, False)
      else (take (rune_boundary sender maxSenderResultBytes) sender, True))"

definition validHeaderDate :: "tool_env \<Rightarrow> bytes \<Rightarrow> bool" where
  "validHeaderDate env date = (case te_parse_time env date of
      None \<Rightarrow> False | Some (t, utc) \<Rightarrow> utc \<and> te_format_time env t = date)"

definition newMessageResult :: "tool_env \<Rightarrow> MessageMetadata \<Rightarrow> messageResult" where
  "newMessageResult env item = (case boundedSenderResult (m_From item) of (sender, capped) \<Rightarrow>
     (let dated = m_DateSource item = DateSourceHeader \<and> validHeaderDate env (m_Date item) in
      \<lparr>mr_ID = m_ID item, mr_Mailbox = m_Mailbox item, mr_UIDValidity = m_UIDValidity item, mr_UID = m_UID item,
       mr_Subject = m_Subject item, mr_Size = m_Size item, mr_From = sender,
       mr_Date = (if dated then m_Date item else []),
       mr_DateSource = (if dated then DateSourceHeader else DateSourceUnknown), mr_ReadState = m_ReadState item,
       mr_MetadataTruncated = (sender \<noteq> [] \<and> (m_MetadataTruncated item \<or> capped))\<rparr>))"

definition validReadIdentity :: "MessageMetadata \<Rightarrow> bool" where
  "validReadIdentity m \<longleftrightarrow> m_ID m \<noteq> [] \<and> m_Mailbox m \<noteq> [] \<and> m_UIDValidity m \<noteq> 0 \<and> m_UID m \<noteq> 0"

fun flat_loop :: "tool_env \<Rightarrow> int \<Rightarrow> MessageMetadata list \<Rightarrow> messageResult list \<Rightarrow> tool_code + messageResult list \<times> bool" where
  "flat_loop env limit [] results = Inr (results, False)"
| "flat_loop env limit (item # items) results =
     (if int (length results) = limit then Inr (results, True)
      else if \<not> validReadIdentity item then Inl errUnavailable
      else flat_loop env limit items (results @ [newMessageResult env item]))"

definition flatMessageResults :: "tool_env \<Rightarrow> MessageMetadata list \<Rightarrow> int \<Rightarrow> tool_code + messageResult list \<times> bool" where
  "flatMessageResults env messages limit = flat_loop env limit messages []"

section \<open>Folders, search and digest\<close>

definition runListFolders :: "tool_env \<Rightarrow> 'w mail_api \<Rightarrow> bytes \<Rightarrow> 'w tool_run" where
  "runListFolders env api arguments w = (case decodeArguments env (te_decode_empty env) arguments of
      None \<Rightarrow> (Inl errInvalidArgument, w)
    | Some _ \<Rightarrow> on_success (ma_ListFolders api w) (\<lambda>folders w.
        (Inr (FoldersResult \<lparr>lf_Folders = map (\<lambda>f. \<lparr>fo_Name = f_Name f, fo_Delimiter = f_Delimiter f\<rparr>) folders,
           lf_Truncated = False\<rparr>), w)))"

definition runSearchMail :: "tool_env \<Rightarrow> 'w mail_api \<Rightarrow> bytes \<Rightarrow> 'w tool_run" where
  "runSearchMail env api arguments w = (case decodeArguments env (te_decode_search env) arguments of
      None \<Rightarrow> (Inl errInvalidArgument, w)
    | Some input \<Rightarrow>
        if \<not> validMailboxArgument (si_mailbox input) then (Inl errInvalidArgument, w)
        else if maxSearchTermBytes < length (si_sender input) \<or> maxSearchTermBytes < length (si_subject input)
        then (Inl errInvalidArgument, w)
        else (case (parseTimestamp env (si_since input), parseTimestamp env (si_before input), clampLimit (si_limit input) 50 250) of
            (Some since, Some before, Some limit) \<Rightarrow>
              on_success (ma_SearchMailPage api \<lparr>sq_Mailbox = si_mailbox input, sq_Since = since, sq_Before = before,
                 sq_Sender = si_sender input, sq_Subject = si_subject input, sq_Unread = si_unreadOnly input\<rparr> w) (\<lambda>page w.
                (case flatMessageResults env (Messages page) limit of
                   Inl c \<Rightarrow> (Inl c, w)
                 | Inr (results, limited) \<Rightarrow>
                     (Inr (SearchResult \<lparr>sr_Results = results, sr_Truncated = (Truncated page \<or> limited)\<rparr>), w)))
          | _ \<Rightarrow> (Inl errInvalidArgument, w)))"

text \<open>Times are nanoseconds; the upper bound is the start of the next UTC day.\<close>

abbreviation hour :: int where "hour \<equiv> 3600 * 10 ^ 9"

definition runSelectDigestCandidates :: "tool_env \<Rightarrow> 'w mail_api \<Rightarrow> bytes \<Rightarrow> 'w tool_run" where
  "runSelectDigestCandidates env api arguments w = (case decodeArguments env (te_decode_digest env) arguments of
      None \<Rightarrow> (Inl errInvalidArgument, w)
    | Some input \<Rightarrow>
        if \<not> validMailboxArgument (di_mailbox input) then (Inl errInvalidArgument, w)
        else (case (clampLimit (di_sinceHours input) 24 168, clampLimit (di_limit input) 20 50) of
            (Some sinceHours, Some limit) \<Rightarrow>
              (let unreadOnly = (case di_unreadOnly input of None \<Rightarrow> True | Some b \<Rightarrow> b);
                   now = te_now env; upperDate = (now div (24 * hour) + 1) * (24 * hour) in
               on_success (ma_Status api (di_mailbox input) w) (\<lambda>status w.
               on_success (ma_SearchMailPage api \<lparr>sq_Mailbox = di_mailbox input, sq_Since = now - sinceHours * hour,
                  sq_Before = upperDate, sq_Sender = [], sq_Subject = [], sq_Unread = unreadOnly\<rparr> w) (\<lambda>page w.
                (case flatMessageResults env (Messages page) limit of
                   Inl c \<Rightarrow> (Inl c, w)
                 | Inr (candidates, limited) \<Rightarrow>
                     (Inr (DigestResult \<lparr>dg_Mailbox = di_mailbox input, dg_Candidates = candidates,
                        dg_TotalMessages = st_Messages status, dg_UnseenCount = st_Unseen status,
                        dg_Truncated = (Truncated page \<or> limited)\<rparr>), w)))))
          | _ \<Rightarrow> (Inl errInvalidArgument, w)))"

section \<open>One message\<close>

definition attachmentResults :: "AttachmentMetadata list \<Rightarrow> attachmentResult list" where
  "attachmentResults = map (\<lambda>a. let declared = a_HasDeclaredSize a \<and> 0 \<le> a_DeclaredSize a in
     \<lparr>ar_Filename = a_Filename a, ar_ContentType = a_ContentType a, ar_Disposition = a_Disposition a,
      ar_HasDeclaredSize = declared, ar_DeclaredSize = (if declared then Some (a_DeclaredSize a) else None)\<rparr>)"

fun TextSource_string :: "TextSource \<Rightarrow> bytes" where
  "TextSource_string TextSourceNone = ''none''"
| "TextSource_string TextSourcePlain = ''plain''"
| "TextSource_string TextSourceHTML = ''html''"

text \<open>An error of the normalizer carries no bridge code.\<close>

definition fetchNormalizedMessage :: "tool_env \<Rightarrow> 'w mail_api \<Rightarrow> bytes \<Rightarrow> 'w \<Rightarrow>
    (tool_code + MessageMetadata \<times> NormalizedMessage) \<times> 'w" where
  "fetchNormalizedMessage env api identifier w = (case ma_GetMessageMetadata api identifier w of
      (Inl e, w1) \<Rightarrow> (Inl (mapAdapterError e), w1)
    | (Inr metadata, w1) \<Rightarrow> (case ma_GetMessageBody api identifier w1 of
        (Inl e, w2) \<Rightarrow> (Inl (mapAdapterError e), w2)
      | (Inr body, w2) \<Rightarrow> (case normalizeMessage (te_mime env) (Some (body, None)) zeroLimits of
          Inl e \<Rightarrow> (Inl errInternal, w2)
        | Inr normalized \<Rightarrow> (Inr (metadata, normalized), w2))))"

definition runGetMessage :: "tool_env \<Rightarrow> 'w mail_api \<Rightarrow> bytes \<Rightarrow> 'w tool_run" where
  "runGetMessage env api arguments w = (case decodeArguments env (te_decode_identifier env) arguments of
      None \<Rightarrow> (Inl errInvalidArgument, w)
    | Some identifier \<Rightarrow>
        if \<not> validMessageIdentifier identifier then (Inl errInvalidArgument, w)
        else (case fetchNormalizedMessage env api identifier w of
            (Inl c, w1) \<Rightarrow> (Inl c, w1)
          | (Inr (metadata, normalized), w1) \<Rightarrow>
              if \<not> validReadIdentity metadata then (Inl errUnavailable, w1)
              else (let t = n_Truncation normalized in
                (Inr (MessageResult \<lparr>gm_ID = m_ID metadata, gm_Mailbox = m_Mailbox metadata, gm_UIDValidity = m_UIDValidity metadata,
                   gm_UID = m_UID metadata, gm_Size = m_Size metadata, gm_Headers = n_Headers normalized, gm_Text = n_Text normalized,
                   gm_TextSource = TextSource_string (n_TextSource normalized), gm_Attachments = attachmentResults (n_Attachments normalized),
                   gm_Truncation = \<lparr>mt_Headers = t_Headers t, mt_HeaderCount = t_HeaderCount t, mt_Text = t_Text t,
                     mt_MIMEParts = t_MIMEParts t, mt_MIMEDepth = t_MIMEDepth t, mt_Attachments = t_Attachments t,
                     mt_References = t_References t, mt_Output = False\<rparr>,
                   gm_Truncated = truncation_Any t\<rparr>), w1))))"

definition runListAttachments :: "tool_env \<Rightarrow> 'w mail_api \<Rightarrow> bytes \<Rightarrow> 'w tool_run" where
  "runListAttachments env api arguments w = (case decodeArguments env (te_decode_identifier env) arguments of
      None \<Rightarrow> (Inl errInvalidArgument, w)
    | Some identifier \<Rightarrow>
        if \<not> validMessageIdentifier identifier then (Inl errInvalidArgument, w)
        else (case ma_GetMessageAttachmentStructure api of
            None \<Rightarrow> (Inl errUnsupported, w)
          | Some read \<Rightarrow> (case read identifier w of
              (Inl (ReadFailure e), w1) \<Rightarrow> (Inl (mapAdapterError e), w1)
            | (Inl (ProjectFailure e), w1) \<Rightarrow> (Inl errInternal, w1)
            | (Inr structure, w1) \<Rightarrow>
                if as_ID structure \<noteq> identifier \<or> as_Mailbox structure = [] \<or> as_UIDValidity structure = 0 \<or> as_UID structure = 0
                then (Inl errUnavailable, w1)
                else (let t = as_Truncation structure;
                          truncation = \<lparr>at_MIMEParts = t_MIMEParts t, at_MIMEDepth = t_MIMEDepth t,
                            at_Attachments = t_Attachments t, at_Output = False\<rparr> in
                  (Inr (AttachmentsResult \<lparr>la_ID = as_ID structure, la_Mailbox = as_Mailbox structure,
                     la_UIDValidity = as_UIDValidity structure, la_UID = as_UID structure,
                     la_Attachments = attachmentResults (map ae_Metadata (as_Attachments structure)),
                     la_Truncation = truncation, la_Truncated = attachment_truncation_any truncation\<rparr>), w1)))))"

section \<open>Threads\<close>

text \<open>One round of the loop of \<^verbatim>\<open>baseSubject\<close>.\<close>

definition strip_reply :: "bytes \<Rightarrow> bytes" where
  "strip_reply s = (let lowered = to_lower s in
     if has_prefix lowered ''re:'' then trim_space (drop 3 s)
     else if has_prefix lowered ''fwd:'' then trim_space (drop 4 s)
     else if has_prefix lowered ''fw:'' then trim_space (drop 3 s)
     else s)"

lemma trim_left_length: "length (trim_left s) \<le> length s"
  by (induction s rule: trim_left.induct) (subst trim_left.simps, auto)

lemma trim_right_length: "length (trim_right s) \<le> length s"
proof (induction s rule: trim_right.induct)
  case (1 s)
  then show ?case by (cases "s = [] \<or> space_suffix s = 0") (simp_all add: trim_right.simps [of s])
qed

lemma trim_space_length: "length (trim_space s) \<le> length s"
  using trim_right_length [of "trim_left s"] trim_left_length [of s] by (simp add: trim_space_def)

lemma strip_reply_shorter:
  assumes "strip_reply s \<noteq> s"
  shows "length (strip_reply s) < length s"
proof -
  have nonempty: "s \<noteq> []" if "has_prefix (to_lower s) p" "p \<noteq> []" for p
    using that by (cases "s = []") (auto simp: has_prefix_def)
  consider "strip_reply s = trim_space (drop 3 s)" "s \<noteq> []" | "strip_reply s = trim_space (drop 4 s)" "s \<noteq> []"
    using assms nonempty [of "''re:''"] nonempty [of "''fwd:''"] nonempty [of "''fw:''"]
    by (auto simp: strip_reply_def Let_def split: if_splits)
  then show ?thesis
  proof cases
    case 1
    then have "length (drop 3 s) < length s" by simp
    then show ?thesis unfolding 1(1) using trim_space_length [of "drop 3 s"] by linarith
  next
    case 2
    then have "length (drop 4 s) < length s" by simp
    then show ?thesis unfolding 2(1) using trim_space_length [of "drop 4 s"] by linarith
  qed
qed

function base_loop :: "bytes \<Rightarrow> bytes" where
  "base_loop s = (if strip_reply s = s then s else base_loop (strip_reply s))"
  by pat_completeness auto
termination by (relation "measure length") (auto simp: strip_reply_shorter)

declare base_loop.simps [simp del]
declare base_loop.simps [code]

definition baseSubject :: "bytes \<Rightarrow> bytes" where
  "baseSubject subject = (let s = base_loop (trim_space subject) in
     if maxSearchTermBytes < length s then take (rune_boundary s maxSearchTermBytes) s else s)"

definition threadHeaderLocalFailure :: "go_error \<Rightarrow> bool" where
  "threadHeaderLocalFailure e \<longleftrightarrow> CodeOf e = None \<and> err_root e = NormalizeError_Malformed_Header"

definition newThreadNodeTruncation :: "Truncation \<Rightarrow> threadNodeTruncation" where
  "newThreadNodeTruncation t = \<lparr>nt_Headers = t_Headers t, nt_HeaderCount = t_HeaderCount t, nt_References = t_References t\<rparr>"

definition node_truncation_any :: "threadNodeTruncation \<Rightarrow> bool" where
  "node_truncation_any t \<longleftrightarrow> nt_Headers t \<or> nt_HeaderCount t \<or> nt_References t"

text \<open>What the loop over the candidates changes; the two maps are \<^verbatim>\<open>identities\<close> and \<^verbatim>\<open>truncations\<close>.\<close>

record sibling_state =
  sb_members :: "ThreadMessage list"
  sb_identities :: "bytes \<rightharpoonup> MessageMetadata"
  sb_truncations :: "bytes \<rightharpoonup> threadNodeTruncation"
  sb_unavailable :: "threadUnavailable list"
  sb_truncated :: bool
  sb_attempts :: int
  sb_seen :: "bytes list"

definition thread_member :: "bytes \<Rightarrow> CanonicalHeaders \<Rightarrow> ThreadMessage" where
  "thread_member key headers = \<lparr>tm_Key = key, tm_Headers = headers, tm_ReceivedAt = 0\<rparr>"

definition omit_sibling :: "threadUnavailable \<Rightarrow> sibling_state \<Rightarrow> sibling_state" where
  "omit_sibling reason sb = sb\<lparr>sb_unavailable := sb_unavailable sb @ [reason], sb_truncated := True\<rparr>"

text \<open>The header read of one candidate; a whole-call failure is an error.\<close>

definition read_sibling :: "tool_env \<Rightarrow> (bytes \<Rightarrow> ('w, MessageHeaders) api_call) \<Rightarrow> bytes \<Rightarrow> bytes \<Rightarrow> sibling_state \<Rightarrow> 'w \<Rightarrow>
    (tool_code + sibling_state) \<times> 'w" where
  "read_sibling env reader subject key sb w = (case reader key w of
      (Inl e, w1) \<Rightarrow>
        if threadHeaderLocalFailure e then (Inr (omit_sibling UnavailableMalformedHeader sb), w1)
        else if mapAdapterError e = errStaleID then (Inr (omit_sibling UnavailableStaleID sb), w1)
        else (Inl (mapAdapterError e), w1)
    | (Inr sibling, w1) \<Rightarrow>
        if \<not> te_fold_eq env (baseSubject (h_Subject (mh_Headers sibling))) subject then (Inr sb, w1)
        else if \<not> validReadIdentity (mh_Metadata sibling) then (Inr (omit_sibling UnavailableInvalidIdentity sb), w1)
        else (Inr (sb\<lparr>sb_members := sb_members sb @ [thread_member key (mh_Headers sibling)],
            sb_identities := (sb_identities sb)(key \<mapsto> mh_Metadata sibling),
            sb_truncations := (sb_truncations sb)(key \<mapsto> newThreadNodeTruncation (mh_Truncation sibling))\<rparr>), w1))"

fun sibling_loop :: "tool_env \<Rightarrow> (bytes \<Rightarrow> ('w, MessageHeaders) api_call) \<Rightarrow> bytes \<Rightarrow> int \<Rightarrow> MessageMetadata list \<Rightarrow>
    sibling_state \<Rightarrow> 'w \<Rightarrow> (tool_code + sibling_state) \<times> 'w" where
  "sibling_loop env reader subject maximum [] sb w = (Inr sb, w)"
| "sibling_loop env reader subject maximum (c # cs) sb w =
     (if m_ID c = [] then sibling_loop env reader subject maximum cs sb w
      else if m_ID c \<in> set (sb_seen sb) then sibling_loop env reader subject maximum cs sb w
      else (let sb1 = sb\<lparr>sb_seen := sb_seen sb @ [m_ID c]\<rparr> in
        if \<not> te_fold_eq env (baseSubject (m_Subject c)) subject then sibling_loop env reader subject maximum cs sb1 w
        else if sb_attempts sb1 = maximum then (Inr (sb1\<lparr>sb_truncated := True\<rparr>), w)
        else (case read_sibling env reader subject (m_ID c) (sb1\<lparr>sb_attempts := sb_attempts sb1 + 1\<rparr>) w of
            (Inl e, w1) \<Rightarrow> (Inl e, w1)
          | (Inr sb2, w1) \<Rightarrow> sibling_loop env reader subject maximum cs sb2 w1)))"

text \<open>\<open>sb\<close> already holds the target as its only member.\<close>

definition appendThreadSiblings :: "tool_env \<Rightarrow> (bytes \<Rightarrow> ('w, MessageHeaders) api_call) \<Rightarrow> 'w mail_api \<Rightarrow> MessageMetadata \<Rightarrow> int \<Rightarrow>
    sibling_state \<Rightarrow> 'w \<Rightarrow> (tool_code + sibling_state) \<times> 'w" where
  "appendThreadSiblings env reader api target limit sb w =
     (let subject = baseSubject (m_Subject target) in
      if subject = [] \<or> m_Mailbox target = [] then (Inr sb, w)
      else (case ma_SearchMailPage api \<lparr>sq_Mailbox = m_Mailbox target, sq_Since = 0, sq_Before = 0, sq_Sender = [],
              sq_Subject = subject, sq_Unread = False\<rparr> w of
          (Inl e, w1) \<Rightarrow> (Inl (mapAdapterError e), w1)
        | (Inr page, w1) \<Rightarrow>
            sibling_loop env reader subject (limit - int (length (sb_members sb))) (Messages page)
              (sb\<lparr>sb_truncated := Truncated page, sb_seen := m_ID target # map tm_Key (sb_members sb)\<rparr>) w1))"

definition thread_node_result :: "sibling_state \<Rightarrow> ThreadNode \<Rightarrow> threadNodeResult option" where
  "thread_node_result sb node = (case sb_identities sb (tn_Key node) of
      None \<Rightarrow> None
    | Some m \<Rightarrow> Some \<lparr>nr_Key = tn_Key node, nr_Mailbox = m_Mailbox m, nr_UIDValidity = m_UIDValidity m, nr_UID = m_UID m,
        nr_MessageID = tn_MessageID node, nr_ParentKey = tn_ParentKey node, nr_Depth = int (tn_Depth node),
        nr_Subject = h_Subject (tm_Headers (tn_Message node)), nr_From = h_From (tm_Headers (tn_Message node)),
        nr_Date = h_Date (tm_Headers (tn_Message node)),
        nr_Truncation = (case sb_truncations sb (tn_Key node) of
           None \<Rightarrow> \<lparr>nt_Headers = False, nt_HeaderCount = False, nt_References = False\<rparr> | Some t \<Rightarrow> t)\<rparr>)"

fun collect_nodes :: "(ThreadNode \<Rightarrow> threadNodeResult option) \<Rightarrow> ThreadNode list \<Rightarrow> threadNodeResult list option" where
  "collect_nodes f [] = Some []"
| "collect_nodes f (n # ns) = (case f n of None \<Rightarrow> None | Some r \<Rightarrow>
     (case collect_nodes f ns of None \<Rightarrow> None | Some rs \<Rightarrow> Some (r # rs)))"

text \<open>\<open>BuildThread\<close> never is \<open>None\<close>: it returns on every input (\<open>BuildThread_forest\<close>).\<close>

definition runGetThread :: "tool_env \<Rightarrow> 'w mail_api \<Rightarrow> bytes \<Rightarrow> 'w tool_run" where
  "runGetThread env api arguments w = (case decodeArguments env (te_decode_thread env) arguments of
      None \<Rightarrow> (Inl errInvalidArgument, w)
    | Some input \<Rightarrow>
        if \<not> validMessageIdentifier (ti_messageId input) then (Inl errInvalidArgument, w)
        else (case clampLimit (ti_maxMessages input) 10 20 of
            None \<Rightarrow> (Inl errInvalidArgument, w)
          | Some limit \<Rightarrow> (case ma_GetMessageHeaders api of
              None \<Rightarrow> (Inl errUnsupported, w)
            | Some reader \<Rightarrow> (case reader (ti_messageId input) w of
                (Inl e, w1) \<Rightarrow> (Inl (if threadHeaderLocalFailure e then errUnavailable else mapAdapterError e), w1)
              | (Inr target, w1) \<Rightarrow>
                  if \<not> validReadIdentity (mh_Metadata target) then (Inl errUnavailable, w1)
                  else (case appendThreadSiblings env reader api (mh_Metadata target) limit
                      \<lparr>sb_members = [thread_member (ti_messageId input) (mh_Headers target)],
                       sb_identities = [ti_messageId input \<mapsto> mh_Metadata target],
                       sb_truncations = [ti_messageId input \<mapsto> newThreadNodeTruncation (mh_Truncation target)],
                       sb_unavailable = [], sb_truncated = False, sb_attempts = 0, sb_seen = []\<rparr> w1 of
                      (Inl c, w2) \<Rightarrow> (Inl c, w2)
                    | (Inr sb, w2) \<Rightarrow> (case BuildThread (sb_members sb) (zeroLimits\<lparr>lMaxThreadMessages := limit\<rparr>) of
                        None \<Rightarrow> (Inl errInternal, w2)
                      | Some thread \<Rightarrow> (case collect_nodes (thread_node_result sb) (th_Nodes thread) of
                          None \<Rightarrow> (Inl errInternal, w2)
                        | Some nodes \<Rightarrow> (Inr (ThreadResult \<lparr>gt_ID = ti_messageId input, gt_Mailbox = m_Mailbox (mh_Metadata target),
                            gt_Nodes = nodes,
                            gt_Truncated = (sb_truncated sb \<or> truncation_Any (th_Truncation thread) \<or>
                              list_ex (\<lambda>n. node_truncation_any (nr_Truncation n)) nodes),
                            gt_UnavailableMembers = sb_unavailable sb\<rparr>), w2))))))))"

section \<open>Triage\<close>

fun distinct_uids :: "uint32 list \<Rightarrow> uint32 set \<Rightarrow> bool" where
  "distinct_uids [] seen = True"
| "distinct_uids (uid # uids) seen = (if uid = 0 \<or> uid \<in> seen then False else distinct_uids uids (insert uid seen))"

definition validTriageInput :: "triageInput \<Rightarrow> bool" where
  "validTriageInput input \<longleftrightarrow> validMailboxArgument (gi_mailbox input) \<and> gi_uidvalidity input \<noteq> 0 \<and>
     gi_uids input \<noteq> [] \<and> length (gi_uids input) \<le> MaxTriageUIDs \<and> distinct_uids (gi_uids input) {}"

definition sanitizeTriageOutcome :: "bytes \<Rightarrow> bytes" where
  "sanitizeTriageOutcome outcome =
     (if outcome \<in> {OutcomeApplied, OutcomeRefused, OutcomeNotAttempted} then outcome else OutcomeUnknown)"

fun tool_code_text :: "tool_code \<Rightarrow> bytes" where
  "tool_code_text errInvalidArgument = ''invalid_argument''"
| "tool_code_text errNotFound = ''not_found''"
| "tool_code_text errStaleID = ''stale_id''"
| "tool_code_text errBoundsExceeded = ''bounds_exceeded''"
| "tool_code_text errTimedOut = ''timed_out''"
| "tool_code_text errCanceled = ''canceled''"
| "tool_code_text errUnavailable = ''unavailable''"
| "tool_code_text errUnsupported = ''unsupported''"
| "tool_code_text errInternal = ''internal''"

fun triage_rows :: "uint32 list \<Rightarrow> TriageResult list \<Rightarrow> triageResultRow list option" where
  "triage_rows uids [] = Some []"
| "triage_rows [] (o1 # os) = None"
| "triage_rows (uid # uids) (o1 # os) =
     (if r_UID o1 \<noteq> uid then None
      else (case triage_rows uids os of
          None \<Rightarrow> None
        | Some rows \<Rightarrow> Some (\<lparr>tr_UID = r_UID o1, tr_Outcome = sanitizeTriageOutcome (r_Outcome o1),
            tr_Code = (case r_Code o1 of None \<Rightarrow> [] | Some c \<Rightarrow> tool_code_text (mapAdapterError (BridgeError c)))\<rparr> # rows)))"

definition triageResults :: "uint32 list \<Rightarrow> TriageResult list \<Rightarrow> tool_code + tool_result" where
  "triageResults uids outcomes =
     (if length outcomes \<noteq> length uids then Inl errInternal
      else (case triage_rows uids outcomes of None \<Rightarrow> Inl errInternal | Some rows \<Rightarrow> Inr (TriageResults rows)))"

definition triage_call :: "triageInput \<Rightarrow> (go_error + TriageResult list) \<times> 'w \<Rightarrow> (tool_code + tool_result) \<times> 'w" where
  "triage_call input r = on_success r (\<lambda>outcomes w. (triageResults (gi_uids input) outcomes, w))"

definition runSetSeen :: "bool \<Rightarrow> tool_env \<Rightarrow> 'w mail_api \<Rightarrow> bytes \<Rightarrow> 'w tool_run" where
  "runSetSeen seen env api arguments w = (case decodeArguments env (te_decode_triage env) arguments of
      None \<Rightarrow> (Inl errInvalidArgument, w)
    | Some input \<Rightarrow>
        if \<not> validTriageInput input then (Inl errInvalidArgument, w)
        else (case ma_Triage api of
            None \<Rightarrow> (Inl errUnavailable, w)
          | Some t \<Rightarrow> triage_call input (ta_SetSeen t (gi_mailbox input) (gi_uidvalidity input) (gi_uids input) seen w)))"

definition runMoveMail :: "tool_env \<Rightarrow> 'w mail_api \<Rightarrow> bytes \<Rightarrow> 'w tool_run" where
  "runMoveMail env api arguments w = (case decodeArguments env (te_decode_move env) arguments of
      None \<Rightarrow> (Inl errInvalidArgument, w)
    | Some (input, destination) \<Rightarrow>
        if \<not> validTriageInput input \<or> \<not> validMailboxArgument destination then (Inl errInvalidArgument, w)
        else (case ma_Triage api of
            None \<Rightarrow> (Inl errUnavailable, w)
          | Some t \<Rightarrow> triage_call input (ta_Move t (gi_mailbox input) (gi_uidvalidity input) (gi_uids input) destination w)))"

definition runAttributeMove :: "bool \<Rightarrow> tool_env \<Rightarrow> 'w mail_api \<Rightarrow> bytes \<Rightarrow> 'w tool_run" where
  "runAttributeMove trash env api arguments w = (case decodeArguments env (te_decode_triage env) arguments of
      None \<Rightarrow> (Inl errInvalidArgument, w)
    | Some input \<Rightarrow>
        if \<not> validTriageInput input then (Inl errInvalidArgument, w)
        else (case ma_Triage api of
            None \<Rightarrow> (Inl errUnavailable, w)
          | Some t \<Rightarrow> triage_call input ((if trash then ta_Trash t else ta_Archive t) (gi_mailbox input) (gi_uidvalidity input) (gi_uids input) w)))"

section \<open>The tool call\<close>

datatype tool_name = list_folders | search_mail | get_message | get_thread | list_attachments | select_digest_candidates
  | mark_read | mark_unread | move_mail | archive_mail | trash_mail

text \<open>The registered tools; the last five only with a Triage interface.\<close>

definition registered :: "'w mail_api \<Rightarrow> tool_name list" where
  "registered api = [list_folders, search_mail, get_message, get_thread, list_attachments, select_digest_candidates] @
     (case ma_Triage api of None \<Rightarrow> [] | Some t \<Rightarrow> [mark_read, mark_unread, move_mail, archive_mail, trash_mail])"

fun run_named :: "tool_name \<Rightarrow> tool_env \<Rightarrow> 'w mail_api \<Rightarrow> bytes \<Rightarrow> 'w tool_run" where
  "run_named list_folders = runListFolders"
| "run_named search_mail = runSearchMail"
| "run_named get_message = runGetMessage"
| "run_named get_thread = runGetThread"
| "run_named list_attachments = runListAttachments"
| "run_named select_digest_candidates = runSelectDigestCandidates"
| "run_named mark_read = runSetSeen True"
| "run_named mark_unread = runSetSeen False"
| "run_named move_mail = runMoveMail"
| "run_named archive_mail = runAttributeMove False"
| "run_named trash_mail = runAttributeMove True"

definition runTool :: "tool_name \<Rightarrow> tool_env \<Rightarrow> 'w mail_api option \<Rightarrow> bytes \<Rightarrow> 'w tool_run" where
  "runTool name env mail arguments w = (case mail of None \<Rightarrow> (Inl errUnavailable, w) | Some api \<Rightarrow> run_named name env api arguments w)"

fun tool_name_text :: "tool_name \<Rightarrow> bytes" where
  "tool_name_text list_folders = ''list_folders''"
| "tool_name_text search_mail = ''search_mail''"
| "tool_name_text get_message = ''get_message''"
| "tool_name_text get_thread = ''get_thread''"
| "tool_name_text list_attachments = ''list_attachments''"
| "tool_name_text select_digest_candidates = ''select_digest_candidates''"
| "tool_name_text mark_read = ''mark_read''"
| "tool_name_text mark_unread = ''mark_unread''"
| "tool_name_text move_mail = ''move_mail''"
| "tool_name_text archive_mail = ''archive_mail''"
| "tool_name_text trash_mail = ''trash_mail''"

definition tool_names :: "bytes list" where
  "tool_names = map tool_name_text [list_folders, search_mail, get_message, get_thread, list_attachments,
     select_digest_candidates, mark_read, mark_unread, move_mail, archive_mail, trash_mail]"

definition error_codes :: "bytes list" where
  "error_codes = map tool_code_text [errInvalidArgument, errNotFound, errStaleID, errBoundsExceeded, errTimedOut,
     errCanceled, errUnavailable, errUnsupported, errInternal]"

definition sanitizeToolName :: "bytes \<Rightarrow> bytes" where
  "sanitizeToolName tool = (if tool \<in> set tool_names then tool else ''unknown_tool'')"

definition sanitizeOutcome :: "bytes \<Rightarrow> bytes" where
  "sanitizeOutcome outcome = (if outcome = ''ok'' then ''ok'' else ''error'')"

definition sanitizeErrorCode :: "bytes \<Rightarrow> bytes" where
  "sanitizeErrorCode c = (if c = [] \<or> c \<in> set error_codes then c else tool_code_text errInternal)"

text \<open>\<^verbatim>\<open>Auditor.ToolCall\<close>: the line it writes; an absent auditor writes none.\<close>

definition audit_line :: "bytes \<Rightarrow> bytes \<Rightarrow> bytes \<Rightarrow> bool \<Rightarrow> bytes" where
  "audit_line tool outcome c truncated = json_struct ([(''event'', json_string ''tool_call''),
     (''tool'', json_string (sanitizeToolName tool)), (''outcome'', json_string (sanitizeOutcome outcome))] @
     string_omit ''code'' (sanitizeErrorCode c) @ flag_omit ''truncated'' truncated) @ [LF]"

definition ToolCall :: "bool \<Rightarrow> bytes \<Rightarrow> bytes \<Rightarrow> bytes \<Rightarrow> bool \<Rightarrow> bytes list" where
  "ToolCall auditing tool outcome c truncated = (if auditing then [audit_line tool outcome c truncated] else [])"

record tool_reply =
  rp_IsError :: bool
  rp_Text :: bytes

definition errorResult :: "tool_code \<Rightarrow> tool_reply" where
  "errorResult c = \<lparr>rp_IsError = True, rp_Text = json_struct [(''error'', json_struct [(''code'', json_string (tool_code_text c))])]\<rparr>"

definition makeHandler :: "bool \<Rightarrow> tool_name \<Rightarrow> tool_env \<Rightarrow> 'w mail_api option \<Rightarrow> bytes \<Rightarrow> 'w \<Rightarrow> tool_reply \<times> bytes list \<times> 'w" where
  "makeHandler auditing name env mail arguments w = (case runTool name env mail arguments w of
      (Inl c, w1) \<Rightarrow> (errorResult c, ToolCall auditing (tool_name_text name) ''error'' (tool_code_text c) False, w1)
    | (Inr result, w1) \<Rightarrow> (case encodeBounded result of
        Inl UnretainableIdentity \<Rightarrow>
          (errorResult errBoundsExceeded, ToolCall auditing (tool_name_text name) ''error'' (tool_code_text errBoundsExceeded) False, w1)
      | Inr (encoded, truncated) \<Rightarrow>
          (\<lparr>rp_IsError = False, rp_Text = encoded\<rparr>, ToolCall auditing (tool_name_text name) ''ok'' [] truncated, w1)))"

definition allowed_methods :: "bytes list" where
  "allowed_methods = [''initialize'', ''ping'', ''server/discover'', ''tools/list'', ''tools/call'',
     ''notifications/initialized'', ''notifications/cancelled'', ''notifications/progress'']"

definition allowlistMiddleware :: "(bytes \<Rightarrow> 'r \<Rightarrow> 'a option) \<Rightarrow> bytes \<Rightarrow> 'r \<Rightarrow> 'a option" where
  "allowlistMiddleware next_handler method req = (if method \<in> set allowed_methods then next_handler method req else None)"

end
