(* ===== verification/Tool_Threads.thy ===== *)
theory Tool_Threads
  imports Tool_Handlers
begin

text \<open>
  What \<^verbatim>\<open>get_thread\<close> returns: members that were read one by one, kept apart by their identifiers, and
  built into a thread whose nodes are exactly these members.
\<close>

section \<open>Keys of a thread\<close>

lemma free_key_new: "key \<notin> set keys \<Longrightarrow> free_key base keys key n = Some key"
  by (subst free_key.simps) simp

lemma assign_keys_kept:
  "distinct (map tm_Key ms) \<Longrightarrow> [] \<notin> set (map tm_Key ms) \<Longrightarrow> set (map tm_Key ms) \<inter> set keys = {} \<Longrightarrow>
     assign_keys ms keys = Some ms"
proof (induction ms arbitrary: keys)
  case (Cons m ms)
  have "base_key m = tm_Key m" using Cons.prems(2) by (auto simp: base_key_def Let_def)
  moreover have "free_key (tm_Key m) keys (tm_Key m) 2 = Some (tm_Key m)" using Cons.prems(3) by (intro free_key_new) auto
  moreover have "assign_keys ms (keys @ [tm_Key m]) = Some ms" using Cons.prems by (intro Cons.IH) auto
  ultimately show ?case by (simp add: stableThreadKey_def)
qed simp

lemma earliest_all:
  assumes "length ms \<le> limit" and "0 < limit"
  shows "mset (earliestThreadMessages ms limit) = mset ms"
proof -
  let ?xs = "zip ms [0..<length ms]"
  have "earliestThreadMessages ms limit = map fst (sort_key message_order ?xs)"
    using assms earliest_is_sorted_prefix [OF assms(2), of ms] by simp
  moreover have "mset (map fst (sort_key message_order ?xs)) = mset (map fst ?xs)" by (metis mset_map mset_sort)
  moreover have "map fst ?xs = ms" by simp
  ultimately show ?thesis by metis
qed

text \<open>A thread of messages with different keys: one node per message, under the message's own key.\<close>

lemma BuildThread_members:
  assumes "distinct (map tm_Key ms)" and "[] \<notin> set (map tm_Key ms)"
    and "int (length ms) \<le> lMaxThreadMessages (normalizedLimits options)"
  shows "\<exists>th. BuildThread ms options = Some th \<and> length (th_Nodes th) = length ms \<and>
    mset (map tn_Message (th_Nodes th)) = mset ms \<and> map tn_Key (th_Nodes th) = map (tm_Key \<circ> tn_Message) (th_Nodes th)"
proof -
  define limit where "limit = nat (lMaxThreadMessages (normalizedLimits options))"
  have limit: "0 < limit" "length ms \<le> limit"
    using normalizedLimits_thread(1) [of options] assms(3) by (simp_all add: limit_def)
  define es where "es = earliestThreadMessages ms limit"
  have es: "mset es = mset ms" using earliest_all [OF limit(2,1)] by (simp add: es_def)
  then have "mset (map tm_Key es) = mset (map tm_Key ms)" by (simp add: mset_map)
  then have keys: "distinct (map tm_Key es)" "set (map tm_Key es) = set (map tm_Key ms)"
    using assms(1) by (metis mset_eq_imp_distinct_iff, metis mset_eq_setD)
  have a: "assign_keys es [] = Some es" using keys assms(2) by (intro assign_keys_kept) auto
  have "\<exists>th missing parents depths. BuildThread ms options = Some th \<and>
      th_Nodes th = map (thread_node es missing parents depths) [0..<length es]"
    using BuildThread_returns [of ms options] a unfolding es_def limit_def
  proof (elim exE conjE, goal_cases)
    case (1 ordered links ds th)
    from 1(1,3) have "ordered = es" by (simp add: es_def limit_def)
    with 1(2,6) show ?case
      by (intro exI [of _ th] exI [of _ "l_missing links"] exI [of _ "d_parents ds"] exI [of _ "d_depths ds"])
        (simp add: es_def limit_def)
  qed
  then obtain missing parents depths th where th: "BuildThread ms options = Some th"
    and nodes: "th_Nodes th = map (thread_node es missing parents depths) [0..<length es]" by blast
  have "map tn_Message (th_Nodes th) = es"
    by (simp add: nodes thread_node_def comp_def map_nth)
  moreover have "map tn_Key (th_Nodes th) = map (tm_Key \<circ> tn_Message) (th_Nodes th)"
    by (simp add: nodes thread_node_def comp_def)
  moreover have "length (th_Nodes th) = length ms" using es nodes by (metis length_map length_upt diff_zero size_mset)
  ultimately show ?thesis using th es by auto
qed

section \<open>Members\<close>

text \<open>The member of a key carries what one header read of that key returned.\<close>

definition read_member :: "(bytes \<Rightarrow> ('w, MessageHeaders) api_call) \<Rightarrow> sibling_state \<Rightarrow> ThreadMessage \<Rightarrow> bool" where
  "read_member reader sb m \<longleftrightarrow> (\<exists>h w1 w2. reader (tm_Key m) w1 = (Inr h, w2) \<and> validReadIdentity (mh_Metadata h) \<and>
     tm_Headers m = mh_Headers h \<and> sb_identities sb (tm_Key m) = Some (mh_Metadata h) \<and>
     sb_truncations sb (tm_Key m) = Some (newThreadNodeTruncation (mh_Truncation h)))"

definition sibling_inv :: "(bytes \<Rightarrow> ('w, MessageHeaders) api_call) \<Rightarrow> bytes \<Rightarrow> int \<Rightarrow> sibling_state \<Rightarrow> bool" where
  "sibling_inv reader key maximum sb \<longleftrightarrow> distinct (map tm_Key (sb_members sb)) \<and> [] \<notin> set (map tm_Key (sb_members sb)) \<and>
     key \<in> set (map tm_Key (sb_members sb)) \<and> set (map tm_Key (sb_members sb)) \<subseteq> set (sb_seen sb) \<and>
     int (length (sb_members sb)) \<le> 1 + sb_attempts sb \<and> sb_attempts sb \<le> maximum \<and>
     list_all (read_member reader sb) (sb_members sb) \<and> (sb_unavailable sb = [] \<or> sb_truncated sb)"

lemma read_sibling_inv:
  assumes "sibling_inv reader key maximum sb" and "k \<noteq> []" and "k \<notin> set (map tm_Key (sb_members sb))" and "k \<in> set (sb_seen sb)"
    and "int (length (sb_members sb)) \<le> sb_attempts sb"
    and "read_sibling env reader subject k sb w = (r, w')"
  shows "case r of Inl c \<Rightarrow> (\<exists>e. reader k w = (Inl e, w') \<and> c = mapAdapterError e) | Inr sb' \<Rightarrow> sibling_inv reader key maximum sb' \<and>
    sb_attempts sb' = sb_attempts sb \<and> sb_seen sb' = sb_seen sb"
proof -
  obtain x w1 where x: "reader k w = (x, w1)" by (metis prod.exhaust)
  have omit: "sibling_inv reader key maximum (omit_sibling reason sb)" for reason
    using assms(1) by (simp add: sibling_inv_def omit_sibling_def read_member_def [abs_def])
  show ?thesis
  proof (cases x)
    case (Inl e)
    with assms(6) x omit show ?thesis
      by (auto simp: read_sibling_def split: if_splits) (simp_all add: omit_sibling_def)
  next
    case (Inr h)
    show ?thesis
    proof (cases "te_fold_eq env (baseSubject (h_Subject (mh_Headers h))) subject \<and> validReadIdentity (mh_Metadata h)")
      case False
      with assms(1,6) x Inr omit show ?thesis
        by (auto simp: read_sibling_def split: if_splits) (simp_all add: omit_sibling_def)
    next
      case True
      let ?sb = "sb\<lparr>sb_members := sb_members sb @ [thread_member k (mh_Headers h)],
        sb_identities := (sb_identities sb)(k \<mapsto> mh_Metadata h),
        sb_truncations := (sb_truncations sb)(k \<mapsto> newThreadNodeTruncation (mh_Truncation h))\<rparr>"
      have r: "r = Inr ?sb" using assms(6) x Inr True by (simp add: read_sibling_def)
      have "read_member reader ?sb m" if "m \<in> set (sb_members sb)" for m
      proof -
        have "tm_Key m \<noteq> k" using assms(3) that by auto
        moreover have "read_member reader sb m" using assms(1) that by (simp add: sibling_inv_def list_all_iff)
        ultimately show ?thesis by (simp add: read_member_def)
      qed
      moreover have "read_member reader ?sb (thread_member k (mh_Headers h))"
        using x Inr True by (auto simp: read_member_def thread_member_def)
      ultimately have "list_all (read_member reader ?sb) (sb_members ?sb)" by (simp add: list_all_iff)
      then have "sibling_inv reader key maximum ?sb"
        using assms(1-5) by (simp add: sibling_inv_def thread_member_def)
      then show ?thesis by (simp add: r)
    qed
  qed
qed

lemma sibling_loop_inv:
  assumes "sibling_inv reader key maximum sb" and "sibling_loop env reader subject maximum cs sb w = (r, w')"
  shows "case r of Inl c \<Rightarrow> (\<exists>k e w1. reader k w1 = (Inl e, w') \<and> c = mapAdapterError e) | Inr sb' \<Rightarrow> sibling_inv reader key maximum sb'"
  using assms
proof (induction cs arbitrary: sb w)
  case (Cons c cs)
  let ?sb1 = "sb\<lparr>sb_seen := sb_seen sb @ [m_ID c]\<rparr>" and ?sb2 = "sb\<lparr>sb_seen := sb_seen sb @ [m_ID c], sb_attempts := sb_attempts sb + 1\<rparr>"
  have same: "read_member reader ?sb1 = read_member reader sb" "read_member reader ?sb2 = read_member reader sb"
    "read_member reader (?sb1\<lparr>sb_truncated := True\<rparr>) = read_member reader sb"
    by (simp_all add: read_member_def [abs_def])
  have inv1: "sibling_inv reader key maximum ?sb1"
    using Cons.prems(1) same by (auto simp: sibling_inv_def)
  consider (skip) "m_ID c = [] \<or> m_ID c \<in> set (sb_seen sb)"
    | (other) "m_ID c \<noteq> []" "m_ID c \<notin> set (sb_seen sb)" "\<not> te_fold_eq env (baseSubject (m_Subject c)) subject"
    | (full) "m_ID c \<noteq> []" "m_ID c \<notin> set (sb_seen sb)" "te_fold_eq env (baseSubject (m_Subject c)) subject" "sb_attempts sb = maximum"
    | (read) "m_ID c \<noteq> []" "m_ID c \<notin> set (sb_seen sb)" "te_fold_eq env (baseSubject (m_Subject c)) subject" "sb_attempts sb \<noteq> maximum"
    by blast
  then show ?case
  proof cases
    case skip
    with Cons show ?thesis by (auto split: if_splits)
  next
    case other
    with Cons.IH [OF inv1] Cons.prems(2) show ?thesis by (simp add: Let_def)
  next
    case full
    with Cons.prems(2) have "r = Inr (?sb1\<lparr>sb_truncated := True\<rparr>)" by (simp add: Let_def)
    moreover have "sibling_inv reader key maximum (?sb1\<lparr>sb_truncated := True\<rparr>)"
      using inv1 same
      by (simp add: sibling_inv_def)
    ultimately show ?thesis by simp
  next
    case read
    have inv2: "sibling_inv reader key maximum ?sb2"
      using Cons.prems(1) read(4) same by (auto simp: sibling_inv_def)
    have k: "m_ID c \<notin> set (map tm_Key (sb_members ?sb2))" "m_ID c \<in> set (sb_seen ?sb2)" "int (length (sb_members ?sb2)) \<le> sb_attempts ?sb2"
      using Cons.prems(1) read(2) by (auto simp: sibling_inv_def)
    obtain r2 w2 where r2: "read_sibling env reader subject (m_ID c) ?sb2 w = (r2, w2)" by (metis prod.exhaust)
    note step = read_sibling_inv [OF inv2 read(1) k r2]
    show ?thesis
    proof (cases r2)
      case (Inl e)
      with Cons.prems(2) read r2 have "r = Inl e" "w' = w2" by (simp_all add: Let_def)
      with step Inl show ?thesis by auto
    next
      case (Inr sb3)
      with Cons.prems(2) read r2 have "sibling_loop env reader subject maximum cs sb3 w2 = (r, w')" by (simp add: Let_def)
      moreover have "sibling_inv reader key maximum sb3" using step Inr by simp
      ultimately show ?thesis by (rule Cons.IH [rotated])
    qed
  qed
next
  case (Nil sb w)
  then have "r = Inr sb" by simp
  with Nil show ?case by simp
qed

lemma appendThreadSiblings_inv:
  assumes "sibling_inv reader key (limit - 1) (sb\<lparr>sb_seen := map tm_Key (sb_members sb)\<rparr>)" and "length (sb_members sb) = 1"
    and "sb_unavailable sb = []"
    and "appendThreadSiblings env reader api target limit sb w = (r, w')"
  shows "case r of Inl c \<Rightarrow> (\<exists>e. c = mapAdapterError e \<and>
      ((\<exists>k w1. reader k w1 = (Inl e, w')) \<or> (\<exists>q w1. ma_SearchMailPage api q w1 = (Inl e, w'))))
    | Inr sb' \<Rightarrow> (\<exists>seen. sibling_inv reader key (limit - 1) (sb'\<lparr>sb_seen := seen\<rparr>))"
proof (cases "baseSubject (m_Subject target) = [] \<or> m_Mailbox target = []")
  case True
  with assms(4) have "r = Inr sb" by (auto simp: appendThreadSiblings_def Let_def)
  with assms(1) show ?thesis by auto
next
  case False
  let ?q = "\<lparr>sq_Mailbox = m_Mailbox target, sq_Since = 0, sq_Before = 0, sq_Sender = [],
    sq_Subject = baseSubject (m_Subject target), sq_Unread = False\<rparr>"
  obtain x w1 where x: "ma_SearchMailPage api ?q w = (x, w1)" by (metis prod.exhaust)
  show ?thesis
  proof (cases x)
    case (Inl e)
    with False assms(4) x have "r = Inl (mapAdapterError e)" "w' = w1" by (simp_all add: appendThreadSiblings_def Let_def)
    with x Inl show ?thesis by auto
  next
    case (Inr page)
    let ?sb = "sb\<lparr>sb_truncated := Truncated page, sb_seen := m_ID target # map tm_Key (sb_members sb)\<rparr>"
    have "sibling_inv reader key (limit - 1) ?sb"
    proof -
      have "read_member reader ?sb = read_member reader (sb\<lparr>sb_seen := map tm_Key (sb_members sb)\<rparr>)"
        by (simp add: read_member_def [abs_def])
      with assms(1,3) show ?thesis by (auto simp: sibling_inv_def)
    qed
    moreover have "sibling_loop env reader (baseSubject (m_Subject target)) (limit - 1) (Messages page) ?sb w1 = (r, w')"
      using False assms(2,4) x Inr by (simp add: appendThreadSiblings_def Let_def)
    ultimately have post: "case r of Inl c \<Rightarrow> (\<exists>k e w1. reader k w1 = (Inl e, w') \<and> c = mapAdapterError e)
      | Inr sb' \<Rightarrow> sibling_inv reader key (limit - 1) sb'" by (rule sibling_loop_inv)
    show ?thesis
    proof (cases r)
      case (Inl c)
      with post show ?thesis by auto
    next
      case (Inr sb')
      with post have "sibling_inv reader key (limit - 1) (sb'\<lparr>sb_seen := sb_seen sb'\<rparr>)" by simp
      then have "\<exists>seen. sibling_inv reader key (limit - 1) (sb'\<lparr>sb_seen := seen\<rparr>)" by (rule exI)
      with Inr show ?thesis by simp
    qed
  qed
qed

section \<open>Nodes\<close>

lemma collect_nodes_some: "list_all (\<lambda>n. f n \<noteq> None) ns \<Longrightarrow> collect_nodes f ns = Some (map (the \<circ> f) ns)"
  by (induction ns) auto

text \<open>A node that shows what one header read of its key returned.\<close>

definition node_of_read :: "'w mail_api \<Rightarrow> threadNodeResult \<Rightarrow> bool" where
  "node_of_read api n \<longleftrightarrow> (\<exists>reader h w1 w2. ma_GetMessageHeaders api = Some reader \<and> reader (nr_Key n) w1 = (Inr h, w2) \<and>
     validReadIdentity (mh_Metadata h) \<and> nr_Mailbox n = m_Mailbox (mh_Metadata h) \<and>
     nr_UIDValidity n = m_UIDValidity (mh_Metadata h) \<and> nr_UID n = m_UID (mh_Metadata h) \<and>
     nr_Subject n = h_Subject (mh_Headers h) \<and> nr_From n = h_From (mh_Headers h) \<and> nr_Date n = h_Date (mh_Headers h) \<and>
     nr_Truncation n = newThreadNodeTruncation (mh_Truncation h))"

text \<open>A failure without a code in the bridge's vocabulary that ended in world \<open>w\<close>.\<close>

definition uncoded_failure :: "'w mail_api \<Rightarrow> 'w \<Rightarrow> bool" where
  "uncoded_failure api w \<longleftrightarrow> (\<exists>e. CodeOf e = None \<and>
     ((\<exists>reader k w1. ma_GetMessageHeaders api = Some reader \<and> reader k w1 = (Inl e, w)) \<or>
      (\<exists>q w1. ma_SearchMailPage api q w1 = (Inl e, w))))"

lemma thread_nodes:
  assumes "sibling_inv reader key (limit - 1) (sb\<lparr>sb_seen := seen\<rparr>)" and "ma_GetMessageHeaders api = Some reader"
    and "0 < limit" and "limit \<le> 100"
  shows "\<exists>th nodes. BuildThread (sb_members sb) (zeroLimits\<lparr>lMaxThreadMessages := limit\<rparr>) = Some th \<and>
    collect_nodes (thread_node_result sb) (th_Nodes th) = Some nodes \<and> int (length nodes) \<le> limit \<and>
    distinct (map nr_Key nodes) \<and> key \<in> set (map nr_Key nodes) \<and> list_all (node_of_read api) nodes"
proof -
  let ?ms = "sb_members sb" and ?l = "zeroLimits\<lparr>lMaxThreadMessages := limit\<rparr>"
  have ms: "distinct (map tm_Key ?ms)" "[] \<notin> set (map tm_Key ?ms)" "key \<in> set (map tm_Key ?ms)" "int (length ?ms) \<le> limit"
    using assms(1) by (auto simp: sibling_inv_def)
  have read: "read_member reader sb m" if "m \<in> set ?ms" for m
    using assms(1) that by (simp add: sibling_inv_def list_all_iff read_member_def)
  have "int (length ?ms) \<le> lMaxThreadMessages (normalizedLimits ?l)"
    using assms(3,4) ms(4) by (simp add: normalizedLimits_def boundedLimit_def)
  from BuildThread_members [OF ms(1,2) this] obtain th where th: "BuildThread ?ms ?l = Some th"
    and n: "length (th_Nodes th) = length ?ms" and m: "mset (map tn_Message (th_Nodes th)) = mset ?ms"
    and k: "map tn_Key (th_Nodes th) = map (tm_Key \<circ> tn_Message) (th_Nodes th)" by blast
  have node: "thread_node_result sb x \<noteq> None \<and> nr_Key (the (thread_node_result sb x)) = tn_Key x \<and>
      node_of_read api (the (thread_node_result sb x))" if "x \<in> set (th_Nodes th)" for x
  proof -
    have key: "tn_Key x = tm_Key (tn_Message x)" using k that by simp
    from m have "set (map tn_Message (th_Nodes th)) = set ?ms" by (rule mset_eq_setD)
    with that have "tn_Message x \<in> set ?ms" by auto
    from read [OF this] obtain h w1 w2 where h: "reader (tn_Key x) w1 = (Inr h, w2)" "validReadIdentity (mh_Metadata h)"
      "tm_Headers (tn_Message x) = mh_Headers h" "sb_identities sb (tn_Key x) = Some (mh_Metadata h)"
      "sb_truncations sb (tn_Key x) = Some (newThreadNodeTruncation (mh_Truncation h))"
      unfolding read_member_def key by blast
    let ?n = "the (thread_node_result sb x)"
    have "node_of_read api ?n"
      unfolding node_of_read_def
      by (intro exI [of _ reader] exI [of _ h] exI [of _ w1] exI [of _ w2]) (simp add: h thread_node_result_def assms(2))
    with h show ?thesis by (simp add: thread_node_result_def)
  qed
  let ?nodes = "map (the \<circ> thread_node_result sb) (th_Nodes th)"
  have c: "collect_nodes (thread_node_result sb) (th_Nodes th) = Some ?nodes"
    using node by (intro collect_nodes_some) (simp add: list_all_iff)
  have keys: "map nr_Key ?nodes = map tm_Key (map tn_Message (th_Nodes th))" using node k by simp
  have "mset (map nr_Key ?nodes) = mset (map tm_Key ?ms)" unfolding keys using m by (metis mset_map)
  then have "distinct (map nr_Key ?nodes)" "set (map nr_Key ?nodes) = set (map tm_Key ?ms)"
    using ms(1) by (metis mset_eq_imp_distinct_iff, metis mset_eq_setD)
  moreover have "list_all (node_of_read api) ?nodes" using node by (simp add: list_all_iff)
  ultimately show ?thesis using th c n ms(3,4) by (intro exI [of _ th] exI [of _ ?nodes]) simp
qed


end
