(* ===== verification/Triage_Safety.thy ===== *)
theory Triage_Safety
  imports Mail_Triage "HOL-Library.Sublist"
begin

text \<open>
  What a triage batch may write. \<open>traced\<close> turns any environment into one whose world also lists the
  writes a session was told to make. The locale \<open>triage_step\<close> is the contract of the step of one
  UID, proved once for the loops of both batches and interpreted on \<^verbatim>\<open>storeSeen\<close> and on
  \<^verbatim>\<open>moveUID\<close> over every traced environment.
\<close>

section \<open>Making the writes visible\<close>

datatype dispatch = Stored uint32 bool | Moved uint32 bytes

definition lift_world :: "('w \<Rightarrow> 'r \<times> 'w) \<Rightarrow> 'w \<times> 'l \<Rightarrow> 'r \<times> ('w \<times> 'l)" where
  "lift_world f x = (case x of (w, l) \<Rightarrow> (case f w of (r, w') \<Rightarrow> (r, (w', l))))"

definition record_write :: "'d \<Rightarrow> ('w \<Rightarrow> 'r \<times> 'w) \<Rightarrow> 'w \<times> 'd list \<Rightarrow> 'r \<times> ('w \<times> 'd list)" where
  "record_write d f x = (case x of (w, l) \<Rightarrow> (case f w of (r, w') \<Rightarrow> (r, (w', l @ [d]))))"

definition traced :: "'w session_env \<Rightarrow> ('w \<times> dispatch list) session_env" where
  "traced env = \<lparr>op_view = (\<lambda>x. op_view env (fst x)), open_session = lift_world (open_session env),
     abort_session = (\<lambda>s x. (abort_session env s (fst x), snd x)),
     logout_session = (\<lambda>s. lift_world (logout_session env s)),
     examine = (\<lambda>s m. lift_world (examine env s m)),
     search_window = (\<lambda>s q u n. lift_world (search_window env s q u n)),
     fetch_metadata = (\<lambda>s m u n. lift_world (fetch_metadata env s m u n)),
     fetch_body = (\<lambda>s u n. lift_world (fetch_body env s u n)),
     list_folders = (\<lambda>s n. lift_world (list_folders env s n)),
     status_mailbox = (\<lambda>s m. lift_world (status_mailbox env s m)),
     is_header_session = is_header_session env,
     fetch_headers = (\<lambda>s u n. lift_world (fetch_headers env s u n)),
     is_seen_session = is_seen_session env, is_move_session = is_move_session env,
     select_source = (\<lambda>s m. lift_world (select_source env s m)),
     store_seen = (\<lambda>s u b. record_write (Stored u b) (store_seen env s u b)),
     supports_move = (\<lambda>s x. supports_move env s (fst x)),
     list_mailboxes = (\<lambda>s p n. lift_world (list_mailboxes env s p n)),
     move_uid = (\<lambda>s u d. record_write (Moved u d) (move_uid env s u d))\<rparr>"

text \<open>The writes so far.\<close>

definition writes :: "('w \<times> 'd list) adapter_state \<Rightarrow> 'd list" where
  "writes st = snd (snd st)"

lemma lift_world_snd: "lift_world f x = (r, x') \<Longrightarrow> snd x' = snd x"
  by (auto simp: lift_world_def split: prod.splits)

lemma record_write_snd: "record_write d f x = (r, x') \<Longrightarrow> snd x' = snd x @ [d]"
  by (auto simp: record_write_def split: prod.splits)

lemma require_traced: "requireMessageUID (traced env) s uid x = (r, x') \<Longrightarrow> snd x' = snd x"
  by (auto simp: requireMessageUID_def traced_def dest: lift_world_snd split: prod.splits sum.splits if_splits)

lemma invalidate_traced [simp]: "writes (invalidate (traced env) s st) = writes st"
  by (simp add: invalidate_def writes_def traced_def split: prod.split)

lemma writes_pair [simp]: "writes (a, x) = snd x"
  by (simp add: writes_def)

lemma list_traced: "list_mailboxes (traced env) s p n x = (r, x') \<Longrightarrow> snd x' = snd x"
  by (simp add: traced_def lift_world_snd)

lemma store_traced: "store_seen (traced env) s u b x = (r, x') \<Longrightarrow> snd x' = snd x @ [Stored u b]"
  by (simp add: traced_def record_write_snd)

lemma move_traced: "move_uid (traced env) s u d x = (r, x') \<Longrightarrow> snd x' = snd x @ [Moved u d]"
  by (simp add: traced_def record_write_snd)

lemma session_traced: "sessionForOperation (traced env) st = (r, st') \<Longrightarrow> writes st' = writes st"
  by (auto simp: sessionForOperation_def traced_def split: prod.splits sum.splits if_splits option.splits
      dest: lift_world_snd)

lemma abandon_traced:
  "abandonUID (traced env) s uid e st = (r, st') \<Longrightarrow>
     writes st' = writes st \<and> r_UID r = uid \<and> r_Outcome r = OutcomeNotAttempted"
  by (auto simp: abandonUID_def Let_def)

lemma source_traced:
  "selectTriageSource (traced env) mailbox st = (s, r, st') \<Longrightarrow> writes st' = writes st"
  by (auto simp: selectTriageSource_def traced_def split: prod.splits sum.splits if_splits
      dest!: lift_world_snd session_traced [unfolded traced_def])

lemma drop_session_traced [simp]: "writes (drop_session (traced env) s st) = writes st"
  by (simp add: drop_session_def split: option.split)

text \<open>Opening the source writes nothing.\<close>

lemma open_traced:
  "source_attempts (traced env) mailbox validity left st = (r, st') \<Longrightarrow> writes st' = writes st"
proof (induction left arbitrary: st)
  case (Suc left)
  obtain s r1 a1 w1 where sel: "selectTriageSource (traced env) mailbox st = (s, r1, (a1, w1))" by (metis prod.exhaust)
  note w = source_traced [OF sel]
  show ?case
  proof (cases r1)
    case (Inl e)
    let ?e = "mapped (traced env) w1 e"
    let ?st = "if (left = 1 \<and> canReplay (traced env) w1 ?e) \<or> invalidatesSession ?e
        then drop_session (traced env) s (a1, w1) else (a1, w1)"
    have st: "writes ?st = writes st" using w by simp
    show ?thesis
    proof (cases "left = 1 \<and> canReplay (traced env) w1 ?e")
      case True
      with Suc.prems sel Inl have "source_attempts (traced env) mailbox validity left ?st = (r, st')"
        by (simp add: Let_def)
      from Suc.IH [OF this] st show ?thesis by simp
    next
      case False
      with Suc.prems sel Inl have "st' = ?st" by (auto simp: Let_def)
      with st show ?thesis by simp
    qed
  next
    case (Inr snapshot)
    with Suc.prems sel w show ?thesis by (auto split: if_splits)
  qed
qed simp

section \<open>The contract of a step\<close>

text \<open>A result after which the server may have been told to write this UID.\<close>

definition dispatched :: "TriageResult \<Rightarrow> bool" where
  "dispatched r \<longleftrightarrow> r_Outcome r = OutcomeApplied \<or> r_Outcome r = OutcomeUnknown \<or>
     r_Outcome r = OutcomeRefused \<and> r_Code r = Some CodeIMAPCommand"

definition settled :: "TriageResult \<Rightarrow> bool" where
  "settled r \<longleftrightarrow> r_Outcome r = OutcomeApplied \<or> r_Outcome r = OutcomeRefused"

definition stopping :: "TriageResult \<Rightarrow> bool" where
  "stopping r \<longleftrightarrow> r_Outcome r = OutcomeNotAttempted \<or> r_Outcome r = OutcomeUnknown"

text \<open>
  The results of a batch: one per UID, in input order; settled results, and then possibly one that
  stopped the batch, after which no UID was attempted. Those after it are left as they were, or all
  refused when the one that stopped carries the code \<^verbatim>\<open>UNSUPPORTED\<close>.
\<close>

definition untouched :: "TriageResult \<Rightarrow> TriageResult list \<Rightarrow> bool" where
  "untouched r rest \<longleftrightarrow> rest = pendingResults (map r_UID rest) \<or>
     r_Code r = Some CodeUnsupported \<and> rest = refuseRemaining rest"

definition batch_shape :: "uint32 list \<Rightarrow> TriageResult list \<Rightarrow> bool" where
  "batch_shape uids rs \<longleftrightarrow> map r_UID rs = uids \<and>
     (list_all settled rs \<or>
      (\<exists>before r rest. rs = before @ r # rest \<and> list_all settled before \<and> stopping r \<and> untouched r rest))"

lemma pending_not_dispatched [simp]: "filter dispatched (pendingResults uids) = []"
  by (simp add: pendingResults_def dispatched_def filter_empty_conv)

lemma pending_uids [simp]: "map r_UID (pendingResults uids) = uids"
  by (simp add: pendingResults_def comp_def)

lemma refused_settled [simp]: "list_all settled (refuseRemaining rs)"
  by (simp add: refuseRemaining_def list_all_iff settled_def)

lemma refused_not_dispatched [simp]: "filter dispatched (refuseRemaining rs) = []"
  by (simp add: refuseRemaining_def dispatched_def filter_empty_conv)

lemma refused_uids [simp]: "map r_UID (refuseRemaining rs) = map r_UID rs"
  by (simp add: refuseRemaining_def comp_def)

lemma refused_again [simp]: "refuseRemaining (refuseRemaining rs) = refuseRemaining rs"
  by (simp add: refuseRemaining_def comp_def)

lemma batch_shape_Cons:
  assumes "batch_shape uids rs" "r_UID r = uid" "settled r"
  shows "batch_shape (uid # uids) (r # rs)"
proof (cases "list_all settled rs")
  case True
  with assms show ?thesis by (simp add: batch_shape_def)
next
  case False
  with assms(1) obtain before q rest where "rs = before @ q # rest" "list_all settled before" "stopping q" "untouched q rest"
    by (auto simp: batch_shape_def)
  with assms have "r # rs = (r # before) @ q # rest" "list_all settled (r # before)" "stopping q" "untouched q rest" by simp_all
  with assms show ?thesis unfolding batch_shape_def by (metis list.simps(9))
qed

lemma batch_shape_stop:
  assumes "r_UID r = uid" "stopping r" "map r_UID rest = uids" "untouched r rest"
  shows "batch_shape (uid # uids) (r # rest)"
  using assms unfolding batch_shape_def by (intro conjI disjI2 exI [of _ "[]"] exI [of _ r] exI [of _ rest]) simp_all

locale triage_step =
  fixes step :: "uint32 \<Rightarrow> 's \<Rightarrow> (TriageResult \<times> bool) \<times> 's"
    and log :: "'s \<Rightarrow> 'd list"
    and entry :: "uint32 \<Rightarrow> 'd \<Rightarrow> bool"
    and sound :: bool
  assumes contract: "sound \<Longrightarrow> step uid st = ((r, stop), st') \<Longrightarrow>
      r_UID r = uid \<and> (if stop then stopping r else settled r) \<and>
      (log st' = log st \<and> \<not> dispatched r \<or>
       (\<exists>d. log st' = log st @ [d] \<and> entry uid d \<and> (dispatched r \<or> r_Code r = Some CodeUnsupported)))"
begin

lemma stepE:
  assumes "sound" "step uid st = ((r, stop), st')"
  obtains sent where "r_UID r = uid" "stop \<longrightarrow> stopping r" "\<not> stop \<longrightarrow> settled r" "log st' = log st @ sent"
    "sent = [] \<and> \<not> dispatched r \<or> (\<exists>d. sent = [d] \<and> entry uid d \<and> (dispatched r \<or> r_Code r = Some CodeUnsupported))"
proof -
  note c = contract [OF assms]
  show ?thesis
  proof (cases "log st' = log st \<and> \<not> dispatched r")
    case True
    with c show ?thesis by (intro that [of "[]"]) auto
  next
    case False
    with c obtain d where "log st' = log st @ [d]" "entry uid d" "dispatched r \<or> r_Code r = Some CodeUnsupported" by auto
    with c show ?thesis by (intro that [of "[d]"]) auto
  qed
qed

text \<open>What the batch of moves leaves behind, in the log and in its results.\<close>

definition moved :: "TriageResult list \<Rightarrow> 'd list \<Rightarrow> bool" where
  "moved rs sent \<longleftrightarrow> (\<exists>ds extra. sent = ds @ extra \<and> list_all2 entry (map r_UID (filter dispatched rs)) ds \<and>
     (extra = [] \<or> list_ex (\<lambda>r. r_Code r = Some CodeUnsupported \<and> \<not> dispatched r \<and> (\<exists>d. extra = [d] \<and> entry (r_UID r) d)) rs))"

lemma moved_Cons:
  assumes "moved rs sent" "sent1 = [] \<and> \<not> dispatched r \<or> (\<exists>d. sent1 = [d] \<and> entry (r_UID r) d \<and> dispatched r)"
  shows "moved (r # rs) (sent1 @ sent)"
proof -
  from assms(1) obtain ds extra where m: "sent = ds @ extra" "list_all2 entry (map r_UID (filter dispatched rs)) ds"
    "extra = [] \<or> list_ex (\<lambda>r. r_Code r = Some CodeUnsupported \<and> \<not> dispatched r \<and> (\<exists>d. extra = [d] \<and> entry (r_UID r) d)) rs"
    by (auto simp: moved_def)
  have "list_all2 entry (map r_UID (filter dispatched (r # rs))) (sent1 @ ds)"
    using assms(2) m(2) by auto
  with m(1,3) show ?thesis unfolding moved_def by (intro exI [of _ "sent1 @ ds"] exI [of _ extra]) auto
qed

lemma moved_last:
  assumes "sent = [] \<and> \<not> dispatched r \<or> (\<exists>d. sent = [d] \<and> entry (r_UID r) d \<and> (dispatched r \<or> r_Code r = Some CodeUnsupported))"
    and "filter dispatched rest = []"
  shows "moved (r # rest) sent"
proof (cases "dispatched r")
  case True
  with assms show ?thesis unfolding moved_def by (intro exI [of _ sent] exI [of _ "[]"]) auto
next
  case False
  with assms show ?thesis unfolding moved_def by (intro exI [of _ "[]"] exI [of _ sent]) auto
qed

lemma move_loop_Inr:
  "sound \<Longrightarrow> move_loop step written uids st = (Inr rs, st') \<Longrightarrow>
     batch_shape uids rs \<and> (\<exists>sent. log st' = log st @ sent \<and> moved rs sent)"
proof (induction uids arbitrary: written st rs)
  case Nil
  then show ?case by (auto simp: batch_shape_def moved_def)
next
  case (Cons uid uids)
  obtain r stop st1 where s: "step uid st = ((r, stop), st1)" by (metis prod.exhaust)
  from stepE [OF Cons.prems(1) s] obtain sent where c: "r_UID r = uid" "stop \<longrightarrow> stopping r" "\<not> stop \<longrightarrow> settled r"
    "log st1 = log st @ sent"
    "sent = [] \<and> \<not> dispatched r \<or> (\<exists>d. sent = [d] \<and> entry uid d \<and> (dispatched r \<or> r_Code r = Some CodeUnsupported))" by blast
  show ?case
  proof (cases "r_Code r = Some CodeUnsupported")
    case True
    with Cons.prems(2) s have e: "rs = r # refuseRemaining (pendingResults uids)" "st' = st1" by simp_all
    have "batch_shape (uid # uids) rs"
    proof (cases stop)
      case True
      with c(1,2) \<open>r_Code r = Some CodeUnsupported\<close> show ?thesis
        unfolding e by (intro batch_shape_stop) (simp_all add: untouched_def)
    next
      case False
      with c(1,3) show ?thesis unfolding e by (simp add: batch_shape_def)
    qed
    moreover have "moved rs sent" unfolding e using c(1,5) by (intro moved_last) auto
    ultimately show ?thesis using c(4) e(2) by blast
  next
    case False
    show ?thesis
    proof (cases stop)
      case True
      with Cons.prems(2) s False have e: "rs = r # pendingResults uids" "st' = st1" by (auto split: if_splits)
      have "batch_shape (uid # uids) rs"
        using True c(1,2) unfolding e by (intro batch_shape_stop) (simp_all add: untouched_def)
      moreover have "moved rs sent" unfolding e using c(1,5) by (intro moved_last) auto
      ultimately show ?thesis using c(4) e(2) by blast
    next
      case ns: False
      let ?w = "written \<or> r_Outcome r = OutcomeApplied"
      from Cons.prems(2) s False ns obtain rs1 where rest: "move_loop step ?w uids st1 = (Inr rs1, st')"
        and e: "rs = r # rs1" by (auto split: prod.splits sum.splits)
      from Cons.IH [OF Cons.prems(1) rest] obtain sent1 where ih: "batch_shape uids rs1"
        "log st' = log st1 @ sent1" "moved rs1 sent1" by blast
      have "batch_shape (uid # uids) rs" unfolding e using ih(1) c(1,3) ns by (intro batch_shape_Cons) simp_all
      moreover have "moved rs (sent @ sent1)" unfolding e using ih(3) c(1,5) False by (intro moved_Cons) auto
      ultimately show ?thesis using c(4) ih(2) by (intro conjI exI [of _ "sent @ sent1"]) simp_all
    qed
  qed
qed

text \<open>A batch that fails as a whole told the server only what the server refused.\<close>

lemma move_loop_Inl:
  "sound \<Longrightarrow> move_loop step written uids st = (Inl e, st') \<Longrightarrow> \<not> written \<and>
     (\<exists>before sent. prefix (map r_UID before) uids \<and> list_all (\<lambda>r. r_Outcome r = OutcomeRefused) before \<and>
        log st' = log st @ sent \<and> list_all2 entry (map r_UID (filter dispatched before)) sent)"
proof (induction uids arbitrary: written st)
  case (Cons uid uids)
  obtain r stop st1 where s: "step uid st = ((r, stop), st1)" by (metis prod.exhaust)
  from stepE [OF Cons.prems(1) s] obtain sent where c: "r_UID r = uid" "stop \<longrightarrow> stopping r" "\<not> stop \<longrightarrow> settled r"
    "log st1 = log st @ sent"
    "sent = [] \<and> \<not> dispatched r \<or> (\<exists>d. sent = [d] \<and> entry uid d \<and> (dispatched r \<or> r_Code r = Some CodeUnsupported))" by blast
  have u: "r_Code r \<noteq> Some CodeUnsupported" using Cons.prems(2) s by (auto split: if_splits)
  show ?case
  proof (cases stop)
    case True
    with Cons.prems(2) s u have e: "\<not> written" "r_Outcome r = OutcomeNotAttempted" "st' = st1"
      by (auto split: if_splits)
    then have "\<not> dispatched r" by (simp add: dispatched_def)
    with c(5) u have "sent = []" by blast
    with c(4) e show ?thesis by (intro conjI exI [of _ "[]"]) simp_all
  next
    case False
    let ?w = "written \<or> r_Outcome r = OutcomeApplied"
    from Cons.prems(2) s u False have rest: "move_loop step ?w uids st1 = (Inl e, st')"
      by (auto split: prod.splits sum.splits)
    from Cons.IH [OF Cons.prems(1) rest] obtain before sent1 where ih: "\<not> ?w" "prefix (map r_UID before) uids"
      "list_all (\<lambda>r. r_Outcome r = OutcomeRefused) before" "log st' = log st1 @ sent1"
      "list_all2 entry (map r_UID (filter dispatched before)) sent1" by blast
    have refused: "r_Outcome r = OutcomeRefused" using ih(1) c(3) False by (simp add: settled_def)
    have "list_all2 entry (map r_UID (filter dispatched (r # before))) (sent @ sent1)"
      using c(1,5) u ih(5) by auto
    with refused ih c(1,4) show ?thesis
      by (intro conjI exI [of _ "r # before"] exI [of _ "sent @ sent1"]) simp_all
  qed
qed simp

end

text \<open>The step of \<^verbatim>\<open>SetSeen\<close> never refuses a UID as unsupported.\<close>

locale seen_step = triage_step +
  assumes supported: "sound \<Longrightarrow> step uid st = ((r, stop), st') \<Longrightarrow> log st' \<noteq> log st \<Longrightarrow> dispatched r"
begin

lemma seen_loop_results:
  "sound \<Longrightarrow> seen_loop step uids st = (rs, st') \<Longrightarrow>
     batch_shape uids rs \<and> (\<exists>sent. log st' = log st @ sent \<and> list_all2 entry (map r_UID (filter dispatched rs)) sent)"
proof (induction uids arbitrary: st rs)
  case Nil
  then show ?case by (auto simp: batch_shape_def)
next
  case (Cons uid uids)
  obtain r stop st1 where s: "step uid st = ((r, stop), st1)" by (metis prod.exhaust)
  from stepE [OF Cons.prems(1) s] obtain sent where c: "r_UID r = uid" "stop \<longrightarrow> stopping r" "\<not> stop \<longrightarrow> settled r"
    "log st1 = log st @ sent"
    "sent = [] \<and> \<not> dispatched r \<or> (\<exists>d. sent = [d] \<and> entry uid d \<and> (dispatched r \<or> r_Code r = Some CodeUnsupported))" by blast
  have sent: "sent = [] \<and> \<not> dispatched r \<or> (\<exists>d. sent = [d] \<and> entry uid d \<and> dispatched r)"
    using c(4,5) supported [OF Cons.prems(1) s] by auto
  show ?case
  proof (cases stop)
    case True
    with Cons.prems(2) s have e: "rs = r # pendingResults uids" "st' = st1" by simp_all
    have "batch_shape (uid # uids) rs"
      using True c(1,2) unfolding e by (intro batch_shape_stop) (simp_all add: untouched_def)
    moreover have "list_all2 entry (map r_UID (filter dispatched rs)) sent" unfolding e using sent c(1) by auto
    ultimately show ?thesis using c(4) e(2) by blast
  next
    case False
    with Cons.prems(2) s obtain rs1 where rest: "seen_loop step uids st1 = (rs1, st')" and e: "rs = r # rs1"
      by (auto split: prod.splits)
    from Cons.IH [OF Cons.prems(1) rest] obtain sent1 where ih: "batch_shape uids rs1" "log st' = log st1 @ sent1"
      "list_all2 entry (map r_UID (filter dispatched rs1)) sent1" by blast
    have "batch_shape (uid # uids) rs" unfolding e using ih(1) c(1,3) False by (intro batch_shape_Cons) simp_all
    moreover have "list_all2 entry (map r_UID (filter dispatched rs)) (sent @ sent1)" unfolding e using ih(3) sent c(1) by auto
    ultimately show ?thesis using c(4) ih(2) by (intro conjI exI [of _ "sent @ sent1"]) simp_all
  qed
qed

end

section \<open>The steps keep the contract\<close>

lemma storeSeen_traced:
  assumes "storeSeen (traced env) s seen uid st = ((r, stop), st')"
  shows "r_UID r = uid \<and> (if stop then stopping r else settled r) \<and>
    (writes st' = writes st \<and> \<not> dispatched r \<or> writes st' = writes st @ [Stored uid seen] \<and> dispatched r)"
proof -
  obtain a x where st: "st = (a, x)" by (metis prod.exhaust)
  obtain q x1 where req: "requireMessageUID (traced env) s uid x = (q, x1)" by (metis prod.exhaust)
  have x1: "snd x1 = snd x" by (rule require_traced [OF req])
  show ?thesis
  proof (cases q)
    case (Inl e)
    show ?thesis
    proof (cases "CodeOf e = Some CodeStaleMessageID")
      case True
      with assms st req Inl x1 show ?thesis
        by (auto simp: storeSeen_def settled_def dispatched_def)
    next
      case False
      obtain r' st1 where ab: "abandonUID (traced env) s uid e (a, x1) = (r', st1)" by (metis prod.exhaust)
      with assms st req Inl False have "r = r'" "stop" "st' = st1" by (simp_all add: storeSeen_def)
      with abandon_traced [OF ab] x1 st show ?thesis by (simp add: stopping_def dispatched_def)
    qed
  next
    case (Inr u)
    obtain e x2 where w: "store_seen (traced env) s uid seen x1 = (e, x2)" by (metis prod.exhaust)
    have x2: "snd x2 = snd x @ [Stored uid seen]" using store_traced [OF w] x1 by simp
    show ?thesis
    proof (cases e)
      case None
      with assms st req Inr w x2 show ?thesis by (auto simp: storeSeen_def settled_def dispatched_def)
    next
      case (Some f)
      with assms st req Inr w x2 show ?thesis
        by (auto simp: storeSeen_def Let_def settled_def stopping_def dispatched_def split: if_splits)
    qed
  qed
qed

interpretation seen: seen_step "storeSeen (traced env) s seen" writes "\<lambda>uid d. d = Stored uid seen" True
  for env s seen
  by unfold_locales (auto dest: storeSeen_traced)

lemma prepareMove_traced:
  assumes "prepareMove (traced env) b s resolve uid st = ((target, r, stop), st')"
  shows "writes st' = writes st \<and>
    (target \<noteq> [] \<longrightarrow> (\<exists>listing. resolve listing = Some target)) \<and>
    (target = [] \<and> (\<forall>listing. resolve listing \<noteq> Some []) \<longrightarrow>
       r_UID r = uid \<and> (if stop then stopping r else settled r) \<and> \<not> dispatched r)"
proof -
  obtain a x where st: "st = (a, x)" by (metis prod.exhaust)
  obtain q x1 where req: "requireMessageUID (traced env) s uid x = (q, x1)" by (metis prod.exhaust)
  have x1: "snd x1 = snd x" by (rule require_traced [OF req])
  show ?thesis
  proof (cases q)
    case (Inl e)
    show ?thesis
    proof (cases "CodeOf e = Some CodeStaleMessageID")
      case True
      with assms st req Inl x1 show ?thesis
        by (auto simp: prepareMove_def settled_def dispatched_def)
    next
      case False
      obtain r' st1 where ab: "abandonUID (traced env) s uid e (a, x1) = (r', st1)" by (metis prod.exhaust)
      with assms st req Inl False have "target = []" "r = r'" "stop" "st' = st1" by (simp_all add: prepareMove_def)
      with abandon_traced [OF ab] x1 st show ?thesis by (simp add: stopping_def dispatched_def)
    qed
  next
    case (Inr u)
    obtain l x2 where li: "list_mailboxes (traced env) s ''*'' (MaxFolderResults b) x1 = (l, x2)" by (metis prod.exhaust)
    have x2: "snd x2 = snd x" using list_traced [OF li] x1 by simp
    show ?thesis
    proof (cases l)
      case (Inl e)
      obtain r' st1 where ab: "abandonUID (traced env) s uid e (a, x2) = (r', st1)" by (metis prod.exhaust)
      with assms st req \<open>q = Inr u\<close> li Inl have "target = []" "r = r'" "stop" "st' = st1"
        by (simp_all add: prepareMove_def)
      with abandon_traced [OF ab] x2 st show ?thesis by (simp add: stopping_def dispatched_def)
    next
      case (Inr listing)
      with assms st req \<open>q = Inr u\<close> li x2 show ?thesis
        by (cases "resolve listing") (auto simp: prepareMove_def settled_def dispatched_def)
    qed
  qed
qed

lemma moveUID_traced:
  assumes sound: "\<forall>listing. resolve listing \<noteq> Some []"
    and run: "moveUID (traced env) b s resolve uid st = ((r, stop), st')"
  shows "r_UID r = uid \<and> (if stop then stopping r else settled r) \<and>
    (writes st' = writes st \<and> \<not> dispatched r \<or>
     (\<exists>d. writes st' = writes st @ [d] \<and> (\<exists>t listing. d = Moved uid t \<and> resolve listing = Some t) \<and>
        (dispatched r \<or> r_Code r = Some CodeUnsupported)))"
proof -
  obtain target refusal stop1 a x where p: "prepareMove (traced env) b s resolve uid st = ((target, refusal, stop1), (a, x))"
    by (metis prod.exhaust)
  note P = prepareMove_traced [OF p]
  show ?thesis
  proof (cases "target = []")
    case True
    with run p have "r = refusal" "stop = stop1" "st' = (a, x)" by (simp_all add: moveUID_def)
    with P True sound show ?thesis by simp
  next
    case False
    with P obtain listing where res: "resolve listing = Some target" by blast
    obtain e x1 where m: "move_uid (traced env) s uid target x = (e, x1)" by (metis prod.exhaust)
    have w: "snd x1 = writes st @ [Moved uid target]" using move_traced [OF m] P by simp
    have d: "\<exists>d. writes st @ [Moved uid target] = writes st @ [d] \<and> (\<exists>t listing. d = Moved uid t \<and> resolve listing = Some t)"
      using res by blast
    show ?thesis
    proof (cases e)
      case None
      with run p False m have "r = triage_result uid OutcomeApplied None" "\<not> stop" "st' = (a, x1)"
        by (simp_all add: moveUID_def)
      with w res show ?thesis by (auto simp: settled_def dispatched_def)
    next
      case (Some f)
      let ?e = "mapped (traced env) x1 f"
      have "writes st' = writes st @ [Moved uid target] \<and> r_UID r = uid \<and> (if stop then stopping r else settled r) \<and>
          (dispatched r \<or> r_Code r = Some CodeUnsupported)"
      proof (cases "CodeOf ?e = Some CodeUnsupported")
        case True
        with run p False m Some have "r = triage_result uid OutcomeRefused (Some CodeUnsupported)" "\<not> stop"
          "st' = invalidate (traced env) s (a, x1)" by (simp_all add: moveUID_def Let_def)
        with w show ?thesis by (simp add: settled_def)
      next
        case un: False
        show ?thesis
        proof (cases "CodeOf ?e = Some CodeIMAPCommand")
          case True
          with run p False m Some un have "r = triage_result uid OutcomeRefused (Some CodeIMAPCommand)" "\<not> stop"
            "st' = (a, x1)" by (simp_all add: moveUID_def Let_def)
          with w show ?thesis by (simp add: settled_def dispatched_def)
        next
          case no: False
          with run p False m Some un have "r = triage_result uid OutcomeUnknown (CodeOf ?e)" "stop"
            "st' = invalidate (traced env) s (a, x1)" by (simp_all add: moveUID_def Let_def)
          with w show ?thesis by (simp add: stopping_def dispatched_def)
        qed
      qed
      with d show ?thesis by metis
    qed
  qed
qed

interpretation mover: triage_step "moveUID (traced env) b s resolve" writes
    "\<lambda>uid d. \<exists>t listing. d = Moved uid t \<and> resolve listing = Some t" "\<forall>listing. resolve listing \<noteq> Some []"
  for env b s resolve
  by unfold_locales (rule moveUID_traced)

section \<open>Properties\<close>

lemma list_all2_eq_map: "list_all2 (\<lambda>u d. d = f u) us ds \<longleftrightarrow> ds = map f us"
  by (induction us arbitrary: ds) (auto simp: list_all2_Cons1)

lemma SetSeen_log:
  "case SetSeen (traced env) acquired mailbox validity uids seen (a, (w, [])) of
     (Inl e, (a', (w', log))) \<Rightarrow> log = []
   | (Inr rs, (a', (w', log))) \<Rightarrow> batch_shape uids rs \<and>
       log = map (\<lambda>r. Stored (r_UID r) seen) (filter dispatched rs)"
proof (cases "validateTriageRequest mailbox validity uids = None \<and> acquired = None")
  case False
  then show ?thesis by (auto simp: SetSeen_def split: option.split)
next
  case True
  obtain q st1 where o: "openTriageSource (traced env) mailbox validity (a, (w, [])) = (q, st1)" by (metis prod.exhaust)
  have w1: "writes st1 = []" using open_traced [OF o [unfolded openTriageSource_def]] by simp
  show ?thesis
  proof (cases q)
    case (Inl e)
    with True o w1 show ?thesis by (auto simp: SetSeen_def writes_def split: prod.split)
  next
    case (Inr s)
    obtain rs a2 w2 log where l: "seen_loop (storeSeen (traced env) s seen) uids st1 = (rs, (a2, (w2, log)))"
      by (metis prod.exhaust)
    from seen.seen_loop_results [OF TrueI l] w1 have "batch_shape uids rs"
      "log = map (\<lambda>u. Stored u seen) (map r_UID (filter dispatched rs))"
      by (simp_all add: list_all2_eq_map)
    with True o Inr l show ?thesis by (simp add: SetSeen_def comp_def)
  qed
qed

text \<open>
  For every environment, the results of \<^verbatim>\<open>SetSeen\<close> are one per requested UID in input order:
  settled ones, and then possibly one that stopped the batch, after which no UID was attempted. The
  STORE commands issued are exactly one for each UID that was applied, refused by a tagged response
  or left unknown, in that order, each with the requested flag value, and no other. A request that
  fails as a whole issued none.
\<close>

theorem SetSeen_writes:
  "case SetSeen (traced env) acquired mailbox validity uids seen (a, (w, [])) of
     (Inl e, (a', (w', log))) \<Rightarrow> log = []
   | (Inr rs, (a', (w', log))) \<Rightarrow> batch_shape uids rs \<and>
       log = map (\<lambda>r. Stored (r_UID r) seen) (filter dispatched rs)"
  by (rule SetSeen_log)

lemma move_batch_writes:
  assumes "\<forall>listing. resolve listing \<noteq> Some []"
    and run: "move_batch (traced env) b acquired mailbox validity uids resolve (a, (w, [])) = (q, st')"
  shows "case q of
     Inl e \<Rightarrow> (\<exists>before. prefix (map r_UID before) uids \<and> list_all (\<lambda>r. r_Outcome r = OutcomeRefused) before \<and>
        list_all2 (\<lambda>r d. \<exists>t listing. d = Moved (r_UID r) t \<and> resolve listing = Some t) (filter dispatched before) (writes st'))
   | Inr rs \<Rightarrow> batch_shape uids rs \<and> (\<exists>ds extra. writes st' = ds @ extra \<and>
       list_all2 (\<lambda>r d. \<exists>t listing. d = Moved (r_UID r) t \<and> resolve listing = Some t) (filter dispatched rs) ds \<and>
       (extra = [] \<or> list_ex (\<lambda>r. r_Code r = Some CodeUnsupported \<and> \<not> dispatched r \<and>
         (\<exists>t listing. extra = [Moved (r_UID r) t] \<and> resolve listing = Some t)) rs))"
proof -
  have quiet: ?thesis if "q = Inl e" "writes st' = []" for e
    unfolding that(1) sum.case by (rule exI [of _ "[]"]) (simp add: that(2))
  show ?thesis
  proof (cases acquired)
    case (Some e)
    with run show ?thesis by (intro quiet [of e]) (auto simp: move_batch_def)
  next
    case None
    obtain q1 a1 x1 where o: "openTriageSource (traced env) mailbox validity (a, (w, [])) = (q1, (a1, x1))" by (metis prod.exhaust)
    have w1: "snd x1 = []" using open_traced [OF o [unfolded openTriageSource_def]] by simp
    show ?thesis
    proof (cases q1)
      case (Inl e)
      with None o w1 run show ?thesis by (intro quiet [of e]) (auto simp: move_batch_def)
    next
      case (Inr s)
      consider "\<not> is_move_session (traced env) s" | "is_move_session (traced env) s" "\<not> supports_move (traced env) s x1"
        | "is_move_session (traced env) s" "supports_move (traced env) s x1" by blast
      then show ?thesis
      proof cases
        case 1
        with None o Inr w1 run show ?thesis by (intro quiet [of "BridgeError CodeIMAPProtocol"]) (auto simp: move_batch_def)
      next
        case 2
        with None o Inr w1 run have "q = Inr (refuseRemaining (pendingResults uids))" "writes st' = []"
          by (auto simp: move_batch_def)
        then show ?thesis by (simp add: batch_shape_def)
      next
        case 3
        with None o Inr run have l: "move_loop (moveUID (traced env) b s resolve) False uids (a1, x1) = (q, st')"
          by (simp add: move_batch_def)
        show ?thesis
        proof (cases q)
          case (Inl e)
          from mover.move_loop_Inl [OF assms(1) l [unfolded Inl]] w1 Inl show ?thesis
            by (simp add: list.rel_map)
        next
          case (Inr rs)
          have one: "(\<exists>d. ds = [d] \<and> (\<exists>t listing. d = Moved u t \<and> resolve listing = Some t)) \<longleftrightarrow>
              (\<exists>t listing. ds = [Moved u t] \<and> resolve listing = Some t)" for ds u by blast
          from mover.move_loop_Inr [OF assms(1) l [unfolded Inr], unfolded mover.moved_def one] w1 Inr show ?thesis
            by (simp add: list.rel_map)
        qed
      qed
    qed
  qed
qed

lemma identity_target: "mailboxIdentityMatches d n \<Longrightarrow> canonicalMailbox n = canonicalMailbox d"
  by (auto simp: mailboxIdentityMatches_def canonicalMailbox_def split: if_splits)

lemma resolve_target: "resolveMoveDestination listing d = Some t \<Longrightarrow> t = canonicalMailbox d"
  unfolding resolveMoveDestination_iff
  by (metis (mono_tags, lifting) filter_eq_Cons_iff identity_target list.set_intros(1))

lemma canonical_not_Nil: "d \<noteq> [] \<Longrightarrow> canonicalMailbox d \<noteq> []"
  by (simp add: canonicalMailbox_def)

lemma mapped_is_map: "list_all2 (\<lambda>r d. d = f r) rs ds \<longleftrightarrow> ds = map f rs"
  by (induction rs arbitrary: ds) (auto simp: list_all2_Cons1)

lemma Move_log:
  "case Move (traced env) b acquired mailbox validity uids destination (a, (w, [])) of
     (Inl e, (a', (w', log))) \<Rightarrow> (\<exists>before. prefix (map r_UID before) uids \<and>
       list_all (\<lambda>r. r_Outcome r = OutcomeRefused) before \<and>
       log = map (\<lambda>r. Moved (r_UID r) (canonicalMailbox destination)) (filter dispatched before))
   | (Inr rs, (a', (w', log))) \<Rightarrow> batch_shape uids rs \<and> (\<exists>extra.
       log = map (\<lambda>r. Moved (r_UID r) (canonicalMailbox destination)) (filter dispatched rs) @ extra \<and>
       (extra = [] \<or> list_ex (\<lambda>r. r_Code r = Some CodeUnsupported \<and> \<not> dispatched r \<and> extra = [Moved (r_UID r) (canonicalMailbox destination)]) rs))"
proof -
  let ?resolve = "\<lambda>listing. resolveMoveDestination listing destination"
  let ?m = "\<lambda>r. Moved (r_UID r) (canonicalMailbox destination)"
  obtain q a' w' log where run: "Move (traced env) b acquired mailbox validity uids destination (a, (w, [])) = (q, (a', (w', log)))"
    by (metis prod.exhaust)
  have early: ?thesis if "q = Inl e" "log = []" for e
    unfolding run that prod.case sum.case by (rule exI [of _ "[]"]) simp
  show ?thesis
  proof (cases "validateTriageRequest mailbox validity uids = None \<and> validateMoveDestination destination = None")
    case False
    then obtain c where "validateTriageRequest mailbox validity uids = Some c \<or>
        validateTriageRequest mailbox validity uids = None \<and> validateMoveDestination destination = Some c"
      by (metis not_None_eq)
    with run have "q = Inl (BridgeError c)" "log = []" by (elim disjE conjE; simp add: Move_def)+
    then show ?thesis by (rule early)
  next
    case valid: True
    show ?thesis
    proof (cases "mailboxIdentityMatches mailbox destination")
      case True
      with run valid have "q = Inr (refuseRemaining (pendingResults uids))" "log = []" by (simp_all add: Move_def)
      with run show ?thesis by (simp add: batch_shape_def)
    next
      case False
      with run valid have m: "move_batch (traced env) b acquired mailbox validity uids ?resolve (a, (w, [])) = (q, (a', (w', log)))"
        by (simp add: Move_def)
      have "destination \<noteq> []" using valid by (auto simp: validateMoveDestination_def)
      then have ne: "\<forall>listing. ?resolve listing \<noteq> Some []" using resolve_target canonical_not_Nil by metis
      have one: "list_all2 (\<lambda>r d. \<exists>t listing. d = Moved (r_UID r) t \<and> ?resolve listing = Some t) rs ds \<Longrightarrow> ds = map ?m rs" for rs ds
        by (subst mapped_is_map [symmetric], erule list_all2_mono) (auto dest: resolve_target)
      note M = move_batch_writes [OF ne m]
      show ?thesis
      proof (cases q)
        case (Inl e)
        with M obtain before where "prefix (map r_UID before) uids" "list_all (\<lambda>r. r_Outcome r = OutcomeRefused) before"
          "list_all2 (\<lambda>r d. \<exists>t listing. d = Moved (r_UID r) t \<and> ?resolve listing = Some t) (filter dispatched before) log"
          by auto
        with one show ?thesis unfolding run Inl prod.case sum.case by blast
      next
        case (Inr rs)
        with M obtain ds extra where "batch_shape uids rs" "log = ds @ extra"
          "list_all2 (\<lambda>r d. \<exists>t listing. d = Moved (r_UID r) t \<and> ?resolve listing = Some t) (filter dispatched rs) ds"
          "extra = [] \<or> list_ex (\<lambda>r. r_Code r = Some CodeUnsupported \<and> \<not> dispatched r \<and> (\<exists>t listing. extra = [Moved (r_UID r) t] \<and> ?resolve listing = Some t)) rs"
          by auto
        moreover have "extra = [] \<or> list_ex (\<lambda>r. r_Code r = Some CodeUnsupported \<and> \<not> dispatched r \<and> extra = [Moved (r_UID r) (canonicalMailbox destination)]) rs"
          using calculation(4) by (auto simp: list_ex_iff dest: resolve_target)
        ultimately show ?thesis using one unfolding run Inr prod.case sum.case by blast
      qed
    qed
  qed
qed

text \<open>
  C13. For every environment, a \<^verbatim>\<open>Move\<close> whose request is accepted issues MOVE commands to one mailbox
  only, the requested destination. Its results are one per UID in input order, as those of
  \<^verbatim>\<open>SetSeen\<close>; the commands issued are exactly one for each UID that was applied, refused by a tagged
  response or left unknown, in that order, and at most one more at the end, for a UID that the session
  reported as unsupported. A request that fails as a whole issued commands only for UIDs the
  server refused by a tagged response, a prefix of the input.
\<close>

theorem Move_writes:
  "case Move (traced env) b acquired mailbox validity uids destination (a, (w, [])) of
     (Inl e, (a', (w', log))) \<Rightarrow> (\<exists>before. prefix (map r_UID before) uids \<and>
       list_all (\<lambda>r. r_Outcome r = OutcomeRefused) before \<and>
       log = map (\<lambda>r. Moved (r_UID r) (canonicalMailbox destination)) (filter dispatched before))
   | (Inr rs, (a', (w', log))) \<Rightarrow> batch_shape uids rs \<and> (\<exists>extra.
       log = map (\<lambda>r. Moved (r_UID r) (canonicalMailbox destination)) (filter dispatched rs) @ extra \<and>
       (extra = [] \<or> list_ex (\<lambda>r. r_Code r = Some CodeUnsupported \<and> \<not> dispatched r \<and> extra = [Moved (r_UID r) (canonicalMailbox destination)]) rs))"
  by (rule Move_log)

lemma repeated_uid_iff: "repeated_uid uids S \<longleftrightarrow> 0 \<in> set uids \<or> \<not> distinct uids \<or> set uids \<inter> S \<noteq> {}"
  by (induction uids arbitrary: S) auto

text \<open>
  \<^verbatim>\<open>validateTriageRequest\<close> accepts exactly a named mailbox of bounded length and a generation with one
  to fifty distinct, positive UIDs; an accepted batch therefore never names a UID twice.
\<close>

theorem validateTriageRequest_exact:
  "validateTriageRequest mailbox validity uids = None \<longleftrightarrow>
     mailbox \<noteq> [] \<and> length mailbox \<le> maxMailboxNameBytes \<and> validity \<noteq> 0 \<and>
     1 \<le> length uids \<and> length uids \<le> MaxTriageUIDs \<and> distinct uids \<and> 0 \<notin> set uids"
  by (auto simp: validateTriageRequest_def repeated_uid_iff Suc_le_eq)

text \<open>
  \<^verbatim>\<open>Archive\<close> and \<^verbatim>\<open>Trash\<close> take the target's name from the listing. As long as no listing has a mailbox
  of empty name, they resolve like a resolver that never yields one.
\<close>

definition names_present :: "'w session_env \<Rightarrow> bool" where
  "names_present env \<longleftrightarrow> (\<forall>s p n w listing w'. list_mailboxes env s p n w = (Inr listing, w') \<longrightarrow>
     list_all (\<lambda>mb. mb_Name mb \<noteq> []) listing)"

lemma moveUID_cong:
  assumes "\<And>s p n x l x'. list_mailboxes env s p n x = (Inr l, x') \<Longrightarrow> resolve l = resolve' l"
  shows "moveUID env b s resolve = moveUID env b s resolve'"
proof (intro ext)
  fix uid st
  have "prepareMove env b s resolve uid st = prepareMove env b s resolve' uid st"
    by (auto simp: prepareMove_def split: prod.split sum.split dest: assms)
  then show "moveUID env b s resolve uid st = moveUID env b s resolve' uid st"
    by (simp add: moveUID_def)
qed

lemma move_batch_cong:
  assumes "\<And>s p n x l x'. list_mailboxes env s p n x = (Inr l, x') \<Longrightarrow> resolve l = resolve' l"
  shows "move_batch env b acquired mailbox validity uids resolve = move_batch env b acquired mailbox validity uids resolve'"
proof -
  have m: "moveUID env b s resolve = moveUID env b s resolve'" for s
    by (rule moveUID_cong) (rule assms)
  show ?thesis unfolding move_batch_def m by (rule refl)
qed

lemma attribute_target:
  assumes "list_all (\<lambda>mb. mb_Name mb \<noteq> []) listing" "resolveAttributeDestination listing attribute = Some t"
  shows "t \<noteq> []"
proof -
  from assms(2) obtain mb where mb: "filter (\<lambda>m. hasAttribute (mb_Attributes m) [attribute]) listing = [mb]"
    "resolveMoveDestination listing (mb_Name mb) = Some t" unfolding resolveAttributeDestination_iff by blast
  have "mb_Name mb \<noteq> []" using assms(1) filter_single_member [OF mb(1)] by (simp add: list_all_iff)
  with resolve_target [OF mb(2)] canonical_not_Nil show ?thesis by simp
qed

lemma attribute_log:
  assumes "names_present env"
  shows "case moveToAttribute (traced env) b acquired attribute mailbox validity uids (a, (w, [])) of
     (Inl e, st') \<Rightarrow> (\<exists>before. prefix (map r_UID before) uids \<and> list_all (\<lambda>r. r_Outcome r = OutcomeRefused) before \<and>
        list_all2 (\<lambda>r d. \<exists>t listing. d = Moved (r_UID r) t \<and> resolveAttributeDestination listing attribute = Some t \<and>
          \<not> mailboxIdentityMatches mailbox t) (filter dispatched before) (writes st'))
   | (Inr rs, st') \<Rightarrow> batch_shape uids rs \<and> (\<exists>ds extra. writes st' = ds @ extra \<and>
       list_all2 (\<lambda>r d. \<exists>t listing. d = Moved (r_UID r) t \<and> resolveAttributeDestination listing attribute = Some t \<and>
          \<not> mailboxIdentityMatches mailbox t) (filter dispatched rs) ds \<and>
       (extra = [] \<or> list_ex (\<lambda>r. r_Code r = Some CodeUnsupported \<and> \<not> dispatched r \<and> (\<exists>t listing. extra = [Moved (r_UID r) t] \<and>
          resolveAttributeDestination listing attribute = Some t \<and> \<not> mailboxIdentityMatches mailbox t)) rs))"
proof -
  let ?res = "attribute_resolver mailbox attribute"
  let ?res' = "\<lambda>listing. if ?res listing = Some [] then None else ?res listing"
  let ?P = "\<lambda>r d. \<exists>t listing. d = Moved (r_UID r) t \<and> resolveAttributeDestination listing attribute = Some t \<and>
          \<not> mailboxIdentityMatches mailbox t"
  let ?Q = "\<lambda>r d. \<exists>t listing. d = Moved (r_UID r) t \<and> ?res' listing = Some t"
  obtain q st' where run: "moveToAttribute (traced env) b acquired attribute mailbox validity uids (a, (w, [])) = (q, st')"
    by (metis prod.exhaust)
  have mono: "list_all2 ?P rs ds" if "list_all2 ?Q rs ds" for rs ds
    using that by (rule list_all2_mono) (auto simp: attribute_resolver_def split: option.splits if_splits)
  show ?thesis
  proof (cases "validateTriageRequest mailbox validity uids")
    case (Some c)
    with run have q: "q = Inl (BridgeError c)" and w: "writes st' = []" by (auto simp: moveToAttribute_def)
    show ?thesis unfolding run q prod.case sum.case by (rule exI [of _ "[]"]) (simp add: w)
  next
    case None
    have same: "?res l = ?res' l" if "list_mailboxes (traced env) s p n x = (Inr l, x')" for s p n x l x'
    proof -
      from that obtain w1 where "list_mailboxes env s p n (fst x) = (Inr l, w1)"
        by (auto simp: traced_def lift_world_def split: prod.splits)
      with assms have "list_all (\<lambda>mb. mb_Name mb \<noteq> []) l" unfolding names_present_def by blast
      from attribute_target [OF this] have "?res l \<noteq> Some []"
        by (auto simp: attribute_resolver_def split: option.splits)
      then show ?thesis by simp
    qed
    have e: "move_batch (traced env) b acquired mailbox validity uids ?res = move_batch (traced env) b acquired mailbox validity uids ?res'"
      by (rule move_batch_cong) (rule same)
    from run None have "move_batch (traced env) b acquired mailbox validity uids ?res (a, (w, [])) = (q, st')"
      by (simp add: moveToAttribute_def)
    then have m: "move_batch (traced env) b acquired mailbox validity uids ?res' (a, (w, [])) = (q, st')"
      unfolding e .
    have "\<forall>listing. ?res' listing \<noteq> Some []" by simp
    note M = move_batch_writes [OF this m]
    show ?thesis
    proof (cases q)
      case (Inl e)
      with M mono show ?thesis unfolding run Inl prod.case sum.case by blast
    next
      case (Inr rs)
      with M obtain ds extra where m: "batch_shape uids rs" "writes st' = ds @ extra" "list_all2 ?Q (filter dispatched rs) ds"
        "extra = [] \<or> list_ex (\<lambda>r. r_Code r = Some CodeUnsupported \<and> \<not> dispatched r \<and>
           (\<exists>t listing. extra = [Moved (r_UID r) t] \<and> ?res' listing = Some t)) rs" by auto
      have "?res' listing = Some t \<Longrightarrow> resolveAttributeDestination listing attribute = Some t \<and> \<not> mailboxIdentityMatches mailbox t"
        for listing t by (auto simp: attribute_resolver_def split: option.splits if_splits)
      with m(4) have "extra = [] \<or> list_ex (\<lambda>r. r_Code r = Some CodeUnsupported \<and> \<not> dispatched r \<and>
          (\<exists>t listing. extra = [Moved (r_UID r) t] \<and> resolveAttributeDestination listing attribute = Some t \<and>
             \<not> mailboxIdentityMatches mailbox t)) rs" unfolding list_ex_iff by blast
      with m mono show ?thesis unfolding run Inr prod.case sum.case by blast
    qed
  qed
qed

text \<open>
  When every listing names its mailboxes, \<^verbatim>\<open>Archive\<close> and \<^verbatim>\<open>Trash\<close> have the results and the writes of a
  \<^verbatim>\<open>Move\<close>, except that each command goes to a mailbox that some listing resolves the attribute to and
  that is not the source.
\<close>

theorem moveToAttribute_writes:
  assumes "names_present env"
  shows "case moveToAttribute (traced env) b acquired attribute mailbox validity uids (a, (w, [])) of
     (Inl e, st') \<Rightarrow> (\<exists>before. prefix (map r_UID before) uids \<and> list_all (\<lambda>r. r_Outcome r = OutcomeRefused) before \<and>
        list_all2 (\<lambda>r d. \<exists>t listing. d = Moved (r_UID r) t \<and> resolveAttributeDestination listing attribute = Some t \<and>
          \<not> mailboxIdentityMatches mailbox t) (filter dispatched before) (writes st'))
   | (Inr rs, st') \<Rightarrow> batch_shape uids rs \<and> (\<exists>ds extra. writes st' = ds @ extra \<and>
       list_all2 (\<lambda>r d. \<exists>t listing. d = Moved (r_UID r) t \<and> resolveAttributeDestination listing attribute = Some t \<and>
          \<not> mailboxIdentityMatches mailbox t) (filter dispatched rs) ds \<and>
       (extra = [] \<or> list_ex (\<lambda>r. r_Code r = Some CodeUnsupported \<and> \<not> dispatched r \<and> (\<exists>t listing. extra = [Moved (r_UID r) t] \<and>
          resolveAttributeDestination listing attribute = Some t \<and> \<not> mailboxIdentityMatches mailbox t)) rs))"
  by (rule attribute_log [OF assms])

section \<open>Samples\<close>

text \<open>A mailbox that has every UID asked for, in an account with the listing given.\<close>

definition triage_env :: "listedMailbox list \<Rightarrow> nat session_env" where
  "triage_env listing = sample_env\<lparr>list_mailboxes := (\<lambda>s p n w. (Inr listing, w + 1)),
     search_window := (\<lambda>s q u n w. (Inr [Start u], w + 1))\<rparr>"

theorem moveToAttribute_writes_witness:
  "\<exists>st'. moveToAttribute (traced (triage_env sample_listing)) defaultBounds None (attribute_named ''Archive'') ''INBOX'' 9 [7, 8]
      (newAdapter, (0, [])) =
     (Inr [triage_result 7 OutcomeApplied None, triage_result 8 OutcomeApplied None], st') \<and>
   writes st' = [Moved 7 ''Old'', Moved 8 ''Old''] \<and>
   batch_shape [7, 8] [triage_result 7 OutcomeApplied None, triage_result 8 OutcomeApplied None]"
proof -
  let ?r = "moveToAttribute (traced (triage_env sample_listing)) defaultBounds None (attribute_named ''Archive'') ''INBOX'' 9 [7, 8]
      (newAdapter, (0, []))"
  have names: "names_present (triage_env sample_listing)"
    by (simp add: names_present_def triage_env_def sample_listing_def)
  have f: "fst ?r = Inr [triage_result 7 OutcomeApplied None, triage_result 8 OutcomeApplied None]" by code_simp
  have w: "writes (snd ?r) = [Moved 7 ''Old'', Moved 8 ''Old'']" by code_simp
  obtain st' where r: "?r = (Inr [triage_result 7 OutcomeApplied None, triage_result 8 OutcomeApplied None], st')"
    using f by (metis prod.collapse)
  from moveToAttribute_writes [OF names, where b = defaultBounds and acquired = None and
      attribute = "attribute_named ''Archive''" and mailbox = "''INBOX''" and validity = 9 and uids = "[7, 8]" and
      a = newAdapter and w = 0]
  have "batch_shape [7, 8] [triage_result 7 OutcomeApplied None, triage_result 8 OutcomeApplied None]"
    unfolding r prod.case sum.case by blast
  with r w show ?thesis by auto
qed

text \<open>
  A listing whose only holder of \<^verbatim>\<open>\Archive\<close> has the empty name resolves to the empty target, which
  \<^verbatim>\<open>moveUID\<close> takes for a refusal: the caller gets the zero \<^verbatim>\<open>TriageResult\<close>, with UID 0 and no outcome,
  for the UID it asked to archive.
\<close>

theorem archive_empty_name_result:
  "fst (Archive (traced (triage_env [\<lparr>mb_Name = [], mb_Delimiter = 47, mb_Attributes = [attribute_named ''Archive'']\<rparr>]))
     defaultBounds None ''INBOX'' 9 [7] (newAdapter, (0, []))) = Inr [zeroResult]"
  by code_simp

end
