(* ===== verification/Tool_Safety.thy ===== *)
theory Tool_Safety
  imports Tool_Threads Triage_Safety
begin

text \<open>
  The Mail tools over the adapter: what \<^verbatim>\<open>search_mail\<close> shows of a page and what its identifiers resolve to,
  what the triage tools write and report, and what a tool call sends to the client and to the audit log.
\<close>

section \<open>Search\<close>

text \<open>The adapter as the provider of \<^verbatim>\<open>SearchMailPage\<close> and of the triage interface.\<close>

definition adapter_search :: "'w session_env \<Rightarrow> (bytes \<Rightarrow> bytes) \<Rightarrow> Bounds \<Rightarrow> go_error option \<Rightarrow> 'w adapter_state mail_api \<Rightarrow>
    'w adapter_state mail_api" where
  "adapter_search env mac b acquired api = api\<lparr>ma_SearchMailPage := SearchMailPage env mac b acquired\<rparr>"

definition adapter_triage :: "'w session_env \<Rightarrow> Bounds \<Rightarrow> go_error option \<Rightarrow> 'w adapter_state mail_api \<Rightarrow>
    'w adapter_state mail_api" where
  "adapter_triage env b acquired api = api\<lparr>ma_Triage := Some \<lparr>ta_SetSeen = SetSeen env acquired, ta_Move = Move env b acquired,
     ta_Archive = Archive env b acquired, ta_Trash = Trash env b acquired\<rparr>\<rparr>"

lemma flat_loop_Inr:
  "flat_loop env limit items results = Inr (rs, limited) \<Longrightarrow> int (length results) \<le> limit \<Longrightarrow>
     \<exists>n. rs = results @ map (newMessageResult env) (take n items) \<and> int (length rs) \<le> limit \<and>
       list_all validReadIdentity (take n items) \<and> (limited \<longleftrightarrow> n < length items) \<and> n \<le> length items"
proof (induction items arbitrary: results)
  case Nil
  then show ?case by (intro exI [of _ 0]) simp
next
  case (Cons item items)
  show ?case
  proof (cases "int (length results) = limit")
    case True
    with Cons.prems show ?thesis by (intro exI [of _ 0]) simp
  next
    case False
    with Cons.prems(1) have v: "validReadIdentity item"
      and l: "flat_loop env limit items (results @ [newMessageResult env item]) = Inr (rs, limited)"
      by (simp_all split: if_splits)
    have "int (length (results @ [newMessageResult env item])) \<le> limit" using Cons.prems(2) False by simp
    from Cons.IH [OF l this] obtain n where "rs = (results @ [newMessageResult env item]) @ map (newMessageResult env) (take n items)"
      "int (length rs) \<le> limit" "list_all validReadIdentity (take n items)" "limited \<longleftrightarrow> n < length items" "n \<le> length items" by blast
    with v show ?thesis by (intro exI [of _ "Suc n"]) simp
  qed
qed

lemma flatMessageResults_Inr:
  assumes "flatMessageResults env messages limit = Inr (rs, limited)" and "0 \<le> limit"
  shows "\<exists>n. rs = map (newMessageResult env) (take n messages) \<and> int (length rs) \<le> limit \<and>
    list_all validReadIdentity (take n messages) \<and> (limited \<longleftrightarrow> n < length messages) \<and> n \<le> length messages"
  using flat_loop_Inr [of env limit messages "[]"] assms by (simp add: flatMessageResults_def)

lemma newMessageResult_identity [simp]:
  "mr_ID (newMessageResult env m) = m_ID m" "mr_Mailbox (newMessageResult env m) = m_Mailbox m"
  "mr_UIDValidity (newMessageResult env m) = m_UIDValidity m" "mr_UID (newMessageResult env m) = m_UID m"
  by (simp_all add: newMessageResult_def Let_def split: prod.split)

lemma clampLimit_range: "clampLimit v fallback ceiling' = Some n \<Longrightarrow> 0 < fallback \<Longrightarrow> fallback \<le> ceiling' \<Longrightarrow> 0 < n \<and> n \<le> ceiling'"
  by (auto simp: clampLimit_def split: option.splits if_splits)

lemma SearchMailPage_page:
  assumes "SearchMailPage env mac b acquired query (a, w) = (Inr page, st')"
  shows "sorted_wrt (>) (map m_UID (Messages page)) \<and>
    (\<exists>validity. list_all (page_item mac (sq_Mailbox query) validity) (Messages page))"
  using assms
proof (rule SearchMailPage_Inr)
  fix s x snapshot x1 st x2
  assume b: "2 \<le> MaxOutputBytes b"
    and sw: "search_windows env mac b s query (UIDValidity snapshot) maxSearchWindows
       \<lparr>attemptResults = [], attemptOutputBytes = 2, omitted = False, remaining_uids = UIDNext snapshot\<rparr> x1 = (Inr st, x2)"
    and page: "page = \<lparr>Messages = attemptResults st, Truncated = (omitted st \<or> 1 < remaining_uids st)\<rparr>"
  have "page_inv mac (sq_Mailbox query) (UIDValidity snapshot) b (UIDNext snapshot) st"
    using search_windows_inv [OF sw page_inv_init [OF b]] by blast
  with page show ?thesis by (auto simp: page_inv_def attempt_uids_def)
qed

text \<open>What the rows of a result have in common, for the messages of one page.\<close>

definition rows_of_page :: "tool_env \<Rightarrow> (bytes \<Rightarrow> bytes) \<Rightarrow> bytes \<Rightarrow> SearchPage \<Rightarrow> messageResult list \<Rightarrow> bool \<Rightarrow> bool" where
  "rows_of_page tenv mac mailbox page rows limited \<longleftrightarrow>
     rows = map (newMessageResult tenv) (take (length rows) (Messages page)) \<and> sorted_wrt (>) (map mr_UID rows) \<and>
     (limited \<longleftrightarrow> Truncated page \<or> length rows < length (Messages page)) \<and>
     list_all (\<lambda>r. mr_UIDValidity r \<noteq> 0 \<and> mr_UID r \<noteq> 0 \<and> mr_Mailbox r = mailbox \<and>
       encodeMessageID mac \<lparr>p_Mailbox = mailbox, p_UIDValidity = mr_UIDValidity r, p_UID = mr_UID r\<rparr> = Inr (mr_ID r)) rows"

lemma page_rows:
  assumes "SearchMailPage env mac b acquired query (a, w) = (Inr page, st')"
    and "flatMessageResults tenv (Messages page) limit = Inr (rows, limited)" and "0 \<le> limit"
  shows "rows_of_page tenv mac (sq_Mailbox query) page rows (Truncated page \<or> limited) \<and> int (length rows) \<le> limit"
proof -
  from flatMessageResults_Inr [OF assms(2,3)] obtain n where n: "rows = map (newMessageResult tenv) (take n (Messages page))"
    "int (length rows) \<le> limit" "list_all validReadIdentity (take n (Messages page))"
    "limited \<longleftrightarrow> n < length (Messages page)" "n \<le> length (Messages page)" by blast
  then have len: "length rows = n" by simp
  from SearchMailPage_page [OF assms(1)] obtain validity where s: "sorted_wrt (>) (map m_UID (Messages page))"
    and p: "list_all (page_item mac (sq_Mailbox query) validity) (Messages page)" by blast
  have "map mr_UID rows = take n (map m_UID (Messages page))" using n(1) by (simp add: take_map comp_def)
  then have "sorted_wrt (>) (map mr_UID rows)" using s by (metis sorted_wrt_take)
  moreover have "mr_UIDValidity r \<noteq> 0 \<and> mr_UID r \<noteq> 0 \<and> mr_Mailbox r = sq_Mailbox query \<and>
      encodeMessageID mac \<lparr>p_Mailbox = sq_Mailbox query, p_UIDValidity = mr_UIDValidity r, p_UID = mr_UID r\<rparr> = Inr (mr_ID r)"
    if "r \<in> set rows" for r
  proof -
    from that n(1) obtain m where m: "m \<in> set (take n (Messages page))" "r = newMessageResult tenv m" by auto
    from m(1) n(3) have "validReadIdentity m" by (simp add: list_all_iff)
    moreover from m(1) p have "page_item mac (sq_Mailbox query) validity m" by (auto simp: list_all_iff dest: in_set_takeD)
    ultimately show ?thesis by (auto simp: m(2) validReadIdentity_def page_item_def)
  qed
  ultimately show ?thesis using n(2,4) len n(1) by (auto simp: rows_of_page_def list_all_iff)
qed

text \<open>
  C18. What \<^verbatim>\<open>search_mail\<close> answers over the adapter, for every session: one page of the mailbox the client
  named was read, and the rows are its first messages, in strictly descending UID order and at most 250
  of them; each row's identifier is the authenticated encoding of the row's own mailbox, UIDVALIDITY and
  UID, none of which is missing; and the result is flagged truncated exactly when the page was or when
  a message of the page is left out. No other result is ever returned.
\<close>

theorem search_mail_rows:
  "case runSearchMail tenv (adapter_search env mac b acquired api) arguments (a, w) of
     (Inr (SearchResult r), st') \<Rightarrow> length (sr_Results r) \<le> 250 \<and>
       (\<exists>query page. decodeArguments tenv (te_decode_search tenv) arguments = Some query \<and>
          rows_of_page tenv mac (si_mailbox query) page (sr_Results r) (sr_Truncated r) \<and>
          (\<exists>q. sq_Mailbox q = si_mailbox query \<and> sq_Sender q = si_sender query \<and> sq_Subject q = si_subject query \<and>
             sq_Unread q = si_unreadOnly query \<and> SearchMailPage env mac b acquired q (a, w) = (Inr page, st')))
   | (Inr _, st') \<Rightarrow> False
   | (Inl c, st') \<Rightarrow> True"
proof (cases "decodeArguments tenv (te_decode_search tenv) arguments")
  case None
  then show ?thesis by (simp add: runSearchMail_def)
next
  case (Some input)
  show ?thesis
  proof (cases "validMailboxArgument (si_mailbox input) \<and> length (si_sender input) \<le> maxSearchTermBytes \<and>
      length (si_subject input) \<le> maxSearchTermBytes \<and> parseTimestamp tenv (si_since input) \<noteq> None \<and>
      parseTimestamp tenv (si_before input) \<noteq> None \<and> clampLimit (si_limit input) 50 250 \<noteq> None")
    case False
    with Some show ?thesis by (auto simp: runSearchMail_def split: option.splits)
  next
    case True
    then obtain since before limit where v: "validMailboxArgument (si_mailbox input)" "length (si_sender input) \<le> maxSearchTermBytes"
      "length (si_subject input) \<le> maxSearchTermBytes" "parseTimestamp tenv (si_since input) = Some since"
      "parseTimestamp tenv (si_before input) = Some before" and l: "clampLimit (si_limit input) 50 250 = Some limit" by auto
    have limit: "0 \<le> limit" "limit \<le> 250" using clampLimit_range [OF l] by auto
    let ?q = "\<lparr>sq_Mailbox = si_mailbox input, sq_Since = since, sq_Before = before, sq_Sender = si_sender input,
      sq_Subject = si_subject input, sq_Unread = si_unreadOnly input\<rparr>"
    obtain x st' where x: "SearchMailPage env mac b acquired ?q (a, w) = (x, st')" by (metis prod.exhaust)
    note run = runSearchMail_def adapter_search_def on_success_def
    show ?thesis
    proof (cases x)
      case (Inl e)
      with Some v l x show ?thesis by (simp add: run)
    next
      case (Inr page)
      show ?thesis
      proof (cases "flatMessageResults tenv (Messages page) limit")
        case (Inl c)
        with Some v l x Inr show ?thesis by (simp add: run)
      next
        case (Inr y)
        obtain rows limited where y: "y = (rows, limited)" by (metis prod.exhaust)
        let ?r = "\<lparr>sr_Results = rows, sr_Truncated = (Truncated page \<or> limited)\<rparr>"
        have e: "runSearchMail tenv (adapter_search env mac b acquired api) arguments (a, w) = (Inr (SearchResult ?r), st')"
          using Some v l x \<open>x = Inr page\<close> Inr y by (simp add: run)
        from page_rows [OF x [unfolded \<open>x = Inr page\<close>] Inr [unfolded y] limit(1)] limit(2)
        have r: "rows_of_page tenv mac (si_mailbox input) page rows (Truncated page \<or> limited)" "length rows \<le> 250" by simp_all
        show ?thesis
          unfolding e prod.case sum.case tool_result.case
          by (intro conjI exI [of _ input] exI [of _ page] exI [of _ ?q]) (simp_all add: r Some x \<open>x = Inr page\<close>)
      qed
    qed
  qed
qed

section \<open>Triage\<close>

lemma distinct_uids_iff: "distinct_uids uids S \<longleftrightarrow> \<not> repeated_uid uids S"
  by (induction uids arbitrary: S) auto

text \<open>
  The two validations of a triage request, that of the tool and that of the adapter, accept the same
  requests: a non-empty mailbox of at most 512 bytes, a UIDVALIDITY, and one to fifty different non-zero
  UIDs. The adapter therefore never rejects arguments that the tool let through.
\<close>

theorem triage_input_agrees:
  "validTriageInput input \<longleftrightarrow> validateTriageRequest (gi_mailbox input) (gi_uidvalidity input) (gi_uids input) = None"
  by (simp add: validTriageInput_def validateTriageRequest_def validMailboxArgument_def distinct_uids_iff)

lemma valid_distinct: "validTriageInput input \<Longrightarrow> distinct (gi_uids input)"
  by (simp add: validTriageInput_def distinct_uids_iff repeated_uid_iff)

text \<open>The row of a result.\<close>

definition row_of :: "TriageResult \<Rightarrow> triageResultRow" where
  "row_of r = \<lparr>tr_UID = r_UID r, tr_Outcome = sanitizeTriageOutcome (r_Outcome r),
     tr_Code = (case r_Code r of None \<Rightarrow> [] | Some c \<Rightarrow> tool_code_text (mapAdapterError (BridgeError c)))\<rparr>"

lemma triage_rows_all: "map r_UID rs = uids \<Longrightarrow> triage_rows uids rs = Some (map row_of rs)"
  by (induction rs arbitrary: uids) (auto simp: row_of_def)

lemma triageResults_all: "map r_UID rs = uids \<Longrightarrow> triageResults uids rs = Inr (TriageResults (map row_of rs))"
  using triage_rows_all [of rs uids] map_eq_imp_length_eq [of r_UID rs id uids] by (simp add: triageResults_def)

definition known_outcome :: "bytes \<Rightarrow> bool" where
  "known_outcome out \<longleftrightarrow> out \<in> {OutcomeApplied, OutcomeRefused, OutcomeNotAttempted, OutcomeUnknown}"

lemma batch_outcomes:
  assumes "batch_shape uids rs" "r \<in> set rs"
  shows "known_outcome (r_Outcome r)"
proof -
  have settled: "list_all settled xs \<Longrightarrow> x \<in> set xs \<Longrightarrow> known_outcome (r_Outcome x)" for xs x
    by (auto simp: list_all_iff settled_def known_outcome_def)
  have rest: "untouched q xs \<Longrightarrow> x \<in> set xs \<Longrightarrow> known_outcome (r_Outcome x)" for q xs x
  proof -
    assume u: "untouched q xs" and x: "x \<in> set xs"
    have "\<exists>ys. xs = pendingResults ys \<or> xs = refuseRemaining xs" using u by (auto simp: untouched_def)
    then show ?thesis
    proof (elim exE disjE)
      fix ys assume "xs = pendingResults ys"
      with x show ?thesis by (auto simp: pendingResults_def known_outcome_def)
    next
      assume e: "xs = refuseRemaining xs"
      have "list_all settled xs" by (subst e) simp
      with x settled show ?thesis by blast
    qed
  qed
  from assms(1) show ?thesis unfolding batch_shape_def
  proof (elim conjE disjE exE)
    assume "list_all settled rs"
    with assms(2) settled show ?thesis by blast
  next
    fix before q rest1 assume rs: "rs = before @ q # rest1" "list_all settled before" "stopping q" "untouched q rest1"
    consider "r \<in> set before" | "r = q" | "r \<in> set rest1" using assms(2) rs(1) by auto
    then show ?thesis
      by cases (use rs settled rest in \<open>auto simp: stopping_def known_outcome_def\<close>)
  qed
qed

lemma row_outcome: "known_outcome (r_Outcome r) \<Longrightarrow> tr_Outcome (row_of r) = r_Outcome r"
  by (auto simp: row_of_def sanitizeTriageOutcome_def known_outcome_def)

lemma row_uid [simp]: "tr_UID (row_of r) = r_UID r"
  by (simp add: row_of_def)

lemma subseq_filter_mono: "(\<And>x. x \<in> set xs \<Longrightarrow> P x \<Longrightarrow> Q x) \<Longrightarrow> subseq (filter P xs) (filter Q xs)"
  by (induction xs) auto

text \<open>The rows that say that the server was told to write, and those that say that it may have been.\<close>

definition row_written :: "triageResultRow \<Rightarrow> bool" where
  "row_written r \<longleftrightarrow> tr_Outcome r = OutcomeApplied \<or> tr_Outcome r = OutcomeUnknown"

definition row_attempted :: "triageResultRow \<Rightarrow> bool" where
  "row_attempted r \<longleftrightarrow> tr_Outcome r \<noteq> OutcomeNotAttempted"

lemma rows_of_batch:
  assumes "batch_shape uids rs"
  shows "map tr_UID (map row_of rs) = uids" and "list_all (\<lambda>r. known_outcome (tr_Outcome r)) (map row_of rs)"
    and "subseq (map (f \<circ> tr_UID) (filter row_written (map row_of rs))) (map (\<lambda>r. f (r_UID r)) (filter dispatched rs))"
    and "subseq (map (\<lambda>r. f (r_UID r)) (filter dispatched rs)) (map (f \<circ> tr_UID) (filter row_attempted (map row_of rs)))"
proof -
  note out = row_outcome [OF batch_outcomes [OF assms]]
  show "map tr_UID (map row_of rs) = uids" using assms by (simp add: batch_shape_def comp_def)
  show "list_all (\<lambda>r. known_outcome (tr_Outcome r)) (map row_of rs)"
    using batch_outcomes [OF assms] out by (simp add: list_all_iff)
  have "subseq (filter (row_written \<circ> row_of) rs) (filter dispatched rs)"
    by (rule subseq_filter_mono) (auto simp: row_written_def out dispatched_def)
  from subseq_map [OF this, of "\<lambda>r. f (r_UID r)"]
  show "subseq (map (f \<circ> tr_UID) (filter row_written (map row_of rs))) (map (\<lambda>r. f (r_UID r)) (filter dispatched rs))"
    by (simp add: filter_map comp_def)
  have "subseq (filter dispatched rs) (filter (row_attempted \<circ> row_of) rs)"
    by (rule subseq_filter_mono) (auto simp: row_attempted_def out dispatched_def)
  from subseq_map [OF this, of "\<lambda>r. f (r_UID r)"]
  show "subseq (map (\<lambda>r. f (r_UID r)) (filter dispatched rs)) (map (f \<circ> tr_UID) (filter row_attempted (map row_of rs)))"
    by (simp add: filter_map comp_def)
qed

text \<open>
  C19. What \<^verbatim>\<open>mark_read\<close> and \<^verbatim>\<open>mark_unread\<close> write and report over the adapter, for every session. A call that
  ends in an error wrote nothing. A result has one row per requested UID, in the order asked for, with
  one of the four outcomes; every UID reported applied or unknown had exactly its STORE issued, and every
  STORE issued was for one requested UID that is not reported as not attempted, in that order, with the
  flag value of the tool.
\<close>

theorem mark_tools_report:
  "case runSetSeen seen tenv (adapter_triage (traced env) b acquired api) arguments (a, (w, [])) of
     (Inl c, (a', (w', log))) \<Rightarrow> log = []
   | (Inr (TriageResults rows), (a', (w', log))) \<Rightarrow>
       (\<exists>input. decodeArguments tenv (te_decode_triage tenv) arguments = Some input \<and> map tr_UID rows = gi_uids input) \<and>
       distinct (map tr_UID rows) \<and> list_all (\<lambda>r. known_outcome (tr_Outcome r)) rows \<and>
       subseq (map ((\<lambda>u. Stored u seen) \<circ> tr_UID) (filter row_written rows)) log \<and>
       subseq log (map ((\<lambda>u. Stored u seen) \<circ> tr_UID) (filter row_attempted rows))
   | (Inr _, st') \<Rightarrow> False"
proof (cases "decodeArguments tenv (te_decode_triage tenv) arguments")
  case None
  then show ?thesis by (simp add: runSetSeen_def)
next
  case (Some input)
  note run = runSetSeen_def adapter_triage_def triage_call_def on_success_def
  show ?thesis
  proof (cases "validTriageInput input")
    case False
    with Some show ?thesis by (simp add: runSetSeen_def)
  next
    case True
    let ?call = "SetSeen (traced env) acquired (gi_mailbox input) (gi_uidvalidity input) (gi_uids input) seen (a, (w, []))"
    obtain q a' w' log where q: "?call = (q, (a', (w', log)))" by (metis prod.exhaust)
    note log = SetSeen_log [where env = env and acquired = acquired and mailbox = "gi_mailbox input" and validity = "gi_uidvalidity input"
      and uids = "gi_uids input" and seen = seen and a = a and w = w, unfolded q prod.case]
    show ?thesis
    proof (cases q)
      case (Inl e)
      with log Some True q show ?thesis by (simp add: run)
    next
      case (Inr rs)
      with log have b: "batch_shape (gi_uids input) rs" and l: "log = map (\<lambda>r. Stored (r_UID r) seen) (filter dispatched rs)" by simp_all
      note rows = rows_of_batch(1,2) [OF b] rows_of_batch(3,4) [OF b, where f = "\<lambda>u. Stored u seen", folded l]
      have uids: "map r_UID rs = gi_uids input" using b by (simp add: batch_shape_def)
      have e: "runSetSeen seen tenv (adapter_triage (traced env) b' acquired api) arguments (a, (w, [])) =
          (Inr (TriageResults (map row_of rs)), (a', (w', log)))" for b'
        using Some True q Inr triageResults_all [OF uids] by (simp add: run)
      show ?thesis
        unfolding e prod.case sum.case tool_result.case
        using rows Some valid_distinct [OF True] by simp
    qed
  qed
qed

text \<open>
  C20. What \<^verbatim>\<open>move_mail\<close> writes and reports over the adapter, for every session. Every MOVE issued goes to the
  destination asked for, and no two are for the same UID. A result has one row per requested UID, in the
  order asked for, and every UID reported applied or unknown had its MOVE issued, in that order. A call
  that ends in an error issued commands only for a prefix of the UIDs, each refused by the server.
\<close>

theorem move_tool_report:
  "case runMoveMail tenv (adapter_triage (traced env) b acquired api) arguments (a, (w, [])) of
     (Inl c, (a', (w', log))) \<Rightarrow> log = [] \<or>
       (\<exists>input destination before. decodeArguments tenv (te_decode_move tenv) arguments = Some (input, destination) \<and>
          prefix (map r_UID before) (gi_uids input) \<and> list_all (\<lambda>r. r_Outcome r = OutcomeRefused) before \<and>
          log = map (\<lambda>r. Moved (r_UID r) (canonicalMailbox destination)) (filter dispatched before))
   | (Inr (TriageResults rows), (a', (w', log))) \<Rightarrow>
       (\<exists>input destination. decodeArguments tenv (te_decode_move tenv) arguments = Some (input, destination) \<and>
          map tr_UID rows = gi_uids input \<and> distinct (gi_uids input) \<and> list_all (\<lambda>r. known_outcome (tr_Outcome r)) rows \<and>
          subseq (map ((\<lambda>u. Moved u (canonicalMailbox destination)) \<circ> tr_UID) (filter row_written rows)) log \<and>
          distinct log \<and> set log \<subseteq> (\<lambda>u. Moved u (canonicalMailbox destination)) ` set (gi_uids input))
   | (Inr _, st') \<Rightarrow> False"
proof (cases "decodeArguments tenv (te_decode_move tenv) arguments")
  case None
  then show ?thesis by (simp add: runMoveMail_def)
next
  case (Some x)
  obtain input destination where x: "x = (input, destination)" by (metis prod.exhaust)
  note run = runMoveMail_def adapter_triage_def triage_call_def on_success_def
  show ?thesis
  proof (cases "validTriageInput input \<and> validMailboxArgument destination")
    case False
    with Some x show ?thesis by (auto simp: runMoveMail_def)
  next
    case True
    let ?m = "\<lambda>u. Moved u (canonicalMailbox destination)"
    let ?call = "Move (traced env) b acquired (gi_mailbox input) (gi_uidvalidity input) (gi_uids input) destination (a, (w, []))"
    obtain q a' w' log where q: "?call = (q, (a', (w', log)))" by (metis prod.exhaust)
    note log = Move_log [where env = env and b = b and acquired = acquired and mailbox = "gi_mailbox input" and
      validity = "gi_uidvalidity input" and uids = "gi_uids input" and destination = destination and a = a and w = w, unfolded q prod.case]
    show ?thesis
    proof (cases q)
      case (Inl e)
      have "runMoveMail tenv (adapter_triage (traced env) b acquired api) arguments (a, (w, [])) = (Inl (mapAdapterError e), (a', (w', log)))"
        using Some x True q Inl by (simp add: run)
      with log [unfolded Inl sum.case] Some x show ?thesis by auto
    next
      case (Inr rs)
      with log obtain extra where b: "batch_shape (gi_uids input) rs"
        and l: "log = map (\<lambda>r. ?m (r_UID r)) (filter dispatched rs) @ extra"
        and ex: "extra = [] \<or> list_ex (\<lambda>r. r_Code r = Some CodeUnsupported \<and> \<not> dispatched r \<and> extra = [?m (r_UID r)]) rs" by auto
      note rows = rows_of_batch(1,2) [OF b] rows_of_batch(3) [OF b, where f = ?m]
      have uids: "map r_UID rs = gi_uids input" using b by (simp add: batch_shape_def)
      have dist: "distinct (gi_uids input)" using True valid_distinct by blast
      have "distinct (map r_UID rs)" using dist unfolding uids .
      then have "distinct rs" "inj_on r_UID (set rs)" unfolding distinct_map by blast+
      then have "distinct log" "set log \<subseteq> ?m ` set (map r_UID rs)"
        using ex l by (auto simp: list_ex_iff distinct_map inj_on_def)
      then have d: "distinct log" "set log \<subseteq> ?m ` set (gi_uids input)" unfolding uids .
      have "subseq (map (?m \<circ> tr_UID) (filter row_written (map row_of rs))) log"
        unfolding l using rows(3) by (rule subseq_rev_drop_many)
      moreover have e: "runMoveMail tenv (adapter_triage (traced env) b acquired api) arguments (a, (w, [])) =
          (Inr (TriageResults (map row_of rs)), (a', (w', log)))"
        using Some x True q Inr triageResults_all [OF uids] by (simp add: run)
      ultimately show ?thesis
        unfolding e prod.case sum.case tool_result.case
        using rows(1,2) Some x dist d by (intro exI [of _ input] exI [of _ destination]) simp
    qed
  qed
qed

section \<open>The tool call\<close>

lemma tool_name_known: "sanitizeToolName (tool_name_text name) = tool_name_text name"
  by (cases name) (simp_all add: sanitizeToolName_def tool_names_def)

lemma tool_code_known: "sanitizeErrorCode (tool_code_text c) = tool_code_text c" "tool_code_text c \<noteq> []"
  by (cases c; simp add: sanitizeErrorCode_def error_codes_def)+

lemma error_reply_small: "length (rp_Text (errorResult c)) \<le> 100"
proof -
  have "list_all (\<lambda>c. length (rp_Text (errorResult c)) \<le> 100) [errInvalidArgument, errNotFound, errStaleID, errBoundsExceeded,
      errTimedOut, errCanceled, errUnavailable, errUnsupported, errInternal]" by code_simp
  then show ?thesis by (cases c) simp_all
qed

lemma encodeBounded_complete:
  assumes "encodeBounded r = Inr (encoded, clipped)"
  shows "length encoded \<le> maxToolResultBytes \<and> (clipped \<or> encoded = marshal r)"
  using encode_loop_ok [of r False] assms by (auto simp: encodeBounded_def encoded_ok_def)

text \<open>
  C21. What one tool call sends, whatever the arguments, the Mail interface and its answers. The reply is at
  most 100000 bytes. An error reply is the JSON of one of the nine codes and nothing else; any other
  reply is the encoding of the handler's result, complete unless the audit line says it was truncated.
  With an auditor exactly one line is written, which states the tool, the outcome of the reply and its
  code or truncation, and is one of eleven fixed strings per tool: nothing of the arguments or of the
  mail can reach the log.
\<close>

theorem makeHandler_reply:
  "case makeHandler True name env mail arguments w of (reply, lines, w') \<Rightarrow>
     length (rp_Text reply) \<le> maxToolResultBytes \<and>
     (if rp_IsError reply
      then \<exists>c. rp_Text reply = json_struct [(''error'', json_struct [(''code'', json_string (tool_code_text c))])] \<and>
        lines = [json_struct [(''event'', json_string ''tool_call''), (''tool'', json_string (tool_name_text name)),
          (''outcome'', json_string ''error''), (''code'', json_string (tool_code_text c))] @ [LF]]
      else \<exists>result truncated. runTool name env mail arguments w = (Inr result, w') \<and>
        encodeBounded result = Inr (rp_Text reply, truncated) \<and> (truncated \<or> rp_Text reply = marshal result) \<and>
        lines = [json_struct ([(''event'', json_string ''tool_call''), (''tool'', json_string (tool_name_text name)),
          (''outcome'', json_string ''ok'')] @ (if truncated then [(''truncated'', ''true'')] else [])) @ [LF]])"
proof -
  have error: "length (rp_Text (errorResult c)) \<le> maxToolResultBytes \<and> rp_IsError (errorResult c) \<and>
      rp_Text (errorResult c) = json_struct [(''error'', json_struct [(''code'', json_string (tool_code_text c))])]" for c
    using error_reply_small [of c] by (simp add: errorResult_def)
  have err: "rp_IsError (errorResult c)" for c by (simp add: errorResult_def)
  have eline: "ToolCall True (tool_name_text name) ''error'' (tool_code_text c) False = [json_struct [(''event'', json_string ''tool_call''),
      (''tool'', json_string (tool_name_text name)), (''outcome'', json_string ''error''), (''code'', json_string (tool_code_text c))] @ [LF]]" for c
    by (simp add: ToolCall_def audit_line_def tool_name_known tool_code_known sanitizeOutcome_def string_omit_def flag_omit_def omitempty_def)
  have oline: "ToolCall True (tool_name_text name) ''ok'' [] truncated = [json_struct ([(''event'', json_string ''tool_call''),
      (''tool'', json_string (tool_name_text name)), (''outcome'', json_string ''ok'')] @
        (if truncated then [(''truncated'', ''true'')] else [])) @ [LF]]" for truncated
    by (simp add: ToolCall_def audit_line_def tool_name_known sanitizeErrorCode_def sanitizeOutcome_def string_omit_def flag_omit_def omitempty_def json_bool_def)
  obtain x w1 where x: "runTool name env mail arguments w = (x, w1)" by (metis prod.exhaust)
  show ?thesis
  proof (cases x)
    case (Inl c)
    with x have m: "makeHandler True name env mail arguments w = (errorResult c, ToolCall True (tool_name_text name) ''error'' (tool_code_text c) False, w1)"
      by (simp add: makeHandler_def)
    show ?thesis unfolding m prod.case eline if_P [OF err [of c]] using error [of c] by blast
  next
    case (Inr result)
    show ?thesis
    proof (cases "encodeBounded result")
      case (Inl e)
      have m: "makeHandler True name env mail arguments w =
          (errorResult errBoundsExceeded, ToolCall True (tool_name_text name) ''error'' (tool_code_text errBoundsExceeded) False, w1)"
        using x Inr Inl by (cases e) (simp add: makeHandler_def)
      show ?thesis unfolding m prod.case eline if_P [OF err [of errBoundsExceeded]] using error [of errBoundsExceeded] by blast
    next
      case enc: (Inr y)
      obtain encoded truncated where y: "y = (encoded, truncated)" by (metis prod.exhaust)
      have m: "makeHandler True name env mail arguments w =
          (\<lparr>rp_IsError = False, rp_Text = encoded\<rparr>, ToolCall True (tool_name_text name) ''ok'' [] truncated, w1)"
        using x Inr enc y by (simp add: makeHandler_def)
      show ?thesis unfolding m prod.case oline using encodeBounded_complete [OF enc [unfolded y]] x Inr enc y by auto
    qed
  qed
qed

end
