(* ===== verification/Server_Run.thy ===== *)
theory Server_Run
  imports Tool_Handlers
begin

text \<open>
  The life of one connection of the MCP server: \<^verbatim>\<open>Serve\<close> (\<^verbatim>\<open>internal/mcpserver/server.go\<close>), the transport
  event of the audit log (\<^verbatim>\<open>audit.go\<close>) and the connection that closes with its context
  (\<^verbatim>\<open>lifecycle.go\<close>). The server loop itself is the SDK's; of its error only what \<^verbatim>\<open>errors.Is\<close> answers counts.
\<close>

section \<open>How a server ends\<close>

record run_error =
  is_EOF :: bool
  is_ConnectionClosed :: bool
  is_Canceled :: bool
  is_EPIPE :: bool

definition transport_category :: "run_error option \<Rightarrow> bytes" where
  "transport_category err = (case err of
      None \<Rightarrow> ''normal_close''
    | Some e \<Rightarrow> if is_EOF e \<or> is_ConnectionClosed e then ''normal_close''
        else if is_Canceled e then ''canceled''
        else if is_EPIPE e then ''client_disconnected''
        else ''transport_failure'')"

definition transportEnd :: "bool \<Rightarrow> run_error option \<Rightarrow> bytes list" where
  "transportEnd auditing err = (if auditing then [json_struct [(''event'', json_string ''transport_end''),
     (''category'', json_string (transport_category err))] @ [LF]] else [])"

text \<open>Whether \<^verbatim>\<open>Serve\<close> returns \<^verbatim>\<open>errServerUnavailable\<close>, and what it writes to the audit log.\<close>

definition Serve :: "bool \<Rightarrow> run_error option \<Rightarrow> bool \<times> bytes list" where
  "Serve auditing err = ((case err of None \<Rightarrow> False
     | Some e \<Rightarrow> \<not> (is_EOF e \<or> is_ConnectionClosed e \<or> is_Canceled e)), transportEnd auditing err)"

text \<open>
  The audit log and the return value of \<^verbatim>\<open>Serve\<close> tell the same story: exactly one line is written, one
  of four fixed strings, and the server reports a failure exactly when the line names a disconnected
  client or a transport failure.
\<close>

theorem Serve_audited:
  "case Serve True err of (failed, lines) \<Rightarrow>
     lines = [json_struct [(''event'', json_string ''transport_end''), (''category'', json_string (transport_category err))] @ [LF]] \<and>
     transport_category err \<in> {''normal_close'', ''canceled'', ''client_disconnected'', ''transport_failure''} \<and>
     (failed \<longleftrightarrow> transport_category err \<in> {''client_disconnected'', ''transport_failure''})"
  by (simp add: Serve_def transportEnd_def transport_category_def split: option.split)

section \<open>The connection that closes with its context\<close>

text \<open>
  \<open>held\<close>: \<^verbatim>\<open>stop\<close> is not nil; \<open>pending\<close>: the callback of \<^verbatim>\<open>context.AfterFunc\<close> has neither run nor been stopped.
  \<^verbatim>\<open>sync.Once\<close> lets nobody pass before the first close has returned, so each event is one step.
\<close>

record 'e closing_connection =
  closed_once :: bool
  closeErr :: "'e option"
  held :: bool
  pending :: bool

definition new_connection :: "'e closing_connection" where
  "new_connection = \<lparr>closed_once = False, closeErr = None, held = False, pending = True\<rparr>"

type_synonym ('e, 'w) closer = "'w \<Rightarrow> 'e option \<times> 'w"

definition closeUnderlying :: "('e, 'w) closer \<Rightarrow> 'e closing_connection \<times> 'w \<Rightarrow> 'e option \<times> ('e closing_connection \<times> 'w)" where
  "closeUnderlying close x = (case x of (c, w) \<Rightarrow>
     if closed_once c then (closeErr c, (c, w))
     else (case close w of (e, w') \<Rightarrow> (e, (c\<lparr>closed_once := True, closeErr := e\<rparr>, w'))))"

definition connection_Close :: "('e, 'w) closer \<Rightarrow> 'e closing_connection \<times> 'w \<Rightarrow> 'e option \<times> ('e closing_connection \<times> 'w)" where
  "connection_Close close x = (case x of (c, w) \<Rightarrow>
     closeUnderlying close (c\<lparr>held := False, pending := (pending c \<and> \<not> held c)\<rparr>, w))"

text \<open>
  What happens to a connection: \<^verbatim>\<open>Connect\<close> stores the stop function, the context ends, someone closes it.
  The context may end before \<^verbatim>\<open>Connect\<close> has stored the function; nobody can close the connection before.
\<close>

datatype connection_event = StopStored | ContextDone | Closed

fun connection_step :: "('e, 'w) closer \<Rightarrow> connection_event \<Rightarrow> 'e closing_connection \<times> 'w \<Rightarrow>
    'e option list \<times> ('e closing_connection \<times> 'w)" where
  "connection_step close StopStored (c, w) = ([], (c\<lparr>held := True\<rparr>, w))"
| "connection_step close ContextDone (c, w) =
     (if pending c then (case closeUnderlying close (c\<lparr>pending := False\<rparr>, w) of (e, x) \<Rightarrow> ([], x)) else ([], (c, w)))"
| "connection_step close Closed x = (case connection_Close close x of (e, x') \<Rightarrow> ([e], x'))"

fun run_connection :: "('e, 'w) closer \<Rightarrow> connection_event list \<Rightarrow> 'e closing_connection \<times> 'w \<Rightarrow>
    'e option list \<times> ('e closing_connection \<times> 'w)" where
  "run_connection close [] x = ([], x)"
| "run_connection close (ev # evs) x = (case connection_step close ev x of (rs, x') \<Rightarrow>
     (case run_connection close evs x' of (rs', x'') \<Rightarrow> (rs @ rs', x'')))"

text \<open>\<open>w\<close> is the world before the connection existed.\<close>

definition closed_once_inv :: "('e, 'w) closer \<Rightarrow> 'w \<Rightarrow> 'e closing_connection \<times> 'w \<Rightarrow> bool" where
  "closed_once_inv close w x \<longleftrightarrow> (if closed_once (fst x)
     then closeErr (fst x) = fst (close w) \<and> snd x = snd (close w)
     else snd x = w \<and> pending (fst x))"

lemma closeUnderlying_inv:
  assumes "closed_once_inv close w (c, v)" and "closed_once c \<longleftrightarrow> closed_once c'" and "closeErr c' = closeErr c"
    and "closeUnderlying close (c', v) = (e, x')"
  shows "closed_once_inv close w x' \<and> closed_once (fst x') \<and> e = fst (close w)"
  using assms by (auto simp: closeUnderlying_def closed_once_inv_def split: if_splits prod.splits)

lemma connection_step_inv:
  assumes "closed_once_inv close w x" and "connection_step close ev x = (rs, x')"
  shows "closed_once_inv close w x' \<and> list_all (\<lambda>r. r = fst (close w)) rs \<and>
    (if ev = StopStored then closed_once (fst x') = closed_once (fst x) else closed_once (fst x'))"
proof (cases ev)
  case StopStored
  with assms show ?thesis by (cases x) (auto simp: closed_once_inv_def)
next
  case ContextDone
  obtain c v where x: "x = (c, v)" by (metis prod.exhaust)
  show ?thesis
  proof (cases "pending c")
    case True
    obtain e y where u: "closeUnderlying close (c\<lparr>pending := False\<rparr>, v) = (e, y)" by (metis prod.exhaust)
    with assms(2) x ContextDone True have "rs = []" "x' = y" by simp_all
    with closeUnderlying_inv [OF assms(1) [unfolded x] _ _ u] ContextDone show ?thesis by simp
  next
    case False
    with assms x ContextDone show ?thesis by (auto simp: closed_once_inv_def split: if_splits)
  qed
next
  case Closed
  obtain c v where x: "x = (c, v)" by (metis prod.exhaust)
  obtain e y where u: "closeUnderlying close (c\<lparr>held := False, pending := (pending c \<and> \<not> held c)\<rparr>, v) = (e, y)"
    by (metis prod.exhaust)
  with assms(2) x Closed have "rs = [e]" "x' = y" by (simp_all add: connection_Close_def)
  with closeUnderlying_inv [OF assms(1) [unfolded x] _ _ u] Closed show ?thesis by simp
qed

lemma run_connection_inv:
  assumes "closed_once_inv close w x" and "run_connection close evs x = (rs, x')"
  shows "closed_once_inv close w x' \<and> list_all (\<lambda>r. r = fst (close w)) rs \<and>
    (closed_once (fst x') \<longleftrightarrow> closed_once (fst x) \<or> list_ex (\<lambda>ev. ev \<noteq> StopStored) evs)"
  using assms
proof (induction evs arbitrary: x rs)
  case (Cons ev evs)
  obtain rs1 x1 where s: "connection_step close ev x = (rs1, x1)" by (metis prod.exhaust)
  obtain rs2 where r: "run_connection close evs x1 = (rs2, x')" "rs = rs1 @ rs2" using Cons.prems(2) s by (auto split: prod.splits)
  note one = connection_step_inv [OF Cons.prems(1) s]
  with Cons.IH [OF _ r(1)] r(2) show ?case by (auto split: if_splits)
qed simp

text \<open>
  Whatever order the end of the context, the storing of the stop function and any number of closes
  come in, the underlying connection is closed exactly once as soon as one of them has happened, not
  before, and every close returns the error of that one call.
\<close>

theorem connection_closes_once:
  "case run_connection close evs (new_connection, w) of (rs, (c, w')) \<Rightarrow>
     w' = (if list_ex (\<lambda>ev. ev \<noteq> StopStored) evs then snd (close w) else w) \<and> list_all (\<lambda>r. r = fst (close w)) rs"
proof -
  obtain rs c w' where r: "run_connection close evs (new_connection, w) = (rs, (c, w'))" by (metis prod.exhaust)
  have "closed_once_inv close w (new_connection, w)" by (simp add: closed_once_inv_def new_connection_def)
  note run_connection_inv [OF this r]
  then show ?thesis unfolding r by (auto simp: closed_once_inv_def new_connection_def split: if_splits)
qed

end
