(* ===== verification/Drive_CLI.thy ===== *)
theory Drive_CLI
  imports Strict_JSON Bridge_Errors
begin

text \<open>
  The subprocess adapter of the Drive server (\<^verbatim>\<open>internal/drivecli\<close>): the only four command lines it may
  run, the bounded capture of their output, the version handshake and the decoding of what a command
  printed.

  \<^verbatim>\<open>os/exec\<close> is the field \<open>de_run\<close>: it gets everything that determines the child and returns what the child
  wrote, in the pieces in which it was copied, how the contexts stood when it had ended, and whether
  \<^verbatim>\<open>Run\<close> failed. The decoders into Go structs are those of \<^verbatim>\<open>encoding/json\<close>.
\<close>

section \<open>Codes and types\<close>

datatype drive_code =
    CodeDriveInvalidConfig | CodeVersionMismatch | CodeTimedOut | CodeOutputOverflow | CodeMalformedOutput
  | CodeTruncatedOutput | CodeCommandFailed | CodeAuthRequired | CodeCanceled

record RootSection =
  rs_Path :: bytes

record InvalidNameError =
  in_Name :: bytes
  in_Error :: bytes

record NameResult =
  nm_OK :: bool
  nm_Value :: bytes
  nm_Error :: InvalidNameError

record UnverifiedAuthorError =
  ua_ClaimedAuthor :: "bytes option"
  ua_Error :: bytes

record AuthorResult =
  au_OK :: bool
  au_Value :: "bytes option"
  au_Error :: UnverifiedAuthorError

record Device =
  dv_UID :: bytes
  dv_Type :: bytes
  dv_Name :: NameResult
  dv_RootFolderUID :: bytes
  dv_CreationTime :: bytes
  dv_LastSyncTime :: bytes
  dv_ShareID :: bytes

record OwnedBy =
  ow_Email :: bytes
  ow_Organization :: bytes

record Membership =
  mp_Role :: bytes
  mp_InviteTime :: bytes
  mp_SharedBy :: AuthorResult

record ClaimedDigests =
  cg_SHA1 :: bytes
  cg_SHA1Verified :: bool

record Revision =
  rv_UID :: bytes
  rv_State :: bytes
  rv_CreationTime :: bytes
  rv_ContentAuthor :: AuthorResult
  rv_StorageSize :: int
  rv_IsImported :: bool
  rv_ClaimedSize :: "int option"
  rv_ClaimedModificationTime :: bytes
  rv_ClaimedDigests :: "ClaimedDigests option"
  rv_ClaimedAdditionalMetadata :: bytes

record FolderInfo =
  fi_ClaimedModificationTime :: bytes
  fi_IsImported :: bool

record NodeEntity =
  ne_UID :: bytes
  ne_ParentUID :: bytes
  ne_Name :: NameResult
  ne_KeyAuthor :: AuthorResult
  ne_NameAuthor :: AuthorResult
  ne_DirectRole :: bytes
  ne_Membership :: "Membership option"
  ne_OwnedBy :: OwnedBy
  ne_Type :: bytes
  ne_MediaType :: bytes
  ne_IsShared :: bool
  ne_IsSharedByURL :: bool
  ne_DeprecatedShareID :: bytes
  ne_CreationTime :: bytes
  ne_ModificationTime :: bytes
  ne_TrashTime :: bytes
  ne_TotalStorageSize :: "int option"
  ne_ActiveRevision :: "Revision option"
  ne_Folder :: "FolderInfo option"
  ne_TreeEventScopeID :: bytes
  ne_Errors :: bytes

text \<open>The two fields that a path does not fill are nil, here empty.\<close>

record ListResult =
  ls_Sections :: "RootSection list"
  ls_Devices :: "Device list"
  ls_Nodes :: "NodeEntity list"

record Member =
  me_UID :: bytes
  me_InvitationTime :: bytes
  me_AddedByEmail :: AuthorResult
  me_InviteeEmail :: bytes
  me_Role :: bytes
  me_State :: bytes

record URLAccess =
  ul_UID :: bytes
  ul_CreationTime :: bytes
  ul_Role :: bytes
  ul_URL :: bytes
  ul_CustomPassword :: bytes
  ul_ExpirationTime :: bytes
  ul_NumberOfInitializedDownloads :: int

record ShareResult =
  sh_ProtonInvitations :: "Member list"
  sh_NonProtonInvitations :: "Member list"
  sh_Members :: "Member list"
  sh_URLAccess :: "URLAccess option"
  sh_EditorsCanShare :: bool

record SharingStatus =
  sg_Shared :: bool
  sg_Info :: "ShareResult option"

record DownloadFailure =
  df_Name :: bytes
  df_NodeUID :: bytes
  df_Error :: bytes

record DownloadSummary =
  dm_TransferredItems :: int
  dm_TransferredBytes :: int
  dm_SkippedItems :: int
  dm_FailedItems :: int
  dm_Failures :: "DownloadFailure list"

section \<open>The client\<close>

record drive_options =
  op_BinaryPath :: bytes
  op_CacheDir :: bytes
  op_CredentialsStore :: bytes
  op_Timeout :: int
  op_MaxBytes :: int

record drive_client =
  cl_binaryPath :: bytes
  cl_cacheDir :: bytes
  cl_credentialsStore :: bytes
  cl_timeout :: int
  cl_maxBytes :: int

abbreviation defaultTimeout :: int where "defaultTimeout \<equiv> 15 * 10 ^ 9"
abbreviation defaultMaxBytes :: int where "defaultMaxBytes \<equiv> 65536"

text \<open>\<^verbatim>\<open>filepath.IsAbs\<close> where \<^verbatim>\<open>New\<close> accepts the system; \<open>supported\<close> is the test of \<^verbatim>\<open>runtime.GOOS\<close>.\<close>

definition isAbs :: "bytes \<Rightarrow> bool" where
  "isAbs path = has_prefix path ''/''"

definition newClient :: "bool \<Rightarrow> drive_options \<Rightarrow> drive_code + drive_client" where
  "newClient supported o1 =
     (if \<not> isAbs (op_BinaryPath o1) then Inl CodeDriveInvalidConfig
      else if op_CacheDir o1 \<noteq> [] \<and> \<not> isAbs (op_CacheDir o1) then Inl CodeDriveInvalidConfig
      else if op_CredentialsStore o1 \<notin> {[], ''keychain'', ''pass''} then Inl CodeDriveInvalidConfig
      else if \<not> supported then Inl CodeDriveInvalidConfig
      else Inr \<lparr>cl_binaryPath = op_BinaryPath o1, cl_cacheDir = op_CacheDir o1, cl_credentialsStore = op_CredentialsStore o1,
        cl_timeout = (if op_Timeout o1 \<le> 0 then defaultTimeout else op_Timeout o1),
        cl_maxBytes = (if op_MaxBytes o1 \<le> 0 then defaultMaxBytes else op_MaxBytes o1)\<rparr>)"

section \<open>One subprocess\<close>

definition isOperand :: "bytes \<Rightarrow> bool" where
  "isOperand argument \<longleftrightarrow> argument \<noteq> [] \<and> \<not> has_prefix argument ''-''"

fun isAllowlistedInvocation :: "bytes list \<Rightarrow> bool" where
  "isAllowlistedInvocation [a] = (a = ''version'')"
| "isAllowlistedInvocation [a, b, c, d] =
     (if a = ''filesystem'' \<and> b = ''list'' then isOperand c \<and> d = ''--json''
      else if a = ''filesystem'' \<and> b = ''info'' then isOperand c \<and> d = ''--json''
      else if a = ''sharing'' \<and> b = ''status'' then isOperand c \<and> d = ''--json''
      else False)"
| "isAllowlistedInvocation [a, b, c, d, e, f] =
     (a = ''filesystem'' \<and> b = ''list'' \<and> isOperand c \<and> d = ''--type'' \<and> (e = ''file'' \<or> e = ''folder'') \<and> f = ''--json'')"
| "isAllowlistedInvocation _ = False"

text \<open>\<open>lookup\<close> is \<^verbatim>\<open>os.LookupEnv\<close>.\<close>

definition isolatedEnvironment :: "(bytes \<Rightarrow> bytes option) \<Rightarrow> bytes \<Rightarrow> bytes \<Rightarrow> bytes list" where
  "isolatedEnvironment lookup cacheDir credentialsStore = [''PATH=/usr/bin:/bin''] @
     concat (map (\<lambda>key. case lookup key of None \<Rightarrow> [] | Some v \<Rightarrow> [key @ ''='' @ v]) [''HOME'', ''USER'', ''LOGNAME'', ''LANG'', ''LC_ALL'']) @
     (if cacheDir \<noteq> [] then [''PROTON_DRIVE_CACHE_DIR='' @ cacheDir] else []) @
     (if credentialsStore \<noteq> [] then [''PROTON_DRIVE_CREDENTIALS_STORE='' @ credentialsStore] else [])"

record limitedBuffer =
  lb_bytes :: bytes
  lb_limit :: int
  lb_overflow :: bool

definition buffer_Write :: "limitedBuffer \<Rightarrow> bytes \<Rightarrow> limitedBuffer" where
  "buffer_Write b input = (if lb_limit b - int (length (lb_bytes b)) < int (length input) then b\<lparr>lb_overflow := True\<rparr>
     else b\<lparr>lb_bytes := lb_bytes b @ input\<rparr>)"

definition capture :: "int \<Rightarrow> bytes list \<Rightarrow> limitedBuffer" where
  "capture limit pieces = foldl buffer_Write \<lparr>lb_bytes = [], lb_limit = limit, lb_overflow = False\<rparr> pieces"

record spawn =
  sp_binary :: bytes
  sp_arguments :: "bytes list"
  sp_directory :: bytes
  sp_environment :: "bytes list"
  sp_timeout :: int

record process_end =
  pe_stdout :: "bytes list"
  pe_stderr :: "bytes list"
  pe_deadline :: "ctx_error option"
  pe_context :: "ctx_error option"
  pe_failed :: bool

record 'w drive_env =
  de_run :: "spawn \<Rightarrow> 'w \<Rightarrow> process_end \<times> 'w"
  de_lookup :: "bytes \<Rightarrow> bytes option"
  de_fold_eq :: "bytes \<Rightarrow> bytes \<Rightarrow> bool"
  de_decoder :: "bytes \<Rightarrow> decoder"
  de_sections :: "bytes \<Rightarrow> (RootSection list \<times> bool) option"
  de_devices :: "bytes \<Rightarrow> (Device list \<times> bool) option"
  de_nodes :: "bytes \<Rightarrow> (NodeEntity list \<times> bool) option"
  de_node :: "bytes \<Rightarrow> (NodeEntity \<times> bool) option"
  de_share :: "bytes \<Rightarrow> (ShareResult \<times> bool) option"
  de_summary :: "bytes \<Rightarrow> (DownloadSummary \<times> bool) option"

definition looksTruncated :: "bytes \<Rightarrow> bool" where
  "looksTruncated output = (let trimmed = trim_space output in case trimmed of
      [] \<Rightarrow> True
    | c # _ \<Rightarrow> if c = CHR ''['' then \<not> has_suffix trimmed '']''
        else if c = CHR ''{'' then \<not> has_suffix trimmed ''}'' else False)"

definition invoke :: "'w drive_env \<Rightarrow> drive_client \<Rightarrow> bytes list \<Rightarrow> bool \<Rightarrow> 'w \<Rightarrow> (drive_code + bytes) \<times> 'w" where
  "invoke env cl arguments requireJSON w =
     (if \<not> isAllowlistedInvocation arguments then (Inl CodeDriveInvalidConfig, w)
      else (case de_run env \<lparr>sp_binary = cl_binaryPath cl, sp_arguments = arguments, sp_directory = ''/'',
              sp_environment = isolatedEnvironment (de_lookup env) (cl_cacheDir cl) (cl_credentialsStore cl),
              sp_timeout = cl_timeout cl\<rparr> w of (p, w1) \<Rightarrow>
        (let stdout = capture (cl_maxBytes cl) (pe_stdout p); stderr = capture (cl_maxBytes cl) (pe_stderr p) in
         if lb_overflow stdout \<or> lb_overflow stderr then (Inl CodeOutputOverflow, w1)
         else if pe_deadline p \<noteq> None \<and> pe_context p = Some Canceled then (Inl CodeCanceled, w1)
         else if pe_deadline p = Some DeadlineExceeded then (Inl CodeTimedOut, w1)
         else if pe_failed p then
           (Inl (if contains_bytes (lb_bytes stderr) ''You need to login first'' then CodeAuthRequired else CodeCommandFailed), w1)
         else if requireJSON \<and> looksTruncated (lb_bytes stdout) then (Inl CodeTruncatedOutput, w1)
         else (Inr (lb_bytes stdout), w1))))"

section \<open>The commands\<close>

text \<open>\<^verbatim>\<open>^\d+\.\d+\.\d+$\<close>.\<close>

definition exact_semantic_version :: "bytes \<Rightarrow> bool" where
  "exact_semantic_version v = (case split_byte (CHR ''.'') v of
      [a, b, c] \<Rightarrow> list_all (\<lambda>s. s \<noteq> [] \<and> list_all is_digit s) [a, b, c]
    | _ \<Rightarrow> False)"

abbreviation versionBannerPrefix :: bytes where "versionBannerPrefix \<equiv> ''Proton Drive CLI cli-drive@''"
abbreviation pinnedCLIVersion :: bytes where "pinnedCLIVersion \<equiv> ''0.8.0''"

definition parseVersionBanner :: "bytes \<Rightarrow> bytes option" where
  "parseVersionBanner stdout = (case cut_byte LF stdout of (first_line, rest, found) \<Rightarrow>
     (case cut_prefix (trim_suffix first_line [CR]) versionBannerPrefix of (version, matched) \<Rightarrow>
       if \<not> matched \<or> \<not> exact_semantic_version version then None else Some version))"

definition Handshake :: "'w drive_env \<Rightarrow> drive_client \<Rightarrow> 'w \<Rightarrow> drive_code option \<times> 'w" where
  "Handshake env cl w = (case invoke env cl [''version''] False w of
      (Inl c, w1) \<Rightarrow> (Some c, w1)
    | (Inr stdout, w1) \<Rightarrow> (case parseVersionBanner stdout of
        None \<Rightarrow> (Some CodeMalformedOutput, w1)
      | Some version \<Rightarrow> if version \<noteq> pinnedCLIVersion then (Some CodeVersionMismatch, w1) else (None, w1)))"

definition decode_or :: "'a option \<Rightarrow> ('a \<Rightarrow> 'b) \<Rightarrow> drive_code + 'b" where
  "decode_or x f = (case x of None \<Rightarrow> Inl CodeMalformedOutput | Some v \<Rightarrow> Inr (f v))"

abbreviation noListing :: ListResult where "noListing \<equiv> \<lparr>ls_Sections = [], ls_Devices = [], ls_Nodes = []\<rparr>"

definition decodeList :: "'w drive_env \<Rightarrow> bytes \<Rightarrow> bytes \<Rightarrow> int \<Rightarrow> drive_code + ListResult" where
  "decodeList env path stdout maxBytes =
     (if path = ''/'' then decode_or (DecodeArray (de_fold_eq env) (de_decoder env) (de_sections env) stdout maxBytes)
        (\<lambda>sections. noListing\<lparr>ls_Sections := sections\<rparr>)
      else if path = ''/devices'' then decode_or (DecodeArray (de_fold_eq env) (de_decoder env) (de_devices env) stdout maxBytes)
        (\<lambda>devices. noListing\<lparr>ls_Devices := devices\<rparr>)
      else decode_or (DecodeArray (de_fold_eq env) (de_decoder env) (de_nodes env) stdout maxBytes)
        (\<lambda>nodes. noListing\<lparr>ls_Nodes := nodes\<rparr>))"

definition drive_List :: "'w drive_env \<Rightarrow> drive_client \<Rightarrow> bytes \<Rightarrow> bytes \<Rightarrow> 'w \<Rightarrow> (drive_code + ListResult) \<times> 'w" where
  "drive_List env cl path nodeType w =
     (if path = [] then (Inl CodeDriveInvalidConfig, w)
      else if nodeType \<noteq> [] \<and> nodeType \<noteq> ''file'' \<and> nodeType \<noteq> ''folder'' then (Inl CodeDriveInvalidConfig, w)
      else (case invoke env cl ([''filesystem'', ''list'', path] @ (if nodeType \<noteq> [] then [''--type'', nodeType] else []) @ [''--json'']) True w of
          (Inl c, w1) \<Rightarrow> (Inl c, w1)
        | (Inr stdout, w1) \<Rightarrow> (decodeList env path stdout (cl_maxBytes cl), w1)))"

definition drive_Info :: "'w drive_env \<Rightarrow> drive_client \<Rightarrow> bytes \<Rightarrow> 'w \<Rightarrow> (drive_code + NodeEntity) \<times> 'w" where
  "drive_Info env cl path w =
     (if path = [] then (Inl CodeDriveInvalidConfig, w)
      else (case invoke env cl [''filesystem'', ''info'', path, ''--json''] True w of
          (Inl c, w1) \<Rightarrow> (Inl c, w1)
        | (Inr stdout, w1) \<Rightarrow>
            (decode_or (DecodeValue (de_fold_eq env) (de_decoder env) (de_node env) stdout (cl_maxBytes cl)) (\<lambda>node. node), w1)))"

definition drive_SharingStatus :: "'w drive_env \<Rightarrow> drive_client \<Rightarrow> bytes \<Rightarrow> 'w \<Rightarrow> (drive_code + SharingStatus) \<times> 'w" where
  "drive_SharingStatus env cl path w =
     (if path = [] then (Inl CodeDriveInvalidConfig, w)
      else (case invoke env cl [''sharing'', ''status'', path, ''--json''] False w of
          (Inl c, w1) \<Rightarrow> (Inl c, w1)
        | (Inr stdout, w1) \<Rightarrow>
            if trim_space stdout = ''undefined'' then (Inr \<lparr>sg_Shared = False, sg_Info = None\<rparr>, w1)
            else if looksTruncated stdout then (Inl CodeTruncatedOutput, w1)
            else (decode_or (DecodeValue (de_fold_eq env) (de_decoder env) (de_share env) stdout (cl_maxBytes cl))
              (\<lambda>info. \<lparr>sg_Shared = True, sg_Info = Some info\<rparr>), w1)))"

definition drive_Download :: "'w drive_env \<Rightarrow> drive_client \<Rightarrow> bytes list \<Rightarrow> bytes \<Rightarrow> 'w \<Rightarrow> (drive_code + DownloadSummary) \<times> 'w" where
  "drive_Download env cl remotePaths localFolder w =
     (if remotePaths = [] \<or> \<not> isAbs localFolder then (Inl CodeDriveInvalidConfig, w)
      else (case invoke env cl ([''filesystem'', ''download''] @ remotePaths @ [localFolder, ''--file-conflict-strategy'', ''skip'',
              ''--folder-conflict-strategy'', ''skip'', ''--json'']) True w of
          (Inl c, w1) \<Rightarrow> (Inl c, w1)
        | (Inr stdout, w1) \<Rightarrow>
            (decode_or (DecodeValue (de_fold_eq env) (de_decoder env) (de_summary env) stdout (cl_maxBytes cl)) (\<lambda>s. s), w1)))"

section \<open>What may be run\<close>

text \<open>The frozen command lines with an operand \<open>p\<close>.\<close>

definition data_command :: "bytes \<Rightarrow> bytes list \<Rightarrow> bool" where
  "data_command p arguments \<longleftrightarrow> arguments = [''filesystem'', ''list'', p, ''--json''] \<or>
     arguments = [''filesystem'', ''list'', p, ''--type'', ''file'', ''--json''] \<or>
     arguments = [''filesystem'', ''list'', p, ''--type'', ''folder'', ''--json''] \<or>
     arguments = [''filesystem'', ''info'', p, ''--json''] \<or> arguments = [''sharing'', ''status'', p, ''--json'']"

lemma allowlist_iff:
  "isAllowlistedInvocation arguments \<longleftrightarrow> arguments = [''version''] \<or> (\<exists>p. isOperand p \<and> data_command p arguments)"
  by (cases arguments rule: isAllowlistedInvocation.cases) (auto simp: data_command_def)

text \<open>
  The download that \<^verbatim>\<open>Client.Download\<close> would run is refused by the allowlist for all arguments: nothing
  is ever started, and the answer is the configuration error.
\<close>

theorem Download_disabled: "drive_Download env cl remotePaths localFolder w = (Inl CodeDriveInvalidConfig, w)"
proof (cases remotePaths)
  case (Cons p ps)
  have "\<not> isAllowlistedInvocation ([''filesystem'', ''download''] @ remotePaths @ [localFolder, ''--file-conflict-strategy'', ''skip'',
      ''--folder-conflict-strategy'', ''skip'', ''--json''])"
    unfolding allowlist_iff data_command_def by simp
  then show ?thesis by (simp add: drive_Download_def invoke_def)
qed (simp add: drive_Download_def)

section \<open>Capture\<close>


lemma foldl_capture:
  assumes "int (length (lb_bytes b)) \<le> lb_limit b"
  shows "lb_limit (foldl buffer_Write b pieces) = lb_limit b \<and>
    int (length (lb_bytes (foldl buffer_Write b pieces))) \<le> lb_limit b \<and>
    (lb_overflow (foldl buffer_Write b pieces) \<longleftrightarrow> lb_overflow b \<or> lb_limit b < int (length (lb_bytes b @ concat pieces))) \<and>
    (lb_limit b < int (length (lb_bytes b @ concat pieces)) \<or> lb_bytes (foldl buffer_Write b pieces) = lb_bytes b @ concat pieces)"
  using assms
proof (induction pieces arbitrary: b)
  case (Cons x xs)
  have "int (length (lb_bytes (buffer_Write b x))) \<le> lb_limit (buffer_Write b x)"
    using Cons.prems by (simp add: buffer_Write_def)
  from Cons.IH [OF this] Cons.prems show ?case by (auto simp: buffer_Write_def split: if_splits)
qed simp

text \<open>A capture keeps everything or says that it did not.\<close>

lemma capture_exact:
  assumes "0 \<le> limit"
  shows "lb_overflow (capture limit pieces) \<longleftrightarrow> limit < int (length (concat pieces))"
    and "\<not> lb_overflow (capture limit pieces) \<Longrightarrow> lb_bytes (capture limit pieces) = concat pieces"
    and "int (length (lb_bytes (capture limit pieces))) \<le> limit"
  using foldl_capture [of "\<lparr>lb_bytes = [], lb_limit = limit, lb_overflow = False\<rparr>" pieces] assms
  by (auto simp: capture_def)

section \<open>The version banner\<close>

text \<open>The first line is the prefix and the pinned version, and the line may end in a carriage return.\<close>

definition pinned_output :: "bytes \<Rightarrow> bool" where
  "pinned_output out \<longleftrightarrow> (\<exists>line eol. line = versionBannerPrefix @ pinnedCLIVersion \<and> eol \<in> {[], [CR]} \<and>
     (out = line @ eol \<or> has_prefix out (line @ eol @ [LF])))"

lemma trim_cr: "trim_suffix l [CR] = p \<longleftrightarrow> l = p @ [CR] \<or> l = p \<and> (p = [] \<or> last p \<noteq> CR)"
  by (cases l rule: rev_cases) (auto simp: trim_suffix_def cut_suffix_def has_suffix_single)

lemma cut_prefix_iff: "cut_prefix s p = (r, True) \<longleftrightarrow> s = p @ r"
  using cut_prefix_SomeD by (auto simp: cut_prefix_def has_prefix_append)

lemma parseVersionBanner_Some:
  "parseVersionBanner out = Some v \<longleftrightarrow>
     (\<exists>l r found. cut_byte LF out = (l, r, found) \<and> trim_suffix l [CR] = versionBannerPrefix @ v) \<and> exact_semantic_version v"
proof -
  obtain l r found where c: "cut_byte LF out = (l, r, found)" by (metis prod.exhaust)
  obtain u m where p: "cut_prefix (trim_suffix l [CR]) versionBannerPrefix = (u, m)" by (metis prod.exhaust)
  have "trim_suffix l [CR] = versionBannerPrefix @ v \<longleftrightarrow> m \<and> u = v"
    using p cut_prefix_iff [of "trim_suffix l [CR]" versionBannerPrefix v] by auto
  then show ?thesis by (auto simp: parseVersionBanner_def c p)
qed

lemma first_line:
  assumes "LF \<notin> set p"
  shows "(\<exists>r found. cut_byte LF out = (p, r, found)) \<longleftrightarrow> out = p \<or> has_prefix out (p @ [LF])"
proof -
  have "has_prefix out (p @ [LF]) \<longleftrightarrow> (\<exists>r. out = (p @ [LF]) @ r)" by (metis has_prefixE has_prefix_append)
  then have "(\<exists>r. cut_byte LF out = (p, r, True)) \<longleftrightarrow> has_prefix out (p @ [LF])"
    unfolding cut_byte_found using assms by simp
  moreover have "(\<exists>r. cut_byte LF out = (p, r, False)) \<longleftrightarrow> out = p"
    unfolding cut_byte_missing using assms by auto
  ultimately show ?thesis by (metis (full_types))
qed

text \<open>
  The handshake accepts exactly the pinned release: a successful \<^verbatim>\<open>version\<close> run whose first line is the
  full banner with version 0.8.0, ended by a newline, a carriage return and newline, or the end of the
  output. A longer version, a suffix or a banner further down is refused.
\<close>

theorem parseVersionBanner_pinned: "parseVersionBanner out = Some pinnedCLIVersion \<longleftrightarrow> pinned_output out"
proof -
  let ?p = "versionBannerPrefix @ pinnedCLIVersion"
  have v: "exact_semantic_version pinnedCLIVersion" by code_simp
  have lf: "LF \<notin> set ?p" "LF \<notin> set (?p @ [CR])" and cr: "?p \<noteq> []" "last ?p \<noteq> CR" by simp_all
  have "(\<exists>l r found. cut_byte LF out = (l, r, found) \<and> trim_suffix l [CR] = ?p) \<longleftrightarrow>
      (\<exists>eol \<in> {[], [CR]}. \<exists>r found. cut_byte LF out = (?p @ eol, r, found))"
    unfolding trim_cr using cr by (metis append_Nil2 insert_iff singletonD)
  also have "\<dots> \<longleftrightarrow> (\<exists>eol \<in> {[], [CR]}. out = ?p @ eol \<or> has_prefix out (?p @ eol @ [LF]))"
  proof (intro bex_cong refl)
    fix eol :: bytes assume "eol \<in> {[], [CR]}"
    then have "LF \<notin> set (?p @ eol)" using lf by auto
    from first_line [OF this] show "(\<exists>r found. cut_byte LF out = (?p @ eol, r, found)) \<longleftrightarrow>
        out = ?p @ eol \<or> has_prefix out (?p @ eol @ [LF])" unfolding append_assoc .
  qed
  finally show ?thesis unfolding parseVersionBanner_Some pinned_output_def using v by blast
qed

section \<open>Making the processes visible\<close>

type_synonym process_log = "(spawn \<times> process_end) list"

definition recorded :: "'w drive_env \<Rightarrow> ('w \<times> process_log) drive_env" where
  "recorded env = \<lparr>de_run = (\<lambda>sp x. case x of (w, l) \<Rightarrow> (case de_run env sp w of (p, w') \<Rightarrow> (p, (w', l @ [(sp, p)])))),
     de_lookup = de_lookup env, de_fold_eq = de_fold_eq env, de_decoder = de_decoder env, de_sections = de_sections env,
     de_devices = de_devices env, de_nodes = de_nodes env, de_node = de_node env, de_share = de_share env,
     de_summary = de_summary env\<rparr>"

text \<open>The child that is started for a command line: everything but the arguments is fixed by the client.\<close>

definition child :: "'w drive_env \<Rightarrow> drive_client \<Rightarrow> bytes list \<Rightarrow> spawn" where
  "child env cl arguments = \<lparr>sp_binary = cl_binaryPath cl, sp_arguments = arguments, sp_directory = ''/'',
     sp_environment = isolatedEnvironment (de_lookup env) (cl_cacheDir cl) (cl_credentialsStore cl), sp_timeout = cl_timeout cl\<rparr>"

text \<open>A process that ended well and whose whole output was read.\<close>

definition clean_run :: "drive_client \<Rightarrow> process_end \<Rightarrow> bytes \<Rightarrow> bool" where
  "clean_run cl p out \<longleftrightarrow> \<not> pe_failed p \<and> out = concat (pe_stdout p) \<and> int (length out) \<le> cl_maxBytes cl \<and>
     int (length (concat (pe_stderr p))) \<le> cl_maxBytes cl"

lemma invoke_recorded:
  assumes "invoke (recorded env) cl arguments requireJSON (w, l) = (r, (w', l'))" and "0 \<le> cl_maxBytes cl"
  shows "if isAllowlistedInvocation arguments
    then \<exists>p. l' = l @ [(child env cl arguments, p)] \<and> (case r of Inl c \<Rightarrow> c \<noteq> CodeDriveInvalidConfig | Inr out \<Rightarrow> clean_run cl p out)
    else r = Inl CodeDriveInvalidConfig \<and> l' = l"
proof (cases "isAllowlistedInvocation arguments")
  case False
  with assms(1) show ?thesis by (simp add: invoke_def)
next
  case True
  obtain p w1 where p: "de_run env (child env cl arguments) w = (p, w1)" by (metis prod.exhaust)
  then have run: "de_run (recorded env) \<lparr>sp_binary = cl_binaryPath cl, sp_arguments = arguments, sp_directory = ''/'',
      sp_environment = isolatedEnvironment (de_lookup (recorded env)) (cl_cacheDir cl) (cl_credentialsStore cl),
      sp_timeout = cl_timeout cl\<rparr> (w, l) = (p, (w1, l @ [(child env cl arguments, p)]))"
    by (simp add: recorded_def child_def)
  note invoke_def [of "recorded env" cl arguments requireJSON "(w, l)", unfolded run prod.case Let_def]
  with assms(1) True have "l' = l @ [(child env cl arguments, p)] \<and>
      (case r of Inl c \<Rightarrow> c \<noteq> CodeDriveInvalidConfig | Inr out \<Rightarrow> clean_run cl p out)"
    using capture_exact [OF assms(2)] by (auto simp: clean_run_def split: if_splits)
  with True show ?thesis by auto
qed

text \<open>A finished handshake of the pinned version.\<close>

definition pinned_entry :: "spawn \<times> process_end \<Rightarrow> bool" where
  "pinned_entry x \<longleftrightarrow> sp_arguments (fst x) = [''version''] \<and> \<not> pe_failed (snd x) \<and> pinned_output (concat (pe_stdout (snd x)))"

lemma version_allowed: "isAllowlistedInvocation [''version'']"
  by simp

lemma Handshake_recorded:
  assumes "Handshake (recorded env) cl (w, l) = (r, (w', l'))" and "0 \<le> cl_maxBytes cl"
  shows "\<exists>p. l' = l @ [(child env cl [''version''], p)] \<and> (r = None \<longrightarrow> pinned_entry (child env cl [''version''], p))"
proof -
  obtain q w1 l1 where i: "invoke (recorded env) cl [''version''] False (w, l) = (q, (w1, l1))" by (metis prod.exhaust)
  from invoke_recorded [OF i assms(2)] obtain p where l1: "l1 = l @ [(child env cl [''version''], p)]"
    and q: "case q of Inl c \<Rightarrow> c \<noteq> CodeDriveInvalidConfig | Inr out \<Rightarrow> clean_run cl p out" by auto
  show ?thesis
  proof (cases q)
    case (Inl c)
    with assms(1) i l1 show ?thesis by (auto simp: Handshake_def)
  next
    case (Inr out)
    with assms(1) i l1 have "l' = l @ [(child env cl [''version''], p)]"
      by (auto simp: Handshake_def split: option.splits if_splits)
    moreover have "pinned_entry (child env cl [''version''], p)" if "r = None"
    proof -
      have "parseVersionBanner out = Some pinnedCLIVersion"
        using assms(1) i Inr that by (auto simp: Handshake_def split: option.splits if_splits)
      then have "pinned_output out" unfolding parseVersionBanner_pinned .
      with q Inr show ?thesis by (simp add: pinned_entry_def clean_run_def child_def)
    qed
    ultimately show ?thesis by blast
  qed
qed

end
