(* ===== verification/Drive_Tools.thy ===== *)
theory Drive_Tools
  imports Drive_CLI Tool_Handlers Search_Wire
begin

text \<open>
  The Drive server (\<^verbatim>\<open>internal/drivemcp\<close>): the path argument, the three read-only tools behind the
  handshake gate, the bounded encoding of their results, and the tool call with its audit line.

  The state of the server is whether the handshake has succeeded, with the world of the subprocesses.
  \<open>acquired\<close> is how waiting for the gate's slot ended; the interleaving of waiting requests is the
  subject of another theory.
\<close>

section \<open>Paths\<close>

abbreviation maxDrivePathBytes :: nat where "maxDrivePathBytes \<equiv> 1024"

text \<open>A rune below \<open>0x20\<close> or equal to \<open>0x7f\<close> of valid UTF-8 is a byte.\<close>

definition validDrivePath :: "bytes \<Rightarrow> bool" where
  "validDrivePath path =
     (if path = [] \<or> maxDrivePathBytes < length path \<or> \<not> valid_utf8 path then False
      else if list_ex (\<lambda>c. byte_val c < 0x20 \<or> byte_val c = 0x7f) path then False
      else if hd path \<noteq> CHR ''/'' then False
      else if path = ''/'' then True
      else if has_suffix path ''/'' then False
      else list_all (\<lambda>segment. segment \<noteq> [] \<and> segment \<noteq> ''.'' \<and> segment \<noteq> ''..'') (split_byte (CHR ''/'') (tl path)))"

section \<open>Results\<close>

text \<open>\<open>None\<close> is a nil slice, which \<^verbatim>\<open>omitzero\<close> leaves out; an empty slice is present.\<close>

record listDriveResult =
  ld_Path :: bytes
  ld_Sections :: "RootSection list option"
  ld_Devices :: "Device list option"
  ld_Entries :: "NodeEntity list option"
  ld_Truncated :: bool

record sharingURLAccess =
  su_UID :: bytes
  su_CreationTime :: bytes
  su_Role :: bytes
  su_URL :: bytes
  su_ExpirationTime :: bytes
  su_NumberOfInitializedDownloads :: int

record sharingStatusResult =
  sx_Shared :: bool
  sx_ProtonInvitations :: "Member list"
  sx_NonProtonInvitations :: "Member list"
  sx_Members :: "Member list"
  sx_URLAccess :: "sharingURLAccess option"
  sx_EditorsCanShare :: bool
  sx_Truncated :: bool

datatype drive_result = ListingResult listDriveResult | NodeResult NodeEntity | SharingResult sharingStatusResult

subsection \<open>Marshalling\<close>

text \<open>
  \<open>omitempty\<close> never omits a struct, so the zero error objects are written. \<open>compact\<close> is what \<^verbatim>\<open>encoding/json\<close>
  writes for a \<^verbatim>\<open>json.RawMessage\<close> that was decoded from valid JSON.
\<close>

definition int_omit :: "bytes \<Rightarrow> int option \<Rightarrow> (bytes \<times> bytes) list" where
  "int_omit k v = (case v of None \<Rightarrow> [] | Some n \<Rightarrow> [(k, json_int n)])"

definition marshal_option :: "('a \<Rightarrow> bytes) \<Rightarrow> bytes \<Rightarrow> 'a option \<Rightarrow> (bytes \<times> bytes) list" where
  "marshal_option f k v = (case v of None \<Rightarrow> [] | Some x \<Rightarrow> [(k, f x)])"

definition marshal_section :: "RootSection \<Rightarrow> bytes" where
  "marshal_section s = json_struct [(''path'', json_string (rs_Path s))]"

definition marshal_name :: "NameResult \<Rightarrow> bytes" where
  "marshal_name n = json_struct ([(''ok'', json_bool (nm_OK n))] @ string_omit ''value'' (nm_Value n) @
     [(''error'', json_struct (string_omit ''name'' (in_Name (nm_Error n)) @ string_omit ''error'' (in_Error (nm_Error n))))])"

definition marshal_author :: "AuthorResult \<Rightarrow> bytes" where
  "marshal_author a = json_struct [(''ok'', json_bool (au_OK a)),
     (''value'', case au_Value a of None \<Rightarrow> ''null'' | Some v \<Rightarrow> json_string v),
     (''error'', json_struct (marshal_option json_string ''claimedAuthor'' (ua_ClaimedAuthor (au_Error a)) @
        string_omit ''error'' (ua_Error (au_Error a))))]"

definition marshal_device :: "Device \<Rightarrow> bytes" where
  "marshal_device d = json_struct ([(''uid'', json_string (dv_UID d)), (''type'', json_string (dv_Type d)), (''name'', marshal_name (dv_Name d)),
     (''rootFolderUid'', json_string (dv_RootFolderUID d)), (''creationTime'', json_string (dv_CreationTime d))] @
     string_omit ''lastSyncTime'' (dv_LastSyncTime d) @ [(''shareId'', json_string (dv_ShareID d))])"

definition marshal_owner :: "OwnedBy \<Rightarrow> bytes" where
  "marshal_owner o1 = json_struct (string_omit ''email'' (ow_Email o1) @ string_omit ''organization'' (ow_Organization o1))"

definition marshal_membership :: "Membership \<Rightarrow> bytes" where
  "marshal_membership m = json_struct [(''role'', json_string (mp_Role m)), (''inviteTime'', json_string (mp_InviteTime m)),
     (''sharedBy'', marshal_author (mp_SharedBy m))]"

definition marshal_digests :: "ClaimedDigests \<Rightarrow> bytes" where
  "marshal_digests d = json_struct (string_omit ''sha1'' (cg_SHA1 d) @ [(''sha1Verified'', json_bool (cg_SHA1Verified d))])"

definition raw_omit :: "(bytes \<Rightarrow> bytes) \<Rightarrow> bytes \<Rightarrow> bytes \<Rightarrow> (bytes \<times> bytes) list" where
  "raw_omit compact k v = omitempty (v = []) k (compact v)"

definition marshal_revision :: "(bytes \<Rightarrow> bytes) \<Rightarrow> Revision \<Rightarrow> bytes" where
  "marshal_revision compact r = json_struct ([(''uid'', json_string (rv_UID r)), (''state'', json_string (rv_State r)),
     (''creationTime'', json_string (rv_CreationTime r)), (''contentAuthor'', marshal_author (rv_ContentAuthor r)),
     (''storageSize'', json_int (rv_StorageSize r)), (''isImported'', json_bool (rv_IsImported r))] @
     int_omit ''claimedSize'' (rv_ClaimedSize r) @ string_omit ''claimedModificationTime'' (rv_ClaimedModificationTime r) @
     marshal_option marshal_digests ''claimedDigests'' (rv_ClaimedDigests r) @
     raw_omit compact ''claimedAdditionalMetadata'' (rv_ClaimedAdditionalMetadata r))"

definition marshal_folder_info :: "FolderInfo \<Rightarrow> bytes" where
  "marshal_folder_info f = json_struct (string_omit ''claimedModificationTime'' (fi_ClaimedModificationTime f) @
     [(''isImported'', json_bool (fi_IsImported f))])"

definition marshal_entity :: "(bytes \<Rightarrow> bytes) \<Rightarrow> NodeEntity \<Rightarrow> bytes" where
  "marshal_entity compact n = json_struct ([(''uid'', json_string (ne_UID n))] @ string_omit ''parentUid'' (ne_ParentUID n) @
     [(''name'', marshal_name (ne_Name n)), (''keyAuthor'', marshal_author (ne_KeyAuthor n)),
      (''nameAuthor'', marshal_author (ne_NameAuthor n)), (''directRole'', json_string (ne_DirectRole n))] @
     marshal_option marshal_membership ''membership'' (ne_Membership n) @
     [(''ownedBy'', marshal_owner (ne_OwnedBy n)), (''type'', json_string (ne_Type n))] @ string_omit ''mediaType'' (ne_MediaType n) @
     [(''isShared'', json_bool (ne_IsShared n)), (''isSharedByUrl'', json_bool (ne_IsSharedByURL n))] @
     string_omit ''deprecatedShareId'' (ne_DeprecatedShareID n) @
     [(''creationTime'', json_string (ne_CreationTime n)), (''modificationTime'', json_string (ne_ModificationTime n))] @
     string_omit ''trashTime'' (ne_TrashTime n) @ int_omit ''totalStorageSize'' (ne_TotalStorageSize n) @
     marshal_option (marshal_revision compact) ''activeRevision'' (ne_ActiveRevision n) @
     marshal_option marshal_folder_info ''folder'' (ne_Folder n) @
     [(''treeEventScopeId'', json_string (ne_TreeEventScopeID n))] @ raw_omit compact ''errors'' (ne_Errors n))"

definition marshal_listing :: "(bytes \<Rightarrow> bytes) \<Rightarrow> listDriveResult \<Rightarrow> bytes" where
  "marshal_listing compact r = json_struct ([(''path'', json_string (ld_Path r))] @
     marshal_option (\<lambda>xs. json_array (map marshal_section xs)) ''sections'' (ld_Sections r) @
     marshal_option (\<lambda>xs. json_array (map marshal_device xs)) ''devices'' (ld_Devices r) @
     marshal_option (\<lambda>xs. json_array (map (marshal_entity compact) xs)) ''entries'' (ld_Entries r) @
     flag_omit ''truncated'' (ld_Truncated r))"

definition marshal_member :: "Member \<Rightarrow> bytes" where
  "marshal_member m = json_struct ([(''uid'', json_string (me_UID m)), (''invitationTime'', json_string (me_InvitationTime m)),
     (''addedByEmail'', marshal_author (me_AddedByEmail m)), (''inviteeEmail'', json_string (me_InviteeEmail m)),
     (''role'', json_string (me_Role m))] @ string_omit ''state'' (me_State m))"

definition marshal_url :: "sharingURLAccess \<Rightarrow> bytes" where
  "marshal_url u = json_struct ([(''uid'', json_string (su_UID u)), (''creationTime'', json_string (su_CreationTime u)),
     (''role'', json_string (su_Role u)), (''url'', json_string (su_URL u))] @ string_omit ''expirationTime'' (su_ExpirationTime u) @
     [(''numberOfInitializedDownloads'', json_int (su_NumberOfInitializedDownloads u))])"

definition marshal_sharing :: "sharingStatusResult \<Rightarrow> bytes" where
  "marshal_sharing r = json_struct ([(''shared'', json_bool (sx_Shared r)),
     (''protonInvitations'', json_array (map marshal_member (sx_ProtonInvitations r))),
     (''nonProtonInvitations'', json_array (map marshal_member (sx_NonProtonInvitations r))),
     (''members'', json_array (map marshal_member (sx_Members r)))] @ marshal_option marshal_url ''urlAccess'' (sx_URLAccess r) @
     [(''editorsCanShare'', json_bool (sx_EditorsCanShare r))] @ flag_omit ''truncated'' (sx_Truncated r))"

fun marshal_drive :: "(bytes \<Rightarrow> bytes) \<Rightarrow> drive_result \<Rightarrow> bytes" where
  "marshal_drive compact (ListingResult r) = marshal_listing compact r"
| "marshal_drive compact (NodeResult n) = marshal_entity compact n"
| "marshal_drive compact (SharingResult r) = marshal_sharing r"

section \<open>Bounded encoding\<close>

fun shrink_drive :: "drive_result \<Rightarrow> drive_result option" where
  "shrink_drive (ListingResult r) =
     (let cut = (\<lambda>r. Some (ListingResult (r\<lparr>ld_Truncated := True\<rparr>))) in
      case ld_Entries r of
        Some (x # xs) \<Rightarrow> cut (r\<lparr>ld_Entries := Some (halve (x # xs))\<rparr>)
      | _ \<Rightarrow> (case ld_Devices r of
          Some (x # xs) \<Rightarrow> cut (r\<lparr>ld_Devices := Some (halve (x # xs))\<rparr>)
        | _ \<Rightarrow> (case ld_Sections r of
            Some (x # xs) \<Rightarrow> cut (r\<lparr>ld_Sections := Some (halve (x # xs))\<rparr>)
          | _ \<Rightarrow> None)))"
| "shrink_drive (NodeResult n) = None"
| "shrink_drive (SharingResult r) =
     (let cut = (\<lambda>r. Some (SharingResult (r\<lparr>sx_Truncated := True\<rparr>)));
          p = length (sx_ProtonInvitations r); n = length (sx_NonProtonInvitations r); m = length (sx_Members r) in
      if max p n < m then cut (r\<lparr>sx_Members := halve (sx_Members r)\<rparr>)
      else if p < n then cut (r\<lparr>sx_NonProtonInvitations := halve (sx_NonProtonInvitations r)\<rparr>)
      else if 0 < p then cut (r\<lparr>sx_ProtonInvitations := halve (sx_ProtonInvitations r)\<rparr>)
      else (case sx_URLAccess r of None \<Rightarrow> None | Some u \<Rightarrow> cut (r\<lparr>sx_URLAccess := None\<rparr>)))"

definition option_length :: "'a list option \<Rightarrow> nat" where
  "option_length v = (case v of None \<Rightarrow> 0 | Some xs \<Rightarrow> length xs)"

fun drive_weight :: "drive_result \<Rightarrow> nat" where
  "drive_weight (ListingResult r) = option_length (ld_Entries r) + option_length (ld_Devices r) + option_length (ld_Sections r)"
| "drive_weight (NodeResult n) = 0"
| "drive_weight (SharingResult r) = length (sx_ProtonInvitations r) + length (sx_NonProtonInvitations r) + length (sx_Members r) +
     (case sx_URLAccess r of None \<Rightarrow> 0 | Some u \<Rightarrow> 1)"

lemma halve_shorter: "xs \<noteq> [] \<Longrightarrow> length (halve xs) < length xs"
  by (cases xs) (simp_all add: halve_def)

lemma shrink_drive_smaller: "shrink_drive r = Some r' \<Longrightarrow> drive_weight r' < drive_weight r"
proof (induction r rule: shrink_drive.induct)
  case (1 r)
  then show ?case
    using halve_shorter [of "the (ld_Entries r)"] halve_shorter [of "the (ld_Devices r)"] halve_shorter [of "the (ld_Sections r)"]
    by (auto simp: option_length_def Let_def split: option.splits list.splits)
next
  case (3 r)
  then show ?case
    using halve_shorter [of "sx_ProtonInvitations r"] halve_shorter [of "sx_NonProtonInvitations r"] halve_shorter [of "sx_Members r"]
    by (auto simp: Let_def split: if_splits option.splits)
qed simp

function encode_drive_loop :: "(bytes \<Rightarrow> bytes) \<Rightarrow> drive_result \<Rightarrow> bool \<Rightarrow> bytes \<times> bool" where
  "encode_drive_loop compact r clipped =
     (if length (marshal_drive compact r) \<le> maxToolResultBytes then (marshal_drive compact r, clipped)
      else (case shrink_drive r of
          None \<Rightarrow> (bare_result, True)
        | Some r' \<Rightarrow> encode_drive_loop compact r' True))"
  by pat_completeness auto
termination by (relation "measure (\<lambda>(compact, r, clipped). drive_weight r)") (auto simp: shrink_drive_smaller)

declare encode_drive_loop.simps [simp del]
declare encode_drive_loop.simps [code]

definition encodeDrive :: "(bytes \<Rightarrow> bytes) \<Rightarrow> drive_result \<Rightarrow> bytes \<times> bool" where
  "encodeDrive compact r = encode_drive_loop compact r False"

section \<open>The handshake gate\<close>

type_synonym 'w drive_state = "bool \<times> 'w"

datatype drive_failure = DriveFailure drive_code | ContextFailure ctx_error

definition ensure :: "'w drive_env \<Rightarrow> drive_client \<Rightarrow> ctx_error option \<Rightarrow> 'w drive_state \<Rightarrow> drive_failure option \<times> 'w drive_state" where
  "ensure env cl acquired st = (case st of (verified, w) \<Rightarrow>
     if verified then (None, (verified, w))
     else (case acquired of
         Some e \<Rightarrow> (Some (ContextFailure e), (verified, w))
       | None \<Rightarrow> (case Handshake env cl w of
           (Some c, w1) \<Rightarrow> (Some (DriveFailure c), (verified, w1))
         | (None, w1) \<Rightarrow> (None, (True, w1)))))"

definition mapDriveError :: "drive_failure \<Rightarrow> tool_code" where
  "mapDriveError e = (case e of
      ContextFailure Canceled \<Rightarrow> errCanceled
    | ContextFailure DeadlineExceeded \<Rightarrow> errTimedOut
    | DriveFailure CodeTimedOut \<Rightarrow> errTimedOut
    | DriveFailure CodeCanceled \<Rightarrow> errCanceled
    | DriveFailure CodeOutputOverflow \<Rightarrow> errBoundsExceeded
    | DriveFailure _ \<Rightarrow> errUnavailable)"

section \<open>The tools\<close>

record listDriveInput =
  ldi_Path :: bytes
  ldi_Type :: bytes
  ldi_Limit :: "int option"

text \<open>The decoding of arguments, and \<open>compact\<close>, belong to \<^verbatim>\<open>encoding/json\<close>.\<close>

record drive_tool_env =
  dt_fold_eq :: "bytes \<Rightarrow> bytes \<Rightarrow> bool"
  dt_decoder :: "bytes \<Rightarrow> decoder"
  dt_decode_list :: "bytes \<Rightarrow> (listDriveInput \<times> bool) option"
  dt_decode_path :: "bytes \<Rightarrow> (bytes \<times> bool) option"
  dt_compact :: "bytes \<Rightarrow> bytes"

definition decodeDriveArguments :: "drive_tool_env \<Rightarrow> (bytes \<Rightarrow> ('a \<times> bool) option) \<Rightarrow> bytes \<Rightarrow> 'a option" where
  "decodeDriveArguments tenv decode arguments = DecodeObject (dt_fold_eq tenv) (dt_decoder tenv) decode arguments maxToolArgumentsBytes"

definition clampDriveLimit :: "int option \<Rightarrow> int \<Rightarrow> int \<Rightarrow> int option" where
  "clampDriveLimit v fallback ceiling' = (case v of
      None \<Rightarrow> Some fallback
    | Some n \<Rightarrow> if n \<le> 0 then None else if ceiling' < n then Some ceiling' else Some n)"

definition boundEntries :: "'a list \<Rightarrow> int \<Rightarrow> 'a list \<times> bool" where
  "boundEntries entries limit = (if limit < int (length entries) then (take (nat limit) entries, True) else (entries, False))"

abbreviation maxListEntries :: int where "maxListEntries \<equiv> 200"
abbreviation defaultListEntries :: int where "defaultListEntries \<equiv> 100"
abbreviation maxSharingMembers :: int where "maxSharingMembers \<equiv> 100"

type_synonym 'w drive_run = "'w drive_state \<Rightarrow> (tool_code + drive_result) \<times> 'w drive_state"

text \<open>A data command behind the gate: \<open>k\<close> makes the result of what the command returned.\<close>

definition gated :: "'w drive_env \<Rightarrow> drive_client \<Rightarrow> ctx_error option \<Rightarrow> ('w \<Rightarrow> (drive_code + 'a) \<times> 'w) \<Rightarrow> ('a \<Rightarrow> drive_result) \<Rightarrow>
    'w drive_run" where
  "gated env cl acquired command k st = (case ensure env cl acquired st of
      (Some e, st1) \<Rightarrow> (Inl (mapDriveError e), st1)
    | (None, (verified, w1)) \<Rightarrow> (case command w1 of
        (Inl c, w2) \<Rightarrow> (Inl (mapDriveError (DriveFailure c)), (verified, w2))
      | (Inr x, w2) \<Rightarrow> (Inr (k x), (verified, w2))))"

definition listing_result :: "bytes \<Rightarrow> int \<Rightarrow> ListResult \<Rightarrow> drive_result" where
  "listing_result path limit listing = ListingResult
     (if path = ''/'' then (case boundEntries (ls_Sections listing) limit of (xs, truncated) \<Rightarrow>
        \<lparr>ld_Path = path, ld_Sections = Some xs, ld_Devices = None, ld_Entries = None, ld_Truncated = truncated\<rparr>)
      else if path = ''/devices'' then (case boundEntries (ls_Devices listing) limit of (xs, truncated) \<Rightarrow>
        \<lparr>ld_Path = path, ld_Sections = None, ld_Devices = Some xs, ld_Entries = None, ld_Truncated = truncated\<rparr>)
      else (case boundEntries (ls_Nodes listing) limit of (xs, truncated) \<Rightarrow>
        \<lparr>ld_Path = path, ld_Sections = None, ld_Devices = None, ld_Entries = Some xs, ld_Truncated = truncated\<rparr>))"

definition runListDriveEntries :: "drive_tool_env \<Rightarrow> 'w drive_env \<Rightarrow> drive_client \<Rightarrow> ctx_error option \<Rightarrow> bytes \<Rightarrow> 'w drive_run" where
  "runListDriveEntries tenv env cl acquired arguments st = (case decodeDriveArguments tenv (dt_decode_list tenv) arguments of
      None \<Rightarrow> (Inl errInvalidArgument, st)
    | Some input \<Rightarrow>
        if \<not> validDrivePath (ldi_Path input) then (Inl errInvalidArgument, st)
        else if ldi_Type input \<noteq> [] \<and> ldi_Type input \<noteq> ''file'' \<and> ldi_Type input \<noteq> ''folder'' then (Inl errInvalidArgument, st)
        else (case clampDriveLimit (ldi_Limit input) defaultListEntries maxListEntries of
            None \<Rightarrow> (Inl errInvalidArgument, st)
          | Some limit \<Rightarrow> gated env cl acquired (drive_List env cl (ldi_Path input) (ldi_Type input)) (listing_result (ldi_Path input) limit) st))"

definition runGetDriveMetadata :: "drive_tool_env \<Rightarrow> 'w drive_env \<Rightarrow> drive_client \<Rightarrow> ctx_error option \<Rightarrow> bytes \<Rightarrow> 'w drive_run" where
  "runGetDriveMetadata tenv env cl acquired arguments st = (case decodeDriveArguments tenv (dt_decode_path tenv) arguments of
      None \<Rightarrow> (Inl errInvalidArgument, st)
    | Some path \<Rightarrow>
        if \<not> validDrivePath path then (Inl errInvalidArgument, st)
        else gated env cl acquired (drive_Info env cl path) NodeResult st)"

definition mapSharingStatus :: "SharingStatus \<Rightarrow> sharingStatusResult" where
  "mapSharingStatus status =
     (let info = (case sg_Info status of
            None \<Rightarrow> \<lparr>sh_ProtonInvitations = [], sh_NonProtonInvitations = [], sh_Members = [], sh_URLAccess = None, sh_EditorsCanShare = False\<rparr>
          | Some info \<Rightarrow> info) in
      case (boundEntries (sh_ProtonInvitations info) maxSharingMembers, boundEntries (sh_NonProtonInvitations info) maxSharingMembers,
        boundEntries (sh_Members info) maxSharingMembers) of ((ps, pt), (ns, nt), (ms, mt)) \<Rightarrow>
      \<lparr>sx_Shared = (sg_Shared status \<and> sg_Info status \<noteq> None), sx_ProtonInvitations = ps, sx_NonProtonInvitations = ns, sx_Members = ms,
       sx_URLAccess = map_option (\<lambda>u. \<lparr>su_UID = ul_UID u, su_CreationTime = ul_CreationTime u, su_Role = ul_Role u, su_URL = ul_URL u,
         su_ExpirationTime = ul_ExpirationTime u, su_NumberOfInitializedDownloads = ul_NumberOfInitializedDownloads u\<rparr>) (sh_URLAccess info),
       sx_EditorsCanShare = sh_EditorsCanShare info, sx_Truncated = (pt \<or> nt \<or> mt)\<rparr>)"

definition runGetDriveSharingStatus :: "drive_tool_env \<Rightarrow> 'w drive_env \<Rightarrow> drive_client \<Rightarrow> ctx_error option \<Rightarrow> bytes \<Rightarrow> 'w drive_run" where
  "runGetDriveSharingStatus tenv env cl acquired arguments st = (case decodeDriveArguments tenv (dt_decode_path tenv) arguments of
      None \<Rightarrow> (Inl errInvalidArgument, st)
    | Some path \<Rightarrow>
        if \<not> validDrivePath path then (Inl errInvalidArgument, st)
        else gated env cl acquired (drive_SharingStatus env cl path) (\<lambda>status. SharingResult (mapSharingStatus status)) st)"

section \<open>The tool call\<close>

datatype drive_tool = list_drive_entries | get_drive_metadata | get_drive_sharing_status

fun run_drive_named :: "drive_tool \<Rightarrow> drive_tool_env \<Rightarrow> 'w drive_env \<Rightarrow> drive_client \<Rightarrow> ctx_error option \<Rightarrow> bytes \<Rightarrow> 'w drive_run" where
  "run_drive_named list_drive_entries = runListDriveEntries"
| "run_drive_named get_drive_metadata = runGetDriveMetadata"
| "run_drive_named get_drive_sharing_status = runGetDriveSharingStatus"

definition runDriveTool :: "drive_tool \<Rightarrow> drive_tool_env \<Rightarrow> 'w drive_env \<Rightarrow> drive_client option \<Rightarrow> ctx_error option \<Rightarrow> bytes \<Rightarrow>
    'w drive_run" where
  "runDriveTool tool tenv env cli acquired arguments st = (case cli of
      None \<Rightarrow> (Inl errUnavailable, st)
    | Some cl \<Rightarrow> run_drive_named tool tenv env cl acquired arguments st)"

fun drive_tool_text :: "drive_tool \<Rightarrow> bytes" where
  "drive_tool_text list_drive_entries = ''list_drive_entries''"
| "drive_tool_text get_drive_metadata = ''get_drive_metadata''"
| "drive_tool_text get_drive_sharing_status = ''get_drive_sharing_status''"

definition sanitizeDriveTool :: "bytes \<Rightarrow> bytes" where
  "sanitizeDriveTool tool = (if tool \<in> {''list_drive_entries'', ''get_drive_metadata'', ''get_drive_sharing_status''}
     then tool else ''unknown_tool'')"

definition sanitizeDriveCode :: "bytes \<Rightarrow> bytes" where
  "sanitizeDriveCode c = (if c \<in> {[], ''invalid_argument'', ''bounds_exceeded'', ''timed_out'', ''canceled'', ''unavailable'', ''internal''}
     then c else ''internal'')"

definition drive_audit :: "bool \<Rightarrow> bytes \<Rightarrow> bytes \<Rightarrow> bytes \<Rightarrow> bool \<Rightarrow> bytes list" where
  "drive_audit auditing tool outcome c truncated = (if auditing then [json_struct ([(''event'', json_string ''tool_call''),
     (''tool'', json_string (sanitizeDriveTool tool)), (''outcome'', json_string (sanitizeOutcome outcome))] @
     string_omit ''code'' (sanitizeDriveCode c) @ flag_omit ''truncated'' truncated) @ [LF]] else [])"

fun wasTruncated :: "drive_result \<Rightarrow> bool" where
  "wasTruncated (ListingResult r) = ld_Truncated r"
| "wasTruncated (NodeResult n) = False"
| "wasTruncated (SharingResult r) = sx_Truncated r"

definition makeDriveHandler :: "bool \<Rightarrow> drive_tool \<Rightarrow> drive_tool_env \<Rightarrow> 'w drive_env \<Rightarrow> drive_client option \<Rightarrow> ctx_error option \<Rightarrow> bytes \<Rightarrow>
    'w drive_state \<Rightarrow> tool_reply \<times> bytes list \<times> 'w drive_state" where
  "makeDriveHandler auditing tool tenv env cli acquired arguments st = (case runDriveTool tool tenv env cli acquired arguments st of
      (Inl c, st1) \<Rightarrow> (errorResult c, drive_audit auditing (drive_tool_text tool) ''error'' (tool_code_text c) False, st1)
    | (Inr result, st1) \<Rightarrow> (case encodeDrive (dt_compact tenv) result of (encoded, clipped) \<Rightarrow>
        (\<lparr>rp_IsError = False, rp_Text = encoded\<rparr>,
         drive_audit auditing (drive_tool_text tool) ''ok'' [] (clipped \<or> wasTruncated result), st1)))"

end
