(* ===== verification/Drive_Safety.thy ===== *)
theory Drive_Safety
  imports Drive_Tools Tool_Safety
begin

text \<open>
  What the Drive server runs and tells: only the frozen command lines on canonical paths, after a
  handshake with the pinned release; bounded replies; and never the password of a public link.
\<close>

section \<open>Paths\<close>

lemma join_split_byte: "join_byte c (split_byte c s) = s"
proof (induction s)
  case (Cons x xs)
  obtain p ps where s: "split_byte c xs = p # ps" by (metis list.exhaust split_byte_not_Nil)
  with Cons show ?case by (cases ps) auto
qed simp

lemma split_byte_pieces: "s' \<in> set (split_byte c s) \<Longrightarrow> c \<notin> set s'"
proof (induction s arbitrary: s')
  case (Cons x xs)
  obtain p ps where s: "split_byte c xs = p # ps" by (metis list.exhaust split_byte_not_Nil)
  with Cons show ?case by (auto split: if_splits)
qed simp

text \<open>The canonical form of an absolute path.\<close>

definition canonical_path :: "bytes \<Rightarrow> bool" where
  "canonical_path path \<longleftrightarrow> path = ''/'' \<or> (\<exists>segments. segments \<noteq> [] \<and> path = CHR ''/'' # join_byte (CHR ''/'') segments \<and>
     (\<forall>s \<in> set segments. s \<noteq> [] \<and> s \<noteq> ''.'' \<and> s \<noteq> ''..'' \<and> CHR ''/'' \<notin> set s))"

lemma suffix_last: "has_suffix s [c] \<longleftrightarrow> s \<noteq> [] \<and> last s = c"
  by (cases s rule: rev_cases) (auto simp: has_suffix_def)

lemma join_byte_last:
  "segments \<noteq> [] \<Longrightarrow> \<forall>s \<in> set segments. s \<noteq> [] \<and> c \<notin> set s \<Longrightarrow> join_byte c segments \<noteq> [] \<and> last (join_byte c segments) \<noteq> c"
  by (induction c segments rule: join_byte.induct) auto

text \<open>
  A path argument is accepted exactly when it is valid UTF-8 of at most 1024 bytes without control
  characters and in the one canonical form: the root, or segments that are not empty, not a dot and
  not two dots, each after one slash. Such a path is never taken for a flag by the CLI.
\<close>

theorem validDrivePath_exact:
  "validDrivePath path \<longleftrightarrow> canonical_path path \<and> length path \<le> maxDrivePathBytes \<and> valid_utf8 path \<and>
     list_all (\<lambda>c. 0x20 \<le> byte_val c \<and> byte_val c \<noteq> 0x7f) path"
proof -
  let ?chars = "list_all (\<lambda>c. 0x20 \<le> byte_val c \<and> byte_val c \<noteq> 0x7f) path"
  have chars: "\<not> list_ex (\<lambda>c. byte_val c < 0x20 \<or> byte_val c = 0x7f) path \<longleftrightarrow> ?chars"
    by (auto simp: list_ex_iff list_all_iff not_less)
  have canon: "canonical_path path \<longleftrightarrow> path \<noteq> [] \<and> hd path = CHR ''/'' \<and> (path = ''/'' \<or> \<not> has_suffix path ''/'' \<and>
      list_all (\<lambda>s. s \<noteq> [] \<and> s \<noteq> ''.'' \<and> s \<noteq> ''..'') (split_byte (CHR ''/'') (tl path)))" (is "_ \<longleftrightarrow> ?r")
  proof
    assume c: "canonical_path path"
    show ?r
    proof (cases "path = ''/''")
      case False
      with c obtain ss where ss: "ss \<noteq> []" "path = CHR ''/'' # join_byte (CHR ''/'') ss"
        "\<forall>s \<in> set ss. s \<noteq> [] \<and> s \<noteq> ''.'' \<and> s \<noteq> ''..'' \<and> CHR ''/'' \<notin> set s" by (auto simp: canonical_path_def)
      then have "split_byte (CHR ''/'') (tl path) = ss" by (simp add: split_join_byte)
      moreover have "\<not> has_suffix path ''/''" using join_byte_last [OF ss(1), of "CHR ''/''"] ss(2,3) by (auto simp: suffix_last)
      ultimately show ?thesis using ss by (simp add: list_all_iff)
    qed simp
  next
    assume r: ?r
    then have p: "path = CHR ''/'' # join_byte (CHR ''/'') (split_byte (CHR ''/'') (tl path))"
      by (cases path) (simp_all add: join_split_byte)
    show "canonical_path path"
    proof (cases "path = ''/''")
      case False
      with r p show ?thesis unfolding canonical_path_def
        by (intro disjI2 exI [of _ "split_byte (CHR ''/'') (tl path)"]) (auto simp: list_all_iff dest: split_byte_pieces)
    qed (simp add: canonical_path_def)
  qed
  show ?thesis unfolding validDrivePath_def canon using chars by auto
qed

lemma validDrivePath_operand: "validDrivePath path \<Longrightarrow> isOperand path"
  by (cases path) (auto simp: validDrivePath_def isOperand_def has_prefix_def split: if_splits)

section \<open>What is run\<close>

definition data_ok :: "bytes list \<Rightarrow> bool" where
  "data_ok arguments \<longleftrightarrow> 3 < length arguments \<and> validDrivePath (arguments ! 2) \<and> data_command (arguments ! 2) arguments"

text \<open>
  A log of the child processes of one client, read from its start: each is the client's child for its
  arguments, and they are the version query, or, once a pinned release has answered, a data command
  on a canonical path.
\<close>

definition entry_ok :: "'w drive_env \<Rightarrow> drive_client \<Rightarrow> bool \<Rightarrow> spawn \<times> process_end \<Rightarrow> bool" where
  "entry_ok env cl pinned x \<longleftrightarrow> fst x = child env cl (sp_arguments (fst x)) \<and>
     (sp_arguments (fst x) = [''version''] \<or> pinned \<and> data_ok (sp_arguments (fst x)))"

fun guarded_from :: "'w drive_env \<Rightarrow> drive_client \<Rightarrow> bool \<Rightarrow> process_log \<Rightarrow> bool" where
  "guarded_from env cl pinned [] = True"
| "guarded_from env cl pinned (x # xs) = (entry_ok env cl pinned x \<and> guarded_from env cl (pinned \<or> pinned_entry x) xs)"

lemma guarded_append:
  "guarded_from env cl pinned (l @ [x]) \<longleftrightarrow> guarded_from env cl pinned l \<and> entry_ok env cl (pinned \<or> list_ex pinned_entry l) x"
  by (induction l arbitrary: pinned) (simp_all add: disj_assoc)

definition server_ok :: "'w drive_env \<Rightarrow> drive_client \<Rightarrow> nat \<Rightarrow> ('w \<times> process_log) drive_state \<Rightarrow> bool" where
  "server_ok env cl n st \<longleftrightarrow> (case st of (verified, (w, l)) \<Rightarrow>
     guarded_from env cl False l \<and> length l \<le> n \<and> (verified \<longrightarrow> list_ex pinned_entry l))"

text \<open>A command that starts at most one child, for a data command line.\<close>

definition one_data_command :: "'w drive_env \<Rightarrow> drive_client \<Rightarrow> ('w \<times> process_log \<Rightarrow> 'r \<times> ('w \<times> process_log)) \<Rightarrow> bool" where
  "one_data_command env cl command \<longleftrightarrow> (\<forall>w l r w' l'. command (w, l) = (r, (w', l')) \<longrightarrow>
     l' = l \<or> (\<exists>arguments p. data_ok arguments \<and> l' = l @ [(child env cl arguments, p)]))"

lemma invoke_one:
  assumes "\<And>x. snd (command x) = x \<or> snd (command x) = snd (invoke (recorded env) cl arguments requireJSON x)"
    and "0 \<le> cl_maxBytes cl" and "data_ok arguments"
  shows "one_data_command env cl command"
  unfolding one_data_command_def
proof (intro allI impI)
  fix w l r w' l' assume c: "command (w, l) = (r, (w', l'))"
  obtain q w1 l1 where i: "invoke (recorded env) cl arguments requireJSON (w, l) = (q, (w1, l1))" by (metis prod.exhaust)
  have "l' = l \<or> l' = l1" using assms(1) [of "(w, l)"] by (auto simp: c i)
  then show "l' = l \<or> (\<exists>arguments p. data_ok arguments \<and> l' = l @ [(child env cl arguments, p)])"
    using invoke_recorded [OF i assms(2)] assms(3) by (auto split: if_splits)
qed

lemma data_ok_simps:
  "validDrivePath p \<Longrightarrow> data_ok [''filesystem'', ''list'', p, ''--json'']"
  "validDrivePath p \<Longrightarrow> data_ok [''filesystem'', ''list'', p, ''--type'', ''file'', ''--json'']"
  "validDrivePath p \<Longrightarrow> data_ok [''filesystem'', ''list'', p, ''--type'', ''folder'', ''--json'']"
  "validDrivePath p \<Longrightarrow> data_ok [''filesystem'', ''info'', p, ''--json'']"
  "validDrivePath p \<Longrightarrow> data_ok [''sharing'', ''status'', p, ''--json'']"
  by (simp_all add: data_ok_def data_command_def)

lemma drive_List_one:
  assumes "validDrivePath path" and "0 \<le> cl_maxBytes cl"
  shows "one_data_command env cl (drive_List (recorded env) cl path nodeType)"
proof -
  let ?t = "if nodeType = ''file'' \<or> nodeType = ''folder'' then nodeType else []"
  have ok: "data_ok ([''filesystem'', ''list'', path] @ (if ?t \<noteq> [] then [''--type'', ?t] else []) @ [''--json''])"
    using data_ok_simps(1-3) [OF assms(1)] by auto
  show ?thesis
    by (rule invoke_one [OF _ assms(2) ok, where requireJSON = True]) (simp add: drive_List_def split: prod.split sum.split)
qed

lemma drive_Info_one:
  assumes "validDrivePath path" and "0 \<le> cl_maxBytes cl"
  shows "one_data_command env cl (drive_Info (recorded env) cl path)"
  by (rule invoke_one [OF _ assms(2) data_ok_simps(4) [OF assms(1)], where requireJSON = True])
    (simp add: drive_Info_def split: prod.split sum.split)

lemma drive_SharingStatus_one:
  assumes "validDrivePath path" and "0 \<le> cl_maxBytes cl"
  shows "one_data_command env cl (drive_SharingStatus (recorded env) cl path)"
  by (rule invoke_one [OF _ assms(2) data_ok_simps(5) [OF assms(1)], where requireJSON = False])
    (simp add: drive_SharingStatus_def split: prod.split sum.split)

lemma ensure_ok:
  assumes "server_ok env cl n (verified, (w, l))" and "ensure (recorded env) cl acquired (verified, (w, l)) = (e, (verified', (w', l')))"
    and "0 \<le> cl_maxBytes cl"
  shows "server_ok env cl (n + 1) (verified', (w', l')) \<and> (e = None \<longrightarrow> verified')"
proof (cases "verified \<or> acquired \<noteq> None")
  case True
  with assms(1,2) show ?thesis by (auto simp: ensure_def server_ok_def split: if_splits option.splits)
next
  case False
  obtain q w1 l1 where h: "Handshake (recorded env) cl (w, l) = (q, (w1, l1))" by (metis prod.exhaust)
  from Handshake_recorded [OF h assms(3)] obtain p where l1: "l1 = l @ [(child env cl [''version''], p)]"
    and q: "q = None \<longrightarrow> pinned_entry (child env cl [''version''], p)" by blast
  have "guarded_from env cl False l1" using assms(1) by (simp add: l1 guarded_append server_ok_def entry_ok_def child_def)
  moreover have "length l1 \<le> n + 1" using assms(1) by (simp add: l1 server_ok_def)
  moreover have "w' = w1 \<and> l' = l1 \<and> e = map_option DriveFailure q \<and> (verified' \<longleftrightarrow> q = None)"
    using assms(2) False h by (cases q) (simp_all add: ensure_def)
  ultimately show ?thesis using q by (simp add: server_ok_def l1)
qed

lemma gated_ok:
  assumes "server_ok env cl n (verified, (w, l))" and "one_data_command env cl command" and "0 \<le> cl_maxBytes cl"
    and "gated (recorded env) cl acquired command k (verified, (w, l)) = (r, st')"
  shows "server_ok env cl (n + 2) st'"
proof -
  obtain e v1 w1 l1 where g: "ensure (recorded env) cl acquired (verified, (w, l)) = (e, (v1, (w1, l1)))" by (metis prod.exhaust)
  note ok = ensure_ok [OF assms(1) g assms(3)]
  show ?thesis
  proof (cases e)
    case (Some x)
    with assms(4) g ok show ?thesis by (auto simp: gated_def server_ok_def)
  next
    case None
    obtain x w2 l2 where c: "command (w1, l1) = (x, (w2, l2))" by (metis prod.exhaust)
    with assms(2) have l2: "l2 = l1 \<or> (\<exists>arguments p. data_ok arguments \<and> l2 = l1 @ [(child env cl arguments, p)])"
      unfolding one_data_command_def by blast
    have st': "st' = (v1, (w2, l2))" using assms(4) g None c by (auto simp: gated_def split: sum.splits)
    from ok None have v: "server_ok env cl (n + 1) (True, (w1, l1))" and v1: v1 by auto
    then show ?thesis using l2 unfolding st' server_ok_def by (auto simp: guarded_append entry_ok_def child_def)
  qed
qed

text \<open>A session: calls of any tools with any arguments, each waiting for the gate with its own outcome.\<close>

fun drive_session :: "drive_tool_env \<Rightarrow> 'w drive_env \<Rightarrow> drive_client \<Rightarrow> (drive_tool \<times> ctx_error option \<times> bytes) list \<Rightarrow>
    'w drive_state \<Rightarrow> 'w drive_state" where
  "drive_session tenv env cl [] st = st"
| "drive_session tenv env cl ((tool, acquired, arguments) # calls) st =
     (case makeDriveHandler True tool tenv env (Some cl) acquired arguments st of (reply, lines, st') \<Rightarrow> drive_session tenv env cl calls st')"

lemma tool_ok:
  assumes "server_ok env cl n st" and "0 \<le> cl_maxBytes cl"
    and "runDriveTool tool tenv (recorded env) (Some cl) acquired arguments st = (r, st')"
  shows "server_ok env cl (n + 2) st'"
proof -
  obtain v w l where st: "st = (v, (w, l))" by (metis prod.exhaust)
  have same: "server_ok env cl (n + 2) st" using assms(1) by (auto simp: server_ok_def)
  show ?thesis
  proof (cases tool)
    case list_drive_entries
    with assms same show ?thesis unfolding st
      by (auto simp: runDriveTool_def runListDriveEntries_def split: option.splits if_splits dest: gated_ok [OF _ drive_List_one])
  next
    case get_drive_metadata
    with assms same show ?thesis unfolding st
      by (auto simp: runDriveTool_def runGetDriveMetadata_def split: option.splits if_splits dest: gated_ok [OF _ drive_Info_one])
  next
    case get_drive_sharing_status
    with assms same show ?thesis unfolding st
      by (auto simp: runDriveTool_def runGetDriveSharingStatus_def split: option.splits if_splits dest: gated_ok [OF _ drive_SharingStatus_one])
  qed
qed

lemma session_ok:
  "server_ok env cl n st \<Longrightarrow> 0 \<le> cl_maxBytes cl \<Longrightarrow>
     server_ok env cl (n + 2 * length calls) (drive_session tenv (recorded env) cl calls st)"
proof (induction calls arbitrary: n st)
  case (Cons c calls)
  obtain tool acquired arguments where c: "c = (tool, acquired, arguments)" by (metis prod.exhaust)
  obtain r st1 where t: "runDriveTool tool tenv (recorded env) (Some cl) acquired arguments st = (r, st1)" by (metis prod.exhaust)
  have "drive_session tenv (recorded env) cl (c # calls) st = drive_session tenv (recorded env) cl calls st1"
    by (simp add: c makeDriveHandler_def t split: sum.split prod.split)
  with Cons.IH [OF tool_ok [OF Cons.prems t] Cons.prems(2)] show ?case by (simp add: algebra_simps)
qed simp

lemma newClient_bounds: "newClient supported opts = Inr cl \<Longrightarrow> 0 < cl_maxBytes cl \<and> 0 < cl_timeout cl"
  by (auto simp: newClient_def split: if_splits)

text \<open>
  C22. Whatever the options of the operator, the tools called, their arguments and the behaviour of the CLI
  binary: every process the server starts is the configured binary in the root directory with the
  isolated environment, for the version query or one of the frozen read-only command lines on a
  canonical path; no data command is started before a version query was answered, without an error,
  by the banner of the pinned release; and one call starts at most two processes.
\<close>

theorem drive_processes:
  "case newClient supported opts of
     Inl c \<Rightarrow> c = CodeDriveInvalidConfig
   | Inr cl \<Rightarrow> (case drive_session tenv (recorded env) cl calls (False, (w, [])) of
       (verified, (w', log)) \<Rightarrow> guarded_from env cl False log \<and> length log \<le> 2 * length calls)"
proof (cases "newClient supported opts")
  case (Inl c)
  then show ?thesis by (auto simp: newClient_def split: if_splits)
next
  case (Inr cl)
  have "server_ok env cl 0 (False, (w, []))" by (simp add: server_ok_def)
  from session_ok [OF this, of calls tenv] newClient_bounds [OF Inr] Inr show ?thesis
    by (auto simp: server_ok_def split: prod.splits)
qed

section \<open>The password of a public link\<close>

text \<open>The CLI may report any password: every decoded share gets another one.\<close>

definition set_password :: "bytes \<Rightarrow> ShareResult \<Rightarrow> ShareResult" where
  "set_password password s = s\<lparr>sh_URLAccess := map_option (\<lambda>u. u\<lparr>ul_CustomPassword := password\<rparr>) (sh_URLAccess s)\<rparr>"

definition repassword :: "(bytes \<Rightarrow> bytes) \<Rightarrow> 'w drive_env \<Rightarrow> 'w drive_env" where
  "repassword f env = env\<lparr>de_share := (\<lambda>b. map_option (\<lambda>(s, at_end). (set_password (f b) s, at_end)) (de_share env b))\<rparr>"

lemma repassword_simps [simp]:
  "invoke (repassword f env) = invoke env" "Handshake (repassword f env) = Handshake env"
  "drive_List (repassword f env) = drive_List env" "drive_Info (repassword f env) = drive_Info env"
  "ensure (repassword f env) = ensure env"
proof -
  have fields: "de_fold_eq (repassword f env) = de_fold_eq env" "de_decoder (repassword f env) = de_decoder env"
    "de_node (repassword f env) = de_node env" by (simp_all add: repassword_def)
  show i: "invoke (repassword f env) = invoke env" by (intro ext) (simp add: invoke_def repassword_def)
  show h: "Handshake (repassword f env) = Handshake env" by (intro ext) (simp add: Handshake_def i)
  have d: "decodeList (repassword f env) = decodeList env" by (intro ext) (simp add: decodeList_def repassword_def)
  show "drive_List (repassword f env) = drive_List env" by (intro ext) (simp add: drive_List_def i d split: prod.split sum.split)
  show "drive_Info (repassword f env) = drive_Info env" by (intro ext) (simp add: drive_Info_def i fields split: prod.split sum.split)
  show "ensure (repassword f env) = ensure env" by (intro ext) (simp add: ensure_def h split: prod.split option.split)
qed

lemma decode_repassword:
  "\<exists>p. DecodeValue fold_eq decoder (\<lambda>b. map_option (\<lambda>(s, at_end). (set_password (f b) s, at_end)) (decode b)) data n =
     map_option (set_password p) (DecodeValue fold_eq decoder decode data n)"
  by (rule exI [of _ "f data"]) (auto simp: DecodeValue_def decodeExact_def split: list.split option.split)

definition status_password :: "bytes \<Rightarrow> SharingStatus \<Rightarrow> SharingStatus" where
  "status_password password s = s\<lparr>sg_Info := map_option (set_password password) (sg_Info s)\<rparr>"

lemma sharing_repassword:
  "\<exists>p. drive_SharingStatus (repassword f env) cl path w = apfst (map_sum (\<lambda>c. c) (status_password p)) (drive_SharingStatus env cl path w)"
proof -
  obtain q w1 where i: "invoke env cl [''sharing'', ''status'', path, ''--json''] False w = (q, w1)" by (metis prod.exhaust)
  show ?thesis
  proof (cases q)
    case (Inl c)
    with i show ?thesis by (simp add: drive_SharingStatus_def)
  next
    case (Inr stdout)
    have fields: "de_fold_eq (repassword f env) = de_fold_eq env" "de_decoder (repassword f env) = de_decoder env"
      "de_share (repassword f env) = (\<lambda>b. map_option (\<lambda>(s, at_end). (set_password (f b) s, at_end)) (de_share env b))"
      by (simp_all add: repassword_def)
    obtain p where p: "DecodeValue (de_fold_eq env) (de_decoder env) (de_share (repassword f env)) stdout (cl_maxBytes cl) =
        map_option (set_password p) (DecodeValue (de_fold_eq env) (de_decoder env) (de_share env) stdout (cl_maxBytes cl))"
      unfolding fields using decode_repassword by blast
    with i Inr show ?thesis
      by (intro exI [of _ p]) (simp add: drive_SharingStatus_def fields(1,2) p status_password_def decode_or_def split: option.split)
  qed
qed

lemma map_status_password: "mapSharingStatus (status_password p s) = mapSharingStatus s"
  by (simp add: mapSharingStatus_def status_password_def set_password_def option.map_comp comp_def split: option.split)

lemma gated_repassword:
  "gated (repassword f env) cl acquired (drive_SharingStatus (repassword f env) cl path) (\<lambda>s. SharingResult (mapSharingStatus s)) st =
     gated env cl acquired (drive_SharingStatus env cl path) (\<lambda>s. SharingResult (mapSharingStatus s)) st"
proof -
  obtain e v w where e: "ensure env cl acquired st = (e, (v, w))" by (metis prod.exhaust)
  obtain p where p: "drive_SharingStatus (repassword f env) cl path w =
      apfst (map_sum (\<lambda>c. c) (status_password p)) (drive_SharingStatus env cl path w)" by (rule exE [OF sharing_repassword])
  obtain q w' where q: "drive_SharingStatus env cl path w = (q, w')" by (metis prod.exhaust)
  show ?thesis unfolding gated_def repassword_simps e prod.case
    by (cases e; cases q) (simp_all add: p q map_status_password)
qed

text \<open>
  C23. The custom password of a public link never leaves the server: whatever passwords the CLI reports in
  place of the ones it reported, every tool call has the same reply, the same audit lines and the same
  effect on the server.
\<close>

theorem password_never_told:
  "makeDriveHandler auditing tool tenv (repassword f env) cli acquired arguments st =
     makeDriveHandler auditing tool tenv env cli acquired arguments st"
proof -
  have a: "gated (repassword f env) = gated env" by (intro ext) (simp add: gated_def)
  have l: "runListDriveEntries tenv (repassword f env) cl = runListDriveEntries tenv env cl" for cl
    by (intro ext) (simp add: runListDriveEntries_def a split: option.split)
  have i: "runGetDriveMetadata tenv (repassword f env) cl = runGetDriveMetadata tenv env cl" for cl
    by (intro ext) (simp add: runGetDriveMetadata_def a split: option.split)
  have s: "runGetDriveSharingStatus tenv (repassword f env) cl = runGetDriveSharingStatus tenv env cl" for cl
    by (intro ext) (simp add: runGetDriveSharingStatus_def gated_repassword split: option.split)
  from l i s have "runDriveTool tool tenv (repassword f env) cli acquired arguments st = runDriveTool tool tenv env cli acquired arguments st"
    by (cases tool) (simp_all add: runDriveTool_def split: option.split)
  then show ?thesis by (simp add: makeDriveHandler_def)
qed

section \<open>Replies\<close>

text \<open>A listing with exactly the shape of its path, and lists within their counts.\<close>

fun drive_typed :: "drive_tool \<Rightarrow> drive_result \<Rightarrow> bool" where
  "drive_typed list_drive_entries (ListingResult r) = (validDrivePath (ld_Path r) \<and>
     (ld_Sections r \<noteq> None \<longleftrightarrow> ld_Path r = ''/'') \<and> (ld_Devices r \<noteq> None \<longleftrightarrow> ld_Path r = ''/devices'') \<and>
     (ld_Entries r \<noteq> None \<longleftrightarrow> ld_Path r \<noteq> ''/'' \<and> ld_Path r \<noteq> ''/devices'') \<and>
     option_length (ld_Sections r) \<le> 200 \<and> option_length (ld_Devices r) \<le> 200 \<and> option_length (ld_Entries r) \<le> 200)"
| "drive_typed get_drive_metadata (NodeResult n) = True"
| "drive_typed get_drive_sharing_status (SharingResult r) = (length (sx_ProtonInvitations r) \<le> 100 \<and>
     length (sx_NonProtonInvitations r) \<le> 100 \<and> length (sx_Members r) \<le> 100)"
| "drive_typed _ _ = False"

lemma boundEntries_length: "boundEntries xs limit = (ys, dropped) \<Longrightarrow> 0 \<le> limit \<Longrightarrow> int (length ys) \<le> limit"
  by (auto simp: boundEntries_def split: if_splits)

lemma bound_limit: "0 \<le> limit \<Longrightarrow> limit \<le> 200 \<Longrightarrow> length (fst (boundEntries xs limit)) \<le> 200"
  using boundEntries_length [of xs limit] by (cases "boundEntries xs limit") force

lemma bound_members: "boundEntries xs maxSharingMembers = (ys, dropped) \<Longrightarrow> length ys \<le> 100"
  using boundEntries_length [of xs maxSharingMembers ys dropped] by simp

lemma clampDriveLimit_range: "clampDriveLimit v defaultListEntries maxListEntries = Some n \<Longrightarrow> 0 \<le> n \<and> n \<le> 200"
  by (auto simp: clampDriveLimit_def split: option.splits if_splits)

lemma listing_typed:
  assumes "validDrivePath path" and "0 \<le> limit" and "limit \<le> 200"
  shows "drive_typed list_drive_entries (listing_result path limit listing)"
  using assms(1) by (auto simp: listing_result_def option_length_def split_def bound_limit [OF assms(2,3)])

lemma sharing_typed: "drive_typed get_drive_sharing_status (SharingResult (mapSharingStatus status))"
  by (auto simp: mapSharingStatus_def Let_def split: prod.splits dest: bound_members)

lemma gated_Inr: "gated env cl acquired command k st = (Inr r, st') \<Longrightarrow> \<exists>x. r = k x"
  by (auto simp: gated_def split: prod.splits option.splits sum.splits)

lemma tool_typed: "runDriveTool tool tenv env cli acquired arguments st = (Inr r, st') \<Longrightarrow> drive_typed tool r"
  by (cases tool)
    (auto simp: runDriveTool_def runListDriveEntries_def runGetDriveMetadata_def runGetDriveSharingStatus_def sharing_typed [simplified]
      split: option.splits if_splits dest!: gated_Inr intro!: listing_typed dest: clampDriveLimit_range)

lemma halve_le: "length xs \<le> n \<Longrightarrow> length (halve xs) \<le> n"
  by (simp add: halve_def)

lemma shrink_typed: "shrink_drive r = Some r' \<Longrightarrow> drive_typed tool r \<Longrightarrow> drive_typed tool r' \<and> wasTruncated r'"
proof (induction r rule: shrink_drive.induct)
  case (1 r)
  then show ?case by (cases tool) (auto simp: option_length_def Let_def split: option.splits list.splits)
next
  case (3 r)
  then show ?case by (cases tool) (auto simp: Let_def split: if_splits option.splits)
qed simp

lemma encode_drive_typed:
  assumes "drive_typed tool r" and "encode_drive_loop compact r clipped = (encoded, c)"
  shows "length encoded \<le> maxToolResultBytes \<and> (c \<or> encoded = marshal_drive compact r \<and> \<not> clipped) \<and>
    (encoded = bare_result \<and> c \<or> (\<exists>r'. drive_typed tool r' \<and> encoded = marshal_drive compact r' \<and> (r' = r \<or> wasTruncated r')))"
  using assms
proof (induction compact r clipped rule: encode_drive_loop.induct)
  case (1 compact r clipped)
  show ?case
  proof (cases "length (marshal_drive compact r) \<le> maxToolResultBytes")
    case True
    with "1.prems" show ?thesis by (subst (asm) encode_drive_loop.simps) auto
  next
    case False
    have bare: "length bare_result \<le> maxToolResultBytes" by code_simp
    show ?thesis
    proof (cases "shrink_drive r")
      case None
      with False "1.prems"(2) have "encoded = bare_result \<and> c" by (subst (asm) encode_drive_loop.simps) auto
      with bare show ?thesis by simp
    next
      case (Some r')
      from False Some "1.prems"(2) have "encode_drive_loop compact r' True = (encoded, c)"
        by (subst (asm) encode_drive_loop.simps) auto
      from "1.IH" [OF False Some _ this] shrink_typed [OF Some "1.prems"(1)] show ?thesis by auto
    qed
  qed
qed

lemma drive_tool_known: "sanitizeDriveTool (drive_tool_text tool) = drive_tool_text tool"
  by (cases tool) (simp_all add: sanitizeDriveTool_def)

text \<open>The codes a Drive tool fails with.\<close>

definition drive_error :: "tool_code \<Rightarrow> bool" where
  "drive_error c \<longleftrightarrow> c \<in> {errInvalidArgument, errBoundsExceeded, errTimedOut, errCanceled, errUnavailable}"

lemma mapDriveError_known: "drive_error (mapDriveError e)"
  by (auto simp: mapDriveError_def drive_error_def split: drive_failure.split ctx_error.split drive_code.split)

lemma tool_error: "runDriveTool tool tenv env cli acquired arguments st = (Inl c, st') \<Longrightarrow> drive_error c"
  using mapDriveError_known
  by (cases tool) (auto simp: runDriveTool_def runListDriveEntries_def runGetDriveMetadata_def runGetDriveSharingStatus_def gated_def
      drive_error_def split: option.splits if_splits prod.splits sum.splits)

text \<open>
  C24. What one Drive tool call sends, whatever the arguments and the CLI. The reply is at most 100000
  bytes. An error is one of five codes, never the internal one. Any other reply is the complete JSON of
  a well-formed result of that tool: for a listing exactly the field its path stands for, at most 200
  entries, and at most 100 members in each list of a sharing status; it is the whole result of the
  handler unless the audit line says it was truncated, and only a result that cannot shrink any more is
  replaced by the bare object. The one audit line has the tool, the outcome and the code or truncation.
\<close>

theorem drive_reply:
  "case makeDriveHandler True tool tenv env cli acquired arguments st of (reply, lines, st') \<Rightarrow>
     length (rp_Text reply) \<le> maxToolResultBytes \<and>
     (if rp_IsError reply
      then \<exists>c. drive_error c \<and> reply = errorResult c \<and>
        lines = [json_struct [(''event'', json_string ''tool_call''), (''tool'', json_string (drive_tool_text tool)),
          (''outcome'', json_string ''error''), (''code'', json_string (tool_code_text c))] @ [LF]]
      else \<exists>result truncated. runDriveTool tool tenv env cli acquired arguments st = (Inr result, st') \<and>
        (truncated \<or> rp_Text reply = marshal_drive (dt_compact tenv) result \<and> \<not> wasTruncated result) \<and>
        (rp_Text reply = bare_result \<and> truncated \<or>
          (\<exists>r'. drive_typed tool r' \<and> rp_Text reply = marshal_drive (dt_compact tenv) r' \<and> (r' = result \<or> wasTruncated r'))) \<and>
        lines = [json_struct ([(''event'', json_string ''tool_call''), (''tool'', json_string (drive_tool_text tool)),
          (''outcome'', json_string ''ok'')] @ (if truncated then [(''truncated'', ''true'')] else [])) @ [LF]])"
proof -
  have oline: "drive_audit True (drive_tool_text tool) ''ok'' [] truncated = [json_struct ([(''event'', json_string ''tool_call''),
      (''tool'', json_string (drive_tool_text tool)), (''outcome'', json_string ''ok'')] @
        (if truncated then [(''truncated'', ''true'')] else [])) @ [LF]]" for truncated
    by (simp add: drive_audit_def drive_tool_known sanitizeDriveCode_def sanitizeOutcome_def string_omit_def flag_omit_def omitempty_def json_bool_def)
  obtain x st1 where x: "runDriveTool tool tenv env cli acquired arguments st = (x, st1)" by (metis prod.exhaust)
  show ?thesis
  proof (cases x)
    case (Inl c)
    have e: "drive_error c" using tool_error x Inl by blast
    have eline: "drive_audit True (drive_tool_text tool) ''error'' (tool_code_text c) False = [json_struct [(''event'', json_string ''tool_call''),
      (''tool'', json_string (drive_tool_text tool)), (''outcome'', json_string ''error''), (''code'', json_string (tool_code_text c))] @ [LF]]"
      using e by (auto simp: drive_error_def drive_audit_def drive_tool_known sanitizeDriveCode_def sanitizeOutcome_def string_omit_def flag_omit_def omitempty_def)
    have small: "length (rp_Text (errorResult c)) \<le> maxToolResultBytes" using error_reply_small [of c] by simp
    have err: "rp_IsError (errorResult c)" by (simp add: errorResult_def)
    have m: "makeDriveHandler True tool tenv env cli acquired arguments st =
        (errorResult c, drive_audit True (drive_tool_text tool) ''error'' (tool_code_text c) False, st1)"
      using x Inl by (simp add: makeDriveHandler_def)
    show ?thesis unfolding m prod.case eline if_P [OF err] using small e by blast
  next
    case (Inr result)
    obtain encoded clipped where enc: "encodeDrive (dt_compact tenv) result = (encoded, clipped)" by (metis prod.exhaust)
    have m: "makeDriveHandler True tool tenv env cli acquired arguments st = (\<lparr>rp_IsError = False, rp_Text = encoded\<rparr>,
        drive_audit True (drive_tool_text tool) ''ok'' [] (clipped \<or> wasTruncated result), st1)"
      using x Inr enc by (simp add: makeDriveHandler_def)
    note t = encode_drive_typed [OF tool_typed [OF x [unfolded Inr]] enc [unfolded encodeDrive_def]]
    show ?thesis unfolding m prod.case oline tool_reply.simps if_False
      using t x Inr by (intro conjI exI [of _ result] exI [of _ "clipped \<or> wasTruncated result"]) auto
  qed
qed

end
