(* ===== verification/Drive_Gate.thy ===== *)
theory Drive_Gate
  imports Croton_Prelude
begin

text \<open>
  The handshake gate of the Drive server (\<^verbatim>\<open>internal/drivemcp/gate.go\<close>) under concurrent requests. Each
  request has a phase of \<^verbatim>\<open>ensure\<close>; a step moves one request. The atomic flag, the channel with one place
  and the outcome of the handshakes that have ended are the shared state.
\<close>

section \<open>Definitions\<close>

text \<open>
  \<open>Storing\<close>: the handshake has succeeded and \<^verbatim>\<open>verified.Store\<close> comes next. \<open>Releasing ok\<close>: the deferred receive
  from the channel comes next, and \<^verbatim>\<open>ensure\<close> then returns nil or an error.
\<close>

datatype phase = Arriving | Waiting | Holding | Handshaking | Storing | Releasing bool | Passed | Refused

record gate =
  g_verified :: bool
  g_full :: bool
  g_phase :: "nat \<Rightarrow> phase"
  g_attempts :: "(nat \<times> bool) list"

definition newHandshakeGate :: gate where
  "newHandshakeGate = \<lparr>g_verified = False, g_full = False, g_phase = (\<lambda>i. Arriving), g_attempts = []\<rparr>"

text \<open>The select may take the end of the context although the channel has room.\<close>

inductive gate_step :: "gate \<Rightarrow> gate \<Rightarrow> bool" where
  load_verified: "g_phase s i = Arriving \<Longrightarrow> g_verified s \<Longrightarrow> gate_step s (s\<lparr>g_phase := (g_phase s)(i := Passed)\<rparr>)"
| load_unverified: "g_phase s i = Arriving \<Longrightarrow> \<not> g_verified s \<Longrightarrow> gate_step s (s\<lparr>g_phase := (g_phase s)(i := Waiting)\<rparr>)"
| acquire: "g_phase s i = Waiting \<Longrightarrow> \<not> g_full s \<Longrightarrow>
    gate_step s (s\<lparr>g_full := True, g_phase := (g_phase s)(i := Holding)\<rparr>)"
| give_up: "g_phase s i = Waiting \<Longrightarrow> gate_step s (s\<lparr>g_phase := (g_phase s)(i := Refused)\<rparr>)"
| recheck_verified: "g_phase s i = Holding \<Longrightarrow> g_verified s \<Longrightarrow> gate_step s (s\<lparr>g_phase := (g_phase s)(i := Releasing True)\<rparr>)"
| recheck_unverified: "g_phase s i = Holding \<Longrightarrow> \<not> g_verified s \<Longrightarrow> gate_step s (s\<lparr>g_phase := (g_phase s)(i := Handshaking)\<rparr>)"
| handshake_ok: "g_phase s i = Handshaking \<Longrightarrow>
    gate_step s (s\<lparr>g_attempts := g_attempts s @ [(i, True)], g_phase := (g_phase s)(i := Storing)\<rparr>)"
| handshake_failed: "g_phase s i = Handshaking \<Longrightarrow>
    gate_step s (s\<lparr>g_attempts := g_attempts s @ [(i, False)], g_phase := (g_phase s)(i := Releasing False)\<rparr>)"
| store: "g_phase s i = Storing \<Longrightarrow> gate_step s (s\<lparr>g_verified := True, g_phase := (g_phase s)(i := Releasing True)\<rparr>)"
| release: "g_phase s i = Releasing ok \<Longrightarrow>
    gate_step s (s\<lparr>g_full := False, g_phase := (g_phase s)(i := (if ok then Passed else Refused))\<rparr>)"

inductive gate_reach :: "gate \<Rightarrow> bool" where
  start: "gate_reach newHandshakeGate"
| step: "gate_reach s \<Longrightarrow> gate_step s s' \<Longrightarrow> gate_reach s'"

section \<open>The invariant\<close>

definition in_slot :: "phase \<Rightarrow> bool" where
  "in_slot p \<longleftrightarrow> p = Holding \<or> p = Handshaking \<or> p = Storing \<or> p = Releasing True \<or> p = Releasing False"

lemma in_slot_simps [simp]:
  "\<not> in_slot Arriving" "\<not> in_slot Waiting" "in_slot Holding" "in_slot Handshaking" "in_slot Storing" "in_slot (Releasing ok)"
  "\<not> in_slot Passed" "\<not> in_slot Refused"
  by (simp_all add: in_slot_def)

definition before_attempt :: "phase \<Rightarrow> bool" where
  "before_attempt p \<longleftrightarrow> p = Arriving \<or> p = Waiting \<or> p = Holding \<or> p = Handshaking"

lemma before_attempt_simps [simp]:
  "before_attempt Arriving" "before_attempt Waiting" "before_attempt Holding" "before_attempt Handshaking"
  "\<not> before_attempt Storing" "\<not> before_attempt (Releasing ok)" "\<not> before_attempt Passed" "\<not> before_attempt Refused"
  by (simp_all add: before_attempt_def)

text \<open>The slot has one holder, exactly when the channel is full.\<close>

definition slot_inv :: "gate \<Rightarrow> bool" where
  "slot_inv s \<longleftrightarrow> (\<forall>i j. in_slot (g_phase s i) \<longrightarrow> in_slot (g_phase s j) \<longrightarrow> i = j) \<and> (g_full s \<longleftrightarrow> (\<exists>i. in_slot (g_phase s i)))"

lemma slot_inv_same:
  "(\<And>j. in_slot (g_phase s' j) \<longleftrightarrow> in_slot (g_phase s j)) \<Longrightarrow> g_full s' = g_full s \<Longrightarrow> slot_inv s \<Longrightarrow> slot_inv s'"
  by (simp add: slot_inv_def)

lemma slot_inv_step:
  assumes "gate_step s s'" and "slot_inv s"
  shows "slot_inv s'"
  using assms
proof cases
  case (acquire i)
  with assms(2) show ?thesis by (auto simp: slot_inv_def)
next
  case (release i ok)
  then have "in_slot (g_phase s i)" by simp
  with assms(2) release show ?thesis by (auto simp: slot_inv_def)
qed (auto elim!: slot_inv_same [rotated 2] split: if_splits)

text \<open>What has been attempted, and what each request may conclude from it.\<close>

definition attempt_inv :: "gate \<Rightarrow> bool" where
  "attempt_inv s \<longleftrightarrow> distinct (map fst (g_attempts s)) \<and> (\<forall>i. before_attempt (g_phase s i) \<longrightarrow> i \<notin> fst ` set (g_attempts s)) \<and>
     list_all (\<lambda>a. \<not> snd a) (butlast (g_attempts s)) \<and>
     ((\<exists>i. (i, True) \<in> set (g_attempts s)) \<longleftrightarrow> g_verified s \<or> (\<exists>i. g_phase s i = Storing)) \<and>
     (\<forall>i. g_phase s i = Handshaking \<longrightarrow> \<not> g_verified s) \<and>
     (\<forall>i. g_phase s i = Passed \<or> g_phase s i = Releasing True \<longrightarrow> g_verified s)"


lemma attempt_inv_same:
  assumes "attempt_inv s" and "g_attempts s' = g_attempts s" and "g_verified s' = g_verified s"
    and "\<And>j. g_phase s' j = Storing \<longleftrightarrow> g_phase s j = Storing"
    and "\<And>j. before_attempt (g_phase s' j) \<Longrightarrow> before_attempt (g_phase s j)"
    and "\<And>j. g_phase s' j = Handshaking \<Longrightarrow> g_phase s j = Handshaking \<or> \<not> g_verified s"
    and "\<And>j. g_phase s' j = Passed \<or> g_phase s' j = Releasing True \<Longrightarrow>
      g_phase s j = Passed \<or> g_phase s j = Releasing True \<or> g_verified s"
  shows "attempt_inv s'"
proof -
  have a: "attempt_inv s \<Longrightarrow> \<forall>i. g_phase s i = Handshaking \<longrightarrow> \<not> g_verified s"
    "attempt_inv s \<Longrightarrow> \<forall>i. g_phase s i = Passed \<or> g_phase s i = Releasing True \<longrightarrow> g_verified s"
    by (simp_all add: attempt_inv_def)
  have "\<forall>i. g_phase s' i = Handshaking \<longrightarrow> \<not> g_verified s'" using a(1) [OF assms(1)] assms(3,6) by metis
  moreover have "\<forall>i. g_phase s' i = Passed \<or> g_phase s' i = Releasing True \<longrightarrow> g_verified s'"
    using a(2) [OF assms(1)] assms(3,7) by metis
  moreover have "\<forall>i. before_attempt (g_phase s' i) \<longrightarrow> i \<notin> fst ` set (g_attempts s)"
    using assms(1,5) by (simp add: attempt_inv_def)
  ultimately show ?thesis using assms(1-4) by (simp add: attempt_inv_def)
qed

text \<open>Only the slot's holder attempts, so what a request has seen stays true.\<close>

lemma attempt_inv_step:
  assumes "gate_step s s'" and "slot_inv s" and "attempt_inv s"
  shows "attempt_inv s'"
proof -
  have one: "i = j" if "in_slot (g_phase s i)" "in_slot (g_phase s j)" for i j using assms(2) that by (simp add: slot_inv_def)
  have none: "\<forall>a \<in> set (g_attempts s). \<not> snd a" if "g_phase s i = Handshaking" for i
  proof -
    have "\<not> g_verified s" using assms(3) that unfolding attempt_inv_def by blast
    moreover have "g_phase s j \<noteq> Storing" for j using one [of i j] that by auto
    ultimately have "\<not> (\<exists>i. (i, True) \<in> set (g_attempts s))" using assms(3) by (simp add: attempt_inv_def)
    then show ?thesis by auto
  qed
  from assms(1) show ?thesis
  proof cases
    case (handshake_ok i)
    with none [of i] assms(3) one [of i] show ?thesis by (auto simp: attempt_inv_def list_all_iff)
  next
    case (handshake_failed i)
    with none [of i] assms(3) one [of i] show ?thesis by (auto simp: attempt_inv_def list_all_iff)
  next
    case (store i)
    then have "g_phase s j \<noteq> Handshaking" for j using one [of i j] by auto
    with store assms(3) one [of i] show ?thesis by (auto simp: attempt_inv_def)
  qed (auto intro!: attempt_inv_same [OF assms(3)] split: if_splits)
qed


lemma gate_reach_inv: "gate_reach s \<Longrightarrow> slot_inv s \<and> attempt_inv s"
proof (induction rule: gate_reach.induct)
  case start
  show ?case by (simp add: slot_inv_def attempt_inv_def newHandshakeGate_def)
next
  case (step s s')
  then show ?case using slot_inv_step attempt_inv_step by blast
qed

text \<open>How far a request is from its end.\<close>

fun rank :: "phase \<Rightarrow> nat" where
  "rank Arriving = 6"
| "rank Waiting = 5"
| "rank Holding = 4"
| "rank Handshaking = 3"
| "rank Storing = 2"
| "rank (Releasing ok) = 1"
| "rank Passed = 0"
| "rank Refused = 0"

lemma gate_step_rank:
  assumes "gate_step s s'"
  shows "\<exists>k. rank (g_phase s' k) < rank (g_phase s k) \<and> g_phase s' = (g_phase s)(k := g_phase s' k)"
  using assms
proof cases
  case (load_verified i)
  then show ?thesis by (intro exI [of _ i]) simp
next
  case (load_unverified i)
  then show ?thesis by (intro exI [of _ i]) simp
next
  case (acquire i)
  then show ?thesis by (intro exI [of _ i]) simp
next
  case (give_up i)
  then show ?thesis by (intro exI [of _ i]) simp
next
  case (recheck_verified i)
  then show ?thesis by (intro exI [of _ i]) simp
next
  case (recheck_unverified i)
  then show ?thesis by (intro exI [of _ i]) simp
next
  case (handshake_ok i)
  then show ?thesis by (intro exI [of _ i]) simp
next
  case (handshake_failed i)
  then show ?thesis by (intro exI [of _ i]) simp
next
  case (store i)
  then show ?thesis by (intro exI [of _ i]) simp
next
  case (release i ok)
  then show ?thesis by (intro exI [of _ i]) simp
qed

text \<open>A request can move on without giving up, unless it has ended or waits for the channel.\<close>

lemma gate_step_on:
  assumes "rank (g_phase s k) \<noteq> 0" and "g_phase s k = Waiting \<Longrightarrow> \<not> g_full s"
  shows "\<exists>s'. gate_step s s' \<and> rank (g_phase s' k) < rank (g_phase s k) \<and> (g_phase s k = Waiting \<longrightarrow> g_phase s' k = Holding)"
proof (cases "g_phase s k")
  case Arriving
  show ?thesis
  proof (cases "g_verified s")
    case True
    from gate_step.load_verified [OF Arriving this] Arriving show ?thesis by (intro exI, intro conjI) (assumption, simp_all)
  next
    case False
    from gate_step.load_unverified [OF Arriving this] Arriving show ?thesis by (intro exI, intro conjI) (assumption, simp_all)
  qed
next
  case Waiting
  from gate_step.acquire [OF Waiting assms(2) [OF Waiting]] Waiting show ?thesis
    by (intro exI, intro conjI) (assumption, simp_all)
next
  case Holding
  show ?thesis
  proof (cases "g_verified s")
    case True
    from gate_step.recheck_verified [OF Holding this] Holding show ?thesis by (intro exI, intro conjI) (assumption, simp_all)
  next
    case False
    from gate_step.recheck_unverified [OF Holding this] Holding show ?thesis by (intro exI, intro conjI) (assumption, simp_all)
  qed
next
  case Handshaking
  from gate_step.handshake_ok [OF this] this show ?thesis by (intro exI, intro conjI) (assumption, simp_all)
next
  case Storing
  from gate_step.store [OF this] this show ?thesis by (intro exI, intro conjI) (assumption, simp_all)
next
  case (Releasing ok)
  from gate_step.release [OF this] this show ?thesis by (intro exI, intro conjI) (assumption, simp_all)
qed (use assms(1) in simp_all)

text \<open>One request that arrives, finds the channel empty and succeeds.\<close>

definition one_passed :: gate where
  "one_passed = \<lparr>g_verified = True, g_full = False, g_phase = (\<lambda>i. Arriving)(0 := Passed), g_attempts = [(0, True)]\<rparr>"

lemma gate_reach_one_passed: "gate_reach one_passed"
proof -
  note go = gate_reach.step [rotated]
  have "gate_reach \<lparr>g_verified = False, g_full = False, g_phase = (\<lambda>i. Arriving), g_attempts = []\<rparr>"
    using gate_reach.start by (simp add: newHandshakeGate_def)
  from go [OF gate_step.load_unverified [where i = 0] this]
  have "gate_reach \<lparr>g_verified = False, g_full = False, g_phase = (\<lambda>i. Arriving)(0 := Waiting), g_attempts = []\<rparr>" by simp
  from go [OF gate_step.acquire [where i = 0] this]
  have "gate_reach \<lparr>g_verified = False, g_full = True, g_phase = (\<lambda>i. Arriving)(0 := Holding), g_attempts = []\<rparr>" by simp
  from go [OF gate_step.recheck_unverified [where i = 0] this]
  have "gate_reach \<lparr>g_verified = False, g_full = True, g_phase = (\<lambda>i. Arriving)(0 := Handshaking), g_attempts = []\<rparr>" by simp
  from go [OF gate_step.handshake_ok [where i = 0] this]
  have "gate_reach \<lparr>g_verified = False, g_full = True, g_phase = (\<lambda>i. Arriving)(0 := Storing), g_attempts = [(0, True)]\<rparr>"
    by simp
  from go [OF gate_step.store [where i = 0] this]
  have "gate_reach \<lparr>g_verified = True, g_full = True, g_phase = (\<lambda>i. Arriving)(0 := Releasing True), g_attempts = [(0, True)]\<rparr>"
    by simp
  from go [OF gate_step.release [where i = 0 and ok = True] this]
  show ?thesis by (simp add: one_passed_def)
qed

section \<open>Properties\<close>

text \<open>
  C25. However concurrent requests interleave at the gate: at most one handshake is in flight; no request
  attempts a second one; once one has succeeded no other is ever attempted, so that the successful
  attempt is the last; and a request passes the gate only after a handshake, its own or another's,
  has succeeded.
\<close>

theorem gate_single_flight:
  assumes "gate_reach s"
  shows "(\<forall>i j. g_phase s i = Handshaking \<and> g_phase s j = Handshaking \<longrightarrow> i = j) \<and> distinct (map fst (g_attempts s)) \<and>
    list_all (\<lambda>a. \<not> snd a) (butlast (g_attempts s)) \<and>
    ((\<exists>i. g_phase s i = Passed) \<longrightarrow> g_attempts s \<noteq> [] \<and> snd (last (g_attempts s))) \<and>
    ((\<exists>a \<in> set (g_attempts s). snd a) \<longrightarrow> (\<forall>i. g_phase s i \<noteq> Handshaking))"
proof -
  have slot: "slot_inv s" and inv: "attempt_inv s" using gate_reach_inv [OF assms] by simp_all
  have one: "i = j" if "in_slot (g_phase s i)" "in_slot (g_phase s j)" for i j using slot that unfolding slot_inv_def by blast
  have parts: "distinct (map fst (g_attempts s))" "list_all (\<lambda>a. \<not> snd a) (butlast (g_attempts s))"
    "(\<exists>i. (i, True) \<in> set (g_attempts s)) \<longleftrightarrow> g_verified s \<or> (\<exists>i. g_phase s i = Storing)"
    "\<And>i. g_phase s i = Handshaking \<Longrightarrow> \<not> g_verified s" "\<And>i. g_phase s i = Passed \<Longrightarrow> g_verified s"
    using inv unfolding attempt_inv_def by blast+
  have last: "g_attempts s \<noteq> [] \<and> snd (last (g_attempts s))" if "g_phase s i = Passed" for i
  proof -
    from parts(3,5) that obtain j where j: "(j, True) \<in> set (g_attempts s)" by blast
    then have "g_attempts s \<noteq> []" by auto
    then have "set (g_attempts s) = insert (last (g_attempts s)) (set (butlast (g_attempts s)))"
      by (metis append_butlast_last_id insert_commute list.simps(15) rotate1.simps(2) set_rotate1)
    with j have "(j, True) = last (g_attempts s) \<or> (j, True) \<in> set (butlast (g_attempts s))" by auto
    moreover have "(j, True) \<notin> set (butlast (g_attempts s))" using parts(2) by (auto simp: list_all_iff)
    ultimately have "last (g_attempts s) = (j, True)" by simp
    with j show ?thesis by auto
  qed
  have quiet: "g_phase s i \<noteq> Handshaking" if "\<exists>a \<in> set (g_attempts s). snd a" for i
  proof
    assume h: "g_phase s i = Handshaking"
    from that have "\<exists>j. (j, True) \<in> set (g_attempts s)" by (metis prod.collapse)
    with parts(3) parts(4) [OF h] obtain j where "g_phase s j = Storing" by blast
    with one [of i j] h show False by auto
  qed
  have "\<forall>i j. g_phase s i = Handshaking \<and> g_phase s j = Handshaking \<longrightarrow> i = j" using one by auto
  with parts(1,2) last quiet show ?thesis by blast
qed

lemma gate_single_flight_witness:
  "g_phase one_passed 0 = Passed \<and> g_attempts one_passed \<noteq> [] \<and> snd (last (g_attempts one_passed))"
  using gate_single_flight [OF gate_reach_one_passed] by (auto simp: one_passed_def split: if_splits)

text \<open>
  C26. The gate never blocks for good. As long as some request has neither passed nor been refused, some
  request (the one that holds the channel's place, where that is taken) can take a step that is not the end of
  its context; and every step brings one request nearer its end and moves no other, so that n requests end
  within 6n steps.
\<close>

theorem gate_progress:
  assumes "gate_reach s" and "g_phase s i \<noteq> Passed" and "g_phase s i \<noteq> Refused"
  shows "(\<exists>s' k. gate_step s s' \<and> rank (g_phase s' k) < rank (g_phase s k) \<and> (g_phase s k = Waiting \<longrightarrow> g_phase s' k = Holding)) \<and>
    (\<forall>s'. gate_step s s' \<longrightarrow>
      (\<exists>k. rank (g_phase s' k) < rank (g_phase s k) \<and> g_phase s' = (g_phase s)(k := g_phase s' k))) \<and> rank (g_phase s i) \<le> 6"
proof (intro conjI)
  have active: "rank (g_phase s i) \<noteq> 0" using assms(2,3) by (cases "g_phase s i") simp_all
  show "\<exists>s' k. gate_step s s' \<and> rank (g_phase s' k) < rank (g_phase s k) \<and> (g_phase s k = Waiting \<longrightarrow> g_phase s' k = Holding)"
  proof (cases "g_full s")
    case True
    then obtain k where "in_slot (g_phase s k)" using gate_reach_inv [OF assms(1)] unfolding slot_inv_def by blast
    then have "rank (g_phase s k) \<noteq> 0" "g_phase s k \<noteq> Waiting" by (auto simp: in_slot_def)
    with gate_step_on [of s k] show ?thesis by blast
  next
    case False
    with gate_step_on [of s i] active show ?thesis by blast
  qed
  show "\<forall>s'. gate_step s s' \<longrightarrow>
      (\<exists>k. rank (g_phase s' k) < rank (g_phase s k) \<and> g_phase s' = (g_phase s)(k := g_phase s' k))"
    using gate_step_rank by blast
  show "rank (g_phase s i) \<le> 6" by (cases "g_phase s i") simp_all
qed

lemma gate_progress_witness: "\<exists>s'. gate_step one_passed s'"
  using gate_progress [OF gate_reach_one_passed, of 1] by (auto simp: one_passed_def)

end
