(* ===== verification/Drive_Copy.thy ===== *)
theory Drive_Copy
  imports Bridge_Errors
begin

text \<open>
  The bounded copy of \<^verbatim>\<open>internal/drivefs/bounded_copy.go\<close>. The context, the source and the destination are
  interfaces: a \<open>copy_env\<close> answers each of their calls from the calls made before, so a reader may return any
  count, leave the buffer as it was, or fail. A run is the list of its calls with their answers.
\<close>

section \<open>The interfaces\<close>

datatype read_end = ReadNil | ReadEOF | ReadFailed

text \<open>A context that has not ended gives \<open>Checked None\<close>. A read keeps the slice \<^verbatim>\<open>buffer[:n]\<close> where n is in its bounds.\<close>

datatype copy_event =
    Checked "ctx_error option"
  | ReadInto nat int bytes read_end
  | Wrote bytes int "bytes option"

datatype copy_error =
    ErrInvalidCopyInput | ErrCopyLimit | ErrCopyRead | CopyCanceled ctx_error | CopyWrite bytes | ErrShortWrite
  | CopySlicePanic

record copy_env =
  ce_Err :: "copy_event list \<Rightarrow> ctx_error option"
  ce_Read :: "copy_event list \<Rightarrow> nat \<Rightarrow> bytes \<times> int \<times> read_end"
  ce_Write :: "copy_event list \<Rightarrow> bytes \<Rightarrow> int \<times> bytes option"

definition check_ctx :: "copy_env \<Rightarrow> copy_event list \<Rightarrow> ctx_error option \<times> copy_event list" where
  "check_ctx E h = (ce_Err E h, h @ [Checked (ce_Err E h)])"

text \<open>What the reader stores goes to the front of the slice; the rest of the buffer keeps its bytes.\<close>

definition source_Read :: "copy_env \<Rightarrow> bytes \<Rightarrow> nat \<Rightarrow> copy_event list \<Rightarrow> int \<times> read_end \<times> bytes \<times> copy_event list" where
  "source_Read E buffer room h =
     (case ce_Read E h room of (stored, n, readErr) \<Rightarrow>
        let buffer' = take room stored @ drop (min room (length stored)) buffer;
            got = (if 0 \<le> n \<and> n \<le> int room then take (nat n) buffer' else [])
        in (n, readErr, buffer', h @ [ReadInto room n got readErr]))"

definition destination_Write :: "copy_env \<Rightarrow> bytes \<Rightarrow> copy_event list \<Rightarrow> copy_error option \<times> copy_event list" where
  "destination_Write E chunk h =
     (case ce_Write E h chunk of (written, err) \<Rightarrow>
        (case err of Some e \<Rightarrow> Some (CopyWrite e)
         | None \<Rightarrow> if written \<noteq> int (length chunk) then Some ErrShortWrite else None,
         h @ [Wrote chunk written err]))"

section \<open>The loop\<close>

definition copy_buffer :: nat where
  "copy_buffer = 32 * 1024"

definition copy_room :: "int \<Rightarrow> int" where
  "copy_room remaining = (if remaining = 0 then 1 else if remaining < int copy_buffer then remaining else int copy_buffer)"

text \<open>
  One pass of the loop of \<^verbatim>\<open>copyBounded\<close>: \<open>Inl\<close> is a return. \<open>copy_read\<close> is what follows the read of n bytes that ended
  with \<open>readErr\<close>. A negative \<^verbatim>\<open>remaining\<close>, which no caller passes, makes the slice expression panic.
\<close>

definition copy_read :: "copy_env \<Rightarrow> bytes \<Rightarrow> int \<Rightarrow> nat \<Rightarrow> int \<Rightarrow> read_end \<Rightarrow> copy_event list \<Rightarrow>
    (copy_error option + bytes \<times> int \<times> nat) \<times> copy_event list" where
  "copy_read E buffer remaining emptyReads n readErr h =
     (case check_ctx E h of (Some e, h1) \<Rightarrow> (Inl (Some (CopyCanceled e)), h1)
      | (None, h1) \<Rightarrow>
        if n < 0 \<or> copy_room remaining < n then (Inl (Some ErrCopyRead), h1)
        else if remaining = 0 \<and> 0 < n then (Inl (Some ErrCopyLimit), h1)
        else case (if 0 < n then destination_Write E (take (nat n) buffer) h1 else (None, h1)) of
          (Some e, h2) \<Rightarrow> (Inl (Some e), h2)
        | (None, h2) \<Rightarrow>
          let emptyReads' = (if 0 < n then 0 else emptyReads + 1) in
          if readErr = ReadEOF then case check_ctx E h2 of (e, h3) \<Rightarrow> (Inl (map_option CopyCanceled e), h3)
          else if readErr \<noteq> ReadNil \<or> 100 \<le> emptyReads' then (Inl (Some ErrCopyRead), h2)
          else (Inr (buffer, remaining - n, emptyReads'), h2))"

definition copy_turn :: "copy_env \<Rightarrow> bytes \<Rightarrow> int \<Rightarrow> nat \<Rightarrow> copy_event list \<Rightarrow>
    (copy_error option + bytes \<times> int \<times> nat) \<times> copy_event list" where
  "copy_turn E buffer remaining emptyReads h =
     (case check_ctx E h of (Some e, h1) \<Rightarrow> (Inl (Some (CopyCanceled e)), h1)
      | (None, h1) \<Rightarrow>
        if copy_room remaining < 0 then (Inl (Some CopySlicePanic), h1)
        else case source_Read E buffer (nat (copy_room remaining)) h1 of (n, readErr, buffer', h2) \<Rightarrow>
          copy_read E buffer' remaining emptyReads n readErr h2)"

text \<open>A pass that goes on has consumed some of the budget or counted one more empty read.\<close>

lemma copy_turn_shrinks:
  "copy_turn E buffer r k h = (Inr (buffer', r', k'), h') \<Longrightarrow>
     0 \<le> r' \<and> (r' < r \<and> k' = 0 \<or> r' = r \<and> k' = Suc k \<and> k' < 100)"
  by (auto simp: copy_turn_def copy_read_def copy_room_def check_ctx_def Let_def split: prod.splits option.splits if_splits)

function copyBounded :: "copy_env \<Rightarrow> bytes \<Rightarrow> int \<Rightarrow> nat \<Rightarrow> copy_event list \<Rightarrow> copy_error option \<times> copy_event list" where
  "copyBounded E buffer remaining emptyReads h =
     (case copy_turn E buffer remaining emptyReads h of
        (Inl r, h') \<Rightarrow> (r, h')
      | (Inr (buffer', remaining', emptyReads'), h') \<Rightarrow> copyBounded E buffer' remaining' emptyReads' h')"
  by pat_completeness auto
termination
  by (relation "inv_image (less_than <*lex*> less_than) (\<lambda>(E, buffer, r, k, h). (nat r, 100 - k))")
    (auto dest!: copy_turn_shrinks [OF sym])

declare copyBounded.simps [simp del]

text \<open>A copy starts with a zero buffer, after the check of the context on entry of \<^verbatim>\<open>boundedTransactionalCopy\<close>.\<close>

definition copy_from :: "copy_env \<Rightarrow> int \<Rightarrow> copy_error option \<times> copy_event list" where
  "copy_from E limit = copyBounded E (replicate copy_buffer (CHR 0x00)) limit 0 [Checked None]"

section \<open>What a run did\<close>

text \<open>The bytes the source delivered, the bytes handed to the destination, and how each read ended.\<close>

definition received :: "copy_event list \<Rightarrow> bytes" where
  "received h = concat (map (\<lambda>e. case e of ReadInto room n got readErr \<Rightarrow> got | _ \<Rightarrow> []) h)"

definition handed :: "copy_event list \<Rightarrow> bytes" where
  "handed h = concat (map (\<lambda>e. case e of Wrote chunk n err \<Rightarrow> chunk | _ \<Rightarrow> []) h)"

definition read_ends :: "copy_event list \<Rightarrow> read_end list" where
  "read_ends h = concat (map (\<lambda>e. case e of ReadInto room n got readErr \<Rightarrow> [readErr] | _ \<Rightarrow> []) h)"

text \<open>A call that did what it was asked; a read whose answer is an error; a read of nothing.\<close>

fun served :: "copy_event \<Rightarrow> bool" where
  "served (Checked e) \<longleftrightarrow> e = None"
| "served (ReadInto room n got readErr) \<longleftrightarrow> 0 \<le> n \<and> n \<le> int room \<and> int (length got) = n \<and> readErr \<noteq> ReadFailed"
| "served (Wrote chunk n err) \<longleftrightarrow> err = None \<and> n = int (length chunk)"

fun misread :: "copy_event \<Rightarrow> bool" where
  "misread (ReadInto room n got readErr) \<longleftrightarrow> n < 0 \<or> int room < n \<or> readErr = ReadFailed"
| "misread _ \<longleftrightarrow> False"

fun empty_read :: "copy_event \<Rightarrow> bool" where
  "empty_read (ReadInto room n got readErr) \<longleftrightarrow> n = 0"
| "empty_read _ \<longleftrightarrow> False"

lemma copy_run_append [simp]:
  "received (h @ h') = received h @ received h'" "handed (h @ h') = handed h @ handed h'"
  "read_ends (h @ h') = read_ends h @ read_ends h'"
  by (simp_all add: received_def handed_def read_ends_def)

lemma copy_run_step [simp]:
  "received [] = []" "handed [] = []" "read_ends [] = []"
  "received (Checked e # h) = received h" "handed (Checked e # h) = handed h" "read_ends (Checked e # h) = read_ends h"
  "received (ReadInto room n got re # h) = got @ received h" "handed (ReadInto room n got re # h) = handed h"
  "read_ends (ReadInto room n got re # h) = re # read_ends h"
  "received (Wrote chunk w err # h) = received h" "handed (Wrote chunk w err # h) = chunk @ handed h"
  "read_ends (Wrote chunk w err # h) = read_ends h"
  by (simp_all add: received_def handed_def read_ends_def)

text \<open>What holds before each pass of a copy with the budget m.\<close>

definition copying :: "nat \<Rightarrow> bytes \<Rightarrow> int \<Rightarrow> nat \<Rightarrow> copy_event list \<Rightarrow> bool" where
  "copying m buffer r k h \<longleftrightarrow> length buffer = copy_buffer \<and> 0 \<le> r \<and> int (length (handed h)) + r = int m \<and>
     received h = handed h \<and> list_all served h \<and> list_all (\<lambda>e. e = ReadNil) (read_ends h) \<and> k < 100 \<and>
     k \<le> length (filter empty_read h) \<and> length (read_ends h) \<le> 100 * length (handed h) + k"

text \<open>What holds at its end.\<close>

definition copy_outcome :: "nat \<Rightarrow> copy_error option \<Rightarrow> copy_event list \<Rightarrow> bool" where
  "copy_outcome m res h \<longleftrightarrow> prefix (handed h) (received h) \<and> length (handed h) \<le> m \<and> length (received h) \<le> m + 1 \<and>
     length (read_ends h) \<le> 100 * (m + 1) \<and>
     (case res of
        None \<Rightarrow> handed h = received h \<and> list_all served h \<and> read_ends h \<noteq> [] \<and> last (read_ends h) = ReadEOF \<and>
          list_all (\<lambda>e. e = ReadNil) (butlast (read_ends h))
      | Some ErrCopyLimit \<Rightarrow> length (handed h) = m \<and> length (received h) = m + 1
      | Some (CopyCanceled c) \<Rightarrow> h \<noteq> [] \<and> last h = Checked (Some c)
      | Some ErrCopyRead \<Rightarrow> list_ex misread h \<or> 100 \<le> length (filter empty_read h)
      | Some (CopyWrite e) \<Rightarrow> (\<exists>chunk n. h \<noteq> [] \<and> last h = Wrote chunk n (Some e))
      | Some ErrShortWrite \<Rightarrow> (\<exists>chunk n. h \<noteq> [] \<and> last h = Wrote chunk n None \<and> n \<noteq> int (length chunk))
      | Some ErrInvalidCopyInput \<Rightarrow> False
      | Some CopySlicePanic \<Rightarrow> False)"

lemma copy_room_bounds: "0 \<le> r \<Longrightarrow> 0 < copy_room r \<and> copy_room r \<le> int copy_buffer \<and> (r = 0 \<longrightarrow> copy_room r = 1) \<and> (0 < r \<longrightarrow> copy_room r \<le> r)"
  by (simp add: copy_room_def copy_buffer_def)

lemma source_Read_log:
  assumes "source_Read E buffer room h = (n, readErr, buffer', h')" and "length buffer = copy_buffer" and "room \<le> copy_buffer"
  shows "length buffer' = copy_buffer \<and> (\<exists>got. h' = h @ [ReadInto room n got readErr] \<and>
    (if 0 \<le> n \<and> n \<le> int room then got = take (nat n) buffer' \<and> int (length got) = n else got = []))"
  using assms by (auto simp: source_Read_def Let_def split: prod.splits)

lemma destination_Write_log:
  "destination_Write E chunk h = (err, h') \<Longrightarrow> \<exists>w e. h' = h @ [Wrote chunk w e] \<and>
     err = (case e of Some x \<Rightarrow> Some (CopyWrite x) | None \<Rightarrow> if w \<noteq> int (length chunk) then Some ErrShortWrite else None)"
  by (auto simp: destination_Write_def split: prod.splits)

lemma copy_turn_keeps:
  assumes inv: "copying m buffer r k h" and turn: "copy_turn E buffer r k h = (x, h')"
  shows "case x of Inl res \<Rightarrow> copy_outcome m res h' | Inr (buffer', r', k') \<Rightarrow> copying m buffer' r' k' h'"
proof (cases "ce_Err E h")
  case (Some e)
  with inv turn show ?thesis by (auto simp: copy_turn_def check_ctx_def copying_def copy_outcome_def)
next
  case None
  define h1 where "h1 = h @ [Checked None]"
  define room where "room = nat (copy_room r)"
  obtain n re b h2 where read: "source_Read E buffer room h1 = (n, re, b, h2)" by (metis prod_cases4)
  have r: "0 \<le> r" and buf: "length buffer = copy_buffer" using inv by (simp_all add: copying_def)
  note room = copy_room_bounds [OF r]
  have room_int: "int room = copy_room r" using room by (simp add: room_def)
  from source_Read_log [OF read buf] room obtain got where b: "length b = copy_buffer"
    and h2: "h2 = h1 @ [ReadInto room n got re]"
    and got: "if 0 \<le> n \<and> n \<le> int room then got = take (nat n) b \<and> int (length got) = n else got = []"
    by (auto simp: room_def nat_le_iff)
  define h3 where "h3 = h2 @ [Checked (ce_Err E h2)]"
  have run3: "received h3 = received h @ got" "handed h3 = handed h" "read_ends h3 = read_ends h @ [re]"
    "filter empty_read h3 = filter empty_read h @ (if n = 0 then [ReadInto room n got re] else [])"
    by (simp_all add: h3_def h2 h1_def)
  have len: "int (length got) \<le> (if r = 0 then 1 else r)" using got r room room_int by (auto split: if_splits)
  have base: "prefix (handed h3) (received h3) \<and> length (handed h3) \<le> m \<and> length (received h3) \<le> m + 1 \<and>
      length (read_ends h3) \<le> 100 * (m + 1)"
    using inv len by (auto simp: run3 copying_def split: if_splits)
  have rest: "copy_read E b r k n re h2 = (x, h')"
    using turn None read room by (simp add: copy_turn_def check_ctx_def h1_def room_def)
  show ?thesis
  proof (cases "ce_Err E h2")
    case (Some e)
    with rest have "x = Inl (Some (CopyCanceled e))" "h' = h3" by (simp_all add: copy_read_def check_ctx_def h3_def)
    with base Some show ?thesis by (simp add: copy_outcome_def h3_def)
  next
    case none2: None
    then have ctx: "check_ctx E h2 = (None, h3)" by (simp add: check_ctx_def h3_def)
    show ?thesis
    proof (cases "n < 0 \<or> copy_room r < n")
      case True
      with rest ctx have "x = Inl (Some ErrCopyRead)" "h' = h3" by (simp_all add: copy_read_def)
      with base True room_int show ?thesis by (auto simp: copy_outcome_def h3_def h2)
    next
      case inside: False
      then have got': "got = take (nat n) b" "int (length got) = n" and n0: "0 \<le> n" using got room_int by auto
      show ?thesis
      proof (cases "r = 0 \<and> 0 < n")
        case True
        with rest ctx inside have x: "x = Inl (Some ErrCopyLimit)" "h' = h3" by (simp_all add: copy_read_def)
        from True got' inside room have "length got = 1" by auto
        with inv True have "length (handed h3) = m \<and> length (received h3) = m + 1" by (simp add: run3 copying_def)
        with x base show ?thesis by (simp add: copy_outcome_def)
      next
        case budget: False
        obtain werr h4 where put: "(if 0 < n then destination_Write E got h3 else (None, h3)) = (werr, h4)" by fastforce
        have tail: "(case (werr, h4) of (Some e, h2) \<Rightarrow> (Inl (Some e), h2)
            | (None, h2) \<Rightarrow>
              let emptyReads' = (if 0 < n then 0 else k + 1) in
              if re = ReadEOF then case check_ctx E h2 of (e, h3) \<Rightarrow> (Inl (map_option CopyCanceled e), h3)
              else if re \<noteq> ReadNil \<or> 100 \<le> emptyReads' then (Inl (Some ErrCopyRead), h2)
              else (Inr (b, r - n, emptyReads'), h2)) = (x, h')"
          unfolding put [symmetric] got'(1) using rest ctx inside budget by (simp only: copy_read_def if_False prod.case option.case)
        have served3: "list_all served h3" if "re \<noteq> ReadFailed"
          using inv that inside room_int n0 got'(2) none2 by (simp add: h3_def h2 h1_def copying_def)
        have run4: "handed h4 = received h3 \<and> received h4 = received h3 \<and> read_ends h4 = read_ends h3 \<and>
            filter empty_read h4 = filter empty_read h3 \<and> (list_all served h3 \<longrightarrow> list_all served h4)" if "werr = None"
        proof (cases "0 < n")
          case True
          with put that inv show ?thesis
            by (auto simp: run3 copying_def dest!: destination_Write_log split: option.splits if_splits)
        next
          case False
          with put have "h4 = h3" by simp
          moreover from False n0 got'(2) have "got = []" by simp
          ultimately show ?thesis using inv by (simp add: run3 copying_def)
        qed
        show ?thesis
        proof (cases werr)
          case (Some e)
          with put have n: "0 < n" by (auto split: if_splits)
          with put Some obtain w we where h4: "h4 = h3 @ [Wrote got w we]"
            and e: "Some e = (case we of Some x \<Rightarrow> Some (CopyWrite x) | None \<Rightarrow> if w \<noteq> int (length got) then Some ErrShortWrite else None)"
            by (auto dest: destination_Write_log)
          from tail Some n have x: "x = Inl (Some e)" "h' = h4" by simp_all
          have "length (handed h4) \<le> m" "prefix (handed h4) (received h4)"
            using inv got'(2) len budget n by (auto simp: h4 run3 copying_def)
          with x base e show ?thesis
            by (cases we) (auto simp: copy_outcome_def h4 split: if_splits)
        next
          case wrote: None
          note run4 = run4 [OF wrote]
          have le: "length (received h4) \<le> m"
            using inv got'(2) len budget n0 run4 by (auto simp: run3 copying_def split: if_splits)
          show ?thesis
          proof (cases "re = ReadEOF")
            case True
            have x: "x = Inl (map_option CopyCanceled (ce_Err E h4))" "h' = h4 @ [Checked (ce_Err E h4)]"
              using tail wrote True by (simp_all add: check_ctx_def Let_def)
            show ?thesis
              using x base le run4 True served3 inv
              by (cases "ce_Err E h4") (auto simp: copy_outcome_def run3 copying_def)
          next
            case more: False
            define k' where "k' = (if 0 < n then 0 else k + 1)"
            have empties: "k' \<le> length (filter empty_read h4)" using inv run4 n0 by (auto simp: k'_def run3 copying_def)
            show ?thesis
            proof (cases "re \<noteq> ReadNil \<or> 100 \<le> k'")
              case True
              have x: "x = Inl (Some ErrCopyRead)" "h' = h4"
                using tail wrote True more by (simp_all add: k'_def Let_def split: if_splits)
              have "list_ex misread h4 \<or> 100 \<le> length (filter empty_read h4)"
              proof (cases "re = ReadNil")
                case False
                with more have "re = ReadFailed" by (cases re) simp_all
                then have "list_ex misread h3" by (simp add: h3_def h2)
                moreover have "set h3 \<subseteq> set h4" using put by (auto dest!: destination_Write_log split: if_splits)
                ultimately show ?thesis by (auto simp: list_ex_iff)
              qed (use True empties in simp)
              with x base le run4 show ?thesis by (auto simp: copy_outcome_def)
            next
              case False
              have x: "x = Inr (b, r - n, k')" "h' = h4"
                using tail wrote False more by (simp_all add: k'_def Let_def split: if_splits)
              have "copying m b (r - n) k' h4"
                using inv b run4 False empties served3 n0 inside room budget got'(2)
                by (auto simp: copying_def run3 k'_def split: if_splits)
              with x show ?thesis by simp
            qed
          qed
        qed
      qed
    qed
  qed
qed

lemma copyBounded_keeps:
  "copying m buffer r k h \<Longrightarrow> copyBounded E buffer r k h = (res, h') \<Longrightarrow> copy_outcome m res h'"
proof (induction E buffer r k h rule: copyBounded.induct)
  case (1 E buffer r k h)
  obtain x h1 where turn: "copy_turn E buffer r k h = (x, h1)" by fastforce
  from copy_turn_keeps [OF "1.prems"(1) turn] "1.IH" [OF turn [symmetric]] "1.prems"(2) turn show ?case
    by (auto simp: copyBounded.simps [of E buffer r k h] split: sum.splits prod.splits)
qed

lemma copy_from_keeps: "copy_from E (int m) = (res, h) \<Longrightarrow> copy_outcome m res h"
  unfolding copy_from_def by (rule copyBounded_keeps) (simp_all add: copying_def)

text \<open>
  C29. A bounded copy ends, whatever the source, the destination and the context do, after at most 100 (m + 1)
  reads for a budget of m bytes. It has then handed over at most m bytes, a prefix of what the source
  delivered, and taken at most one byte more than m from the source. It reports success only when every call
  did what it was asked, the last read and no other ended the source and every byte delivered was handed
  over; the byte limit only when m bytes were handed over and one more was there; and each other error for
  the call that caused it.
\<close>

theorem copyBounded_outcome: "case copy_from E (int m) of (res, h) \<Rightarrow> copy_outcome m res h"
  using copy_from_keeps by (auto split: prod.split)

end
