(* ===== verification/Drive_Files.thy ===== *)
theory Drive_Files
  imports Drive_Copy
begin

text \<open>
  Confined and transactional output files (\<^verbatim>\<open>internal/drivefs/confined.go\<close>, \<^verbatim>\<open>confined_linux.go\<close>,
  \<^verbatim>\<open>confined_darwin.go\<close>, \<^verbatim>\<open>transaction.go\<close>). The operating system is a \<open>kernel\<close>, which may give any answer to any
  call, as a function of the calls before it; a run is the list of its calls with their answers. A Go error is a list of errors, as
  \<^verbatim>\<open>errors.Join\<close> makes it: the empty list is nil. Deferred calls run on every return; a panic of the writer is
  not modelled.
\<close>

section \<open>The operating system\<close>

datatype fd = AT_FDCWD | Fd nat

datatype open_flag = O_RDONLY | O_WRONLY | O_CREAT | O_EXCL | O_CLOEXEC | O_NOFOLLOW | O_DIRECTORY

datatype open_call = Open | Openat | Openat2_beneath

datatype platform = Linux | Darwin

record stat =
  st_Dev :: "64 word"
  st_Ino :: "64 word"
  st_Mode :: "32 word"
  st_Uid :: "32 word"

datatype fs_error =
    Errno bytes | ErrExist | PathsRequired | InvalidComponent | WriterRequired | NotPrivate | IdentityChanged
  | CleanupAuthority fs_error | RemoveDirectory fs_error | RemoveFile fs_error | WriterError copy_error

text \<open>\<open>Ran\<close> is the caller's writer on the open file, with the record of what it did.\<close>

datatype 'w fs_event =
    Opened open_call fd bytes "open_flag list" nat "bytes + nat"
  | Fstatat nat bytes "bytes + stat"
  | Fstat nat "bytes + stat"
  | Mkdirat nat bytes nat "bytes option"
  | Unlinkat nat bytes bool "bytes option"
  | Linkat nat bytes nat bytes "bytes option"
  | Closed nat "bytes option"
  | Ran nat 'w "copy_error option"

record 'w kernel =
  k_platform :: platform
  k_open :: "'w fs_event list \<Rightarrow> fd \<Rightarrow> bytes \<Rightarrow> bytes + nat"
  k_stat :: "'w fs_event list \<Rightarrow> bytes + stat"
  k_call :: "'w fs_event list \<Rightarrow> bytes option"
  k_rand :: "'w fs_event list \<Rightarrow> 5 word list"
  k_euid :: "32 word"

type_synonym 'w writer = "nat \<Rightarrow> 'w fs_event list \<Rightarrow> copy_error option \<times> 'w"

definition fstatat :: "'w kernel \<Rightarrow> nat \<Rightarrow> bytes \<Rightarrow> 'w fs_event list \<Rightarrow> (bytes + stat) \<times> 'w fs_event list" where
  "fstatat K d name h = (k_stat K h, h @ [Fstatat d name (k_stat K h)])"

definition fstat :: "'w kernel \<Rightarrow> nat \<Rightarrow> 'w fs_event list \<Rightarrow> (bytes + stat) \<times> 'w fs_event list" where
  "fstat K d h = (k_stat K h, h @ [Fstat d (k_stat K h)])"

definition errno :: "bytes option \<Rightarrow> fs_error list" where
  "errno r = (case r of None \<Rightarrow> [] | Some e \<Rightarrow> [Errno e])"

definition mkdirat :: "'w kernel \<Rightarrow> nat \<Rightarrow> bytes \<Rightarrow> nat \<Rightarrow> 'w fs_event list \<Rightarrow> fs_error list \<times> 'w fs_event list" where
  "mkdirat K d name mode h = (errno (k_call K h), h @ [Mkdirat d name mode (k_call K h)])"

definition unlinkat :: "'w kernel \<Rightarrow> nat \<Rightarrow> bytes \<Rightarrow> bool \<Rightarrow> 'w fs_event list \<Rightarrow> fs_error list \<times> 'w fs_event list" where
  "unlinkat K d name removedir h = (errno (k_call K h), h @ [Unlinkat d name removedir (k_call K h)])"

definition close :: "'w kernel \<Rightarrow> nat \<Rightarrow> 'w fs_event list \<Rightarrow> fs_error list \<times> 'w fs_event list" where
  "close K f h = (errno (k_call K h), h @ [Closed f (k_call K h)])"

definition run_writer :: "'w writer \<Rightarrow> nat \<Rightarrow> 'w fs_event list \<Rightarrow> fs_error list \<times> 'w fs_event list" where
  "run_writer write f h =
     (case write f h of (err, w) \<Rightarrow> (case err of None \<Rightarrow> [] | Some e \<Rightarrow> [WriterError e], h @ [Ran f w err]))"

text \<open>\<^verbatim>\<open>publishLink\<close>.\<close>

definition publishLink :: "'w kernel \<Rightarrow> nat \<Rightarrow> bytes \<Rightarrow> nat \<Rightarrow> bytes \<Rightarrow> 'w fs_event list \<Rightarrow> fs_error list \<times> 'w fs_event list" where
  "publishLink K from source to destination h =
     (errno (k_call K h), h @ [Linkat from source to destination (k_call K h)])"

text \<open>\<^verbatim>\<open>platformOpen\<close> of either platform.\<close>

definition platformOpen :: "'w kernel \<Rightarrow> fd \<Rightarrow> bytes \<Rightarrow> open_flag list \<Rightarrow> nat \<Rightarrow> 'w fs_event list \<Rightarrow>
    (bytes + nat) \<times> 'w fs_event list" where
  "platformOpen K parent name flags mode h =
     (let call = (case k_platform K of
          Linux \<Rightarrow> if parent = AT_FDCWD \<and> name = ''/'' then Open else Openat2_beneath
        | Darwin \<Rightarrow> Openat)
      in (k_open K h parent name, h @ [Opened call parent name flags mode (k_open K h parent name)]))"

text \<open>\<^verbatim>\<open>defer func() { err = errors.Join(err, f()) }()\<close>.\<close>

definition deferred :: "('h \<Rightarrow> fs_error list \<times> 'h) \<Rightarrow> fs_error list \<times> 'h \<Rightarrow> fs_error list \<times> 'h" where
  "deferred f r = (case r of (err, h) \<Rightarrow> case f h of (err', h') \<Rightarrow> (err @ err', h'))"

section \<open>The confined parent\<close>

definition components :: "bytes \<Rightarrow> fs_error + bytes list" where
  "components path =
     (let parts = split_byte (CHR ''/'') path in
      if list_ex (\<lambda>part. part = [] \<or> part = ''.'' \<or> part = ''..'' \<or> CHR 0x00 \<in> set part) parts
      then Inl InvalidComponent else Inr parts)"

definition directoryFlags :: "open_flag list" where
  "directoryFlags = [O_RDONLY, O_CLOEXEC, O_NOFOLLOW, O_DIRECTORY]"

text \<open>The loop that opens each part under its predecessor and retains it.\<close>

fun open_parts :: "'w kernel \<Rightarrow> nat \<Rightarrow> nat list \<Rightarrow> bytes list \<Rightarrow> 'w fs_event list \<Rightarrow>
    (fs_error list + nat) \<times> nat list \<times> 'w fs_event list" where
  "open_parts K parent held [] h = (Inr parent, held, h)"
| "open_parts K parent held (part # parts) h =
     (case platformOpen K (Fd parent) part directoryFlags 0 h of
        (Inl e, h') \<Rightarrow> (Inl [Errno e], held, h')
      | (Inr f, h') \<Rightarrow> open_parts K f (held @ [f]) parts h')"

text \<open>The deferred loop over \<^verbatim>\<open>held\<close>, from its end.\<close>

fun close_held :: "'w kernel \<Rightarrow> nat list \<Rightarrow> 'w fs_event list \<Rightarrow> fs_error list \<times> 'w fs_event list" where
  "close_held K [] h = ([], h)"
| "close_held K (f # fs) h = (case close K f h of (err, h') \<Rightarrow> case close_held K fs h' of (err', h'') \<Rightarrow> (err @ err', h''))"

definition withConfinedParent :: "'w kernel \<Rightarrow> bytes \<Rightarrow> bytes \<Rightarrow>
    (nat \<Rightarrow> bytes \<Rightarrow> 'w fs_event list \<Rightarrow> fs_error list \<times> 'w fs_event list) \<Rightarrow> 'w fs_event list \<Rightarrow>
    fs_error list \<times> 'w fs_event list" where
  "withConfinedParent K root destination use h =
     (if \<not> has_prefix root ''/'' \<or> has_prefix destination ''/'' then ([PathsRequired], h)
      else case (if root \<noteq> ''/'' then components (trim_prefix root ''/'') else Inr []) of
        Inl e \<Rightarrow> ([e], h)
      | Inr roots \<Rightarrow> (case components destination of Inl e \<Rightarrow> ([e], h)
      | Inr targets \<Rightarrow>
        (case platformOpen K AT_FDCWD ''/'' directoryFlags 0 h of (Inl e, h1) \<Rightarrow> ([Errno e], h1)
         | (Inr f, h1) \<Rightarrow>
           (case open_parts K f [f] (roots @ butlast targets) h1 of
              (Inl err, held, h2) \<Rightarrow> deferred (close_held K (rev held)) (err, h2)
            | (Inr parent, held, h2) \<Rightarrow> deferred (close_held K (rev held)) (use parent (last targets) h2)))))"

text \<open>\<^verbatim>\<open>writeFresh\<close> and \<^verbatim>\<open>WriteFresh\<close>: no hooks. No writer is \<open>None\<close>. \<open>fresh_output\<close> is its closure.\<close>

definition fresh_output :: "'w kernel \<Rightarrow> 'w writer \<Rightarrow> nat \<Rightarrow> bytes \<Rightarrow> 'w fs_event list \<Rightarrow> fs_error list \<times> 'w fs_event list" where
  "fresh_output K write parent name h =
     (case platformOpen K (Fd parent) name [O_WRONLY, O_CREAT, O_EXCL, O_CLOEXEC, O_NOFOLLOW] 384 h of
        (Inl e, h1) \<Rightarrow> ([Errno e], h1)
      | (Inr f, h1) \<Rightarrow> deferred (close K f) (run_writer write f h1))"

definition WriteFresh :: "'w kernel \<Rightarrow> bytes \<Rightarrow> bytes \<Rightarrow> 'w writer option \<Rightarrow> 'w fs_event list \<Rightarrow> fs_error list \<times> 'w fs_event list" where
  "WriteFresh K root destination write h =
     (case write of None \<Rightarrow> ([PathsRequired], h)
      | Some write \<Rightarrow> withConfinedParent K root destination (fresh_output K write) h)"

section \<open>The transaction\<close>

definition S_IFMT :: "32 word" where "S_IFMT = 0xF000"
definition S_IFDIR :: "32 word" where "S_IFDIR = 0x4000"

definition privateStage :: "'w kernel \<Rightarrow> stat \<Rightarrow> fs_error list" where
  "privateStage K st =
     (if and (st_Mode st) S_IFMT \<noteq> S_IFDIR \<or> st_Uid st \<noteq> k_euid K \<or> and (st_Mode st) 63 \<noteq> 0 then [NotPrivate] else [])"

definition checkStage :: "'w kernel \<Rightarrow> nat \<Rightarrow> bytes \<Rightarrow> stat \<Rightarrow> 'w fs_event list \<Rightarrow> fs_error list \<times> 'w fs_event list" where
  "checkStage K parent name expected h =
     (case fstatat K parent name h of (Inl e, h1) \<Rightarrow> ([Errno e], h1)
      | (Inr current, h1) \<Rightarrow>
        (if st_Dev current \<noteq> st_Dev expected \<or> st_Ino current \<noteq> st_Ino expected \<or> and (st_Mode current) S_IFMT \<noteq> S_IFDIR
         then [IdentityChanged] else [], h1))"

text \<open>\<^verbatim>\<open>rand.Text\<close>: base 32.\<close>

definition base32_alphabet :: bytes where
  "base32_alphabet = ''ABCDEFGHIJKLMNOPQRSTUVWXYZ234567''"

definition rand_Text :: "'w kernel \<Rightarrow> 'w fs_event list \<Rightarrow> bytes" where
  "rand_Text K h = map (\<lambda>w. base32_alphabet ! unat w) (k_rand K h)"

definition stage_prefix :: bytes where "stage_prefix = ''.croton-output-''"
definition output_name :: bytes where "output_name = ''output''"

text \<open>The deferred removals of the stage and of the output.\<close>

definition remove_stage :: "'w kernel \<Rightarrow> nat \<Rightarrow> bytes \<Rightarrow> stat \<Rightarrow> 'w fs_event list \<Rightarrow> fs_error list \<times> 'w fs_event list" where
  "remove_stage K parent stage created h =
     (case checkStage K parent stage created h of
        (e # es, h1) \<Rightarrow> (map RemoveDirectory (e # es), h1)
      | ([], h1) \<Rightarrow> (case unlinkat K parent stage True h1 of (err, h2) \<Rightarrow> (map RemoveDirectory err, h2)))"

definition remove_output :: "'w kernel \<Rightarrow> nat \<Rightarrow> 'w fs_event list \<Rightarrow> fs_error list \<times> 'w fs_event list" where
  "remove_output K d h = (case unlinkat K d output_name False h of (err, h1) \<Rightarrow> (map RemoveFile err, h1))"

text \<open>From the open output file to the publication: the file is closed by the deferred call only where it was not before.\<close>

definition write_publish :: "'w kernel \<Rightarrow> 'w writer \<Rightarrow> nat \<Rightarrow> nat \<Rightarrow> nat \<Rightarrow> bytes \<Rightarrow> 'w fs_event list \<Rightarrow>
    fs_error list \<times> 'w fs_event list" where
  "write_publish K write f d parent name h =
     (case run_writer write f h of
        (e # es, h1) \<Rightarrow> deferred (close K f) (e # es, h1)
      | ([], h1) \<Rightarrow>
        (case close K f h1 of
           (e # es, h2) \<Rightarrow> (e # es, h2)
         | ([], h2) \<Rightarrow> publishLink K d output_name parent name h2))"

text \<open>From the open stage directory.\<close>

definition in_stage :: "'w kernel \<Rightarrow> 'w writer \<Rightarrow> nat \<Rightarrow> nat \<Rightarrow> bytes \<Rightarrow> stat \<Rightarrow> 'w fs_event list \<Rightarrow>
    fs_error list \<times> 'w fs_event list" where
  "in_stage K write d parent name created h =
     (case fstat K d h of (Inl e, h1) \<Rightarrow> ([Errno e], h1)
      | (Inr opened, h1) \<Rightarrow>
        if st_Dev opened \<noteq> st_Dev created \<or> st_Ino opened \<noteq> st_Ino created then ([IdentityChanged], h1)
        else case privateStage K opened of e # es \<Rightarrow> (e # es, h1)
        | [] \<Rightarrow>
          (case platformOpen K (Fd d) output_name [O_WRONLY, O_CREAT, O_EXCL, O_CLOEXEC, O_NOFOLLOW] 384 h1 of
             (Inl e, h2) \<Rightarrow> ([Errno e], h2)
           | (Inr f, h2) \<Rightarrow> deferred (remove_output K d) (write_publish K write f d parent name h2)))"

definition transaction :: "'w kernel \<Rightarrow> 'w writer \<Rightarrow> nat \<Rightarrow> bytes \<Rightarrow> 'w fs_event list \<Rightarrow> fs_error list \<times> 'w fs_event list" where
  "transaction K write parent name h =
     (case fstatat K parent name h of
        (Inr st, h1) \<Rightarrow> ([ErrExist], h1)
      | (Inl e, h1) \<Rightarrow>
        if e \<noteq> ''ENOENT'' then ([Errno e], h1)
        else let stage = stage_prefix @ rand_Text K h1 in
          (case mkdirat K parent stage 448 h1 of (e # es, h2) \<Rightarrow> (e # es, h2)
           | ([], h2) \<Rightarrow>
             (case fstatat K parent stage h2 of (Inl e, h3) \<Rightarrow> ([CleanupAuthority (Errno e)], h3)
              | (Inr created, h3) \<Rightarrow>
                (case privateStage K created of e # es \<Rightarrow> (map CleanupAuthority (e # es), h3)
                 | [] \<Rightarrow> deferred (remove_stage K parent stage created)
                    (case platformOpen K (Fd parent) stage directoryFlags 0 h3 of (Inl e, h4) \<Rightarrow> ([Errno e], h4)
                     | (Inr d, h4) \<Rightarrow> deferred (close K d) (in_stage K write d parent name created h4))))))"

definition WriteTransactional :: "'w kernel \<Rightarrow> bytes \<Rightarrow> bytes \<Rightarrow> 'w writer option \<Rightarrow> 'w fs_event list \<Rightarrow>
    fs_error list \<times> 'w fs_event list" where
  "WriteTransactional K root destination write h =
     (case write of None \<Rightarrow> ([WriterRequired], h)
      | Some write \<Rightarrow> withConfinedParent K root destination (transaction K write) h)"

text \<open>
  \<^verbatim>\<open>BoundedTransactionalCopy\<close>: the context and the source may be nil. The context is asked once before the
  transaction; the writer's calls are those of the copy.
\<close>

definition BoundedTransactionalCopy :: "copy_event list kernel \<Rightarrow> bool \<Rightarrow> bool \<Rightarrow> copy_env \<Rightarrow> bytes \<Rightarrow> bytes \<Rightarrow> int \<Rightarrow>
    fs_error list \<times> copy_event list fs_event list" where
  "BoundedTransactionalCopy K ctx_nil source_nil E root destination limit =
     (if ctx_nil \<or> source_nil \<or> limit \<le> 0 then ([WriterError ErrInvalidCopyInput], [])
      else case check_ctx E [] of
        (Some e, _) \<Rightarrow> ([WriterError (CopyCanceled e)], [])
      | (None, _) \<Rightarrow> WriteTransactional K root destination (Some (\<lambda>f h. copy_from E limit)) [])"

section \<open>Descriptors\<close>

text \<open>
  \<open>track\<close> follows the open descriptors of a run, the newest first. It gives up on a call through a descriptor
  that is not open, on a name that is not one plain component, on an open that would follow a symbolic link,
  leak into a child or reuse an existing file, and on a close out of order.
\<close>

definition plain :: "bytes \<Rightarrow> bool" where
  "plain name \<longleftrightarrow> name \<noteq> [] \<and> name \<noteq> ''.'' \<and> name \<noteq> ''..'' \<and> CHR ''/'' \<notin> set name \<and> CHR 0x00 \<notin> set name"

fun touch :: "'w fs_event \<Rightarrow> nat list \<Rightarrow> nat list option" where
  "touch (Opened call d name flags mode r) held =
     (if O_NOFOLLOW \<in> set flags \<and> O_CLOEXEC \<in> set flags \<and> (O_CREAT \<notin> set flags \<or> O_EXCL \<in> set flags) \<and>
         (case d of AT_FDCWD \<Rightarrow> name = ''/'' \<and> held = [] | Fd p \<Rightarrow> p \<in> set held \<and> plain name \<and> call \<noteq> Open)
      then Some (case r of Inl e \<Rightarrow> held | Inr f \<Rightarrow> f # held) else None)"
| "touch (Fstatat d name r) held = (if d \<in> set held \<and> plain name then Some held else None)"
| "touch (Fstat d r) held = (if d \<in> set held then Some held else None)"
| "touch (Mkdirat d name mode r) held = (if d \<in> set held \<and> plain name then Some held else None)"
| "touch (Unlinkat d name removedir r) held = (if d \<in> set held \<and> plain name then Some held else None)"
| "touch (Linkat d name d' name' r) held =
     (if d \<in> set held \<and> plain name \<and> d' \<in> set held \<and> plain name' then Some held else None)"
| "touch (Closed f r) held = (case held of [] \<Rightarrow> None | g # gs \<Rightarrow> if f = g then Some gs else None)"
| "touch (Ran f w r) held = (case held of [] \<Rightarrow> None | g # gs \<Rightarrow> if f = g then Some held else None)"

definition track :: "'w fs_event list \<Rightarrow> nat list option" where
  "track h = foldl (\<lambda>held e. Option.bind held (touch e)) (Some []) h"

lemma track_simps [simp]: "track [] = Some []" "track (h @ [e]) = Option.bind (track h) (touch e)"
  by (simp_all add: track_def)

text \<open>Names.\<close>

lemma plain_output [simp]: "plain output_name"
  by (simp add: plain_def output_name_def)

lemma rand_Text_plain: "CHR ''/'' \<notin> set (rand_Text K h) \<and> CHR 0x00 \<notin> set (rand_Text K h)"
proof -
  have len: "length base32_alphabet = 32" by (simp add: base32_alphabet_def)
  have "unat w < 32" for w :: "5 word" using unsigned_less [of w, where ?'a = nat] by simp
  then have "base32_alphabet ! unat w \<in> set base32_alphabet" for w :: "5 word" using len by (intro nth_mem) simp
  then have "set (rand_Text K h) \<subseteq> set base32_alphabet" unfolding rand_Text_def by auto
  moreover have "CHR ''/'' \<notin> set base32_alphabet" "CHR 0x00 \<notin> set base32_alphabet" by (simp_all add: base32_alphabet_def)
  ultimately show ?thesis by blast
qed

lemma plain_stage [simp]: "plain (stage_prefix @ rand_Text K h)"
  using rand_Text_plain [of K h] by (simp add: plain_def stage_prefix_def)

lemma split_byte_clean: "list_all (\<lambda>p. c \<notin> set p) (split_byte c s)"
  by (induction s) (auto split: list.split simp: list_all_iff)

lemma components_plain: "components path = Inr parts \<Longrightarrow> parts \<noteq> [] \<and> list_all plain parts \<and> parts = split_byte (CHR ''/'') path"
  using split_byte_clean [of "CHR ''/''" path]
  by (auto simp: components_def Let_def plain_def list_all_iff list_ex_iff split: if_splits)

text \<open>Each operation keeps the open descriptors, or changes them as it says.\<close>

named_theorems tracks

lemma fstatat_tracks [tracks]:
  "track h = Some held \<Longrightarrow> d \<in> set held \<Longrightarrow> plain name \<Longrightarrow> fstatat K d name h = (r, h') \<Longrightarrow> track h' = Some held"
  by (auto simp: fstatat_def)

lemma fstat_tracks [tracks]: "track h = Some held \<Longrightarrow> d \<in> set held \<Longrightarrow> fstat K d h = (r, h') \<Longrightarrow> track h' = Some held"
  by (auto simp: fstat_def)

lemma mkdirat_tracks [tracks]:
  "track h = Some held \<Longrightarrow> d \<in> set held \<Longrightarrow> plain name \<Longrightarrow> mkdirat K d name mode h = (r, h') \<Longrightarrow> track h' = Some held"
  by (auto simp: mkdirat_def)

lemma unlinkat_tracks [tracks]:
  "track h = Some held \<Longrightarrow> d \<in> set held \<Longrightarrow> plain name \<Longrightarrow> unlinkat K d name b h = (r, h') \<Longrightarrow> track h' = Some held"
  by (auto simp: unlinkat_def)

lemma publishLink_tracks [tracks]:
  "track h = Some held \<Longrightarrow> d \<in> set held \<Longrightarrow> plain name \<Longrightarrow> d' \<in> set held \<Longrightarrow> plain name' \<Longrightarrow>
     publishLink K d name d' name' h = (r, h') \<Longrightarrow> track h' = Some held"
  by (auto simp: publishLink_def)

lemma close_tracks [tracks]: "track h = Some (f # held) \<Longrightarrow> close K f h = (r, h') \<Longrightarrow> track h' = Some held"
  by (auto simp: close_def)

lemma run_writer_tracks [tracks]:
  "track h = Some (f # held) \<Longrightarrow> run_writer write f h = (r, h') \<Longrightarrow> track h' = Some (f # held)"
  by (auto simp: run_writer_def split: prod.splits)

definition plain_flags :: "open_flag list \<Rightarrow> bool" where
  "plain_flags flags \<longleftrightarrow> O_NOFOLLOW \<in> set flags \<and> O_CLOEXEC \<in> set flags \<and> (O_CREAT \<notin> set flags \<or> O_EXCL \<in> set flags)"

lemma plain_flags [simp]: "plain_flags directoryFlags" "plain_flags [O_WRONLY, O_CREAT, O_EXCL, O_CLOEXEC, O_NOFOLLOW]"
  by (simp_all add: plain_flags_def directoryFlags_def)

lemma platformOpen_tracks [tracks]:
  "track h = Some held \<Longrightarrow> p \<in> set held \<Longrightarrow> plain name \<Longrightarrow> plain_flags flags \<Longrightarrow>
     platformOpen K (Fd p) name flags mode h = (r, h') \<Longrightarrow> track h' = Some (case r of Inl e \<Rightarrow> held | Inr f \<Rightarrow> f # held)"
  by (auto simp: platformOpen_def plain_flags_def split: platform.splits)

lemma root_tracks:
  "platformOpen K AT_FDCWD ''/'' directoryFlags mode [] = (r, h') \<Longrightarrow> track h' = Some (case r of Inl e \<Rightarrow> [] | Inr f \<Rightarrow> [f])"
  by (auto simp: platformOpen_def directoryFlags_def track_def split: platform.splits)

lemma deferred_tracks:
  assumes "deferred f r = (err, h')" and "\<And>err h. r = (err, h) \<Longrightarrow> track h = Some held"
    and "\<And>h err h'. track h = Some held \<Longrightarrow> f h = (err, h') \<Longrightarrow> track h' = Some held'"
  shows "track h' = Some held'"
  using assms by (auto simp: deferred_def split: prod.splits)

lemma open_parts_tracks:
  "open_parts K parent held parts h = (r, held', h') \<Longrightarrow> track h = Some (rev held) \<Longrightarrow> parent \<in> set held \<Longrightarrow>
     list_all plain parts \<Longrightarrow> track h' = Some (rev held') \<and> (case r of Inl e \<Rightarrow> True | Inr p \<Rightarrow> p \<in> set held')"
proof (induction K parent held parts h rule: open_parts.induct)
  case (2 K parent held part parts h)
  obtain r1 h1 where open1: "platformOpen K (Fd parent) part directoryFlags 0 h = (r1, h1)" by fastforce
  have "track h1 = Some (case r1 of Inl e \<Rightarrow> rev held | Inr f \<Rightarrow> f # rev held)"
    using platformOpen_tracks [OF _ _ _ _ open1, of "rev held"] 2(3-5) by simp
  with 2 open1 show ?case by (cases r1) auto
qed auto

lemma close_held_tracks: "close_held K fs h = (err, h') \<Longrightarrow> track h = Some (fs @ held) \<Longrightarrow> track h' = Some held"
  by (induction K fs h arbitrary: err h' rule: close_held.induct) (auto split: prod.splits dest: close_tracks)

lemma checkStage_tracks [tracks]:
  "track h = Some held \<Longrightarrow> d \<in> set held \<Longrightarrow> plain name \<Longrightarrow> checkStage K d name st h = (r, h') \<Longrightarrow> track h' = Some held"
  by (auto simp: checkStage_def split: prod.splits sum.splits dest: fstatat_tracks)

lemma remove_stage_tracks [tracks]:
  "track h = Some held \<Longrightarrow> d \<in> set held \<Longrightarrow> plain name \<Longrightarrow> remove_stage K d name st h = (r, h') \<Longrightarrow> track h' = Some held"
  by (auto simp: remove_stage_def split: prod.splits list.splits dest: checkStage_tracks unlinkat_tracks)

lemma remove_output_tracks [tracks]:
  "track h = Some held \<Longrightarrow> d \<in> set held \<Longrightarrow> remove_output K d h = (r, h') \<Longrightarrow> track h' = Some held"
  by (auto simp: remove_output_def split: prod.splits dest: unlinkat_tracks [OF _ _ plain_output])

lemma write_publish_tracks [tracks]:
  assumes "track h = Some (f # held)" and "d \<in> set held" and "p \<in> set held" and "plain name"
    and "write_publish K write f d p name h = (r, h')"
  shows "track h' = Some held"
proof -
  obtain e1 h1 where w: "run_writer write f h = (e1, h1)" by fastforce
  note h1 = run_writer_tracks [OF assms(1) w]
  obtain e2 h2 where c: "close K f h1 = (e2, h2)" by fastforce
  note h2 = close_tracks [OF h1 c]
  show ?thesis
  proof (cases e1)
    case (Cons e es)
    with assms(5) w c h2 show ?thesis by (auto simp: write_publish_def deferred_def)
  next
    case Nil
    with assms w c h2 show ?thesis
      by (auto simp: write_publish_def split: list.splits dest: publishLink_tracks [OF h2, rotated -1])
  qed
qed

lemma in_stage_tracks [tracks]:
  assumes "track h = Some (d # held)" and "p \<in> set held" and "plain name"
    and "in_stage K write d p name created h = (r, h')"
  shows "track h' = Some (d # held)"
proof -
  obtain r1 h1 where st: "fstat K d h = (r1, h1)" by fastforce
  note h1 = fstat_tracks [OF assms(1) _ st, simplified]
  obtain r2 h2 where open2: "platformOpen K (Fd d) output_name [O_WRONLY, O_CREAT, O_EXCL, O_CLOEXEC, O_NOFOLLOW] 384 h1 = (r2, h2)"
    by fastforce
  note h2 = platformOpen_tracks [OF h1 _ _ _ open2, simplified]
  show ?thesis
  proof (cases "\<exists>f opened. r2 = Inr f \<and> r1 = Inr opened \<and> st_Dev opened = st_Dev created \<and> st_Ino opened = st_Ino created \<and>
      privateStage K opened = []")
    case False
    with assms(4) st open2 h1 h2 show ?thesis by (auto simp: in_stage_def split: sum.splits if_splits list.splits)
  next
    case True
    then obtain f where f: "r2 = Inr f" by blast
    have "deferred (remove_output K d) (write_publish K write f d p name h2) = (r, h')"
      using assms(4) st open2 True f by (auto simp: in_stage_def)
    then show ?thesis
    proof (rule deferred_tracks)
      show "track h4 = Some (d # held)" if "write_publish K write f d p name h2 = (err, h4)" for err h4
        using write_publish_tracks [OF _ _ _ assms(3) that] h2 f assms(2) by simp
      show "track h5 = Some (d # held)" if "track h4 = Some (d # held)" "remove_output K d h4 = (err, h5)" for h4 h5 err
        using remove_output_tracks [OF that(1) _ that(2)] by simp
    qed
  qed
qed

lemma transaction_tracks:
  assumes "track h = Some held" and "p \<in> set held" and "plain name" and "transaction K write p name h = (r, h')"
  shows "track h' = Some held"
proof -
  obtain r1 h1 where f1: "fstatat K p name h = (r1, h1)" by fastforce
  note h1 = fstatat_tracks [OF assms(1-3) f1]
  define stage where "stage = stage_prefix @ rand_Text K h1"
  have stage: "plain stage" by (simp add: stage_def)
  obtain r2 h2 where f2: "mkdirat K p stage 448 h1 = (r2, h2)" by fastforce
  note h2 = mkdirat_tracks [OF h1 assms(2) stage f2]
  obtain r3 h3 where f3: "fstatat K p stage h2 = (r3, h3)" by fastforce
  note h3 = fstatat_tracks [OF h2 assms(2) stage f3]
  show ?thesis
  proof (cases "\<exists>created. r1 = Inl ''ENOENT'' \<and> r2 = [] \<and> r3 = Inr created \<and> privateStage K created = []")
    case False
    with assms(4) f1 f2 f3 h1 h2 h3 show ?thesis
      by (auto simp: transaction_def Let_def stage_def [symmetric] split: sum.splits if_splits list.splits)
  next
    case True
    then obtain created where c: "r1 = Inl ''ENOENT''" "r2 = []" "r3 = Inr created" "privateStage K created = []" by blast
    obtain r4 h4 where f4: "platformOpen K (Fd p) stage directoryFlags 0 h3 = (r4, h4)" by fastforce
    note h4 = platformOpen_tracks [OF h3 assms(2) stage _ f4, simplified]
    have "deferred (remove_stage K p stage created)
        (case r4 of Inl e \<Rightarrow> ([Errno e], h4) | Inr d \<Rightarrow> deferred (close K d) (in_stage K write d p name created h4)) = (r, h')"
      using assms(4) f1 f2 f3 f4 c by (simp add: transaction_def Let_def stage_def [symmetric] split: sum.splits)
    then show ?thesis
    proof (rule deferred_tracks)
      fix err h5 assume inner: "(case r4 of Inl e \<Rightarrow> ([Errno e], h4) | Inr d \<Rightarrow> deferred (close K d) (in_stage K write d p name created h4)) = (err, h5)"
      show "track h5 = Some held"
      proof (cases r4)
        case (Inl e)
        with inner h4 show ?thesis by simp
      next
        case (Inr d)
        with inner have "deferred (close K d) (in_stage K write d p name created h4) = (err, h5)" by simp
        then show ?thesis
        proof (rule deferred_tracks)
          show "track h7 = Some (d # held)" if "in_stage K write d p name created h4 = (e, h7)" for e h7
            using in_stage_tracks [OF _ assms(2,3) that] h4 Inr by simp
        qed (rule close_tracks)
      qed
    next
      show "track h6 = Some held" if "track h5 = Some held" "remove_stage K p stage created h5 = (e, h6)" for h5 e h6
        by (rule remove_stage_tracks [OF that(1) assms(2) stage that(2)])
    qed
  qed
qed

text \<open>What \<^verbatim>\<open>withConfinedParent\<close> asks of its client: it may use the parent and has to leave the open descriptors as they were.\<close>

locale confined_use =
  fixes use :: "nat \<Rightarrow> bytes \<Rightarrow> 'w fs_event list \<Rightarrow> fs_error list \<times> 'w fs_event list"
  assumes keeps: "track h = Some held \<Longrightarrow> p \<in> set held \<Longrightarrow> plain name \<Longrightarrow> use p name h = (r, h') \<Longrightarrow> track h' = Some held"
begin

lemma parent_tracks:
  assumes "withConfinedParent K root destination use [] = (err, h')"
  shows "track h' = Some []"
proof -
  obtain r1 h1 where f1: "platformOpen K AT_FDCWD ''/'' directoryFlags 0 [] = (r1, h1)" by fastforce
  note h1 = root_tracks [OF f1]
  show ?thesis
  proof (cases "\<exists>roots targets f. (if root \<noteq> ''/'' then components (trim_prefix root ''/'') else Inr []) = Inr roots \<and>
      components destination = Inr targets \<and> r1 = Inr f \<and> has_prefix root ''/'' \<and> \<not> has_prefix destination ''/''")
    case False
    with assms f1 h1 show ?thesis
      by (auto simp: withConfinedParent_def split: sum.splits if_splits)
  next
    case True
    then obtain roots targets f where c: "(if root \<noteq> ''/'' then components (trim_prefix root ''/'') else Inr []) = Inr roots"
      "components destination = Inr targets" "r1 = Inr f" "has_prefix root ''/''" "\<not> has_prefix destination ''/''" by blast
    have roots: "list_all plain roots" using c(1) by (auto split: if_splits dest: components_plain)
    have targets: "list_all plain (butlast targets)" "plain (last targets)"
      using components_plain [OF c(2)] by (auto simp: list_all_iff dest: in_set_butlastD)
    obtain r2 held h2 where f2: "open_parts K f [f] (roots @ butlast targets) h1 = (r2, held, h2)" by (metis prod_cases3)
    have h2: "track h2 = Some (rev held) \<and> (case r2 of Inl e \<Rightarrow> True | Inr p \<Rightarrow> p \<in> set held)"
      by (rule open_parts_tracks [OF f2]) (use h1 c(3) roots targets(1) in simp_all)
    have "deferred (close_held K (rev held)) (case r2 of Inl e \<Rightarrow> (e, h2) | Inr p \<Rightarrow> use p (last targets) h2) = (err, h')"
      using assms f1 f2 c by (simp add: withConfinedParent_def split: sum.splits)
    then show ?thesis
    proof (rule deferred_tracks)
      show "track h3 = Some (rev held)" if "(case r2 of Inl e \<Rightarrow> (e, h2) | Inr p \<Rightarrow> use p (last targets) h2) = (e, h3)" for e h3
        using that h2 keeps [of h2 "rev held"] targets(2) by (cases r2) auto
      show "track h4 = Some []" if "track h3 = Some (rev held)" "close_held K (rev held) h3 = (e, h4)" for h3 h4 e
        using close_held_tracks [OF that(2)] that(1) by simp
    qed
  qed
qed

end

lemma fresh_output_tracks:
  assumes "track h = Some held" and "p \<in> set held" and "plain name" and "fresh_output K write p name h = (r, h')"
  shows "track h' = Some held"
proof -
  obtain r1 h1 where opn: "platformOpen K (Fd p) name [O_WRONLY, O_CREAT, O_EXCL, O_CLOEXEC, O_NOFOLLOW] 384 h = (r1, h1)" by fastforce
  note h1 = platformOpen_tracks [OF assms(1,2,3) _ opn, simplified]
  show ?thesis
  proof (cases r1)
    case (Inl e)
    with assms(4) opn h1 show ?thesis by (simp add: fresh_output_def)
  next
    case (Inr f)
    with assms(4) opn have "deferred (close K f) (run_writer write f h1) = (r, h')" by (simp add: fresh_output_def)
    moreover have "track h1 = Some (f # held)" using h1 Inr by simp
    ultimately show ?thesis using run_writer_tracks close_tracks by (elim deferred_tracks) blast+
  qed
qed

interpretation fresh: confined_use "fresh_output K write" for K "write"
  by unfold_locales (rule fresh_output_tracks)

interpretation transactional: confined_use "transaction K write" for K "write"
  by unfold_locales (rule transaction_tracks)

text \<open>
  C28. Whatever the operating system answers and the writer does, \<^verbatim>\<open>WriteFresh\<close> and \<^verbatim>\<open>WriteTransactional\<close> reach the
  file system only through descriptors they opened themselves, with one plain name under each; they open
  without following links, hand no descriptor to a child, create only files that did not exist, and close
  every descriptor they opened, once, the newest first.
\<close>

theorem descriptors_confined:
  "track (snd (WriteFresh K root destination write [])) = Some [] \<and>
   track (snd (WriteTransactional K root destination write [])) = Some []"
proof (cases "write")
  case None
  then show ?thesis by (simp add: WriteFresh_def WriteTransactional_def)
next
  case (Some w)
  then show ?thesis
    by (auto simp: WriteFresh_def WriteTransactional_def
        intro: fresh.parent_tracks [OF prod.collapse [symmetric]] transactional.parent_tracks [OF prod.collapse [symmetric]])
qed

section \<open>Publication\<close>

text \<open>The calls that run the writer or publish; the creation of the output and its removal; a call that succeeded.\<close>

fun quiet :: "'w fs_event \<Rightarrow> bool" where
  "quiet (Ran f w r) \<longleftrightarrow> False"
| "quiet (Linkat d name d' name' r) \<longleftrightarrow> False"
| "quiet _ \<longleftrightarrow> True"

fun links :: "'w fs_event \<Rightarrow> bool" where
  "links (Linkat d name d' name' r) \<longleftrightarrow> True"
| "links _ \<longleftrightarrow> False"

fun creates :: "'w fs_event \<Rightarrow> bool" where
  "creates (Opened call d name flags mode r) \<longleftrightarrow> O_CREAT \<in> set flags \<and> \<not> isl r"
| "creates _ \<longleftrightarrow> False"

fun drops :: "'w fs_event \<Rightarrow> bool" where
  "drops (Unlinkat d name removedir r) \<longleftrightarrow> \<not> removedir"
| "drops _ \<longleftrightarrow> False"

text \<open>Nothing stands at the destination where the first \<^verbatim>\<open>fstatat\<close> fails, so its answer is left open.\<close>

fun succeeded :: "'w fs_event \<Rightarrow> bool" where
  "succeeded (Opened call d name flags mode r) \<longleftrightarrow> \<not> isl r"
| "succeeded (Fstatat d name r) \<longleftrightarrow> True"
| "succeeded (Fstat d r) \<longleftrightarrow> \<not> isl r"
| "succeeded (Mkdirat d name mode r) \<longleftrightarrow> r = None"
| "succeeded (Unlinkat d name removedir r) \<longleftrightarrow> r = None"
| "succeeded (Linkat d name d' name' r) \<longleftrightarrow> r = None"
| "succeeded (Closed f r) \<longleftrightarrow> r = None"
| "succeeded (Ran f w r) \<longleftrightarrow> r = None"

lemma errno_Nil [simp]: "errno r = [] \<longleftrightarrow> r = None"
  by (simp add: errno_def split: option.split)

text \<open>What the operations around the writer add to a run.\<close>

definition adds :: "'w fs_event list \<Rightarrow> fs_error list \<Rightarrow> 'w fs_event list \<Rightarrow> bool" where
  "adds h err h' \<longleftrightarrow> (\<exists>g. h' = h @ g \<and> list_all (\<lambda>e. quiet e \<and> \<not> creates e \<and> \<not> drops e) g \<and> (err = [] \<longrightarrow> list_all succeeded g))"

lemma adds_refl: "adds h err h"
  by (simp add: adds_def)

lemma adds_trans: "adds h err h1 \<Longrightarrow> adds h1 err' h2 \<Longrightarrow> (err'' = [] \<Longrightarrow> err = [] \<and> err' = []) \<Longrightarrow> adds h err'' h2"
  unfolding adds_def by (elim exE) (rule_tac x = "g @ ga" in exI, auto)

lemma adds_any: "adds h [] h' \<Longrightarrow> adds h err h'"
  by (auto simp: adds_def)

lemma adds_one: "quiet e \<Longrightarrow> \<not> creates e \<Longrightarrow> \<not> drops e \<Longrightarrow> (err = [] \<Longrightarrow> succeeded e) \<Longrightarrow> adds h err (h @ [e])"
  by (simp add: adds_def)

lemma adds_calls:
  "fstatat K d name h = (r, h') \<Longrightarrow> adds h [] h'"
  "mkdirat K d name mode h = (err, h') \<Longrightarrow> adds h err h'"
  "close K f h = (err, h') \<Longrightarrow> adds h err h'"
  "unlinkat K d name True h = (err, h') \<Longrightarrow> adds h err h'"
  by (auto simp: fstatat_def mkdirat_def close_def unlinkat_def intro!: adds_one)

lemma fstat_adds: "fstat K d h = (r, h') \<Longrightarrow> (err = [] \<Longrightarrow> \<not> isl r) \<Longrightarrow> adds h err h'"
  by (auto simp: fstat_def intro!: adds_one)

lemma platformOpen_adds:
  "platformOpen K d name directoryFlags mode h = (r, h') \<Longrightarrow> (err = [] \<Longrightarrow> \<not> isl r) \<Longrightarrow> adds h err h'"
  by (auto simp: platformOpen_def directoryFlags_def Let_def intro!: adds_one)

lemma open_parts_adds: "open_parts K parent held parts h = (r, held', h') \<Longrightarrow> (err = [] \<Longrightarrow> \<not> isl r) \<Longrightarrow> adds h err h'"
proof (induction K parent held parts h arbitrary: err rule: open_parts.induct)
  case (2 K parent held part parts h)
  obtain r1 h1 where o1: "platformOpen K (Fd parent) part directoryFlags 0 h = (r1, h1)" by fastforce
  show ?case
  proof (cases r1)
    case (Inl e)
    with 2 o1 show ?thesis by (auto intro: platformOpen_adds)
  next
    case (Inr f)
    with 2 o1 have "adds h1 err h'" by auto
    with platformOpen_adds [OF o1, of "[]"] Inr show ?thesis by (auto intro: adds_trans)
  qed
qed (auto simp: adds_refl)

lemma close_held_adds: "close_held K fs h = (err, h') \<Longrightarrow> adds h err h'"
proof (induction K fs h arbitrary: err h' rule: close_held.induct)
  case (2 K f fs h)
  then show ?case by (auto split: prod.splits intro: adds_trans [OF adds_calls(3)])
qed (simp add: adds_refl)

lemma remove_stage_adds: "remove_stage K p stage created h = (err, h') \<Longrightarrow> adds h err h'"
  by (auto simp: remove_stage_def checkStage_def split: prod.splits sum.splits list.splits if_splits
      dest!: adds_calls(1,4) elim: adds_trans adds_any)

text \<open>A run that publishes at most once, and then only what a finished writer left in a file that closed.\<close>

definition linked :: "'w writer \<Rightarrow> bytes \<Rightarrow> 'w fs_event list \<Rightarrow> fs_error list \<Rightarrow> 'w fs_event list \<Rightarrow> bool" where
  "linked write name h err g \<longleftrightarrow> err \<noteq> [] \<and> list_all (\<lambda>e. \<not> links e) g \<or>
     (\<exists>pre f w d p r post. g = pre @ [Ran f w None, Closed f None, Linkat d output_name p name r] @ post \<and>
        write f (h @ pre) = (None, w) \<and> list_all quiet pre \<and> list_all quiet post)"

lemma linkedI:
  "g = pre @ [Ran f w None, Closed f None, Linkat d output_name p name r] @ post \<Longrightarrow> write f (h @ pre) = (None, w) \<Longrightarrow>
     list_all quiet pre \<Longrightarrow> list_all quiet post \<Longrightarrow> linked write name h err g"
  unfolding linked_def by blast

lemma quiet_not_links: "quiet e \<Longrightarrow> \<not> links e"
  by (cases e) auto

lemma quiet_links: "list_all quiet g \<Longrightarrow> list_all (\<lambda>e. \<not> links e) g"
  by (auto simp: list_all_iff dest: quiet_not_links)

lemma linked_widen:
  assumes "linked write name (h @ a) err g" and "list_all quiet a" and "list_all quiet b"
  shows "linked write name h (err @ err') (a @ g @ b)"
  using assms(1) [unfolded linked_def]
proof (elim disjE exE conjE)
  assume "err \<noteq> []" "list_all (\<lambda>e. \<not> links e) g"
  with quiet_links [OF assms(2)] quiet_links [OF assms(3)] show ?thesis by (simp add: linked_def)
next
  fix pre f w d p r post
  assume g: "g = pre @ [Ran f w None, Closed f None, Linkat d output_name p name r] @ post"
    and w: "write f ((h @ a) @ pre) = (None, w)" and q: "list_all quiet pre" "list_all quiet post"
  from g have "a @ g @ b = (a @ pre) @ [Ran f w None, Closed f None, Linkat d output_name p name r] @ (post @ b)" by simp
  then show ?thesis by (rule linkedI) (use w q assms(2,3) in simp_all)
qed

definition publishes :: "'w writer \<Rightarrow> bytes \<Rightarrow> 'w fs_event list \<Rightarrow> fs_error list \<Rightarrow> 'w fs_event list \<Rightarrow> bool" where
  "publishes write name h err h' \<longleftrightarrow> (\<exists>g. h' = h @ g \<and> length (filter creates g) = length (filter drops g) \<and>
     (err = [] \<longrightarrow> list_all succeeded g) \<and> linked write name h err g)"

lemma publishes_widen:
  assumes "publishes write name (h @ a) err h1" and "list_all quiet a" "list_all quiet b" "list_all succeeded a"
    and "length (filter creates a) + length (filter creates b) = length (filter drops a) + length (filter drops b)"
    and "err' = [] \<Longrightarrow> list_all succeeded b"
  shows "publishes write name h (err @ err') (h1 @ b)"
proof -
  obtain g where g: "h1 = (h @ a) @ g" "length (filter creates g) = length (filter drops g)" "err = [] \<longrightarrow> list_all succeeded g"
    "linked write name (h @ a) err g" using assms(1) unfolding publishes_def by blast
  from linked_widen [OF g(4) assms(2,3)] assms(4-6) g(1-3) show ?thesis
    unfolding publishes_def by (intro exI [of _ "a @ g @ b"]) simp
qed

lemma addsE:
  assumes "adds h err h'"
  obtains g where "h' = h @ g" "list_all quiet g" "filter creates g = []" "filter drops g = []" "err = [] \<Longrightarrow> list_all succeeded g"
proof -
  obtain g where g: "h' = h @ g" "list_all (\<lambda>e. quiet e \<and> \<not> creates e \<and> \<not> drops e) g" "err = [] \<longrightarrow> list_all succeeded g"
    using assms unfolding adds_def by blast
  then show thesis by (intro that [of g]) (auto simp: list_all_iff filter_empty_conv)
qed

lemma adds_publishes: "adds h err h' \<Longrightarrow> err \<noteq> [] \<Longrightarrow> publishes write name h err h'"
  by (erule addsE) (simp add: publishes_def linked_def quiet_links)

lemma adds_before:
  assumes "adds h [] h1" and "publishes write name h1 err h2"
  shows "publishes write name h err h2"
  using assms(1)
proof (rule addsE)
  fix a assume a: "h1 = h @ a" "list_all quiet a" "filter creates a = []" "filter drops a = []" "[] = [] \<Longrightarrow> list_all succeeded a"
  show ?thesis using publishes_widen [of "write" name h a err h2 "[]" "[]"] a assms(2) by simp
qed

lemma adds_after:
  assumes "publishes write name h err h1" and "adds h1 err' h2"
  shows "publishes write name h (err @ err') h2"
  using assms(2)
proof (rule addsE)
  fix b assume b: "h2 = h1 @ b" "list_all quiet b" "filter creates b = []" "filter drops b = []" "err' = [] \<Longrightarrow> list_all succeeded b"
  show ?thesis using publishes_widen [of "write" name h "[]" err h1 b err'] b assms(1) by simp
qed

text \<open>What the writer's part adds: it neither creates nor removes.\<close>

lemma write_publish_publishes:
  assumes "write_publish K write f d p name h = (err, h')"
  shows "publishes write name h err h'"
proof -
  obtain werr w where w: "write f h = (werr, w)" by fastforce
  define h1 where "h1 = h @ [Ran f w werr]"
  define c where "c = k_call K h1"
  define r where "r = k_call K (h1 @ [Closed f c])"
  show ?thesis
  proof (cases werr)
    case (Some e)
    with assms w have "err \<noteq> []" "h' = h @ [Ran f w werr, Closed f c]"
      by (auto simp: write_publish_def run_writer_def deferred_def close_def h1_def c_def)
    then show ?thesis by (simp add: publishes_def linked_def)
  next
    case ran: None
    then have run: "run_writer write f h = ([], h1)" using w by (simp add: run_writer_def h1_def)
    have close: "close K f h1 = (errno c, h1 @ [Closed f c])" by (simp add: close_def c_def)
    show ?thesis
    proof (cases c)
      case (Some e)
      with assms run close ran have "err \<noteq> []" "h' = h @ [Ran f w None, Closed f c]"
        by (auto simp: write_publish_def errno_def h1_def)
      then show ?thesis by (simp add: publishes_def linked_def)
    next
      case None
      with assms run close ran have h': "err = errno r" "h' = h @ [Ran f w None, Closed f None, Linkat d output_name p name r]"
        by (auto simp: write_publish_def errno_def h1_def publishLink_def r_def)
      have "linked write name h err [Ran f w None, Closed f None, Linkat d output_name p name r]"
        by (rule linkedI [where pre = "[]" and post = "[]"]) (use w ran in simp_all)
      with h' show ?thesis by (simp add: publishes_def)
    qed
  qed
qed

text \<open>The creation of the output and its removal enclose it.\<close>

lemma in_stage_publishes:
  assumes "in_stage K write d p name created h = (err, h')"
  shows "publishes write name h err h'"
proof -
  obtain r1 h1 where st: "fstat K d h = (r1, h1)" by fastforce
  show ?thesis
  proof (cases "\<exists>opened. r1 = Inr opened \<and> st_Dev opened = st_Dev created \<and> st_Ino opened = st_Ino created \<and> privateStage K opened = []")
    case False
    with assms st have "err \<noteq> []" "h' = h1" by (auto simp: in_stage_def split: sum.splits if_splits list.splits)
    with fstat_adds [OF st, of err] show ?thesis by (auto intro: adds_publishes)
  next
    case True
    define r2 where "r2 = k_open K h1 (Fd d) output_name"
    obtain call where open2: "platformOpen K (Fd d) output_name [O_WRONLY, O_CREAT, O_EXCL, O_CLOEXEC, O_NOFOLLOW] 384 h1 =
        (r2, h1 @ [Opened call (Fd d) output_name [O_WRONLY, O_CREAT, O_EXCL, O_CLOEXEC, O_NOFOLLOW] 384 r2])"
      by (simp add: platformOpen_def Let_def r2_def)
    have h1: "adds h [] h1" using fstat_adds [OF st, of "[]"] True by auto
    show ?thesis
    proof (cases r2)
      case (Inl e)
      with assms st True open2 have "err \<noteq> []"
        "h' = h1 @ [Opened call (Fd d) output_name [O_WRONLY, O_CREAT, O_EXCL, O_CLOEXEC, O_NOFOLLOW] 384 r2]"
        by (auto simp: in_stage_def)
      with Inl have "adds h1 err h'" by (auto intro: adds_one)
      with \<open>err \<noteq> []\<close> h1 show ?thesis by (auto intro: adds_before adds_publishes)
    next
      case (Inr f)
      define h2 where "h2 = h1 @ [Opened call (Fd d) output_name [O_WRONLY, O_CREAT, O_EXCL, O_CLOEXEC, O_NOFOLLOW] 384 r2]"
      obtain err3 h3 where wp: "write_publish K write f d p name h2 = (err3, h3)" by fastforce
      define r4 where "r4 = k_call K h3"
      have "err = err3 @ map RemoveFile (errno r4)" "h' = h3 @ [Unlinkat d output_name False r4]"
        using assms st True open2 Inr wp by (auto simp: in_stage_def deferred_def remove_output_def unlinkat_def r4_def h2_def)
      moreover have "publishes write name h1 (err3 @ map RemoveFile (errno r4)) (h3 @ [Unlinkat d output_name False r4])"
        by (rule publishes_widen [OF write_publish_publishes [OF wp, unfolded h2_def]]) (use Inr in simp_all)
      ultimately show ?thesis using h1 by (auto intro: adds_before)
    qed
  qed
qed

lemma transaction_publishes:
  assumes "transaction K write p name h = (err, h')"
  shows "publishes write name h err h'"
proof -
  obtain r1 h1 where f1: "fstatat K p name h = (r1, h1)" by fastforce
  note a1 = adds_calls(1) [OF f1]
  define stage where "stage = stage_prefix @ rand_Text K h1"
  obtain r2 h2 where f2: "mkdirat K p stage 448 h1 = (r2, h2)" by fastforce
  note a2 = adds_calls(2) [OF f2]
  obtain r3 h3 where f3: "fstatat K p stage h2 = (r3, h3)" by fastforce
  note a3 = adds_calls(1) [OF f3]
  show ?thesis
  proof (cases "r1 = Inl ''ENOENT''")
    case False
    with assms f1 have "err \<noteq> []" "h' = h1" by (auto simp: transaction_def split: sum.splits if_splits)
    with a1 show ?thesis by (auto intro: adds_publishes adds_any)
  next
    case absent: True
    show ?thesis
    proof (cases r2)
      case (Cons e es)
      with assms f1 f2 absent have "err \<noteq> []" "err = r2" "h' = h2" by (auto simp: transaction_def Let_def stage_def [symmetric])
      with a1 a2 show ?thesis by (auto intro: adds_before adds_publishes)
    next
      case Nil
      note a12 = adds_trans [OF a1 a2 [unfolded Nil], simplified]
      note a123 = adds_trans [OF a12 a3, of "[]", simplified]
      show ?thesis
      proof (cases "\<exists>created. r3 = Inr created \<and> privateStage K created = []")
        case False
        with assms f1 f2 f3 absent Nil have "err \<noteq> []" "h' = h3"
          by (auto simp: transaction_def Let_def stage_def [symmetric] split: sum.splits list.splits)
        with a123 show ?thesis by (auto intro: adds_publishes adds_any)
      next
        case True
        then obtain created where c: "r3 = Inr created" "privateStage K created = []" by blast
        obtain r4 h4 where f4: "platformOpen K (Fd p) stage directoryFlags 0 h3 = (r4, h4)" by fastforce
        obtain e5 h5 where f5: "(case r4 of Inl e \<Rightarrow> ([Errno e], h4)
            | Inr d \<Rightarrow> deferred (close K d) (in_stage K write d p name created h4)) = (e5, h5)" by fastforce
        obtain e6 h6 where f6: "remove_stage K p stage created h5 = (e6, h6)" by fastforce
        have res: "err = e5 @ e6" "h' = h6"
          using assms f1 f2 f3 f4 f5 f6 absent Nil c
          by (auto simp: transaction_def Let_def stage_def [symmetric] deferred_def split: sum.splits)
        have "publishes write name h3 e5 h5"
        proof (cases r4)
          case (Inl e)
          with f5 have "e5 \<noteq> []" "h5 = h4" by auto
          with platformOpen_adds [OF f4, of e5] show ?thesis by (auto intro: adds_publishes)
        next
          case (Inr d)
          obtain e7 h7 where f7: "in_stage K write d p name created h4 = (e7, h7)" by fastforce
          obtain e8 h8 where f8: "close K d h7 = (e8, h8)" by fastforce
          have "e5 = e7 @ e8" "h5 = h8" using f5 f7 f8 Inr by (simp_all add: deferred_def)
          moreover have "publishes write name h4 (e7 @ e8) h8" by (rule adds_after [OF in_stage_publishes [OF f7] adds_calls(3) [OF f8]])
          moreover have "adds h3 [] h4" using platformOpen_adds [OF f4, of "[]"] Inr by simp
          ultimately show ?thesis by (auto intro: adds_before)
        qed
        from adds_before [OF a123 adds_after [OF this remove_stage_adds [OF f6]]] res show ?thesis by simp
      qed
    qed
  qed
qed

lemma open_parts_error: "open_parts K parent held parts h = (Inl e, held', h') \<Longrightarrow> e \<noteq> []"
  by (induction K parent held parts h rule: open_parts.induct) (auto split: prod.splits sum.splits)

lemma withConfinedParent_publishes:
  assumes "withConfinedParent K root destination (transaction K write) h = (err, h')"
  shows "publishes write (last (split_byte (CHR ''/'') destination)) h err h'"
proof -
  obtain r1 h1 where f1: "platformOpen K AT_FDCWD ''/'' directoryFlags 0 h = (r1, h1)" by fastforce
  show ?thesis
  proof (cases "\<exists>roots targets. (if root \<noteq> ''/'' then components (trim_prefix root ''/'') else Inr []) = Inr roots \<and>
      components destination = Inr targets \<and> has_prefix root ''/'' \<and> \<not> has_prefix destination ''/''")
    case False
    with assms have "err \<noteq> []" "h' = h"
      by (auto simp: withConfinedParent_def split: sum.splits if_splits)
    then show ?thesis by (auto intro: adds_publishes adds_refl)
  next
    case True
    then obtain roots targets where c: "(if root \<noteq> ''/'' then components (trim_prefix root ''/'') else Inr []) = Inr roots"
      "components destination = Inr targets" "has_prefix root ''/''" "\<not> has_prefix destination ''/''" by blast
    have targets: "targets = split_byte (CHR ''/'') destination" using components_plain [OF c(2)] by simp
    show ?thesis
    proof (cases r1)
      case (Inl e)
      with assms f1 c have "err \<noteq> []" "h' = h1" by (auto simp: withConfinedParent_def split: if_splits)
      with platformOpen_adds [OF f1, of err] show ?thesis by (auto intro: adds_publishes)
    next
      case (Inr f)
      have a1: "adds h [] h1" using platformOpen_adds [OF f1, of "[]"] Inr by simp
      obtain r2 held h2 where f2: "open_parts K f [f] (roots @ butlast targets) h1 = (r2, held, h2)" by (metis prod_cases3)
      obtain e3 h3 where f3: "(case r2 of Inl e \<Rightarrow> (e, h2) | Inr p \<Rightarrow> transaction K write p (last targets) h2) = (e3, h3)" by fastforce
      obtain e4 h4 where f4: "close_held K (rev held) h3 = (e4, h4)" by fastforce
      have res: "err = e3 @ e4" "h' = h4"
        using assms f1 f2 f3 f4 c Inr by (auto simp: withConfinedParent_def deferred_def split: sum.splits)
      have "publishes write (last targets) h1 e3 h3"
      proof (cases r2)
        case (Inl e)
        then have "e \<noteq> []" using f2 open_parts_error by blast
        moreover have "e3 = e" "h3 = h2" using f3 Inl by auto
        ultimately show ?thesis using open_parts_adds [OF f2, of e3] by (auto intro: adds_publishes)
      next
        case (Inr p)
        have "adds h1 [] h2" using open_parts_adds [OF f2, of "[]"] Inr by simp
        moreover have "transaction K write p (last targets) h2 = (e3, h3)" using f3 Inr by simp
        ultimately show ?thesis by (blast intro: adds_before transaction_publishes)
      qed
      from adds_before [OF a1 adds_after [OF this close_held_adds [OF f4]]] res targets show ?thesis by simp
    qed
  qed
qed


text \<open>
  What a bounded transactional copy publishes is whole: a link is made only after a copy that met the end
  of its source, handed over every byte it received, at most the limit, with every read and write as asked and
  the context alive at its end. Where nothing is linked, an error is returned.
\<close>

theorem bounded_copy_published:
  "case BoundedTransactionalCopy K ctx_nil source_nil E root destination limit of (err, h) \<Rightarrow>
     if list_ex links h
     then \<exists>pre f w d p r post. h = pre @ [Ran f w None, Closed f None,
         Linkat d output_name p (last (split_byte (CHR ''/'') destination)) r] @ post \<and>
       copy_outcome (nat limit) None w \<and> 0 < limit \<and> list_all quiet pre \<and> list_all quiet post
     else err \<noteq> []"
proof (cases "ctx_nil \<or> source_nil \<or> limit \<le> 0 \<or> ce_Err E [] \<noteq> None")
  case True
  then show ?thesis by (auto simp: BoundedTransactionalCopy_def check_ctx_def)
next
  case False
  let ?copier = "\<lambda>f h. copy_from E limit"
  have copy: "copy_outcome (nat limit) None w" if "copy_from E limit = (None, w)" for w
    using copy_from_keeps [of E "nat limit"] that False by simp
  obtain err h where run: "withConfinedParent K root destination (transaction K ?copier) [] = (err, h)" by fastforce
  have both: "BoundedTransactionalCopy K ctx_nil source_nil E root destination limit = (err, h)"
    using False run by (simp add: BoundedTransactionalCopy_def check_ctx_def WriteTransactional_def)
  have "linked ?copier (last (split_byte (CHR ''/'') destination)) [] err h"
    using withConfinedParent_publishes [OF run] by (auto simp: publishes_def)
  then consider "err \<noteq> []" "\<not> list_ex links h"
    | pre f w d p r post where "h = pre @ [Ran f w None, Closed f None,
         Linkat d output_name p (last (split_byte (CHR ''/'') destination)) r] @ post" "copy_from E limit = (None, w)"
       "list_all quiet pre" "list_all quiet post"
    unfolding linked_def by (auto simp: list_ex_iff list_all_iff)
  then show ?thesis
  proof cases
    case 1
    then show ?thesis by (simp add: both)
  next
    case 2
    then have "list_ex links h" by simp
    moreover have "copy_outcome (nat limit) None w" "0 < limit" using copy [OF 2(2)] False by simp_all
    ultimately show ?thesis unfolding both using 2(1,3,4) by (simp only: prod.case if_True) blast
  qed
qed

end
