(* ===== verification/Bridge_Config.thy ===== *)
theory Bridge_Config
  imports Bridge_Limits Search_Wire
begin

text \<open>
  What the bridge accepts as its configuration and how it checks the server it connects to
  (\<^verbatim>\<open>bridge/config.go\<close>, \<^verbatim>\<open>bridge/endpoint.go\<close>, \<^verbatim>\<open>bridge/tlspolicy.go\<close>). \<^verbatim>\<open>netip.ParseAddr\<close>, the certificate parsers,
  \<^verbatim>\<open>sha256\<close> and the reading of a file are fields of \<open>trust_env\<close>.
\<close>

section \<open>The configuration\<close>

record TLSConfig =
  tc_TrustAnchorFile :: bytes
  tc_SPKISHA256 :: bytes
  tc_MinVersion :: bytes

record IMAPConfig =
  ic_Host :: bytes
  ic_Port :: int
  ic_TLSMode :: bytes
  ic_CredentialCommand :: "bytes list"
  ic_TLS :: TLSConfig
  ic_ConnectTimeoutMs :: int
  ic_CommandTimeoutMs :: int

record Config =
  cf_IMAP :: IMAPConfig
  cf_Bounds :: BoundsPatch
  cf_Audit :: bool
  cf_Mutations :: bool

record ValidatedConfig =
  vc_IMAP :: IMAPConfig
  vc_Bounds :: Bounds
  vc_Audit :: bool

abbreviation TLSModeStartTLS :: bytes where "TLSModeStartTLS \<equiv> ''starttls''"
abbreviation TLSModeImplicit :: bytes where "TLSModeImplicit \<equiv> ''implicit''"

section \<open>The endpoint\<close>

text \<open>\<^verbatim>\<open>netip.Addr\<close>: four octets, or eight groups of 16 bits and a zone.\<close>

datatype ip_addr = IPv4 "8 word" "8 word" "8 word" "8 word" | IPv6 "16 word list" bytes

text \<open>\<^verbatim>\<open>Unmap\<close> and \<^verbatim>\<open>IsLoopback\<close>.\<close>

definition ip_Unmap :: "ip_addr \<Rightarrow> ip_addr" where
  "ip_Unmap a = (case a of
      IPv6 [g0, g1, g2, g3, g4, g5, g6, g7] zone \<Rightarrow>
        if [g0, g1, g2, g3, g4, g5] = [0, 0, 0, 0, 0, 0xFFFF]
        then IPv4 (ucast (drop_bit 8 g6)) (ucast g6) (ucast (drop_bit 8 g7)) (ucast g7) else a
    | _ \<Rightarrow> a)"

definition ip_IsLoopback :: "ip_addr \<Rightarrow> bool" where
  "ip_IsLoopback a = (case a of IPv4 x y z w \<Rightarrow> x = 127 | IPv6 groups zone \<Rightarrow> groups = [0, 0, 0, 0, 0, 0, 0, 1])"

text \<open>The certificates of \<^verbatim>\<open>crypto/x509\<close>, as far as the bridge reads them; times are instants.\<close>

datatype key_usage = ServerAuth | AnyUsage | OtherUsage

record certificate =
  ct_Raw :: bytes
  ct_SPKI :: bytes
  ct_NotBefore :: int
  ct_NotAfter :: int
  ct_ExtKeyUsage :: "key_usage list"
  ct_IsCA :: bool

record pem_block =
  pb_Type :: bytes
  pb_Bytes :: bytes

record trust_env =
  te_ParseAddr :: "bytes \<Rightarrow> ip_addr option"
  te_supported :: bool
  te_read :: "bytes \<Rightarrow> nat \<Rightarrow> bytes option"
  te_pem_Decode :: "bytes \<Rightarrow> pem_block option \<times> bytes"
  te_ParseCertificate :: "bytes \<Rightarrow> certificate option"
  te_sha256 :: "bytes \<Rightarrow> bytes"

definition ParseLoopbackEndpoint :: "trust_env \<Rightarrow> bytes \<Rightarrow> int \<Rightarrow> code + ip_addr \<times> 16 word" where
  "ParseLoopbackEndpoint T host port = (case te_ParseAddr T host of
      None \<Rightarrow> Inl CodeInvalidEndpoint
    | Some address \<Rightarrow>
        let address = ip_Unmap address in
        if \<not> ip_IsLoopback address then Inl CodeInvalidEndpoint
        else if port < 1 \<or> 65535 < port then Inl CodeInvalidEndpoint
        else Inr (address, word_of_int port))"

section \<open>The TLS policy\<close>

text \<open>\<^verbatim>\<open>tls.VersionTLS12\<close>, \<^verbatim>\<open>tls.VersionTLS13\<close>.\<close>

definition parseTLSMinimumVersion :: "bytes \<Rightarrow> code + 16 word" where
  "parseTLSMinimumVersion value =
     (if value = [] \<or> value = ''TLSv1.2'' then Inr 0x0303
      else if value = ''TLSv1.3'' then Inr 0x0304 else Inl CodeInvalidConfig)"

text \<open>\<^verbatim>\<open>hex.DecodeString\<close>.\<close>

definition hex_nibble :: "char \<Rightarrow> nat option" where
  "hex_nibble c = (let v = byte_val c in
     if 48 \<le> v \<and> v \<le> 57 then Some (v - 48)
     else if 97 \<le> v \<and> v \<le> 102 then Some (v - 87)
     else if 65 \<le> v \<and> v \<le> 70 then Some (v - 55) else None)"

fun hex_DecodeString :: "bytes \<Rightarrow> bytes option" where
  "hex_DecodeString [] = Some []"
| "hex_DecodeString [c] = None"
| "hex_DecodeString (c # d # s) = (case (hex_nibble c, hex_nibble d, hex_DecodeString s) of
      (Some a, Some b, Some r) \<Rightarrow> Some (char_of (16 * a + b) # r)
    | _ \<Rightarrow> None)"

text \<open>\<^verbatim>\<open>strings.ToLower\<close> leaves a string of hexadecimal digits alone exactly where no digit is a capital.\<close>

definition parseSPKIPin :: "bytes \<Rightarrow> code + bytes" where
  "parseSPKIPin value = (case hex_DecodeString value of
      None \<Rightarrow> Inl CodeInvalidConfig
    | Some pin \<Rightarrow> if length pin \<noteq> 32 \<or> map ascii_lower value \<noteq> value then Inl CodeInvalidConfig else Inr pin)"

definition validateTLSConfig :: "TLSConfig \<Rightarrow> code + 16 word" where
  "validateTLSConfig input =
     (if trim_space (tc_TrustAnchorFile input) = [] \<and> trim_space (tc_SPKISHA256 input) = [] then Inl CodeTLSRequired
      else bind_sum (parseTLSMinimumVersion (tc_MinVersion input)) (\<lambda>version.
        if tc_SPKISHA256 input \<noteq> [] then bind_sum (parseSPKIPin (tc_SPKISHA256 input)) (\<lambda>pin. Inr version) else Inr version))"

text \<open>\<^verbatim>\<open>loadTrustAnchorWith\<close>; \<open>te_read T path n\<close> opens the file without following a link and reads at most n bytes of it.\<close>

definition trustAnchorMaxBytes :: nat where
  "trustAnchorMaxBytes = 16 * 1024"

definition loadTrustAnchor :: "trust_env \<Rightarrow> bytes \<Rightarrow> code + certificate" where
  "loadTrustAnchor T path =
     (if \<not> te_supported T then Inl CodeInvalidConfig
      else case te_read T path (trustAnchorMaxBytes + 1) of None \<Rightarrow> Inl CodeInvalidConfig
      | Some pemBytes \<Rightarrow>
        if trustAnchorMaxBytes < length pemBytes then Inl CodeInvalidConfig
        else case te_pem_Decode T pemBytes of (block, rest) \<Rightarrow>
          if \<not> has_prefix pemBytes ''-----BEGIN CERTIFICATE-----'' then Inl CodeInvalidConfig
          else case block of None \<Rightarrow> Inl CodeInvalidConfig
          | Some b \<Rightarrow>
            if pb_Type b \<noteq> ''CERTIFICATE'' \<or> rest \<noteq> [] then Inl CodeInvalidConfig
            else case te_ParseCertificate T (pb_Bytes b) of None \<Rightarrow> Inl CodeInvalidConfig
            | Some cert \<Rightarrow> if ct_IsCA cert then Inl CodeInvalidConfig else Inr cert)"

record tlsVerifier =
  tv_anchor :: "certificate option"
  tv_pin :: "bytes option"

definition newTLSVerifier :: "trust_env \<Rightarrow> TLSConfig \<Rightarrow> code + tlsVerifier \<times> 16 word" where
  "newTLSVerifier T input =
     (if trim_space (tc_TrustAnchorFile input) = [] \<and> trim_space (tc_SPKISHA256 input) = [] then Inl CodeTLSRequired
      else bind_sum (parseTLSMinimumVersion (tc_MinVersion input)) (\<lambda>minimumVersion.
        bind_sum (if tc_TrustAnchorFile input \<noteq> []
            then case loadTrustAnchor T (tc_TrustAnchorFile input) of Inl e \<Rightarrow> Inl CodeInvalidConfig | Inr c \<Rightarrow> Inr (Some c)
            else Inr None) (\<lambda>anchor.
        bind_sum (if tc_SPKISHA256 input \<noteq> [] then bind_sum (parseSPKIPin (tc_SPKISHA256 input)) (\<lambda>pin. Inr (Some pin)) else Inr None) (\<lambda>pin.
          Inr (\<lparr>tv_anchor = anchor, tv_pin = pin\<rparr>, minimumVersion)))))"

definition verifyLeafCertificate :: "certificate \<Rightarrow> int \<Rightarrow> code option" where
  "verifyLeafCertificate cert now =
     (if now < ct_NotBefore cert \<or> ct_NotAfter cert < now then Some CodeTLSMismatch
      else if list_ex (\<lambda>usage. usage = ServerAuth \<or> usage = AnyUsage) (ct_ExtKeyUsage cert) then None
      else Some CodeTLSMismatch)"

text \<open>\<^verbatim>\<open>tlsVerifier.verify\<close> on the certificates of the peer.\<close>

definition verify_peer :: "trust_env \<Rightarrow> tlsVerifier \<Rightarrow> certificate list \<Rightarrow> int \<Rightarrow> code option" where
  "verify_peer T v peer now = (case peer of
      [] \<Rightarrow> Some CodeTLSMismatch
    | leaf # _ \<Rightarrow>
        if verifyLeafCertificate leaf now \<noteq> None then Some CodeTLSMismatch
        else if (case tv_anchor v of None \<Rightarrow> False | Some anchor \<Rightarrow> ct_Raw leaf \<noteq> ct_Raw anchor) then Some CodeTLSMismatch
        else if (case tv_pin v of None \<Rightarrow> False | Some pin \<Rightarrow> te_sha256 T (ct_SPKI leaf) \<noteq> pin) then Some CodeTLSMismatch
        else None)"

section \<open>Validation\<close>

definition timeoutMilliseconds :: "int \<Rightarrow> int \<Rightarrow> code + int" where
  "timeoutMilliseconds value fallback =
     (if value = 0 then Inr fallback
      else if value < 0 \<or> 60000 < value then Inl CodeInvalidConfig else Inr value)"

definition isSafeCredentialCommand :: "bool \<Rightarrow> bytes list \<Rightarrow> bool" where
  "isSafeCredentialCommand supported command = (case command of
      [] \<Rightarrow> False
    | binary # _ \<Rightarrow> supported \<and> has_prefix binary ''/'')"

text \<open>The three assignments of defaults; that of the mode stands after the check of the endpoint, which does not read it.\<close>

definition withDefaults :: "IMAPConfig \<Rightarrow> IMAPConfig" where
  "withDefaults imap =
     (let imap = (if ic_Host imap = [] then imap\<lparr>ic_Host := ''127.0.0.1''\<rparr> else imap);
          imap = (if ic_Port imap = 0 then imap\<lparr>ic_Port := 1143\<rparr> else imap)
      in if ic_TLSMode imap = [] then imap\<lparr>ic_TLSMode := TLSModeStartTLS\<rparr> else imap)"

text \<open>\<open>supported\<close> is \<^verbatim>\<open>credentialProcessTreeKillSupported\<close> of the platform.\<close>

definition ValidateConfig :: "trust_env \<Rightarrow> bool \<Rightarrow> Config \<Rightarrow> code + ValidatedConfig" where
  "ValidateConfig T supported input =
     (let imap = withDefaults (cf_IMAP input) in
      bind_sum (ParseLoopbackEndpoint T (ic_Host imap) (ic_Port imap)) (\<lambda>endpoint.
        if ic_TLSMode imap \<noteq> TLSModeStartTLS \<and> ic_TLSMode imap \<noteq> TLSModeImplicit then Inl CodeInvalidConfig
        else if \<not> isSafeCredentialCommand supported (ic_CredentialCommand imap) then Inl CodeInvalidConfig
        else if trim_space (tc_TrustAnchorFile (ic_TLS imap)) = [] \<and> trim_space (tc_SPKISHA256 (ic_TLS imap)) = []
        then Inl CodeTLSRequired
        else bind_sum (validateTLSConfig (ic_TLS imap)) (\<lambda>version.
          bind_sum (timeoutMilliseconds (ic_ConnectTimeoutMs imap) 5000) (\<lambda>connect.
          bind_sum (timeoutMilliseconds (ic_CommandTimeoutMs imap) 5000) (\<lambda>command.
          bind_sum (mergeBounds (cf_Bounds input)) (\<lambda>bounds.
            Inr \<lparr>vc_IMAP = imap\<lparr>ic_ConnectTimeoutMs := connect, ic_CommandTimeoutMs := command\<rparr>,
              vc_Bounds = bounds, vc_Audit = cf_Audit input\<rparr>))))))"

lemma withDefaults_set:
  "ic_Host (withDefaults i) \<noteq> []" "ic_Port (withDefaults i) \<noteq> 0" "ic_TLSMode (withDefaults i) \<noteq> []"
  "ic_TLS (withDefaults i) = ic_TLS i" "ic_CredentialCommand (withDefaults i) = ic_CredentialCommand i"
  "ic_ConnectTimeoutMs (withDefaults i) = ic_ConnectTimeoutMs i" "ic_CommandTimeoutMs (withDefaults i) = ic_CommandTimeoutMs i"
  by (auto simp: withDefaults_def Let_def)

lemma withDefaults_fix: "ic_Host i \<noteq> [] \<Longrightarrow> ic_Port i \<noteq> 0 \<Longrightarrow> ic_TLSMode i \<noteq> [] \<Longrightarrow> withDefaults i = i"
  by (simp add: withDefaults_def)

lemma timeoutMilliseconds_range: "timeoutMilliseconds value 5000 = Inr t \<Longrightarrow> 0 < t \<and> t \<le> 60000"
  by (auto simp: timeoutMilliseconds_def split: if_splits)

lemma timeoutMilliseconds_fix: "0 < t \<Longrightarrow> t \<le> 60000 \<Longrightarrow> timeoutMilliseconds t fallback = Inr t"
  by (simp add: timeoutMilliseconds_def)

end
