(* ===== verification/Bridge_Dial.thy ===== *)
theory Bridge_Dial
  imports Bridge_Config Go_Text
begin

text \<open>
  How the bridge makes a connection (\<^verbatim>\<open>bridge/dial.go\<close>): the plaintext part of STARTTLS over a bounded reader,
  the two TLS modes and the classification of failures. The network, the clock and the context are a
  \<open>dial_env\<close>, which answers each call from the calls before it; a run is the list of its calls. The goroutine
  of \<^verbatim>\<open>closeOnContext\<close> closes the connection under a read: that read answers with an error, which the
  environment may give at any time.
\<close>

section \<open>The network\<close>

record net_error =
  ne_text :: bytes
  ne_canceled :: bool
  ne_record_header :: bool

datatype dial_event =
    Dialed ip_addr "16 word" "net_error option"
  | CtxChecked "ctx_error option"
  | DeadlineSet | DeadlineCleared
  | Filled nat bytes "net_error option"
  | Sent bytes "net_error option"
  | Handshaken "16 word" "certificate list" "net_error option"
  | RawClosed | TLSClosed

text \<open>
  \<open>dl_peer\<close> is a handshake up to \<^verbatim>\<open>VerifyConnection\<close>: a failure, or the certificates of the peer and the time.
  \<open>dl_fill\<close> is the read of one fill of \<^verbatim>\<open>bufio\<close>.
\<close>

record dial_env =
  dl_trust :: trust_env
  dl_supported :: bool
  dl_dial :: "dial_event list \<Rightarrow> net_error option"
  dl_ctx :: "dial_event list \<Rightarrow> ctx_error option"
  dl_fill :: "dial_event list \<Rightarrow> nat \<Rightarrow> bytes \<times> net_error option"
  dl_send :: "dial_event list \<Rightarrow> bytes \<Rightarrow> net_error option"
  dl_peer :: "dial_event list \<Rightarrow> 16 word \<Rightarrow> net_error + certificate list \<times> int"

record Connection =
  cn_tls :: bool
  cn_startTLS :: bool

definition dial_ctx :: "dial_env \<Rightarrow> dial_event list \<Rightarrow> ctx_error option \<times> dial_event list" where
  "dial_ctx E h = (dl_ctx E h, h @ [CtxChecked (dl_ctx E h)])"

abbreviation plain_error :: "bytes \<Rightarrow> net_error" where
  "plain_error s \<equiv> \<lparr>ne_text = s, ne_canceled = False, ne_record_header = False\<rparr>"

abbreviation tls_mismatch :: bytes where "tls_mismatch \<equiv> ''tls_mismatch''"

text \<open>\<^verbatim>\<open>connectionError\<close>.\<close>

definition connectionError :: "dial_env \<Rightarrow> net_error \<Rightarrow> dial_event list \<Rightarrow> code \<times> dial_event list" where
  "connectionError E err h = (case dial_ctx E h of (e1, h1) \<Rightarrow>
     if e1 \<noteq> None then (CodeBridgeUnreachable, h1)
     else case dial_ctx E h1 of (e2, h2) \<Rightarrow>
       (if e2 = Some DeadlineExceeded then CodeBridgeUnreachable
        else if ne_canceled err then CodeBridgeUnreachable
        else if contains_bytes (ne_text err) tls_mismatch then CodeTLSMismatch
        else if ne_record_header err then CodeBridgeUnreachable
        else if contains_bytes (ne_text err) ''certificate'' \<or> contains_bytes (ne_text err) ''tls:'' then CodeTLSMismatch
        else CodeBridgeUnreachable, h2))"

section \<open>Lines\<close>

text \<open>\<^verbatim>\<open>bufio.Reader\<close>: what is buffered, and an error that waits for the buffer to be used up.\<close>

record bufio_reader =
  br_buf :: bytes
  br_err :: "net_error option"

definition reader_size :: nat where
  "reader_size = 4 * 1024 + 1"

definition fill :: "dial_env \<Rightarrow> bufio_reader \<Rightarrow> dial_event list \<Rightarrow> bufio_reader \<times> dial_event list" where
  "fill E rd h = (let room = reader_size - length (br_buf rd) in
     case dl_fill E h room of (stored, err) \<Rightarrow>
       let got = take room stored;
           err = (if got = [] \<and> err = None then Some (plain_error ''multiple Read calls return no data or error'') else err)
       in (\<lparr>br_buf = br_buf rd @ got, br_err = err\<rparr>, h @ [Filled room got err]))"

text \<open>\<^verbatim>\<open>ReadSlice('\n')\<close>: a line with its newline, an error, or \<open>None\<close> for a full buffer.\<close>

function ReadSlice :: "dial_env \<Rightarrow> bufio_reader \<Rightarrow> dial_event list \<Rightarrow> (net_error option + bytes) \<times> bufio_reader \<times> dial_event list" where
  "ReadSlice E rd h = (case cut_byte LF (br_buf rd) of (line, rest, found) \<Rightarrow>
     if found then (Inr (line @ [LF]), rd\<lparr>br_buf := rest\<rparr>, h)
     else if br_err rd \<noteq> None then (Inl (br_err rd), \<lparr>br_buf = [], br_err = None\<rparr>, h)
     else if reader_size \<le> length (br_buf rd) then (Inl None, rd\<lparr>br_buf := []\<rparr>, h)
     else case fill E rd h of (rd', h') \<Rightarrow> ReadSlice E rd' h')"
  by pat_completeness auto
termination
  by (relation "inv_image (less_than <*lex*> less_than)
      (\<lambda>(E, rd, h). (if br_err rd = None then 1 else 0 :: nat, reader_size - length (br_buf rd)))")
    (auto simp: fill_def Let_def simp flip: length_greater_0_conv split: prod.splits if_splits)

declare ReadSlice.simps [simp del]

datatype line_error = errStartTLSInputLimit | errStartTLSProtocol | CommandRejected | LineError net_error

definition error_of :: "line_error \<Rightarrow> net_error" where
  "error_of e = (case e of
      errStartTLSInputLimit \<Rightarrow> plain_error ''STARTTLS input limit exceeded''
    | errStartTLSProtocol \<Rightarrow> plain_error ''invalid STARTTLS plaintext response''
    | CommandRejected \<Rightarrow> plain_error ''IMAP command rejected''
    | LineError err \<Rightarrow> err)"

definition readStartTLSLine :: "dial_env \<Rightarrow> bufio_reader \<Rightarrow> nat \<Rightarrow> dial_event list \<Rightarrow>
    (line_error + bytes \<times> nat) \<times> bufio_reader \<times> dial_event list" where
  "readStartTLSLine E rd limit h = (case ReadSlice E rd h of
      (Inl None, rd', h') \<Rightarrow> (Inl errStartTLSInputLimit, rd', h')
    | (Inl (Some e), rd', h') \<Rightarrow> (Inl (LineError e), rd', h')
    | (Inr line, rd', h') \<Rightarrow>
        (if limit < length line then Inl errStartTLSInputLimit
         else if length line < 2 \<or> \<not> has_suffix line CRLF then Inl errStartTLSProtocol
         else let content = take (length line - 2) line in
           if list_ex (\<lambda>value. byte_val value = 0 \<or> value = CR \<or> value = LF \<or> 127 < byte_val value) content
           then Inl errStartTLSProtocol
           else Inr (content, length line), rd', h'))"

section \<open>The responses\<close>

definition validIMAPAtom :: "bytes \<Rightarrow> bool" where
  "validIMAPAtom atom \<longleftrightarrow> atom \<noteq> [] \<and>
     list_all (\<lambda>value. 33 \<le> byte_val value \<and> byte_val value \<le> 126 \<and>
       value \<notin> set [CHR ''('', CHR '')'', CHR ''{'', CHR ''%'', CHR ''*'', DQUOTE, BACKSLASH, CHR '']'']) atom"

definition validStartTLSGreeting :: "bytes \<Rightarrow> bool" where
  "validStartTLSGreeting line =
     (if length line < 5 \<or> line ! 0 \<noteq> CHR ''*'' \<or> line ! 1 \<noteq> SP \<or> \<not> equal_fold (take 2 (drop 2 line)) ''OK'' \<or> line ! 4 \<noteq> SP
      then False
      else let responseText = drop 5 line in
        if responseText = [] \<or> responseText ! 0 \<noteq> CHR ''['' then True
        else case index_byte (CHR '']'') responseText of None \<Rightarrow> False
        | Some closing \<Rightarrow>
          if closing < 2 \<or> length responseText \<le> closing + 1 \<or> responseText ! (closing + 1) \<noteq> SP then False
          else let code = take (closing - 1) (drop 1 responseText) in
            case index_byte SP code of None \<Rightarrow> validIMAPAtom code
            | Some separator \<Rightarrow> if separator + 1 = length code then False else validIMAPAtom (take separator code))"

definition capabilityHasStartTLS :: "bytes \<Rightarrow> bool" where
  "capabilityHasStartTLS line = (case go_fields line of
      star # name # capabilities \<Rightarrow>
        capabilities \<noteq> [] \<and> star = ''*'' \<and> equal_fold name ''CAPABILITY'' \<and>
        list_ex (\<lambda>capability. equal_fold capability ''STARTTLS'') capabilities
    | _ \<Rightarrow> False)"

record startTLSResponseBudget =
  sb_bytes :: nat
  sb_count :: nat

definition budget_add :: "startTLSResponseBudget \<Rightarrow> nat \<Rightarrow> startTLSResponseBudget \<times> bool" where
  "budget_add b rawBytes = (let b = b\<lparr>sb_count := sb_count b + 1, sb_bytes := sb_bytes b + rawBytes\<rparr> in
     (b, sb_count b \<le> 32 \<and> sb_bytes b \<le> 16 * 1024))"

text \<open>The loop of \<^verbatim>\<open>imapCommand\<close>; it ends because the budget counts the lines.\<close>

function command_lines :: "dial_env \<Rightarrow> bytes \<Rightarrow> bool \<Rightarrow> bufio_reader \<Rightarrow> startTLSResponseBudget \<Rightarrow> dial_event list \<Rightarrow>
    (line_error + bool) \<times> bufio_reader \<times> startTLSResponseBudget \<times> dial_event list" where
  "command_lines E tag hasStartTLS rd b h = (case readStartTLSLine E rd (4 * 1024) h of
      (Inl e, rd', h') \<Rightarrow> (Inl e, rd', b, h')
    | (Inr (line, rawBytes), rd', h') \<Rightarrow>
        (case budget_add b rawBytes of (b', within) \<Rightarrow>
           if \<not> within then (Inl errStartTLSInputLimit, rd', b', h')
           else let hasStartTLS = (hasStartTLS \<or> capabilityHasStartTLS line) in
             if \<not> has_prefix line (tag @ '' '') then command_lines E tag hasStartTLS rd' b' h'
             else if \<not> has_prefix line (tag @ '' OK '') \<and> line \<noteq> tag @ '' OK''
             then (Inl CommandRejected, rd', b', h')
             else (Inr hasStartTLS, rd', b', h')))"
  by pat_completeness auto
termination
  by (relation "measure (\<lambda>(E, tag, s, rd, b, h). 33 - sb_count b)")
    (auto simp: budget_add_def Let_def split: prod.splits)

declare command_lines.simps [simp del]

definition imapCommand :: "dial_env \<Rightarrow> bufio_reader \<Rightarrow> startTLSResponseBudget \<Rightarrow> bytes \<Rightarrow> bytes \<Rightarrow> dial_event list \<Rightarrow>
    (line_error + bool) \<times> bufio_reader \<times> startTLSResponseBudget \<times> dial_event list" where
  "imapCommand E rd b tag command h =
     (let text_sent = tag @ '' '' @ command @ CRLF; err = dl_send E h text_sent; h1 = h @ [Sent text_sent err] in
      case err of Some e \<Rightarrow> (Inl (LineError e), rd, b, h1) | None \<Rightarrow> command_lines E tag False rd b h1)"

section \<open>The two modes\<close>

text \<open>\<^verbatim>\<open>tls.Client(...).HandshakeContext\<close> with the verifier of the policy.\<close>

definition HandshakeContext :: "dial_env \<Rightarrow> tlsVerifier \<times> 16 word \<Rightarrow> dial_event list \<Rightarrow> net_error option \<times> dial_event list" where
  "HandshakeContext E policy h = (case policy of (v, minimumVersion) \<Rightarrow>
     (case dl_peer E h minimumVersion of
        Inl e \<Rightarrow> (Some e, h @ [Handshaken minimumVersion [] (Some e)])
      | Inr (peer, now) \<Rightarrow>
          let err = (if verify_peer (dl_trust E) v peer now = None then None else Some (plain_error tls_mismatch))
          in (err, h @ [Handshaken minimumVersion peer err])))"

definition establishImplicitTLS :: "dial_env \<Rightarrow> tlsVerifier \<times> 16 word \<Rightarrow> dial_event list \<Rightarrow> (code + Connection) \<times> dial_event list" where
  "establishImplicitTLS E policy h = (case HandshakeContext E policy h of
      (Some e, h1) \<Rightarrow> (case connectionError E e (h1 @ [RawClosed]) of (c, h2) \<Rightarrow> (Inl c, h2))
    | (None, h1) \<Rightarrow> (Inr \<lparr>cn_tls = True, cn_startTLS = False\<rparr>, h1))"

text \<open>A failed command: closed, and the code depends on the context.\<close>

definition startTLS_failed :: "dial_env \<Rightarrow> line_error \<Rightarrow> dial_event list \<Rightarrow> (code + Connection) \<times> dial_event list" where
  "startTLS_failed E err h = (case dial_ctx E (h @ [RawClosed]) of (e, h1) \<Rightarrow>
     if e \<noteq> None then (case connectionError E (error_of err) h1 of (c, h2) \<Rightarrow> (Inl c, h2)) else (Inl CodeTLSNegotiation, h1))"

definition establishStartTLS :: "dial_env \<Rightarrow> tlsVerifier \<times> 16 word \<Rightarrow> dial_event list \<Rightarrow> (code + Connection) \<times> dial_event list" where
  "establishStartTLS E policy h0 =
     (case readStartTLSLine E \<lparr>br_buf = [], br_err = None\<rparr> (4 * 1024) (h0 @ [DeadlineSet]) of
        (Inl err, rd, h) \<Rightarrow> (case dial_ctx E (h @ [RawClosed]) of (e, h1) \<Rightarrow>
          if e = None \<and> err = errStartTLSProtocol then (Inl CodeTLSNegotiation, h1)
          else case connectionError E (error_of err) h1 of (c, h2) \<Rightarrow> (Inl c, h2))
      | (Inr (greeting, _), rd, h) \<Rightarrow>
        if \<not> validStartTLSGreeting greeting then (Inl CodeTLSNegotiation, h @ [RawClosed])
        else case imapCommand E rd \<lparr>sb_bytes = 0, sb_count = 0\<rparr> ''a001'' ''CAPABILITY'' h of
          (Inl err, rd, b, h) \<Rightarrow> startTLS_failed E err h
        | (Inr hasStartTLS, rd, b, h) \<Rightarrow>
          if \<not> hasStartTLS then (Inl CodeTLSNegotiation, h @ [RawClosed])
          else case imapCommand E rd b ''a002'' ''STARTTLS'' h of
            (Inl err, rd, b, h) \<Rightarrow> startTLS_failed E err h
          | (Inr _, rd, b, h) \<Rightarrow>
            (case HandshakeContext E policy h of
               (Some e, h) \<Rightarrow> (case connectionError E e (h @ [RawClosed]) of (c, h) \<Rightarrow> (Inl c, h))
             | (None, h) \<Rightarrow>
               (case dial_ctx E (h @ [DeadlineCleared]) of
                  (None, h) \<Rightarrow> (Inr \<lparr>cn_tls = True, cn_startTLS = True\<rparr>, h)
                | (Some _, h) \<Rightarrow>
                  (case dial_ctx E (h @ [TLSClosed]) of (e, h) \<Rightarrow>
                   (case connectionError E (plain_error (case e of Some Canceled \<Rightarrow> ''context canceled''
                        | Some DeadlineExceeded \<Rightarrow> ''context deadline exceeded'' | None \<Rightarrow> [])) h of (c, h) \<Rightarrow> (Inl c, h))))))"

definition Dial :: "dial_env \<Rightarrow> Config \<Rightarrow> (code + Connection) \<times> dial_event list" where
  "Dial E input =
     (case ValidateConfig (dl_trust E) (dl_supported E) input of Inl c \<Rightarrow> (Inl c, [])
      | Inr config \<Rightarrow>
        (case ParseLoopbackEndpoint (dl_trust E) (ic_Host (vc_IMAP config)) (ic_Port (vc_IMAP config)) of Inl c \<Rightarrow> (Inl c, [])
         | Inr (address, port) \<Rightarrow>
           (case newTLSVerifier (dl_trust E) (ic_TLS (vc_IMAP config)) of Inl c \<Rightarrow> (Inl c, [])
            | Inr policy \<Rightarrow>
              let err = dl_dial E []; h = [Dialed address port err] in
              (case err of Some e \<Rightarrow> (case connectionError E e h of (c, h) \<Rightarrow> (Inl c, h))
               | None \<Rightarrow>
                 if ic_TLSMode (vc_IMAP config) = TLSModeImplicit then establishImplicitTLS E policy h
                 else establishStartTLS E policy h))))"

text \<open>
  \<^verbatim>\<open>takeConn\<close> and \<^verbatim>\<open>Close\<close> on the value \<^verbatim>\<open>Dial\<close> returned: \<open>cn_tls\<close> is whether it still holds the transport. The second
  result of \<open>Connection_Close\<close> is whether the transport is closed.
\<close>

definition Connection_takeConn :: "Connection option \<Rightarrow> (code + bool) \<times> Connection option" where
  "Connection_takeConn c = (case c of
      None \<Rightarrow> (Inl CodeAdapterClosed, None)
    | Some cn \<Rightarrow> if \<not> cn_tls cn then (Inl CodeAdapterClosed, c) else (Inr (cn_startTLS cn), Some (cn\<lparr>cn_tls := False\<rparr>)))"

definition Connection_Close :: "Connection option \<Rightarrow> Connection option \<times> bool" where
  "Connection_Close c = (case c of None \<Rightarrow> (c, False) | Some cn \<Rightarrow> (c, cn_tls cn))"

lemma takeConn_once: "Connection_takeConn c = (Inr starttls, c') \<Longrightarrow>
    Connection_takeConn c' = (Inl CodeAdapterClosed, c') \<and> Connection_Close c' = (c', False)"
  by (auto simp: Connection_takeConn_def Connection_Close_def split: option.splits if_splits)

section \<open>What a run did\<close>

definition sent :: "dial_event list \<Rightarrow> bytes list" where
  "sent h = concat (map (\<lambda>e. case e of Sent b err \<Rightarrow> [b] | _ \<Rightarrow> []) h)"

definition plaintext_read :: "dial_event list \<Rightarrow> nat" where
  "plaintext_read h = sum_list (map (\<lambda>e. case e of Filled room got err \<Rightarrow> length got | _ \<Rightarrow> 0) h)"

fun closes :: "dial_event \<Rightarrow> bool" where
  "closes RawClosed = True"
| "closes TLSClosed = True"
| "closes _ = False"

fun waits :: "dial_event \<Rightarrow> bool" where
  "waits (Filled room got err) = True"
| "waits (CtxChecked e) = True"
| "waits _ = False"

lemma dial_run_append [simp]:
  "sent (h @ h') = sent h @ sent h'" "plaintext_read (h @ h') = plaintext_read h + plaintext_read h'"
  by (simp_all add: sent_def plaintext_read_def)

lemma dial_run_step [simp]:
  "sent [] = []" "plaintext_read [] = 0"
  "sent (Dialed a p err # h) = sent h" "plaintext_read (Dialed a p err # h) = plaintext_read h"
  "sent (CtxChecked e # h) = sent h" "plaintext_read (CtxChecked e # h) = plaintext_read h"
  "sent (DeadlineSet # h) = sent h" "plaintext_read (DeadlineSet # h) = plaintext_read h"
  "sent (DeadlineCleared # h) = sent h" "plaintext_read (DeadlineCleared # h) = plaintext_read h"
  "sent (Filled room got err # h) = sent h" "plaintext_read (Filled room got err # h) = length got + plaintext_read h"
  "sent (Sent b err # h) = b # sent h" "plaintext_read (Sent b err # h) = plaintext_read h"
  "sent (Handshaken v peer err # h) = sent h" "plaintext_read (Handshaken v peer err # h) = plaintext_read h"
  "sent (RawClosed # h) = sent h" "plaintext_read (RawClosed # h) = plaintext_read h"
  "sent (TLSClosed # h) = sent h" "plaintext_read (TLSClosed # h) = plaintext_read h"
  by (simp_all add: sent_def plaintext_read_def)

text \<open>A stretch of a run that only reads and looks at the context.\<close>

definition waited :: "dial_event list \<Rightarrow> dial_event list \<Rightarrow> bool" where
  "waited h h' \<longleftrightarrow> (\<exists>g. h' = h @ g \<and> list_all waits g)"

lemma waits_run: "list_all waits g \<Longrightarrow> sent g = [] \<and> filter closes g = []"
proof (induction g)
  case (Cons e g)
  then show ?case by (cases e) auto
qed simp

lemma waited_trans: "waited h h1 \<Longrightarrow> waited h1 h2 \<Longrightarrow> waited h h2"
  unfolding waited_def by auto

lemma waited_refl [simp]: "waited h h"
  by (simp add: waited_def)

lemma waited_run: "waited h h' \<Longrightarrow> sent h' = sent h \<and> filter closes h' = filter closes h \<and> set h \<subseteq> set h' \<and> (h \<noteq> [] \<longrightarrow> hd h' = hd h)"
  unfolding waited_def using waits_run by fastforce

lemma dial_ctx_waited: "dial_ctx E h = (e, h') \<Longrightarrow> waited h h' \<and> plaintext_read h' = plaintext_read h"
  by (auto simp: dial_ctx_def waited_def)

lemma connectionError_waited: "connectionError E err h = (c, h') \<Longrightarrow> waited h h' \<and> plaintext_read h' = plaintext_read h"
  by (auto simp: connectionError_def dial_ctx_def waited_def split: prod.splits if_splits)

lemma cut_byte_length: "cut_byte c s = (l, r, True) \<Longrightarrow> length s = length l + 1 + length r"
  by (auto simp: cut_byte_found)

lemma ReadSlice_run:
  "ReadSlice E rd h = (r, rd', h') \<Longrightarrow> length (br_buf rd) \<le> reader_size \<Longrightarrow>
     waited h h' \<and> length (br_buf rd') \<le> reader_size \<and> plaintext_read h \<le> plaintext_read h' \<and>
     (case r of Inl e \<Rightarrow> br_buf rd' = [] \<and> plaintext_read h' + length (br_buf rd) \<le> plaintext_read h + reader_size
      | Inr line \<Rightarrow> length line \<le> reader_size \<and> has_suffix line [LF] \<and>
          plaintext_read h' + length (br_buf rd) = plaintext_read h + length line + length (br_buf rd'))"
proof (induction E rd h arbitrary: r rd' h' rule: ReadSlice.induct)
  case (1 E rd h)
  obtain line rest found where cut: "cut_byte LF (br_buf rd) = (line, rest, found)" by (metis prod_cases3)
  note unfolded = "1.prems"(1) [unfolded ReadSlice.simps [of E rd h] cut prod.case]
  show ?case
  proof (cases "found \<or> br_err rd \<noteq> None \<or> reader_size \<le> length (br_buf rd)")
    case True
    have "found \<Longrightarrow> length (br_buf rd) = length line + 1 + length rest" using cut cut_byte_length by auto
    with True unfolded "1.prems"(2) show ?thesis
      by (cases found; cases "br_err rd") (auto simp: has_suffix_append)
  next
    case False
    obtain rd1 h1 where f: "fill E rd h = (rd1, h1)" by fastforce
    obtain room got err where h1: "h1 = h @ [Filled room got err]" "br_buf rd1 = br_buf rd @ got"
      "length got \<le> reader_size - length (br_buf rd)"
      using f by (auto simp: fill_def Let_def split: prod.splits)
    have rec: "ReadSlice E rd1 h1 = (r, rd', h')" using unfolded False f by simp
    have "\<not> reader_size \<le> length (br_buf rd)" using False by simp
    with h1(3) have "length (br_buf rd1) \<le> reader_size" unfolding h1(2) length_append by linarith
    from "1.IH" [OF cut [symmetric] refl _ _ _ f [symmetric] rec this] False
    show ?thesis using h1 by (cases r) (auto simp: waited_def)
  qed
qed

lemma readStartTLSLine_run:
  assumes "readStartTLSLine E rd limit h = (r, rd', h')" and "length (br_buf rd) \<le> reader_size"
  shows "waited h h' \<and> length (br_buf rd') \<le> reader_size \<and>
     (case r of Inl e \<Rightarrow> plaintext_read h' + length (br_buf rd) \<le> plaintext_read h + 2 * reader_size
      | Inr (content, n) \<Rightarrow> n \<le> limit \<and> length content + 2 = n \<and>
          plaintext_read h' + length (br_buf rd) = plaintext_read h + n + length (br_buf rd'))"
proof -
  obtain s rd1 h1 where f: "ReadSlice E rd h = (s, rd1, h1)" by (metis prod_cases3)
  note run = ReadSlice_run [OF f assms(2)]
  show ?thesis
  proof (cases s)
    case (Inl e)
    with f run assms(1) show ?thesis by (cases e) (auto simp: readStartTLSLine_def)
  next
    case (Inr line)
    with f run assms(1) show ?thesis by (auto simp: readStartTLSLine_def Let_def split: if_splits)
  qed
qed

lemma command_lines_run:
  "command_lines E tag s rd b h = (r, rd', b', h') \<Longrightarrow> length (br_buf rd) \<le> reader_size \<Longrightarrow> sb_bytes b \<le> 16 * 1024 \<Longrightarrow>
     waited h h' \<and> length (br_buf rd') \<le> reader_size \<and>
     (case r of Inl e \<Rightarrow> plaintext_read h' + length (br_buf rd) + sb_bytes b \<le> plaintext_read h + 16 * 1024 + 2 * reader_size
      | Inr _ \<Rightarrow> sb_bytes b' \<le> 16 * 1024 \<and>
          plaintext_read h' + length (br_buf rd) + sb_bytes b = plaintext_read h + sb_bytes b' + length (br_buf rd'))"
proof (induction E tag s rd b h arbitrary: r rd' b' h' rule: command_lines.induct)
  case (1 E tag s rd b h)
  obtain r1 rd1 h1 where f: "readStartTLSLine E rd (4 * 1024) h = (r1, rd1, h1)" by (metis prod_cases3)
  note run = readStartTLSLine_run [OF f "1.prems"(2)]
  note unfolded = "1.prems"(1) [unfolded command_lines.simps [of E tag s rd b h] f prod.case]
  show ?case
  proof (cases r1)
    case (Inl e)
    with unfolded run "1.prems"(3) show ?thesis by auto
  next
    case (Inr line_n)
    obtain line n where l: "line_n = (line, n)" by fastforce
    obtain b1 within where b1: "budget_add b n = (b1, within)" by fastforce
    have n: "n \<le> 4 * 1024" "plaintext_read h1 + length (br_buf rd) = plaintext_read h + n + length (br_buf rd1)"
      "waited h h1" "length (br_buf rd1) \<le> reader_size" using run Inr l by auto
    have size: "4 * 1024 < reader_size" by (simp add: reader_size_def)
    have b2: "sb_bytes b1 = sb_bytes b + n" "within \<Longrightarrow> sb_bytes b1 \<le> 16 * 1024" using b1 by (auto simp: budget_add_def Let_def)
    show ?thesis
    proof (cases "within \<and> \<not> has_prefix line (tag @ '' '')")
      case True
      then have rec: "command_lines E tag (s \<or> capabilityHasStartTLS line) rd1 b1 h1 = (r, rd', b', h')"
        using unfolded Inr l b1 by (simp add: Let_def)
      from "1.IH" [OF f [symmetric] Inr [unfolded l] refl refl b1 [symmetric] _ refl _ rec n(4)] True b2
      have "waited h1 h' \<and> length (br_buf rd') \<le> reader_size \<and>
         (case r of Inl e \<Rightarrow> plaintext_read h' + length (br_buf rd1) + sb_bytes b1 \<le> plaintext_read h1 + 16 * 1024 + 2 * reader_size
          | Inr _ \<Rightarrow> sb_bytes b' \<le> 16 * 1024 \<and>
              plaintext_read h' + length (br_buf rd1) + sb_bytes b1 = plaintext_read h1 + sb_bytes b' + length (br_buf rd'))"
        by simp
      with n b2 show ?thesis by (cases r) (auto intro: waited_trans)
    next
      case False
      with unfolded Inr l b1 have "h' = h1 \<and> rd' = rd1 \<and> b' = b1 \<and> (\<forall>x. r = Inr x \<longrightarrow> within)"
        by (auto simp: Let_def split: if_splits)
      with n b2 "1.prems"(3) size show ?thesis by (cases r) auto
    qed
  qed
qed

lemma imapCommand_run:
  assumes "imapCommand E rd b tag command h = (r, rd', b', h')" and "length (br_buf rd) \<le> reader_size" and "sb_bytes b \<le> 16 * 1024"
  shows "(\<exists>err. waited (h @ [Sent (tag @ '' '' @ command @ CRLF) err]) h') \<and> length (br_buf rd') \<le> reader_size \<and>
     (case r of Inl e \<Rightarrow> plaintext_read h' + length (br_buf rd) + sb_bytes b \<le> plaintext_read h + 16 * 1024 + 2 * reader_size
      | Inr _ \<Rightarrow> sb_bytes b' \<le> 16 * 1024 \<and>
          plaintext_read h' + length (br_buf rd) + sb_bytes b = plaintext_read h + sb_bytes b' + length (br_buf rd'))"
proof (cases "dl_send E h (tag @ '' '' @ command @ CRLF)")
  case (Some e)
  with assms have "r = Inl (LineError e)" "rd' = rd" "h' = h @ [Sent (tag @ '' '' @ command @ CRLF) (Some e)]"
    by (auto simp: imapCommand_def Let_def)
  with assms(2,3) show ?thesis by (auto intro: exI [of _ "Some e"])
next
  case None
  with assms(1) have "command_lines E tag False rd b (h @ [Sent (tag @ '' '' @ command @ CRLF) None]) = (r, rd', b', h')"
    by (auto simp: imapCommand_def Let_def)
  from command_lines_run [OF this assms(2,3)] show ?thesis by (auto split: sum.splits)
qed

text \<open>Where a run stands: what was sent, that it still starts with the dial, how much was read, how often it was closed.\<close>

definition stands :: "dial_event list \<Rightarrow> bytes list \<Rightarrow> nat \<Rightarrow> nat \<Rightarrow> dial_event list \<Rightarrow> bool" where
  "stands h0 b n k h \<longleftrightarrow> sent h = b \<and> plaintext_read h \<le> n \<and> length (filter closes h) = k \<and> h \<noteq> [] \<and> hd h = hd h0"

lemma stands_waited:
  assumes "stands h0 b n k h" and "waited h h'" and "plaintext_read h' \<le> n'"
  shows "stands h0 b n' k h'"
proof -
  from assms(2) have "h' \<noteq> []" using assms(1) by (auto simp: stands_def waited_def)
  with waited_run [OF assms(2)] assms(1,3) show ?thesis by (simp add: stands_def)
qed

lemma stands_ctx: "stands h0 b n k h \<Longrightarrow> dial_ctx E h = (e, h') \<Longrightarrow> stands h0 b n k h'"
  by (rule stands_waited) (auto dest: dial_ctx_waited simp: stands_def)

lemma stands_error: "stands h0 b n k h \<Longrightarrow> connectionError E err h = (c, h') \<Longrightarrow> stands h0 b n k h'"
  by (rule stands_waited) (auto dest: connectionError_waited simp: stands_def)

lemma stands_close: "stands h0 b n 0 h \<Longrightarrow> stands h0 b n 1 (h @ [RawClosed])" "stands h0 b n 0 h \<Longrightarrow> stands h0 b n 1 (h @ [TLSClosed])"
  by (auto simp: stands_def)

lemma stands_mono: "stands h0 b n k h \<Longrightarrow> n \<le> n' \<Longrightarrow> stands h0 b n' k h"
  by (simp add: stands_def)

lemma HandshakeContext_run:
  "HandshakeContext E policy h = (r, h') \<Longrightarrow> \<exists>peer. h' = h @ [Handshaken (snd policy) peer r] \<and>
     (r = None \<longrightarrow> (\<exists>now. verify_peer (dl_trust E) (fst policy) peer now = None))"
  by (auto simp: HandshakeContext_def Let_def split: prod.splits sum.splits if_splits)

definition plaintext_bound :: nat where
  "plaintext_bound = 4 * 1024 + 16 * 1024 + 2 * reader_size"

definition capability_line :: bytes where "capability_line = ''a001 CAPABILITY'' @ CRLF"
definition starttls_line :: bytes where "starttls_line = ''a002 STARTTLS'' @ CRLF"

definition trusted :: "dial_env \<Rightarrow> tlsVerifier \<times> 16 word \<Rightarrow> dial_event list \<Rightarrow> bool" where
  "trusted E policy h \<longleftrightarrow> (\<exists>peer now. Handshaken (snd policy) peer None \<in> set h \<and> verify_peer (dl_trust E) (fst policy) peer now = None)"

text \<open>How one attempt of either mode ends.\<close>

definition ended :: "dial_env \<Rightarrow> tlsVerifier \<times> 16 word \<Rightarrow> bool \<Rightarrow> dial_event list \<Rightarrow> code + Connection \<Rightarrow> dial_event list \<Rightarrow> bool" where
  "ended E policy starttls h0 r h \<longleftrightarrow> (case r of
      Inl c \<Rightarrow> (\<exists>b. prefix b [capability_line, starttls_line] \<and> stands h0 b plaintext_bound 1 h)
    | Inr cn \<Rightarrow> cn = \<lparr>cn_tls = True, cn_startTLS = starttls\<rparr> \<and> trusted E policy h \<and>
        stands h0 (if starttls then [capability_line, starttls_line] else []) plaintext_bound 0 h)"

lemma ended_failed: "stands h0 b plaintext_bound 1 h \<Longrightarrow> prefix b [capability_line, starttls_line] \<Longrightarrow> ended E policy starttls h0 (Inl c) h"
  by (auto simp: ended_def)

lemma establishImplicitTLS_ended:
  assumes "establishImplicitTLS E policy h0 = (r, h)" and "stands h0 [] 0 0 h0"
  shows "ended E policy False h0 r h"
proof -
  obtain e h1 where hs: "HandshakeContext E policy h0 = (e, h1)" by fastforce
  obtain peer where h1: "h1 = h0 @ [Handshaken (snd policy) peer e]"
    and ok: "e = None \<longrightarrow> (\<exists>now. verify_peer (dl_trust E) (fst policy) peer now = None)" using HandshakeContext_run [OF hs] by blast
  have s1: "stands h0 [] 0 0 h1" using assms(2) by (auto simp: stands_def h1)
  show ?thesis
  proof (cases e)
    case None
    with assms(1) hs have "r = Inr \<lparr>cn_tls = True, cn_startTLS = False\<rparr>" "h = h1" by (auto simp: establishImplicitTLS_def)
    with None ok s1 h1 stands_mono [OF s1, of plaintext_bound] show ?thesis by (auto simp: ended_def trusted_def)
  next
    case (Some err)
    obtain c h2 where ce: "connectionError E err (h1 @ [RawClosed]) = (c, h2)" by fastforce
    with assms(1) hs Some have "r = Inl c" "h = h2" by (auto simp: establishImplicitTLS_def)
    moreover have "stands h0 [] plaintext_bound 1 h2"
      using stands_error [OF stands_close(1) [OF s1] ce] by (rule stands_mono) simp
    ultimately show ?thesis by (auto intro: ended_failed)
  qed
qed

lemma startTLS_failed_ended:
  assumes "startTLS_failed E err h = (r, h')" and "stands h0 b plaintext_bound 0 h" and "prefix b [capability_line, starttls_line]"
  shows "ended E policy starttls h0 r h'"
proof -
  obtain e h1 where c1: "dial_ctx E (h @ [RawClosed]) = (e, h1)" by fastforce
  obtain c h2 where c2: "connectionError E (error_of err) h1 = (c, h2)" by fastforce
  note s1 = stands_ctx [OF stands_close(1) [OF assms(2)] c1]
  have "ended E policy starttls h0 (Inl x) h1" "ended E policy starttls h0 (Inl x) h2" for x
    using ended_failed [OF s1 assms(3)] ended_failed [OF stands_error [OF s1 c2] assms(3)] by blast+
  with c1 c2 assms(1) show ?thesis by (simp add: startTLS_failed_def split: if_splits) blast+
qed

lemma establishStartTLS_ended:
  assumes "establishStartTLS E policy h0 = (r, h)" and "stands h0 [] 0 0 h0"
  shows "ended E policy True h0 r h"
proof -
  obtain r1 rd1 h1 where f1: "readStartTLSLine E \<lparr>br_buf = [], br_err = None\<rparr> (4 * 1024) (h0 @ [DeadlineSet]) = (r1, rd1, h1)"
    by (metis prod_cases3)
  note run1 = readStartTLSLine_run [OF f1, simplified]
  have base: "stands h0 [] 0 0 (h0 @ [DeadlineSet])" using assms(2) by (auto simp: stands_def)
  note unfolded = assms(1) [unfolded establishStartTLS_def f1 prod.case]
  show ?thesis
  proof (cases r1)
    case (Inl err)
    have s1: "stands h0 [] plaintext_bound 0 h1"
      by (rule stands_waited [OF base]) (use run1 Inl base in \<open>auto simp: plaintext_bound_def stands_def\<close>)
    obtain e h2 where c1: "dial_ctx E (h1 @ [RawClosed]) = (e, h2)" by fastforce
    obtain c h3 where c2: "connectionError E (error_of err) h2 = (c, h3)" by fastforce
    note s2 = stands_ctx [OF stands_close(1) [OF s1] c1]
    have "ended E policy True h0 (Inl x) h2" "ended E policy True h0 (Inl x) h3" for x
      by (rule ended_failed [OF s2], simp, rule ended_failed [OF stands_error [OF s2 c2]], simp)
    with c1 c2 unfolded Inl show ?thesis by (simp split: if_splits) blast+
  next
    case (Inr line_n)
    obtain greeting n where g: "line_n = (greeting, n)" by fastforce
    have rd1: "length (br_buf rd1) \<le> reader_size" and n: "n \<le> 4 * 1024" "plaintext_read h1 = n + length (br_buf rd1)" and w1: "waited (h0 @ [DeadlineSet]) h1"
      using run1 Inr g base by (auto simp: stands_def)
    have s1: "stands h0 [] plaintext_bound 0 h1"
      by (rule stands_waited [OF base w1]) (use n rd1 in \<open>simp add: plaintext_bound_def\<close>)
    show ?thesis
    proof (cases "validStartTLSGreeting greeting")
      case False
      with unfolded Inr g have "r = Inl CodeTLSNegotiation" "h = h1 @ [RawClosed]" by auto
      with ended_failed [OF stands_close(1) [OF s1]] show ?thesis by simp
    next
      case True
      obtain r2 rd2 b2 h2 where f2: "imapCommand E rd1 \<lparr>sb_bytes = 0, sb_count = 0\<rparr> ''a001'' ''CAPABILITY'' h1 = (r2, rd2, b2, h2)"
        by (metis prod_cases4)
      note run2 = imapCommand_run [OF f2 rd1]
      obtain e2 where w2: "waited (h1 @ [Sent capability_line e2]) h2" using run2 by (auto simp: capability_line_def)
      have "stands h0 [capability_line] plaintext_bound 0 (h1 @ [Sent capability_line e2])" using s1 by (auto simp: stands_def)
      then have s2: "stands h0 [capability_line] plaintext_bound 0 h2"
        by (rule stands_waited [OF _ w2]) (use run2 n in \<open>auto simp: plaintext_bound_def split: sum.splits\<close>)
      show ?thesis
      proof (cases "\<exists>err. r2 = Inl err")
        case True
        then obtain err where "r2 = Inl err" by blast
        with unfolded Inr g \<open>validStartTLSGreeting greeting\<close> f2 have "startTLS_failed E err h2 = (r, h)" by simp
        then show ?thesis by (rule startTLS_failed_ended [OF _ s2]) simp
      next
        case False
        then obtain has where has: "r2 = Inr has" by (cases r2) auto
        show ?thesis
        proof (cases has)
          case False
          with unfolded Inr g True f2 has have "r = Inl CodeTLSNegotiation" "h = h2 @ [RawClosed]" by auto
          with ended_failed [OF stands_close(1) [OF s2]] show ?thesis by simp
        next
          case offered: True
          obtain r3 rd3 b3 h3 where f3: "imapCommand E rd2 b2 ''a002'' ''STARTTLS'' h2 = (r3, rd3, b3, h3)" by (metis prod_cases4)
          have rd2: "length (br_buf rd2) \<le> reader_size" "sb_bytes b2 \<le> 16 * 1024"
            "plaintext_read h2 + length (br_buf rd1) = plaintext_read h1 + sb_bytes b2 + length (br_buf rd2)" using run2 has by auto
          note run3 = imapCommand_run [OF f3 rd2(1,2)]
          obtain e3 where w3: "waited (h2 @ [Sent starttls_line e3]) h3" using run3 by (auto simp: starttls_line_def)
          have "stands h0 [capability_line, starttls_line] plaintext_bound 0 (h2 @ [Sent starttls_line e3])" using s2 by (auto simp: stands_def)
          then have s3: "stands h0 [capability_line, starttls_line] plaintext_bound 0 h3"
            by (rule stands_waited [OF _ w3]) (use run3 rd2 n in \<open>auto simp: plaintext_bound_def split: sum.splits\<close>)
          have after: "ended E policy True h0 r h" if "r3 = Inr x" for x
          proof -
            obtain e4 h4 where f4: "HandshakeContext E policy h3 = (e4, h4)" by fastforce
            obtain peer where h4: "h4 = h3 @ [Handshaken (snd policy) peer e4]"
              and ok: "e4 = None \<longrightarrow> (\<exists>now. verify_peer (dl_trust E) (fst policy) peer now = None)" using HandshakeContext_run [OF f4] by blast
            have s4: "stands h0 [capability_line, starttls_line] plaintext_bound 0 h4" using s3 by (auto simp: stands_def h4)
            have tail: "(case (e4, h4) of
               (Some e, h) \<Rightarrow> (case connectionError E e (h @ [RawClosed]) of (c, h) \<Rightarrow> (Inl c, h))
             | (None, h) \<Rightarrow>
               (case dial_ctx E (h @ [DeadlineCleared]) of
                  (None, h) \<Rightarrow> (Inr \<lparr>cn_tls = True, cn_startTLS = True\<rparr>, h)
                | (Some _, h) \<Rightarrow>
                  (case dial_ctx E (h @ [TLSClosed]) of (e, h) \<Rightarrow>
                   (case connectionError E (plain_error (case e of Some Canceled \<Rightarrow> ''context canceled''
                        | Some DeadlineExceeded \<Rightarrow> ''context deadline exceeded'' | None \<Rightarrow> [])) h of (c, h) \<Rightarrow> (Inl c, h))))) = (r, h)"
              using unfolded Inr g True f2 has offered f3 that f4 by simp
            show ?thesis
            proof (cases e4)
              case (Some e)
              obtain c h5 where ce: "connectionError E e (h4 @ [RawClosed]) = (c, h5)" by fastforce
              with tail Some have "r = Inl c" "h = h5" by auto
              with ended_failed [OF stands_error [OF stands_close(1) [OF s4] ce]] show ?thesis by simp
            next
              case None
              have s5: "stands h0 [capability_line, starttls_line] plaintext_bound 0 (h4 @ [DeadlineCleared])" using s4 by (auto simp: stands_def)
              obtain e6 h6 where c6: "dial_ctx E (h4 @ [DeadlineCleared]) = (e6, h6)" by fastforce
              note s6 = stands_ctx [OF s5 c6]
              show ?thesis
              proof (cases e6)
                case None
                have "Handshaken (snd policy) peer None \<in> set h6"
                  using waited_run [of "h4 @ [DeadlineCleared]" h6] dial_ctx_waited [OF c6] h4 \<open>e4 = None\<close> by auto
                then have "trusted E policy h6" using ok \<open>e4 = None\<close> unfolding trusted_def by blast
                with s6 have "ended E policy True h0 (Inr \<lparr>cn_tls = True, cn_startTLS = True\<rparr>) h6" by (simp add: ended_def)
                with tail None \<open>e4 = None\<close> c6 show ?thesis by simp
              next
                case (Some e)
                obtain e7 h7 where c7: "dial_ctx E (h6 @ [TLSClosed]) = (e7, h7)" by fastforce
                note s7 = stands_ctx [OF stands_close(2) [OF s6] c7]
                obtain c h8 where c8: "connectionError E (plain_error (case e7 of Some Canceled \<Rightarrow> ''context canceled''
                        | Some DeadlineExceeded \<Rightarrow> ''context deadline exceeded'' | None \<Rightarrow> [])) h7 = (c, h8)" by fastforce
                from tail Some \<open>e4 = None\<close> c6 c7 c8 have "r = Inl c" "h = h8" by auto
                with ended_failed [OF stands_error [OF s7 c8]] show ?thesis by simp
              qed
            qed
          qed
          show ?thesis
          proof (cases r3)
            case (Inl err)
            with unfolded Inr g True f2 has offered f3 have "startTLS_failed E err h3 = (r, h)" by simp
            then show ?thesis by (rule startTLS_failed_ended [OF _ s3]) simp
          qed (rule after)
        qed
      qed
    qed
  qed
qed

text \<open>What the policy asks of the certificate the server shows.\<close>

definition pinned :: "trust_env \<Rightarrow> tlsVerifier \<Rightarrow> certificate \<Rightarrow> int \<Rightarrow> bool" where
  "pinned T v leaf now \<longleftrightarrow> (tv_anchor v \<noteq> None \<or> tv_pin v \<noteq> None) \<and>
     (case tv_anchor v of None \<Rightarrow> True | Some anchor \<Rightarrow> ct_Raw leaf = ct_Raw anchor \<and> \<not> ct_IsCA anchor) \<and>
     (case tv_pin v of None \<Rightarrow> True | Some pin \<Rightarrow> te_sha256 T (ct_SPKI leaf) = pin \<and> length pin = 32) \<and>
     ct_NotBefore leaf \<le> now \<and> now \<le> ct_NotAfter leaf \<and>
     (ServerAuth \<in> set (ct_ExtKeyUsage leaf) \<or> AnyUsage \<in> set (ct_ExtKeyUsage leaf))"

lemma trim_space_Nil [simp]: "trim_space [] = []"
  by (simp add: trim_space_def trim_left.simps [of "[]"] trim_right.simps [of "[]"])

lemma loadTrustAnchor_leaf: "loadTrustAnchor T path = Inr c \<Longrightarrow> \<not> ct_IsCA c"
  by (auto simp: loadTrustAnchor_def split: if_splits option.splits prod.splits)

lemma parseSPKIPin_length: "parseSPKIPin value = Inr pin \<Longrightarrow> length pin = 32"
  by (auto simp: parseSPKIPin_def split: option.splits if_splits)

lemma parseTLSMinimumVersion_range: "parseTLSMinimumVersion value = Inr version \<Longrightarrow> 0x0303 \<le> version"
  by (auto simp: parseTLSMinimumVersion_def split: if_splits)

lemma newTLSVerifier_trust:
  assumes "newTLSVerifier T input = Inr (v, version)"
  shows "0x0303 \<le> version \<and> (tv_anchor v \<noteq> None \<or> tv_pin v \<noteq> None) \<and>
    (case tv_anchor v of None \<Rightarrow> True | Some anchor \<Rightarrow> \<not> ct_IsCA anchor) \<and>
    (case tv_pin v of None \<Rightarrow> True | Some pin \<Rightarrow> length pin = 32)"
  using assms
  by (auto simp: newTLSVerifier_def split: if_splits sum.splits
      dest: parseTLSMinimumVersion_range loadTrustAnchor_leaf parseSPKIPin_length)

lemma verify_peer_pinned:
  assumes "verify_peer T v peer now = None" and "newTLSVerifier T input = Inr (v, version)"
  shows "\<exists>leaf rest. peer = leaf # rest \<and> pinned T v leaf now"
proof -
  obtain leaf rest where peer: "peer = leaf # rest" using assms(1) by (cases peer) (auto simp: verify_peer_def)
  note trust = newTLSVerifier_trust [OF assms(2)]
  have "verifyLeafCertificate leaf now = None" "(case tv_anchor v of None \<Rightarrow> False | Some anchor \<Rightarrow> ct_Raw leaf \<noteq> ct_Raw anchor) = False"
    "(case tv_pin v of None \<Rightarrow> False | Some pin \<Rightarrow> te_sha256 T (ct_SPKI leaf) \<noteq> pin) = False"
    using assms(1) peer by (auto simp: verify_peer_def split: if_splits)
  with trust have "pinned T v leaf now"
    unfolding pinned_def verifyLeafCertificate_def by (auto simp: list_ex_iff split: if_splits option.splits)
  with peer show ?thesis by blast
qed

lemma ParseLoopbackEndpoint_loopback: "ParseLoopbackEndpoint T host port = Inr (address, p) \<Longrightarrow> ip_IsLoopback address \<and> p \<noteq> 0"
proof -
  assume a: "ParseLoopbackEndpoint T host port = Inr (address, p)"
  then have p: "1 \<le> port" "port \<le> 65535" "p = word_of_int port" "ip_IsLoopback address"
    by (auto simp: ParseLoopbackEndpoint_def Let_def split: option.splits if_splits)
  then have "uint p = port" by (simp add: take_bit_int_eq_self unsigned_of_int)
  with p show ?thesis by auto
qed

lemma ValidateConfig_parts:
  assumes "ValidateConfig T supported input = Inr v"
  obtains endpoint version connect command where
    "ParseLoopbackEndpoint T (ic_Host (withDefaults (cf_IMAP input))) (ic_Port (withDefaults (cf_IMAP input))) = Inr endpoint"
    "ic_TLSMode (withDefaults (cf_IMAP input)) = TLSModeStartTLS \<or> ic_TLSMode (withDefaults (cf_IMAP input)) = TLSModeImplicit"
    "isSafeCredentialCommand supported (ic_CredentialCommand (cf_IMAP input))"
    "trim_space (tc_TrustAnchorFile (ic_TLS (cf_IMAP input))) \<noteq> [] \<or> trim_space (tc_SPKISHA256 (ic_TLS (cf_IMAP input))) \<noteq> []"
    "validateTLSConfig (ic_TLS (cf_IMAP input)) = Inr version"
    "0 < connect" "connect \<le> 60000" "0 < command" "command \<le> 60000"
    "mergeBounds (cf_Bounds input) = Inr (vc_Bounds v)" "vc_Audit v = cf_Audit input"
    "vc_IMAP v = (withDefaults (cf_IMAP input))\<lparr>ic_ConnectTimeoutMs := connect, ic_CommandTimeoutMs := command\<rparr>"
proof -
  define i where "i = withDefaults (cf_IMAP input)"
  note same = withDefaults_set [of "cf_IMAP input", folded i_def]
  from assms obtain endpoint where e: "ParseLoopbackEndpoint T (ic_Host i) (ic_Port i) = Inr endpoint"
    and mode: "ic_TLSMode i = TLSModeStartTLS \<or> ic_TLSMode i = TLSModeImplicit"
    and safe: "isSafeCredentialCommand supported (ic_CredentialCommand i)"
    and trust: "\<not> (trim_space (tc_TrustAnchorFile (ic_TLS i)) = [] \<and> trim_space (tc_SPKISHA256 (ic_TLS i)) = [])"
    and rest: "bind_sum (validateTLSConfig (ic_TLS i)) (\<lambda>version.
          bind_sum (timeoutMilliseconds (ic_ConnectTimeoutMs i) 5000) (\<lambda>connect.
          bind_sum (timeoutMilliseconds (ic_CommandTimeoutMs i) 5000) (\<lambda>command.
          bind_sum (mergeBounds (cf_Bounds input)) (\<lambda>bounds.
            Inr \<lparr>vc_IMAP = i\<lparr>ic_ConnectTimeoutMs := connect, ic_CommandTimeoutMs := command\<rparr>,
              vc_Bounds = bounds, vc_Audit = cf_Audit input\<rparr>)))) = Inr v"
    unfolding ValidateConfig_def Let_def i_def [symmetric] bind_sum_Inr [where m = "ParseLoopbackEndpoint T (ic_Host i) (ic_Port i)"]
    by (simp only: split: if_splits) (simp_all, blast)
  from rest obtain version connect command where "validateTLSConfig (ic_TLS i) = Inr version"
    "timeoutMilliseconds (ic_ConnectTimeoutMs i) 5000 = Inr connect" "timeoutMilliseconds (ic_CommandTimeoutMs i) 5000 = Inr command"
    "mergeBounds (cf_Bounds input) = Inr (vc_Bounds v)" "vc_Audit v = cf_Audit input"
    "vc_IMAP v = i\<lparr>ic_ConnectTimeoutMs := connect, ic_CommandTimeoutMs := command\<rparr>" by auto
  with e mode safe trust same timeoutMilliseconds_range show thesis
    by (intro that [of endpoint version connect command]) (simp_all add: i_def)
qed

text \<open>
  What was validated once is validated again to the same configuration: the reconnect, which sends the
  validated values through \<^verbatim>\<open>Dial\<close> again, meets no new error, default or clamp. The validated values name a
  loopback endpoint, one of the two TLS modes, an absolute credential command, timeouts of at most a minute
  and bounds within the ceilings.
\<close>

theorem ValidateConfig_stable:
  "case ValidateConfig T supported input of Inl c \<Rightarrow> True
   | Inr v \<Rightarrow> ValidateConfig T supported \<lparr>cf_IMAP = vc_IMAP v, cf_Bounds = boundsPatch (vc_Bounds v), cf_Audit = vc_Audit v,
         cf_Mutations = mutations\<rparr> = Inr v \<and>
       within_bounds (vc_Bounds v) \<and> (\<exists>address port. ParseLoopbackEndpoint T (ic_Host (vc_IMAP v)) (ic_Port (vc_IMAP v)) = Inr (address, port) \<and>
         ip_IsLoopback address \<and> port \<noteq> 0) \<and>
       ic_TLSMode (vc_IMAP v) \<in> {TLSModeStartTLS, TLSModeImplicit} \<and> has_prefix (hd (ic_CredentialCommand (vc_IMAP v))) ''/'' \<and>
       ic_ConnectTimeoutMs (vc_IMAP v) \<in> {1..60000} \<and> ic_CommandTimeoutMs (vc_IMAP v) \<in> {1..60000}"
proof (cases "ValidateConfig T supported input")
  case (Inr v)
  define i where "i = withDefaults (cf_IMAP input)"
  note same = withDefaults_set [of "cf_IMAP input", folded i_def]
  from Inr obtain address port version connect command where
    e: "ParseLoopbackEndpoint T (ic_Host i) (ic_Port i) = Inr (address, port)"
    and mode: "ic_TLSMode i = TLSModeStartTLS \<or> ic_TLSMode i = TLSModeImplicit"
    and safe: "isSafeCredentialCommand supported (ic_CredentialCommand i)"
    and trust: "trim_space (tc_TrustAnchorFile (ic_TLS i)) \<noteq> [] \<or> trim_space (tc_SPKISHA256 (ic_TLS i)) \<noteq> []"
    and version: "validateTLSConfig (ic_TLS i) = Inr version"
    and times: "0 < connect" "connect \<le> 60000" "0 < command" "command \<le> 60000"
    and merged: "mergeBounds (cf_Bounds input) = Inr (vc_Bounds v)"
    and v: "vc_IMAP v = i\<lparr>ic_ConnectTimeoutMs := connect, ic_CommandTimeoutMs := command\<rparr>"
    by (elim ValidateConfig_parts) (metis surj_pair same(4,5) i_def)
  have within: "within_bounds (vc_Bounds v)" using merged mergeBounds_within by blast
  have fixed: "withDefaults (vc_IMAP v) = vc_IMAP v" using same(1-3) v by (intro withDefaults_fix) simp_all
  have "ValidateConfig T supported \<lparr>cf_IMAP = vc_IMAP v, cf_Bounds = boundsPatch (vc_Bounds v), cf_Audit = vc_Audit v,
         cf_Mutations = mutations\<rparr> = Inr v"
    unfolding ValidateConfig_def Let_def
    using e mode safe trust version times mergeBounds_fix [OF within] fixed v
    by (auto simp: bind_sum_def timeoutMilliseconds_fix)
  moreover have "has_prefix (hd (ic_CredentialCommand i)) ''/''"
    using safe by (auto simp: isSafeCredentialCommand_def split: list.splits)
  ultimately show ?thesis using Inr e mode times v within ParseLoopbackEndpoint_loopback [OF e] by auto
qed simp

section \<open>The connection\<close>

fun connected :: "dial_event \<Rightarrow> bool" where
  "connected (Dialed address port err) = (err = None)"
| "connected _ = False"

lemma waits_connected: "waited h h' \<Longrightarrow> list_ex connected h' = list_ex connected h"
proof -
  have "list_all waits g \<Longrightarrow> \<not> list_ex connected g" for g by (induction g) (auto elim: waits.elims)
  then show "waited h h' \<Longrightarrow> list_ex connected h' = list_ex connected h" by (auto simp: waited_def)
qed

text \<open>What stands behind a connection: the dial to a loopback address and the handshake with the pinned server.\<close>

definition secured :: "dial_env \<Rightarrow> TLSConfig \<Rightarrow> dial_event list \<Rightarrow> bool" where
  "secured E tls h \<longleftrightarrow> (\<exists>address port v version leaf rest now. h \<noteq> [] \<and> hd h = Dialed address port None \<and> ip_IsLoopback address \<and>
     newTLSVerifier (dl_trust E) tls = Inr (v, version) \<and> 0x0303 \<le> version \<and>
     Handshaken version (leaf # rest) None \<in> set h \<and> pinned (dl_trust E) v leaf now)"

lemma Dial_run:
  "case Dial E input of (r, h) \<Rightarrow>
     prefix (sent h) [capability_line, starttls_line] \<and> plaintext_read h \<le> 28674 \<and>
     (case r of
        Inl c \<Rightarrow> length (filter closes h) = (if list_ex connected h then 1 else 0)
      | Inr cn \<Rightarrow> filter closes h = [] \<and> cn_tls cn \<and> sent h = (if cn_startTLS cn then [capability_line, starttls_line] else []) \<and>
          secured E (ic_TLS (cf_IMAP input)) h)"
proof -
  have bound: "plaintext_bound = 28674" by (simp add: plaintext_bound_def reader_size_def)
  obtain r h where run: "Dial E input = (r, h)" by fastforce
  show ?thesis
  proof (cases "\<exists>c. Dial E input = (Inl c, [])")
    case True
    then show ?thesis by auto
  next
    case False
    then obtain config where v: "ValidateConfig (dl_trust E) (dl_supported E) input = Inr config"
      by (auto simp: Dial_def split: sum.splits)
    with False obtain address port where e: "ParseLoopbackEndpoint (dl_trust E) (ic_Host (vc_IMAP config)) (ic_Port (vc_IMAP config)) = Inr (address, port)"
      by (auto simp: Dial_def split: sum.splits)
    with False v obtain w version where p: "newTLSVerifier (dl_trust E) (ic_TLS (vc_IMAP config)) = Inr (w, version)"
      by (auto simp: Dial_def split: sum.splits)
    define h0 where "h0 = [Dialed address port (dl_dial E [])]"
    show ?thesis
    proof (cases "dl_dial E []")
      case (Some err)
      obtain c h1 where ce: "connectionError E err h0 = (c, h1)" by fastforce
      have "Dial E input = (Inl c, h1)" using v e p Some ce by (simp add: Dial_def Let_def h0_def)
      moreover have "waited h0 h1 \<and> plaintext_read h1 = plaintext_read h0" by (rule connectionError_waited [OF ce])
      ultimately show ?thesis using waited_run [of h0 h1] waits_connected [of h0 h1] Some by (simp add: h0_def)
    next
      case None
      have base: "stands h0 [] 0 0 h0" by (simp add: stands_def h0_def)
      define starttls where "starttls \<longleftrightarrow> ic_TLSMode (vc_IMAP config) \<noteq> TLSModeImplicit"
      have "(if ic_TLSMode (vc_IMAP config) = TLSModeImplicit then establishImplicitTLS E (w, version) h0 else establishStartTLS E (w, version) h0) = (r, h)"
        using run v e p None by (simp add: Dial_def Let_def h0_def split: if_splits)
      then have ended: "ended E (w, version) starttls h0 r h"
        using establishImplicitTLS_ended [OF _ base] establishStartTLS_ended [OF _ base] by (metis starttls_def)
      show ?thesis
      proof (cases r)
        case (Inl c)
        with ended obtain b where b: "prefix b [capability_line, starttls_line]" "stands h0 b plaintext_bound 1 h" by (auto simp: ended_def)
        then have "list_ex connected h" using None by (cases h) (auto simp: stands_def h0_def)
        with b Inl run bound show ?thesis by (simp add: stands_def)
      next
        case (Inr cn)
        with ended obtain peer now where t: "Handshaken version peer None \<in> set h" "verify_peer (dl_trust E) w peer now = None"
          and cn: "cn = \<lparr>cn_tls = True, cn_startTLS = starttls\<rparr>"
          and s: "stands h0 (if starttls then [capability_line, starttls_line] else []) plaintext_bound 0 h"
          by (auto simp: ended_def trusted_def)
        obtain leaf rest where leaf: "peer = leaf # rest" "pinned (dl_trust E) w leaf now" using verify_peer_pinned [OF t(2) p] by blast
        have tls: "newTLSVerifier (dl_trust E) (ic_TLS (cf_IMAP input)) = Inr (w, version)" using p v by (elim ValidateConfig_parts) (simp add: withDefaults_set)
        have "secured E (ic_TLS (cf_IMAP input)) h"
          unfolding secured_def
        proof (intro exI conjI)
          show "hd h = Dialed address port None" "h \<noteq> []" using s None by (simp_all add: stands_def h0_def)
          show "ip_IsLoopback address" using ParseLoopbackEndpoint_loopback [OF e] by simp
          show "0x0303 \<le> version" using newTLSVerifier_trust [OF p] by simp
        qed (use tls t leaf in simp_all)
        with Inr run cn s bound show ?thesis by (simp add: stands_def)
      qed
    qed
  qed
qed


end
