(* ===== verification/Bridge_Credentials.thy ===== *)
theory Bridge_Credentials
  imports Bridge_Config Strict_JSON
begin

text \<open>
  The credential helper (\<^verbatim>\<open>bridge/credentials.go\<close>): the command that prints the user name and the password, the
  bounded capture of its output and its decoding. \<^verbatim>\<open>os/exec\<close> is the field \<open>ce_run\<close>; a decoder is the tokens
  \<^verbatim>\<open>encoding/json\<close> finds in the output, as in \<open>Strict_JSON\<close>. The memory the output was captured in is part of
  every result, because the code wipes it.
\<close>

section \<open>The helper process\<close>

record Credentials =
  cd_Username :: bytes
  cd_Password :: bytes

definition zeroBytes :: "bytes \<Rightarrow> bytes" where
  "zeroBytes value = map (\<lambda>c. CHR 0x00) value"

definition Credentials_Zero :: "Credentials \<Rightarrow> Credentials" where
  "Credentials_Zero c = \<lparr>cd_Username = zeroBytes (cd_Username c), cd_Password = zeroBytes (cd_Password c)\<rparr>"

record output_buffer =
  ob_bytes :: bytes
  ob_limit :: int
  ob_overflow :: bool

definition output_Write :: "output_buffer \<Rightarrow> bytes \<Rightarrow> output_buffer" where
  "output_Write b input =
     (if ob_limit b - int (length (ob_bytes b)) < int (length input) then b\<lparr>ob_overflow := True\<rparr>
      else b\<lparr>ob_bytes := ob_bytes b @ input\<rparr>)"

record helper_spawn =
  hs_command :: "bytes list"
  hs_environment :: "bytes list"
  hs_timeout :: int

record helper_end =
  he_stdout :: "bytes list"
  he_ctx :: "ctx_error option"
  he_failed :: bool

record 'w credential_env =
  ce_supported :: bool
  ce_lookup :: "bytes \<Rightarrow> bytes option"
  ce_run :: "helper_spawn \<Rightarrow> 'w \<Rightarrow> helper_end \<times> 'w"
  ce_decoder :: "bytes \<Rightarrow> decoder"

definition credentialEnvironment :: "(bytes \<Rightarrow> bytes option) \<Rightarrow> bytes list" where
  "credentialEnvironment lookup = ''PATH=/usr/bin:/bin'' #
     concat (map (\<lambda>key. case lookup key of None \<Rightarrow> [] | Some v \<Rightarrow> [key @ ''='' @ v]) [''HOME'', ''USER'', ''LOGNAME'', ''LANG'', ''LC_ALL''])"

section \<open>Its output\<close>

text \<open>
  The loop of \<^verbatim>\<open>parseCredentials\<close>. A value is decoded into a string: a string token gives it, null leaves it
  empty, and anything else is an error.
\<close>

fun credential_members :: "bool \<Rightarrow> (bytes \<Rightarrow> bytes option) \<Rightarrow> json_token list \<Rightarrow> ((bytes \<Rightarrow> bytes option) \<times> json_token list) option" where
  "credential_members clean values (StringTok name # value # rest) =
     (if (name \<noteq> ''username'' \<and> name \<noteq> ''password'') \<or> values name \<noteq> None then None
      else case value of
        StringTok v \<Rightarrow> credential_members clean (values(name \<mapsto> v)) rest
      | NullTok \<Rightarrow> credential_members clean (values(name \<mapsto> [])) rest
      | _ \<Rightarrow> None)"
| "credential_members clean values ts = (if more_tokens clean ts then None else Some (values, ts))"

definition credential_value :: "(bytes \<Rightarrow> bytes option) \<Rightarrow> bytes \<Rightarrow> bytes" where
  "credential_value values name = (case values name of None \<Rightarrow> [] | Some v \<Rightarrow> v)"

definition parseCredentials :: "(bytes \<Rightarrow> decoder) \<Rightarrow> bytes \<Rightarrow> code + Credentials" where
  "parseCredentials decoder output =
     (if \<not> valid_utf8 output then Inl CodeCredentialOutput
      else case decoder output of (ts, clean) \<Rightarrow> (case ts of
        OpenObject # rest \<Rightarrow> (case credential_members clean Map.empty rest of
            None \<Rightarrow> Inl CodeCredentialOutput
          | Some (values, rest') \<Rightarrow> (case rest' of
              CloseObject # extra \<Rightarrow>
                if credential_value values ''username'' = [] \<or> credential_value values ''password'' = [] then Inl CodeCredentialOutput
                else if extra \<noteq> [] \<or> \<not> clean then Inl CodeCredentialOutput
                else Inr \<lparr>cd_Username = credential_value values ''username'', cd_Password = credential_value values ''password''\<rparr>
            | _ \<Rightarrow> Inl CodeCredentialOutput))
      | _ \<Rightarrow> Inl CodeCredentialOutput))"

text \<open>\<^verbatim>\<open>LoadCredentials\<close>: the result, what the captured output holds afterwards, and the world.\<close>

definition LoadCredentials :: "'w credential_env \<Rightarrow> bytes list \<Rightarrow> int \<Rightarrow> 'w \<Rightarrow> (code + Credentials) \<times> bytes \<times> 'w" where
  "LoadCredentials env command timeout w =
     (if \<not> isSafeCredentialCommand (ce_supported env) command \<or> timeout \<le> 0 then (Inl CodeInvalidConfig, [], w)
      else case ce_run env \<lparr>hs_command = command, hs_environment = credentialEnvironment (ce_lookup env), hs_timeout = timeout\<rparr> w of
        (p, w1) \<Rightarrow>
          let output = foldl output_Write \<lparr>ob_bytes = [], ob_limit = 64 * 1024, ob_overflow = False\<rparr> (he_stdout p) in
          if ob_overflow output then (Inl CodeCredentialOverflow, zeroBytes (ob_bytes output), w1)
          else if he_ctx p = Some DeadlineExceeded then (Inl CodeCredentialTimeout, zeroBytes (ob_bytes output), w1)
          else if he_failed p then (Inl CodeCredentialCommand, zeroBytes (ob_bytes output), w1)
          else (parseCredentials (ce_decoder env) (ob_bytes output), zeroBytes (ob_bytes output), w1))"

section \<open>Properties\<close>

lemma output_Write_keeps:
  "ob_limit (output_Write b input) = ob_limit b"
  "int (length (ob_bytes b)) \<le> ob_limit b \<Longrightarrow> int (length (ob_bytes (output_Write b input))) \<le> ob_limit (output_Write b input)"
  by (auto simp: output_Write_def)

lemma output_overflow_stays: "ob_overflow b \<Longrightarrow> ob_overflow (foldl output_Write b pieces)"
  by (induction pieces arbitrary: b) (auto simp: output_Write_def)

lemma output_captured:
  "int (length (ob_bytes b)) \<le> ob_limit b \<Longrightarrow>
     int (length (ob_bytes (foldl output_Write b pieces))) \<le> ob_limit b \<and>
     (\<not> ob_overflow (foldl output_Write b pieces) \<longrightarrow> ob_bytes (foldl output_Write b pieces) = ob_bytes b @ concat pieces)"
proof (induction pieces arbitrary: b)
  case (Cons p ps)
  show ?case
  proof (cases "ob_overflow (output_Write b p)")
    case True
    then show ?thesis using Cons.IH [of "output_Write b p"] Cons.prems output_Write_keeps output_overflow_stays [OF True] by simp
  next
    case False
    then have "output_Write b p = b\<lparr>ob_bytes := ob_bytes b @ p\<rparr>" by (auto simp: output_Write_def split: if_splits)
    then show ?thesis using Cons.IH [of "output_Write b p"] Cons.prems output_Write_keeps(2) [of b p] by simp
  qed
qed simp

text \<open>The tokens of an object of the two members, in the order given.\<close>

definition credential_tokens :: "bytes \<Rightarrow> bytes \<Rightarrow> bytes \<Rightarrow> bytes \<Rightarrow> json_token list" where
  "credential_tokens k v k' v' = [OpenObject, StringTok k, StringTok v, StringTok k', StringTok v', CloseObject]"

text \<open>What the loop leaves: the members it read, distinct and of the two names.\<close>

lemma credential_members_read:
  "credential_members clean values ts = Some (values', rest) \<Longrightarrow>
     \<exists>ms. ts = concat (map (\<lambda>(k, v). [StringTok k, v]) ms) @ rest \<and> distinct (map fst ms) \<and>
       set (map fst ms) \<subseteq> {''username'', ''password''} - dom values \<and>
       (\<forall>(k, v) \<in> set ms. v = NullTok \<or> (\<exists>s. v = StringTok s)) \<and>
       values' = values ++ map_of (map (\<lambda>(k, v). (k, case v of StringTok s \<Rightarrow> s | _ \<Rightarrow> [])) ms)"
proof (induction clean "values" ts rule: credential_members.induct)
  case (1 clean "values" name "value" rest0)
  from "1.prems" have name: "name = ''username'' \<or> name = ''password''" "values name = None"
    and v: "value = NullTok \<or> (\<exists>s. value = StringTok s)" by (auto split: if_splits json_token.splits)
  define s where "s = (case value of StringTok s \<Rightarrow> s | _ \<Rightarrow> [])"
  have rec: "credential_members clean (values(name \<mapsto> s)) rest0 = Some (values', rest)"
    using "1.prems" name v by (auto simp: s_def split: if_splits)
  have "\<exists>ms. rest0 = concat (map (\<lambda>(k, v). [StringTok k, v]) ms) @ rest \<and> distinct (map fst ms) \<and>
       set (map fst ms) \<subseteq> {''username'', ''password''} - dom (values(name \<mapsto> s)) \<and>
       (\<forall>(k, v) \<in> set ms. v = NullTok \<or> (\<exists>s. v = StringTok s)) \<and>
       values' = values(name \<mapsto> s) ++ map_of (map (\<lambda>(k, v). (k, case v of StringTok s \<Rightarrow> s | _ \<Rightarrow> [])) ms)"
    using v
  proof (elim disjE exE)
    assume "value = NullTok"
    then have s: "s = []" by (simp add: s_def)
    show ?thesis unfolding s by (rule "1.IH"(2)) (use rec name s \<open>value = NullTok\<close> in \<open>simp_all add: fun_upd_def\<close>)
  next
    fix t assume "value = StringTok t"
    then have s: "s = t" by (simp add: s_def)
    show ?thesis unfolding s by (rule "1.IH"(1)) (use rec name s \<open>value = StringTok t\<close> in \<open>simp_all add: fun_upd_def\<close>)
  qed
  then obtain ms where ms: "rest0 = concat (map (\<lambda>(k, v). [StringTok k, v]) ms) @ rest" "distinct (map fst ms)"
    "set (map fst ms) \<subseteq> {''username'', ''password''} - dom (values(name \<mapsto> s))"
    "\<forall>(k, v) \<in> set ms. v = NullTok \<or> (\<exists>s. v = StringTok s)"
    "values' = values(name \<mapsto> s) ++ map_of (map (\<lambda>(k, v). (k, case v of StringTok s \<Rightarrow> s | _ \<Rightarrow> [])) ms)" by blast
  have fresh: "name \<notin> fst ` set ms" using ms(3) by auto
  let ?read = "\<lambda>(k, v). (k, case v of StringTok s \<Rightarrow> s | _ \<Rightarrow> [])"
  have "map_of (map ?read ms) name = None" using fresh by (force simp: map_of_eq_None_iff)
  then have same: "values(name \<mapsto> s) ++ map_of (map ?read ms) = values ++ map_of (map ?read ((name, value) # ms))"
    by (intro ext) (simp add: map_add_def s_def split: option.split)
  show ?case
  proof (intro exI [of _ "(name, value) # ms"] conjI)
    show "values' = values ++ map_of (map ?read ((name, value) # ms))" by (simp only: ms(5) same)
    show "set (map fst ((name, value) # ms)) \<subseteq> {''username'', ''password''} - dom values" using ms(3) name by auto
  qed (use ms(1,2,4) fresh v in auto)
qed (auto split: if_splits intro!: exI [of _ "[]"])

text \<open>Two distinct names are read at most once each.\<close>

lemma credential_members_exact:
  assumes "credential_members clean Map.empty ts = Some (values, rest)"
    and "credential_value values ''username'' \<noteq> []" and "credential_value values ''password'' \<noteq> []"
  shows "\<exists>u p. credential_value values ''username'' = u \<and> credential_value values ''password'' = p \<and>
    (ts = [StringTok ''username'', StringTok u, StringTok ''password'', StringTok p] @ rest \<or>
     ts = [StringTok ''password'', StringTok p, StringTok ''username'', StringTok u] @ rest)"
proof -
  obtain ms where ms: "ts = concat (map (\<lambda>(k, v). [StringTok k, v]) ms) @ rest" "distinct (map fst ms)"
    "set (map fst ms) \<subseteq> {''username'', ''password''}"
    "\<forall>(k, v) \<in> set ms. v = NullTok \<or> (\<exists>s. v = StringTok s)"
    "values = map_of (map (\<lambda>(k, v). (k, case v of StringTok s \<Rightarrow> s | _ \<Rightarrow> [])) ms)"
    using credential_members_read [OF assms(1)] by auto
  have "length ms = card (set (map fst ms))" using distinct_card [OF ms(2)] by simp
  also have "\<dots> \<le> card {''username'', ''password''}" by (rule card_mono) (use ms(3) in auto)
  finally have "length ms \<le> 2" by simp
  then consider "ms = []" | a where "ms = [a]" | a b where "ms = [a, b]"
    by (cases ms rule: remdups_adj.cases) auto
  then show ?thesis
  proof cases
    case 1
    with ms(5) assms(2) show ?thesis by (simp add: credential_value_def)
  next
    case (2 a)
    with ms(5) assms(2,3) show ?thesis by (auto simp: credential_value_def split: prod.splits if_splits)
  next
    case (3 a b)
    obtain k v k' v' where ab: "a = (k, v)" "b = (k', v')" by fastforce
    with 3 ms(2,3) have "k = ''username'' \<and> k' = ''password'' \<or> k = ''password'' \<and> k' = ''username''" by auto
    then show ?thesis
    proof (elim disjE conjE)
      assume k: "k = ''username''" "k' = ''password''"
      with ms(5) 3 ab have "credential_value values ''username'' = (case v of StringTok s \<Rightarrow> s | _ \<Rightarrow> [])"
        "credential_value values ''password'' = (case v' of StringTok s \<Rightarrow> s | _ \<Rightarrow> [])" by (simp_all add: credential_value_def)
      with assms(2,3) ms(4) 3 ab k ms(1) show ?thesis by auto
    next
      assume k: "k = ''password''" "k' = ''username''"
      with ms(5) 3 ab have "credential_value values ''username'' = (case v' of StringTok s \<Rightarrow> s | _ \<Rightarrow> [])"
        "credential_value values ''password'' = (case v of StringTok s \<Rightarrow> s | _ \<Rightarrow> [])" by (simp_all add: credential_value_def)
      with assms(2,3) ms(4) 3 ab k ms(1) show ?thesis by auto
    qed
  qed
qed

lemma parseCredentials_Inr:
  "parseCredentials decoder output = Inr c \<longleftrightarrow> valid_utf8 output \<and> cd_Username c \<noteq> [] \<and> cd_Password c \<noteq> [] \<and>
     (decoder output = (credential_tokens ''username'' (cd_Username c) ''password'' (cd_Password c), True) \<or>
      decoder output = (credential_tokens ''password'' (cd_Password c) ''username'' (cd_Username c), True))"
  (is "?lhs \<longleftrightarrow> ?rhs")
proof
  assume ?lhs
  then obtain ts "values" where ok: "valid_utf8 output" "decoder output = (OpenObject # ts, True)"
    "credential_members True Map.empty ts = Some (values, [CloseObject])"
    "credential_value values ''username'' \<noteq> []" "credential_value values ''password'' \<noteq> []"
    "c = \<lparr>cd_Username = credential_value values ''username'', cd_Password = credential_value values ''password''\<rparr>"
    by (auto simp: parseCredentials_def split: if_splits prod.splits list.splits json_token.splits option.splits)
  from credential_members_exact [OF ok(3-5)] ok show ?rhs by (auto simp: credential_tokens_def)
next
  assume r: ?rhs
  then show ?lhs
    by (cases c) (auto simp: parseCredentials_def credential_tokens_def credential_value_def more_tokens_def)
qed

text \<open>
  C10. The credential helper's output is accepted exactly when it is valid UTF-8 and the tokens of one object whose
  only members are a non-empty user name and a non-empty password, each once, in either order, with nothing after
  it; the credentials are then those two strings.
\<close>

theorem parseCredentials_exact:
  "parseCredentials decoder output = Inr c \<longleftrightarrow> valid_utf8 output \<and> cd_Username c \<noteq> [] \<and> cd_Password c \<noteq> [] \<and>
     (decoder output = (credential_tokens ''username'' (cd_Username c) ''password'' (cd_Password c), True) \<or>
      decoder output = (credential_tokens ''password'' (cd_Password c) ''username'' (cd_Username c), True))"
  by (rule parseCredentials_Inr)

definition named_variable :: "bytes \<Rightarrow> bool" where
  "named_variable entry \<longleftrightarrow> list_ex (has_prefix entry) [''PATH='', ''HOME='', ''USER='', ''LOGNAME='', ''LANG='', ''LC_ALL='']"

lemma credentialEnvironment_named: "list_all named_variable (credentialEnvironment lookup)"
  by (auto simp: named_variable_def credentialEnvironment_def has_prefix_def split: option.splits)

lemma zeroBytes_zero: "set (zeroBytes b) \<subseteq> {CHR 0x00}" "length (zeroBytes b) = length b"
  by (auto simp: zeroBytes_def)

text \<open>
  Loading credentials runs the configured command at most once, only where it is an absolute path and there is time
  for it, with nothing of the environment but six named variables; it keeps at most 64 KiB of the output and
  leaves none of it in the memory it was captured in; and credentials are only ever what a command that succeeded
  printed in full.
\<close>

theorem LoadCredentials_wiped:
  "case LoadCredentials env command timeout w of (r, memory, w') \<Rightarrow>
     length memory \<le> 65536 \<and> set memory \<subseteq> {CHR 0x00} \<and>
     (if isSafeCredentialCommand (ce_supported env) command \<and> 0 < timeout
      then (\<exists>environment p. ce_run env \<lparr>hs_command = command, hs_environment = environment, hs_timeout = timeout\<rparr> w = (p, w') \<and>
          list_all named_variable environment \<and>
          (case r of Inl c \<Rightarrow> True
           | Inr c \<Rightarrow> \<not> he_failed p \<and> length (concat (he_stdout p)) \<le> 65536 \<and> parseCredentials (ce_decoder env) (concat (he_stdout p)) = Inr c))
      else r = Inl CodeInvalidConfig \<and> w' = w)"
proof (cases "isSafeCredentialCommand (ce_supported env) command \<and> 0 < timeout")
  case True
  define environment where "environment = credentialEnvironment (ce_lookup env)"
  obtain p w1 where run: "ce_run env \<lparr>hs_command = command, hs_environment = environment, hs_timeout = timeout\<rparr> w = (p, w1)" by fastforce
  define out where "out = foldl output_Write \<lparr>ob_bytes = [], ob_limit = 64 * 1024, ob_overflow = False\<rparr> (he_stdout p)"
  have captured: "length (ob_bytes out) \<le> 65536" "\<not> ob_overflow out \<Longrightarrow> ob_bytes out = concat (he_stdout p)"
    using output_captured [of "\<lparr>ob_bytes = [], ob_limit = 64 * 1024, ob_overflow = False\<rparr>" "he_stdout p"] by (simp_all add: out_def)
  define r where "r = (if ob_overflow out then Inl CodeCredentialOverflow else if he_ctx p = Some DeadlineExceeded then Inl CodeCredentialTimeout
      else if he_failed p then Inl CodeCredentialCommand else parseCredentials (ce_decoder env) (ob_bytes out))"
  have load: "LoadCredentials env command timeout w = (r, zeroBytes (ob_bytes out), w1)"
    using True run [unfolded environment_def] by (simp add: LoadCredentials_def Let_def out_def r_def)
  have "list_all named_variable environment" by (simp add: environment_def credentialEnvironment_named)
  moreover have "case r of Inl c \<Rightarrow> True
      | Inr c \<Rightarrow> \<not> he_failed p \<and> length (concat (he_stdout p)) \<le> 65536 \<and> parseCredentials (ce_decoder env) (concat (he_stdout p)) = Inr c"
    using captured by (auto simp: r_def split: sum.split)
  ultimately have "\<exists>environment p. ce_run env \<lparr>hs_command = command, hs_environment = environment, hs_timeout = timeout\<rparr> w = (p, w1) \<and>
      list_all named_variable environment \<and> (case r of Inl c \<Rightarrow> True
      | Inr c \<Rightarrow> \<not> he_failed p \<and> length (concat (he_stdout p)) \<le> 65536 \<and> parseCredentials (ce_decoder env) (concat (he_stdout p)) = Inr c)"
    using run by blast
  with True captured(1) zeroBytes_zero [of "ob_bytes out"] show ?thesis unfolding load by simp
qed (auto simp: LoadCredentials_def)

end
