(* ===== verification/Session_Open.thy ===== *)
theory Session_Open
  imports IMAP_Commands Bridge_Dial Bridge_Credentials
begin

text \<open>
  How the adapter opens its session (\<^verbatim>\<open>openSession\<close> of \<^verbatim>\<open>bridge/bridge.go\<close>, \<^verbatim>\<open>newIMAPSession\<close> of
  \<^verbatim>\<open>bridge/imapclient.go\<close>): the connection of \<open>Bridge_Dial\<close>, the session of \<open>IMAP_Commands\<close> over it, the helper of
  \<open>Bridge_Credentials\<close>, and the login. \<open>og_transport\<close> is the state of the TLS connection that a run of \<^verbatim>\<open>Dial\<close> leaves
  to go-imap, which is \<open>og_client\<close>: after STARTTLS it reads the greeting the bridge made up.
\<close>

section \<open>Opening\<close>

record ('n, 's, 'w) opening_env =
  og_dial :: dial_env
  og_transport :: "dial_event list \<Rightarrow> 'n"
  og_client :: "bool \<Rightarrow> ('n, 's) imap_commands"
  og_is_no :: "go_error \<Rightarrow> bool"
  og_helper :: "'w credential_env"

text \<open>
  What an opening did: a run of \<^verbatim>\<open>Dial\<close>, the session after the greeting, whether \<^verbatim>\<open>connection.Close\<close> closed anything,
  what the helper's output holds after the call, the login with its credentials, and \<^verbatim>\<open>Abort\<close>.
\<close>

datatype 'n open_event =
    DialRun "dial_event list"
  | ClientStarted "'n imap_state"
  | ConnectionClosed bool
  | HelperRun bytes
  | LoggedIn Credentials "'n imap_state"
  | SessionAborted "'n imap_state"

definition newIMAPSession :: "('n, 's, 'w) opening_env \<Rightarrow> Connection option \<Rightarrow> dial_event list \<Rightarrow>
    (go_error + 'n imap_state) \<times> Connection option \<times> 'n open_event list" where
  "newIMAPSession env connection h = (case Connection_takeConn connection of
      (Inl c, connection') \<Rightarrow> (Inl (BridgeError c), connection', [])
    | (Inr startTLS, connection') \<Rightarrow> (case newIMAPSessionOver (og_client env startTLS) (og_transport env h) of
        (r, st) \<Rightarrow> (r, connection', [ClientStarted st])))"

text \<open>\<^verbatim>\<open>CommandTimeoutMs\<close> is a count of milliseconds, the helper's timeout one of nanoseconds.\<close>

definition openSession :: "('n, 's, 'w) opening_env \<Rightarrow> ValidatedConfig \<Rightarrow> 'w \<Rightarrow>
    (go_error + 'n imap_state) \<times> 'n open_event list \<times> 'w" where
  "openSession env config w =
     (case Dial (og_dial env) \<lparr>cf_IMAP = vc_IMAP config, cf_Bounds = boundsPatch (vc_Bounds config), cf_Audit = vc_Audit config,
         cf_Mutations = False\<rparr> of
        (Inl c, h) \<Rightarrow> (Inl (BridgeError c), [DialRun h], w)
      | (Inr connection, h) \<Rightarrow>
        (case newIMAPSession env (Some connection) h of
           (Inl e, connection', started) \<Rightarrow>
             (Inl e, DialRun h # started @ [ConnectionClosed (snd (Connection_Close connection'))], w)
         | (Inr st, connection', started) \<Rightarrow>
           (case LoadCredentials (og_helper env) (ic_CredentialCommand (vc_IMAP config)) (ic_CommandTimeoutMs (vc_IMAP config) * 1000000) w of
              (Inl c, output, w1) \<Rightarrow>
                (Inl (BridgeError c), DialRun h # started @ [HelperRun output, SessionAborted (session_Abort st)], w1)
            | (Inr credentials, output, w1) \<Rightarrow>
              (case session_Authenticate (og_client env (cn_startTLS connection)) (og_is_no env)
                  (cd_Username credentials) (cd_Password credentials) st of
                 (Inl e, st1) \<Rightarrow>
                   (Inl e, DialRun h # started @ [HelperRun output, LoggedIn credentials st1, SessionAborted (session_Abort st1)], w1)
               | (Inr u, st1) \<Rightarrow> (Inr st1, DialRun h # started @ [HelperRun output, LoggedIn credentials st1], w1)))))"

section \<open>The transport\<close>

text \<open>Whether a connection is open after the events, given whether one was before.\<close>

fun transport_open :: "bool \<Rightarrow> 'n open_event list \<Rightarrow> bool" where
  "transport_open b [] = b"
| "transport_open b (DialRun h # l) = transport_open (list_ex connected h \<and> filter closes h = []) l"
| "transport_open b (ClientStarted st # l) = transport_open (b \<and> \<not> is_conn_closed st) l"
| "transport_open b (ConnectionClosed c # l) = transport_open (b \<and> \<not> c) l"
| "transport_open b (HelperRun output # l) = transport_open b l"
| "transport_open b (LoggedIn credentials st # l) = transport_open (b \<and> \<not> is_conn_closed st) l"
| "transport_open b (SessionAborted st # l) = transport_open (b \<and> \<not> is_conn_closed st) l"

text \<open>A call on go-imap, and a bound around one, close nothing.\<close>

definition keeps_open :: "('n, 'a) imap_op \<Rightarrow> bool" where
  "keeps_open f \<longleftrightarrow> (\<forall>st. is_conn_closed (snd (f st)) = is_conn_closed st)"

named_theorems open_intros

lemma keeps_open_call [open_intros]: "keeps_open (client_call f)"
  by (simp add: keeps_open_def client_call_eq)

lemma keeps_open_capabilities [open_intros]: "keeps_open (waitForCapabilities env)"
  by (simp add: keeps_open_def waitForCapabilities_def)

lemma keeps_openD: "keeps_open f \<Longrightarrow> f st = (r, st') \<Longrightarrow> is_conn_closed st' = is_conn_closed st"
  unfolding keeps_open_def by (metis snd_conv)

lemma keeps_openI: "(\<And>st r st'. f st = (r, st') \<Longrightarrow> is_conn_closed st' = is_conn_closed st) \<Longrightarrow> keeps_open f"
  unfolding keeps_open_def by (metis prod.collapse)

lemma keeps_open_then [open_intros]:
  assumes "keeps_open f" and "\<And>x. keeps_open (g x)"
  shows "keeps_open (\<lambda>st. case f st of (Inl e, st1) \<Rightarrow> (Inl (wrap e), st1) | (Inr x, st1) \<Rightarrow> g x st1)"
proof (rule keeps_openI)
  fix st r st'
  assume run: "(case f st of (Inl e, st1) \<Rightarrow> (Inl (wrap e), st1) | (Inr x, st1) \<Rightarrow> g x st1) = (r, st')"
  obtain q st1 where f: "f st = (q, st1)" by fastforce
  note k = keeps_openD [OF assms(1) f]
  show "is_conn_closed st' = is_conn_closed st"
  proof (cases q)
    case (Inr x)
    with run f have "g x st1 = (r, st')" by simp
    with k show ?thesis using keeps_openD [OF assms(2)] by metis
  qed (use run f k in simp)
qed

lemma keeps_open_context:
  assumes "keeps_open g"
  shows "keeps_open (withContext env g)"
proof (rule keeps_openI)
  fix st r st'
  assume run: "withContext env g st = (r, st')"
  define st1 where "st1 = (case ic_deadline env of None \<Rightarrow> st | Some d \<Rightarrow> st\<lparr>is_conn := setLimit (Some d) (is_conn st)\<rparr>)"
  obtain q st2 where q: "g st1 = (q, st2)" by fastforce
  have "is_conn_closed st1 = is_conn_closed st" by (simp add: st1_def split: option.split)
  with keeps_openD [OF assms q] run q show "is_conn_closed st' = is_conn_closed st"
    by (cases q) (auto simp: withContext_def Let_def st1_def)
qed

lemma keeps_open_bounded [open_intros]:
  assumes "keeps_open f"
  shows "keeps_open (withBoundedInput env limit f)"
proof -
  have inner: "keeps_open (\<lambda>st. case withInputBudget limit f st of
        ((over, r), st') \<Rightarrow> (if over then Inl (BridgeError CodeBoundsExceeded) else r, st'))" (is "keeps_open ?g")
  proof (rule keeps_openI)
    fix st r st'
    assume run: "?g st = (r, st')"
    obtain q st1 where f: "f (st\<lparr>is_budget := begin_budget limit (is_budget st)\<rparr>) = (q, st1)" by fastforce
    from keeps_openD [OF assms f] run f show "is_conn_closed st' = is_conn_closed st"
      by (auto simp: withInputBudget_def split: prod.splits)
  qed
  then show ?thesis unfolding withBoundedInput_def by (rule keeps_open_context)
qed

lemma keeps_open_Authenticate: "keeps_open (session_Authenticate env is_no username password)"
  unfolding session_Authenticate_def by (intro open_intros)

text \<open>A session that does not start has closed its connection.\<close>

lemma newIMAPSessionOver_open:
  assumes "newIMAPSessionOver env n = (r, st)"
  shows "case r of Inl e \<Rightarrow> is_conn_closed st | Inr st' \<Rightarrow> st' = st \<and> \<not> is_conn_closed st"
proof -
  define f where "f = withBoundedInput env maxControlResponseBytes (\<lambda>st.
        (case client_call (ic_WaitGreeting env) st of
           (Inl e, st') \<Rightarrow> (Inl e, st')
         | (Inr u, st') \<Rightarrow> waitForCapabilities env st'))"
  have k: "keeps_open f" unfolding f_def by (intro open_intros keeps_open_then [where wrap = "\<lambda>e. e"])
  obtain s st1 where s: "f (new_imap_state n) = (s, st1)" by fastforce
  from keeps_openD [OF k s] have "\<not> is_conn_closed st1" by (simp add: new_imap_state_def)
  with s assms show ?thesis
    by (cases s) (auto simp: newIMAPSessionOver_def startClient_def f_def close_conn_def)
qed

section \<open>Properties\<close>

lemma LoadCredentials_wipes: "LoadCredentials env command timeout w = (r, output, w') \<Longrightarrow> set output \<subseteq> {CHR 0x00}"
  using zeroBytes_zero(1) by (auto simp: LoadCredentials_def Let_def split: if_splits prod.splits)

text \<open>What an opening may do after it has dialled with the run \<open>h\<close>.\<close>

fun step_allowed :: "('n, 's, 'w) opening_env \<Rightarrow> IMAPConfig \<Rightarrow> 'w \<Rightarrow> dial_event list \<Rightarrow> 'n open_event \<Rightarrow> bool" where
  "step_allowed env imap w h (DialRun h') = False"
| "step_allowed env imap w h (HelperRun output) = (secured (og_dial env) (ic_TLS imap) h \<and> set output \<subseteq> {CHR 0x00})"
| "step_allowed env imap w h (LoggedIn credentials st) = (secured (og_dial env) (ic_TLS imap) h \<and>
     fst (LoadCredentials (og_helper env) (ic_CredentialCommand imap) (ic_CommandTimeoutMs imap * 1000000) w) = Inr credentials)"
| "step_allowed env imap w h e = True"

lemma secured_connected: "secured E tls h \<Longrightarrow> list_ex connected h"
  by (cases h) (auto simp: secured_def)

lemma Dial_failed_closed: "Dial E input = (Inl c, h) \<Longrightarrow> \<not> (list_ex connected h \<and> filter closes h = [])"
  using Dial_run [of E input] by (auto split: if_splits)

lemma newIMAPSession_run:
  assumes "newIMAPSession env (Some cn) h = (r, connection', started)" and "cn_tls cn"
  shows "\<exists>st. started = [ClientStarted st] \<and> connection' = Some (cn\<lparr>cn_tls := False\<rparr>) \<and>
    (case r of Inl e \<Rightarrow> is_conn_closed st | Inr st' \<Rightarrow> st' = st \<and> \<not> is_conn_closed st)"
  using assms newIMAPSessionOver_open
  by (auto simp: newIMAPSession_def Connection_takeConn_def split: prod.splits)

text \<open>
  C9. The adapter opens a session safely, whatever the network, the server and the helper do: the helper runs, and
  the credentials go out, only over a connection to a loopback address whose server showed the pinned certificate;
  the credentials sent are the ones the helper gave, and its output has been overwritten. A session that is
  returned has been greeted and has logged in, over a transport that is open; where an error is returned, every
  transport that was opened has been closed.
\<close>

theorem openSession_secure:
  "case openSession env config w of (r, log, w') \<Rightarrow>
     (\<exists>h steps. log = DialRun h # steps \<and> list_all (step_allowed env (vc_IMAP config) w h) steps \<and>
       (case r of
          Inl e \<Rightarrow> \<not> transport_open False log
        | Inr st \<Rightarrow> transport_open False log \<and>
            (\<exists>greeted output credentials. steps = [ClientStarted greeted, HelperRun output, LoggedIn credentials st])))"
proof -
  let ?input = "\<lparr>cf_IMAP = vc_IMAP config, cf_Bounds = boundsPatch (vc_Bounds config), cf_Audit = vc_Audit config, cf_Mutations = False\<rparr>"
  obtain d h where dial: "Dial (og_dial env) ?input = (d, h)" by fastforce
  show ?thesis
  proof (cases d)
    case (Inl c)
    with dial Dial_failed_closed show ?thesis by (auto simp: openSession_def)
  next
    case (Inr cn)
    from Dial_run [of "og_dial env" ?input] dial Inr have ok: "secured (og_dial env) (ic_TLS (vc_IMAP config)) h" "filter closes h = []" "cn_tls cn"
      by simp_all
    note live = secured_connected [OF ok(1)]
    obtain q connection' started where new: "newIMAPSession env (Some cn) h = (q, connection', started)" by (metis prod_cases3)
    obtain st where st: "started = [ClientStarted st]" "connection' = Some (cn\<lparr>cn_tls := False\<rparr>)"
      "case q of Inl e \<Rightarrow> is_conn_closed st | Inr st' \<Rightarrow> st' = st \<and> \<not> is_conn_closed st" using newIMAPSession_run [OF new ok(3)] by blast
    show ?thesis
    proof (cases q)
      case (Inl e)
      with dial Inr new st show ?thesis by (simp add: openSession_def)
    next
      case session: (Inr st0)
      then have st0: "st0 = st" "\<not> is_conn_closed st" using st(3) by simp_all
      obtain l wiped_output w1 where load: "LoadCredentials (og_helper env) (ic_CredentialCommand (vc_IMAP config))
          (ic_CommandTimeoutMs (vc_IMAP config) * 1000000) w = (l, wiped_output, w1)" by (metis prod_cases3)
      note wiped = LoadCredentials_wipes [OF load]
      show ?thesis
      proof (cases l)
        case (Inl c)
        with dial Inr new session st st0 load wiped ok show ?thesis
          by (simp add: openSession_def session_Abort_def close_conn_def)
      next
        case credentials: (Inr cr)
        obtain a st1 where auth: "session_Authenticate (og_client env (cn_startTLS cn)) (og_is_no env) (cd_Username cr) (cd_Password cr) st = (a, st1)"
          by fastforce
        note open1 = keeps_openD [OF keeps_open_Authenticate auth]
        show ?thesis
        proof (cases a)
          case (Inl e)
          with dial Inr new session st st0 load wiped ok credentials auth open1 show ?thesis
            by (simp add: openSession_def session_Abort_def close_conn_def)
        next
          case authenticated: (Inr u)
          with dial Inr new session st st0 load wiped ok credentials auth open1 live show ?thesis
            by (simp add: openSession_def)
        qed
      qed
    qed
  qed
qed

end
