(* ===== verification/Config_Load.thy ===== *)
theory Config_Load
  imports Bridge_Config Strict_JSON
begin

text \<open>
  The configuration files (\<^verbatim>\<open>internal/config/config.go\<close>, \<^verbatim>\<open>drive.go\<close>, \<^verbatim>\<open>open_unix.go\<close>): the path is opened one
  component at a time without following links, the file has to be the caller's own, regular, private and
  small, and its text one strict JSON object. The operating system and \<^verbatim>\<open>encoding/json\<close> are a \<open>file_env\<close>, which
  answers each call from the calls before it.
\<close>

section \<open>Opening\<close>

datatype config_error = ErrConfigUnreadable | ErrConfigInvalid

text \<open>The root, a directory under an open one, or the file itself; \<open>None\<close> is an error.\<close>

datatype file_event =
    OpenRoot "nat option"
  | OpenDirectory nat bytes "nat option"
  | OpenFile nat bytes "nat option"
  | CloseFd nat
  | StatFd nat
  | ReadFd nat nat

record file_info =
  fi_regular :: bool
  fi_own :: bool
  fi_Size :: int
  fi_Perm :: "32 word"

record file_env =
  fe_open :: "file_event list \<Rightarrow> nat option"
  fe_stat :: "file_event list \<Rightarrow> file_info option"
  fe_read :: "file_event list \<Rightarrow> bytes option"
  fe_fold_eq :: "bytes \<Rightarrow> bytes \<Rightarrow> bool"
  fe_decoder :: "bytes \<Rightarrow> decoder"

text \<open>\<^verbatim>\<open>filepath.Clean\<close> of an absolute path, as the list of its components: dots and empty components go, two dots take the one before.\<close>

fun clean_parts :: "bytes list \<Rightarrow> bytes list \<Rightarrow> bytes list" where
  "clean_parts acc [] = rev acc"
| "clean_parts acc (p # ps) =
     (if p = [] \<or> p = ''.'' then clean_parts acc ps
      else if p = ''..'' then clean_parts (tl acc) ps
      else clean_parts (p # acc) ps)"

definition clean_components :: "bytes \<Rightarrow> bytes list" where
  "clean_components path = clean_parts [] (split_byte (CHR ''/'') path)"

fun open_directories :: "file_env \<Rightarrow> nat \<Rightarrow> bytes list \<Rightarrow> file_event list \<Rightarrow> nat option \<times> file_event list" where
  "open_directories F directory [] h = (Some directory, h)"
| "open_directories F directory (component # cs) h =
     (let r = fe_open F h; h1 = h @ [OpenDirectory directory component r, CloseFd directory] in
      case r of None \<Rightarrow> (None, h1) | Some d \<Rightarrow> open_directories F d cs h1)"

definition openSecure :: "file_env \<Rightarrow> bytes \<Rightarrow> file_event list \<Rightarrow> nat option \<times> file_event list" where
  "openSecure F path h =
     (let components = clean_components path in
      if components = [] then (None, h)
      else let r = fe_open F h; h1 = h @ [OpenRoot r] in
        case r of None \<Rightarrow> (None, h1)
        | Some root \<Rightarrow>
          (case open_directories F root (butlast components) h1 of
             (None, h2) \<Rightarrow> (None, h2)
           | (Some directory, h2) \<Rightarrow>
               let f = fe_open F h2 in (f, h2 @ [OpenFile directory (last components) f, CloseFd directory])))"

section \<open>Loading\<close>

definition maxConfigBytes :: nat where
  "maxConfigBytes = 64 * 1024"

text \<open>\<^verbatim>\<open>load\<close>; \<open>decode\<close> is the decoder into the target. The file is closed on every return.\<close>

definition load_text :: "file_env \<Rightarrow> bytes \<Rightarrow> (config_error + bytes) \<times> file_event list" where
  "load_text F path =
     (if \<not> has_prefix path ''/'' then (Inl ErrConfigUnreadable, [])
      else case openSecure F path [] of
        (None, h) \<Rightarrow> (Inl ErrConfigUnreadable, h)
      | (Some file, h) \<Rightarrow>
          let h1 = h @ [StatFd file] in
          (case fe_stat F h of None \<Rightarrow> (Inl ErrConfigUnreadable, h1 @ [CloseFd file])
           | Some info \<Rightarrow>
             if \<not> fi_regular info \<or> \<not> fi_own info \<or> int maxConfigBytes < fi_Size info \<or> and (fi_Perm info) 63 \<noteq> 0
             then (Inl ErrConfigUnreadable, h1 @ [CloseFd file])
             else let h2 = h1 @ [ReadFd file (maxConfigBytes + 1)] in
               (case fe_read F h1 of None \<Rightarrow> (Inl ErrConfigUnreadable, h2 @ [CloseFd file])
                | Some contents \<Rightarrow>
                  if maxConfigBytes < length contents then (Inl ErrConfigUnreadable, h2 @ [CloseFd file])
                  else (Inr contents, h2 @ [CloseFd file]))))"

definition load :: "file_env \<Rightarrow> (bytes \<Rightarrow> ('a \<times> bool) option) \<Rightarrow> bytes \<Rightarrow> (config_error + 'a) \<times> file_event list" where
  "load F decode path = (case load_text F path of
      (Inl e, h) \<Rightarrow> (Inl e, h)
    | (Inr contents, h) \<Rightarrow>
        (case DecodeObject (fe_fold_eq F) (fe_decoder F) decode contents (int maxConfigBytes) of
           None \<Rightarrow> (Inl ErrConfigInvalid, h) | Some v \<Rightarrow> (Inr v, h)))"

definition Load :: "file_env \<Rightarrow> (bytes \<Rightarrow> (Config \<times> bool) option) \<Rightarrow> bytes \<Rightarrow> (config_error + Config) \<times> file_event list" where
  "Load F decode path = load F decode path"

section \<open>The Drive configuration\<close>

record DriveDownload =
  dd_Enabled :: bool
  dd_MaxBytes :: int
  dd_TimeoutSeconds :: int

record DriveConfig =
  dc_BinaryPath :: bytes
  dc_AllowedDownloadDirectories :: "bytes list"
  dc_Download :: DriveDownload
  dc_WritesEnabled :: bool

text \<open>
  \<^verbatim>\<open>DriveDownload.UnmarshalJSON\<close>: \<open>fields\<close> decodes the object into its members, which have distinct keys;
  \<open>to_bool\<close> and \<open>to_int\<close> are \<^verbatim>\<open>json.Unmarshal\<close> into a bool and an int64.
\<close>

record download_json =
  dj_fields :: "bytes \<Rightarrow> ((bytes \<times> bytes) list \<times> bool) option"
  dj_bool :: "bytes \<Rightarrow> bool option"
  dj_int :: "bytes \<Rightarrow> int option"

fun download_members :: "download_json \<Rightarrow> DriveDownload \<Rightarrow> (bytes \<times> bytes) list \<Rightarrow> DriveDownload option" where
  "download_members J policy [] = Some policy"
| "download_members J policy ((key, value) # rest) =
     (if key = ''enabled'' then (case dj_bool J value of None \<Rightarrow> None | Some b \<Rightarrow> download_members J (policy\<lparr>dd_Enabled := b\<rparr>) rest)
      else if key = ''maxBytes'' then (case dj_int J value of None \<Rightarrow> None | Some n \<Rightarrow> download_members J (policy\<lparr>dd_MaxBytes := n\<rparr>) rest)
      else if key = ''timeoutSeconds'' then
        (case dj_int J value of None \<Rightarrow> None | Some n \<Rightarrow> download_members J (policy\<lparr>dd_TimeoutSeconds := n\<rparr>) rest)
      else None)"

definition download_UnmarshalJSON :: "file_env \<Rightarrow> download_json \<Rightarrow> DriveDownload \<Rightarrow> bytes \<Rightarrow> DriveDownload option" where
  "download_UnmarshalJSON F J policy data =
     (case DecodeObject (fe_fold_eq F) (fe_decoder F) (dj_fields J) data (int maxConfigBytes) of
        None \<Rightarrow> None | Some kvs \<Rightarrow> download_members J policy kvs)"

text \<open>\<open>decode\<close> is \<^verbatim>\<open>encoding/json\<close> with the unmarshaller of the policy, on the seeded target.\<close>

definition LoadDrive :: "file_env \<Rightarrow> download_json \<Rightarrow>
    ((DriveDownload \<Rightarrow> bytes \<Rightarrow> DriveDownload option) \<Rightarrow> DriveConfig \<Rightarrow> bytes \<Rightarrow> (DriveConfig \<times> bool) option) \<Rightarrow> bytes \<Rightarrow>
    (config_error + DriveConfig) \<times> file_event list" where
  "LoadDrive F J decode path =
     (let seed = \<lparr>dc_BinaryPath = [], dc_AllowedDownloadDirectories = [],
          dc_Download = \<lparr>dd_Enabled = False, dd_MaxBytes = 256 * 1024 * 1024, dd_TimeoutSeconds = 120\<rparr>, dc_WritesEnabled = False\<rparr> in
      case load F (decode (download_UnmarshalJSON F J) seed) path of
        (Inl e, h) \<Rightarrow> (Inl e, h)
      | (Inr loaded, h) \<Rightarrow>
          let d = dc_Download loaded in
          (if dd_Enabled d \<or> dd_MaxBytes d \<le> 0 \<or> dd_TimeoutSeconds d \<le> 0 \<or> (2 ^ 63 - 1) div (10 ^ 9) < dd_TimeoutSeconds d
           then Inl ErrConfigInvalid
           else if \<not> has_prefix (dc_BinaryPath loaded) ''/'' then Inl ErrConfigInvalid
           else if list_ex (\<lambda>directory. \<not> has_prefix directory ''/'') (dc_AllowedDownloadDirectories loaded) then Inl ErrConfigInvalid
           else Inr loaded, h))"

section \<open>Properties\<close>

text \<open>
  The descriptors a run holds: at most one. An open goes through the held directory with one plain name, and a
  close ends what is held; the file is held from its opening on, when its directory is closed after it.
\<close>

definition plain_part :: "bytes \<Rightarrow> bool" where
  "plain_part p \<longleftrightarrow> p \<noteq> [] \<and> p \<noteq> ''.'' \<and> p \<noteq> ''..'' \<and> CHR ''/'' \<notin> set p"

fun hold :: "file_event \<Rightarrow> nat list \<Rightarrow> nat list option" where
  "hold (OpenRoot r) held = (if held = [] then Some (case r of None \<Rightarrow> [] | Some f \<Rightarrow> [f]) else None)"
| "hold (OpenDirectory d name r) held = (if held = [d] \<and> plain_part name then Some (case r of None \<Rightarrow> held | Some f \<Rightarrow> held @ [f]) else None)"
| "hold (OpenFile d name r) held = (if held = [d] \<and> plain_part name then Some (case r of None \<Rightarrow> held | Some f \<Rightarrow> held @ [f]) else None)"
| "hold (CloseFd d) held = (case held of [] \<Rightarrow> None | f # fs \<Rightarrow> if f = d then Some fs else None)"
| "hold (StatFd d) held = (if held = [d] then Some held else None)"
| "hold (ReadFd d n) held = (if held = [d] then Some held else None)"

definition held_after :: "file_event list \<Rightarrow> nat list option" where
  "held_after h = foldl (\<lambda>held e. Option.bind held (hold e)) (Some []) h"

lemma held_after_simps [simp]:
  "held_after [] = Some []" "held_after (h @ [e]) = Option.bind (held_after h) (hold e)"
  "held_after (h @ [e, e']) = Option.bind (Option.bind (held_after h) (hold e)) (hold e')"
  "held_after (h @ [e, e', e'']) = Option.bind (Option.bind (Option.bind (held_after h) (hold e)) (hold e')) (hold e'')"
  by (simp_all add: held_after_def)

lemma list_all_tl: "list_all P xs \<Longrightarrow> list_all P (tl xs)"
  by (cases xs) simp_all

lemma clean_parts_plain:
  "list_all plain_part acc \<Longrightarrow> list_all (\<lambda>p. CHR ''/'' \<notin> set p) ps \<Longrightarrow> list_all plain_part (clean_parts acc ps)"
proof (induction acc ps rule: clean_parts.induct)
  case (1 acc)
  then show ?case by (simp add: list_all_iff)
next
  case (2 acc p ps)
  show ?case
  proof (cases "p = [] \<or> p = ''.''")
    case True
    with 2 show ?thesis by simp
  next
    case False
    then show ?thesis using 2 list_all_tl [OF "2.prems"(1)] by (cases "p = ''..''") (simp_all add: plain_part_def)
  qed
qed

lemma split_byte_parts: "list_all (\<lambda>p. c \<notin> set p) (split_byte c s)"
  by (induction s) (auto split: list.split simp: list_all_iff)

lemma clean_components_plain: "list_all plain_part (clean_components path)"
  unfolding clean_components_def by (rule clean_parts_plain) (simp_all add: split_byte_parts)

lemma open_directories_holds:
  "open_directories F d cs h = (r, h') \<Longrightarrow> held_after h = Some [d] \<Longrightarrow> list_all plain_part cs \<Longrightarrow>
     held_after h' = Some (case r of None \<Rightarrow> [] | Some f \<Rightarrow> [f])"
proof (induction F d cs h rule: open_directories.induct)
  case (2 F directory component cs h)
  then show ?case by (cases "fe_open F h") (auto simp: Let_def)
qed auto

lemma openSecure_holds:
  assumes "openSecure F path [] = (r, h)"
  shows "held_after h = Some (case r of None \<Rightarrow> [] | Some f \<Rightarrow> [f])"
proof (cases "clean_components path = [] \<or> fe_open F [] = None")
  case True
  with assms have "r = None \<and> (h = [] \<or> h = [OpenRoot None])" by (auto simp: openSecure_def Let_def split: if_splits)
  then show ?thesis by (auto simp: held_after_def)
next
  case False
  then obtain root where root: "fe_open F [] = Some root" by auto
  obtain d h2 where o: "open_directories F root (butlast (clean_components path)) [OpenRoot (Some root)] = (d, h2)" by fastforce
  have plain: "list_all plain_part (butlast (clean_components path))" "plain_part (last (clean_components path))"
    using clean_components_plain [of path] False by (auto simp: list_all_iff dest: in_set_butlastD)
  have h2: "held_after h2 = Some (case d of None \<Rightarrow> [] | Some f \<Rightarrow> [f])"
    by (rule open_directories_holds [OF o _ plain(1)]) (simp add: held_after_def)
  show ?thesis
  proof (cases d)
    case None
    with assms False root o h2 show ?thesis by (simp add: openSecure_def)
  next
    case (Some directory)
    with assms False root o have "r = fe_open F h2" "h = h2 @ [OpenFile directory (last (clean_components path)) r, CloseFd directory]"
      by (auto simp: openSecure_def Let_def)
    with h2 Some plain(2) show ?thesis by (cases "fe_open F h2") simp_all
  qed
qed

lemma load_text_run:
  "case load_text F path of (r, h) \<Rightarrow> held_after h = Some [] \<and>
     (case r of Inl e \<Rightarrow> e = ErrConfigUnreadable
      | Inr contents \<Rightarrow> has_prefix path ''/'' \<and> length contents \<le> 65536 \<and>
          (\<exists>pre file info. h = pre @ [StatFd file, ReadFd file 65537, CloseFd file] \<and> held_after pre = Some [file] \<and>
             fe_stat F pre = Some info \<and> fi_regular info \<and> fi_own info \<and> and (fi_Perm info) 63 = 0 \<and> fi_Size info \<le> 65536 \<and>
             fe_read F (pre @ [StatFd file]) = Some contents))"
proof (cases "has_prefix path ''/''")
  case True
  obtain f h where o: "openSecure F path [] = (f, h)" by fastforce
  note held = openSecure_holds [OF o]
  show ?thesis
  proof (cases f)
    case None
    with True o held show ?thesis by (simp add: load_text_def)
  next
    case (Some opened)
    have closed: "held_after (h @ [StatFd opened, CloseFd opened]) = Some []"
      "held_after (h @ [StatFd opened, ReadFd opened 65537, CloseFd opened]) = Some []"
      using held Some by simp_all
    show ?thesis
      using True o held Some closed
      by (auto simp: load_text_def Let_def maxConfigBytes_def split: option.splits)
  qed
qed (simp add: load_text_def)

lemma LoadDrive_held: "LoadDrive F J decode path = (r, h) \<Longrightarrow> held_after h = Some []"
proof -
  assume l: "LoadDrive F J decode path = (r, h)"
  obtain t h' where t: "load_text F path = (t, h')" by fastforce
  have "held_after h' = Some []" using load_text_run [where F = F and path = path] t by simp
  moreover have "h = h'" using l t by (auto simp: LoadDrive_def load_def Let_def split: sum.splits prod.splits option.splits)
  ultimately show ?thesis by simp
qed

text \<open>
  Reading a configuration file goes from the root through one plain component after the other, each opened under
  its predecessor, and leaves no descriptor open, whatever the operating system answers; text is only taken from
  a regular file of the caller's own that nobody else may touch, and never more than 64 KiB of it.
\<close>

theorem load_text_confined:
  "case load_text F path of (r, h) \<Rightarrow> held_after h = Some [] \<and>
     (case r of Inl e \<Rightarrow> e = ErrConfigUnreadable
      | Inr contents \<Rightarrow> has_prefix path ''/'' \<and> length contents \<le> 65536 \<and>
          (\<exists>pre file info. h = pre @ [StatFd file, ReadFd file 65537, CloseFd file] \<and> held_after pre = Some [file] \<and>
             fe_stat F pre = Some info \<and> fi_regular info \<and> fi_own info \<and> and (fi_Perm info) 63 = 0 \<and> fi_Size info \<le> 65536 \<and>
             fe_read F (pre @ [StatFd file]) = Some contents))"
  by (rule load_text_run)

text \<open>
  A Drive configuration that loads has downloads off, a positive byte limit, a timeout whose nanoseconds fit
  64 bits, and only absolute paths; it came from a file that passed the checks, whose text is one strict object.
\<close>

theorem LoadDrive_valid:
  "case LoadDrive F J decode path of (r, h) \<Rightarrow> held_after h = Some [] \<and>
     (case r of Inl e \<Rightarrow> True
      | Inr c \<Rightarrow> \<not> dd_Enabled (dc_Download c) \<and> 0 < dd_MaxBytes (dc_Download c) \<and> 0 < dd_TimeoutSeconds (dc_Download c) \<and>
          dd_TimeoutSeconds (dc_Download c) * 10 ^ 9 < 2 ^ 63 \<and> has_prefix (dc_BinaryPath c) ''/'' \<and>
          list_all (\<lambda>d. has_prefix d ''/'') (dc_AllowedDownloadDirectories c) \<and>
          (\<exists>contents. load_text F path = (Inr contents, h) \<and>
             validateObject (fe_fold_eq F) (fe_decoder F) (if contents = [] then ''{}'' else contents) 65536
               \<lparr>rejectNull = True, foldAliases = True\<rparr>))"
proof -
  obtain t h where t: "load_text F path = (t, h)" by fastforce
  have held: "held_after h = Some []" using load_text_run [where F = F and path = path] t by simp
  show ?thesis
  proof (cases t)
    case (Inl e)
    with t held show ?thesis by (simp add: LoadDrive_def load_def)
  next
    case (Inr contents)
    let ?seed = "\<lparr>dc_BinaryPath = [], dc_AllowedDownloadDirectories = [],
          dc_Download = \<lparr>dd_Enabled = False, dd_MaxBytes = 256 * 1024 * 1024, dd_TimeoutSeconds = 120\<rparr>, dc_WritesEnabled = False\<rparr>"
    show ?thesis
    proof (cases "DecodeObject (fe_fold_eq F) (fe_decoder F) (decode (download_UnmarshalJSON F J) ?seed) contents (int maxConfigBytes)")
      case None
      with t Inr held show ?thesis by (simp add: LoadDrive_def load_def)
    next
      case (Some loaded)
      then have strict: "validateObject (fe_fold_eq F) (fe_decoder F) (if contents = [] then ''{}'' else contents) 65536
          \<lparr>rejectNull = True, foldAliases = True\<rparr>"
        by (auto simp: DecodeObject_def Let_def maxConfigBytes_def split: if_splits)
      have l: "load F (decode (download_UnmarshalJSON F J) ?seed) path = (Inr loaded, h)" using t Inr Some by (simp add: load_def)
      show ?thesis
        using held strict t Inr unfolding LoadDrive_def Let_def l by (auto simp: list_all_iff list_ex_iff)
    qed
  qed
qed

end
