(* ===== verification/Server_Start.thy ===== *)
theory Server_Start
  imports Server_Run Drive_Tools Config_Load
begin

text \<open>
  How the two servers start (\<^verbatim>\<open>cmd/croton-mcp/main.go\<close>, \<^verbatim>\<open>cmd/croton-drive-mcp/main.go\<close>) and what of the Drive
  server's object (\<^verbatim>\<open>internal/drivemcp/server.go\<close>) is not in \<open>Drive_Tools\<close>. \<open>parse\<close> is the \<^verbatim>\<open>flag\<close> package on the one flag:
  its value and the number of arguments left. A start returns what is then served.
\<close>

section \<open>The commands\<close>

datatype start_error =
    InvalidArguments | Usage | ConfigFailed config_error | AdapterFailed code | WritesEnabled | InvalidDriveCLI

type_synonym flag_parser = "bytes list \<Rightarrow> (bytes \<times> nat) option"

definition config_path :: "flag_parser \<Rightarrow> bytes list \<Rightarrow> start_error + bytes" where
  "config_path parse arguments = (case parse arguments of
      None \<Rightarrow> Inl InvalidArguments
    | Some (path, left) \<Rightarrow> if left \<noteq> 0 \<or> path = [] then Inl Usage else Inr path)"

record mail_service =
  ms_Config :: ValidatedConfig
  ms_Triage :: bool
  ms_Audit :: bool

text \<open>\<^verbatim>\<open>NewAdapter\<close> fails where the configuration does, or where no key can be drawn.\<close>

definition NewAdapter :: "trust_env \<Rightarrow> bool \<Rightarrow> bool \<Rightarrow> Config \<Rightarrow> code + ValidatedConfig" where
  "NewAdapter T supported key_drawn input =
     bind_sum (ValidateConfig T supported input) (\<lambda>config. if key_drawn then Inr config else Inl CodeBridgeUnreachable)"

definition mail_start :: "file_env \<Rightarrow> (bytes \<Rightarrow> (Config \<times> bool) option) \<Rightarrow> trust_env \<Rightarrow> bool \<Rightarrow> bool \<Rightarrow> flag_parser \<Rightarrow> bytes list \<Rightarrow>
    (start_error + mail_service) \<times> file_event list" where
  "mail_start F decode T supported key_drawn parse arguments = (case config_path parse arguments of
      Inl e \<Rightarrow> (Inl e, [])
    | Inr path \<Rightarrow> (case Load F decode path of
        (Inl e, h) \<Rightarrow> (Inl (ConfigFailed e), h)
      | (Inr loaded, h) \<Rightarrow> (case NewAdapter T supported key_drawn loaded of
          Inl c \<Rightarrow> (Inl (AdapterFailed c), h)
        | Inr config \<Rightarrow> (Inr \<lparr>ms_Config = config, ms_Triage = cf_Mutations loaded, ms_Audit = cf_Audit loaded\<rparr>, h))))"

definition drive_start :: "file_env \<Rightarrow> download_json \<Rightarrow>
    ((DriveDownload \<Rightarrow> bytes \<Rightarrow> DriveDownload option) \<Rightarrow> DriveConfig \<Rightarrow> bytes \<Rightarrow> (DriveConfig \<times> bool) option) \<Rightarrow> bool \<Rightarrow>
    flag_parser \<Rightarrow> bytes list \<Rightarrow> (start_error + drive_client) \<times> file_event list" where
  "drive_start F J decode supported parse arguments = (case config_path parse arguments of
      Inl e \<Rightarrow> (Inl e, [])
    | Inr path \<Rightarrow> (case LoadDrive F J decode path of
        (Inl e, h) \<Rightarrow> (Inl (ConfigFailed e), h)
      | (Inr loaded, h) \<Rightarrow>
          if dc_WritesEnabled loaded then (Inl WritesEnabled, h)
          else (case newClient supported \<lparr>op_BinaryPath = dc_BinaryPath loaded, op_CacheDir = [], op_CredentialsStore = [],
              op_Timeout = 0, op_MaxBytes = 0\<rparr> of
            Inl c \<Rightarrow> (Inl InvalidDriveCLI, h)
          | Inr client \<Rightarrow> (Inr client, h))))"

section \<open>The Drive server\<close>

definition drive_tools :: "drive_tool list" where
  "drive_tools = [list_drive_entries, get_drive_metadata, get_drive_sharing_status]"

definition drive_allowed_methods :: "bytes list" where
  "drive_allowed_methods = [''initialize'', ''ping'', ''server/discover'', ''tools/list'', ''tools/call'',
     ''notifications/initialized'', ''notifications/cancelled'', ''notifications/progress'']"

text \<open>\<open>None\<close> is the error for a method that is not found.\<close>

definition drive_allowlistMiddleware :: "(bytes \<Rightarrow> 'r \<Rightarrow> 'a option) \<Rightarrow> bytes \<Rightarrow> 'r \<Rightarrow> 'a option" where
  "drive_allowlistMiddleware next_handler method req =
     (if method \<notin> set drive_allowed_methods then None else next_handler method req)"

text \<open>Whether \<^verbatim>\<open>Serve\<close> returns \<^verbatim>\<open>errServerUnavailable\<close>.\<close>

definition drive_Serve :: "run_error option \<Rightarrow> bool" where
  "drive_Serve err = (case err of None \<Rightarrow> False | Some e \<Rightarrow> \<not> (is_EOF e \<or> is_ConnectionClosed e \<or> is_Canceled e))"

section \<open>Properties\<close>

lemma load_ok: "load F decode path = (Inr v, h) \<Longrightarrow> \<exists>contents. load_text F path = (Inr contents, h)"
  by (auto simp: load_def split: prod.splits sum.splits option.splits)

text \<open>The two servers serve the same methods and judge the end of a run alike.\<close>

lemma servers_agree: "drive_allowlistMiddleware = allowlistMiddleware" "drive_Serve err = fst (Serve auditing err)"
  by (auto simp: fun_eq_iff drive_allowlistMiddleware_def allowlistMiddleware_def drive_allowed_methods_def allowed_methods_def
      drive_Serve_def Serve_def)

text \<open>The catalogue has every tool once, under a name of its own that the audit line keeps.\<close>

lemma drive_catalogue:
  "set drive_tools = UNIV" "distinct (map drive_tool_text drive_tools)"
  "list_all (\<lambda>tool. sanitizeDriveTool (drive_tool_text tool) = drive_tool_text tool) drive_tools"
  using drive_tool.exhaust by (auto simp: drive_tools_def sanitizeDriveTool_def)

text \<open>
  The mail server starts only from a configuration file that passed the checks, with values that were
  validated, and offers the writing tools only where the file enables mutations; the Drive server starts only
  with writes off and a client with an absolute binary, the default limits and no other environment.
\<close>

theorem mail_start_checked:
  "case mail_start F decode T supported key_drawn parse arguments of (r, h) \<Rightarrow> held_after h = Some [] \<and>
     (case r of Inl e \<Rightarrow> True
      | Inr s \<Rightarrow> (\<exists>path contents loaded. load_text F path = (Inr contents, h) \<and> fst (Load F decode path) = Inr loaded \<and>
          ValidateConfig T supported loaded = Inr (ms_Config s) \<and> ms_Triage s = cf_Mutations loaded \<and> ms_Audit s = cf_Audit loaded))"
proof (cases "\<exists>path. config_path parse arguments = Inr path")
  case False
  then obtain e where "config_path parse arguments = Inl e" by (cases "config_path parse arguments") auto
  then show ?thesis by (simp add: mail_start_def)
next
  case True
  then obtain path where path: "config_path parse arguments = Inr path" by blast
  obtain t h where t: "load_text F path = (t, h)" by fastforce
  have held: "held_after h = Some []" using load_text_run [where F = F and path = path] t by simp
  have "snd (Load F decode path) = h" using t by (cases t) (simp_all add: Load_def load_def split: option.split)
  then obtain r where l: "Load F decode path = (r, h)" by (metis prod.collapse)
  show ?thesis
  proof (cases r)
    case (Inl e)
    with path l held show ?thesis by (simp add: mail_start_def)
  next
    case (Inr loaded)
    then obtain contents where c: "load_text F path = (Inr contents, h)" using l by (auto simp: Load_def dest: load_ok)
    show ?thesis
    proof (cases "NewAdapter T supported key_drawn loaded")
      case (Inl e)
      with path l Inr held show ?thesis by (simp add: mail_start_def)
    next
      case adapter: (Inr config)
      then have "ValidateConfig T supported loaded = Inr config" by (auto simp: NewAdapter_def split: if_splits)
      with path l Inr held adapter c show ?thesis by (auto simp: mail_start_def)
    qed
  qed
qed

theorem drive_start_checked:
  "case drive_start F J decode supported parse arguments of (r, h) \<Rightarrow> held_after h = Some [] \<and>
     (case r of Inl e \<Rightarrow> True
      | Inr client \<Rightarrow> has_prefix (cl_binaryPath client) ''/'' \<and> cl_cacheDir client = [] \<and> cl_credentialsStore client = [] \<and>
          cl_timeout client = defaultTimeout \<and> cl_maxBytes client = defaultMaxBytes \<and>
          (\<exists>path loaded. fst (LoadDrive F J decode path) = Inr loaded \<and> \<not> dc_WritesEnabled loaded \<and>
             cl_binaryPath client = dc_BinaryPath loaded))"
proof (cases "\<exists>path. config_path parse arguments = Inr path")
  case False
  then obtain e where "config_path parse arguments = Inl e" by (cases "config_path parse arguments") auto
  then show ?thesis by (simp add: drive_start_def)
next
  case True
  then obtain path where path: "config_path parse arguments = Inr path" by blast
  obtain r h where l: "LoadDrive F J decode path = (r, h)" by fastforce
  then have held: "held_after h = Some []" using LoadDrive_held by metis
  show ?thesis
  proof (cases r)
    case (Inl e)
    with path l held show ?thesis by (simp add: drive_start_def)
  next
    case (Inr loaded)
    then have "fst (LoadDrive F J decode path) = Inr loaded" using l by simp
    then have loads: "\<exists>path l. fst (LoadDrive F J decode path) = Inr l \<and> \<not> dc_WritesEnabled l \<and>
        dc_BinaryPath loaded = dc_BinaryPath l" if "\<not> dc_WritesEnabled loaded" using that by blast
    show ?thesis
    proof (cases "dc_WritesEnabled loaded \<or> \<not> supported \<or> \<not> isAbs (dc_BinaryPath loaded)")
      case True
      with path l Inr held show ?thesis by (auto simp: drive_start_def newClient_def)
    next
      case False
      then have "\<exists>path l. fst (LoadDrive F J decode path) = Inr l \<and> \<not> dc_WritesEnabled l \<and>
        dc_BinaryPath loaded = dc_BinaryPath l" by (intro loads) simp
      with False path l Inr held show ?thesis by (simp add: drive_start_def newClient_def isAbs_def)
    qed
  qed
qed

end
