(* ===== verification/Fixture_Grammar.thy ===== *)
theory Fixture_Grammar
  imports Go_Text Search_Wire
begin

text \<open>
  The grammar of the mutable IMAP server that the tests drive (\<^verbatim>\<open>internal/testkit/stateful.go\<close>): the tokens of a
  command, UID sets, LIST patterns, the literal at the end of a line, and the names and atoms of a seed. The errors
  of the tokens are the texts that go on the wire.
\<close>

section \<open>Names and atoms\<close>

definition isAtom :: "bytes \<Rightarrow> bool" where
  "isAtom value \<longleftrightarrow> value \<noteq> [] \<and> list_all (\<lambda>c. 32 < byte_val c \<and> byte_val c < 127 \<and>
     c \<notin> set [CHR ''('', CHR '')'', CHR ''{'', CHR ''%'', CHR ''*'', DQUOTE, BACKSLASH, CHR '']'']) value"

definition validateMailboxName :: "bytes \<Rightarrow> bool" where
  "validateMailboxName name \<longleftrightarrow> name \<noteq> [] \<and> list_all (\<lambda>c. 32 \<le> byte_val c \<and> byte_val c \<le> 126 \<and>
     c \<notin> set [DQUOTE, BACKSLASH, CHR ''*'', CHR ''%'']) name"

text \<open>The atoms are ASCII when they are compared, so \<^verbatim>\<open>strings.ToLower\<close> maps their bytes.\<close>

fun atoms_from :: "bool \<Rightarrow> bytes set \<Rightarrow> bytes list \<Rightarrow> bool" where
  "atoms_from requireBackslash seen [] = True"
| "atoms_from requireBackslash seen (value # values) =
     (let atom = trim_prefix value [BACKSLASH] in
      if atom = [] \<or> (requireBackslash \<and> \<not> has_prefix value [BACKSLASH]) \<or> \<not> isAtom atom then False
      else if map ascii_lower value \<in> seen then False
      else atoms_from requireBackslash (insert (map ascii_lower value) seen) values)"

definition validateAtoms :: "bytes list \<Rightarrow> bool \<Rightarrow> bytes list option" where
  "validateAtoms values requireBackslash = (if atoms_from requireBackslash {} values then Some values else None)"

definition mailboxNameMatches :: "bytes \<Rightarrow> bytes \<Rightarrow> bool" where
  "mailboxNameMatches stored requested =
     (if equal_fold stored ''INBOX'' then equal_fold requested ''INBOX'' else stored = requested)"

definition selectableAttributes :: "bytes list \<Rightarrow> bool" where
  "selectableAttributes attributes =
     list_all (\<lambda>a. \<not> (equal_fold a (BACKSLASH # ''Noselect'') \<or> equal_fold a (BACKSLASH # ''NonExistent''))) attributes"

definition quoteMailbox :: "bytes \<Rightarrow> bytes" where
  "quoteMailbox name = DQUOTE # name @ [DQUOTE]"

section \<open>Tokens\<close>

datatype imapToken = Token bytes (is_quoted: bool) | ListToken (token_list: "imapToken list")

fun token_value :: "imapToken \<Rightarrow> bytes" where
  "token_value (Token v q) = v"
| "token_value (ListToken l) = []"

definition is_list :: "imapToken \<Rightarrow> bool" where
  "is_list t \<longleftrightarrow> (case t of ListToken l \<Rightarrow> True | _ \<Rightarrow> False)"

lemma is_list_simps [simp]: "is_list (ListToken l)" "\<not> is_list (Token v q)"
  by (simp_all add: is_list_def)

text \<open>\<open>quoted\<close> is false of a list.\<close>

definition token_quoted :: "imapToken \<Rightarrow> bool" where
  "token_quoted t \<longleftrightarrow> (case t of Token v q \<Rightarrow> q | ListToken l \<Rightarrow> False)"

lemma token_quoted_simps [simp]: "token_quoted (Token v q) = q" "\<not> token_quoted (ListToken l)"
  by (simp_all add: token_quoted_def)

fun readQuoted :: "bytes \<Rightarrow> bytes \<Rightarrow> bytes + bytes \<times> bytes" where
  "readQuoted value [] = Inl ''unterminated quoted string''"
| "readQuoted value (c # s) =
     (if c = DQUOTE then Inr (value, s)
      else if c = BACKSLASH then
        (case s of [] \<Rightarrow> Inl ''malformed quoted string''
         | d # s' \<Rightarrow> if d \<noteq> DQUOTE \<and> d \<noteq> BACKSLASH then Inl ''malformed quoted string'' else readQuoted (value @ [d]) s')
      else readQuoted (value @ [c]) s)"

lemma readQuoted_shorter: "readQuoted value s = Inr (v, r) \<Longrightarrow> length r < length s"
  by (induction "value" s rule: readQuoted.induct) (auto split: if_splits list.splits)

text \<open>An atom, the text after it and the depth of brackets where it ended.\<close>

fun atom_scan :: "int \<Rightarrow> bytes \<Rightarrow> bytes \<times> bytes \<times> int" where
  "atom_scan depth [] = ([], [], depth)"
| "atom_scan depth (c # s) =
     (if 0 < depth \<or> c \<notin> {SP, CHR ''('', CHR '')''} then
        (case atom_scan (if c = CHR ''['' then depth + 1 else if c = CHR '']'' then depth - 1 else depth) s of
           (atom, rest, d) \<Rightarrow> (c # atom, rest, d))
      else ([], c # s, depth))"

lemma atom_scan_split: "atom_scan depth s = (atom, rest, d) \<Longrightarrow> s = atom @ rest"
  by (induction depth s arbitrary: atom rest d rule: atom_scan.induct) (auto split: if_splits prod.splits)

lemma atom_scan_shorter:
  assumes "atom_scan depth (c # s) = (atom, rest, d)" and "c \<notin> {SP, CHR ''('', CHR '')''}"
  shows "length rest \<le> length s"
proof -
  obtain atom' where "atom = c # atom'" using assms by (auto split: prod.splits if_splits)
  with atom_scan_split [OF assms(1)] show ?thesis by simp
qed

lemma dropWhile_Cons_shorter: "c # t = dropWhile P s \<Longrightarrow> length t < length s"
  using length_dropWhile_le [of P s] by (metis length_Cons Suc_le_lessD)

text \<open>
  \<^verbatim>\<open>tokenizeList\<close>. The text that a parenthesized list leaves is shorter than its input (\<open>tokenizeList_shorter\<close>), so
  the error after that comparison never occurs; it only bounds the recursion.
\<close>

function tokenizeList :: "bool \<Rightarrow> imapToken list \<Rightarrow> bytes \<Rightarrow> bytes + imapToken list \<times> bytes" where
  "tokenizeList nested tokens input0 =
     (let input = dropWhile (\<lambda>c. c = SP) input0 in
      case input of
        [] \<Rightarrow> if nested then Inl ''unbalanced parentheses'' else Inr (tokens, [])
      | c # s \<Rightarrow>
        if c = CHR '')'' then (if \<not> nested then Inr ([], input) else Inr (tokens, s))
        else if c = CHR ''('' then
          (case tokenizeList True [] s of
             Inl e \<Rightarrow> Inl e
           | Inr (list, rest) \<Rightarrow>
             if length s < length rest then Inl [] else tokenizeList nested (tokens @ [ListToken list]) rest)
        else if c = DQUOTE then
          (case readQuoted [] s of
             Inl e \<Rightarrow> Inl e
           | Inr (value, rest) \<Rightarrow> tokenizeList nested (tokens @ [Token value True]) rest)
        else case atom_scan 0 input of (atom, rest, depth) \<Rightarrow>
          if depth \<noteq> 0 then Inl ''unbalanced brackets''
          else tokenizeList nested (tokens @ [Token atom False]) rest)"
  by pat_completeness auto
termination
proof (relation "measure (\<lambda>(nested, tokens, s). length s)", goal_cases)
  case 1 then show ?case by simp
next
  case (2 nested tokens input0 input c s)
  then show ?case using dropWhile_Cons_shorter by simp
next
  case (3 nested tokens input0 input c s l p rest)
  then have "length s < length input0" "length rest \<le> length s" using dropWhile_Cons_shorter by auto
  then show ?case by simp
next
  case (4 nested tokens input0 input c s l p rest)
  then have "length s < length input0" "length rest < length s" using dropWhile_Cons_shorter readQuoted_shorter by auto
  then show ?case by simp
next
  case (5 nested tokens input0 input c s atom p rest depth)
  then have i: "input = c # s" "length s < length input0" using dropWhile_Cons_shorter by auto
  have "c \<noteq> SP" using 5 i hd_dropWhile [of "\<lambda>c. c = SP" input0] by (metis list.discI list.sel(1))
  have scan: "atom_scan 0 (c # s) = (atom, rest, depth)" using 5 i by metis
  have "c \<notin> {SP, CHR ''('', CHR '')''}" using 5 \<open>c \<noteq> SP\<close> by simp
  from atom_scan_shorter [OF scan this]
  show ?case using i by simp
qed

declare tokenizeList.simps [simp del]

lemma tokenizeList_shorter:
  "tokenizeList nested tokens s = Inr (l, rest) \<Longrightarrow> length rest \<le> length s \<and> (nested \<longrightarrow> length rest < length s)"
proof (induction nested tokens s arbitrary: l rest rule: tokenizeList.induct)
  case (1 nested tokens input0)
  define input where "input = dropWhile (\<lambda>c. c = SP) input0"
  have le: "length input \<le> length input0" unfolding input_def by (rule length_dropWhile_le)
  note unfolded = "1.prems" [unfolded tokenizeList.simps [of nested tokens input0] Let_def input_def [symmetric]]
  show ?case
  proof (cases input)
    case Nil
    with unfolded show ?thesis by (auto split: if_splits)
  next
    case (Cons c s)
    with le have s: "length s < length input0" by simp
    consider "c = CHR '')''" | "c = CHR ''(''" | "c = DQUOTE" | "c \<noteq> CHR '')''" "c \<noteq> CHR ''(''" "c \<noteq> DQUOTE" by blast
    then show ?thesis
    proof cases
      case 1
      with unfolded Cons s show ?thesis by (auto split: if_splits)
    next
      case 2
      with unfolded Cons obtain list r where r: "tokenizeList True [] s = Inr (list, r)" "\<not> length s < length r"
        "tokenizeList nested (tokens @ [ListToken list]) r = Inr (l, rest)" by (auto split: sum.splits if_splits)
      from "1.IH"(2) [OF input_def Cons _ 2 r(1) refl r(2,3)] 2 s r(2) show ?thesis by simp
    next
      case 3
      with unfolded Cons obtain v r where r: "readQuoted [] s = Inr (v, r)"
        "tokenizeList nested (tokens @ [Token v True]) r = Inr (l, rest)" by (auto split: sum.splits)
      from "1.IH"(3) [OF input_def Cons _ _ 3 r(1) refl r(2)] 3 s readQuoted_shorter [OF r(1)] show ?thesis by simp
    next
      case 4
      obtain atom r depth where a: "atom_scan 0 input = (atom, r, depth)" by (metis prod_cases3)
      with unfolded Cons 4 have r: "depth = 0" "tokenizeList nested (tokens @ [Token atom False]) r = Inr (l, rest)"
        by (simp_all only: list.case if_False prod.case sum.simps split: if_splits)
      have "c \<noteq> SP" using hd_dropWhile [of "\<lambda>c. c = SP" input0] Cons unfolding input_def by (metis list.discI list.sel(1))
      with atom_scan_shorter a Cons 4 have "length r \<le> length s" by blast
      with "1.IH"(4) [OF input_def Cons 4 a [symmetric] refl _ r(2)] r(1) s show ?thesis by simp
    qed
  qed
qed

text \<open>\<^verbatim>\<open>tokenizeArguments\<close>: what stands after the second space.\<close>

definition tokenizeArguments :: "bytes \<Rightarrow> bytes + imapToken list" where
  "tokenizeArguments raw = (case cut_byte SP raw of (f0, r1, found1) \<Rightarrow>
     if \<not> found1 then Inr []
     else case cut_byte SP r1 of (f1, r2, found2) \<Rightarrow>
       if \<not> found2 then Inr []
       else (case tokenizeList False [] r2 of
           Inl e \<Rightarrow> Inl e
         | Inr (tokens, rest) \<Rightarrow> if rest \<noteq> [] then Inl ''unbalanced parentheses'' else Inr tokens))"

text \<open>\<open>trailingLiteral\<close>: whether a line ends in a literal, and whether that does not wait for the server.\<close>

definition trailingLiteral :: "bytes \<Rightarrow> bool option" where
  "trailingLiteral raw = (case rev raw of
      [] \<Rightarrow> None
    | c # r \<Rightarrow>
        if c \<noteq> CHR ''}'' then None
        else let plus = (r \<noteq> [] \<and> hd r = CHR ''+''); r = (if plus then tl r else r) in
          if takeWhile is_digit r = [] then None
          else (case dropWhile is_digit r of d # _ \<Rightarrow> if d = CHR ''{'' then Some plus else None | [] \<Rightarrow> None))"

section \<open>UID sets\<close>

text \<open>A range of UIDs is its \<open>start\<close> and \<open>end\<close>; \<open>*\<close> stands for the largest UID present.\<close>

type_synonym fixture_range = "uint32 \<times> uint32"

definition parseUIDSetNumber :: "bytes \<Rightarrow> uint32 \<Rightarrow> uint32 option" where
  "parseUIDSetNumber txt largest =
     (if txt = ''*'' then Some largest
      else case parse_uint 32 txt of None \<Rightarrow> None | Some v \<Rightarrow> if v = 0 then None else Some (of_nat v))"

fun uid_spans :: "uint32 \<Rightarrow> bytes list \<Rightarrow> fixture_range list option" where
  "uid_spans largest [] = Some []"
| "uid_spans largest (span # spans) =
     (case cut_byte (CHR '':'') span of (startText, endText0, isRange) \<Rightarrow>
        let endText = (if isRange then endText0 else startText) in
        case (parseUIDSetNumber startText largest, parseUIDSetNumber endText largest) of
          (Some s, Some e) \<Rightarrow> map_option ((#) (if e < s then (e, s) else (s, e))) (uid_spans largest spans)
        | _ \<Rightarrow> None)"

definition parseUIDSet :: "imapToken \<Rightarrow> uint32 \<Rightarrow> bytes + fixture_range list" where
  "parseUIDSet token largest =
     (if is_list token \<or> token_quoted token \<or> token_value token = [] then Inl ''malformed UID set''
      else case uid_spans largest (split_byte (CHR '','') (token_value token)) of
        None \<Rightarrow> Inl ''malformed UID set'' | Some ranges \<Rightarrow> Inr ranges)"

definition uidInRanges :: "uint32 \<Rightarrow> fixture_range list \<Rightarrow> bool" where
  "uidInRanges uid ranges \<longleftrightarrow> list_ex (\<lambda>span. fst span \<le> uid \<and> uid \<le> snd span) ranges"

section \<open>LIST patterns\<close>

text \<open>The loop over what a wildcard takes, with the rest of the pattern as \<open>m\<close>.\<close>

fun wildcard :: "(bytes \<Rightarrow> bool) \<Rightarrow> char \<Rightarrow> bytes \<Rightarrow> bool" where
  "wildcard m p name = (m name \<or> (case name of [] \<Rightarrow> False | c # s \<Rightarrow> if p = CHR ''%'' \<and> c = CHR ''/'' then False else wildcard m p s))"

primrec listPatternMatches :: "bytes \<Rightarrow> bytes \<Rightarrow> bool" where
  "listPatternMatches [] = (\<lambda>name. name = [])"
| "listPatternMatches (p # pattern) = (\<lambda>name.
     if p = CHR ''*'' \<or> p = CHR ''%'' then wildcard (listPatternMatches pattern) p name
     else name \<noteq> [] \<and> hd name = p \<and> listPatternMatches pattern (tl name))"

text \<open>What a pattern matches: \<open>*\<close> any text, \<open>%\<close> any text without the hierarchy delimiter.\<close>

inductive pattern_matches :: "bytes \<Rightarrow> bytes \<Rightarrow> bool" where
  "pattern_matches [] []"
| "pattern_matches pattern name \<Longrightarrow> pattern_matches (CHR ''*'' # pattern) (taken @ name)"
| "pattern_matches pattern name \<Longrightarrow> CHR ''/'' \<notin> set taken \<Longrightarrow> pattern_matches (CHR ''%'' # pattern) (taken @ name)"
| "pattern_matches pattern name \<Longrightarrow> c \<notin> {CHR ''*'', CHR ''%''} \<Longrightarrow> pattern_matches (c # pattern) (c # name)"

inductive_cases pattern_NilE: "pattern_matches [] name"
inductive_cases pattern_ConsE: "pattern_matches (p # pattern) name"

lemma ex_split_Cons:
  "(\<exists>taken rest. c # s = taken @ rest \<and> m rest \<and> Q taken) \<longleftrightarrow> (m (c # s) \<and> Q []) \<or> (\<exists>taken rest. s = taken @ rest \<and> m rest \<and> Q (c # taken))"
  by (auto simp: Cons_eq_append_conv)

lemma wildcard_split:
  "wildcard m p name \<longleftrightarrow> (\<exists>taken rest. name = taken @ rest \<and> m rest \<and> (p = CHR ''%'' \<longrightarrow> CHR ''/'' \<notin> set taken))"
proof (induction name)
  case Nil
  then show ?case by simp
next
  case (Cons c s)
  have "(\<exists>taken rest. c # s = taken @ rest \<and> m rest \<and> (p = CHR ''%'' \<longrightarrow> CHR ''/'' \<notin> set taken)) \<longleftrightarrow>
    m (c # s) \<or> (\<exists>taken rest. s = taken @ rest \<and> m rest \<and> (p = CHR ''%'' \<longrightarrow> CHR ''/'' \<notin> set (c # taken)))"
    by (simp only: ex_split_Cons) simp
  with Cons show ?case by (subst wildcard.simps) auto
qed

declare wildcard.simps [simp del]

lemma listPatternMatches_exact: "listPatternMatches pattern name \<longleftrightarrow> pattern_matches pattern name"
proof (induction pattern arbitrary: name)
  case Nil
  then show ?case by (auto intro: pattern_matches.intros elim: pattern_NilE)
next
  case (Cons p pattern)
  show ?case
  proof
    assume "listPatternMatches (p # pattern) name"
    then show "pattern_matches (p # pattern) name"
    proof (cases "p = CHR ''*'' \<or> p = CHR ''%''")
      case True
      with \<open>listPatternMatches (p # pattern) name\<close> Cons show ?thesis
        by (auto simp: wildcard_split intro: pattern_matches.intros)
    next
      case False
      with \<open>listPatternMatches (p # pattern) name\<close> Cons show ?thesis
        by (cases name) (auto intro: pattern_matches.intros)
    qed
  next
    assume "pattern_matches (p # pattern) name"
    then have "\<exists>taken rest. name = taken @ rest \<and> listPatternMatches pattern rest \<and>
        (if p = CHR ''*'' \<or> p = CHR ''%'' then p = CHR ''%'' \<longrightarrow> CHR ''/'' \<notin> set taken else taken = [p])"
      unfolding Cons by (cases rule: pattern_ConsE) (fastforce intro: exI [of _ "[p]"])+
    then obtain taken rest where name: "name = taken @ rest" "listPatternMatches pattern rest"
      "if p = CHR ''*'' \<or> p = CHR ''%'' then p = CHR ''%'' \<longrightarrow> CHR ''/'' \<notin> set taken else taken = [p]" by blast
    then show "listPatternMatches (p # pattern) name"
      using wildcard_split [of "listPatternMatches pattern" p name] by (auto split: if_splits)
  qed
qed

end
