(* ===== verification/Fixture_Mailboxes.thy ===== *)
theory Fixture_Mailboxes
  imports Fixture_Grammar
begin

text \<open>
  The mutable mailboxes of the test server (\<^verbatim>\<open>internal/testkit/stateful.go\<close>) with the commands that read and
  change them. Every command holds the lock of the store, so it is one function of the store. Writes to the client
  succeed: a failed one only ends the connection, after the change. A reply is the list of its lines.
\<close>

section \<open>The store\<close>

record statefulMessage =
  fm_uid :: uint32
  fm_flags :: "bytes list"
  fm_body :: bytes

record statefulMailbox =
  fb_name :: bytes
  fb_attributes :: "bytes list"
  fb_uidValidity :: uint32
  fb_uidNext :: uint32
  fb_messages :: "statefulMessage list"

record mailboxStore =
  fs_move :: bool
  fs_mailboxes :: "statefulMailbox list"

record statefulSession =
  sl_selected :: bytes
  sl_readOnly :: bool

record MessageSeed =
  sd_UID :: uint32
  sd_Flags :: "bytes list"
  sd_Body :: bytes

record MailboxSeed =
  sx_Name :: bytes
  sx_Attributes :: "bytes list"
  sx_UIDValidity :: uint32
  sx_Messages :: "MessageSeed list"

text \<open>\<^verbatim>\<open>store.find\<close> as the position of the mailbox, which stands for the pointer.\<close>

fun find_name :: "('a \<Rightarrow> bytes) \<Rightarrow> 'a list \<Rightarrow> bytes \<Rightarrow> nat option" where
  "find_name name_of [] name = None"
| "find_name name_of (m # ms) name = (if mailboxNameMatches (name_of m) name then Some 0 else map_option Suc (find_name name_of ms name))"

definition message_seen :: "statefulMessage \<Rightarrow> bool" where
  "message_seen m = list_ex (\<lambda>f. equal_fold f (BACKSLASH # ''Seen'')) (fm_flags m)"

definition setSeen :: "bool \<Rightarrow> statefulMessage \<Rightarrow> statefulMessage" where
  "setSeen seen m =
     (if message_seen m = seen then m
      else if seen then m\<lparr>fm_flags := fm_flags m @ [BACKSLASH # ''Seen'']\<rparr>
      else m\<lparr>fm_flags := filter (\<lambda>f. \<not> equal_fold f (BACKSLASH # ''Seen'')) (fm_flags m)\<rparr>)"

definition unseen :: "statefulMailbox \<Rightarrow> nat" where
  "unseen b = length (filter (\<lambda>m. \<not> message_seen m) (fb_messages b))"

definition maxUID :: "statefulMailbox \<Rightarrow> uint32" where
  "maxUID b = (if fb_messages b = [] then 0 else fm_uid (last (fb_messages b)))"

section \<open>Seeding\<close>

fun seed_messages :: "uint32 \<Rightarrow> MessageSeed list \<Rightarrow> (statefulMessage list \<times> uint32) option" where
  "seed_messages previous [] = Some ([], previous)"
| "seed_messages previous (seed # seeds) =
     (let uid = (if sd_UID seed = 0 then previous + 1 else sd_UID seed) in
      if uid \<le> previous then None
      else if uid = 0xFFFFFFFF then None
      else case validateAtoms (sd_Flags seed) False of None \<Rightarrow> None
      | Some flags \<Rightarrow> (case seed_messages uid seeds of None \<Rightarrow> None
        | Some (ms, final) \<Rightarrow> Some (\<lparr>fm_uid = uid, fm_flags = flags, fm_body = sd_Body seed\<rparr> # ms, final)))"

fun seed_mailboxes :: "nat \<Rightarrow> statefulMailbox list \<Rightarrow> MailboxSeed list \<Rightarrow> statefulMailbox list option" where
  "seed_mailboxes index boxes [] = Some boxes"
| "seed_mailboxes index boxes (seed # seeds) =
     (if \<not> validateMailboxName (sx_Name seed) then None
      else if find_name fb_name boxes (sx_Name seed) \<noteq> None then None
      else case validateAtoms (sx_Attributes seed) True of None \<Rightarrow> None
      | Some attributes \<Rightarrow> (case seed_messages 0 (sx_Messages seed) of None \<Rightarrow> None
        | Some (ms, previous) \<Rightarrow> seed_mailboxes (index + 1) (boxes @ [\<lparr>fb_name = sx_Name seed, fb_attributes = attributes,
            fb_uidValidity = (if sx_UIDValidity seed = 0 then of_nat (1001 + index) else sx_UIDValidity seed),
            fb_uidNext = previous + 1, fb_messages = ms\<rparr>]) seeds))"

definition newMailboxStore :: "bool \<Rightarrow> MailboxSeed list \<Rightarrow> mailboxStore option" where
  "newMailboxStore move seeds = map_option (\<lambda>boxes. \<lparr>fs_move = move, fs_mailboxes = boxes\<rparr>) (seed_mailboxes 0 [] seeds)"

section \<open>Replies\<close>

definition tagged :: "bytes \<Rightarrow> bytes \<Rightarrow> bytes" where
  "tagged tag response = tag @ SP # response"

definition refused :: "bytes \<Rightarrow> bytes \<Rightarrow> bytes" where
  "refused tag command = tagged tag (''NO [CANNOT] '' @ command @ '' is refused by the stateful fixture'')"

abbreviation show_uid :: "uint32 \<Rightarrow> bytes" where "show_uid u \<equiv> format_uint (unat u)"

definition listLines :: "bytes \<Rightarrow> imapToken list \<Rightarrow> statefulMailbox list \<Rightarrow> bytes list" where
  "listLines tag arguments boxes = (case arguments of
      [reference, pattern] \<Rightarrow>
        if is_list reference \<or> is_list pattern then [tagged tag ''BAD LIST requires a reference and a pattern'']
        else if token_value reference \<noteq> [] then [tagged tag ''BAD only an empty LIST reference is supported'']
        else if token_value pattern = [] then [''* LIST ('' @ BACKSLASH # ''Noselect) '' @ quoteMailbox ''/'' @ SP # quoteMailbox [], tagged tag ''OK LIST completed'']
        else map (\<lambda>b. ''* LIST ('' @ join_byte SP (fb_attributes b) @ '') '' @ quoteMailbox ''/'' @ SP # quoteMailbox (fb_name b))
            (filter (\<lambda>b. listPatternMatches (token_value pattern) (fb_name b) \<or> mailboxNameMatches (fb_name b) (token_value pattern)) boxes)
          @ [tagged tag ''OK LIST completed'']
    | _ \<Rightarrow> [tagged tag ''BAD LIST requires a reference and a pattern''])"

fun status_items :: "statefulMailbox \<Rightarrow> imapToken list \<Rightarrow> bytes + bytes list" where
  "status_items b [] = Inr []"
| "status_items b (item # items) =
     (let upper = to_upper (token_value item); then_items = (\<lambda>s. map_sum id ((#) s) (status_items b items)) in
      if is_list item \<or> token_quoted item then Inl ''BAD malformed STATUS item''
      else if upper = ''MESSAGES'' then then_items (''MESSAGES '' @ format_uint (length (fb_messages b)))
      else if upper = ''UIDNEXT'' then then_items (''UIDNEXT '' @ show_uid (fb_uidNext b))
      else if upper = ''UIDVALIDITY'' then then_items (''UIDVALIDITY '' @ show_uid (fb_uidValidity b))
      else if upper = ''UNSEEN'' then then_items (''UNSEEN '' @ format_uint (unseen b))
      else Inl ''BAD unsupported STATUS item'')"

definition statusLines :: "bytes \<Rightarrow> imapToken list \<Rightarrow> (bytes \<Rightarrow> statefulMailbox option) \<Rightarrow> bytes list" where
  "statusLines tag arguments find_box = (case arguments of
      [mailbox, ListToken (item # items)] \<Rightarrow>
        if is_list mailbox then [tagged tag ''BAD STATUS requires a mailbox and an item list'']
        else (case find_box (token_value mailbox) of
            None \<Rightarrow> [tagged tag ''NO mailbox does not exist or is not selectable'']
          | Some b \<Rightarrow>
            if \<not> selectableAttributes (fb_attributes b) then [tagged tag ''NO mailbox does not exist or is not selectable'']
            else (case status_items b (item # items) of
                Inl e \<Rightarrow> [tagged tag e]
              | Inr shown \<Rightarrow> [''* STATUS '' @ quoteMailbox (fb_name b) @ '' ('' @ join_byte SP shown @ '')'', tagged tag ''OK STATUS completed'']))
    | _ \<Rightarrow> [tagged tag ''BAD STATUS requires a mailbox and an item list''])"

section \<open>SEARCH and FETCH\<close>

fun search_criteria :: "uint32 \<Rightarrow> imapToken list \<Rightarrow> bytes + (statefulMessage \<Rightarrow> bool) list" where
  "search_criteria largest [] = Inr []"
| "search_criteria largest (argument # arguments) =
     (if is_list argument \<or> token_quoted argument then Inl ''BAD unsupported search grammar''
      else let upper = to_upper (token_value argument) in
        if upper = ''ALL'' then search_criteria largest arguments
        else if upper = ''SEEN'' then map_sum id ((#) message_seen) (search_criteria largest arguments)
        else if upper = ''UNSEEN'' then map_sum id ((#) (\<lambda>m. \<not> message_seen m)) (search_criteria largest arguments)
        else if upper = ''UID'' then (case arguments of
            [] \<Rightarrow> Inl ''BAD UID search key requires a set''
          | uids # arguments' \<Rightarrow> (case parseUIDSet uids largest of
              Inl e \<Rightarrow> Inl (''BAD '' @ e)
            | Inr ranges \<Rightarrow> map_sum id ((#) (\<lambda>m. uidInRanges (fm_uid m) ranges)) (search_criteria largest arguments')))
        else Inl ''BAD unsupported search key'')"

definition statefulSearch :: "statefulMailbox \<Rightarrow> bytes \<Rightarrow> imapToken list \<Rightarrow> bytes list" where
  "statefulSearch b tag arguments =
     (if arguments = [] then [tagged tag ''BAD missing search criteria'']
      else case search_criteria (maxUID b) arguments of
        Inl e \<Rightarrow> [tagged tag e]
      | Inr criteria \<Rightarrow>
          [''* SEARCH'' @ concat (map (\<lambda>m. SP # show_uid (fm_uid m)) (filter (\<lambda>m. list_all (\<lambda>c. c m) criteria) (fb_messages b))),
           tagged tag ''OK SEARCH completed''])"

text \<open>\<open>bodyPeekItem\<close>: the section, and the offset and size of a partial.\<close>

definition bodyPeekItem :: "bytes \<Rightarrow> (bytes \<times> (bytes \<times> bytes) option) option" where
  "bodyPeekItem upper =
     (if \<not> has_prefix upper ''BODY.PEEK['' then None
      else case cut_byte (CHR '']'') (drop 10 upper) of (sect, rest, found) \<Rightarrow>
        if \<not> found \<or> sect \<notin> {[], ''HEADER'', ''TEXT''} then None
        else if rest = [] then Some (sect, None)
        else if hd rest \<noteq> CHR ''<'' \<or> last rest \<noteq> CHR ''>'' then None
        else case cut_byte (CHR ''.'') (butlast (tl rest)) of (offset, size0, dot) \<Rightarrow>
          if dot \<and> offset \<noteq> [] \<and> list_all is_digit offset \<and> size0 \<noteq> [] \<and> list_all is_digit size0
          then Some (sect, Some (offset, size0)) else None)"

definition parsePartial :: "bytes \<times> bytes \<Rightarrow> (nat \<times> nat) option" where
  "parsePartial p = (case (parse_uint 32 (fst p), parse_uint 32 (snd p)) of
      (Some offset, Some size0) \<Rightarrow> if 0 < size0 then Some (offset, size0) else None
    | _ \<Rightarrow> None)"

text \<open>\<^verbatim>\<open>strings.Cut\<close> at the first empty line.\<close>

fun cut_header :: "bytes \<Rightarrow> bytes \<times> bytes \<times> bool" where
  "cut_header s = (if has_prefix s (CRLF @ CRLF) then ([], drop 4 s, True)
     else case s of [] \<Rightarrow> ([], [], False) | c # t \<Rightarrow> (case cut_header t of (h, b, found) \<Rightarrow> (c # h, b, found)))"

declare cut_header.simps [simp del]

definition bodyPeekResponse :: "bytes \<Rightarrow> bytes \<times> (bytes \<times> bytes) option \<Rightarrow> bytes" where
  "bodyPeekResponse body m = (case cut_header body of (header, txt, found) \<Rightarrow>
     let literal = (if fst m = ''HEADER'' then header @ CRLF @ CRLF
           else if fst m = ''TEXT'' then (if found then txt else []) else body);
         label = ''BODY['' @ fst m @ '']'';
         (literal, label) = (case Option.bind (snd m) parsePartial of
             None \<Rightarrow> (literal, label)
           | Some (offset, size0) \<Rightarrow>
               let start = min offset (length literal); stop = start + min size0 (length literal - start) in
               (drop start (take stop literal), label @ ''<'' @ format_uint offset @ ''>''))
     in label @ '' {'' @ format_uint (length literal) @ ''}'' @ CRLF @ literal)"

definition fetch_item_error :: "imapToken \<Rightarrow> bytes option" where
  "fetch_item_error item =
     (let upper = to_upper (token_value item) in
      if is_list item \<or> token_quoted item \<or>
        (upper \<notin> {''UID'', ''FLAGS'', ''RFC822.SIZE'', ''INTERNALDATE''} \<and> bodyPeekItem upper = None)
      then Some ''BAD unsupported FETCH item''
      else case bodyPeekItem upper of
        Some (sect, Some partial) \<Rightarrow>
          if parsePartial partial = None then Some ''BAD partial range must be a 32-bit offset and nonzero size'' else None
      | _ \<Rightarrow> None)"

definition fetch_part :: "statefulMessage \<Rightarrow> imapToken \<Rightarrow> bytes list" where
  "fetch_part m item =
     (let upper = to_upper (token_value item) in
      if upper = ''UID'' then []
      else if upper = ''FLAGS'' then [''FLAGS ('' @ join_byte SP (fm_flags m) @ '')'']
      else if upper = ''RFC822.SIZE'' then [''RFC822.SIZE '' @ format_uint (length (fm_body m))]
      else if upper = ''INTERNALDATE'' then [''INTERNALDATE '' @ quoteMailbox ''01-Jan-2026 00:00:00 +0000'']
      else case bodyPeekItem upper of None \<Rightarrow> [] | Some p \<Rightarrow> [bodyPeekResponse (fm_body m) p])"

text \<open>The messages in the ranges with their sequence numbers.\<close>

definition addressed :: "fixture_range list \<Rightarrow> statefulMessage list \<Rightarrow> (nat \<times> statefulMessage) list" where
  "addressed ranges ms = filter (\<lambda>(n, m). uidInRanges (fm_uid m) ranges) (List.enumerate 1 ms)"

definition statefulFetch :: "statefulMailbox \<Rightarrow> bytes \<Rightarrow> imapToken list \<Rightarrow> bytes list" where
  "statefulFetch b tag arguments = (case arguments of
      [uids, wanted] \<Rightarrow> (case parseUIDSet uids (maxUID b) of
          Inl e \<Rightarrow> [tagged tag (''BAD '' @ e)]
        | Inr ranges \<Rightarrow>
          let items = (if is_list wanted then token_list wanted else [wanted]) in
          (case List.map_filter fetch_item_error items of
             e # _ \<Rightarrow> [tagged tag e]
           | [] \<Rightarrow> map (\<lambda>(n, m). ''* '' @ format_uint n @ '' FETCH ('' @
                 join_byte SP ((''UID '' @ show_uid (fm_uid m)) # concat (map (fetch_part m) items)) @ '')'') (addressed ranges (fb_messages b))
               @ [tagged tag ''OK FETCH completed'']))
    | _ \<Rightarrow> [tagged tag ''BAD UID FETCH requires a UID set and items''])"

section \<open>STORE and MOVE\<close>

definition store_in :: "bool \<Rightarrow> fixture_range list \<Rightarrow> statefulMessage \<Rightarrow> statefulMessage" where
  "store_in seen ranges m = (if uidInRanges (fm_uid m) ranges then setSeen seen m else m)"

definition statefulStore :: "statefulSession \<Rightarrow> statefulMailbox \<Rightarrow> bytes \<Rightarrow> imapToken list \<Rightarrow> bytes list \<times> statefulMailbox" where
  "statefulStore session b tag arguments =
     (if sl_readOnly session then ([tagged tag ''NO [READ-ONLY] mailbox was opened with EXAMINE''], b)
      else case arguments of
        [uids, operation, flags0] \<Rightarrow>
          if is_list operation \<or> token_quoted operation
          then ([tagged tag ''BAD UID STORE requires a UID set, an operation and flags''], b)
          else (case parseUIDSet uids (maxUID b) of
              Inl e \<Rightarrow> ([tagged tag (''BAD '' @ e)], b)
            | Inr ranges \<Rightarrow>
              let upper = to_upper (token_value operation); silent = has_suffix upper ''.SILENT''; verb = trim_suffix upper ''.SILENT'' in
              if verb = ''FLAGS'' then ([refused tag ''FLAGS replacement''], b)
              else if verb \<noteq> ''+FLAGS'' \<and> verb \<noteq> ''-FLAGS'' then ([tagged tag ''BAD unsupported STORE operation''], b)
              else let seen = (verb = ''+FLAGS''); flags = (if is_list flags0 then token_list flags0 else [flags0]) in
                if length flags \<noteq> 1 \<or> is_list (hd flags) \<or> token_quoted (hd flags) \<or>
                  \<not> equal_fold (token_value (hd flags)) (BACKSLASH # ''Seen'')
                then ([refused tag (''changing flags other than '' @ BACKSLASH # ''Seen'')], b)
                else let ms = map (store_in seen ranges) (fb_messages b) in
                  ((if silent then [] else map (\<lambda>(n, m). ''* '' @ format_uint n @ '' FETCH (UID '' @ show_uid (fm_uid m) @
                       '' FLAGS ('' @ join_byte SP (fm_flags m) @ ''))'') (addressed ranges ms))
                     @ [tagged tag ''OK STORE completed''], b\<lparr>fb_messages := ms\<rparr>))
      | _ \<Rightarrow> ([tagged tag ''BAD UID STORE requires a UID set, an operation and flags''], b))"

text \<open>The messages with new UIDs from \<open>next\<close> on.\<close>

fun renumber :: "uint32 \<Rightarrow> statefulMessage list \<Rightarrow> statefulMessage list" where
  "renumber uid [] = []"
| "renumber uid (m # ms) = m\<lparr>fm_uid := uid\<rparr> # renumber (uid + 1) ms"

definition move_messages :: "fixture_range list \<Rightarrow> nat \<Rightarrow> nat \<Rightarrow> statefulMailbox list \<Rightarrow> statefulMailbox list" where
  "move_messages ranges source destination boxes =
     (let moving = filter (\<lambda>m. uidInRanges (fm_uid m) ranges) (fb_messages (boxes ! source));
          d = boxes ! destination in
      boxes[destination := d\<lparr>fb_messages := fb_messages d @ renumber (fb_uidNext d) moving,
              fb_uidNext := fb_uidNext d + of_nat (length moving)\<rparr>,
            source := (boxes ! source)\<lparr>fb_messages := filter (\<lambda>m. \<not> uidInRanges (fm_uid m) ranges) (fb_messages (boxes ! source))\<rparr>])"

definition statefulMove :: "statefulSession \<Rightarrow> nat \<Rightarrow> bytes \<Rightarrow> imapToken list \<Rightarrow> statefulMailbox list \<Rightarrow> bytes list \<times> statefulMailbox list" where
  "statefulMove session source tag arguments boxes =
     (if sl_readOnly session then ([tagged tag ''NO [READ-ONLY] mailbox was opened with EXAMINE''], boxes)
      else case arguments of
        [uids, name] \<Rightarrow>
          if is_list name then ([tagged tag ''BAD UID MOVE requires a UID set and a mailbox''], boxes)
          else (case parseUIDSet uids (maxUID (boxes ! source)) of
              Inl e \<Rightarrow> ([tagged tag (''BAD '' @ e)], boxes)
            | Inr ranges \<Rightarrow> (case find_name fb_name boxes (token_value name) of
                None \<Rightarrow> ([tagged tag ''NO [TRYCREATE] destination mailbox does not exist''], boxes)
              | Some destination \<Rightarrow>
                if \<not> selectableAttributes (fb_attributes (boxes ! destination))
                then ([tagged tag ''NO [CANNOT] destination mailbox is not selectable''], boxes)
                else if destination = source then ([tagged tag ''NO [CANNOT] destination is the selected mailbox''], boxes)
                else
                  let d = boxes ! destination; moving = addressed ranges (fb_messages (boxes ! source)) in
                  if 0xFFFFFFFF < unat (fb_uidNext d) + length moving
                  then ([tagged tag ''NO [LIMIT] destination mailbox has too few UIDs left''], boxes)
                  else
                    ((if moving = [] then [tagged tag ''OK MOVE completed'']
                      else (''* OK [COPYUID '' @ show_uid (fb_uidValidity d) @ SP # join_byte (CHR '','') (map (\<lambda>(n, m). show_uid (fm_uid m)) moving) @
                          SP # join_byte (CHR '','') (map (\<lambda>m. show_uid (fm_uid m)) (renumber (fb_uidNext d) (map snd moving))) @ ''] moved'')
                        # rev (map (\<lambda>(n, m). ''* '' @ format_uint n @ '' EXPUNGE'') moving) @ [tagged tag ''OK MOVE completed'']),
                     move_messages ranges source destination boxes)))
      | _ \<Rightarrow> ([tagged tag ''BAD UID MOVE requires a UID set and a mailbox''], boxes))"

section \<open>Commands\<close>

text \<open>The lines of SELECT and EXAMINE and the session after them.\<close>

definition select_lines :: "bytes \<Rightarrow> bytes \<Rightarrow> nat \<Rightarrow> uint32 \<Rightarrow> uint32 \<Rightarrow> bytes \<Rightarrow> bool \<Rightarrow> bytes list" where
  "select_lines tag name exists uidValidity uidNext permanentFlags readOnly =
     [''* FLAGS ('' @ BACKSLASH # ''Answered '' @ BACKSLASH # ''Flagged '' @ BACKSLASH # ''Deleted '' @ BACKSLASH # ''Seen '' @ BACKSLASH # ''Draft)'',
      ''* '' @ format_uint exists @ '' EXISTS'', ''* 0 RECENT'',
      (if readOnly then ''* OK [PERMANENTFLAGS ()] read-only'' else permanentFlags),
      ''* OK [UIDVALIDITY '' @ show_uid uidValidity @ ''] mailbox generation'',
      ''* OK [UIDNEXT '' @ show_uid uidNext @ ''] next UID'',
      tagged tag (if readOnly then ''OK [READ-ONLY] EXAMINE completed'' else ''OK [READ-WRITE] SELECT completed'')]"

definition statefulSelect :: "mailboxStore \<Rightarrow> bytes \<Rightarrow> bytes \<Rightarrow> imapToken list \<Rightarrow> bytes list \<times> statefulSession" where
  "statefulSelect st tag name arguments =
     (let cleared = \<lparr>sl_selected = [], sl_readOnly = False\<rparr> in
      case arguments of
        [mailbox] \<Rightarrow>
          if is_list mailbox then ([tagged tag (''BAD '' @ name @ '' requires exactly one mailbox'')], cleared)
          else (case find_name fb_name (fs_mailboxes st) (token_value mailbox) of
              None \<Rightarrow> ([tagged tag ''NO mailbox does not exist or is not selectable''], cleared)
            | Some i \<Rightarrow>
              let b = fs_mailboxes st ! i in
              if \<not> selectableAttributes (fb_attributes b) then ([tagged tag ''NO mailbox does not exist or is not selectable''], cleared)
              else (select_lines tag name (length (fb_messages b)) (fb_uidValidity b) (fb_uidNext b)
                  (''* OK [PERMANENTFLAGS ('' @ BACKSLASH # ''Seen)] only '' @ BACKSLASH # ''Seen is mutable'') (name = ''EXAMINE''),
                \<lparr>sl_selected = fb_name b, sl_readOnly = (name = ''EXAMINE'')\<rparr>))
      | _ \<Rightarrow> ([tagged tag (''BAD '' @ name @ '' requires exactly one mailbox'')], cleared))"

definition statefulUID :: "mailboxStore \<Rightarrow> statefulSession \<Rightarrow> bytes \<Rightarrow> imapToken list \<Rightarrow> bytes list \<times> mailboxStore" where
  "statefulUID st session tag arguments = (case arguments of
      [] \<Rightarrow> ([tagged tag ''BAD incomplete UID command''], st)
    | sub # operands \<Rightarrow>
      if is_list sub \<or> token_quoted sub then ([tagged tag ''BAD incomplete UID command''], st)
      else let subcommand = to_upper (token_value sub) in
        if subcommand \<notin> {''FETCH'', ''SEARCH'', ''STORE'', ''MOVE'', ''COPY'', ''EXPUNGE''} then ([tagged tag ''BAD unsupported UID command''], st)
        else if subcommand = ''MOVE'' \<and> \<not> fs_move st then ([tagged tag ''BAD MOVE is not enabled''], st)
        else if subcommand \<in> {''COPY'', ''EXPUNGE''} then ([refused tag (''UID '' @ subcommand)], st)
        else if sl_selected session = [] then ([tagged tag ''BAD no mailbox selected''], st)
        else case find_name fb_name (fs_mailboxes st) (sl_selected session) of
            None \<Rightarrow> ([tagged tag ''NO selected mailbox no longer exists''], st)
          | Some i \<Rightarrow>
            let b = fs_mailboxes st ! i in
            if subcommand = ''FETCH'' then (statefulFetch b tag operands, st)
            else if subcommand = ''SEARCH'' then (statefulSearch b tag operands, st)
            else if subcommand = ''STORE'' then
              (case statefulStore session b tag operands of (lines, b') \<Rightarrow> (lines, st\<lparr>fs_mailboxes := (fs_mailboxes st)[i := b']\<rparr>))
            else (case statefulMove session i tag operands (fs_mailboxes st) of
                (lines, boxes) \<Rightarrow> (lines, st\<lparr>fs_mailboxes := boxes\<rparr>)))"

text \<open>What serving one command amounts to: the shared paths answer it, the connection is dropped, or lines are sent.\<close>

datatype serve_result = Unhandled | Dropped | Answered "bytes list"

definition shared_names :: "bytes set" where
  "shared_names = {''STARTTLS'', ''LOGIN'', ''AUTHENTICATE'', ''NOOP'', ''LOGOUT''}"

definition refused_names :: "bytes set" where
  "refused_names = {''COPY'', ''MOVE'', ''STORE'', ''EXPUNGE'', ''DELETE'', ''APPEND'', ''CREATE'', ''RENAME'',
     ''SUBSCRIBE'', ''UNSUBSCRIBE'', ''CLOSE''}"

definition refuseLiteral :: "bytes \<Rightarrow> bytes \<Rightarrow> serve_result" where
  "refuseLiteral tag raw = (case trailingLiteral raw of
      None \<Rightarrow> Unhandled
    | Some unsynchronized \<Rightarrow> if unsynchronized then Dropped else Answered [tagged tag ''NO [CANNOT] literals are refused by the stateful fixture''])"

definition serveStateful :: "mailboxStore \<Rightarrow> statefulSession \<Rightarrow> bytes \<Rightarrow> bytes \<Rightarrow> bytes \<Rightarrow> bool \<Rightarrow> bool \<Rightarrow>
    serve_result \<times> statefulSession \<times> mailboxStore" where
  "serveStateful st session tag name raw tlsEstablished authenticated =
     (if refuseLiteral tag raw \<noteq> Unhandled then (refuseLiteral tag raw, session, st)
      else if name \<in> shared_names then (Unhandled, session, st)
      else if name = ''CAPABILITY'' then
        (if \<not> tlsEstablished then (Unhandled, session, st)
         else (Answered [''* CAPABILITY IMAP4rev1 AUTH=PLAIN'' @ (if fs_move st then '' MOVE'' else []), tagged tag ''OK CAPABILITY completed''], session, st))
      else if \<not> authenticated then (Answered [tagged tag ''NO authenticate first''], session, st)
      else case tokenizeArguments raw of
        Inl e \<Rightarrow> (Answered [tagged tag (''BAD '' @ e)], session, st)
      | Inr arguments \<Rightarrow>
        if name = ''LIST'' then (Answered (listLines tag arguments (fs_mailboxes st)), session, st)
        else if name = ''SELECT'' \<or> name = ''EXAMINE'' then
          (case statefulSelect st tag name arguments of (lines, session') \<Rightarrow> (Answered lines, session', st))
        else if name = ''STATUS'' then
          (Answered (statusLines tag arguments (\<lambda>n. map_option (nth (fs_mailboxes st)) (find_name fb_name (fs_mailboxes st) n))), session, st)
        else if name = ''UID'' then
          (case statefulUID st session tag arguments of (lines, st') \<Rightarrow> (Answered lines, session, st'))
        else if name \<in> refused_names then (Answered [refused tag name], session, st)
        else (Answered [tagged tag ''BAD unsupported command''], session, st))"

section \<open>The controls of a test\<close>

datatype control_error = NotStateful | UnknownMailbox | InvalidControl

definition withMailbox :: "mailboxStore option \<Rightarrow> bytes \<Rightarrow> (statefulMailbox \<Rightarrow> control_error + statefulMailbox) \<Rightarrow>
    control_error option \<times> mailboxStore option" where
  "withMailbox server name change = (case server of
      None \<Rightarrow> (Some NotStateful, server)
    | Some st \<Rightarrow> (case find_name fb_name (fs_mailboxes st) name of
        None \<Rightarrow> (Some UnknownMailbox, server)
      | Some i \<Rightarrow> (case change (fs_mailboxes st ! i) of
          Inl e \<Rightarrow> (Some e, server)
        | Inr b \<Rightarrow> (None, Some (st\<lparr>fs_mailboxes := (fs_mailboxes st)[i := b]\<rparr>)))))"

definition SetMailboxAttributes :: "mailboxStore option \<Rightarrow> bytes \<Rightarrow> bytes list \<Rightarrow> control_error option \<times> mailboxStore option" where
  "SetMailboxAttributes server name attributes = (case validateAtoms attributes True of
      None \<Rightarrow> (Some InvalidControl, server)
    | Some validated \<Rightarrow> withMailbox server name (\<lambda>b. Inr (b\<lparr>fb_attributes := validated\<rparr>)))"

definition ReplaceUIDValidity :: "mailboxStore option \<Rightarrow> bytes \<Rightarrow> uint32 \<Rightarrow> control_error option \<times> mailboxStore option" where
  "ReplaceUIDValidity server name uidValidity = withMailbox server name (\<lambda>b.
     if uidValidity = 0 \<or> uidValidity = fb_uidValidity b then Inl InvalidControl else Inr (b\<lparr>fb_uidValidity := uidValidity\<rparr>))"

definition RemoveMailbox :: "mailboxStore option \<Rightarrow> bytes \<Rightarrow> control_error option \<times> mailboxStore option" where
  "RemoveMailbox server name = (case server of
      None \<Rightarrow> (Some NotStateful, server)
    | Some st \<Rightarrow> (case find_name fb_name (fs_mailboxes st) name of
        None \<Rightarrow> (Some UnknownMailbox, server)
      | Some i \<Rightarrow> (None, Some (st\<lparr>fs_mailboxes := take i (fs_mailboxes st) @ drop (i + 1) (fs_mailboxes st)\<rparr>))))"

end
