(* ===== verification/Fixture_Server.thy ===== *)
theory Fixture_Server
  imports Fixture_Mailboxes
begin

text \<open>
  The connections of the test server (\<^verbatim>\<open>handle\<close> of \<^verbatim>\<open>internal/testkit/server.go\<close>) in the modes with mailboxes, where the
  scenario is empty: TLS, authentication and the commands that are not the store's. A step is one line of one
  connection, or one control of the test; connections share the store and nothing else. A TLS handshake and the
  line after a bare \<^verbatim>\<open>AUTHENTICATE PLAIN\<close> are inputs of a step.
\<close>

section \<open>Connections\<close>

record fixture_conn =
  fc_tls :: bool
  fc_authenticated :: bool
  fc_session :: statefulSession

definition parseCommand :: "bytes \<Rightarrow> bytes \<times> bytes" where
  "parseCommand raw = (case go_fields raw of
      [] \<Rightarrow> (''*'', [])
    | [tag] \<Rightarrow> (tag, [])
    | tag # name # _ \<Rightarrow> (tag, to_upper name))"

text \<open>\<^verbatim>\<open>base64.StdEncoding.DecodeString\<close>, which skips line ends and needs the padding.\<close>

definition std_base64_decode :: "bytes \<Rightarrow> bytes option" where
  "std_base64_decode s =
     (let t = filter (\<lambda>c. c \<noteq> CR \<and> c \<noteq> LF) s; core = takeWhile (\<lambda>c. c \<noteq> CHR ''='') t; pad = dropWhile (\<lambda>c. c \<noteq> CHR ''='') t in
      if length t mod 4 \<noteq> 0 \<or> pad \<notin> {[], ''='', ''==''} \<or> CHR ''-'' \<in> set core \<or> CHR ''_'' \<in> set core then None
      else base64_decode (map (\<lambda>c. if c = CHR ''+'' then CHR ''-'' else if c = CHR ''/'' then CHR ''_'' else c) core))"

definition plain_accepted :: "bytes \<Rightarrow> bool" where
  "plain_accepted response = (case std_base64_decode response of
      None \<Rightarrow> False
    | Some decoded \<Rightarrow> (case split_byte (CHR 0x00) decoded of
        [a, username, password] \<Rightarrow> username \<noteq> [] \<and> password \<noteq> []
      | _ \<Rightarrow> False))"

text \<open>The lines sent, and the connection afterwards if it stays open.\<close>

definition handle_shared :: "bytes \<Rightarrow> bytes \<Rightarrow> bytes \<Rightarrow> fixture_conn \<Rightarrow> bool \<Rightarrow> bytes option \<Rightarrow> bytes list \<times> fixture_conn option" where
  "handle_shared tag name raw k handshake following =
     (if name = ''CAPABILITY'' then
        ([if fc_tls k then ''* CAPABILITY IMAP4rev1 AUTH=PLAIN'' else ''* CAPABILITY IMAP4rev1 STARTTLS LOGINDISABLED'',
          tagged tag ''OK CAPABILITY completed''], Some k)
      else if name = ''STARTTLS'' then
        (if fc_tls k then ([tagged tag ''BAD TLS already established''], Some k)
         else ([tagged tag ''OK Begin TLS negotiation''], if handshake then Some (k\<lparr>fc_tls := True\<rparr>) else None))
      else if name = ''LOGIN'' then
        (if \<not> fc_tls k then ([tagged tag ''NO TLS required''], Some k)
         else ([tagged tag ''OK LOGIN completed''], Some (k\<lparr>fc_authenticated := True\<rparr>)))
      else if name = ''AUTHENTICATE'' then
        (if \<not> fc_tls k then ([tagged tag ''NO TLS required''], Some k)
         else let fields = go_fields raw in
           if length fields < 3 \<or> \<not> equal_fold (fields ! 2) ''PLAIN''
           then ([tagged tag ''BAD unsupported authentication mechanism''], Some k)
           else let asked = (if 4 \<le> length fields then [] else [''+'']) in
             (case if 4 \<le> length fields then Some (fields ! 3) else map_option trim_space following of
                None \<Rightarrow> (asked, None)
              | Some response \<Rightarrow>
                if response = ''*'' then (asked @ [tagged tag ''BAD AUTHENTICATE cancelled''], Some k)
                else if \<not> plain_accepted response then (asked @ [tagged tag ''BAD invalid PLAIN response''], Some k)
                else (asked @ [tagged tag ''OK AUTHENTICATE completed''], Some (k\<lparr>fc_authenticated := True\<rparr>))))
      else if name = ''NOOP'' then ([tagged tag ''OK NOOP completed''], Some k)
      else if name = ''LOGOUT'' then ([''* BYE fake IMAP server logging out'', tagged tag ''OK LOGOUT completed''], None)
      else ([tagged tag ''BAD unsupported command''], Some k))"

text \<open>One line of a connection; \<open>serve\<close> is \<^verbatim>\<open>serveStateful\<close> or \<^verbatim>\<open>serveLabels\<close>.\<close>

type_synonym 'st server_of = "'st \<Rightarrow> statefulSession \<Rightarrow> bytes \<Rightarrow> bytes \<Rightarrow> bytes \<Rightarrow> bool \<Rightarrow> bool \<Rightarrow> serve_result \<times> statefulSession \<times> 'st"

definition handle_command :: "'st server_of \<Rightarrow> bool \<Rightarrow> bytes option \<Rightarrow> bytes \<Rightarrow> fixture_conn \<Rightarrow> 'st \<Rightarrow> bytes list \<times> fixture_conn option \<times> 'st" where
  "handle_command serve handshake following raw k st =
     (case parseCommand raw of (tag, name) \<Rightarrow>
        (case serve st (fc_session k) tag name raw (fc_tls k) (fc_authenticated k) of
           (Dropped, session, st') \<Rightarrow> ([], None, st')
         | (Answered lines, session, st') \<Rightarrow> (lines, Some (k\<lparr>fc_session := session\<rparr>), st')
         | (Unhandled, session, st') \<Rightarrow>
             (case handle_shared tag name raw (k\<lparr>fc_session := session\<rparr>) handshake following of (lines, k') \<Rightarrow> (lines, k', st'))))"

definition new_conn :: "bool \<Rightarrow> fixture_conn" where
  "new_conn implicit_tls = \<lparr>fc_tls = implicit_tls, fc_authenticated = False, fc_session = \<lparr>sl_selected = [], sl_readOnly = False\<rparr>\<rparr>"

section \<open>Runs\<close>

record fixture =
  fx_store :: mailboxStore
  fx_conns :: "nat \<Rightarrow> fixture_conn option"

inductive fixture_step :: "bool \<Rightarrow> fixture \<Rightarrow> fixture \<Rightarrow> bool" for implicit_tls where
  connected: "fx_conns f c = None \<Longrightarrow> fixture_step implicit_tls f (f\<lparr>fx_conns := (fx_conns f)(c \<mapsto> new_conn implicit_tls)\<rparr>)"
| ended: "fixture_step implicit_tls f (f\<lparr>fx_conns := (fx_conns f)(c := None)\<rparr>)"
| commanded: "fx_conns f c = Some k \<Longrightarrow> handle_command serveStateful handshake following raw k (fx_store f) = (lines, k', st') \<Longrightarrow>
     fixture_step implicit_tls f \<lparr>fx_store = st', fx_conns = (fx_conns f)(c := k')\<rparr>"
| attributes_set: "SetMailboxAttributes (Some (fx_store f)) name attributes = (e, Some st') \<Longrightarrow> fixture_step implicit_tls f (f\<lparr>fx_store := st'\<rparr>)"
| validity_replaced: "ReplaceUIDValidity (Some (fx_store f)) name uidValidity = (e, Some st') \<Longrightarrow> fixture_step implicit_tls f (f\<lparr>fx_store := st'\<rparr>)"
| mailbox_removed: "RemoveMailbox (Some (fx_store f)) name = (e, Some st') \<Longrightarrow> fixture_step implicit_tls f (f\<lparr>fx_store := st'\<rparr>)"

inductive fixture_run :: "bool \<Rightarrow> bool \<Rightarrow> MailboxSeed list \<Rightarrow> fixture \<Rightarrow> bool" for implicit_tls move seeds where
  started: "newMailboxStore move seeds = Some st \<Longrightarrow> fixture_run implicit_tls move seeds \<lparr>fx_store = st, fx_conns = (\<lambda>c. None)\<rparr>"
| stepped: "fixture_run implicit_tls move seeds f \<Longrightarrow> fixture_step implicit_tls f f' \<Longrightarrow> fixture_run implicit_tls move seeds f'"

section \<open>Mailboxes stay well formed\<close>

definition names_distinct :: "bytes list \<Rightarrow> bool" where
  "names_distinct names \<longleftrightarrow> sorted_wrt (\<lambda>a b. \<not> mailboxNameMatches a b) names"

text \<open>UIDs increase, none is 0, and each is below the UIDNEXT.\<close>

definition box_ok :: "statefulMailbox \<Rightarrow> bool" where
  "box_ok b \<longleftrightarrow> sorted_wrt (<) (map fm_uid (fb_messages b)) \<and> 0 < fb_uidNext b \<and>
     (\<forall>uid \<in> set (map fm_uid (fb_messages b)). 0 < uid \<and> uid < fb_uidNext b)"

definition boxes_ok :: "statefulMailbox list \<Rightarrow> bool" where
  "boxes_ok boxes \<longleftrightarrow> names_distinct (map fb_name boxes) \<and> (\<forall>b \<in> set boxes. box_ok b)"

lemma find_name_Some: "find_name name_of ms name = Some i \<Longrightarrow> i < length ms \<and> mailboxNameMatches (name_of (ms ! i)) name"
  by (induction ms arbitrary: i) (auto split: if_splits)

lemma find_name_None: "find_name name_of ms name = None \<longleftrightarrow> (\<forall>m \<in> set ms. \<not> mailboxNameMatches (name_of m) name)"
  by (induction ms) auto

lemma seed_messages_ok:
  "seed_messages previous seeds = Some (ms, final) \<Longrightarrow> previous \<noteq> 0xFFFFFFFF \<Longrightarrow>
     sorted_wrt (<) (map fm_uid ms) \<and> (\<forall>uid \<in> set (map fm_uid ms). previous < uid \<and> uid \<le> final) \<and> previous \<le> final \<and> final \<noteq> 0xFFFFFFFF"
proof (induction seeds arbitrary: previous ms)
  case (Cons seed seeds)
  define uid where "uid = (if sd_UID seed = 0 then previous + 1 else sd_UID seed)"
  from Cons.prems obtain flags ms' where u: "\<not> uid \<le> previous" "uid \<noteq> 0xFFFFFFFF" "seed_messages uid seeds = Some (ms', final)"
    "ms = \<lparr>fm_uid = uid, fm_flags = flags, fm_body = sd_Body seed\<rparr> # ms'"
    by (auto simp: Let_def uid_def [symmetric] split: if_splits option.splits)
  from Cons.IH [OF u(3,2)] u show ?case by auto
qed simp

lemma unat_add_small: "unat u + n \<le> 0xFFFFFFFF \<Longrightarrow> unat (u + of_nat n) = unat u + n" for u :: uint32
  by (simp add: unat_word_ariths unsigned_of_nat take_bit_nat_eq_self)

lemma unat_next: "u \<noteq> 0xFFFFFFFF \<Longrightarrow> unat (u + 1) = unat u + 1" for u :: uint32
proof -
  assume "u \<noteq> 0xFFFFFFFF"
  moreover have "unat (0xFFFFFFFF :: uint32) = 0xFFFFFFFF" by simp
  ultimately have "unat u \<noteq> 0xFFFFFFFF" by (metis word_unat_eq_iff)
  moreover have "unat u < 2 ^ 32" using unsigned_less [of u] by simp
  ultimately have "unat u + 1 \<le> 0xFFFFFFFF" by simp
  from unat_add_small [OF this] show ?thesis by simp
qed

lemma names_distinct_snoc:
  "names_distinct (names @ [name]) \<longleftrightarrow> names_distinct names \<and> (\<forall>n \<in> set names. \<not> mailboxNameMatches n name)"
  by (auto simp: names_distinct_def sorted_wrt_append)

lemma seed_mailboxes_ok: "seed_mailboxes index boxes seeds = Some boxes' \<Longrightarrow> boxes_ok boxes \<Longrightarrow> boxes_ok boxes'"
proof (induction seeds arbitrary: index boxes)
  case (Cons seed seeds)
  from Cons.prems(1) obtain attributes ms previous b where b: "find_name fb_name boxes (sx_Name seed) = None"
    "seed_messages 0 (sx_Messages seed) = Some (ms, previous)" "seed_mailboxes (index + 1) (boxes @ [b]) seeds = Some boxes'"
    "fb_name b = sx_Name seed" "fb_uidNext b = previous + 1" "fb_messages b = ms"
    by (auto split: if_splits option.splits)
  from seed_messages_ok [OF b(2)] have ms: "sorted_wrt (<) (map fm_uid ms)" "\<forall>uid \<in> set (map fm_uid ms). 0 < uid \<and> uid \<le> previous"
    "previous \<noteq> 0xFFFFFFFF" by simp_all
  have below: "uid \<le> previous \<Longrightarrow> uid < previous + 1" for uid
    using unat_next [OF ms(3)] by (simp add: word_less_nat_alt word_le_nat_alt)
  with ms b have "box_ok b" unfolding box_ok_def by (auto intro: order.strict_trans1)
  with b Cons.prems(2) have "boxes_ok (boxes @ [b])"
    by (auto simp: boxes_ok_def names_distinct_snoc find_name_None)
  from Cons.IH [OF b(3) this] show ?case .
qed simp

lemma boxes_ok_update:
  "boxes_ok boxes \<Longrightarrow> i < length boxes \<Longrightarrow> fb_name b = fb_name (boxes ! i) \<Longrightarrow> box_ok b \<Longrightarrow> boxes_ok (boxes[i := b])"
proof -
  assume a: "boxes_ok boxes" "i < length boxes" "fb_name b = fb_name (boxes ! i)" "box_ok b"
  then have "map fb_name (boxes[i := b]) = map fb_name boxes" by (metis list_update_id map_update nth_map)
  with a show ?thesis unfolding boxes_ok_def by (auto dest: set_update_subset_insert [THEN subsetD])
qed

lemma store_in_uid [simp]: "fm_uid (store_in seen ranges m) = fm_uid m" "fm_body (store_in seen ranges m) = fm_body m"
  by (simp_all add: store_in_def setSeen_def)

lemma box_ok_store: "box_ok b \<Longrightarrow> box_ok (b\<lparr>fb_messages := map (store_in seen ranges) (fb_messages b)\<rparr>)"
  by (simp add: box_ok_def comp_def)

lemma renumber_uids: "map fm_uid (renumber u ms) = map (\<lambda>k. u + of_nat k) [0..<length ms]"
proof (induction ms arbitrary: u)
  case (Cons m ms)
  have "map (\<lambda>k. u + of_nat k) [0..<length (m # ms)] = u # map (\<lambda>k. u + of_nat (Suc k)) [0..<length ms]"
    by (simp only: list.size add_Suc_right add_0_right map_upt_Suc) simp
  with Cons show ?case by (simp add: add.assoc comp_def)
qed simp

lemma box_ok_appended:
  assumes "box_ok b" and "unat (fb_uidNext b) + length ms \<le> 0xFFFFFFFF"
  shows "box_ok (b\<lparr>fb_messages := fb_messages b @ renumber (fb_uidNext b) ms, fb_uidNext := fb_uidNext b + of_nat (length ms)\<rparr>)"
proof -
  define u where "u = fb_uidNext b"
  have at: "unat (u + of_nat k) = unat u + k" if "k \<le> length ms" for k
    using unat_add_small [of u k] that assms(2) unfolding u_def by simp
  have "sorted_wrt (<) (map (\<lambda>k. u + of_nat k) [0..<length ms])"
    by (auto simp: sorted_wrt_iff_nth_less word_less_nat_alt at)
  moreover have "uid < u \<Longrightarrow> k < length ms \<Longrightarrow> uid < u + of_nat k" for uid k
    by (simp add: word_less_nat_alt at)
  moreover have "k < length ms \<Longrightarrow> 0 < u + of_nat k \<and> u + of_nat k < u + of_nat (length ms)" for k
    using assms(1) at [of k] at [of "length ms"] by (auto simp: box_ok_def u_def [symmetric] word_less_nat_alt)
  moreover have "0 < u + of_nat (length ms)" using assms(1) at [of "length ms"] by (auto simp: box_ok_def u_def [symmetric] word_less_nat_alt)
  moreover have "uid < u \<Longrightarrow> uid < u + of_nat (length ms)" for uid by (simp add: word_less_nat_alt at)
  ultimately show ?thesis using assms(1)
    unfolding box_ok_def u_def [symmetric] by (auto simp: sorted_wrt_append renumber_uids simp flip: u_def)
qed

lemma box_ok_filtered: "box_ok b \<Longrightarrow> box_ok (b\<lparr>fb_messages := filter p (fb_messages b)\<rparr>)"
  by (auto simp: box_ok_def sorted_wrt_map intro: sorted_wrt_filter)

lemma move_messages_ok:
  assumes "boxes_ok boxes" and "source < length boxes" and "destination < length boxes" and "source \<noteq> destination"
    and "unat (fb_uidNext (boxes ! destination)) + length (filter (\<lambda>m. uidInRanges (fm_uid m) ranges) (fb_messages (boxes ! source))) \<le> 0xFFFFFFFF"
  shows "boxes_ok (move_messages ranges source destination boxes)"
proof -
  have ok: "box_ok (boxes ! i)" if "i < length boxes" for i using assms(1) that by (simp add: boxes_ok_def)
  show ?thesis unfolding move_messages_def Let_def
    by (intro boxes_ok_update) (use assms ok box_ok_appended [OF ok assms(5)] box_ok_filtered [OF ok] in simp_all)
qed

section \<open>What a command may change\<close>

definition message_key :: "statefulMessage \<Rightarrow> bytes list \<times> bytes" where
  "message_key m = (filter (\<lambda>f. \<not> equal_fold f (BACKSLASH # ''Seen'')) (fm_flags m), fm_body m)"

text \<open>All messages with their bodies and flags, without the flag that a STORE may change.\<close>

definition contents :: "statefulMailbox list \<Rightarrow> (bytes list \<times> bytes) multiset" where
  "contents boxes = sum_list (map (\<lambda>b. mset (map message_key (fb_messages b))) boxes)"

text \<open>A \<open>\Seen\<close> STORE in the selected mailbox, or a MOVE out of it into another selectable one with UIDs left.\<close>

definition store_change :: "mailboxStore \<Rightarrow> bytes \<Rightarrow> mailboxStore \<Rightarrow> bool" where
  "store_change st selected st' \<longleftrightarrow> (\<exists>i ranges. find_name fb_name (fs_mailboxes st) selected = Some i \<and>
     ((\<exists>seen. st' = st\<lparr>fs_mailboxes := (fs_mailboxes st)[i := (fs_mailboxes st ! i)\<lparr>fb_messages :=
          map (store_in seen ranges) (fb_messages (fs_mailboxes st ! i))\<rparr>]\<rparr>) \<or>
      (\<exists>j. fs_move st \<and> j < length (fs_mailboxes st) \<and> j \<noteq> i \<and> selectableAttributes (fb_attributes (fs_mailboxes st ! j)) \<and>
         unat (fb_uidNext (fs_mailboxes st ! j)) + length (filter (\<lambda>m. uidInRanges (fm_uid m) ranges) (fb_messages (fs_mailboxes st ! i))) \<le> 0xFFFFFFFF \<and>
         st' = st\<lparr>fs_mailboxes := move_messages ranges i j (fs_mailboxes st)\<rparr>)))"

lemma addressed_messages: "map snd (addressed ranges ms) = filter (\<lambda>m. uidInRanges (fm_uid m) ranges) ms"
proof -
  have "map snd (filter (\<lambda>(n, m). P m) (List.enumerate k xs)) = filter P xs" for P :: "'a \<Rightarrow> bool" and k and xs :: "'a list"
    by (induction xs arbitrary: k) auto
  then show ?thesis by (simp add: addressed_def)
qed

lemma addressed_length: "length (addressed ranges ms) = length (filter (\<lambda>m. uidInRanges (fm_uid m) ranges) ms)"
  by (metis addressed_messages length_map)

lemma statefulStore_change:
  "statefulStore session b tag arguments = (lines, b') \<Longrightarrow>
     b' = b \<or> (\<not> sl_readOnly session \<and> (\<exists>seen ranges. b' = b\<lparr>fb_messages := map (store_in seen ranges) (fb_messages b)\<rparr>))"
  by (auto simp: statefulStore_def Let_def split: if_splits list.splits sum.splits)

lemma statefulMove_change:
  "statefulMove session i tag arguments boxes = (lines, boxes') \<Longrightarrow> boxes' = boxes \<or> (\<not> sl_readOnly session \<and>
     (\<exists>j ranges. j < length boxes \<and> j \<noteq> i \<and> selectableAttributes (fb_attributes (boxes ! j)) \<and>
        unat (fb_uidNext (boxes ! j)) + length (filter (\<lambda>m. uidInRanges (fm_uid m) ranges) (fb_messages (boxes ! i))) \<le> 0xFFFFFFFF \<and>
        boxes' = move_messages ranges i j boxes))"
  by (auto simp: statefulMove_def Let_def addressed_length not_less split: if_splits list.splits sum.splits option.splits
      dest: find_name_Some)

lemma statefulUID_change:
  assumes "statefulUID st session tag arguments = (lines, st')"
  shows "st' = st \<or> (\<not> sl_readOnly session \<and> sl_selected session \<noteq> [] \<and> store_change st (sl_selected session) st' \<and>
    (\<exists>sub operands. arguments = sub # operands \<and> to_upper (token_value sub) \<in> {''STORE'', ''MOVE''}))"
proof (cases "st' = st")
  case False
  from assms False obtain sub operands i where c: "arguments = sub # operands" "sl_selected session \<noteq> []"
    "find_name fb_name (fs_mailboxes st) (sl_selected session) = Some i"
    and effect: "(to_upper (token_value sub) = ''STORE'' \<and> (\<exists>b'. statefulStore session (fs_mailboxes st ! i) tag operands = (lines, b') \<and>
        st' = st\<lparr>fs_mailboxes := (fs_mailboxes st)[i := b']\<rparr>)) \<or>
      (to_upper (token_value sub) = ''MOVE'' \<and> fs_move st \<and> (\<exists>boxes. statefulMove session i tag operands (fs_mailboxes st) = (lines, boxes) \<and>
        st' = st\<lparr>fs_mailboxes := boxes\<rparr>))"
    by (auto simp: statefulUID_def Let_def split: list.splits if_splits option.splits prod.splits)
  from effect show ?thesis
  proof
    assume "to_upper (token_value sub) = ''STORE'' \<and> (\<exists>b'. statefulStore session (fs_mailboxes st ! i) tag operands = (lines, b') \<and>
        st' = st\<lparr>fs_mailboxes := (fs_mailboxes st)[i := b']\<rparr>)"
    with False c statefulStore_change [of session "fs_mailboxes st ! i" tag operands lines] show ?thesis
      by (fastforce simp: store_change_def)
  next
    assume "to_upper (token_value sub) = ''MOVE'' \<and> fs_move st \<and> (\<exists>boxes. statefulMove session i tag operands (fs_mailboxes st) = (lines, boxes) \<and>
        st' = st\<lparr>fs_mailboxes := boxes\<rparr>)"
    with False c statefulMove_change [of session i tag operands "fs_mailboxes st" lines] show ?thesis
      by (fastforce simp: store_change_def)
  qed
qed simp

lemma serveStateful_change:
  assumes "serveStateful st session tag name raw tls authenticated = (r, session', st')"
  shows "st' = st \<or> (authenticated \<and> name = ''UID'' \<and> \<not> sl_readOnly session \<and> sl_selected session \<noteq> [] \<and>
    store_change st (sl_selected session) st' \<and>
    (\<exists>sub operands. tokenizeArguments raw = Inr (sub # operands) \<and> to_upper (token_value sub) \<in> {''STORE'', ''MOVE''}))"
proof (cases "st' = st")
  case False
  with assms obtain arguments lines where "tokenizeArguments raw = Inr arguments" "name = ''UID''" "authenticated"
    "statefulUID st session tag arguments = (lines, st')"
    by (auto simp: serveStateful_def split: if_splits sum.splits prod.splits)
  with statefulUID_change [of st session tag arguments lines st'] False show ?thesis by auto
qed simp

lemma sum_list_exchange:
  fixes f :: "'a \<Rightarrow> 'b :: comm_monoid_add"
  shows "i < length xs \<Longrightarrow> sum_list (map f (xs[i := x])) + f (xs ! i) = sum_list (map f xs) + f x"
proof (induction xs arbitrary: i)
  case (Cons a xs)
  show ?case
  proof (cases i)
    case 0
    then show ?thesis by (simp add: ac_simps)
  next
    case (Suc n)
    with Cons have "sum_list (map f (xs[n := x])) + f (xs ! n) = sum_list (map f xs) + f x" by simp
    with Suc show ?thesis by (simp add: add.assoc)
  qed
qed simp

lemma message_key_kept [simp]: "message_key (store_in seen ranges m) = message_key m" "message_key (m\<lparr>fm_uid := uid\<rparr>) = message_key m"
proof -
  have "equal_fold (BACKSLASH # ''Seen'') (BACKSLASH # ''Seen'')" by (simp add: equal_fold_def ascii_lower_def byte_val_def)
  then show "message_key (store_in seen ranges m) = message_key m" by (simp add: store_in_def setSeen_def message_key_def)
qed (simp add: message_key_def)

lemma renumber_keys: "map message_key (renumber u ms) = map message_key ms"
  by (induction ms arbitrary: u) simp_all

lemma contents_update:
  "i < length boxes \<Longrightarrow> contents (boxes[i := b]) + mset (map message_key (fb_messages (boxes ! i))) =
     contents boxes + mset (map message_key (fb_messages b))"
  unfolding contents_def by (rule sum_list_exchange)

lemma move_messages_contents:
  assumes "source < length boxes" and "destination < length boxes" and "source \<noteq> destination"
  shows "contents (move_messages ranges source destination boxes) = contents boxes"
proof -
  define moving where "moving = filter (\<lambda>m. uidInRanges (fm_uid m) ranges) (fb_messages (boxes ! source))"
  define kept where "kept = filter (\<lambda>m. \<not> uidInRanges (fm_uid m) ranges) (fb_messages (boxes ! source))"
  define d where "d = (boxes ! destination)\<lparr>fb_messages := fb_messages (boxes ! destination) @ renumber (fb_uidNext (boxes ! destination)) moving,
      fb_uidNext := fb_uidNext (boxes ! destination) + of_nat (length moving)\<rparr>"
  have split: "mset (map message_key (fb_messages (boxes ! source))) = mset (map message_key moving) + mset (map message_key kept)"
    unfolding moving_def kept_def by (simp flip: image_mset_union)
  have moved: "move_messages ranges source destination boxes = boxes[destination := d, source := (boxes ! source)\<lparr>fb_messages := kept\<rparr>]"
    unfolding move_messages_def Let_def moving_def kept_def d_def by simp
  have "contents (boxes[destination := d]) = contents boxes + mset (map message_key moving)"
    using contents_update [OF assms(2), of d] by (simp add: d_def renumber_keys)
  with contents_update [of source "boxes[destination := d]" "(boxes ! source)\<lparr>fb_messages := kept\<rparr>"] assms split
  show ?thesis unfolding moved by simp
qed

lemma store_change_keeps:
  assumes "store_change st selected st'" and "boxes_ok (fs_mailboxes st)"
  shows "boxes_ok (fs_mailboxes st') \<and> contents (fs_mailboxes st') = contents (fs_mailboxes st)"
proof -
  from assms(1) obtain i ranges where i: "i < length (fs_mailboxes st)"
    and change: "(\<exists>seen. st' = st\<lparr>fs_mailboxes := (fs_mailboxes st)[i := (fs_mailboxes st ! i)\<lparr>fb_messages :=
          map (store_in seen ranges) (fb_messages (fs_mailboxes st ! i))\<rparr>]\<rparr>) \<or>
      (\<exists>j. j < length (fs_mailboxes st) \<and> i \<noteq> j \<and>
         unat (fb_uidNext (fs_mailboxes st ! j)) + length (filter (\<lambda>m. uidInRanges (fm_uid m) ranges) (fb_messages (fs_mailboxes st ! i))) \<le> 0xFFFFFFFF \<and>
         st' = st\<lparr>fs_mailboxes := move_messages ranges i j (fs_mailboxes st)\<rparr>)"
    unfolding store_change_def by (metis find_name_Some)
  from change show ?thesis
  proof (elim disjE exE conjE)
    fix seen
    let ?b = "(fs_mailboxes st ! i)\<lparr>fb_messages := map (store_in seen ranges) (fb_messages (fs_mailboxes st ! i))\<rparr>"
    assume st': "st' = st\<lparr>fs_mailboxes := (fs_mailboxes st)[i := ?b]\<rparr>"
    have "box_ok (fs_mailboxes st ! i)" using assms(2) i by (simp add: boxes_ok_def)
    with assms(2) i have "boxes_ok ((fs_mailboxes st)[i := ?b])" by (intro boxes_ok_update box_ok_store) simp_all
    moreover have "contents ((fs_mailboxes st)[i := ?b]) = contents (fs_mailboxes st)"
      using contents_update [OF i, of ?b] by (simp add: comp_def multiset.map_comp)
    ultimately show ?thesis using st' by simp
  next
    fix j
    assume j: "j < length (fs_mailboxes st)" "i \<noteq> j"
      "unat (fb_uidNext (fs_mailboxes st ! j)) + length (filter (\<lambda>m. uidInRanges (fm_uid m) ranges) (fb_messages (fs_mailboxes st ! i))) \<le> 0xFFFFFFFF"
      "st' = st\<lparr>fs_mailboxes := move_messages ranges i j (fs_mailboxes st)\<rparr>"
    from move_messages_ok [OF assms(2) i j(1-3)] move_messages_contents [OF i j(1,2)] j(4) show ?thesis by simp
  qed
qed

section \<open>Runs keep their invariant\<close>

definition conn_ok :: "fixture_conn \<Rightarrow> bool" where
  "conn_ok k \<longleftrightarrow> (fc_authenticated k \<longrightarrow> fc_tls k) \<and> (sl_selected (fc_session k) \<noteq> [] \<longrightarrow> fc_authenticated k)"

lemma statefulSelect_session: "serveStateful st session tag name raw tls authenticated = (r, session', st') \<Longrightarrow>
    session' = session \<or> (authenticated \<and> r \<noteq> Unhandled)"
  by (auto simp: serveStateful_def refuseLiteral_def split: if_splits sum.splits prod.splits option.splits)

lemma handle_shared_conn: "handle_shared tag name raw k handshake following = (lines, Some k') \<Longrightarrow> conn_ok k \<Longrightarrow> conn_ok k'"
  by (auto simp: handle_shared_def conn_ok_def Let_def split: if_splits option.splits)

lemma handle_command_conn:
  assumes "handle_command serveStateful handshake following raw k st = (lines, Some k', st')" and "conn_ok k"
  shows "conn_ok k'"
proof -
  obtain tag name where p: "parseCommand raw = (tag, name)" by fastforce
  obtain r session st1 where s: "serveStateful st (fc_session k) tag name raw (fc_tls k) (fc_authenticated k) = (r, session, st1)" by (metis prod_cases3)
  note same = statefulSelect_session [OF s]
  show ?thesis
  proof (cases r)
    case Unhandled
    with same assms p s show ?thesis
      by (auto simp: handle_command_def split: prod.splits intro: handle_shared_conn)
  next
    case Dropped
    with assms p s show ?thesis by (simp add: handle_command_def)
  next
    case (Answered lines')
    with same assms p s show ?thesis by (auto simp: handle_command_def conn_ok_def)
  qed
qed

lemma handle_command_change:
  assumes "handle_command serveStateful handshake following raw k st = (lines, k', st')"
  shows "st' = st \<or> (fc_authenticated k \<and> \<not> sl_readOnly (fc_session k) \<and> sl_selected (fc_session k) \<noteq> [] \<and>
    store_change st (sl_selected (fc_session k)) st')"
proof -
  obtain tag name where p: "parseCommand raw = (tag, name)" by fastforce
  obtain r session st1 where s: "serveStateful st (fc_session k) tag name raw (fc_tls k) (fc_authenticated k) = (r, session, st1)" by (metis prod_cases3)
  with assms p have "st' = st1" by (cases r) (auto simp: handle_command_def split: prod.splits)
  with serveStateful_change [OF s] show ?thesis by auto
qed

lemma control_keeps:
  assumes "boxes_ok (fs_mailboxes st)"
  shows "SetMailboxAttributes (Some st) name attributes = (e, Some st') \<Longrightarrow> boxes_ok (fs_mailboxes st')"
    and "ReplaceUIDValidity (Some st) name uidValidity = (e, Some st') \<Longrightarrow> boxes_ok (fs_mailboxes st')"
    and "RemoveMailbox (Some st) name = (e, Some st') \<Longrightarrow> boxes_ok (fs_mailboxes st')"
proof -
  have same: "boxes_ok ((fs_mailboxes st)[i := b])"
    if "i < length (fs_mailboxes st)" "fb_name b = fb_name (fs_mailboxes st ! i)" "fb_messages b = fb_messages (fs_mailboxes st ! i)"
      "fb_uidNext b = fb_uidNext (fs_mailboxes st ! i)" for i b
  proof -
    have "box_ok (fs_mailboxes st ! i)" using assms that(1) by (simp add: boxes_ok_def)
    with that have "box_ok b" by (simp add: box_ok_def)
    with assms that(1,2) show ?thesis by (intro boxes_ok_update)
  qed
  show "SetMailboxAttributes (Some st) name attributes = (e, Some st') \<Longrightarrow> boxes_ok (fs_mailboxes st')"
    using assms same by (auto simp: SetMailboxAttributes_def withMailbox_def split: option.splits dest!: find_name_Some)
  show "ReplaceUIDValidity (Some st) name uidValidity = (e, Some st') \<Longrightarrow> boxes_ok (fs_mailboxes st')"
    using assms same by (auto simp: ReplaceUIDValidity_def withMailbox_def split: option.splits if_splits dest!: find_name_Some)
  assume "RemoveMailbox (Some st) name = (e, Some st')"
  then consider "st' = st" | i where "fs_mailboxes st' = take i (fs_mailboxes st) @ drop (i + 1) (fs_mailboxes st)"
    by (auto simp: RemoveMailbox_def split: option.splits)
  then show "boxes_ok (fs_mailboxes st')"
  proof cases
    case 2
    have "sorted_wrt R (take i xs @ drop (i + 1) xs)" if "sorted_wrt R xs" for R and xs :: "bytes list"
    proof -
      have "drop (i + 1) xs = tl (drop i xs)" by (simp add: drop_Suc tl_drop)
      moreover have "sorted_wrt R (take i xs @ drop i xs)" using that by simp
      ultimately show ?thesis by (cases "drop i xs") (auto simp: sorted_wrt_append)
    qed
    from this [of "\<lambda>a b. \<not> mailboxNameMatches a b" "map fb_name (fs_mailboxes st)"] assms 2 show ?thesis
      by (auto simp: boxes_ok_def names_distinct_def take_map drop_map dest: in_set_takeD in_set_dropD)
  qed (use assms in simp)
qed

lemma fixture_run_ok:
  assumes "fixture_run implicit_tls move seeds f"
  shows "boxes_ok (fs_mailboxes (fx_store f)) \<and> (\<forall>c k. fx_conns f c = Some k \<longrightarrow> conn_ok k)"
  using assms
proof induction
  case (started st)
  have "boxes_ok []" by (simp add: boxes_ok_def names_distinct_def)
  with started seed_mailboxes_ok [of 0 "[]" seeds] show ?case by (auto simp: newMailboxStore_def)
next
  case (stepped f f')
  from stepped(2) show ?case
  proof cases
    case (connected c)
    with stepped.IH show ?thesis by (auto simp: new_conn_def conn_ok_def)
  next
    case (commanded c k handshake following raw lines k' st')
    then have "conn_ok k" using stepped.IH by blast
    with commanded stepped.IH handle_command_conn [of handshake following raw k "fx_store f" lines _ st']
      handle_command_change [of handshake following raw k "fx_store f" lines k' st'] store_change_keeps
    show ?thesis by (auto split: if_splits)
  next
    case ended
    with stepped.IH show ?thesis by (auto split: if_splits)
  next
    case (attributes_set name attributes e st')
    with stepped.IH control_keeps(1) [OF _ attributes_set(2)] show ?thesis by simp
  next
    case (validity_replaced name uidValidity e st')
    with stepped.IH control_keeps(2) [OF _ validity_replaced(2)] show ?thesis by simp
  next
    case (mailbox_removed name e st')
    with stepped.IH control_keeps(3) [OF _ mailbox_removed(2)] show ?thesis by simp
  qed
qed

text \<open>
  Whatever commands any number of connections send to the test server, in whatever order, and however a test
  uses its controls in between: no two mailboxes answer to one name, the UIDs of a mailbox increase, none is 0 and
  each is below the UIDNEXT the next message gets; a connection is authenticated only over TLS and has selected a
  mailbox only once it is.
\<close>

theorem fixture_invariant:
  assumes "fixture_run implicit_tls move seeds f"
  shows "boxes_ok (fs_mailboxes (fx_store f)) \<and> (case fx_conns f c of None \<Rightarrow> True | Some k \<Rightarrow> conn_ok k)"
  by (rule conjI) (use fixture_run_ok [OF assms] in \<open>auto split: option.split\<close>)

text \<open>
  C38. A command of a connection loses, invents and alters no message: up to the \<open>\Seen\<close> flag, the test server
  holds the same flags and bodies after it. It changes anything only for an authenticated connection over TLS that
  opened its mailbox with SELECT, and then only by a \<open>\Seen\<close> STORE in that mailbox, or by a MOVE out of it
  into another mailbox that can be selected, with new UIDs from its UIDNEXT.
\<close>

theorem command_changes:
  assumes "fixture_run implicit_tls move seeds f" and "fx_conns f c = Some k"
    and "handle_command serveStateful handshake following raw k (fx_store f) = (lines, k', st')"
  shows "contents (fs_mailboxes st') = contents (fs_mailboxes (fx_store f)) \<and>
    (st' = fx_store f \<or> (fc_tls k \<and> fc_authenticated k \<and> \<not> sl_readOnly (fc_session k) \<and>
       store_change (fx_store f) (sl_selected (fc_session k)) st'))"
proof -
  have "conn_ok k" "boxes_ok (fs_mailboxes (fx_store f))" using fixture_run_ok [OF assms(1)] assms(2) by auto
  with handle_command_change [OF assms(3)] store_change_keeps show ?thesis by (auto simp: conn_ok_def)
qed

section \<open>A run\<close>

definition sample_seeds :: "MailboxSeed list" where
  "sample_seeds =
     [\<lparr>sx_Name = ''INBOX'', sx_Attributes = [], sx_UIDValidity = 0, sx_Messages = [\<lparr>sd_UID = 0, sd_Flags = [], sd_Body = ''x''\<rparr>]\<rparr>,
      \<lparr>sx_Name = ''Archive'', sx_Attributes = [], sx_UIDValidity = 7, sx_Messages = []\<rparr>]"

definition sample_store :: mailboxStore where
  "sample_store = \<lparr>fs_move = True, fs_mailboxes =
     [\<lparr>fb_name = ''INBOX'', fb_attributes = [], fb_uidValidity = 1001, fb_uidNext = 2, fb_messages = [\<lparr>fm_uid = 1, fm_flags = [], fm_body = ''x''\<rparr>]\<rparr>,
      \<lparr>fb_name = ''Archive'', fb_attributes = [], fb_uidValidity = 7, fb_uidNext = 1, fb_messages = []\<rparr>]\<rparr>"

definition sample_moved :: mailboxStore where
  "sample_moved = \<lparr>fs_move = True, fs_mailboxes =
     [\<lparr>fb_name = ''INBOX'', fb_attributes = [], fb_uidValidity = 1001, fb_uidNext = 2, fb_messages = []\<rparr>,
      \<lparr>fb_name = ''Archive'', fb_attributes = [], fb_uidValidity = 7, fb_uidNext = 2, fb_messages = [\<lparr>fm_uid = 1, fm_flags = [], fm_body = ''x''\<rparr>]\<rparr>]\<rparr>"

definition sample_conn :: "bool \<Rightarrow> bytes \<Rightarrow> fixture_conn" where
  "sample_conn authenticated selected = \<lparr>fc_tls = True, fc_authenticated = authenticated, fc_session = \<lparr>sl_selected = selected, sl_readOnly = False\<rparr>\<rparr>"

lemma sample_commands:
  "newMailboxStore True sample_seeds = Some sample_store"
  "snd (handle_command serveStateful True None ''a1 LOGIN u p'' (new_conn True) sample_store) = (Some (sample_conn True []), sample_store)"
  "snd (handle_command serveStateful True None ''a2 SELECT inbox'' (sample_conn True []) sample_store) = (Some (sample_conn True ''INBOX''), sample_store)"
  "snd (handle_command serveStateful True None ''a3 UID MOVE 1:* Archive'' (sample_conn True ''INBOX'') sample_store) = (Some (sample_conn True ''INBOX''), sample_moved)"
  by code_simp+

lemma sample_run: "fixture_run True True sample_seeds \<lparr>fx_store = sample_store, fx_conns = [0 \<mapsto> sample_conn True ''INBOX'']\<rparr>"
proof -
  have step: "fixture_run True True sample_seeds \<lparr>fx_store = sample_store, fx_conns = [0 \<mapsto> k]\<rparr> \<Longrightarrow>
     snd (handle_command serveStateful True None raw k sample_store) = (Some k', sample_store) \<Longrightarrow>
     fixture_run True True sample_seeds \<lparr>fx_store = sample_store, fx_conns = [0 \<mapsto> k']\<rparr>" for k raw k'
    using fixture_run.stepped [OF _ fixture_step.commanded [where c = 0 and k = k and k' = "Some k'" and st' = sample_store and
        handshake = True and following = None and raw = raw and lines = "fst (handle_command serveStateful True None raw k sample_store)"]]
    by (metis (no_types, lifting) fixture.select_convs fun_upd_same fun_upd_upd prod.collapse)
  have "fixture_run True True sample_seeds \<lparr>fx_store = sample_store, fx_conns = [0 \<mapsto> new_conn True]\<rparr>"
    using fixture_run.stepped [OF fixture_run.started [OF sample_commands(1)] fixture_step.connected [where c = 0]] by simp
  from step [OF step [OF this sample_commands(2)] sample_commands(3)] show ?thesis .
qed

theorem fixture_invariant_witness:
  "\<exists>f. fixture_run True True sample_seeds f \<and> fx_conns f 0 \<noteq> None \<and> boxes_ok (fs_mailboxes (fx_store f))"
  using sample_run fixture_invariant [OF sample_run] by (intro exI [of _ "\<lparr>fx_store = sample_store, fx_conns = [0 \<mapsto> sample_conn True ''INBOX'']\<rparr>"]) simp

theorem command_changes_witness:
  "sample_moved \<noteq> sample_store \<and> contents (fs_mailboxes sample_moved) = contents (fs_mailboxes sample_store)"
proof -
  let ?run = "handle_command serveStateful True None ''a3 UID MOVE 1:* Archive'' (sample_conn True ''INBOX'') sample_store"
  have run: "handle_command serveStateful True None ''a3 UID MOVE 1:* Archive'' (sample_conn True ''INBOX'')
      (fx_store \<lparr>fx_store = sample_store, fx_conns = [0 \<mapsto> sample_conn True ''INBOX'']\<rparr>) = (fst ?run, Some (sample_conn True ''INBOX''), sample_moved)"
    unfolding fixture.select_convs by (metis sample_commands(4) prod.collapse)
  have "contents (fs_mailboxes sample_moved) = contents (fs_mailboxes sample_store)"
    using command_changes [OF sample_run _ run, of 0] by simp
  moreover have "sample_moved \<noteq> sample_store" by (simp add: sample_moved_def sample_store_def)
  ultimately show ?thesis by blast
qed

end
