(* ===== verification/Fixture_Transcript.thy ===== *)
theory Fixture_Transcript
  imports Fixture_Server
begin

text \<open>
  What the tests conclude from the commands the server recorded: the read-only assertion of
  \<^verbatim>\<open>internal/testkit/server.go\<close>, the exact parser of \<^verbatim>\<open>internal/testkit/transcript.go\<close>, and the one-shot faults of
  \<^verbatim>\<open>internal/testkit/faults.go\<close>, which choose their command with that parser. The properties relate both readings of
  a command to what the server does with it.
\<close>

section \<open>The read-only assertion\<close>

record fixture_command =
  cd_Sequence :: nat
  cd_ConnectionID :: nat
  cd_Raw :: bytes
  cd_Name :: bytes
  cd_TLS :: bool

definition record_command :: "fixture_command list \<Rightarrow> bytes \<Rightarrow> bytes \<Rightarrow> bool \<Rightarrow> nat \<Rightarrow> fixture_command \<times> fixture_command list" where
  "record_command commands raw name tls connectionID =
     (let c = \<lparr>cd_Sequence = length commands + 1, cd_ConnectionID = connectionID, cd_Raw = raw, cd_Name = name, cd_TLS = tls\<rparr>
      in (c, commands @ [c]))"

definition effectiveCommandName :: "fixture_command \<Rightarrow> bytes" where
  "effectiveCommandName c =
     (if cd_Name c \<noteq> ''UID'' then cd_Name c
      else let fields = go_fields (cd_Raw c) in
        if length fields < 3 then cd_Name c else ''UID '' @ to_upper (fields ! 2))"

definition isReadOnlyCommand :: "bytes \<Rightarrow> bool" where
  "isReadOnlyCommand name =
     (if has_prefix name ''UID '' then trim_prefix name ''UID '' \<in> {''FETCH'', ''SEARCH'', ''SORT'', ''THREAD''}
      else name \<in> {''CAPABILITY'', ''STARTTLS'', ''LOGIN'', ''AUTHENTICATE'', ''LOGOUT'', ''NOOP'', ''ID'', ''ENABLE'',
        ''LIST'', ''LSUB'', ''STATUS'', ''NAMESPACE'', ''EXAMINE'', ''SEARCH'', ''FETCH'', ''SORT'', ''THREAD'',
        ''GETACL'', ''LISTRIGHTS'', ''MYRIGHTS'', ''GETQUOTA'', ''GETQUOTAROOT'', ''GETMETADATA'', ''GETANNOTATION'',
        ''IDLE'', ''UNSELECT''})"

text \<open>\<^verbatim>\<open>strings.ReplaceAll\<close> of a text that is not empty by the empty text.\<close>

function remove_all :: "bytes \<Rightarrow> bytes \<Rightarrow> bytes" where
  "remove_all s old =
     (if s = [] \<or> old = [] then s
      else if has_prefix s old then remove_all (drop (length old) s) old
      else hd s # remove_all (tl s) old)"
  by pat_completeness auto
termination by (relation "measure (\<lambda>(s, old). length s)") auto

declare remove_all.simps [simp del]

definition isUnsafeBodyFetch :: "fixture_command \<Rightarrow> bool" where
  "isUnsafeBodyFetch c =
     (if trim_prefix (effectiveCommandName c) ''UID '' \<noteq> ''FETCH'' then False
      else let upper = foldl remove_all (to_upper (cd_Raw c)) [''BODY.PEEK['', ''BINARY.PEEK['', ''RFC822.SIZE'', ''RFC822.HEADER''] in
        contains_bytes upper ''BODY['' \<or> contains_bytes upper ''BODY<'' \<or> contains_bytes upper ''BINARY['' \<or> contains_bytes upper ''RFC822'')"

text \<open>\<open>None\<close> is no violation; otherwise the names and sequence numbers of the violations.\<close>

definition AssertReadOnlyCommands :: "fixture_command list \<Rightarrow> (bytes \<times> nat) list option" where
  "AssertReadOnlyCommands commands =
     (case filter (\<lambda>c. \<not> isReadOnlyCommand (effectiveCommandName c) \<or> isUnsafeBodyFetch c) commands of
        [] \<Rightarrow> None
      | violations \<Rightarrow> Some (map (\<lambda>c. (effectiveCommandName c, cd_Sequence c)) violations))"

definition AssertNoInsecureAuthentication :: "fixture_command list \<Rightarrow> (bytes \<times> nat) option" where
  "AssertNoInsecureAuthentication commands =
     map_option (\<lambda>c. (cd_Name c, cd_Sequence c)) (find (\<lambda>c. \<not> cd_TLS c \<and> cd_Name c \<in> {''LOGIN'', ''AUTHENTICATE''}) commands)"

section \<open>The transcript parser\<close>

definition isAtomChar :: "char \<Rightarrow> bool" where
  "isAtomChar c \<longleftrightarrow> 32 < byte_val c \<and> byte_val c < 127 \<and>
     c \<notin> set [CHR ''('', CHR '')'', CHR ''{'', CHR ''%'', CHR ''*'', DQUOTE, BACKSLASH, CHR '']'']"

definition isAstringChar :: "char \<Rightarrow> bool" where
  "isAstringChar c \<longleftrightarrow> isAtomChar c \<or> c = CHR '']''"

definition isTagChar :: "char \<Rightarrow> bool" where
  "isTagChar c \<longleftrightarrow> isAstringChar c \<and> c \<noteq> CHR ''+''"

definition isSequenceSetChar :: "char \<Rightarrow> bool" where
  "isSequenceSetChar c \<longleftrightarrow> is_digit c \<or> c = CHR '':'' \<or> c = CHR '','' \<or> c = CHR ''*''"

record TranscriptCommand =
  tr_Sequence :: nat
  tr_ConnectionID :: nat
  tr_TLS :: bool
  tr_Tag :: bytes
  tr_Verb :: bytes
  tr_Arguments :: bytes
  tr_Set :: bytes
  tr_Ranges :: "(uint32 \<times> uint32) list"
  tr_Store :: bytes
  tr_Silent :: bool
  tr_Flags :: "bytes list"
  tr_Destination :: bytes

definition parseSequenceNumber :: "bytes \<Rightarrow> uint32 option" where
  "parseSequenceNumber txt =
     (if txt = ''*'' then Some 0
      else if txt = [] \<or> \<not> is_digit (hd txt) \<or> hd txt = CHR ''0'' then None
      else map_option of_nat (parse_uint 32 txt))"

fun sequence_elements :: "bytes list \<Rightarrow> (uint32 \<times> uint32) list option" where
  "sequence_elements [] = Some []"
| "sequence_elements (element # elements) =
     (case cut_byte (CHR '':'') element of (startText, stopText0, isRange) \<Rightarrow>
        let stopText = (if isRange then stopText0 else startText) in
        case (parseSequenceNumber startText, parseSequenceNumber stopText) of
          (Some s, Some e) \<Rightarrow> map_option ((#) (s, e)) (sequence_elements elements)
        | _ \<Rightarrow> None)"

definition parseSequenceSet :: "bytes \<Rightarrow> (uint32 \<times> uint32) list option" where
  "parseSequenceSet txt = (if txt = [] then None else sequence_elements (split_byte (CHR '','') txt))"

text \<open>A cursor is the text it has left; \<open>cursor_run\<close> is what it takes and what is left then.\<close>

definition cursor_run :: "(char \<Rightarrow> bool) \<Rightarrow> bytes \<Rightarrow> bytes \<times> bytes" where
  "cursor_run allowed cursor = (takeWhile allowed cursor, dropWhile allowed cursor)"

definition cursor_consume :: "char \<Rightarrow> bytes \<Rightarrow> bytes option" where
  "cursor_consume c cursor = (case cursor of [] \<Rightarrow> None | d # rest \<Rightarrow> if d = c then Some rest else None)"

definition cursor_flag :: "bytes \<Rightarrow> bytes \<times> bytes" where
  "cursor_flag cursor =
     (let (slash, rest) = (case cursor_consume BACKSLASH cursor of None \<Rightarrow> ([], cursor) | Some r \<Rightarrow> ([BACKSLASH], r));
          (atom, rest') = cursor_run isAtomChar rest in
      if atom = [] then ([], cursor) else (slash @ atom, rest'))"

lemma cursor_consume_Some: "cursor_consume c cursor = Some rest \<longleftrightarrow> cursor = c # rest"
  by (cases cursor) (auto simp: cursor_consume_def)

lemma cursor_flag_shorter:
  assumes "cursor_flag cursor = (flag, rest)" and "flag \<noteq> []"
  shows "length rest < length cursor"
proof -
  obtain slash r where sr: "(case cursor_consume BACKSLASH cursor of None \<Rightarrow> ([], cursor) | Some r \<Rightarrow> ([BACKSLASH], r)) = (slash, r)"
    by fastforce
  then have r: "length r \<le> length cursor" by (auto simp: cursor_consume_Some split: option.splits)
  from assms sr have "takeWhile isAtomChar r \<noteq> []" "rest = dropWhile isAtomChar r"
    by (auto simp: cursor_flag_def cursor_run_def Let_def split: if_splits)
  then have "length rest < length r" by (metis length_append length_greater_0_conv less_add_same_cancel2 takeWhile_dropWhile_id)
  with r show ?thesis by simp
qed

text \<open>The loop over the flags of a STORE.\<close>

function store_flags :: "bool \<Rightarrow> bytes list \<Rightarrow> bytes \<Rightarrow> (bytes list \<times> bytes) option" where
  "store_flags parenthesized flags cursor =
     (case if parenthesized then cursor_consume (CHR '')'') cursor else None of
        Some rest \<Rightarrow> Some (flags, rest)
      | None \<Rightarrow>
        (case if flags \<noteq> [] then cursor_consume SP cursor else Some cursor of
           None \<Rightarrow> None
         | Some cursor1 \<Rightarrow>
           (case cursor_flag cursor1 of (flag, rest) \<Rightarrow>
              if flag = [] then None
              else if \<not> parenthesized \<and> rest = [] then Some (flags @ [flag], rest)
              else store_flags parenthesized (flags @ [flag]) rest)))"
  by pat_completeness auto
termination
proof (relation "measure (\<lambda>(p, flags, cursor). length cursor)", goal_cases)
  case (2 parenthesized flags cursor cursor1 flag rest)
  then have "length rest < length cursor1" using cursor_flag_shorter by metis
  moreover have "length cursor1 \<le> length cursor"
    using 2 by (auto simp: cursor_consume_def split: if_splits list.splits)
  ultimately show ?case by simp
qed simp

declare store_flags.simps [simp del]

fun quoted_destination :: "bytes \<Rightarrow> bytes \<Rightarrow> (bytes \<times> bytes) option" where
  "quoted_destination destination [] = None"
| "quoted_destination destination (c # s) =
     (if c = DQUOTE then Some (destination, s)
      else if c = BACKSLASH then
        (case s of [] \<Rightarrow> None
         | d # s' \<Rightarrow> if d \<noteq> DQUOTE \<and> d \<noteq> BACKSLASH then None else quoted_destination (destination @ [d]) s')
      else quoted_destination (destination @ [c]) s)"

definition parseSetOperand :: "TranscriptCommand \<Rightarrow> bytes \<Rightarrow> (TranscriptCommand \<times> bytes) option" where
  "parseSetOperand p cursor = (case cursor_run isSequenceSetChar cursor of (uids, rest) \<Rightarrow>
     map_option (\<lambda>ranges. (p\<lparr>tr_Set := uids, tr_Ranges := ranges\<rparr>, rest)) (parseSequenceSet uids))"

definition parseSet :: "TranscriptCommand \<Rightarrow> bytes \<Rightarrow> (TranscriptCommand \<times> bytes) option" where
  "parseSet p cursor = (case parseSetOperand p cursor of
      None \<Rightarrow> None
    | Some (p', rest) \<Rightarrow> map_option (Pair p') (cursor_consume SP rest))"

definition parseStore :: "TranscriptCommand \<Rightarrow> bytes \<Rightarrow> (TranscriptCommand \<times> bytes) option" where
  "parseStore p cursor = (case parseSet p cursor of
      None \<Rightarrow> None
    | Some (p1, c1) \<Rightarrow>
      (case cursor_run isAtomChar c1 of (operation, c2) \<Rightarrow>
       (case cut_suffix (to_upper operation) ''.SILENT'' of (verb, silent) \<Rightarrow>
        if verb \<notin> {''FLAGS'', ''+FLAGS'', ''-FLAGS''} then None
        else (case cursor_consume SP c2 of
            None \<Rightarrow> None
          | Some c3 \<Rightarrow>
            if c3 = [] then None
            else let (parenthesized, c4) = (case cursor_consume (CHR ''('') c3 of None \<Rightarrow> (False, c3) | Some r \<Rightarrow> (True, r)) in
              map_option (\<lambda>(flags, rest). (p1\<lparr>tr_Store := verb, tr_Silent := silent, tr_Flags := flags\<rparr>, rest))
                (store_flags parenthesized [] c4)))))"

definition parseTransfer :: "TranscriptCommand \<Rightarrow> bytes \<Rightarrow> (TranscriptCommand \<times> bytes) option" where
  "parseTransfer p cursor = (case parseSet p cursor of
      None \<Rightarrow> None
    | Some (p1, c1) \<Rightarrow> (case cursor_consume DQUOTE c1 of
        None \<Rightarrow> (case cursor_run isAstringChar c1 of (destination, rest) \<Rightarrow>
            if destination = [] then None else Some (p1\<lparr>tr_Destination := destination\<rparr>, rest))
      | Some c2 \<Rightarrow> map_option (\<lambda>(destination, rest). (p1\<lparr>tr_Destination := destination\<rparr>, rest)) (quoted_destination [] c2)))"

text \<open>The verb and what follows it; a verb \<open>UID\<close> takes its subcommand with it.\<close>

definition transcript_verb :: "bytes \<Rightarrow> (bytes \<times> bytes) option" where
  "transcript_verb cursor = (case cursor_run isAtomChar cursor of (verb, c1) \<Rightarrow>
     if verb = [] then None
     else if to_upper verb \<noteq> ''UID'' then Some (to_upper verb, c1)
     else (case cursor_consume SP c1 of
         None \<Rightarrow> None
       | Some c2 \<Rightarrow> (case cursor_run isAtomChar c2 of (sub, c3) \<Rightarrow>
           if sub = [] then None else Some (''UID '' @ to_upper sub, c3))))"

text \<open>The operands that have a structure; nothing may follow them.\<close>

definition transcript_operands :: "bytes \<Rightarrow> TranscriptCommand \<Rightarrow> TranscriptCommand option" where
  "transcript_operands arguments p =
     (let whole = (\<lambda>r. case r of None \<Rightarrow> None | Some (p', rest) \<Rightarrow> if rest = [] then Some p' else None) in
      if tr_Verb p \<in> {''STORE'', ''UID STORE''} then whole (parseStore p arguments)
      else if tr_Verb p \<in> {''COPY'', ''UID COPY'', ''MOVE'', ''UID MOVE''} then whole (parseTransfer p arguments)
      else if tr_Verb p = ''UID EXPUNGE'' then whole (parseSetOperand p arguments)
      else Some p)"

definition ParseTranscriptCommand :: "fixture_command \<Rightarrow> TranscriptCommand option" where
  "ParseTranscriptCommand c =
     (if list_ex (\<lambda>x. byte_val x < 32 \<or> byte_val x = 127) (cd_Raw c) then None
      else case cursor_run isTagChar (cd_Raw c) of (tag, c1) \<Rightarrow>
        if tag = [] then None
        else case Option.bind (cursor_consume SP c1) transcript_verb of
          None \<Rightarrow> None
        | Some (verb, c2) \<Rightarrow>
          (case if c2 = [] then Some [] else (case cursor_consume SP c2 of None \<Rightarrow> None | Some r \<Rightarrow> if r = [] then None else Some r) of
             None \<Rightarrow> None
           | Some arguments \<Rightarrow>
             transcript_operands arguments \<lparr>tr_Sequence = cd_Sequence c, tr_ConnectionID = cd_ConnectionID c, tr_TLS = cd_TLS c, tr_Tag = tag,
               tr_Verb = verb, tr_Arguments = arguments, tr_Set = [], tr_Ranges = [], tr_Store = [], tr_Silent = False, tr_Flags = [],
               tr_Destination = []\<rparr>))"

section \<open>Words and tokens\<close>

definition printable :: "char \<Rightarrow> bool" where
  "printable c \<longleftrightarrow> 32 \<le> byte_val c \<and> byte_val c < 127"

definition word_char :: "char \<Rightarrow> bool" where
  "word_char c \<longleftrightarrow> 32 < byte_val c \<and> byte_val c < 127"

lemma byte_val_SP: "byte_val SP = 32"
  by (simp add: byte_val_def)

lemma word_char_iff: "word_char c \<longleftrightarrow> printable c \<and> c \<noteq> SP"
proof -
  have "byte_val c = 32 \<longleftrightarrow> c = SP"
    by (metis char_of_byte_val byte_val_SP)
  then show ?thesis by (auto simp: word_char_def printable_def)
qed

lemma space_width_word: "word_char c \<Longrightarrow> space_width (c # s) = 0"
proof -
  assume c: "word_char c"
  have "list_all (\<lambda>p. p \<noteq> [] \<and> \<not> word_char (hd p)) space_runes"
    by (simp add: space_runes_def word_char_def byte_val_def)
  then have "p \<in> set space_runes \<Longrightarrow> \<not> has_prefix (c # s) p" for p
    using c by (cases p) (auto simp: list_all_iff has_prefix_def)
  then have "find (has_prefix (c # s)) space_runes = None" by (auto simp: find_None_iff)
  then show ?thesis by (simp add: space_width_def)
qed

lemma space_width_blank: "space_width (SP # s) = 1"
  by (simp add: space_width_def space_runes_def has_prefix_def)

lemma fields_from_word: "list_all word_char w \<Longrightarrow> fields_from v (w @ s) = fields_from (rev w @ v) s"
proof (induction w arbitrary: v)
  case (Cons c w)
  then have "fields_from v ((c # w) @ s) = fields_from (c # v) (w @ s)"
    by (subst fields_from.simps) (simp add: space_width_word)
  with Cons show ?case by simp
qed simp

lemma fields_from_Nil: "fields_from v [] = (if v = [] then [] else [rev v])"
  by (subst fields_from.simps) simp

lemma fields_from_SP: "fields_from v (SP # s) = (if v = [] then [] else [rev v]) @ go_fields s"
  by (subst fields_from.simps) (simp add: space_width_blank go_fields_def)

lemma go_fields_SP [simp]: "go_fields (SP # s) = go_fields s"
  by (simp add: go_fields_def fields_from_SP)

lemma go_fields_word: "w \<noteq> [] \<Longrightarrow> list_all word_char w \<Longrightarrow> go_fields (w @ SP # s) = w # go_fields s"
  "w \<noteq> [] \<Longrightarrow> list_all word_char w \<Longrightarrow> go_fields w = [w]"
  using fields_from_word [of w "[]" "SP # s"] fields_from_word [of w "[]" "[]"]
  by (simp_all add: go_fields_def fields_from_SP fields_from_Nil)

lemma go_fields_spaces: "go_fields (dropWhile (\<lambda>c. c = SP) s) = go_fields s"
  by (induction s) simp_all

text \<open>The first word of a printable text.\<close>

lemma go_fields_first:
  assumes "list_all printable s" and "s \<noteq> []" and "hd s \<noteq> SP"
  shows "\<exists>fs. go_fields s = takeWhile (\<lambda>c. c \<noteq> SP) s # fs"
proof -
  define w where "w = takeWhile (\<lambda>c. c \<noteq> SP) s"
  have "w \<noteq> []" using assms(2,3) by (cases s) (simp_all add: w_def)
  have "list_all word_char w"
    using assms(1) by (auto simp: w_def list_all_iff word_char_iff dest: set_takeWhileD)
  have "s = w \<or> (\<exists>t. s = w @ SP # t)"
  proof (cases "dropWhile (\<lambda>c. c \<noteq> SP) s")
    case Nil
    then show ?thesis unfolding w_def by (metis append_Nil2 takeWhile_dropWhile_id)
  next
    case (Cons d t)
    then have "d = SP" using hd_dropWhile [of "\<lambda>c. c \<noteq> SP" s] by simp
    with Cons show ?thesis unfolding w_def by (metis takeWhile_dropWhile_id)
  qed
  with go_fields_word \<open>w \<noteq> []\<close> \<open>list_all word_char w\<close> show ?thesis unfolding w_def [symmetric] by metis
qed

lemma to_upper_fixed: "c \<in> set s \<Longrightarrow> ascii_upper c = c \<Longrightarrow> byte_val c < 128 \<Longrightarrow> c \<in> set (to_upper s)"
proof (induction s rule: to_upper.induct)
  case (1 a b s)
  have "byte_val (CHR 0xC5) = 197" "byte_val (CHR 0xBF) = 191" "byte_val (CHR 0xC4) = 196" "byte_val (CHR 0xB1) = 177"
    by (simp_all add: byte_val_def)
  with "1.prems" have "c \<noteq> CHR 0xC5" "c \<noteq> CHR 0xBF" "c \<noteq> CHR 0xC4" "c \<noteq> CHR 0xB1" by auto
  with 1 show ?case by auto
qed simp_all

lemma to_upper_keeps: "c \<in> set s \<Longrightarrow> c \<in> {CHR ''('', CHR '')'', CHR ''['', CHR '']'', DQUOTE} \<Longrightarrow> c \<in> set (to_upper s)"
  by (rule to_upper_fixed) (auto simp: ascii_upper_def byte_val_def)

lemma atom_scan_word:
  "\<forall>c \<in> set w. c \<notin> {SP, CHR ''('', CHR '')'', CHR ''['', CHR '']''} \<Longrightarrow> t = [] \<or> hd t = SP \<Longrightarrow> atom_scan 0 (w @ t) = (w, t, 0)"
proof (induction w)
  case Nil
  then show ?case by (cases t) auto
next
  case (Cons c w)
  then show ?case by auto
qed

lemma atom_scan_extends:
  "\<forall>c \<in> set w. c \<notin> {SP, CHR ''('', CHR '')''} \<Longrightarrow> prefix w (fst (atom_scan depth (w @ t)))"
proof (induction w arbitrary: depth)
  case (Cons c w)
  obtain atom rest d where a: "atom_scan (if c = CHR ''['' then depth + 1 else if c = CHR '']'' then depth - 1 else depth) (w @ t) = (atom, rest, d)"
    by (metis prod_cases3)
  with Cons have "prefix w atom" by (metis fst_conv list.set_intros(2))
  with a Cons.prems show ?case by simp
qed simp

text \<open>The tokens begin with those collected, and the first one is the atom at the first character that is not a space.\<close>

lemma tokenizeList_collects: "tokenizeList nested tokens s = Inr (l, []) \<Longrightarrow> \<not> nested \<Longrightarrow> prefix tokens l"
proof (induction nested tokens s arbitrary: l rule: tokenizeList.induct)
  case (1 nested tokens input0)
  define input where "input = dropWhile (\<lambda>c. c = SP) input0"
  note unfolded = "1.prems"(1) [unfolded tokenizeList.simps [of nested tokens input0] Let_def input_def [symmetric]]
  show ?case
  proof (cases input)
    case Nil
    with unfolded "1.prems"(2) show ?thesis by simp
  next
    case (Cons c s)
    consider "c = CHR '')''" | "c = CHR ''(''" | "c = DQUOTE" | "c \<noteq> CHR '')''" "c \<noteq> CHR ''(''" "c \<noteq> DQUOTE" by blast
    then show ?thesis
    proof cases
      case 1
      with unfolded Cons "1.prems"(2) show ?thesis by simp
    next
      case 2
      with unfolded Cons obtain list r where r: "tokenizeList True [] s = Inr (list, r)" "\<not> length s < length r"
        "tokenizeList nested (tokens @ [ListToken list]) r = Inr (l, [])" by (auto split: sum.splits if_splits)
      from "1.IH"(2) [OF input_def Cons _ 2 r(1) refl r(2,3) "1.prems"(2)] 2 show ?thesis by (auto dest: append_prefixD)
    next
      case 3
      with unfolded Cons obtain v r where r: "readQuoted [] s = Inr (v, r)"
        "tokenizeList nested (tokens @ [Token v True]) r = Inr (l, [])" by (auto split: sum.splits)
      from "1.IH"(3) [OF input_def Cons _ _ 3 r(1) refl r(2) "1.prems"(2)] 3 show ?thesis by (auto dest: append_prefixD)
    next
      case 4
      obtain atom r depth where a: "atom_scan 0 input = (atom, r, depth)" by (metis prod_cases3)
      with unfolded Cons 4 have r: "depth = 0" "tokenizeList nested (tokens @ [Token atom False]) r = Inr (l, [])"
        by (simp_all only: list.case if_False prod.case sum.simps split: if_splits)
      from "1.IH"(4) [OF input_def Cons 4 a [symmetric] refl _ r(2) "1.prems"(2)] r(1) show ?thesis by (auto dest: append_prefixD)
    qed
  qed
qed

lemma tokenizeList_first:
  assumes "tokenizeList False [] s0 = Inr (sub # operands, [])" and "dropWhile (\<lambda>c. c = SP) s0 = s"
    and "s \<noteq> []" and "hd s \<notin> {CHR ''('', CHR '')'', DQUOTE}"
  shows "sub = Token (fst (atom_scan 0 s)) False"
proof -
  obtain c t where s: "s = c # t" using assms(3) by (cases s) auto
  obtain atom r depth where a: "atom_scan 0 s = (atom, r, depth)" by (metis prod_cases3)
  have c: "c \<noteq> CHR ''(''" "c \<noteq> CHR '')''" "c \<noteq> DQUOTE" using assms(4) s by simp_all
  note unfolded = assms(1) [unfolded tokenizeList.simps [of False "[]" s0] Let_def assms(2)]
  have "depth = 0 \<and> tokenizeList False ([] @ [Token atom False]) r = Inr (sub # operands, [])"
    using unfolded c by (simp only: s list.case if_False a [unfolded s] prod.case sum.simps split: if_splits)
  then have "tokenizeList False [Token atom False] r = Inr (sub # operands, [])" by simp
  from tokenizeList_collects [OF this] a show ?thesis by simp
qed

lemma tokenizeList_nonempty:
  assumes "tokenizeList False [] s0 = Inr (sub # operands, [])"
  shows "dropWhile (\<lambda>c. c = SP) s0 \<noteq> []"
  using assms [unfolded tokenizeList.simps [of False "[]" s0] Let_def] by (cases "dropWhile (\<lambda>c. c = SP) s0") simp_all

lemma tokenizeArguments_split:
  assumes "tokenizeArguments raw = Inr (sub # operands)"
  obtains f0 f1 r where "raw = f0 @ SP # f1 @ SP # r" "SP \<notin> set f0" "SP \<notin> set f1" "tokenizeList False [] r = Inr (sub # operands, [])"
proof -
  obtain f0 r1 b0 where c0: "cut_byte SP raw = (f0, r1, b0)" by (metis prod_cases3)
  with assms have b0: b0 by (auto simp: tokenizeArguments_def split: if_splits)
  obtain f1 r b1 where c1: "cut_byte SP r1 = (f1, r, b1)" by (metis prod_cases3)
  with c0 b0 assms have b1: b1 by (auto simp: tokenizeArguments_def split: if_splits)
  with c0 c1 b0 assms have "tokenizeList False [] r = Inr (sub # operands, [])"
    by (auto simp: tokenizeArguments_def split: sum.splits if_splits)
  with c0 c1 b0 b1 show thesis using that by (simp add: cut_byte_found)
qed

text \<open>A change needs the token \<^verbatim>\<open>STORE\<close> or \<^verbatim>\<open>MOVE\<close> where the server looks for the subcommand.\<close>

lemma change_tokens:
  assumes "handle_command serveStateful handshake following raw k st = (lines, k', st')" and "st' \<noteq> st"
  obtains tag f0 f1 r sub operands where "parseCommand raw = (tag, ''UID'')" "raw = f0 @ SP # f1 @ SP # r" "SP \<notin> set f0" "SP \<notin> set f1"
    "tokenizeList False [] r = Inr (sub # operands, [])" "to_upper (token_value sub) \<in> {''STORE'', ''MOVE''}"
proof -
  obtain tag name where p: "parseCommand raw = (tag, name)" by fastforce
  obtain q session st1 where s: "serveStateful st (fc_session k) tag name raw (fc_tls k) (fc_authenticated k) = (q, session, st1)" by (metis prod_cases3)
  with assms(1) p have "st' = st1" by (cases q) (auto simp: handle_command_def split: prod.splits)
  with serveStateful_change [OF s] assms(2) obtain sub operands where t: "name = ''UID''" "tokenizeArguments raw = Inr (sub # operands)"
    "to_upper (token_value sub) \<in> {''STORE'', ''MOVE''}" by auto
  from tokenizeArguments_split [OF t(2)] p t that show thesis by metis
qed

lemma mutating_upper: "to_upper v \<in> {''STORE'', ''MOVE''} \<Longrightarrow> CHR ''['' \<notin> set v"
  using to_upper_keeps [of "CHR ''[''" v] by auto

section \<open>What the readings show\<close>

lemma first_word:
  assumes "list_all printable r" and "tokenizeList False [] r = Inr (sub # operands, [])"
    and "go_fields r = w # fs" and "\<forall>c \<in> {CHR ''('', CHR '')'', CHR ''['', CHR '']'', DQUOTE}. c \<notin> set (to_upper w)"
  shows "token_value sub = w"
proof -
  define s where "s = dropWhile (\<lambda>c. c = SP) r"
  have s: "s \<noteq> []" using tokenizeList_nonempty [OF assms(2)] by (simp add: s_def)
  have sp: "hd s \<noteq> SP" using s hd_dropWhile [of "\<lambda>c. c = SP" r] by (simp add: s_def)
  have "list_all printable s" using assms(1) by (auto simp: s_def list_all_iff dest: set_dropWhileD)
  from go_fields_first [OF this s sp] assms(3) have w: "w = takeWhile (\<lambda>c. c \<noteq> SP) s" by (auto simp: s_def go_fields_spaces)
  have plain: "c \<in> set w \<Longrightarrow> c \<notin> {CHR ''('', CHR '')'', CHR ''['', CHR '']'', DQUOTE}" for c
    using assms(4) to_upper_keeps [of c w] by blast
  have "hd s \<in> set w" using s sp unfolding w by (cases s) simp_all
  with plain have "hd s \<notin> {CHR ''('', CHR '')'', DQUOTE}" by blast
  from tokenizeList_first [OF assms(2) s_def [symmetric] s this] have sub: "sub = Token (fst (atom_scan 0 s)) False" .
  define t where "t = dropWhile (\<lambda>c. c \<noteq> SP) s"
  have "t = [] \<or> hd t = SP" using hd_dropWhile [of "\<lambda>c. c \<noteq> SP" s] by (auto simp: t_def)
  moreover have "\<forall>c \<in> set w. c \<notin> {SP, CHR ''('', CHR '')'', CHR ''['', CHR '']''}"
    using plain by (auto simp: w dest: set_takeWhileD)
  ultimately have "atom_scan 0 (w @ t) = (w, t, 0)" by (intro atom_scan_word)
  moreover have "s = w @ t" by (simp add: w t_def)
  ultimately show ?thesis using sub by simp
qed

lemma go_fields_empty: "list_all printable r \<Longrightarrow> go_fields r = [] \<Longrightarrow> dropWhile (\<lambda>c. c = SP) r = []"
proof (rule ccontr)
  assume a: "list_all printable r" "go_fields r = []" "dropWhile (\<lambda>c. c = SP) r \<noteq> []"
  then have "list_all printable (dropWhile (\<lambda>c. c = SP) r)" by (auto simp: list_all_iff dest: set_dropWhileD)
  from go_fields_first [OF this a(3)] hd_dropWhile [OF a(3)] a(2) show False by (simp add: go_fields_spaces)
qed

text \<open>
  C40. A transcript that passes the read-only assertion shows that nothing was changed: a command recorded in it,
  framed as a tag and printable characters, leaves every mailbox as it was, whatever connection sends it.
\<close>

theorem read_only_transcript:
  assumes "AssertReadOnlyCommands commands = None" and "c \<in> set commands"
    and "cd_Name c = snd (parseCommand (cd_Raw c))" and "list_all printable (cd_Raw c)" and "\<not> has_prefix (cd_Raw c) '' ''"
    and "handle_command serveStateful handshake following (cd_Raw c) k st = (lines, k', st')"
  shows "st' = st"
proof (rule ccontr)
  assume "st' \<noteq> st"
  with assms(6) obtain tag f0 f1 r sub operands where p: "parseCommand (cd_Raw c) = (tag, ''UID'')" and raw: "cd_Raw c = f0 @ SP # f1 @ SP # r"
    and free: "SP \<notin> set f0" "SP \<notin> set f1" and tokens: "tokenizeList False [] r = Inr (sub # operands, [])"
    and upper: "to_upper (token_value sub) \<in> {''STORE'', ''MOVE''}" by (rule change_tokens)
  have printable: "list_all printable f0" "list_all printable f1" "list_all printable r" using assms(4) raw by simp_all
  have "f0 \<noteq> []" using assms(5) raw by (auto simp: has_prefix_def)
  moreover have word: "list_all word_char f0" "list_all word_char f1" using printable free by (auto simp: list_all_iff word_char_iff)
  ultimately have fields: "go_fields (cd_Raw c) = f0 # go_fields (f1 @ SP # r)" using go_fields_word(1) raw by simp
  have name: "effectiveCommandName c \<in> (\<lambda>x. ''UID '' @ x) ` {''FETCH'', ''SEARCH'', ''SORT'', ''THREAD''}"
  proof -
    have ok: "isReadOnlyCommand (effectiveCommandName c)" using assms(1,2) by (auto simp: AssertReadOnlyCommands_def filter_empty_conv split: list.splits)
    have "effectiveCommandName c = ''UID'' \<or> (\<exists>x. effectiveCommandName c = ''UID '' @ x)"
      using assms(3) p by (auto simp: effectiveCommandName_def Let_def)
    with ok show ?thesis by (auto simp: isReadOnlyCommand_def trim_prefix_def cut_prefix_def has_prefix_def split: if_splits)
  qed
  obtain w ws where r: "go_fields r = w # ws"
    using go_fields_empty [OF printable(3)] tokenizeList_nonempty [OF tokens] by (cases "go_fields r") auto
  have w: "to_upper w \<in> {''UID'', ''FETCH'', ''SEARCH'', ''SORT'', ''THREAD''}"
  proof (cases "f1 = []")
    case True
    with fields r p show ?thesis by (simp add: parseCommand_def)
  next
    case False
    with fields r go_fields_word(1) [OF False word(2), of r] have "go_fields (cd_Raw c) = f0 # f1 # w # ws" by simp
    with name assms(3) p show ?thesis by (auto simp: effectiveCommandName_def Let_def)
  qed
  then have "token_value sub = w" by (intro first_word [OF printable(3) tokens r]) auto
  with w upper show False by auto
qed

definition sample_command :: "bytes \<Rightarrow> fixture_command" where
  "sample_command raw = \<lparr>cd_Sequence = 1, cd_ConnectionID = 1, cd_Raw = raw, cd_Name = snd (parseCommand raw), cd_TLS = True\<rparr>"

theorem read_only_transcript_witness:
  "snd (snd (handle_command serveStateful True None ''a3 UID FETCH 1 FLAGS'' (sample_conn True ''INBOX'') sample_store)) = sample_store"
proof -
  let ?c = "sample_command ''a3 UID FETCH 1 FLAGS''"
  let ?run = "handle_command serveStateful True None (cd_Raw ?c) (sample_conn True ''INBOX'') sample_store"
  have ok: "AssertReadOnlyCommands [?c] = None" "list_all printable (cd_Raw ?c)" "\<not> has_prefix (cd_Raw ?c) '' ''" by code_simp+
  have "cd_Name ?c = snd (parseCommand (cd_Raw ?c))" by (simp add: sample_command_def)
  from read_only_transcript [OF ok(1) _ this ok(2,3), of True None "sample_conn True ''INBOX''" sample_store "fst ?run" "fst (snd ?run)" "snd (snd ?run)"]
  have "snd (snd ?run) = sample_store" by simp
  then show ?thesis by (simp add: sample_command_def)
qed

text \<open>
  The framing is needed: \<^verbatim>\<open>strings.Fields\<close> splits at a tab, the server's tokens do not, so this line is a FETCH to the
  assertion and a STORE to the server.
\<close>

lemma tab_hides_store:
  "AssertReadOnlyCommands [sample_command (''a3 UID'' @ TAB # ''FETCH STORE 1 +FLAGS ('' @ BACKSLASH # ''Seen)'')] = None \<and>
   snd (snd (handle_command serveStateful True None (''a3 UID'' @ TAB # ''FETCH STORE 1 +FLAGS ('' @ BACKSLASH # ''Seen)'')
     (sample_conn True ''INBOX'') sample_store)) \<noteq> sample_store"
  by code_simp

lemma atom_chars: "isAtomChar c \<Longrightarrow> word_char c \<and> c \<notin> {SP, CHR ''('', CHR '')'', CHR '']'', DQUOTE}"
proof -
  assume a: "isAtomChar c"
  then have c: "word_char c" "c \<notin> set [CHR ''('', CHR '')'', CHR ''{'', CHR ''%'', CHR ''*'', DQUOTE, BACKSLASH, CHR '']'']"
    unfolding isAtomChar_def word_char_def by blast+
  moreover have "c \<noteq> SP" using c(1) word_char_iff by blast
  ultimately show ?thesis by simp
qed

lemma tag_chars: "isTagChar c \<Longrightarrow> word_char c \<and> c \<noteq> SP"
proof -
  have "word_char (CHR '']'')" by (simp add: word_char_def byte_val_def)
  then show "isTagChar c \<Longrightarrow> word_char c \<and> c \<noteq> SP"
    unfolding isTagChar_def isAstringChar_def using atom_chars word_char_iff by blast
qed

lemma cut_first: "SP \<notin> set f \<Longrightarrow> SP \<notin> set g \<Longrightarrow> f @ SP # r = g @ SP # q \<Longrightarrow> f = g \<and> r = q"
  by (metis cut_byte_append prod.inject)

lemma parseSet_verb:
  "parseSetOperand p cursor = Some (p', rest) \<Longrightarrow> tr_Verb p' = tr_Verb p"
  "parseSet p cursor = Some (p', rest) \<Longrightarrow> tr_Verb p' = tr_Verb p"
  by (auto simp: parseSet_def parseSetOperand_def cursor_run_def split: option.splits)

lemma parseStore_verb: "parseStore p cursor = Some (p', rest) \<Longrightarrow> tr_Verb p' = tr_Verb p"
  by (auto simp: parseStore_def Let_def dest!: parseSet_verb(2) split: option.splits prod.splits if_splits)

lemma parseTransfer_verb: "parseTransfer p cursor = Some (p', rest) \<Longrightarrow> tr_Verb p' = tr_Verb p"
  by (auto simp: parseTransfer_def dest!: parseSet_verb(2) split: option.splits prod.splits if_splits)

lemmas operand_verbs = parseStore_verb parseTransfer_verb parseSet_verb(1)

lemma transcript_operands_verb: "transcript_operands arguments p = Some p' \<Longrightarrow> tr_Verb p' = tr_Verb p"
  by (auto simp: transcript_operands_def Let_def dest: operand_verbs split: if_splits option.splits)

lemma ParseTranscriptCommand_parts:
  assumes "ParseTranscriptCommand c = Some p"
  shows "\<exists>c1 c2 verb. takeWhile isTagChar (cd_Raw c) \<noteq> [] \<and> dropWhile isTagChar (cd_Raw c) = SP # c1 \<and>
    transcript_verb c1 = Some (verb, c2) \<and> (c2 = [] \<or> (\<exists>q. c2 = SP # q)) \<and> tr_Verb p = verb"
proof -
  obtain tag c0 where run: "cursor_run isTagChar (cd_Raw c) = (tag, c0)" by fastforce
  note unfolded = assms [unfolded ParseTranscriptCommand_def run prod.case]
  from unfolded have tag: "tag \<noteq> []" by (simp split: if_splits)
  from unfolded tag obtain b where b: "Option.bind (cursor_consume SP c0) transcript_verb = Some b"
    by (cases "Option.bind (cursor_consume SP c0) transcript_verb") (simp_all split: if_splits)
  obtain verb c2 where "b = (verb, c2)" by fastforce
  with b have v: "Option.bind (cursor_consume SP c0) transcript_verb = Some (verb, c2)" by simp
  from unfolded tag v obtain arguments where a: "(if c2 = [] then Some [] else (case cursor_consume SP c2 of None \<Rightarrow> None | Some r \<Rightarrow> if r = [] then None else Some r)) = Some arguments"
    and p: "transcript_operands arguments \<lparr>tr_Sequence = cd_Sequence c, tr_ConnectionID = cd_ConnectionID c, tr_TLS = cd_TLS c, tr_Tag = tag,
               tr_Verb = verb, tr_Arguments = arguments, tr_Set = [], tr_Ranges = [], tr_Store = [], tr_Silent = False, tr_Flags = [],
               tr_Destination = []\<rparr> = Some p"
    by (simp split: if_splits option.splits)
  from v obtain c1 where c1: "c0 = SP # c1" "transcript_verb c1 = Some (verb, c2)" by (auto simp: bind_eq_Some_conv cursor_consume_Some)
  from a have "c2 = [] \<or> (\<exists>q. c2 = SP # q)" by (auto simp: cursor_consume_Some split: if_splits option.splits)
  with c1 tag run transcript_operands_verb [OF p] show ?thesis by (auto simp: cursor_run_def)
qed

text \<open>
  The transcript parser names every change: if it accepts a recorded command, and the server changed a mailbox when
  it handled it, the verb of the parsed command is \<^verbatim>\<open>UID STORE\<close> or \<^verbatim>\<open>UID MOVE\<close>. So a count of these verbs misses no change.
\<close>

theorem transcript_names_changes:
  assumes "ParseTranscriptCommand c = Some p"
    and "handle_command serveStateful handshake following (cd_Raw c) k st = (lines, k', st')" and "st' \<noteq> st"
  shows "tr_Verb p \<in> {''UID STORE'', ''UID MOVE''}"
proof -
  from assms(2,3) obtain tag0 f0 f1 r sub operands where p: "parseCommand (cd_Raw c) = (tag0, ''UID'')" and raw: "cd_Raw c = f0 @ SP # f1 @ SP # r"
    and free: "SP \<notin> set f0" "SP \<notin> set f1" and tokens: "tokenizeList False [] r = Inr (sub # operands, [])"
    and upper: "to_upper (token_value sub) \<in> {''STORE'', ''MOVE''}" by (rule change_tokens)
  define tag where "tag = takeWhile isTagChar (cd_Raw c)"
  obtain c1 c2 verb where t: "tag \<noteq> []" "dropWhile isTagChar (cd_Raw c) = SP # c1" "transcript_verb c1 = Some (verb, c2)"
    and after: "c2 = [] \<or> (\<exists>q. c2 = SP # q)" and verb: "tr_Verb p = verb"
    using ParseTranscriptCommand_parts [OF assms(1)] unfolding tag_def by metis
  have tag_word: "list_all word_char tag" "SP \<notin> set tag" using tag_chars by (auto simp: tag_def list_all_iff dest: set_takeWhileD)
  have split0: "cd_Raw c = tag @ SP # c1" unfolding tag_def using t(2) by (metis takeWhile_dropWhile_id)
  with raw free tag_word cut_first have c1: "tag = f0" "c1 = f1 @ SP # r" by metis+
  define v where "v = takeWhile isAtomChar c1"
  have v_word: "list_all word_char v" "SP \<notin> set v" using atom_chars by (auto simp: v_def list_all_iff dest: set_takeWhileD)
  have fields: "go_fields (cd_Raw c) = tag # go_fields c1" using go_fields_word(1) [OF t(1) tag_word(1)] split0 by simp
  have v: "v \<noteq> []" "(to_upper v \<noteq> ''UID'' \<and> verb = to_upper v \<and> c2 = dropWhile isAtomChar c1) \<or>
      (to_upper v = ''UID'' \<and> (\<exists>c3 w. dropWhile isAtomChar c1 = SP # c3 \<and> w = takeWhile isAtomChar c3 \<and> w \<noteq> [] \<and>
         verb = ''UID '' @ to_upper w \<and> c2 = dropWhile isAtomChar c3))"
    using t(3) by (auto simp: transcript_verb_def cursor_run_def cursor_consume_Some v_def [symmetric] split: if_splits option.splits)
  have c1': "c1 = v @ dropWhile isAtomChar c1" by (simp add: v_def)
  have "dropWhile isAtomChar c1 = [] \<or> (\<exists>q. dropWhile isAtomChar c1 = SP # q)" using v(2) after by auto
  then have "to_upper v = ''UID''"
  proof
    assume "dropWhile isAtomChar c1 = []"
    with c1' c1 v_word show ?thesis by (metis append_Nil2 in_set_conv_decomp)
  next
    assume "\<exists>q. dropWhile isAtomChar c1 = SP # q"
    then obtain q where "c1 = v @ SP # q" using c1' by metis
    with fields p v(1) v_word go_fields_word(1) show ?thesis by (simp add: parseCommand_def)
  qed
  with v(2) obtain c3 w where w: "dropWhile isAtomChar c1 = SP # c3" "w = takeWhile isAtomChar c3" "w \<noteq> []"
    "verb = ''UID '' @ to_upper w" "c2 = dropWhile isAtomChar c3" by auto
  have r: "c3 = r" using cut_first [OF v_word(2) free(2)] c1' c1 w(1) by metis
  have w_chars: "\<forall>x \<in> set w. word_char x \<and> x \<notin> {SP, CHR ''('', CHR '')'', CHR '']'', DQUOTE}"
    using atom_chars w(2) by (auto dest: set_takeWhileD)
  have rw: "r = w @ c2" using w(2,5) r by simp
  have hd_r: "r \<noteq> []" "hd r \<notin> {SP, CHR ''('', CHR '')'', DQUOTE}" using rw w(3) w_chars by (cases w; auto)+
  then have "dropWhile (\<lambda>c. c = SP) r = r" by (cases r) auto
  from tokenizeList_first [OF tokens this hd_r(1)] hd_r(2) have sub: "sub = Token (fst (atom_scan 0 r)) False" by blast
  have "prefix w (fst (atom_scan 0 r))" unfolding rw by (rule atom_scan_extends) (use w_chars in auto)
  with mutating_upper [OF upper] sub have "CHR ''['' \<notin> set w" by (auto dest: set_mono_prefix)
  with w_chars have "\<forall>x \<in> set w. x \<notin> {SP, CHR ''('', CHR '')'', CHR ''['', CHR '']''}" by blast
  moreover have "c2 = [] \<or> hd c2 = SP" using after by auto
  ultimately have "atom_scan 0 r = (w, c2, 0)" unfolding rw by (rule atom_scan_word)
  with sub upper w(4) verb show ?thesis by auto
qed

theorem transcript_names_changes_witness:
  "\<exists>p. ParseTranscriptCommand (sample_command ''a3 UID MOVE 1:* Archive'') = Some p \<and> tr_Verb p \<in> {''UID STORE'', ''UID MOVE''}"
proof -
  let ?c = "sample_command ''a3 UID MOVE 1:* Archive''"
  let ?run = "handle_command serveStateful True None (cd_Raw ?c) (sample_conn True ''INBOX'') sample_store"
  have "ParseTranscriptCommand ?c \<noteq> None" by code_simp
  then obtain p where p: "ParseTranscriptCommand ?c = Some p" by blast
  have "snd (snd ?run) = sample_moved" using sample_commands(4) by (simp add: sample_command_def)
  then have run: "?run = (fst ?run, fst (snd ?run), sample_moved)" by (metis prod.collapse)
  have "sample_moved \<noteq> sample_store" by (simp add: sample_moved_def sample_store_def)
  from transcript_names_changes [OF p run this] have "tr_Verb p \<in> {''UID STORE'', ''UID MOVE''}" .
  with p show ?thesis by blast
qed

section \<open>One-shot faults\<close>

datatype FaultBoundary = NoBoundary | BeforeApplication | AfterApplication
datatype FaultAction = NoAction | DropConnection | HoldResponse | RejectCommand

record MutationFault =
  mf_Command :: bytes
  mf_UIDs :: bytes
  mf_Boundary :: FaultBoundary
  mf_Action :: FaultAction

text \<open>Whether the fault is refused, and the faults armed then.\<close>

definition InjectFault :: "mailboxStore option \<Rightarrow> MutationFault \<Rightarrow> MutationFault list \<Rightarrow> control_error option \<times> MutationFault list" where
  "InjectFault server fault faults =
     (if server = None then (Some NotStateful, faults)
      else if mf_Command fault \<noteq> ''UID STORE'' \<and> mf_Command fault \<noteq> ''UID MOVE'' then (Some InvalidControl, faults)
      else if parseSequenceSet (mf_UIDs fault) = None then (Some InvalidControl, faults)
      else if mf_Boundary fault \<noteq> BeforeApplication \<and> mf_Boundary fault \<noteq> AfterApplication then (Some InvalidControl, faults)
      else if mf_Action fault \<noteq> DropConnection \<and> mf_Action fault \<noteq> HoldResponse then (Some InvalidControl, faults)
      else (None, faults @ [fault]))"

text \<open>The first armed fault for the command, and those that stay armed.\<close>

fun claim_first :: "('f \<Rightarrow> bool) \<Rightarrow> 'f list \<Rightarrow> ('f \<times> 'f list) option" where
  "claim_first matches [] = None"
| "claim_first matches (f # fs) =
     (if matches f then Some (f, fs) else map_option (\<lambda>(g, gs). (g, f # gs)) (claim_first matches fs))"

definition claimFault :: "bool \<Rightarrow> fixture_command \<Rightarrow> MutationFault list \<Rightarrow> (MutationFault \<times> MutationFault list) option" where
  "claimFault authenticated c faults =
     (if \<not> authenticated then None
      else case ParseTranscriptCommand c of None \<Rightarrow> None
      | Some p \<Rightarrow> claim_first (\<lambda>f. mf_Command f = tr_Verb p \<and> mf_UIDs f = tr_Set p) faults)"

text \<open>The completion that is withheld and the store; the connection is closed afterwards.\<close>

definition runFault :: "MutationFault \<Rightarrow> statefulSession \<Rightarrow> fixture_command \<Rightarrow> bytes \<Rightarrow> mailboxStore \<Rightarrow> bytes \<times> mailboxStore" where
  "runFault fault session c tag st =
     (if mf_Boundary fault = AfterApplication then
        (case tokenizeArguments (cd_Raw c) of
           Inl e \<Rightarrow> (tagged tag ''BAD malformed arguments'', st)
         | Inr arguments \<Rightarrow> (case statefulUID st session tag arguments of (lines, st') \<Rightarrow> (last lines, st')))
      else ([], st))"

lemma claim_first_Some: "claim_first matches fs = Some (f, gs) \<Longrightarrow> \<exists>before after. fs = before @ f # after \<and> gs = before @ after \<and>
    matches f \<and> (\<forall>g \<in> set before. \<not> matches g)"
proof (induction fs arbitrary: gs)
  case (Cons a fs)
  show ?case
  proof (cases "matches a")
    case True
    with Cons.prems show ?thesis by (intro exI [of _ "[]"] exI [of _ fs]) auto
  next
    case False
    with Cons.prems obtain gs' where "claim_first matches fs = Some (f, gs')" "gs = a # gs'" by auto
    with Cons.IH obtain before after where "fs = before @ f # after" "gs' = before @ after" "matches f" "\<forall>g \<in> set before. \<not> matches g" by blast
    with \<open>gs = a # gs'\<close> False show ?thesis by (intro exI [of _ "a # before"] exI [of _ after]) auto
  qed
qed simp

lemma to_upper_SP: "SP \<in> set (to_upper s) \<Longrightarrow> SP \<in> set s"
proof -
  have "ascii_upper c = SP \<Longrightarrow> c = SP" for c
  proof -
    assume a: "ascii_upper c = SP"
    have "byte_val (char_of (n :: nat)) = n" if "n < 256" for n using that by (simp add: byte_val_def)
    with a byte_val_SP show "c = SP" by (auto simp: ascii_upper_def split: if_splits dest!: arg_cong [where f = byte_val])
  qed
  then show "SP \<in> set (to_upper s) \<Longrightarrow> SP \<in> set s" by (induction s rule: to_upper.induct) (auto split: if_splits dest: sym)
qed

lemma transcript_command_name:
  assumes "ParseTranscriptCommand c = Some p" and "SP \<in> set (tr_Verb p)"
  shows "snd (parseCommand (cd_Raw c)) = ''UID''"
proof -
  define tag where "tag = takeWhile isTagChar (cd_Raw c)"
  obtain c1 c2 verb where t: "tag \<noteq> []" "dropWhile isTagChar (cd_Raw c) = SP # c1" "transcript_verb c1 = Some (verb, c2)" "tr_Verb p = verb"
    using ParseTranscriptCommand_parts [OF assms(1)] unfolding tag_def by metis
  have tag_word: "list_all word_char tag" using tag_chars by (auto simp: tag_def list_all_iff dest: set_takeWhileD)
  have raw: "cd_Raw c = tag @ SP # c1" unfolding tag_def using t(2) by (metis takeWhile_dropWhile_id)
  define v where "v = takeWhile isAtomChar c1"
  have v_word: "list_all word_char v" "SP \<notin> set v" using atom_chars by (auto simp: v_def list_all_iff dest: set_takeWhileD)
  have "verb \<noteq> to_upper v" using assms(2) t(4) to_upper_SP v_word(2) by metis
  then obtain c3 where v: "v \<noteq> []" "to_upper v = ''UID''" "dropWhile isAtomChar c1 = SP # c3"
    using t(3) by (auto simp: transcript_verb_def cursor_run_def cursor_consume_Some v_def [symmetric] split: if_splits option.splits)
  then have "c1 = v @ SP # c3" by (metis v_def takeWhile_dropWhile_id)
  with raw v v_word t(1) tag_word go_fields_word(1) show ?thesis by (simp add: parseCommand_def)
qed

lemma statefulUID_tag: "snd (statefulUID st session t1 arguments) = snd (statefulUID st session t2 arguments)"
proof -
  have "snd (statefulStore session b t1 operands) = snd (statefulStore session b t2 operands)" for b operands
    by (auto simp: statefulStore_def Let_def split: list.split sum.split)
  moreover have "snd (statefulMove session i t1 operands boxes) = snd (statefulMove session i t2 operands boxes)" for i operands boxes
    by (auto simp: statefulMove_def Let_def split: list.split sum.split option.split)
  ultimately show ?thesis
    by (auto simp: statefulUID_def Let_def split: list.split option.split prod.split) (metis snd_conv)+
qed

text \<open>
  A fault is spent by the first command it was armed for. It leaves the mailboxes alone before the application, and
  after it leaves them as the command would have without a fault, the completion being the last line of its reply.
\<close>

theorem fault_application:
  assumes "claimFault (fc_authenticated k) c faults = Some (fault, rest)" and "trailingLiteral (cd_Raw c) = None"
    and "mf_Command fault \<in> {''UID STORE'', ''UID MOVE''}"
  shows "(\<exists>before after. faults = before @ fault # after \<and> rest = before @ after) \<and>
    snd (runFault fault (fc_session k) c tag st) =
      (if mf_Boundary fault = AfterApplication then snd (snd (handle_command serveStateful handshake following (cd_Raw c) k st)) else st)"
proof -
  obtain p where p: "ParseTranscriptCommand c = Some p" "fc_authenticated k"
    "claim_first (\<lambda>f. mf_Command f = tr_Verb p \<and> mf_UIDs f = tr_Set p) faults = Some (fault, rest)"
    using assms(1) by (auto simp: claimFault_def split: if_splits option.splits)
  from claim_first_Some [OF p(3)] have claimed: "\<exists>before after. faults = before @ fault # after \<and> rest = before @ after" "mf_Command fault = tr_Verb p"
    by blast+
  then have "snd (parseCommand (cd_Raw c)) = ''UID''" using transcript_command_name [OF p(1)] assms(3) by auto
  then obtain tag' where name: "parseCommand (cd_Raw c) = (tag', ''UID'')" by (metis prod.collapse)
  have "snd (statefulUID st (fc_session k) t1 arguments) = snd (statefulUID st (fc_session k) t2 arguments)" for t1 t2 arguments
    by (rule statefulUID_tag)
  then have "mf_Boundary fault = AfterApplication \<Longrightarrow>
      snd (runFault fault (fc_session k) c tag st) = snd (snd (handle_command serveStateful handshake following (cd_Raw c) k st))"
    using name p(2) assms(2)
    by (auto simp: runFault_def handle_command_def serveStateful_def refuseLiteral_def shared_names_def split: sum.splits prod.splits) (metis snd_conv)
  moreover have "mf_Boundary fault \<noteq> AfterApplication \<Longrightarrow> snd (runFault fault (fc_session k) c tag st) = st"
    by (simp add: runFault_def)
  ultimately show ?thesis using claimed(1) by simp
qed

end
