(* ===== verification/Fixture_Labels.thy ===== *)
theory Fixture_Labels
  imports Fixture_Transcript
begin

text \<open>
  The second mode of the test server (\<^verbatim>\<open>internal/testkit/labels.go\<close>): messages with one folder each and any number of
  label views, where a COPY adds a label and \<^verbatim>\<open>\Deleted\<close> with EXPUNGE takes it away; and which command a fault of this
  mode waits for (\<^verbatim>\<open>internal/testkit/label_faults.go\<close>). A message is its position among the messages, which stands
  for the pointer.
\<close>

section \<open>The store\<close>

datatype ViewRole = NoRole | FolderRole | LabelRole

record labelMessage =
  lm_id :: bytes
  lm_flags :: "bytes list"
  lm_body :: bytes

record membership =
  mb_message :: nat
  mb_uid :: uint32
  mb_deleted :: bool

record labelView =
  lv_name :: bytes
  lv_role :: ViewRole
  lv_attributes :: "bytes list"
  lv_uidValidity :: uint32
  lv_uidNext :: uint32
  lv_members :: "membership list"

record labelStore =
  lb_uidPlus :: bool
  lb_messages :: "labelMessage list"
  lb_views :: "labelView list"

record LabelMessageSeed =
  lx_ID :: bytes
  lx_Flags :: "bytes list"
  lx_Body :: bytes

record MembershipSeed =
  mx_Message :: bytes
  mx_UID :: uint32
  mx_Deleted :: bool

record LabelViewSeed =
  vx_Name :: bytes
  vx_Role :: ViewRole
  vx_Attributes :: "bytes list"
  vx_UIDValidity :: uint32
  vx_Members :: "MembershipSeed list"

definition isDeletedFlag :: "bytes \<Rightarrow> bool" where
  "isDeletedFlag flag \<longleftrightarrow> equal_fold flag (BACKSLASH # ''Deleted'')"

fun position_of :: "('a \<Rightarrow> bool) \<Rightarrow> 'a list \<Rightarrow> nat option" where
  "position_of p [] = None"
| "position_of p (x # xs) = (if p x then Some 0 else map_option Suc (position_of p xs))"

definition byUID :: "labelView \<Rightarrow> uint32 \<Rightarrow> membership option" where
  "byUID v uid = find (\<lambda>m. mb_uid m = uid) (lv_members v)"

definition byMessage :: "labelView \<Rightarrow> nat \<Rightarrow> membership option" where
  "byMessage v message = find (\<lambda>m. mb_message m = message) (lv_members v)"

section \<open>Seeding\<close>

fun seed_label_messages :: "labelMessage list \<Rightarrow> LabelMessageSeed list \<Rightarrow> labelMessage list option" where
  "seed_label_messages ms [] = Some ms"
| "seed_label_messages ms (seed # seeds) =
     (if lx_ID seed = [] then None
      else if lx_ID seed \<in> lm_id ` set ms then None
      else case validateAtoms (lx_Flags seed) False of None \<Rightarrow> None
      | Some flags \<Rightarrow>
        if list_ex isDeletedFlag flags then None
        else seed_label_messages (ms @ [\<lparr>lm_id = lx_ID seed, lm_flags = flags, lm_body = lx_Body seed\<rparr>]) seeds)"

text \<open>\<open>owned\<close> are the messages that are in a folder.\<close>

fun seed_members :: "labelMessage list \<Rightarrow> ViewRole \<Rightarrow> nat set \<Rightarrow> membership list \<Rightarrow> MembershipSeed list \<Rightarrow> (membership list \<times> nat set) option" where
  "seed_members ms role owned members [] = Some (members, owned)"
| "seed_members ms role owned members (seed # seeds) =
     (case position_of (\<lambda>m. lm_id m = mx_Message seed) ms of None \<Rightarrow> None
      | Some message \<Rightarrow>
        if mx_UID seed = 0 \<or> mx_UID seed = 0xFFFFFFFF then None
        else if mx_UID seed \<in> mb_uid ` set members then None
        else if message \<in> mb_message ` set members then None
        else if role = FolderRole \<and> message \<in> owned then None
        else seed_members ms role (if role = FolderRole then insert message owned else owned)
          (members @ [\<lparr>mb_message = message, mb_uid = mx_UID seed, mb_deleted = mx_Deleted seed\<rparr>]) seeds)"

fun seed_views :: "labelMessage list \<Rightarrow> nat \<Rightarrow> nat set \<Rightarrow> labelView list \<Rightarrow> LabelViewSeed list \<Rightarrow> (labelView list \<times> nat set) option" where
  "seed_views ms index owned views [] = Some (views, owned)"
| "seed_views ms index owned views (seed # seeds) =
     (if \<not> validateMailboxName (vx_Name seed) then None
      else if find_name lv_name views (vx_Name seed) \<noteq> None then None
      else if vx_Role seed \<noteq> FolderRole \<and> vx_Role seed \<noteq> LabelRole then None
      else case validateAtoms (vx_Attributes seed) True of None \<Rightarrow> None
      | Some attributes \<Rightarrow> (case seed_members ms (vx_Role seed) owned [] (vx_Members seed) of None \<Rightarrow> None
        | Some (members0, owned') \<Rightarrow>
          let members = sort_key mb_uid members0 in
          seed_views ms (index + 1) owned' (views @ [\<lparr>lv_name = vx_Name seed, lv_role = vx_Role seed, lv_attributes = attributes,
              lv_uidValidity = (if vx_UIDValidity seed = 0 then of_nat (1001 + index) else vx_UIDValidity seed),
              lv_uidNext = (if members = [] then 1 else mb_uid (last members) + 1), lv_members = members\<rparr>]) seeds))"

definition newLabelStore :: "bool \<Rightarrow> LabelMessageSeed list \<Rightarrow> LabelViewSeed list \<Rightarrow> labelStore option" where
  "newLabelStore uidPlus messages views = (case seed_label_messages [] messages of
      None \<Rightarrow> None
    | Some ms \<Rightarrow> (case seed_views ms 0 {} [] views of
        None \<Rightarrow> None
      | Some (vs, owned) \<Rightarrow>
          if list_all (\<lambda>i. i \<in> owned) [0..<length ms] then Some \<lparr>lb_uidPlus = uidPlus, lb_messages = ms, lb_views = vs\<rparr> else None))"

section \<open>Commands\<close>

text \<open>\<^verbatim>\<open>view.mailbox\<close>: what the read commands of the other mode see.\<close>

definition view_mailbox :: "labelMessage list \<Rightarrow> labelView \<Rightarrow> statefulMailbox" where
  "view_mailbox ms v = \<lparr>fb_name = lv_name v, fb_attributes = lv_attributes v, fb_uidValidity = lv_uidValidity v, fb_uidNext = lv_uidNext v,
     fb_messages = map (\<lambda>m. \<lparr>fm_uid = mb_uid m,
       fm_flags = lm_flags (ms ! mb_message m) @ (if mb_deleted m then [BACKSLASH # ''Deleted''] else []),
       fm_body = lm_body (ms ! mb_message m)\<rparr>) (lv_members v)\<rparr>"

definition parseSingleUID :: "bytes \<Rightarrow> imapToken \<Rightarrow> bytes + uint32" where
  "parseSingleUID tag token = (case parseUIDSet token 0 of
      Inl e \<Rightarrow> Inl (tagged tag (''BAD '' @ e))
    | Inr ranges \<Rightarrow> (case parse_uint 32 (token_value token) of
        None \<Rightarrow> Inl (refused tag ''a UID set other than one UID'')
      | Some uid \<Rightarrow> Inr (of_nat uid)))"

definition labelCopy :: "bool \<Rightarrow> labelView list \<Rightarrow> labelView \<Rightarrow> bytes \<Rightarrow> imapToken list \<Rightarrow> bytes \<times> labelView list" where
  "labelCopy uidPlus views source tag arguments = (case arguments of
      [uids, name] \<Rightarrow>
        if is_list name then (tagged tag ''BAD UID COPY requires a UID set and a mailbox'', views)
        else (case parseSingleUID tag uids of
            Inl failure \<Rightarrow> (failure, views)
          | Inr uid \<Rightarrow>
            if lv_role source \<noteq> FolderRole then (tagged tag ''NO [CANNOT] UID COPY source must be a folder'', views)
            else (case find_name lv_name views (token_value name) of
                None \<Rightarrow> (tagged tag ''NO [TRYCREATE] destination mailbox does not exist'', views)
              | Some i \<Rightarrow>
                let d = views ! i in
                if lv_role d \<noteq> LabelRole then (tagged tag ''NO [CANNOT] destination is not a label view'', views)
                else if \<not> selectableAttributes (lv_attributes d) then (tagged tag ''NO [CANNOT] destination mailbox is not selectable'', views)
                else (case byUID source uid of
                    None \<Rightarrow> (tagged tag ''OK COPY completed'', views)
                  | Some m \<Rightarrow>
                    if byMessage d (mb_message m) \<noteq> None then (tagged tag ''OK COPY completed'', views)
                    else if lv_uidNext d = 0xFFFFFFFF then (tagged tag ''NO [LIMIT] destination mailbox has no UIDs left'', views)
                    else (if \<not> uidPlus then tagged tag ''OK COPY completed''
                          else tagged tag (''OK [COPYUID '' @ show_uid (lv_uidValidity d) @ SP # show_uid uid @ SP # show_uid (lv_uidNext d) @ ''] COPY completed''),
                        views[i := d\<lparr>lv_members := lv_members d @ [\<lparr>mb_message = mb_message m, mb_uid = lv_uidNext d, mb_deleted = False\<rparr>],
                          lv_uidNext := lv_uidNext d + 1\<rparr>]))))
    | _ \<Rightarrow> (tagged tag ''BAD UID COPY requires a UID set and a mailbox'', views))"

definition labelStoreDeleted :: "labelView \<Rightarrow> bytes \<Rightarrow> imapToken list \<Rightarrow> bytes \<times> labelView" where
  "labelStoreDeleted v tag arguments = (case arguments of
      [uids, operation, flags0] \<Rightarrow>
        if is_list operation \<or> token_quoted operation then (tagged tag ''BAD UID STORE requires a UID set, an operation and flags'', v)
        else (case parseSingleUID tag uids of
            Inl failure \<Rightarrow> (failure, v)
          | Inr uid \<Rightarrow>
            let upper = to_upper (token_value operation); flags = (if is_list flags0 then token_list flags0 else [flags0]) in
            if upper \<in> {''+FLAGS'', ''-FLAGS'', ''-FLAGS.SILENT''} then (refused tag ''STORE other than +FLAGS.SILENT'', v)
            else if upper \<in> {''FLAGS'', ''FLAGS.SILENT''} then (refused tag ''FLAGS replacement'', v)
            else if upper \<noteq> ''+FLAGS.SILENT'' then (tagged tag ''BAD unsupported STORE operation'', v)
            else if length flags \<noteq> 1 \<or> is_list (hd flags) \<or> token_quoted (hd flags) \<or> \<not> isDeletedFlag (token_value (hd flags))
            then (refused tag (''changing flags other than '' @ BACKSLASH # ''Deleted''), v)
            else if lv_role v \<noteq> LabelRole then (tagged tag (''NO [CANNOT] '' @ BACKSLASH # ''Deleted STORE requires a selected label view''), v)
            else (tagged tag ''OK STORE completed'',
                case position_of (\<lambda>m. mb_uid m = uid) (lv_members v) of
                  None \<Rightarrow> v
                | Some i \<Rightarrow> v\<lparr>lv_members := (lv_members v)[i := (lv_members v ! i)\<lparr>mb_deleted := True\<rparr>]\<rparr>))
    | _ \<Rightarrow> (tagged tag ''BAD UID STORE requires a UID set, an operation and flags'', v))"

definition labelExpunge :: "labelView \<Rightarrow> bytes \<Rightarrow> imapToken list \<Rightarrow> bytes list \<times> labelView" where
  "labelExpunge v tag arguments = (case arguments of
      [uids] \<Rightarrow> (case parseSingleUID tag uids of
          Inl failure \<Rightarrow> ([failure], v)
        | Inr uid \<Rightarrow>
          if lv_role v \<noteq> LabelRole then ([tagged tag ''NO [CANNOT] UID EXPUNGE requires a selected label view''], v)
          else (case position_of (\<lambda>m. mb_uid m = uid \<and> mb_deleted m) (lv_members v) of
              None \<Rightarrow> ([tagged tag ''OK EXPUNGE completed''], v)
            | Some i \<Rightarrow> ([''* '' @ format_uint (i + 1) @ '' EXPUNGE'', tagged tag ''OK EXPUNGE completed''],
                v\<lparr>lv_members := take i (lv_members v) @ drop (i + 1) (lv_members v)\<rparr>)))
    | _ \<Rightarrow> ([tagged tag ''BAD UID EXPUNGE requires a UID set''], v))"

definition labelSelect :: "labelStore \<Rightarrow> bytes \<Rightarrow> bytes \<Rightarrow> imapToken list \<Rightarrow> bytes list \<times> statefulSession" where
  "labelSelect st tag name arguments =
     (let cleared = \<lparr>sl_selected = [], sl_readOnly = False\<rparr> in
      case arguments of
        [mailbox] \<Rightarrow>
          if is_list mailbox then ([tagged tag (''BAD '' @ name @ '' requires exactly one mailbox'')], cleared)
          else (case find_name lv_name (lb_views st) (token_value mailbox) of
              None \<Rightarrow> ([tagged tag ''NO mailbox does not exist or is not selectable''], cleared)
            | Some i \<Rightarrow>
              let v = lb_views st ! i in
              if \<not> selectableAttributes (lv_attributes v) then ([tagged tag ''NO mailbox does not exist or is not selectable''], cleared)
              else (select_lines tag name (length (lv_members v)) (lv_uidValidity v) (lv_uidNext v)
                  (if lv_role v = LabelRole then ''* OK [PERMANENTFLAGS ('' @ BACKSLASH # ''Deleted)] only '' @ BACKSLASH # ''Deleted is mutable''
                   else ''* OK [PERMANENTFLAGS ()] folder flags are read-only'') (name = ''EXAMINE''),
                \<lparr>sl_selected = lv_name v, sl_readOnly = (name = ''EXAMINE'')\<rparr>))
      | _ \<Rightarrow> ([tagged tag (''BAD '' @ name @ '' requires exactly one mailbox'')], cleared))"

definition labelUID :: "labelStore \<Rightarrow> statefulSession \<Rightarrow> bytes \<Rightarrow> imapToken list \<Rightarrow> bytes list \<times> labelStore" where
  "labelUID st session tag arguments = (case arguments of
      [] \<Rightarrow> ([tagged tag ''BAD incomplete UID command''], st)
    | sub # operands \<Rightarrow>
      if is_list sub \<or> token_quoted sub then ([tagged tag ''BAD incomplete UID command''], st)
      else let subcommand = to_upper (token_value sub) in
        if subcommand \<notin> {''FETCH'', ''SEARCH'', ''COPY'', ''STORE'', ''EXPUNGE'', ''MOVE''} then ([tagged tag ''BAD unsupported UID command''], st)
        else if subcommand = ''EXPUNGE'' \<and> \<not> lb_uidPlus st then ([tagged tag ''BAD UIDPLUS is not enabled''], st)
        else if subcommand = ''MOVE'' then ([refused tag ''UID MOVE''], st)
        else if sl_selected session = [] then ([tagged tag ''BAD no mailbox selected''], st)
        else case find_name lv_name (lb_views st) (sl_selected session) of
            None \<Rightarrow> ([tagged tag ''NO selected mailbox no longer exists''], st)
          | Some i \<Rightarrow>
            let v = lb_views st ! i in
            if subcommand = ''FETCH'' then (statefulFetch (view_mailbox (lb_messages st) v) tag operands, st)
            else if subcommand = ''SEARCH'' then (statefulSearch (view_mailbox (lb_messages st) v) tag operands, st)
            else if sl_readOnly session then ([tagged tag ''NO [READ-ONLY] mailbox was opened with EXAMINE''], st)
            else if subcommand = ''COPY'' then
              (case labelCopy (lb_uidPlus st) (lb_views st) v tag operands of (line, views) \<Rightarrow> ([line], st\<lparr>lb_views := views\<rparr>))
            else if subcommand = ''STORE'' then
              (case labelStoreDeleted v tag operands of (line, v') \<Rightarrow> ([line], st\<lparr>lb_views := (lb_views st)[i := v']\<rparr>))
            else (case labelExpunge v tag operands of (lines, v') \<Rightarrow> (lines, st\<lparr>lb_views := (lb_views st)[i := v']\<rparr>)))"

definition serveLabels :: "labelStore server_of" where
  "serveLabels st session tag name raw tlsEstablished authenticated =
     (if refuseLiteral tag raw \<noteq> Unhandled then (refuseLiteral tag raw, session, st)
      else if name \<in> shared_names then (Unhandled, session, st)
      else if name = ''CAPABILITY'' then
        (if \<not> tlsEstablished then (Unhandled, session, st)
         else (Answered [''* CAPABILITY IMAP4rev1 AUTH=PLAIN'' @ (if authenticated \<and> lb_uidPlus st then '' UIDPLUS'' else []),
             tagged tag ''OK CAPABILITY completed''], session, st))
      else if \<not> authenticated then (Answered [tagged tag ''NO authenticate first''], session, st)
      else case tokenizeArguments raw of
        Inl e \<Rightarrow> (Answered [tagged tag (''BAD '' @ e)], session, st)
      | Inr arguments \<Rightarrow>
        if name = ''LIST'' then (Answered (listLines tag arguments (map (view_mailbox (lb_messages st)) (lb_views st))), session, st)
        else if name = ''SELECT'' \<or> name = ''EXAMINE'' then
          (case labelSelect st tag name arguments of (lines, session') \<Rightarrow> (Answered lines, session', st))
        else if name = ''STATUS'' then
          (Answered (statusLines tag arguments (\<lambda>n. map_option (\<lambda>i. view_mailbox (lb_messages st) (lb_views st ! i)) (find_name lv_name (lb_views st) n))), session, st)
        else if name = ''UID'' then
          (case labelUID st session tag arguments of (lines, st') \<Rightarrow> (Answered lines, session, st'))
        else if name \<in> refused_names then (Answered [refused tag name], session, st)
        else (Answered [tagged tag ''BAD unsupported command''], session, st))"

section \<open>Runs\<close>

record label_fixture =
  lf_store :: labelStore
  lf_conns :: "nat \<Rightarrow> fixture_conn option"

inductive label_step :: "bool \<Rightarrow> label_fixture \<Rightarrow> label_fixture \<Rightarrow> bool" for implicit_tls where
  connected: "lf_conns f c = None \<Longrightarrow> label_step implicit_tls f (f\<lparr>lf_conns := (lf_conns f)(c \<mapsto> new_conn implicit_tls)\<rparr>)"
| ended: "label_step implicit_tls f (f\<lparr>lf_conns := (lf_conns f)(c := None)\<rparr>)"
| commanded: "lf_conns f c = Some k \<Longrightarrow> handle_command serveLabels handshake following raw k (lf_store f) = (lines, k', st') \<Longrightarrow>
     label_step implicit_tls f \<lparr>lf_store = st', lf_conns = (lf_conns f)(c := k')\<rparr>"

inductive label_run :: "bool \<Rightarrow> labelStore \<Rightarrow> label_fixture \<Rightarrow> bool" for implicit_tls st where
  started: "label_run implicit_tls st \<lparr>lf_store = st, lf_conns = (\<lambda>c. None)\<rparr>"
| stepped: "label_run implicit_tls st f \<Longrightarrow> label_step implicit_tls f f' \<Longrightarrow> label_run implicit_tls st f'"

section \<open>Labels stay well formed\<close>

definition view_ok :: "nat \<Rightarrow> labelView \<Rightarrow> bool" where
  "view_ok n v \<longleftrightarrow> lv_role v \<noteq> NoRole \<and> 0 < lv_uidNext v \<and> sorted_wrt (<) (map mb_uid (lv_members v)) \<and>
     (\<forall>uid \<in> set (map mb_uid (lv_members v)). 0 < uid \<and> uid < lv_uidNext v) \<and>
     distinct (map mb_message (lv_members v)) \<and> (\<forall>i \<in> set (map mb_message (lv_members v)). i < n)"

text \<open>The messages of all folders, one after another.\<close>

definition folder_messages :: "labelView list \<Rightarrow> nat list" where
  "folder_messages views = concat (map (\<lambda>v. map mb_message (lv_members v)) (filter (\<lambda>v. lv_role v = FolderRole) views))"

definition label_ok :: "labelStore \<Rightarrow> bool" where
  "label_ok st \<longleftrightarrow> names_distinct (map lv_name (lb_views st)) \<and> (\<forall>v \<in> set (lb_views st). view_ok (length (lb_messages st)) v) \<and>
     distinct (folder_messages (lb_views st)) \<and> set (folder_messages (lb_views st)) = {..<length (lb_messages st)}"

text \<open>What a command may do to a label view.\<close>

inductive label_change :: "nat set \<Rightarrow> labelView \<Rightarrow> labelView \<Rightarrow> bool" for sources where
  added: "message \<in> sources \<Longrightarrow> message \<notin> set (map mb_message (lv_members v)) \<Longrightarrow> lv_uidNext v \<noteq> 0xFFFFFFFF \<Longrightarrow>
     label_change sources v (v\<lparr>lv_members := lv_members v @ [\<lparr>mb_message = message, mb_uid = lv_uidNext v, mb_deleted = False\<rparr>],
       lv_uidNext := lv_uidNext v + 1\<rparr>)"
| marked: "i < length (lv_members v) \<Longrightarrow>
     label_change sources v (v\<lparr>lv_members := (lv_members v)[i := (lv_members v ! i)\<lparr>mb_deleted := True\<rparr>]\<rparr>)"
| removed: "i < length (lv_members v) \<Longrightarrow> mb_deleted (lv_members v ! i) \<Longrightarrow>
     label_change sources v (v\<lparr>lv_members := take i (lv_members v) @ drop (i + 1) (lv_members v)\<rparr>)"

text \<open>One label view changes, by a message of a folder where it gains one.\<close>

definition labels_changed :: "labelStore \<Rightarrow> labelStore \<Rightarrow> bool" where
  "labels_changed st st' \<longleftrightarrow> (\<exists>i v'. i < length (lb_views st) \<and> lv_role (lb_views st ! i) = LabelRole \<and>
     label_change (set (folder_messages (lb_views st))) (lb_views st ! i) v' \<and> st' = st\<lparr>lb_views := (lb_views st)[i := v']\<rparr>)"

lemma position_of_Some: "position_of p xs = Some i \<Longrightarrow> i < length xs \<and> p (xs ! i)"
  by (induction xs arbitrary: i) (auto split: if_splits)

lemma byMessage_None: "byMessage v message = None \<longleftrightarrow> message \<notin> set (map mb_message (lv_members v))"
  by (auto simp: byMessage_def find_None_iff)

lemma byUID_Some: "byUID v uid = Some m \<Longrightarrow> m \<in> set (lv_members v)"
  by (auto simp: byUID_def find_Some_iff)

lemma labelCopy_change:
  assumes "labelCopy uidPlus views source tag arguments = (line, views')" and "source \<in> set views"
  shows "views' = views \<or> (\<exists>i v'. i < length views \<and> lv_role (views ! i) = LabelRole \<and>
    label_change (set (folder_messages views)) (views ! i) v' \<and> views' = views[i := v'])"
proof (cases "views' = views")
  case False
  from assms(1) False obtain name i m where c: "lv_role source = FolderRole" "find_name lv_name views name = Some i" "lv_role (views ! i) = LabelRole"
    "m \<in> set (lv_members source)" "byMessage (views ! i) (mb_message m) = None" "lv_uidNext (views ! i) \<noteq> 0xFFFFFFFF"
    "views' = views[i := (views ! i)\<lparr>lv_members := lv_members (views ! i) @ [\<lparr>mb_message = mb_message m, mb_uid = lv_uidNext (views ! i), mb_deleted = False\<rparr>],
                          lv_uidNext := lv_uidNext (views ! i) + 1\<rparr>]"
    by (auto simp: labelCopy_def Let_def split: list.splits if_splits sum.splits option.splits dest!: byUID_Some)
  have "mb_message m \<in> set (folder_messages views)" using assms(2) c(1,4) by (auto simp: folder_messages_def)
  with c find_name_Some [OF c(2)] label_change.added [of "mb_message m"] byMessage_None show ?thesis by blast
qed simp

lemma labelStoreDeleted_change:
  "labelStoreDeleted v tag arguments = (line, v') \<Longrightarrow> v' = v \<or> (lv_role v = LabelRole \<and> label_change sources v v')"
  by (auto simp: labelStoreDeleted_def Let_def split: list.splits if_splits sum.splits option.splits
      intro: label_change.marked dest!: position_of_Some)

lemma labelExpunge_change:
  "labelExpunge v tag arguments = (lines, v') \<Longrightarrow> v' = v \<or> (lv_role v = LabelRole \<and> label_change sources v v')"
  using label_change.removed [of _ v sources]
  by (auto simp: labelExpunge_def split: list.splits if_splits sum.splits option.splits dest!: position_of_Some)

lemma labelUID_change:
  assumes "labelUID st session tag arguments = (lines, st')"
  shows "st' = st \<or> (\<not> sl_readOnly session \<and> sl_selected session \<noteq> [] \<and> labels_changed st st')"
proof (cases "st' = st")
  case False
  from assms False obtain sub operands where a: "arguments = sub # operands" by (cases arguments) (auto simp: labelUID_def)
  from assms False obtain i where c: "\<not> sl_readOnly session" "sl_selected session \<noteq> []"
    "find_name lv_name (lb_views st) (sl_selected session) = Some i"
    by (auto simp: a labelUID_def Let_def split: if_splits option.splits)
  note i = find_name_Some [OF c(3), THEN conjunct1]
  have one: "labels_changed st st'" if "v' = lb_views st ! i \<or> (lv_role (lb_views st ! i) = LabelRole \<and>
      label_change (set (folder_messages (lb_views st))) (lb_views st ! i) v')" "st' = st\<lparr>lb_views := (lb_views st)[i := v']\<rparr>" for v'
    using that False i unfolding labels_changed_def by auto
  consider "to_upper (token_value sub) = ''COPY''" | "to_upper (token_value sub) = ''STORE''"
    | "to_upper (token_value sub) \<notin> {''COPY'', ''STORE''}" by blast
  then show ?thesis
  proof cases
    case 1
    with assms False c obtain line views where r: "labelCopy (lb_uidPlus st) (lb_views st) (lb_views st ! i) tag operands = (line, views)"
      "st' = st\<lparr>lb_views := views\<rparr>"
      by (simp add: a labelUID_def split: if_splits prod.splits)
    with labelCopy_change [OF r(1) nth_mem [OF i]] False c show ?thesis unfolding labels_changed_def by auto
  next
    case 2
    with assms False c obtain line v' where r: "labelStoreDeleted (lb_views st ! i) tag operands = (line, v')"
      "st' = st\<lparr>lb_views := (lb_views st)[i := v']\<rparr>"
      by (simp add: a labelUID_def split: if_splits prod.splits)
    with one [OF labelStoreDeleted_change [OF r(1)] r(2)] c show ?thesis by blast
  next
    case 3
    with assms False c obtain ls v' where r: "labelExpunge (lb_views st ! i) tag operands = (ls, v')"
      "st' = st\<lparr>lb_views := (lb_views st)[i := v']\<rparr>"
      by (auto simp: a labelUID_def Let_def split: if_splits prod.splits)
    with one [OF labelExpunge_change [OF r(1)] r(2)] c show ?thesis by blast
  qed
qed simp

lemma serveLabels_change:
  assumes "serveLabels st session tag name raw tls authenticated = (r, session', st')"
  shows "st' = st \<or> (authenticated \<and> name = ''UID'' \<and> \<not> sl_readOnly session \<and> sl_selected session \<noteq> [] \<and> labels_changed st st')"
proof (cases "st' = st")
  case False
  with assms obtain arguments lines where "name = ''UID''" "authenticated" "labelUID st session tag arguments = (lines, st')"
    by (auto simp: serveLabels_def split: if_splits sum.splits prod.splits)
  with labelUID_change [of st session tag arguments lines st'] False show ?thesis by auto
qed simp

lemma label_change_kept [simp]:
  assumes "label_change sources v v'"
  shows "lv_name v' = lv_name v" and "lv_role v' = lv_role v" and "lv_attributes v' = lv_attributes v" and "lv_uidValidity v' = lv_uidValidity v"
  using assms by (auto elim: label_change.cases)

lemma sorted_wrt_without: "sorted_wrt R xs \<Longrightarrow> sorted_wrt R (take i xs @ drop (i + 1) xs)"
proof -
  assume "sorted_wrt R xs"
  then have "sorted_wrt R (take i xs @ drop i xs)" by simp
  then show ?thesis unfolding sorted_wrt_append by (cases "drop i xs") (auto simp: drop_Suc simp flip: tl_drop)
qed

lemma distinct_iff_sorted_wrt: "distinct xs \<longleftrightarrow> sorted_wrt (\<lambda>a b. a \<noteq> b) xs"
  by (induction xs) auto

lemma map_update_same: "f x = f (xs ! i) \<Longrightarrow> map f (xs[i := x]) = map f xs"
  by (metis list_update_id map_update)

lemma label_change_ok:
  assumes "label_change sources v v'" and "view_ok n v" and "sources \<subseteq> {..<n}"
  shows "view_ok n v'"
  using assms(1)
proof cases
  case (added message)
  have next_uid: "unat (lv_uidNext v + 1) = unat (lv_uidNext v) + 1" using unat_next [OF added(4)] .
  then have "uid < lv_uidNext v \<Longrightarrow> uid < lv_uidNext v + 1" and "lv_uidNext v < lv_uidNext v + 1" and "0 < lv_uidNext v + 1" for uid
    by (simp_all add: word_less_nat_alt)
  with added assms(2,3) show ?thesis by (auto simp: view_ok_def sorted_wrt_append)
next
  case (marked i)
  from assms(2) show ?thesis unfolding marked(1) view_ok_def by (simp add: map_update_same del: set_map)
next
  case (removed i)
  have in_members: "m \<in> set (take i (lv_members v) @ drop (i + 1) (lv_members v)) \<Longrightarrow> m \<in> set (lv_members v)" for m
    by (auto dest: in_set_takeD in_set_dropD)
  have "sorted_wrt (<) (map mb_uid (take i (lv_members v) @ drop (i + 1) (lv_members v)))"
    and "distinct (map mb_message (take i (lv_members v) @ drop (i + 1) (lv_members v)))"
    using sorted_wrt_without [of "(<)" "map mb_uid (lv_members v)" i] sorted_wrt_without [of "\<lambda>a b. a \<noteq> b" "map mb_message (lv_members v)" i] assms(2)
    by (simp_all add: view_ok_def take_map drop_map distinct_iff_sorted_wrt del: drop_Suc)
  with assms(2) in_members show ?thesis unfolding removed(1) view_ok_def by auto
qed

lemma filter_update_outside: "i < length xs \<Longrightarrow> \<not> p (xs ! i) \<Longrightarrow> \<not> p x \<Longrightarrow> filter p (xs[i := x]) = filter p xs"
proof (induction xs arbitrary: i)
  case (Cons a xs)
  then show ?case by (cases i) auto
qed simp

lemma labels_changed_ok:
  assumes "labels_changed st st'" and "label_ok st"
  shows "label_ok st' \<and> lb_messages st' = lb_messages st \<and> length (lb_views st') = length (lb_views st) \<and>
    filter (\<lambda>v. lv_role v = FolderRole) (lb_views st') = filter (\<lambda>v. lv_role v = FolderRole) (lb_views st)"
proof -
  from assms(1) obtain i v' where c: "i < length (lb_views st)" "lv_role (lb_views st ! i) = LabelRole"
    "label_change (set (folder_messages (lb_views st))) (lb_views st ! i) v'" "st' = st\<lparr>lb_views := (lb_views st)[i := v']\<rparr>"
    unfolding labels_changed_def by blast
  note kept = label_change_kept [OF c(3)]
  have "map lv_name ((lb_views st)[i := v']) = map lv_name (lb_views st)" using kept(1) c(1) by (metis list_update_id map_update)
  moreover have "view_ok (length (lb_messages st)) v'"
    using assms(2) c by (intro label_change_ok [OF c(3)]) (auto simp: label_ok_def)
  moreover have folders: "filter (\<lambda>v. lv_role v = FolderRole) ((lb_views st)[i := v']) = filter (\<lambda>v. lv_role v = FolderRole) (lb_views st)"
    using c kept(2) by (intro filter_update_outside) auto
  moreover have "folder_messages ((lb_views st)[i := v']) = folder_messages (lb_views st)" unfolding folder_messages_def folders ..
  ultimately show ?thesis using assms(2) c unfolding label_ok_def
    by (auto dest: set_update_subset_insert [THEN subsetD])
qed

section \<open>A seeded store is well formed\<close>

definition members_ok :: "nat \<Rightarrow> membership list \<Rightarrow> bool" where
  "members_ok n members \<longleftrightarrow> distinct (map mb_uid members) \<and> distinct (map mb_message members) \<and>
     (\<forall>m \<in> set members. mb_uid m \<noteq> 0 \<and> mb_uid m \<noteq> 0xFFFFFFFF \<and> mb_message m < n)"

lemma seed_members_ok:
  assumes "seed_members ms role owned members seeds = Some (members', owned')" and "members_ok (length ms) members"
    and "role = FolderRole \<longrightarrow> set (map mb_message members) \<inter> before = {} \<and> owned = before \<union> set (map mb_message members)"
    and "role \<noteq> FolderRole \<longrightarrow> owned = before"
  shows "members_ok (length ms) members' \<and>
    (if role = FolderRole then set (map mb_message members') \<inter> before = {} \<and> owned' = before \<union> set (map mb_message members') else owned' = before)"
  using assms
proof (induction seeds arbitrary: owned members)
  case (Cons seed seeds)
  from Cons.prems(1) obtain message where m: "position_of (\<lambda>m. lm_id m = mx_Message seed) ms = Some message"
    "mx_UID seed \<noteq> 0" "mx_UID seed \<noteq> 0xFFFFFFFF" "mx_UID seed \<notin> mb_uid ` set members" "message \<notin> mb_message ` set members"
    "role = FolderRole \<longrightarrow> message \<notin> owned"
    "seed_members ms role (if role = FolderRole then insert message owned else owned)
       (members @ [\<lparr>mb_message = message, mb_uid = mx_UID seed, mb_deleted = mx_Deleted seed\<rparr>]) seeds = Some (members', owned')"
    by (simp split: option.splits if_split_asm)
  show ?case
    by (rule Cons.IH [OF m(7)]) (use m position_of_Some [OF m(1)] Cons.prems(2-4) in \<open>auto simp: members_ok_def\<close>)
qed auto

lemma view_ok_seeded:
  assumes "members_ok n members0" and "members = sort_key mb_uid members0" and "lv_role v \<noteq> NoRole" and "lv_members v = members"
    and "lv_uidNext v = (if members = [] then 1 else mb_uid (last members) + 1)"
  shows "view_ok n v"
proof -
  have uids: "sorted (map mb_uid members)" "distinct (map mb_uid members)" "distinct (map mb_message members)"
    using assms(1,2) by (simp_all add: members_ok_def distinct_map)
  then have sorted: "sorted_wrt (<) (map mb_uid members)" by (simp add: strict_sorted_iff)
  show ?thesis
  proof (cases "members = []")
    case True
    with assms show ?thesis by (simp add: view_ok_def)
  next
    case False
    have ok: "mb_uid m \<noteq> 0 \<and> mb_uid m \<noteq> 0xFFFFFFFF \<and> mb_message m < n" if "m \<in> set members" for m
      using assms(1,2) that by (simp add: members_ok_def)
    from ok [OF last_in_set [OF False]] have n: "unat (mb_uid (last members) + 1) = unat (mb_uid (last members)) + 1" by (intro unat_next) simp
    have "mb_uid m \<le> mb_uid (last members)" if "m \<in> set members" for m
      using uids(1) that False by (cases members rule: rev_cases) (auto simp: sorted_append)
    then have "mb_uid m < mb_uid (last members) + 1" if "m \<in> set members" for m
      using that n by (simp add: word_less_nat_alt word_le_nat_alt less_Suc_eq_le)
    with ok n sorted uids assms(3-5) False show ?thesis by (auto simp: view_ok_def word_less_nat_alt word_neq_0_conv)
  qed
qed

lemma folder_messages_snoc:
  "folder_messages (views @ [v]) = folder_messages views @ (if lv_role v = FolderRole then map mb_message (lv_members v) else [])"
  by (simp add: folder_messages_def)

definition views_ok :: "nat \<Rightarrow> nat set \<Rightarrow> labelView list \<Rightarrow> bool" where
  "views_ok n owned views \<longleftrightarrow> names_distinct (map lv_name views) \<and> (\<forall>v \<in> set views. view_ok n v) \<and>
     distinct (folder_messages views) \<and> set (folder_messages views) = owned"

lemma seed_views_ok:
  "seed_views ms index owned views seeds = Some (views', owned') \<Longrightarrow> views_ok (length ms) owned views \<Longrightarrow> views_ok (length ms) owned' views'"
proof (induction seeds arbitrary: index owned views)
  case (Cons seed seeds)
  from Cons.prems(1) obtain attributes members0 owned1 v where c: "find_name lv_name views (vx_Name seed) = None"
    "vx_Role seed = FolderRole \<or> vx_Role seed = LabelRole" "seed_members ms (vx_Role seed) owned [] (vx_Members seed) = Some (members0, owned1)"
    "seed_views ms (index + 1) owned1 (views @ [v]) seeds = Some (views', owned')"
    "lv_name v = vx_Name seed" "lv_role v = vx_Role seed" "lv_members v = sort_key mb_uid members0"
    "lv_uidNext v = (if sort_key mb_uid members0 = [] then 1 else mb_uid (last (sort_key mb_uid members0)) + 1)"
    by (auto simp: Let_def split: if_split_asm option.splits prod.splits)
  from seed_members_ok [OF c(3), of owned] have members: "members_ok (length ms) members0"
    "if vx_Role seed = FolderRole then (\<forall>m \<in> set members0. mb_message m \<notin> owned) \<and> owned1 = owned \<union> set (map mb_message members0) else owned1 = owned"
    by (auto simp: members_ok_def disjoint_iff split: if_split_asm)
  have "view_ok (length ms) v" using c(2,6) by (intro view_ok_seeded [OF members(1) refl _ c(7,8)]) auto
  with Cons.prems(2) c members have "views_ok (length ms) owned1 (views @ [v])"
    by (auto simp: views_ok_def names_distinct_snoc find_name_None folder_messages_snoc members_ok_def distinct_map disjoint_iff split: if_split_asm)
  from Cons.IH [OF c(4) this] show ?case .
qed simp

lemma newLabelStore_ok:
  assumes "newLabelStore uidPlus messages views = Some st"
  shows "label_ok st"
proof -
  from assms obtain owned where c: "seed_views (lb_messages st) 0 {} [] views = Some (lb_views st, owned)" "{0..<length (lb_messages st)} \<subseteq> owned"
    by (auto simp: newLabelStore_def list_all_iff subset_iff split: option.splits if_splits)
  have "views_ok (length (lb_messages st)) {} []" by (simp add: views_ok_def names_distinct_def folder_messages_def)
  from seed_views_ok [OF c(1) this] have v: "views_ok (length (lb_messages st)) owned (lb_views st)" .
  then have "owned \<subseteq> {..<length (lb_messages st)}" by (auto simp: views_ok_def view_ok_def folder_messages_def)
  with c(2) v show ?thesis by (auto simp: label_ok_def views_ok_def atLeast0LessThan)
qed

section \<open>Runs\<close>

lemma label_command_change:
  assumes "handle_command serveLabels handshake following raw k st = (lines, k', st')"
  shows "st' = st \<or> (fc_authenticated k \<and> \<not> sl_readOnly (fc_session k) \<and> sl_selected (fc_session k) \<noteq> [] \<and> labels_changed st st')"
proof -
  obtain tag name where p: "parseCommand raw = (tag, name)" by fastforce
  obtain r session st1 where s: "serveLabels st (fc_session k) tag name raw (fc_tls k) (fc_authenticated k) = (r, session, st1)" by (metis prod_cases3)
  with assms p have "st' = st1" by (cases r) (auto simp: handle_command_def split: prod.splits)
  with serveLabels_change [OF s] show ?thesis by auto
qed

lemma label_run_ok:
  assumes "label_run implicit_tls st f" and "label_ok st"
  shows "label_ok (lf_store f) \<and> lb_messages (lf_store f) = lb_messages st \<and>
    filter (\<lambda>v. lv_role v = FolderRole) (lb_views (lf_store f)) = filter (\<lambda>v. lv_role v = FolderRole) (lb_views st)"
  using assms(1)
proof induction
  case (stepped f f')
  from stepped(2) show ?case
  proof cases
    case (commanded c k handshake following raw lines k' st')
    with label_command_change [OF commanded(3)] labels_changed_ok [of "lf_store f" st'] stepped.IH show ?thesis by auto
  qed (use stepped.IH in auto)
qed (use assms(2) in simp)

text \<open>
  C39. The label mode of the test server, from any accepted seed and whatever its connections send: every message
  stays in exactly one folder, the folders and the messages never change at all, the names stay distinct, and in
  every view the UIDs increase below its UIDNEXT and no message occurs twice.
\<close>

theorem label_invariant:
  assumes "newLabelStore uidPlus messages views = Some st" and "label_run implicit_tls st f"
  shows "label_ok (lf_store f) \<and> lb_messages (lf_store f) = lb_messages st \<and>
    filter (\<lambda>v. lv_role v = FolderRole) (lb_views (lf_store f)) = filter (\<lambda>v. lv_role v = FolderRole) (lb_views st)"
  by (rule label_run_ok [OF assms(2) newLabelStore_ok [OF assms(1)]])

definition sample_label_messages :: "LabelMessageSeed list" where
  "sample_label_messages = [\<lparr>lx_ID = ''m'', lx_Flags = [], lx_Body = ''x''\<rparr>]"

definition sample_views :: "LabelViewSeed list" where
  "sample_views =
     [\<lparr>vx_Name = ''INBOX'', vx_Role = FolderRole, vx_Attributes = [], vx_UIDValidity = 0, vx_Members = [\<lparr>mx_Message = ''m'', mx_UID = 501, mx_Deleted = False\<rparr>]\<rparr>,
      \<lparr>vx_Name = ''Labels/A'', vx_Role = LabelRole, vx_Attributes = [], vx_UIDValidity = 0, vx_Members = []\<rparr>]"

definition sample_label_store :: labelStore where
  "sample_label_store = \<lparr>lb_uidPlus = True, lb_messages = [\<lparr>lm_id = ''m'', lm_flags = [], lm_body = ''x''\<rparr>], lb_views =
     [\<lparr>lv_name = ''INBOX'', lv_role = FolderRole, lv_attributes = [], lv_uidValidity = 1001, lv_uidNext = 502,
        lv_members = [\<lparr>mb_message = 0, mb_uid = 501, mb_deleted = False\<rparr>]\<rparr>,
      \<lparr>lv_name = ''Labels/A'', lv_role = LabelRole, lv_attributes = [], lv_uidValidity = 1002, lv_uidNext = 1, lv_members = []\<rparr>]\<rparr>"

definition sample_labelled :: labelStore where
  "sample_labelled = sample_label_store\<lparr>lb_views := (lb_views sample_label_store)[1 := (lb_views sample_label_store ! 1)\<lparr>
     lv_members := [\<lparr>mb_message = 0, mb_uid = 1, mb_deleted = False\<rparr>], lv_uidNext := 2\<rparr>]\<rparr>"

lemma sample_label_commands:
  "newLabelStore True sample_label_messages sample_views = Some sample_label_store"
  "snd (handle_command serveLabels True None ''a1 LOGIN u p'' (new_conn True) sample_label_store) = (Some (sample_conn True []), sample_label_store)"
  "snd (handle_command serveLabels True None ''a2 SELECT inbox'' (sample_conn True []) sample_label_store) = (Some (sample_conn True ''INBOX''), sample_label_store)"
  "snd (handle_command serveLabels True None ''a3 UID COPY 501 Labels/A'' (sample_conn True ''INBOX'') sample_label_store) = (Some (sample_conn True ''INBOX''), sample_labelled)"
  by code_simp+

lemma sample_label_step:
  "label_run True sample_label_store \<lparr>lf_store = st, lf_conns = [0 \<mapsto> k]\<rparr> \<Longrightarrow>
     snd (handle_command serveLabels True None raw k st) = (Some k', st') \<Longrightarrow>
     label_run True sample_label_store \<lparr>lf_store = st', lf_conns = [0 \<mapsto> k']\<rparr>"
  using label_run.stepped [OF _ label_step.commanded [where c = 0 and k = k and k' = "Some k'" and st' = st' and
      handshake = True and following = None and raw = raw and lines = "fst (handle_command serveLabels True None raw k st)"]]
  by (metis (no_types, lifting) label_fixture.select_convs fun_upd_same fun_upd_upd prod.collapse)

lemma sample_label_run: "label_run True sample_label_store \<lparr>lf_store = sample_labelled, lf_conns = [0 \<mapsto> sample_conn True ''INBOX'']\<rparr>"
proof -
  have "label_run True sample_label_store \<lparr>lf_store = sample_label_store, lf_conns = [0 \<mapsto> new_conn True]\<rparr>"
    using label_run.stepped [OF label_run.started label_step.connected [where c = 0]] by simp
  from sample_label_step [OF sample_label_step [OF sample_label_step [OF this sample_label_commands(2)] sample_label_commands(3)]
      sample_label_commands(4)] show ?thesis .
qed

theorem label_invariant_witness:
  "label_ok sample_labelled \<and> sample_labelled \<noteq> sample_label_store \<and> lb_messages sample_labelled = lb_messages sample_label_store"
proof -
  have "sample_labelled \<noteq> sample_label_store" by (simp add: sample_labelled_def sample_label_store_def)
  with label_invariant [OF sample_label_commands(1) sample_label_run] show ?thesis by simp
qed

end
