(* ===== verification/Fixture_Label_Faults.thy ===== *)
theory Fixture_Label_Faults
  imports Fixture_Labels Header_Metadata
begin

text \<open>
  The one-shot faults of the label mode (\<^verbatim>\<open>internal/testkit/label_faults.go\<close>): which command consumes an armed fault, and
  what the test server does with it. A property states that a fault is consumed only by a mutation of the view it names
  and that the store ends up as without the fault or untouched.
\<close>

section \<open>Arming\<close>

record LabelFault =
  lt_Command :: bytes
  lt_View :: bytes
  lt_UID :: bytes
  lt_Destination :: bytes
  lt_Boundary :: FaultBoundary
  lt_Action :: FaultAction

record labelFaultKey =
  ky_command :: bytes
  ky_view :: bytes
  ky_uid :: bytes
  ky_destination :: bytes

record FaultHandle =
  fh_label :: LabelFault
  fh_labelKey :: labelFaultKey

text \<open>\<^verbatim>\<open>find\<close> of the label store.\<close>

definition view_named :: "labelStore \<Rightarrow> bytes \<Rightarrow> labelView option" where
  "view_named st name = map_option (\<lambda>i. lb_views st ! i) (find_name lv_name (lb_views st) name)"

definition InjectLabelFault :: "labelStore option \<Rightarrow> LabelFault \<Rightarrow> FaultHandle list \<Rightarrow> control_error option \<times> FaultHandle list" where
  "InjectLabelFault server fault faults = (case server of
      None \<Rightarrow> (Some NotStateful, faults)
    | Some st \<Rightarrow>
      if lt_Command fault \<notin> {''UID COPY'', ''UID STORE'', ''UID EXPUNGE''} then (Some InvalidControl, faults)
      else if (lt_Command fault = ''UID COPY'') = (lt_Destination fault = []) then (Some InvalidControl, faults)
      else if list_ex (\<lambda>c. c \<in> set '',:*'') (lt_UID fault) then (Some InvalidControl, faults)
      else if parseSequenceNumber (lt_UID fault) = None then (Some InvalidControl, faults)
      else if lt_Boundary fault \<noteq> BeforeApplication \<and> lt_Boundary fault \<noteq> AfterApplication then (Some InvalidControl, faults)
      else if lt_Action fault = NoAction then (Some InvalidControl, faults)
      else if lt_Action fault = RejectCommand \<and> (lt_Command fault \<noteq> ''UID EXPUNGE'' \<or> lt_Boundary fault \<noteq> BeforeApplication)
      then (Some InvalidControl, faults)
      else case view_named st (lt_View fault) of
          None \<Rightarrow> (Some UnknownMailbox, faults)
        | Some v \<Rightarrow>
          let armed = (\<lambda>destination. faults @ [\<lparr>fh_label = fault, fh_labelKey =
              \<lparr>ky_command = lt_Command fault, ky_view = lv_name v, ky_uid = lt_UID fault, ky_destination = destination\<rparr>\<rparr>]) in
          if lt_Command fault \<noteq> ''UID COPY'' then (None, armed [])
          else (case view_named st (lt_Destination fault) of
              None \<Rightarrow> (Some UnknownMailbox, faults)
            | Some d \<Rightarrow> (None, armed (lv_name d))))"

section \<open>Consuming\<close>

definition labelDispatchable :: "labelStore \<Rightarrow> statefulSession \<Rightarrow> fixture_command \<Rightarrow> labelFaultKey option" where
  "labelDispatchable st session c = (case ParseTranscriptCommand c of
      None \<Rightarrow> None
    | Some p \<Rightarrow>
      if sl_selected session = [] \<or> sl_readOnly session then None
      else if list_ex (\<lambda>x. x \<in> set '',:*'') (tr_Set p) then None
      else if tr_Verb p \<notin> {''UID COPY'', ''UID STORE'', ''UID EXPUNGE''} then None
      else if tr_Verb p = ''UID STORE'' \<and> (tr_Store p \<noteq> ''+FLAGS'' \<or> \<not> tr_Silent p \<or> length (tr_Flags p) \<noteq> 1 \<or> \<not> isDeletedFlag (hd (tr_Flags p)))
      then None
      else if tr_Verb p = ''UID EXPUNGE'' \<and> \<not> lb_uidPlus st then None
      else case view_named st (sl_selected session) of
          None \<Rightarrow> None
        | Some v \<Rightarrow>
          let key = \<lparr>ky_command = tr_Verb p, ky_view = lv_name v, ky_uid = tr_Set p, ky_destination = []\<rparr> in
          if tr_Verb p \<noteq> ''UID COPY'' then (if lv_role v = LabelRole then Some key else None)
          else (case view_named st (tr_Destination p) of
              None \<Rightarrow> None
            | Some d \<Rightarrow>
              if lv_role v \<noteq> FolderRole \<or> lv_role d \<noteq> LabelRole \<or> \<not> selectableAttributes (lv_attributes d) then None
              else (case byUID v (fst (hd (tr_Ranges p))) of
                  Some member \<Rightarrow>
                    if byMessage d (mb_message member) = None \<and> lv_uidNext d = 0xFFFFFFFF then None
                    else Some (key\<lparr>ky_destination := lv_name d\<rparr>)
                | None \<Rightarrow> Some (key\<lparr>ky_destination := lv_name d\<rparr>))))"

definition claimLabelFault :: "labelStore \<Rightarrow> statefulSession \<Rightarrow> fixture_command \<Rightarrow> bool \<Rightarrow> FaultHandle list \<Rightarrow> (FaultHandle \<times> FaultHandle list) option" where
  "claimLabelFault st session c authenticated faults =
     (if \<not> authenticated \<or> faults = [] then None
      else case labelDispatchable st session c of
          None \<Rightarrow> None
        | Some key \<Rightarrow> claim_first (\<lambda>f. fh_labelKey f = key) faults)"

definition labelFaultRefusal :: bytes where
  "labelFaultRefusal = ''NO [UNAVAILABLE] UID EXPUNGE refused by fixture fault''"

text \<open>
  The completion that is withheld, the line that is written if any, whether the connection stays open when writing that
  line succeeds as \<open>written\<close> says, and the store.
\<close>

definition runLabelFault ::
  "FaultHandle \<Rightarrow> statefulSession \<Rightarrow> fixture_command \<Rightarrow> bytes \<Rightarrow> bool \<Rightarrow> labelStore \<Rightarrow> bytes \<times> bytes option \<times> bool \<times> labelStore" where
  "runLabelFault f session c tag written st =
     (case (if lt_Boundary (fh_label f) = AfterApplication then
              (case serveLabels st session tag (cd_Name c) (cd_Raw c) (cd_TLS c) True of
                 (Answered lines, _, st') \<Rightarrow> (last lines, st')
               | (_, _, st') \<Rightarrow> ([], st'))
            else ([], st)) of
        (completion, st') \<Rightarrow>
          if lt_Action (fh_label f) = RejectCommand then (completion, Some (tagged tag labelFaultRefusal), written, st')
          else (completion, None, False, st'))"

text \<open>The complete lines read on a held connection are recorded and nothing else.\<close>

definition recordHeld :: "bytes list \<Rightarrow> fixture_command \<Rightarrow> fixture_command list \<Rightarrow> fixture_command list" where
  "recordHeld lines target commands =
     fold (\<lambda>line commands. let raw = trim_right_set [CR, LF] line in
        snd (record_command commands raw (snd (parseCommand raw)) (cd_TLS target) (cd_ConnectionID target))) lines commands"

section \<open>What a fault does\<close>

lemma labelDispatchable_key:
  assumes "labelDispatchable st session c = Some key"
  shows "\<not> sl_readOnly session \<and> sl_selected session \<noteq> [] \<and> (\<exists>v. view_named st (sl_selected session) = Some v \<and> ky_view key = lv_name v \<and>
      lv_role v = (if ky_command key = ''UID COPY'' then FolderRole else LabelRole)) \<and>
    (\<exists>p. ParseTranscriptCommand c = Some p \<and> ky_command key = tr_Verb p \<and> ky_uid key = tr_Set p) \<and>
    ky_command key \<in> {''UID COPY'', ''UID STORE'', ''UID EXPUNGE''}"
  using assms unfolding labelDispatchable_def Let_def by (auto split: option.splits if_split_asm)

text \<open>
  A label fault is consumed only by an authenticated command in a mailbox that was opened for writing, issued in
  the view the fault names, a folder for a COPY and a label view otherwise, and exactly this one fault is spent. The
  command is then applied as the server would have applied it without the fault, or not at all when the fault comes
  before the application; a refusal never closes the connection by itself, every other fault does.
\<close>

theorem label_fault_application:
  assumes "claimLabelFault st (fc_session k) c (fc_authenticated k) faults = Some (h, rest)"
    and "parseCommand (cd_Raw c) = (tag, cd_Name c)" and "cd_TLS c = fc_tls k"
    and "runLabelFault h (fc_session k) c tag written st = (completion, line, open, st')"
  shows "fc_authenticated k \<and> \<not> sl_readOnly (fc_session k) \<and>
    (\<exists>before after. faults = before @ h # after \<and> rest = before @ after) \<and>
    (\<exists>v. view_named st (sl_selected (fc_session k)) = Some v \<and> ky_view (fh_labelKey h) = lv_name v \<and>
       lv_role v = (if ky_command (fh_labelKey h) = ''UID COPY'' then FolderRole else LabelRole)) \<and>
    st' = (if lt_Boundary (fh_label h) = AfterApplication then snd (snd (handle_command serveLabels handshake following (cd_Raw c) k st)) else st) \<and>
    open = (lt_Action (fh_label h) = RejectCommand \<and> written)"
proof -
  obtain key where key: "fc_authenticated k" "labelDispatchable st (fc_session k) c = Some key"
    "claim_first (\<lambda>f. fh_labelKey f = key) faults = Some (h, rest)"
    using assms(1) by (auto simp: claimLabelFault_def split: if_splits option.splits)
  from claim_first_Some [OF key(3)] have claimed: "\<exists>before after. faults = before @ h # after \<and> rest = before @ after" "fh_labelKey h = key"
    by blast+
  obtain r session st1 where s: "serveLabels st (fc_session k) tag (cd_Name c) (cd_Raw c) (fc_tls k) True = (r, session, st1)" by (metis prod_cases3)
  have "st' = (if lt_Boundary (fh_label h) = AfterApplication then st1 else st) \<and> open = (lt_Action (fh_label h) = RejectCommand \<and> written)"
    using assms(3,4) s by (cases r) (auto simp: runLabelFault_def split: if_splits)
  moreover have "snd (snd (handle_command serveLabels handshake following (cd_Raw c) k st)) = st1"
    using assms(2) key(1) s by (cases r) (auto simp: handle_command_def split: prod.split)
  ultimately show ?thesis using labelDispatchable_key [OF key(2)] key(1) claimed by simp
qed

definition sample_copy :: fixture_command where
  "sample_copy = \<lparr>cd_Sequence = 3, cd_ConnectionID = 1, cd_Raw = ''a3 UID COPY 501 Labels/A'', cd_Name = ''UID'', cd_TLS = True\<rparr>"

definition sample_label_fault :: FaultHandle where
  "sample_label_fault = \<lparr>fh_label = \<lparr>lt_Command = ''UID COPY'', lt_View = ''inbox'', lt_UID = ''501'', lt_Destination = ''Labels/A'',
     lt_Boundary = AfterApplication, lt_Action = DropConnection\<rparr>,
     fh_labelKey = \<lparr>ky_command = ''UID COPY'', ky_view = ''INBOX'', ky_uid = ''501'', ky_destination = ''Labels/A''\<rparr>\<rparr>"

lemma sample_label_faults:
  "InjectLabelFault (Some sample_label_store) (fh_label sample_label_fault) [] = (None, [sample_label_fault])"
  "claimLabelFault sample_label_store (fc_session (sample_conn True ''INBOX'')) sample_copy (fc_authenticated (sample_conn True ''INBOX''))
     [sample_label_fault] = Some (sample_label_fault, [])"
  "parseCommand (cd_Raw sample_copy) = (''a3'', cd_Name sample_copy)"
  by code_simp+

theorem label_fault_application_witness:
  "\<exists>completion line st'. runLabelFault sample_label_fault (fc_session (sample_conn True ''INBOX'')) sample_copy ''a3'' True sample_label_store =
     (completion, line, False, st') \<and> st' = sample_labelled"
proof -
  obtain completion line "open" st' where run: "runLabelFault sample_label_fault (fc_session (sample_conn True ''INBOX'')) sample_copy ''a3'' True
      sample_label_store = (completion, line, open, st')" by (metis prod_cases4)
  have "cd_TLS sample_copy = fc_tls (sample_conn True ''INBOX'')" by (simp add: sample_copy_def sample_conn_def)
  from label_fault_application [OF sample_label_faults(2,3) this run, of True None] sample_label_commands(4)
  have "open = False" "st' = sample_labelled" by (simp_all add: sample_label_fault_def sample_copy_def)
  with run show ?thesis by blast
qed

text \<open>
  A command that the label dispatcher refuses may spend a fault all the same: the name of a view may contain a closing
  bracket, which the transcript parser reads and the tokenizer of the server does not.
\<close>

lemma refused_spends_fault:
  fixes st c k fault
  defines "st \<equiv> sample_label_store\<lparr>lb_views := (lb_views sample_label_store)[1 := (lb_views sample_label_store ! 1)\<lparr>lv_name := ''A]''\<rparr>]\<rparr>"
    and "c \<equiv> sample_copy\<lparr>cd_Raw := ''a3 UID COPY 501 A]''\<rparr>" and "k \<equiv> sample_conn True ''INBOX''"
    and "fault \<equiv> sample_label_fault\<lparr>fh_labelKey := (fh_labelKey sample_label_fault)\<lparr>ky_destination := ''A]''\<rparr>\<rparr>"
  shows "claimLabelFault st (fc_session k) c True [fault] = Some (fault, [])"
    and "handle_command serveLabels True None (cd_Raw c) k st = ([''a3 BAD unbalanced brackets''], Some k, st)"
  unfolding assms by code_simp+

end
