(* ===== verification/Spec2Isabelle.thy ===== *)
theory Spec2Isabelle
  imports Quarantine_Properties Wire_Guards Structure_Dialogue IMAP_Fetch Stdio_Frames Tool_Safety Server_Run Drive_Safety Drive_Gate Drive_Files Session_Open Server_Start Fixture_Label_Faults
begin

text \<open>
  A model of croton-mcp, a Model Context Protocol server that gives a language model bounded access to
  the mail of a local IMAP bridge (\<^verbatim>\<open>bridge/\<close>, \<^verbatim>\<open>internal/mcpserver/\<close>) and to a drive client
  (\<^verbatim>\<open>internal/drive*\<close>). This development covers the Mail half, the code that stands between what an IMAP
  server sends and what a tool returns or writes, the Drive half over its subprocess client, and the
  configuration and dialling both start from.

  \<^bold>\<open>Conventions.\<close> Strings and byte slices are lists of characters with byte values, UIDs and UIDVALIDITY
  values are \<open>32 word\<close>, Go's \<^verbatim>\<open>int\<close> and times are \<open>int\<close>. A struct is a record, an error is a value of
  \<open>go_error\<close> or one of the stable codes, and a function that may fail returns a sum with the error on
  the left. State is passed explicitly. A mutex is the atomicity of one step. Code outside the repository
  (go-imap, the decoders of the Go library and of \<^verbatim>\<open>golang.org/x/net\<close>, HMAC, the JSON decoder, the
  network) is a field of an environment record or an argument, without assumptions unless a theorem
  names one.

  \<^bold>\<open>Theories, in the order of the layers.\<close>

  \<^item> \<open>Croton_Prelude\<close>: bytes, cuts, decimal numbers and case mapping as the sources use them;
    \<open>Go_Text\<close>: UTF-8, JSON strings and base64; \<open>Go_Heap\<close>: \<^verbatim>\<open>container/heap\<close>, with the locale
    \<open>extremum_queue\<close> for what a user of the heap relies on.
  \<^item> \<open>Bridge_Errors\<close> (\<^verbatim>\<open>bridge/errors.go\<close>, \<^verbatim>\<open>mapIMAPError\<close>, \<^verbatim>\<open>mcpserver/errors.go\<close>) and
    \<open>Bridge_Limits\<close> (\<^verbatim>\<open>bridge/bounds.go\<close>, the limits of \<^verbatim>\<open>bridge/types.go\<close>): codes and bounds;
    \<open>Mail_Types\<close>: the values the layers exchange.
  \<^item> \<open>Structure_Quarantine\<close> (\<^verbatim>\<open>bridge/structure_quarantine.go\<close>): the reader that releases only whole,
    approved responses to the IMAP decoder. \<open>reach\<close> is the relation of its interleaved calls;
    \<open>Quarantine_Safety\<close> has its invariants and \<open>Quarantine_Properties\<close> what they show: framing, the
    budgets, and independence from how the bytes were split into reads.
  \<^item> \<open>Structure_Session\<close> (\<^verbatim>\<open>bridge/structure_session.go\<close>): the session state machine around the
    quarantine and \<^verbatim>\<open>readStructure\<close>; \<open>Structure_Dialogue\<close>: what it says to the server under any
    sequence of calls, and what a returned structure has confirmed.
  \<^item> \<open>Wire_Guards\<close>, \<open>Search_Wire\<close>, \<open>Search_Observer\<close>, \<open>Search_Session\<close> (\<^verbatim>\<open>bridge/imapclient.go\<close>): the
    connection wrappers (native-MOVE guard, deadlines, synthetic greeting), the grammar of SEARCH and
    ESEARCH lines, the observation of raw responses under a read budget, and \<^verbatim>\<open>UIDSearchWindow\<close>.
  \<^item> \<open>IMAP_Commands\<close> and \<open>IMAP_Fetch\<close> (\<^verbatim>\<open>imapSession\<close> of \<^verbatim>\<open>bridge/imapclient.go\<close>): every command of
    the session over its deadline, budget and guard layers, with go-imap as a record of calls that may
    read, write and answer anything.
  \<^item> \<open>Header_Blocks\<close>, \<open>Mime_Text\<close>, \<open>Mime_Message\<close>, \<open>Header_Metadata\<close> (\<^verbatim>\<open>bridge/mime.go\<close>,
    \<^verbatim>\<open>bridge/thread_fields.go\<close>, header parts of \<^verbatim>\<open>bridge/imapclient.go\<close>): scans of raw header
    blocks, bounded text, normalization of a MIME message, sender and date.
  \<^item> \<open>Bridge_Session\<close> (\<^verbatim>\<open>bridge/bridge.go\<close>): the adapter's retained session, opening, replay and
    \<^verbatim>\<open>Close\<close>, over the interface \<open>session_env\<close>; \<open>Message_IDs\<close>, \<open>Mail_Search\<close> (\<^verbatim>\<open>bridge/search.go\<close>),
    \<open>Mail_Reads\<close> (\<^verbatim>\<open>bridge/messages.go\<close>, \<^verbatim>\<open>bridge/folders.go\<close>): identifiers, the bounded newest-first
    search and the confirmed reads; the locale \<open>window_search\<close> is the contract between selection and
    the session, interpreted on \<^verbatim>\<open>UIDSearchWindow\<close>.
  \<^item> \<open>Move_Destination\<close>, \<open>Mail_Triage\<close> (\<^verbatim>\<open>bridge/move.go\<close>, \<^verbatim>\<open>bridge/seen.go\<close>): which mailbox a move may
    name, and the batches of SetSeen, Move, Archive and Trash; \<open>Triage_Safety\<close> runs them in an
    environment that records the writes (locales \<open>triage_step\<close> and \<open>seen_step\<close>, one per kind of loop).
  \<^item> \<open>Mail_Threads\<close> and \<open>Thread_Properties\<close> (\<^verbatim>\<open>bridge/threads.go\<close>): thread building and its forest.
  \<^item> \<open>Attachment_Structure\<close> (\<^verbatim>\<open>bridge/attachment_projection.go\<close>, \<^verbatim>\<open>bridge/attachment_structure.go\<close>): the
    projection of a BODYSTRUCTURE, its agreement with the body path, and the adapter operation.
  \<^item> \<open>Strict_JSON\<close> (\<^verbatim>\<open>internal/strictjson/\<close>) and \<open>Stdio_Frames\<close> (\<^verbatim>\<open>internal/stdioframe/\<close>): the check of one
    JSON object against duplicate and aliased keys, and the reader that gives the SDK one checked line at
    a time.
  \<^item> \<open>Tool_Results\<close>, \<open>Tool_Handlers\<close>, \<open>Server_Run\<close> (\<^verbatim>\<open>internal/mcpserver/\<close>): the results and their bounded
    encoding, the eleven tools over the interfaces \<open>mail_api\<close> and \<open>triage_api\<close> with the tool call and its
    audit line, and the life of a connection; \<open>Tool_Threads\<close> and \<open>Tool_Safety\<close> have their properties, the
    latter with the adapter of the theories above behind the interfaces.
  \<^item> \<open>Bridge_Config\<close> and \<open>Bridge_Dial\<close> (\<^verbatim>\<open>bridge/config.go\<close>, \<^verbatim>\<open>endpoint.go\<close>, \<^verbatim>\<open>tlspolicy.go\<close>, \<^verbatim>\<open>dial.go\<close>): the
    configuration, the check of the peer, and the two ways to a TLS connection with the bounded plaintext of
    STARTTLS; \<open>Bridge_Credentials\<close> (\<^verbatim>\<open>bridge/credentials.go\<close>): the credential helper and its output;
    \<open>Config_Load\<close> (\<^verbatim>\<open>internal/config/\<close>): the files both servers are configured from. \<open>Session_Open\<close> is how the
    adapter opens its session out of these parts, \<open>Server_Start\<close> (\<^verbatim>\<open>cmd/\<close>) how the two servers start.
  \<^item> \<open>Drive_CLI\<close> (\<^verbatim>\<open>internal/drivecli/\<close>): the subprocess adapter of the Drive server; \<open>Drive_Tools\<close>
    (\<^verbatim>\<open>internal/drivemcp/\<close>): its paths, tools, results and audit line, with properties in \<open>Drive_Safety\<close>;
    \<open>Drive_Gate\<close> (\<^verbatim>\<open>internal/drivemcp/gate.go\<close>): the handshake gate under concurrent requests, as the step
    relation \<open>gate_step\<close>.
  \<^item> \<open>Drive_Copy\<close> and \<open>Drive_Files\<close> (\<^verbatim>\<open>internal/drivefs/\<close>): the bounded copy, and output files that are
    confined to descriptors and published as one link, over a kernel that may answer anything; the locale
    \<open>confined_use\<close> is what the confined parent asks of its two clients.
  \<^item> \<open>Fixture_Grammar\<close>, \<open>Fixture_Mailboxes\<close>, \<open>Fixture_Server\<close>, \<open>Fixture_Transcript\<close>, \<open>Fixture_Labels\<close>,
    \<open>Fixture_Label_Faults\<close> (\<^verbatim>\<open>internal/testkit/\<close>): the mutable IMAP server the end-to-end tests run against,
    as the step relations \<open>fixture_step\<close> and \<open>label_step\<close> of its two modes, and what the tests conclude from
    the commands it recorded.

  \<^bold>\<open>What the groups of lemmas show.\<close> Framing and budgets of the quarantine for every interleaving; that
  an accepted search is sound and a page is the newest part of the matches; that every identifier on a
  page resolves to the message it was made for and to nothing else; that the writes a batch performs are
  exactly those its results report; that at most one native MOVE line leaves while the guard is armed;
  that thread building terminates and yields a forest with the links the headers name; that a
  normalized message keeps its bounds whatever the parsers do; that a structure session says one LOGIN,
  EXAMINE, SEARCH and FETCH at most, and in this order.
  On top of these, that the SDK only sees checked frames and sees all of them; that a thread has one node
  per header read; that the tools show, write and report what the adapter found and did; and that a reply
  is bounded and its audit line carries no content.
  For the ground both servers stand on: that a connection is only returned to a loopback peer whose certificate
  is pinned, and that a session sends credentials over no other; that they are what one object of two members says, and are wiped; that a configuration
  file is the caller's own. For the Drive half: that only allowed command lines run, after the handshake; that
  replies are bounded and never depend on a link's password; that the gate lets one handshake at a time
  through; that a copy stays within its limit and what is published is whole. For the test server, that
  its mailboxes and labels stay well formed under any connections, that no command loses a message, and that
  the assertions of the tests over recorded commands mean what they say.

  \<^bold>\<open>Bounds and fuel.\<close> The loops of the sources are structural recursions, functions with a measure, or, where
  the source's loop has no evident bound (\<^verbatim>\<open>wouldCycle\<close>, \<^verbatim>\<open>resolveThreadDepth\<close>, the search for a free
  key), \<open>partial_function\<close>s whose termination on every input the source can produce is part of a
  property. The recursive descent of \<open>Strict_JSON\<close> has the number of tokens as fuel, of which every
  call consumes one, and \<open>validateObject_exact\<close> shows that it never runs out. The copy loop of \<open>Drive_Copy\<close> ends by its budget and its count of
  empty reads, the response loop of \<open>Bridge_Dial\<close> by its count of lines. The eight windows of a search and the two attempts of an operation are the source's own
  constants.

  \<^bold>\<open>Not modelled.\<close> Of the test server, what is left out are its start, its certificates, the canned answers of the scripted
  scenarios (with \<^verbatim>\<open>bodystructure.go\<close> and \<^verbatim>\<open>fixtures.go\<close>) and the snapshots, which copy the store. Of the two MCP servers, the schemas and
  descriptions of the tool catalogue are data for the SDK,
  and a panic of an implementation, which \<^verbatim>\<open>runTool\<close> turns into the internal code, does not occur in the model.
  Sockets, the TLS handshake up to the check of the peer, child processes with their process groups, the file
  system, the certificate parsers and \<^verbatim>\<open>netip.ParseAddr\<close> are fields of the environments; the hooks of
  \<^verbatim>\<open>internal/drivefs\<close>, which only its tests set, are nil.
  Concurrency is modelled where the sources let it be seen: in the interleavings of the quarantine, in the
  closing of a connection, and in the Drive server's handshake gate; the adapter's gate admits one operation at a
  time and appears as the outcome of \<^verbatim>\<open>acquire\<close>, and the goroutine that closes a connection with its context is
  a read that fails.
\<close>

end
